(* ===== verification/Prelude.thy ===== *)
theory Prelude
  imports Main "HOL-Library.Word"
begin

text \<open>
  Shared vocabulary of the development: the errno values the C code stores, byte and machine
  integer abbreviations, block copies on byte arrays (\<open>blit\<close> is memcpy into an array), the
  array scan that every fixed-size table of the program uses (\<open>scan\<close> is the loop
  \<^verbatim>\<open>for(i=first;i<n;i++) if(P(i)) return i;\<close>), and the interface locales that several
  components share: a bounded FIFO (the ring buffer of a pipe) and a keyed slot registry
  (the tables that map guest addresses or thread ids to host objects).
\<close>

unbundle bit_operations_syntax

type_synonym byte = "8 word"
type_synonym u16 = "16 word"
type_synonym u32 = "32 word"
type_synonym u64 = "64 word"

named_theorems op_defs \<open>definitions of the operations of a component\<close>
named_theorems inv_intros \<open>preservation of component invariants\<close>

section \<open>Errors\<close>

text \<open>
  The errno values stored by the code.  \<open>E_UNSET\<close> stands for a failure return that leaves
  errno alone; \<open>E_HOST n\<close> is an errno value produced by the C library below the bridge.
\<close>

datatype errno =
    EPERM | ENOENT | ESRCH | EINTR | EIO | EBADF | EAGAIN | ENOMEM | EFAULT | EBUSY | EEXIST
  | EINVAL | EMFILE | EPIPE | ESPIPE | ERANGE | ENOSYS | EDEADLK | ETIMEDOUT | EOPNOTSUPP | EILSEQ
  | E_UNSET | E_HOST nat

type_synonym 'a result = "errno + 'a"

section \<open>Block copies\<close>

definition blit :: "'a list \<Rightarrow> nat \<Rightarrow> 'a list \<Rightarrow> 'a list" where
  "blit dst off src = take off dst @ src @ drop (off + length src) dst"

lemma length_blit [simp]:
  "off + length src \<le> length dst \<Longrightarrow> length (blit dst off src) = length dst"
  by (simp add: blit_def)

lemma nth_blit:
  assumes "off + length src \<le> length dst" and "i < length dst"
  shows "blit dst off src ! i =
    (if off \<le> i \<and> i < off + length src then src ! (i - off) else dst ! i)"
  using assms by (auto simp: blit_def nth_append min_def)

lemma blit_Nil [simp]: "blit dst off [] = dst"
  by (simp add: blit_def)

section \<open>Counting table entries\<close>

definition count_where :: "('a \<Rightarrow> bool) \<Rightarrow> 'a list \<Rightarrow> nat" where
  "count_where P xs = length (filter P xs)"

lemma count_where_update:
  assumes "i < length xs"
  shows "count_where P (xs[i := e]) + of_bool (P (xs ! i)) = count_where P xs + of_bool (P e)"
proof -
  have "count_where P xs =
      count_where P (take i xs) + of_bool (P (xs ! i)) + count_where P (drop (Suc i) xs)"
    by (subst id_take_nth_drop [OF assms]) (simp add: count_where_def)
  moreover have "count_where P (xs[i := e]) =
      count_where P (take i xs) + of_bool (P e) + count_where P (drop (Suc i) xs)"
    by (simp add: upd_conv_take_nth_drop [OF assms] count_where_def)
  ultimately show ?thesis by simp
qed

lemma count_where_pos: "i < length xs \<Longrightarrow> P (xs ! i) \<Longrightarrow> 0 < count_where P xs"
  by (auto simp: count_where_def filter_empty_conv)

lemma count_where_0: "count_where P xs = 0 \<longleftrightarrow> (\<forall>x\<in>set xs. \<not> P x)"
  by (simp add: count_where_def filter_empty_conv)

lemma count_where_le: "count_where P xs \<le> length xs"
  by (simp add: count_where_def)

section \<open>Scanning a table\<close>

function scan :: "(nat \<Rightarrow> bool) \<Rightarrow> nat \<Rightarrow> nat \<Rightarrow> nat option" where
  "scan P i n = (if i < n then (if P i then Some i else scan P (Suc i) n) else None)"
  by pat_completeness auto
termination
  by (relation "measure (\<lambda>(P, i, n). n - i)") auto

declare scan.simps [simp del]

lemma all_from_Suc:
  "(\<forall>j. i \<le> j \<and> j < k \<longrightarrow> Q j) \<longleftrightarrow>
   (i < k \<longrightarrow> Q i) \<and> (\<forall>j. Suc i \<le> j \<and> j < k \<longrightarrow> Q j)"
  by (metis Suc_leD le_eq_less_or_eq less_eq_Suc_le)

lemma scan_Some_iff:
  "scan P i n = Some k \<longleftrightarrow> i \<le> k \<and> k < n \<and> P k \<and> (\<forall>j. i \<le> j \<and> j < k \<longrightarrow> \<not> P j)"
proof (induction P i n rule: scan.induct)
  case (1 P i n)
  show ?case
  proof (cases "i < n \<and> \<not> P i")
    case True
    then have "scan P i n = scan P (Suc i) n" by (simp add: scan.simps [of P i n])
    also have "\<dots> = Some k \<longleftrightarrow>
      Suc i \<le> k \<and> k < n \<and> P k \<and> (\<forall>j. Suc i \<le> j \<and> j < k \<longrightarrow> \<not> P j)"
      using "1.IH" True by blast
    also have "\<dots> \<longleftrightarrow> i \<le> k \<and> k < n \<and> P k \<and> (\<forall>j. i \<le> j \<and> j < k \<longrightarrow> \<not> P j)"
      using True all_from_Suc [of i k "\<lambda>j. \<not> P j"]
      by (metis Suc_le_eq le_eq_less_or_eq)
    finally show ?thesis .
  next
    case False
    then consider "n \<le> i" | "i < n" "P i" by linarith
    then show ?thesis
    proof cases
      case 1
      then show ?thesis by (simp add: scan.simps [of P i n])
    next
      case 2
      have "k = i" if "i \<le> k" "\<forall>j. i \<le> j \<and> j < k \<longrightarrow> \<not> P j"
        using that 2 by (metis le_eq_less_or_eq)
      with 2 show ?thesis by (auto simp: scan.simps [of P i n])
    qed
  qed
qed

lemma scan_None_iff: "scan P i n = None \<longleftrightarrow> (\<forall>j. i \<le> j \<and> j < n \<longrightarrow> \<not> P j)"
proof (induction P i n rule: scan.induct)
  case (1 P i n)
  show ?case
  proof (cases "i < n \<and> \<not> P i")
    case True
    then have "scan P i n = scan P (Suc i) n" by (simp add: scan.simps [of P i n])
    with "1.IH" True all_from_Suc [of i n "\<lambda>j. \<not> P j"] show ?thesis by simp
  next
    case False
    then show ?thesis by (auto simp: scan.simps [of P i n])
  qed
qed

lemma scan_SomeD: "scan P i n = Some k \<Longrightarrow> i \<le> k \<and> k < n \<and> P k"
  by (simp add: scan_Some_iff)

lemma scan_bound: "scan P i n = Some k \<Longrightarrow> k < n"
  by (simp add: scan_Some_iff)

lemma scan_cong: "(\<And>j. i \<le> j \<Longrightarrow> j < n \<Longrightarrow> P j = Q j) \<Longrightarrow> scan P i n = scan Q i n"
proof (cases "scan Q i n")
  case None
  assume "\<And>j. i \<le> j \<Longrightarrow> j < n \<Longrightarrow> P j = Q j"
  with None have "scan P i n = None" by (simp add: scan_None_iff)
  with None show ?thesis by simp
next
  case (Some k)
  assume "\<And>j. i \<le> j \<Longrightarrow> j < n \<Longrightarrow> P j = Q j"
  with Some have "scan P i n = Some k" by (simp add: scan_Some_iff)
  with Some show ?thesis by simp
qed

section \<open>Interfaces shared by several components\<close>

text \<open>
  A bounded FIFO.  \<open>put\<close> appends a block that fits, \<open>get\<close> removes a block that is there;
  the ring buffer of a pipe is the provider, blocking read and write are the clients.
\<close>

locale bounded_fifo =
  fixes contents :: "'q \<Rightarrow> 'a list"
    and invar :: "'q \<Rightarrow> bool"
    and capacity :: nat
    and put :: "'a list \<Rightarrow> 'q \<Rightarrow> 'q"
    and get :: "nat \<Rightarrow> 'q \<Rightarrow> 'a list \<times> 'q"
  assumes bounded: "invar q \<Longrightarrow> length (contents q) \<le> capacity"
    and put_contents:
      "invar q \<Longrightarrow> length (contents q) + length xs \<le> capacity \<Longrightarrow>
       contents (put xs q) = contents q @ xs"
    and put_invar:
      "invar q \<Longrightarrow> length (contents q) + length xs \<le> capacity \<Longrightarrow> invar (put xs q)"
    and get_fst: "invar q \<Longrightarrow> n \<le> length (contents q) \<Longrightarrow> fst (get n q) = take n (contents q)"
    and get_contents:
      "invar q \<Longrightarrow> n \<le> length (contents q) \<Longrightarrow> contents (snd (get n q)) = drop n (contents q)"
    and get_invar: "invar q \<Longrightarrow> n \<le> length (contents q) \<Longrightarrow> invar (snd (get n q))"
begin

lemma get_split:
  assumes "invar q" and "n \<le> length (contents q)"
  shows "contents q = fst (get n q) @ contents (snd (get n q))"
  using assms by (simp add: get_fst get_contents)

lemma put_get:
  assumes "invar q" and "contents q = []" and "length xs \<le> capacity"
  shows "fst (get (length xs) (put xs q)) = xs"
    and "contents (snd (get (length xs) (put xs q))) = []"
  using assms by (simp_all add: put_contents put_invar get_fst get_contents)

lemma put_put:
  assumes "invar q" and "length (contents q) + length xs + length ys \<le> capacity"
  shows "contents (put ys (put xs q)) = contents (put (xs @ ys) q)"
  using assms by (simp add: put_contents put_invar)

end

text \<open>
  A keyed registry over a fixed table: \<open>find\<close> reads it, \<open>acquire\<close> returns the slot of a key
  and creates it when there is room.
\<close>

locale slot_registry =
  fixes find :: "'s \<Rightarrow> 'k \<Rightarrow> nat option"
    and invar :: "'s \<Rightarrow> bool"
    and acquire :: "'k \<Rightarrow> 's \<Rightarrow> nat option \<times> 's"
  assumes find_inj: "invar s \<Longrightarrow> find s k = Some i \<Longrightarrow> find s k' = Some i \<Longrightarrow> k = k'"
    and acquire_hit: "invar s \<Longrightarrow> find s k = Some i \<Longrightarrow> acquire k s = (Some i, s)"
    and acquire_new: "invar s \<Longrightarrow> acquire k s = (Some i, s') \<Longrightarrow> find s' k = Some i"
    and acquire_full: "invar s \<Longrightarrow> acquire k s = (None, s') \<Longrightarrow> s' = s \<and> find s k = None"
    and acquire_other: "invar s \<Longrightarrow> k' \<noteq> k \<Longrightarrow> find (snd (acquire k s)) k' = find s k'"
    and acquire_invar: "invar s \<Longrightarrow> invar (snd (acquire k s))"
begin

lemma acquire_stable:
  assumes "invar s" and "acquire k s = (Some i, s')"
  shows "acquire k s' = (Some i, s')"
proof -
  from assms have "invar s'" using acquire_invar [of s k] by simp
  moreover from assms have "find s' k = Some i" by (rule acquire_new)
  ultimately show ?thesis by (rule acquire_hit)
qed

lemma acquire_distinct:
  assumes "invar s" and "acquire k s = (Some i, s')" and "acquire k' s' = (Some j, s'')" and "k \<noteq> k'"
  shows "i \<noteq> j"
proof
  assume "i = j"
  from assms have i': "invar s'" using acquire_invar [of s k] by simp
  with assms have i'': "invar s''" using acquire_invar [of s' k'] by simp
  from assms i' have "find s'' k' = Some j" by (blast intro: acquire_new)
  moreover have "find s'' k = Some i"
    using acquire_other [OF i', of k k'] acquire_new [OF assms(1,2)] assms(3,4) by simp
  ultimately show False using \<open>i = j\<close> find_inj [OF i''] assms(4) by blast
qed

end

text \<open>A registry whose keys can be given back; \<open>proper\<close> are the keys the release accepts.\<close>

locale releasable_registry = slot_registry +
  fixes release :: "'k \<Rightarrow> 's \<Rightarrow> 's"
    and proper :: "'k \<Rightarrow> bool"
  assumes release_find: "invar s \<Longrightarrow> proper k \<Longrightarrow> find (release k s) k = None"
    and release_other: "invar s \<Longrightarrow> k' \<noteq> k \<Longrightarrow> find (release k s) k' = find s k'"
    and release_invar: "invar s \<Longrightarrow> invar (release k s)"
begin

lemma release_absent:
  assumes "invar s" and "proper k"
  shows "find (release k (release k s)) k' = find (release k s) k'"
  using assms by (cases "k' = k") (simp_all add: release_find release_other release_invar)

lemma acquire_release_other:
  assumes "invar s" and "k' \<noteq> k"
  shows "find (release k (snd (acquire k s))) k' = find s k'"
  using assms by (simp add: release_other acquire_other acquire_invar)

text \<open>An object that was given back is created afresh by its next use.\<close>

lemma release_then_acquire:
  assumes "invar s" and "proper k" and "acquire k (release k s) = (Some i, s')"
  shows "find (release k s) k = None \<and> find s' k = Some i"
  using assms acquire_new [OF release_invar [OF assms(1)] assms(3)] release_find by blast

end

text \<open>
  An allocator of runs of consecutive slots below a limit: \<open>take\<close> finds a free run, \<open>release\<close>
  gives a run back.
\<close>

locale run_allocator =
  fixes used_set :: "'s \<Rightarrow> nat set"
    and limit :: "'s \<Rightarrow> nat"
    and invar :: "'s \<Rightarrow> bool"
    and take_run :: "nat \<Rightarrow> 's \<Rightarrow> nat option \<times> 's"
    and release_run :: "nat \<Rightarrow> nat \<Rightarrow> 's \<Rightarrow> 's"
  assumes take_fresh: "invar s \<Longrightarrow> take_run c s = (Some i, s') \<Longrightarrow>
      0 < c \<and> i + c \<le> limit s \<and> {i..<i + c} \<inter> used_set s = {}"
    and take_used: "invar s \<Longrightarrow> take_run c s = (Some i, s') \<Longrightarrow>
      used_set s' = used_set s \<union> {i..<i + c} \<and> limit s' = limit s \<and> invar s'"
    and take_fail: "invar s \<Longrightarrow> take_run c s = (None, s') \<Longrightarrow> s' = s"
    and release_used: "invar s \<Longrightarrow> 0 < c \<Longrightarrow> i + c \<le> limit s \<Longrightarrow>
      used_set (release_run i c s) = used_set s - {i..<i + c} \<and>
      limit (release_run i c s) = limit s \<and> invar (release_run i c s)"
begin

lemma take_release:
  assumes "invar s" and "take_run c s = (Some i, s')"
  shows "used_set (release_run i c s') = used_set s"
proof -
  have "0 < c" "i + c \<le> limit s'" "invar s'" "used_set s' = used_set s \<union> {i..<i + c}"
    "{i..<i + c} \<inter> used_set s = {}"
    using take_fresh [OF assms] take_used [OF assms] by auto
  with release_used [of s' c i] show ?thesis by auto
qed

lemma take_take_disjoint:
  assumes "invar s" and "take_run c s = (Some i, s')" and "take_run d s' = (Some j, s'')"
  shows "{i..<i + c} \<inter> {j..<j + d} = {}"
proof -
  have "{j..<j + d} \<inter> (used_set s \<union> {i..<i + c}) = {}"
    using take_used [OF assms(1,2)] take_fresh [OF _ assms(3)] by simp
  then show ?thesis by (simp only: Int_Un_distrib Un_empty Int_commute)
qed

end

section \<open>Ownership of a finite resource\<close>

text \<open>
  \<open>owns f U\<close>: the sets \<open>f o\<close> of the owners are disjoint and their union is \<open>U\<close>.
\<close>

definition owns :: "('o \<Rightarrow> 'a set) \<Rightarrow> 'a set \<Rightarrow> bool" where
  "owns f U \<longleftrightarrow> (\<forall>x y. x \<noteq> y \<longrightarrow> f x \<inter> f y = {}) \<and> (\<Union>x. f x) = U"

lemma owns_disjoint: "owns f U \<Longrightarrow> x \<noteq> y \<Longrightarrow> f x \<inter> f y = {}"
  by (simp add: owns_def)

lemma owns_mem: "owns f U \<Longrightarrow> a \<in> U \<longleftrightarrow> (\<exists>x. a \<in> f x)"
  by (auto simp: owns_def)

lemma owns_subset: "owns f U \<Longrightarrow> f x \<subseteq> U"
  by (auto simp: owns_def)

lemma owns_unique: "owns f U \<Longrightarrow> a \<in> f x \<Longrightarrow> a \<in> f y \<Longrightarrow> x = y"
  by (metis IntI empty_iff owns_disjoint)

lemma ownsI:
  assumes "\<And>a x y. a \<in> f x \<Longrightarrow> a \<in> f y \<Longrightarrow> x = y" and "\<And>a. a \<in> U \<longleftrightarrow> (\<exists>x. a \<in> f x)"
  shows "owns f U"
proof -
  have "f x \<inter> f y = {}" if "x \<noteq> y" for x y using assms(1) that by auto
  moreover have "(\<Union>x. f x) = U" using assms(2) by auto
  ultimately show ?thesis by (simp add: owns_def)
qed

lemma owns_grab:
  assumes "owns f U" and "f x = {}" and "R \<inter> U = {}"
  shows "owns (f(x := R)) (U \<union> R)"
proof (rule ownsI)
  have R: "a \<in> f y \<Longrightarrow> a \<notin> R" for a y using assms(3) owns_subset [OF assms(1), of y] by auto
  show "y = z" if "a \<in> (f(x := R)) y" and "a \<in> (f(x := R)) z" for a y z
    using that R [of a y] R [of a z] owns_unique [OF assms(1), of a y z]
    by (cases "y = x"; cases "z = x") simp_all
  show "a \<in> U \<union> R \<longleftrightarrow> (\<exists>y. a \<in> (f(x := R)) y)" for a
    using owns_mem [OF assms(1), of a] assms(2) by (metis Un_iff empty_iff fun_upd_apply)
qed

lemma owns_give:
  assumes "owns f U" and "R \<subseteq> f x"
  shows "owns (f(x := f x - R)) (U - R)"
proof (rule ownsI)
  have R: "a \<in> R \<Longrightarrow> a \<in> f y \<Longrightarrow> y = x" for a y
    using assms(2) owns_unique [OF assms(1), of a x y] by auto
  show "y = z" if "a \<in> (f(x := f x - R)) y" and "a \<in> (f(x := f x - R)) z" for a y z
    using that owns_unique [OF assms(1), of a y z] by (cases "y = x"; cases "z = x") simp_all
  show "a \<in> U - R \<longleftrightarrow> (\<exists>y. a \<in> (f(x := f x - R)) y)" for a
    using owns_mem [OF assms(1), of a] R [of a] by (metis Diff_iff fun_upd_apply)
qed

lemma owns_move:
  assumes "owns f U" and "x \<noteq> y" and "f y = {}"
  shows "owns (f(x := {}, y := f x)) U"
proof (rule ownsI)
  show "u = v" if "a \<in> (f(x := {}, y := f x)) u" and "a \<in> (f(x := {}, y := f x)) v" for a u v
    using that assms owns_unique [OF assms(1), of a] by (auto split: if_splits)
  show "a \<in> U \<longleftrightarrow> (\<exists>u. a \<in> (f(x := {}, y := f x)) u)" for a
    using owns_mem [OF assms(1), of a] assms(2,3) by (metis empty_iff fun_upd_apply)
qed

section \<open>Strings\<close>

text \<open>\<open>starts_with\<close> is \<^verbatim>\<open>strncmp(s, prefix, strlen(prefix)) == 0\<close>; \<open>find_sub\<close> is \<^verbatim>\<open>strstr\<close>, giving the rest from the match.\<close>

fun starts_with :: "string \<Rightarrow> string \<Rightarrow> bool" where
  "starts_with [] s = True"
| "starts_with (c # cs) [] = False"
| "starts_with (c # cs) (d # ds) = (c = d \<and> starts_with cs ds)"

fun find_sub :: "string \<Rightarrow> string \<Rightarrow> string option" where
  "find_sub [] needle = (if needle = [] then Some [] else None)"
| "find_sub (c # cs) needle = (if starts_with needle (c # cs) then Some (c # cs) else find_sub cs needle)"

text \<open>The rest after the last occurrence of a character (\<^verbatim>\<open>strrchr(s, c) + 1\<close>).\<close>

definition after_last :: "char \<Rightarrow> string \<Rightarrow> string option" where
  "after_last c s = (if c \<in> set s then Some (rev (takeWhile (\<lambda>x. x \<noteq> c) (rev s))) else None)"

lemma starts_with_append: "starts_with p s \<longleftrightarrow> (\<exists>r. s = p @ r)"
  by (induction p s rule: starts_with.induct) auto

lemma starts_with_drop: "starts_with p s \<Longrightarrow> p @ drop (length p) s = s"
  by (auto simp: starts_with_append)

lemma find_sub_Some: "find_sub s needle = Some r \<Longrightarrow> \<exists>pre. s = pre @ r \<and> starts_with needle r"
proof (induction s needle rule: find_sub.induct)
  case (2 c cs needle)
  show ?case
  proof (cases "starts_with needle (c # cs)")
    case True
    with "2.prems" show ?thesis by (intro exI [of _ "[]"]) auto
  next
    case False
    with "2.IH" "2.prems" obtain pre where "cs = pre @ r \<and> starts_with needle r" by auto
    then show ?thesis by (intro exI [of _ "c # pre"]) simp
  qed
qed (auto split: if_splits)

section \<open>Words from bytes\<close>

lemma foldl_or_bit:
  "bit (foldl (\<lambda>bits i. bits OR g i) a xs) m \<longleftrightarrow> bit a m \<or> (\<exists>i\<in>set xs. bit (g i :: 'a::len word) m)"
  by (induction xs arbitrary: a) (auto simp: bit_or_iff)

lemma bytes_bit:
  "bit (foldl (\<lambda>v i. v OR push_bit (8 * i) (ucast (f i :: byte))) 0 [0..<n] :: 'a::len word) m \<longleftrightarrow>
     m < LENGTH('a) \<and> m < 8 * n \<and> bit (f (m div 8)) (m mod 8)"
proof -
  have "bit (push_bit (8 * i) (ucast (f i)) :: 'a word) m \<longleftrightarrow> m < LENGTH('a) \<and> m div 8 = i \<and> bit (f i) (m mod 8)" for i
  proof (cases "8 * i \<le> m \<and> m < 8 * i + 8")
    case True
    then have "m div 8 = i" by (intro div_nat_eqI) simp_all
    moreover from this have "m mod 8 = m - 8 * i" by (simp add: minus_mult_div_eq_mod [symmetric])
    ultimately show ?thesis using True by (auto simp: bit_simps)
  next
    case False
    then have "m div 8 \<noteq> i" by (metis mult.commute div_times_less_eq_dividend dividend_less_div_times zero_less_numeral add.commute)
    moreover have "\<not> bit (f i) (m - 8 * i)" if "8 * i \<le> m" using False that bit_imp_le_length [of "f i" "m - 8 * i"] by auto
    ultimately show ?thesis by (auto simp: bit_simps)
  qed
  then show ?thesis by (auto simp: foldl_or_bit)
qed

end
