(* ===== verification/FakeFd.thy ===== *)
theory FakeFd
  imports Prelude
begin

text \<open>
  The emulated pipes of \<^verbatim>\<open>source/fakefd.c\<close>: 48 descriptors from 900 on, backed by 16 KiB ring
  buffers that are reference counted by the descriptors that name them.  Each function is the
  body the C code runs while it holds \<^verbatim>\<open>g_lock\<close>, so it is one atomic step of the state
  \<open>fds\<close>.  \<open>sleeping\<close> is the wait queue of the condition variable \<^verbatim>\<open>g_cond\<close>: \<^verbatim>\<open>condvarWait\<close>
  puts the calling thread there, \<^verbatim>\<open>condvarWakeAll\<close> empties it.  The heap of \<^verbatim>\<open>PipeState\<close> objects
  is a partial map from addresses; reading a freed address is the outcome \<open>Fault\<close>, and the
  \<^verbatim>\<open>continue\<close> of the write loop that would make no progress is the outcome \<open>Spin\<close>, so that
  their absence is a theorem and not an assumption.
\<close>

section \<open>State\<close>

datatype fkind = FAKEFD_UNUSED | FAKEFD_PIPE_READ | FAKEFD_PIPE_WRITE

record pipe_state =
  pdata :: "byte list"
  head :: nat
  plength :: nat
  readers :: nat
  writers :: nat

record fd_entry =
  fkind :: fkind
  fpipe :: "nat option"
  fd_flags :: u32
  status_flags :: u32

record fds =
  slots :: "fd_entry list"
  pipes :: "nat \<Rightarrow> pipe_state option"
  sleeping :: "nat set"

definition ASNX_FAKE_FD_BASE :: int where "ASNX_FAKE_FD_BASE = 900"
definition ASNX_FAKE_FD_COUNT :: nat where "ASNX_FAKE_FD_COUNT = 48"
definition PIPE_CAPACITY :: nat where "PIPE_CAPACITY = 16384"
definition ANDROID_O_NONBLOCK :: u32 where "ANDROID_O_NONBLOCK = 0x800"

definition zero_entry :: fd_entry where
  "zero_entry = \<lparr>fkind = FAKEFD_UNUSED, fpipe = None, fd_flags = 0, status_flags = 0\<rparr>"

definition init_fds :: fds where
  "init_fds = \<lparr>slots = replicate ASNX_FAKE_FD_COUNT zero_entry, pipes = (\<lambda>_. None), sleeping = {}\<rparr>"

text \<open>A freshly \<^verbatim>\<open>calloc\<close>ed pipe with the two counts the constructor stores.\<close>

definition new_pipe :: pipe_state where
  "new_pipe = \<lparr>pdata = replicate PIPE_CAPACITY 0, head = 0, plength = 0, readers = 1, writers = 1\<rparr>"

definition set_slot :: "nat \<Rightarrow> fd_entry \<Rightarrow> fds \<Rightarrow> fds" where
  "set_slot i e s = s\<lparr>slots := (slots s)[i := e]\<rparr>"

definition set_pipe :: "nat \<Rightarrow> pipe_state option \<Rightarrow> fds \<Rightarrow> fds" where
  "set_pipe p v s = s\<lparr>pipes := (pipes s)(p := v)\<rparr>"

definition condvarWakeAll :: "fds \<Rightarrow> fds" where
  "condvarWakeAll s = s\<lparr>sleeping := {}\<rparr>"

definition condvarWait :: "nat \<Rightarrow> fds \<Rightarrow> fds" where
  "condvarWait tid s = s\<lparr>sleeping := insert tid (sleeping s)\<rparr>"

definition nonblocking :: "nat \<Rightarrow> fds \<Rightarrow> bool" where
  "nonblocking slot s \<longleftrightarrow> status_flags (slots s ! slot) AND ANDROID_O_NONBLOCK \<noteq> 0"

section \<open>Descriptor arithmetic and slot allocation\<close>

definition slot_from_fd :: "int \<Rightarrow> nat option" where
  "slot_from_fd fd =
     (let slot = fd - ASNX_FAKE_FD_BASE
      in if 0 \<le> slot \<and> slot < int ASNX_FAKE_FD_COUNT then Some (nat slot) else None)"

definition fd_of_slot :: "nat \<Rightarrow> int" where
  "fd_of_slot slot = ASNX_FAKE_FD_BASE + int slot"

definition alloc_slot_from :: "int \<Rightarrow> fds \<Rightarrow> nat option" where
  "alloc_slot_from minimum_fd s =
     (let first = (if ASNX_FAKE_FD_BASE < minimum_fd then minimum_fd - ASNX_FAKE_FD_BASE else 0)
      in if int ASNX_FAKE_FD_COUNT \<le> first then None
         else scan (\<lambda>i. fkind (slots s ! i) = FAKEFD_UNUSED) (nat first) ASNX_FAKE_FD_COUNT)"

definition fakefd_is_range :: "int \<Rightarrow> bool" where
  "fakefd_is_range fd \<longleftrightarrow> slot_from_fd fd \<noteq> None"

definition fakefd_is_open :: "int \<Rightarrow> fds \<Rightarrow> bool" where
  "fakefd_is_open fd s =
     (case slot_from_fd fd of None \<Rightarrow> False
      | Some slot \<Rightarrow> fkind (slots s ! slot) \<noteq> FAKEFD_UNUSED)"

section \<open>Creating a pipe\<close>

text \<open>
  \<open>fds_ok\<close> is the null check of the argument, \<open>fresh\<close> the result of \<^verbatim>\<open>calloc\<close> (\<open>None\<close> when
  it fails).
\<close>

definition fakefd_pipe :: "bool \<Rightarrow> nat option \<Rightarrow> fds \<Rightarrow> (int \<times> int) result \<times> fds" where
  "fakefd_pipe fds_ok fresh s =
     (if \<not> fds_ok then (Inl EFAULT, s)
      else case alloc_slot_from ASNX_FAKE_FD_BASE s of
        None \<Rightarrow> (Inl EMFILE, s)
      | Some r \<Rightarrow>
          let s1 = set_slot r ((slots s ! r)\<lparr>fkind := FAKEFD_PIPE_READ\<rparr>) s
          in (case alloc_slot_from ASNX_FAKE_FD_BASE s1 of
                None \<Rightarrow> (Inl EMFILE, set_slot r zero_entry s1)
              | Some w \<Rightarrow>
                  (case fresh of
                     None \<Rightarrow> (Inl ENOMEM, set_slot r zero_entry s1)
                   | Some p \<Rightarrow>
                       let s2 = set_pipe p (Some new_pipe) s1;
                           s3 = set_slot r \<lparr>fkind = FAKEFD_PIPE_READ, fpipe = Some p,
                                            fd_flags = 0, status_flags = 0\<rparr> s2;
                           s4 = set_slot w \<lparr>fkind = FAKEFD_PIPE_WRITE, fpipe = Some p,
                                            fd_flags = 0, status_flags = 0\<rparr> s3
                       in (Inr (fd_of_slot r, fd_of_slot w), s4))))"

section \<open>The ring buffer\<close>

text \<open>The block taken by a read: up to the end of the array, then from its start.\<close>

definition ring_get :: "nat \<Rightarrow> pipe_state \<Rightarrow> byte list \<times> pipe_state" where
  "ring_get amount p =
     (let first = (if PIPE_CAPACITY - head p < amount then PIPE_CAPACITY - head p else amount);
          bytes = take first (drop (head p) (pdata p)) @
                  (if first < amount then take (amount - first) (pdata p) else [])
      in (bytes, p\<lparr>head := (head p + amount) mod PIPE_CAPACITY, plength := plength p - amount\<rparr>))"

definition ring_put :: "byte list \<Rightarrow> pipe_state \<Rightarrow> pipe_state" where
  "ring_put src p =
     (let amount = length src;
          tail = (head p + plength p) mod PIPE_CAPACITY;
          first = (if PIPE_CAPACITY - tail < amount then PIPE_CAPACITY - tail else amount);
          d1 = blit (pdata p) tail (take first src);
          d2 = (if first < amount then blit d1 0 (drop first src) else d1)
      in p\<lparr>pdata := d2, plength := plength p + amount\<rparr>)"

section \<open>Reading and writing\<close>

text \<open>
  What a step of \<^verbatim>\<open>fakefd_read\<close> or \<^verbatim>\<open>fakefd_write\<close> ends in: a return, or a wait on the
  condition variable with the locals it resumes with.
\<close>

datatype 'a outcome = Ret 'a | WaitRead nat nat | WaitWrite nat nat nat | Fault | Spin

text \<open>
  The loop of \<^verbatim>\<open>fakefd_read\<close> from its test on: \<open>slot\<close> and \<open>p\<close> are its locals
  \<^verbatim>\<open>e\<close> and \<^verbatim>\<open>p\<close>.
\<close>

definition read_loop ::
  "nat \<Rightarrow> nat \<Rightarrow> nat \<Rightarrow> nat \<Rightarrow> fds \<Rightarrow> byte list result outcome \<times> fds" where
  "read_loop tid slot p count s =
     (case pipes s p of
        None \<Rightarrow> (Fault, s)
      | Some q \<Rightarrow>
          if plength q = 0 \<and> writers q \<noteq> 0 then
            (if nonblocking slot s then (Ret (Inl EAGAIN), s)
             else (WaitRead slot p, condvarWait tid s))
          else if plength q = 0 \<and> writers q = 0 then (Ret (Inr []), s)
          else
            let amount = (if count < plength q then count else plength q);
                (bytes, q') = ring_get amount q
            in (Ret (Inr bytes), condvarWakeAll (set_pipe p (Some q') s)))"

definition fakefd_read ::
  "nat \<Rightarrow> int \<Rightarrow> bool \<Rightarrow> nat \<Rightarrow> fds \<Rightarrow> byte list result outcome \<times> fds" where
  "fakefd_read tid fd buf_ok count s =
     (case slot_from_fd fd of
        None \<Rightarrow> (Ret (Inl EBADF), s)
      | Some slot \<Rightarrow>
          if \<not> buf_ok \<and> count \<noteq> 0 then (Ret (Inl EFAULT), s)
          else if count = 0 then (Ret (Inr []), s)
          else case (fkind (slots s ! slot), fpipe (slots s ! slot)) of
                 (FAKEFD_PIPE_READ, Some p) \<Rightarrow> read_loop tid slot p count s
               | _ \<Rightarrow> (Ret (Inl EBADF), s))"

text \<open>What the code does when \<^verbatim>\<open>condvarWait\<close> returns.\<close>

definition read_wake ::
  "nat \<Rightarrow> nat \<Rightarrow> nat \<Rightarrow> nat \<Rightarrow> fds \<Rightarrow> byte list result outcome \<times> fds" where
  "read_wake tid slot p count s =
     (if fkind (slots s ! slot) \<noteq> FAKEFD_PIPE_READ \<or> fpipe (slots s ! slot) \<noteq> Some p
      then (Ret (Inl EBADF), s)
      else read_loop tid slot p count s)"

function write_loop ::
  "nat \<Rightarrow> nat \<Rightarrow> nat \<Rightarrow> byte list \<Rightarrow> nat \<Rightarrow> fds \<Rightarrow> nat result outcome \<times> fds" where
  "write_loop tid slot p src written s =
     (if written < length src then
        (case pipes s p of
           None \<Rightarrow> (Fault, s)
         | Some q \<Rightarrow>
             if plength q = PIPE_CAPACITY \<and> readers q \<noteq> 0 then
               (if nonblocking slot s
                then (Ret (if written \<noteq> 0 then Inr written else Inl EAGAIN), s)
                else (WaitWrite slot p written, condvarWait tid s))
             else if readers q = 0 then
               (Ret (if written \<noteq> 0 then Inr written else Inl EPIPE), s)
             else
               let free_space = PIPE_CAPACITY - plength q
               in if free_space = 0 then (Spin, s)
                  else
                    let amount = (if free_space < length src - written
                                  then free_space else length src - written);
                        q' = ring_put (take amount (drop written src)) q;
                        s' = condvarWakeAll (set_pipe p (Some q') s)
                    in if nonblocking slot s' then (Ret (Inr (written + amount)), s')
                       else write_loop tid slot p src (written + amount) s')
      else (Ret (Inr written), s))"
  by pat_completeness auto
termination
  by (relation "measure (\<lambda>(tid, slot, p, src, written, s). length src - written)")
    (auto split: if_splits)

declare write_loop.simps [simp del]

definition fakefd_write ::
  "nat \<Rightarrow> int \<Rightarrow> bool \<Rightarrow> byte list \<Rightarrow> fds \<Rightarrow> nat result outcome \<times> fds" where
  "fakefd_write tid fd buf_ok src s =
     (case slot_from_fd fd of
        None \<Rightarrow> (Ret (Inl EBADF), s)
      | Some slot \<Rightarrow>
          if \<not> buf_ok \<and> src \<noteq> [] then (Ret (Inl EFAULT), s)
          else if src = [] then (Ret (Inr 0), s)
          else case (fkind (slots s ! slot), fpipe (slots s ! slot)) of
                 (FAKEFD_PIPE_WRITE, Some p) \<Rightarrow>
                   (case pipes s p of
                      None \<Rightarrow> (Fault, s)
                    | Some q \<Rightarrow> if readers q = 0 then (Ret (Inl EPIPE), s)
                                else write_loop tid slot p src 0 s)
               | _ \<Rightarrow> (Ret (Inl EBADF), s))"

definition write_wake ::
  "nat \<Rightarrow> nat \<Rightarrow> nat \<Rightarrow> byte list \<Rightarrow> nat \<Rightarrow> fds \<Rightarrow> nat result outcome \<times> fds" where
  "write_wake tid slot p src written s =
     (if fkind (slots s ! slot) \<noteq> FAKEFD_PIPE_WRITE \<or> fpipe (slots s ! slot) \<noteq> Some p
      then (Ret (Inl EBADF), s)
      else write_loop tid slot p src written s)"


section \<open>Closing, duplicating, control\<close>

definition fakefd_close :: "int \<Rightarrow> fds \<Rightarrow> unit result outcome \<times> fds" where
  "fakefd_close fd s =
     (case slot_from_fd fd of
        None \<Rightarrow> (Ret (Inl EBADF), s)
      | Some slot \<Rightarrow>
          let e = slots s ! slot
          in (case (fkind e = FAKEFD_UNUSED, fpipe e) of
                (False, Some p) \<Rightarrow>
                  (case pipes s p of
                     None \<Rightarrow> (Fault, s)
                   | Some q \<Rightarrow>
                       let q1 = (if fkind e = FAKEFD_PIPE_READ \<and> readers q \<noteq> 0
                                 then q\<lparr>readers := readers q - 1\<rparr> else q);
                           q2 = (if fkind e = FAKEFD_PIPE_WRITE \<and> writers q1 \<noteq> 0
                                 then q1\<lparr>writers := writers q1 - 1\<rparr> else q1);
                           s1 = set_slot slot zero_entry (set_pipe p (Some q2) s);
                           free_pipe = (readers q2 = 0 \<and> writers q2 = 0);
                           s2 = condvarWakeAll s1
                       in (Ret (Inr ()), if free_pipe then set_pipe p None s2 else s2))
              | _ \<Rightarrow> (Ret (Inl EBADF), s)))"

definition clone_into_slot_locked ::
  "fd_entry \<Rightarrow> nat option \<Rightarrow> bool \<Rightarrow> fds \<Rightarrow> int option outcome \<times> fds" where
  "clone_into_slot_locked src dst cloexec s =
     (case dst of
        None \<Rightarrow> (Ret None, s)
      | Some slot \<Rightarrow>
          if slot \<ge> ASNX_FAKE_FD_COUNT \<or> fkind (slots s ! slot) \<noteq> FAKEFD_UNUSED then (Ret None, s)
          else
            let e = (if cloexec then src\<lparr>fd_flags := fd_flags src OR 1\<rparr> else src);
                s1 = set_slot slot e s
            in (case fpipe src of
                  None \<Rightarrow> (Fault, s1)
                | Some p \<Rightarrow>
                    (case pipes s1 p of
                       None \<Rightarrow> (Fault, s1)
                     | Some q \<Rightarrow>
                         (Ret (Some (fd_of_slot slot)),
                          if fkind src = FAKEFD_PIPE_READ
                          then set_pipe p (Some (q\<lparr>readers := readers q + 1\<rparr>)) s1
                          else if fkind src = FAKEFD_PIPE_WRITE
                          then set_pipe p (Some (q\<lparr>writers := writers q + 1\<rparr>)) s1
                          else s1))))"

text \<open>The value of a clone as the caller returns it: \<^verbatim>\<open>if (ret < 0) errno = e\<close>.\<close>

definition clone_result :: "errno \<Rightarrow> int option outcome \<times> fds \<Rightarrow> int result outcome \<times> fds" where
  "clone_result e r =
     (case r of
        (Ret None, s) \<Rightarrow> (Ret (Inl e), s)
      | (Ret (Some fd), s) \<Rightarrow> (Ret (Inr fd), s)
      | (_, s) \<Rightarrow> (Fault, s))"

definition fakefd_dup :: "int \<Rightarrow> int \<Rightarrow> bool \<Rightarrow> fds \<Rightarrow> int result outcome \<times> fds" where
  "fakefd_dup fd min_fd cloexec s =
     (case slot_from_fd fd of
        None \<Rightarrow> (Ret (Inl EBADF), s)
      | Some slot \<Rightarrow>
          let src = slots s ! slot
          in if fkind src = FAKEFD_UNUSED \<or> fpipe src = None then (Ret (Inl EBADF), s)
             else clone_result EMFILE
                    (clone_into_slot_locked src (alloc_slot_from min_fd s) cloexec s))"

text \<open>
  \<^verbatim>\<open>fakefd_dup2\<close> closes the target in a critical section of its own before it looks at the
  source; \<open>fakefd_dup2_locked\<close> is the second section.
\<close>

definition fakefd_dup2_locked :: "nat \<Rightarrow> nat \<Rightarrow> fds \<Rightarrow> int result outcome \<times> fds" where
  "fakefd_dup2_locked oldslot newslot s =
     (let src = slots s ! oldslot
      in if fkind src = FAKEFD_UNUSED \<or> fpipe src = None then (Ret (Inl EBADF), s)
         else clone_result EBUSY (clone_into_slot_locked src (Some newslot) False s))"

definition fakefd_dup2 :: "int \<Rightarrow> int \<Rightarrow> fds \<Rightarrow> int result outcome \<times> fds" where
  "fakefd_dup2 oldfd newfd s =
     (case (slot_from_fd oldfd, slot_from_fd newfd) of
        (Some oldslot, Some newslot) \<Rightarrow>
          if oldfd = newfd
          then (Ret (if fakefd_is_open oldfd s then Inr newfd else Inl E_UNSET), s)
          else
            (case (if fakefd_is_open newfd s then fakefd_close newfd s else (Ret (Inr ()), s)) of
               (Fault, s1) \<Rightarrow> (Fault, s1)
             | (_, s1) \<Rightarrow> fakefd_dup2_locked oldslot newslot s1)
      | _ \<Rightarrow> (Ret (Inl EBADF), s))"

text \<open>The Android \<^verbatim>\<open>fcntl\<close> commands.\<close>

definition ANDROID_F_DUPFD :: int where "ANDROID_F_DUPFD = 0"
definition ANDROID_F_GETFD :: int where "ANDROID_F_GETFD = 1"
definition ANDROID_F_SETFD :: int where "ANDROID_F_SETFD = 2"
definition ANDROID_F_GETFL :: int where "ANDROID_F_GETFL = 3"
definition ANDROID_F_SETFL :: int where "ANDROID_F_SETFL = 4"
definition ANDROID_F_GETLK :: int where "ANDROID_F_GETLK = 5"
definition ANDROID_F_SETLK :: int where "ANDROID_F_SETLK = 6"
definition ANDROID_F_SETLKW :: int where "ANDROID_F_SETLKW = 7"
definition ANDROID_F_DUPFD_CLOEXEC :: int where "ANDROID_F_DUPFD_CLOEXEC = 1030"

lemmas android_f_defs =
  ANDROID_F_DUPFD_def ANDROID_F_GETFD_def ANDROID_F_SETFD_def ANDROID_F_GETFL_def
  ANDROID_F_SETFL_def ANDROID_F_GETLK_def ANDROID_F_SETLK_def ANDROID_F_SETLKW_def
  ANDROID_F_DUPFD_CLOEXEC_def

definition fakefd_fcntl :: "int \<Rightarrow> int \<Rightarrow> u32 \<Rightarrow> fds \<Rightarrow> int result outcome \<times> fds" where
  "fakefd_fcntl fd cmd arg s =
     (case slot_from_fd fd of
        None \<Rightarrow> (Ret (Inl EBADF), s)
      | Some slot \<Rightarrow>
          if cmd = ANDROID_F_DUPFD \<or> cmd = ANDROID_F_DUPFD_CLOEXEC
          then fakefd_dup fd (sint arg) (cmd = ANDROID_F_DUPFD_CLOEXEC) s
          else
            let e = slots s ! slot
            in if fkind e = FAKEFD_UNUSED \<or> fpipe e = None then (Ret (Inl EBADF), s)
               else if cmd = ANDROID_F_GETFD then (Ret (Inr (sint (fd_flags e))), s)
               else if cmd = ANDROID_F_SETFD then (Ret (Inr 0), set_slot slot (e\<lparr>fd_flags := arg\<rparr>) s)
               else if cmd = ANDROID_F_GETFL then (Ret (Inr (sint (status_flags e))), s)
               else if cmd = ANDROID_F_SETFL
                 then (Ret (Inr 0), set_slot slot (e\<lparr>status_flags := arg\<rparr>) s)
               else if cmd = ANDROID_F_GETLK \<or> cmd = ANDROID_F_SETLK \<or> cmd = ANDROID_F_SETLKW
                 then (Ret (Inr 0), s)
               else (Ret (Inl EINVAL), s))"

definition ASNX_FD_READY_READ :: u32 where "ASNX_FD_READY_READ = 1"
definition ASNX_FD_READY_WRITE :: u32 where "ASNX_FD_READY_WRITE = 2"
definition ASNX_FD_READY_HUP :: u32 where "ASNX_FD_READY_HUP = 4"
definition ASNX_FD_READY_ERR :: u32 where "ASNX_FD_READY_ERR = 8"

lemmas ready_defs =
  ASNX_FD_READY_READ_def ASNX_FD_READY_WRITE_def ASNX_FD_READY_HUP_def ASNX_FD_READY_ERR_def

definition fakefd_ready :: "int \<Rightarrow> fds \<Rightarrow> u32 outcome" where
  "fakefd_ready fd s =
     (case slot_from_fd fd of
        None \<Rightarrow> Ret ASNX_FD_READY_ERR
      | Some slot \<Rightarrow>
          let e = slots s ! slot
          in (case fpipe e of
                None \<Rightarrow> Ret ASNX_FD_READY_ERR
              | Some p \<Rightarrow>
                  if fkind e = FAKEFD_UNUSED then Ret ASNX_FD_READY_ERR
                  else (case pipes s p of
                          None \<Rightarrow> Fault
                        | Some q \<Rightarrow>
                            Ret (if fkind e = FAKEFD_PIPE_READ then
                                   (if plength q \<noteq> 0 \<or> writers q = 0
                                    then ASNX_FD_READY_READ else 0) OR
                                   (if writers q = 0 then ASNX_FD_READY_HUP else 0)
                                 else if readers q = 0
                                 then ASNX_FD_READY_ERR OR ASNX_FD_READY_HUP
                                 else if plength q < PIPE_CAPACITY then ASNX_FD_READY_WRITE
                                 else 0))))"

end
