(* ===== verification/PipeRing.thy ===== *)
theory PipeRing
  imports FakeFd
begin

text \<open>
  The ring buffer of a pipe as a bounded FIFO of bytes: the abstraction \<open>ring_contents\<close>, the
  invariant \<open>ring_inv\<close>, and the interpretation of the shared \<open>bounded_fifo\<close> interface on the
  two block copies that \<^verbatim>\<open>fakefd_read\<close> and \<^verbatim>\<open>fakefd_write\<close> perform.
\<close>

definition ring_contents :: "pipe_state \<Rightarrow> byte list" where
  "ring_contents q = map (\<lambda>i. pdata q ! ((head q + i) mod PIPE_CAPACITY)) [0..<plength q]"

definition ring_inv :: "pipe_state \<Rightarrow> bool" where
  "ring_inv q \<longleftrightarrow>
     length (pdata q) = PIPE_CAPACITY \<and> head q < PIPE_CAPACITY \<and> plength q \<le> PIPE_CAPACITY"

lemma PIPE_CAPACITY_pos [simp]: "0 < PIPE_CAPACITY" "PIPE_CAPACITY \<noteq> 0"
  by (simp_all add: PIPE_CAPACITY_def)

lemma length_ring_contents [simp]: "length (ring_contents q) = plength q"
  by (simp add: ring_contents_def)

lemma nth_ring_contents:
  "i < plength q \<Longrightarrow> ring_contents q ! i = pdata q ! ((head q + i) mod PIPE_CAPACITY)"
  by (simp add: ring_contents_def)

lemma ring_contents_empty: "plength q = 0 \<Longrightarrow> ring_contents q = []"
  by (simp add: ring_contents_def)

lemma wrap_index:
  assumes "h < PIPE_CAPACITY" and "i < PIPE_CAPACITY"
  shows "(h + i) mod PIPE_CAPACITY =
    (if h + i < PIPE_CAPACITY then h + i else h + i - PIPE_CAPACITY)"
  using assms by (simp add: mod_if)

lemma ring_get_bytes:
  assumes "ring_inv q" and "n \<le> plength q"
  shows "fst (ring_get n q) = take n (ring_contents q)"
proof (rule nth_equalityI)
  let ?C = "PIPE_CAPACITY"
  have h: "head q < ?C" and d: "length (pdata q) = ?C" and n: "n \<le> ?C"
    using assms by (auto simp: ring_inv_def)
  show len: "length (fst (ring_get n q)) = length (take n (ring_contents q))"
    using h d n assms(2) by (auto simp: ring_get_def Let_def min_def)
  fix i assume "i < length (fst (ring_get n q))"
  with len assms(2) have i: "i < n" by simp
  then have "fst (ring_get n q) ! i = pdata q ! ((head q + i) mod ?C)"
    using h d n by (auto simp: ring_get_def Let_def nth_append wrap_index min_def add.commute)
  with i assms(2) show "fst (ring_get n q) ! i = take n (ring_contents q) ! i"
    by (simp add: nth_ring_contents)
qed

lemma ring_get_rest:
  assumes "ring_inv q" and "n \<le> plength q"
  shows "ring_contents (snd (ring_get n q)) = drop n (ring_contents q)"
proof (rule nth_equalityI)
  show "length (ring_contents (snd (ring_get n q))) = length (drop n (ring_contents q))"
    by (simp add: ring_get_def Let_def)
  fix i assume "i < length (ring_contents (snd (ring_get n q)))"
  then have i: "i < plength q - n" by (simp add: ring_get_def Let_def)
  have "((head q + n) mod PIPE_CAPACITY + i) mod PIPE_CAPACITY =
      (head q + (n + i)) mod PIPE_CAPACITY"
    by (simp add: mod_add_left_eq add.assoc)
  with i assms(2) show "ring_contents (snd (ring_get n q)) ! i = drop n (ring_contents q) ! i"
    by (simp add: nth_ring_contents ring_get_def Let_def)
qed

lemma ring_get_inv:
  assumes "ring_inv q" and "n \<le> plength q"
  shows "ring_inv (snd (ring_get n q))"
  using assms by (auto simp: ring_inv_def ring_get_def Let_def)

lemma ring_get_simps [simp]:
  "readers (snd (ring_get n q)) = readers q" "writers (snd (ring_get n q)) = writers q"
  "plength (snd (ring_get n q)) = plength q - n"
  by (simp_all add: ring_get_def Let_def)

lemma ring_put_simps [simp]:
  "readers (ring_put xs q) = readers q" "writers (ring_put xs q) = writers q"
  "plength (ring_put xs q) = plength q + length xs" "head (ring_put xs q) = head q"
  by (simp_all add: ring_put_def Let_def)

text \<open>The two block copies of a write, cell by cell.\<close>

lemma ring_put_cell:
  assumes q: "ring_inv q" and fits: "plength q + length xs \<le> PIPE_CAPACITY"
    and j: "j < PIPE_CAPACITY"
  defines "t \<equiv> (head q + plength q) mod PIPE_CAPACITY"
  shows "pdata (ring_put xs q) ! j =
    (if t \<le> j \<and> j < t + length xs then xs ! (j - t)
     else if j + PIPE_CAPACITY < t + length xs then xs ! (j + PIPE_CAPACITY - t)
     else pdata q ! j)"
proof -
  let ?C = "PIPE_CAPACITY"
  define f where "f = (if ?C - t < length xs then ?C - t else length xs)"
  have t: "t < ?C" by (simp add: t_def)
  have d: "length (pdata q) = ?C" using q by (simp add: ring_inv_def)
  have f: "t + f \<le> ?C" "f \<le> length xs" using t by (auto simp: f_def)
  let ?d1 = "blit (pdata q) t (take f xs)"
  have d1: "length ?d1 = ?C" using f d by simp
  have c1: "?d1 ! j = (if t \<le> j \<and> j < t + f then xs ! (j - t) else pdata q ! j)"
    using f d j by (auto simp: nth_blit)
  have eq: "pdata (ring_put xs q) = (if f < length xs then blit ?d1 0 (drop f xs) else ?d1)"
    by (simp add: ring_put_def Let_def t_def f_def)
  show ?thesis
  proof (cases "f < length xs")
    case False
    then have "f = length xs" using f by simp
    with c1 eq t f show ?thesis by auto
  next
    case True
    then have ft: "f = ?C - t" by (auto simp: f_def split: if_splits)
    have len: "length xs \<le> ?C" using fits by simp
    have "blit ?d1 0 (drop f xs) ! j =
        (if j < length xs - f then xs ! (f + j) else ?d1 ! j)"
      using d1 len j by (auto simp: nth_blit)
    with eq True c1 ft t j len show ?thesis by (auto simp: add.commute)
  qed
qed

lemma ring_put_inv:
  assumes "ring_inv q" and "plength q + length xs \<le> PIPE_CAPACITY"
  shows "ring_inv (ring_put xs q)"
proof -
  have "length (pdata (ring_put xs q)) = PIPE_CAPACITY"
  proof -
    define t where "t = (head q + plength q) mod PIPE_CAPACITY"
    have "t < PIPE_CAPACITY" by (simp add: t_def)
    with assms show ?thesis
      unfolding ring_put_def Let_def t_def [symmetric] ring_inv_def by auto
  qed
  with assms show ?thesis by (simp add: ring_inv_def)
qed

lemma ring_put_contents:
  assumes q: "ring_inv q" and fits: "plength q + length xs \<le> PIPE_CAPACITY"
  shows "ring_contents (ring_put xs q) = ring_contents q @ xs"
proof (rule nth_equalityI)
  let ?C = "PIPE_CAPACITY" and ?t = "(head q + plength q) mod PIPE_CAPACITY"
  show "length (ring_contents (ring_put xs q)) = length (ring_contents q @ xs)" by simp
  fix i assume "i < length (ring_contents (ring_put xs q))"
  then have i: "i < plength q + length xs" by simp
  have h: "head q < ?C" using q by (simp add: ring_inv_def)
  define j where "j = (head q + i) mod ?C"
  have j: "j < ?C" by (simp add: j_def)
  have jv: "j = (if head q + i < ?C then head q + i else head q + i - ?C)"
    using h i fits by (simp add: j_def wrap_index)
  have tv: "?t = (if head q + plength q < ?C then head q + plength q else head q + plength q - ?C)"
    using h fits by (cases "plength q < ?C") (simp_all add: wrap_index mod_if)
  have "ring_contents (ring_put xs q) ! i = pdata (ring_put xs q) ! j"
    using i by (simp add: nth_ring_contents j_def)
  also have "\<dots> = (ring_contents q @ xs) ! i"
  proof (cases "i < plength q")
    case True
    have "\<not> (?t \<le> j \<and> j < ?t + length xs)" "\<not> j + ?C < ?t + length xs"
      using True h fits unfolding jv tv by (auto split: if_splits)
    then have "pdata (ring_put xs q) ! j = pdata q ! j"
      using ring_put_cell [OF q fits j] by (simp only: if_False)
    with True show ?thesis by (simp add: nth_append nth_ring_contents j_def)
  next
    case False
    show ?thesis
    proof (cases "?t \<le> j \<and> j < ?t + length xs")
      case True
      then have "j - ?t = i - plength q"
        using False i h fits unfolding jv tv by (auto split: if_splits)
      with True False show ?thesis
        using ring_put_cell [OF q fits j] by (simp add: nth_append)
    next
      case out: False
      then have *: "j + ?C < ?t + length xs" "j + ?C - ?t = i - plength q"
        using False i h fits unfolding jv tv by (auto split: if_splits)
      with out False show ?thesis
        using ring_put_cell [OF q fits j] by (simp add: nth_append)
    qed
  qed
  finally show "ring_contents (ring_put xs q) ! i = (ring_contents q @ xs) ! i" .
qed

interpretation ring: bounded_fifo ring_contents ring_inv PIPE_CAPACITY ring_put ring_get
proof (unfold_locales, unfold length_ring_contents)
  show "plength q \<le> PIPE_CAPACITY" if "ring_inv q" for q
    using that by (simp add: ring_inv_def)
qed (fact ring_put_contents ring_put_inv ring_get_bytes ring_get_rest ring_get_inv)+

lemma ring_inv_new_pipe: "ring_inv new_pipe" and ring_contents_new_pipe: "ring_contents new_pipe = []"
  by (simp_all add: ring_inv_def new_pipe_def ring_contents_def)

end
