(* ===== verification/PipeTable.thy ===== *)
theory PipeTable
  imports PipeRing
begin

text \<open>
  The invariant of the descriptor table (reference counts, live pipes, well-formed rings) and
  its preservation by every operation of \<^verbatim>\<open>source/fakefd.c\<close>; with it no operation reads a freed
  pipe or spins.
\<close>

section \<open>The invariant\<close>

definition refers :: "fkind \<Rightarrow> nat \<Rightarrow> fd_entry \<Rightarrow> bool" where
  "refers k p e \<longleftrightarrow> fkind e = k \<and> fpipe e = Some p"

definition refs :: "fkind \<Rightarrow> nat \<Rightarrow> fds \<Rightarrow> nat" where
  "refs k p s = count_where (refers k p) (slots s)"

definition entry_ok :: "fds \<Rightarrow> fd_entry \<Rightarrow> bool" where
  "entry_ok s e \<longleftrightarrow>
     (case fpipe e of None \<Rightarrow> fkind e = FAKEFD_UNUSED
      | Some p \<Rightarrow> fkind e \<noteq> FAKEFD_UNUSED \<and> pipes s p \<noteq> None)"

definition pipe_ok :: "fds \<Rightarrow> nat \<Rightarrow> pipe_state \<Rightarrow> bool" where
  "pipe_ok s p q \<longleftrightarrow> ring_inv q \<and> readers q = refs FAKEFD_PIPE_READ p s \<and>
     writers q = refs FAKEFD_PIPE_WRITE p s \<and> (refs FAKEFD_PIPE_READ p s = 0 \<longrightarrow> refs FAKEFD_PIPE_WRITE p s \<noteq> 0)"

definition fds_inv :: "fds \<Rightarrow> bool" where
  "fds_inv s \<longleftrightarrow> length (slots s) = ASNX_FAKE_FD_COUNT \<and>
     (\<forall>e\<in>set (slots s). entry_ok s e) \<and> (\<forall>p q. pipes s p = Some q \<longrightarrow> pipe_ok s p q)"

lemma set_slot_simps [simp]:
  "slots (set_slot i e s) = (slots s)[i := e]" "pipes (set_slot i e s) = pipes s"
  "sleeping (set_slot i e s) = sleeping s"
  by (simp_all add: set_slot_def)

lemma set_pipe_simps [simp]:
  "slots (set_pipe p v s) = slots s" "pipes (set_pipe p v s) = (pipes s)(p := v)"
  "sleeping (set_pipe p v s) = sleeping s"
  by (simp_all add: set_pipe_def)

lemma condvar_simps [simp]:
  "slots (condvarWakeAll s) = slots s" "pipes (condvarWakeAll s) = pipes s"
  "sleeping (condvarWakeAll s) = {}"
  "slots (condvarWait t s) = slots s" "pipes (condvarWait t s) = pipes s"
  "sleeping (condvarWait t s) = insert t (sleeping s)"
  by (simp_all add: condvarWakeAll_def condvarWait_def)

lemma nonblocking_simps [simp]:
  "nonblocking i (set_pipe p v s) = nonblocking i s"
  "nonblocking i (condvarWakeAll s) = nonblocking i s"
  by (simp_all add: nonblocking_def)

lemma refs_simps [simp]:
  "refs k p (set_pipe p' v s) = refs k p s" "refs k p (condvarWakeAll s) = refs k p s"
  "refs k p (condvarWait t s) = refs k p s"
  by (simp_all add: refs_def)

lemma fds_inv_sleep [simp]:
  "fds_inv (condvarWakeAll s) = fds_inv s" "fds_inv (condvarWait t s) = fds_inv s"
  by (simp_all add: fds_inv_def entry_ok_def pipe_ok_def split: option.splits)

lemma refs_set_slot:
  "i < length (slots s) \<Longrightarrow>
   refs k p (set_slot i e s) + of_bool (refers k p (slots s ! i)) =
   refs k p s + of_bool (refers k p e)"
  by (simp add: refs_def count_where_update)

lemma fds_inv_lengthD: "fds_inv s \<Longrightarrow> length (slots s) = ASNX_FAKE_FD_COUNT"
  by (simp add: fds_inv_def)

lemma fds_inv_entryD: "fds_inv s \<Longrightarrow> i < ASNX_FAKE_FD_COUNT \<Longrightarrow> entry_ok s (slots s ! i)"
  by (simp add: fds_inv_def)

lemma fds_inv_pipeD: "fds_inv s \<Longrightarrow> pipes s p = Some q \<Longrightarrow> pipe_ok s p q"
  by (simp add: fds_inv_def)

lemma fds_inv_ringD: "fds_inv s \<Longrightarrow> pipes s p = Some q \<Longrightarrow> ring_inv q"
  by (simp add: fds_inv_def pipe_ok_def)

lemma fds_inv_live:
  assumes "fds_inv s" and "i < ASNX_FAKE_FD_COUNT" and "fkind (slots s ! i) \<noteq> FAKEFD_UNUSED"
  obtains p q where "fpipe (slots s ! i) = Some p" and "pipes s p = Some q"
  using fds_inv_entryD [OF assms(1,2)] assms(3)
  by (auto simp: entry_ok_def split: option.splits)

lemma slot_from_fd_bound: "slot_from_fd fd = Some slot \<Longrightarrow> slot < ASNX_FAKE_FD_COUNT"
  by (auto simp: slot_from_fd_def Let_def split: if_splits)

lemma slot_from_fd_of_slot [simp]:
  "slot < ASNX_FAKE_FD_COUNT \<Longrightarrow> slot_from_fd (fd_of_slot slot) = Some slot"
  by (simp add: slot_from_fd_def fd_of_slot_def)

lemma slot_from_fd_Some: "slot_from_fd fd = Some slot \<Longrightarrow> fd = fd_of_slot slot"
  by (auto simp: slot_from_fd_def fd_of_slot_def Let_def split: if_splits)

lemma alloc_slot_bound: "alloc_slot_from m s = Some i \<Longrightarrow> i < ASNX_FAKE_FD_COUNT"
  by (auto simp: alloc_slot_from_def Let_def split: if_splits dest: scan_bound)

lemma alloc_slot_unused: "alloc_slot_from m s = Some i \<Longrightarrow> fkind (slots s ! i) = FAKEFD_UNUSED"
  by (auto simp: alloc_slot_from_def Let_def split: if_splits dest: scan_SomeD)

section \<open>Preservation by the building blocks\<close>

lemma fds_inv_set_pipe:
  assumes inv: "fds_inv s" and q: "pipes s p = Some q"
    and q': "ring_inv q'" "readers q' = readers q" "writers q' = writers q"
  shows "fds_inv (set_pipe p (Some q') s)"
proof -
  have "pipe_ok s p q" using inv q by (rule fds_inv_pipeD)
  with q' have "pipe_ok (set_pipe p (Some q') s) p q'" by (auto simp: pipe_ok_def)
  with inv show ?thesis
    by (auto simp: fds_inv_def entry_ok_def pipe_ok_def split: option.splits)
qed

text \<open>
  A slot changes from \<open>e0\<close> to \<open>e\<close> while pipe \<open>p\<close> changes from \<open>q\<close> to \<open>q'\<close>; nothing else refers
  to another pipe.  Closing and cloning are the two instances.
\<close>

lemma fds_inv_slot_pipe:
  assumes inv: "fds_inv s" and i: "i < ASNX_FAKE_FD_COUNT"
    and others: "\<And>k p'. p' \<noteq> p \<Longrightarrow> refers k p' (slots s ! i) = refers k p' e"
    and e: "if fkind e = FAKEFD_UNUSED then fpipe e = None else fpipe e = Some p \<and> v \<noteq> None"
    and v: "\<And>q'. v = Some q' \<Longrightarrow> pipe_ok (set_slot i e s) p q'"
    and gone: "v = None \<Longrightarrow> \<forall>k. k \<noteq> FAKEFD_UNUSED \<longrightarrow> refs k p (set_slot i e s) = 0"
  shows "fds_inv (set_pipe p v (set_slot i e s))"
proof -
  let ?s = "set_pipe p v (set_slot i e s)"
  have len: "length (slots s) = ASNX_FAKE_FD_COUNT" using inv by (rule fds_inv_lengthD)
  have refs': "refs k p' (set_slot i e s) = refs k p' s" if "p' \<noteq> p" for k p'
    using refs_set_slot [of i s k p' e] others [OF that] i len by simp
  have "entry_ok ?s x" if x: "x \<in> set (slots ?s)" for x
  proof (cases "x = e")
    case True
    with e show ?thesis by (auto simp: entry_ok_def split: if_splits)
  next
    case False
    with x have xs: "x \<in> set (slots s)" by (auto dest: set_update_subset_insert [THEN subsetD])
    with inv have ok: "entry_ok s x" by (simp add: fds_inv_def)
    show ?thesis
    proof (cases "fkind x \<noteq> FAKEFD_UNUSED \<and> fpipe x = Some p \<and> v = None")
      case True
      with gone have "refs (fkind x) p (set_slot i e s) = 0" by blast
      with x True have "\<not> refers (fkind x) p x" by (simp add: refs_def count_where_0)
      with True show ?thesis by (simp add: refers_def)
    next
      case False
      with ok show ?thesis by (auto simp: entry_ok_def split: option.splits)
    qed
  qed
  moreover have "pipe_ok ?s p' q'" if "pipes ?s p' = Some q'" for p' q'
  proof (cases "p' = p")
    case True
    with that v show ?thesis by (simp add: pipe_ok_def)
  next
    case False
    with that have "pipes s p' = Some q'" by simp
    with inv have "pipe_ok s p' q'" by (rule fds_inv_pipeD)
    with refs' [OF False] show ?thesis by (simp add: pipe_ok_def)
  qed
  ultimately show ?thesis using len by (simp add: fds_inv_def)
qed

lemma fds_inv_flags:
  assumes "fds_inv s" and "i < ASNX_FAKE_FD_COUNT"
    and "fkind e = fkind (slots s ! i)" and "fpipe e = fpipe (slots s ! i)"
  shows "fds_inv (set_slot i e s)"
proof -
  have len: "length (slots s) = ASNX_FAKE_FD_COUNT" using assms(1) by (rule fds_inv_lengthD)
  have "refs k p (set_slot i e s) = refs k p s" for k p
    using refs_set_slot [of i s k p e] assms len by (simp add: refers_def)
  moreover have "entry_ok (set_slot i e s) x" if "x \<in> set ((slots s)[i := e])" for x
  proof (cases "x = e")
    case True
    with assms fds_inv_entryD [OF assms(1,2)] show ?thesis
      by (simp add: entry_ok_def split: option.splits)
  next
    case False
    with that have "x \<in> set (slots s)" by (auto dest: set_update_subset_insert [THEN subsetD])
    with assms(1) show ?thesis by (auto simp: fds_inv_def entry_ok_def split: option.splits)
  qed
  ultimately show ?thesis using assms(1) len by (auto simp: fds_inv_def pipe_ok_def)
qed

lemma fds_inv_init: "fds_inv init_fds"
  by (simp add: fds_inv_def init_fds_def entry_ok_def zero_entry_def ASNX_FAKE_FD_COUNT_def)


section \<open>Every operation keeps the invariant and stays in live memory\<close>

definition safe :: "'a outcome \<times> fds \<Rightarrow> bool" where
  "safe r \<longleftrightarrow> fds_inv (snd r) \<and> fst r \<noteq> Fault \<and> fst r \<noteq> Spin"

lemma safe_Ret [simp]: "safe (Ret x, s) = fds_inv s"
  and safe_WaitRead [simp]: "safe (WaitRead i p, s) = fds_inv s"
  and safe_WaitWrite [simp]: "safe (WaitWrite i p n, s) = fds_inv s"
  by (simp_all add: safe_def)

lemma read_loop_safe:
  assumes inv: "fds_inv s" and live: "pipes s p \<noteq> None"
  shows "safe (read_loop tid slot p count s)"
proof -
  from live obtain q where q: "pipes s p = Some q" by blast
  have "fds_inv (set_pipe p (Some (snd (ring_get n q))) s)" if "n \<le> plength q" for n
    using fds_inv_set_pipe [OF inv q] ring_get_inv [OF fds_inv_ringD [OF inv q] that] by simp
  with inv q show ?thesis by (auto simp: read_loop_def Let_def split_beta)
qed

lemma fakefd_read_safe:
  assumes "fds_inv s"
  shows "safe (fakefd_read tid fd buf_ok count s)"
proof -
  have "pipes s p \<noteq> None"
    if "slot_from_fd fd = Some slot" "fpipe (slots s ! slot) = Some p" for slot p
    using fds_inv_entryD [OF assms slot_from_fd_bound [OF that(1)]] that(2)
    by (simp add: entry_ok_def)
  with assms show ?thesis
    by (auto simp: fakefd_read_def split: option.splits fkind.splits intro!: read_loop_safe)
qed

lemma read_wake_safe:
  assumes "fds_inv s" and "slot < ASNX_FAKE_FD_COUNT"
  shows "safe (read_wake tid slot p count s)"
  using assms fds_inv_entryD [OF assms]
  by (auto simp: read_wake_def entry_ok_def intro!: read_loop_safe)

lemma write_chunk_inv:
  assumes inv: "fds_inv s" and q: "pipes s p = Some q" and n: "n \<le> PIPE_CAPACITY - plength q"
  shows "fds_inv (set_pipe p (Some (ring_put (take n xs) q)) s)"
proof -
  have ring: "ring_inv q" using inv q by (rule fds_inv_ringD)
  then have "plength q + length (take n xs) \<le> PIPE_CAPACITY"
    using n by (auto simp: ring_inv_def)
  from ring_put_inv [OF ring this] fds_inv_set_pipe [OF inv q] show ?thesis by simp
qed

lemma write_loop_safe:
  assumes "fds_inv s" and "pipes s p \<noteq> None"
  shows "safe (write_loop tid slot p src written s)"
  using assms
proof (induction tid slot p src written s rule: write_loop.induct)
  case (1 tid slot p src written s)
  from "1.prems" obtain q where q: "pipes s p = Some q" by blast
  have le: "plength q \<le> PIPE_CAPACITY"
    using fds_inv_ringD [OF "1.prems"(1) q] by (simp add: ring_inv_def)
  define n where "n = (if PIPE_CAPACITY - plength q < length src - written
                       then PIPE_CAPACITY - plength q else length src - written)"
  define s' where
    "s' = condvarWakeAll (set_pipe p (Some (ring_put (take n (drop written src)) q)) s)"
  show ?case
  proof (cases "written < length src \<and> plength q \<noteq> PIPE_CAPACITY \<and> readers q \<noteq> 0")
    case False
    with "1.prems"(1) q show ?thesis
      by (auto simp: write_loop.simps [of tid slot p src written s])
  next
    case True
    have inv': "fds_inv s'" unfolding s'_def fds_inv_sleep
      by (rule write_chunk_inv [OF "1.prems"(1) q]) (simp add: n_def)
    have eq: "write_loop tid slot p src written s =
        (if nonblocking slot s' then (Ret (Inr (written + n)), s')
         else write_loop tid slot p src (written + n) s')"
      using True le q
      by (simp add: write_loop.simps [of tid slot p src written s] Let_def n_def s'_def)
    show ?thesis
    proof (cases "nonblocking slot s'")
      case True
      with eq inv' show ?thesis by simp
    next
      case False
      have "safe (write_loop tid slot p src (written + n) s')"
        unfolding s'_def
        by (rule "1.IH" [OF _ q _ _ refl _ n_def refl refl])
          (use True False le inv' in \<open>simp_all add: s'_def\<close>)
      with eq False show ?thesis by simp
    qed
  qed
qed

lemma fakefd_write_safe:
  assumes inv: "fds_inv s"
  shows "safe (fakefd_write tid fd buf_ok src s)"
proof (cases "slot_from_fd fd")
  case None
  with inv show ?thesis by (simp add: fakefd_write_def)
next
  case (Some slot)
  then have "entry_ok s (slots s ! slot)"
    using fds_inv_entryD [OF inv] slot_from_fd_bound by blast
  with inv Some show ?thesis
    by (auto simp: fakefd_write_def entry_ok_def split: option.splits fkind.splits
        intro!: write_loop_safe)
qed

lemma write_wake_safe:
  assumes "fds_inv s" and "slot < ASNX_FAKE_FD_COUNT"
  shows "safe (write_wake tid slot p src written s)"
  using assms fds_inv_entryD [OF assms]
  by (auto simp: write_wake_def entry_ok_def intro!: write_loop_safe)


text \<open>Closing: the slot is cleared and the pipe loses one reference, or is freed with the last.\<close>

lemma fakefd_close_safe:
  assumes inv: "fds_inv s"
  shows "safe (fakefd_close fd s)"
proof (cases "\<exists>slot. slot_from_fd fd = Some slot \<and> fkind (slots s ! slot) \<noteq> FAKEFD_UNUSED")
  case False
  with inv show ?thesis
    by (auto simp: fakefd_close_def Let_def split: option.splits bool.splits)
next
  case True
  then obtain slot where slot: "slot_from_fd fd = Some slot"
    and used: "fkind (slots s ! slot) \<noteq> FAKEFD_UNUSED" by blast
  then have i: "slot < ASNX_FAKE_FD_COUNT" by (simp add: slot_from_fd_bound)
  let ?e = "slots s ! slot"
  from fds_inv_live [OF inv i used] obtain p q
    where p: "fpipe ?e = Some p" and q: "pipes s p = Some q" .
  have ok: "pipe_ok s p q" using inv q by (rule fds_inv_pipeD)
  have len: "slot < length (slots s)" using i fds_inv_lengthD [OF inv] by simp
  define q' where "q' = (if fkind ?e = FAKEFD_PIPE_READ then q\<lparr>readers := readers q - 1\<rparr>
                         else q\<lparr>writers := writers q - 1\<rparr>)"
  define v where "v = (if readers q' = 0 \<and> writers q' = 0 then None else Some q')"
  have rw: "fkind ?e = FAKEFD_PIPE_READ \<or> fkind ?e = FAKEFD_PIPE_WRITE"
    using used by (cases "fkind ?e") auto
  have dec: "refs k p (set_slot slot zero_entry s) = refs k p s - of_bool (fkind ?e = k)"
    if "k \<noteq> FAKEFD_UNUSED" for k
    using refs_set_slot [OF len, of k p zero_entry] p that by (auto simp: refers_def zero_entry_def)
  have pos: "0 < refs (fkind ?e) p s"
    using len p by (auto simp: refs_def refers_def intro!: count_where_pos)
  have q'_ok: "readers q' = refs FAKEFD_PIPE_READ p (set_slot slot zero_entry s)"
    "writers q' = refs FAKEFD_PIPE_WRITE p (set_slot slot zero_entry s)" "ring_inv q'"
    using ok rw dec by (auto simp: q'_def pipe_ok_def ring_inv_def)
  have "fds_inv (set_pipe p v (set_slot slot zero_entry s))"
  proof (rule fds_inv_slot_pipe [OF inv i])
    show "refers k p' ?e = refers k p' zero_entry" if "p' \<noteq> p" for k p'
      using that p used by (auto simp: refers_def zero_entry_def)
    show "if fkind zero_entry = FAKEFD_UNUSED then fpipe zero_entry = None
          else fpipe zero_entry = Some p \<and> v \<noteq> None" by (simp add: zero_entry_def)
    show "pipe_ok (set_slot slot zero_entry s) p q''" if "v = Some q''" for q''
      using that q'_ok by (auto simp: v_def pipe_ok_def split: if_splits)
    show "\<forall>k. k \<noteq> FAKEFD_UNUSED \<longrightarrow> refs k p (set_slot slot zero_entry s) = 0" if "v = None"
    proof (intro allI impI)
      fix k assume "k \<noteq> FAKEFD_UNUSED"
      with that q'_ok show "refs k p (set_slot slot zero_entry s) = 0"
        by (cases k) (auto simp: v_def split: if_splits)
    qed
  qed
  moreover have "fakefd_close fd s =
      (Ret (Inr ()), condvarWakeAll (set_pipe p v (set_slot slot zero_entry s)))"
    using slot used p q rw ok pos
    by (auto simp: fakefd_close_def Let_def q'_def v_def pipe_ok_def set_pipe_def set_slot_def
        condvarWakeAll_def)
  ultimately show ?thesis by simp
qed

text \<open>Cloning: an unused slot receives the entry and the pipe gains one reference.\<close>

lemma clone_into_slot_locked_safe:
  assumes inv: "fds_inv s" and src: "fkind src \<noteq> FAKEFD_UNUSED" "fpipe src = Some p"
    and live: "pipes s p \<noteq> None"
  shows "safe (clone_into_slot_locked src dst cloexec s)"
proof (cases "\<exists>slot. dst = Some slot \<and> slot < ASNX_FAKE_FD_COUNT \<and>
    fkind (slots s ! slot) = FAKEFD_UNUSED")
  case False
  with inv show ?thesis by (auto simp: clone_into_slot_locked_def split: option.splits)
next
  case True
  then obtain slot where dst: "dst = Some slot" and i: "slot < ASNX_FAKE_FD_COUNT"
    and free: "fkind (slots s ! slot) = FAKEFD_UNUSED" by blast
  from live obtain q where q: "pipes s p = Some q" by blast
  have ok: "pipe_ok s p q" using inv q by (rule fds_inv_pipeD)
  have len: "slot < length (slots s)" using i fds_inv_lengthD [OF inv] by simp
  have none: "fpipe (slots s ! slot) = None"
    using fds_inv_entryD [OF inv i] free by (auto simp: entry_ok_def split: option.splits)
  define e where "e = (if cloexec then src\<lparr>fd_flags := fd_flags src OR 1\<rparr> else src)"
  have e: "fkind e = fkind src" "fpipe e = Some p" using src by (simp_all add: e_def)
  define q' where "q' = (if fkind src = FAKEFD_PIPE_READ then q\<lparr>readers := readers q + 1\<rparr>
                         else q\<lparr>writers := writers q + 1\<rparr>)"
  have rw: "fkind src = FAKEFD_PIPE_READ \<or> fkind src = FAKEFD_PIPE_WRITE"
    using src by (cases "fkind src") auto
  have inc: "refs k p (set_slot slot e s) = refs k p s + of_bool (fkind src = k)" for k
    using refs_set_slot [OF len, of k p e] none e by (auto simp: refers_def)
  have "fds_inv (set_pipe p (Some q') (set_slot slot e s))"
  proof (rule fds_inv_slot_pipe [OF inv i])
    show "refers k p' (slots s ! slot) = refers k p' e" if "p' \<noteq> p" for k p'
      using that none e by (auto simp: refers_def)
    show "if fkind e = FAKEFD_UNUSED then fpipe e = None else fpipe e = Some p \<and> Some q' \<noteq> None"
      using e src by simp
    show "pipe_ok (set_slot slot e s) p q''" if "Some q' = Some q''" for q''
      using that ok rw inc by (auto simp: pipe_ok_def q'_def ring_inv_def)
  qed simp
  moreover have "clone_into_slot_locked src dst cloexec s =
      (Ret (Some (fd_of_slot slot)), set_pipe p (Some q') (set_slot slot e s))"
    using dst i free src q rw
    by (auto simp: clone_into_slot_locked_def Let_def e_def q'_def)
  ultimately show ?thesis by simp
qed

lemma clone_result_safe [intro]: "safe r \<Longrightarrow> (\<And>i p n s. r \<noteq> (WaitRead i p, s) \<and> r \<noteq> (WaitWrite i p n, s)) \<Longrightarrow> safe (clone_result e r)"
  by (cases r) (auto simp: clone_result_def safe_def split: outcome.splits option.splits)

lemma clone_no_wait:
  "clone_into_slot_locked src dst c s \<noteq> (WaitRead i p, s')"
  "clone_into_slot_locked src dst c s \<noteq> (WaitWrite i p n, s')"
  by (auto simp: clone_into_slot_locked_def Let_def split: option.splits)

lemma clone_open_safe:
  assumes "fds_inv s" and "slot < ASNX_FAKE_FD_COUNT"
    and "fkind (slots s ! slot) \<noteq> FAKEFD_UNUSED"
  shows "safe (clone_result e (clone_into_slot_locked (slots s ! slot) dst c s))"
proof -
  obtain p q where "fpipe (slots s ! slot) = Some p" "pipes s p = Some q"
    by (rule fds_inv_live [OF assms])
  then show ?thesis
    using assms by (intro clone_result_safe clone_into_slot_locked_safe) (auto simp: clone_no_wait)
qed

lemma fakefd_dup_safe: "fds_inv s \<Longrightarrow> safe (fakefd_dup fd min_fd cloexec s)"
  by (auto simp: fakefd_dup_def Let_def split: option.splits
      intro: clone_open_safe slot_from_fd_bound)

lemma fakefd_dup2_locked_safe:
  "fds_inv s \<Longrightarrow> oldslot < ASNX_FAKE_FD_COUNT \<Longrightarrow> safe (fakefd_dup2_locked oldslot newslot s)"
  by (auto simp: fakefd_dup2_locked_def Let_def intro: clone_open_safe)

lemma fakefd_dup2_safe:
  assumes "fds_inv s"
  shows "safe (fakefd_dup2 oldfd newfd s)"
proof -
  have "safe (fakefd_close newfd s)" using assms by (rule fakefd_close_safe)
  then show ?thesis
    using assms
    by (auto simp: fakefd_dup2_def safe_def [of "fakefd_close newfd s"]
        split: option.splits prod.splits outcome.splits
        intro: fakefd_dup2_locked_safe slot_from_fd_bound)
qed

lemma fakefd_fcntl_safe:
  assumes inv: "fds_inv s"
  shows "safe (fakefd_fcntl fd cmd arg s)"
proof (cases "slot_from_fd fd")
  case None
  with inv show ?thesis by (simp add: fakefd_fcntl_def)
next
  case (Some slot)
  then have i: "slot < ASNX_FAKE_FD_COUNT" by (rule slot_from_fd_bound)
  have "safe (fakefd_dup fd (sint arg) c s)" for c using inv by (rule fakefd_dup_safe)
  moreover have "fds_inv (set_slot slot ((slots s ! slot)\<lparr>fd_flags := arg\<rparr>) s)"
    "fds_inv (set_slot slot ((slots s ! slot)\<lparr>status_flags := arg\<rparr>) s)"
    by (rule fds_inv_flags [OF inv i]; simp)+
  ultimately show ?thesis
    using inv Some by (simp add: fakefd_fcntl_def Let_def)
qed

text \<open>Creating a pipe at an address the heap does not use.\<close>

definition end_entry :: "fkind \<Rightarrow> nat \<Rightarrow> fd_entry" where
  "end_entry k p = \<lparr>fkind = k, fpipe = Some p, fd_flags = 0, status_flags = 0\<rparr>"

definition install_pipe :: "nat \<Rightarrow> nat \<Rightarrow> nat \<Rightarrow> fds \<Rightarrow> fds" where
  "install_pipe p r w s = set_pipe p (Some new_pipe)
     (set_slot w (end_entry FAKEFD_PIPE_WRITE p) (set_slot r (end_entry FAKEFD_PIPE_READ p) s))"

lemma unused_no_pipe:
  "fds_inv s \<Longrightarrow> i < ASNX_FAKE_FD_COUNT \<Longrightarrow> fkind (slots s ! i) = FAKEFD_UNUSED \<Longrightarrow>
   fpipe (slots s ! i) = None"
  by (drule (1) fds_inv_entryD) (auto simp: entry_ok_def split: option.splits)

lemma dead_pipe_refs: "fds_inv s \<Longrightarrow> pipes s p = None \<Longrightarrow> refs k p s = 0"
  by (auto simp: refs_def count_where_0 refers_def fds_inv_def entry_ok_def)

lemma install_pipe_inv:
  assumes inv: "fds_inv s" and dead: "pipes s p = None"
    and r: "r < ASNX_FAKE_FD_COUNT" "fkind (slots s ! r) = FAKEFD_UNUSED"
    and w: "w < ASNX_FAKE_FD_COUNT" "fkind (slots s ! w) = FAKEFD_UNUSED" and wr: "w \<noteq> r"
  shows "fds_inv (install_pipe p r w s)"
proof -
  let ?er = "end_entry FAKEFD_PIPE_READ p" and ?ew = "end_entry FAKEFD_PIPE_WRITE p"
  let ?t = "install_pipe p r w s"
  have len: "length (slots s) = ASNX_FAKE_FD_COUNT" using inv by (rule fds_inv_lengthD)
  have "refs k p' ?t + 0 = refs k p' s + of_bool (refers k p' ?er) + of_bool (refers k p' ?ew)"
    for k p'
    using refs_set_slot [of r s k p' ?er] refs_set_slot [of w "set_slot r ?er s" k p' ?ew]
      unused_no_pipe [OF inv r] unused_no_pipe [OF inv w] r w wr len
    by (simp add: refers_def install_pipe_def)
  then have cnt: "refs k p' ?t = refs k p' s + of_bool (p' = p \<and> k = FAKEFD_PIPE_READ) +
      of_bool (p' = p \<and> k = FAKEFD_PIPE_WRITE)" for k p'
    by (auto simp: refers_def end_entry_def)
  have "entry_ok ?t x" if "x \<in> set (slots ?t)" for x
  proof -
    from that have "x = ?er \<or> x = ?ew \<or> x \<in> set (slots s)"
      by (auto simp: install_pipe_def dest: set_update_subset_insert [THEN subsetD])
    then show ?thesis
      using inv by (auto simp: install_pipe_def end_entry_def entry_ok_def fds_inv_def
          split: option.splits)
  qed
  moreover have "pipe_ok ?t p' q" if "pipes ?t p' = Some q" for p' q
  proof (cases "p' = p")
    case True
    with that have "q = new_pipe" by (simp add: install_pipe_def)
    moreover have "readers new_pipe = 1" "writers new_pipe = 1" by (simp_all add: new_pipe_def)
    ultimately show ?thesis
      using True dead_pipe_refs [OF inv dead] by (simp add: cnt pipe_ok_def ring_inv_new_pipe)
  next
    case False
    with that have "pipe_ok s p' q" using inv by (auto simp: install_pipe_def fds_inv_pipeD)
    with False show ?thesis by (simp add: cnt pipe_ok_def)
  qed
  ultimately show ?thesis using len by (simp add: fds_inv_def install_pipe_def)
qed

text \<open>The three ways \<^verbatim>\<open>fakefd_pipe\<close> can end.\<close>

lemma fakefd_pipe_cases:
  assumes inv: "fds_inv s"
  obtains (unchanged) e where "fakefd_pipe fds_ok fresh s = (Inl e, s)"
  | (made) p r w where "fakefd_pipe fds_ok fresh s = (Inr (fd_of_slot r, fd_of_slot w),
        install_pipe p r w s)"
      "fresh = Some p" "w \<noteq> r" "r < ASNX_FAKE_FD_COUNT" "w < ASNX_FAKE_FD_COUNT"
      "fkind (slots s ! r) = FAKEFD_UNUSED" "fkind (slots s ! w) = FAKEFD_UNUSED"
  | (undone) e r where "fakefd_pipe fds_ok fresh s = (Inl e, set_slot r zero_entry s)"
      "r < ASNX_FAKE_FD_COUNT" "fkind (slots s ! r) = FAKEFD_UNUSED"
proof (cases "fds_ok \<and> alloc_slot_from ASNX_FAKE_FD_BASE s \<noteq> None")
  case False
  then show thesis
    by (intro unchanged [of "if fds_ok then EMFILE else EFAULT"]) (auto simp: fakefd_pipe_def)
next
  case True
  then obtain r where r: "alloc_slot_from ASNX_FAKE_FD_BASE s = Some r" and ok: fds_ok by blast
  define s1 where "s1 = set_slot r ((slots s ! r)\<lparr>fkind := FAKEFD_PIPE_READ\<rparr>) s"
  note rb = alloc_slot_bound [OF r] alloc_slot_unused [OF r]
  have undo: "set_slot r zero_entry s1 = set_slot r zero_entry s"
    by (simp add: s1_def set_slot_def)
  show thesis
  proof (cases "alloc_slot_from ASNX_FAKE_FD_BASE s1")
    case None
    with ok r undo rb show thesis
      by (intro undone [of EMFILE r]) (simp_all add: fakefd_pipe_def s1_def)
  next
    case (Some w)
    have wr: "w \<noteq> r" using alloc_slot_unused [OF Some] rb fds_inv_lengthD [OF inv]
      by (auto simp: s1_def)
    then have wf: "fkind (slots s ! w) = FAKEFD_UNUSED"
      using alloc_slot_unused [OF Some] by (simp add: s1_def)
    show thesis
    proof (cases fresh)
      case None
      with ok r Some undo rb show thesis
        by (intro undone [of ENOMEM r]) (simp_all add: fakefd_pipe_def s1_def)
    next
      case fresh: (Some p)
      from ok r Some wr have "fakefd_pipe fds_ok fresh s =
          (Inr (fd_of_slot r, fd_of_slot w), install_pipe p r w s)"
        by (simp add: fakefd_pipe_def Let_def s1_def [symmetric] fresh)
          (simp add: s1_def install_pipe_def end_entry_def set_slot_def set_pipe_def)
      with fresh wr wf rb alloc_slot_bound [OF Some] show thesis by (intro made)
    qed
  qed
qed

lemma fakefd_pipe_inv:
  assumes inv: "fds_inv s" and fresh: "\<And>p. fresh = Some p \<Longrightarrow> pipes s p = None"
  shows "fds_inv (snd (fakefd_pipe fds_ok fresh s))"
  using inv
proof (cases rule: fakefd_pipe_cases [of s fds_ok fresh])
  case (unchanged e)
  with inv show ?thesis by simp
next
  case (made p r w)
  with inv fresh show ?thesis by (simp add: install_pipe_inv)
next
  case (undone e r)
  with unused_no_pipe [OF inv undone(2,3)] show ?thesis
    using fds_inv_flags [OF inv undone(2), of zero_entry] by (simp add: zero_entry_def)
qed

lemma fakefd_ready_safe:
  assumes inv: "fds_inv s"
  shows "fakefd_ready fd s \<noteq> Fault"
proof (cases "slot_from_fd fd")
  case (Some slot)
  then have "entry_ok s (slots s ! slot)"
    using fds_inv_entryD [OF inv] slot_from_fd_bound by blast
  with Some show ?thesis
    by (auto simp: fakefd_ready_def Let_def entry_ok_def split: option.splits)
qed (simp add: fakefd_ready_def)

end
