(* ===== verification/PipeTransfer.thy ===== *)
theory PipeTransfer
  imports PipeTable
begin

text \<open>
  What one step of \<^verbatim>\<open>fakefd_read\<close> and \<^verbatim>\<open>fakefd_write\<close> moves: the functional behaviour of the
  two loops over the abstract contents of the pipe, on every branch, and the frame (what the
  operations that do not transfer bytes leave alone).
\<close>

section \<open>Reading\<close>

lemma read_loop_cases:
  assumes inv: "fds_inv s" and q: "pipes s p = Some q"
  shows "read_loop tid slot p count s =
    (if plength q = 0 \<and> writers q \<noteq> 0 then
       (if nonblocking slot s then (Ret (Inl EAGAIN), s) else (WaitRead slot p, condvarWait tid s))
     else if plength q = 0 then (Ret (Inr []), s)
     else (Ret (Inr (take count (ring_contents q))),
           condvarWakeAll (set_pipe p (Some (snd (ring_get (min count (plength q)) q))) s)))"
proof -
  let ?n = "min count (plength q)"
  have ring: "ring_inv q" using inv q by (rule fds_inv_ringD)
  have "fst (ring_get ?n q) = take count (ring_contents q)"
    using ring.get_fst [OF ring, of ?n] by (simp add: min_def take_all)
  moreover have "(if count < plength q then count else plength q) = ?n" by (simp add: min_def)
  ultimately show ?thesis
    using q by (simp add: read_loop_def Let_def split_beta)
qed

lemma read_loop_contents:
  assumes inv: "fds_inv s" and q: "pipes s p = Some q"
    and r: "read_loop tid slot p count s = (Ret (Inr bytes), s')"
  obtains q' where "pipes s' p = Some q'" and "ring_contents q = bytes @ ring_contents q'"
proof (cases "plength q = 0")
  case True
  with r read_loop_cases [OF inv q, of tid slot count] q that [of q] show thesis
    by (simp split: if_splits)
next
  case False
  let ?n = "min count (plength q)"
  have ring: "ring_inv q" using inv q by (rule fds_inv_ringD)
  have "bytes = fst (ring_get ?n q)" "pipes s' p = Some (snd (ring_get ?n q))"
    using r read_loop_cases [OF inv q, of tid slot count] False ring.get_fst [OF ring, of ?n]
    by (auto simp: min_def)
  with ring.get_split [OF ring, of ?n] that show thesis by simp
qed

section \<open>Writing\<close>

text \<open>The number of bytes a step of the write loop leaves transferred.\<close>

definition written_upto :: "nat \<Rightarrow> nat result outcome \<Rightarrow> nat" where
  "written_upto n0 r =
     (case r of Ret (Inr n) \<Rightarrow> n | WaitWrite _ _ n \<Rightarrow> n | _ \<Rightarrow> n0)"

definition transfers :: "nat \<Rightarrow> byte list \<Rightarrow> fds \<Rightarrow> fds \<Rightarrow> bool" where
  "transfers p xs s s' \<longleftrightarrow>
     slots s' = slots s \<and> (\<forall>p'. p' \<noteq> p \<longrightarrow> pipes s' p' = pipes s p') \<and>
     (\<exists>q q'. pipes s p = Some q \<and> pipes s' p = Some q' \<and> readers q' = readers q \<and>
        writers q' = writers q \<and> ring_contents q' = ring_contents q @ xs)"

lemma transfers_refl: "pipes s p = Some q \<Longrightarrow> transfers p [] s s"
  by (simp add: transfers_def)

lemma transfers_trans:
  "transfers p xs s s' \<Longrightarrow> transfers p ys s' s'' \<Longrightarrow> transfers p (xs @ ys) s s''"
  by (fastforce simp: transfers_def)

lemma transfers_sleep [simp]:
  "transfers p xs s (condvarWakeAll s') = transfers p xs s s'"
  "transfers p xs s (condvarWait t s') = transfers p xs s s'"
  by (simp_all add: transfers_def)

lemma transfers_put:
  assumes "fds_inv s" and q: "pipes s p = Some q" and fits: "plength q + length xs \<le> PIPE_CAPACITY"
  shows "transfers p xs s (set_pipe p (Some (ring_put xs q)) s)"
proof -
  have "ring_inv q" using assms(1) q by (rule fds_inv_ringD)
  with fits q show ?thesis by (simp add: transfers_def ring_put_contents)
qed

lemma write_loop_transfers:
  assumes "fds_inv s" and "pipes s p = Some q" and "written \<le> length src"
    and "write_loop tid slot p src written s = (r, s')"
  shows "written \<le> written_upto written r \<and> written_upto written r \<le> length src \<and>
    transfers p (take (written_upto written r - written) (drop written src)) s s' \<and>
    (\<forall>e. r = Ret (Inl e) \<longrightarrow> s' = s \<and> written = 0) \<and>
    (\<forall>i p. r \<noteq> WaitRead i p) \<and> r \<noteq> Fault \<and> r \<noteq> Spin"
  using assms
proof (induction tid slot p src written s arbitrary: q rule: write_loop.induct)
  case (1 tid slot p src written s)
  note q = "1.prems"(2)
  have le: "plength q \<le> PIPE_CAPACITY"
    using fds_inv_ringD [OF "1.prems"(1) q] by (simp add: ring_inv_def)
  define n where "n = (if PIPE_CAPACITY - plength q < length src - written
                       then PIPE_CAPACITY - plength q else length src - written)"
  define xs where "xs = take n (drop written src)"
  define s1 where "s1 = condvarWakeAll (set_pipe p (Some (ring_put xs q)) s)"
  show ?case
  proof (cases "written < length src \<and> plength q \<noteq> PIPE_CAPACITY \<and> readers q \<noteq> 0")
    case False
    with "1.prems" le transfers_refl [OF q] show ?thesis
      by (auto simp: write_loop.simps [of tid slot p src written s] written_upto_def
          split: if_splits)
  next
    case True
    have len: "length xs = n" by (simp add: xs_def n_def)
    have n: "n \<le> length src - written" "0 < n" using True le by (auto simp: n_def)
    have fits: "plength q + length xs \<le> PIPE_CAPACITY"
      using len le by (auto simp: n_def split: if_splits)
    have inv1: "fds_inv s1" unfolding s1_def fds_inv_sleep xs_def
      by (rule write_chunk_inv [OF "1.prems"(1) q]) (simp add: n_def)
    have step: "transfers p xs s s1"
      unfolding s1_def transfers_sleep by (rule transfers_put [OF "1.prems"(1) q fits])
    have eq: "write_loop tid slot p src written s =
        (if nonblocking slot s1 then (Ret (Inr (written + n)), s1)
         else write_loop tid slot p src (written + n) s1)"
      using True le q
      by (simp add: write_loop.simps [of tid slot p src written s] Let_def n_def s1_def xs_def)
    show ?thesis
    proof (cases "nonblocking slot s1")
      case True
      with eq "1.prems" step n show ?thesis by (auto simp: written_upto_def xs_def)
    next
      case nb: False
      have q1: "pipes s1 p = Some (ring_put xs q)" by (simp add: s1_def)
      have wl: "write_loop tid slot p src (written + n) s1 = (r, s')"
        using eq nb "1.prems" by simp
      have ih: "written + n \<le> written_upto (written + n) r \<and>
          written_upto (written + n) r \<le> length src \<and>
          transfers p (take (written_upto (written + n) r - (written + n)) (drop (written + n) src))
            s1 s' \<and> (\<forall>e. r = Ret (Inl e) \<longrightarrow> s' = s1 \<and> written + n = 0) \<and>
          (\<forall>i p. r \<noteq> WaitRead i p) \<and> r \<noteq> Fault \<and> r \<noteq> Spin"
        unfolding s1_def xs_def
        by (rule "1.IH" [OF _ q _ _ refl _ n_def refl refl])
          (use True nb le inv1 q1 wl n in \<open>simp_all add: s1_def xs_def\<close>)
      have upto: "written_upto (written + n) r = written_upto written r"
        using ih n by (auto simp: written_upto_def split: outcome.splits sum.splits)
      let ?w = "written_upto written r"
      have whole: "xs @ take (?w - (written + n)) (drop (written + n) src) =
          take (?w - written) (drop written src)"
      proof -
        have "take (?w - written) (drop written src) =
            take (n + (?w - (written + n))) (drop written src)"
          using ih upto by simp
        also have "\<dots> = xs @ take (?w - (written + n)) (drop (written + n) src)"
          by (simp add: take_add xs_def add.commute)
        finally show ?thesis by simp
      qed
      have "transfers p (take (?w - written) (drop written src)) s s'"
        using transfers_trans [OF step, of "take (?w - (written + n)) (drop (written + n) src)" s']
          ih upto whole by simp
      with ih upto n show ?thesis by auto
    qed
  qed
qed

end
