(* ===== verification/PipeSystem.thy ===== *)
theory PipeSystem
  imports PipeTransfer
begin

text \<open>
  Threads over the descriptor table.  A step is one critical section of one thread: a call, the
  continuation of a blocked call after \<^verbatim>\<open>condvarWait\<close> returns, one of the three sections of
  \<^verbatim>\<open>fakefd_dup2\<close>, or a spurious wake-up.  Labels record the bytes that enter and leave a pipe
  and the pipes that are freed.
\<close>

section \<open>Steps\<close>

datatype pending =
    PRead nat nat nat
  | PWrite nat nat "byte list" nat
  | PDup2Close int nat nat
  | PDup2 nat nat

record sys =
  tab :: fds
  pend :: "nat \<Rightarrow> pending option"

datatype label = Tau | Sent nat "byte list" | Rcvd nat "byte list" | Freed nat

definition slot_pipe :: "int \<Rightarrow> fds \<Rightarrow> nat option" where
  "slot_pipe fd s = (case slot_from_fd fd of None \<Rightarrow> None | Some slot \<Rightarrow> fpipe (slots s ! slot))"

fun read_pending :: "nat \<Rightarrow> byte list result outcome \<Rightarrow> pending option" where
  "read_pending count (WaitRead slot p) = Some (PRead slot p count)"
| "read_pending count _ = None"

fun write_pending :: "byte list \<Rightarrow> nat result outcome \<Rightarrow> pending option" where
  "write_pending src (WaitWrite slot p n) = Some (PWrite slot p src n)"
| "write_pending src _ = None"

fun read_label :: "nat option \<Rightarrow> byte list result outcome \<Rightarrow> label" where
  "read_label (Some p) (Ret (Inr bytes)) = Rcvd p bytes"
| "read_label _ _ = Tau"

definition write_label :: "nat option \<Rightarrow> byte list \<Rightarrow> nat \<Rightarrow> nat result outcome \<Rightarrow> label" where
  "write_label po src n0 r =
     (case po of None \<Rightarrow> Tau
      | Some p \<Rightarrow> Sent p (take (written_upto n0 r - n0) (drop n0 src)))"

definition close_label :: "nat option \<Rightarrow> fds \<Rightarrow> fds \<Rightarrow> label" where
  "close_label po s s' =
     (case po of None \<Rightarrow> Tau
      | Some p \<Rightarrow> if pipes s p \<noteq> None \<and> pipes s' p = None then Freed p else Tau)"

definition upd :: "nat \<Rightarrow> pending option \<Rightarrow> fds \<Rightarrow> sys \<Rightarrow> sys" where
  "upd t pd s S = S\<lparr>tab := s, pend := (pend S)(t := pd)\<rparr>"

lemma upd_simps [simp]: "tab (upd t pd s S) = s" "pend (upd t pd s S) = (pend S)(t := pd)"
  by (simp_all add: upd_def)

inductive step :: "sys \<Rightarrow> label \<Rightarrow> sys \<Rightarrow> bool" where
  read_call: "pend S t = None \<Longrightarrow> fakefd_read t fd buf_ok count (tab S) = (r, s') \<Longrightarrow>
    step S (read_label (slot_pipe fd (tab S)) r) (upd t (read_pending count r) s' S)"
| read_cont: "pend S t = Some (PRead slot p count) \<Longrightarrow> t \<notin> sleeping (tab S) \<Longrightarrow>
    read_wake t slot p count (tab S) = (r, s') \<Longrightarrow>
    step S (read_label (Some p) r) (upd t (read_pending count r) s' S)"
| write_call: "pend S t = None \<Longrightarrow> fakefd_write t fd buf_ok src (tab S) = (r, s') \<Longrightarrow>
    step S (write_label (slot_pipe fd (tab S)) src 0 r) (upd t (write_pending src r) s' S)"
| write_cont: "pend S t = Some (PWrite slot p src n) \<Longrightarrow> t \<notin> sleeping (tab S) \<Longrightarrow>
    write_wake t slot p src n (tab S) = (r, s') \<Longrightarrow>
    step S (write_label (Some p) src n r) (upd t (write_pending src r) s' S)"
| close_call: "pend S t = None \<Longrightarrow> fakefd_close fd (tab S) = (r, s') \<Longrightarrow>
    step S (close_label (slot_pipe fd (tab S)) (tab S) s') (upd t None s' S)"
| dup_call: "pend S t = None \<Longrightarrow> fakefd_dup fd min_fd cloexec (tab S) = (r, s') \<Longrightarrow>
    step S Tau (upd t None s' S)"
| fcntl_call: "pend S t = None \<Longrightarrow> fakefd_fcntl fd cmd arg (tab S) = (r, s') \<Longrightarrow>
    step S Tau (upd t None s' S)"
| pipe_call: "pend S t = None \<Longrightarrow> (\<And>p. fresh = Some p \<Longrightarrow> pipes (tab S) p = None) \<Longrightarrow>
    fakefd_pipe fds_ok fresh (tab S) = (x, s') \<Longrightarrow> step S Tau (upd t None s' S)"
| dup2_test: "pend S t = None \<Longrightarrow> slot_from_fd oldfd = Some i \<Longrightarrow> slot_from_fd newfd = Some j \<Longrightarrow>
    oldfd \<noteq> newfd \<Longrightarrow>
    step S Tau (upd t (Some (if fakefd_is_open newfd (tab S) then PDup2Close newfd i j
                             else PDup2 i j)) (tab S) S)"
| dup2_close: "pend S t = Some (PDup2Close newfd i j) \<Longrightarrow> fakefd_close newfd (tab S) = (r, s') \<Longrightarrow>
    step S (close_label (slot_pipe newfd (tab S)) (tab S) s') (upd t (Some (PDup2 i j)) s' S)"
| dup2_clone: "pend S t = Some (PDup2 i j) \<Longrightarrow> fakefd_dup2_locked i j (tab S) = (r, s') \<Longrightarrow>
    step S Tau (upd t None s' S)"
| spurious: "step S Tau (S\<lparr>tab := (tab S)\<lparr>sleeping := sleeping (tab S) - {t}\<rparr>\<rparr>)"

definition init_sys :: sys where
  "init_sys = \<lparr>tab = init_fds, pend = (\<lambda>_. None)\<rparr>"

inductive reachable :: "sys \<Rightarrow> bool" where
  start: "reachable init_sys"
| step: "reachable S \<Longrightarrow> step S l S' \<Longrightarrow> reachable S'"

inductive run :: "sys \<Rightarrow> label list \<Rightarrow> sys \<Rightarrow> bool" where
  nil: "run S [] S"
| snoc: "run S ls S' \<Longrightarrow> step S' l S'' \<Longrightarrow> run S (ls @ [l]) S''"

inductive_cases run_nilE: "run S [] S'"

fun sent :: "nat \<Rightarrow> label list \<Rightarrow> byte list" where
  "sent p [] = []"
| "sent p (Sent p' bytes # ls) = (if p' = p then bytes else []) @ sent p ls"
| "sent p (_ # ls) = sent p ls"

fun rcvd :: "nat \<Rightarrow> label list \<Rightarrow> byte list" where
  "rcvd p [] = []"
| "rcvd p (Rcvd p' bytes # ls) = (if p' = p then bytes else []) @ rcvd p ls"
| "rcvd p (_ # ls) = rcvd p ls"

lemma sent_append [simp]: "sent p (xs @ ys) = sent p xs @ sent p ys"
  by (induction p xs rule: sent.induct) simp_all

lemma rcvd_append [simp]: "rcvd p (xs @ ys) = rcvd p xs @ rcvd p ys"
  by (induction p xs rule: rcvd.induct) simp_all

section \<open>Operations that transfer nothing\<close>

text \<open>
  \<open>grows s s'\<close>: open descriptors stay as they are, live pipes stay live with the same contents
  and at least as many readers and writers, and nobody is woken.
\<close>

definition grows :: "fds \<Rightarrow> fds \<Rightarrow> bool" where
  "grows s s' \<longleftrightarrow> sleeping s' = sleeping s \<and>
     (\<forall>i<ASNX_FAKE_FD_COUNT. fkind (slots s ! i) \<noteq> FAKEFD_UNUSED \<longrightarrow>
        fkind (slots s' ! i) = fkind (slots s ! i) \<and> fpipe (slots s' ! i) = fpipe (slots s ! i)) \<and>
     (\<forall>p q. pipes s p = Some q \<longrightarrow> (\<exists>q'. pipes s' p = Some q' \<and>
        ring_contents q' = ring_contents q \<and> plength q' = plength q \<and> readers q \<le> readers q' \<and> writers q \<le> writers q'))"

lemma grows_refl [simp]: "grows s s"
  by (simp add: grows_def)

lemma grows_flags:
  "fkind e = fkind (slots s ! i) \<Longrightarrow> fpipe e = fpipe (slots s ! i) \<Longrightarrow>
   i < length (slots s) \<Longrightarrow> grows s (set_slot i e s)"
  by (auto simp: grows_def nth_list_update)

lemma clone_grows:
  assumes inv: "fds_inv s"
  shows "grows s (snd (clone_into_slot_locked src dst cloexec s))"
  using fds_inv_lengthD [OF inv]
  by (auto simp: clone_into_slot_locked_def Let_def grows_def nth_list_update ring_contents_def
      split: option.splits)

lemma clone_result_snd [simp]: "snd (clone_result e r) = snd r"
  by (auto simp: clone_result_def split: prod.splits outcome.splits option.splits)

lemma fakefd_dup_grows: "fds_inv s \<Longrightarrow> grows s (snd (fakefd_dup fd m c s))"
  by (auto simp: fakefd_dup_def Let_def clone_grows split: option.splits)

lemma fakefd_dup2_locked_grows: "fds_inv s \<Longrightarrow> grows s (snd (fakefd_dup2_locked i j s))"
  by (auto simp: fakefd_dup2_locked_def Let_def clone_grows)

lemma fakefd_fcntl_grows:
  assumes inv: "fds_inv s"
  shows "grows s (snd (fakefd_fcntl fd cmd arg s))"
proof (cases "slot_from_fd fd")
  case (Some slot)
  have "grows s (set_slot slot ((slots s ! slot)\<lparr>fd_flags := arg\<rparr>) s)"
    "grows s (set_slot slot ((slots s ! slot)\<lparr>status_flags := arg\<rparr>) s)"
    using slot_from_fd_bound [OF Some] by (auto intro!: grows_flags simp: fds_inv_lengthD [OF inv])
  with Some fakefd_dup_grows [OF inv] show ?thesis by (simp add: fakefd_fcntl_def Let_def)
qed (simp add: fakefd_fcntl_def)

lemma fakefd_pipe_grows:
  assumes inv: "fds_inv s" and fresh: "\<And>p. fresh = Some p \<Longrightarrow> pipes s p = None"
  shows "grows s (snd (fakefd_pipe fds_ok fresh s))"
  using inv
proof (cases rule: fakefd_pipe_cases [of s fds_ok fresh])
  case (unchanged e)
  then show ?thesis by simp
next
  case (made p r w)
  with fresh fds_inv_lengthD [OF inv] show ?thesis
    by (auto simp: grows_def install_pipe_def nth_list_update)
next
  case (undone e r)
  with fds_inv_lengthD [OF inv] show ?thesis by (auto simp: grows_def nth_list_update)
qed

text \<open>Closing wakes everybody and touches one pipe only.\<close>

lemma fakefd_close_cases:
  assumes inv: "fds_inv s"
  obtains (bad) "fakefd_close fd s = (Ret (Inl EBADF), s)" "\<not> fakefd_is_open fd s"
  | (closed) slot p q q' where "slot_from_fd fd = Some slot" "slot < ASNX_FAKE_FD_COUNT"
      "fkind (slots s ! slot) \<noteq> FAKEFD_UNUSED" "fpipe (slots s ! slot) = Some p"
      "pipes s p = Some q" "ring_contents q' = ring_contents q"
      "fakefd_close fd s = (Ret (Inr ()), condvarWakeAll (set_pipe p
         (if readers q' = 0 \<and> writers q' = 0 then None else Some q')
         (set_slot slot zero_entry s)))"
      "readers q' = readers q - of_bool (fkind (slots s ! slot) = FAKEFD_PIPE_READ)"
      "writers q' = writers q - of_bool (fkind (slots s ! slot) = FAKEFD_PIPE_WRITE)"
proof (cases "\<exists>slot. slot_from_fd fd = Some slot \<and> fkind (slots s ! slot) \<noteq> FAKEFD_UNUSED")
  case False
  then show thesis
    by (intro bad)
      (auto simp: fakefd_close_def fakefd_is_open_def Let_def split: option.splits bool.splits)
next
  case True
  then obtain slot where slot: "slot_from_fd fd = Some slot"
    and used: "fkind (slots s ! slot) \<noteq> FAKEFD_UNUSED" by blast
  then have i: "slot < ASNX_FAKE_FD_COUNT" by (simp add: slot_from_fd_bound)
  from fds_inv_live [OF inv i used] obtain p q
    where p: "fpipe (slots s ! slot) = Some p" and q: "pipes s p = Some q" .
  let ?k = "fkind (slots s ! slot)"
  define q' where "q' = q\<lparr>readers := readers q - of_bool (?k = FAKEFD_PIPE_READ),
                          writers := writers q - of_bool (?k = FAKEFD_PIPE_WRITE)\<rparr>"
  have pos: "0 < refs ?k p s"
    using i p fds_inv_lengthD [OF inv] by (auto simp: refs_def refers_def intro!: count_where_pos)
  consider "?k = FAKEFD_PIPE_READ" | "?k = FAKEFD_PIPE_WRITE" using used by (cases ?k) auto
  then have "fakefd_close fd s = (Ret (Inr ()), condvarWakeAll (set_pipe p
       (if readers q' = 0 \<and> writers q' = 0 then None else Some q') (set_slot slot zero_entry s)))"
  proof cases
    case 1
    with pos fds_inv_pipeD [OF inv q] have "readers q \<noteq> 0" by (simp add: pipe_ok_def)
    with 1 slot p q show ?thesis
      by (simp add: fakefd_close_def Let_def q'_def set_pipe_def set_slot_def condvarWakeAll_def)
  next
    case 2
    with pos fds_inv_pipeD [OF inv q] have "writers q \<noteq> 0" by (simp add: pipe_ok_def)
    with 2 slot p q show ?thesis
      by (simp add: fakefd_close_def Let_def q'_def set_pipe_def set_slot_def condvarWakeAll_def)
  qed
  then show thesis
    by (intro closed [OF slot i used p q, of q']) (simp_all add: q'_def ring_contents_def)
qed

section \<open>The system invariant\<close>

text \<open>
  \<open>must_wait pd s\<close>: the condition on which the blocked call \<open>pd\<close> went to sleep still holds.
\<close>

fun must_wait :: "pending \<Rightarrow> fds \<Rightarrow> bool" where
  "must_wait (PRead slot p _) s \<longleftrightarrow> slot < ASNX_FAKE_FD_COUNT \<and>
     fkind (slots s ! slot) = FAKEFD_PIPE_READ \<and> fpipe (slots s ! slot) = Some p \<and>
     (\<exists>q. pipes s p = Some q \<and> plength q = 0 \<and> writers q \<noteq> 0)"
| "must_wait (PWrite slot p _ _) s \<longleftrightarrow> slot < ASNX_FAKE_FD_COUNT \<and>
     fkind (slots s ! slot) = FAKEFD_PIPE_WRITE \<and> fpipe (slots s ! slot) = Some p \<and>
     (\<exists>q. pipes s p = Some q \<and> plength q = PIPE_CAPACITY \<and> readers q \<noteq> 0)"
| "must_wait _ s \<longleftrightarrow> False"

fun pending_ok :: "pending \<Rightarrow> bool" where
  "pending_ok (PRead slot _ _) \<longleftrightarrow> slot < ASNX_FAKE_FD_COUNT"
| "pending_ok (PWrite slot _ src n) \<longleftrightarrow> slot < ASNX_FAKE_FD_COUNT \<and> n \<le> length src"
| "pending_ok (PDup2Close _ i j) \<longleftrightarrow> i < ASNX_FAKE_FD_COUNT \<and> j < ASNX_FAKE_FD_COUNT"
| "pending_ok (PDup2 i j) \<longleftrightarrow> i < ASNX_FAKE_FD_COUNT \<and> j < ASNX_FAKE_FD_COUNT"

definition sys_inv :: "sys \<Rightarrow> bool" where
  "sys_inv S \<longleftrightarrow> fds_inv (tab S) \<and>
     (\<forall>t pd. pend S t = Some pd \<longrightarrow> pending_ok pd) \<and>
     (\<forall>t\<in>sleeping (tab S). \<exists>pd. pend S t = Some pd \<and> must_wait pd (tab S))"

lemma must_wait_grows:
  assumes "grows s s'" and "must_wait pd s"
  shows "must_wait pd s'"
proof (cases pd)
  case (PRead slot p n)
  with assms(2) obtain q where "pipes s p = Some q" "plength q = 0" "writers q \<noteq> 0" by auto
  moreover from this obtain q' where "pipes s' p = Some q'" "plength q' = plength q"
    "writers q \<le> writers q'" using assms(1) unfolding grows_def by blast
  ultimately show ?thesis using PRead assms by (auto simp: grows_def)
next
  case (PWrite slot p src n)
  with assms(2) obtain q where "pipes s p = Some q" "plength q = PIPE_CAPACITY"
    "readers q \<noteq> 0" by auto
  moreover from this obtain q' where "pipes s' p = Some q'" "plength q' = plength q"
    "readers q \<le> readers q'" using assms(1) unfolding grows_def by blast
  ultimately show ?thesis using PWrite assms by (auto simp: grows_def)
qed (use assms in auto)

lemma must_wait_sleep [simp]: "must_wait pd (condvarWait t s) = must_wait pd s"
  by (cases pd) simp_all

lemma sys_invD:
  assumes "sys_inv S"
  shows "fds_inv (tab S)" and "pend S t = Some pd \<Longrightarrow> pending_ok pd"
    and "t \<in> sleeping (tab S) \<Longrightarrow> \<exists>pd. pend S t = Some pd \<and> must_wait pd (tab S)"
  using assms by (auto simp: sys_inv_def)

text \<open>Three ways a step keeps the sleepers right: growth, a broadcast, or a new sleeper.\<close>

lemma sys_inv_grows:
  assumes inv: "sys_inv S" and s': "fds_inv s'" "grows (tab S) s'"
    and awake: "t \<notin> sleeping (tab S)" and pd: "\<And>x. pd = Some x \<Longrightarrow> pending_ok x"
  shows "sys_inv (upd t pd s' S)"
proof -
  have sl: "sleeping s' = sleeping (tab S)" using s'(2) by (simp add: grows_def)
  have "\<exists>x. ((pend S)(t := pd)) u = Some x \<and> must_wait x s'" if u: "u \<in> sleeping s'" for u
  proof -
    from u sl awake have "u \<noteq> t" by auto
    moreover obtain x where "pend S u = Some x" "must_wait x (tab S)"
      using sys_invD(3) [OF inv, of u] u sl by auto
    ultimately show ?thesis using must_wait_grows [OF s'(2)] by auto
  qed
  with inv s'(1) pd show ?thesis by (simp add: sys_inv_def)
qed

lemma sys_inv_woken:
  assumes inv: "sys_inv S" and "fds_inv s'" and "sleeping s' = {}"
    and "\<And>x. pd = Some x \<Longrightarrow> pending_ok x"
  shows "sys_inv (upd t pd s' S)"
  using assms by (auto simp: sys_inv_def)

lemma sys_inv_wait:
  assumes inv: "sys_inv S" and s': "fds_inv s'" and sl: "sleeping s' = {} \<or> s' = tab S"
    and pd: "pending_ok pd" "must_wait pd s'"
  shows "sys_inv (upd t (Some pd) (condvarWait t s') S)"
  using sl
proof
  assume "sleeping s' = {}"
  with inv s' pd show ?thesis by (auto simp: sys_inv_def)
next
  assume "s' = tab S"
  with inv pd show ?thesis by (auto simp: sys_inv_def)
qed

lemma read_loop_sys:
  assumes inv: "sys_inv S" and awake: "t \<notin> sleeping (tab S)" and i: "slot < ASNX_FAKE_FD_COUNT"
    and e: "fkind (slots (tab S) ! slot) = FAKEFD_PIPE_READ" "fpipe (slots (tab S) ! slot) = Some p"
    and r: "read_loop t slot p count (tab S) = (r, s')"
  shows "sys_inv (upd t (read_pending count r) s' S)"
proof -
  note fi = sys_invD(1) [OF inv]
  obtain q where q: "pipes (tab S) p = Some q"
    using fds_inv_entryD [OF fi i] e by (auto simp: entry_ok_def)
  have "fds_inv s'" using read_loop_safe [OF fi, of p t slot count] q r by (simp add: safe_def)
  note cases = read_loop_cases [OF fi q, of t slot count, unfolded r]
  show ?thesis
  proof (cases "plength q = 0 \<and> writers q \<noteq> 0 \<and> \<not> nonblocking slot (tab S)")
    case True
    with cases have "r = WaitRead slot p" "s' = condvarWait t (tab S)" by auto
    with inv fi e q i True show ?thesis
      by (auto intro!: sys_inv_wait simp: ring_contents_empty)
  next
    case False
    have "s' = tab S \<or> sleeping s' = {}" "read_pending count r = None"
      using cases False by (auto split: if_splits)
    with inv awake \<open>fds_inv s'\<close> show ?thesis
      by (auto intro: sys_inv_grows sys_inv_woken)
  qed
qed

text \<open>How a write step leaves the wait queue: asleep on a full pipe, or with everybody woken.\<close>

definition sleeps_full :: "nat \<Rightarrow> nat \<Rightarrow> nat \<Rightarrow> nat \<Rightarrow> fds \<Rightarrow> fds \<Rightarrow> bool" where
  "sleeps_full tid slot p n s s' \<longleftrightarrow> (\<exists>s0 q. s' = condvarWait tid s0 \<and> fds_inv s0 \<and>
     slots s0 = slots s \<and> (s0 = s \<or> sleeping s0 = {}) \<and> pipes s0 p = Some q \<and>
     plength q = PIPE_CAPACITY \<and> readers q \<noteq> 0)"

lemma write_loop_sleep:
  assumes "fds_inv s" and "pipes s p = Some q"
    and "write_loop tid slot p src written s = (r, s')"
  shows "(\<exists>n. r = WaitWrite slot p n \<and> sleeps_full tid slot p n s s') \<or>
    write_pending src r = None \<and> (s' = s \<or> sleeping s' = {})"
  using assms
proof (induction tid slot p src written s arbitrary: q rule: write_loop.induct)
  case (1 tid slot p src written s)
  note q = "1.prems"(2)
  have le: "plength q \<le> PIPE_CAPACITY"
    using fds_inv_ringD [OF "1.prems"(1) q] by (simp add: ring_inv_def)
  define n where "n = (if PIPE_CAPACITY - plength q < length src - written
                       then PIPE_CAPACITY - plength q else length src - written)"
  define q1 where "q1 = ring_put (take n (drop written src)) q"
  define s1 where "s1 = condvarWakeAll (set_pipe p (Some q1) s)"
  show ?case
  proof (cases "written < length src \<and> plength q \<noteq> PIPE_CAPACITY \<and> readers q \<noteq> 0")
    case False
    with "1.prems" le show ?thesis
      by (auto simp: write_loop.simps [of tid slot p src written s] sleeps_full_def
          split: if_splits)
  next
    case True
    have inv1: "fds_inv s1" unfolding s1_def fds_inv_sleep q1_def
      by (rule write_chunk_inv [OF "1.prems"(1) q]) (simp add: n_def)
    have eq: "write_loop tid slot p src written s =
        (if nonblocking slot s1 then (Ret (Inr (written + n)), s1)
         else write_loop tid slot p src (written + n) s1)"
      using True le q
      by (simp add: write_loop.simps [of tid slot p src written s] Let_def n_def s1_def q1_def)
    show ?thesis
    proof (cases "nonblocking slot s1")
      case True
      with eq "1.prems" show ?thesis by (auto simp: s1_def)
    next
      case nb: False
      have wl: "write_loop tid slot p src (written + n) s1 = (r, s')"
        using eq nb "1.prems" by simp
      have "(\<exists>n. r = WaitWrite slot p n \<and> sleeps_full tid slot p n s1 s') \<or>
          write_pending src r = None \<and> (s' = s1 \<or> sleeping s' = {})"
        unfolding s1_def q1_def
        by (rule "1.IH" [OF _ q _ _ refl _ n_def refl refl])
          (use True nb le inv1 wl in \<open>simp_all add: s1_def q1_def\<close>)
      then show ?thesis by (auto simp: sleeps_full_def s1_def)
    qed
  qed
qed

lemma write_loop_sys:
  assumes inv: "sys_inv S" and awake: "t \<notin> sleeping (tab S)" and i: "slot < ASNX_FAKE_FD_COUNT"
    and e: "fkind (slots (tab S) ! slot) = FAKEFD_PIPE_WRITE" "fpipe (slots (tab S) ! slot) = Some p"
    and n: "n \<le> length src" and r: "write_loop t slot p src n (tab S) = (r, s')"
  shows "sys_inv (upd t (write_pending src r) s' S)"
proof -
  note fi = sys_invD(1) [OF inv]
  obtain q where q: "pipes (tab S) p = Some q"
    using fds_inv_entryD [OF fi i] e by (auto simp: entry_ok_def)
  have "fds_inv s'" using write_loop_safe [OF fi, of p t slot src n] q r by (simp add: safe_def)
  have upto: "written_upto n r \<le> length src" using write_loop_transfers [OF fi q n r] by simp
  show ?thesis
    using write_loop_sleep [OF fi q r]
  proof (elim disjE exE conjE)
    fix m assume m: "r = WaitWrite slot p m" and "sleeps_full t slot p m (tab S) s'"
    then obtain s0 q0 where "s' = condvarWait t s0" "fds_inv s0" "slots s0 = slots (tab S)"
      "s0 = tab S \<or> sleeping s0 = {}" "pipes s0 p = Some q0" "plength q0 = PIPE_CAPACITY"
      "readers q0 \<noteq> 0" by (auto simp: sleeps_full_def)
    with inv i e m upto show ?thesis by (auto intro!: sys_inv_wait simp: written_upto_def)
  next
    assume "write_pending src r = None" "s' = tab S"
    with inv awake \<open>fds_inv s'\<close> show ?thesis by (auto intro: sys_inv_grows)
  next
    assume "write_pending src r = None" "sleeping s' = {}"
    with inv \<open>fds_inv s'\<close> show ?thesis by (auto intro: sys_inv_woken)
  qed
qed

section \<open>Every step keeps the invariant\<close>

lemma awakeI: "sys_inv S \<Longrightarrow> pend S t = None \<Longrightarrow> t \<notin> sleeping (tab S)"
  by (auto dest: sys_invD(3))

lemma sys_inv_idle: "sys_inv S \<Longrightarrow> t \<notin> sleeping (tab S) \<Longrightarrow> sys_inv (upd t None (tab S) S)"
  by (rule sys_inv_grows) (auto dest: sys_invD)

lemma fakefd_read_shape:
  "(\<exists>slot p. slot_from_fd fd = Some slot \<and> fkind (slots s ! slot) = FAKEFD_PIPE_READ \<and>
      fpipe (slots s ! slot) = Some p \<and>
      fakefd_read t fd buf_ok count s = read_loop t slot p count s) \<or>
   (\<exists>x. fakefd_read t fd buf_ok count s = (Ret x, s) \<and> (x = Inr [] \<or> (\<exists>e. x = Inl e)))"
  by (auto simp: fakefd_read_def split: option.splits fkind.splits)

lemma fakefd_write_shape:
  assumes "fds_inv s"
  shows "(\<exists>slot p. slot_from_fd fd = Some slot \<and> fkind (slots s ! slot) = FAKEFD_PIPE_WRITE \<and>
      fpipe (slots s ! slot) = Some p \<and>
      fakefd_write t fd buf_ok src s = write_loop t slot p src 0 s) \<or>
   (\<exists>x. fakefd_write t fd buf_ok src s = (Ret x, s) \<and> (x = Inr 0 \<or> (\<exists>e. x = Inl e)))"
proof (cases "slot_from_fd fd")
  case (Some slot)
  then have "entry_ok s (slots s ! slot)"
    using fds_inv_entryD [OF assms] slot_from_fd_bound by blast
  with Some show ?thesis
    by (auto simp: fakefd_write_def entry_ok_def split: option.splits fkind.splits)
qed (simp add: fakefd_write_def)

lemma fakefd_close_sys:
  assumes inv: "sys_inv S" and t: "t \<notin> sleeping (tab S)"
    and pd: "\<And>x. pd = Some x \<Longrightarrow> pending_ok x"
  shows "sys_inv (upd t pd (snd (fakefd_close fd (tab S))) S)"
proof -
  have fi: "fds_inv (snd (fakefd_close fd (tab S)))"
    using fakefd_close_safe [OF sys_invD(1) [OF inv], of fd] by (simp add: safe_def)
  have "snd (fakefd_close fd (tab S)) = tab S \<or> sleeping (snd (fakefd_close fd (tab S))) = {}"
    by (cases rule: fakefd_close_cases [OF sys_invD(1) [OF inv], of fd]) auto
  with inv fi t pd show ?thesis by (auto intro: sys_inv_grows sys_inv_woken)
qed

lemma step_sys_inv:
  assumes "step S l S'" and "sys_inv S"
  shows "sys_inv S'"
  using assms
proof (induction rule: step.induct)
  case (read_call S t fd buf_ok count r s')
  then show ?case
    using fakefd_read_shape [of fd "tab S" t buf_ok count] awakeI [of S t]
    by (auto intro: sys_inv_idle read_loop_sys slot_from_fd_bound)
next
  case (read_cont S t slot p count r s')
  then have "slot < ASNX_FAKE_FD_COUNT" by (auto dest: sys_invD(2))
  with read_cont show ?case
    by (auto simp: read_wake_def split: if_splits intro: sys_inv_idle read_loop_sys)
next
  case (write_call S t fd buf_ok src r s')
  then show ?case
    using fakefd_write_shape [OF sys_invD(1), of S fd t buf_ok src] awakeI [of S t]
    by (auto intro: sys_inv_idle write_loop_sys slot_from_fd_bound)
next
  case (write_cont S t slot p src n r s')
  then have "slot < ASNX_FAKE_FD_COUNT" "n \<le> length src" by (auto dest: sys_invD(2))
  with write_cont show ?case
    by (auto simp: write_wake_def split: if_splits intro: sys_inv_idle write_loop_sys)
next
  case (close_call S t fd r s')
  then show ?case using fakefd_close_sys [of S t None fd] awakeI [of S t] by simp
next
  case (dup_call S t fd min_fd cloexec r s')
  note fi = sys_invD(1) [OF dup_call.prems]
  have "fds_inv s'" "grows (tab S) s'"
    using fakefd_dup_safe [OF fi, of fd min_fd cloexec] fakefd_dup_grows [OF fi, of fd min_fd cloexec]
      dup_call.hyps by (simp_all add: safe_def)
  with dup_call awakeI [of S t] show ?case by (auto intro: sys_inv_grows)
next
  case (fcntl_call S t fd cmd arg r s')
  note fi = sys_invD(1) [OF fcntl_call.prems]
  have "fds_inv s'" "grows (tab S) s'"
    using fakefd_fcntl_safe [OF fi, of fd cmd arg] fakefd_fcntl_grows [OF fi, of fd cmd arg]
      fcntl_call.hyps by (simp_all add: safe_def)
  with fcntl_call awakeI [of S t] show ?case by (auto intro: sys_inv_grows)
next
  case (pipe_call S t fresh fds_ok x s')
  note fi = sys_invD(1) [OF pipe_call.prems]
  have "fds_inv s'" "grows (tab S) s'"
    using fakefd_pipe_inv [OF fi, of fresh fds_ok] fakefd_pipe_grows [OF fi, of fresh fds_ok]
      pipe_call.hyps by simp_all
  with pipe_call awakeI [of S t] show ?case by (auto intro: sys_inv_grows)
next
  case (dup2_test S t oldfd i newfd j)
  then show ?case
    using awakeI [of S t]
    by (auto intro!: sys_inv_grows dest: sys_invD(1) slot_from_fd_bound)
next
  case (dup2_close S t newfd i j r s')
  then have "t \<notin> sleeping (tab S)" by (auto dest: sys_invD(3))
  moreover have "pending_ok (PDup2 i j)" using dup2_close by (auto dest: sys_invD(2))
  ultimately show ?case
    using fakefd_close_sys [of S t "Some (PDup2 i j)" newfd] dup2_close by simp
next
  case (dup2_clone S t i j r s')
  note fi = sys_invD(1) [OF dup2_clone.prems]
  have "t \<notin> sleeping (tab S)" "i < ASNX_FAKE_FD_COUNT"
    using dup2_clone by (auto dest: sys_invD(2,3))
  moreover from this have "fds_inv s'" "grows (tab S) s'"
    using fakefd_dup2_locked_safe [OF fi, of i j] fakefd_dup2_locked_grows [OF fi, of i j]
      dup2_clone.hyps by (simp_all add: safe_def)
  ultimately show ?case using dup2_clone by (auto intro: sys_inv_grows)
next
  case (spurious S t)
  have "must_wait pd (s\<lparr>sleeping := X\<rparr>) = must_wait pd s" for pd s X by (cases pd) simp_all
  moreover have "fds_inv (s\<lparr>sleeping := X\<rparr>) = fds_inv s" for s X
    by (simp add: fds_inv_def entry_ok_def pipe_ok_def refs_def split: option.splits)
  ultimately show ?case using spurious by (simp add: sys_inv_def)
qed

lemma sys_inv_init: "sys_inv init_sys"
  using fds_inv_init by (simp add: sys_inv_def init_sys_def) (simp add: init_fds_def)

lemma reachable_inv: "reachable S \<Longrightarrow> sys_inv S"
  by (induction rule: reachable.induct) (auto intro: sys_inv_init step_sys_inv)

section \<open>The byte stream of a pipe\<close>

definition stream_step :: "nat \<Rightarrow> label \<Rightarrow> fds \<Rightarrow> fds \<Rightarrow> bool" where
  "stream_step p l s s' \<longleftrightarrow> (\<forall>q. pipes s p = Some q \<longrightarrow> l \<noteq> Freed p \<longrightarrow>
     (\<exists>q'. pipes s' p = Some q' \<and> ring_contents q @ sent p [l] = rcvd p [l] @ ring_contents q'))"

lemma grows_stream: "grows s s' \<Longrightarrow> stream_step p Tau s s'"
  by (fastforce simp: stream_step_def grows_def)

lemma same_stream:
  "\<forall>p'. sent p' [l] = [] \<and> rcvd p' [l] = [] \<Longrightarrow> stream_step p l s s"
  by (simp add: stream_step_def)

lemma read_loop_stream:
  assumes inv: "fds_inv s" and q: "pipes s p' = Some q"
    and r: "read_loop t slot p' count s = (r, s')"
  shows "stream_step p (read_label (Some p') r) s s'"
proof (cases "\<exists>bytes. r = Ret (Inr bytes)")
  case True
  then obtain bytes where b: "r = Ret (Inr bytes)" by blast
  obtain q' where q': "pipes s' p' = Some q'" "ring_contents q = bytes @ ring_contents q'"
    using read_loop_contents [OF inv q r [unfolded b]] .
  moreover have "pipes s' x = pipes s x" if "x \<noteq> p'" for x
    using that r read_loop_cases [OF inv q, of t slot count] by (auto split: if_splits)
  ultimately show ?thesis using q b by (auto simp: stream_step_def)
next
  case False
  have "pipes s' = pipes s"
    using False r read_loop_cases [OF inv q, of t slot count] by (auto split: if_splits)
  moreover have "read_label (Some p') r = Tau"
    using False by (cases "(Some p', r)" rule: read_label.cases) auto
  ultimately show ?thesis by (simp add: stream_step_def)
qed

lemma write_loop_stream:
  assumes inv: "fds_inv s" and q: "pipes s p' = Some q" and n: "n \<le> length src"
    and r: "write_loop t slot p' src n s = (r, s')"
  shows "stream_step p (write_label (Some p') src n r) s s'"
  using write_loop_transfers [OF inv q n r] q
  by (auto simp: stream_step_def write_label_def transfers_def)

lemma close_stream:
  assumes inv: "fds_inv s" and r: "fakefd_close fd s = (r, s')"
  shows "stream_step p (close_label (slot_pipe fd s) s s') s s'"
  by (cases rule: fakefd_close_cases [OF inv, of fd])
    (use r in \<open>auto simp: stream_step_def close_label_def slot_pipe_def split: option.splits\<close>)

lemma step_stream:
  assumes "step S l S'" and "sys_inv S"
  shows "stream_step p l (tab S) (tab S')"
  using assms
proof (induction rule: step.induct)
  case (read_call S t fd buf_ok count r s')
  note fi = sys_invD(1) [OF read_call.prems]
  consider (loop) slot p' where "slot_from_fd fd = Some slot" "fpipe (slots (tab S) ! slot) = Some p'"
      "fakefd_read t fd buf_ok count (tab S) = read_loop t slot p' count (tab S)"
    | (ret) x where "fakefd_read t fd buf_ok count (tab S) = (Ret x, tab S)"
      "x = Inr [] \<or> (\<exists>e. x = Inl e)"
    using fakefd_read_shape [of fd "tab S" t buf_ok count] by blast
  then show ?case
  proof cases
    case *: loop
    then obtain q where "pipes (tab S) p' = Some q"
      using fds_inv_entryD [OF fi slot_from_fd_bound [OF *(1)]] by (auto simp: entry_ok_def)
    with * fi read_call show ?thesis by (auto simp: slot_pipe_def intro: read_loop_stream)
  next
    case ret
    with read_call show ?thesis
      by (cases "slot_pipe fd (tab S)") (auto intro!: same_stream)
  qed
next
  case (read_cont S t slot p' count r s')
  note fi = sys_invD(1) [OF read_cont.prems]
  have slot: "slot < ASNX_FAKE_FD_COUNT" using read_cont by (auto dest: sys_invD(2))
  show ?case
  proof (cases "fkind (slots (tab S) ! slot) \<noteq> FAKEFD_PIPE_READ \<or> fpipe (slots (tab S) ! slot) \<noteq> Some p'")
    case True
    with read_cont show ?thesis by (auto simp: read_wake_def intro: same_stream)
  next
    case False
    then obtain q where "pipes (tab S) p' = Some q"
      using fds_inv_entryD [OF fi slot] by (auto simp: entry_ok_def)
    with False fi read_cont show ?thesis by (auto simp: read_wake_def intro: read_loop_stream)
  qed
next
  case (write_call S t fd buf_ok src r s')
  note fi = sys_invD(1) [OF write_call.prems]
  consider (loop) slot p' where "slot_from_fd fd = Some slot" "fpipe (slots (tab S) ! slot) = Some p'"
      "fakefd_write t fd buf_ok src (tab S) = write_loop t slot p' src 0 (tab S)"
    | (ret) x where "fakefd_write t fd buf_ok src (tab S) = (Ret x, tab S)"
      "x = Inr 0 \<or> (\<exists>e. x = Inl e)"
    using fakefd_write_shape [OF fi, of fd t buf_ok src] by blast
  then show ?case
  proof cases
    case *: loop
    then obtain q where "pipes (tab S) p' = Some q"
      using fds_inv_entryD [OF fi slot_from_fd_bound [OF *(1)]] by (auto simp: entry_ok_def)
    with * fi write_call show ?thesis by (auto simp: slot_pipe_def intro: write_loop_stream)
  next
    case ret
    with write_call show ?thesis
      by (auto simp: write_label_def written_upto_def split: option.splits intro!: same_stream)
  qed
next
  case (write_cont S t slot p' src n r s')
  note fi = sys_invD(1) [OF write_cont.prems]
  have slot: "slot < ASNX_FAKE_FD_COUNT" "n \<le> length src"
    using write_cont by (auto dest: sys_invD(2))
  show ?case
  proof (cases "fkind (slots (tab S) ! slot) \<noteq> FAKEFD_PIPE_WRITE \<or> fpipe (slots (tab S) ! slot) \<noteq> Some p'")
    case True
    with write_cont show ?thesis
      by (auto simp: write_wake_def write_label_def written_upto_def intro!: same_stream)
  next
    case False
    then obtain q where "pipes (tab S) p' = Some q"
      using fds_inv_entryD [OF fi slot(1)] by (auto simp: entry_ok_def)
    with False fi write_cont slot show ?thesis
      by (auto simp: write_wake_def intro: write_loop_stream)
  qed
next
  case (dup_call S t fd min_fd cloexec r s')
  then show ?case
    using fakefd_dup_grows [OF sys_invD(1), of S fd min_fd cloexec] by (auto intro: grows_stream)
next
  case (fcntl_call S t fd cmd arg r s')
  then show ?case
    using fakefd_fcntl_grows [OF sys_invD(1), of S fd cmd arg] by (auto intro: grows_stream)
next
  case (pipe_call S t fresh fds_ok x s')
  then show ?case
    using fakefd_pipe_grows [OF sys_invD(1), of S fresh fds_ok] by (auto intro: grows_stream)
next
  case (dup2_clone S t i j r s')
  then show ?case
    using fakefd_dup2_locked_grows [OF sys_invD(1), of S i j] by (auto intro: grows_stream)
next
  case (close_call S t fd r s')
  then show ?case by (auto intro: close_stream sys_invD(1))
next
  case (dup2_close S t newfd i j r s')
  then show ?case by (auto intro: close_stream sys_invD(1))
qed (simp_all add: stream_step_def)

lemma run_reachable: "run S ls S' \<Longrightarrow> reachable S \<Longrightarrow> reachable S'"
  by (induction rule: run.induct) (auto intro: reachable.step)

section \<open>Properties\<close>

text \<open>
  C1.  A pipe is a FIFO byte stream under every interleaving of threads: over any run in which
  the pipe is not freed, the bytes it held followed by the bytes written are the bytes read
  followed by the bytes it holds.  Blocked, partial, interrupted and spuriously woken calls are
  all steps of the run.
\<close>

theorem pipe_stream_fifo:
  assumes "run S ls S'" and "reachable S" and "pipes (tab S) p = Some q" and "Freed p \<notin> set ls"
  shows "\<exists>q'. pipes (tab S') p = Some q' \<and>
    ring_contents q @ sent p ls = rcvd p ls @ ring_contents q'"
  using assms
proof (induction rule: run.induct)
  case (nil S)
  then show ?case by simp
next
  case (snoc S ls S' l S'')
  then obtain q1 where q1: "pipes (tab S') p = Some q1"
    "ring_contents q @ sent p ls = rcvd p ls @ ring_contents q1" by auto
  have "stream_step p l (tab S') (tab S'')"
    using snoc.hyps snoc.prems(1) by (blast intro: step_stream reachable_inv run_reachable)
  with q1(1) snoc.prems obtain q2 where q2: "pipes (tab S'') p = Some q2"
    "ring_contents q1 @ sent p [l] = rcvd p [l] @ ring_contents q2" by (auto simp: stream_step_def)
  have "ring_contents q @ sent p (ls @ [l]) = rcvd p ls @ ring_contents q1 @ sent p [l]"
    using q1(2) by simp
  with q2 show ?case by simp
qed

text \<open>
  C2.  No wake-up is lost: whenever a thread sleeps on the condition variable, the condition it
  sleeps on still holds (its descriptor still names that end of that pipe, and the pipe is empty
  with writers left, or full with readers left).
\<close>

theorem no_lost_wakeup:
  assumes "reachable S" and "t \<in> sleeping (tab S)"
  shows "(\<exists>slot p count q. pend S t = Some (PRead slot p count) \<and>
      fkind (slots (tab S) ! slot) = FAKEFD_PIPE_READ \<and> fpipe (slots (tab S) ! slot) = Some p \<and>
      pipes (tab S) p = Some q \<and> plength q = 0 \<and> writers q \<noteq> 0) \<or>
    (\<exists>slot p src n q. pend S t = Some (PWrite slot p src n) \<and>
      fkind (slots (tab S) ! slot) = FAKEFD_PIPE_WRITE \<and> fpipe (slots (tab S) ! slot) = Some p \<and>
      pipes (tab S) p = Some q \<and> plength q = PIPE_CAPACITY \<and> readers q \<noteq> 0)"
proof -
  obtain pd where "pend S t = Some pd" "must_wait pd (tab S)"
    using sys_invD(3) [OF reachable_inv [OF assms(1)] assms(2)] by blast
  then show ?thesis by (cases pd) auto
qed

text \<open>
  C3.  Memory safety under every interleaving: no call, and no blocked call that resumes after
  other threads closed, duplicated or recycled descriptors, touches a freed pipe or spins while
  holding the lock.
\<close>

theorem pipe_memory_safe:
  assumes "reachable S"
  shows "fst (fakefd_read t fd ok count (tab S)) \<noteq> Fault \<and>
    fst (fakefd_write t fd ok src (tab S)) \<notin> {Fault, Spin} \<and>
    fst (fakefd_close fd (tab S)) \<noteq> Fault \<and>
    fst (fakefd_dup fd min_fd cloexec (tab S)) \<noteq> Fault \<and>
    fst (fakefd_dup2 fd newfd (tab S)) \<noteq> Fault \<and>
    fst (fakefd_fcntl fd cmd arg (tab S)) \<noteq> Fault \<and>
    fakefd_ready fd (tab S) \<noteq> Fault \<and>
    (case pend S t of
       None \<Rightarrow> True
     | Some (PRead slot p n) \<Rightarrow> fst (read_wake t slot p n (tab S)) \<noteq> Fault
     | Some (PWrite slot p xs n) \<Rightarrow> fst (write_wake t slot p xs n (tab S)) \<notin> {Fault, Spin}
     | Some (PDup2Close x i j) \<Rightarrow> fst (fakefd_close x (tab S)) \<noteq> Fault
     | Some (PDup2 i j) \<Rightarrow> fst (fakefd_dup2_locked i j (tab S)) \<noteq> Fault)"
proof -
  note inv = reachable_inv [OF assms]
  note fi = sys_invD(1) [OF inv]
  have "case pend S t of
       None \<Rightarrow> True
     | Some (PRead slot p n) \<Rightarrow> fst (read_wake t slot p n (tab S)) \<noteq> Fault
     | Some (PWrite slot p xs n) \<Rightarrow> fst (write_wake t slot p xs n (tab S)) \<notin> {Fault, Spin}
     | Some (PDup2Close x i j) \<Rightarrow> fst (fakefd_close x (tab S)) \<noteq> Fault
     | Some (PDup2 i j) \<Rightarrow> fst (fakefd_dup2_locked i j (tab S)) \<noteq> Fault"
  proof (cases "pend S t")
    case (Some pd)
    from sys_invD(2) [OF inv this] have ok: "pending_ok pd" .
    show ?thesis
      using ok Some read_wake_safe [OF fi] write_wake_safe [OF fi] fakefd_close_safe [OF fi]
        fakefd_dup2_locked_safe [OF fi]
      by (cases pd) (simp_all add: safe_def)
  qed simp
  then show ?thesis
    using fakefd_read_safe [OF fi] fakefd_write_safe [OF fi] fakefd_close_safe [OF fi]
      fakefd_dup_safe [OF fi] fakefd_dup2_safe [OF fi] fakefd_fcntl_safe [OF fi]
      fakefd_ready_safe [OF fi]
    by (simp add: safe_def)
qed

text \<open>
  C4.  Reference counting is exact: in every reachable state the table has 48 entries, a live
  pipe counts exactly the descriptors open on each of its ends and has at least one, every open
  descriptor names a live pipe, and every ring is well formed.
\<close>

theorem pipe_refcounts_exact:
  assumes "reachable S"
  shows "length (slots (tab S)) = 48 \<and>
    (\<forall>p. case pipes (tab S) p of
       None \<Rightarrow> \<forall>e\<in>set (slots (tab S)). fpipe e \<noteq> Some p
     | Some q \<Rightarrow>
         readers q = length (filter (\<lambda>e. fkind e = FAKEFD_PIPE_READ \<and> fpipe e = Some p) (slots (tab S))) \<and>
         writers q = length (filter (\<lambda>e. fkind e = FAKEFD_PIPE_WRITE \<and> fpipe e = Some p) (slots (tab S))) \<and>
         (readers q = 0 \<longrightarrow> writers q \<noteq> 0) \<and> head q < 16384 \<and> plength q \<le> 16384 \<and>
         length (pdata q) = 16384)"
proof -
  note fi = sys_invD(1) [OF reachable_inv [OF assms]]
  have "\<forall>e\<in>set (slots (tab S)). fpipe e \<noteq> Some p" if "pipes (tab S) p = None" for p
    using fi that by (auto simp: fds_inv_def entry_ok_def)
  with fi show ?thesis
    by (auto simp: fds_inv_def pipe_ok_def ring_inv_def refs_def count_where_def
        refers_def [abs_def] PIPE_CAPACITY_def ASNX_FAKE_FD_COUNT_def split: option.splits)
qed

text \<open>
  C5.  Readiness is honest: for an open read end, the READ bit is set exactly when a read of a
  positive count returns at once with data or end of file (it neither waits nor fails with
  EAGAIN), and the HUP bit exactly when no writer is left; for an open write end, the WRITE bit
  is set exactly when a nonblocking write of a positive count transfers something.
\<close>

theorem fakefd_ready_sound:
  assumes "reachable S" and "slot_from_fd fd = Some slot" and "fpipe (slots (tab S) ! slot) = Some p"
    and "0 < count" and "src \<noteq> []"
  shows "\<exists>q r. pipes (tab S) p = Some q \<and> fakefd_ready fd (tab S) = Ret r \<and>
    (fkind (slots (tab S) ! slot) = FAKEFD_PIPE_READ \<longrightarrow>
       (r AND ASNX_FD_READY_READ \<noteq> 0 \<longleftrightarrow>
          (\<exists>bytes. fst (fakefd_read t fd True count (tab S)) = Ret (Inr bytes))) \<and>
       (r AND ASNX_FD_READY_HUP \<noteq> 0 \<longleftrightarrow> writers q = 0)) \<and>
    (fkind (slots (tab S) ! slot) = FAKEFD_PIPE_WRITE \<longrightarrow> nonblocking slot (tab S) \<longrightarrow>
       (r AND ASNX_FD_READY_WRITE \<noteq> 0 \<longleftrightarrow>
          (\<exists>n>0. fst (fakefd_write t fd True src (tab S)) = Ret (Inr n))))"
proof -
  note fi = sys_invD(1) [OF reachable_inv [OF assms(1)]]
  let ?e = "slots (tab S) ! slot"
  have i: "slot < ASNX_FAKE_FD_COUNT" using assms(2) by (rule slot_from_fd_bound)
  obtain q where q: "pipes (tab S) p = Some q" and used: "fkind ?e \<noteq> FAKEFD_UNUSED"
    using fds_inv_entryD [OF fi i] assms(3) by (auto simp: entry_ok_def)
  have le: "plength q \<le> PIPE_CAPACITY"
    using fds_inv_ringD [OF fi q] by (simp add: ring_inv_def)
  consider "fkind ?e = FAKEFD_PIPE_READ" | "fkind ?e = FAKEFD_PIPE_WRITE"
    using used by (cases "fkind ?e") auto
  then show ?thesis
  proof cases
    case 1
    then have "fakefd_read t fd True count (tab S) = read_loop t slot p count (tab S)"
      using assms by (simp add: fakefd_read_def)
    with 1 q assms read_loop_cases [OF fi q, of t slot count] show ?thesis
      by (auto simp: fakefd_ready_def ready_defs)
  next
    case 2
    then have "fakefd_write t fd True src (tab S) =
        (if readers q = 0 then (Ret (Inl EPIPE), tab S) else write_loop t slot p src 0 (tab S))"
      using assms q by (simp add: fakefd_write_def)
    with 2 q assms le show ?thesis
      by (auto simp: fakefd_ready_def ready_defs write_loop.simps [of t slot p src 0] Let_def)
  qed
qed

text \<open>
  Duplicating onto a descriptor, run without interruption: with an open source the target
  becomes a copy of it and nothing else in the table changes; with a closed source the call fails
  with EBADF and yet the target has been closed.
\<close>

theorem fakefd_dup2_effect:
  assumes "reachable S" and "slot_from_fd oldfd = Some i" and "slot_from_fd newfd = Some j"
    and "oldfd \<noteq> newfd"
  shows "if fkind (slots (tab S) ! i) = FAKEFD_UNUSED
    then fst (fakefd_dup2 oldfd newfd (tab S)) = Ret (Inl EBADF) \<and>
      \<not> fakefd_is_open newfd (snd (fakefd_dup2 oldfd newfd (tab S)))
    else fst (fakefd_dup2 oldfd newfd (tab S)) = Ret (Inr newfd) \<and>
      slots (snd (fakefd_dup2 oldfd newfd (tab S))) = (slots (tab S))[j := slots (tab S) ! i]"
proof -
  note fi = sys_invD(1) [OF reachable_inv [OF assms(1)]]
  have ij: "i < ASNX_FAKE_FD_COUNT" "j < ASNX_FAKE_FD_COUNT" "i \<noteq> j"
    using assms(2-4) by (auto dest: slot_from_fd_bound slot_from_fd_Some)
  define s1 where
    "s1 = (if fakefd_is_open newfd (tab S) then snd (fakefd_close newfd (tab S)) else tab S)"
  have s1: "fds_inv s1"
    using fi fakefd_close_safe [OF fi, of newfd] by (simp add: s1_def safe_def)
  have sl: "slots s1 ! i = slots (tab S) ! i \<and> fkind (slots s1 ! j) = FAKEFD_UNUSED \<and>
      (\<forall>e. (slots s1)[j := e] = (slots (tab S))[j := e])"
    using assms ij fds_inv_lengthD [OF fi]
    by (cases rule: fakefd_close_cases [OF fi, of newfd])
      (auto simp: s1_def fakefd_is_open_def zero_entry_def)
  have eq: "fakefd_dup2 oldfd newfd (tab S) = fakefd_dup2_locked i j s1"
    using assms fakefd_close_safe [OF fi, of newfd]
    by (cases rule: fakefd_close_cases [OF fi, of newfd]) (simp_all add: fakefd_dup2_def s1_def)
  have new: "fd_of_slot j = newfd" using assms(3) slot_from_fd_Some by simp
  show ?thesis
  proof (cases "fkind (slots (tab S) ! i) = FAKEFD_UNUSED")
    case True
    with eq sl assms(3) show ?thesis by (simp add: fakefd_dup2_locked_def fakefd_is_open_def)
  next
    case False
    then obtain p q where "fpipe (slots s1 ! i) = Some p" "pipes s1 p = Some q"
      using fds_inv_live [OF s1 ij(1)] sl by auto
    with eq sl False ij new show ?thesis
      by (cases "fkind (slots (tab S) ! i)")
        (simp_all add: fakefd_dup2_locked_def clone_into_slot_locked_def clone_result_def Let_def)
  qed
qed

text \<open>
  Every branch of a read on an open read end: an empty pipe with writers makes the caller
  wait, or fail with EAGAIN when nonblocking; an empty pipe without writers is end of file; else
  the first \<open>count\<close> bytes of the stream (all of them if fewer are there) are returned and removed.
\<close>

theorem fakefd_read_behaviour:
  assumes "reachable S" and "slot_from_fd fd = Some slot"
    and "fkind (slots (tab S) ! slot) = FAKEFD_PIPE_READ" and "fpipe (slots (tab S) ! slot) = Some p"
    and "0 < count"
  shows "\<exists>q. pipes (tab S) p = Some q \<and> (case fakefd_read t fd True count (tab S) of (r, s') \<Rightarrow>
    if ring_contents q = [] \<and> writers q \<noteq> 0 then
      r = (if nonblocking slot (tab S) then Ret (Inl EAGAIN) else WaitRead slot p)
    else r = Ret (Inr (take count (ring_contents q))) \<and>
      (\<exists>q'. pipes s' p = Some q' \<and> ring_contents q' = drop count (ring_contents q)))"
proof -
  note fi = sys_invD(1) [OF reachable_inv [OF assms(1)]]
  have i: "slot < ASNX_FAKE_FD_COUNT" using assms(2) by (rule slot_from_fd_bound)
  obtain q where q: "pipes (tab S) p = Some q"
    using fds_inv_entryD [OF fi i] assms(4) by (auto simp: entry_ok_def)
  have ring: "ring_inv q" using fi q by (rule fds_inv_ringD)
  have rd: "fakefd_read t fd True count (tab S) = read_loop t slot p count (tab S)"
    using assms by (simp add: fakefd_read_def)
  have empty: "ring_contents q = [] \<longleftrightarrow> plength q = 0"
    by (metis length_ring_contents length_0_conv)
  have "ring_contents (snd (ring_get (min count (plength q)) q)) = drop count (ring_contents q)"
    using ring.get_contents [OF ring, of "min count (plength q)"] by (simp add: min_def)
  with q rd empty read_loop_cases [OF fi q, of t slot count] show ?thesis
    by (auto simp: ring_contents_empty)
qed

text \<open>
  Witness run: a pipe is made in the empty table at address 7, \<open>[1,2,3]\<close> is written to
  descriptor 901 and two bytes are read from descriptor 900.
\<close>

definition w_pipe :: fds where "w_pipe = snd (fakefd_pipe True (Some 7) init_fds)"
definition w_sys :: sys where "w_sys = upd 0 None w_pipe init_sys"

lemma writers_new_pipe: "writers new_pipe = 1"
  by (simp add: new_pipe_def)

lemma slot_900: "slot_from_fd 900 = Some 0" and slot_901: "slot_from_fd 901 = Some 1"
  by (simp_all add: slot_from_fd_def ASNX_FAKE_FD_BASE_def ASNX_FAKE_FD_COUNT_def)

lemma w_pipe_eval:
  "w_pipe = install_pipe 7 0 1 init_fds"
  "fst (fakefd_pipe True (Some 7) init_fds) = Inr (900, 901)"
proof -
  have 1: "scan (\<lambda>i. fkind (slots init_fds ! i) = FAKEFD_UNUSED) 0 ASNX_FAKE_FD_COUNT = Some 0"
    by (simp add: scan_Some_iff init_fds_def zero_entry_def ASNX_FAKE_FD_COUNT_def)
  let ?s1 = "set_slot 0 ((slots init_fds ! 0)\<lparr>fkind := FAKEFD_PIPE_READ\<rparr>) init_fds"
  have 2: "scan (\<lambda>i. fkind (slots ?s1 ! i) = FAKEFD_UNUSED) 0 ASNX_FAKE_FD_COUNT = Some 1"
    by (simp add: scan_Some_iff init_fds_def zero_entry_def ASNX_FAKE_FD_COUNT_def)
  have "alloc_slot_from ASNX_FAKE_FD_BASE init_fds = Some 0"
    "alloc_slot_from ASNX_FAKE_FD_BASE ?s1 = Some 1"
    using 1 2 by (simp_all add: alloc_slot_from_def ASNX_FAKE_FD_COUNT_def)
  then show "w_pipe = install_pipe 7 0 1 init_fds"
    "fst (fakefd_pipe True (Some 7) init_fds) = Inr (900, 901)"
    by (simp_all add: w_pipe_def fakefd_pipe_def Let_def fd_of_slot_def ASNX_FAKE_FD_BASE_def)
      (simp add: install_pipe_def end_entry_def set_slot_def set_pipe_def)
qed

lemma w_sys_reachable: "reachable w_sys"
proof -
  have "step init_sys Tau w_sys"
    unfolding w_sys_def
    by (rule step.pipe_call [where fresh = "Some 7" and fds_ok = True
          and x = "fst (fakefd_pipe True (Some 7) init_fds)"])
      (simp_all add: init_sys_def w_pipe_def init_fds_def)
  then show ?thesis by (rule reachable.step [OF reachable.start])
qed

lemma w_sys_tab: "pipes (tab w_sys) 7 = Some new_pipe" "sleeping (tab w_sys) = {}"
  "slots (tab w_sys) ! 0 = end_entry FAKEFD_PIPE_READ 7"
  "slots (tab w_sys) ! Suc 0 = end_entry FAKEFD_PIPE_WRITE 7" "pend w_sys = (\<lambda>_. None)"
  by (simp_all add: w_sys_def w_pipe_eval install_pipe_def init_fds_def init_sys_def
      ASNX_FAKE_FD_COUNT_def fun_eq_iff)

lemma w_read_sleeps:
  "fakefd_read 5 900 True 8 (tab w_sys) = (WaitRead 0 7, condvarWait 5 (tab w_sys))"
  using w_sys_tab(1-3)
  by (simp add: fakefd_read_def slot_900 read_loop_def end_entry_def new_pipe_def
      nonblocking_def ANDROID_O_NONBLOCK_def)

definition w_blocked :: sys where
  "w_blocked = upd 5 (Some (PRead 0 7 8)) (condvarWait 5 (tab w_sys)) w_sys"

lemma w_blocked_step: "step w_sys Tau w_blocked"
proof -
  have "step w_sys (read_label (slot_pipe 900 (tab w_sys)) (WaitRead 0 7))
      (upd 5 (read_pending 8 (WaitRead 0 7)) (condvarWait 5 (tab w_sys)) w_sys)"
    by (rule step.read_call [OF _ w_read_sleeps]) (simp add: w_sys_tab)
  moreover have "read_label (slot_pipe 900 (tab w_sys)) (WaitRead 0 7) = Tau"
    by (cases "slot_pipe 900 (tab w_sys)") simp_all
  ultimately show ?thesis by (simp add: w_blocked_def)
qed

lemma w_write:
  "\<exists>s'. fakefd_write 1 901 True [1, 2, 3] (tab w_sys) = (Ret (Inr 3), s')"
  using w_sys_tab(1,2,4)
  by (simp add: fakefd_write_def slot_901 write_loop.simps end_entry_def new_pipe_def
      PIPE_CAPACITY_def nonblocking_def ANDROID_O_NONBLOCK_def Let_def)

theorem pipe_stream_fifo_witness:
  "\<exists>S'. run w_sys [Sent 7 [1, 2, 3]] S' \<and> (\<exists>q'. pipes (tab S') 7 = Some q' \<and>
     ring_contents q' = [1, 2, 3])"
proof -
  obtain s' where s': "fakefd_write 1 901 True [1, 2, 3] (tab w_sys) = (Ret (Inr 3), s')"
    using w_write by blast
  let ?S = "upd 1 None s' w_sys"
  have "step w_sys (write_label (slot_pipe 901 (tab w_sys)) [1, 2, 3] 0 (Ret (Inr 3)))
      (upd 1 (write_pending [1, 2, 3] (Ret (Inr 3))) s' w_sys)"
    by (rule step.write_call [OF _ s']) (simp add: w_sys_tab)
  moreover have "slot_pipe 901 (tab w_sys) = Some 7"
    by (simp add: slot_pipe_def slot_901 w_sys_tab end_entry_def)
  ultimately have st: "step w_sys (Sent 7 [1, 2, 3]) ?S"
    by (simp add: write_label_def written_upto_def)
  have r: "run w_sys [Sent 7 [1, 2, 3]] ?S"
    using run.snoc [OF run.nil st] by simp
  have "Freed 7 \<notin> set [Sent 7 [1, 2, 3]]" by simp
  from pipe_stream_fifo [OF r w_sys_reachable w_sys_tab(1) this] r show ?thesis
    by (auto simp: ring_contents_new_pipe)
qed

theorem no_lost_wakeup_witness:
  "5 \<in> sleeping (tab w_blocked) \<and> (\<exists>slot p count q. pend w_blocked 5 = Some (PRead slot p count) \<and>
     pipes (tab w_blocked) p = Some q \<and> plength q = 0 \<and> writers q \<noteq> 0)"
proof -
  have "reachable w_blocked" by (rule reachable.step [OF w_sys_reachable w_blocked_step])
  moreover have sl: "5 \<in> sleeping (tab w_blocked)" by (simp add: w_blocked_def)
  ultimately show ?thesis
    using no_lost_wakeup [of w_blocked 5] by (auto simp: w_blocked_def)
qed

theorem pipe_memory_safe_witness:
  "fst (read_wake 5 0 7 8 (tab w_blocked)) \<noteq> Fault \<and>
   fst (fakefd_read 5 900 True 4 (tab w_blocked)) \<noteq> Fault"
proof -
  have "reachable w_blocked" by (rule reachable.step [OF w_sys_reachable w_blocked_step])
  from pipe_memory_safe [OF this, of 5 900 True 4] show ?thesis by (simp add: w_blocked_def)
qed

theorem pipe_refcounts_exact_witness:
  "reachable w_sys \<and> pipes (tab w_sys) 7 = Some new_pipe \<and>
   length (filter (\<lambda>e. fkind e = FAKEFD_PIPE_READ \<and> fpipe e = Some 7) (slots (tab w_sys))) = 1"
proof -
  from pipe_refcounts_exact [OF w_sys_reachable] have
    "readers new_pipe =
     length (filter (\<lambda>e. fkind e = FAKEFD_PIPE_READ \<and> fpipe e = Some 7) (slots (tab w_sys)))"
    using w_sys_tab(1) by (auto dest!: spec [of _ 7])
  with w_sys_reachable w_sys_tab(1) show ?thesis by (simp add: new_pipe_def)
qed

theorem fakefd_ready_sound_witness:
  "fakefd_ready 900 (tab w_sys) = Ret 0 \<and>
   (\<nexists>bytes. fst (fakefd_read 1 900 True 4 (tab w_sys)) = Ret (Inr bytes))"
proof -
  have r: "fakefd_ready 900 (tab w_sys) = Ret 0"
    using w_sys_tab by (simp add: fakefd_ready_def slot_900 end_entry_def new_pipe_def)
  have "fpipe (slots (tab w_sys) ! 0) = Some 7" "fkind (slots (tab w_sys) ! 0) = FAKEFD_PIPE_READ"
    by (simp_all add: w_sys_tab end_entry_def)
  with fakefd_ready_sound [OF w_sys_reachable slot_900 this(1), of 4 "[1]" 1] r show ?thesis by auto
qed


theorem fakefd_dup2_effect_witness:
  "fst (fakefd_dup2 905 900 (tab w_sys)) = Ret (Inl EBADF) \<and>
   fakefd_is_open 900 (tab w_sys) \<and> \<not> fakefd_is_open 900 (snd (fakefd_dup2 905 900 (tab w_sys)))"
proof -
  have f5: "slot_from_fd 905 = Some 5"
    by (simp add: slot_from_fd_def ASNX_FAKE_FD_BASE_def ASNX_FAKE_FD_COUNT_def)
  have "fkind (slots (tab w_sys) ! 5) = FAKEFD_UNUSED"
    by (simp add: w_sys_def w_pipe_eval install_pipe_def init_fds_def zero_entry_def
        ASNX_FAKE_FD_COUNT_def)
  with fakefd_dup2_effect [OF w_sys_reachable f5 slot_900] show ?thesis
    by (simp add: fakefd_is_open_def slot_900 w_sys_tab end_entry_def)
qed

theorem fakefd_read_behaviour_witness:
  "fst (fakefd_read 2 900 True 4 (tab w_sys)) = WaitRead 0 7"
proof -
  have "fkind (slots (tab w_sys) ! 0) = FAKEFD_PIPE_READ" "fpipe (slots (tab w_sys) ! 0) = Some 7"
    by (simp_all add: w_sys_tab end_entry_def)
  moreover have "\<not> nonblocking 0 (tab w_sys)"
    by (simp add: nonblocking_def w_sys_tab end_entry_def)
  ultimately show ?thesis
    using fakefd_read_behaviour [OF w_sys_reachable slot_900, of 7 4 2] w_sys_tab(1)
    by (simp add: ring_contents_new_pipe writers_new_pipe split: prod.splits)
qed

end
