(* ===== verification/Mmap.thy ===== *)
theory Mmap
  imports Prelude
begin

text \<open>
  The emulated \<^verbatim>\<open>mmap\<close> of \<^verbatim>\<open>source/bionic.c\<close>: an arena of up to 33 slots of 64 MiB from which
  Unity's heap regions are served as runs of slots, a fallback to \<^verbatim>\<open>memalign\<close>, and a table of 256
  mapping records with the interval of each mapping that is still live.  Sizes and addresses are
  64-bit words.  A record that is not in use has arena index \<open>None\<close>; the code never reads it.  \<open>memory\<close> is the guest's address space as far as the code writes it.
\<close>

section \<open>State\<close>

definition MMAP_SLOTS :: nat where "MMAP_SLOTS = 256"
definition UNITY_ARENA_MAX_SLOTS :: nat where "UNITY_ARENA_MAX_SLOTS = 33"
definition UNITY_DYNAMIC_RESERVE_LOGICAL :: u64 where "UNITY_DYNAMIC_RESERVE_LOGICAL = 0x07fff000"
definition UNITY_DYNAMIC_REGION_BYTES :: u64 where "UNITY_DYNAMIC_REGION_BYTES = 0x04000000"
definition UNITY_DYNAMIC_DIRECT_LOGICAL :: u64 where
  "UNITY_DYNAMIC_DIRECT_LOGICAL = UNITY_DYNAMIC_REGION_BYTES"
definition UNITY_ALIGNED256_RESERVE_LOGICAL :: u64 where "UNITY_ALIGNED256_RESERVE_LOGICAL = 0x13fff000"
definition UNITY_ALIGNED256_LIVE_SLOTS :: nat where "UNITY_ALIGNED256_LIVE_SLOTS = 4"

lemmas mmap_consts =
  MMAP_SLOTS_def UNITY_ARENA_MAX_SLOTS_def UNITY_DYNAMIC_RESERVE_LOGICAL_def
  UNITY_DYNAMIC_REGION_BYTES_def UNITY_DYNAMIC_DIRECT_LOGICAL_def
  UNITY_ALIGNED256_RESERVE_LOGICAL_def UNITY_ALIGNED256_LIVE_SLOTS_def

record mmap_slot =
  base :: u64
  logical_size :: u64
  backing_size :: u64
  live_lo :: u64
  live_hi :: u64
  used :: bool
  unity_aligned_reserve :: bool
  arena_index :: "nat option"
  arena_count :: nat
  arena_keep_count :: nat

record mm =
  g_mmaps :: "mmap_slot list"
  g_mmap_backing_bytes :: u64
  g_unity_arena_base :: u64
  g_unity_arena_slots :: nat
  g_unity_arena_used :: u64
  g_unity_arena_peak_slots :: nat
  g_unity_fallback_count :: u32
  memory :: "u64 \<Rightarrow> byte"
  heap_blocks :: "u64 list"

definition zero_mmap_slot :: mmap_slot where
  "zero_mmap_slot = \<lparr>base = 0, logical_size = 0, backing_size = 0, live_lo = 0, live_hi = 0,
     used = False, unity_aligned_reserve = False, arena_index = None, arena_count = 0,
     arena_keep_count = 0\<rparr>"

definition init_mm :: mm where
  "init_mm = \<lparr>g_mmaps = replicate MMAP_SLOTS zero_mmap_slot, g_mmap_backing_bytes = 0,
     g_unity_arena_base = 0, g_unity_arena_slots = 0, g_unity_arena_used = 0,
     g_unity_arena_peak_slots = 0, g_unity_fallback_count = 0, memory = (\<lambda>_. 0), heap_blocks = []\<rparr>"

text \<open>\<open>heap_blocks\<close>: the blocks from \<^verbatim>\<open>memalign\<close> that are not yet freed.\<close>

definition new_block :: "u64 \<Rightarrow> mm \<Rightarrow> mm" where
  "new_block p s = s\<lparr>heap_blocks := p # heap_blocks s\<rparr>"

definition free_block :: "u64 \<Rightarrow> mm \<Rightarrow> mm" where
  "free_block p s = s\<lparr>heap_blocks := remove1 p (heap_blocks s)\<rparr>"

definition popcount :: "u64 \<Rightarrow> nat" where
  "popcount w = length (filter (bit w) [0..<64])"

text \<open>\<^verbatim>\<open>bionic_set_mmap_arena\<close>: the arena is accepted only with an aligned base and whole slots.\<close>

definition bionic_set_mmap_arena :: "u64 \<Rightarrow> u64 \<Rightarrow> mm \<Rightarrow> mm" where
  "bionic_set_mmap_arena b len s =
     (let slots = unat (ucast (len div UNITY_DYNAMIC_REGION_BYTES) :: u32);
          ok = (b \<noteq> 0 \<and> 0 < slots \<and> slots \<le> UNITY_ARENA_MAX_SLOTS \<and>
                b AND (UNITY_DYNAMIC_REGION_BYTES - 1) = 0 \<and>
                len mod UNITY_DYNAMIC_REGION_BYTES = 0)
      in s\<lparr>g_unity_arena_base := if ok then b else 0, g_unity_arena_slots := if ok then slots else 0,
           g_unity_arena_used := 0, g_unity_arena_peak_slots := 0, g_unity_fallback_count := 0\<rparr>)"

definition page_up_size :: "u64 \<Rightarrow> u64" where
  "page_up_size n = (if n > (- 1) - 0xfff then 0 else (n + 0xfff) AND NOT 0xfff)"

section \<open>Runs of arena slots\<close>

definition unity_arena_mask :: "nat \<Rightarrow> nat \<Rightarrow> u64" where
  "unity_arena_mask first count =
     (if count = 0 \<or> 64 < count \<or> 64 \<le> first \<or> 64 < first + count then 0
      else push_bit first (if count = 64 then - 1 else push_bit count 1 - 1))"

definition run_free :: "nat \<Rightarrow> nat \<Rightarrow> mm \<Rightarrow> bool" where
  "run_free count i s \<longleftrightarrow>
     unity_arena_mask i count \<noteq> 0 \<and> g_unity_arena_used s AND unity_arena_mask i count = 0"

definition slot_addr :: "mm \<Rightarrow> nat \<Rightarrow> u64" where
  "slot_addr s i = g_unity_arena_base s + of_nat i * UNITY_DYNAMIC_REGION_BYTES"

text \<open>The downward loop of a \<^verbatim>\<open>from_high\<close> request.\<close>

fun scan_down :: "(nat \<Rightarrow> bool) \<Rightarrow> nat \<Rightarrow> nat option" where
  "scan_down P 0 = None"
| "scan_down P (Suc i) = (if P i then Some i else scan_down P i)"

definition take_run_at :: "nat \<Rightarrow> nat \<Rightarrow> mm \<Rightarrow> mm" where
  "take_run_at i count s =
     (let u = g_unity_arena_used s OR unity_arena_mask i count
      in s\<lparr>g_unity_arena_used := u,
           g_unity_arena_peak_slots := max (g_unity_arena_peak_slots s) (popcount u)\<rparr>)"

definition unity_arena_take_run :: "nat \<Rightarrow> bool \<Rightarrow> mm \<Rightarrow> (nat \<times> u64) option \<times> mm" where
  "unity_arena_take_run count from_high s =
     (if count = 0 \<or> UNITY_ARENA_MAX_SLOTS < count \<or> g_unity_arena_base s = 0 \<or>
         g_unity_arena_slots s < count then (None, s)
      else
        let positions = g_unity_arena_slots s - count + 1 in
        case (if from_high then scan_down (\<lambda>i. run_free count i s) positions
              else scan (\<lambda>i. run_free count i s) 0 positions) of
          None \<Rightarrow> (None, s)
        | Some i \<Rightarrow> (Some (i, slot_addr s i), take_run_at i count s))"

definition unity_arena_release_run :: "nat \<Rightarrow> nat \<Rightarrow> mm \<Rightarrow> mm" where
  "unity_arena_release_run first count s =
     (if count = 0 \<or> UNITY_ARENA_MAX_SLOTS \<le> first \<or> UNITY_ARENA_MAX_SLOTS < first + count then s
      else s\<lparr>g_unity_arena_used := g_unity_arena_used s AND NOT (unity_arena_mask first count)\<rparr>)"

section \<open>Reading a file range\<close>

text \<open>
  \<^verbatim>\<open>read_mapped_file_range\<close> over the successive results of \<^verbatim>\<open>file_pread\<close> (\<open>Inl\<close> an errno, \<open>Inr\<close>
  the bytes read); \<open>None\<close> when the results run out before the loop ends.
\<close>

fun read_range_loop :: "nat \<Rightarrow> byte list \<Rightarrow> byte list result list \<Rightarrow> byte list result option" where
  "read_range_loop len done_bytes rs =
     (if length done_bytes < len then
        (case rs of
           [] \<Rightarrow> None
         | Inr bytes # rs' \<Rightarrow>
             if bytes = [] then Some (Inr done_bytes)
             else read_range_loop len (done_bytes @ bytes) rs'
         | Inl e # rs' \<Rightarrow>
             if e = EINTR then read_range_loop len done_bytes rs'
             else Some (if done_bytes \<noteq> [] then Inr done_bytes else Inl e))
      else Some (Inr done_bytes))"

declare read_range_loop.simps [simp del]

definition read_mapped_file_range ::
  "int \<Rightarrow> nat \<Rightarrow> int \<Rightarrow> byte list result list \<Rightarrow> byte list result option" where
  "read_mapped_file_range fd len off rs =
     (if fd < 0 \<or> off < 0 then Some (Inl EINVAL) else read_range_loop len [] rs)"

section \<open>Mapping\<close>

text \<open>
  A mapping in progress: what \<^verbatim>\<open>bionic_mmap\<close> holds in its locals between its first critical
  section, which takes a run of slots, and its last, which records the mapping.
\<close>

record mmap_plan =
  pl_p :: u64
  pl_logical :: u64
  pl_backing :: u64
  pl_unity :: bool
  pl_aligned :: bool
  pl_arena :: "nat option"
  pl_count :: nat
  pl_keep :: nat
  pl_file :: bool
  pl_len :: u64
  pl_fd :: int
  pl_off :: int

definition file_backed :: "int \<Rightarrow> u32 \<Rightarrow> bool" where
  "file_backed fd flags \<longleftrightarrow> 0 \<le> fd \<and> flags AND 0x20 = 0"

text \<open>
  The three sizes for which Unity's reservations are served from the arena, for an anonymous
  request \<open>anon\<close> of \<open>logical\<close> bytes, with the slots to keep after trimming and the slots to take.
\<close>

definition unity_single :: "bool \<Rightarrow> u64 \<Rightarrow> bool" where
  "unity_single anon logical \<longleftrightarrow> anon \<and>
     (logical = UNITY_DYNAMIC_RESERVE_LOGICAL \<or> logical = UNITY_DYNAMIC_DIRECT_LOGICAL)"

definition unity_aligned256 :: "bool \<Rightarrow> u64 \<Rightarrow> bool" where
  "unity_aligned256 anon logical \<longleftrightarrow> anon \<and> logical = UNITY_ALIGNED256_RESERVE_LOGICAL"

definition unity_reserve :: "bool \<Rightarrow> u64 \<Rightarrow> bool" where
  "unity_reserve anon logical \<longleftrightarrow> unity_single anon logical \<or> unity_aligned256 anon logical"

definition keep_slots :: "bool \<Rightarrow> u64 \<Rightarrow> nat" where
  "keep_slots anon logical = (if unity_single anon logical then 1
     else if unity_aligned256 anon logical then UNITY_ALIGNED256_LIVE_SLOTS else 0)"

definition run_slots :: "bool \<Rightarrow> u64 \<Rightarrow> nat" where
  "run_slots anon logical = (if unity_single anon logical then 1
     else if keep_slots anon logical \<noteq> 0 then keep_slots anon logical + 1 else 0)"

definition make_plan ::
  "bool \<Rightarrow> u64 \<Rightarrow> u64 \<Rightarrow> u64 \<Rightarrow> nat option \<Rightarrow> u64 \<Rightarrow> int \<Rightarrow> int \<Rightarrow> mmap_plan" where
  "make_plan anon logical p backing idx n fd off =
     \<lparr>pl_p = p, pl_logical = logical, pl_backing = backing, pl_unity = unity_reserve anon logical,
      pl_aligned = (anon \<and> logical = UNITY_DYNAMIC_RESERVE_LOGICAL \<or> unity_aligned256 anon logical),
      pl_arena = idx, pl_count = run_slots anon logical, pl_keep = keep_slots anon logical,
      pl_file = (\<not> anon), pl_len = n, pl_fd = fd, pl_off = off\<rparr>"

text \<open>
  Up to the address of the mapping.  \<open>fresh\<close> is what \<^verbatim>\<open>memalign\<close> returns if it is called
  (0 on failure).
\<close>

definition reserve_block ::
  "bool \<Rightarrow> u64 \<Rightarrow> u64 \<Rightarrow> int \<Rightarrow> int \<Rightarrow> u64 \<Rightarrow> mm \<Rightarrow> mmap_plan result \<times> mm" where
  "reserve_block anon logical n fd off fresh s =
     (case (if unity_reserve anon logical
            then unity_arena_take_run (run_slots anon logical) False s else (None, s)) of
        (Some (i, p), s1) \<Rightarrow>
          (Inr (make_plan anon logical p (of_nat (run_slots anon logical) * UNITY_DYNAMIC_REGION_BYTES)
                  (Some i) n fd off), s1)
      | (None, s1) \<Rightarrow>
          if fresh = 0 then (Inl ENOMEM, s1)
          else (Inr (make_plan anon logical fresh
                       (if unity_single anon logical then UNITY_DYNAMIC_REGION_BYTES else logical)
                       None n fd off),
                new_block fresh
                  (if unity_reserve anon logical
                   then s1\<lparr>g_unity_fallback_count := g_unity_fallback_count s1 + 1\<rparr> else s1)))"

definition mmap_reserve ::
  "u64 \<Rightarrow> u32 \<Rightarrow> int \<Rightarrow> int \<Rightarrow> u64 \<Rightarrow> mm \<Rightarrow> mmap_plan result \<times> mm" where
  "mmap_reserve n flags fd off fresh s =
     (if n = 0 then (Inl EINVAL, s)
      else if page_up_size n = 0 then (Inl ENOMEM, s)
      else if file_backed fd flags \<and> off < 0 then (Inl EINVAL, s)
      else reserve_block (\<not> file_backed fd flags) (page_up_size n) n fd off fresh s)"

text \<open>Giving up a mapping in progress: the run goes back, or the block is freed.\<close>

definition mmap_abandon :: "mmap_plan \<Rightarrow> mm \<Rightarrow> mm" where
  "mmap_abandon pl s =
     (case pl_arena pl of None \<Rightarrow> free_block (pl_p pl) s | Some i \<Rightarrow> unity_arena_release_run i (pl_count pl) s)"

definition store_bytes :: "u64 \<Rightarrow> byte list \<Rightarrow> (u64 \<Rightarrow> byte) \<Rightarrow> u64 \<Rightarrow> byte" where
  "store_bytes p bytes m a = (if unat (a - p) < length bytes then bytes ! unat (a - p) else m a)"

definition zero_block :: "u64 \<Rightarrow> u64 \<Rightarrow> (u64 \<Rightarrow> byte) \<Rightarrow> u64 \<Rightarrow> byte" where
  "zero_block p n m a = (if a - p < n then 0 else m a)"

text \<open>The block is zeroed and filled from the file; \<open>None\<close> when the reads never end.\<close>

definition mmap_populate ::
  "mmap_plan \<Rightarrow> byte list result list \<Rightarrow> mm \<Rightarrow> (unit result \<times> mm) option" where
  "mmap_populate pl rs s =
     (if pl_unity pl \<and> pl_p pl AND (UNITY_DYNAMIC_REGION_BYTES - 1) \<noteq> 0
      then Some (Inl ENOMEM, mmap_abandon pl s)
      else
        let s1 = s\<lparr>memory := zero_block (pl_p pl) (pl_backing pl) (memory s)\<rparr> in
        if pl_file pl then
          (case read_mapped_file_range (pl_fd pl) (unat (pl_len pl)) (pl_off pl) rs of
             None \<Rightarrow> None
           | Some (Inl e) \<Rightarrow> Some (Inl e, free_block (pl_p pl) s1)
           | Some (Inr bytes) \<Rightarrow>
               Some (Inr (), s1\<lparr>memory := store_bytes (pl_p pl) bytes (memory s1)\<rparr>))
        else Some (Inr (), s1))"

definition mmap_commit :: "mmap_plan \<Rightarrow> mm \<Rightarrow> u64 result \<times> mm" where
  "mmap_commit pl s =
     (case scan (\<lambda>i. \<not> used (g_mmaps s ! i)) 0 MMAP_SLOTS of
        None \<Rightarrow> (Inl ENOMEM, mmap_abandon pl s)
      | Some i \<Rightarrow>
          (Inr (pl_p pl),
           s\<lparr>g_mmaps := (g_mmaps s)[i := \<lparr>base = pl_p pl, logical_size = pl_logical pl,
                backing_size = pl_backing pl, live_lo = pl_p pl, live_hi = pl_p pl + pl_logical pl,
                used = True, unity_aligned_reserve = pl_aligned pl, arena_index = pl_arena pl,
                arena_count = pl_count pl, arena_keep_count = pl_keep pl\<rparr>],
             g_mmap_backing_bytes := g_mmap_backing_bytes s + pl_backing pl\<rparr>))"

text \<open>The call as one thread runs it; the address and protection arguments are ignored.\<close>

definition bionic_mmap ::
  "u64 \<Rightarrow> u32 \<Rightarrow> int \<Rightarrow> int \<Rightarrow> u64 \<Rightarrow> byte list result list \<Rightarrow> mm \<Rightarrow> (u64 result \<times> mm) option" where
  "bionic_mmap n flags fd off fresh rs s =
     (case mmap_reserve n flags fd off fresh s of
        (Inl e, s1) \<Rightarrow> Some (Inl e, s1)
      | (Inr pl, s1) \<Rightarrow>
          (case mmap_populate pl rs s1 of
             None \<Rightarrow> None
           | Some (Inl e, s2) \<Rightarrow> Some (Inl e, s2)
           | Some (Inr _, s2) \<Rightarrow> Some (mmap_commit pl s2)))"

section \<open>Unmapping\<close>

definition sub_sat :: "u64 \<Rightarrow> u64 \<Rightarrow> u64" where
  "sub_sat a b = (if b \<le> a then a - b else 0)"

text \<open>The record an unmap selects: the first whose live interval holds the start.\<close>

definition munmap_hits :: "u64 \<Rightarrow> mmap_slot \<Rightarrow> bool" where
  "munmap_hits start r \<longleftrightarrow> used r \<and> live_lo r \<le> start \<and> start < live_hi r"

definition munmap_slot :: "u64 \<Rightarrow> u64 \<Rightarrow> nat \<Rightarrow> mm \<Rightarrow> mm" where
  "munmap_slot start end0 i s =
     (let r = g_mmaps s ! i;
          limit = base r + logical_size r;
          stop = (if limit < end0 then limit else end0)
      in if start \<le> live_lo r \<and> live_hi r \<le> stop then
           let s1 = s\<lparr>g_mmap_backing_bytes := sub_sat (g_mmap_backing_bytes s) (backing_size r)\<rparr>;
               s2 = (case arena_index r of
                       None \<Rightarrow> free_block (base r) s1
                     | Some a \<Rightarrow> unity_arena_release_run a
                         (if arena_count r \<noteq> 0 then arena_count r else 1) s1)
           in s2\<lparr>g_mmaps := (g_mmaps s2)[i := zero_mmap_slot]\<rparr>
         else if start \<le> live_lo r \<and> live_lo r < stop then
           s\<lparr>g_mmaps := (g_mmaps s)[i := r\<lparr>live_lo := if stop < live_hi r then stop else live_hi r\<rparr>]\<rparr>
         else if live_hi r \<le> stop \<and> start < live_hi r then
           let r1 = r\<lparr>live_hi := if live_lo r < start then start else live_lo r\<rparr>
           in (case arena_index r of
                 Some a \<Rightarrow>
                   if 0 < arena_keep_count r \<and> arena_keep_count r < arena_count r \<and>
                      start = base r + of_nat (arena_keep_count r) * UNITY_DYNAMIC_REGION_BYTES \<and>
                      limit \<le> stop
                   then
                     let s1 = unity_arena_release_run (a + arena_keep_count r)
                                (arena_count r - arena_keep_count r) s;
                         keep_bytes = of_nat (arena_keep_count r) * UNITY_DYNAMIC_REGION_BYTES
                     in s1\<lparr>g_mmaps := (g_mmaps s1)[i := r1\<lparr>arena_count := arena_keep_count r,
                                                             backing_size := keep_bytes\<rparr>],
                           g_mmap_backing_bytes :=
                             sub_sat (g_mmap_backing_bytes s1) (backing_size r - keep_bytes)\<rparr>
                   else s\<lparr>g_mmaps := (g_mmaps s)[i := r1]\<rparr>
               | None \<Rightarrow> s\<lparr>g_mmaps := (g_mmaps s)[i := r1]\<rparr>)
         else s)"

definition bionic_munmap :: "u64 \<Rightarrow> u64 \<Rightarrow> mm \<Rightarrow> unit result \<times> mm" where
  "bionic_munmap p n s =
     (if p = 0 \<or> n = 0 then (Inl EINVAL, s)
      else let len = page_up_size n in
      if len = 0 then (Inl EINVAL, s)
      else if p + len < p then (Inl EINVAL, s)
      else (case scan (\<lambda>i. munmap_hits p (g_mmaps s ! i)) 0 MMAP_SLOTS of
              None \<Rightarrow> (Inr (), s)
            | Some i \<Rightarrow> (Inr (), munmap_slot p (p + len) i s)))"

section \<open>Statistics\<close>

record mmap_stats =
  st_used_slots :: nat
  st_total_slots :: nat
  st_peak_slots :: nat
  st_fallback_count :: u32
  st_live_records :: nat
  st_backing_bytes :: u64
  st_live_bytes :: u64

definition bionic_get_mmap_stats :: "mm \<Rightarrow> mmap_stats" where
  "bionic_get_mmap_stats s =
     (let live = filter used (g_mmaps s)
      in \<lparr>st_used_slots = popcount (g_unity_arena_used s), st_total_slots = g_unity_arena_slots s,
          st_peak_slots = g_unity_arena_peak_slots s, st_fallback_count = g_unity_fallback_count s,
          st_live_records = length live, st_backing_bytes = g_mmap_backing_bytes s,
          st_live_bytes = sum_list (map (\<lambda>r. if live_lo r < live_hi r then live_hi r - live_lo r
                                                else 0) live)\<rparr>)"

end
