(* ===== verification/MmapArena.thy ===== *)
theory MmapArena
  imports Mmap
begin

text \<open>
  The arena of \<^verbatim>\<open>source/bionic.c\<close> as an allocator of runs of slots: the meaning of the bit mask,
  the interpretation of the \<open>run_allocator\<close> interface, and the ownership invariant that ties the
  bit mask to the mapping records and the mappings in progress of all threads.
\<close>

definition used_set :: "mm \<Rightarrow> nat set" where
  "used_set s = {b. bit (g_unity_arena_used s) b}"

lemma block_frame [simp]:
  "used_set (free_block p s) = used_set s" "used_set (new_block p s) = used_set s"
  "g_unity_arena_used (free_block p s) = g_unity_arena_used s"
  "g_unity_arena_used (new_block p s) = g_unity_arena_used s"
  "g_mmaps (free_block p s) = g_mmaps s" "g_mmaps (new_block p s) = g_mmaps s"
  "g_unity_arena_slots (free_block p s) = g_unity_arena_slots s" "g_unity_arena_slots (new_block p s) = g_unity_arena_slots s"
  "g_unity_arena_base (free_block p s) = g_unity_arena_base s" "g_unity_arena_base (new_block p s) = g_unity_arena_base s"
  "g_mmap_backing_bytes (free_block p s) = g_mmap_backing_bytes s"
  "g_mmap_backing_bytes (new_block p s) = g_mmap_backing_bytes s"
  "memory (free_block p s) = memory s" "memory (new_block p s) = memory s"
  by (simp_all add: free_block_def new_block_def used_set_def)

definition arena_ok :: "mm \<Rightarrow> bool" where
  "arena_ok s \<longleftrightarrow> g_unity_arena_slots s \<le> UNITY_ARENA_MAX_SLOTS"

lemma bit_unity_arena_mask:
  assumes "0 < count" and "first + count \<le> 64"
  shows "bit (unity_arena_mask first count) j \<longleftrightarrow> first \<le> j \<and> j < first + count"
proof -
  have "(push_bit count 1 - 1 :: u64) = mask count" by (simp add: mask_eq_exp_minus_1 push_bit_of_1)
  moreover have "(- 1 :: u64) = mask 64" by (simp add: mask_eq_exp_minus_1)
  ultimately have "unity_arena_mask first count = push_bit first (mask count)"
    using assms by (simp add: unity_arena_mask_def)
  with assms show ?thesis by (auto simp: bit_push_bit_iff bit_mask_iff)
qed

lemma arena_mask_set:
  "0 < count \<Longrightarrow> first + count \<le> 64 \<Longrightarrow>
   {j. bit (unity_arena_mask first count) j} = {first..<first + count}"
  by (auto simp: bit_unity_arena_mask)

lemma run_free_iff:
  assumes "0 < count" and "i + count \<le> 64"
  shows "run_free count i s \<longleftrightarrow> {i..<i + count} \<inter> used_set s = {}"
proof -
  have "bit (unity_arena_mask i count) i" using assms by (simp add: bit_unity_arena_mask)
  then have "unity_arena_mask i count \<noteq> 0" by (metis bit_0_eq bot_apply bot_bool_def)
  moreover have "g_unity_arena_used s AND unity_arena_mask i count = 0 \<longleftrightarrow>
      (\<forall>j. \<not> (bit (g_unity_arena_used s) j \<and> bit (unity_arena_mask i count) j))"
    using bit_and_iff [of "g_unity_arena_used s" "unity_arena_mask i count"]
    by (metis bit_0_eq bot_apply bot_bool_def bit_eqI)
  ultimately show ?thesis
    using assms by (auto simp: run_free_def used_set_def bit_unity_arena_mask disjoint_iff)
qed

lemma used_set_take:
  "0 < count \<Longrightarrow> i + count \<le> 64 \<Longrightarrow> used_set (take_run_at i count s) = used_set s \<union> {i..<i + count}"
  by (auto simp: used_set_def take_run_at_def Let_def bit_or_iff bit_unity_arena_mask)

lemma scan_down_Some: "scan_down P n = Some i \<Longrightarrow> i < n \<and> P i"
  by (induction P n rule: scan_down.induct) (auto split: if_splits)

lemma take_run_Some:
  assumes "arena_ok s" and "unity_arena_take_run count hi s = (Some (i, p), s')"
  shows "0 < count \<and> i + count \<le> g_unity_arena_slots s \<and> {i..<i + count} \<inter> used_set s = {} \<and>
    p = slot_addr s i \<and> s' = take_run_at i count s \<and> used_set s' = used_set s \<union> {i..<i + count}"
proof -
  have c: "0 < count" "count \<le> g_unity_arena_slots s"
    and found: "run_free count i s" "i < g_unity_arena_slots s - count + 1"
    and p: "p = slot_addr s i" and s': "s' = take_run_at i count s"
    using assms(2)
    by (auto simp: unity_arena_take_run_def Let_def split: if_splits option.splits
        dest: scan_SomeD scan_down_Some)
  then have i: "i + count \<le> g_unity_arena_slots s" "i + count \<le> 64"
    using assms(1) by (auto simp: arena_ok_def UNITY_ARENA_MAX_SLOTS_def)
  with c found p s' show ?thesis by (simp add: run_free_iff used_set_take)
qed

lemma take_run_None: "unity_arena_take_run count hi s = (None, s') \<Longrightarrow> s' = s"
  by (auto simp: unity_arena_take_run_def Let_def split: if_splits option.splits)

lemma take_run_frame [simp]:
  "g_mmaps (take_run_at i c s) = g_mmaps s" "g_unity_arena_slots (take_run_at i c s) = g_unity_arena_slots s"
  "g_unity_arena_base (take_run_at i c s) = g_unity_arena_base s"
  "g_mmap_backing_bytes (take_run_at i c s) = g_mmap_backing_bytes s"
  by (simp_all add: take_run_at_def Let_def)

lemma release_run_frame [simp]:
  "g_mmaps (unity_arena_release_run i c s) = g_mmaps s"
  "g_unity_arena_slots (unity_arena_release_run i c s) = g_unity_arena_slots s"
  "g_unity_arena_base (unity_arena_release_run i c s) = g_unity_arena_base s"
  by (simp_all add: unity_arena_release_run_def)

lemma release_run_used:
  assumes "arena_ok s" and "0 < count" and "i + count \<le> g_unity_arena_slots s"
  shows "used_set (unity_arena_release_run i count s) = used_set s - {i..<i + count}"
proof -
  have "i + count \<le> 33" using assms by (simp add: arena_ok_def UNITY_ARENA_MAX_SLOTS_def)
  then have "i + count \<le> 64" "i < 33" using assms(2) by auto
  then show ?thesis
    using assms(2) \<open>i + count \<le> 33\<close>
    by (auto simp: used_set_def unity_arena_release_run_def UNITY_ARENA_MAX_SLOTS_def bit_and_iff
        bit_not_iff bit_unity_arena_mask dest: bit_imp_le_length)
qed

interpretation arena: run_allocator used_set g_unity_arena_slots arena_ok
  "\<lambda>c s. map_prod (map_option fst) id (unity_arena_take_run c False s)" unity_arena_release_run
proof (unfold_locales, goal_cases)
  case (1 s c i s')
  then obtain p where "unity_arena_take_run c False s = (Some (i, p), s')"
    by (cases "unity_arena_take_run c False s") auto
  from take_run_Some [OF 1(1) this] show ?case by simp
next
  case (2 s c i s')
  then obtain p where "unity_arena_take_run c False s = (Some (i, p), s')"
    by (cases "unity_arena_take_run c False s") auto
  from take_run_Some [OF 2(1) this] 2(1) show ?case
    by (metis arena_ok_def take_run_frame(2))
next
  case (3 s c s')
  then have "unity_arena_take_run c False s = (None, s')"
    by (cases "unity_arena_take_run c False s") auto
  then show ?case by (rule take_run_None)
next
  case (4 s c i)
  then show ?case by (simp add: release_run_used) (simp add: arena_ok_def)
qed

section \<open>Who owns which slots\<close>

definition run_of_slot :: "mmap_slot \<Rightarrow> nat set" where
  "run_of_slot r = (if used r then (case arena_index r of None \<Rightarrow> {} | Some a \<Rightarrow> {a..<a + arena_count r})
                    else {})"

definition run_of_plan :: "mmap_plan option \<Rightarrow> nat set" where
  "run_of_plan x = (case x of None \<Rightarrow> {} | Some pl \<Rightarrow>
     (case pl_arena pl of None \<Rightarrow> {} | Some a \<Rightarrow> {a..<a + pl_count pl}))"

text \<open>Threads with a mapping in progress.\<close>

record msys =
  mtab :: mm
  inflight :: "nat \<Rightarrow> mmap_plan option"

definition owner_runs :: "msys \<Rightarrow> nat + nat \<Rightarrow> nat set" where
  "owner_runs S x = (case x of
     Inl i \<Rightarrow> if i < MMAP_SLOTS then run_of_slot (g_mmaps (mtab S) ! i) else {}
   | Inr t \<Rightarrow> run_of_plan (inflight S t))"

definition slot_ok :: "mm \<Rightarrow> mmap_slot \<Rightarrow> bool" where
  "slot_ok s r \<longleftrightarrow> (\<forall>a. used r \<and> arena_index r = Some a \<longrightarrow>
     0 < arena_count r \<and> a + arena_count r \<le> g_unity_arena_slots s \<and> base r = slot_addr s a)"

definition plan_ok :: "mm \<Rightarrow> mmap_plan \<Rightarrow> bool" where
  "plan_ok s pl \<longleftrightarrow> (\<forall>a. pl_arena pl = Some a \<longrightarrow>
     0 < pl_count pl \<and> a + pl_count pl \<le> g_unity_arena_slots s \<and> pl_p pl = slot_addr s a \<and>
     \<not> pl_file pl)"

definition msys_inv :: "msys \<Rightarrow> bool" where
  "msys_inv S \<longleftrightarrow> arena_ok (mtab S) \<and> length (g_mmaps (mtab S)) = MMAP_SLOTS \<and>
     (\<forall>r\<in>set (g_mmaps (mtab S)). slot_ok (mtab S) r) \<and>
     (\<forall>t pl. inflight S t = Some pl \<longrightarrow> plan_ok (mtab S) pl) \<and>
     owns (owner_runs S) (used_set (mtab S))"

definition set_sys :: "nat \<Rightarrow> mmap_plan option \<Rightarrow> mm \<Rightarrow> msys \<Rightarrow> msys" where
  "set_sys t x s S = S\<lparr>mtab := s, inflight := (inflight S)(t := x)\<rparr>"

inductive mstep :: "msys \<Rightarrow> msys \<Rightarrow> bool" where
  reserve: "inflight S t = None \<Longrightarrow> mmap_reserve n flags fd off fresh (mtab S) = (Inr pl, s') \<Longrightarrow>
    mstep S (set_sys t (Some pl) s' S)"
| reserve_fail: "inflight S t = None \<Longrightarrow>
    mmap_reserve n flags fd off fresh (mtab S) = (Inl e, s') \<Longrightarrow> mstep S (set_sys t None s' S)"
| populate: "inflight S t = Some pl \<Longrightarrow>
    mmap_populate pl rs (mtab S) = Some (Inr u, s') \<Longrightarrow> mstep S (set_sys t (Some pl) s' S)"
| populate_fail: "inflight S t = Some pl \<Longrightarrow>
    mmap_populate pl rs (mtab S) = Some (Inl e, s') \<Longrightarrow> mstep S (set_sys t None s' S)"
| commit: "inflight S t = Some pl \<Longrightarrow> mmap_commit pl (mtab S) = (r, s') \<Longrightarrow>
    mstep S (set_sys t None s' S)"
| unmap: "bionic_munmap p n (mtab S) = (r, s') \<Longrightarrow> mstep S (S\<lparr>mtab := s'\<rparr>)"


section \<open>Every step keeps the ownership\<close>

text \<open>What an operation leaves alone: the arena itself.\<close>

definition same_arena :: "mm \<Rightarrow> mm \<Rightarrow> bool" where
  "same_arena s s' \<longleftrightarrow> g_unity_arena_base s' = g_unity_arena_base s \<and>
     g_unity_arena_slots s' = g_unity_arena_slots s"

lemma same_arenaD:
  assumes "same_arena s s'"
  shows "arena_ok s' = arena_ok s" and "slot_ok s' = slot_ok s" and "plan_ok s' = plan_ok s"
  using assms by (auto simp: same_arena_def arena_ok_def slot_ok_def plan_ok_def slot_addr_def fun_eq_iff)

lemma reserve_block_Some:
  assumes "arena_ok s" and "reserve_block anon lg n fd off fresh s = (Inr pl, s')"
  shows "same_arena s s' \<and> g_mmaps s' = g_mmaps s \<and> plan_ok s' pl \<and>
    run_of_plan (Some pl) \<inter> used_set s = {} \<and> used_set s' = used_set s \<union> run_of_plan (Some pl)"
proof -
  obtain run s1 where run:
    "(if unity_reserve anon lg then unity_arena_take_run (run_slots anon lg) False s else (None, s)) = (run, s1)"
    by fastforce
  show ?thesis
  proof (cases run)
    case None
    then have s1: "s1 = s" using run take_run_None by (auto split: if_splits)
    with None run assms(2) show ?thesis
      by (auto simp: reserve_block_def make_plan_def run_of_plan_def plan_ok_def same_arena_def
          used_set_def split: if_splits)
  next
    case (Some ip)
    then obtain i p where ip: "run = Some (i, p)" by (cases ip) auto
    then have res: "unity_reserve anon lg"
      and t: "unity_arena_take_run (run_slots anon lg) False s = (Some (i, p), s1)"
      using run by (auto split: if_splits)
    note T = take_run_Some [OF assms(1) t]
    have "anon" using res by (auto simp: unity_reserve_def unity_single_def unity_aligned256_def)
    from assms(2) res t \<open>anon\<close>
    have pl: "pl = make_plan True lg p (of_nat (run_slots True lg) * UNITY_DYNAMIC_REGION_BYTES) (Some i) n fd off"
      and s': "s' = s1" by (auto simp: reserve_block_def)
    with T \<open>anon\<close> show ?thesis
      by (auto simp: same_arena_def run_of_plan_def plan_ok_def make_plan_def slot_addr_def)
  qed
qed

lemma reserve_block_None:
  "reserve_block anon lg n fd off fresh s = (Inl e, s') \<Longrightarrow> s' = s"
  by (auto simp: reserve_block_def split: prod.splits option.splits if_splits dest: take_run_None)

lemma mmap_reserve_Some:
  assumes "arena_ok s" and "mmap_reserve n flags fd off fresh s = (Inr pl, s')"
  shows "same_arena s s' \<and> g_mmaps s' = g_mmaps s \<and> plan_ok s' pl \<and>
    run_of_plan (Some pl) \<inter> used_set s = {} \<and> used_set s' = used_set s \<union> run_of_plan (Some pl)"
  using assms by (intro reserve_block_Some [OF assms(1)]) (auto simp: mmap_reserve_def split: if_splits)

lemma mmap_reserve_None: "mmap_reserve n flags fd off fresh s = (Inl e, s') \<Longrightarrow> s' = s"
  by (auto simp: mmap_reserve_def split: if_splits dest: reserve_block_None)

lemma mmap_abandon_effect:
  assumes "arena_ok s" and "plan_ok s pl"
  shows "same_arena s (mmap_abandon pl s) \<and> g_mmaps (mmap_abandon pl s) = g_mmaps s \<and>
    used_set (mmap_abandon pl s) = used_set s - run_of_plan (Some pl)"
  using assms by (cases "pl_arena pl")
    (auto simp: mmap_abandon_def same_arena_def plan_ok_def run_of_plan_def release_run_used)

lemma used_set_memory [simp]: "used_set (s\<lparr>memory := m\<rparr>) = used_set s"
  by (simp add: used_set_def)

lemma mmap_populate_ok:
  assumes "mmap_populate pl rs s = Some (Inr u, s')"
  shows "same_arena s s' \<and> g_mmaps s' = g_mmaps s \<and> used_set s' = used_set s"
  using assms by (auto simp: mmap_populate_def same_arena_def Let_def
      split: if_splits option.splits sum.splits)

lemma mmap_populate_fail:
  assumes "arena_ok s" and "plan_ok s pl" and "mmap_populate pl rs s = Some (Inl e, s')"
  shows "same_arena s s' \<and> g_mmaps s' = g_mmaps s \<and>
    used_set s' = used_set s - run_of_plan (Some pl)"
proof (cases "pl_unity pl \<and> pl_p pl AND (UNITY_DYNAMIC_REGION_BYTES - 1) \<noteq> 0")
  case True
  with assms(3) have "s' = mmap_abandon pl s" by (simp add: mmap_populate_def)
  with mmap_abandon_effect [OF assms(1,2)] show ?thesis by simp
next
  case False
  then have fb: "pl_file pl"
    and s': "s' = free_block (pl_p pl) (s\<lparr>memory := zero_block (pl_p pl) (pl_backing pl) (memory s)\<rparr>)"
    using assms(3) by (auto simp: mmap_populate_def Let_def split: if_splits option.splits sum.splits)
  then have "pl_arena pl = None" using assms(2) by (cases "pl_arena pl") (auto simp: plan_ok_def)
  with s' show ?thesis by (simp add: same_arena_def run_of_plan_def)
qed


lemma mmap_commit_effect:
  assumes ok: "arena_ok s" "plan_ok s pl" and len: "length (g_mmaps s) = MMAP_SLOTS"
    and c: "mmap_commit pl s = (r, s')"
  shows "same_arena s s' \<and>
    (case r of
       Inl e \<Rightarrow> s' = mmap_abandon pl s
     | Inr p \<Rightarrow> used_set s' = used_set s \<and> p = pl_p pl \<and>
         (\<exists>i < MMAP_SLOTS. \<exists>m. \<not> used (g_mmaps s ! i) \<and> g_mmaps s' = (g_mmaps s)[i := m] \<and>
            slot_ok s' m \<and> run_of_slot m = run_of_plan (Some pl)))"
proof (cases "scan (\<lambda>i. \<not> used (g_mmaps s ! i)) 0 MMAP_SLOTS")
  case None
  with c mmap_abandon_effect [OF ok] show ?thesis by (auto simp: mmap_commit_def)
next
  case (Some i)
  then have i: "i < MMAP_SLOTS" "\<not> used (g_mmaps s ! i)" by (auto dest: scan_SomeD)
  let ?m = "\<lparr>base = pl_p pl, logical_size = pl_logical pl,
                backing_size = pl_backing pl, live_lo = pl_p pl, live_hi = pl_p pl + pl_logical pl,
                used = True, unity_aligned_reserve = pl_aligned pl, arena_index = pl_arena pl,
                arena_count = pl_count pl, arena_keep_count = pl_keep pl\<rparr>"
  have s': "s' = s\<lparr>g_mmaps := (g_mmaps s)[i := ?m],
      g_mmap_backing_bytes := g_mmap_backing_bytes s + pl_backing pl\<rparr>" and r: "r = Inr (pl_p pl)"
    using c Some by (auto simp: mmap_commit_def)
  have sa: "same_arena s s'" by (simp add: s' same_arena_def)
  have "slot_ok s' ?m" using ok(2) by (auto simp: same_arenaD(2) [OF sa] slot_ok_def plan_ok_def)
  moreover have "run_of_slot ?m = run_of_plan (Some pl)"
    by (simp add: run_of_slot_def run_of_plan_def split: option.split)
  moreover have "g_mmaps s' = (g_mmaps s)[i := ?m]" "used_set s' = used_set s"
    by (simp_all add: s' used_set_def)
  ultimately show ?thesis using i r sa by auto
qed

lemma release_none [simp]:
  "g_unity_arena_used (s\<lparr>g_mmap_backing_bytes := b\<rparr>) = g_unity_arena_used s" by simp

lemma used_set_upd [simp]:
  "used_set (s\<lparr>g_mmaps := l\<rparr>) = used_set s" "used_set (s\<lparr>g_mmap_backing_bytes := b\<rparr>) = used_set s"
  by (simp_all add: used_set_def)

lemma arena_ok_upd [simp]:
  "arena_ok (s\<lparr>g_mmaps := l\<rparr>) = arena_ok s" "arena_ok (s\<lparr>g_mmap_backing_bytes := b\<rparr>) = arena_ok s"
  by (simp_all add: arena_ok_def)

text \<open>An unmap rewrites one record and releases a part of that record's run.\<close>

definition unmaps :: "nat \<Rightarrow> mmap_slot \<Rightarrow> nat set \<Rightarrow> mm \<Rightarrow> mm \<Rightarrow> bool" where
  "unmaps i m R s s' \<longleftrightarrow> same_arena s s' \<and> g_mmaps s' = (g_mmaps s)[i := m] \<and> slot_ok s' m \<and>
     R \<subseteq> run_of_slot (g_mmaps s ! i) \<and> run_of_slot m = run_of_slot (g_mmaps s ! i) - R \<and>
     used_set s' = used_set s - R"

lemma unmaps_live:
  assumes "slot_ok s r" and "r = g_mmaps s ! i" and "m = r\<lparr>live_lo := lo, live_hi := hi\<rparr>"
  shows "unmaps i m {} s (s\<lparr>g_mmaps := (g_mmaps s)[i := m]\<rparr>)"
proof -
  have "run_of_slot m = run_of_slot r" by (simp add: run_of_slot_def assms(3) split: option.split)
  moreover have "slot_ok s m" using assms(1) by (simp add: slot_ok_def assms(3))
  ultimately show ?thesis
    using assms(2) by (simp add: unmaps_def same_arena_def slot_ok_def slot_addr_def)
qed

lemma unmaps_all:
  assumes "arena_ok s" "slot_ok s r" "r = g_mmaps s ! i" "used r"
    and "s2 = (case arena_index r of None \<Rightarrow> free_block (base r) (s\<lparr>g_mmap_backing_bytes := b\<rparr>)
      | Some a \<Rightarrow> unity_arena_release_run a (if arena_count r \<noteq> 0 then arena_count r else 1)
          (s\<lparr>g_mmap_backing_bytes := b\<rparr>))"
  shows "unmaps i zero_mmap_slot (run_of_slot r) s (s2\<lparr>g_mmaps := (g_mmaps s2)[i := zero_mmap_slot]\<rparr>)"
proof (cases "arena_index r")
  case None
  with assms show ?thesis
    by (auto simp: unmaps_def same_arena_def slot_ok_def run_of_slot_def zero_mmap_slot_def)
next
  case (Some a)
  then have "0 < arena_count r" "a + arena_count r \<le> g_unity_arena_slots s"
    using assms(2,4) by (auto simp: slot_ok_def)
  with Some assms show ?thesis
    by (auto simp: unmaps_def same_arena_def slot_ok_def run_of_slot_def zero_mmap_slot_def
        release_run_used)
qed

lemma unmaps_trim:
  assumes "arena_ok s" "slot_ok s r" and r: "r = g_mmaps s ! i" and "used r" "arena_index r = Some a"
    and k: "0 < k" "k < arena_count r"
    and s1: "s1 = unity_arena_release_run (a + k) (arena_count r - k) s"
    and m: "m = r\<lparr>live_hi := hi, arena_count := k, backing_size := kb\<rparr>"
  shows "unmaps i m {a + k..<a + arena_count r} s
    (s1\<lparr>g_mmaps := (g_mmaps s)[i := m], g_mmap_backing_bytes := b\<rparr>)"
proof -
  have a: "a + arena_count r \<le> g_unity_arena_slots s" "base r = slot_addr s a"
    using assms(2,4,5) by (auto simp: slot_ok_def)
  have u: "used_set s1 = used_set s - {a + k..<a + arena_count r}"
    using a k assms(1) by (simp add: s1 release_run_used)
  have ro: "run_of_slot (g_mmaps s ! i) = {a..<a + arena_count r}" "run_of_slot m = {a..<a + k}"
    using assms(4,5) by (simp_all add: run_of_slot_def m r)
  have "same_arena s s1" by (simp add: same_arena_def s1)
  then have "same_arena s (s1\<lparr>g_mmaps := (g_mmaps s)[i := m], g_mmap_backing_bytes := b\<rparr>)" (is "same_arena s ?s2")
    by (simp add: same_arena_def)
  moreover have "slot_ok s m" using a k assms(5) by (simp add: slot_ok_def m)
  ultimately have "same_arena s ?s2" "slot_ok ?s2 m" by (simp_all add: same_arenaD)
  moreover have "{a + k..<a + arena_count r} \<subseteq> {a..<a + arena_count r}"
    "{a..<a + k} = {a..<a + arena_count r} - {a + k..<a + arena_count r}" using k by auto
  ultimately show ?thesis using u by (simp add: unmaps_def ro s1)
qed

lemma munmap_slot_unmaps:
  assumes ok: "arena_ok s" "slot_ok s (g_mmaps s ! i)" and u: "used (g_mmaps s ! i)"
  shows "\<exists>m R. unmaps i m R s (munmap_slot start end0 i s)"
proof -
  define r where "r = g_mmaps s ! i"
  define stop where "stop = (let limit = base r + logical_size r in if limit < end0 then limit else end0)"
  note d = munmap_slot_def Let_def r_def [symmetric] stop_def [unfolded Let_def, symmetric]
  have ok_r: "slot_ok s r" and u_r: "used r" using ok u by (simp_all add: r_def)
  have same: "\<exists>m R. unmaps i m R s (s\<lparr>g_mmaps := (g_mmaps s)[i := q]\<rparr>)"
    if "q = r\<lparr>live_lo := lo, live_hi := hi\<rparr>" for q lo hi
    using unmaps_live [OF ok_r r_def that] by blast
  have same_lo: "\<exists>m R. unmaps i m R s (s\<lparr>g_mmaps := (g_mmaps s)[i := r\<lparr>live_lo := lo\<rparr>]\<rparr>)" for lo
    by (rule same [where lo = lo and hi = "live_hi r"]) (cases r, simp)
  have same_hi: "\<exists>m R. unmaps i m R s (s\<lparr>g_mmaps := (g_mmaps s)[i := r\<lparr>live_hi := hi\<rparr>]\<rparr>)" for hi
    by (rule same [where lo = "live_lo r" and hi = hi]) (cases r, simp)
  have same_id: "\<exists>m R. unmaps i m R s (s\<lparr>g_mmaps := (g_mmaps s)[i := r]\<rparr>)"
    by (rule same [where lo = "live_lo r" and hi = "live_hi r"]) (cases r, simp)
  consider (all) "start \<le> live_lo r \<and> live_hi r \<le> stop"
    | (front) "\<not> (start \<le> live_lo r \<and> live_hi r \<le> stop)" "start \<le> live_lo r \<and> live_lo r < stop"
    | (tail) "\<not> (start \<le> live_lo r \<and> live_hi r \<le> stop)" "\<not> (start \<le> live_lo r \<and> live_lo r < stop)"
        "live_hi r \<le> stop \<and> start < live_hi r"
    | (none) "\<not> (start \<le> live_lo r \<and> live_hi r \<le> stop)" "\<not> (start \<le> live_lo r \<and> live_lo r < stop)"
        "\<not> (live_hi r \<le> stop \<and> start < live_hi r)" by blast
  then show ?thesis
  proof cases
    case all
    show ?thesis
      using unmaps_all [OF ok(1) ok_r r_def u_r refl, of "sub_sat (g_mmap_backing_bytes s) (backing_size r)"] all
      by (simp only: d simp_thms if_True) blast
  next
    case front
    then show ?thesis using same_lo by (simp only: d if_False if_True) simp
  next
    case tail
    let ?hi = "if live_lo r < start then start else live_lo r"
    show ?thesis
    proof (cases "\<exists>a. arena_index r = Some a \<and> 0 < arena_keep_count r \<and> arena_keep_count r < arena_count r \<and>
        start = base r + of_nat (arena_keep_count r) * UNITY_DYNAMIC_REGION_BYTES \<and>
        base r + logical_size r \<le> stop")
      case True
      then obtain a where a: "arena_index r = Some a" "0 < arena_keep_count r" "arena_keep_count r < arena_count r"
        "start = base r + of_nat (arena_keep_count r) * UNITY_DYNAMIC_REGION_BYTES"
        "base r + logical_size r \<le> stop" by blast
      show ?thesis
        using tail a
        by (simp add: d) (intro conjI impI exI, rule unmaps_trim [OF ok(1) ok_r r_def u_r a(1,2,3) refl refl], simp_all)
    next
      case False
      then show ?thesis using tail same_hi by (cases "arena_index r") (auto simp: d)
    qed
  next
    case none
    then show ?thesis using same_id by (simp only: d if_False if_True) (simp add: r_def)
  qed
qed


lemma bionic_munmap_unmaps:
  assumes ok: "arena_ok s" "\<forall>r\<in>set (g_mmaps s). slot_ok s r" "length (g_mmaps s) = MMAP_SLOTS"
    and m: "bionic_munmap p n s = (r, s')"
  shows "s' = s \<or> (\<exists>i m R. i < MMAP_SLOTS \<and> unmaps i m R s s')"
proof (cases "s' = s")
  case False
  with m obtain i where i: "scan (\<lambda>i. munmap_hits p (g_mmaps s ! i)) 0 MMAP_SLOTS = Some i"
    and s': "s' = munmap_slot p (p + page_up_size n) i s"
    by (auto simp: bionic_munmap_def Let_def split: if_splits option.splits)
  then have "i < MMAP_SLOTS" "used (g_mmaps s ! i)" by (auto simp: munmap_hits_def dest: scan_SomeD)
  then show ?thesis using ok munmap_slot_unmaps [of s i p] by (auto simp: s')
qed simp

lemma ball_list_update: "\<forall>x\<in>set xs. P x \<Longrightarrow> P y \<Longrightarrow> \<forall>x\<in>set (xs[i := y]). P x"
  using set_update_subset_insert [of xs i y] by blast

text \<open>The owners after a step: one record and one thread change.\<close>

lemma owner_runs_thread:
  assumes "g_mmaps s' = g_mmaps (mtab S)"
  shows "owner_runs (set_sys t x s' S) = (owner_runs S)(Inr t := run_of_plan x)"
proof
  show "owner_runs (set_sys t x s' S) y = ((owner_runs S)(Inr t := run_of_plan x)) y" for y
    using assms by (cases y) (auto simp: owner_runs_def set_sys_def)
qed

lemma owner_runs_slot:
  assumes "g_mmaps s' = (g_mmaps (mtab S))[i := m]" and "i < MMAP_SLOTS"
    and "length (g_mmaps (mtab S)) = MMAP_SLOTS"
  shows "owner_runs (S\<lparr>mtab := s'\<rparr>) = (owner_runs S)(Inl i := run_of_slot m)"
proof
  show "owner_runs (S\<lparr>mtab := s'\<rparr>) y = ((owner_runs S)(Inl i := run_of_slot m)) y" for y
    using assms by (cases y) (auto simp: owner_runs_def nth_list_update)
qed

lemma owner_runs_commit:
  assumes "g_mmaps s' = (g_mmaps (mtab S))[i := m]" and "i < MMAP_SLOTS"
    and "length (g_mmaps (mtab S)) = MMAP_SLOTS"
  shows "owner_runs (set_sys t None s' S) = (owner_runs S)(Inr t := {}, Inl i := run_of_slot m)"
proof
  show "owner_runs (set_sys t None s' S) y = ((owner_runs S)(Inr t := {}, Inl i := run_of_slot m)) y" for y
    using assms by (cases y) (auto simp: owner_runs_def set_sys_def nth_list_update run_of_plan_def)
qed

lemma msys_invD:
  assumes "msys_inv S"
  shows "arena_ok (mtab S)" and "length (g_mmaps (mtab S)) = MMAP_SLOTS"
    and "\<forall>r\<in>set (g_mmaps (mtab S)). slot_ok (mtab S) r"
    and "inflight S t = Some pl \<Longrightarrow> plan_ok (mtab S) pl"
    and "owns (owner_runs S) (used_set (mtab S))"
  using assms by (auto simp: msys_inv_def)

lemma msys_inv_thread:
  assumes inv: "msys_inv S" and sa: "same_arena (mtab S) s'" and mm: "g_mmaps s' = g_mmaps (mtab S)"
    and x: "\<And>pl. x = Some pl \<Longrightarrow> plan_ok s' pl"
    and own: "owns ((owner_runs S)(Inr t := run_of_plan x)) (used_set s')"
  shows "msys_inv (set_sys t x s' S)"
  using own [folded owner_runs_thread [OF mm, of t x]] msys_invD [OF inv] x
  by (auto simp: msys_inv_def mm same_arenaD [OF sa] set_sys_def)

lemma owner_runs_plan: "owner_runs S (Inr t) = run_of_plan (inflight S t)"
  by (simp add: owner_runs_def)

lemma run_of_plan_None [simp]: "run_of_plan None = {}"
  by (simp add: run_of_plan_def)

lemma msys_inv_abandon:
  assumes inv: "msys_inv S" and fl: "inflight S t = Some pl" and sa: "same_arena (mtab S) s'"
    and mm: "g_mmaps s' = g_mmaps (mtab S)" and u: "used_set s' = used_set (mtab S) - run_of_plan (Some pl)"
  shows "msys_inv (set_sys t None s' S)"
proof (rule msys_inv_thread [OF inv sa mm])
  show "owns ((owner_runs S)(Inr t := run_of_plan None)) (used_set s')"
    using owns_give [OF msys_invD(5) [OF inv], of "run_of_plan (Some pl)" "Inr t"]
    by (simp add: u owner_runs_plan fl)
qed simp

lemma msys_inv_slot:
  assumes inv: "msys_inv S" and i: "i < MMAP_SLOTS" and un: "unmaps i m R (mtab S) s'"
  shows "msys_inv (S\<lparr>mtab := s'\<rparr>)"
proof -
  note D = msys_invD [OF inv]
  have sa: "same_arena (mtab S) s'" and mm: "g_mmaps s' = (g_mmaps (mtab S))[i := m]"
    and m: "slot_ok s' m" and R: "R \<subseteq> owner_runs S (Inl i)" "run_of_slot m = owner_runs S (Inl i) - R"
    "used_set s' = used_set (mtab S) - R"
    using un i by (simp_all add: unmaps_def owner_runs_def)
  have "owns (owner_runs (S\<lparr>mtab := s'\<rparr>)) (used_set s')"
    unfolding owner_runs_slot [OF mm i D(2)] R(2,3) by (rule owns_give [OF D(5) R(1)])
  moreover have "\<forall>r\<in>set (g_mmaps s'). slot_ok s' r"
    using ball_list_update [OF D(3), of m i] m unfolding mm same_arenaD(2) [OF sa] by blast
  ultimately show ?thesis
    using D(1,2,4) by (simp add: msys_inv_def same_arenaD [OF sa] mm)
qed

lemma msys_inv_commit:
  assumes inv: "msys_inv S" and fl: "inflight S t = Some pl" and i: "i < MMAP_SLOTS"
    and free: "\<not> used (g_mmaps (mtab S) ! i)" and sa: "same_arena (mtab S) s'"
    and mm: "g_mmaps s' = (g_mmaps (mtab S))[i := m]" and m: "slot_ok s' m"
    and r: "run_of_slot m = run_of_plan (Some pl)" and u: "used_set s' = used_set (mtab S)"
  shows "msys_inv (set_sys t None s' S)"
proof -
  note D = msys_invD [OF inv]
  have e: "owner_runs S (Inl i) = {}" using free i by (simp add: owner_runs_def run_of_slot_def)
  have "owns (owner_runs (set_sys t None s' S)) (used_set s')"
    using owns_move [OF D(5) _ e, of "Inr t"]
    by (simp add: owner_runs_commit [OF mm i D(2)] u r owner_runs_plan fl)
  moreover have "\<forall>r\<in>set (g_mmaps s'). slot_ok s' r"
    using ball_list_update [OF D(3), of m i] m unfolding mm same_arenaD(2) [OF sa] by blast
  moreover have "plan_ok s' q" if "inflight (set_sys t None s' S) u = Some q" for u q
    using that D(4) by (auto simp: set_sys_def same_arenaD(3) [OF sa] split: if_splits)
  ultimately show ?thesis
    using D(1,2) by (simp add: msys_inv_def same_arenaD(1) [OF sa] mm) (simp add: set_sys_def mm same_arenaD(1) [OF sa])
qed

lemma mstep_inv:
  assumes "mstep S S'" and inv: "msys_inv S"
  shows "msys_inv S'"
  using assms(1)
proof cases
  case (reserve t n flags fd off fresh pl s')
  note M = mmap_reserve_Some [OF msys_invD(1) [OF inv] reserve(3)]
  have "owns ((owner_runs S)(Inr t := run_of_plan (Some pl))) (used_set s')"
    using owns_grab [OF msys_invD(5) [OF inv], of "Inr t" "run_of_plan (Some pl)"] M reserve(2)
    by (simp add: owner_runs_plan)
  then show ?thesis unfolding reserve(1) using M by (intro msys_inv_thread [OF inv]) auto
next
  case (reserve_fail t n flags fd off fresh e s')
  have "s' = mtab S" by (rule mmap_reserve_None [OF reserve_fail(3)])
  then have "S' = S" using reserve_fail(1,2) by (simp add: set_sys_def fun_upd_idem)
  then show ?thesis using inv by simp
next
  case (populate t pl rs u s')
  note M = mmap_populate_ok [OF populate(3)]
  have "owns ((owner_runs S)(Inr t := run_of_plan (Some pl))) (used_set s')"
    using msys_invD(5) [OF inv] M populate(2) by (simp add: fun_upd_idem owner_runs_plan)
  then show ?thesis unfolding populate(1) using M msys_invD(4) [OF inv populate(2)]
    by (intro msys_inv_thread [OF inv]) (auto simp: same_arenaD)
next
  case (populate_fail t pl rs e s')
  note M = mmap_populate_fail [OF msys_invD(1) [OF inv] msys_invD(4) [OF inv populate_fail(2)] populate_fail(3)]
  then show ?thesis unfolding populate_fail(1) by (intro msys_inv_abandon [OF inv populate_fail(2)]) auto
next
  case (commit t pl r s')
  note M = mmap_commit_effect [OF msys_invD(1) [OF inv] msys_invD(4) [OF inv commit(2)]
      msys_invD(2) [OF inv] commit(3)]
  show ?thesis
  proof (cases r)
    case (Inl e)
    with M have "s' = mmap_abandon pl (mtab S)" by simp
    with mmap_abandon_effect [OF msys_invD(1) [OF inv] msys_invD(4) [OF inv commit(2)]]
    show ?thesis unfolding commit(1) by (intro msys_inv_abandon [OF inv commit(2)]) auto
  next
    case (Inr p)
    with M show ?thesis unfolding commit(1) by (auto intro: msys_inv_commit [OF inv commit(2)])
  qed
next
  case (unmap p n r s')
  from bionic_munmap_unmaps [OF msys_invD(1,3,2) [OF inv] unmap(2)]
  show ?thesis unfolding unmap(1)
  proof
    assume "s' = mtab S"
    then show "msys_inv (S\<lparr>mtab := s'\<rparr>)" using inv by simp
  next
    assume "\<exists>i m R. i < MMAP_SLOTS \<and> unmaps i m R (mtab S) s'"
    then show "msys_inv (S\<lparr>mtab := s'\<rparr>)" using msys_inv_slot [OF inv] by blast
  qed
qed

end
