(* ===== verification/MmapProps.thy ===== *)
theory MmapProps
  imports MmapArena
begin

text \<open>
  The properties of the emulated \<^verbatim>\<open>mmap\<close>: who owns the arena's slots in every interleaving of the
  guest's threads, what a mapping holds, and what unmapping gives back.
\<close>

section \<open>Reachable states\<close>

definition start_msys :: "u64 \<Rightarrow> u64 \<Rightarrow> msys" where
  "start_msys b len = \<lparr>mtab = bionic_set_mmap_arena b len init_mm, inflight = (\<lambda>_. None)\<rparr>"

lemma arena_ok_set: "arena_ok (bionic_set_mmap_arena b len s)"
  by (simp add: arena_ok_def bionic_set_mmap_arena_def Let_def)

lemma start_inv: "msys_inv (start_msys b len)"
proof -
  have g: "g_mmaps (bionic_set_mmap_arena b len init_mm) = replicate MMAP_SLOTS zero_mmap_slot"
    "g_unity_arena_used (bionic_set_mmap_arena b len init_mm) = 0"
    by (simp_all add: bionic_set_mmap_arena_def init_mm_def Let_def)
  then have "owner_runs (start_msys b len) x = {}" for x
    by (cases x) (simp_all add: owner_runs_def start_msys_def run_of_slot_def zero_mmap_slot_def)
  then have "owns (owner_runs (start_msys b len)) (used_set (mtab (start_msys b len)))"
    by (simp add: owns_def used_set_def start_msys_def g)
  then show ?thesis
    by (auto simp: msys_inv_def start_msys_def g arena_ok_set slot_ok_def zero_mmap_slot_def)
qed

lemma reach_inv: "mstep\<^sup>*\<^sup>* (start_msys b len) S \<Longrightarrow> msys_inv S"
  by (induction rule: rtranclp_induct) (auto intro: start_inv mstep_inv)

section \<open>A whole call\<close>

lemma mmap_cases:
  assumes "bionic_mmap n flags fd off fresh rs s = Some (Inr p, s')"
  obtains pl sa sb where "mmap_reserve n flags fd off fresh s = (Inr pl, sa)"
    "mmap_populate pl rs sa = Some (Inr (), sb)" "mmap_commit pl sb = (Inr p, s')"
  using assms by (auto simp: bionic_mmap_def split: prod.splits sum.splits option.splits)

lemma make_plan_sel [simp]:
  "pl_p (make_plan an lg p k idx n fd off) = p" "pl_logical (make_plan an lg p k idx n fd off) = lg"
  "pl_backing (make_plan an lg p k idx n fd off) = k" "pl_file (make_plan an lg p k idx n fd off) = (\<not> an)"
  "pl_unity (make_plan an lg p k idx n fd off) = unity_reserve an lg"
  "pl_count (make_plan an lg p k idx n fd off) = run_slots an lg"
  "pl_keep (make_plan an lg p k idx n fd off) = keep_slots an lg"
  "pl_arena (make_plan an lg p k idx n fd off) = idx"
  "pl_len (make_plan an lg p k idx n fd off) = n" "pl_fd (make_plan an lg p k idx n fd off) = fd"
  "pl_off (make_plan an lg p k idx n fd off) = off"
  by (simp_all add: make_plan_def)

lemma mmap_reserve_plan:
  assumes "mmap_reserve n flags fd off fresh s = (Inr pl, s')"
  shows "\<exists>p k idx. pl = make_plan (\<not> file_backed fd flags) (page_up_size n) p k idx n fd off \<and>
    n \<noteq> 0 \<and> page_up_size n \<noteq> 0 \<and> memory s' = memory s \<and> (file_backed fd flags \<longrightarrow> 0 \<le> off) \<and>
    g_mmap_backing_bytes s' = g_mmap_backing_bytes s \<and>
    k = (case idx of Some i \<Rightarrow> of_nat (run_slots (\<not> file_backed fd flags) (page_up_size n)) * UNITY_DYNAMIC_REGION_BYTES
         | None \<Rightarrow> if unity_single (\<not> file_backed fd flags) (page_up_size n)
                   then UNITY_DYNAMIC_REGION_BYTES else page_up_size n)"
  using assms
  by (fastforce simp: mmap_reserve_def reserve_block_def unity_arena_take_run_def take_run_at_def Let_def
      split: if_splits prod.splits option.splits)

lemma mmap_populate_frame:
  assumes "mmap_populate pl rs s = Some (Inr u, s')"
  shows "g_mmap_backing_bytes s' = g_mmap_backing_bytes s \<and>
    (pl_unity pl \<longrightarrow> pl_p pl AND (UNITY_DYNAMIC_REGION_BYTES - 1) = 0)"
  using assms by (auto simp: mmap_populate_def Let_def split: if_splits option.splits sum.splits)

lemma mmap_commit_Inr:
  assumes "mmap_commit pl s = (Inr p, s')"
  shows "\<exists>i. i < MMAP_SLOTS \<and> \<not> used (g_mmaps s ! i) \<and> p = pl_p pl \<and>
    s' = s\<lparr>g_mmaps := (g_mmaps s)[i := \<lparr>base = pl_p pl, logical_size = pl_logical pl,
                backing_size = pl_backing pl, live_lo = pl_p pl, live_hi = pl_p pl + pl_logical pl,
                used = True, unity_aligned_reserve = pl_aligned pl, arena_index = pl_arena pl,
                arena_count = pl_count pl, arena_keep_count = pl_keep pl\<rparr>],
             g_mmap_backing_bytes := g_mmap_backing_bytes s + pl_backing pl\<rparr>"
  using assms by (auto simp: mmap_commit_def split: option.splits dest: scan_SomeD)


section \<open>Properties\<close>

text \<open>
  C8.  In every interleaving of the guest's mappings and unmappings, a bit of the arena mask is set
  exactly when one mapping record, or one mapping in progress, holds that slot; no slot has two
  holders, so two live Unity mappings never share a byte.
\<close>

theorem arena_ownership_exact:
  assumes "mstep\<^sup>*\<^sup>* (start_msys b len) S"
  shows "(\<forall>x y. x = y \<or> owner_runs S x \<inter> owner_runs S y = {}) \<and>
    (\<forall>j. bit (g_unity_arena_used (mtab S)) j = (\<exists>x. j \<in> owner_runs S x)) \<and>
    (\<forall>j x. j \<notin> owner_runs S x \<or> j < g_unity_arena_slots (mtab S))"
proof -
  note inv = reach_inv [OF assms]
  note own = msys_invD(5) [OF inv]
  have "j < g_unity_arena_slots (mtab S)" if "j \<in> owner_runs S x" for j x
  proof (cases x)
    case (Inl i)
    with that have i: "i < MMAP_SLOTS" "j \<in> run_of_slot (g_mmaps (mtab S) ! i)"
      by (auto simp: owner_runs_def split: if_splits)
    then have "slot_ok (mtab S) (g_mmaps (mtab S) ! i)" using msys_invD(2,3) [OF inv] by simp
    with i(2) show ?thesis by (auto simp: run_of_slot_def slot_ok_def split: if_splits option.splits)
  next
    case (Inr t)
    with that obtain pl where "inflight S t = Some pl" "j \<in> run_of_plan (Some pl)"
      by (cases "inflight S t") (auto simp: owner_runs_def)
    with msys_invD(4) [OF inv, of t pl] show ?thesis
      by (auto simp: run_of_plan_def plan_ok_def split: option.splits)
  qed
  then show ?thesis
    using owns_disjoint [OF own] owns_mem [OF own] by (auto simp: used_set_def) blast+
qed

lemma zero_block_at: "a - p < n \<Longrightarrow> zero_block p n m a = 0"
  by (simp add: zero_block_def)



text \<open>An unmap of a whole mapping selects its record.\<close>

lemma scan_first:
  assumes "P i" and "i < n" and "\<And>j. j < n \<Longrightarrow> P j \<Longrightarrow> j = i"
  shows "scan P 0 n = Some i"
proof -
  have "\<not> P j" if "j < i" for j using assms(2) assms(3) [of j] that by auto
  with assms(1,2) show ?thesis by (simp add: scan_Some_iff)
qed

text \<open>
  Mapping and unmapping are inverse: when no other live interval holds the address, unmapping
  the whole of a new mapping frees the record it took, and returns the arena mask and the count of
  backing bytes to what they were.
\<close>

theorem mmap_munmap_roundtrip:
  assumes ok: "arena_ok s" "length (g_mmaps s) = MMAP_SLOTS"
    and m: "bionic_mmap n flags fd off fresh rs s = Some (Inr p, s1)"
    and p: "p \<noteq> 0" "p < p + page_up_size n"
    and alone: "\<forall>r\<in>set (g_mmaps s). \<not> munmap_hits p r"
    and nowrap: "g_mmap_backing_bytes s \<le> g_mmap_backing_bytes s1"
  shows "\<exists>i s2. bionic_munmap p n s1 = (Inr (), s2) \<and> i < MMAP_SLOTS \<and> \<not> used (g_mmaps s ! i) \<and>
    g_mmaps s2 = (g_mmaps s)[i := zero_mmap_slot] \<and> used_set s2 = used_set s \<and>
    g_mmap_backing_bytes s2 = g_mmap_backing_bytes s"
proof -
  obtain pl sa sb where r: "mmap_reserve n flags fd off fresh s = (Inr pl, sa)"
    and po: "mmap_populate pl rs sa = Some (Inr (), sb)" and c: "mmap_commit pl sb = (Inr p, s1)"
    using mmap_cases [OF m] .
  note R = mmap_reserve_Some [OF ok(1) r] and P = mmap_populate_ok [OF po]
  have lg: "pl_logical pl = page_up_size n" "n \<noteq> 0" "page_up_size n \<noteq> 0"
    and bb: "g_mmap_backing_bytes sb = g_mmap_backing_bytes s"
    using mmap_reserve_plan [OF r] mmap_populate_frame [OF po] by auto
  obtain i where i: "i < MMAP_SLOTS" "\<not> used (g_mmaps s ! i)" "p = pl_p pl"
    and s1: "s1 = sb\<lparr>g_mmaps := (g_mmaps s)[i := \<lparr>base = p, logical_size = page_up_size n,
                backing_size = pl_backing pl, live_lo = p, live_hi = p + page_up_size n,
                used = True, unity_aligned_reserve = pl_aligned pl, arena_index = pl_arena pl,
                arena_count = pl_count pl, arena_keep_count = pl_keep pl\<rparr>],
             g_mmap_backing_bytes := g_mmap_backing_bytes s + pl_backing pl\<rparr>"
    using mmap_commit_Inr [OF c] R P by (simp only: lg(1) bb) metis
  let ?r = "g_mmaps s1 ! i"
  have ri: "?r = \<lparr>base = p, logical_size = page_up_size n,
                backing_size = pl_backing pl, live_lo = p, live_hi = p + page_up_size n,
                used = True, unity_aligned_reserve = pl_aligned pl, arena_index = pl_arena pl,
                arena_count = pl_count pl, arena_keep_count = pl_keep pl\<rparr>"
    using i(1) ok(2) by (simp add: s1)
  have hit: "munmap_hits p ?r" using p by (simp add: ri munmap_hits_def)
  have "j = i" if "j < MMAP_SLOTS" "munmap_hits p (g_mmaps s1 ! j)" for j
  proof (rule ccontr)
    assume "j \<noteq> i"
    then have "g_mmaps s1 ! j = g_mmaps s ! j" by (simp add: s1)
    with that alone ok(2) show False by (metis nth_mem)
  qed
  then have sc: "scan (\<lambda>i. munmap_hits p (g_mmaps s1 ! i)) 0 MMAP_SLOTS = Some i"
    by (rule scan_first [of "\<lambda>i. munmap_hits p (g_mmaps s1 ! i)", OF hit i(1)])
  let ?s2 = "munmap_slot p (p + page_up_size n) i s1"
  have mu: "bionic_munmap p n s1 = (Inr (), ?s2)"
    using p(1) lg(2,3) sc p(2) [THEN order.strict_implies_order]
    by (simp add: bionic_munmap_def Let_def not_less [symmetric])
  have sat: "sub_sat (g_mmap_backing_bytes s + pl_backing pl) (pl_backing pl) = g_mmap_backing_bytes s"
  proof -
    have "g_mmap_backing_bytes s \<le> g_mmap_backing_bytes s + pl_backing pl" using nowrap by (simp add: s1)
    then have "pl_backing pl \<le> g_mmap_backing_bytes s + pl_backing pl"
      by (simp add: no_olen_add no_olen_add' add.commute)
    then show ?thesis by (simp add: sub_sat_def)
  qed
  have same: "same_arena s s1" "used_set s1 = used_set s \<union> run_of_plan (Some pl)"
    "run_of_plan (Some pl) \<inter> used_set s = {}" "plan_ok s1 pl"
  proof -
    show sa: "same_arena s s1" using R P by (simp add: same_arena_def s1)
    show "used_set s1 = used_set s \<union> run_of_plan (Some pl)" using R P by (simp add: s1)
    show "run_of_plan (Some pl) \<inter> used_set s = {}" using R by simp
    have "same_arena sa s1" using R P by (simp add: same_arena_def s1)
    then show "plan_ok s1 pl" using R by (simp add: same_arenaD(3))
  qed
  have s2: "?s2 = (case pl_arena pl of None \<Rightarrow> free_block p (s1\<lparr>g_mmap_backing_bytes := g_mmap_backing_bytes s\<rparr>)
      | Some a \<Rightarrow> unity_arena_release_run a (if pl_count pl \<noteq> 0 then pl_count pl else 1)
          (s1\<lparr>g_mmap_backing_bytes := g_mmap_backing_bytes s\<rparr>))
        \<lparr>g_mmaps := (g_mmaps s)[i := zero_mmap_slot]\<rparr>"
    using sat by (simp add: munmap_slot_def Let_def ri) (simp add: s1 split: option.split)
  have "used_set ?s2 = used_set s \<and> g_mmap_backing_bytes ?s2 = g_mmap_backing_bytes s"
  proof (cases "pl_arena pl")
    case None
    with same(2) show ?thesis by (simp add: s2 run_of_plan_def)
  next
    case (Some a)
    then have a: "0 < pl_count pl" "a + pl_count pl \<le> g_unity_arena_slots s1"
      using same(4) by (auto simp: plan_ok_def)
    moreover have "arena_ok s1" using ok(1) same(1) by (simp add: same_arenaD)
    ultimately have "used_set ?s2 = used_set s1 - run_of_plan (Some pl)"
      using Some by (simp add: s2 release_run_used run_of_plan_def)
    then show ?thesis using same(2,3) Some a
      by (auto simp: s2 unity_arena_release_run_def)
  qed
  with mu i s2 show ?thesis
    by (intro exI [of _ i] exI [of _ ?s2]) (simp split: option.splits)
qed


text \<open>
  A mapping that fails, at whatever point, leaves the arena and the mapping table as they
  were: the run of slots it took is given back.
\<close>

theorem mmap_failure_clean:
  assumes "arena_ok s" "length (g_mmaps s) = MMAP_SLOTS"
    and "bionic_mmap n flags fd off fresh rs s = Some (Inl e, s')"
  shows "used_set s' = used_set s \<and> g_mmaps s' = g_mmaps s \<and> same_arena s s'"
proof -
  obtain r s1 where r: "mmap_reserve n flags fd off fresh s = (r, s1)" by fastforce
  show ?thesis
  proof (cases r)
    case (Inl e')
    with r assms(3) have "s' = s" by (auto simp: bionic_mmap_def dest: mmap_reserve_None)
    then show ?thesis by (simp add: same_arena_def)
  next
    case (Inr pl)
    note R = mmap_reserve_Some [OF assms(1) r [unfolded Inr]]
    then have "same_arena s s1" by simp
    with assms(1) have ok1: "arena_ok s1" by (simp add: same_arenaD)
    have given: "used_set s1 - run_of_plan (Some pl) = used_set s" using R by auto
    obtain q s2 where p: "mmap_populate pl rs s1 = Some (q, s2)"
      using assms(3) r Inr by (auto simp: bionic_mmap_def split: option.splits)
    show ?thesis
    proof (cases q)
      case (Inl e')
      with p r \<open>r = Inr pl\<close> assms(3) have "s' = s2" by (simp add: bionic_mmap_def)
      with mmap_populate_fail [OF ok1 _ p [unfolded Inl]] R given show ?thesis by (simp add: same_arena_def)
    next
      case (Inr u)
      note P = mmap_populate_ok [OF p [unfolded Inr]]
      have c: "mmap_commit pl s2 = (Inl e, s')" using p r \<open>r = Inr pl\<close> Inr assms(3) by (simp add: bionic_mmap_def)
      have "same_arena s1 s2" using P by simp
      with R ok1 have ok2: "arena_ok s2" "plan_ok s2 pl" by (simp_all add: same_arenaD)
      have "length (g_mmaps s2) = MMAP_SLOTS" using P R assms(2) by simp
      note mmap_commit_effect [OF ok2 this c]
      then have "s' = mmap_abandon pl s2" by simp
      with mmap_abandon_effect [OF ok2] P R given show ?thesis by (simp add: same_arena_def)
    qed
  qed
qed

text \<open>
  Trimming: when the guest unmaps the tail of a five-slot aligned reservation from its fourth
  slot on, the record keeps four slots, exactly the fifth is released, and the kept window is the
  one an unmap of the address still finds.
\<close>

theorem munmap_trims_window:
  assumes ok: "arena_ok s" "slot_ok s r" and r: "r = g_mmaps s ! i" "used r" "arena_index r = Some a"
    and size: "arena_count r = 5" "arena_keep_count r = 4" "live_lo r = base r"
    and hi: "live_hi r = base r + logical_size r" "live_hi r \<le> end0"
    and start: "start = base r + 0x10000000" "base r < start" "start < live_hi r"
    and i: "i < length (g_mmaps s)"
  shows "used_set (munmap_slot start end0 i s) = used_set s - {a + 4} \<and>
    (let r' = g_mmaps (munmap_slot start end0 i s) ! i in
       arena_count r' = 4 \<and> backing_size r' = 0x10000000 \<and> live_lo r' = base r \<and> live_hi r' = start \<and>
       munmap_hits (base r) r' \<and> run_of_slot r' = {a..<a + 4})"
proof -
  have keep: "of_nat (arena_keep_count r) * UNITY_DYNAMIC_REGION_BYTES = 0x10000000"
    by (simp add: size UNITY_DYNAMIC_REGION_BYTES_def)
  have b: "a + 5 \<le> g_unity_arena_slots s" using ok(2) r size by (simp add: slot_ok_def)
  have m: "munmap_slot start end0 i s = (unity_arena_release_run (a + 4) 1 s)\<lparr>g_mmaps := (g_mmaps s)[i :=
        r\<lparr>live_hi := start, arena_count := 4, backing_size := 0x10000000\<rparr>],
      g_mmap_backing_bytes := sub_sat (g_mmap_backing_bytes s) (backing_size r - 0x10000000)\<rparr>"
    using start hi size r(3) keep [unfolded size] unfolding munmap_slot_def Let_def r(1) [symmetric]
    by (auto simp: not_le unity_arena_release_run_def)
  have u: "used_set (unity_arena_release_run (a + 4) 1 s) = used_set s - {a + 4}"
  proof -
    have "{a + 4..<a + 4 + 1} = {a + 4}" by auto
    then show ?thesis using release_run_used [OF ok(1), of 1 "a + 4"] b by simp
  qed
  show ?thesis
    unfolding m Let_def using start i r(2,3) size u by (simp add: munmap_hits_def run_of_slot_def)
qed

text \<open>
  A window of 0x07fff000 bytes takes one slot of 64 MiB, but its live interval is recorded with its
  whole logical size, past the slot's end.  Until the guest trims it, the record also claims
  addresses of the next slot, whose holder may be another mapping.
\<close>

definition two_windows :: "mm option" where
  "two_windows =
     (case bionic_mmap 0x07fff000 0x22 (-1) 0 0 [] (bionic_set_mmap_arena 0x08000000 0x08000000 init_mm) of
        Some (Inr _, s1) \<Rightarrow>
          (case bionic_mmap 0x04000000 0x22 (-1) 0 0 [] s1 of Some (Inr _, s2) \<Rightarrow> Some s2 | _ \<Rightarrow> None)
      | _ \<Rightarrow> None)"

text \<open>
  Unmapping the second mapping (64 MiB at the second slot) succeeds but changes the record of
  the first, untrimmed window instead: the second mapping stays live and its slot stays taken.
\<close>

theorem untrimmed_window_steals_munmap:
  "map_option (\<lambda>s. map (\<lambda>r. (base r, live_lo r, live_hi r, used r)) (take 2 (g_mmaps s))) two_windows =
     Some [(0x08000000, 0x08000000, 0x0ffff000, True), (0x0c000000, 0x0c000000, 0x10000000, True)] \<and>
   map_option (\<lambda>s. let (r, s') = bionic_munmap 0x0c000000 0x04000000 s
       in (r, g_unity_arena_used s', map (\<lambda>r. (base r, live_lo r, live_hi r, used r)) (take 2 (g_mmaps s'))))
     two_windows =
     Some (Inr (), 3, [(0x08000000, 0x08000000, 0x0c000000, True),
                       (0x0c000000, 0x0c000000, 0x10000000, True)])"
  by code_simp


section \<open>Witnesses\<close>

definition arena0 :: mm where
  "arena0 = bionic_set_mmap_arena 0x08000000 0x20000000 init_mm"

lemma arena0_ok: "arena_ok arena0" "length (g_mmaps arena0) = MMAP_SLOTS"
  by (simp add: arena0_def arena_ok_set) (simp add: arena0_def bionic_set_mmap_arena_def init_mm_def Let_def)

lemma arena0_free: "\<forall>r\<in>set (g_mmaps arena0). \<not> munmap_hits p r"
  by (simp add: arena0_def bionic_set_mmap_arena_def init_mm_def Let_def munmap_hits_def zero_mmap_slot_def)

definition map256 :: "(u64 result \<times> mm) option" where
  "map256 = bionic_mmap 0x13fff000 0x22 (-1) 0 0 [] arena0"

lemma case_Some_Inr:
  "(case x of Some (Inr p, s) \<Rightarrow> P p s | _ \<Rightarrow> False) \<Longrightarrow> \<exists>p s. x = Some (Inr p, s) \<and> P p s"
  by (auto split: option.splits prod.splits sum.splits)

lemma map256_eval:
  "map_option (\<lambda>(r, s). (r, g_mmap_backing_bytes s, g_unity_arena_used s,
      g_unity_arena_slots s, g_unity_arena_base s,
      map (\<lambda>r. (arena_index r, arena_count r, arena_keep_count r, live_lo r, live_hi r, logical_size r,
        base r, used r)) (take 1 (g_mmaps s)))) map256 =
     Some (Inr 0x08000000, 0x14000000, 31, 8, 0x08000000,
       [(Some 0, 5, 4, 0x08000000, 0x1bfff000, 0x13fff000, 0x08000000, True)])"
  by code_simp

theorem arena_ownership_exact_witness:
  "\<exists>S. mstep\<^sup>*\<^sup>* (start_msys 0x08000000 0x20000000) S \<and> bit (g_unity_arena_used (mtab S)) 0 \<and>
     (\<exists>x. (0::nat) \<in> owner_runs S x)"
proof -
  have e: "case mmap_reserve 0x13fff000 0x22 (-1) 0 0 arena0 of
      (Inr pl, s') \<Rightarrow> g_unity_arena_used s' = 31 | _ \<Rightarrow> False" by code_simp
  obtain pl s' where r: "mmap_reserve 0x13fff000 0x22 (-1) 0 0 arena0 = (Inr pl, s')"
    and u: "g_unity_arena_used s' = 31" using e by (auto split: prod.splits sum.splits)
  let ?A = "start_msys 0x08000000 0x20000000"
  let ?B = "set_sys 0 (Some pl) s' ?A"
  have i: "inflight ?A 0 = None" and r': "mmap_reserve 0x13fff000 0x22 (-1) 0 0 (mtab ?A) = (Inr pl, s')"
    using r by (simp_all add: start_msys_def arena0_def)
  have "mstep ?A ?B" by (rule mstep.reserve [OF i r'])
  then have st: "mstep\<^sup>*\<^sup>* ?A ?B" by blast
  have b: "bit (g_unity_arena_used (mtab ?B)) 0" by (simp add: set_sys_def u bit_numeral_rec)
  with arena_ownership_exact [OF st] st show ?thesis by blast
qed


theorem mmap_munmap_roundtrip_witness:
  "\<exists>p s1 i s2. bionic_mmap 0x13fff000 0x22 (-1) 0 0 [] arena0 = Some (Inr p, s1) \<and>
     used_set s1 \<noteq> used_set arena0 \<and> bionic_munmap p 0x13fff000 s1 = (Inr (), s2) \<and>
     g_mmaps s2 = (g_mmaps arena0)[i := zero_mmap_slot] \<and> used_set s2 = used_set arena0"
proof -
  obtain s1 where m: "bionic_mmap 0x13fff000 0x22 (-1) 0 0 [] arena0 = Some (Inr 0x08000000, s1)"
    and b: "g_mmap_backing_bytes s1 = 0x14000000" "g_unity_arena_used s1 = 31"
    using map256_eval by (auto simp: map256_def)
  have z: "g_mmap_backing_bytes arena0 = 0" "g_unity_arena_used arena0 = 0" by code_simp+
  have "(0::nat) \<in> used_set s1" "0 \<notin> used_set arena0" using b z by (simp_all add: used_set_def bit_numeral_rec)
  moreover have pg: "page_up_size 0x13fff000 = 0x13fff000" by code_simp
  note mmap_munmap_roundtrip [OF arena0_ok m _ _ arena0_free]
  then obtain i s2 where "bionic_munmap 0x08000000 0x13fff000 s1 = (Inr (), s2)"
    "g_mmaps s2 = (g_mmaps arena0)[i := zero_mmap_slot]" "used_set s2 = used_set arena0"
    by (auto simp: pg b z)
  ultimately show ?thesis using m by blast
qed

theorem mmap_failure_clean_witness:
  "\<exists>s'. bionic_mmap 5 2 7 0 0x1000 [Inl EIO] arena0 = Some (Inl EIO, s') \<and>
     used_set s' = used_set arena0"
proof -
  have e: "case bionic_mmap 5 2 7 0 0x1000 [Inl EIO] arena0 of
      Some (Inl er, s') \<Rightarrow> er = EIO | _ \<Rightarrow> False" by code_simp
  obtain s' where m: "bionic_mmap 5 2 7 0 0x1000 [Inl EIO] arena0 = Some (Inl EIO, s')"
    using e by (auto split: option.splits prod.splits sum.splits)
  with mmap_failure_clean [OF arena0_ok m] show ?thesis by blast
qed

theorem munmap_trims_window_witness:
  "\<exists>s. used_set s = {..<5} \<and>
     used_set (munmap_slot 0x18000000 0x1c000000 0 s) = used_set s - {4}"
proof -
  obtain s :: mm where u: "g_unity_arena_used s = 31" and ar: "g_unity_arena_slots s = 8" "g_unity_arena_base s = 0x08000000"
    and r: "map (\<lambda>r. (arena_index r, arena_count r, arena_keep_count r, live_lo r, live_hi r, logical_size r,
        base r, used r)) (take 1 (g_mmaps s)) =
       [(Some 0, 5, 4, 0x08000000, 0x1bfff000, 0x13fff000, 0x08000000, True)]"
    using map256_eval by (cases map256) auto
  obtain r1 rest where g: "g_mmaps s = r1 # rest" using r by (cases "g_mmaps s") auto
  have len: "0 < length (g_mmaps s)" by (simp add: g)
  have r0: "arena_index (g_mmaps s ! 0) = Some 0" "arena_count (g_mmaps s ! 0) = 5"
    "arena_keep_count (g_mmaps s ! 0) = 4" "live_lo (g_mmaps s ! 0) = 0x08000000"
    "live_hi (g_mmaps s ! 0) = 0x1bfff000" "logical_size (g_mmaps s ! 0) = 0x13fff000"
    "base (g_mmaps s ! 0) = 0x08000000" "used (g_mmaps s ! 0)"
    using r by (simp_all add: g)
  have ok: "arena_ok s" "slot_ok s (g_mmaps s ! 0)"
    by (simp_all add: r0 ar arena_ok_def slot_ok_def slot_addr_def UNITY_ARENA_MAX_SLOTS_def)
  have mk: "(31 :: u64) = mask 5" by (simp add: mask_eq_exp_minus_1)
  have "used_set s = {..<5}" unfolding used_set_def u mk bit_mask_iff by auto
  moreover have "used_set (munmap_slot 0x18000000 0x1c000000 0 s) = used_set s - {0 + 4}"
    by (rule munmap_trims_window [OF ok refl r0(8,1,2,3), THEN conjunct1]) (simp_all add: r0 len del: length_greater_0_conv)
  ultimately show ?thesis by (intro exI [of _ s]) simp
qed

end
