(* ===== verification/SyncSlots.thy ===== *)
theory SyncSlots
  imports Prelude
begin

text \<open>
  The registry of \<^verbatim>\<open>source/bionic.c\<close> that gives every guest mutex, condition variable and
  semaphore (by address and kind) a slot with the host objects behind it.  The host's own mutex
  (\<^verbatim>\<open>Mutex\<close> of libnx) is not part of the sources: a \<open>host_mutex\<close> record of its operations is a
  parameter of every definition that uses it, and \<open>host_mutex_ok\<close> states what the code relies on.
\<close>

section \<open>The host's mutex\<close>

record 'm host_mutex =
  mutexInit :: 'm
  mutexTryLock :: "nat \<Rightarrow> 'm \<Rightarrow> bool \<times> 'm"
  mutexUnlock :: "nat \<Rightarrow> 'm \<Rightarrow> 'm"
  holder :: "'m \<Rightarrow> nat option"

text \<open>
  A mutex is created free, is taken by \<^verbatim>\<open>mutexTryLock\<close> exactly when it is free, and is freed
  by the \<^verbatim>\<open>mutexUnlock\<close> of its holder.  A blocking \<^verbatim>\<open>mutexLock\<close> returns when its attempt
  succeeds, so it is a step that waits for a successful \<open>mutexTryLock\<close>.
\<close>

definition host_mutex_ok :: "'m host_mutex \<Rightarrow> bool" where
  "host_mutex_ok H \<longleftrightarrow> holder H (mutexInit H) = None \<and>
     (\<forall>t m. holder H m = None \<longrightarrow> fst (mutexTryLock H t m) \<and> holder H (snd (mutexTryLock H t m)) = Some t) \<and>
     (\<forall>t m. holder H m \<noteq> None \<longrightarrow> mutexTryLock H t m = (False, m)) \<and>
     (\<forall>t m. holder H m = Some t \<longrightarrow> holder H (mutexUnlock H t m) = None)"

lemma host_mutexD:
  assumes "host_mutex_ok H"
  shows "holder H (mutexInit H) = None"
    and "holder H m = None \<Longrightarrow> fst (mutexTryLock H t m) \<and> holder H (snd (mutexTryLock H t m)) = Some t"
    and "holder H m \<noteq> None \<Longrightarrow> mutexTryLock H t m = (False, m)"
    and "holder H m = Some t \<Longrightarrow> holder H (mutexUnlock H t m) = None"
  using assms by (auto simp: host_mutex_ok_def)

lemma try_lock_cases:
  assumes "host_mutex_ok H" and "mutexTryLock H t m = (b, m')"
  shows "b = (holder H m = None) \<and> (b \<longrightarrow> holder H m' = Some t) \<and> (\<not> b \<longrightarrow> m' = m)"
  using host_mutexD(2,3) [OF assms(1), of m t] assms(2) by (cases "holder H m = None") auto

text \<open>A concrete host mutex, for the witnesses.\<close>

definition simple_mutex :: "nat option host_mutex" where
  "simple_mutex = \<lparr>mutexInit = None,
     mutexTryLock = (\<lambda>t m. if m = None then (True, Some t) else (False, m)),
     mutexUnlock = (\<lambda>t m. if m = Some t then None else m), holder = (\<lambda>m. m)\<rparr>"

lemma simple_mutex_ok: "host_mutex_ok simple_mutex"
  by (simp add: host_mutex_ok_def simple_mutex_def)

section \<open>The slots\<close>

definition SYNC_SLOTS :: nat where "SYNC_SLOTS = 2048"

datatype mutex_kind = BIONIC_MUTEX_NORMAL | BIONIC_MUTEX_RECURSIVE | BIONIC_MUTEX_ERRORCHECK

record 'm sync_slot =
  sl_key :: u64
  sl_used :: bool
  sl_kind :: nat
  sl_m :: 'm
  sl_count :: u32
  sl_type :: mutex_kind
  sl_type_known :: bool
  sl_owner :: nat
  sl_depth :: u32
  sl_clock :: nat

type_synonym 'm slots = "'m sync_slot list"

definition fresh_slot :: "'m host_mutex \<Rightarrow> u64 \<Rightarrow> nat \<Rightarrow> 'm sync_slot" where
  "fresh_slot H k kind = \<lparr>sl_key = k, sl_used = True, sl_kind = kind, sl_m = mutexInit H, sl_count = 0,
     sl_type = BIONIC_MUTEX_NORMAL, sl_type_known = False, sl_owner = 0, sl_depth = 0, sl_clock = 0\<rparr>"

definition init_slots :: "'m host_mutex \<Rightarrow> 'm slots" where
  "init_slots H = replicate SYNC_SLOTS ((fresh_slot H 0 0)\<lparr>sl_used := False\<rparr>)"

definition slot_hit :: "u64 \<Rightarrow> nat \<Rightarrow> 'm sync_slot \<Rightarrow> bool" where
  "slot_hit k kind r \<longleftrightarrow> sl_used r \<and> sl_key r = k \<and> sl_kind r = kind"

definition slot_find :: "'m slots \<Rightarrow> u64 \<times> nat \<Rightarrow> nat option" where
  "slot_find s x = scan (\<lambda>i. slot_hit (fst x) (snd x) (s ! i)) 0 SYNC_SLOTS"

definition slot_get :: "'m host_mutex \<Rightarrow> u64 \<Rightarrow> nat \<Rightarrow> bool \<Rightarrow> 'm slots \<Rightarrow> nat option \<times> 'm slots" where
  "slot_get H k kind create s =
     (case scan (\<lambda>i. slot_hit k kind (s ! i)) 0 SYNC_SLOTS of
        Some i \<Rightarrow> (Some i, s)
      | None \<Rightarrow>
          (case scan (\<lambda>i. \<not> sl_used (s ! i)) 0 SYNC_SLOTS of
             Some i \<Rightarrow> if create then (Some i, s[i := fresh_slot H k kind]) else (None, s)
           | None \<Rightarrow> (None, s)))"

definition slot_release :: "u64 \<Rightarrow> nat \<Rightarrow> 'm slots \<Rightarrow> 'm slots" where
  "slot_release k kind s =
     (if k = 0 then s
      else case scan (\<lambda>i. slot_hit k kind (s ! i)) 0 SYNC_SLOTS of
             Some i \<Rightarrow> s[i := (s ! i)\<lparr>sl_used := False, sl_key := 0\<rparr>]
           | None \<Rightarrow> s)"

definition slots_ok :: "'m slots \<Rightarrow> bool" where
  "slots_ok s \<longleftrightarrow> length s = SYNC_SLOTS \<and>
     (\<forall>i<SYNC_SLOTS. \<forall>j<SYNC_SLOTS. \<forall>k kind. slot_hit k kind (s ! i) \<and> slot_hit k kind (s ! j) \<longrightarrow> i = j)"

lemma slot_find_iff:
  assumes "slots_ok s"
  shows "slot_find s x = Some i \<longleftrightarrow> i < SYNC_SLOTS \<and> slot_hit (fst x) (snd x) (s ! i)"
  using assms by (auto simp: slot_find_def scan_Some_iff slots_ok_def)
    (metis less_trans nat_neq_iff)

lemma slot_find_None:
  "slot_find s x = None \<longleftrightarrow> (\<forall>i<SYNC_SLOTS. \<not> slot_hit (fst x) (snd x) (s ! i))"
  by (auto simp: slot_find_def scan_None_iff)

lemma slot_find_eqI:
  assumes "slots_ok s" and "slots_ok s'"
    and "\<And>i. i < SYNC_SLOTS \<Longrightarrow> slot_hit (fst x) (snd x) (s' ! i) = slot_hit (fst x) (snd x) (s ! i)"
  shows "slot_find s' x = slot_find s x"
  unfolding slot_find_def using assms(3) by (intro scan_cong) simp

lemma slot_hit_fresh [simp]: "slot_hit k kind (fresh_slot H k' kind') \<longleftrightarrow> k = k' \<and> kind = kind'"
  by (auto simp: slot_hit_def fresh_slot_def)

lemma slot_hit_cleared [simp]: "\<not> slot_hit k kind (r\<lparr>sl_used := False, sl_key := c\<rparr>)"
  by (simp add: slot_hit_def)

lemma slot_get_cases:
  assumes "slots_ok s"
  obtains (hit) i where "slot_find s (k, kind) = Some i" "slot_get H k kind c s = (Some i, s)"
  | (new) i where "slot_find s (k, kind) = None" "i < SYNC_SLOTS" "\<not> sl_used (s ! i)" "c"
      "slot_get H k kind c s = (Some i, s[i := fresh_slot H k kind])"
  | (none) "slot_find s (k, kind) = None" "slot_get H k kind c s = (None, s)"
proof (cases "slot_find s (k, kind)")
  case None
  show ?thesis
  proof (cases "c \<and> scan (\<lambda>i. \<not> sl_used (s ! i)) 0 SYNC_SLOTS \<noteq> None")
    case True
    then obtain i where "scan (\<lambda>i. \<not> sl_used (s ! i)) 0 SYNC_SLOTS = Some i" by auto
    with True None new [of i] show ?thesis
      by (auto simp: slot_get_def slot_find_def dest: scan_SomeD)
  next
    case False
    with None none show ?thesis by (auto simp: slot_get_def slot_find_def split: option.splits)
  qed
next
  case (Some i)
  with hit [of i] show ?thesis by (simp add: slot_get_def slot_find_def)
qed

lemma slots_ok_create:
  assumes "slots_ok s" and "slot_find s (k, kind) = None" and "i < SYNC_SLOTS" and "\<not> sl_used (s ! i)"
  shows "slots_ok (s[i := fresh_slot H k kind])"
  using assms by (auto simp: slots_ok_def slot_find_None nth_list_update)

lemma slot_get_ok:
  assumes "slots_ok s"
  shows "slots_ok (snd (slot_get H k kind c s))"
  using assms by (rule slot_get_cases [of s k kind H c]) (simp_all add: assms slots_ok_create)

lemma slot_release_hit:
  assumes ok: "slots_ok s" and j: "j < SYNC_SLOTS"
  shows "slot_hit q kd (slot_release k kind s ! j) \<longleftrightarrow>
    slot_hit q kd (s ! j) \<and> \<not> (k \<noteq> 0 \<and> q = k \<and> kd = kind)"
proof (cases "k = 0 \<or> slot_find s (k, kind) = None")
  case True
  then have "slot_release k kind s = s" by (auto simp: slot_release_def slot_find_def)
  with True j show ?thesis by (auto simp: slot_find_None)
next
  case False
  then obtain i where i: "slot_find s (k, kind) = Some i" "k \<noteq> 0" by auto
  then have s': "slot_release k kind s = s[i := (s ! i)\<lparr>sl_used := False, sl_key := 0\<rparr>]"
    by (simp add: slot_release_def slot_find_def)
  have h: "i < SYNC_SLOTS" "slot_hit k kind (s ! i)" using i slot_find_iff [OF ok] by auto
  have len: "length s = SYNC_SLOTS" using ok by (simp add: slots_ok_def)
  show ?thesis
  proof (cases "j = i")
    case True
    with h len i(2) show ?thesis by (auto simp: s' slot_hit_def)
  next
    case False
    then have "\<not> slot_hit k kind (s ! j)" using ok h j by (auto simp: slots_ok_def)
    with False show ?thesis by (auto simp: s')
  qed
qed

lemma length_slot_release [simp]: "length (slot_release k kind s) = length s"
  by (simp add: slot_release_def split: option.split)

lemma slot_release_ok:
  assumes "slots_ok s"
  shows "slots_ok (slot_release k kind s)"
proof -
  have "i = j" if "i < SYNC_SLOTS" "j < SYNC_SLOTS" "slot_hit q kd (slot_release k kind s ! i)"
    "slot_hit q kd (slot_release k kind s ! j)" for i j q kd
    using assms that slot_release_hit [OF assms] unfolding slots_ok_def by metis
  with assms show ?thesis unfolding slots_ok_def by auto
qed

lemma slot_create_hit:
  assumes "slots_ok s" and "i < SYNC_SLOTS" and "\<not> sl_used (s ! i)" and "(q, kd) \<noteq> (k, kind)"
  shows "slot_hit q kd (s[i := fresh_slot H k kind] ! j) = slot_hit q kd (s ! j)"
proof (cases "j = i")
  case True
  have "\<not> slot_hit q kd (s ! i)" using assms(3) by (simp add: slot_hit_def)
  moreover have "s[i := fresh_slot H k kind] ! j = fresh_slot H k kind"
    using assms(1,2) True by (simp add: slots_ok_def)
  ultimately show ?thesis using assms(4) True by auto
qed simp

lemma slot_get_found:
  assumes "slots_ok s" and "slot_get H k kind c s = (Some i, s')"
  shows "slots_ok s' \<and> i < SYNC_SLOTS \<and> slot_hit k kind (s' ! i) \<and> slot_find s' (k, kind) = Some i \<and>
    length s' = SYNC_SLOTS"
proof -
  have ok: "slots_ok s'" using slot_get_ok [OF assms(1), of H k kind c] assms(2) by simp
  have "i < SYNC_SLOTS \<and> slot_hit k kind (s' ! i)"
    using assms(1)
  proof (cases rule: slot_get_cases [of s k kind H c])
    case (hit j)
    with assms(2) have "slot_find s (k, kind) = Some i" "s' = s" by auto
    with slot_find_iff [OF assms(1)] show ?thesis by simp
  next
    case (new j)
    with assms have "j = i" "s' = s[i := fresh_slot H k kind]" "length s = SYNC_SLOTS" by (auto simp: slots_ok_def)
    with new(2) show ?thesis by simp
  next
    case none
    with assms(2) show ?thesis by simp
  qed
  with ok show ?thesis by (simp add: slot_find_iff) (simp add: slots_ok_def)
qed

lemma init_slots_ok: "slots_ok (init_slots H)"
  by (simp add: slots_ok_def init_slots_def slot_hit_def)

interpretation sync: releasable_registry slot_find slots_ok
  "\<lambda>(k, kind) s. slot_get H k kind True s" "\<lambda>(k, kind). slot_release k kind" "\<lambda>(k, kind). k \<noteq> 0"
  for H :: "'m host_mutex"
proof (unfold_locales, goal_cases)
  case (1 s k i k')
  then show ?case by (auto simp: slot_find_iff slot_hit_def prod_eq_iff)
next
  case (2 s x i)
  then show ?case by (cases x) (simp add: slot_get_def slot_find_def)
next
  case (3 s x i s')
  then show ?case by (cases x) (simp add: slot_get_found)
next
  case (4 s x s')
  then show ?case by (cases x) (auto simp: slot_get_def slot_find_def split: option.splits if_splits)
next
  case (5 s x' x)
  obtain k kind where x: "x = (k, kind)" by (cases x)
  show ?case using 5(1)
  proof (cases rule: slot_get_cases [of s k kind H True])
    case (new i)
    have "slot_find (s[i := fresh_slot H k kind]) x' = slot_find s x'"
      using 5(2) x slot_create_hit [OF 5(1) new(2,3), of "fst x'" "snd x'" k kind H]
      by (intro slot_find_eqI [OF 5(1) slots_ok_create [OF 5(1) new(1-3)]]) (simp add: prod_eq_iff)
    with new x show ?thesis by simp
  qed (simp_all add: x)
next
  case (6 s x)
  then show ?case by (cases x) (simp add: slot_get_ok)
next
  case (7 s x)
  then obtain k kind where x: "x = (k, kind)" "k \<noteq> 0" by (cases x) auto
  show ?case
  proof (cases "slot_find s x")
    case None
    then show ?thesis by (simp add: x slot_release_def slot_find_def)
  next
    case (Some i)
    have "\<not> slot_hit k kind (slot_release k kind s ! j)" if "j < SYNC_SLOTS" for j
      using slot_release_hit [OF 7(1) that] x(2) by simp
    then show ?thesis by (simp add: x slot_find_None)
  qed
next
  case (8 s x' x)
  obtain k kind where x: "x = (k, kind)" by (cases x)
  have "slot_find (slot_release k kind s) x' = slot_find s x'"
    using 8(2) x slot_release_hit [OF 8(1), of _ "fst x'" "snd x'" k kind]
    by (intro slot_find_eqI [OF 8(1) slot_release_ok [OF 8(1)]]) (auto simp: prod_eq_iff)
  then show ?case by (simp add: x)
next
  case (9 s x)
  then show ?case by (cases x) (simp add: slot_release_ok)
qed

end
