(* ===== verification/EMutex.thy ===== *)
theory EMutex
  imports SyncSlots
begin

text \<open>
  The emulated mutexes of \<^verbatim>\<open>source/bionic.c\<close>: normal, recursive and error-checking mutexes on one
  host mutex each, their use by condition waits, and the step relation of any number of threads
  over them.  A call returns \<open>Inr ()\<close> for 0 and \<open>Inl e\<close> for an error number.
\<close>

section \<open>Types and initialisation\<close>

definition mutex_kind_of :: "u64 \<Rightarrow> mutex_kind option" where
  "mutex_kind_of t = (if t = 0 then Some BIONIC_MUTEX_NORMAL
     else if t = 1 then Some BIONIC_MUTEX_RECURSIVE
     else if t = 2 then Some BIONIC_MUTEX_ERRORCHECK else None)"

text \<open>\<open>a\<close> is the attribute word, if the pointer is not null.\<close>

definition bionic_mutex_type_from_attr :: "u64 option \<Rightarrow> mutex_kind result" where
  "bionic_mutex_type_from_attr a =
     (case mutex_kind_of ((case a of None \<Rightarrow> 0 | Some attr \<Rightarrow> attr) AND 0x0f) of
        None \<Rightarrow> Inl EINVAL | Some t \<Rightarrow> Inr t)"

text \<open>\<open>v\<close> is the 32-bit word at the guest's mutex.\<close>

definition bionic_mutex_detect_static_type :: "u64 \<Rightarrow> u32 \<Rightarrow> 'm sync_slot \<Rightarrow> 'm sync_slot" where
  "bionic_mutex_detect_static_type k v r =
     (if k = 0 \<or> sl_type_known r then r
      else let t = drop_bit 14 v AND 3
           in r\<lparr>sl_type := (if t = 1 then BIONIC_MUTEX_RECURSIVE
                           else if t = 2 then BIONIC_MUTEX_ERRORCHECK else BIONIC_MUTEX_NORMAL),
                sl_type_known := True\<rparr>)"

definition bionic_pthread_mutex_init ::
  "'m host_mutex \<Rightarrow> u64 \<Rightarrow> u64 option \<Rightarrow> 'm slots \<Rightarrow> unit result \<times> 'm slots" where
  "bionic_pthread_mutex_init H k a s =
     (if k = 0 then (Inl EINVAL, s)
      else case bionic_mutex_type_from_attr a of
        Inl e \<Rightarrow> (Inl e, s)
      | Inr t \<Rightarrow>
          (case slot_get H k 1 True s of
             (None, s1) \<Rightarrow> (Inl ENOMEM, s1)
           | (Some i, s1) \<Rightarrow>
               (Inr (), s1[i := (s1 ! i)\<lparr>sl_type := t, sl_type_known := True, sl_owner := 0,
                                          sl_depth := 0\<rparr>])))"

definition bionic_pthread_mutex_destroy :: "u64 \<Rightarrow> 'm slots \<Rightarrow> unit result \<times> 'm slots" where
  "bionic_pthread_mutex_destroy k s = (Inr (), slot_release k 1 s)"

section \<open>Locking and unlocking\<close>

text \<open>
  A lock returns, or it blocks in \<^verbatim>\<open>mutexLock\<close> of the slot; the flag says whether the thread
  records itself as the owner when it gets the host mutex.
\<close>

datatype lock_outcome = Returned "unit result" | Blocked nat bool

definition own :: "nat \<Rightarrow> 'm \<Rightarrow> 'm sync_slot \<Rightarrow> 'm sync_slot" where
  "own tid m r = r\<lparr>sl_m := m, sl_depth := 1, sl_owner := tid\<rparr>"

text \<open>The part that the lock and the try-lock of an owned mutex share: the owner's re-entry.\<close>

definition reenter :: "'m sync_slot \<Rightarrow> unit result \<times> 'm sync_slot" where
  "reenter r =
     (if sl_type r = BIONIC_MUTEX_ERRORCHECK then (Inl EDEADLK, r)
      else if sl_depth r = - 1 then (Inl EAGAIN, r)
      else (Inr (), r\<lparr>sl_depth := sl_depth r + 1\<rparr>))"

definition lock_slot :: "'m host_mutex \<Rightarrow> nat \<Rightarrow> nat \<Rightarrow> 'm sync_slot \<Rightarrow> lock_outcome \<times> 'm sync_slot" where
  "lock_slot H tid i r =
     (if sl_type r = BIONIC_MUTEX_NORMAL then
        (case mutexTryLock H tid (sl_m r) of
           (True, m) \<Rightarrow> (Returned (Inr ()), r\<lparr>sl_m := m\<rparr>)
         | (False, _) \<Rightarrow> (Blocked i False, r))
      else if sl_owner r = tid then (case reenter r of (rc, r') \<Rightarrow> (Returned rc, r'))
      else
        (case mutexTryLock H tid (sl_m r) of
           (True, m) \<Rightarrow> (Returned (Inr ()), own tid m r)
         | (False, _) \<Rightarrow> (Blocked i True, r)))"

definition trylock_slot :: "'m host_mutex \<Rightarrow> nat \<Rightarrow> 'm sync_slot \<Rightarrow> unit result \<times> 'm sync_slot" where
  "trylock_slot H tid r =
     (if sl_type r = BIONIC_MUTEX_NORMAL then
        (case mutexTryLock H tid (sl_m r) of
           (True, m) \<Rightarrow> (Inr (), r\<lparr>sl_m := m\<rparr>) | (False, _) \<Rightarrow> (Inl EBUSY, r))
      else if sl_owner r = tid then reenter r
      else
        (case mutexTryLock H tid (sl_m r) of
           (True, m) \<Rightarrow> (Inr (), own tid m r) | (False, _) \<Rightarrow> (Inl EBUSY, r)))"

definition unlock_slot :: "'m host_mutex \<Rightarrow> nat \<Rightarrow> 'm sync_slot \<Rightarrow> unit result \<times> 'm sync_slot" where
  "unlock_slot H tid r =
     (if sl_type r = BIONIC_MUTEX_NORMAL then (Inr (), r\<lparr>sl_m := mutexUnlock H tid (sl_m r)\<rparr>)
      else if sl_owner r \<noteq> tid \<or> sl_depth r = 0 then (Inl EPERM, r)
      else if 1 < sl_depth r then (Inr (), r\<lparr>sl_depth := sl_depth r - 1\<rparr>)
      else (Inr (), r\<lparr>sl_depth := 0, sl_owner := 0, sl_m := mutexUnlock H tid (sl_m r)\<rparr>))"

definition bionic_pthread_mutex_lock ::
  "'m host_mutex \<Rightarrow> nat \<Rightarrow> u64 \<Rightarrow> u32 \<Rightarrow> 'm slots \<Rightarrow> lock_outcome \<times> 'm slots" where
  "bionic_pthread_mutex_lock H tid k v s =
     (case slot_get H k 1 True s of
        (None, s1) \<Rightarrow> (Returned (Inl ENOMEM), s1)
      | (Some i, s1) \<Rightarrow>
          (case lock_slot H tid i (bionic_mutex_detect_static_type k v (s1 ! i)) of
             (out, r) \<Rightarrow> (out, s1[i := r])))"

text \<open>A blocked lock goes on when its \<^verbatim>\<open>mutexLock\<close> succeeds; \<open>None\<close> while it cannot.\<close>

definition mutex_lock_resume :: "'m host_mutex \<Rightarrow> nat \<Rightarrow> bool \<Rightarrow> 'm sync_slot \<Rightarrow> 'm sync_slot option" where
  "mutex_lock_resume H tid owned r =
     (case mutexTryLock H tid (sl_m r) of
        (True, m) \<Rightarrow> Some (if owned then own tid m r else r\<lparr>sl_m := m\<rparr>)
      | (False, _) \<Rightarrow> None)"

definition bionic_pthread_mutex_trylock ::
  "'m host_mutex \<Rightarrow> nat \<Rightarrow> u64 \<Rightarrow> u32 \<Rightarrow> 'm slots \<Rightarrow> unit result \<times> 'm slots" where
  "bionic_pthread_mutex_trylock H tid k v s =
     (case slot_get H k 1 True s of
        (None, s1) \<Rightarrow> (Inl ENOMEM, s1)
      | (Some i, s1) \<Rightarrow>
          (case trylock_slot H tid (bionic_mutex_detect_static_type k v (s1 ! i)) of
             (rc, r) \<Rightarrow> (rc, s1[i := r])))"

definition bionic_pthread_mutex_unlock ::
  "'m host_mutex \<Rightarrow> nat \<Rightarrow> u64 \<Rightarrow> 'm slots \<Rightarrow> unit result \<times> 'm slots" where
  "bionic_pthread_mutex_unlock H tid k s =
     (case slot_get H k 1 False s of
        (None, s1) \<Rightarrow> (Inl EINVAL, s1)
      | (Some i, s1) \<Rightarrow> (case unlock_slot H tid (s1 ! i) of (rc, r) \<Rightarrow> (rc, s1[i := r])))"

text \<open>Read-write locks are mutexes: readers exclude each other too.\<close>

definition bionic_pthread_rwlock_init ::
  "'m host_mutex \<Rightarrow> u64 \<Rightarrow> u64 option \<Rightarrow> 'm slots \<Rightarrow> unit result \<times> 'm slots" where
  "bionic_pthread_rwlock_init H k a s = bionic_pthread_mutex_init H k None s"

definition bionic_pthread_rwlock_rdlock ::
  "'m host_mutex \<Rightarrow> nat \<Rightarrow> u64 \<Rightarrow> u32 \<Rightarrow> 'm slots \<Rightarrow> lock_outcome \<times> 'm slots" where
  "bionic_pthread_rwlock_rdlock = bionic_pthread_mutex_lock"

definition bionic_pthread_rwlock_wrlock ::
  "'m host_mutex \<Rightarrow> nat \<Rightarrow> u64 \<Rightarrow> u32 \<Rightarrow> 'm slots \<Rightarrow> lock_outcome \<times> 'm slots" where
  "bionic_pthread_rwlock_wrlock = bionic_pthread_mutex_lock"

definition bionic_pthread_rwlock_unlock ::
  "'m host_mutex \<Rightarrow> nat \<Rightarrow> u64 \<Rightarrow> 'm slots \<Rightarrow> unit result \<times> 'm slots" where
  "bionic_pthread_rwlock_unlock = bionic_pthread_mutex_unlock"

section \<open>The mutex side of a condition wait\<close>

text \<open>
  \<^verbatim>\<open>bionic_cond_wait_bridge\<close> up to the sleep and from the wake-up on.  A mutex held once is given
  up for the sleep; one held more than once is kept, with one level less, and the thread sleeps
  on the condition's own host mutex.
\<close>

datatype wait_mode = WaitNormal | WaitOwned | WaitNested

definition cond_wait_begin :: "'m host_mutex \<Rightarrow> nat \<Rightarrow> 'm sync_slot \<Rightarrow> (wait_mode \<times> 'm sync_slot) option" where
  "cond_wait_begin H tid r =
     (if sl_type r = BIONIC_MUTEX_NORMAL
      then Some (WaitNormal, r\<lparr>sl_m := mutexUnlock H tid (sl_m r)\<rparr>)
      else if sl_owner r \<noteq> tid \<or> sl_depth r = 0 then None
      else if sl_depth r = 1
      then Some (WaitOwned, r\<lparr>sl_depth := 0, sl_owner := 0, sl_m := mutexUnlock H tid (sl_m r)\<rparr>)
      else Some (WaitNested, r\<lparr>sl_depth := sl_depth r - 1\<rparr>))"

definition cond_wait_end :: "'m host_mutex \<Rightarrow> nat \<Rightarrow> wait_mode \<Rightarrow> 'm sync_slot \<Rightarrow> 'm sync_slot option" where
  "cond_wait_end H tid w r =
     (case w of
        WaitNormal \<Rightarrow> mutex_lock_resume H tid False r
      | WaitOwned \<Rightarrow> mutex_lock_resume H tid True r
      | WaitNested \<Rightarrow> Some (r\<lparr>sl_depth := sl_depth r + 1\<rparr>))"

text \<open>
  The condition's own host mutex in a nested wait: taken, and given up by the sleep, or taken
  again by the wake-up and given up by the code; \<open>None\<close> while another thread has it.
\<close>

definition nested_pass :: "'m host_mutex \<Rightarrow> nat \<Rightarrow> 'm sync_slot \<Rightarrow> 'm sync_slot option" where
  "nested_pass H tid c =
     (case mutexTryLock H tid (sl_m c) of
        (True, m) \<Rightarrow> Some (c\<lparr>sl_m := mutexUnlock H tid m\<rparr>) | (False, _) \<Rightarrow> None)"

section \<open>One slot and its holders\<close>

text \<open>
  \<open>h t\<close> is the number of levels thread \<open>t\<close> holds: the locks that returned success and are not
  yet undone.  Each operation of a slot keeps the relation between the record and \<open>h\<close>.
\<close>

definition emutex_inv :: "'m host_mutex \<Rightarrow> 'm sync_slot \<Rightarrow> (nat \<Rightarrow> nat) \<Rightarrow> bool" where
  "emutex_inv H r h \<longleftrightarrow> (\<forall>t. (holder H (sl_m r) = Some t) = (0 < h t)) \<and> h 0 = 0 \<and>
     (sl_type r = BIONIC_MUTEX_NORMAL \<longrightarrow> (\<forall>t. h t \<le> 1)) \<and>
     (sl_type r \<noteq> BIONIC_MUTEX_NORMAL \<longrightarrow>
        (\<forall>t. 0 < h t \<longrightarrow> sl_owner r = t) \<and>
        (sl_owner r \<noteq> 0 \<longrightarrow> h (sl_owner r) = unat (sl_depth r) \<and> sl_depth r \<noteq> 0) \<and>
        (sl_owner r = 0 \<longrightarrow> sl_depth r = 0))"

definition bump :: "nat \<Rightarrow> (nat \<Rightarrow> nat) \<Rightarrow> nat \<Rightarrow> nat" where
  "bump t h = h(t := Suc (h t))"

definition drop1 :: "nat \<Rightarrow> (nat \<Rightarrow> nat) \<Rightarrow> nat \<Rightarrow> nat" where
  "drop1 t h = h(t := h t - 1)"


lemma emutex_free: "emutex_inv H r h \<Longrightarrow> holder H (sl_m r) = None \<Longrightarrow> h t = 0"
  by (auto simp: emutex_inv_def)

lemma emutex_free_owner:
  assumes "emutex_inv H r h" "holder H (sl_m r) = None" "sl_type r \<noteq> BIONIC_MUTEX_NORMAL"
  shows "sl_owner r = 0 \<and> sl_depth r = 0"
  using assms emutex_free [OF assms(1,2), of "sl_owner r"] by (auto simp: emutex_inv_def unat_eq_0)

lemma emutex_acquire:
  assumes H: "host_mutex_ok H" and inv: "emutex_inv H r h" and t: "tid \<noteq> 0"
    and lk: "mutexTryLock H tid (sl_m r) = (True, m)"
  shows "sl_type r = BIONIC_MUTEX_NORMAL \<Longrightarrow> emutex_inv H (r\<lparr>sl_m := m\<rparr>) (bump tid h)"
    and "sl_type r \<noteq> BIONIC_MUTEX_NORMAL \<Longrightarrow> emutex_inv H (own tid m r) (bump tid h)"
proof -
  have f: "holder H (sl_m r) = None" "holder H m = Some tid" using try_lock_cases [OF H lk] by auto
  have z: "h u = 0" for u using emutex_free [OF inv f(1)] .
  show "sl_type r = BIONIC_MUTEX_NORMAL \<Longrightarrow> emutex_inv H (r\<lparr>sl_m := m\<rparr>) (bump tid h)"
    using t z f(2) by (auto simp: emutex_inv_def bump_def)
  show "sl_type r \<noteq> BIONIC_MUTEX_NORMAL \<Longrightarrow> emutex_inv H (own tid m r) (bump tid h)"
    using t z f(2) by (auto simp: emutex_inv_def bump_def own_def)
qed

lemma emutex_reenter:
  assumes inv: "emutex_inv H r h" and t: "tid \<noteq> 0" "sl_owner r = tid" "sl_type r \<noteq> BIONIC_MUTEX_NORMAL"
    and e: "reenter r = (rc, r')"
  shows "if rc = Inr () then emutex_inv H r' (bump tid h) else r' = r"
proof (cases "sl_type r = BIONIC_MUTEX_ERRORCHECK \<or> sl_depth r = - 1")
  case True
  with e show ?thesis by (auto simp: reenter_def split: if_splits)
next
  case False
  then have r': "rc = Inr ()" "r' = r\<lparr>sl_depth := sl_depth r + 1\<rparr>" using e by (auto simp: reenter_def)
  have d: "unat (sl_depth r + 1) = Suc (unat (sl_depth r))"
  proof -
    have "1 + sl_depth r \<noteq> 0" using False by (metis add_eq_0_iff)
    then show ?thesis by (simp add: unatSuc add.commute)
  qed
  then have "sl_depth r + 1 \<noteq> 0" by (metis Zero_not_Suc unat_0)
  with inv t d r' show ?thesis by (auto simp: emutex_inv_def bump_def unat_gt_0)
qed

lemma lock_slot_effect:
  assumes H: "host_mutex_ok H" and inv: "emutex_inv H r h" and t: "tid \<noteq> 0"
    and e: "lock_slot H tid i r = (out, r')"
  shows "case out of
      Returned rc \<Rightarrow> if rc = Inr () then emutex_inv H r' (bump tid h) else r' = r
    | Blocked j ow \<Rightarrow> r' = r \<and> j = i \<and> ow = (sl_type r \<noteq> BIONIC_MUTEX_NORMAL) \<and> holder H (sl_m r) \<noteq> None"
proof -
  obtain b m where lk: "mutexTryLock H tid (sl_m r) = (b, m)" by fastforce
  note T = try_lock_cases [OF H lk]
  show ?thesis
  proof (cases b)
    case True
    then have lk': "mutexTryLock H tid (sl_m r) = (True, m)" using lk by simp
    note A = emutex_acquire [OF H inv t lk']
    from lk' e A emutex_reenter [OF inv t] show ?thesis
      by (auto simp: lock_slot_def split: if_splits prod.splits)
  next
    case False
    with lk e T emutex_reenter [OF inv t] show ?thesis
      by (auto simp: lock_slot_def split: if_splits prod.splits)
  qed
qed

lemma trylock_slot_effect:
  assumes H: "host_mutex_ok H" and inv: "emutex_inv H r h" and t: "tid \<noteq> 0"
    and e: "trylock_slot H tid r = (rc, r')"
  shows "if rc = Inr () then emutex_inv H r' (bump tid h) else r' = r"
proof -
  obtain b m where lk: "mutexTryLock H tid (sl_m r) = (b, m)" by fastforce
  show ?thesis
  proof (cases b)
    case True
    then have lk': "mutexTryLock H tid (sl_m r) = (True, m)" using lk by simp
    note A = emutex_acquire [OF H inv t lk']
    from lk' e A emutex_reenter [OF inv t] show ?thesis
      by (auto simp: trylock_slot_def split: if_splits prod.splits)
  next
    case False
    with lk e emutex_reenter [OF inv t] show ?thesis
      by (auto simp: trylock_slot_def split: if_splits prod.splits)
  qed
qed

lemma mutex_lock_resume_effect:
  assumes H: "host_mutex_ok H" and inv: "emutex_inv H r h" and t: "tid \<noteq> 0"
    and o: "ow = (sl_type r \<noteq> BIONIC_MUTEX_NORMAL)" and e: "mutex_lock_resume H tid ow r = Some r'"
  shows "emutex_inv H r' (bump tid h)"
proof -
  obtain m where lk: "mutexTryLock H tid (sl_m r) = (True, m)"
    using e by (auto simp: mutex_lock_resume_def split: prod.splits bool.splits)
  with e o emutex_acquire [OF H inv t lk] show ?thesis
    by (auto simp: mutex_lock_resume_def split: if_splits)
qed

lemma emutex_release:
  assumes H: "host_mutex_ok H" and inv: "emutex_inv H r h" and one: "h tid = 1"
  shows "sl_type r = BIONIC_MUTEX_NORMAL \<Longrightarrow>
      emutex_inv H (r\<lparr>sl_m := mutexUnlock H tid (sl_m r)\<rparr>) (drop1 tid h)"
    and "emutex_inv H (r\<lparr>sl_depth := 0, sl_owner := 0, sl_m := mutexUnlock H tid (sl_m r)\<rparr>) (drop1 tid h)"
proof -
  have "holder H (sl_m r) = Some tid" using inv one by (simp add: emutex_inv_def)
  moreover from this have "h u = 0" if "u \<noteq> tid" for u
    using inv that by (metis emutex_inv_def bot_nat_0.not_eq_extremum option.inject)
  ultimately have z: "drop1 tid h u = 0" "holder H (mutexUnlock H tid (sl_m r)) = None" for u
    using one host_mutexD(4) [OF H] by (auto simp: drop1_def)
  show "sl_type r = BIONIC_MUTEX_NORMAL \<Longrightarrow>
      emutex_inv H (r\<lparr>sl_m := mutexUnlock H tid (sl_m r)\<rparr>) (drop1 tid h)"
    "emutex_inv H (r\<lparr>sl_depth := 0, sl_owner := 0, sl_m := mutexUnlock H tid (sl_m r)\<rparr>) (drop1 tid h)"
    using z by (simp_all add: emutex_inv_def)
qed

lemma emutex_shallower:
  assumes inv: "emutex_inv H r h" and t: "sl_type r \<noteq> BIONIC_MUTEX_NORMAL" "sl_owner r = tid" "tid \<noteq> 0" "1 < sl_depth r"
  shows "emutex_inv H (r\<lparr>sl_depth := sl_depth r - 1\<rparr>) (drop1 tid h)"
proof -
  have d: "unat (sl_depth r - 1) = unat (sl_depth r) - 1" "1 < unat (sl_depth r)"
  proof -
    have "sl_depth r \<noteq> 0" using t(4) by auto
    then show "unat (sl_depth r - 1) = unat (sl_depth r) - 1" by (rule unat_minus_one)
    show "1 < unat (sl_depth r)" using t(4) by (simp add: word_less_nat_alt)
  qed
  moreover have "sl_depth r - 1 \<noteq> 0" using t(4) by auto
  ultimately show ?thesis using inv t(1-3) by (auto simp: emutex_inv_def drop1_def)
qed

text \<open>An unlock of a normal mutex is only defined for its holder.\<close>

lemma unlock_slot_effect:
  assumes H: "host_mutex_ok H" and inv: "emutex_inv H r h" and t: "tid \<noteq> 0"
    and g: "sl_type r = BIONIC_MUTEX_NORMAL \<Longrightarrow> holder H (sl_m r) = Some tid"
    and e: "unlock_slot H tid r = (rc, r')"
  shows "if rc = Inr () then 0 < h tid \<and> emutex_inv H r' (drop1 tid h) else rc = Inl EPERM \<and> h tid = 0 \<and> r' = r"
proof (cases "sl_type r = BIONIC_MUTEX_NORMAL")
  case True
  then have "0 < h tid" "h tid \<le> 1" using inv g by (auto simp: emutex_inv_def)
  then have "h tid = 1" by simp
  with emutex_release(1) [OF H inv this True] e True show ?thesis by (auto simp: unlock_slot_def)
next
  case False
  show ?thesis
  proof (cases "sl_owner r \<noteq> tid \<or> sl_depth r = 0")
    case True
    then have "h tid = 0" using inv False t by (auto simp: emutex_inv_def)
    with True False e show ?thesis by (auto simp: unlock_slot_def)
  next
    case F: False
    then have hd: "h tid = unat (sl_depth r)" "sl_depth r \<noteq> 0" using inv False t by (auto simp: emutex_inv_def)
    show ?thesis
    proof (cases "1 < sl_depth r")
      case True
      with emutex_shallower [OF inv False _ t True] F hd e False show ?thesis
        by (auto simp: unlock_slot_def unat_gt_0)
    next
      case False
      then have "sl_depth r = 1" using hd(2)
        by (metis linorder_not_less order_antisym word_le_nat_alt unat_1 Suc_leI One_nat_def unat_gt_0)
      then have "h tid = 1" using hd by simp
      with emutex_release(2) [OF H inv this] F e \<open>sl_type r \<noteq> _\<close> \<open>sl_depth r = 1\<close> show ?thesis
        by (auto simp: unlock_slot_def)
    qed
  qed
qed


lemma cond_wait_begin_effect:
  assumes H: "host_mutex_ok H" and inv: "emutex_inv H r h" and t: "tid \<noteq> 0"
    and g: "sl_type r = BIONIC_MUTEX_NORMAL \<Longrightarrow> holder H (sl_m r) = Some tid"
    and e: "cond_wait_begin H tid r = Some (w, r')"
  shows "0 < h tid \<and> emutex_inv H r' (drop1 tid h) \<and> sl_type r' = sl_type r \<and>
    (w = WaitNormal) = (sl_type r = BIONIC_MUTEX_NORMAL) \<and> (w = WaitNested) = (1 < h tid)"
proof (cases "sl_type r = BIONIC_MUTEX_NORMAL")
  case True
  then have "0 < h tid" "h tid \<le> 1" using inv g by (auto simp: emutex_inv_def)
  then have "h tid = 1" by simp
  with emutex_release(1) [OF H inv this True] e True show ?thesis by (auto simp: cond_wait_begin_def)
next
  case False
  then have o: "sl_owner r = tid" "sl_depth r \<noteq> 0" using e by (auto simp: cond_wait_begin_def split: if_splits)
  then have hd: "h tid = unat (sl_depth r)" using inv False t by (auto simp: emutex_inv_def)
  show ?thesis
  proof (cases "sl_depth r = 1")
    case True
    then have "h tid = 1" using hd by simp
    with emutex_release(2) [OF H inv this] e o True False show ?thesis by (auto simp: cond_wait_begin_def)
  next
    case ne: False
    then have "unat (sl_depth r) \<noteq> 1" "unat (sl_depth r) \<noteq> 0" using o(2)
      by (metis unat_1 word_unat_eq_iff) (use o(2) in \<open>simp add: unat_eq_0\<close>)
    then have "1 < sl_depth r" by (simp add: word_less_nat_alt)
    with emutex_shallower [OF inv False o(1) t this] e o ne False hd show ?thesis
      by (auto simp: cond_wait_begin_def word_less_nat_alt)
  qed
qed

lemma cond_wait_end_effect:
  assumes H: "host_mutex_ok H" and inv: "emutex_inv H r h" and t: "tid \<noteq> 0"
    and w: "(w = WaitNormal) = (sl_type r = BIONIC_MUTEX_NORMAL)" "w = WaitNested \<Longrightarrow> 0 < h tid"
    and d: "w = WaitNested \<Longrightarrow> sl_depth r \<noteq> - 1"
    and e: "cond_wait_end H tid w r = Some r'"
  shows "emutex_inv H r' (bump tid h)"
proof (cases w)
  case WaitNested
  then have o: "sl_type r \<noteq> BIONIC_MUTEX_NORMAL" "sl_owner r = tid" using w inv by (auto simp: emutex_inv_def)
  have "unat (sl_depth r + 1) = Suc (unat (sl_depth r))" "sl_depth r + 1 \<noteq> 0"
  proof -
    have n: "1 + sl_depth r \<noteq> 0" using d [OF WaitNested] by (metis add_eq_0_iff)
    then show "unat (sl_depth r + 1) = Suc (unat (sl_depth r))" by (simp add: unatSuc add.commute)
    show "sl_depth r + 1 \<noteq> 0" using n by (simp add: add.commute)
  qed
  with inv t o e WaitNested show ?thesis
    by (auto simp: emutex_inv_def bump_def cond_wait_end_def unat_gt_0)
qed (use e w mutex_lock_resume_effect [OF H inv t] in \<open>auto simp: cond_wait_end_def\<close>)

lemma type_frames:
  "lock_slot H tid i r = (out, r') \<Longrightarrow> sl_type r' = sl_type r \<and> sl_type_known r' = sl_type_known r \<and>
     sl_used r' = sl_used r \<and> sl_key r' = sl_key r \<and> sl_kind r' = sl_kind r"
  "trylock_slot H tid r = (rc, r') \<Longrightarrow> sl_type r' = sl_type r \<and> sl_type_known r' = sl_type_known r \<and>
     sl_used r' = sl_used r \<and> sl_key r' = sl_key r \<and> sl_kind r' = sl_kind r"
  "unlock_slot H tid r = (rc, r') \<Longrightarrow> sl_type r' = sl_type r \<and> sl_type_known r' = sl_type_known r \<and>
     sl_used r' = sl_used r \<and> sl_key r' = sl_key r \<and> sl_kind r' = sl_kind r"
  "mutex_lock_resume H tid ow r = Some r' \<Longrightarrow> sl_type r' = sl_type r \<and> sl_type_known r' = sl_type_known r \<and>
     sl_used r' = sl_used r \<and> sl_key r' = sl_key r \<and> sl_kind r' = sl_kind r"
  "cond_wait_begin H tid r = Some (w, r') \<Longrightarrow> sl_type r' = sl_type r \<and> sl_type_known r' = sl_type_known r \<and>
     sl_used r' = sl_used r \<and> sl_key r' = sl_key r \<and> sl_kind r' = sl_kind r"
  "cond_wait_end H tid w r = Some r' \<Longrightarrow> sl_type r' = sl_type r \<and> sl_type_known r' = sl_type_known r \<and>
     sl_used r' = sl_used r \<and> sl_key r' = sl_key r \<and> sl_kind r' = sl_kind r"
  by (auto simp: lock_slot_def trylock_slot_def unlock_slot_def mutex_lock_resume_def cond_wait_begin_def
      cond_wait_end_def reenter_def own_def split: if_splits prod.splits bool.splits wait_mode.splits)

end
