(* ===== verification/SyncSystem.thy ===== *)
theory SyncSystem
  imports EMutex
begin

text \<open>
  Any number of guest threads over the emulated mutexes and condition waits: the step relation,
  the levels each thread holds (a ghost count of its successful locks), and the invariant that a
  mutex is taken exactly while one thread holds levels of it.
\<close>

section \<open>Entering a condition wait\<close>

datatype wait_start = WaitFails errno | WaitSleeps wait_mode nat nat

text \<open>
  \<^verbatim>\<open>bionic_pthread_cond_wait\<close> up to the sleep: both slots are looked up before either is checked,
  and a mutex the caller does not hold gives \<open>EINVAL\<close>.
\<close>

definition cond_wait_enter ::
  "'m host_mutex \<Rightarrow> nat \<Rightarrow> u64 \<Rightarrow> u64 \<Rightarrow> u32 \<Rightarrow> 'm slots \<Rightarrow> wait_start \<times> 'm slots" where
  "cond_wait_enter H tid c m v s =
     (case slot_get H c 2 True s of
        (co, s1) \<Rightarrow>
          (case slot_get H m 1 True s1 of
             (Some mi, s2) \<Rightarrow>
               (case co of
                  None \<Rightarrow> (WaitFails EINVAL, s2)
                | Some ci \<Rightarrow>
                    let r = bionic_mutex_detect_static_type m v (s2 ! mi)
                    in (case cond_wait_begin H tid r of
                          None \<Rightarrow> (WaitFails EINVAL, s2[mi := r])
                        | Some (w, r') \<Rightarrow> (WaitSleeps w ci mi, s2[mi := r'])))
           | (None, s2) \<Rightarrow> (WaitFails EINVAL, s2)))"

section \<open>The steps\<close>

datatype pc =
    Idle
  | Locking nat bool
  | EnterNested nat nat
  | Sleeping wait_mode nat nat

record 'm esys =
  tab :: "'m slots"
  pcs :: "nat \<Rightarrow> pc"
  held :: "nat \<Rightarrow> nat \<Rightarrow> nat"

definition goto :: "nat \<Rightarrow> pc \<Rightarrow> 'm esys \<Rightarrow> 'm esys" where
  "goto t p S = S\<lparr>pcs := (pcs S)(t := p)\<rparr>"

definition put_slot :: "nat \<Rightarrow> 'm sync_slot \<Rightarrow> (nat \<Rightarrow> nat) \<Rightarrow> 'm esys \<Rightarrow> 'm esys" where
  "put_slot i r h S = S\<lparr>tab := (tab S)[i := r], held := (held S)(i := h)\<rparr>"

definition set_tab :: "'m slots \<Rightarrow> 'm esys \<Rightarrow> 'm esys" where
  "set_tab s S = S\<lparr>tab := s\<rparr>"

definition set_held :: "nat \<Rightarrow> (nat \<Rightarrow> nat) \<Rightarrow> 'm esys \<Rightarrow> 'm esys" where
  "set_held i h S = S\<lparr>held := (held S)(i := h)\<rparr>"

text \<open>The levels after a call of thread \<open>t\<close> on the mutex at \<open>k\<close>.\<close>

definition gain :: "nat \<Rightarrow> u64 \<Rightarrow> 'm esys \<Rightarrow> 'm esys" where
  "gain t k S = (case slot_find (tab S) (k, 1) of None \<Rightarrow> S | Some i \<Rightarrow> set_held i (bump t (held S i)) S)"

definition lose :: "nat \<Rightarrow> u64 \<Rightarrow> 'm esys \<Rightarrow> 'm esys" where
  "lose t k S = (case slot_find (tab S) (k, 1) of None \<Rightarrow> S | Some i \<Rightarrow> set_held i (drop1 t (held S i)) S)"

text \<open>
  A program may unlock, and wait with, a normal mutex only while it holds it: the guard
  \<open>may_release\<close>, which the host mutex needs.
\<close>

definition may_release :: "'m host_mutex \<Rightarrow> nat \<Rightarrow> u64 \<Rightarrow> 'm slots \<Rightarrow> bool" where
  "may_release H t k s =
     (case slot_find s (k, 1) of None \<Rightarrow> False
      | Some i \<Rightarrow> sl_type (s ! i) \<noteq> BIONIC_MUTEX_NORMAL \<or> holder H (sl_m (s ! i)) = Some t)"

inductive estep :: "'m host_mutex \<Rightarrow> 'm esys \<Rightarrow> 'm esys \<Rightarrow> bool" for H :: "'m host_mutex" where
  init: "pcs S t = Idle \<Longrightarrow> t \<noteq> 0 \<Longrightarrow> slot_find (tab S) (k, 1) = None \<Longrightarrow>
    bionic_pthread_mutex_init H k a (tab S) = (rc, s') \<Longrightarrow> estep H S (set_tab s' S)"
| lock: "pcs S t = Idle \<Longrightarrow> t \<noteq> 0 \<Longrightarrow>
    bionic_pthread_mutex_lock H t k v (tab S) = (Returned rc, s') \<Longrightarrow>
    estep H S (if rc = Inr () then gain t k (set_tab s' S) else set_tab s' S)"
| lock_block: "pcs S t = Idle \<Longrightarrow> t \<noteq> 0 \<Longrightarrow>
    bionic_pthread_mutex_lock H t k v (tab S) = (Blocked i ow, s') \<Longrightarrow>
    estep H S (goto t (Locking i ow) (set_tab s' S))"
| lock_resume: "pcs S t = Locking i ow \<Longrightarrow> t \<noteq> 0 \<Longrightarrow>
    mutex_lock_resume H t ow (tab S ! i) = Some r \<Longrightarrow>
    estep H S (goto t Idle (put_slot i r (bump t (held S i)) S))"
| trylock: "pcs S t = Idle \<Longrightarrow> t \<noteq> 0 \<Longrightarrow>
    bionic_pthread_mutex_trylock H t k v (tab S) = (rc, s') \<Longrightarrow>
    estep H S (if rc = Inr () then gain t k (set_tab s' S) else set_tab s' S)"
| unlock: "pcs S t = Idle \<Longrightarrow> t \<noteq> 0 \<Longrightarrow> may_release H t k (tab S) \<Longrightarrow>
    bionic_pthread_mutex_unlock H t k (tab S) = (rc, s') \<Longrightarrow>
    estep H S (if rc = Inr () then lose t k (set_tab s' S) else set_tab s' S)"
| wait_fails: "pcs S t = Idle \<Longrightarrow> t \<noteq> 0 \<Longrightarrow> may_release H t m (tab S) \<Longrightarrow>
    cond_wait_enter H t c m v (tab S) = (WaitFails e, s') \<Longrightarrow> estep H S (set_tab s' S)"
| wait_sleeps: "pcs S t = Idle \<Longrightarrow> t \<noteq> 0 \<Longrightarrow> may_release H t m (tab S) \<Longrightarrow>
    cond_wait_enter H t c m v (tab S) = (WaitSleeps w ci mi, s') \<Longrightarrow>
    estep H S (goto t (if w = WaitNested then EnterNested ci mi else Sleeping w ci mi)
                 (lose t m (set_tab s' S)))"
| nested_enter: "pcs S t = EnterNested ci mi \<Longrightarrow> t \<noteq> 0 \<Longrightarrow>
    nested_pass H t (tab S ! ci) = Some c \<Longrightarrow>
    estep H S (goto t (Sleeping WaitNested ci mi) (put_slot ci c (held S ci) S))"
| wake: "pcs S t = Sleeping w ci mi \<Longrightarrow> t \<noteq> 0 \<Longrightarrow> w \<noteq> WaitNested \<Longrightarrow>
    cond_wait_end H t w (tab S ! mi) = Some r \<Longrightarrow>
    estep H S (goto t Idle (put_slot mi r (bump t (held S mi)) S))"
| wake_nested: "pcs S t = Sleeping WaitNested ci mi \<Longrightarrow> t \<noteq> 0 \<Longrightarrow>
    nested_pass H t (tab S ! ci) = Some c \<Longrightarrow>
    cond_wait_end H t WaitNested (tab S ! mi) = Some r \<Longrightarrow>
    estep H S (goto t Idle (put_slot mi r (bump t (held S mi)) (put_slot ci c (held S ci) S)))"

section \<open>The invariant\<close>

definition is_mutex :: "'m sync_slot \<Rightarrow> bool" where
  "is_mutex r \<longleftrightarrow> sl_used r \<and> sl_kind r = 1"

definition mutex_slot_ok :: "'m host_mutex \<Rightarrow> 'm sync_slot \<Rightarrow> (nat \<Rightarrow> nat) \<Rightarrow> bool" where
  "mutex_slot_ok H r h \<longleftrightarrow>
     (if is_mutex r
      then emutex_inv H r h \<and> (sl_type_known r \<or> sl_key r = 0 \<and> sl_type r = BIONIC_MUTEX_NORMAL)
      else h = (\<lambda>_. 0))"

definition nested_ok :: "'m esys \<Rightarrow> nat \<Rightarrow> nat \<Rightarrow> bool" where
  "nested_ok S mi t \<longleftrightarrow> 0 < held S mi t \<and> held S mi t < 2 ^ 32 - 1"

definition pc_ok :: "'m esys \<Rightarrow> nat \<Rightarrow> pc \<Rightarrow> bool" where
  "pc_ok S t p =
     (case p of
        Idle \<Rightarrow> True
      | Locking i ow \<Rightarrow> i < SYNC_SLOTS \<and> is_mutex (tab S ! i) \<and>
          ow = (sl_type (tab S ! i) \<noteq> BIONIC_MUTEX_NORMAL)
      | EnterNested ci mi \<Rightarrow> ci < SYNC_SLOTS \<and> mi < SYNC_SLOTS \<and> is_mutex (tab S ! mi) \<and>
          sl_type (tab S ! mi) \<noteq> BIONIC_MUTEX_NORMAL \<and>
          sl_used (tab S ! ci) \<and> sl_kind (tab S ! ci) = 2 \<and> nested_ok S mi t
      | Sleeping w ci mi \<Rightarrow> ci < SYNC_SLOTS \<and> mi < SYNC_SLOTS \<and> is_mutex (tab S ! mi) \<and>
          (w = WaitNormal) = (sl_type (tab S ! mi) = BIONIC_MUTEX_NORMAL) \<and>
          sl_used (tab S ! ci) \<and> sl_kind (tab S ! ci) = 2 \<and> (w = WaitNested \<longrightarrow> nested_ok S mi t))"

definition esys_inv :: "'m host_mutex \<Rightarrow> 'm esys \<Rightarrow> bool" where
  "esys_inv H S \<longleftrightarrow> slots_ok (tab S) \<and> (\<forall>i<SYNC_SLOTS. mutex_slot_ok H (tab S ! i) (held S i)) \<and>
     (\<forall>t. t \<noteq> 0 \<longrightarrow> pc_ok S t (pcs S t))"

text \<open>Two slots of the same shape: what another thread's program counter may rely on.\<close>

definition keeps :: "'m sync_slot \<Rightarrow> 'm sync_slot \<Rightarrow> bool" where
  "keeps r r' \<longleftrightarrow> sl_used r' = sl_used r \<and> sl_key r' = sl_key r \<and> sl_kind r' = sl_kind r \<and>
     sl_type r' = sl_type r \<and> sl_type_known r' = sl_type_known r"

lemma keeps_refl [simp]: "keeps r r" by (simp add: keeps_def)

lemma slots_ok_keeps:
  assumes "slots_ok s" and "i < SYNC_SLOTS" and "keeps (s ! i) r"
  shows "slots_ok (s[i := r])"
proof -
  have len: "length s = SYNC_SLOTS" using assms(1) by (simp add: slots_ok_def)
  have "slot_hit k kind (s[i := r] ! j) = slot_hit k kind (s ! j)" for k kind j
    using assms(2,3) len by (cases "j = i") (simp_all add: slot_hit_def keeps_def)
  with assms(1) show ?thesis by (simp add: slots_ok_def)
qed

lemma pc_ok_mono:
  assumes "pc_ok S t p"
    and "\<And>i. i < SYNC_SLOTS \<Longrightarrow> sl_used (tab S ! i) \<Longrightarrow> keeps (tab S ! i) (tab S' ! i)"
    and "\<And>i. held S' i t = held S i t"
  shows "pc_ok S' t p"
  using assms(1,3) assms(2) unfolding pc_ok_def nested_ok_def is_mutex_def keeps_def
  by (cases p) auto

text \<open>The slot that \<^verbatim>\<open>slot_get\<close> and the type detection leave, before the operation itself.\<close>

lemma detect_known:
  "sl_type_known r \<or> k = 0 \<Longrightarrow> bionic_mutex_detect_static_type k v r = r"
  by (auto simp: bionic_mutex_detect_static_type_def)

lemma detect_fresh:
  assumes "host_mutex_ok H"
  shows "mutex_slot_ok H (bionic_mutex_detect_static_type k v (fresh_slot H k 1)) (\<lambda>_. 0) \<and>
    sl_used (bionic_mutex_detect_static_type k v (fresh_slot H k kind)) \<and>
    sl_kind (bionic_mutex_detect_static_type k v (fresh_slot H k kind)) = kind \<and>
    sl_key (bionic_mutex_detect_static_type k v (fresh_slot H k kind)) = k"
  using host_mutexD(1) [OF assms]
  by (auto simp: mutex_slot_ok_def is_mutex_def emutex_inv_def bionic_mutex_detect_static_type_def
      fresh_slot_def Let_def)


lemma set_tab_sel [simp]:
  "tab (set_tab s S) = s" "pcs (set_tab s S) = pcs S" "held (set_tab s S) = held S"
  "tab (goto t p S) = tab S" "held (goto t p S) = held S" "pcs (goto t p S) = (pcs S)(t := p)"
  "tab (set_held i h S) = tab S" "pcs (set_held i h S) = pcs S" "held (set_held i h S) = (held S)(i := h)"
  "tab (put_slot i r h S) = (tab S)[i := r]" "pcs (put_slot i r h S) = pcs S"
  "held (put_slot i r h S) = (held S)(i := h)"
  by (simp_all add: set_tab_def goto_def set_held_def put_slot_def)

lemma esys_invD:
  assumes "esys_inv H S"
  shows "slots_ok (tab S)" and "length (tab S) = SYNC_SLOTS"
    and "i < SYNC_SLOTS \<Longrightarrow> mutex_slot_ok H (tab S ! i) (held S i)"
    and "t \<noteq> 0 \<Longrightarrow> pc_ok S t (pcs S t)"
  using assms by (auto simp: esys_inv_def slots_ok_def)

lemma set_tab_inv:
  assumes "esys_inv H S" and "slots_ok s'"
    and "\<And>i. i < SYNC_SLOTS \<Longrightarrow> mutex_slot_ok H (s' ! i) (held S i)"
    and "\<And>i. i < SYNC_SLOTS \<Longrightarrow> sl_used (tab S ! i) \<Longrightarrow> keeps (tab S ! i) (s' ! i)"
  shows "esys_inv H (set_tab s' S)"
proof -
  have "pc_ok (set_tab s' S) t (pcs S t)" if "t \<noteq> 0" for t
    using assms(4) by (intro pc_ok_mono [OF esys_invD(4) [OF assms(1) that]]) simp_all
  with assms(2,3) show ?thesis by (simp add: esys_inv_def)
qed

text \<open>A mutex operation first finds or creates the slot of its key and detects its type.\<close>

lemma touch_mutex:
  assumes H: "host_mutex_ok H" and inv: "esys_inv H S"
    and g: "slot_get H k 1 True (tab S) = (Some i, s1)"
    and S1: "S1 = set_tab (s1[i := bionic_mutex_detect_static_type k v (s1 ! i)]) S"
  shows "esys_inv H S1 \<and> i < SYNC_SLOTS \<and> is_mutex (tab S1 ! i) \<and> slot_find (tab S1) (k, 1) = Some i \<and>
    tab S1 ! i = bionic_mutex_detect_static_type k v (s1 ! i)"
proof -
  note D = esys_invD [OF inv]
  note G = slot_get_found [OF D(1) g]
  let ?r = "bionic_mutex_detect_static_type k v (s1 ! i)"
  have shape: "sl_used ?r = sl_used (s1 ! i)" "sl_key ?r = sl_key (s1 ! i)" "sl_kind ?r = sl_kind (s1 ! i)"
    by (simp_all add: bionic_mutex_detect_static_type_def Let_def)
  have hit: "slot_hit q kd (s1[i := ?r] ! j) = slot_hit q kd (s1 ! j)" for q kd j
    using G by (cases "j = i") (auto simp: slot_hit_def shape)
  have ok: "slots_ok (s1[i := ?r])" using G hit by (auto simp: slots_ok_def)
  have "mutex_slot_ok H (s1[i := ?r] ! j) (held S j) \<and>
      (sl_used (tab S ! j) \<longrightarrow> keeps (tab S ! j) (s1[i := ?r] ! j))" if j: "j < SYNC_SLOTS" for j
    using D(1)
  proof (cases rule: slot_get_cases [of "tab S" k 1 H True])
    case (hit i')
    with g have i: "i' = i" "s1 = tab S" by auto
    have m: "is_mutex (tab S ! i)" "sl_key (tab S ! i) = k" using G i by (auto simp: slot_hit_def is_mutex_def)
    have "sl_type_known (tab S ! i) \<or> k = 0" using m D(3) [of i] G by (auto simp: mutex_slot_ok_def)
    then have "?r = tab S ! i" unfolding i(2) by (rule detect_known)
    then show ?thesis using i D(3) [OF j] by simp
  next
    case (new i')
    with g have i: "i' = i" "s1 = (tab S)[i := fresh_slot H k 1]" by auto
    show ?thesis
    proof (cases "j = i")
      case True
      have "held S i = (\<lambda>_. 0)" using D(3) [of i] new(2,3) i by (simp add: mutex_slot_ok_def is_mutex_def)
      then show ?thesis using True new(2,3) i D(2) detect_fresh [OF H, of k v] by simp
    next
      case False
      then show ?thesis using i D(3) [OF j] by simp
    qed
  next
    case none
    with g show ?thesis by simp
  qed
  then have "esys_inv H S1" unfolding S1 by (intro set_tab_inv [OF inv ok]) auto
  moreover have "is_mutex ?r" using G shape by (simp add: is_mutex_def slot_hit_def)
  moreover have "slot_find (s1[i := ?r]) (k, 1) = Some i"
    using G hit [of k 1 i] by (simp add: slot_find_iff [OF ok])
  ultimately show ?thesis using G by (simp add: S1)
qed

lemma touch_other:
  assumes H: "host_mutex_ok H" and inv: "esys_inv H S" and kd: "kind \<noteq> 1"
    and g: "slot_get H k kind True (tab S) = (x, s1)"
  shows "esys_inv H (set_tab s1 S) \<and>
    (\<forall>i. x = Some i \<longrightarrow> i < SYNC_SLOTS \<and> sl_used (s1 ! i) \<and> sl_kind (s1 ! i) = kind) \<and>
    (\<forall>i<SYNC_SLOTS. sl_used (tab S ! i) \<longrightarrow> s1 ! i = tab S ! i)"
proof -
  note D = esys_invD [OF inv]
  have ok: "slots_ok s1" using slot_get_ok [OF D(1), of H k kind True] g by simp
  have j: "mutex_slot_ok H (s1 ! j) (held S j) \<and> (sl_used (tab S ! j) \<longrightarrow> s1 ! j = tab S ! j)"
    if j: "j < SYNC_SLOTS" for j
    using D(1)
  proof (cases rule: slot_get_cases [of "tab S" k kind H True])
    case (new i)
    then have s1: "s1 = (tab S)[i := fresh_slot H k kind]" using g by simp
    show ?thesis
    proof (cases "j = i")
      case True
      have "held S i = (\<lambda>_. 0)" using D(3) [OF new(2)] new(3) by (simp add: mutex_slot_ok_def is_mutex_def)
      then show ?thesis using True new(2,3) D(2) kd
        by (simp add: s1 mutex_slot_ok_def is_mutex_def fresh_slot_def)
    next
      case False
      then show ?thesis using D(3) [OF j] by (simp add: s1)
    qed
  qed (use g D(3) [OF j] in auto)
  have "i < SYNC_SLOTS \<and> sl_used (s1 ! i) \<and> sl_kind (s1 ! i) = kind" if "x = Some i" for i
    using slot_get_found [OF D(1) g [unfolded that]] by (simp add: slot_hit_def)
  moreover have "esys_inv H (set_tab s1 S)" using j by (intro set_tab_inv [OF inv ok]) auto
  ultimately show ?thesis using j by auto
qed

text \<open>An operation of thread \<open>t\<close> on a mutex slot.\<close>

lemma put_mutex_inv:
  assumes inv: "esys_inv H S" and i: "i < SYNC_SLOTS" "is_mutex (tab S ! i)"
    and k: "keeps (tab S ! i) r" and e: "emutex_inv H r h"
    and h: "\<And>u. u \<noteq> t \<Longrightarrow> h u = held S i u"
    and p: "t \<noteq> 0 \<Longrightarrow> pc_ok (put_slot i r h S) t p"
  shows "esys_inv H (goto t p (put_slot i r h S))"
proof -
  note D = esys_invD [OF inv]
  have "mutex_slot_ok H r h" using D(3) [OF i(1)] i(2) k e
    by (auto simp: mutex_slot_ok_def is_mutex_def keeps_def)
  then have a: "mutex_slot_ok H ((tab S)[i := r] ! j) (((held S)(i := h)) j)" if "j < SYNC_SLOTS" for j
    using D(2) D(3) [OF that] by (cases "j = i") (simp_all add: i)
  have b: "keeps (tab S ! j) ((tab S)[i := r] ! j)" for j
    using k D(2) i by (cases "j = i") simp_all
  have "pc_ok (goto t p (put_slot i r h S)) u ((pcs (goto t p (put_slot i r h S))) u)" if "u \<noteq> 0" for u
  proof (cases "u = t")
    case True
    then have t: "t \<noteq> 0" using that by simp
    have "pc_ok (goto t p (put_slot i r h S)) t p" by (rule pc_ok_mono [OF p [OF t]]) simp_all
    with True show ?thesis by simp
  next
    case False
    have "pc_ok (goto t p (put_slot i r h S)) u (pcs S u)"
    proof (rule pc_ok_mono [OF D(4) [OF that]])
      show "keeps (tab S ! j) (tab (goto t p (put_slot i r h S)) ! j)" for j using b by simp
      show "held (goto t p (put_slot i r h S)) j u = held S j u" for j using h [OF False] by simp
    qed
    with False show ?thesis by simp
  qed
  then show ?thesis using slots_ok_keeps [OF D(1) i(1) k] a by (simp add: esys_inv_def)
qed


text \<open>Updating the touched state: the state after a call on the mutex at \<open>k\<close>.\<close>

lemma gain_eq:
  assumes "slot_find s (k, 1) = Some i" and "s' = s[i := r]" and "slot_find s' (k, 1) = Some i"
  shows "gain t k (set_tab s' S) = put_slot i r (bump t (held S i)) (set_tab s S)"
    and "lose t k (set_tab s' S) = put_slot i r (drop1 t (held S i)) (set_tab s S)"
  using assms by (simp_all add: gain_def lose_def put_slot_def set_tab_def set_held_def)

lemma find_keeps:
  assumes "slots_ok s" and "slot_find s x = Some i" and "keeps (s ! i) r"
  shows "slot_find (s[i := r]) x = Some i"
proof -
  note F = assms(2) [unfolded slot_find_iff [OF assms(1)]]
  have "length s = SYNC_SLOTS" using assms(1) by (simp add: slots_ok_def)
  then show ?thesis
    using F assms(3) by (auto simp: slot_find_iff [OF slots_ok_keeps [OF assms(1) _ assms(3)]] slot_hit_def keeps_def)
qed

lemma keeps_frames:
  "lock_slot H tid i r = (out, r') \<Longrightarrow> keeps r r'"
  "trylock_slot H tid r = (rc, r') \<Longrightarrow> keeps r r'"
  "unlock_slot H tid r = (rc, r') \<Longrightarrow> keeps r r'"
  "mutex_lock_resume H tid ow r = Some r' \<Longrightarrow> keeps r r'"
  "cond_wait_begin H tid r = Some (w, r') \<Longrightarrow> keeps r r'"
  "cond_wait_end H tid w r = Some r' \<Longrightarrow> keeps r r'"
  "nested_pass H tid r = Some r' \<Longrightarrow> keeps r r'"
  by (auto simp: keeps_def dest: type_frames) (auto simp: nested_pass_def split: prod.splits bool.splits)

lemma mutex_slot_inv: "mutex_slot_ok H r h \<Longrightarrow> is_mutex r \<Longrightarrow> emutex_inv H r h"
  by (simp add: mutex_slot_ok_def)

lemma pc_ok_Idle [simp]: "pc_ok S t Idle"
  by (simp add: pc_ok_def)

lemma goto_same: "pcs S t = p \<Longrightarrow> goto t p S = S"
  by (simp add: goto_def fun_upd_idem)

lemma set_tab_twice [simp]: "set_tab s (set_tab s' S) = set_tab s S"
  by (simp add: set_tab_def)

text \<open>
  A call that gives success and changes the levels of \<open>t\<close>, or fails and leaves the slot alone.
\<close>

lemma call_inv:
  assumes inv: "esys_inv H S" and i: "i < SYNC_SLOTS" "is_mutex (tab S ! i)" and t: "pcs S t = Idle"
    and f: "slot_find (tab S) (k, 1) = Some i" and kp: "keeps (tab S ! i) r"
    and e: "if rc = Inr () then emutex_inv H r h' else r = tab S ! i"
    and h': "h' = bump t (held S i) \<and> upd = gain \<or> h' = drop1 t (held S i) \<and> upd = lose"
  shows "esys_inv H (if rc = Inr () then upd t k (set_tab ((tab S)[i := r]) S) else set_tab ((tab S)[i := r]) S)"
proof (cases "rc = Inr ()")
  case True
  note D = esys_invD [OF inv]
  have "upd t k (set_tab ((tab S)[i := r]) S) = put_slot i r h' (set_tab (tab S) S)"
    using h' gain_eq [OF f refl find_keeps [OF D(1) f kp], of t S] by auto
  also have "\<dots> = goto t Idle (put_slot i r h' S)" using t by (simp add: set_tab_def goto_same)
  also have "esys_inv H \<dots>"
    using h' True e kp by (intro put_mutex_inv [OF inv i]) (auto simp: bump_def drop1_def)
  finally show ?thesis using True by simp
next
  case False
  with e have "r = tab S ! i" by simp
  then have "set_tab ((tab S)[i := r]) S = S" by (simp add: set_tab_def)
  with False inv show ?thesis by simp
qed


lemmas call_gain = call_inv [where upd = gain, OF _ _ _ _ _ _ _ disjI1 [OF conjI [OF refl refl]]]
lemmas call_lose = call_inv [where upd = lose, OF _ _ _ _ _ _ _ disjI2 [OF conjI [OF refl refl]]]

section \<open>Every step keeps the invariant\<close>

lemma init_inv:
  assumes H: "host_mutex_ok H" and inv: "esys_inv H S" and none: "slot_find (tab S) (k, 1) = None"
    and c: "bionic_pthread_mutex_init H k a (tab S) = (rc, s')"
  shows "esys_inv H (set_tab s' S)"
proof (cases "s' = tab S")
  case True
  then show ?thesis using inv by (simp add: set_tab_def)
next
  case False
  note D = esys_invD [OF inv]
  obtain i ty where new: "i < SYNC_SLOTS" "\<not> sl_used (tab S ! i)"
    and s': "s' = (tab S)[i := (fresh_slot H k 1)\<lparr>sl_type := ty, sl_type_known := True, sl_owner := 0, sl_depth := 0\<rparr>]"
    using D(1)
  proof (cases rule: slot_get_cases [of "tab S" k 1 H True])
    case (new i)
    with c False D(2) that show ?thesis
      by (auto simp: bionic_pthread_mutex_init_def split: if_splits sum.splits)
  qed (use c False none in \<open>auto simp: bionic_pthread_mutex_init_def split: if_splits sum.splits\<close>)
  have z: "held S i = (\<lambda>_. 0)" using D(3) [OF new(1)] new(2) by (simp add: mutex_slot_ok_def is_mutex_def)
  have kp: "keeps (fresh_slot H k 1\<lparr>sl_type := ty, sl_type_known := True\<rparr>)
      ((fresh_slot H k 1)\<lparr>sl_type := ty, sl_type_known := True, sl_owner := 0, sl_depth := 0\<rparr>)"
    by (simp add: keeps_def)
  have ok: "slots_ok s'"
  proof -
    have "slot_hit q kd (s' ! j) = slot_hit q kd ((tab S)[i := fresh_slot H k 1] ! j)" for q kd j
      using D(2) new(1) by (cases "j = i") (simp_all add: s' slot_hit_def fresh_slot_def)
    then show ?thesis using slots_ok_create [OF D(1) none new, of H] by (simp add: slots_ok_def s')
  qed
  have j: "mutex_slot_ok H (s' ! j) (held S j) \<and> (sl_used (tab S ! j) \<longrightarrow> keeps (tab S ! j) (s' ! j))"
    if "j < SYNC_SLOTS" for j
  proof (cases "j = i")
    case True
    then show ?thesis using new D(2) z host_mutexD(1) [OF H]
      by (simp add: s' mutex_slot_ok_def is_mutex_def emutex_inv_def fresh_slot_def)
  next
    case False
    then show ?thesis using D(3) [OF that] by (simp add: s')
  qed
  then show ?thesis by (intro set_tab_inv [OF inv ok]) auto
qed

lemma lock_touch:
  assumes "bionic_pthread_mutex_lock H t k v s = (out, s')"
  shows "(out = Returned (Inl ENOMEM) \<and> s' = s) \<or>
    (\<exists>i s1 r. slot_get H k 1 True s = (Some i, s1) \<and>
       lock_slot H t i (bionic_mutex_detect_static_type k v (s1 ! i)) = (out, r) \<and> s' = s1[i := r])"
  using assms by (auto simp: bionic_pthread_mutex_lock_def slot_get_def split: prod.splits option.splits)

lemma lock_inv:
  assumes H: "host_mutex_ok H" and inv: "esys_inv H S" and t: "t \<noteq> 0" "pcs S t = Idle"
    and c: "bionic_pthread_mutex_lock H t k v (tab S) = (out, s')"
  shows "case out of
      Returned rc \<Rightarrow> esys_inv H (if rc = Inr () then gain t k (set_tab s' S) else set_tab s' S)
    | Blocked i ow \<Rightarrow> esys_inv H (goto t (Locking i ow) (set_tab s' S))"
proof -
  consider "out = Returned (Inl ENOMEM)" "s' = tab S"
    | (go) i s1 r where "slot_get H k 1 True (tab S) = (Some i, s1)"
      "lock_slot H t i (bionic_mutex_detect_static_type k v (s1 ! i)) = (out, r)" "s' = s1[i := r]"
    using lock_touch [OF c] by blast
  then show ?thesis
  proof cases
    case 1
    with inv show ?thesis by (simp add: set_tab_def)
  next
    case go
    define S1 where S1: "S1 = set_tab (s1[i := bionic_mutex_detect_static_type k v (s1 ! i)]) S"
    note T = touch_mutex [OF H inv go(1) S1]
    have lk: "lock_slot H t i (tab S1 ! i) = (out, r)" using T go(2) by simp
    have s': "s' = (tab S1)[i := r]" "set_tab s' S = set_tab ((tab S1)[i := r]) S1" using go(3) by (simp_all add: S1)
    have p1: "pcs S1 t = Idle" using t(2) by (simp add: S1)
    have T1: "esys_inv H S1" "i < SYNC_SLOTS" "is_mutex (tab S1 ! i)" "slot_find (tab S1) (k, 1) = Some i"
      using T by blast+
    have em: "emutex_inv H (tab S1 ! i) (held S1 i)"
      by (rule mutex_slot_inv [OF esys_invD(3) [OF T1(1,2)] T1(3)])
    note E = lock_slot_effect [OF H em t(1) lk]
    show ?thesis
    proof (cases out)
      case (Returned rc)
      with E have "if rc = Inr () then emutex_inv H r (bump t (held S1 i)) else r = tab S1 ! i" by simp
      from call_gain [OF T1(1-3) p1 T1(4) keeps_frames(1) [OF lk] this]
      show ?thesis unfolding s'(2) Returned lock_outcome.case .
    next
      case (Blocked j ow)
      with E have "r = tab S1 ! i" "j = i" "ow = (sl_type (tab S1 ! i) \<noteq> BIONIC_MUTEX_NORMAL)" by auto
      moreover have "esys_inv H (goto t (Locking i ow) (put_slot i (tab S1 ! i) (held S1 i) S1))"
        using T1 em calculation(3) by (intro put_mutex_inv) (auto simp: pc_ok_def)
      ultimately show ?thesis using Blocked s'(2) by (simp add: put_slot_def set_tab_def)
    qed
  qed
qed

lemma trylock_inv:
  assumes H: "host_mutex_ok H" and inv: "esys_inv H S" and t: "t \<noteq> 0" "pcs S t = Idle"
    and c: "bionic_pthread_mutex_trylock H t k v (tab S) = (rc, s')"
  shows "esys_inv H (if rc = Inr () then gain t k (set_tab s' S) else set_tab s' S)"
proof -
  consider "rc = Inl ENOMEM" "s' = tab S"
    | (go) i s1 r where "slot_get H k 1 True (tab S) = (Some i, s1)"
      "trylock_slot H t (bionic_mutex_detect_static_type k v (s1 ! i)) = (rc, r)" "s' = s1[i := r]"
    using c by (auto simp: bionic_pthread_mutex_trylock_def slot_get_def split: prod.splits option.splits)
  then show ?thesis
  proof cases
    case 1
    with inv show ?thesis by (simp add: set_tab_def)
  next
    case go
    define S1 where S1: "S1 = set_tab (s1[i := bionic_mutex_detect_static_type k v (s1 ! i)]) S"
    note T = touch_mutex [OF H inv go(1) S1]
    have lk: "trylock_slot H t (tab S1 ! i) = (rc, r)" using T go(2) by simp
    have s': "set_tab s' S = set_tab ((tab S1)[i := r]) S1" using go(3) by (simp add: S1)
    have T1: "esys_inv H S1" "i < SYNC_SLOTS" "is_mutex (tab S1 ! i)" "slot_find (tab S1) (k, 1) = Some i"
      using T by blast+
    have em: "emutex_inv H (tab S1 ! i) (held S1 i)"
      by (rule mutex_slot_inv [OF esys_invD(3) [OF T1(1,2)] T1(3)])
    have p1: "pcs S1 t = Idle" using t(2) by (simp add: S1)
    show ?thesis unfolding s'
      by (rule call_gain [OF T1(1-3) p1 T1(4) keeps_frames(2) [OF lk] trylock_slot_effect [OF H em t(1) lk]])
  qed
qed


lemma may_releaseD:
  assumes "slots_ok (tab S)" and "may_release H t k (tab S)"
  obtains i where "slot_find (tab S) (k, 1) = Some i" "i < SYNC_SLOTS" "is_mutex (tab S ! i)" "sl_key (tab S ! i) = k"
    "sl_type (tab S ! i) = BIONIC_MUTEX_NORMAL \<Longrightarrow> holder H (sl_m (tab S ! i)) = Some t"
  using assms by (auto simp: may_release_def slot_find_iff slot_hit_def is_mutex_def split: option.splits)

lemma unlock_inv:
  assumes H: "host_mutex_ok H" and inv: "esys_inv H S" and t: "t \<noteq> 0" "pcs S t = Idle"
    and m: "may_release H t k (tab S)" and c: "bionic_pthread_mutex_unlock H t k (tab S) = (rc, s')"
  shows "esys_inv H (if rc = Inr () then lose t k (set_tab s' S) else set_tab s' S)"
proof -
  note D = esys_invD [OF inv]
  obtain i where i: "slot_find (tab S) (k, 1) = Some i" "i < SYNC_SLOTS" "is_mutex (tab S ! i)"
    and g: "sl_type (tab S ! i) = BIONIC_MUTEX_NORMAL \<Longrightarrow> holder H (sl_m (tab S ! i)) = Some t"
    using may_releaseD [OF D(1) m] by metis
  obtain r where u: "unlock_slot H t (tab S ! i) = (rc, r)" and s': "s' = (tab S)[i := r]"
    using c i(1) by (auto simp: bionic_pthread_mutex_unlock_def slot_get_def slot_find_def split: prod.splits)
  have em: "emutex_inv H (tab S ! i) (held S i)" by (rule mutex_slot_inv [OF D(3) [OF i(2)] i(3)])
  have "if rc = Inr () then emutex_inv H r (drop1 t (held S i)) else r = tab S ! i"
    using unlock_slot_effect [OF H em t(1) g u] by (auto split: if_splits)
  from call_lose [OF inv i(2,3) t(2) i(1) keeps_frames(3) [OF u] this] show ?thesis unfolding s' .
qed

lemma resume_inv:
  assumes H: "host_mutex_ok H" and inv: "esys_inv H S" and t: "t \<noteq> 0" "pcs S t = Locking i ow"
    and c: "mutex_lock_resume H t ow (tab S ! i) = Some r"
  shows "esys_inv H (goto t Idle (put_slot i r (bump t (held S i)) S))"
proof -
  note D = esys_invD [OF inv]
  have i: "i < SYNC_SLOTS" "is_mutex (tab S ! i)" "ow = (sl_type (tab S ! i) \<noteq> BIONIC_MUTEX_NORMAL)"
    using D(4) [OF t(1)] t(2) by (simp_all add: pc_ok_def)
  have em: "emutex_inv H (tab S ! i) (held S i)" by (rule mutex_slot_inv [OF D(3) [OF i(1)] i(2)])
  show ?thesis
    by (rule put_mutex_inv [OF inv i(1,2) keeps_frames(4) [OF c] mutex_lock_resume_effect [OF H em t(1) i(3) c]])
      (simp_all add: bump_def)
qed

lemma put_cond_inv:
  assumes inv: "esys_inv H S" and i: "i < SYNC_SLOTS" "\<not> is_mutex (tab S ! i)"
    and k: "keeps (tab S ! i) c" and p: "t \<noteq> 0 \<Longrightarrow> pc_ok S t p"
  shows "esys_inv H (goto t p (put_slot i c (held S i) S))"
proof -
  note D = esys_invD [OF inv]
  have "held S i = (\<lambda>_. 0)" using D(3) [OF i(1)] i(2) by (simp add: mutex_slot_ok_def)
  moreover have "\<not> is_mutex c" using i(2) k by (simp add: is_mutex_def keeps_def)
  ultimately have "mutex_slot_ok H c (held S i)" by (simp add: mutex_slot_ok_def)
  then have a: "mutex_slot_ok H ((tab S)[i := c] ! j) (held S j)" if "j < SYNC_SLOTS" for j
    using D(2) D(3) [OF that] by (cases "j = i") (simp_all add: i)
  have b: "keeps (tab S ! j) ((tab S)[i := c] ! j)" for j using k D(2) i by (cases "j = i") simp_all
  have "pc_ok (goto t p (put_slot i c (held S i) S)) u (if u = t then p else pcs S u)" if "u \<noteq> 0" for u
  proof (rule pc_ok_mono [where S = S])
    show "pc_ok S u (if u = t then p else pcs S u)" using p D(4) that by simp
    show "keeps (tab S ! j) (tab (goto t p (put_slot i c (held S i) S)) ! j)" for j using b by simp
  qed simp
  then show ?thesis using slots_ok_keeps [OF D(1) i(1) k] a by (auto simp: esys_inv_def)
qed

lemma held_bound:
  assumes "emutex_inv H r h" "sl_type r \<noteq> BIONIC_MUTEX_NORMAL"
  shows "h t < 2 ^ 32"
proof (cases "h t = 0")
  case False
  then have "sl_owner r = t" "t \<noteq> 0" using assms unfolding emutex_inv_def by (metis neq0_conv)+
  then have "h t = unat (sl_depth r)" using assms by (simp add: emutex_inv_def)
  then show ?thesis using unsigned_less [of "sl_depth r"] by simp
qed simp

lemma wait_inv:
  assumes H: "host_mutex_ok H" and inv: "esys_inv H S" and t: "t \<noteq> 0" "pcs S t = Idle"
    and m: "may_release H t m (tab S)" and c: "cond_wait_enter H t c m v (tab S) = (out, s')"
  shows "case out of
      WaitFails e \<Rightarrow> esys_inv H (set_tab s' S)
    | WaitSleeps w ci mi \<Rightarrow>
        esys_inv H (goto t (if w = WaitNested then EnterNested ci mi else Sleeping w ci mi)
          (lose t m (set_tab s' S)))"
proof -
  obtain co s1 where g: "slot_get H c 2 True (tab S) = (co, s1)" by fastforce
  define S1 where S1: "S1 = set_tab s1 S"
  note T = touch_other [OF H inv _ g, simplified, folded S1]
  have inv1: "esys_inv H S1" using T by blast
  note D = esys_invD [OF inv1]
  obtain i where i0: "slot_find (tab S) (m, 1) = Some i" "i < SYNC_SLOTS" "is_mutex (tab S ! i)" "sl_key (tab S ! i) = m"
    and g0: "sl_type (tab S ! i) = BIONIC_MUTEX_NORMAL \<Longrightarrow> holder H (sl_m (tab S ! i)) = Some t"
    using may_releaseD [OF esys_invD(1) [OF inv] m] by metis
  then have e: "s1 ! i = tab S ! i" using T by (simp add: is_mutex_def)
  then have i: "slot_find (tab S1) (m, 1) = Some i" "is_mutex (tab S1 ! i)" "sl_key (tab S1 ! i) = m"
    and gd: "sl_type (tab S1 ! i) = BIONIC_MUTEX_NORMAL \<Longrightarrow> holder H (sl_m (tab S1 ! i)) = Some t"
    using i0 g0 slot_find_iff [OF D(1)] by (simp_all add: S1 slot_hit_def is_mutex_def)
  have g2: "slot_get H m 1 True s1 = (Some i, s1)" using i(1) by (simp add: slot_get_def slot_find_def S1)
  have "sl_type_known (tab S1 ! i) \<or> m = 0" using D(3) [OF i0(2)] i(2,3) by (auto simp: mutex_slot_ok_def)
  then have dt: "bionic_mutex_detect_static_type m v (s1 ! i) = tab S1 ! i" using detect_known by (simp add: S1)
  have em: "emutex_inv H (tab S1 ! i) (held S1 i)" by (rule mutex_slot_inv [OF D(3) [OF i0(2)] i(2)])
  show ?thesis
  proof (cases "co = None \<or> cond_wait_begin H t (tab S1 ! i) = None")
    case True
    then have "\<exists>e. out = WaitFails e" "s' = s1"
      using c g g2 dt by (auto simp: cond_wait_enter_def Let_def S1 split: option.splits)
    with inv1 show ?thesis by (auto simp: S1)
  next
    case False
    then obtain ci w r where ci: "co = Some ci" and b: "cond_wait_begin H t (tab S1 ! i) = Some (w, r)" by auto
    then have o: "out = WaitSleeps w ci i" "s' = s1[i := r]"
      using c g g2 dt by (auto simp: cond_wait_enter_def Let_def)
    note B = cond_wait_begin_effect [OF H em t(1) gd b]
    have cs: "ci < SYNC_SLOTS" "sl_used (tab S1 ! ci)" "sl_kind (tab S1 ! ci) = 2"
      using T ci by (auto simp: S1)
    then have ne: "ci \<noteq> i" using i(2) by (auto simp: is_mutex_def)
    have eq: "lose t m (set_tab s' S) = put_slot i r (drop1 t (held S1 i)) S1"
      using gain_eq(2) [OF i(1) refl find_keeps [OF D(1) i(1) keeps_frames(5) [OF b]], of t S]
      by (simp add: o(2) S1)
    let ?p = "if w = WaitNested then EnterNested ci i else Sleeping w ci i"
    have len: "i < length s1" using D(2) i0(2) by (simp add: S1)
    have mr: "is_mutex r" "sl_type r = sl_type (tab S1 ! i)"
      using keeps_frames(5) [OF b] i(2) by (simp_all add: keeps_def is_mutex_def)
    have B1: "0 < held S1 i t" "emutex_inv H r (drop1 t (held S1 i))"
      "(w = WaitNormal) = (sl_type (tab S1 ! i) = BIONIC_MUTEX_NORMAL)" "(w = WaitNested) = (1 < held S1 i t)"
      using B by blast+
    have at: "tab (put_slot i r (drop1 t (held S1 i)) S1) ! i = r"
      "tab (put_slot i r (drop1 t (held S1 i)) S1) ! ci = tab S1 ! ci"
      "held (put_slot i r (drop1 t (held S1 i)) S1) i t = held S1 i t - 1"
      using ne len by (simp_all add: S1 drop1_def)
    have nb: "nested_ok (put_slot i r (drop1 t (held S1 i)) S1) i t" if "w = WaitNested"
    proof -
      have "sl_type (tab S1 ! i) \<noteq> BIONIC_MUTEX_NORMAL" using that B1(3) by auto
      from held_bound [OF em this, of t] that B1(4) show ?thesis by (simp only: nested_ok_def at) auto
    qed
    have "pc_ok (put_slot i r (drop1 t (held S1 i)) S1) t ?p"
      using cs i0(2) B1(3) mr nb D(2) ne by (cases w) (simp_all add: pc_ok_def)
    then have "esys_inv H (goto t ?p (put_slot i r (drop1 t (held S1 i)) S1))"
      by (intro put_mutex_inv [OF inv1 i0(2) i(2) keeps_frames(5) [OF b] B1(2)]) (simp_all add: drop1_def)
    then show ?thesis unfolding o(1) wait_start.case eq .
  qed
qed


lemma nested_inv:
  assumes inv: "esys_inv H S" and t: "t \<noteq> 0"
    and p: "ci < SYNC_SLOTS" "sl_kind (tab S ! ci) = 2" and q: "pc_ok S t p"
    and c: "nested_pass H t (tab S ! ci) = Some c"
  shows "esys_inv H (goto t p (put_slot ci c (held S ci) S))"
  using p q by (intro put_cond_inv [OF inv p(1) _ keeps_frames(7) [OF c]]) (auto simp: is_mutex_def)

lemma wake_inv:
  assumes H: "host_mutex_ok H" and inv: "esys_inv H S" and t: "t \<noteq> 0"
    and p: "pc_ok S t (Sleeping w ci mi)" and c: "cond_wait_end H t w (tab S ! mi) = Some r"
  shows "esys_inv H (goto t Idle (put_slot mi r (bump t (held S mi)) S))"
proof -
  note D = esys_invD [OF inv]
  have i: "mi < SYNC_SLOTS" "is_mutex (tab S ! mi)" "(w = WaitNormal) = (sl_type (tab S ! mi) = BIONIC_MUTEX_NORMAL)"
    "w = WaitNested \<Longrightarrow> nested_ok S mi t" using p by (simp_all add: pc_ok_def)
  have em: "emutex_inv H (tab S ! mi) (held S mi)" by (rule mutex_slot_inv [OF D(3) [OF i(1)] i(2)])
  have d: "sl_depth (tab S ! mi) \<noteq> - 1" if "w = WaitNested"
  proof
    assume m1: "sl_depth (tab S ! mi) = - 1"
    have n: "0 < held S mi t" "held S mi t < 2 ^ 32 - 1" using i(4) [OF that] by (simp_all add: nested_ok_def)
    moreover have "sl_type (tab S ! mi) \<noteq> BIONIC_MUTEX_NORMAL" using i(3) that by auto
    ultimately have "sl_owner (tab S ! mi) = t" using em by (simp add: emutex_inv_def)
    then have "held S mi t = unat (sl_depth (tab S ! mi))"
      using em t \<open>sl_type _ \<noteq> _\<close> by (simp add: emutex_inv_def)
    also have "\<dots> = 2 ^ 32 - 1" by (simp add: m1 unsigned_minus_1_eq_mask mask_eq_exp_minus_1)
    finally show False using n by simp
  qed
  have "emutex_inv H r (bump t (held S mi))"
    using i(4) by (intro cond_wait_end_effect [OF H em t i(3) _ d c]) (simp add: nested_ok_def)
  then show ?thesis by (intro put_mutex_inv [OF inv i(1,2) keeps_frames(6) [OF c]]) (simp_all add: bump_def)
qed

lemma estep_inv:
  assumes H: "host_mutex_ok H" and "estep H S S'" and inv: "esys_inv H S"
  shows "esys_inv H S'"
  using assms(2)
proof cases
  case (init t k a rc s')
  then show ?thesis using init_inv [OF H inv] by simp
next
  case (lock t k v rc s')
  then show ?thesis using lock_inv [OF H inv lock(3,2,4)] by simp
next
  case (lock_block t k v i ow s')
  then show ?thesis using lock_inv [OF H inv lock_block(3,2,4)] by simp
next
  case (lock_resume t i ow r)
  then show ?thesis using resume_inv [OF H inv] by simp
next
  case (trylock t k v rc s')
  then show ?thesis using trylock_inv [OF H inv trylock(3,2,4)] by simp
next
  case (unlock t k rc s')
  then show ?thesis using unlock_inv [OF H inv unlock(3,2,4,5)] by simp
next
  case (wait_fails t m c v e s')
  then show ?thesis using wait_inv [OF H inv wait_fails(3,2,4,5)] by simp
next
  case (wait_sleeps t m c v w ci mi s')
  then show ?thesis using wait_inv [OF H inv wait_sleeps(3,2,4,5)] by simp
next
  case (nested_enter t ci mi c)
  have "pc_ok S t (EnterNested ci mi)" using esys_invD(4) [OF inv nested_enter(3)] nested_enter(2) by simp
  then show ?thesis unfolding nested_enter(1)
    by (intro nested_inv [OF inv nested_enter(3) _ _ _ nested_enter(4)]) (simp_all add: pc_ok_def)
next
  case (wake t w ci mi r)
  have "pc_ok S t (Sleeping w ci mi)" using esys_invD(4) [OF inv wake(3)] wake(2) by simp
  then show ?thesis unfolding wake(1) by (rule wake_inv [OF H inv wake(3) _ wake(5)])
next
  case (wake_nested t ci mi c r)
  have p: "pc_ok S t (Sleeping WaitNested ci mi)" using esys_invD(4) [OF inv wake_nested(3)] wake_nested(2) by simp
  then have ci: "ci < SYNC_SLOTS" "sl_kind (tab S ! ci) = 2" "mi \<noteq> ci" by (auto simp: pc_ok_def is_mutex_def)
  let ?S1 = "goto t (Sleeping WaitNested ci mi) (put_slot ci c (held S ci) S)"
  have inv1: "esys_inv H ?S1" by (rule nested_inv [OF inv wake_nested(3) ci(1,2) p wake_nested(4)])
  have "pc_ok ?S1 t (Sleeping WaitNested ci mi)" using esys_invD(4) [OF inv1 wake_nested(3)] by simp
  moreover have "cond_wait_end H t WaitNested (tab ?S1 ! mi) = Some r" using wake_nested(5) ci(3) by simp
  ultimately have "esys_inv H (goto t Idle (put_slot mi r (bump t (held ?S1 mi)) ?S1))"
    by (rule wake_inv [OF H inv1 wake_nested(3)])
  then show ?thesis unfolding wake_nested(1) using ci(3)
    by (simp add: goto_def put_slot_def)
qed

definition start_esys :: "'m host_mutex \<Rightarrow> 'm esys" where
  "start_esys H = \<lparr>tab = init_slots H, pcs = (\<lambda>_. Idle), held = (\<lambda>_ _. 0)\<rparr>"

lemma start_esys_inv: "esys_inv H (start_esys H)"
  using init_slots_ok by (auto simp: esys_inv_def start_esys_def mutex_slot_ok_def is_mutex_def)
    (auto simp: init_slots_def)

lemma ereach_inv:
  assumes "host_mutex_ok H" and "(estep H)\<^sup>*\<^sup>* (start_esys H) S"
  shows "esys_inv H S"
  using assms(2) by (induction rule: rtranclp_induct) (auto intro: start_esys_inv estep_inv [OF assms(1)])

end
