(* ===== verification/CondSem.thy ===== *)
theory CondSem
  imports SyncSystem
begin

text \<open>
  Clocks, deadlines and semaphores of \<^verbatim>\<open>source/bionic.c\<close>: the guest's clock identifiers, the
  conversion of absolute deadlines into host timeouts (128-bit for condition waits, 64-bit for
  semaphores), the results of condition waits, the semaphore operations on the slot table, and
  the step relation of the threads that wait on one semaphore.
\<close>

section \<open>Clocks and deadlines\<close>

record timespec =
  tv_sec :: int
  tv_nsec :: int

datatype host_clock = CLOCK_REALTIME | CLOCK_MONOTONIC

definition clock_of_id :: "int \<Rightarrow> host_clock option" where
  "clock_of_id i = (if i \<in> {0, 5, 8, 11} then Some CLOCK_REALTIME
     else if i \<in> {1, 2, 3, 4, 6, 7, 9} then Some CLOCK_MONOTONIC else None)"

text \<open>
  \<open>clk\<close> is the host's \<^verbatim>\<open>clock_gettime\<close>.  A null result pointer is \<open>present = False\<close>; the result
  holds the return value and what is stored.
\<close>

definition bionic_clock_gettime ::
  "(host_clock \<Rightarrow> timespec result) \<Rightarrow> int \<Rightarrow> bool \<Rightarrow> unit result \<times> timespec option" where
  "bionic_clock_gettime clk i present =
     (if \<not> present then (Inl EINVAL, None)
      else case clock_of_id i of
             None \<Rightarrow> (Inl EINVAL, Some \<lparr>tv_sec = 0, tv_nsec = 0\<rparr>)
           | Some c \<Rightarrow> (case clk c of Inl e \<Rightarrow> (Inl e, None) | Inr ts \<Rightarrow> (Inr (), Some ts)))"

definition bionic_clock_getres ::
  "(host_clock \<Rightarrow> timespec result) \<Rightarrow> int \<Rightarrow> bool \<Rightarrow> unit result \<times> timespec option" where
  "bionic_clock_getres clk i present =
     (if \<not> present then (Inl EINVAL, None)
      else case bionic_clock_gettime clk i True of
             (Inl e, _) \<Rightarrow> (Inl e, None)
           | (Inr _, _) \<Rightarrow> (Inr (), Some \<lparr>tv_sec = 0, tv_nsec = 1000000\<rparr>))"

text \<open>\<open>TimedOut\<close>: the deadline has passed; otherwise the timeout in nanoseconds.\<close>

datatype deadline = BadDeadline errno | TimedOut | WaitFor u64

definition bionic_cond_abs_timeout_ns ::
  "(host_clock \<Rightarrow> timespec result) \<Rightarrow> int \<Rightarrow> timespec option \<Rightarrow> deadline" where
  "bionic_cond_abs_timeout_ns clk clock_id ab =
     (case ab of
        None \<Rightarrow> BadDeadline EINVAL
      | Some a \<Rightarrow>
          if tv_nsec a < 0 \<or> 1000000000 \<le> tv_nsec a then BadDeadline EINVAL
          else (case bionic_clock_gettime clk clock_id True of
                  (Inr _, Some now) \<Rightarrow>
                    let sec0 = tv_sec a - tv_sec now;
                        nsec0 = tv_nsec a - tv_nsec now;
                        sec = (if nsec0 < 0 then sec0 - 1 else sec0);
                        nsec = (if nsec0 < 0 then nsec0 + 1000000000 else nsec0)
                    in if sec < 0 \<or> (sec = 0 \<and> nsec \<le> 0) then TimedOut
                       else let max_wait = 2 ^ 64 - 2;
                                total = sec * 1000000000 + nsec;
                                total1 = (if max_wait < total then max_wait else total);
                                total2 = (if total1 < 1 then 1 else total1)
                            in WaitFor (word_of_int total2)
                | _ \<Rightarrow> BadDeadline EINVAL))"

text \<open>The 64-bit variant of the semaphores; the sum at the end is in 64 bits.\<close>

definition bionic_sem_abs_timeout_ns ::
  "(host_clock \<Rightarrow> timespec result) \<Rightarrow> timespec option \<Rightarrow> deadline" where
  "bionic_sem_abs_timeout_ns clk ab =
     (case ab of
        None \<Rightarrow> BadDeadline EINVAL
      | Some a \<Rightarrow>
          if tv_sec a < 0 \<or> tv_nsec a < 0 \<or> 1000000000 \<le> tv_nsec a then BadDeadline EINVAL
          else (case bionic_clock_gettime clk 0 True of
                  (Inr _, Some now) \<Rightarrow>
                    let sec0 = tv_sec a - tv_sec now;
                        nsec0 = tv_nsec a - tv_nsec now;
                        sec = (if nsec0 < 0 then sec0 - 1 else sec0);
                        nsec = (if nsec0 < 0 then nsec0 + 1000000000 else nsec0)
                    in if sec < 0 \<or> (sec = 0 \<and> nsec \<le> 0) then TimedOut
                       else let s = word_of_int sec :: u64
                            in if (- 1) div 1000000000 < s then WaitFor (- 1)
                               else let ns = s * 1000000000 + word_of_int nsec
                                    in WaitFor (if ns < 16000 then 16000 else ns)
                | (Inl e, _) \<Rightarrow> BadDeadline e
                | _ \<Rightarrow> BadDeadline EINVAL))"

definition bionic_cond_clock_from_attr :: "u64 option \<Rightarrow> nat" where
  "bionic_cond_clock_from_attr a = (case a of None \<Rightarrow> 0 | Some attr \<Rightarrow> unat (drop_bit 1 attr AND 1))"

definition bionic_pthread_cond_init ::
  "'m host_mutex \<Rightarrow> u64 \<Rightarrow> u64 option \<Rightarrow> 'm slots \<Rightarrow> unit result \<times> 'm slots" where
  "bionic_pthread_cond_init H k a s =
     (if k = 0 then (Inl EINVAL, s)
      else (case slot_get H k 2 True s of
              (None, s1) \<Rightarrow> (Inl ENOMEM, s1)
            | (Some i, s1) \<Rightarrow> (Inr (), s1[i := (s1 ! i)\<lparr>sl_clock := bionic_cond_clock_from_attr a\<rparr>])))"

definition bionic_pthread_cond_destroy :: "u64 \<Rightarrow> 'm slots \<Rightarrow> unit result \<times> 'm slots" where
  "bionic_pthread_cond_destroy k s = (Inr (), slot_release k 2 s)"

text \<open>The host's result code of a wait, as the two kinds of wait report it.\<close>

definition bionic_cond_result :: "u32 \<Rightarrow> bool \<Rightarrow> unit result" where
  "bionic_cond_result r timed =
     (if r = 0 then Inr () else if timed \<and> r = 0xEA01 then Inl ETIMEDOUT else Inl EINVAL)"

definition cond_wait_return :: "u32 \<Rightarrow> unit result" where
  "cond_wait_return r = (if r = 0 \<or> r = 0xEA01 then Inr () else Inl EINVAL)"

text \<open>A timed wait up to the sleep: a deadline that is bad or past leaves the mutex alone.\<close>

definition cond_timedwait_enter ::
  "'m host_mutex \<Rightarrow> (host_clock \<Rightarrow> timespec result) \<Rightarrow> nat \<Rightarrow> u64 \<Rightarrow> u64 \<Rightarrow> u32 \<Rightarrow> timespec option \<Rightarrow>
   'm slots \<Rightarrow> (wait_start \<times> u64) \<times> 'm slots" where
  "cond_timedwait_enter H clk tid c m v t s =
     (case slot_get H c 2 True s of
        (co, s1) \<Rightarrow>
          (case slot_get H m 1 True s1 of
             (Some mi, s2) \<Rightarrow>
               (case co of
                  None \<Rightarrow> ((WaitFails EINVAL, 0), s2)
                | Some ci \<Rightarrow>
                    let r = bionic_mutex_detect_static_type m v (s2 ! mi); s3 = s2[mi := r]
                    in (case bionic_cond_abs_timeout_ns clk (int (sl_clock (s3 ! ci))) t of
                          BadDeadline _ \<Rightarrow> ((WaitFails EINVAL, 0), s3)
                        | TimedOut \<Rightarrow> ((WaitFails ETIMEDOUT, 0), s3)
                        | WaitFor ns \<Rightarrow>
                            (case cond_wait_begin H tid r of
                               None \<Rightarrow> ((WaitFails EINVAL, 0), s3)
                             | Some (w, r') \<Rightarrow> ((WaitSleeps w ci mi, ns), s3[mi := r']))))
           | (None, s2) \<Rightarrow> ((WaitFails EINVAL, 0), s2)))"

section \<open>Semaphores\<close>

definition sem_positive :: "'m sync_slot \<Rightarrow> bool" where
  "sem_positive r \<longleftrightarrow> 0 < sint (sl_count r)"

definition sem_inc :: "'m sync_slot \<Rightarrow> 'm sync_slot" where
  "sem_inc r = r\<lparr>sl_count := sl_count r + 1\<rparr>"

definition sem_dec :: "'m sync_slot \<Rightarrow> 'm sync_slot" where
  "sem_dec r = r\<lparr>sl_count := sl_count r - 1\<rparr>"

definition with_sem ::
  "'m host_mutex \<Rightarrow> u64 \<Rightarrow> ('m sync_slot \<Rightarrow> 'a result \<times> 'm sync_slot) \<Rightarrow> 'm slots \<Rightarrow> 'a result \<times> 'm slots" where
  "with_sem H k f s =
     (case slot_get H k 3 True s of
        (None, s1) \<Rightarrow> (Inl ENOMEM, s1)
      | (Some i, s1) \<Rightarrow> (case f (s1 ! i) of (rc, r) \<Rightarrow> (rc, s1[i := r])))"

definition bionic_sem_init :: "'m host_mutex \<Rightarrow> u64 \<Rightarrow> u32 \<Rightarrow> 'm slots \<Rightarrow> unit result \<times> 'm slots" where
  "bionic_sem_init H k v = with_sem H k (\<lambda>r. (Inr (), r\<lparr>sl_count := v\<rparr>))"

definition bionic_sem_destroy :: "u64 \<Rightarrow> 'm slots \<Rightarrow> unit result \<times> 'm slots" where
  "bionic_sem_destroy k s = (Inr (), slot_release k 3 s)"

definition bionic_sem_post :: "'m host_mutex \<Rightarrow> u64 \<Rightarrow> 'm slots \<Rightarrow> unit result \<times> 'm slots" where
  "bionic_sem_post H k = with_sem H k (\<lambda>r. (Inr (), sem_inc r))"

definition sem_try :: "'m sync_slot \<Rightarrow> unit result \<times> 'm sync_slot" where
  "sem_try r = (if sem_positive r then (Inr (), sem_dec r) else (Inl EAGAIN, r))"

definition bionic_sem_trywait :: "'m host_mutex \<Rightarrow> u64 \<Rightarrow> 'm slots \<Rightarrow> unit result \<times> 'm slots" where
  "bionic_sem_trywait H k = with_sem H k sem_try"

definition bionic_sem_getvalue :: "'m host_mutex \<Rightarrow> u64 \<Rightarrow> bool \<Rightarrow> 'm slots \<Rightarrow> u32 result \<times> 'm slots" where
  "bionic_sem_getvalue H k present s =
     (if present then with_sem H k (\<lambda>r. (Inr (sl_count r), r)) s else (Inl EINVAL, s))"

text \<open>One pass of the loop of \<^verbatim>\<open>bionic_sem_wait\<close>: take a permit, or sleep.\<close>

datatype sem_pass = Taken | SleepsFor "u64 option" | Gives errno

definition sem_wait_pass :: "'m sync_slot \<Rightarrow> sem_pass \<times> 'm sync_slot" where
  "sem_wait_pass r = (if sem_positive r then (Taken, sem_dec r) else (SleepsFor None, r))"

definition sem_timedwait_pass ::
  "(host_clock \<Rightarrow> timespec result) \<Rightarrow> timespec option \<Rightarrow> 'm sync_slot \<Rightarrow> sem_pass \<times> 'm sync_slot" where
  "sem_timedwait_pass clk t r =
     (if sem_positive r then (Taken, sem_dec r)
      else case bionic_sem_abs_timeout_ns clk t of
             BadDeadline e \<Rightarrow> (Gives e, r)
           | TimedOut \<Rightarrow> (Gives ETIMEDOUT, r)
           | WaitFor ns \<Rightarrow> (SleepsFor (Some ns), r))"

section \<open>The threads of one semaphore\<close>

text \<open>
  \<open>asleep\<close> are the threads in \<^verbatim>\<open>condvarWait\<close>, \<open>awake\<close> those that a \<^verbatim>\<open>condvarWakeOne\<close> has woken and
  that have not yet looked at the count again.  \<open>posts\<close> and \<open>takes\<close> count what happened.
\<close>

record 'm semsys =
  sem :: "'m sync_slot"
  asleep :: "nat set"
  awake :: "nat set"
  posts :: nat
  takes :: nat

text \<open>\<open>pick\<close> is the thread that \<^verbatim>\<open>condvarWakeOne\<close> chooses; nobody when nobody sleeps.\<close>

definition wake_one :: "nat \<Rightarrow> 'm semsys \<Rightarrow> 'm semsys" where
  "wake_one pick S =
     (if pick \<in> asleep S then S\<lparr>asleep := asleep S - {pick}, awake := insert pick (awake S)\<rparr> else S)"

inductive sstep :: "'m semsys \<Rightarrow> 'm semsys \<Rightarrow> bool" where
  post: "asleep S = {} \<or> pick \<in> asleep S \<Longrightarrow>
    sstep S (wake_one pick (S\<lparr>sem := sem_inc (sem S), posts := posts S + 1\<rparr>))"
| wait: "t \<notin> asleep S \<union> awake S \<Longrightarrow> sem_wait_pass (sem S) = (Taken, r) \<Longrightarrow>
    sstep S (S\<lparr>sem := r, takes := takes S + 1\<rparr>)"
| wait_sleep: "t \<notin> asleep S \<union> awake S \<Longrightarrow> sem_wait_pass (sem S) = (SleepsFor n, r) \<Longrightarrow>
    sstep S (S\<lparr>sem := r, asleep := insert t (asleep S)\<rparr>)"
| timed: "t \<notin> asleep S \<union> awake S \<Longrightarrow> sem_timedwait_pass clk d (sem S) = (Taken, r) \<Longrightarrow>
    sstep S (S\<lparr>sem := r, takes := takes S + 1\<rparr>)"
| timed_sleep: "t \<notin> asleep S \<union> awake S \<Longrightarrow> sem_timedwait_pass clk d (sem S) = (SleepsFor n, r) \<Longrightarrow>
    sstep S (S\<lparr>sem := r, asleep := insert t (asleep S)\<rparr>)"
| timed_gives: "t \<notin> asleep S \<union> awake S \<Longrightarrow> sem_timedwait_pass clk d (sem S) = (Gives e, r) \<Longrightarrow>
    sstep S (S\<lparr>sem := r\<rparr>)"
| timeout: "t \<in> asleep S \<Longrightarrow> sstep S (S\<lparr>asleep := asleep S - {t}\<rparr>)"
| wake: "t \<in> awake S \<Longrightarrow> sem_wait_pass (sem S) = (Taken, r) \<Longrightarrow>
    sstep S (S\<lparr>sem := r, awake := awake S - {t}, takes := takes S + 1\<rparr>)"
| wake_sleep: "t \<in> awake S \<Longrightarrow> sem_wait_pass (sem S) = (SleepsFor n, r) \<Longrightarrow>
    sstep S (S\<lparr>sem := r, awake := awake S - {t}, asleep := insert t (asleep S)\<rparr>)"
| wake_timed: "t \<in> awake S \<Longrightarrow> sem_timedwait_pass clk d (sem S) = (Gives e, r) \<Longrightarrow>
    sstep S (S\<lparr>sem := r, awake := awake S - {t}\<rparr>)"
| try_ok: "sem_try (sem S) = (Inr (), r) \<Longrightarrow> sstep S (S\<lparr>sem := r, takes := takes S + 1\<rparr>)"
| try_fails: "sem_try (sem S) = (Inl e, r) \<Longrightarrow> sstep S (S\<lparr>sem := r\<rparr>)"

definition sem_inv :: "u32 \<Rightarrow> 'm semsys \<Rightarrow> bool" where
  "sem_inv c0 S \<longleftrightarrow> finite (awake S) \<and> asleep S \<inter> awake S = {} \<and>
     (asleep S = {} \<or> sint (sl_count (sem S)) \<le> int (card (awake S))) \<and>
     sl_count (sem S) = c0 + of_nat (posts S) - of_nat (takes S)"


lemma sint_range: "- (2 ^ 31) \<le> sint (c :: u32) \<and> sint c < 2 ^ 31"
  using sint_ge [of c] sint_less [of c] by simp

lemma sint_shift: "sint (c + d :: u32) = (sint c + sint d + 2 ^ 31) mod 2 ^ 32 - 2 ^ 31"
  by (simp add: sint_word_ariths signed_take_bit_eq_take_bit_shift take_bit_eq_mod)

lemma sint_inc_le: "sint (c + 1 :: u32) \<le> sint c + 1"
proof -
  have "(sint c + 1 + 2 ^ 31) mod 2 ^ 32 \<le> sint c + 1 + 2 ^ 31"
    using sint_range [of c] by (intro zmod_le_nonneg_dividend) simp
  then show ?thesis by (simp add: sint_shift)
qed

lemma sint_dec:
  assumes "0 < sint (c :: u32)"
  shows "sint (c - 1) = sint c - 1"
proof -
  have "sint (c + - 1) = (sint c + sint (- 1 :: u32) + 2 ^ 31) mod 2 ^ 32 - 2 ^ 31" by (rule sint_shift)
  also have "\<dots> = (sint c - 1 + 2 ^ 31) mod 2 ^ 32 - 2 ^ 31" by simp
  also have "(sint c - 1 + 2 ^ 31) mod 2 ^ 32 = sint c - 1 + 2 ^ 31"
    using assms sint_range [of c] by (intro mod_pos_pos_trivial) simp_all
  finally show ?thesis by simp
qed

lemma sem_dec_effect:
  assumes "sem_positive r"
  shows "sint (sl_count (sem_dec r)) = sint (sl_count r) - 1" and "sl_count (sem_dec r) = sl_count r - 1"
  using assms by (simp_all add: sem_positive_def sem_dec_def sint_dec)

lemma pass_cases:
  "sem_wait_pass r = (Taken, r') \<Longrightarrow> sem_positive r \<and> r' = sem_dec r"
  "sem_wait_pass r = (SleepsFor n, r') \<Longrightarrow> \<not> sem_positive r \<and> r' = r"
  "sem_timedwait_pass clk d r = (Taken, r') \<Longrightarrow> sem_positive r \<and> r' = sem_dec r"
  "sem_timedwait_pass clk d r = (SleepsFor n, r') \<Longrightarrow> \<not> sem_positive r \<and> r' = r"
  "sem_timedwait_pass clk d r = (Gives e, r') \<Longrightarrow> \<not> sem_positive r \<and> r' = r"
  "sem_try r = (Inr u, r') \<Longrightarrow> sem_positive r \<and> r' = sem_dec r"
  "sem_try r = (Inl e, r') \<Longrightarrow> \<not> sem_positive r \<and> r' = r"
  by (auto simp: sem_wait_pass_def sem_timedwait_pass_def sem_try_def split: if_splits deadline.splits)

lemma take_inv:
  assumes "sem_inv c0 S" and "sem_positive (sem S)" and "A = awake S \<or> t \<in> awake S \<and> A = awake S - {t}"
  shows "sem_inv c0 (S\<lparr>sem := sem_dec (sem S), awake := A, takes := takes S + 1\<rparr>)"
proof -
  have "int (card (awake S)) - 1 \<le> int (card A)"
    using assms(1,3) by (auto simp: sem_inv_def card_Diff_singleton_if of_nat_diff)
  with assms sem_dec_effect [OF assms(2)] show ?thesis
    by (auto simp: sem_inv_def)
qed

lemma sleep_inv:
  assumes "sem_inv c0 S" and "\<not> sem_positive (sem S)" and "A \<subseteq> awake S" and "B \<subseteq> asleep S \<union> {t}"
    and "t \<notin> A"
  shows "sem_inv c0 (S\<lparr>asleep := B, awake := A\<rparr>)"
  using assms by (auto simp: sem_inv_def sem_positive_def intro: finite_subset)

lemma sstep_inv:
  assumes "sstep S S'" and inv: "sem_inv c0 S"
  shows "sem_inv c0 S'"
  using assms(1)
proof cases
  case (post pick)
  show ?thesis
  proof (cases "pick \<in> asleep S")
    case True
    with inv have "pick \<notin> awake S" "finite (awake S)" unfolding sem_inv_def by blast+
    then have "card (insert pick (awake S)) = Suc (card (awake S))" by simp
    with True inv sint_inc_le [of "sl_count (sem S)"] show ?thesis
      by (auto simp: post(1) sem_inv_def wake_one_def sem_inc_def)
  next
    case False
    with post inv show ?thesis by (auto simp: sem_inv_def wake_one_def sem_inc_def)
  qed
next
  case (wait t r)
  with take_inv [OF inv, of "awake S"] pass_cases(1) show ?thesis by fastforce
next
  case (timed t clk d r)
  with take_inv [OF inv, of "awake S"] pass_cases(3) show ?thesis by fastforce
next
  case (try_ok r)
  with take_inv [OF inv, of "awake S"] pass_cases(6) show ?thesis by fastforce
next
  case (wait_sleep t n r)
  with sleep_inv [OF inv, of "awake S" "insert t (asleep S)" t] pass_cases(2) show ?thesis by fastforce
next
  case (timed_sleep t clk d n r)
  with sleep_inv [OF inv, of "awake S" "insert t (asleep S)" t] pass_cases(4) show ?thesis by fastforce
next
  case (timed_gives t clk d e r)
  with pass_cases(5) inv show ?thesis by fastforce
next
  case (timeout t)
  with inv show ?thesis by (auto simp: sem_inv_def)
next
  case (wake t r)
  with take_inv [OF inv, of "awake S - {t}" t] pass_cases(1) show ?thesis by fastforce
next
  case (wake_sleep t n r)
  have "sem_inv c0 (S\<lparr>asleep := insert t (asleep S), awake := awake S - {t}\<rparr>)"
    using pass_cases(2) [OF wake_sleep(3)] by (intro sleep_inv [OF inv, of _ _ t]) auto
  moreover have "S' = S\<lparr>asleep := insert t (asleep S), awake := awake S - {t}\<rparr>"
    using wake_sleep(1) pass_cases(2) [OF wake_sleep(3)] by (cases S) simp
  ultimately show ?thesis by simp
next
  case (wake_timed t clk d e r)
  have "sem_inv c0 (S\<lparr>asleep := asleep S, awake := awake S - {t}\<rparr>)"
    using pass_cases(5) [OF wake_timed(3)] by (intro sleep_inv [OF inv, of _ _ t]) auto
  with wake_timed pass_cases(5) [OF wake_timed(3)] show ?thesis by simp
next
  case (try_fails e r)
  with pass_cases(7) inv show ?thesis by fastforce
qed

end
