(* ===== verification/SyncProps.thy ===== *)
theory SyncProps
  imports CondSem
begin

text \<open>
  The properties of the emulated synchronisation objects, and the one-time initialisation.
\<close>

section \<open>One-time initialisation\<close>

text \<open>
  \<^verbatim>\<open>bionic_pthread_once\<close> on the guest's control word: 0 before, 1 while the routine runs, 2 after.
  \<open>once_enter\<close> is the compare-and-swap; \<open>calls\<close> counts the calls of the routine.
\<close>

datatype once_pc = Fresh | InRoutine | Spinning | Returned_once

record once =
  word :: u32
  opc :: "nat \<Rightarrow> once_pc"
  calls :: nat
  finished :: bool

definition once_enter :: "u32 \<Rightarrow> u32 \<times> once_pc" where
  "once_enter w = (if w = 2 then (w, Returned_once) else if w = 0 then (1, InRoutine) else (w, Spinning))"

definition once_poll :: "u32 \<Rightarrow> once_pc" where
  "once_poll w = (if w \<noteq> 2 then Spinning else Returned_once)"

inductive ostep :: "once \<Rightarrow> once \<Rightarrow> bool" where
  enter: "opc S t = Fresh \<Longrightarrow> once_enter (word S) = (w, p) \<Longrightarrow>
    ostep S (S\<lparr>word := w, opc := (opc S)(t := p), calls := calls S + (if p = InRoutine then 1 else 0)\<rparr>)"
| leave: "opc S t = InRoutine \<Longrightarrow>
    ostep S (S\<lparr>word := 2, opc := (opc S)(t := Returned_once), finished := True\<rparr>)"
| poll: "opc S t = Spinning \<Longrightarrow> ostep S (S\<lparr>opc := (opc S)(t := once_poll (word S))\<rparr>)"

definition start_once :: once where
  "start_once = \<lparr>word = 0, opc = (\<lambda>_. Fresh), calls = 0, finished = False\<rparr>"

definition once_inv :: "once \<Rightarrow> bool" where
  "once_inv S \<longleftrightarrow>
     (word S = 0 \<and> calls S = 0 \<and> \<not> finished S \<and> (\<forall>t. opc S t = Fresh)) \<or>
     (word S = 1 \<and> calls S = 1 \<and> \<not> finished S \<and> (\<exists>r. opc S r = InRoutine \<and>
        (\<forall>t. t \<noteq> r \<longrightarrow> opc S t \<in> {Fresh, Spinning}))) \<or>
     (word S = 2 \<and> calls S = 1 \<and> finished S \<and> (\<forall>t. opc S t \<noteq> InRoutine))"

lemma once_cases:
  assumes "once_inv S"
  obtains (zero) "word S = 0" "calls S = 0" "\<not> finished S" "\<forall>t. opc S t = Fresh"
    | (one) r where "word S = 1" "calls S = 1" "\<not> finished S" "opc S r = InRoutine"
        "\<forall>t. t \<noteq> r \<longrightarrow> opc S t \<in> {Fresh, Spinning}"
    | (two) "word S = 2" "calls S = 1" "finished S" "\<forall>t. opc S t \<noteq> InRoutine"
  using assms unfolding once_inv_def by (elim disjE conjE exE) metis+

lemma ostep_inv:
  assumes "ostep S S'" and "once_inv S"
  shows "once_inv S'"
  using assms
proof cases
  case (enter t w p)
  show ?thesis
    using assms(2)
  proof (cases rule: once_cases)
    case zero
    with enter have "w = 1" "p = InRoutine" by (auto simp: once_enter_def)
    with enter zero show ?thesis by (auto simp: once_inv_def)
  next
    case (one q)
    with enter have p: "w = 1" "p = Spinning" "t \<noteq> q" by (auto simp: once_enter_def)
    have "\<exists>r'. ((opc S)(t := p)) r' = InRoutine \<and> (\<forall>u. u \<noteq> r' \<longrightarrow> ((opc S)(t := p)) u \<in> {Fresh, Spinning})"
      by (rule exI [of _ q]) (use one p in auto)
    with enter one p show ?thesis by (simp add: once_inv_def)
  next
    case two
    with enter show ?thesis by (auto simp: once_inv_def once_enter_def)
  qed
next
  case (leave t)
  have "calls S = 1 \<and> (\<forall>u. u \<noteq> t \<longrightarrow> opc S u \<noteq> InRoutine)"
    using assms(2)
  proof (cases rule: once_cases)
    case (one r)
    moreover from this leave have "t = r" by (cases "t = r") auto
    ultimately show ?thesis by auto
  qed (use leave in auto)
  with leave show ?thesis by (auto simp: once_inv_def)
next
  case (poll t)
  show ?thesis
  proof (cases "word S = 2")
    case True
    with assms(2) poll show ?thesis by (auto simp: once_inv_def once_poll_def)
  next
    case False
    then have "S' = S" using poll by (simp add: once_poll_def fun_upd_idem)
    with assms(2) show ?thesis by simp
  qed
qed

lemma oreach_inv: "ostep\<^sup>*\<^sup>* start_once S \<Longrightarrow> once_inv S"
proof (induction rule: rtranclp_induct)
  case base
  show ?case by (simp add: once_inv_def start_once_def)
qed (rule ostep_inv)


section \<open>Properties\<close>


text \<open>The state after \<open>n\<close> locks of a free recursive mutex.\<close>

fun relock :: "'m host_mutex \<Rightarrow> nat \<Rightarrow> nat \<Rightarrow> 'm sync_slot \<Rightarrow> lock_outcome list \<times> 'm sync_slot" where
  "relock H tid 0 r = ([], r)"
| "relock H tid (Suc n) r =
     (case lock_slot H tid 0 r of (out, r1) \<Rightarrow> (case relock H tid n r1 of (outs, r2) \<Rightarrow> (out # outs, r2)))"

fun reunlock :: "'m host_mutex \<Rightarrow> nat \<Rightarrow> nat \<Rightarrow> 'm sync_slot \<Rightarrow> unit result list \<times> 'm sync_slot" where
  "reunlock H tid 0 r = ([], r)"
| "reunlock H tid (Suc n) r =
     (case unlock_slot H tid r of (rc, r1) \<Rightarrow> (case reunlock H tid n r1 of (rcs, r2) \<Rightarrow> (rc # rcs, r2)))"

lemma relock_owned:
  assumes "sl_type r = BIONIC_MUTEX_RECURSIVE" and "sl_owner r = tid" and "unat (sl_depth r) + n < 2 ^ 32"
  shows "relock H tid n r = (replicate n (Returned (Inr ())), r\<lparr>sl_depth := sl_depth r + of_nat n\<rparr>)"
  using assms
proof (induction n arbitrary: r)
  case (Suc n)
  have "sl_depth r \<noteq> - 1"
  proof
    assume "sl_depth r = - 1"
    then have "unat (sl_depth r) = 2 ^ 32 - 1" by (simp add: unsigned_minus_1_eq_mask mask_eq_exp_minus_1)
    with Suc(4) show False by simp
  qed
  then have l: "lock_slot H tid 0 r = (Returned (Inr ()), r\<lparr>sl_depth := sl_depth r + 1\<rparr>)"
    using Suc(2,3) by (simp add: lock_slot_def reenter_def)
  have "1 + sl_depth r \<noteq> 0" using \<open>sl_depth r \<noteq> - 1\<close> by (metis add_eq_0_iff)
  then have "unat (sl_depth r + 1) = Suc (unat (sl_depth r))" by (simp add: unatSuc add.commute)
  then have "relock H tid n (r\<lparr>sl_depth := sl_depth r + 1\<rparr>) = (replicate n (Returned (Inr ())),
      (r\<lparr>sl_depth := sl_depth r + 1\<rparr>)\<lparr>sl_depth := sl_depth r + 1 + of_nat n\<rparr>)"
    using Suc(2-4) Suc.IH [of "r\<lparr>sl_depth := sl_depth r + 1\<rparr>"] by simp
  then show ?case by (simp add: l algebra_simps)
qed simp

lemma reunlock_owned:
  assumes "sl_type r = BIONIC_MUTEX_RECURSIVE" and "sl_owner r = tid" and "n < unat (sl_depth r)"
  shows "reunlock H tid n r = (replicate n (Inr ()), r\<lparr>sl_depth := sl_depth r - of_nat n\<rparr>)"
  using assms
proof (induction n arbitrary: r)
  case (Suc n)
  then have d: "1 < sl_depth r" "sl_depth r \<noteq> 0" by (auto simp: word_less_nat_alt)
  then have u: "unlock_slot H tid r = (Inr (), r\<lparr>sl_depth := sl_depth r - 1\<rparr>)"
    using Suc(2,3) by (simp add: unlock_slot_def)
  have "unat (sl_depth r - 1) = unat (sl_depth r) - 1" using d(2) by (rule unat_minus_one)
  then have "reunlock H tid n (r\<lparr>sl_depth := sl_depth r - 1\<rparr>) = (replicate n (Inr ()),
      (r\<lparr>sl_depth := sl_depth r - 1\<rparr>)\<lparr>sl_depth := sl_depth r - 1 - of_nat n\<rparr>)"
    using Suc(2-4) Suc.IH [of "r\<lparr>sl_depth := sl_depth r - 1\<rparr>"] by simp
  then show ?case by (simp add: u algebra_simps)
qed simp

lemma reunlock_snoc:
  "reunlock H tid n r = (rcs, r1) \<Longrightarrow> unlock_slot H tid r1 = (rc, r2) \<Longrightarrow>
   reunlock H tid (Suc n) r = (rcs @ [rc], r2)"
proof (induction n arbitrary: r rcs)
  case (Suc n)
  obtain rc0 r0 where u: "unlock_slot H tid r = (rc0, r0)" by fastforce
  with Suc(2) obtain rcs0 where "reunlock H tid n r0 = (rcs0, r1)" "rcs = rc0 # rcs0" by (auto split: prod.splits)
  with Suc.IH [OF this(1) Suc(3)] u show ?case by (simp del: reunlock.simps add: reunlock.simps(2) [of H tid "Suc n"])
qed simp

text \<open>
  Recursion is counted exactly: a thread that locks a free recursive mutex \<open>n\<close> times gets
  0 each time; \<open>m < n\<close> unlocks leave it holding the host mutex at depth \<open>n - m\<close>, the \<open>n\<close>-th frees
  it, and one more unlock is refused with \<open>EPERM\<close> and changes nothing.
\<close>

theorem recursive_mutex_balanced:
  assumes H: "host_mutex_ok H" and free: "holder H (sl_m r) = None" "sl_owner r = 0"
    and ty: "sl_type r = BIONIC_MUTEX_RECURSIVE" and t: "tid \<noteq> 0" and n: "m < n" "n < 2 ^ 32"
  shows "\<exists>r1 r2 r3.
    relock H tid n r = (replicate n (Returned (Inr ())), r1) \<and>
    reunlock H tid m r1 = (replicate m (Inr ()), r2) \<and>
    unat (sl_depth r2) = n - m \<and> holder H (sl_m r2) = Some tid \<and>
    reunlock H tid (n - m) r2 = (replicate (n - m) (Inr ()), r3) \<and>
    holder H (sl_m r3) = None \<and> unlock_slot H tid r3 = (Inl EPERM, r3)"
proof -
  obtain b mx where lk: "mutexTryLock H tid (sl_m r) = (b, mx)" by fastforce
  have b: "b" "holder H mx = Some tid" using try_lock_cases [OF H lk] free(1) by auto
  let ?r0 = "own tid mx r"
  obtain n' where n': "n = Suc n'" using n(1) by (cases n) auto
  have l: "lock_slot H tid 0 r = (Returned (Inr ()), ?r0)" using lk b free ty t by (simp add: lock_slot_def)
  let ?r1 = "?r0\<lparr>sl_depth := of_nat n\<rparr>"
  have "relock H tid n' ?r0 = (replicate n' (Returned (Inr ())), ?r0\<lparr>sl_depth := sl_depth ?r0 + of_nat n'\<rparr>)"
    using ty n by (intro relock_owned) (simp_all add: own_def n')
  then have R1: "relock H tid n r = (replicate n (Returned (Inr ())), ?r1)"
    by (simp add: n' l own_def)
  have un: "unat (of_nat n :: u32) = n" using n(2) by (simp add: unat_of_nat take_bit_nat_eq_self)
  let ?r2 = "?r1\<lparr>sl_depth := of_nat n - of_nat m\<rparr>"
  have R2: "reunlock H tid m ?r1 = (replicate m (Inr ()), ?r2)"
    using ty n(1) un by (subst reunlock_owned) (simp_all add: own_def)
  have nm: "(of_nat n - of_nat m :: u32) = of_nat (n - m)" using n(1) by (simp add: of_nat_diff)
  have "unat (of_nat n - of_nat m :: u32) = n - m" using n by (intro of_nat_inverse [OF nm [symmetric]]) simp
  then have d2: "unat (sl_depth ?r2) = n - m" by simp
  let ?r9 = "?r2\<lparr>sl_depth := 1\<rparr>"
  let ?r3 = "?r9\<lparr>sl_depth := 0, sl_owner := 0, sl_m := mutexUnlock H tid mx\<rparr>"
  obtain k where k: "n - m = Suc k" using n(1) by (cases "n - m") auto
  have "sl_depth ?r2 - of_nat k = (of_nat (Suc k) :: u32) - of_nat k"
    using nm k by simp
  then have d1: "sl_depth ?r2 - of_nat k = 1" by simp
  have "reunlock H tid k ?r2 = (replicate k (Inr ()), ?r2\<lparr>sl_depth := sl_depth ?r2 - of_nat k\<rparr>)"
    using ty d2 k by (intro reunlock_owned) (simp_all add: own_def)
  then have "reunlock H tid k ?r2 = (replicate k (Inr ()), ?r9)" unfolding d1 .
  moreover have "unlock_slot H tid ?r9 = (Inr (), ?r3)" using ty by (simp add: unlock_slot_def own_def)
  ultimately have R3: "reunlock H tid (Suc k) ?r2 = (replicate (Suc k) (Inr ()), ?r3)"
    using reunlock_snoc [of H tid k ?r2 _ ?r9] by (simp only: replicate_append_same replicate_Suc)
  have "holder H (sl_m ?r3) = None" using host_mutexD(4) [OF H b(2)] by simp
  moreover have "unlock_slot H tid ?r3 = (Inl EPERM, ?r3)" using ty t by (simp add: unlock_slot_def own_def)
  moreover have "holder H (sl_m ?r2) = Some tid" using b(2) by (simp add: own_def)
  ultimately show ?thesis using R1 R2 R3 d2 k by (intro exI [of _ ?r1] exI [of _ ?r2] exI [of _ ?r3]) simp
qed


definition nanos :: "timespec \<Rightarrow> int" where
  "nanos t = tv_sec t * 1000000000 + tv_nsec t"

lemma split_diff:
  assumes "0 \<le> tv_nsec a" "tv_nsec a < 1000000000" "0 \<le> tv_nsec now" "tv_nsec now < 1000000000"
    and "sec = (if tv_nsec a - tv_nsec now < 0 then tv_sec a - tv_sec now - 1 else tv_sec a - tv_sec now)"
    and "nsec = (if tv_nsec a - tv_nsec now < 0 then tv_nsec a - tv_nsec now + 1000000000 else tv_nsec a - tv_nsec now)"
  shows "sec * 1000000000 + nsec = nanos a - nanos now \<and> 0 \<le> nsec \<and> nsec < 1000000000 \<and>
    (sec < 0 \<or> (sec = 0 \<and> nsec \<le> 0)) = (nanos a \<le> nanos now)"
  using assms by (auto simp: nanos_def algebra_simps split: if_splits)

text \<open>
  The deadline of a timed condition wait is converted exactly: it has passed if and only if
  the clock has reached it, and otherwise the host timeout is the difference in nanoseconds, cut
  off at the largest finite timeout; never zero and never wrapped around.
\<close>

theorem cond_deadline_exact:
  assumes "clock_of_id i = Some c" and "clk c = Inr now"
    and "0 \<le> tv_nsec now" "tv_nsec now < 1000000000" "0 \<le> tv_nsec a" "tv_nsec a < 1000000000"
  shows "bionic_cond_abs_timeout_ns clk i (Some a) =
    (if nanos a \<le> nanos now then TimedOut
     else WaitFor (word_of_int (min (nanos a - nanos now) (2 ^ 64 - 2)))) \<and>
    (nanos a \<le> nanos now \<or>
     uint (word_of_int (min (nanos a - nanos now) (2 ^ 64 - 2)) :: u64) = min (nanos a - nanos now) (2 ^ 64 - 2))"
proof -
  define nsec where "nsec = (if tv_nsec a - tv_nsec now < 0 then tv_nsec a - tv_nsec now + 1000000000
    else tv_nsec a - tv_nsec now)"
  define sec where "sec = (if tv_nsec a - tv_nsec now < 0 then tv_sec a - tv_sec now - 1
    else tv_sec a - tv_sec now)"
  note S = split_diff [OF assms(5,6,3,4) sec_def nsec_def]
  have g: "bionic_clock_gettime clk i True = (Inr (), Some now)" using assms by (simp add: bionic_clock_gettime_def)
  have "bionic_cond_abs_timeout_ns clk i (Some a) =
    (if sec < 0 \<or> (sec = 0 \<and> nsec \<le> 0) then TimedOut
     else let total = sec * 1000000000 + nsec; total1 = (if 2 ^ 64 - 2 < total then 2 ^ 64 - 2 else total);
              total2 = (if total1 < 1 then 1 else total1) in WaitFor (word_of_int total2))"
    using assms(5,6) unfolding bionic_cond_abs_timeout_ns_def option.case g prod.case sum.case Let_def sec_def nsec_def
    by (simp add: Let_def)
  also have "\<dots> = (if nanos a \<le> nanos now then TimedOut
     else WaitFor (word_of_int (min (nanos a - nanos now) (2 ^ 64 - 2))))"
    using S by (auto simp: Let_def min_def)
  finally have eq: "bionic_cond_abs_timeout_ns clk i (Some a) = \<dots>" .
  have "uint (word_of_int (min (nanos a - nanos now) (2 ^ 64 - 2)) :: u64) = min (nanos a - nanos now) (2 ^ 64 - 2)"
    if "nanos now < nanos a"
    using that by (intro word_of_int_inverse [OF refl]) (auto simp: min_def)
  with eq show ?thesis by (cases "nanos a \<le> nanos now") simp_all
qed

text \<open>
  The semaphore's conversion is exact up to a floor of 16 microseconds, as long as the wait
  is shorter than \<open>2 ^ 64\<close> nanoseconds; its guard against overflow looks at the seconds only, and
  a wait of 18446744073.9 seconds wraps around to the floor instead of being cut off.
\<close>

theorem sem_deadline_exact:
  assumes "clk CLOCK_REALTIME = Inr now"
    and "0 \<le> tv_nsec now" "tv_nsec now < 1000000000" "0 \<le> tv_nsec a" "tv_nsec a < 1000000000" "0 \<le> tv_sec a"
    and "nanos a - nanos now < 2 ^ 64"
  shows "bionic_sem_abs_timeout_ns clk (Some a) =
    (if nanos a \<le> nanos now then TimedOut else WaitFor (word_of_int (max 16000 (nanos a - nanos now)))) \<and>
    bionic_sem_abs_timeout_ns (\<lambda>_. Inr \<lparr>tv_sec = 0, tv_nsec = 0\<rparr>)
      (Some \<lparr>tv_sec = 18446744073, tv_nsec = 709551617\<rparr>) = WaitFor 16000"
proof -
  define nsec where "nsec = (if tv_nsec a - tv_nsec now < 0 then tv_nsec a - tv_nsec now + 1000000000
    else tv_nsec a - tv_nsec now)"
  define sec where "sec = (if tv_nsec a - tv_nsec now < 0 then tv_sec a - tv_sec now - 1
    else tv_sec a - tv_sec now)"
  note S = split_diff [OF assms(4,5,2,3) sec_def nsec_def]
  have g: "bionic_clock_gettime clk 0 True = (Inr (), Some now)"
    using assms by (simp add: bionic_clock_gettime_def clock_of_id_def)
  have e: "bionic_sem_abs_timeout_ns clk (Some a) =
    (if sec < 0 \<or> (sec = 0 \<and> nsec \<le> 0) then TimedOut
     else if (- 1) div 1000000000 < (word_of_int sec :: u64) then WaitFor (- 1)
          else let ns = word_of_int sec * 1000000000 + word_of_int nsec in WaitFor (if ns < 16000 then 16000 else ns))"
    using assms(4-6) unfolding bionic_sem_abs_timeout_ns_def option.case g prod.case sum.case Let_def sec_def nsec_def
    by (simp add: Let_def)
  have "bionic_sem_abs_timeout_ns clk (Some a) =
    (if nanos a \<le> nanos now then TimedOut else WaitFor (word_of_int (max 16000 (nanos a - nanos now))))"
  proof (cases "nanos a \<le> nanos now")
    case True
    with S e show ?thesis by simp
  next
    case False
    let ?d = "nanos a - nanos now"
    have d: "0 < ?d" "?d < 2 ^ 64" "sec * 1000000000 + nsec = ?d" "0 \<le> sec" "sec \<le> 18446744073"
      using False assms(7) S by auto
    have us: "uint (word_of_int sec :: u64) = sec" using d by (intro word_of_int_inverse [OF refl]) simp_all
    have ud: "uint (word_of_int ?d :: u64) = ?d" using d by (intro word_of_int_inverse [OF refl]) simp_all
    have "((- 1) div 1000000000 :: u64) = 18446744073" by code_simp
    then have c1: "\<not> (- 1) div 1000000000 < (word_of_int sec :: u64)"
      using us d(5) by (simp add: word_less_def)
    have ns: "word_of_int sec * 1000000000 + word_of_int nsec = (word_of_int ?d :: u64)"
      by (simp add: wi_hom_syms d(3) [symmetric])
    have "(word_of_int ?d < (16000 :: u64)) = (?d < 16000)" using ud by (simp add: word_less_def)
    then show ?thesis using False S c1 unfolding e ns Let_def by (simp add: max_def)
  qed
  moreover have "bionic_sem_abs_timeout_ns (\<lambda>_. Inr \<lparr>tv_sec = 0, tv_nsec = 0\<rparr>)
      (Some \<lparr>tv_sec = 18446744073, tv_nsec = 709551617\<rparr>) = WaitFor 16000" by code_simp
  ultimately show ?thesis by blast
qed

definition start_sem :: "'m host_mutex \<Rightarrow> u64 \<Rightarrow> u32 \<Rightarrow> 'm semsys" where
  "start_sem H k v = \<lparr>sem = (fresh_slot H k 3)\<lparr>sl_count := v\<rparr>, asleep = {}, awake = {}, posts = 0, takes = 0\<rparr>"

text \<open>
  C18.  Semaphores lose no permit and no wake-up: in every run the count is the initial value plus
  the posts minus the successful waits, and while threads sleep there are never more permits than
  threads already woken to take them.
\<close>

theorem sem_no_lost_permit:
  assumes "sstep\<^sup>*\<^sup>* (start_sem H k v) S"
  shows "sl_count (sem S) = v + of_nat (posts S) - of_nat (takes S) \<and>
    (asleep S = {} \<or> sint (sl_count (sem S)) \<le> int (card (awake S)))"
proof -
  have "sem_inv v S" using assms
    by (induction rule: rtranclp_induct) (simp add: sem_inv_def start_sem_def, rule sstep_inv)
  then show ?thesis unfolding sem_inv_def by blast
qed

text \<open>
  The routine of a one-time initialisation runs once, and a call of \<^verbatim>\<open>pthread_once\<close> returns
  only after it has finished.
\<close>

theorem once_runs_once:
  assumes "ostep\<^sup>*\<^sup>* start_once S" and "opc S t = Returned_once"
  shows "calls S = 1 \<and> finished S \<and> word S = 2 \<and> once_enter (word S) = (2, Returned_once)"
  using oreach_inv [OF assms(1)]
proof (cases rule: once_cases)
  case (one r)
  with assms(2) show ?thesis by (cases "t = r") auto
qed (use assms(2) in \<open>auto simp: once_enter_def\<close>)


section \<open>Witnesses\<close>

lemma init_get:
  "slot_get H k kind True (init_slots H) = (Some 0, (init_slots H)[0 := fresh_slot H k kind])"
proof -
  have n: "\<not> sl_used (init_slots H ! i)" if "i < SYNC_SLOTS" for i using that by (simp add: init_slots_def)
  then have "scan (\<lambda>i. slot_hit k kind (init_slots H ! i)) 0 SYNC_SLOTS = None"
    by (simp add: scan_None_iff slot_hit_def)
  moreover have "scan (\<lambda>i. \<not> sl_used (init_slots H ! i)) 0 SYNC_SLOTS = Some 0"
    using n by (simp add: scan_Some_iff SYNC_SLOTS_def)
  ultimately show ?thesis by (simp add: slot_get_def)
qed

lemma len_init [simp]: "length (init_slots H) = SYNC_SLOTS"
  by (simp add: init_slots_def)

lemma static_type: "drop_bit 14 (0x4000 :: u32) = 1"
  by code_simp

lemma first_lock:
  "bionic_pthread_mutex_lock simple_mutex 7 64 0x4000 (init_slots simple_mutex) =
     (Returned (Inr ()), (init_slots simple_mutex)[0 := \<lparr>sl_key = 64, sl_used = True, sl_kind = 1,
        sl_m = Some 7, sl_count = 0, sl_type = BIONIC_MUTEX_RECURSIVE, sl_type_known = True,
        sl_owner = 7, sl_depth = 1, sl_clock = 0\<rparr>])"
  by (simp add: bionic_pthread_mutex_lock_def init_get SYNC_SLOTS_def bionic_mutex_detect_static_type_def
      fresh_slot_def lock_slot_def own_def simple_mutex_def static_type)


theorem recursive_mutex_balanced_witness:
  "\<exists>r1 r2. relock simple_mutex 7 3 ((fresh_slot simple_mutex 64 1)\<lparr>sl_type := BIONIC_MUTEX_RECURSIVE\<rparr>) =
       (replicate 3 (Returned (Inr ())), r1) \<and>
     reunlock simple_mutex 7 2 r1 = (replicate 2 (Inr ()), r2) \<and> holder simple_mutex (sl_m r2) = Some 7"
  using recursive_mutex_balanced [OF simple_mutex_ok, of "(fresh_slot simple_mutex 64 1)\<lparr>sl_type := BIONIC_MUTEX_RECURSIVE\<rparr>" 7 2 3]
  by (auto simp: fresh_slot_def simple_mutex_def)

theorem cond_deadline_exact_witness:
  "bionic_cond_abs_timeout_ns (\<lambda>_. Inr \<lparr>tv_sec = 10, tv_nsec = 900000000\<rparr>) 1
     (Some \<lparr>tv_sec = 12, tv_nsec = 100000000\<rparr>) = WaitFor 1200000000"
  using cond_deadline_exact [of 1 CLOCK_MONOTONIC "\<lambda>_. Inr \<lparr>tv_sec = 10, tv_nsec = 900000000\<rparr>"
      "\<lparr>tv_sec = 10, tv_nsec = 900000000\<rparr>" "\<lparr>tv_sec = 12, tv_nsec = 100000000\<rparr>"]
  by (simp add: clock_of_id_def nanos_def)

theorem sem_deadline_exact_witness:
  "bionic_sem_abs_timeout_ns (\<lambda>_. Inr \<lparr>tv_sec = 10, tv_nsec = 900000000\<rparr>)
     (Some \<lparr>tv_sec = 12, tv_nsec = 100000000\<rparr>) = WaitFor 1200000000"
  using sem_deadline_exact [of "\<lambda>_. Inr \<lparr>tv_sec = 10, tv_nsec = 900000000\<rparr>"
      "\<lparr>tv_sec = 10, tv_nsec = 900000000\<rparr>" "\<lparr>tv_sec = 12, tv_nsec = 100000000\<rparr>"]
  by (simp add: nanos_def)

theorem sem_no_lost_permit_witness:
  "\<exists>S. sstep\<^sup>*\<^sup>* (start_sem simple_mutex 64 0) S \<and> posts S = 1 \<and> sl_count (sem S) = 1 \<and> asleep S = {} \<and> awake S = {5}"
proof -
  let ?A = "start_sem simple_mutex 64 0"
  let ?B = "?A\<lparr>sem := sem ?A, asleep := insert 5 (asleep ?A)\<rparr>"
  let ?C = "wake_one 5 (?B\<lparr>sem := sem_inc (sem ?B), posts := posts ?B + 1\<rparr>)"
  have "sstep ?A ?B"
    by (rule sstep.wait_sleep [where n = None])
      (simp_all add: start_sem_def sem_wait_pass_def sem_positive_def fresh_slot_def)
  moreover have "sstep ?B ?C" by (rule sstep.post) (simp add: start_sem_def)
  ultimately have r: "sstep\<^sup>*\<^sup>* ?A ?C" by (meson converse_rtranclp_into_rtranclp rtranclp.rtrancl_refl)
  have c: "posts ?C = 1" "takes ?C = 0" "asleep ?C = {}" "awake ?C = {5}"
    by (simp_all add: start_sem_def wake_one_def)
  from sem_no_lost_permit [OF r] c have "sl_count (sem ?C) = 1" by simp
  with r c show ?thesis by blast
qed

theorem once_runs_once_witness:
  "\<exists>S. ostep\<^sup>*\<^sup>* start_once S \<and> opc S 3 = Returned_once \<and> calls S = 1 \<and> word S = 2"
proof -
  let ?B = "start_once\<lparr>word := 1, opc := (opc start_once)(3 := InRoutine), calls := calls start_once + (if InRoutine = InRoutine then 1 else 0)\<rparr>"
  let ?C = "?B\<lparr>word := 2, opc := (opc ?B)(3 := Returned_once), finished := True\<rparr>"
  have "ostep start_once ?B"
    by (rule ostep.enter) (simp_all add: start_once_def once_enter_def)
  moreover have "ostep ?B ?C" by (rule ostep.leave) simp
  ultimately have r: "ostep\<^sup>*\<^sup>* start_once ?C" by (meson converse_rtranclp_into_rtranclp rtranclp.rtrancl_refl)
  moreover have "opc ?C 3 = Returned_once" by simp
  ultimately show ?thesis using once_runs_once [OF r] by blast
qed

end
