(* ===== verification/Futex.thy ===== *)
theory Futex
  imports CondSem
begin

text \<open>
  The futex layer of \<^verbatim>\<open>source/bionic.c\<close>: an open-addressing table from guest addresses to wait
  queues, the wait and wake operations on a queue, and the threads that sleep on one queue.
\<close>

section \<open>The table\<close>

definition FUTEX_SLOTS :: nat where "FUTEX_SLOTS = 4096"

record futex_slot =
  fx_key :: u64
  waiters :: u32
  peak_waiters :: u32
  wait_calls :: u64
  wake_calls :: u64
  wake_total :: u64
  timeout_count :: u64
  compat_timeout_count :: u64
  last_waker_tid :: u64
  last_wake_us :: u64

text \<open>\<open>None\<close> is a slot that is not used; slots are never given back.\<close>

type_synonym futex_table = "futex_slot option list"

definition init_futex :: futex_table where
  "init_futex = replicate FUTEX_SLOTS None"

definition fresh_futex :: "u64 \<Rightarrow> futex_slot" where
  "fresh_futex key = \<lparr>fx_key = key, waiters = 0, peak_waiters = 0, wait_calls = 0, wake_calls = 0,
     wake_total = 0, timeout_count = 0, compat_timeout_count = 0, last_waker_tid = 0, last_wake_us = 0\<rparr>"

definition futex_slot_hash :: "u64 \<Rightarrow> nat" where
  "futex_slot_hash key =
     (let x = drop_bit 2 key; x1 = x XOR drop_bit 17 x; x2 = x1 XOR drop_bit 31 x1
      in unat (ucast x2 :: u32) mod FUTEX_SLOTS)"

definition probe_at :: "u64 \<Rightarrow> nat \<Rightarrow> nat" where
  "probe_at key p = (futex_slot_hash key + p) mod FUTEX_SLOTS"

text \<open>The probe ends at an unused slot or at the key.\<close>

definition probe_ends :: "futex_table \<Rightarrow> u64 \<Rightarrow> nat \<Rightarrow> bool" where
  "probe_ends ft key p =
     (case ft ! probe_at key p of None \<Rightarrow> True | Some r \<Rightarrow> fx_key r = key)"

definition futex_slot_get :: "u64 \<Rightarrow> bool \<Rightarrow> futex_table \<Rightarrow> nat option \<times> futex_table" where
  "futex_slot_get key create ft =
     (case scan (probe_ends ft key) 0 FUTEX_SLOTS of
        None \<Rightarrow> (None, ft)
      | Some p \<Rightarrow>
          let i = probe_at key p
          in (case ft ! i of
                Some r \<Rightarrow> (Some i, ft)
              | None \<Rightarrow> if create then (Some i, ft[i := Some (fresh_futex key)]) else (None, ft)))"

definition futex_find :: "futex_table \<Rightarrow> u64 \<Rightarrow> nat option" where
  "futex_find ft key = fst (futex_slot_get key False ft)"

definition has_key :: "futex_table \<Rightarrow> nat \<Rightarrow> u64 \<Rightarrow> bool" where
  "has_key ft i key \<longleftrightarrow> (\<exists>r. ft ! i = Some r \<and> fx_key r = key)"

text \<open>Every key is reachable from its hash over used slots, and no key has two slots.\<close>

definition ftab_ok :: "futex_table \<Rightarrow> bool" where
  "ftab_ok ft \<longleftrightarrow> length ft = FUTEX_SLOTS \<and>
     (\<forall>i<FUTEX_SLOTS. \<forall>key. has_key ft i key \<longrightarrow>
        (\<exists>p<FUTEX_SLOTS. probe_at key p = i \<and> (\<forall>q<p. ft ! probe_at key q \<noteq> None)) \<and>
        (\<forall>j<FUTEX_SLOTS. has_key ft j key \<longrightarrow> j = i))"

lemma probe_at_less [simp]: "probe_at key p < FUTEX_SLOTS"
  by (simp add: probe_at_def FUTEX_SLOTS_def)

lemma probe_at_inj:
  assumes "probe_at key p = probe_at key q" and "p < FUTEX_SLOTS" and "q < FUTEX_SLOTS"
  shows "p = q"
proof -
  have "p = q" if e: "(h + p) mod n = (h + q) mod n" and l: "p < n" "q < n" for h n :: nat
  proof -
    have "p mod n = q mod n" using e by (simp add: nat_mod_eq_iff)
    then show ?thesis using l by simp
  qed
  with assms show ?thesis by (auto simp: probe_at_def)
qed

lemma ftab_okD:
  assumes "ftab_ok ft" and "i < FUTEX_SLOTS" and "has_key ft i key"
  obtains p where "p < FUTEX_SLOTS" "probe_at key p = i" "\<And>q. q < p \<Longrightarrow> ft ! probe_at key q \<noteq> None"
proof -
  have "\<exists>p<FUTEX_SLOTS. probe_at key p = i \<and> (\<forall>q<p. ft ! probe_at key q \<noteq> None)"
    using assms unfolding ftab_ok_def by blast
  with that show ?thesis by blast
qed

lemma ftab_unique:
  "ftab_ok ft \<Longrightarrow> i < FUTEX_SLOTS \<Longrightarrow> j < FUTEX_SLOTS \<Longrightarrow> has_key ft i key \<Longrightarrow> has_key ft j key \<Longrightarrow> i = j"
  unfolding ftab_ok_def by blast

lemma probe_found:
  assumes ok: "ftab_ok ft" and i: "i < FUTEX_SLOTS" "has_key ft i key"
  shows "\<exists>p. scan (probe_ends ft key) 0 FUTEX_SLOTS = Some p \<and> probe_at key p = i"
proof -
  obtain p where p: "p < FUTEX_SLOTS" "probe_at key p = i" and u: "\<And>q. q < p \<Longrightarrow> ft ! probe_at key q \<noteq> None"
    by (rule ftab_okD [OF ok i]) blast
  have "\<not> probe_ends ft key q" if "q < p" for q
  proof
    assume e: "probe_ends ft key q"
    with u [OF that] have "has_key ft (probe_at key q) key" by (auto simp: probe_ends_def has_key_def)
    then have "probe_at key q = i" using ftab_unique [OF ok _ i(1) _ i(2)] by simp
    with p that probe_at_inj [of key q p] show False by simp
  qed
  moreover have "probe_ends ft key p" using i(2) p(2) by (auto simp: probe_ends_def has_key_def)
  ultimately have "scan (probe_ends ft key) 0 FUTEX_SLOTS = Some p" using p(1) by (simp add: scan_Some_iff)
  with p(2) show ?thesis by blast
qed

lemma futex_get_hit:
  assumes "ftab_ok ft" and "i < FUTEX_SLOTS" and "has_key ft i key"
  shows "futex_slot_get key create ft = (Some i, ft)"
  using probe_found [OF assms] assms(3) by (auto simp: futex_slot_get_def has_key_def)

lemma futex_get_miss:
  assumes "\<And>i. i < FUTEX_SLOTS \<Longrightarrow> \<not> has_key ft i key"
  shows "futex_slot_get key create ft =
    (case scan (\<lambda>p. ft ! probe_at key p = None) 0 FUTEX_SLOTS of
       None \<Rightarrow> (None, ft)
     | Some p \<Rightarrow> if create then (Some (probe_at key p), ft[probe_at key p := Some (fresh_futex key)])
                 else (None, ft))"
proof -
  have "probe_ends ft key p = (ft ! probe_at key p = None)" for p
    using assms [of "probe_at key p"] by (auto simp: probe_ends_def has_key_def split: option.splits)
  then have e: "probe_ends ft key = (\<lambda>p. ft ! probe_at key p = None)" by blast
  show ?thesis
    by (auto simp: futex_slot_get_def e Let_def split: option.splits dest: scan_SomeD)
qed

lemma futex_find_iff:
  assumes "ftab_ok ft"
  shows "futex_find ft key = Some i \<longleftrightarrow> i < FUTEX_SLOTS \<and> has_key ft i key"
proof
  assume f: "futex_find ft key = Some i"
  show "i < FUTEX_SLOTS \<and> has_key ft i key"
  proof (cases "\<exists>j<FUTEX_SLOTS. has_key ft j key")
    case True
    with f futex_get_hit [OF assms] show ?thesis by (auto simp: futex_find_def)
  next
    case False
    with f futex_get_miss [of ft key False] show ?thesis by (auto simp: futex_find_def split: option.splits)
  qed
next
  assume "i < FUTEX_SLOTS \<and> has_key ft i key"
  then have "futex_slot_get key False ft = (Some i, ft)" using futex_get_hit [OF assms] by blast
  then show "futex_find ft key = Some i" by (simp add: futex_find_def)
qed

lemma futex_find_None:
  "ftab_ok ft \<Longrightarrow> futex_find ft key = None \<longleftrightarrow> (\<forall>i<FUTEX_SLOTS. \<not> has_key ft i key)"
  using futex_find_iff by (metis not_None_eq)

text \<open>Inserting a key at the first unused slot of its probe.\<close>

lemma insert_keys:
  assumes "ftab_ok ft" and "j < FUTEX_SLOTS" and "ft ! j = None"
  shows "has_key (ft[j := Some (fresh_futex key)]) i key' \<longleftrightarrow>
    (if i = j then key' = key else has_key ft i key')"
  using assms by (auto simp: has_key_def fresh_futex_def ftab_ok_def)

lemma insert_ok:
  assumes ok: "ftab_ok ft" and new: "\<And>i. i < FUTEX_SLOTS \<Longrightarrow> \<not> has_key ft i key"
    and p: "scan (\<lambda>p. ft ! probe_at key p = None) 0 FUTEX_SLOTS = Some p" and j: "j = probe_at key p"
  shows "ftab_ok (ft[j := Some (fresh_futex key)])"
proof -
  let ?t = "ft[j := Some (fresh_futex key)]"
  have P: "p < FUTEX_SLOTS" "ft ! j = None" "\<And>q. q < p \<Longrightarrow> ft ! probe_at key q \<noteq> None"
    using p by (auto simp: scan_Some_iff j)
  have len: "length ft = FUTEX_SLOTS" using ok by (simp add: ftab_ok_def)
  have jl: "j < FUTEX_SLOTS" by (simp add: j)
  have keep: "ft ! i \<noteq> None \<Longrightarrow> ?t ! i \<noteq> None" for i by (cases "i = j") (simp_all add: len jl)
  have K: "has_key ?t i key' \<longleftrightarrow> (if i = j then key' = key else has_key ft i key')" for i key'
    by (rule insert_keys [OF ok jl P(2)])
  have reach: "\<exists>q<FUTEX_SLOTS. probe_at key' q = i \<and> (\<forall>u<q. ?t ! probe_at key' u \<noteq> None)"
    if "i < FUTEX_SLOTS" "has_key ?t i key'" for i key'
  proof (cases "i = j")
    case True
    with that K have "key' = key" by simp
    with True P(1,3) keep j show ?thesis by blast
  next
    case False
    with that K have "has_key ft i key'" by simp
    from ftab_okD [OF ok that(1) this] keep show ?thesis by metis
  qed
  have uniq: "i' = i" if "i < FUTEX_SLOTS" "i' < FUTEX_SLOTS" "has_key ?t i key'" "has_key ?t i' key'" for i i' key'
    using that K new ftab_unique [OF ok] by metis
  show ?thesis unfolding ftab_ok_def using len reach uniq by auto
qed

lemma futex_get_cases:
  assumes ok: "ftab_ok ft"
  obtains (hit) i where "futex_find ft key = Some i" "futex_slot_get key create ft = (Some i, ft)"
  | (new) j where "futex_find ft key = None" "j < FUTEX_SLOTS" "ft ! j = None" "create"
      "futex_slot_get key create ft = (Some j, ft[j := Some (fresh_futex key)])"
      "ftab_ok (ft[j := Some (fresh_futex key)])"
  | (none) "futex_find ft key = None" "futex_slot_get key create ft = (None, ft)"
      "create \<Longrightarrow> \<forall>i<FUTEX_SLOTS. ft ! i \<noteq> None"
proof (cases "futex_find ft key")
  case (Some i)
  with futex_find_iff [OF ok] futex_get_hit [OF ok] hit show ?thesis by auto
next
  case None
  then have n: "\<And>i. i < FUTEX_SLOTS \<Longrightarrow> \<not> has_key ft i key" using futex_find_None [OF ok] by simp
  note G = futex_get_miss [OF n]
  show ?thesis
  proof (cases "scan (\<lambda>p. ft ! probe_at key p = None) 0 FUTEX_SLOTS")
    case None': None
    have "ft ! i \<noteq> None" if "i < FUTEX_SLOTS" for i
    proof -
      have "\<exists>p<FUTEX_SLOTS. probe_at key p = i"
      proof (cases "futex_slot_hash key \<le> i")
        case True
        with that show ?thesis by (intro exI [of _ "i - futex_slot_hash key"]) (simp add: probe_at_def)
      next
        case False
        have "futex_slot_hash key < FUTEX_SLOTS" by (simp add: futex_slot_hash_def Let_def FUTEX_SLOTS_def)
        with False that show ?thesis
          by (intro exI [of _ "FUTEX_SLOTS + i - futex_slot_hash key"]) (simp add: probe_at_def)
      qed
      with None' show ?thesis by (auto simp: scan_None_iff)
    qed
    with None None' G none show ?thesis by simp
  next
    case (Some p)
    show ?thesis
    proof (cases create)
      case True
      with Some G new [of "probe_at key p"] insert_ok [OF ok n Some refl] None show ?thesis
        by (auto dest: scan_SomeD)
    next
      case False
      with Some G none None show ?thesis by simp
    qed
  qed
qed

interpretation futexes: slot_registry futex_find ftab_ok "\<lambda>key. futex_slot_get key True"
proof (unfold_locales, goal_cases)
  case (1 s k i k')
  then show ?case by (auto simp: futex_find_iff has_key_def)
next
  case (2 s k i)
  then show ?case by (simp add: futex_find_iff futex_get_hit)
next
  case (3 s k i s')
  from 3(1) show ?case
  proof (cases rule: futex_get_cases [of s k True])
    case (new j)
    with 3(2) have "j = i" "s' = s[j := Some (fresh_futex k)]" by auto
    with new show ?thesis using insert_keys [OF 3(1) new(2,3)] by (simp add: futex_find_iff)
  qed (use 3 in auto)
next
  case (4 s k s')
  from 4(1) show ?case by (cases rule: futex_get_cases [of s k True]) (use 4 in auto)
next
  case (5 s k' k)
  from 5(1) show ?case
  proof (cases rule: futex_get_cases [of s k True])
    case (new j)
    have "futex_find (s[j := Some (fresh_futex k)]) k' = Some i \<longleftrightarrow> futex_find s k' = Some i" for i
      using 5(2) new(3) insert_keys [OF 5(1) new(2,3), of k i k']
      by (auto simp: futex_find_iff [OF new(6)] futex_find_iff [OF 5(1)] has_key_def)
    then have "futex_find (s[j := Some (fresh_futex k)]) k' = futex_find s k'" by (metis not_None_eq)
    with new show ?thesis by simp
  qed simp_all
next
  case (6 s k)
  from 6 show ?case by (cases rule: futex_get_cases [of s k True]) (use 6 in auto)
qed

end
