(* ===== verification/FutexOps.thy ===== *)
theory FutexOps
  imports Futex
begin

text \<open>
  \<^verbatim>\<open>futex_operation\<close> of \<^verbatim>\<open>source/bionic.c\<close>: a wait up to its sleep and after it, a wake, and the step
  relation of the threads that use one queue.
\<close>

section \<open>The operations\<close>

definition futex_enter_slot :: "futex_slot \<Rightarrow> futex_slot" where
  "futex_enter_slot r =
     (let w = waiters r + 1
      in r\<lparr>waiters := w, wait_calls := wait_calls r + 1,
           peak_waiters := if peak_waiters r < w then w else peak_waiters r\<rparr>)"

definition futex_timeout_ns :: "timespec \<Rightarrow> u64" where
  "futex_timeout_ns t =
     (let sec = word_of_int (tv_sec t) :: u64; nsec = word_of_int (tv_nsec t)
      in if ((- 1) - nsec) div 1000000000 < sec then - 1 else sec * 1000000000 + nsec)"

datatype futex_start = FutexFails errno | FutexSleeps nat u64

definition futex_wait_enter ::
  "u64 \<Rightarrow> u32 \<Rightarrow> u32 \<Rightarrow> timespec option \<Rightarrow> futex_table \<Rightarrow> futex_start \<times> futex_table" where
  "futex_wait_enter key cur val to ft =
     (if key = 0 then (FutexFails EFAULT, ft)
      else case futex_slot_get key True ft of
        (None, ft1) \<Rightarrow> (FutexFails ENOMEM, ft1)
      | (Some i, ft1) \<Rightarrow>
          if cur \<noteq> val then (FutexFails EAGAIN, ft1)
          else let r = futex_enter_slot (the (ft1 ! i)); ft2 = ft1[i := Some r]
               in (case to of
                     Some t \<Rightarrow>
                       if tv_sec t < 0 \<or> tv_nsec t < 0 \<or> 1000000000 \<le> tv_nsec t
                       then (FutexFails EINVAL, ft2[i := Some (r\<lparr>waiters := waiters r - 1\<rparr>)])
                       else (FutexSleeps i (futex_timeout_ns t), ft2)
                   | None \<Rightarrow> (FutexSleeps i 16000000, ft2)))"

text \<open>After the sleep: \<open>failed\<close> is a failure result of \<^verbatim>\<open>condvarWaitTimeout\<close>, \<open>timed\<close> a timeout given.\<close>

definition futex_leave_slot :: "bool \<Rightarrow> bool \<Rightarrow> futex_slot \<Rightarrow> unit result \<times> futex_slot" where
  "futex_leave_slot timed failed r =
     (let r1 = (if failed then (if timed then r\<lparr>timeout_count := timeout_count r + 1\<rparr>
                                else r\<lparr>compat_timeout_count := compat_timeout_count r + 1\<rparr>) else r)
      in (if timed \<and> failed then Inl ETIMEDOUT else Inr (), r1\<lparr>waiters := waiters r1 - 1\<rparr>))"

definition futex_wake_slot :: "int \<Rightarrow> u64 \<Rightarrow> u64 \<Rightarrow> futex_slot \<Rightarrow> u32 \<times> futex_slot" where
  "futex_wake_slot val tid now r =
     (let requested = word_of_int val :: u32;
          n = (if requested < waiters r then requested else waiters r)
      in (n, r\<lparr>wake_calls := wake_calls r + 1, wake_total := wake_total r + ucast n,
               last_waker_tid := tid, last_wake_us := now\<rparr>))"

definition futex_wake :: "u64 \<Rightarrow> int \<Rightarrow> u64 \<Rightarrow> u64 \<Rightarrow> futex_table \<Rightarrow> u32 result \<times> futex_table" where
  "futex_wake key val tid now ft =
     (if key = 0 then (Inl EFAULT, ft)
      else if val \<le> 0 then (Inr 0, ft)
      else case futex_slot_get key False ft of
        (None, ft1) \<Rightarrow> (Inr 0, ft1)
      | (Some i, ft1) \<Rightarrow>
          (case futex_wake_slot val tid now (the (ft1 ! i)) of (n, r) \<Rightarrow> (Inr n, ft1[i := Some r])))"

text \<open>Which operation a command word asks for.\<close>

datatype futex_command = FutexWait | FutexWake | FutexUnknown

definition futex_command_of :: "u32 \<Rightarrow> futex_command" where
  "futex_command_of op =
     (let cmd = op AND 0x7f
      in if cmd = 0 \<or> cmd = 9 then FutexWait else if cmd = 1 \<or> cmd = 10 then FutexWake else FutexUnknown)"

section \<open>The threads of one queue\<close>

record fqueue =
  fq :: futex_slot
  fasleep :: "nat set"
  fawake :: "nat set"

text \<open>
  A wake makes its calls of \<^verbatim>\<open>condvarWakeOne\<close> (or one \<^verbatim>\<open>condvarWakeAll\<close>): each wakes one sleeper while
  there is one, so \<open>W\<close>, the set it wakes, has \<open>min n\<close> of the number of sleepers.
\<close>

inductive fstep :: "fqueue \<Rightarrow> fqueue \<Rightarrow> bool" where
  enter: "t \<notin> fasleep S \<union> fawake S \<Longrightarrow> card (fasleep S \<union> fawake S) < 2 ^ 31 \<Longrightarrow>
    fstep S (S\<lparr>fq := futex_enter_slot (fq S), fasleep := insert t (fasleep S)\<rparr>)"
| timeout: "t \<in> fasleep S \<Longrightarrow> futex_leave_slot timed True (fq S) = (rc, r) \<Longrightarrow>
    fstep S (S\<lparr>fq := r, fasleep := fasleep S - {t}\<rparr>)"
| leave: "t \<in> fawake S \<Longrightarrow> futex_leave_slot timed False (fq S) = (rc, r) \<Longrightarrow>
    fstep S (S\<lparr>fq := r, fawake := fawake S - {t}\<rparr>)"
| wake: "0 < val \<Longrightarrow> val < 2 ^ 31 \<Longrightarrow> futex_wake_slot val tid now (fq S) = (n, r) \<Longrightarrow> W \<subseteq> fasleep S \<Longrightarrow>
    card W = min (unat n) (card (fasleep S)) \<Longrightarrow>
    fstep S (S\<lparr>fq := r, fasleep := fasleep S - W, fawake := fawake S \<union> W\<rparr>)"

definition fq_inv :: "fqueue \<Rightarrow> bool" where
  "fq_inv S \<longleftrightarrow> finite (fasleep S) \<and> finite (fawake S) \<and> fasleep S \<inter> fawake S = {} \<and>
     card (fasleep S) + card (fawake S) \<le> 2 ^ 31 \<and>
     unat (waiters (fq S)) = card (fasleep S) + card (fawake S)"

lemma leave_slot_waiters:
  "futex_leave_slot timed failed r = (rc, r') \<Longrightarrow> waiters r' = waiters r - 1"
  by (auto simp: futex_leave_slot_def Let_def split: if_splits)

lemma unat_dec: "0 < unat (w :: 'a::len word) \<Longrightarrow> unat (w - 1) = unat w - 1"
  by (rule unat_minus_one) (auto simp: unat_gt_0)

lemma unat_inc32: "unat (w :: u32) < 2 ^ 31 \<Longrightarrow> unat (w + 1) = unat w + 1"
  by (simp add: unat_word_ariths)

lemma fstep_inv:
  assumes "fstep S S'" and inv: "fq_inv S"
  shows "fq_inv S'"
  using assms(1)
proof cases
  case (enter t)
  have c: "card (fasleep S \<union> fawake S) = card (fasleep S) + card (fawake S)"
    using inv by (intro card_Un_disjoint) (simp_all add: fq_inv_def)
  then have "unat (waiters (fq S)) < 2 ^ 31" using inv enter(3) by (simp add: fq_inv_def)
  from unat_inc32 [OF this] show ?thesis
    using inv enter c by (auto simp: fq_inv_def futex_enter_slot_def Let_def)
next
  case (timeout t timed rc r)
  note L = leave_slot_waiters [OF timeout(3)]
  have "0 < card (fasleep S)" using inv timeout(2) by (auto simp: fq_inv_def card_gt_0_iff)
  then have "unat (waiters r) = unat (waiters (fq S)) - 1" using inv by (simp add: L unat_dec fq_inv_def)
  with inv timeout \<open>0 < card _\<close> show ?thesis by (auto simp: fq_inv_def card_Diff_singleton_if)
next
  case (leave t timed rc r)
  note L = leave_slot_waiters [OF leave(3)]
  have "0 < card (fawake S)" using inv leave(2) by (auto simp: fq_inv_def card_gt_0_iff)
  then have "unat (waiters r) = unat (waiters (fq S)) - 1" using inv by (simp add: L unat_dec fq_inv_def)
  with inv leave \<open>0 < card _\<close> show ?thesis by (auto simp: fq_inv_def card_Diff_singleton_if)
next
  case (wake val tid now n r W)
  have w: "waiters r = waiters (fq S)" using wake(4) by (auto simp: futex_wake_slot_def Let_def)
  have f: "finite W" using wake(5) inv by (auto simp: fq_inv_def intro: finite_subset)
  have "card (fasleep S - W) = card (fasleep S) - card W" using f wake(5) by (rule card_Diff_subset)
  moreover have "card W \<le> card (fasleep S)" using wake(5) inv by (simp add: fq_inv_def card_mono)
  moreover have "card (fawake S \<union> W) = card (fawake S) + card W"
    using f wake(5) inv by (intro card_Un_disjoint) (auto simp: fq_inv_def)
  ultimately show ?thesis using inv wake(1,5) w f by (auto simp: fq_inv_def)
qed

definition start_fq :: "u64 \<Rightarrow> fqueue" where
  "start_fq key = \<lparr>fq = fresh_futex key, fasleep = {}, fawake = {}\<rparr>"

lemma freach_inv: "fstep\<^sup>*\<^sup>* (start_fq key) S \<Longrightarrow> fq_inv S"
proof (induction rule: rtranclp_induct)
  case base
  show ?case by (simp add: fq_inv_def start_fq_def fresh_futex_def)
qed (rule fstep_inv)

section \<open>Properties\<close>

text \<open>
  C20.  The futex table is a map from addresses to queues: a lookup that creates returns a queue
  that later lookups of the address find again, leaves every other address alone, gives different
  addresses different queues, and fails only when all 4096 slots are used.
\<close>

theorem futex_table_is_map:
  assumes ok: "ftab_ok ft" and g: "futex_slot_get key True ft = (res, ft')"
  shows "ftab_ok ft' \<and> (\<forall>key'. key' = key \<or> futex_find ft' key' = futex_find ft key') \<and>
    (case res of
       Some i \<Rightarrow> futex_find ft' key = Some i \<and> futex_slot_get key True ft' = (Some i, ft') \<and>
         (\<forall>key'. key' = key \<or> futex_find ft' key' \<noteq> Some i)
     | None \<Rightarrow> ft' = ft \<and> (\<forall>i<FUTEX_SLOTS. ft ! i \<noteq> None))"
proof -
  have ok': "ftab_ok ft'" using futexes.acquire_invar [OF ok, of key] g by simp
  have oth: "key' = key \<or> futex_find ft' key' = futex_find ft key'" for key'
    using futexes.acquire_other [OF ok, of key' key] g by auto
  show ?thesis
  proof (cases res)
    case (Some i)
    have f: "futex_find ft' key = Some i" using futexes.acquire_new [OF ok] g Some by simp
    have "futex_slot_get key True ft' = (Some i, ft')" using futexes.acquire_hit [OF ok' f] .
    moreover have "key' = key \<or> futex_find ft' key' \<noteq> Some i" for key'
      using futexes.find_inj [OF ok' f, of key'] by auto
    ultimately show ?thesis using ok' oth f Some by simp
  next
    case None
    from ok have "ft' = ft \<and> (\<forall>i<FUTEX_SLOTS. ft ! i \<noteq> None)"
      by (cases rule: futex_get_cases [of ft key True]) (use g None in auto)
    with ok' oth None show ?thesis by simp
  qed
qed


text \<open>
  A woken thread counts as a waiter until it has left, so a second wake may count it again: with
  one thread in the queue, two wakes of one thread each both answer 1.
\<close>

section \<open>Witnesses\<close>

lemma init_futex_ok: "ftab_ok init_futex"
  by (simp add: ftab_ok_def init_futex_def has_key_def)

theorem futex_table_is_map_witness:
  "\<exists>ft'. futex_slot_get 0x1000 True init_futex = (Some 0x400, ft') \<and> futex_find ft' 0x1000 = Some 0x400"
proof -
  have h: "futex_slot_hash 0x1000 = 0x400" by code_simp
  have n: "init_futex ! i = None" if "i < FUTEX_SLOTS" for i using that by (simp add: init_futex_def)
  have "\<not> has_key init_futex i 0x1000" if "i < FUTEX_SLOTS" for i using n [OF that] by (simp add: has_key_def)
  moreover have "scan (\<lambda>p. init_futex ! probe_at 0x1000 p = None) 0 FUTEX_SLOTS = Some 0"
    using n [OF probe_at_less, of "0x1000" 0] by (simp add: scan_Some_iff) (simp add: FUTEX_SLOTS_def)
  moreover have "probe_at 0x1000 0 = 0x400" by (simp add: probe_at_def h FUTEX_SLOTS_def)
  ultimately have g: "futex_slot_get 0x1000 True init_futex = (Some 0x400, init_futex[0x400 := Some (fresh_futex 0x1000)])"
    by (subst futex_get_miss) simp_all
  from futex_table_is_map [OF init_futex_ok g] g show ?thesis by auto
qed


end
