(* ===== verification/Threads.thy ===== *)
theory Threads
  imports Prelude
begin

text \<open>
  Guest threads of \<^verbatim>\<open>source/bionic.c\<close>: the list of thread objects, creation, joining, detaching,
  reaping and exit.  Thread objects are heap blocks, named by their addresses; \<open>objs\<close> maps an
  address to the object while it is allocated, so that a use after free is a missing entry.
  What the host answers (thread creation, waiting, handles) is an argument.
\<close>

section \<open>State\<close>

record gthread =
  pthread_id :: u64
  gt_detached :: bool
  gt_finished :: bool
  gt_joining :: bool
  gt_ret :: u64
  gt_name :: "byte list"

record threads =
  g_guest_threads :: "nat list"
  objs :: "nat \<Rightarrow> gthread option"

definition the_obj :: "nat \<Rightarrow> threads \<Rightarrow> gthread" where
  "the_obj p s = the (objs s p)"

definition set_obj :: "nat \<Rightarrow> gthread option \<Rightarrow> threads \<Rightarrow> threads" where
  "set_obj p x s = s\<lparr>objs := (objs s)(p := x)\<rparr>"

fun find_first :: "('a \<Rightarrow> bool) \<Rightarrow> 'a list \<Rightarrow> 'a option" where
  "find_first P [] = None"
| "find_first P (x # xs) = (if P x then Some x else find_first P xs)"

definition guest_thread_find_locked :: "u64 \<Rightarrow> threads \<Rightarrow> nat option" where
  "guest_thread_find_locked i s = find_first (\<lambda>p. pthread_id (the_obj p s) = i) (g_guest_threads s)"

definition guest_thread_add :: "nat \<Rightarrow> threads \<Rightarrow> threads" where
  "guest_thread_add p s = s\<lparr>g_guest_threads := p # g_guest_threads s\<rparr>"

definition guest_thread_remove_locked :: "nat \<Rightarrow> threads \<Rightarrow> bool \<times> threads" where
  "guest_thread_remove_locked p s =
     (p \<in> set (g_guest_threads s), s\<lparr>g_guest_threads := remove1 p (g_guest_threads s)\<rparr>)"

definition drop_thread :: "nat \<Rightarrow> threads \<Rightarrow> threads" where
  "drop_thread p s = set_obj p None (snd (guest_thread_remove_locked p s))"

section \<open>Reaping\<close>

lemma find_first_Some: "find_first P xs = Some x \<Longrightarrow> x \<in> set xs \<and> P x"
  by (induction xs) (auto split: if_splits)

lemma find_first_None: "find_first P xs = None \<longleftrightarrow> (\<forall>x\<in>set xs. \<not> P x)"
  by (induction xs) auto

text \<open>\<open>exited\<close>: the threads whose handle is signalled.\<close>

definition reapable :: "u64 \<Rightarrow> (nat \<Rightarrow> bool) \<Rightarrow> threads \<Rightarrow> nat \<Rightarrow> bool" where
  "reapable self exited s p \<longleftrightarrow> gt_detached (the_obj p s) \<and> \<not> gt_joining (the_obj p s) \<and>
     pthread_id (the_obj p s) \<noteq> self \<and> exited p"

function guest_thread_reap_detached :: "u64 \<Rightarrow> (nat \<Rightarrow> bool) \<Rightarrow> threads \<Rightarrow> threads" where
  "guest_thread_reap_detached self exited s =
     (case find_first (reapable self exited s) (g_guest_threads s) of
        None \<Rightarrow> s
      | Some p \<Rightarrow> guest_thread_reap_detached self exited (drop_thread p s))"
  by pat_completeness auto

termination
proof (relation "measure (\<lambda>(self, exited, s). length (g_guest_threads s))", simp)
  fix self exited s p
  assume "find_first (reapable self exited s) (g_guest_threads s) = Some p"
  then have "p \<in> set (g_guest_threads s)" by (blast dest: find_first_Some)
  then have "length (remove1 p (g_guest_threads s)) < length (g_guest_threads s)"
    by (simp add: length_remove1) (cases "g_guest_threads s", auto)
  then show "((self, exited, drop_thread p s), self, exited, s)
      \<in> measure (\<lambda>(self, exited, s). length (g_guest_threads s))"
    by (simp add: drop_thread_def set_obj_def guest_thread_remove_locked_def)
qed

declare guest_thread_reap_detached.simps [simp del]

section \<open>Creation\<close>

definition create_stack :: "nat option \<Rightarrow> nat" where
  "create_stack a =
     (let st = 2 * 1024 * 1024;
          s1 = (case a of None \<Rightarrow> st | Some n \<Rightarrow> if st < n then n else st)
      in if 16 * 1024 * 1024 < s1 then 16 * 1024 * 1024 else s1)"

text \<open>
  \<open>alloc\<close> is what \<^verbatim>\<open>calloc\<close> gives, \<open>handle\<close> what \<^verbatim>\<open>threadCreate\<close> gives (\<open>None\<close> on failure), \<open>started\<close>
  whether \<^verbatim>\<open>threadStart\<close> succeeds; \<open>att\<close> is the stack size and the detached flag of the attributes.
\<close>

definition bionic_pthread_create ::
  "u64 \<Rightarrow> (nat \<Rightarrow> bool) \<Rightarrow> bool \<Rightarrow> (nat \<times> bool) option \<Rightarrow> nat option \<Rightarrow> u64 option \<Rightarrow> bool \<Rightarrow> threads \<Rightarrow>
   u64 result \<times> threads" where
  "bionic_pthread_create self exited args_ok att alloc handle started s =
     (if \<not> args_ok then (Inl EINVAL, s)
      else let s1 = guest_thread_reap_detached self exited s in
        case alloc of
          None \<Rightarrow> (Inl ENOMEM, s1)
        | Some p \<Rightarrow>
            (case handle of
               None \<Rightarrow> (Inl EAGAIN, s1)
             | Some h \<Rightarrow>
                 if h = 0 then (Inl EAGAIN, s1)
                 else let g = \<lparr>pthread_id = h, gt_detached = (case att of None \<Rightarrow> False | Some (_, d) \<Rightarrow> d),
                              gt_finished = False, gt_joining = False, gt_ret = 0, gt_name = []\<rparr>;
                          s2 = guest_thread_add p (set_obj p (Some g) s1)
                      in if started then (Inr h, s2) else (Inl EAGAIN, drop_thread p s2)))"

section \<open>Joining and detaching\<close>

datatype join_start = JoinFails errno | JoinWaits nat

definition join_begin :: "u64 \<Rightarrow> (nat \<Rightarrow> bool) \<Rightarrow> u64 \<Rightarrow> threads \<Rightarrow> join_start \<times> threads" where
  "join_begin self exited t s =
     (if t = 0 then (JoinFails ESRCH, s)
      else if t = self then (JoinFails EDEADLK, s)
      else let s1 = guest_thread_reap_detached self exited s in
        case guest_thread_find_locked t s1 of
          None \<Rightarrow> (JoinFails ESRCH, s1)
        | Some p \<Rightarrow>
            if gt_detached (the_obj p s1) \<or> gt_joining (the_obj p s1) then (JoinFails EINVAL, s1)
            else (JoinWaits p, set_obj p (Some ((the_obj p s1)\<lparr>gt_joining := True\<rparr>)) s1))"

text \<open>After \<^verbatim>\<open>threadWaitForExit\<close>; \<open>ok\<close> is its success.\<close>

definition join_end :: "nat \<Rightarrow> bool \<Rightarrow> threads \<Rightarrow> u64 result \<times> threads" where
  "join_end p ok s =
     (if \<not> ok then (Inl EINVAL, set_obj p (Some ((the_obj p s)\<lparr>gt_joining := False\<rparr>)) s)
      else (Inr (gt_ret (the_obj p s)), drop_thread p s))"

definition bionic_pthread_detach :: "u64 \<Rightarrow> (nat \<Rightarrow> bool) \<Rightarrow> u64 \<Rightarrow> threads \<Rightarrow> unit result \<times> threads" where
  "bionic_pthread_detach self exited t s =
     (if t = 0 then (Inl ESRCH, s)
      else case guest_thread_find_locked t s of
        None \<Rightarrow> (Inl ESRCH, s)
      | Some p \<Rightarrow>
          if gt_detached (the_obj p s) \<or> gt_joining (the_obj p s) then (Inl EINVAL, s)
          else (Inr (), guest_thread_reap_detached self exited
                  (set_obj p (Some ((the_obj p s)\<lparr>gt_detached := True\<rparr>)) s)))"

text \<open>The end of \<^verbatim>\<open>thread_entry\<close>, and of \<^verbatim>\<open>pthread_exit\<close> when the caller is a guest thread.\<close>

definition thread_finish :: "nat \<Rightarrow> u64 \<Rightarrow> threads \<Rightarrow> threads" where
  "thread_finish p ret s = set_obj p (Some ((the_obj p s)\<lparr>gt_ret := ret, gt_finished := True\<rparr>)) s"

definition bionic_pthread_exit :: "u64 \<Rightarrow> u64 \<Rightarrow> threads \<Rightarrow> threads" where
  "bionic_pthread_exit self ret s =
     (case guest_thread_find_locked self s of None \<Rightarrow> s | Some p \<Rightarrow> thread_finish p ret s)"

definition bionic_pthread_equal :: "u64 \<Rightarrow> u64 \<Rightarrow> bool" where
  "bionic_pthread_equal a b \<longleftrightarrow> a = b"

definition bionic_pthread_setname_np :: "u64 \<Rightarrow> byte list option \<Rightarrow> threads \<Rightarrow> unit result \<times> threads" where
  "bionic_pthread_setname_np t name s =
     (case name of
        None \<Rightarrow> (Inl EINVAL, s)
      | Some n \<Rightarrow>
          (case guest_thread_find_locked t s of
             None \<Rightarrow> (Inr (), s)
           | Some p \<Rightarrow> (Inr (), set_obj p (Some ((the_obj p s)\<lparr>gt_name := take 31 (takeWhile (\<lambda>c. c \<noteq> 0) n)\<rparr>)) s)))"

section \<open>The invariant of the list\<close>

definition threads_ok :: "threads \<Rightarrow> bool" where
  "threads_ok s \<longleftrightarrow> distinct (g_guest_threads s) \<and> set (g_guest_threads s) = dom (objs s) \<and>
     inj_on (\<lambda>p. pthread_id (the_obj p s)) (set (g_guest_threads s))"

lemma the_obj_set [simp]:
  "the_obj q (set_obj p x s) = (if q = p then the x else the_obj q s)"
  "g_guest_threads (set_obj p x s) = g_guest_threads s" "objs (set_obj p x s) = (objs s)(p := x)"
  by (simp_all add: the_obj_def set_obj_def)

lemma drop_thread_sel [simp]:
  "g_guest_threads (drop_thread p s) = remove1 p (g_guest_threads s)"
  "objs (drop_thread p s) = (objs s)(p := None)"
  by (simp_all add: drop_thread_def guest_thread_remove_locked_def)

lemma drop_thread_obj: "q \<noteq> p \<Longrightarrow> the_obj q (drop_thread p s) = the_obj q s"
  by (simp add: the_obj_def)

lemma threads_ok_drop:
  assumes "threads_ok s"
  shows "threads_ok (drop_thread p s)"
proof -
  have s: "set (remove1 p (g_guest_threads s)) = set (g_guest_threads s) - {p}"
    using assms by (simp add: threads_ok_def set_remove1_eq)
  have "inj_on (\<lambda>q. pthread_id (the_obj q (drop_thread p s))) (set (g_guest_threads s) - {p})"
    using assms by (auto simp: threads_ok_def inj_on_def drop_thread_obj)
  with assms s show ?thesis by (auto simp: threads_ok_def)
qed

lemma threads_ok_update:
  assumes "threads_ok s" and "p \<in> set (g_guest_threads s)" and "pthread_id g = pthread_id (the_obj p s)"
  shows "threads_ok (set_obj p (Some g) s)"
proof -
  have "pthread_id (the_obj q (set_obj p (Some g) s)) = pthread_id (the_obj q s)" for q
    using assms(3) by simp
  with assms show ?thesis by (auto simp: threads_ok_def inj_on_def insert_absorb)
qed

lemma threads_ok_add:
  assumes "threads_ok s" and "objs s p = None" and "\<forall>q\<in>dom (objs s). pthread_id (the_obj q s) \<noteq> pthread_id g"
  shows "threads_ok (guest_thread_add p (set_obj p (Some g) s))"
proof -
  have n: "p \<notin> set (g_guest_threads s)" using assms(1,2) by (auto simp: threads_ok_def)
  have o: "the_obj q (guest_thread_add p (set_obj p (Some g) s)) = (if q = p then g else the_obj q s)" for q
    by (simp add: guest_thread_add_def the_obj_def set_obj_def)
  show ?thesis
    unfolding threads_ok_def inj_on_def o
    using assms n by (auto simp: threads_ok_def inj_on_def guest_thread_add_def)
qed

lemma find_locked_Some:
  assumes "threads_ok s"
  shows "guest_thread_find_locked t s = Some p \<longleftrightarrow> p \<in> dom (objs s) \<and> pthread_id (the_obj p s) = t"
proof
  assume "guest_thread_find_locked t s = Some p"
  with assms show "p \<in> dom (objs s) \<and> pthread_id (the_obj p s) = t"
    by (auto simp: guest_thread_find_locked_def threads_ok_def dest: find_first_Some)
next
  assume p: "p \<in> dom (objs s) \<and> pthread_id (the_obj p s) = t"
  then have "guest_thread_find_locked t s \<noteq> None"
    using assms by (auto simp: guest_thread_find_locked_def find_first_None threads_ok_def)
  then obtain q where q: "guest_thread_find_locked t s = Some q" by auto
  then have "q \<in> set (g_guest_threads s)" "pthread_id (the_obj q s) = t"
    by (auto simp: guest_thread_find_locked_def dest: find_first_Some)
  with p assms have "q = p" by (auto simp: threads_ok_def inj_on_def)
  with q show "guest_thread_find_locked t s = Some p" by simp
qed

text \<open>Reaping frees only detached, exited threads that nobody joins, and leaves none of them.\<close>

lemma reap_effect:
  assumes "threads_ok s"
  shows "threads_ok (guest_thread_reap_detached self exited s) \<and>
    (\<forall>p. objs (guest_thread_reap_detached self exited s) p =
       (if p \<in> dom (objs s) \<and> reapable self exited s p then None else objs s p))"
  using assms
proof (induction self exited s rule: guest_thread_reap_detached.induct)
  case (1 self exited s)
  show ?case
  proof (cases "find_first (reapable self exited s) (g_guest_threads s)")
    case None
    then have "\<not> (p \<in> dom (objs s) \<and> reapable self exited s p)" for p
      using "1.prems" by (auto simp: find_first_None threads_ok_def)
    moreover have "guest_thread_reap_detached self exited s = s"
      by (subst guest_thread_reap_detached.simps) (simp add: None)
    ultimately show ?thesis using "1.prems" by auto
  next
    case (Some p)
    then have p: "p \<in> dom (objs s)" "reapable self exited s p"
      using "1.prems" find_first_Some [OF Some] by (auto simp: threads_ok_def)
    have e: "guest_thread_reap_detached self exited s = guest_thread_reap_detached self exited (drop_thread p s)"
      by (subst guest_thread_reap_detached.simps) (simp add: Some)
    have r: "q \<noteq> p \<Longrightarrow> reapable self exited (drop_thread p s) q = reapable self exited s q" for q
      by (simp add: reapable_def drop_thread_obj)
    show ?thesis
      unfolding e using "1.IH" [OF Some threads_ok_drop [OF "1.prems"]] p r by auto
  qed
qed

end
