(* ===== verification/ThreadSystem.thy ===== *)
theory ThreadSystem
  imports Threads
begin

text \<open>
  The life of thread objects under any interleaving of creation, exit, joins, detaches and reaping:
  no object is used after it is freed, and no thread is joined twice.
\<close>

section \<open>The steps\<close>

text \<open>
  \<open>running\<close> are the threads that have been created and have not left; a thread's handle is
  signalled when it is not running.  \<open>joins a\<close> is the object whose exit caller \<open>a\<close> waits for.
\<close>

record tsys =
  ts :: threads
  running :: "nat set"
  joins :: "u64 \<Rightarrow> nat option"

definition gone :: "tsys \<Rightarrow> nat \<Rightarrow> bool" where
  "gone S p \<longleftrightarrow> p \<notin> running S"

text \<open>The heap gives a block that is not in use, the host a handle that no open thread has.\<close>

inductive tstep :: "tsys \<Rightarrow> tsys \<Rightarrow> bool" where
  create: "objs (ts S) p = None \<Longrightarrow> p \<notin> running S \<Longrightarrow> \<forall>q\<in>dom (objs (ts S)). pthread_id (the_obj q (ts S)) \<noteq> h \<Longrightarrow>
    bionic_pthread_create self (gone S) True att (Some p) (Some h) True (ts S) = (Inr i, s') \<Longrightarrow>
    tstep S (S\<lparr>ts := s', running := insert p (running S)\<rparr>)"
| create_fails: "\<forall>p. alloc = Some p \<longrightarrow> objs (ts S) p = None \<Longrightarrow>
    \<forall>h. handle = Some h \<longrightarrow> (\<forall>q\<in>dom (objs (ts S)). pthread_id (the_obj q (ts S)) \<noteq> h) \<Longrightarrow>
    bionic_pthread_create self (gone S) ok att alloc handle started (ts S) = (Inl e, s') \<Longrightarrow>
    tstep S (S\<lparr>ts := s'\<rparr>)"
| finish: "p \<in> running S \<Longrightarrow> tstep S (S\<lparr>ts := thread_finish p ret (ts S)\<rparr>)"
| leave: "p \<in> running S \<Longrightarrow> gt_finished (the_obj p (ts S)) \<Longrightarrow> tstep S (S\<lparr>running := running S - {p}\<rparr>)"
| join_fails: "joins S self = None \<Longrightarrow> join_begin self (gone S) t (ts S) = (JoinFails e, s') \<Longrightarrow>
    tstep S (S\<lparr>ts := s'\<rparr>)"
| join_waits: "joins S self = None \<Longrightarrow> join_begin self (gone S) t (ts S) = (JoinWaits p, s') \<Longrightarrow>
    tstep S (S\<lparr>ts := s', joins := (joins S)(self := Some p)\<rparr>)"
| join_returns: "joins S self = Some p \<Longrightarrow> ok \<longrightarrow> gone S p \<Longrightarrow> join_end p ok (ts S) = (rc, s') \<Longrightarrow>
    tstep S (S\<lparr>ts := s', joins := (joins S)(self := None)\<rparr>)"
| detach: "bionic_pthread_detach self (gone S) t (ts S) = (rc, s') \<Longrightarrow> tstep S (S\<lparr>ts := s'\<rparr>)"
| setname: "bionic_pthread_setname_np t n (ts S) = (rc, s') \<Longrightarrow> tstep S (S\<lparr>ts := s'\<rparr>)"

definition join_inv :: "tsys \<Rightarrow> bool" where
  "join_inv S \<longleftrightarrow> (\<forall>a p. joins S a = Some p \<longrightarrow> p \<in> dom (objs (ts S)) \<and> gt_joining (the_obj p (ts S))) \<and>
     (\<forall>a b p. joins S a = Some p \<and> joins S b = Some p \<longrightarrow> a = b)"

definition tsys_inv :: "tsys \<Rightarrow> bool" where
  "tsys_inv S \<longleftrightarrow> threads_ok (ts S) \<and> running S \<subseteq> dom (objs (ts S)) \<and> join_inv S"

text \<open>What an operation may do to the objects: keep the joined and the running ones.\<close>

definition spares :: "tsys \<Rightarrow> threads \<Rightarrow> bool" where
  "spares S s' \<longleftrightarrow> threads_ok s' \<and> (\<forall>p. p \<in> dom (objs (ts S)) \<and> (p \<in> running S \<or> gt_joining (the_obj p (ts S))) \<longrightarrow>
     p \<in> dom (objs s') \<and> (gt_joining (the_obj p (ts S)) \<longrightarrow> gt_joining (the_obj p s')))"

lemma spares_inv:
  assumes "tsys_inv S" and "spares S s'"
  shows "tsys_inv (S\<lparr>ts := s'\<rparr>)"
  using assms by (simp add: tsys_inv_def spares_def join_inv_def) blast

lemma spares_refl: "tsys_inv S \<Longrightarrow> spares S (ts S)"
  by (simp add: tsys_inv_def spares_def)

lemma reap_kept:
  assumes "threads_ok s" and "\<not> reapable self ex s p"
  shows "objs (guest_thread_reap_detached self ex s) p = objs s p \<and>
    the_obj p (guest_thread_reap_detached self ex s) = the_obj p s"
  using reap_effect [OF assms(1), of self ex] assms(2) by (simp add: the_obj_def)

lemma reaped_obj:
  assumes "threads_ok s" and "p \<in> dom (objs (guest_thread_reap_detached self ex s))"
  shows "p \<in> dom (objs s) \<and> the_obj p (guest_thread_reap_detached self ex s) = the_obj p s"
proof -
  have e: "objs (guest_thread_reap_detached self ex s) p =
      (if p \<in> dom (objs s) \<and> reapable self ex s p then None else objs s p)"
    using reap_effect [OF assms(1)] by blast
  with assms(2) have "\<not> (p \<in> dom (objs s) \<and> reapable self ex s p)" by (metis domIff)
  then have "objs (guest_thread_reap_detached self ex s) p = objs s p" by (simp only: e if_False)
  with assms(2) show ?thesis by (simp add: the_obj_def domIff)
qed

lemma reap_spares:
  assumes "tsys_inv S"
  shows "spares S (guest_thread_reap_detached self (gone S) (ts S))"
proof -
  have ok: "threads_ok (ts S)" using assms by (simp add: tsys_inv_def)
  have "\<not> reapable self (gone S) (ts S) p" if "p \<in> running S \<or> gt_joining (the_obj p (ts S))" for p
    using that by (auto simp: reapable_def gone_def)
  note k = reap_kept [OF ok this]
  have "threads_ok (guest_thread_reap_detached self (gone S) (ts S))" using reap_effect [OF ok] by blast
  with k show ?thesis unfolding spares_def by (metis domIff)
qed

lemma spares_update:
  assumes "spares S s1" and "p \<in> dom (objs s1)" and "pthread_id g = pthread_id (the_obj p s1)"
    and "gt_joining (the_obj p s1) \<longrightarrow> gt_joining g"
  shows "spares S (set_obj p (Some g) s1)"
proof -
  have ok: "threads_ok s1" using assms(1) by (simp add: spares_def)
  then have "p \<in> set (g_guest_threads s1)" using assms(2) by (simp add: threads_ok_def)
  from threads_ok_update [OF ok this assms(3)] show ?thesis
    using assms unfolding spares_def by auto
qed

lemma create_spares:
  assumes inv: "tsys_inv S"
    and p: "\<forall>p. alloc = Some p \<longrightarrow> objs (ts S) p = None"
    and h: "\<forall>h. handle = Some h \<longrightarrow> (\<forall>q\<in>dom (objs (ts S)). pthread_id (the_obj q (ts S)) \<noteq> h)"
    and c: "bionic_pthread_create self (gone S) ok att alloc handle started (ts S) = (rc, s')"
  shows "spares S s' \<and> (\<forall>i. rc = Inr i \<longrightarrow> (\<forall>p. alloc = Some p \<longrightarrow> p \<in> dom (objs s')))"
proof -
  let ?s1 = "guest_thread_reap_detached self (gone S) (ts S)"
  have okS: "threads_ok (ts S)" using inv by (simp add: tsys_inv_def)
  have s1: "spares S ?s1" by (rule reap_spares [OF inv])
  then have ok1: "threads_ok ?s1" by (simp add: spares_def)
  have cs: "(s' = ts S \<and> (\<exists>e. rc = Inl e)) \<or> (s' = ?s1 \<and> (\<exists>e. rc = Inl e)) \<or>
      (\<exists>q g. alloc = Some q \<and> handle = Some (pthread_id g) \<and>
        (let s2 = guest_thread_add q (set_obj q (Some g) ?s1)
         in (started \<and> s' = s2) \<or> (\<not> started \<and> s' = drop_thread q s2 \<and> (\<exists>e. rc = Inl e))))"
  proof (cases "ok \<and> alloc \<noteq> None \<and> handle \<noteq> None \<and> handle \<noteq> Some 0")
    case False
    with c show ?thesis
      by (cases ok; cases alloc; cases handle) (auto simp: bionic_pthread_create_def Let_def split: if_splits)
  next
    case True
    then obtain q k where qk: "alloc = Some q" "handle = Some k" "k \<noteq> 0" "ok" by auto
    let ?g = "\<lparr>pthread_id = k, gt_detached = (case att of None \<Rightarrow> False | Some (_, d) \<Rightarrow> d),
      gt_finished = False, gt_joining = False, gt_ret = 0, gt_name = []\<rparr>"
    have "started \<and> s' = guest_thread_add q (set_obj q (Some ?g) ?s1) \<or>
      \<not> started \<and> s' = drop_thread q (guest_thread_add q (set_obj q (Some ?g) ?s1)) \<and> (\<exists>e. rc = Inl e)"
      using c qk by (auto simp: bionic_pthread_create_def Let_def split: if_splits)
    with qk show ?thesis unfolding Let_def by (intro disjI2 exI [of _ q] exI [of _ ?g]) simp
  qed
  then consider "s' = ts S" "\<exists>e. rc = Inl e" | "s' = ?s1" "\<exists>e. rc = Inl e"
    | (new) q g where "alloc = Some q" "handle = Some (pthread_id g)"
        "(s' = guest_thread_add q (set_obj q (Some g) ?s1)) \<or>
         (s' = drop_thread q (guest_thread_add q (set_obj q (Some g) ?s1)) \<and> (\<exists>e. rc = Inl e))"
    unfolding Let_def by blast
  then show ?thesis
  proof cases
    case 1
    with spares_refl [OF inv] show ?thesis by auto
  next
    case 2
    with s1 show ?thesis by auto
  next
    case new
    let ?s2 = "guest_thread_add q (set_obj q (Some g) ?s1)"
    have q: "objs (ts S) q = None" using p new by simp
    then have q1: "objs ?s1 q = None" using reap_effect [OF okS] by simp
    have "\<forall>u\<in>dom (objs ?s1). pthread_id (the_obj u ?s1) \<noteq> pthread_id g"
      using h new reaped_obj [OF okS] by auto
    then have ok2: "threads_ok ?s2" by (rule threads_ok_add [OF ok1 q1])
    have o2: "objs ?s2 = (objs ?s1)(q := Some g)" "u \<noteq> q \<Longrightarrow> the_obj u ?s2 = the_obj u ?s1" for u
      by (simp_all add: guest_thread_add_def the_obj_def)
    have sp2: "spares S ?s2" unfolding spares_def
    proof (intro conjI allI impI ok2)
      fix u assume u: "u \<in> dom (objs (ts S)) \<and> (u \<in> running S \<or> gt_joining (the_obj u (ts S)))"
      then have "u \<noteq> q" using q by auto
      with u s1 o2 show "u \<in> dom (objs ?s2)" unfolding spares_def by auto
      assume "gt_joining (the_obj u (ts S))"
      with u s1 o2 \<open>u \<noteq> q\<close> show "gt_joining (the_obj u ?s2)" unfolding spares_def by simp
    qed
    have sp3: "spares S (drop_thread q ?s2)" unfolding spares_def
    proof (intro conjI allI impI threads_ok_drop ok2)
      fix u assume u: "u \<in> dom (objs (ts S)) \<and> (u \<in> running S \<or> gt_joining (the_obj u (ts S)))"
      then have "u \<noteq> q" using q by auto
      with u sp2 show "u \<in> dom (objs (drop_thread q ?s2))" unfolding spares_def by auto
      assume "gt_joining (the_obj u (ts S))"
      with u sp2 \<open>u \<noteq> q\<close> show "gt_joining (the_obj u (drop_thread q ?s2))"
        unfolding spares_def by (simp add: drop_thread_obj)
    qed
    from new(3) show ?thesis
    proof (elim disjE conjE)
      assume "s' = ?s2"
      with sp2 new(1) o2 show ?thesis by simp
    next
      assume "s' = drop_thread q ?s2" "\<exists>e. rc = Inl e"
      with sp3 show ?thesis by auto
    qed
  qed
qed


lemma find_in:
  "threads_ok s \<Longrightarrow> guest_thread_find_locked t s = Some p \<Longrightarrow> p \<in> dom (objs s)"
  by (simp add: find_locked_Some)

lemma join_begin_effect:
  assumes inv: "tsys_inv S" and c: "join_begin self (gone S) t (ts S) = (out, s')"
  shows "spares S s' \<and> (\<forall>p. out = JoinWaits p \<longrightarrow>
     p \<in> dom (objs s') \<and> gt_joining (the_obj p s') \<and> \<not> gt_joining (the_obj p (ts S)) \<and> p \<in> dom (objs (ts S)))"
proof -
  let ?s1 = "guest_thread_reap_detached self (gone S) (ts S)"
  have okS: "threads_ok (ts S)" using inv by (simp add: tsys_inv_def)
  have s1: "spares S ?s1" by (rule reap_spares [OF inv])
  then have ok1: "threads_ok ?s1" by (simp add: spares_def)
  from c have "(\<exists>e. out = JoinFails e \<and> (s' = ts S \<or> s' = ?s1)) \<or>
    (\<exists>p. out = JoinWaits p \<and> guest_thread_find_locked t ?s1 = Some p \<and> \<not> gt_joining (the_obj p ?s1) \<and>
       s' = set_obj p (Some ((the_obj p ?s1)\<lparr>gt_joining := True\<rparr>)) ?s1)"
    by (auto simp: join_begin_def Let_def split: if_splits option.splits)
  then show ?thesis
  proof (elim disjE exE conjE)
    fix p assume o: "out = JoinWaits p" and f: "guest_thread_find_locked t ?s1 = Some p"
      and j: "\<not> gt_joining (the_obj p ?s1)" and s': "s' = set_obj p (Some ((the_obj p ?s1)\<lparr>gt_joining := True\<rparr>)) ?s1"
    have p: "p \<in> dom (objs ?s1)" by (rule find_in [OF ok1 f])
    have "spares S s'" unfolding s' by (rule spares_update [OF s1 p]) simp_all
    with o p j reaped_obj [OF okS p] show ?thesis by (simp add: s')
  qed (use s1 spares_refl [OF inv] in auto)
qed

lemma detach_spares:
  assumes inv: "tsys_inv S" and c: "bionic_pthread_detach self (gone S) t (ts S) = (rc, s')"
  shows "spares S s'"
proof -
  have ok: "threads_ok (ts S)" using inv by (simp add: tsys_inv_def)
  from c have "s' = ts S \<or> (\<exists>p. guest_thread_find_locked t (ts S) = Some p \<and>
      s' = guest_thread_reap_detached self (gone S) (set_obj p (Some ((the_obj p (ts S))\<lparr>gt_detached := True\<rparr>)) (ts S)))"
    by (auto simp: bionic_pthread_detach_def split: if_splits option.splits)
  then show ?thesis
  proof (elim disjE exE conjE)
    fix p assume f: "guest_thread_find_locked t (ts S) = Some p"
    let ?s1 = "set_obj p (Some ((the_obj p (ts S))\<lparr>gt_detached := True\<rparr>)) (ts S)"
    assume s': "s' = guest_thread_reap_detached self (gone S) ?s1"
    have sp: "spares S ?s1" by (rule spares_update [OF spares_refl [OF inv] find_in [OF ok f]]) simp_all
    have "tsys_inv (S\<lparr>ts := ?s1\<rparr>)" by (rule spares_inv [OF inv sp])
    from reap_spares [OF this, of self] have r: "spares (S\<lparr>ts := ?s1\<rparr>) s'" by (simp add: s' gone_def [abs_def])
    show ?thesis using sp r unfolding spares_def by (simp del: the_obj_set) blast
  qed (simp add: spares_refl [OF inv])
qed

lemma setname_spares:
  assumes inv: "tsys_inv S" and c: "bionic_pthread_setname_np t n (ts S) = (rc, s')"
  shows "spares S s'"
proof -
  have ok: "threads_ok (ts S)" using inv by (simp add: tsys_inv_def)
  from c have "s' = ts S \<or> (\<exists>p nm. guest_thread_find_locked t (ts S) = Some p \<and>
      s' = set_obj p (Some ((the_obj p (ts S))\<lparr>gt_name := nm\<rparr>)) (ts S))"
    by (auto simp: bionic_pthread_setname_np_def split: if_splits option.splits)
  then show ?thesis
    using spares_refl [OF inv] spares_update [OF spares_refl [OF inv] find_in [OF ok]] by auto
qed

lemma tstep_inv:
  assumes "tstep S S'" and inv: "tsys_inv S"
  shows "tsys_inv S'"
  using assms(1)
proof cases
  case (create p h self att i s')
  have "spares S s' \<and> p \<in> dom (objs s')"
    using create_spares [OF inv _ _ create(5)] create(2,4) by simp
  then have "tsys_inv (S\<lparr>ts := s'\<rparr>)" "p \<in> dom (objs s')" using spares_inv [OF inv] by auto
  then show ?thesis unfolding create(1) tsys_inv_def join_inv_def by simp
next
  case (create_fails alloc handle self ok att started e s')
  from create_spares [OF inv create_fails(2-4)] show ?thesis
    unfolding create_fails(1) by (intro spares_inv [OF inv]) simp
next
  case (finish p ret)
  have "p \<in> dom (objs (ts S))" using inv finish(2) by (auto simp: tsys_inv_def)
  then have "spares S (thread_finish p ret (ts S))"
    unfolding thread_finish_def by (intro spares_update [OF spares_refl [OF inv]]) simp_all
  then show ?thesis unfolding finish(1) by (rule spares_inv [OF inv])
next
  case (leave p)
  with inv show ?thesis by (auto simp: tsys_inv_def join_inv_def)
next
  case (join_fails self t e s')
  from join_begin_effect [OF inv join_fails(3)] show ?thesis
    unfolding join_fails(1) by (intro spares_inv [OF inv]) simp
next
  case (join_waits self t p s')
  note J = join_begin_effect [OF inv join_waits(3)]
  then have "tsys_inv (S\<lparr>ts := s'\<rparr>)" by (intro spares_inv [OF inv]) simp
  moreover have "joins S a \<noteq> Some p" for a
    using inv J unfolding tsys_inv_def join_inv_def by auto
  ultimately show ?thesis using J unfolding join_waits(1) tsys_inv_def join_inv_def by auto
next
  case (join_returns self p ok rc s')
  have p: "p \<in> dom (objs (ts S))" "threads_ok (ts S)" and u: "joins S b = Some p \<Longrightarrow> b = self" for b
    using inv join_returns(2) unfolding tsys_inv_def join_inv_def by blast+
  then have pl: "p \<in> set (g_guest_threads (ts S))" by (simp add: threads_ok_def)
  have other: "q \<noteq> p" if "b \<noteq> self" "joins S b = Some q" for b q using u that by auto
  show ?thesis
  proof (cases ok)
    case False
    then have s': "s' = set_obj p (Some ((the_obj p (ts S))\<lparr>gt_joining := False\<rparr>)) (ts S)"
      using join_returns(4) by (simp add: join_end_def)
    have "threads_ok s'" unfolding s' by (rule threads_ok_update [OF p(2) pl]) simp
    then show ?thesis using inv other unfolding join_returns(1) tsys_inv_def join_inv_def s' by auto
  next
    case True
    then have s': "s' = drop_thread p (ts S)" and g: "p \<notin> running S"
      using join_returns(3,4) by (auto simp: join_end_def gone_def)
    have "threads_ok s'" unfolding s' by (rule threads_ok_drop [OF p(2)])
    then show ?thesis using inv other g unfolding join_returns(1) tsys_inv_def join_inv_def s'
      by (auto simp: drop_thread_obj)
  qed
next
  case (detach self t rc s')
  show ?thesis unfolding detach(1) by (rule spares_inv [OF inv detach_spares [OF inv detach(2)]])
next
  case (setname t n rc s')
  show ?thesis unfolding setname(1) by (rule spares_inv [OF inv setname_spares [OF inv setname(2)]])
qed

end
