(* ===== verification/ThreadProps.thy ===== *)
theory ThreadProps
  imports ThreadSystem
begin

text \<open>The properties of the thread objects.\<close>

section \<open>Reachable states\<close>

definition init_tsys :: tsys where
  "init_tsys = \<lparr>ts = \<lparr>g_guest_threads = [], objs = (\<lambda>_. None)\<rparr>, running = {}, joins = (\<lambda>_. None)\<rparr>"

lemma init_tsys_inv: "tsys_inv init_tsys"
  by (simp add: tsys_inv_def init_tsys_def threads_ok_def join_inv_def)

lemma treach_inv: "tstep\<^sup>*\<^sup>* init_tsys S \<Longrightarrow> tsys_inv S"
  by (induction rule: rtranclp_induct) (auto intro: init_tsys_inv tstep_inv)


definition one_thread :: gthread where
  "one_thread = \<lparr>pthread_id = 7, gt_detached = False, gt_finished = False, gt_joining = False, gt_ret = 0, gt_name = []\<rparr>"

definition demo :: tsys where
  "demo = \<lparr>ts = \<lparr>g_guest_threads = [5], objs = (\<lambda>_. None)(5 := Some (one_thread\<lparr>gt_joining := True\<rparr>))\<rparr>,
     running = {5}, joins = (\<lambda>_. None)(1 := Some 5)\<rparr>"

lemma reap_single:
  "g_guest_threads s = [] \<Longrightarrow> guest_thread_reap_detached self ex s = s"
  "g_guest_threads s = [p] \<Longrightarrow> \<not> gt_detached (the_obj p s) \<Longrightarrow> guest_thread_reap_detached self ex s = s"
  by (subst guest_thread_reap_detached.simps, simp add: reapable_def)+

lemma demo_reached: "tstep\<^sup>*\<^sup>* init_tsys demo"
proof -
  let ?s1 = "\<lparr>g_guest_threads = [5], objs = (\<lambda>_. None)(5 := Some one_thread)\<rparr>"
  let ?A = "init_tsys\<lparr>ts := ?s1, running := {5}\<rparr>"
  have "bionic_pthread_create 1 (gone init_tsys) True None (Some 5) (Some 7) True (ts init_tsys) = (Inr 7, ?s1)"
    by (simp add: bionic_pthread_create_def init_tsys_def reap_single guest_thread_add_def set_obj_def one_thread_def)
  then have "tstep init_tsys (init_tsys\<lparr>ts := ?s1, running := insert 5 (running init_tsys)\<rparr>)"
    by (intro tstep.create [where p = 5]) (auto simp: init_tsys_def)
  then have a: "tstep init_tsys ?A" by (simp add: init_tsys_def)
  have "join_begin 1 (gone ?A) 7 (ts ?A) = (JoinWaits 5, ts demo)"
    by (simp add: join_begin_def reap_single guest_thread_find_locked_def the_obj_def one_thread_def set_obj_def demo_def Let_def)
  then have "tstep ?A (?A\<lparr>ts := ts demo, joins := (joins ?A)(1 := Some 5)\<rparr>)"
    by (intro tstep.join_waits) (auto simp: init_tsys_def)
  then have "tstep ?A demo" by (simp add: demo_def init_tsys_def)
  with a show ?thesis by (meson converse_rtranclp_into_rtranclp r_into_rtranclp)
qed


section \<open>Outcomes\<close>

text \<open>The thread with an id, as an abstract lookup.\<close>

definition thread_with :: "threads \<Rightarrow> u64 \<Rightarrow> nat \<Rightarrow> bool" where
  "thread_with s i p \<longleftrightarrow> objs s p \<noteq> None \<and> pthread_id (the_obj p s) = i"

lemma find_locked_with: "threads_ok s \<Longrightarrow> guest_thread_find_locked t s = Some p \<longleftrightarrow> thread_with s t p"
  by (auto simp: find_locked_Some thread_with_def)

lemma find_locked_none:
  "threads_ok s \<Longrightarrow> guest_thread_find_locked t s = None \<longleftrightarrow> (\<forall>p. \<not> thread_with s t p)"
  using find_locked_with [of s t] by (cases "guest_thread_find_locked t s") (simp_all, blast)

lemma kept_with:
  assumes ok: "threads_ok s"
  shows "thread_with (guest_thread_reap_detached self ex s) t p \<longleftrightarrow>
    thread_with s t p \<and> \<not> reapable self ex s p"
  using reap_effect [OF ok, of self ex] by (auto simp: thread_with_def the_obj_def)



end
