(* ===== verification/Tls.thy ===== *)
theory Tls
  imports Prelude
begin

text \<open>
  Thread-local keys and thread attributes of \<^verbatim>\<open>source/bionic.c\<close>: a counter that hands out keys, the
  destructors by key, the values by thread and key, and the attribute record of bionic's ABI.
\<close>

section \<open>Keys\<close>

definition TLS_KEYS :: nat where "TLS_KEYS = 128"

record tls =
  g_tls :: "nat \<Rightarrow> nat \<Rightarrow> u64"
  g_tls_dtors :: "nat \<Rightarrow> u64"
  g_next_key :: nat

definition init_tls :: tls where
  "init_tls = \<lparr>g_tls = (\<lambda>_ _. 0), g_tls_dtors = (\<lambda>_. 0), g_next_key = 1\<rparr>"

definition bionic_pthread_key_create :: "u64 \<Rightarrow> tls \<Rightarrow> nat result \<times> tls" where
  "bionic_pthread_key_create d s =
     (if g_next_key s < TLS_KEYS
      then let v = g_next_key s
           in (Inr v, s\<lparr>g_next_key := g_next_key s + 1, g_tls_dtors := (g_tls_dtors s)(v := d)\<rparr>)
      else (Inl EAGAIN, s))"

definition set_value :: "nat \<Rightarrow> nat \<Rightarrow> u64 \<Rightarrow> tls \<Rightarrow> tls" where
  "set_value t k v s = s\<lparr>g_tls := (g_tls s)(t := (g_tls s t)(k := v))\<rparr>"

definition bionic_pthread_key_delete :: "nat \<Rightarrow> nat \<Rightarrow> tls \<Rightarrow> tls" where
  "bionic_pthread_key_delete t k s =
     (if k < TLS_KEYS then (set_value t k 0 s)\<lparr>g_tls_dtors := (g_tls_dtors s)(k := 0)\<rparr> else s)"

definition bionic_pthread_setspecific :: "nat \<Rightarrow> nat \<Rightarrow> u64 \<Rightarrow> tls \<Rightarrow> unit result \<times> tls" where
  "bionic_pthread_setspecific t k v s =
     (if TLS_KEYS \<le> k then (Inl EINVAL, s) else (Inr (), set_value t k v s))"

definition bionic_pthread_getspecific :: "nat \<Rightarrow> nat \<Rightarrow> tls \<Rightarrow> u64" where
  "bionic_pthread_getspecific t k s = (if k < TLS_KEYS then g_tls s t k else 0)"

text \<open>
  The destructors at a thread's end: \<open>call d v s\<close> is what destructor \<open>d\<close> does when it is called on \<open>v\<close>.
\<close>

fun run_dtors :: "(u64 \<Rightarrow> u64 \<Rightarrow> tls \<Rightarrow> tls) \<Rightarrow> nat \<Rightarrow> nat list \<Rightarrow> tls \<Rightarrow> (u64 \<times> u64) list \<times> tls" where
  "run_dtors call t [] s = ([], s)"
| "run_dtors call t (i # is) s =
     (if g_tls s t i \<noteq> 0 \<and> g_tls_dtors s i \<noteq> 0
      then (case run_dtors call t is (call (g_tls_dtors s i) (g_tls s t i) s) of
              (calls, s') \<Rightarrow> ((g_tls_dtors s i, g_tls s t i) # calls, s'))
      else run_dtors call t is s)"

definition guest_thread_run_dtors ::
  "(u64 \<Rightarrow> u64 \<Rightarrow> tls \<Rightarrow> tls) \<Rightarrow> nat \<Rightarrow> tls \<Rightarrow> (u64 \<times> u64) list \<times> tls" where
  "guest_thread_run_dtors call t s = run_dtors call t [1..<TLS_KEYS] s"

section \<open>Attributes\<close>

record pattr =
  at_flags :: u32
  at_stack_base :: u64
  at_stack_size :: u64
  at_guard_size :: u64
  at_policy :: u32
  at_priority :: u32

definition zero_attr :: pattr where
  "zero_attr = \<lparr>at_flags = 0, at_stack_base = 0, at_stack_size = 0, at_guard_size = 0, at_policy = 0, at_priority = 0\<rparr>"

text \<open>\<open>None\<close> is a null pointer.\<close>

definition bionic_pthread_attr_init :: "pattr option \<Rightarrow> pattr result" where
  "bionic_pthread_attr_init a =
     (case a of None \<Rightarrow> Inl EINVAL | Some _ \<Rightarrow> Inr (zero_attr\<lparr>at_stack_size := 2 * 1024 * 1024\<rparr>))"

definition bionic_pthread_attr_destroy :: "pattr option \<Rightarrow> pattr result" where
  "bionic_pthread_attr_destroy a = (case a of None \<Rightarrow> Inl EINVAL | Some _ \<Rightarrow> Inr zero_attr)"

definition bionic_pthread_attr_setdetachstate :: "pattr option \<Rightarrow> u32 \<Rightarrow> pattr result" where
  "bionic_pthread_attr_setdetachstate a v =
     (case a of None \<Rightarrow> Inl EINVAL
      | Some x \<Rightarrow> Inr (x\<lparr>at_flags := if v \<noteq> 0 then at_flags x OR 1 else at_flags x AND NOT 1\<rparr>))"

definition bionic_pthread_attr_setstacksize :: "pattr option \<Rightarrow> u64 \<Rightarrow> pattr result" where
  "bionic_pthread_attr_setstacksize a n =
     (case a of None \<Rightarrow> Inl EINVAL
      | Some x \<Rightarrow> if n < 0x4000 then Inl EINVAL else Inr (x\<lparr>at_stack_size := n\<rparr>))"

definition bionic_pthread_attr_getstack :: "pattr option \<Rightarrow> (u64 \<times> u64) result" where
  "bionic_pthread_attr_getstack a =
     (case a of None \<Rightarrow> Inl EINVAL | Some x \<Rightarrow> Inr (at_stack_base x, at_stack_size x))"

text \<open>
  The stack of the calling thread: the main stack when the stack pointer is in it, else the memory
  region the host reports (\<open>region\<close>).
\<close>

definition attr_fill_current_stack ::
  "u64 \<Rightarrow> u64 \<Rightarrow> u64 \<Rightarrow> (u64 \<times> u64) option \<Rightarrow> pattr \<Rightarrow> pattr result" where
  "attr_fill_current_stack main_lo main_hi sp region x =
     (if main_lo \<noteq> 0 \<and> main_lo \<le> sp \<and> sp < main_hi
      then Inr (x\<lparr>at_stack_base := main_lo, at_stack_size := main_hi - main_lo\<rparr>)
      else case region of
             None \<Rightarrow> Inl ESRCH
           | Some (a, n) \<Rightarrow> if a \<noteq> 0 \<and> n \<noteq> 0 then Inr (x\<lparr>at_stack_base := a, at_stack_size := n\<rparr>)
                            else Inl ESRCH)"

text \<open>\<open>found\<close>: stack base and size of the thread object with id \<open>t\<close>, zeros when there is none.\<close>

definition attr_fill_thread_stack ::
  "u64 \<Rightarrow> u64 \<Rightarrow> u64 \<times> u64 \<Rightarrow> (pattr \<Rightarrow> pattr result) \<Rightarrow> pattr \<Rightarrow> pattr result" where
  "attr_fill_thread_stack self t found current x =
     (if fst found \<noteq> 0 \<and> snd found \<noteq> 0
      then Inr (x\<lparr>at_stack_base := fst found, at_stack_size := snd found\<rparr>)
      else if t = self then current x else Inl ESRCH)"

text \<open>The attributes are cleared when the stack cannot be found.\<close>

definition bionic_pthread_getattr_np ::
  "u64 \<Rightarrow> u64 \<Rightarrow> u64 \<times> u64 \<Rightarrow> (pattr \<Rightarrow> pattr result) \<Rightarrow> pattr option \<Rightarrow> unit result \<times> pattr option" where
  "bionic_pthread_getattr_np self t found current a =
     (case a of
        None \<Rightarrow> (Inl EINVAL, None)
      | Some x \<Rightarrow>
          if t = 0 then (Inl ESRCH, Some x)
          else case bionic_pthread_attr_init (Some x) of
                 Inl e \<Rightarrow> (Inl e, Some x)
               | Inr y \<Rightarrow>
                   (case attr_fill_thread_stack self t found current y of
                      Inl e \<Rightarrow> (Inl e, Some zero_attr)
                    | Inr z \<Rightarrow> (Inr (), Some z)))"

section \<open>Runs of key operations\<close>

datatype tls_op = KeyCreate u64 | KeyDelete nat nat | SetSpecific nat nat u64

fun tls_run :: "tls_op list \<Rightarrow> tls \<Rightarrow> nat list \<times> tls" where
  "tls_run [] s = ([], s)"
| "tls_run (KeyCreate d # ops) s =
     (case bionic_pthread_key_create d s of
        (Inr k, s1) \<Rightarrow> (case tls_run ops s1 of (ks, s2) \<Rightarrow> (k # ks, s2))
      | (Inl _, s1) \<Rightarrow> tls_run ops s1)"
| "tls_run (KeyDelete t k # ops) s = tls_run ops (bionic_pthread_key_delete t k s)"
| "tls_run (SetSpecific t k v # ops) s = tls_run ops (snd (bionic_pthread_setspecific t k v s))"

definition creates :: "tls_op list \<Rightarrow> nat" where
  "creates ops = length (filter (\<lambda>x. case x of KeyCreate _ \<Rightarrow> True | _ \<Rightarrow> False) ops)"

lemma next_key_frames [simp]:
  "g_next_key (set_value t k v s) = g_next_key s"
  "g_next_key (bionic_pthread_key_delete t k s) = g_next_key s"
  "g_next_key (snd (bionic_pthread_setspecific t k v s)) = g_next_key s"
  by (simp_all add: set_value_def bionic_pthread_key_delete_def bionic_pthread_setspecific_def)

lemma tls_run_keys:
  assumes "g_next_key s \<le> TLS_KEYS"
  shows "fst (tls_run ops s) = [g_next_key s..<min TLS_KEYS (g_next_key s + creates ops)]"
  using assms
proof (induction ops s rule: tls_run.induct)
  case (2 d ops s)
  show ?case
  proof (cases "g_next_key s < TLS_KEYS")
    case True
    let ?s1 = "s\<lparr>g_next_key := g_next_key s + 1, g_tls_dtors := (g_tls_dtors s)(g_next_key s := d)\<rparr>"
    have c: "bionic_pthread_key_create d s = (Inr (g_next_key s), ?s1)"
      using True by (simp add: bionic_pthread_key_create_def Let_def)
    have "fst (tls_run ops ?s1) = [Suc (g_next_key s)..<min TLS_KEYS (Suc (g_next_key s) + creates ops)]"
      using "2.IH" c True by simp
    then show ?thesis using True by (cases "tls_run ops ?s1") (simp add: c creates_def upt_conv_Cons)
  next
    case False
    then have c: "bionic_pthread_key_create d s = (Inl EAGAIN, s)" by (simp add: bionic_pthread_key_create_def)
    then have "fst (tls_run ops s) = [g_next_key s..<min TLS_KEYS (g_next_key s + creates ops)]"
      using "2.IH" c "2.prems" by simp
    then show ?thesis using False by (simp add: c)
  qed
qed (simp_all add: creates_def)

text \<open>
  Keys are handed out as 1, 2, 3, ... and never again: in any run of creations, deletions and
  stores from the start, the keys created are exactly the first \<open>min n 127\<close> of them for \<open>n\<close>
  creations.  So keys are distinct, and the 128th creation fails even if every key was deleted.
\<close>

theorem tls_keys_never_reused:
  "fst (tls_run ops init_tls) = [1..<min 128 (1 + creates ops)]"
  using tls_run_keys [of init_tls ops] by (simp add: init_tls_def TLS_KEYS_def)

end
