(* ===== verification/Boehm.thy ===== *)
theory Boehm
  imports Prelude
begin

text \<open>
  The stop-the-world support of \<^verbatim>\<open>source/bionic.c\<close> for the Boehm collector in \<^verbatim>\<open>libil2cpp.so\<close>: instead
  of signals, a thread is paused by the host, its registers are stored below its stack pointer,
  and the collector's record of the thread is updated as its signal handlers would do.
  The collector's memory (thread table, marker, acknowledgement flag) is part of the state.
\<close>

section \<open>State\<close>

definition BOEHM_PAUSED_MAX :: nat where "BOEHM_PAUSED_MAX = 64"
definition OFF_IL2CPP_GC_SUSPEND_HANDLER :: u64 where "OFF_IL2CPP_GC_SUSPEND_HANDLER = 0x010AE688"
definition OFF_IL2CPP_GC_RESTART_HANDLER :: u64 where "OFF_IL2CPP_GC_RESTART_HANDLER = 0x010AE7FC"

record paused =
  ps_used :: bool
  ps_id :: u64
  ps_base :: u64
  ps_record :: u64
  ps_marker :: u64

definition zero_paused :: paused where
  "zero_paused = \<lparr>ps_used = False, ps_id = 0, ps_base = 0, ps_record = 0, ps_marker = 0\<rparr>"

text \<open>
  \<open>gc_table\<close> is the collector's hash table: the records, by address, of each chain; \<open>rec_state\<close> and
  \<open>rec_stack\<close> their fields; \<open>asleep\<close> the threads the host has paused; \<open>acks\<close> the posts of the
  acknowledgement semaphore; \<open>saved\<close> the register blocks stored on stacks, by address.
\<close>

record 'c boehm =
  g_boehm_paused :: "paused list"
  suspend_sig :: "int option"
  restart_sig :: "int option"
  suspend_handler :: u64
  restart_handler :: u64
  gc_table :: "nat \<Rightarrow> (u64 \<times> u64) list"
  rec_state :: "u64 \<Rightarrow> u64"
  rec_stack :: "u64 \<Rightarrow> u64"
  world_marker :: u64
  restart_ack :: bool
  stopped :: "u64 \<Rightarrow> bool"
  acks :: nat
  saved :: "u64 \<Rightarrow> 'c option"

text \<open>\<open>None\<close> is the initial \<^verbatim>\<open>-1\<close> of a signal number.\<close>

definition bionic_note_sigaction :: "u64 \<Rightarrow> int \<Rightarrow> u64 \<Rightarrow> 'c boehm \<Rightarrow> 'c boehm" where
  "bionic_note_sigaction base sig h s =
     (if base = 0 \<or> h = 0 then s
      else if h = base + OFF_IL2CPP_GC_SUSPEND_HANDLER
      then s\<lparr>suspend_sig := Some sig, suspend_handler := h\<rparr>
      else if h = base + OFF_IL2CPP_GC_RESTART_HANDLER
      then s\<lparr>restart_sig := Some sig, restart_handler := h\<rparr>
      else s)"

definition boehm_hash :: "u64 \<Rightarrow> nat" where
  "boehm_hash tid =
     (let h = (ucast (drop_bit 8 tid) :: u32) XOR ucast tid; h1 = h XOR drop_bit 16 h
      in unat (h1 AND 0xff))"

fun find_record :: "u64 \<Rightarrow> (u64 \<times> u64) list \<Rightarrow> u64 option" where
  "find_record tid [] = None"
| "find_record tid ((r, i) # rest) = (if i = tid then Some r else find_record tid rest)"

definition boehm_find_record :: "u64 \<Rightarrow> 'c boehm \<Rightarrow> u64 option" where
  "boehm_find_record tid s = find_record tid (gc_table s (boehm_hash tid))"

definition boehm_pause_find :: "u64 \<Rightarrow> 'c boehm \<Rightarrow> nat option" where
  "boehm_pause_find tid s =
     scan (\<lambda>i. ps_used (g_boehm_paused s ! i) \<and> ps_id (g_boehm_paused s ! i) = tid) 0 BOEHM_PAUSED_MAX"

definition set_paused :: "nat \<Rightarrow> paused \<Rightarrow> 'c boehm \<Rightarrow> 'c boehm" where
  "set_paused i p s = s\<lparr>g_boehm_paused := (g_boehm_paused s)[i := p]\<rparr>"

definition boehm_pause_alloc :: "u64 \<Rightarrow> 'c boehm \<Rightarrow> nat option \<times> 'c boehm" where
  "boehm_pause_alloc tid s =
     (case boehm_pause_find tid s of
        Some i \<Rightarrow> (Some i, s)
      | None \<Rightarrow>
          (case scan (\<lambda>i. \<not> ps_used (g_boehm_paused s ! i)) 0 BOEHM_PAUSED_MAX of
             Some i \<Rightarrow> (Some i, set_paused i (zero_paused\<lparr>ps_used := True, ps_id := tid\<rparr>) s)
           | None \<Rightarrow> (None, s)))"

section \<open>Suspending and restarting\<close>

text \<open>
  What the host answers: whether the handle names a thread, whether it can be paused and resumed,
  its registers with their stack pointer, the region around the snapshot (start, end, writable),
  and whether the semaphore could be posted; \<open>csize\<close> is the size of the register block.
\<close>

record 'c host_env =
  thread_ok :: bool
  pause_ok :: bool
  resume_ok :: bool
  regs_of :: "('c \<times> u64) option"
  region :: "(u64 \<times> u64 \<times> bool) option"
  post_ok :: bool
  csize :: u64

definition boehm_validate_thread :: "u64 \<Rightarrow> 'c host_env \<Rightarrow> unit result" where
  "boehm_validate_thread tid env = (if tid = 0 \<or> \<not> thread_ok env then Inl ESRCH else Inr ())"

definition pause :: "u64 \<Rightarrow> bool \<Rightarrow> 'c boehm \<Rightarrow> 'c boehm" where
  "pause tid b s = s\<lparr>stopped := (stopped s)(tid := b)\<rparr>"

text \<open>Undoing a suspension; \<^verbatim>\<open>ThreadActivity_Runnable\<close> is ignored when it fails.\<close>

definition undo_pause :: "u64 \<Rightarrow> 'c host_env \<Rightarrow> 'c boehm \<Rightarrow> 'c boehm" where
  "undo_pause tid env s = (if resume_ok env then pause tid False s else s)"

definition snapshot_addr :: "u64 \<Rightarrow> u64 \<Rightarrow> u64" where
  "snapshot_addr sp n = (sp - n) AND NOT 0xf"

definition snapshot_fits :: "u64 \<Rightarrow> u64 \<Rightarrow> (u64 \<times> u64 \<times> bool) option \<Rightarrow> bool" where
  "snapshot_fits sp snap reg =
     (case reg of None \<Rightarrow> False | Some (lo, hi, w) \<Rightarrow> lo \<le> snap \<and> sp \<le> hi \<and> w)"

definition boehm_horizon_suspend ::
  "u64 \<Rightarrow> u64 \<Rightarrow> u64 \<Rightarrow> 'c host_env \<Rightarrow> 'c boehm \<Rightarrow> unit result \<times> 'c boehm" where
  "boehm_horizon_suspend self tid base env s =
     (case boehm_validate_thread tid env of
        Inl e \<Rightarrow> (Inl e, s)
      | Inr _ \<Rightarrow>
      if tid = self then (Inl EINVAL, s)
      else case boehm_find_record tid s of
        None \<Rightarrow> (Inl ESRCH, s)
      | Some rec \<Rightarrow>
      if \<not> pause_ok env then (Inl EINVAL, s)
      else let s1 = pause tid True s in
      case regs_of env of
        None \<Rightarrow> (Inl EINVAL, undo_pause tid env s1)
      | Some (ctx, sp) \<Rightarrow>
      (case boehm_pause_alloc tid s1 of
        (None, s2) \<Rightarrow> (Inl EAGAIN, undo_pause tid env s2)
      | (Some i, s2) \<Rightarrow>
          let m = world_marker s2;
              p = (g_boehm_paused s2 ! i)\<lparr>ps_base := base, ps_record := rec, ps_marker := m\<rparr>;
              s3 = set_paused i p s2;
              snap = snapshot_addr sp (csize env)
          in if \<not> snapshot_fits sp snap (region env)
             then (Inl EINVAL, undo_pause tid env (set_paused i (p\<lparr>ps_used := False\<rparr>) s3))
             else let s4 = s3\<lparr>saved := (saved s3)(snap := Some ctx), rec_stack := (rec_stack s3)(rec := snap),
                             rec_state := (rec_state s3)(rec := m)\<rparr>
                  in if \<not> post_ok env
                     then (Inl EINVAL, undo_pause tid env (set_paused i (p\<lparr>ps_used := False\<rparr>) s4))
                     else (Inr (), s4\<lparr>acks := acks s4 + 1\<rparr>)))"

definition boehm_horizon_restart ::
  "u64 \<Rightarrow> u64 \<Rightarrow> u64 \<Rightarrow> 'c host_env \<Rightarrow> 'c boehm \<Rightarrow> unit result \<times> 'c boehm" where
  "boehm_horizon_restart self tid base env s =
     (case boehm_validate_thread tid env of
        Inl e \<Rightarrow> (Inl e, s)
      | Inr _ \<Rightarrow>
      if tid = self then (Inl EINVAL, s)
      else
        let found = boehm_pause_find tid s;
            ack = (case found of
                     None \<Rightarrow> None
                   | Some i \<Rightarrow> let p = g_boehm_paused s ! i in
                       if ps_base p = base \<and> ps_record p \<noteq> 0 \<and> restart_ack s then Some p else None);
            s1 = (case ack of None \<Rightarrow> s
                  | Some p \<Rightarrow> s\<lparr>rec_state := (rec_state s)(ps_record p := ps_marker p OR 1)\<rparr>)
        in if ack \<noteq> None \<and> \<not> post_ok env then (Inl EINVAL, s1)
           else let s2 = (if ack \<noteq> None then s1\<lparr>acks := acks s1 + 1\<rparr> else s1)
                in if \<not> resume_ok env then (Inl EINVAL, s2)
                   else (Inr (), (case found of None \<Rightarrow> pause tid False s2
                                  | Some i \<Rightarrow> set_paused i zero_paused (pause tid False s2))))"

definition bionic_pthread_kill ::
  "u64 \<Rightarrow> u64 \<Rightarrow> int \<Rightarrow> u64 \<Rightarrow> 'c host_env \<Rightarrow> 'c boehm \<Rightarrow> unit result \<times> 'c boehm" where
  "bionic_pthread_kill self t sig base env s =
     (case boehm_validate_thread t env of
        Inl e \<Rightarrow> (Inl e, s)
      | Inr _ \<Rightarrow>
      if sig = 0 then (Inr (), s)
      else if base \<noteq> 0 \<and> suspend_sig s = Some sig \<and> suspend_handler s = base + OFF_IL2CPP_GC_SUSPEND_HANDLER
      then boehm_horizon_suspend self t base env s
      else if base \<noteq> 0 \<and> restart_sig s = Some sig \<and> restart_handler s = base + OFF_IL2CPP_GC_RESTART_HANDLER
      then boehm_horizon_restart self t base env s
      else (Inl EINVAL, s))"

text \<open>\<^verbatim>\<open>pthread_sigmask\<close>: the mask is ignored, the old mask reads as empty.\<close>

definition bionic_pthread_sigmask :: "u64 option \<Rightarrow> u64 option" where
  "bionic_pthread_sigmask oldset = map_option (\<lambda>_. 0) oldset"

section \<open>Facts\<close>

definition paused_ok :: "'c boehm \<Rightarrow> bool" where
  "paused_ok s \<longleftrightarrow> length (g_boehm_paused s) = BOEHM_PAUSED_MAX"

lemma set_paused_sel [simp]:
  "g_boehm_paused (set_paused i p s) = (g_boehm_paused s)[i := p]" "stopped (set_paused i p s) = stopped s"
  "acks (set_paused i p s) = acks s" "rec_state (set_paused i p s) = rec_state s"
  "rec_stack (set_paused i p s) = rec_stack s" "world_marker (set_paused i p s) = world_marker s"
  "saved (set_paused i p s) = saved s" "restart_ack (set_paused i p s) = restart_ack s"
  "gc_table (set_paused i p s) = gc_table s"
  by (simp_all add: set_paused_def)

lemma pause_sel [simp]:
  "g_boehm_paused (pause t b s) = g_boehm_paused s" "stopped (pause t b s) = (stopped s)(t := b)"
  "acks (pause t b s) = acks s" "rec_state (pause t b s) = rec_state s" "rec_stack (pause t b s) = rec_stack s"
  "world_marker (pause t b s) = world_marker s" "saved (pause t b s) = saved s" "gc_table (pause t b s) = gc_table s"
  "restart_ack (pause t b s) = restart_ack s"
  by (simp_all add: pause_def)

lemma undo_sel [simp]:
  "g_boehm_paused (undo_pause t env s) = g_boehm_paused s" "acks (undo_pause t env s) = acks s"
  "rec_state (undo_pause t env s) = rec_state s"
  "resume_ok env \<Longrightarrow> stopped (undo_pause t env s) = (stopped s)(t := False)"
  by (simp_all add: undo_pause_def)

lemma pause_find_pause [simp]: "boehm_pause_find t (pause u b s) = boehm_pause_find t s"
  by (simp add: boehm_pause_find_def)

lemma alloc_effect:
  assumes "paused_ok s" and "boehm_pause_find tid s = None" and "boehm_pause_alloc tid s = (x, s')"
  shows "(x = None \<and> s' = s) \<or>
    (\<exists>i. x = Some i \<and> i < BOEHM_PAUSED_MAX \<and> \<not> ps_used (g_boehm_paused s ! i) \<and>
       s' = set_paused i (zero_paused\<lparr>ps_used := True, ps_id := tid\<rparr>) s)"
proof (cases "scan (\<lambda>i. \<not> ps_used (g_boehm_paused s ! i)) 0 BOEHM_PAUSED_MAX")
  case None
  with assms(2,3) show ?thesis by (simp add: boehm_pause_alloc_def)
next
  case (Some i)
  with assms(2,3) have "x = Some i \<and> s' = set_paused i (zero_paused\<lparr>ps_used := True, ps_id := tid\<rparr>) s"
    by (simp add: boehm_pause_alloc_def)
  then show ?thesis using scan_SomeD [OF Some] by (intro disjI2 exI [of _ i]) simp
qed

lemma snapshot_aligned: "snapshot_addr sp n AND 0xf = 0"
  by (simp add: snapshot_addr_def and.assoc)

lemma snapshot_below:
  assumes "n \<le> sp"
  shows "snapshot_addr sp n + n \<le> sp \<and> snapshot_addr sp n \<le> sp - n"
proof -
  have le: "snapshot_addr sp n \<le> sp - n" by (simp add: snapshot_addr_def word_and_le1 word_and_le2)
  have sp: "unat sp < 2 ^ LENGTH(64)" by (rule unsigned_less)
  have "unat (snapshot_addr sp n) + unat n \<le> unat sp"
    using le assms by (simp add: word_le_nat_alt unat_sub)
  moreover from this have "unat (snapshot_addr sp n + n) = unat (snapshot_addr sp n) + unat n"
    using sp by (intro unat_add_lem [THEN iffD1]) simp
  ultimately show ?thesis using le by (simp add: word_le_nat_alt)
qed

lemma pause_find_set:
  assumes "paused_ok s" and "i < BOEHM_PAUSED_MAX" and "ps_used p \<and> ps_id p = t"
    and "\<forall>j<BOEHM_PAUSED_MAX. j \<noteq> i \<longrightarrow> \<not> (ps_used (g_boehm_paused s ! j) \<and> ps_id (g_boehm_paused s ! j) = t)"
  shows "boehm_pause_find t (set_paused i p s) = Some i"
  using assms unfolding boehm_pause_find_def scan_Some_iff paused_ok_def by (auto simp: nth_list_update)

lemma pause_find_none:
  "boehm_pause_find t s = None \<longleftrightarrow>
    (\<forall>j<BOEHM_PAUSED_MAX. \<not> (ps_used (g_boehm_paused s ! j) \<and> ps_id (g_boehm_paused s ! j) = t))"
  by (auto simp: boehm_pause_find_def scan_None_iff)

lemma pause_find_clear:
  assumes "paused_ok s" and "i < BOEHM_PAUSED_MAX" and "\<not> ps_used p"
    and "\<forall>j<BOEHM_PAUSED_MAX. j \<noteq> i \<longrightarrow> \<not> (ps_used (g_boehm_paused s ! j) \<and> ps_id (g_boehm_paused s ! j) = t)"
  shows "boehm_pause_find t (set_paused i p s) = None"
  using assms unfolding pause_find_none paused_ok_def by (auto simp: nth_list_update)

lemma zero_paused_unused: "\<not> ps_used zero_paused"
  by (simp add: zero_paused_def)

text \<open>A failed suspension leaves the thread, the acknowledgements and the records as they were.\<close>

definition untouched :: "u64 \<Rightarrow> 'c boehm \<Rightarrow> 'c boehm \<Rightarrow> bool" where
  "untouched tid s s' \<longleftrightarrow> stopped s' = stopped s \<and> acks s' = acks s \<and> boehm_pause_find tid s' = None"

definition suspended :: "u64 \<Rightarrow> u64 \<Rightarrow> u64 \<Rightarrow> 'c boehm \<Rightarrow> 'c boehm \<Rightarrow> bool" where
  "suspended tid base rec s s' \<longleftrightarrow> paused_ok s' \<and> stopped s' = (stopped s)(tid := True) \<and> acks s' = acks s + 1 \<and>
     rec_state s' rec = world_marker s \<and> restart_ack s' = restart_ack s \<and>
     (\<exists>i. boehm_pause_find tid s' = Some i \<and> i < BOEHM_PAUSED_MAX \<and> ps_base (g_boehm_paused s' ! i) = base \<and>
        ps_record (g_boehm_paused s' ! i) = rec \<and> ps_marker (g_boehm_paused s' ! i) = world_marker s \<and>
        (\<forall>j<BOEHM_PAUSED_MAX. j \<noteq> i \<longrightarrow> \<not> (ps_used (g_boehm_paused s' ! j) \<and> ps_id (g_boehm_paused s' ! j) = tid)))"

lemma suspend_outcome:
  assumes ok: "paused_ok s" and n: "boehm_pause_find tid s = None" and ns: "\<not> stopped s tid"
    and res: "resume_ok env" and c: "boehm_horizon_suspend self tid base env s = (r, s')"
  shows "(\<exists>e. r = Inl e \<and> untouched tid s s') \<or>
    (\<exists>rec ctx sp. r = Inr () \<and> boehm_find_record tid s = Some rec \<and> regs_of env = Some (ctx, sp) \<and>
       suspended tid base rec s s' \<and> rec_stack s' rec = snapshot_addr sp (csize env) \<and>
       saved s' (snapshot_addr sp (csize env)) = Some ctx)"
proof -
  have st: "(stopped s)(tid := False) = stopped s" using ns by (simp add: fun_eq_iff)
  have same: "untouched tid s s" using n by (simp add: untouched_def)
  have undone: "untouched tid s (undo_pause tid env (pause tid True s))"
    using n res st by (simp add: untouched_def undo_pause_def)
  have okp: "paused_ok (pause tid True s)" using ok by (simp add: paused_ok_def)
  show ?thesis
  proof (cases "boehm_validate_thread tid env = Inr () \<and> tid \<noteq> self \<and> boehm_find_record tid s \<noteq> None \<and>
      pause_ok env \<and> regs_of env \<noteq> None \<and> fst (boehm_pause_alloc tid (pause tid True s)) \<noteq> None")
    case False
    then have "(\<exists>e. r = Inl e) \<and> (s' = s \<or> s' = undo_pause tid env (pause tid True s))"
      using c alloc_effect [OF okp, of tid "fst (boehm_pause_alloc tid (pause tid True s))"
        "snd (boehm_pause_alloc tid (pause tid True s))"] n
      by (cases "boehm_validate_thread tid env")
        (auto simp: boehm_horizon_suspend_def Let_def split: if_splits option.splits prod.splits intro: sym)
    then show ?thesis using same undone by auto
  next
    case True
    then obtain rec ctx sp i s2 where g: "boehm_find_record tid s = Some rec" "regs_of env = Some (ctx, sp)"
      and al: "boehm_pause_alloc tid (pause tid True s) = (Some i, s2)"
      by (cases "boehm_pause_alloc tid (pause tid True s)") auto
    from alloc_effect [OF okp _ al] n have i: "i < BOEHM_PAUSED_MAX"
      and s2: "s2 = set_paused i (zero_paused\<lparr>ps_used := True, ps_id := tid\<rparr>) (pause tid True s)" by auto
    have others: "\<forall>j<BOEHM_PAUSED_MAX. j \<noteq> i \<longrightarrow> \<not> (ps_used (g_boehm_paused s ! j) \<and> ps_id (g_boehm_paused s ! j) = tid)"
      using n by (simp add: pause_find_none)
    have len: "length (g_boehm_paused s) = BOEHM_PAUSED_MAX" using ok by (simp add: paused_ok_def)
    let ?p = "(zero_paused\<lparr>ps_used := True, ps_id := tid\<rparr>)\<lparr>ps_base := base, ps_record := rec, ps_marker := world_marker s\<rparr>"
    let ?snap = "snapshot_addr sp (csize env)"
    let ?s4 = "(set_paused i ?p s2)\<lparr>saved := (saved s)(?snap := Some ctx), rec_stack := (rec_stack s)(rec := ?snap),
      rec_state := (rec_state s)(rec := world_marker s)\<rparr>"
    have q: "g_boehm_paused s2 ! i = zero_paused\<lparr>ps_used := True, ps_id := tid\<rparr>" "world_marker s2 = world_marker s"
      "saved s2 = saved s" "rec_stack s2 = rec_stack s" "rec_state s2 = rec_state s" "acks s2 = acks s"
      using s2 i len by simp_all
    have r: "(r, s') = (if \<not> snapshot_fits sp ?snap (region env)
        then (Inl EINVAL, undo_pause tid env (set_paused i (?p\<lparr>ps_used := False\<rparr>) (set_paused i ?p s2)))
        else if \<not> post_ok env then (Inl EINVAL, undo_pause tid env (set_paused i (?p\<lparr>ps_used := False\<rparr>) ?s4))
        else (Inr (), ?s4\<lparr>acks := acks s + 1\<rparr>))"
      using c True g al q by (simp add: boehm_horizon_suspend_def Let_def split del: if_split cong: if_cong)
    have fs: "boehm_pause_find tid s3 = None"
      if "g_boehm_paused s3 = (g_boehm_paused s)[i := q]" "\<not> ps_used q" for s3 :: "'a boehm" and q
      using that others i len unfolding pause_find_none by (auto simp: nth_list_update)
    show ?thesis
    proof (cases "snapshot_fits sp ?snap (region env) \<and> post_ok env")
      case False
      then have "(\<exists>e. r = Inl e) \<and> g_boehm_paused s' = (g_boehm_paused s)[i := ?p\<lparr>ps_used := False\<rparr>] \<and>
          acks s' = acks s \<and> stopped s' = (stopped s)(tid := False)"
        using r res s2 by (auto split: if_splits)
      then show ?thesis using st fs [of s' "?p\<lparr>ps_used := False\<rparr>"] by (auto simp: untouched_def)
    next
      case True
      then have s': "r = Inr ()" "s' = ?s4\<lparr>acks := acks s + 1\<rparr>" using r by auto
      have f: "boehm_pause_find tid s' = Some i"
        using others i len s2 unfolding s'(2) boehm_pause_find_def scan_Some_iff by (auto simp: nth_list_update)
      have "suspended tid base rec s s'"
        unfolding suspended_def using f i len others s2
        by (auto simp: s'(2) paused_ok_def nth_list_update)
      then show ?thesis using g s' by auto
    qed
  qed
qed

text \<open>
  C25.  Stopping a thread for the collector either fails and leaves the thread running, the
  acknowledgement semaphore as it was and no record of the thread, or succeeds: then the thread is
  stopped, one acknowledgement is posted, the collector's record holds the world marker and the
  (16-byte aligned) address of the saved registers, and restarting it, whatever the collector does
  to the saved registers meanwhile, resumes the thread, forgets the record, and, when the collector asks
  for it, marks the record as restarted and posts exactly one acknowledgement.
\<close>

theorem boehm_stop_and_restart:
  assumes "paused_ok s" and "boehm_pause_find tid s = None" and "\<not> stopped s tid" and "resume_ok env"
    and c: "boehm_horizon_suspend self tid base env s = (r, s')"
    and env': "thread_ok env'" "post_ok env'" "resume_ok env'"
  shows "(case r of
      Inl e \<Rightarrow> stopped s' = stopped s \<and> acks s' = acks s \<and> boehm_pause_find tid s' = None
    | Inr _ \<Rightarrow> stopped s' = (stopped s)(tid := True) \<and> acks s' = acks s + 1 \<and>
        (\<exists>rec ctx sp. boehm_find_record tid s = Some rec \<and> regs_of env = Some (ctx, sp) \<and>
           rec_state s' rec = world_marker s \<and> rec_stack s' rec AND 0xf = 0 \<and> saved s' (rec_stack s' rec) = Some ctx \<and>
           (rec \<noteq> 0 \<longrightarrow> (\<forall>mem. \<exists>t. boehm_horizon_restart self tid base env' (s'\<lparr>saved := mem\<rparr>) = (Inr (), t) \<and>
              stopped t = stopped s \<and> boehm_pause_find tid t = None \<and>
              (if restart_ack s then acks t = acks s + 2 \<and> rec_state t rec = world_marker s OR 1
               else acks t = acks s + 1 \<and> rec_state t rec = world_marker s)))))"
  using suspend_outcome [OF assms(1-5)]
proof (elim disjE exE conjE)
  fix e assume "r = Inl e" and "untouched tid s s'"
  then show ?thesis by (simp add: untouched_def)
next
  fix rec ctx sp
  assume r: "r = Inr ()" and g: "boehm_find_record tid s = Some rec" "regs_of env = Some (ctx, sp)"
    and sus: "suspended tid base rec s s'" and st: "rec_stack s' rec = snapshot_addr sp (csize env)"
    and sv: "saved s' (snapshot_addr sp (csize env)) = Some ctx"
  from sus obtain i where f: "boehm_pause_find tid s' = Some i" and i: "i < BOEHM_PAUSED_MAX"
    and p: "ps_base (g_boehm_paused s' ! i) = base" "ps_record (g_boehm_paused s' ! i) = rec"
      "ps_marker (g_boehm_paused s' ! i) = world_marker s"
    and others: "\<forall>j<BOEHM_PAUSED_MAX. j \<noteq> i \<longrightarrow> \<not> (ps_used (g_boehm_paused s' ! j) \<and> ps_id (g_boehm_paused s' ! j) = tid)"
    and len: "length (g_boehm_paused s') = BOEHM_PAUSED_MAX"
    unfolding suspended_def paused_ok_def by blast
  have tid: "tid \<noteq> self" "tid \<noteq> 0"
    using c r by (auto simp: boehm_horizon_suspend_def boehm_validate_thread_def split: if_splits)
  have stp: "(stopped s)(tid := True, tid := False) = stopped s" using assms(3) by (simp add: fun_eq_iff)
  have R: "\<exists>t. boehm_horizon_restart self tid base env' (s'\<lparr>saved := mem\<rparr>) = (Inr (), t) \<and>
      stopped t = stopped s \<and> boehm_pause_find tid t = None \<and>
      (if restart_ack s then acks t = acks s + 2 \<and> rec_state t rec = world_marker s OR 1
       else acks t = acks s + 1 \<and> rec_state t rec = world_marker s)" if "rec \<noteq> 0" for mem
  proof -
    have fm: "boehm_pause_find tid (s'\<lparr>saved := mem\<rparr>) = Some i" using f by (simp add: boehm_pause_find_def)
    have "\<forall>j<BOEHM_PAUSED_MAX. \<not> (ps_used ((g_boehm_paused s')[i := zero_paused] ! j) \<and>
        ps_id ((g_boehm_paused s')[i := zero_paused] ! j) = tid)"
      using others len by (metis nth_list_update_eq nth_list_update_neq zero_paused_unused)
    then have cl: "g_boehm_paused t = (g_boehm_paused s')[i := zero_paused] \<Longrightarrow> boehm_pause_find tid t = None" for t :: "'a boehm"
      by (simp add: pause_find_none)
    show ?thesis
      using sus env' tid fm p that stp unfolding suspended_def boehm_horizon_restart_def boehm_validate_thread_def
      by (auto simp: Let_def intro!: cl)
  qed
  have "rec_stack s' rec AND 0xf = 0" by (simp add: st snapshot_aligned)
  with R r g sus st sv show ?thesis by (auto simp: suspended_def)
qed

definition demo_env :: "nat host_env" where
  "demo_env = \<lparr>thread_ok = True, pause_ok = True, resume_ok = True, regs_of = Some (42, 0x10000),
     region = Some (0x8000, 0x20000, True), post_ok = True, csize = 0x320\<rparr>"

definition demo_gc :: "nat boehm" where
  "demo_gc = \<lparr>g_boehm_paused = replicate 64 zero_paused, suspend_sig = Some 30, restart_sig = Some 31,
     suspend_handler = 0, restart_handler = 0, gc_table = (\<lambda>_. [(0x5000, 7)]), rec_state = (\<lambda>_. 0),
     rec_stack = (\<lambda>_. 0), world_marker = 4, restart_ack = True, stopped = (\<lambda>_. False), acks = 0, saved = (\<lambda>_. None)\<rparr>"

theorem boehm_stop_and_restart_witness:
  "\<exists>s' t. boehm_horizon_suspend 1 7 0x400000 demo_env demo_gc = (Inr (), s') \<and> stopped s' 7 \<and>
     boehm_horizon_restart 1 7 0x400000 demo_env s' = (Inr (), t) \<and> acks t = 2 \<and> \<not> stopped t 7"
proof -
  have ok: "paused_ok demo_gc" and n: "boehm_pause_find 7 demo_gc = None"
    by (simp_all add: paused_ok_def demo_gc_def pause_find_none zero_paused_def BOEHM_PAUSED_MAX_def)
  have rs: "fst (boehm_horizon_suspend 1 7 0x400000 demo_env demo_gc) = Inr ()" by code_simp
  obtain s' where c: "boehm_horizon_suspend 1 7 0x400000 demo_env demo_gc = (Inr (), s')"
    using rs by (metis prod.collapse)
  have nst: "\<not> stopped demo_gc 7" "restart_ack demo_gc" by (simp_all add: demo_gc_def)
  have rec: "boehm_find_record 7 demo_gc = Some 0x5000" by (simp add: boehm_find_record_def demo_gc_def)
  have e: "thread_ok demo_env" "post_ok demo_env" "resume_ok demo_env" by (simp_all add: demo_env_def)
  note T = boehm_stop_and_restart [OF ok n nst(1) e(3) c e]
  from T rec have "stopped s' 7" and
    R: "\<And>mem. \<exists>t. boehm_horizon_restart 1 7 0x400000 demo_env (s'\<lparr>saved := mem\<rparr>) = (Inr (), t) \<and>
      stopped t = stopped demo_gc \<and> acks t = acks demo_gc + 2"
    using nst by auto
  from R [of "saved s'"] obtain t where "boehm_horizon_restart 1 7 0x400000 demo_env s' = (Inr (), t)"
      "stopped t = stopped demo_gc" "acks t = acks demo_gc + 2" by auto
  with c \<open>stopped s' 7\<close> show ?thesis by (auto simp: demo_gc_def)
qed

end
