(* ===== verification/Etc2.thy ===== *)
theory Etc2
  imports Prelude
begin

text \<open>
  Decoding of ETC2 blocks (\<^verbatim>\<open>source/etc2_bc.c\<close>): the five colour modes and the alpha block.
  A block is a list of 8 bytes; C's promotion to \<^verbatim>\<open>int\<close> is the cast to 32 bits (\<open>dat\<close>), the casts
  to \<^verbatim>\<open>uint8_t\<close> are \<open>u8\<close>, and signed intermediate values are integers.
\<close>

section \<open>Tables\<close>

definition kWriteOrder :: "nat list" where
  "kWriteOrder = [0,4,8,12,1,5,9,13,2,6,10,14,3,7,11,15]"

definition kWriteOrderRev :: "nat list" where
  "kWriteOrderRev = [15,11,7,3,14,10,6,2,13,9,5,1,12,8,4,0]"

definition kEtc1Modifier :: "int list list" where
  "kEtc1Modifier = [[2,8],[5,17],[9,29],[13,42],[18,60],[24,80],[33,106],[47,183]]"

definition kEtc1Subblock :: "nat list list" where
  "kEtc1Subblock = [[0,0,0,0,0,0,0,0,1,1,1,1,1,1,1,1], [0,0,1,1,0,0,1,1,0,0,1,1,0,0,1,1]]"

definition kEtc2Distance :: "int list" where
  "kEtc2Distance = [3,6,11,16,23,32,41,64]"

definition kEtc2AlphaMod :: "int list list" where
  "kEtc2AlphaMod =
    [[-3,-6,-9,-15,2,5,8,14], [-3,-7,-10,-13,2,6,9,12],
     [-2,-5,-8,-13,1,4,7,12], [-2,-4,-6,-13,1,3,5,12],
     [-3,-6,-8,-12,2,5,7,11], [-3,-7,-9,-11,2,6,8,10],
     [-4,-7,-8,-11,3,6,7,10], [-3,-5,-8,-11,2,4,7,10],
     [-2,-6,-8,-10,1,5,7,9], [-2,-5,-8,-10,1,4,7,9],
     [-2,-4,-8,-10,1,3,7,9], [-2,-5,-7,-10,1,4,6,9],
     [-3,-4,-7,-10,2,3,6,9], [-1,-2,-3,-10,0,1,2,9],
     [-4,-6,-8,-9,3,5,7,8], [-3,-5,-7,-9,2,4,6,8]]"

section \<open>Pixels\<close>

type_synonym rgb = "byte \<times> byte \<times> byte"

definition clamp_u8 :: "int \<Rightarrow> byte" where
  "clamp_u8 n = (if n < 0 then 0 else if 255 < n then 255 else word_of_int n)"

definition pack_bgra :: "byte \<Rightarrow> byte \<Rightarrow> byte \<Rightarrow> byte \<Rightarrow> u32" where
  "pack_bgra r g b a = ucast b OR push_bit 8 (ucast g) OR push_bit 16 (ucast r) OR push_bit 24 (ucast a)"

fun apply_color :: "rgb \<Rightarrow> int \<Rightarrow> u32" where
  "apply_color (r, g, b) m = pack_bgra (clamp_u8 (uint r + m)) (clamp_u8 (uint g + m)) (clamp_u8 (uint b + m)) 255"

fun raw_color :: "rgb \<Rightarrow> u32" where
  "raw_color (r, g, b) = pack_bgra r g b 255"

definition dat :: "byte list \<Rightarrow> nat \<Rightarrow> u32" where
  "dat d i = ucast (d ! i)"

definition u8 :: "u32 \<Rightarrow> byte" where
  "u8 x = ucast x"

definition signed3 :: "u32 \<Rightarrow> int" where
  "signed3 x = uint (push_bit 3 x AND 0x18) - uint (push_bit 3 x AND 0x20)"

text \<open>The loops that store the value of step \<open>i\<close> at a position of the order table.\<close>

definition scatter :: "nat list \<Rightarrow> (nat \<Rightarrow> 'a \<Rightarrow> 'a) \<Rightarrow> 'a list \<Rightarrow> 'a list" where
  "scatter order f out = foldl (\<lambda>o' i. o'[order ! i := f i (o' ! (order ! i))]) out [0..<16]"

section \<open>Colour blocks\<close>

definition bits_j :: "byte list \<Rightarrow> u16" where
  "bits_j d = push_bit 8 (ucast (d ! 6)) OR ucast (d ! 7)"

definition bits_k :: "byte list \<Rightarrow> u32" where
  "bits_k d = push_bit 8 (dat d 4) OR dat d 5"

text \<open>The index \<^verbatim>\<open>(k&2)|(j&1)\<close> of pixel \<open>i\<close>, where \<^verbatim>\<open>k\<close> has been shifted left once before the loop.\<close>

definition set_index :: "byte list \<Rightarrow> nat \<Rightarrow> nat" where
  "set_index d i = unat ((drop_bit i (push_bit 1 (bits_k d)) AND 2) OR ucast (drop_bit i (bits_j d) AND 1))"

definition set_mode :: "u32 list \<Rightarrow> byte list \<Rightarrow> u32 list \<Rightarrow> u32 list" where
  "set_mode cols d out = scatter kWriteOrder (\<lambda>i _. cols ! set_index d i) out"

definition etc2_t_mode :: "byte list \<Rightarrow> u32 list \<Rightarrow> u32 list" where
  "etc2_t_mode d out =
     (let c0 = (u8 ((push_bit 3 (dat d 0) AND 0xc0) OR (push_bit 4 (dat d 0) AND 0x30) OR (drop_bit 1 (dat d 0) AND 0x0c) OR (dat d 0 AND 3)),
                u8 ((dat d 1 AND 0xf0) OR drop_bit 4 (dat d 1)),
                u8 ((dat d 1 AND 0x0f) OR push_bit 4 (dat d 1)));
          c1 = (u8 ((dat d 2 AND 0xf0) OR drop_bit 4 (dat d 2)),
                u8 ((dat d 2 AND 0x0f) OR push_bit 4 (dat d 2)),
                u8 ((dat d 3 AND 0xf0) OR drop_bit 4 (dat d 3)));
          di = kEtc2Distance ! unat ((drop_bit 1 (dat d 3) AND 6) OR (dat d 3 AND 1))
      in set_mode [raw_color c0, apply_color c1 di, raw_color c1, apply_color c1 (- di)] d out)"

text \<open>The order of the two colours of an H block carries one bit.\<close>

fun rgb_ge :: "rgb \<Rightarrow> rgb \<Rightarrow> bool" where
  "rgb_ge (r0, g0, b0) (r1, g1, b1) \<longleftrightarrow> r1 < r0 \<or> (r0 = r1 \<and> (g1 < g0 \<or> (g0 = g1 \<and> b1 \<le> b0)))"

definition etc2_h_mode :: "byte list \<Rightarrow> u32 list \<Rightarrow> u32 list" where
  "etc2_h_mode d out =
     (let g0 = u8 ((push_bit 5 (dat d 0) AND 0xe0) OR (dat d 1 AND 0x10));
          b0 = u8 ((dat d 1 AND 8) OR (push_bit 1 (dat d 1) AND 6) OR drop_bit 7 (dat d 2));
          c0 = (u8 ((push_bit 1 (dat d 0) AND 0xf0) OR (drop_bit 3 (dat d 0) AND 0x0f)),
                g0 OR drop_bit 4 g0, b0 OR push_bit 4 b0);
          g1 = u8 ((push_bit 5 (dat d 2) AND 0xe0) OR (drop_bit 3 (dat d 3) AND 0x10));
          c1 = (u8 ((push_bit 1 (dat d 2) AND 0xf0) OR (drop_bit 3 (dat d 2) AND 0x0f)),
                g1 OR drop_bit 4 g1,
                u8 ((push_bit 1 (dat d 3) AND 0xf0) OR (drop_bit 3 (dat d 3) AND 0x0f)));
          i0 = u8 ((dat d 3 AND 4) OR (push_bit 1 (dat d 3) AND 2));
          di = kEtc2Distance ! unat (if rgb_ge c0 c1 then i0 + 1 else i0)
      in set_mode [apply_color c0 di, apply_color c0 (- di), apply_color c1 di, apply_color c1 (- di)] d out)"

definition planar_value :: "byte \<Rightarrow> byte \<Rightarrow> byte \<Rightarrow> nat \<Rightarrow> nat \<Rightarrow> byte" where
  "planar_value c0 c1 c2 x y =
     clamp_u8 (drop_bit 2 (int x * (uint c1 - uint c0) + int y * (uint c2 - uint c0) + 4 * uint c0 + 2))"

definition etc2_planar :: "byte list \<Rightarrow> u32 list" where
  "etc2_planar d =
     (let r0 = u8 ((push_bit 1 (dat d 0) AND 0xfc) OR (drop_bit 5 (dat d 0) AND 3));
          g0 = u8 ((push_bit 7 (dat d 0) AND 0x80) OR (dat d 1 AND 0x7e) OR (dat d 0 AND 1));
          b0' = u8 ((push_bit 7 (dat d 1) AND 0x80) OR (push_bit 2 (dat d 2) AND 0x60) OR (push_bit 3 (dat d 2) AND 0x18)
                    OR (drop_bit 5 (dat d 3) AND 4));
          b0 = b0' OR drop_bit 6 b0';
          r1 = u8 ((push_bit 1 (dat d 3) AND 0xf8) OR (push_bit 2 (dat d 3) AND 4) OR (drop_bit 5 (dat d 3) AND 3));
          g1 = u8 ((dat d 4 AND 0xfe) OR drop_bit 7 (dat d 4));
          b1' = u8 ((push_bit 7 (dat d 4) AND 0x80) OR (drop_bit 1 (dat d 5) AND 0x7c));
          b1 = b1' OR drop_bit 6 b1';
          r2 = u8 ((push_bit 5 (dat d 5) AND 0xe0) OR (drop_bit 3 (dat d 6) AND 0x1c) OR (drop_bit 1 (dat d 5) AND 3));
          g2 = u8 ((push_bit 3 (dat d 6) AND 0xf8) OR (drop_bit 5 (dat d 7) AND 6) OR (drop_bit 4 (dat d 6) AND 1));
          b2 = u8 (push_bit 2 (dat d 7) OR (drop_bit 4 (dat d 7) AND 3))
      in map (\<lambda>i. let x = i mod 4; y = i div 4
                   in pack_bgra (planar_value r0 r1 r2 x y) (planar_value g0 g1 g2 x y) (planar_value b0 b1 b2 x y) 255)
           [0..<16])"

text \<open>The two sub-blocks of the individual and the differential mode.\<close>

definition sub_blocks :: "rgb \<Rightarrow> rgb \<Rightarrow> byte list \<Rightarrow> u32 list \<Rightarrow> u32 list" where
  "sub_blocks c0 c1 d out =
     (let code = [unat (drop_bit 5 (dat d 3)), unat (drop_bit 2 (dat d 3) AND 7)];
          table = kEtc1Subblock ! unat (dat d 3 AND 1)
      in scatter kWriteOrder
           (\<lambda>i _. let s = table ! i; m = kEtc1Modifier ! (code ! s) ! unat (drop_bit i (bits_j d) AND 1)
                   in apply_color (if s = 0 then c0 else c1) (if bit (bits_k d) i then - m else m)) out)"

definition etc2_differential :: "byte \<Rightarrow> byte \<Rightarrow> byte \<Rightarrow> int \<Rightarrow> int \<Rightarrow> int \<Rightarrow> byte list \<Rightarrow> u32 list \<Rightarrow> u32 list" where
  "etc2_differential r g b dr dg db d out =
     (let r1 = word_of_int (uint r + dr) :: byte; g1 = word_of_int (uint g + dg) :: byte;
          b1 = word_of_int (uint b + db) :: byte
      in sub_blocks (r OR drop_bit 5 r, g OR drop_bit 5 g, b OR drop_bit 5 b)
           (r1 OR drop_bit 5 r1, g1 OR drop_bit 5 g1, b1 OR drop_bit 5 b1) d out)"

definition nib_hi :: "u32 \<Rightarrow> byte" where "nib_hi x = u8 ((x AND 0xf0) OR drop_bit 4 x)"
definition nib_lo :: "u32 \<Rightarrow> byte" where "nib_lo x = u8 ((x AND 0x0f) OR push_bit 4 x)"

definition etc1_individual :: "byte list \<Rightarrow> u32 list \<Rightarrow> u32 list" where
  "etc1_individual d out =
     sub_blocks (nib_hi (dat d 0), nib_hi (dat d 1), nib_hi (dat d 2)) (nib_lo (dat d 0), nib_lo (dat d 1), nib_lo (dat d 2)) d out"

definition decode_etc2_rgb_block :: "byte list \<Rightarrow> u32 list \<Rightarrow> u32 list" where
  "decode_etc2_rgb_block d out =
     (if dat d 3 AND 2 \<noteq> 0
      then let r = (d ! 0) AND 0xf8; dr = signed3 (dat d 0);
               g = (d ! 1) AND 0xf8; dg = signed3 (dat d 1);
               b = (d ! 2) AND 0xf8; db = signed3 (dat d 2)
           in if uint r + dr < 0 \<or> 255 < uint r + dr then etc2_t_mode d out
              else if uint g + dg < 0 \<or> 255 < uint g + dg then etc2_h_mode d out
              else if uint b + db < 0 \<or> 255 < uint b + db then etc2_planar d
              else etc2_differential r g b dr dg db d out
      else etc1_individual d out)"

section \<open>Alpha blocks\<close>

definition read_be64 :: "byte list \<Rightarrow> u64" where
  "read_be64 d = foldl (\<lambda>v i. push_bit 8 v OR ucast (d ! i)) 0 [0..<8]"

definition set_alpha :: "u32 \<Rightarrow> byte \<Rightarrow> u32" where
  "set_alpha p a = (p AND 0x00ffffff) OR push_bit 24 (ucast a)"

definition alpha_value :: "byte list \<Rightarrow> nat \<Rightarrow> byte" where
  "alpha_value d i =
     clamp_u8 (uint (d ! 0) + uint (drop_bit 4 (d ! 1)) * kEtc2AlphaMod ! unat ((d ! 1) AND 0x0f)
       ! unat (drop_bit (3 * i) (read_be64 d) AND 7))"

definition decode_etc2_alpha_block :: "byte list \<Rightarrow> u32 list \<Rightarrow> u32 list" where
  "decode_etc2_alpha_block d out =
     (if (d ! 1) AND 0xf0 \<noteq> 0
      then scatter kWriteOrderRev (\<lambda>i p. set_alpha p (alpha_value d i)) out
      else map (\<lambda>p. set_alpha p (d ! 0)) out)"

section \<open>Facts\<close>

declare upt_rec_numeral [simp del]

lemma foldl_scatter:
  assumes "distinct (map (\<lambda>i. order ! i) [0..<n])" and "\<forall>i<n. order ! i < length out"
  shows "(\<forall>i<n. foldl (\<lambda>o' i. o'[order ! i := f i (o' ! (order ! i))]) out [0..<n] ! (order ! i) = f i (out ! (order ! i))) \<and>
    length (foldl (\<lambda>o' i. o'[order ! i := f i (o' ! (order ! i))]) out [0..<n]) = length out \<and>
    (\<forall>m. m \<notin> (\<lambda>i. order ! i) ` {..<n} \<longrightarrow> foldl (\<lambda>o' i. o'[order ! i := f i (o' ! (order ! i))]) out [0..<n] ! m = out ! m)"
  using assms
proof (induction n)
  case (Suc n)
  then have IH: "\<forall>i<n. foldl (\<lambda>o' i. o'[order ! i := f i (o' ! (order ! i))]) out [0..<n] ! (order ! i) = f i (out ! (order ! i))"
    "length (foldl (\<lambda>o' i. o'[order ! i := f i (o' ! (order ! i))]) out [0..<n]) = length out"
    "\<forall>m. m \<notin> (\<lambda>i. order ! i) ` {..<n} \<longrightarrow> foldl (\<lambda>o' i. o'[order ! i := f i (o' ! (order ! i))]) out [0..<n] ! m = out ! m"
    by simp_all
  have new: "order ! n \<notin> (\<lambda>i. order ! i) ` {..<n}" and lt: "order ! n < length out"
    using Suc.prems by (auto simp: atLeast0LessThan)
  show ?case using IH new lt by (auto simp: nth_list_update less_Suc_eq lessThan_Suc)
qed simp

lemma list_all_upt: "list_all P [0..<n] \<longleftrightarrow> (\<forall>i<n. P i)"
  by (auto simp: list_all_iff)

lemma scatter_facts:
  assumes "length out = 16" and "order = kWriteOrder \<or> order = kWriteOrderRev"
  shows "length (scatter order f out) = 16"
    and "i < 16 \<Longrightarrow> scatter order f out ! (order ! i) = f i (out ! (order ! i))"
proof -
  have w: "distinct (map (\<lambda>i. kWriteOrder ! i) [0..<16])" "distinct (map (\<lambda>i. kWriteOrderRev ! i) [0..<16])"
    "list_all (\<lambda>i. kWriteOrder ! i < 16) [0..<16]" "list_all (\<lambda>i. kWriteOrderRev ! i < 16) [0..<16]"
    by code_simp+
  then have d: "distinct (map (\<lambda>i. order ! i) [0..<16])" "\<forall>i<16. order ! i < length out"
    unfolding list_all_upt assms(1) using assms(2) by (elim disjE; simp only: simp_thms)+
  from foldl_scatter [OF d] show "length (scatter order f out) = 16"
    "i < 16 \<Longrightarrow> scatter order f out ! (order ! i) = f i (out ! (order ! i))"
    using assms(1) by (simp_all add: scatter_def)
qed

text \<open>The order tables are their own formula: step \<open>i\<close> is column \<open>i div 4\<close>, row \<open>i mod 4\<close>.\<close>

lemma write_order:
  assumes "i < 16"
  shows "kWriteOrder ! (4 * (i mod 4) + i div 4) = i" "kWriteOrderRev ! (15 - (4 * (i mod 4) + i div 4)) = i"
proof -
  have "list_all (\<lambda>i. kWriteOrder ! (4 * (i mod 4) + i div 4) = i \<and>
      kWriteOrderRev ! (15 - (4 * (i mod 4) + i div 4)) = i) [0..<16]"
    by code_simp
  then have "\<forall>i<16. kWriteOrder ! (4 * (i mod 4) + i div 4) = i \<and>
      kWriteOrderRev ! (15 - (4 * (i mod 4) + i div 4)) = i" unfolding list_all_upt .
  with assms show "kWriteOrder ! (4 * (i mod 4) + i div 4) = i" "kWriteOrderRev ! (15 - (4 * (i mod 4) + i div 4)) = i"
    by blast+
qed

lemma nth_map16: "p < 16 \<Longrightarrow> map g [0..<16] ! p = g p"
  by simp

lemma scatter_map:
  assumes "length out = 16"
  shows "scatter kWriteOrder f out = map (\<lambda>p. f (4 * (p mod 4) + p div 4) (out ! p)) [0..<16]"
    and "scatter kWriteOrderRev f out = map (\<lambda>p. f (15 - (4 * (p mod 4) + p div 4)) (out ! p)) [0..<16]"
proof -
  have lt: "4 * (p mod 4) + p div 4 < 16" if "p < 16" for p :: nat
  proof -
    have "p mod 4 \<le> 3" "p div 4 \<le> 3" using that by (simp_all add: less_mult_imp_div_less Suc_le_eq [symmetric] less_Suc_eq_le)
    then show ?thesis by linarith
  qed
  show "scatter kWriteOrder f out = map (\<lambda>p. f (4 * (p mod 4) + p div 4) (out ! p)) [0..<16]"
  proof (rule nth_equalityI)
    fix p assume "p < length (scatter kWriteOrder f out)"
    then have p: "p < 16" using scatter_facts(1) [OF assms] by simp
    from scatter_facts(2) [OF assms, where order = kWriteOrder, OF _ lt [OF p], of f] p
    show "scatter kWriteOrder f out ! p = map (\<lambda>p. f (4 * (p mod 4) + p div 4) (out ! p)) [0..<16] ! p"
      by (simp only: write_order [OF p] nth_map16 simp_thms)
  qed (use scatter_facts(1) [OF assms] in simp)
  show "scatter kWriteOrderRev f out = map (\<lambda>p. f (15 - (4 * (p mod 4) + p div 4)) (out ! p)) [0..<16]"
  proof (rule nth_equalityI)
    fix p assume "p < length (scatter kWriteOrderRev f out)"
    then have p: "p < 16" using scatter_facts(1) [OF assms] by simp
    have "15 - (4 * (p mod 4) + p div 4) < 16" by simp
    from scatter_facts(2) [OF assms, where order = kWriteOrderRev, OF _ this, of f] p
    show "scatter kWriteOrderRev f out ! p = map (\<lambda>p. f (15 - (4 * (p mod 4) + p div 4)) (out ! p)) [0..<16] ! p"
      by (simp only: write_order [OF p] nth_map16 simp_thms)
  qed (use scatter_facts(1) [OF assms] in simp)
qed

text \<open>Decoding does not depend on what the output held, and gives 16 pixels.\<close>

lemma decode_rgb_fresh:
  assumes "length out = 16" and "length out' = 16"
  shows "decode_etc2_rgb_block d out = decode_etc2_rgb_block d out'"
  using assms
  by (simp add: decode_etc2_rgb_block_def etc2_t_mode_def etc2_h_mode_def etc2_differential_def etc1_individual_def
      set_mode_def sub_blocks_def scatter_map Let_def)

lemma length_decode_rgb: "length out = 16 \<Longrightarrow> length (decode_etc2_rgb_block d out) = 16"
  by (simp add: decode_etc2_rgb_block_def etc2_t_mode_def etc2_h_mode_def etc2_differential_def etc1_individual_def
      etc2_planar_def set_mode_def sub_blocks_def scatter_map Let_def)

lemma length_decode_alpha: "length out = 16 \<Longrightarrow> length (decode_etc2_alpha_block d out) = 16"
  by (simp add: decode_etc2_alpha_block_def scatter_map)

end
