(* ===== verification/Bc.thy ===== *)
theory Bc
  imports Etc2
begin

text \<open>
  Encoding of BC1 and BC3 blocks and the transcoder (\<^verbatim>\<open>source/etc2_bc.c\<close>).  Pixel blocks are lists
  of 16 words; C's \<^verbatim>\<open>int\<close> values are integers here, which is exact because they stay small.
\<close>

section \<open>Colours\<close>

definition px_b :: "u32 \<Rightarrow> int" where "px_b p = uint (p AND 255)"
definition px_g :: "u32 \<Rightarrow> int" where "px_g p = uint (drop_bit 8 p AND 255)"
definition px_r :: "u32 \<Rightarrow> int" where "px_r p = uint (drop_bit 16 p AND 255)"
definition px_a :: "u32 \<Rightarrow> byte" where "px_a p = ucast (drop_bit 24 p)"

definition rgb565 :: "byte \<Rightarrow> byte \<Rightarrow> byte \<Rightarrow> u16" where
  "rgb565 r g b = push_bit 11 (ucast (drop_bit 3 r)) OR push_bit 5 (ucast (drop_bit 2 g)) OR ucast (drop_bit 3 b)"

definition rgb_from_565 :: "u16 \<Rightarrow> rgb" where
  "rgb_from_565 c =
     (of_nat (unat (drop_bit 11 c AND 31) * 255 div 31), of_nat (unat (drop_bit 5 c AND 63) * 255 div 63),
      of_nat (unat (c AND 31) * 255 div 31))"

definition put16le :: "u16 \<Rightarrow> byte list" where
  "put16le v = [ucast v, ucast (drop_bit 8 v)]"

definition put32le :: "u32 \<Rightarrow> byte list" where
  "put32le v = [ucast v, ucast (drop_bit 8 v), ucast (drop_bit 16 v), ucast (drop_bit 24 v)]"

text \<open>The least and the greatest value of one channel, as the loop accumulates them.\<close>

definition channel_range :: "(u32 \<Rightarrow> int) \<Rightarrow> u32 list \<Rightarrow> int \<times> int" where
  "channel_range f px =
     foldl (\<lambda>(lo, hi) p. (if f p < lo then f p else lo, if hi < f p then f p else hi)) (255, 0) px"

text \<open>The end points: each range shrunk by a sixteenth on both sides, in 5:6:5 bits, unequal and descending.\<close>

definition inset :: "int \<times> int \<Rightarrow> byte \<times> byte" where
  "inset r = (let i = drop_bit 4 (snd r - fst r) in (word_of_int (fst r + i), word_of_int (snd r - i)))"

definition separate :: "u16 \<Rightarrow> u16 \<Rightarrow> u16 \<times> u16" where
  "separate c0 c1 =
     (let d0 = if c0 < c1 then c1 else c0; d1 = if c0 < c1 then c0 else c1
      in if d0 = d1 then (if d0 < 0xffff then (d0 + 1, d1) else if d1 \<noteq> 0 then (d0, d1 - 1) else (d0, d1)) else (d0, d1))"

definition bc1_endpoints :: "u32 list \<Rightarrow> u16 \<times> u16" where
  "bc1_endpoints px =
     (let r = inset (channel_range px_r px); g = inset (channel_range px_g px); b = inset (channel_range px_b px)
      in separate (rgb565 (snd r) (snd g) (snd b)) (rgb565 (fst r) (fst g) (fst b)))"

definition third :: "byte \<Rightarrow> byte \<Rightarrow> byte" where
  "third a b = of_nat ((2 * unat a + unat b + 1) div 3)"

fun mix :: "rgb \<Rightarrow> rgb \<Rightarrow> rgb" where
  "mix (r0, g0, b0) (r1, g1, b1) = (third r0 r1, third g0 g1, third b0 b1)"

definition third' :: "byte \<Rightarrow> byte \<Rightarrow> byte" where
  "third' a b = of_nat ((unat a + 2 * unat b + 1) div 3)"

fun mix' :: "rgb \<Rightarrow> rgb \<Rightarrow> rgb" where
  "mix' (r0, g0, b0) (r1, g1, b1) = (third' r0 r1, third' g0 g1, third' b0 b1)"

definition bc1_palette :: "u16 \<Rightarrow> u16 \<Rightarrow> rgb list" where
  "bc1_palette c0 c1 =
     (let p0 = rgb_from_565 c0; p1 = rgb_from_565 c1 in [p0, p1, mix p0 p1, mix' p0 p1])"

fun color_dist :: "u32 \<Rightarrow> rgb \<Rightarrow> int" where
  "color_dist p (r, g, b) =
     (let dr = px_r p - uint r; dg = px_g p - uint g; db = px_b p - uint b in dr * dr + dg * dg + db * db)"

text \<open>The search for the best of \<open>n\<close> entries: the first one with the least distance below \<open>far\<close>.\<close>

definition best_entry :: "nat \<Rightarrow> int \<Rightarrow> (nat \<Rightarrow> int) \<Rightarrow> nat" where
  "best_entry n far d =
     fst (foldl (\<lambda>(best, bestd) q. if d q < bestd then (q, d q) else (best, bestd)) (0, far) [0..<n])"

definition pack_bits :: "nat \<Rightarrow> (nat \<Rightarrow> nat) \<Rightarrow> 'a::len word" where
  "pack_bits w f = foldl (\<lambda>bits i. bits OR push_bit (w * i) (of_nat (f i))) 0 [0..<16]"

definition encode_bc1_color :: "u32 list \<Rightarrow> byte list" where
  "encode_bc1_color px =
     (case bc1_endpoints px of
        (c0, c1) \<Rightarrow>
          let p = bc1_palette c0 c1;
              bits = pack_bits 2 (\<lambda>i. best_entry 4 0x7fffffff (\<lambda>q. color_dist (px ! i) (p ! q)))
          in put16le c0 @ put16le c1 @ put32le bits)"

section \<open>Alpha\<close>

definition alpha_range :: "u32 list \<Rightarrow> byte \<times> byte" where
  "alpha_range px =
     foldl (\<lambda>(lo, hi) p. (if px_a p < lo then px_a p else lo, if hi < px_a p then px_a p else hi)) (255, 0) px"

definition alpha_palette :: "byte \<Rightarrow> byte \<Rightarrow> byte list" where
  "alpha_palette amax amin =
     [amax, amin] @
     (if amin < amax then map (\<lambda>i. of_nat (((7 - i) * unat amax + i * unat amin + 3) div 7)) [1..<7]
      else map (\<lambda>i. of_nat (((5 - i) * unat amax + i * unat amin + 2) div 5)) [1..<5] @ [0, 255])"

definition alpha_dist :: "byte \<Rightarrow> byte \<Rightarrow> int" where
  "alpha_dist a p = (let d = uint a - uint p in if d < 0 then - d else d)"

definition encode_bc3_alpha :: "u32 list \<Rightarrow> byte list" where
  "encode_bc3_alpha px =
     (case alpha_range px of
        (amin, amax) \<Rightarrow>
          let pal = alpha_palette amax amin;
              bits = pack_bits 3 (\<lambda>i. best_entry 8 1000 (\<lambda>q. alpha_dist (px_a (px ! i)) (pal ! q))) :: u64
          in [amax, amin] @ map (\<lambda>i. ucast (drop_bit (8 * i) bits)) [0..<6])"

section \<open>The transcoder\<close>

definition ETC2_BC_RGB8 :: int where "ETC2_BC_RGB8 = 1"
definition ETC2_BC_RGBA8 :: int where "ETC2_BC_RGBA8 = 2"
definition SIZE_MAX :: nat where "SIZE_MAX = 2 ^ 64 - 1"

definition block_size :: "int \<Rightarrow> nat" where
  "block_size mode = (if mode = ETC2_BC_RGB8 then 8 else if mode = ETC2_BC_RGBA8 then 16 else 0)"

definition blocks_across :: "int \<Rightarrow> nat" where
  "blocks_across n = (nat n + 3) div 4"

definition etc2_bc_image_size :: "int \<Rightarrow> int \<Rightarrow> int \<Rightarrow> nat" where
  "etc2_bc_image_size mode width height =
     (if width \<le> 0 \<or> height \<le> 0 then 0
      else let bx = blocks_across width; by' = blocks_across height; block = block_size mode
           in if block = 0 \<or> SIZE_MAX div by' < bx then 0
              else let n = bx * by' in if SIZE_MAX div block < n then 0 else n * block)"

text \<open>One pass of a loop: \<open>px\<close> is the pixel buffer, which keeps what it held before.\<close>

definition rgb8_block :: "byte list \<Rightarrow> u32 list \<Rightarrow> byte list \<times> u32 list" where
  "rgb8_block s px = (let p = decode_etc2_rgb_block s px in (encode_bc1_color p, p))"

definition rgba8_block :: "byte list \<Rightarrow> u32 list \<Rightarrow> byte list \<times> u32 list" where
  "rgba8_block s px =
     (let p = decode_etc2_alpha_block s (decode_etc2_rgb_block (drop 8 s) px)
      in (encode_bc3_alpha p @ encode_bc1_color p, p))"

definition transcode_loop ::
  "(byte list \<Rightarrow> u32 list \<Rightarrow> byte list \<times> u32 list) \<Rightarrow> nat \<Rightarrow> nat \<Rightarrow> byte list \<Rightarrow> byte list \<Rightarrow> u32 list \<Rightarrow> byte list \<times> u32 list" where
  "transcode_loop f block n src dst px =
     foldl (\<lambda>(d, p) i. case f (drop (block * i) src) p of (b, p') \<Rightarrow> (blit d (block * i) b, p')) (dst, px) [0..<n]"

definition etc2_bc_transcode ::
  "byte list option \<Rightarrow> byte list option \<Rightarrow> int \<Rightarrow> int \<Rightarrow> int \<Rightarrow> u32 list \<Rightarrow> byte list option" where
  "etc2_bc_transcode dst src width height mode px =
     (let need = etc2_bc_image_size mode width height
      in case (dst, src) of
           (Some d, Some s) \<Rightarrow>
             if need = 0 \<or> length d < need \<or> length s < need then None
             else let blocks = blocks_across width * blocks_across height
                  in if mode = ETC2_BC_RGB8 then Some (fst (transcode_loop rgb8_block 8 blocks s d px))
                     else if mode = ETC2_BC_RGBA8 then Some (fst (transcode_loop rgba8_block 16 blocks s d px))
                     else None
         | _ \<Rightarrow> None)"

section \<open>Searching and packing\<close>

lemma best_entry_min:
  assumes "0 < n" and "\<forall>q<n. d q < far"
  shows "best_entry n far d < n \<and> (\<forall>q<n. d (best_entry n far d) \<le> d q)"
proof -
  have "let (b, bd) = foldl (\<lambda>(best, bestd) q. if d q < bestd then (q, d q) else (best, bestd)) (0, far) [0..<m]
      in (m = 0 \<longrightarrow> bd = far \<and> b = 0) \<and> (0 < m \<longrightarrow> b < m \<and> bd = d b \<and> (\<forall>q<m. bd \<le> d q))" if "m \<le> n" for m
    using that
  proof (induction m)
    case (Suc m)
    obtain b bd where f: "foldl (\<lambda>(best, bestd) q. if d q < bestd then (q, d q) else (best, bestd)) (0, far) [0..<m] = (b, bd)"
      by (cases "foldl (\<lambda>(best, bestd) q. if d q < bestd then (q, d q) else (best, bestd)) (0, far) [0..<m]")
    have IH: "(m = 0 \<longrightarrow> bd = far \<and> b = 0) \<and> (0 < m \<longrightarrow> b < m \<and> bd = d b \<and> (\<forall>q<m. bd \<le> d q))"
      using Suc.IH [OF Suc_leD [OF Suc.prems]] by (simp only: f Let_def prod.case)
    show ?case
    proof (cases "m = 0")
      case True
      then have "d 0 < bd" using IH assms by simp
      with True f show ?thesis by simp
    next
      case False
      with IH have "b < m" "bd = d b" "\<forall>q<m. bd \<le> d q" by blast+
      then show ?thesis by (fastforce simp: f less_Suc_eq)
    qed
  qed simp
  from this [of n] assms(1) show ?thesis by (auto simp: best_entry_def split: prod.splits)
qed

text \<open>Fields of \<open>w\<close> bits that fit can be read back.\<close>

lemma pack_bits_field:
  assumes fit: "w * 16 \<le> LENGTH('a::len)" and f: "\<forall>i<16. f i < 2 ^ w" and i: "i < 16"
  shows "unat (take_bit w (drop_bit (w * i) (pack_bits w f :: 'a word))) = f i"
proof -
  have "bit (take_bit w (drop_bit (w * i) (pack_bits w f :: 'a word))) m = bit (of_nat (f i) :: 'a word) m" for m
  proof (cases "m < w")
    case True
    have "w * Suc i \<le> w * 16" using i by (intro mult_le_mono) auto
    then have "w * i + w \<le> w * 16" by simp
    then have mi: "w * i + m < LENGTH('a)" using True fit by linarith
    have other: "\<not> bit (f j) (w * i + m - w * j)" if "j < 16" "w * j \<le> w * i + m" "j \<noteq> i" for j
    proof -
      have "j < i"
      proof (rule ccontr)
        assume "\<not> j < i"
        with that have "Suc i \<le> j" by simp
        then have "w * Suc i \<le> w * j" by (rule mult_le_mono2)
        with that(2) True show False by simp
      qed
      then have "w * Suc j \<le> w * i" by (intro mult_le_mono2) simp
      then have "w \<le> w * i + m - w * j" by simp
      moreover have "take_bit w (f j) = f j" using f that(1) by (simp add: take_bit_nat_eq_self_iff)
      ultimately show ?thesis by (metis bit_take_bit_iff not_less)
    qed
    have "bit (take_bit w (drop_bit (w * i) (pack_bits w f :: 'a word))) m
        \<longleftrightarrow> (\<exists>j<16. w * j \<le> w * i + m \<and> bit (f j) (w * i + m - w * j))"
      using True mi by (auto simp: bit_simps pack_bits_def foldl_or_bit)
    also have "\<dots> \<longleftrightarrow> bit (f i) m" using other i by (metis add_diff_cancel_left' le_add1)
    also have "\<dots> \<longleftrightarrow> bit (of_nat (f i) :: 'a word) m" using mi by (simp add: bit_simps)
    finally show ?thesis .
  next
    case False
    have "take_bit w (f i) = f i" using f i by (simp add: take_bit_nat_eq_self_iff)
    then have "\<not> bit (f i) m" using False by (metis bit_take_bit_iff)
    then show ?thesis using False by (simp add: bit_simps)
  qed
  then have e: "take_bit w (drop_bit (w * i) (pack_bits w f :: 'a word)) = of_nat (f i)" by (simp add: bit_eq_iff)
  have "f i < 2 ^ w" using f i by simp
  also have "(2::nat) ^ w \<le> 2 ^ LENGTH('a)" using fit by (intro power_increasing) simp_all
  finally show ?thesis by (simp add: e unsigned_of_nat take_bit_nat_eq_self_iff)
qed

lemma byte_le: "uint (x :: byte) \<le> 255" "0 \<le> uint x"
  using uint_lt2p [of x] by simp_all

end
