(* ===== verification/BcProps.thy ===== *)
theory BcProps
  imports Bc
begin

text \<open>The properties of the texture transcoder, stated over a reference decoder of BC1 and BC3 blocks.\<close>

section \<open>Reading blocks back\<close>

definition le_bytes :: "nat \<Rightarrow> byte list \<Rightarrow> 'a::len word" where
  "le_bytes n l = foldl (\<lambda>v i. v OR push_bit (8 * i) (ucast (l ! i))) 0 [0..<n]"

lemma le_bytes_read:
  fixes v :: "'a::len word"
  assumes "\<forall>i<n. l ! i = ucast (drop_bit (8 * i) v)"
  shows "le_bytes n l = take_bit (8 * n) v"
proof (rule bit_word_eqI)
  fix m assume m: "m < LENGTH('a)"
  show "bit (le_bytes n l :: 'a word) m \<longleftrightarrow> bit (take_bit (8 * n) v) m"
  proof (cases "m < 8 * n")
    case True
    then have "m div 8 < n" by auto
    with assms have "l ! (m div 8) = ucast (drop_bit (8 * (m div 8)) v)" by blast
    with True m show ?thesis by (auto simp: le_bytes_def bytes_bit bit_simps)
  qed (simp add: le_bytes_def bytes_bit bit_take_bit_iff)
qed

definition bc1_color0 :: "byte list \<Rightarrow> u16" where "bc1_color0 b = le_bytes 2 b"
definition bc1_color1 :: "byte list \<Rightarrow> u16" where "bc1_color1 b = le_bytes 2 (drop 2 b)"
definition bc1_index :: "byte list \<Rightarrow> nat \<Rightarrow> nat" where
  "bc1_index b i = unat (take_bit 2 (drop_bit (2 * i) (le_bytes 4 (drop 4 b) :: u32)))"
definition bc3_index :: "byte list \<Rightarrow> nat \<Rightarrow> nat" where
  "bc3_index b i = unat (take_bit 3 (drop_bit (3 * i) (le_bytes 6 (drop 2 b) :: u64)))"

lemma nth_lt2: "i < 2 \<Longrightarrow> i = 0 \<or> i = (1::nat)" by auto
lemma nth_lt4: "i < 4 \<Longrightarrow> i = 0 \<or> i = 1 \<or> i = 2 \<or> i = (3::nat)" by auto

lemma bc1_read:
  assumes "b = put16le c0 @ put16le c1 @ put32le bits"
  shows "bc1_color0 b = c0" "bc1_color1 b = c1" "bc1_index b i = unat (take_bit 2 (drop_bit (2 * i) bits))" "length b = 8"
proof -
  have "bc1_color0 b = take_bit (8 * 2) c0" unfolding bc1_color0_def
    by (rule le_bytes_read) (auto dest!: nth_lt2 simp: assms put16le_def)
  then show "bc1_color0 b = c0" by (simp add: take_bit_word_eq_self)
  have "bc1_color1 b = take_bit (8 * 2) c1" unfolding bc1_color1_def
    by (rule le_bytes_read) (auto dest!: nth_lt2 simp: assms put16le_def)
  then show "bc1_color1 b = c1" by (simp add: take_bit_word_eq_self)
  have "le_bytes 4 (drop 4 b) = take_bit (8 * 4) bits"
    by (rule le_bytes_read) (auto dest!: nth_lt4 simp: assms put16le_def put32le_def drop_Cons')
  then show "bc1_index b i = unat (take_bit 2 (drop_bit (2 * i) bits))"
    by (simp add: bc1_index_def take_bit_word_eq_self)
  show "length b = 8" by (simp add: assms put16le_def put32le_def)
qed

section \<open>Colour blocks\<close>

lemma inc_bound:
  assumes "d < (0xffff :: u16)"
  shows "d < d + 1"
proof -
  have "unat d < 65535" using assms by (simp add: word_less_nat_alt)
  then have "unat (d + 1) = Suc (unat d)" by (simp add: unat_word_ariths)
  then show ?thesis by (simp add: word_less_nat_alt)
qed

lemma top_word:
  assumes "\<not> d < (0xffff :: u16)"
  shows "d = 0xffff"
proof -
  have "unat d < 2 ^ LENGTH(16)" by (rule unsigned_less)
  with assms have "unat d = unat (0xffff :: u16)" by (simp add: word_less_nat_alt)
  then show ?thesis by (simp only: word_unat_eq_iff)
qed

lemma separate_descends:
  assumes "separate a b = (c0, c1)"
  shows "c1 < c0"
proof (cases "a = b")
  case True
  show ?thesis
  proof (cases "a < 0xffff")
    case lt: True
    with assms True inc_bound [OF lt] show ?thesis by (auto simp: separate_def)
  next
    case False
    with assms True top_word [OF False] show ?thesis by (auto simp: separate_def)
  qed
next
  case False
  with assms show ?thesis by (auto simp: separate_def Let_def split: if_splits)
qed

lemma endpoints_descend: "bc1_endpoints px = (c0, c1) \<Longrightarrow> c1 < c0"
  by (auto simp: bc1_endpoints_def Let_def intro: separate_descends)

lemma channel_bounds: "0 \<le> px_r p \<and> px_r p \<le> 255" "0 \<le> px_g p \<and> px_g p \<le> 255" "0 \<le> px_b p \<and> px_b p \<le> 255"
proof -
  have "0 \<le> uint (x AND 255) \<and> uint (x AND 255) \<le> 255" for x :: u32
    using word_and_le1 [of x 255] by (simp add: word_le_def word_and_le2)
  then show "0 \<le> px_r p \<and> px_r p \<le> 255" "0 \<le> px_g p \<and> px_g p \<le> 255" "0 \<le> px_b p \<and> px_b p \<le> 255"
    by (simp_all add: px_r_def px_g_def px_b_def)
qed

lemma square_bound:
  fixes x y :: int
  assumes "0 \<le> x \<and> x \<le> 255" and "0 \<le> y \<and> y \<le> 255"
  shows "(x - y) * (x - y) \<le> 65025"
proof -
  have "\<bar>x - y\<bar> * \<bar>x - y\<bar> \<le> 255 * 255" using assms by (intro mult_mono) auto
  then show ?thesis by simp
qed

lemma color_dist_bound: "color_dist p c < 0x7fffffff"
proof (cases c)
  case (fields r g b)
  have "0 \<le> uint x \<and> uint x \<le> 255" for x :: byte using byte_le by simp
  then have "(px_r p - uint r) * (px_r p - uint r) \<le> 65025" "(px_g p - uint g) * (px_g p - uint g) \<le> 65025"
    "(px_b p - uint b) * (px_b p - uint b) \<le> 65025"
    using square_bound channel_bounds by blast+
  then show ?thesis by (simp add: fields Let_def)
qed



section \<open>Alpha blocks\<close>

lemma alpha_range_foldl:
  "let (lo', hi') = foldl (\<lambda>(lo, hi) p. (if px_a p < lo then px_a p else lo, if hi < px_a p then px_a p else hi)) (lo, hi) px
   in lo' \<le> lo \<and> hi \<le> hi' \<and> (\<forall>p\<in>set px. lo' \<le> px_a p \<and> px_a p \<le> hi') \<and>
      (lo' = lo \<or> lo' \<in> px_a ` set px) \<and> (hi' = hi \<or> hi' \<in> px_a ` set px)"
proof (induction px arbitrary: lo hi)
  case (Cons p px)
  let ?lo = "if px_a p < lo then px_a p else lo" and ?hi = "if hi < px_a p then px_a p else hi"
  have b: "?lo \<le> lo" "?lo \<le> px_a p" "hi \<le> ?hi" "px_a p \<le> ?hi" by auto
  show ?case using Cons.IH [of ?lo ?hi] b by (auto split: prod.splits if_splits intro: order_trans)
qed simp

lemma alpha_range_spec:
  assumes "alpha_range px = (lo, hi)"
  shows "p \<in> set px \<Longrightarrow> lo \<le> px_a p \<and> px_a p \<le> hi"
proof -
  assume "p \<in> set px"
  then show ?thesis using alpha_range_foldl [of 255 0 px] assms by (simp add: alpha_range_def)
qed

lemma alpha_palette_ends: "alpha_palette hi lo ! 0 = hi" "alpha_palette hi lo ! 1 = lo" "length (alpha_palette hi lo) = 8"
  by (auto simp: alpha_palette_def)

lemma byte_nat_le: "unat (x :: byte) \<le> 255"
proof -
  have "unat x < 2 ^ LENGTH(8)" by (rule unsigned_less)
  then show ?thesis by simp
qed

lemma alpha_palette_mid:
  assumes "lo < hi" and "2 \<le> q" and "q < 8"
  shows "unat (alpha_palette hi lo ! q) = ((8 - q) * unat hi + (q - 1) * unat lo + 3) div 7"
proof -
  let ?v = "(8 - q) * unat hi + (q - 1) * unat lo + 3"
  have "unat lo \<le> 255" "unat hi \<le> 255" by (rule byte_nat_le)+
  then have "(8 - q) * unat hi \<le> (8 - q) * 255" "(q - 1) * unat lo \<le> (q - 1) * 255" by (simp_all add: mult_le_mono2)
  moreover have "(8 - q) * 255 + (q - 1) * 255 = (7::nat) * 255" using assms(2,3) by (simp add: add_mult_distrib [symmetric])
  moreover have u: "[Suc 0..<7] ! (q - Suc (Suc 0)) = q - 1" "7 - (q - Suc 0) = 8 - q"
    using nth_upt [of "Suc 0" "q - 2" 7] assms(2,3) by simp_all
  ultimately have "?v div 7 < 256" by linarith
  moreover have "alpha_palette hi lo ! q = of_nat (?v div 7)"
    using assms u by (simp add: alpha_palette_def nth_Cons' nth_append)
  ultimately show ?thesis by (simp add: unsigned_of_nat take_bit_nat_eq_self)
qed

text \<open>The ideal palette value nearest to an alpha is at most a fourteenth of the range away.\<close>

lemma round_seventh:
  fixes a lo hi :: nat
  assumes "lo \<le> a" and "a \<le> hi"
  shows "\<exists>i\<le>7. 14 * (hi - a) \<le> (2 * i + 1) * (hi - lo) \<and> (2 * i) * (hi - lo) \<le> 14 * (hi - a) + (hi - lo)"
proof -
  obtain d where d: "hi - lo = d" by simp
  obtain t where t: "hi - a = t" by simp
  have "t \<le> d" using assms d t by simp
  then consider "14 * t \<le> d" | "d \<le> 14 * t" "14 * t \<le> 3 * d" | "3 * d \<le> 14 * t" "14 * t \<le> 5 * d"
    | "5 * d \<le> 14 * t" "14 * t \<le> 7 * d" | "7 * d \<le> 14 * t" "14 * t \<le> 9 * d" | "9 * d \<le> 14 * t" "14 * t \<le> 11 * d"
    | "11 * d \<le> 14 * t" "14 * t \<le> 13 * d" | "13 * d \<le> 14 * t" "14 * t \<le> 15 * d" by linarith
  then have "\<exists>i\<le>7. 14 * t \<le> (2 * i + 1) * d \<and> (2 * i) * d \<le> 14 * t + d"
  proof cases
    case 1 then show ?thesis by (intro exI [of _ 0]) simp
  next
    case 2 then show ?thesis by (intro exI [of _ 1]) simp
  next
    case 3 then show ?thesis by (intro exI [of _ 2]) simp
  next
    case 4 then show ?thesis by (intro exI [of _ 3]) simp
  next
    case 5 then show ?thesis by (intro exI [of _ 4]) simp
  next
    case 6 then show ?thesis by (intro exI [of _ 5]) simp
  next
    case 7 then show ?thesis by (intro exI [of _ 6]) simp
  next
    case 8 then show ?thesis by (intro exI [of _ 7]) simp
  qed
  then show ?thesis by (simp only: d t)
qed

lemma alpha_dist_nat: "alpha_dist a p = \<bar>int (unat a) - int (unat p)\<bar>"
  by (simp add: alpha_dist_def Let_def)

text \<open>Palette entry of ideal position \<open>i\<close>: the end points are entries 0 and 1.\<close>

lemma alpha_palette_entry:
  assumes "lo < hi" and "i \<le> 7"
  shows "\<exists>q<8. unat (alpha_palette hi lo ! q) = ((7 - i) * unat hi + i * unat lo + 3) div 7"
proof -
  consider "i = 0" | "i = 7" | "1 \<le> i" "i \<le> 6" using assms(2) by linarith
  then show ?thesis
  proof cases
    case 1 then show ?thesis by (intro exI [of _ 0]) (simp add: alpha_palette_ends)
  next
    case 2 then show ?thesis using alpha_palette_ends(2) by (intro exI [of _ 1]) simp
  next
    case 3
    then show ?thesis using alpha_palette_mid [OF assms(1), of "i + 1"] by (intro exI [of _ "i + 1"]) simp
  qed
qed

lemma near_arith:
  fixes H A V P L :: int
  assumes "7 * V \<le> 7 * H - P + 3" "7 * H - P \<le> 7 * V + 3" "14 * (H - A) \<le> 2 * P + (H - L)"
    "2 * P \<le> 14 * (H - A) + (H - L)"
  shows "14 * \<bar>A - V\<bar> \<le> H - L + 6"
  using assms by arith

lemma alpha_near:
  assumes "lo \<le> a" and "a \<le> hi"
  shows "\<exists>q<8. 14 * alpha_dist a (alpha_palette hi lo ! q) \<le> uint hi - uint lo + 6"
proof (cases "lo < hi")
  case False
  then have "a = hi" "lo = hi" using assms by auto
  then show ?thesis by (intro exI [of _ 0]) (simp add: alpha_palette_ends alpha_dist_def)
next
  case True
  have n: "unat lo \<le> unat a" "unat a \<le> unat hi" using assms by (simp_all add: word_le_nat_alt)
  from round_seventh [OF this] obtain i where i: "i \<le> 7"
    "14 * (unat hi - unat a) \<le> (2 * i + 1) * (unat hi - unat lo)"
    "(2 * i) * (unat hi - unat lo) \<le> 14 * (unat hi - unat a) + (unat hi - unat lo)" by blast
  from alpha_palette_entry [OF True i(1)] obtain q where q: "q < 8"
    and v: "unat (alpha_palette hi lo ! q) = ((7 - i) * unat hi + i * unat lo + 3) div 7" by blast
  let ?H = "int (unat hi)" and ?L = "int (unat lo)" and ?A = "int (unat a)" and ?V = "int (unat (alpha_palette hi lo ! q))"
  let ?P = "int i * (?H - ?L)"
  have x: "int ((7 - i) * unat hi + i * unat lo) = 7 * ?H - ?P" 
  proof -
    have "int (7 - i) = 7 - int i" using i(1) by simp
    then show ?thesis by (simp only: of_nat_add of_nat_mult) (simp add: algebra_simps)
  qed
  have "7 * unat (alpha_palette hi lo ! q) \<le> (7 - i) * unat hi + i * unat lo + 3"
    "(7 - i) * unat hi + i * unat lo \<le> 7 * unat (alpha_palette hi lo ! q) + 3" unfolding v by linarith+
  then have "7 * ?V \<le> 7 * ?H - ?P + 3" "7 * ?H - ?P \<le> 7 * ?V + 3" using x by linarith+
  moreover have "14 * (?H - ?A) \<le> 2 * ?P + (?H - ?L)" "2 * ?P \<le> 14 * (?H - ?A) + (?H - ?L)"
  proof -
    have dt: "int (unat hi - unat lo) = ?H - ?L" "int (unat hi - unat a) = ?H - ?A" using n by (simp_all only: of_nat_diff le_trans)
    have "int (14 * (unat hi - unat a)) \<le> int ((2 * i + 1) * (unat hi - unat lo))"
      "int ((2 * i) * (unat hi - unat lo)) \<le> int (14 * (unat hi - unat a) + (unat hi - unat lo))"
      using i(2,3) by (simp_all only: of_nat_le_iff)
    then have "14 * (?H - ?A) \<le> (2 * int i + 1) * (?H - ?L)" "(2 * int i) * (?H - ?L) \<le> 14 * (?H - ?A) + (?H - ?L)"
      unfolding of_nat_mult of_nat_add dt by simp_all
    then show "14 * (?H - ?A) \<le> 2 * ?P + (?H - ?L)" "2 * ?P \<le> 14 * (?H - ?A) + (?H - ?L)"
      by (simp_all only: distrib_right mult.assoc mult_1_left)
  qed
  ultimately have "14 * \<bar>?A - ?V\<bar> \<le> ?H - ?L + 6" by (rule near_arith)
  then show ?thesis using q by (auto simp: alpha_dist_nat)
qed

lemma bc3_read:
  assumes "b = [hi, lo] @ map (\<lambda>i. ucast (drop_bit (8 * i) bits)) [0..<6]" and "i < 16"
  shows "bc3_index b i = unat (take_bit 3 (drop_bit (3 * i) (bits :: u64)))" "length b = 8" "b ! 0 = hi" "b ! 1 = lo"
proof -
  have "le_bytes 6 (drop 2 b) = take_bit (8 * 6) bits" by (rule le_bytes_read) (simp add: assms)
  then have "bc3_index b i = unat (take_bit 3 (drop_bit (3 * i) (take_bit 48 bits)))" by (simp add: bc3_index_def)
  also have "take_bit 3 (drop_bit (3 * i) (take_bit 48 bits)) = take_bit 3 (drop_bit (3 * i) bits)"
    using assms(2) by (intro bit_word_eqI) (auto simp: bit_simps)
  finally show "bc3_index b i = unat (take_bit 3 (drop_bit (3 * i) (bits :: u64)))" .
qed (simp_all add: assms)

text \<open>The alpha a BC3 decoder gives pixel \<open>i\<close> of an encoded block.\<close>

definition bc3_alpha :: "byte list \<Rightarrow> nat \<Rightarrow> byte" where
  "bc3_alpha b i = alpha_palette (b ! 0) (b ! 1) ! bc3_index b i"

text \<open>
  C27.  The alpha of every pixel survives the BC3 encoding up to a fourteenth of the range of the
  alphas of its block (and rounding), and no other index would be nearer; a block of one alpha,
  and the least and the greatest alpha of any block, are exact.
\<close>

theorem bc3_alpha_error:
  assumes "encode_bc3_alpha px = out" and "i < 16" and "i < length px"
  shows "length out = 8 \<and> out ! 1 \<le> px_a (px ! i) \<and> px_a (px ! i) \<le> out ! 0 \<and> bc3_index out i < 8 \<and>
    14 * alpha_dist (px_a (px ! i)) (bc3_alpha out i) \<le> uint (out ! 0) - uint (out ! 1) + 6 \<and>
    (\<forall>q<8. alpha_dist (px_a (px ! i)) (bc3_alpha out i) \<le> alpha_dist (px_a (px ! i)) (alpha_palette (out ! 0) (out ! 1) ! q)) \<and>
    (px_a (px ! i) \<in> {out ! 0, out ! 1} \<longrightarrow> bc3_alpha out i = px_a (px ! i))"
proof -
  obtain lo hi where r: "alpha_range px = (lo, hi)" by (cases "alpha_range px")
  let ?a = "px_a (px ! i)"
  let ?best = "\<lambda>i. best_entry 8 1000 (\<lambda>q. alpha_dist (px_a (px ! i)) (alpha_palette hi lo ! q))"
  have o: "out = [hi, lo] @ map (\<lambda>i. ucast (drop_bit (8 * i) (pack_bits 3 ?best :: u64))) [0..<6]"
    using assms(1) by (simp add: encode_bc3_alpha_def r Let_def)
  note R = bc3_read [OF o assms(2)]
  have far: "alpha_dist a p < 1000" for a p
    using byte_nat_le [of a] byte_nat_le [of p] by (simp only: alpha_dist_nat)
  have b: "?best j < 8 \<and> (\<forall>q<8. alpha_dist (px_a (px ! j)) (alpha_palette hi lo ! ?best j)
      \<le> alpha_dist (px_a (px ! j)) (alpha_palette hi lo ! q))" for j
    by (rule best_entry_min) (simp_all add: far)
  have "bc3_index out i = ?best i" unfolding R(1) by (rule pack_bits_field) (use b assms(2) in simp_all)
  then have D: "bc3_alpha out i = alpha_palette hi lo ! ?best i" "bc3_index out i < 8"
    using b R by (simp_all add: bc3_alpha_def)
  then have N: "\<forall>q<8. alpha_dist ?a (bc3_alpha out i) \<le> alpha_dist ?a (alpha_palette hi lo ! q)" using b by simp
  have range: "lo \<le> ?a \<and> ?a \<le> hi" by (rule alpha_range_spec [OF r]) (use assms(3) in simp)
  then obtain q where "q < 8" "14 * alpha_dist ?a (alpha_palette hi lo ! q) \<le> uint hi - uint lo + 6"
    using alpha_near by blast
  with N have E: "14 * alpha_dist ?a (bc3_alpha out i) \<le> uint hi - uint lo + 6" by (meson dual_order.trans mult_left_mono zero_le_numeral)
  have "bc3_alpha out i = ?a" if "?a \<in> {hi, lo}"
  proof -
    have "\<exists>q<8. alpha_palette hi lo ! q = ?a" using that alpha_palette_ends
      by (metis insert_iff singletonD one_less_numeral_iff semiring_norm(76) zero_less_numeral)
    then obtain q where "q < 8" "alpha_palette hi lo ! q = ?a" by blast
    with N have "alpha_dist ?a (bc3_alpha out i) \<le> 0" by (auto simp: alpha_dist_nat)
    then have "unat ?a = unat (bc3_alpha out i)" by (simp only: alpha_dist_nat)
    then show ?thesis by (simp only: word_unat_eq_iff)
  qed
  with R D N E range show ?thesis by auto
qed

theorem bc3_alpha_error_witness:
  "\<exists>out. encode_bc3_alpha (replicate 16 0x80000000) = out \<and> bc3_alpha out 3 = 0x80"
proof -
  let ?px = "replicate 16 (0x80000000 :: u32)"
  have "alpha_range ?px = (0x80, 0x80)" by code_simp
  then have "encode_bc3_alpha ?px ! 0 = 0x80" by (simp add: encode_bc3_alpha_def Let_def)
  moreover have "px_a (?px ! 3) = 0x80" by code_simp
  ultimately show ?thesis using bc3_alpha_error [OF refl, of 3 ?px] by auto
qed

section \<open>The transcoder\<close>

text \<open>The reference: each block by itself, from a cleared pixel buffer.\<close>

definition block_of :: "int \<Rightarrow> byte list \<Rightarrow> byte list" where
  "block_of mode s =
     (if mode = ETC2_BC_RGB8 then encode_bc1_color (decode_etc2_rgb_block s (replicate 16 0))
      else let p = decode_etc2_alpha_block s (decode_etc2_rgb_block (drop 8 s) (replicate 16 0))
           in encode_bc3_alpha p @ encode_bc1_color p)"

lemma length_bc1: "length (encode_bc1_color px) = 8"
  by (simp add: encode_bc1_color_def put16le_def put32le_def Let_def split: prod.splits)

lemma length_bc3: "length (encode_bc3_alpha px) = 8"
  by (simp add: encode_bc3_alpha_def Let_def split: prod.splits)

lemma blit_next:
  assumes "length out = B * n" and "length b = B" and "B * Suc n \<le> length d"
  shows "blit (out @ drop (B * n) d) (B * n) b = (out @ b) @ drop (B * Suc n) d"
  using assms by (simp add: blit_def add.commute)

lemma transcode_loop_blocks:
  assumes f: "\<And>s p. length p = 16 \<Longrightarrow> \<exists>p'. f s p = (g s, p') \<and> length p' = 16" and g: "\<And>s. length (g s) = B"
    and "length px = 16" and "B * n \<le> length d"
  shows "\<exists>p. transcode_loop f B n src d px = (concat (map (\<lambda>i. g (drop (B * i) src)) [0..<n]) @ drop (B * n) d, p) \<and> length p = 16"
  using assms(4)
proof (induction n)
  case 0
  then show ?case using assms(3) by (simp add: transcode_loop_def)
next
  case (Suc n)
  let ?out = "concat (map (\<lambda>i. g (drop (B * i) src)) [0..<n])"
  from Suc obtain p where p: "transcode_loop f B n src d px = (?out @ drop (B * n) d, p)" "length p = 16" by auto
  from f [OF p(2)] obtain p' where p': "f (drop (B * n) src) p = (g (drop (B * n) src), p')" "length p' = 16" by blast
  have "length ?out = B * n" by (induction n) (simp_all add: g)
  from blit_next [OF this g Suc.prems] p p' show ?case by (simp add: transcode_loop_def)
qed

text \<open>
  C28.  The transcoder fails without writing unless the sizes are positive, the mode is known and
  both buffers hold the image; otherwise it writes exactly the image, every block being the
  translation of the source block at its place alone, whatever the scratch pixels held before,
  and leaves the rest of the destination alone.
\<close>

theorem transcode_blockwise:
  assumes "length px = 16"
  shows "etc2_bc_transcode (Some dst) (Some src) w h mode px =
    (let need = etc2_bc_image_size mode w h; B = block_size mode
     in if need = 0 \<or> length dst < need \<or> length src < need then None
        else Some (concat (map (\<lambda>i. block_of mode (drop (B * i) src)) [0..<blocks_across w * blocks_across h]) @ drop need dst))"
proof (cases "etc2_bc_image_size mode w h = 0 \<or> length dst < etc2_bc_image_size mode w h \<or>
    length src < etc2_bc_image_size mode w h")
  case True
  then show ?thesis by (simp add: etc2_bc_transcode_def)
next
  case False
  let ?n = "blocks_across w * blocks_across h"
  have need: "etc2_bc_image_size mode w h = block_size mode * ?n"
    using False by (auto simp: etc2_bc_image_size_def Let_def split: if_splits)
  then have fit: "block_size mode * ?n \<le> length dst" using False by simp
  from False consider "mode = ETC2_BC_RGB8" | "mode = ETC2_BC_RGBA8" "mode \<noteq> ETC2_BC_RGB8"
    by (auto simp: need block_size_def split: if_splits)
  then show ?thesis
  proof cases
    case 1
    then have B: "block_size mode = 8" by (simp add: block_size_def)
    have "\<exists>p'. rgb8_block s p = (block_of mode s, p') \<and> length p' = 16" if "length p = 16" for s p
      using decode_rgb_fresh [OF that, of "replicate 16 0" s] that 1
      by (simp add: rgb8_block_def block_of_def length_decode_rgb Let_def)
    from transcode_loop_blocks [where f = rgb8_block and g = "block_of mode", OF this _ assms fit [unfolded B], where src = src] 1 False B need
    show ?thesis by (auto simp: etc2_bc_transcode_def block_of_def length_bc1)
  next
    case 2
    then have B: "block_size mode = 16" by (simp add: block_size_def)
    have "\<exists>p'. rgba8_block s p = (block_of mode s, p') \<and> length p' = 16" if "length p = 16" for s p
      using decode_rgb_fresh [OF that, of "replicate 16 0" "drop 8 s"] that 2
      by (simp add: rgba8_block_def block_of_def length_decode_rgb length_decode_alpha Let_def)
    from transcode_loop_blocks [where f = rgba8_block and g = "block_of mode", OF this _ assms fit [unfolded B], where src = src] 2 False B need
    show ?thesis by (auto simp: etc2_bc_transcode_def block_of_def length_bc1 length_bc3 Let_def)
  qed
qed

theorem transcode_blockwise_witness:
  "length (replicate 16 (0 :: u32)) = 16 \<and>
   etc2_bc_transcode (Some (replicate 9 1)) (Some (replicate 8 0)) 3 4 ETC2_BC_RGB8 (replicate 16 0) =
     Some (block_of ETC2_BC_RGB8 (replicate 8 0) @ [1])"
proof -
  have s: "etc2_bc_image_size ETC2_BC_RGB8 3 4 = 8" "blocks_across 3 * blocks_across 4 = 1" "block_size ETC2_BC_RGB8 = 8"
    by (simp_all add: etc2_bc_image_size_def blocks_across_def block_size_def ETC2_BC_RGB8_def SIZE_MAX_def)
  show ?thesis using transcode_blockwise [of "replicate 16 0" "replicate 9 1" "replicate 8 0" 3 4 ETC2_BC_RGB8]
    by (simp only: s Let_def) simp
qed

end
