(* ===== verification/Loader.thy ===== *)
theory Loader
  imports Prelude
begin

text \<open>
  The loader of the Android libraries (\<^verbatim>\<open>source/so_util.c\<close>).  The structures of the ELF format are
  records, as the casts of the C code see them; the loaded image is a memory of bytes addressed
  from the start of the image, with 64-bit stores that wrap around as the machine's.
\<close>

section \<open>Image memory\<close>

type_synonym mem = "u64 \<Rightarrow> byte"

definition ld64 :: "u64 \<Rightarrow> mem \<Rightarrow> u64" where
  "ld64 a m = foldl (\<lambda>v i. v OR push_bit (8 * i) (ucast (m (a + of_nat i)))) 0 [0..<8]"

definition st64 :: "u64 \<Rightarrow> u64 \<Rightarrow> mem \<Rightarrow> mem" where
  "st64 a v m = (\<lambda>x. if unat (x - a) < 8 then ucast (drop_bit (8 * unat (x - a)) v) else m x)"

definition add64 :: "u64 \<Rightarrow> u64 \<Rightarrow> mem \<Rightarrow> mem" where
  "add64 a v m = st64 a (ld64 a m + v) m"

definition memcpy :: "u64 \<Rightarrow> byte list \<Rightarrow> mem \<Rightarrow> mem" where
  "memcpy a bs m = (\<lambda>x. if unat (x - a) < length bs then bs ! unat (x - a) else m x)"

section \<open>ELF structures\<close>

record phdr =
  p_type :: nat
  p_flags :: u32
  p_offset :: u64
  p_vaddr :: u64
  p_filesz :: u64
  p_memsz :: u64

record sym =
  st_name :: string
  st_value :: u64
  st_undef :: bool
  st_bind :: nat

record rela =
  r_offset :: u64
  r_type :: nat
  r_sym :: nat
  r_addend :: u64

text \<open>\<open>sh_syms\<close>, \<open>sh_relas\<close> and \<open>sh_ptrs\<close> are the entries of a symbol, relocation or pointer section.\<close>

record shdr =
  sh_name :: string
  sh_addr :: u64
  sh_syms :: "sym list"
  sh_relas :: "rela list"
  sh_num :: nat

record elf =
  e_bytes :: "byte list"
  e_machine :: nat
  e_phdrs :: "phdr list"
  e_shdrs :: "shdr list"
  e_dynamic :: "(nat \<times> u64) list list"

definition PT_LOAD :: nat where "PT_LOAD = 1"
definition PT_NOTE :: nat where "PT_NOTE = 4"
definition PF_X :: u32 where "PF_X = 1"
definition EM_AARCH64 :: nat where "EM_AARCH64 = 183"
definition SO_MAX_SEGMENTS :: nat where "SO_MAX_SEGMENTS = 16"
definition STB_LOCAL :: nat where "STB_LOCAL = 0"
definition STB_WEAK :: nat where "STB_WEAK = 2"
definition R_AARCH64_NONE :: nat where "R_AARCH64_NONE = 0"
definition R_AARCH64_ABS64 :: nat where "R_AARCH64_ABS64 = 257"
definition R_AARCH64_GLOB_DAT :: nat where "R_AARCH64_GLOB_DAT = 1025"
definition R_AARCH64_JUMP_SLOT :: nat where "R_AARCH64_JUMP_SLOT = 1026"
definition R_AARCH64_RELATIVE :: nat where "R_AARCH64_RELATIVE = 1027"
definition ELFMAG :: "byte list" where "ELFMAG = [0x7f, 0x45, 0x4c, 0x46]"

record so_module =
  so_name :: string
  load_virtbase :: u64
  load_size :: u64
  so_phdrs :: "phdr list"
  so_shdrs :: "shdr list"
  so_dynamic :: "(nat \<times> u64) list list"
  so_syms :: "sym list"
  image :: mem

definition align_page :: "u64 \<Rightarrow> u64" where
  "align_page x = (x + 0xfff) AND NOT 0xfff"

section \<open>Loading\<close>

text \<open>The host: the file (\<open>None\<close> when it cannot be opened), memory and the reservation of code memory.\<close>

record load_env =
  the_file :: "elf option"
  malloc_ok :: bool
  read_ok :: bool
  code_memory :: "u64 option"
  reserve_ok :: bool

definition segments_end :: "phdr list \<Rightarrow> u64" where
  "segments_end ps =
     foldl (\<lambda>hi p. if p_type p = PT_LOAD \<and> hi < p_vaddr p + p_memsz p then p_vaddr p + p_memsz p else hi) 0 ps"

fun copy_segments :: "byte list \<Rightarrow> phdr list \<Rightarrow> mem \<Rightarrow> mem option" where
  "copy_segments bs [] m = Some m"
| "copy_segments bs (p # ps) m =
     (if p_type p = PT_LOAD \<and> p_filesz p \<noteq> 0
      then if of_nat (length bs) < p_offset p + p_filesz p then None
           else copy_segments bs ps (memcpy (p_vaddr p) (take (unat (p_filesz p)) (drop (unat (p_offset p)) bs)) m)
      else copy_segments bs ps m)"

text \<open>The symbol table is the last section of its name; the string table must be there too.\<close>

definition find_syms :: "shdr list \<Rightarrow> sym list option" where
  "find_syms shs =
     (if \<exists>s\<in>set shs. sh_name s = ''.dynstr''
      then foldl (\<lambda>r s. if sh_name s = ''.dynsym'' then Some (sh_syms s) else r) None shs else None)"

definition so_load ::
  "load_env \<Rightarrow> string \<Rightarrow> bool \<Rightarrow> u64 \<Rightarrow> mem \<Rightarrow> so_module list \<Rightarrow> (int + so_module) \<times> so_module list" where
  "so_load env name base max_size m0 gs =
     (case the_file env of
        None \<Rightarrow> (Inl (- 1), gs)
      | Some f \<Rightarrow>
          if e_bytes f = [] then (Inl (- 2), gs)
          else if \<not> malloc_ok env then (Inl (- 3), gs)
          else if \<not> read_ok env then (Inl (- 4), gs)
          else if take 4 (e_bytes f) \<noteq> ELFMAG then (Inl (- 5), gs)
          else if e_machine f \<noteq> EM_AARCH64 \<or> SO_MAX_SEGMENTS < length (e_phdrs f) then (Inl (- 6), gs)
          else let size = align_page (segments_end (e_phdrs f))
            in if \<not> base \<or> max_size < size then (Inl (- 7), gs)
               else case code_memory env of
                 None \<Rightarrow> (Inl (- 8), gs)
               | Some vb \<Rightarrow>
                   if \<not> reserve_ok env then (Inl (- 8), gs)
                   else case copy_segments (e_bytes f) (e_phdrs f) (\<lambda>x. if x < size then 0 else m0 x) of
                     None \<Rightarrow> (Inl (- 9), gs)
                   | Some m \<Rightarrow>
                       (case find_syms (e_shdrs f) of
                          None \<Rightarrow> (Inl (- 10), gs)
                        | Some syms \<Rightarrow>
                            let md = \<lparr>so_name = take 95 name, load_virtbase = vb, load_size = size,
                                      so_phdrs = e_phdrs f, so_shdrs = e_shdrs f, so_dynamic = e_dynamic f,
                                      so_syms = syms, image = m\<rparr>
                            in (Inr md, gs @ [md])))"

section \<open>Relocation\<close>

text \<open>The first entry with a tag, over the dynamic segments in order; 0 when there is none.\<close>

fun first_tag :: "nat \<Rightarrow> (nat \<times> u64) list \<Rightarrow> u64 option" where
  "first_tag t [] = None"
| "first_tag t ((k, v) # ds) = (if k = t then Some v else first_tag t ds)"

fun dynamic_tag :: "(nat \<times> u64) list list \<Rightarrow> nat \<Rightarrow> u64" where
  "dynamic_tag [] t = 0"
| "dynamic_tag (d # ds) t = (case first_tag t d of Some v \<Rightarrow> v | None \<Rightarrow> dynamic_tag ds t)"

definition DT_RELR :: nat where "DT_RELR = 36"
definition DT_RELRSZ :: nat where "DT_RELRSZ = 35"
definition DT_ANDROID_RELR :: nat where "DT_ANDROID_RELR = 0x6fffe000"
definition DT_ANDROID_RELRSZ :: nat where "DT_ANDROID_RELRSZ = 0x6fffe001"

fun process_relr :: "u64 \<Rightarrow> u64 list \<Rightarrow> u64 \<Rightarrow> mem \<Rightarrow> mem" where
  "process_relr vb [] w m = m"
| "process_relr vb (e # es) w m =
     (if e AND 1 = 0 then process_relr vb es (e + 8) (add64 e vb m)
      else process_relr vb es (w + 63 * 8)
             (foldl (\<lambda>m b. if bit e b then add64 (w + of_nat ((b - 1) * 8)) vb m else m) m [1..<64]))"

definition rela_section :: "shdr \<Rightarrow> bool" where
  "rela_section s \<longleftrightarrow> sh_name s = ''.rela.dyn'' \<or> sh_name s = ''.rela.plt''"

definition relocate_one :: "u64 \<Rightarrow> sym list \<Rightarrow> rela \<Rightarrow> mem \<Rightarrow> mem option" where
  "relocate_one vb syms r m =
     (let s = syms ! r_sym r in
      if r_type r = R_AARCH64_RELATIVE then Some (st64 (r_offset r) (vb + r_addend r) m)
      else if r_type r = R_AARCH64_ABS64
      then Some (st64 (r_offset r) (if \<not> st_undef s then vb + st_value s + r_addend r else r_addend r) m)
      else if r_type r = R_AARCH64_GLOB_DAT \<or> r_type r = R_AARCH64_JUMP_SLOT
      then Some (if \<not> st_undef s then st64 (r_offset r) (vb + st_value s + r_addend r) m else m)
      else if r_type r \<noteq> R_AARCH64_NONE then None else Some m)"

fun relocate_all :: "u64 \<Rightarrow> sym list \<Rightarrow> rela list \<Rightarrow> mem \<Rightarrow> mem option" where
  "relocate_all vb syms [] m = Some m"
| "relocate_all vb syms (r # rs) m =
     (case relocate_one vb syms r m of None \<Rightarrow> None | Some m' \<Rightarrow> relocate_all vb syms rs m')"

definition all_relas :: "so_module \<Rightarrow> rela list" where
  "all_relas md = concat (map sh_relas (filter rela_section (so_shdrs md)))"

definition relr_table :: "so_module \<Rightarrow> mem \<Rightarrow> u64 list" where
  "relr_table md m =
     (let off0 = dynamic_tag (so_dynamic md) DT_RELR;
          off = (if off0 = 0 then dynamic_tag (so_dynamic md) DT_ANDROID_RELR else off0);
          sz = (if off0 = 0 then dynamic_tag (so_dynamic md) DT_ANDROID_RELRSZ else dynamic_tag (so_dynamic md) DT_RELRSZ)
      in if off \<noteq> 0 \<and> sz \<noteq> 0 then map (\<lambda>i. ld64 (off + of_nat (8 * i)) m) [0..<unat sz div 8] else [])"

text \<open>\<open>None\<close> is the result -1, for a relocation of an unknown type.\<close>

definition so_relocate :: "so_module \<Rightarrow> so_module option" where
  "so_relocate md =
     (case relocate_all (load_virtbase md) (so_syms md) (all_relas md) (image md) of
        None \<Rightarrow> None
      | Some m \<Rightarrow> Some (md\<lparr>image := process_relr (load_virtbase md) (relr_table md m) 0 m\<rparr>))"

section \<open>Symbols\<close>

definition exported :: "string \<Rightarrow> sym \<Rightarrow> bool" where
  "exported name s \<longleftrightarrow> \<not> st_undef s \<and> st_bind s \<noteq> STB_LOCAL \<and> st_name s = name"

fun find_export :: "string \<Rightarrow> sym list \<Rightarrow> sym option" where
  "find_export name [] = None"
| "find_export name (s # ss) = (if exported name s then Some s else find_export name ss)"

definition lookup_export :: "so_module \<Rightarrow> string \<Rightarrow> u64" where
  "lookup_export md name =
     (case find_export name (so_syms md) of None \<Rightarrow> 0 | Some s \<Rightarrow> load_virtbase md + st_value s)"

fun first_nonzero :: "u64 list \<Rightarrow> u64" where
  "first_nonzero [] = 0"
| "first_nonzero (a # as) = (if a \<noteq> 0 then a else first_nonzero as)"

definition so_resolve_external :: "so_module list \<Rightarrow> string \<Rightarrow> u64" where
  "so_resolve_external gs name = first_nonzero (map (\<lambda>g. lookup_export g name) gs)"

definition strstr :: "string \<Rightarrow> string \<Rightarrow> bool" where
  "strstr s needle \<longleftrightarrow> find_sub s needle \<noteq> None"

fun so_find_named :: "so_module list \<Rightarrow> string \<Rightarrow> so_module option" where
  "so_find_named [] needle = None"
| "so_find_named (g # gs) needle = (if strstr (so_name g) needle then Some g else so_find_named gs needle)"

fun table_lookup :: "string \<Rightarrow> (string \<times> u64) list \<Rightarrow> u64 option" where
  "table_lookup name [] = None"
| "table_lookup name ((k, v) # fs) = (if name = k then Some v else table_lookup name fs)"

text \<open>The import table first, then the other modules, then the extra lookup (\<open>extra name\<close>, 0 for none).\<close>

definition resolve_one :: "so_module list \<Rightarrow> (string \<times> u64) list \<Rightarrow> (string \<Rightarrow> u64) \<Rightarrow> string \<Rightarrow> u64" where
  "resolve_one others funcs extra name =
     (case table_lookup name funcs of
        Some a \<Rightarrow> a
      | None \<Rightarrow> first_nonzero (map (\<lambda>g. lookup_export g name) others @ [extra name]))"

definition wants_symbol :: "sym list \<Rightarrow> rela \<Rightarrow> bool" where
  "wants_symbol syms r \<longleftrightarrow>
     (r_type r = R_AARCH64_ABS64 \<or> r_type r = R_AARCH64_GLOB_DAT \<or> r_type r = R_AARCH64_JUMP_SLOT) \<and>
     st_undef (syms ! r_sym r)"

definition resolve_step ::
  "(string \<Rightarrow> u64) \<Rightarrow> u64 \<Rightarrow> sym list \<Rightarrow> nat \<times> mem \<Rightarrow> rela \<Rightarrow> nat \<times> mem" where
  "resolve_step lookup fallback syms st r =
     (case st of (missing, m) \<Rightarrow>
        if \<not> wants_symbol syms r then (missing, m)
        else let s = syms ! r_sym r; a = lookup (st_name s)
             in if a \<noteq> 0 then (missing, st64 (r_offset r) (a + r_addend r) m)
                else if st_bind s = STB_WEAK then (missing, st64 (r_offset r) (r_addend r) m)
                else (missing + 1, st64 (r_offset r) (fallback + r_addend r) m))"

definition so_resolve ::
  "so_module list \<Rightarrow> (string \<times> u64) list \<Rightarrow> u64 \<Rightarrow> (string \<Rightarrow> u64) \<Rightarrow> so_module \<Rightarrow> nat \<times> so_module" where
  "so_resolve others funcs fallback extra md =
     (case foldl (resolve_step (resolve_one others funcs extra) fallback (so_syms md)) (0, image md) (all_relas md) of
        (missing, m) \<Rightarrow> (missing, md\<lparr>image := m\<rparr>))"

section \<open>Finalising\<close>

text \<open>The pages of executable segments.\<close>

definition exec_pages :: "phdr list \<Rightarrow> nat \<Rightarrow> bool list" where
  "exec_pages ps pages =
     foldl (\<lambda>x p. if p_type p = PT_LOAD \<and> p_flags p AND PF_X \<noteq> 0
                  then let a = unat (p_vaddr p) div 0x1000; b = unat (align_page (p_vaddr p + p_memsz p)) div 0x1000
                       in map (\<lambda>i. if a \<le> i \<and> i < b then True else x ! i) [0..<pages]
                  else x)
       (replicate pages False) ps"

function run_end :: "bool list \<Rightarrow> bool \<Rightarrow> nat \<Rightarrow> nat" where
  "run_end x want e = (if e < length x \<and> x ! e = want then run_end x want (e + 1) else e)"
  by pat_completeness auto
termination by (relation "measure (\<lambda>(x, want, e). length x - e)") auto

declare run_end.simps [simp del]

lemma run_end_ge: "e \<le> run_end x want e"
proof (induction x want e rule: run_end.induct)
  case (1 x want e)
  then show ?case by (subst run_end.simps) (auto intro: Suc_leD)
qed

text \<open>The calls that set the permission of runs of pages, as first page, number of pages and permission.\<close>

function set_runs :: "bool list \<Rightarrow> bool \<Rightarrow> nat \<Rightarrow> (nat \<times> nat \<times> bool) list" where
  "set_runs x want p =
     (if p < length x
      then if x ! p \<noteq> want then set_runs x want (p + 1)
           else let e = run_end x want (p + 1) in (p, e - p, want) # set_runs x want e
      else [])"
  by pat_completeness auto
termination
proof (relation "measure (\<lambda>(x, want, p). length x - p)")
  fix x :: "bool list" and want p e
  assume "p < length x" "e = run_end x want (p + 1)"
  then show "((x, want, e), x, want, p) \<in> measure (\<lambda>(x, want, p). length x - p)"
    using run_end_ge [of "p + 1" x want] by simp
qed auto

declare set_runs.simps [simp del]

definition permission_calls :: "bool list \<Rightarrow> (nat \<times> nat \<times> bool) list" where
  "permission_calls x = set_runs x True 0 @ set_runs x False 0"

text \<open>\<open>None\<close> is the fatal error of a failing call; the runs are given as pages of the code memory.\<close>

definition so_finalize ::
  "bool \<Rightarrow> bool \<Rightarrow> (nat \<Rightarrow> nat \<Rightarrow> bool \<Rightarrow> bool) \<Rightarrow> so_module \<Rightarrow> (nat \<times> nat \<times> bool) list option" where
  "so_finalize map_ok alloc_ok perm_ok md =
     (if \<not> map_ok \<or> \<not> alloc_ok then None
      else let calls = permission_calls (exec_pages (so_phdrs md) (unat (load_size md) div 0x1000))
           in if \<forall>c\<in>set calls. perm_ok (fst c) (fst (snd c)) (snd (snd c)) then Some calls else None)"

text \<open>The initialisers, in the order they are called; they are read from the code memory.\<close>

definition so_execute_init_array :: "so_module \<Rightarrow> u64 list" where
  "so_execute_init_array md =
     concat (map (\<lambda>s. filter (\<lambda>a. a \<noteq> 0) (map (\<lambda>j. ld64 (sh_addr s + of_nat (8 * j)) (image md)) [0..<sh_num s]))
       (filter (\<lambda>s. sh_name s = ''.init_array'') (so_shdrs md)))"

text \<open>The walk over the modules stops at the first callback result that is not zero.\<close>

fun so_dl_iterate_phdr :: "(u64 \<times> string \<times> phdr list \<Rightarrow> 's \<Rightarrow> int \<times> 's) \<Rightarrow> so_module list \<Rightarrow> 's \<Rightarrow> int \<times> 's" where
  "so_dl_iterate_phdr cb [] s = (0, s)"
| "so_dl_iterate_phdr cb (g # gs) s =
     (case cb (load_virtbase g, so_name g, so_phdrs g) s of
        (r, s') \<Rightarrow> if r \<noteq> 0 then (r, s') else so_dl_iterate_phdr cb gs s')"

section \<open>Reading and patching code\<close>

definition so_read_word :: "so_module option \<Rightarrow> u64 \<Rightarrow> u32" where
  "so_read_word mo off =
     (case mo of
        None \<Rightarrow> 0
      | Some md \<Rightarrow> if load_virtbase md = 0 \<or> load_size md < off + 4 then 0
                   else foldl (\<lambda>v i. v OR push_bit (8 * i) (ucast (image md (off + of_nat i)))) 0 [0..<4])"

text \<open>\<open>alias\<close>: whether address space for the second mapping was found; \<open>mapped\<close>: whether it was mapped.\<close>

definition so_patch_code :: "bool \<Rightarrow> bool \<Rightarrow> so_module option \<Rightarrow> u64 \<Rightarrow> byte list option \<Rightarrow> int \<times> so_module option" where
  "so_patch_code alias mapped mo off bs =
     (case (mo, bs) of
        (Some md, Some d) \<Rightarrow>
          if load_virtbase md = 0 \<or> d = [] \<or> load_size md < off + of_nat (length d) then (- 1, mo)
          else if \<not> alias then (- 2, mo)
          else if \<not> mapped then (- 3, mo)
          else (0, Some (md\<lparr>image := memcpy off d (image md)\<rparr>))
      | _ \<Rightarrow> (- 1, mo))"

section \<open>Build identifiers\<close>

definition align4 :: "nat \<Rightarrow> nat" where
  "align4 n = 4 * ((n + 3) div 4)"

definition hexdigit :: "nat \<Rightarrow> char" where
  "hexdigit n = ''0123456789abcdef'' ! n"

definition hex_of :: "byte list \<Rightarrow> string" where
  "hex_of bs = concat (map (\<lambda>b. [hexdigit (unat (drop_bit 4 b)), hexdigit (unat (b AND 15))]) bs)"

definition word32_at :: "nat \<Rightarrow> byte list \<Rightarrow> nat" where
  "word32_at i bs = unat (bs ! i) + 256 * unat (bs ! (i + 1)) + 65536 * unat (bs ! (i + 2)) + 16777216 * unat (bs ! (i + 3))"

text \<open>The notes of one segment, given as the bytes from \<^verbatim>\<open>p\<close> to \<^verbatim>\<open>end\<close>; \<open>None\<close> when no identifier was met.\<close>

function note_build_id :: "byte list \<Rightarrow> string option" where
  "note_build_id bs =
     (if length bs < 12 then None
      else let n_namesz = word32_at 0 bs; n_descsz = word32_at 4 bs; n_type = word32_at 8 bs;
               namesz = align4 n_namesz; descsz = align4 n_descsz; p = drop 12 bs
           in if length p < namesz \<or> length p - namesz < descsz then None
              else if n_type = 3 \<and> 3 \<le> n_namesz \<and> take 3 p = [0x47, 0x4e, 0x55]
              then Some (hex_of (take (min n_descsz 64) (drop namesz p)))
              else note_build_id (drop (namesz + descsz) p))"
  by pat_completeness auto
termination by (relation "measure length") auto

declare note_build_id.simps [simp del]

fun build_id_in :: "byte list \<Rightarrow> phdr list \<Rightarrow> string option" where
  "build_id_in file [] = None"
| "build_id_in file (ph # phs) =
     (if p_type ph \<noteq> PT_NOTE \<or> of_nat (length file) < p_offset ph + p_filesz ph then build_id_in file phs
      else case note_build_id (take (unat (p_filesz ph)) (drop (unat (p_offset ph)) file)) of
             Some i \<Rightarrow> Some i
           | None \<Rightarrow> build_id_in file phs)"

definition so_check_build_id :: "elf option \<Rightarrow> string option \<Rightarrow> bool" where
  "so_check_build_id file expected =
     (case (file, expected) of
        (Some f, Some x) \<Rightarrow> x \<noteq> [] \<and> build_id_in (e_bytes f) (e_phdrs f) = Some x
      | _ \<Rightarrow> False)"

end
