(* ===== verification/LoaderProps.thy ===== *)
theory LoaderProps
  imports Loader
begin

text \<open>The properties of the loader: image contents, relocations, symbol resolution, page permissions.\<close>

section \<open>Memory\<close>

definition apart :: "u64 \<Rightarrow> u64 \<Rightarrow> bool" where
  "apart a b \<longleftrightarrow> 8 \<le> unat (a - b) \<and> 8 \<le> unat (b - a)"

lemma len64: "LENGTH(64) = 64" by simp

lemma apart_sym: "apart a b \<longleftrightarrow> apart b a"
  by (auto simp: apart_def)

lemma ld64_st64: "ld64 a (st64 a v m) = v"
proof (rule bit_word_eqI)
  fix n assume n: "n < LENGTH(64)"
  then have "n div 8 < 8" by simp
  then have "unat (of_nat (n div 8) :: u64) = n div 8" by (simp add: unsigned_of_nat take_bit_nat_eq_self_iff)
  with n show "bit (ld64 a (st64 a v m)) n \<longleftrightarrow> bit v n"
    by (auto simp: ld64_def bytes_bit st64_def bit_simps)
qed

lemma unat_diff_sum:
  fixes a b :: u64
  assumes "b - a \<noteq> 0"
  shows "unat (b - a) + unat (a - b) = 2 ^ 64"
proof (rule ccontr)
  assume ne: "unat (b - a) + unat (a - b) \<noteq> 2 ^ 64"
  have "(unat (b - a) + unat (a - b)) mod 2 ^ 64 = unat ((b - a) + (a - b))" by (simp only: unat_word_ariths len64)
  then have z: "(unat (b - a) + unat (a - b)) mod 2 ^ 64 = 0" by simp
  have b: "unat (b - a) < 2 ^ 64" "unat (a - b) < 2 ^ 64"
    using unsigned_less [of "b - a"] unsigned_less [of "a - b"] by (simp_all only: len64)
  have "unat (b - a) \<noteq> 0" using assms by (simp add: unat_eq_0)
  with ne z b show False by (simp add: mod_if split: if_splits)
qed

lemma st64_other:
  assumes "apart a b" and "i < 8"
  shows "st64 a v m (b + of_nat i) = m (b + of_nat i)"
proof -
  have "\<not> unat (b + of_nat i - a) < 8"
  proof
    assume l: "unat (b + of_nat i - a) < 8"
    have i: "unat (of_nat i :: u64) = i" using assms(2) by (simp add: unsigned_of_nat take_bit_nat_eq_self_iff)
    have e: "b + of_nat i - a = (b - a) + of_nat i" by simp
    show False
    proof (cases "unat (b - a) + i < 2 ^ 64")
      case True
      then have "unat (b + of_nat i - a) = unat (b - a) + i" unfolding e
        using i by (simp add: unat_word_ariths)
      with l assms(1) show False by (simp add: apart_def)
    next
      case False
      have "b - a \<noteq> 0" using assms(1) by (auto simp: apart_def)
      from unat_diff_sum [OF this] have "unat (b - a) + unat (a - b) = 2 ^ 64" .
      then have "unat (a - b) \<le> i" using False by linarith
      with assms show False by (simp add: apart_def)
    qed
  qed
  then show ?thesis by (simp add: st64_def)
qed

lemma ld64_st64_apart: "apart a b \<Longrightarrow> ld64 b (st64 a v m) = ld64 b m"
  unfolding ld64_def by (rule bit_word_eqI) (simp only: bytes_bit st64_other less_mult_imp_div_less cong: conj_cong)

section \<open>Loading\<close>

text \<open>Well-formed segments: they fit the address space with room for rounding, and do not overlap.\<close>

definition is_load :: "phdr \<Rightarrow> bool" where
  "is_load p \<longleftrightarrow> p_type p = PT_LOAD"

definition seg_end :: "phdr \<Rightarrow> nat" where
  "seg_end p = unat (p_vaddr p) + unat (p_memsz p)"

definition seg_ok :: "nat \<Rightarrow> phdr \<Rightarrow> bool" where
  "seg_ok n p \<longleftrightarrow> p_filesz p \<le> p_memsz p \<and> seg_end p \<le> 2 ^ 64 - 4096 \<and>
     unat (p_offset p) + unat (p_filesz p) < 2 ^ 64 \<and> n < 2 ^ 64"

definition seg_disjoint :: "phdr \<Rightarrow> phdr \<Rightarrow> bool" where
  "seg_disjoint p q \<longleftrightarrow> seg_end p \<le> unat (p_vaddr q) \<or> seg_end q \<le> unat (p_vaddr p)"

lemma u64_bound: "unat (x :: u64) < 2 ^ 64"
  using unsigned_less [of x] by (simp only: len64)

lemma outside_range:
  fixes x a :: u64
  assumes "unat x < unat a \<or> unat a + n \<le> unat x" and "unat a + n \<le> 2 ^ 64"
  shows "\<not> unat (x - a) < n"
proof (cases "a \<le> x")
  case True
  then have "unat (x - a) = unat x - unat a" by (rule unat_sub)
  with assms True show ?thesis by (auto simp: word_le_nat_alt)
next
  case False
  have "(unat (x - a) + unat a) mod 2 ^ 64 = unat ((x - a) + a)" by (simp only: unat_word_ariths len64)
  then have s: "(unat (x - a) + unat a) mod 2 ^ 64 = unat x" by simp
  from False have "unat x < unat a" by (simp add: word_le_nat_alt)
  then have "unat (x - a) + unat a = unat x + 2 ^ 64"
    using s u64_bound [of "x - a"] u64_bound [of a] by (auto simp: mod_if split: if_splits)
  with assms show ?thesis using u64_bound [of x] by linarith
qed

lemma unat_plus_small:
  fixes a :: u64
  assumes "unat a + k < 2 ^ 64"
  shows "unat (a + of_nat k) = unat a + k" "unat ((a + of_nat k) - a) = k"
proof -
  have k: "unat (of_nat k :: u64) = k" using assms by (simp add: unsigned_of_nat take_bit_nat_eq_self_iff)
  then show "unat (a + of_nat k) = unat a + k" using assms by (simp add: unat_word_ariths)
  show "unat ((a + of_nat k) - a) = k" using k by simp
qed

lemma seg_length:
  assumes "seg_ok (length bs) p" and "\<not> of_nat (length bs) < p_offset p + p_filesz p"
  shows "length (take (unat (p_filesz p)) (drop (unat (p_offset p)) bs)) = unat (p_filesz p)"
proof -
  have "unat (p_offset p + p_filesz p) = unat (p_offset p) + unat (p_filesz p)"
    using assms(1) by (simp add: seg_ok_def unat_word_ariths)
  moreover have "unat (of_nat (length bs) :: u64) = length bs"
    using assms(1) by (simp add: seg_ok_def unsigned_of_nat take_bit_nat_eq_self_iff)
  ultimately have "unat (p_offset p) + unat (p_filesz p) \<le> length bs"
    using assms(2) by (simp add: word_less_nat_alt)
  then show ?thesis by simp
qed

lemma copy_outside:
  assumes "copy_segments bs ps m = Some m'" and "\<forall>p\<in>set ps. is_load p \<longrightarrow> seg_ok (length bs) p"
    and "\<forall>p\<in>set ps. is_load p \<longrightarrow> unat x < unat (p_vaddr p) \<or> unat (p_vaddr p) + unat (p_filesz p) \<le> unat x"
  shows "m' x = m x"
  using assms
proof (induction bs ps m rule: copy_segments.induct)
  case (2 bs p ps m)
  show ?case
  proof (cases "p_type p = PT_LOAD \<and> p_filesz p \<noteq> 0")
    case True
    then have nf: "\<not> of_nat (length bs) < p_offset p + p_filesz p"
      and c: "copy_segments bs ps (memcpy (p_vaddr p) (take (unat (p_filesz p)) (drop (unat (p_offset p)) bs)) m) = Some m'"
      using "2.prems"(1) by (auto split: if_splits)
    have ok: "seg_ok (length bs) p" and out: "unat x < unat (p_vaddr p) \<or> unat (p_vaddr p) + unat (p_filesz p) \<le> unat x"
      using "2.prems"(2,3) True by (auto simp: is_load_def)
    have "unat (p_vaddr p) + unat (p_filesz p) \<le> 2 ^ 64"
      using ok by (simp add: seg_ok_def seg_end_def word_le_nat_alt)
    from outside_range [OF out this]
    have "memcpy (p_vaddr p) (take (unat (p_filesz p)) (drop (unat (p_offset p)) bs)) m x = m x"
      by (simp add: memcpy_def seg_length [OF ok nf] del: length_take length_drop)
    with "2.IH"(1) [OF True nf c] "2.prems"(2,3) show ?thesis by simp
  next
    case False
    then have "copy_segments bs ps m = Some m'" using "2.prems"(1) by auto
    then show ?thesis using "2.IH"(2) [OF False] "2.prems"(2,3) by simp
  qed
qed simp

lemma copy_inside:
  assumes "copy_segments bs ps m = Some m'" and "\<forall>p\<in>set ps. is_load p \<longrightarrow> seg_ok (length bs) p"
    and "sorted_wrt seg_disjoint (filter is_load ps)" and "p \<in> set ps" and "is_load p" and "k < unat (p_memsz p)"
  shows "m' (p_vaddr p + of_nat k) =
    (if k < unat (p_filesz p) then bs ! (unat (p_offset p) + k) else m (p_vaddr p + of_nat k))"
  using assms
proof (induction bs ps m rule: copy_segments.induct)
  case (2 bs q ps m)
  let ?x = "p_vaddr p + of_nat k"
  let ?mq = "memcpy (p_vaddr q) (take (unat (p_filesz q)) (drop (unat (p_offset q)) bs)) m"
  have okp: "seg_ok (length bs) p" using "2.prems" by auto
  then have x: "unat ?x = unat (p_vaddr p) + k" "unat (?x - p_vaddr p) = k"
    using unat_plus_small [of "p_vaddr p" k] "2.prems"(6) by (auto simp: seg_ok_def seg_end_def)
  show ?case
  proof (cases "p_type q = PT_LOAD \<and> p_filesz q \<noteq> 0")
    case True
    then have nf: "\<not> of_nat (length bs) < p_offset q + p_filesz q" and c: "copy_segments bs ps ?mq = Some m'"
      using "2.prems"(1) by (auto split: if_splits)
    have okq: "seg_ok (length bs) q" and lq: "is_load q" using "2.prems"(2) True by (auto simp: is_load_def)
    have len: "length (take (unat (p_filesz q)) (drop (unat (p_offset q)) bs)) = unat (p_filesz q)"
      by (rule seg_length [OF okq nf])
    show ?thesis
    proof (cases "p = q")
      case pq: True
      have out: "\<forall>r\<in>set ps. is_load r \<longrightarrow> unat ?x < unat (p_vaddr r) \<or> unat (p_vaddr r) + unat (p_filesz r) \<le> unat ?x"
      proof (intro ballI impI)
        fix r assume r: "r \<in> set ps" "is_load r"
        then have d: "seg_disjoint q r" and okr: "seg_ok (length bs) r" using "2.prems"(2,3) lq by auto
        show "unat ?x < unat (p_vaddr r) \<or> unat (p_vaddr r) + unat (p_filesz r) \<le> unat ?x"
          using d okr x "2.prems"(6) pq by (auto simp: seg_disjoint_def seg_end_def seg_ok_def word_le_nat_alt)
      qed
      have "\<forall>p\<in>set ps. is_load p \<longrightarrow> seg_ok (length bs) p" using "2.prems"(2) by simp
      from copy_outside [OF c this out] have "m' ?x = ?mq ?x" .
      also have "\<dots> = (if k < unat (p_filesz p) then bs ! (unat (p_offset p) + k) else m ?x)"
        unfolding memcpy_def len x(2) [unfolded pq] pq
        using len by (auto simp: pq x(2) [unfolded pq])
      finally show ?thesis .
    next
      case False
      then have pin: "p \<in> set ps" using "2.prems"(4) by simp
      then have d: "seg_disjoint q p" using "2.prems"(3,5) lq by simp
      have "unat ?x < unat (p_vaddr q) \<or> unat (p_vaddr q) + unat (p_filesz q) \<le> unat ?x"
        using d okq x "2.prems"(6) by (auto simp: seg_disjoint_def seg_end_def seg_ok_def word_le_nat_alt)
      moreover have "unat (p_vaddr q) + unat (p_filesz q) \<le> 2 ^ 64"
        using okq by (simp add: seg_ok_def seg_end_def word_le_nat_alt)
      ultimately have "?mq ?x = m ?x" using outside_range by (simp only: memcpy_def len if_False)
      with "2.IH"(1) [OF True nf c] "2.prems" pin lq show ?thesis by simp
    qed
  next
    case False
    then have c: "copy_segments bs ps m = Some m'" using "2.prems"(1) by auto
    have s: "sorted_wrt seg_disjoint (filter is_load ps)" using "2.prems"(3) by (auto split: if_splits)
    show ?thesis
    proof (cases "p \<in> set ps")
      case True
      with "2.IH"(2) [OF False c] "2.prems" s show ?thesis by simp
    next
      case pq: False
      then have "p = q" "p_filesz p = 0" using "2.prems"(4,5) False by (auto simp: is_load_def)
      have "unat ?x < unat (p_vaddr r) \<or> unat (p_vaddr r) + unat (p_filesz r) \<le> unat ?x" if "r \<in> set ps" "is_load r" for r
      proof -
        have "seg_disjoint q r" "seg_ok (length bs) r" using that "2.prems"(2,3,5) \<open>p = q\<close> by auto
        then show ?thesis using x "2.prems"(6) \<open>p = q\<close>
          by (auto simp: seg_disjoint_def seg_end_def seg_ok_def word_le_nat_alt)
      qed
      with copy_outside [OF c] "2.prems"(2) have "m' ?x = m ?x" by simp
      with \<open>p_filesz p = 0\<close> show ?thesis by simp
    qed
  qed
qed simp

lemma segments_end_fold:
  assumes "\<forall>p\<in>set ps. is_load p \<longrightarrow> seg_end p \<le> 2 ^ 64 - 4096" and "unat h \<le> 2 ^ 64 - 4096"
  shows "let e = foldl (\<lambda>hi p. if p_type p = PT_LOAD \<and> hi < p_vaddr p + p_memsz p then p_vaddr p + p_memsz p else hi) h ps
    in unat e \<le> 2 ^ 64 - 4096 \<and> unat h \<le> unat e \<and> (\<forall>p\<in>set ps. is_load p \<longrightarrow> seg_end p \<le> unat e)"
  using assms
proof (induction ps arbitrary: h)
  case (Cons p ps)
  let ?h = "if p_type p = PT_LOAD \<and> h < p_vaddr p + p_memsz p then p_vaddr p + p_memsz p else h"
  have e: "is_load p \<Longrightarrow> unat (p_vaddr p + p_memsz p) = seg_end p"
    using Cons.prems(1) by (auto simp: seg_end_def unat_word_ariths)
  then have h: "unat ?h \<le> 2 ^ 64 - 4096" "unat h \<le> unat ?h" "is_load p \<longrightarrow> seg_end p \<le> unat ?h"
    using Cons.prems by (auto simp: is_load_def word_less_nat_alt)
  show ?case using Cons.IH [of ?h] h Cons.prems(1) by (auto simp: Let_def)
qed simp

lemma align_page_spec:
  assumes "unat x \<le> 2 ^ 64 - 4096"
  shows "unat x \<le> unat (align_page x)" and "align_page x AND 0xfff = 0" and "unat (align_page x) < unat x + 4096"
proof -
  have u: "unat (x + 0xfff) = unat x + 4095" using assms by (simp add: unat_word_ariths)
  have e: "align_page x = (x + 0xfff) - ((x + 0xfff) AND 0xfff)"
  proof -
    have "(x + 0xfff) = ((x + 0xfff) AND NOT 0xfff) + ((x + 0xfff) AND 0xfff)"
      by (subst disjunctive_add) (auto simp: bit_simps intro!: bit_word_eqI)
    then show ?thesis by (simp add: align_page_def algebra_simps)
  qed
  have "unat ((x + 0xfff) AND 0xfff) \<le> 4095" using word_and_le1 [of "x + 0xfff" "0xfff"] by (simp add: word_le_nat_alt word_and_le2)
  moreover have "(x + 0xfff) AND 0xfff \<le> x + 0xfff" by (rule word_and_le2)
  ultimately have "unat (align_page x) = unat x + 4095 - unat ((x + 0xfff) AND 0xfff)"
    unfolding e using u by (simp add: unat_sub)
  then show "unat x \<le> unat (align_page x)" "unat (align_page x) < unat x + 4096"
    using \<open>unat ((x + 0xfff) AND 0xfff) \<le> 4095\<close> by linarith+
  show "align_page x AND 0xfff = 0" by (simp add: align_page_def and.assoc)
qed


definition demo_elf :: elf where
  "demo_elf = \<lparr>e_bytes = ELFMAG @ [1, 2, 3], e_machine = EM_AARCH64,
     e_phdrs = [\<lparr>p_type = PT_LOAD, p_flags = 5, p_offset = 4, p_vaddr = 0x10, p_filesz = 3, p_memsz = 5\<rparr>],
     e_shdrs = [\<lparr>sh_name = ''.dynstr'', sh_addr = 0, sh_syms = [], sh_relas = [], sh_num = 0\<rparr>,
                \<lparr>sh_name = ''.dynsym'', sh_addr = 0, sh_syms = [], sh_relas = [], sh_num = 0\<rparr>],
     e_dynamic = []\<rparr>"


section \<open>Page permissions\<close>

definition covers :: "nat \<Rightarrow> nat \<times> nat \<times> bool \<Rightarrow> bool" where
  "covers q c \<longleftrightarrow> fst c \<le> q \<and> q < fst c + fst (snd c)"

lemma run_end_all:
  assumes "e \<le> length x"
  shows "run_end x want e \<le> length x \<and> (\<forall>i. e \<le> i \<and> i < run_end x want e \<longrightarrow> x ! i = want)"
  using assms
proof (induction x want e rule: run_end.induct)
  case (1 x want e)
  show ?case
  proof (cases "e < length x \<and> x ! e = want")
    case True
    then have r: "run_end x want e = run_end x want (e + 1)" by (subst run_end.simps) simp
    have "run_end x want (e + 1) \<le> length x \<and> (\<forall>i. e + 1 \<le> i \<and> i < run_end x want (e + 1) \<longrightarrow> x ! i = want)"
      by (rule "1.IH" [OF True]) (use True in simp)
    then show ?thesis using True unfolding r by (metis Suc_eq_plus1 Suc_leI le_neq_implies_less)
  next
    case False
    then have "run_end x want e = e" by (subst run_end.simps) auto
    with "1.prems" show ?thesis by auto
  qed
qed

lemma set_runs_cover:
  "\<exists>s n. filter (covers q) (set_runs x want p) =
    (if p \<le> q \<and> q < length x \<and> x ! q = want then [(s, n, want)] else [])"
proof (induction x want p rule: set_runs.induct)
  case (1 x want p)
  show ?case
  proof (cases "p < length x")
    case False
    then have "set_runs x want p = []" by (subst set_runs.simps) simp
    with False show ?thesis by auto
  next
    case lt: True
    show ?thesis
    proof (cases "x ! p = want")
      case False
      then have "set_runs x want p = set_runs x want (p + 1)" using lt by (subst set_runs.simps) simp
      with "1.IH"(1) [OF lt] False show ?thesis by (auto simp: Suc_le_eq le_less)
    next
      case True
      define e where "e = run_end x want (p + 1)"
      have s: "set_runs x want p = (p, e - p, want) # set_runs x want e"
        using lt True by (subst set_runs.simps) (simp add: e_def Let_def)
      have e: "p < e" "e \<le> length x" and all: "\<And>i. p \<le> i \<Longrightarrow> i < e \<Longrightarrow> x ! i = want"
      proof -
        have r: "e \<le> length x \<and> (\<forall>i. p + 1 \<le> i \<and> i < e \<longrightarrow> x ! i = want)"
          unfolding e_def by (rule run_end_all) (use lt in simp)
        then show "e \<le> length x" by blast
        show "p < e" using run_end_ge [of "p + 1" x want] by (simp add: e_def)
        show "x ! i = want" if "p \<le> i" "i < e" for i
          using r True that by (cases "i = p") simp_all
      qed
      from "1.IH"(2) [OF lt _ e_def] True obtain s' n' where IH: "filter (covers q) (set_runs x want e) =
          (if e \<le> q \<and> q < length x \<and> x ! q = want then [(s', n', want)] else [])" by auto
      have cov: "covers q (p, e - p, want) \<longleftrightarrow> p \<le> q \<and> q < e" using e by (auto simp: covers_def)
      show ?thesis
      proof (cases "p \<le> q \<and> q < e")
        case True
        then have "x ! q = want" "q < length x" using all e by auto
        with True IH cov show ?thesis by (simp add: s)
      next
        case False
        with IH cov e show ?thesis by (auto simp: s)
      qed
    qed
  qed
qed

text \<open>The segment that makes a page executable.\<close>

definition exec_segment :: "phdr \<Rightarrow> nat \<Rightarrow> bool" where
  "exec_segment p q \<longleftrightarrow> p_type p = PT_LOAD \<and> p_flags p AND PF_X \<noteq> 0 \<and> unat (p_vaddr p) div 0x1000 \<le> q \<and>
     q < unat (align_page (p_vaddr p + p_memsz p)) div 0x1000"

lemma exec_pages_fold:
  assumes "length x0 = pages" and "q < pages"
  shows "(foldl (\<lambda>x p. if p_type p = PT_LOAD \<and> p_flags p AND PF_X \<noteq> 0
      then let a = unat (p_vaddr p) div 0x1000; b = unat (align_page (p_vaddr p + p_memsz p)) div 0x1000
           in map (\<lambda>i. if a \<le> i \<and> i < b then True else x ! i) [0..<pages] else x) x0 ps) ! q
    \<longleftrightarrow> x0 ! q \<or> (\<exists>p\<in>set ps. exec_segment p q)"
  using assms(1)
proof (induction ps arbitrary: x0)
  case (Cons p ps)
  let ?x1 = "if p_type p = PT_LOAD \<and> p_flags p AND PF_X \<noteq> 0
      then let a = unat (p_vaddr p) div 0x1000; b = unat (align_page (p_vaddr p + p_memsz p)) div 0x1000
           in map (\<lambda>i. if a \<le> i \<and> i < b then True else x0 ! i) [0..<pages] else x0"
  have "length ?x1 = pages" using Cons.prems by (simp add: Let_def)
  moreover have "?x1 ! q \<longleftrightarrow> x0 ! q \<or> exec_segment p q"
    using assms(2) by (auto simp: exec_segment_def Let_def)
  ultimately show ?case using Cons.IH [of ?x1] by auto
qed simp

lemma length_exec_pages: "length (exec_pages ps pages) = pages"
proof -
  have "length (foldl (\<lambda>x p. if p_type p = PT_LOAD \<and> p_flags p AND PF_X \<noteq> 0
      then let a = unat (p_vaddr p) div 0x1000; b = unat (align_page (p_vaddr p + p_memsz p)) div 0x1000
           in map (\<lambda>i. if a \<le> i \<and> i < b then True else x ! i) [0..<pages] else x) x0 ps) = pages"
    if "length x0 = pages" for x0 using that by (induction ps arbitrary: x0) (auto simp: Let_def)
  then show ?thesis by (simp add: exec_pages_def)
qed

text \<open>
  C30.  When a module is finalised, the permission of every page of its image is set exactly once:
  to read and execute if an executable segment touches the page, to read and write otherwise.
  So no page is ever left without a permission, set twice, or writable and executable.
\<close>

theorem finalize_pages_once:
  assumes "so_finalize map_ok alloc_ok perm_ok md = Some calls" and "q < unat (load_size md) div 0x1000"
  shows "\<exists>s n. filter (covers q) calls = [(s, n, \<exists>p\<in>set (so_phdrs md). exec_segment p q)]"
proof -
  let ?x = "exec_pages (so_phdrs md) (unat (load_size md) div 0x1000)"
  have c: "calls = permission_calls ?x" using assms(1) by (auto simp: so_finalize_def Let_def split: if_splits)
  have q: "q < length ?x" using assms(2) by (simp add: length_exec_pages)
  have x: "?x ! q \<longleftrightarrow> (\<exists>p\<in>set (so_phdrs md). exec_segment p q)"
    unfolding exec_pages_def by (subst exec_pages_fold) (use assms(2) in simp_all)
  obtain s n where t: "filter (covers q) (set_runs ?x True 0) = (if ?x ! q then [(s, n, True)] else [])"
    using set_runs_cover [of q ?x True 0] q by auto
  obtain s' n' where f: "filter (covers q) (set_runs ?x False 0) = (if \<not> ?x ! q then [(s', n', False)] else [])"
    using set_runs_cover [of q ?x False 0] q by auto
  show ?thesis
  proof (cases "?x ! q")
    case True
    then show ?thesis using t f x by (auto simp: c permission_calls_def)
  next
    case False
    then show ?thesis using t f x by (auto simp: c permission_calls_def)
  qed
qed

definition demo_module :: so_module where
  "demo_module = \<lparr>so_name = ''libmain.so'', load_virtbase = 0x8000, load_size = 0x3000,
     so_phdrs = [\<lparr>p_type = PT_LOAD, p_flags = 5, p_offset = 0, p_vaddr = 0x1010, p_filesz = 3, p_memsz = 5\<rparr>],
     so_shdrs = [], so_dynamic = [], so_syms = [], image = (\<lambda>_. 0)\<rparr>"

theorem finalize_pages_once_witness:
  "\<exists>calls s n. so_finalize True True (\<lambda>_ _ _. True) demo_module = Some calls \<and> filter (covers 1) calls = [(s, n, True)]"
proof -
  have "so_finalize True True (\<lambda>_ _ _. True) demo_module \<noteq> None" by (simp add: so_finalize_def Let_def)
  then obtain calls where c: "so_finalize True True (\<lambda>_ _ _. True) demo_module = Some calls" by blast
  have "\<exists>p\<in>set (so_phdrs demo_module). exec_segment p 1"
    by (simp add: demo_module_def exec_segment_def PT_LOAD_def PF_X_def align_page_def)
  with finalize_pages_once [OF c, of 1] c show ?thesis by (auto simp: demo_module_def)
qed

end
