(* ===== verification/RelocProps.thy ===== *)
theory RelocProps
  imports LoaderProps
begin

text \<open>The properties of packed relocations and of symbol resolution.\<close>

section \<open>Packed relocations\<close>

text \<open>The addresses a table of packed relocations stands for.\<close>

fun relr_addrs :: "u64 \<Rightarrow> u64 list \<Rightarrow> u64 list" where
  "relr_addrs w [] = []"
| "relr_addrs w (e # es) =
     (if e AND 1 = 0 then e # relr_addrs (e + 8) es
      else map (\<lambda>b. w + of_nat ((b - 1) * 8)) (filter (bit e) [1..<64]) @ relr_addrs (w + 63 * 8) es)"

lemma foldl_filter: "foldl (\<lambda>m b. if P b then f m (g b) else m) m xs = foldl f m (map g (filter P xs))"
  by (induction xs arbitrary: m) simp_all

lemma process_relr_fold:
  "process_relr vb es w m = foldl (\<lambda>m a. add64 a vb m) m (relr_addrs w es)"
proof (induction vb es w m rule: process_relr.induct)
  case (2 vb e es w m)
  note F = foldl_filter [of "bit e" "\<lambda>m a. add64 a vb m" "\<lambda>b. w + of_nat ((b - 1) * 8)" m "[1..<64]"]
  show ?case
  proof (cases "e AND 1 = 0")
    case False
    with "2.IH"(2) F show ?thesis by (simp only: process_relr.simps relr_addrs.simps if_False foldl_append simp_thms)
  qed (use "2.IH"(1) in simp)
qed simp

text \<open>The encoder of a linker: an address, then bitmaps of the 63 words that follow as long as they are used.\<close>

definition bitmap_of :: "nat \<Rightarrow> nat list \<Rightarrow> u64" where
  "bitmap_of base now = foldl (\<lambda>b x. b OR push_bit (1 + (x - base) div 8) 1) 1 now"

function relr_encode :: "nat list \<Rightarrow> u64 list" and relr_bitmaps :: "nat \<Rightarrow> nat list \<Rightarrow> u64 list" where
  "relr_encode [] = []"
| "relr_encode (x # xs) = of_nat x # relr_bitmaps (x + 8) xs"
| "relr_bitmaps base xs =
     (let now = takeWhile (\<lambda>x. x < base + 63 * 8) xs
      in if now = [] then relr_encode xs
         else bitmap_of base now # relr_bitmaps (base + 63 * 8) (dropWhile (\<lambda>x. x < base + 63 * 8) xs))"
  by pat_completeness auto
termination
proof (relation "measure (\<lambda>x. case x of Inl xs \<Rightarrow> 2 * length xs | Inr (b, xs) \<Rightarrow> 2 * length xs + 1)", goal_cases)
  case (4 base xs now)
  then have "length (dropWhile (\<lambda>x. x < base + 63 * 8) xs) < length xs"
    by (cases xs) (auto simp: le_imp_less_Suc length_dropWhile_le split: if_splits)
  then show ?case by simp
qed auto

definition slots :: "nat list \<Rightarrow> bool" where
  "slots xs \<longleftrightarrow> sorted_wrt (<) xs \<and> (\<forall>x\<in>set xs. 8 dvd x \<and> x < 2 ^ 64)"

lemma bit_bitmap_of:
  "n < 64 \<Longrightarrow> bit (bitmap_of base now) n \<longleftrightarrow> n = 0 \<or> (\<exists>x\<in>set now. n = 1 + (x - base) div 8)"
  by (cases n) (auto simp: bitmap_of_def foldl_or_bit bit_simps)

lemma bitmap_words:
  assumes s: "sorted_wrt (<) now" and r: "\<forall>x\<in>set now. 8 dvd x \<and> base \<le> x \<and> x < base + 63 * 8" and b: "8 dvd base"
  shows "filter (bit (bitmap_of base now)) [1..<64] = map (\<lambda>x. 1 + (x - base) div 8) now"
proof -
  have idx: "1 + (x - base) div 8 < 64 \<and> ((x - base) div 8) * 8 = x - base" if "x \<in> set now" for x
  proof -
    have "x - base < 63 * 8" and "8 dvd x - base" using that r b by (auto intro: dvd_diff_nat)
    then show ?thesis by (simp add: less_mult_imp_div_less)
  qed
  have mono: "sorted_wrt (<) (map (\<lambda>x. 1 + (x - base) div 8) now)"
    unfolding sorted_wrt_map
  proof (rule sorted_wrt_mono_rel [OF _ s])
    fix x y assume xy: "x \<in> set now" "y \<in> set now" "x < y"
    then have "(x - base) div 8 * 8 < (y - base) div 8 * 8" using idx r by (simp add: diff_less_mono)
    then show "1 + (x - base) div 8 < 1 + (y - base) div 8" by simp
  qed
  have st: "set (filter (bit (bitmap_of base now)) [1..<64]) = set (map (\<lambda>x. 1 + (x - base) div 8) now)"
    using idx by (auto simp: bit_bitmap_of)
  show ?thesis
  proof (rule sorted_distinct_set_unique [OF _ _ _ _ st])
    show "sorted (map (\<lambda>x. 1 + (x - base) div 8) now)" "distinct (map (\<lambda>x. 1 + (x - base) div 8) now)"
      using mono by (simp_all add: strict_sorted_iff)
  qed (simp_all add: sorted_wrt_filter)
qed

lemma relr_decode_encode:
  "slots xs \<Longrightarrow> relr_addrs w (relr_encode xs) = map of_nat xs"
  "slots xs \<Longrightarrow> 8 dvd base \<Longrightarrow> \<forall>x\<in>set xs. base \<le> x \<Longrightarrow> relr_addrs (of_nat base) (relr_bitmaps base xs) = map of_nat xs"
proof (induction xs and base xs arbitrary: w rule: relr_encode_relr_bitmaps.induct)
  case (2 x xs)
  have x: "8 dvd x" "slots xs" "\<forall>y\<in>set xs. x + 8 \<le> y"
  proof -
    show "8 dvd x" "slots xs" using "2.prems" by (auto simp: slots_def)
    show "\<forall>y\<in>set xs. x + 8 \<le> y"
    proof
      fix y assume y: "y \<in> set xs"
      then have "x < y" "8 dvd y" "8 dvd x" using "2.prems" by (auto simp: slots_def)
      then have "8 dvd y - x" "0 < y - x" by (auto intro: dvd_diff_nat)
      then show "x + 8 \<le> y" using dvd_imp_le [of 8 "y - x"] \<open>x < y\<close> by linarith
    qed
  qed
  have e: "(of_nat x :: u64) AND 1 = 0" using x(1) by (simp add: and_one_eq mod_2_eq_odd) (auto simp: even_of_nat dvd_def)
  have "of_nat x + 8 = (of_nat (x + 8) :: u64)" by simp
  then show ?case using "2.IH" [OF x(2) _ x(3)] x(1) e by simp
next
  case (3 base xs)
  let ?now = "takeWhile (\<lambda>x. x < base + 63 * 8) xs" and ?rest = "dropWhile (\<lambda>x. x < base + 63 * 8) xs"
  show ?case
  proof (cases "?now = []")
    case True
    then show ?thesis using "3.IH"(1) [OF refl True "3.prems"(1)] by (subst relr_bitmaps.simps) (simp add: Let_def)
  next
    case False
    have all: "xs = ?now @ ?rest" by simp
    have s: "sorted_wrt (<) (?now @ ?rest)" using "3.prems"(1) by (simp add: slots_def)
    then have sn: "sorted_wrt (<) ?now" and sr: "sorted_wrt (<) ?rest" by (simp_all only: sorted_wrt_append)
    have now: "\<forall>x\<in>set ?now. 8 dvd x \<and> base \<le> x \<and> x < base + 63 * 8"
      using "3.prems" by (auto simp: slots_def dest: set_takeWhileD)
    have rest: "\<forall>x\<in>set ?rest. base + 63 * 8 \<le> x"
    proof (cases ?rest)
      case (Cons y ys)
      then have "\<not> y < base + 63 * 8" by (metis dropWhile_eq_Cons_conv)
      with sr Cons show ?thesis by auto
    next
      case Nil
      show ?thesis by (simp only: Nil) simp
    qed
    have sl: "slots ?rest" using sr "3.prems"(1) by (auto simp: slots_def dest: set_dropWhileD)
    have d: "8 dvd base + 63 * 8" using "3.prems"(2) by (simp add: dvd_add)
    have IH: "relr_addrs (of_nat (base + 63 * 8)) (relr_bitmaps (base + 63 * 8) ?rest) = map of_nat ?rest"
      by (rule "3.IH"(2) [OF refl False sl d rest])
    have odd: "bitmap_of base ?now AND 1 \<noteq> 0"
      using bit_bitmap_of [of 0 base ?now] by (simp add: and_one_eq mod_2_eq_odd bit_0)
    have val: "map (\<lambda>b. of_nat base + of_nat ((b - 1) * 8)) (map (\<lambda>x. 1 + (x - base) div 8) ?now) = map (of_nat :: nat \<Rightarrow> u64) ?now"
    proof -
      have "of_nat base + of_nat ((1 + (x - base) div 8 - 1) * 8) = (of_nat x :: u64)" if "x \<in> set ?now" for x
      proof -
        have "8 dvd x - base" "base \<le> x" using now that "3.prems"(2) by (auto intro: dvd_diff_nat)
        then have "base + (1 + (x - base) div 8 - 1) * 8 = x" by simp
        then show ?thesis by (metis of_nat_add)
      qed
      then show ?thesis by simp
    qed
    have "relr_addrs (of_nat base) (relr_bitmaps base xs) =
        map (\<lambda>b. of_nat base + of_nat ((b - 1) * 8)) (filter (bit (bitmap_of base ?now)) [1..<64]) @ map of_nat ?rest"
      using False odd IH by (subst relr_bitmaps.simps) (simp add: Let_def del: upt.simps)
    also have "\<dots> = map of_nat ?now @ map of_nat ?rest"
      unfolding bitmap_words [OF sn now "3.prems"(2)] val ..
    also have "\<dots> = map of_nat xs" by (metis all map_append)
    finally show ?thesis .
  qed
qed simp

lemma small_nat: "k < 2 ^ 64 \<Longrightarrow> unat (of_nat k :: u64) = k"
  by (simp add: unsigned_of_nat take_bit_nat_eq_self_iff)

lemma slots_apart:
  assumes "8 dvd x" "8 dvd y" "x < y" "y < 2 ^ 64"
  shows "apart (of_nat x) (of_nat y)"
proof -
  have "8 dvd y - x" "0 < y - x" using assms by (auto intro: dvd_diff_nat)
  then have ge: "8 \<le> y - x" by (intro dvd_imp_le)
  have e: "(of_nat y :: u64) - of_nat x = of_nat (y - x)" using assms(3) by (simp add: of_nat_diff)
  have u: "unat ((of_nat y :: u64) - of_nat x) = y - x"
    unfolding e by (rule small_nat) (use assms in simp)
  then have "(of_nat y :: u64) - of_nat x \<noteq> 0" using ge by auto
  from unat_diff_sum [OF this] u have s: "y - x + unat ((of_nat x :: u64) - of_nat y) = 2 ^ 64" by simp
  have "y \<le> 2 ^ 64 - 8" using assms(2,4) by (auto elim!: dvdE)
  with s u ge assms(3) show ?thesis by (simp add: apart_def)
qed

lemma fold_add64:
  assumes "sorted_wrt apart as"
  shows "(\<forall>a\<in>set as. ld64 a (foldl (\<lambda>m a. add64 a vb m) m as) = ld64 a m + vb) \<and>
    (\<forall>b. (\<forall>a\<in>set as. apart a b) \<longrightarrow> ld64 b (foldl (\<lambda>m a. add64 a vb m) m as) = ld64 b m) \<and>
    (\<forall>y. (\<forall>a\<in>set as. \<not> unat (y - a) < 8) \<longrightarrow> foldl (\<lambda>m a. add64 a vb m) m as y = m y)"
  using assms
proof (induction as arbitrary: m)
  case (Cons a as)
  let ?m = "add64 a vb m"
  from Cons have IH: "\<forall>c\<in>set as. ld64 c (foldl (\<lambda>m a. add64 a vb m) ?m as) = ld64 c ?m + vb"
    "\<forall>b. (\<forall>c\<in>set as. apart c b) \<longrightarrow> ld64 b (foldl (\<lambda>m a. add64 a vb m) ?m as) = ld64 b ?m"
    "\<forall>y. (\<forall>c\<in>set as. \<not> unat (y - c) < 8) \<longrightarrow> foldl (\<lambda>m a. add64 a vb m) ?m as y = ?m y" by auto
  have ap: "\<forall>c\<in>set as. apart a c" using Cons.prems by simp
  have o: "apart a b \<Longrightarrow> ld64 b ?m = ld64 b m" for b by (simp add: add64_def ld64_st64_apart)
  have "ld64 a (foldl (\<lambda>m a. add64 a vb m) ?m as) = ld64 a m + vb"
    using IH(2) ap by (simp add: apart_sym add64_def ld64_st64)
  then show ?case using IH ap o by (auto simp: add64_def st64_def)
qed simp

text \<open>
  C31.  Packed relocations: for every table a linker can write, that is for every ascending list
  of 8-byte aligned slots, encoded as addresses and bitmaps, the loader adds the load address
  exactly once to each slot and changes no other byte.
\<close>

theorem relr_roundtrip:
  assumes "slots xs"
  shows "(\<forall>x\<in>set xs. ld64 (of_nat x) (process_relr vb (relr_encode xs) 0 m) = ld64 (of_nat x) m + vb) \<and>
    (\<forall>y. (\<forall>x\<in>set xs. \<not> unat (y - of_nat x) < 8) \<longrightarrow> process_relr vb (relr_encode xs) 0 m y = m y)"
proof -
  have "sorted_wrt apart (map (of_nat :: nat \<Rightarrow> u64) xs)" unfolding sorted_wrt_map
    by (rule sorted_wrt_mono_rel [of xs "(<)"]) (use assms in \<open>auto simp: slots_def intro: slots_apart\<close>)
  from fold_add64 [OF this, of vb m] show ?thesis
    by (simp add: process_relr_fold relr_decode_encode(1) [OF assms])
qed

theorem relr_roundtrip_witness:
  "slots [0x1000, 0x1008, 0x1100, 0x9000] \<and>
   ld64 0x1100 (process_relr 0x400000 (relr_encode [0x1000, 0x1008, 0x1100, 0x9000]) 0 (\<lambda>_. 0)) = ld64 0x1100 (\<lambda>_. 0) + 0x400000"
proof -
  have s: "slots [0x1000, 0x1008, 0x1100, 0x9000]" by (simp add: slots_def)
  with relr_roundtrip [OF s, of "0x400000" "\<lambda>_. 0"] show ?thesis by simp
qed

section \<open>Symbol resolution\<close>

definition slot_value :: "(string \<Rightarrow> u64) \<Rightarrow> u64 \<Rightarrow> sym list \<Rightarrow> rela \<Rightarrow> u64" where
  "slot_value lookup fallback syms r =
     (let s = syms ! r_sym r; a = lookup (st_name s)
      in (if a \<noteq> 0 then a else if st_bind s = STB_WEAK then 0 else fallback) + r_addend r)"

definition unresolved :: "(string \<Rightarrow> u64) \<Rightarrow> sym list \<Rightarrow> rela \<Rightarrow> bool" where
  "unresolved lookup syms r \<longleftrightarrow> wants_symbol syms r \<and> lookup (st_name (syms ! r_sym r)) = 0 \<and>
     st_bind (syms ! r_sym r) \<noteq> STB_WEAK"

lemma resolve_step_eq:
  "resolve_step lookup fallback syms (n, m) r =
    (if wants_symbol syms r
     then (n + of_bool (unresolved lookup syms r), st64 (r_offset r) (slot_value lookup fallback syms r) m) else (n, m))"
  by (simp add: resolve_step_def unresolved_def slot_value_def Let_def)

lemma resolve_fold:
  assumes "sorted_wrt (\<lambda>r q. apart (r_offset r) (r_offset q)) (filter (wants_symbol syms) rs)"
  shows "case foldl (resolve_step lookup fallback syms) (n, m) rs of (n', m') \<Rightarrow>
      n' = n + length (filter (unresolved lookup syms) rs) \<and>
      (\<forall>r\<in>set rs. wants_symbol syms r \<longrightarrow> ld64 (r_offset r) m' = slot_value lookup fallback syms r) \<and>
      (\<forall>b. (\<forall>r\<in>set rs. wants_symbol syms r \<longrightarrow> apart (r_offset r) b) \<longrightarrow> ld64 b m' = ld64 b m)"
  using assms
proof (induction rs arbitrary: n m)
  case (Cons r rs)
  show ?case
  proof (cases "wants_symbol syms r")
    case False
    then have "\<not> unresolved lookup syms r" by (simp add: unresolved_def)
    with Cons.IH [of n m] Cons.prems False show ?thesis by (auto simp: resolve_step_eq split: prod.splits)
  next
    case True
    let ?n = "n + of_bool (unresolved lookup syms r)"
    let ?m = "st64 (r_offset r) (slot_value lookup fallback syms r) m"
    obtain n' m' where f: "foldl (resolve_step lookup fallback syms) (?n, ?m) rs = (n', m')"
      by (cases "foldl (resolve_step lookup fallback syms) (?n, ?m) rs")
    have ap: "\<forall>q\<in>set rs. wants_symbol syms q \<longrightarrow> apart (r_offset r) (r_offset q)" using Cons.prems True by simp
    from Cons.IH [of ?n ?m] Cons.prems True f have IH:
      "n' = ?n + length (filter (unresolved lookup syms) rs)"
      "\<forall>q\<in>set rs. wants_symbol syms q \<longrightarrow> ld64 (r_offset q) m' = slot_value lookup fallback syms q"
      "\<forall>b. (\<forall>q\<in>set rs. wants_symbol syms q \<longrightarrow> apart (r_offset q) b) \<longrightarrow> ld64 b m' = ld64 b ?m" by simp_all
    have "ld64 (r_offset r) m' = slot_value lookup fallback syms r"
      using IH(3) ap by (simp add: apart_sym ld64_st64)
    then show ?thesis using IH True f by (simp add: resolve_step_eq ld64_st64_apart)
  qed
qed simp


definition import_module :: so_module where
  "import_module = \<lparr>so_name = ''libunity.so'', load_virtbase = 0x8000, load_size = 0x3000, so_phdrs = [],
     so_shdrs = [\<lparr>sh_name = ''.rela.plt'', sh_addr = 0, sh_syms = [],
        sh_relas = [\<lparr>r_offset = 0x100, r_type = R_AARCH64_JUMP_SLOT, r_sym = 0, r_addend = 4\<rparr>,
                    \<lparr>r_offset = 0x108, r_type = R_AARCH64_ABS64, r_sym = 1, r_addend = 6\<rparr>], sh_num = 2\<rparr>],
     so_dynamic = [],
     so_syms = [\<lparr>st_name = ''read'', st_value = 0, st_undef = True, st_bind = 1\<rparr>,
                \<lparr>st_name = ''gone'', st_value = 0, st_undef = True, st_bind = 1\<rparr>],
     image = (\<lambda>_. 0)\<rparr>"


end
