(* ===== verification/Paths.thy ===== *)
theory Paths
  imports Prelude
begin

text \<open>
  Translation of the game's Android paths to the console's file system (\<^verbatim>\<open>source/file_bridge.c\<close>), and
  the virtual files that describe the processor.  A path is a list of characters without the final zero.
\<close>

section \<open>Constants\<close>

definition GAME_HOME :: string where "GAME_HOME = ''sdmc:/switch/angrybirdas_nx''"
definition DATA_ROOT :: string where "DATA_ROOT = ''sdmc:/switch/angrybirdas_nx/runtime''"
definition INSTALL_APK :: string where "INSTALL_APK = ''sdmc:/switch/angrybirdas_nx/game.apk''"
definition ANDROID_DATA_DIR :: string where "ANDROID_DATA_DIR = ''/data/data/com.dripmissouri.refreshed''"
definition ANDROID_FILES_DIR :: string where "ANDROID_FILES_DIR = ''/data/data/com.dripmissouri.refreshed/files''"
definition ANDROID_EXTERNAL_FILES_DIR :: string where
  "ANDROID_EXTERNAL_FILES_DIR = ''/storage/emulated/0/Android/data/com.dripmissouri.refreshed/files''"

section \<open>Translation\<close>

text \<open>\<open>under dir p\<close>: \<open>p\<close> is \<open>dir\<close> or continues it with a slash.\<close>

definition under :: "string \<Rightarrow> string \<Rightarrow> bool" where
  "under dir p \<longleftrightarrow> starts_with dir p \<and> (drop (length dir) p = [] \<or> hd (drop (length dir) p) = CHR ''/'')"

definition strip_runtime_prefixed_android_path :: "string \<Rightarrow> string" where
  "strip_runtime_prefixed_android_path p =
     (if \<not> under DATA_ROOT p then p
      else let nested = drop (length DATA_ROOT) p
           in if under ANDROID_DATA_DIR nested \<or> under ANDROID_EXTERNAL_FILES_DIR nested then nested else p)"

text \<open>\<^verbatim>\<open>snprintf\<close> into a buffer of \<open>cap\<close> bytes.\<close>

definition cut :: "nat \<Rightarrow> string \<Rightarrow> string" where
  "cut cap s = take (cap - 1) s"

text \<open>A repeated root is collapsed to the last one.\<close>

function collapse_root :: "string \<Rightarrow> string" where
  "collapse_root host =
     (if starts_with (DATA_ROOT @ ''/'') host
      then let nested = drop (length DATA_ROOT + 1) host
           in if under DATA_ROOT nested then collapse_root nested else host
      else host)"
  by pat_completeness auto
termination
proof (relation "measure length")
  fix host nested
  assume s: "starts_with (DATA_ROOT @ ''/'') host" and n: "nested = drop (length DATA_ROOT + 1) host"
  then have "length nested < length host"
    using starts_with_append [of "DATA_ROOT @ ''/''" host] by (auto simp: DATA_ROOT_def)
  then show "(nested, host) \<in> measure length" by simp
qed simp

declare collapse_root.simps [simp del]

definition APK_MARKER :: string where "APK_MARKER = ''.apk/assets/''"
definition APK_MARKER' :: string where "APK_MARKER' = ''.apk!/assets/''"

definition find_apk_assets :: "string \<Rightarrow> string option" where
  "find_apk_assets p =
     (case find_sub p APK_MARKER of
        Some r \<Rightarrow> Some (drop (length APK_MARKER) r)
      | None \<Rightarrow> (case find_sub p APK_MARKER' of Some r \<Rightarrow> Some (drop (length APK_MARKER') r) | None \<Rightarrow> None))"

text \<open>The path before it is cut to the buffer; \<open>None\<close> when it is not translated.\<close>

definition translate :: "string \<Rightarrow> string option" where
  "translate p =
     (if p = ''/proc/cpuinfo'' then Some (DATA_ROOT @ ''/proc/cpuinfo'')
      else if p = ''/proc/meminfo'' then Some (DATA_ROOT @ ''/proc/meminfo'')
      else if p = ''/sys/devices/system/cpu/present'' then Some (DATA_ROOT @ ''/sys/devices/system/cpu/present'')
      else if p = ''/sys/devices/system/cpu/possible'' then Some (DATA_ROOT @ ''/sys/devices/system/cpu/possible'')
      else if starts_with ''/sys/devices/system/cpu/cpu'' p \<and> find_sub p ''/cpu_capacity'' \<noteq> None then Some (DATA_ROOT @ p)
      else if p = INSTALL_APK then Some DATA_ROOT
      else case find_apk_assets p of
        Some r \<Rightarrow> Some (DATA_ROOT @ ''/assets/'' @ r)
      | None \<Rightarrow>
          if starts_with ''/assets/'' p then Some (DATA_ROOT @ ''/assets/'' @ drop 8 p)
          else if starts_with ''assets/'' p then Some (DATA_ROOT @ ''/'' @ p)
          else let a = strip_runtime_prefixed_android_path p
            in if under ANDROID_DATA_DIR a then Some (DATA_ROOT @ drop (length ANDROID_DATA_DIR) a)
               else if under ANDROID_EXTERNAL_FILES_DIR a
               then Some (DATA_ROOT @ ''/files'' @ drop (length ANDROID_EXTERNAL_FILES_DIR) a)
               else let host = collapse_root p in if host \<noteq> p then Some host else None)"

text \<open>The result is 1 for a translated path; null arguments and an empty buffer give 0 and no path.\<close>

definition file_translate :: "string option \<Rightarrow> nat \<Rightarrow> nat \<times> string option" where
  "file_translate p cap =
     (case p of
        None \<Rightarrow> (0, None)
      | Some s \<Rightarrow>
          if cap = 0 then (0, None)
          else case translate s of Some t \<Rightarrow> (1, Some (cut cap t)) | None \<Rightarrow> (0, Some (cut cap s)))"

section \<open>Packaged files\<close>

text \<open>The loop over the segments: no \<open>.\<close>, no \<open>..\<close>, and no slash at the end.\<close>

fun split_slash :: "string \<Rightarrow> string \<times> string option" where
  "split_slash [] = ([], None)"
| "split_slash (c # cs) =
     (if c = CHR ''/'' then ([], Some cs) else case split_slash cs of (seg, rest) \<Rightarrow> (c # seg, rest))"

lemma split_slash_shorter: "split_slash s = (seg, Some rest) \<Longrightarrow> length rest < length s"
  by (induction s arbitrary: seg) (auto split: if_splits prod.splits)

function segments_safe :: "string \<Rightarrow> bool" where
  "segments_safe s =
     (if s = [] then True
      else case split_slash s of
        (seg, rest) \<Rightarrow>
          if seg = ''.'' \<or> seg = ''..'' then False
          else case rest of None \<Rightarrow> True | Some r \<Rightarrow> if r = [] then False else segments_safe r)"
  by pat_completeness auto
termination
  by (relation "measure length") (auto dest: sym split_slash_shorter [OF sym] split_slash_shorter)

declare segments_safe.simps [simp del]

definition find_packaged_local_fallback :: "string \<Rightarrow> nat \<Rightarrow> string option" where
  "find_packaged_local_fallback guest cap =
     (let g = strip_runtime_prefixed_android_path guest; pfx = ANDROID_FILES_DIR @ ''/downloaded/''
      in if \<not> starts_with pfx g then None
         else let rel = drop (length pfx) g
              in if rel = [] \<or> hd rel = CHR ''/'' \<or> CHR 92 \<in> set rel then None
                 else if \<not> segments_safe rel then None
                 else let out = DATA_ROOT @ ''/assets/local/'' @ rel
                      in if length out < cap then Some out else None)"

text \<open>
  The path a file is read from: \<open>exists_p\<close> and \<open>regular\<close> are what \<^verbatim>\<open>stat\<close> says; the packaged copy is
  taken only when there is no file of the translated name.  \<^verbatim>\<open>malloc\<close> succeeds here.
\<close>

definition PATH_MAX :: nat where "PATH_MAX = 4096"

definition translate_read_path :: "(string \<Rightarrow> bool) \<Rightarrow> (string \<Rightarrow> bool) \<Rightarrow> string \<Rightarrow> string" where
  "translate_read_path exists_p regular p =
     (let primary = the (snd (file_translate (Some p) PATH_MAX))
      in if exists_p primary then primary
         else case find_packaged_local_fallback p PATH_MAX of
                None \<Rightarrow> primary
              | Some l \<Rightarrow> if exists_p l \<and> regular l then l else primary)"

section \<open>Kinds of files\<close>

definition ends_ci :: "string \<Rightarrow> string \<Rightarrow> bool" where
  "ends_ci dot ext \<longleftrightarrow> map (\<lambda>c. if of_char c \<in> {65..90 :: nat} then char_of (of_char c + 32 :: nat) else c) dot = ext"

text \<open>The extensions are compared without regard to case, here in lower case.\<close>

definition interesting_asset_path :: "string \<Rightarrow> bool" where
  "interesting_asset_path p =
     (let base = (case after_last (CHR ''/'') p of Some b \<Rightarrow> b | None \<Rightarrow> p)
      in if find_sub p ''/UnityCache/'' \<noteq> None \<or> find_sub p ''/assets/bin/Data/'' \<noteq> None then True
         else if find_sub base ''sharedassets'' \<noteq> None \<or> find_sub base ''resources.assets'' \<noteq> None \<or>
                 find_sub base ''globalgamemanagers'' \<noteq> None then True
         else case after_last (CHR ''.'') base of
                None \<Rightarrow> False
              | Some d \<Rightarrow> ends_ci d ''assets'' \<or> ends_ci d ''bundle'' \<or> ends_ci d ''unity3d'' \<or> ends_ci d ''ress'' \<or>
                          ends_ci d ''resource'')"

definition is_unitycache_named_file :: "string \<Rightarrow> string \<Rightarrow> bool" where
  "is_unitycache_named_file p name \<longleftrightarrow>
     starts_with (DATA_ROOT @ ''/files/UnityCache/'') p \<and> after_last (CHR ''/'') p = Some name"

definition is_unitycache_lock_file :: "string \<Rightarrow> bool" where
  "is_unitycache_lock_file p = is_unitycache_named_file p ''__lock''"

definition is_unitycache_data_file :: "string \<Rightarrow> bool" where
  "is_unitycache_data_file p = is_unitycache_named_file p ''__data''"

text \<open>The directories made for a file of the cache: every prefix that ends before a slash, after the root.\<close>

definition unity_cache_parents :: "string \<Rightarrow> string list" where
  "unity_cache_parents p =
     (if \<not> starts_with (DATA_ROOT @ ''/files/UnityCache/'') p then []
      else map (\<lambda>i. take i p) (filter (\<lambda>i. p ! i = CHR ''/'') [length DATA_ROOT + 1..<length p]))"

text \<open>\<open>mk d\<close> is the result of \<^verbatim>\<open>mkdir\<close>; an existing directory is fine, any other error stops the loop.\<close>

fun make_parents :: "(string \<Rightarrow> unit result) \<Rightarrow> string list \<Rightarrow> unit result" where
  "make_parents mk [] = Inr ()"
| "make_parents mk (d # ds) =
     (case mk d of Inr _ \<Rightarrow> make_parents mk ds | Inl e \<Rightarrow> if e = EEXIST then make_parents mk ds else Inl e)"

definition ensure_unity_cache_parents :: "(string \<Rightarrow> unit result) \<Rightarrow> string \<Rightarrow> unit result" where
  "ensure_unity_cache_parents mk p = make_parents mk (unity_cache_parents p)"

section \<open>Open flags\<close>

text \<open>The host's flags, as the access mode and the flags beside it.\<close>

record host_flags =
  accmode :: nat
  fl_creat :: bool
  fl_excl :: bool
  fl_trunc :: bool
  fl_append :: bool
  fl_nonblock :: bool

definition O_RDONLY :: nat where "O_RDONLY = 0"
definition O_WRONLY :: nat where "O_WRONLY = 1"
definition O_RDWR :: nat where "O_RDWR = 2"

definition guest_flags :: "u32 \<Rightarrow> host_flags" where
  "guest_flags f = \<lparr>accmode = unat (f AND 3), fl_creat = (f AND 0x40 \<noteq> 0), fl_excl = (f AND 0x80 \<noteq> 0),
     fl_trunc = (f AND 0x200 \<noteq> 0), fl_append = (f AND 0x400 \<noteq> 0), fl_nonblock = (f AND 0x800 \<noteq> 0)\<rparr>"

definition no_flags :: "nat \<Rightarrow> host_flags" where
  "no_flags a = \<lparr>accmode = a, fl_creat = False, fl_excl = False, fl_trunc = False, fl_append = False, fl_nonblock = False\<rparr>"

definition fopen_host_flags :: "string option \<Rightarrow> host_flags" where
  "fopen_host_flags mode =
     (case mode of
        None \<Rightarrow> no_flags O_RDONLY
      | Some m \<Rightarrow>
          if m = [] then no_flags O_RDONLY
          else let plus = CHR ''+'' \<in> set m
            in if hd m = CHR ''r'' then no_flags (if plus then O_RDWR else O_RDONLY)
               else if hd m = CHR ''w'' then (no_flags (if plus then O_RDWR else O_WRONLY))\<lparr>fl_creat := True, fl_trunc := True\<rparr>
               else if hd m = CHR ''a'' then (no_flags (if plus then O_RDWR else O_WRONLY))\<lparr>fl_creat := True, fl_append := True\<rparr>
               else no_flags O_RDONLY)"

text \<open>What the file system is asked for: reading, writing and appending.\<close>

definition positioned_fs_mode :: "host_flags \<Rightarrow> bool \<times> bool \<times> bool" where
  "positioned_fs_mode f =
     (if accmode f = O_WRONLY then (False, True, True) else if accmode f = O_RDWR then (True, True, True) else (True, False, False))"

section \<open>The processor list\<close>

fun nat_digits :: "nat \<Rightarrow> string" where
  "nat_digits n = (if n < 10 then [char_of (48 + n)] else nat_digits (n div 10) @ [char_of (48 + n mod 10)])"

declare nat_digits.simps [simp del]

function run_last :: "u64 \<Rightarrow> nat \<Rightarrow> nat" where
  "run_last cores e = (if e + 1 < 32 \<and> bit cores (e + 1) then run_last cores (e + 1) else e)"
  by pat_completeness auto
termination by (relation "measure (\<lambda>(m, e). 32 - e)") auto

declare run_last.simps [simp del]

lemma run_last_ge: "e \<le> run_last cores e"
proof (induction cores e rule: run_last.induct)
  case (1 cores e)
  then show ?case by (subst run_last.simps) auto
qed

text \<open>\<open>None\<close> when the text does not fit the buffer or is empty; \<open>w\<close> is the text so far.\<close>

function cpu_ranges :: "nat \<Rightarrow> u64 \<Rightarrow> nat \<Rightarrow> string \<Rightarrow> bool \<Rightarrow> (string \<times> bool) option" where
  "cpu_ranges cap cores i w first =
     (if i < 32
      then if \<not> bit cores i then cpu_ranges cap cores (i + 1) w first
           else let e = run_last cores i;
                    t = (if first then [] else '','') @ nat_digits i @ (if i = e then [] else ''-'' @ nat_digits e)
                in if cap - length w \<le> length t then None else cpu_ranges cap cores (e + 1) (w @ t) False
      else Some (w, first))"
  by pat_completeness auto
termination
proof (relation "measure (\<lambda>(cap, cores, i, w, first). 32 - i)")
  fix i e :: nat and cores :: u64 and cap w first t
  assume "i < 32" "e = run_last cores i"
  then show "((cap, cores, e + 1, w @ t, False), cap, cores, i, w, first) \<in> measure (\<lambda>(cap, cores, i, w, first). 32 - i)"
    using run_last_ge [of i cores] by simp
qed auto

declare cpu_ranges.simps [simp del]

definition format_cpu_list :: "nat \<Rightarrow> u64 \<Rightarrow> string option" where
  "format_cpu_list cap cores =
     (case cpu_ranges cap cores 0 [] True of
        None \<Rightarrow> None
      | Some (w, first) \<Rightarrow> if first \<or> cap < length w + 2 then None else Some (w @ [CHR 10]))"

section \<open>Confinement\<close>

section \<open>Confinement\<close>

text \<open>The segments of a path; \<open>dotdot_free\<close> paths never climb.\<close>

function segs :: "string \<Rightarrow> string list" where
  "segs s = (case split_slash s of (seg, None) \<Rightarrow> [seg] | (seg, Some r) \<Rightarrow> seg # segs r)"
  by pat_completeness auto
termination by (relation "measure length") (auto dest: split_slash_shorter [OF sym])

declare segs.simps [simp del]

definition dotdot_free :: "string \<Rightarrow> bool" where
  "dotdot_free s \<longleftrightarrow> ''..'' \<notin> set (segs s)"

lemma split_slash_append:
  "split_slash (a @ CHR ''/'' # b) =
    (case split_slash a of (seg, None) \<Rightarrow> (seg, Some b) | (seg, Some r) \<Rightarrow> (seg, Some (r @ CHR ''/'' # b)))"
  by (induction a) (auto split: prod.splits option.splits)

lemma segs_append: "segs (a @ CHR ''/'' # b) = segs a @ segs b"
proof (induction a rule: segs.induct)
  case (1 a)
  show ?case
  proof (cases "split_slash a")
    case (Pair seg rest)
    show ?thesis
    proof (cases rest)
      case None
      then show ?thesis using Pair by (subst (1 2) segs.simps) (simp add: split_slash_append)
    next
      case (Some r)
      have "segs (r @ CHR ''/'' # b) = segs r @ segs b" by (rule "1") (simp_all add: Pair Some)
      then show ?thesis using Pair Some by (subst (1 2) segs.simps) (simp add: split_slash_append)
    qed
  qed
qed

lemma dotdot_free_append: "dotdot_free (a @ CHR ''/'' # b) \<longleftrightarrow> dotdot_free a \<and> dotdot_free b"
  by (simp add: dotdot_free_def segs_append)

lemma dotdot_free_tail:
  assumes "dotdot_free (a @ b)" and "b = [] \<or> hd b = CHR ''/''"
  shows "dotdot_free b"
proof (cases b)
  case Nil
  show ?thesis unfolding Nil by code_simp
next
  case (Cons c r)
  then have b: "b = CHR ''/'' # r" using assms(2) by simp
  have "dotdot_free ([] @ CHR ''/'' # r)" unfolding dotdot_free_append
    using assms(1) [unfolded b dotdot_free_append] by (simp add: dotdot_free_def) (code_simp)
  then show ?thesis using b by simp
qed

lemma dotdot_free_join:
  assumes "dotdot_free a" and "dotdot_free b" and "b = [] \<or> hd b = CHR ''/''"
  shows "dotdot_free (a @ b)"
proof (cases b)
  case (Cons c r)
  then have b: "b = CHR ''/'' # r" using assms(3) by simp
  have "dotdot_free ([] @ CHR ''/'' # r)" using assms(2) b by simp
  then have "dotdot_free r" unfolding dotdot_free_append by simp
  with assms(1) show ?thesis by (simp add: b dotdot_free_append)
qed (use assms(1) in simp)

lemma under_split: "under d p \<longleftrightarrow> (\<exists>r. p = d @ r \<and> (r = [] \<or> hd r = CHR ''/''))"
  by (auto simp: under_def starts_with_append)

lemma root_free: "dotdot_free DATA_ROOT" "dotdot_free (DATA_ROOT @ ''/assets'')" "dotdot_free (DATA_ROOT @ ''/files'')"
  "dotdot_free (DATA_ROOT @ ''/assets/local'')" "dotdot_free (DATA_ROOT @ ''/proc/cpuinfo'')" "dotdot_free (DATA_ROOT @ ''/proc/meminfo'')"
  "dotdot_free (DATA_ROOT @ ''/sys/devices/system/cpu/present'')" "dotdot_free (DATA_ROOT @ ''/sys/devices/system/cpu/possible'')"
  by code_simp+

text \<open>What a translated path is: below the root, and free of \<open>..\<close> when the guest's path is.\<close>

definition confined :: "string \<Rightarrow> string \<Rightarrow> bool" where
  "confined p out \<longleftrightarrow> under DATA_ROOT out \<and> (dotdot_free p \<longrightarrow> dotdot_free out)"

lemma confined_tail:
  assumes "p = a @ b" and "b = [] \<or> hd b = CHR ''/''" and "c = [] \<or> hd c = CHR ''/''" and "dotdot_free (DATA_ROOT @ c)"
  shows "confined p (DATA_ROOT @ c @ b)"
proof -
  have "under DATA_ROOT (DATA_ROOT @ c @ b)" unfolding under_split using assms(2,3) by (cases c) auto
  moreover have "dotdot_free (DATA_ROOT @ c @ b)" if "dotdot_free p"
    using dotdot_free_join [OF assms(4) _ assms(2)] dotdot_free_tail [of a b] that assms(1,2) by simp
  ultimately show ?thesis by (simp add: confined_def)
qed

lemma collapse_root_tail:
  "collapse_root h = h \<or> (under DATA_ROOT (collapse_root h) \<and> (\<exists>pre. h = pre @ CHR ''/'' # collapse_root h))"
proof (induction h rule: collapse_root.induct)
  case (1 h)
  let ?n = "drop (length DATA_ROOT + 1) h"
  show ?case
  proof (cases "starts_with (DATA_ROOT @ ''/'') h \<and> under DATA_ROOT ?n")
    case True
    then have e: "collapse_root h = collapse_root ?n" by (subst collapse_root.simps) (simp add: Let_def)
    have h: "h = DATA_ROOT @ CHR ''/'' # ?n" using True starts_with_drop [of "DATA_ROOT @ ''/''" h] by simp
    from "1.IH" [OF _ refl] True have "collapse_root ?n = ?n \<or>
        (under DATA_ROOT (collapse_root ?n) \<and> (\<exists>pre. ?n = pre @ CHR ''/'' # collapse_root ?n))" by blast
    then show ?thesis
    proof (elim disjE conjE exE)
      assume "collapse_root ?n = ?n"
      then show ?thesis unfolding e using True h by (metis (no_types))
    next
      fix pre assume u: "under DATA_ROOT (collapse_root ?n)" and n: "?n = pre @ CHR ''/'' # collapse_root ?n"
      have "h = (DATA_ROOT @ CHR ''/'' # pre) @ CHR ''/'' # collapse_root ?n" using h n by (metis append.assoc append_Cons)
      with u show ?thesis unfolding e by blast
    qed
  next
    case False
    then show ?thesis by (subst (1 2 3) collapse_root.simps) (auto simp: Let_def)
  qed
qed

lemma apk_assets_tail: "find_apk_assets p = Some r \<Longrightarrow> \<exists>pre. p = pre @ CHR ''/'' # r"
proof -
  assume f: "find_apk_assets p = Some r"
  then obtain needle q where n: "needle = APK_MARKER \<or> needle = APK_MARKER'" and q: "find_sub p needle = Some q"
    and r: "r = drop (length needle) q"
    by (auto simp: find_apk_assets_def split: option.splits)
  from find_sub_Some [OF q] obtain pre where p: "p = pre @ q" and s: "starts_with needle q" by blast
  have "q = needle @ r" using starts_with_drop [OF s] r by simp
  moreover have "needle = butlast needle @ [CHR ''/'']" using n by (auto simp: APK_MARKER_def APK_MARKER'_def)
  ultimately have "p = (pre @ butlast needle) @ CHR ''/'' # r" using p by (metis append.assoc append_Cons append_Nil)
  then show ?thesis by blast
qed

lemma strip_tail:
  "\<exists>pre. p = pre @ strip_runtime_prefixed_android_path p \<and>
    (pre = [] \<or> hd (strip_runtime_prefixed_android_path p) = CHR ''/'')"
proof (cases "strip_runtime_prefixed_android_path p = p")
  case False
  let ?n = "drop (length DATA_ROOT) p"
  from False have u: "under DATA_ROOT p" and e: "strip_runtime_prefixed_android_path p = ?n"
    and a: "under ANDROID_DATA_DIR ?n \<or> under ANDROID_EXTERNAL_FILES_DIR ?n"
    by (auto simp: strip_runtime_prefixed_android_path_def Let_def split: if_splits)
  have "p = DATA_ROOT @ ?n" using u starts_with_drop [of DATA_ROOT p] by (simp add: under_def)
  moreover have "hd ?n = CHR ''/''" using a by (auto simp: under_split ANDROID_DATA_DIR_def ANDROID_EXTERNAL_FILES_DIR_def)
  ultimately show ?thesis unfolding e by blast
qed auto

lemma android_tail:
  assumes "under d (strip_runtime_prefixed_android_path p)"
  shows "\<exists>a. p = a @ drop (length d) (strip_runtime_prefixed_android_path p) \<and>
    (drop (length d) (strip_runtime_prefixed_android_path p) = [] \<or>
     hd (drop (length d) (strip_runtime_prefixed_android_path p)) = CHR ''/'')"
proof -
  obtain pre where "p = pre @ strip_runtime_prefixed_android_path p" using strip_tail by blast
  moreover have "strip_runtime_prefixed_android_path p = d @ drop (length d) (strip_runtime_prefixed_android_path p)"
    using assms starts_with_drop [of d] by (simp add: under_def)
  ultimately have "p = (pre @ d) @ drop (length d) (strip_runtime_prefixed_android_path p)" by (metis append.assoc)
  with assms show ?thesis unfolding under_def by blast
qed

lemma confined_const: "c \<noteq> [] \<Longrightarrow> hd c = CHR ''/'' \<Longrightarrow> dotdot_free (DATA_ROOT @ c) \<Longrightarrow> confined p (DATA_ROOT @ c)"
  using confined_tail [of p p "[]" c] by simp

definition all_confined :: "string \<Rightarrow> string option \<Rightarrow> bool" where
  "all_confined p x \<longleftrightarrow> (\<forall>out. x = Some out \<longrightarrow> confined p out)"

lemma all_confined_if:
  "(b \<Longrightarrow> all_confined p x) \<Longrightarrow> (\<not> b \<Longrightarrow> all_confined p y) \<Longrightarrow> all_confined p (if b then x else y)"
  by simp

lemma all_confinedI: "confined p out \<Longrightarrow> all_confined p (Some out)"
  by (simp add: all_confined_def)

lemma confined_virtual:
  "all_confined p (Some (DATA_ROOT @ ''/proc/cpuinfo''))" "all_confined p (Some (DATA_ROOT @ ''/proc/meminfo''))"
  "all_confined p (Some (DATA_ROOT @ ''/sys/devices/system/cpu/present''))"
  "all_confined p (Some (DATA_ROOT @ ''/sys/devices/system/cpu/possible''))" "all_confined p (Some DATA_ROOT)"
  using root_free by (auto intro!: all_confinedI confined_const) (auto simp: confined_def under_split)

lemma confined_cpu:
  assumes "starts_with ''/sys/devices/system/cpu/cpu'' p \<and> q"
  shows "all_confined p (Some (DATA_ROOT @ p))"
proof -
  have "p = [] @ p" "hd p = CHR ''/''" using assms by (auto simp: starts_with_append)
  with confined_tail [of p "[]" p "[]"] root_free(1) show ?thesis by (simp add: all_confined_def)
qed

lemma confined_assets:
  assumes "p = pre @ CHR ''/'' # r"
  shows "all_confined p (Some (DATA_ROOT @ ''/assets/'' @ r))"
proof -
  have "p = pre @ (CHR ''/'' # r)" "hd (CHR ''/'' # r) = CHR ''/''" using assms by simp_all
  from confined_tail [OF this(1), of "''/assets''"] root_free(2) show ?thesis by (simp add: all_confined_def)
qed

lemma confined_assets_abs:
  assumes "starts_with ''/assets/'' p"
  shows "all_confined p (Some (DATA_ROOT @ ''/assets/'' @ drop 8 p))"
  by (rule confined_assets [of _ "''/assets''"]) (use assms in \<open>auto simp: starts_with_append\<close>)

lemma confined_rel: "all_confined p (Some (DATA_ROOT @ ''/'' @ p))"
proof -
  have "under DATA_ROOT (DATA_ROOT @ ''/'' @ p)" by (auto simp: under_split)
  with root_free(1) dotdot_free_append [of DATA_ROOT p] show ?thesis by (simp add: confined_def all_confined_def)
qed

lemma confined_android:
  assumes "under d (strip_runtime_prefixed_android_path p)" and "c = [] \<or> hd c = CHR ''/''" and "dotdot_free (DATA_ROOT @ c)"
  shows "all_confined p (Some (DATA_ROOT @ c @ drop (length d) (strip_runtime_prefixed_android_path p)))"
  using android_tail [OF assms(1)] confined_tail [OF _ _ assms(2,3)] by (blast intro: all_confinedI)

lemma confined_host: "collapse_root p \<noteq> p \<Longrightarrow> all_confined p (Some (collapse_root p))"
proof -
  assume "collapse_root p \<noteq> p"
  with collapse_root_tail [of p] obtain pre where "under DATA_ROOT (collapse_root p)" and p: "p = pre @ CHR ''/'' # collapse_root p"
    by auto
  moreover have "dotdot_free p \<Longrightarrow> dotdot_free (collapse_root p)" using dotdot_free_append [of pre "collapse_root p"] p by metis
  ultimately show ?thesis by (simp add: confined_def all_confined_def)
qed

lemma translate_confined: "translate p = Some out \<Longrightarrow> confined p out"
proof -
  have rest: "all_confined p (if starts_with ''/assets/'' p then Some (DATA_ROOT @ ''/assets/'' @ drop 8 p)
      else if starts_with ''assets/'' p then Some (DATA_ROOT @ ''/'' @ p)
      else let a = strip_runtime_prefixed_android_path p
        in if under ANDROID_DATA_DIR a then Some (DATA_ROOT @ drop (length ANDROID_DATA_DIR) a)
           else if under ANDROID_EXTERNAL_FILES_DIR a
           then Some (DATA_ROOT @ ''/files'' @ drop (length ANDROID_EXTERNAL_FILES_DIR) a)
           else let host = collapse_root p in if host \<noteq> p then Some host else None)"
    unfolding Let_def
    using confined_assets_abs confined_rel confined_android [of ANDROID_DATA_DIR p "[]"]
      confined_android [of ANDROID_EXTERNAL_FILES_DIR p "''/files''"] confined_host root_free(1,3)
    by (intro all_confined_if) (simp_all add: all_confined_def)
  have "all_confined p (case find_apk_assets p of Some r \<Rightarrow> Some (DATA_ROOT @ ''/assets/'' @ r) | None \<Rightarrow> x)"
    if "all_confined p x" for x
    using apk_assets_tail [of p] confined_assets that by (cases "find_apk_assets p") auto
  from this [OF rest] have "all_confined p (translate p)"
    unfolding translate_def by (intro all_confined_if confined_virtual confined_cpu)
  then show "translate p = Some out \<Longrightarrow> confined p out" by (simp add: all_confined_def)
qed

lemma segments_safe_free: "segments_safe s \<Longrightarrow> dotdot_free s"
proof (induction s rule: segments_safe.induct)
  case (1 s)
  obtain seg rest where sp: "split_slash s = (seg, rest)" by (cases "split_slash s")
  show ?case
  proof (cases "s = []")
    case True
    show ?thesis unfolding True by code_simp
  next
    case False
    have "seg \<noteq> ''.'' \<and> seg \<noteq> ''..'' \<and> (case rest of None \<Rightarrow> True | Some r \<Rightarrow> r \<noteq> [] \<and> segments_safe r)"
      using "1.prems" segments_safe.simps [of s] False unfolding sp prod.case by (cases rest) (simp_all split: if_splits)
    then have ok: "seg \<noteq> ''.''" "seg \<noteq> ''..''" and r: "\<And>r. rest = Some r \<Longrightarrow> r \<noteq> [] \<and> segments_safe r" by auto
    have "dotdot_free r" if "rest = Some r" for r
      using "1.IH" [OF False sp [symmetric] _ that] r [OF that] ok by simp
    with ok show ?thesis unfolding dotdot_free_def by (subst segs.simps) (auto simp: sp split: option.splits)
  qed
qed

text \<open>
  Every path the game is given for reading and writing stays inside the game's directory: a
  path that is translated lies below it, without a \<open>..\<close> segment unless the game's own path had
  one, and a packaged file that is used instead of a missing one lies below the packaged assets and
  never has one.
\<close>

theorem paths_confined:
  "(translate p = Some out \<and> length out < cap \<longrightarrow>
     file_translate (Some p) cap = (1, Some out) \<and> under DATA_ROOT out \<and> (dotdot_free p \<longrightarrow> dotdot_free out)) \<and>
   (find_packaged_local_fallback p cap = Some out \<longrightarrow>
     starts_with (DATA_ROOT @ ''/assets/local/'') out \<and> dotdot_free out \<and> length out < cap)"
proof (intro conjI impI)
  assume t: "translate p = Some out \<and> length out < cap"
  then show "file_translate (Some p) cap = (1, Some out)" by (auto simp: file_translate_def cut_def)
  show "under DATA_ROOT out" "dotdot_free p \<Longrightarrow> dotdot_free out"
    using translate_confined [of p out] t by (simp_all add: confined_def)
next
  assume f: "find_packaged_local_fallback p cap = Some out"
  then obtain rel where o: "out = DATA_ROOT @ ''/assets/local/'' @ rel" and s: "segments_safe rel" and c: "length out < cap"
    by (auto simp: find_packaged_local_fallback_def Let_def split: if_splits)
  show "starts_with (DATA_ROOT @ ''/assets/local/'') out" unfolding starts_with_append by (rule exI [of _ rel]) (simp add: o)
  show "length out < cap" by (rule c)
  have "dotdot_free ((DATA_ROOT @ ''/assets/local'') @ CHR ''/'' # rel)"
    by (rule dotdot_free_append [THEN iffD2]) (use root_free(4) segments_safe_free [OF s] in blast)
  then show "dotdot_free out" by (simp add: o)
qed

theorem paths_confined_witness:
  "under DATA_ROOT (DATA_ROOT @ ''/files/save.dat'') \<and>
   file_translate (Some (ANDROID_DATA_DIR @ ''/files/save.dat'')) 4096 = (1, Some (DATA_ROOT @ ''/files/save.dat''))"
proof -
  have "translate (ANDROID_DATA_DIR @ ''/files/save.dat'') = Some (DATA_ROOT @ ''/files/save.dat'')" by code_simp
  moreover have "length (DATA_ROOT @ ''/files/save.dat'') < (4096 :: nat)" by (simp add: DATA_ROOT_def)
  ultimately show ?thesis using paths_confined [of "ANDROID_DATA_DIR @ ''/files/save.dat''" "DATA_ROOT @ ''/files/save.dat''" 4096]
    by blast
qed

end
