(* ===== verification/Startup.thy ===== *)
theory Startup
  imports Loader Paths
begin

text \<open>
  Start-up: the division of the process heap and the loading of the three game libraries
  (\<^verbatim>\<open>source/runtime.c\<close>), the stack the game runs on (\<^verbatim>\<open>source/guest_stack.c\<close>), and the non-local jumps
  of bionic's ABI (\<^verbatim>\<open>source/bionic_jump.c\<close>).
\<close>

section \<open>The heap of the process\<close>

text \<open>
  Addresses and sizes are naturals: user addresses of the console have 39 bits, so that no sum
  here reaches \<open>2 ^ 64\<close>.  \<open>query a\<close> is what \<^verbatim>\<open>svcQueryMemory\<close> tells of the region around \<open>a\<close>: its
  start, its size, and whether it is heap.
\<close>

definition SO_ARENA_BYTES :: nat where "SO_ARENA_BYTES = 96 * 1024 * 1024"
definition UNITY_MMAP_ARENA_BYTES :: nat where "UNITY_MMAP_ARENA_BYTES = 2112 * 1024 * 1024"
definition UNITY_MMAP_SLOT_BYTES :: nat where "UNITY_MMAP_SLOT_BYTES = 64 * 1024 * 1024"
definition MIN_NEWLIB_HEAP_BYTES :: nat where "MIN_NEWLIB_HEAP_BYTES = 768 * 1024 * 1024"
definition HOST_PROCESS_HEADROOM_BYTES :: nat where "HOST_PROCESS_HEADROOM_BYTES = 0"

fun walk_heap :: "(nat \<Rightarrow> (nat \<times> nat \<times> bool) option) \<Rightarrow> nat \<Rightarrow> nat \<Rightarrow> nat" where
  "walk_heap query 0 base = base"
| "walk_heap query (Suc guard) base =
     (if base = 0 then base
      else case query (base - 1) of
             None \<Rightarrow> base
           | Some (a, n, heap) \<Rightarrow> if \<not> heap \<or> a + n \<noteq> base then base else walk_heap query guard a)"

definition runtime_find_loader_heap_base :: "(nat \<Rightarrow> (nat \<times> nat \<times> bool) option) \<Rightarrow> nat \<Rightarrow> nat \<Rightarrow> nat option" where
  "runtime_find_loader_heap_base query lo hi =
     (if lo = 0 \<or> hi \<le> lo then None
      else case query lo of
        None \<Rightarrow> None
      | Some (a, _, heap) \<Rightarrow>
          if \<not> heap then None
          else let base = walk_heap query 4096 a
               in case query (hi - 1) of
                    None \<Rightarrow> None
                  | Some (_, _, heap') \<Rightarrow> if \<not> heap' \<or> lo \<le> base then None else Some base)"

text \<open>The size left, and the status: 0 not attempted, 1 success, -1 validation, -2 the system call failed.\<close>

definition runtime_release_override_headroom ::
  "nat \<Rightarrow> (nat \<Rightarrow> (nat \<times> nat \<times> bool) option) \<Rightarrow> (nat \<Rightarrow> nat option) \<Rightarrow> nat \<Rightarrow> nat \<Rightarrow> nat \<times> int" where
  "runtime_release_override_headroom headroom query set_heap lo sz =
     (if lo = 0 \<or> sz = 0 \<or> headroom = 0 then (sz, 0)
      else if sz \<le> headroom then (sz, - 1)
      else case runtime_find_loader_heap_base query lo (lo + sz) of
        None \<Rightarrow> (sz, - 1)
      | Some base \<Rightarrow>
          let tot = lo + sz - base
          in if headroom mod 0x200000 \<noteq> 0 \<or> tot \<le> headroom \<or> sz \<le> headroom then (sz, - 1)
             else case set_heap (tot - headroom) of
                    None \<Rightarrow> (sz, - 2)
                  | Some nb \<Rightarrow> if nb \<noteq> base then (sz, - 2) else (sz - headroom, 1))"

definition own_heap_size :: "nat \<Rightarrow> nat \<Rightarrow> nat" where
  "own_heap_size tot used =
     (let reserve = 0x400000 + HOST_PROCESS_HEADROOM_BYTES;
          n = (if used + reserve < tot then 0x200000 * ((tot - used - reserve) div 0x200000) else 0)
      in if n < 0x20000000 then 0x20000000 else n)"

function fit_arena :: "nat \<Rightarrow> nat \<Rightarrow> nat \<Rightarrow> nat" where
  "fit_arena heap_lo mmap_hi n =
     (if n < UNITY_MMAP_SLOT_BYTES then n
      else if heap_lo + n + SO_ARENA_BYTES \<le> mmap_hi \<and> heap_lo + MIN_NEWLIB_HEAP_BYTES \<le> mmap_hi - n - SO_ARENA_BYTES then n
      else fit_arena heap_lo mmap_hi (n - UNITY_MMAP_SLOT_BYTES))"
  by pat_completeness auto
termination
  by (relation "measure (\<lambda>(lo, hi, n). n)") (auto simp: UNITY_MMAP_SLOT_BYTES_def)

declare fit_arena.simps [simp del]

record layout =
  fake_heap_start :: nat
  fake_heap_end :: nat
  so_arena :: nat
  mmap_arena :: nat
  mmap_arena_size :: nat
  heap_total :: nat

text \<open>\<open>None\<close> is the abort when not even one slot fits.\<close>

definition heap_layout :: "nat \<Rightarrow> nat \<Rightarrow> layout option" where
  "heap_layout heap_lo sz =
     (let heap_hi = heap_lo + sz;
          mmap_hi = UNITY_MMAP_SLOT_BYTES * (heap_hi div UNITY_MMAP_SLOT_BYTES);
          n = fit_arena heap_lo mmap_hi UNITY_MMAP_ARENA_BYTES
      in if n < UNITY_MMAP_SLOT_BYTES then None
         else let mmap_lo = mmap_hi - n; so_lo = mmap_lo - SO_ARENA_BYTES
              in Some \<lparr>fake_heap_start = heap_lo, fake_heap_end = so_lo, so_arena = so_lo, mmap_arena = mmap_lo,
                       mmap_arena_size = n, heap_total = sz\<rparr>)"

text \<open>
  \<open>over\<close> is the heap the loader handed over; otherwise \<open>tot\<close> and \<open>used\<close> are what the kernel reports and
  \<open>set_heap\<close> the address it gives a heap of a size.
\<close>

definition libnx_initheap ::
  "(nat \<times> nat) option \<Rightarrow> (nat \<Rightarrow> (nat \<times> nat \<times> bool) option) \<Rightarrow> (nat \<Rightarrow> nat option) \<Rightarrow> nat \<Rightarrow> nat \<Rightarrow> layout option" where
  "libnx_initheap over query set_heap tot used =
     (case over of
        Some (lo, sz) \<Rightarrow>
          heap_layout lo (fst (runtime_release_override_headroom HOST_PROCESS_HEADROOM_BYTES query set_heap lo sz))
      | None \<Rightarrow>
          (case set_heap (own_heap_size tot used) of
             None \<Rightarrow> None
           | Some lo \<Rightarrow> heap_layout lo (own_heap_size tot used)))"

section \<open>Loading the libraries\<close>

text \<open>Each library is loaded at the cursor; \<open>left\<close> is the space that remains.\<close>

fun load_all ::
  "(string \<Rightarrow> load_env) \<Rightarrow> mem \<Rightarrow> string list \<Rightarrow> u64 \<Rightarrow> u64 \<Rightarrow> so_module list \<Rightarrow> (so_module \<times> u64) list option" where
  "load_all env arena [] cur left gs = Some []"
| "load_all env arena (n # ns) cur left gs =
     (case so_load (env n) (DATA_ROOT @ ''/'' @ n) True left (\<lambda>x. arena (cur + x)) gs of
        (Inl _, _) \<Rightarrow> None
      | (Inr md, gs') \<Rightarrow>
          let used = align_page (load_size md)
          in case load_all env arena ns (cur + used) (left - used) gs' of
               None \<Rightarrow> None
             | Some mds \<Rightarrow> Some ((md, cur) # mds))"

fun relocate_mods :: "so_module list \<Rightarrow> so_module list option" where
  "relocate_mods [] = Some []"
| "relocate_mods (m # ms) =
     (case so_relocate m of
        None \<Rightarrow> None
      | Some m' \<Rightarrow> (case relocate_mods ms of None \<Rightarrow> None | Some ms' \<Rightarrow> Some (m' # ms')))"

text \<open>Symbols are resolved one module after the other, each against the other modules in load order.\<close>

fun resolve_mods ::
  "(string \<times> u64) list \<Rightarrow> u64 \<Rightarrow> (string \<Rightarrow> u64) \<Rightarrow> so_module list \<Rightarrow> so_module list \<Rightarrow> nat \<times> so_module list" where
  "resolve_mods funcs fallback extra done [] = (0, done)"
| "resolve_mods funcs fallback extra done (m # ms) =
     (case so_resolve (done @ ms) funcs fallback extra m of
        (k, m') \<Rightarrow> (case resolve_mods funcs fallback extra (done @ [m']) ms of (n, all) \<Rightarrow> (k + n, all)))"

text \<open>
  The steps in order, with the codes of the failures; the result are the modules and the permission
  calls of each.  \<open>ids\<close> are the expected build identifiers.
\<close>

definition runtime_load_modules ::
  "(string \<Rightarrow> load_env) \<Rightarrow> (string \<times> string) list \<Rightarrow> mem \<Rightarrow> u64 \<Rightarrow> (string \<times> u64) list \<Rightarrow> u64 \<Rightarrow> (string \<Rightarrow> u64) \<Rightarrow>
   (so_module \<Rightarrow> (nat \<times> nat \<times> bool) list option) \<Rightarrow> int + (so_module \<times> (nat \<times> nat \<times> bool) list) list option" where
  "runtime_load_modules env ids arena arena_size funcs fallback extra finalize =
     (case load_all env arena (map fst ids) 0 arena_size [] of
        None \<Rightarrow> Inl (- 1)
      | Some placed \<Rightarrow>
          if \<not> list_all (\<lambda>(n, i). so_check_build_id (the_file (env n)) (Some i)) ids then Inl (- 11)
          else case relocate_mods (map fst placed) of
            None \<Rightarrow> Inl (- 2)
          | Some ms \<Rightarrow>
              (case resolve_mods funcs fallback extra [] ms of
                 (missing, ms') \<Rightarrow>
                   if missing \<noteq> 0 then Inl (- 3)
                   else Inr (if \<forall>m\<in>set ms'. finalize m \<noteq> None then Some (map (\<lambda>m. (m, the (finalize m))) ms') else None)))"

section \<open>The guest stack\<close>

record gstack =
  g_stack :: u64
  g_stack_size :: u64
  main_stack_lo :: u64
  main_stack_hi :: u64

definition bionic_set_main_stack_range :: "u64 \<Rightarrow> u64 \<Rightarrow> gstack \<Rightarrow> gstack" where
  "bionic_set_main_stack_range base n s =
     s\<lparr>main_stack_lo := base, main_stack_hi := (if base \<noteq> 0 then base + n else 0)\<rparr>"

definition guest_stack_init :: "u64 \<Rightarrow> (u64 \<Rightarrow> u64 option) \<Rightarrow> gstack \<Rightarrow> int \<times> gstack" where
  "guest_stack_init bytes alloc s =
     (if g_stack s \<noteq> 0 then (0, s)
      else let b = align_page (if bytes < 2 * 1024 * 1024 then 2 * 1024 * 1024 else bytes)
           in case alloc b of
                None \<Rightarrow> (- 1, s)
              | Some p \<Rightarrow> (0, bionic_set_main_stack_range p b (s\<lparr>g_stack := p, g_stack_size := b\<rparr>)))"

definition guest_stack_shutdown :: "gstack \<Rightarrow> gstack" where
  "guest_stack_shutdown s =
     (if g_stack s = 0 then s else (bionic_set_main_stack_range 0 0 s)\<lparr>g_stack := 0, g_stack_size := 0\<rparr>)"

text \<open>Where a function runs: not at all, on the caller's stack, or on the guest stack from its top.\<close>

datatype call_stack = NoFunction | CallerStack | GuestStack u64

definition guest_stack_call :: "bool \<Rightarrow> gstack \<Rightarrow> call_stack" where
  "guest_stack_call fn s =
     (if \<not> fn then NoFunction
      else if g_stack s = 0 \<or> g_stack_size s < 0x1000 then CallerStack
      else GuestStack ((g_stack s + g_stack_size s) AND NOT 0xf))"

section \<open>Non-local jumps\<close>

text \<open>The registers the two routines touch, and the jump buffer as words by offset.\<close>

record regs =
  xr :: "nat \<Rightarrow> u64"
  dr :: "nat \<Rightarrow> u64"
  sp :: u64

type_synonym jmpbuf = "nat \<Rightarrow> u64"

definition bionic_setjmp :: "regs \<Rightarrow> jmpbuf \<Rightarrow> regs \<times> jmpbuf" where
  "bionic_setjmp r env =
     (r\<lparr>xr := (xr r)(2 := sp r, 0 := 0)\<rparr>,
      env(0 := xr r 19, 8 := xr r 20, 16 := xr r 21, 24 := xr r 22, 32 := xr r 23, 40 := xr r 24,
          48 := xr r 25, 56 := xr r 26, 64 := xr r 27, 72 := xr r 28, 80 := xr r 29, 88 := xr r 30,
          96 := sp r,
          104 := dr r 8, 112 := dr r 9, 120 := dr r 10, 128 := dr r 11,
          136 := dr r 12, 144 := dr r 13, 152 := dr r 14, 160 := dr r 15,
          168 := xr r 18))"

text \<open>The second argument is in \<^verbatim>\<open>w1\<close>, the low half of \<^verbatim>\<open>x1\<close>; control returns to \<^verbatim>\<open>x30\<close>.\<close>

definition bionic_longjmp :: "regs \<Rightarrow> jmpbuf \<Rightarrow> regs" where
  "bionic_longjmp r env =
     (let w1 = (ucast (xr r 1) :: u32)
      in r\<lparr>dr := (dr r)(8 := env 104, 9 := env 112, 10 := env 120, 11 := env 128,
                         12 := env 136, 13 := env 144, 14 := env 152, 15 := env 160),
           xr := (xr r)(3 := env 96, 18 := env 168, 19 := env 0, 20 := env 8, 21 := env 16, 22 := env 24,
                         23 := env 32, 24 := env 40, 25 := env 48, 26 := env 56, 27 := env 64, 28 := env 72,
                         29 := env 80, 30 := env 88, 2 := 1, 0 := ucast (if w1 \<noteq> 0 then w1 else 1)),
           sp := env 96\<rparr>)"

text \<open>The registers a call must preserve, with the return address and the platform register.\<close>

definition callee_saved_eq :: "regs \<Rightarrow> regs \<Rightarrow> bool" where
  "callee_saved_eq r q \<longleftrightarrow>
     (\<forall>i\<in>{18..30}. xr r i = xr q i) \<and> (\<forall>i\<in>{8..15}. dr r i = dr q i) \<and> sp r = sp q"

section \<open>Properties\<close>

definition arena_fits :: "nat \<Rightarrow> nat \<Rightarrow> nat \<Rightarrow> bool" where
  "arena_fits lo mmap_hi n \<longleftrightarrow> lo + MIN_NEWLIB_HEAP_BYTES + SO_ARENA_BYTES + n \<le> mmap_hi"

lemma fit_arena_spec:
  assumes "n = k * UNITY_MMAP_SLOT_BYTES"
  shows "let r = fit_arena lo hi n
    in UNITY_MMAP_SLOT_BYTES dvd r \<and> r \<le> n \<and> (r \<noteq> 0 \<longrightarrow> arena_fits lo hi r) \<and>
       (\<forall>j. 0 < j \<and> j \<le> k \<and> arena_fits lo hi (j * UNITY_MMAP_SLOT_BYTES) \<longrightarrow> j * UNITY_MMAP_SLOT_BYTES \<le> r)"
  using assms
proof (induction k arbitrary: n)
  case 0
  then show ?case by (subst fit_arena.simps) (simp add: UNITY_MMAP_SLOT_BYTES_def)
next
  case (Suc k)
  have pos: "0 < UNITY_MMAP_SLOT_BYTES" by (simp add: UNITY_MMAP_SLOT_BYTES_def)
  have n: "\<not> n < UNITY_MMAP_SLOT_BYTES" using Suc.prems by simp
  have cond: "lo + n + SO_ARENA_BYTES \<le> hi \<and> lo + MIN_NEWLIB_HEAP_BYTES \<le> hi - n - SO_ARENA_BYTES \<longleftrightarrow> arena_fits lo hi n"
    by (auto simp: arena_fits_def MIN_NEWLIB_HEAP_BYTES_def)
  show ?case
  proof (cases "arena_fits lo hi n")
    case True
    then have "fit_arena lo hi n = n" using cond n by (subst fit_arena.simps) simp
    moreover have "j * UNITY_MMAP_SLOT_BYTES \<le> n" if "j \<le> Suc k" for j
      unfolding Suc.prems using that by (rule mult_le_mono1)
    ultimately show ?thesis using True Suc.prems by (auto simp: Let_def)
  next
    case False
    have e: "fit_arena lo hi n = fit_arena lo hi (n - UNITY_MMAP_SLOT_BYTES)"
      using cond n False by (subst fit_arena.simps) auto
    have IH: "let r = fit_arena lo hi (n - UNITY_MMAP_SLOT_BYTES)
      in UNITY_MMAP_SLOT_BYTES dvd r \<and> r \<le> n - UNITY_MMAP_SLOT_BYTES \<and> (r \<noteq> 0 \<longrightarrow> arena_fits lo hi r) \<and>
       (\<forall>j. 0 < j \<and> j \<le> k \<and> arena_fits lo hi (j * UNITY_MMAP_SLOT_BYTES) \<longrightarrow> j * UNITY_MMAP_SLOT_BYTES \<le> r)"
      by (rule Suc.IH) (simp add: Suc.prems)
    have last: "\<not> arena_fits lo hi (Suc k * UNITY_MMAP_SLOT_BYTES)" using False Suc.prems by simp
    show ?thesis using IH last unfolding e Let_def by (auto simp: le_Suc_eq)
  qed
qed

text \<open>
  The heap of the process is divided without overlap: the C heap, which has at least 768 MiB,
  is followed by the arena of the libraries and by the arena for the game's mappings, which is
  aligned to its 64 MiB slots and lies inside the heap.  The mapping arena is the largest number
  of slots, up to 33, that leaves the other two their sizes, and start-up aborts exactly when
  there is no room for one.
\<close>

theorem heap_layout_partition:
  "let slot = UNITY_MMAP_SLOT_BYTES; top = slot * ((lo + sz) div slot);
       room = (\<lambda>j. lo + MIN_NEWLIB_HEAP_BYTES + SO_ARENA_BYTES + j * slot \<le> top)
   in (case heap_layout lo sz of
         None \<Rightarrow> \<not> room 1
       | Some L \<Rightarrow>
           fake_heap_start L = lo \<and> lo + MIN_NEWLIB_HEAP_BYTES \<le> fake_heap_end L \<and> so_arena L = fake_heap_end L \<and>
           so_arena L + SO_ARENA_BYTES = mmap_arena L \<and> mmap_arena L + mmap_arena_size L \<le> lo + sz \<and>
           slot dvd mmap_arena L \<and>
           (\<exists>k. mmap_arena_size L = k * slot \<and> 1 \<le> k \<and> k \<le> 33 \<and> (\<forall>j\<le>33. room j \<longrightarrow> j \<le> k)))"
proof -
  let ?S = UNITY_MMAP_SLOT_BYTES
  let ?top = "?S * ((lo + sz) div ?S)"
  have pos: "0 < ?S" by (simp add: UNITY_MMAP_SLOT_BYTES_def)
  have A: "UNITY_MMAP_ARENA_BYTES = 33 * ?S" by (simp add: UNITY_MMAP_ARENA_BYTES_def UNITY_MMAP_SLOT_BYTES_def)
  define n where "n = fit_arena lo ?top UNITY_MMAP_ARENA_BYTES"
  from fit_arena_spec [OF A, of lo ?top] have spec: "?S dvd n" "n \<le> 33 * ?S" "n \<noteq> 0 \<longrightarrow> arena_fits lo ?top n"
    "\<And>j. 0 < j \<Longrightarrow> j \<le> 33 \<Longrightarrow> arena_fits lo ?top (j * ?S) \<Longrightarrow> j * ?S \<le> n"
    by (simp_all add: n_def [symmetric] A [symmetric] Let_def)
  from spec(1) obtain k where k: "n = k * ?S" by (metis dvdE mult.commute)
  have room: "arena_fits lo ?top (j * ?S) \<longleftrightarrow> lo + MIN_NEWLIB_HEAP_BYTES + SO_ARENA_BYTES + j * ?S \<le> ?top" for j
    by (simp add: arena_fits_def)
  have top: "?top \<le> lo + sz" by (simp add: mult.commute)
  show ?thesis
  proof (cases "n < ?S")
    case True
    then have "k = 0" using k pos by (cases k) auto
    then have "\<not> arena_fits lo ?top (1 * ?S)" using spec(4) [of 1] k pos by auto
    with True room [of 1] show ?thesis by (simp add: heap_layout_def Let_def n_def)
  next
    case False
    then have k1: "1 \<le> k" using k pos by (cases k) auto
    have k33: "k \<le> 33" using spec(2) k pos by simp
    have fits: "lo + MIN_NEWLIB_HEAP_BYTES + SO_ARENA_BYTES + n \<le> ?top" using spec(3) False pos by (auto simp: arena_fits_def)
    have best: "j \<le> k" if "j \<le> 33" "lo + MIN_NEWLIB_HEAP_BYTES + SO_ARENA_BYTES + j * ?S \<le> ?top" for j
      using spec(4) [of j] that room k pos by (cases "j = 0") auto
    have d: "?S dvd ?top - n" by (intro dvd_diff_nat) (use spec(1) in simp_all)
    have L: "heap_layout lo sz = Some \<lparr>fake_heap_start = lo, fake_heap_end = ?top - n - SO_ARENA_BYTES,
        so_arena = ?top - n - SO_ARENA_BYTES, mmap_arena = ?top - n, mmap_arena_size = n, heap_total = sz\<rparr>"
      using False by (simp add: heap_layout_def Let_def n_def)
    have ex: "\<exists>k. n = k * ?S \<and> 1 \<le> k \<and> k \<le> 33 \<and>
        (\<forall>j\<le>33. lo + MIN_NEWLIB_HEAP_BYTES + SO_ARENA_BYTES + j * ?S \<le> ?top \<longrightarrow> j \<le> k)"
      using k k1 k33 best by blast
    have arith: "lo + MIN_NEWLIB_HEAP_BYTES \<le> ?top - n - SO_ARENA_BYTES" "?top - n - SO_ARENA_BYTES + SO_ARENA_BYTES = ?top - n"
      "?top - n + n \<le> lo + sz" using fits top by linarith+
    from ex arith d show ?thesis unfolding Let_def L by simp
  qed
qed

theorem heap_layout_partition_witness:
  "\<exists>L k. heap_layout 0x8000000 (3 * 1024 * 1024 * 1024) = Some L \<and> mmap_arena_size L = k * UNITY_MMAP_SLOT_BYTES \<and> 1 \<le> k"
proof -
  have r: "0x8000000 + MIN_NEWLIB_HEAP_BYTES + SO_ARENA_BYTES + 1 * UNITY_MMAP_SLOT_BYTES
      \<le> UNITY_MMAP_SLOT_BYTES * ((0x8000000 + 3 * 1024 * 1024 * 1024) div UNITY_MMAP_SLOT_BYTES)"
    by (simp add: MIN_NEWLIB_HEAP_BYTES_def SO_ARENA_BYTES_def UNITY_MMAP_SLOT_BYTES_def)
  with heap_layout_partition [of "0x8000000" "3 * 1024 * 1024 * 1024"] show ?thesis
    unfolding Let_def by (auto split: option.splits)
qed

text \<open>
  A jump back to a saved buffer restores every register a call must preserve, the stack
  pointer and the address \<open>setjmp\<close> returned to, from whatever registers it is made, and makes
  \<open>setjmp\<close> return again with the value passed, or 1 if that is 0, while the first return gave 0.
\<close>

theorem setjmp_longjmp_roundtrip:
  "case bionic_setjmp r env of (r1, env1) \<Rightarrow>
     xr r1 0 = 0 \<and> callee_saved_eq r r1 \<and>
     (\<forall>q. callee_saved_eq r (bionic_longjmp q env1) \<and>
        xr (bionic_longjmp q env1) 0 = (if ucast (xr q 1) = (0 :: u32) then 1 else ucast (ucast (xr q 1) :: u32)))"
proof -
  have x: "{18..30 :: nat} = {18, 19, 20, 21, 22, 23, 24, 25, 26, 27, 28, 29, 30}"
    by (intro set_eqI) (simp only: atLeastAtMost_iff insert_iff empty_iff, presburger)
  have d: "{8..15 :: nat} = {8, 9, 10, 11, 12, 13, 14, 15}"
    by (intro set_eqI) (simp only: atLeastAtMost_iff insert_iff empty_iff, presburger)
  show ?thesis
    unfolding callee_saved_eq_def x d by (simp add: bionic_setjmp_def bionic_longjmp_def Let_def)
qed

end
