(* ===== verification/Input.thy ===== *)
theory Input
  imports Prelude Complex_Main
begin

text \<open>
  Touch and controller input (\<^verbatim>\<open>source/input.c\<close>): the machine that turns touches and a cursor moved by the
  stick into the pointer events of one finger.  Coordinates are rationals where the code has
  \<^verbatim>\<open>float\<close>s (their rounding is not modelled); the clock is an argument.
\<close>

section \<open>State\<close>

datatype action = ActionDown | ActionUp | ActionMove

record event =
  ev_action :: action
  ev_x :: rat
  ev_y :: rat
  ev_down_ms :: int
  ev_ms :: int

text \<open>\<open>None\<close> for \<open>g_touch_finger_id\<close> is \<^verbatim>\<open>TOUCH_INVALID_FINGER_ID\<close>; the cursor and dock states start at -1.\<close>

record input =
  g_cursor_x :: rat
  g_cursor_y :: rat
  g_controller_pressed :: bool
  g_pointer_down_ms :: int
  g_cursor_visible :: int
  g_previous_docked_state :: int
  g_touch_active :: bool
  g_touch_finger_id :: "nat option"
  g_touch_x :: rat
  g_touch_y :: rat
  sent :: "event list"

text \<open>\<open>sent\<close> are the events injected so far; \<open>w\<close> and \<open>h\<close> the size of the window.\<close>

definition input_init :: "int \<Rightarrow> int \<Rightarrow> input" where
  "input_init w h =
     \<lparr>g_cursor_x = of_int w / 2, g_cursor_y = of_int h / 2, g_controller_pressed = False, g_pointer_down_ms = 0,
      g_cursor_visible = - 1, g_previous_docked_state = - 1, g_touch_active = False, g_touch_finger_id = None,
      g_touch_x = 0, g_touch_y = 0, sent = []\<rparr>"

record frame =
  fr_held :: bool
  fr_down :: bool
  fr_up :: bool
  fr_plus :: bool
  fr_minus :: bool
  fr_docked :: bool
  fr_touches :: "(nat \<times> nat \<times> nat) list"
  fr_stick :: "int \<times> int"
  fr_now :: int

text \<open>\<open>fr_held\<close>, \<open>fr_down\<close> and \<open>fr_up\<close> are for the button A.\<close>

section \<open>Events\<close>

definition inject_pointer_event :: "int \<Rightarrow> action \<Rightarrow> rat \<Rightarrow> rat \<Rightarrow> input \<Rightarrow> input" where
  "inject_pointer_event now a x y s =
     (let s1 = (if a = ActionDown then s\<lparr>g_pointer_down_ms := now\<rparr> else s)
      in s1\<lparr>sent := sent s1 @ [\<lparr>ev_action = a, ev_x = x, ev_y = y, ev_down_ms = g_pointer_down_ms s1, ev_ms = now\<rparr>]\<rparr>)"

text \<open>The two pairs of comparisons, in their order.\<close>

definition clamp_to :: "rat \<Rightarrow> rat \<Rightarrow> rat" where
  "clamp_to m x = (let x1 = (if x < 0 then 0 else x) in if m < x1 then m else x1)"

fun find_finger :: "nat option \<Rightarrow> (nat \<times> nat \<times> nat) list \<Rightarrow> (nat \<times> nat) option" where
  "find_finger f [] = None"
| "find_finger f ((i, p) # ts) = (if Some i = f then Some p else find_finger f ts)"

definition release_controller :: "int \<Rightarrow> input \<Rightarrow> input" where
  "release_controller now s =
     (if g_controller_pressed s
      then (inject_pointer_event now ActionUp (g_cursor_x s) (g_cursor_y s) s)\<lparr>g_controller_pressed := False\<rparr>
      else s)"

text \<open>The touch to follow: that of the finger that is down, or the first one, which then becomes it.\<close>

definition pick_touch :: "frame \<Rightarrow> input \<Rightarrow> (nat \<times> nat) option \<times> input" where
  "pick_touch fr s =
     (if g_touch_active s then (find_finger (g_touch_finger_id s) (fr_touches fr), s)
      else case fr_touches fr of
             [] \<Rightarrow> (None, s)
           | (i, p) # _ \<Rightarrow> (Some p, (release_controller (fr_now fr) s)\<lparr>g_touch_active := True, g_touch_finger_id := Some i\<rparr>))"

definition update_touch_input :: "int \<Rightarrow> int \<Rightarrow> frame \<Rightarrow> input \<Rightarrow> bool \<times> input" where
  "update_touch_input w h fr s =
     (let was_active = g_touch_active s in
      case pick_touch fr s of
        (match, s1) \<Rightarrow>
          let s2 = (case match of
              Some (tx, ty) \<Rightarrow>
                let x = clamp_to (of_int w - 1) (of_nat tx * of_int w / 1280);
                    y = clamp_to (of_int h - 1) (of_nat ty * of_int h / 720)
                in (inject_pointer_event (fr_now fr) (if was_active then ActionMove else ActionDown) x y s1)
                     \<lparr>g_touch_x := x, g_touch_y := y, g_cursor_x := x, g_cursor_y := y\<rparr>
            | None \<Rightarrow>
                if was_active
                then (inject_pointer_event (fr_now fr) ActionUp (g_touch_x s1) (g_touch_y s1) s1)
                       \<lparr>g_touch_active := False, g_touch_finger_id := None\<rparr>
                else s1)
          in (was_active \<or> g_touch_active s2, s2))"

definition move_cursor :: "int \<Rightarrow> int \<Rightarrow> frame \<Rightarrow> input \<Rightarrow> input" where
  "move_cursor w h fr s =
     s\<lparr>g_cursor_x := clamp_to (of_int w - 1) (g_cursor_x s + of_int (fst (fr_stick fr)) / 32767 * 14),
       g_cursor_y := clamp_to (of_int h - 1) (g_cursor_y s - of_int (snd (fr_stick fr)) / 32767 * 14)\<rparr>"

definition update_controller_cursor :: "int \<Rightarrow> int \<Rightarrow> frame \<Rightarrow> input \<Rightarrow> input" where
  "update_controller_cursor w h fr s =
     (let s1 = move_cursor w h fr s;
          s2 = (if fr_down fr
                then (inject_pointer_event (fr_now fr) ActionDown (g_cursor_x s1) (g_cursor_y s1) s1)\<lparr>g_controller_pressed := True\<rparr>
                else if g_controller_pressed s1 \<and> fr_held fr
                then inject_pointer_event (fr_now fr) ActionMove (g_cursor_x s1) (g_cursor_y s1) s1
                else s1)
      in if fr_up fr \<and> g_controller_pressed s2
         then (inject_pointer_event (fr_now fr) ActionUp (g_cursor_x s2) (g_cursor_y s2) s2)\<lparr>g_controller_pressed := False\<rparr>
         else s2)"

definition note_docked :: "bool \<Rightarrow> input \<Rightarrow> input" where
  "note_docked docked s =
     (if of_bool docked \<noteq> g_previous_docked_state s
      then (if g_cursor_visible s < 0 \<or> docked then s\<lparr>g_cursor_visible := of_bool docked\<rparr> else s)
             \<lparr>g_previous_docked_state := of_bool docked\<rparr>
      else s)"

definition input_feed :: "int \<Rightarrow> int \<Rightarrow> frame \<Rightarrow> input \<Rightarrow> input" where
  "input_feed w h fr s =
     (let s1 = note_docked (fr_docked fr) s;
          s2 = (if fr_plus fr then s1\<lparr>g_cursor_visible := 1\<rparr> else s1);
          s3 = (if fr_minus fr then (release_controller (fr_now fr) s2)\<lparr>g_cursor_visible := 0\<rparr> else s2)
      in case (if \<not> fr_docked fr then update_touch_input w h fr s3 else (False, s3)) of
           (busy, s4) \<Rightarrow> if \<not> busy \<and> 0 < g_cursor_visible s4 then update_controller_cursor w h fr s4 else s4)"

definition input_cursor_visible :: "input \<Rightarrow> bool" where
  "input_cursor_visible s \<longleftrightarrow> 0 < g_cursor_visible s"

text \<open>The rectangles of the cursor, cut to the window; the origin of the scissor box is at the bottom.\<close>

definition draw_cursor_rect :: "int \<Rightarrow> int \<Rightarrow> int \<Rightarrow> int \<Rightarrow> int \<Rightarrow> int \<Rightarrow> (int \<times> int \<times> int \<times> int) option" where
  "draw_cursor_rect x0 y0 w0 h0 sw sh =
     (if w0 \<le> 0 \<or> h0 \<le> 0 \<or> sw \<le> x0 \<or> sh \<le> y0 \<or> x0 + w0 \<le> 0 \<or> y0 + h0 \<le> 0 then None
      else let (x, w1) = (if x0 < 0 then (0, w0 + x0) else (x0, w0));
               (y, h1) = (if y0 < 0 then (0, h0 + y0) else (y0, h0));
               w = (if sw < x + w1 then sw - x else w1);
               h = (if sh < y + h1 then sh - y else h1)
           in if w \<le> 0 \<or> h \<le> 0 then None else Some (x, sh - (y + h), w, h))"

section \<open>The order of events\<close>

text \<open>
  What a touch screen with one finger can produce: \<open>pressed d es\<close> is whether the finger is down
  after \<open>es\<close>, when it was (\<open>d\<close>) before, and \<open>None\<close> when the order is impossible.
\<close>

fun pressed :: "bool \<Rightarrow> event list \<Rightarrow> bool option" where
  "pressed d [] = Some d"
| "pressed d (e # es) =
     (case ev_action e of
        ActionDown \<Rightarrow> if d then None else pressed True es
      | ActionMove \<Rightarrow> if d then pressed d es else None
      | ActionUp \<Rightarrow> if d then pressed False es else None)"

lemma pressed_append: "pressed d (es @ fs) = (case pressed d es of None \<Rightarrow> None | Some d' \<Rightarrow> pressed d' fs)"
  by (induction d es rule: pressed.induct) (auto split: action.splits)

definition in_window :: "int \<Rightarrow> int \<Rightarrow> event \<Rightarrow> bool" where
  "in_window w h e \<longleftrightarrow> 0 \<le> ev_x e \<and> ev_x e \<le> of_int w - 1 \<and> 0 \<le> ev_y e \<and> ev_y e \<le> of_int h - 1"

definition in_range :: "int \<Rightarrow> rat \<Rightarrow> bool" where
  "in_range n x \<longleftrightarrow> 0 \<le> x \<and> x \<le> of_int n - 1"

lemma clamp_range: "1 \<le> n \<Longrightarrow> in_range n (clamp_to (of_int n - 1) x)"
  by (auto simp: in_range_def clamp_to_def Let_def)

definition coords_ok :: "int \<Rightarrow> int \<Rightarrow> input \<Rightarrow> bool" where
  "coords_ok w h s \<longleftrightarrow> in_range w (g_cursor_x s) \<and> in_range h (g_cursor_y s) \<and>
     (g_touch_active s \<longrightarrow> in_range w (g_touch_x s) \<and> in_range h (g_touch_y s)) \<and>
     (\<forall>e\<in>set (sent s). in_range w (ev_x e) \<and> in_range h (ev_y e))"

text \<open>\<open>a\<close>: whether the button A was held in the last frame.\<close>

definition input_inv :: "int \<Rightarrow> int \<Rightarrow> bool \<Rightarrow> input \<Rightarrow> bool" where
  "input_inv w h a s \<longleftrightarrow> coords_ok w h s \<and>
     pressed False (sent s) = Some (g_controller_pressed s \<or> g_touch_active s) \<and>
     \<not> (g_controller_pressed s \<and> g_touch_active s) \<and>
     (g_controller_pressed s \<longrightarrow> a \<and> 0 < g_cursor_visible s)"

lemma sent_inject:
  "sent (inject_pointer_event now a x y s) = sent s @ [\<lparr>ev_action = a, ev_x = x, ev_y = y,
     ev_down_ms = (if a = ActionDown then now else g_pointer_down_ms s), ev_ms = now\<rparr>]"
  by (simp add: inject_pointer_event_def Let_def)

lemma inject_frames [simp]:
  "g_cursor_x (inject_pointer_event now a x y s) = g_cursor_x s" "g_cursor_y (inject_pointer_event now a x y s) = g_cursor_y s"
  "g_controller_pressed (inject_pointer_event now a x y s) = g_controller_pressed s"
  "g_touch_active (inject_pointer_event now a x y s) = g_touch_active s"
  "g_cursor_visible (inject_pointer_event now a x y s) = g_cursor_visible s"
  "g_touch_x (inject_pointer_event now a x y s) = g_touch_x s" "g_touch_y (inject_pointer_event now a x y s) = g_touch_y s"
  by (simp_all add: inject_pointer_event_def Let_def)

lemma release_inv:
  assumes "input_inv w h a s"
  shows "input_inv w h a (release_controller now s)" "\<not> g_controller_pressed (release_controller now s)"
    "g_touch_active (release_controller now s) = g_touch_active s"
    "g_cursor_visible (release_controller now s) = g_cursor_visible s"
  using assms by (auto simp: release_controller_def input_inv_def coords_ok_def sent_inject pressed_append)

lemma visible_inv: "input_inv w h a s \<Longrightarrow> 0 < v \<or> \<not> g_controller_pressed s \<Longrightarrow> input_inv w h a (s\<lparr>g_cursor_visible := v\<rparr>)"
  by (auto simp: input_inv_def coords_ok_def)

lemma docked_inv: "input_inv w h a s \<Longrightarrow> input_inv w h a (note_docked d s)"
  by (cases d) (auto simp: note_docked_def input_inv_def coords_ok_def)

lemma docked_touch [simp]: "g_touch_active (note_docked d s) = g_touch_active s"
  by (simp add: note_docked_def)

lemma touch_inv:
  assumes inv: "input_inv w h a s" and wh: "1 \<le> w" "1 \<le> h" and t: "update_touch_input w h fr s = (busy, s')"
  shows "input_inv w h a s' \<and> (g_controller_pressed s' \<longrightarrow> \<not> busy) \<and> (\<not> busy \<longrightarrow> \<not> g_touch_active s')"
proof -
  let ?x = "\<lambda>p :: nat \<times> nat. clamp_to (of_int w - 1) (of_nat (fst p) * of_int w / 1280)"
  let ?y = "\<lambda>p :: nat \<times> nat. clamp_to (of_int h - 1) (of_nat (snd p) * of_int h / 720)"
  have r: "in_range w (?x p)" "in_range h (?y p)" for p using clamp_range wh by blast+
  show ?thesis
  proof (cases "g_touch_active s")
    case True
    then have np: "\<not> g_controller_pressed s" using inv by (auto simp: input_inv_def)
    show ?thesis
    proof (cases "find_finger (g_touch_finger_id s) (fr_touches fr)")
      case None
      then have "busy" "s' = (inject_pointer_event (fr_now fr) ActionUp (g_touch_x s) (g_touch_y s) s)
          \<lparr>g_touch_active := False, g_touch_finger_id := None\<rparr>"
        using t True by (auto simp: update_touch_input_def pick_touch_def Let_def)
      with inv True np show ?thesis by (auto simp: input_inv_def coords_ok_def sent_inject pressed_append)
    next
      case (Some p)
      then have "busy" "s' = (inject_pointer_event (fr_now fr) ActionMove (?x p) (?y p) s)
          \<lparr>g_touch_x := ?x p, g_touch_y := ?y p, g_cursor_x := ?x p, g_cursor_y := ?y p\<rparr>"
        using t True by (auto simp: update_touch_input_def pick_touch_def Let_def split: prod.splits)
      with inv True np r [of p] show ?thesis by (auto simp: input_inv_def coords_ok_def sent_inject pressed_append)
    qed
  next
    case False
    show ?thesis
    proof (cases "fr_touches fr")
      case Nil
      then have "\<not> busy" "s' = s" using t False by (auto simp: update_touch_input_def pick_touch_def Let_def)
      with inv False show ?thesis by simp
    next
      case (Cons q qs)
      let ?s1 = "release_controller (fr_now fr) s" and ?p = "snd q"
      have s': "busy" "s' = (inject_pointer_event (fr_now fr) ActionDown (?x ?p) (?y ?p)
          (?s1\<lparr>g_touch_active := True, g_touch_finger_id := Some (fst q)\<rparr>))
          \<lparr>g_touch_x := ?x ?p, g_touch_y := ?y ?p, g_cursor_x := ?x ?p, g_cursor_y := ?y ?p\<rparr>"
        using t False Cons by (auto simp: update_touch_input_def pick_touch_def Let_def split: prod.splits)
      have "input_inv w h a ?s1" "\<not> g_controller_pressed ?s1" "\<not> g_touch_active ?s1" using release_inv [OF inv] False by auto
      then show ?thesis using r [of ?p] unfolding s'(2) using s'(1) by (auto simp: input_inv_def coords_ok_def sent_inject pressed_append)
    qed
  qed
qed

lemma controller_inv:
  assumes inv: "input_inv w h a s" and wh: "1 \<le> w" "1 \<le> h" and v: "0 < g_cursor_visible s" and nt: "\<not> g_touch_active s"
    and pad: "fr_down fr = (fr_held fr \<and> \<not> a)" "fr_up fr = (\<not> fr_held fr \<and> a)"
  shows "input_inv w h (fr_held fr) (update_controller_cursor w h fr s)"
proof -
  let ?s1 = "move_cursor w h fr s"
  have "in_range w (g_cursor_x ?s1)" "in_range h (g_cursor_y ?s1)" using clamp_range wh by (simp_all add: move_cursor_def)
  moreover have "sent ?s1 = sent s" "g_controller_pressed ?s1 = g_controller_pressed s" "g_touch_active ?s1 = g_touch_active s"
    "g_cursor_visible ?s1 = g_cursor_visible s" by (simp_all add: move_cursor_def)
  ultimately show ?thesis using inv v nt pad
    by (auto simp: update_controller_cursor_def Let_def input_inv_def coords_ok_def sent_inject pressed_append)
qed

lemma idle_inv:
  assumes "input_inv w h a s" and "\<not> g_controller_pressed s"
  shows "input_inv w h b s"
  using assms by (auto simp: input_inv_def)

lemma feed_inv:
  assumes inv: "input_inv w h a s" and wh: "1 \<le> w" "1 \<le> h"
    and pad: "fr_down fr = (fr_held fr \<and> \<not> a)" "fr_up fr = (\<not> fr_held fr \<and> a)"
    and dock: "fr_docked fr \<longrightarrow> \<not> g_touch_active s"
  shows "input_inv w h (fr_held fr) (input_feed w h fr s)"
proof -
  define s1 where "s1 = note_docked (fr_docked fr) s"
  define s2 where "s2 = (if fr_plus fr then s1\<lparr>g_cursor_visible := 1\<rparr> else s1)"
  define s3 where "s3 = (if fr_minus fr then (release_controller (fr_now fr) s2)\<lparr>g_cursor_visible := 0\<rparr> else s2)"
  obtain busy s4 where s4: "(if \<not> fr_docked fr then update_touch_input w h fr s3 else (False, s3)) = (busy, s4)"
    by (cases "if \<not> fr_docked fr then update_touch_input w h fr s3 else (False, s3)")
  have i1: "input_inv w h a s1" "g_touch_active s1 = g_touch_active s" unfolding s1_def using docked_inv [OF inv] by simp_all
  then have i2: "input_inv w h a s2" "g_touch_active s2 = g_touch_active s" unfolding s2_def using visible_inv by auto
  have i3: "input_inv w h a s3" "g_touch_active s3 = g_touch_active s"
    unfolding s3_def using i2 release_inv [OF i2(1)] visible_inv by (auto split: if_splits)
  have i4: "input_inv w h a s4 \<and> (g_controller_pressed s4 \<longrightarrow> \<not> busy) \<and> (\<not> busy \<longrightarrow> \<not> g_touch_active s4)"
  proof (cases "fr_docked fr")
    case True
    then have "s4 = s3" "\<not> busy" using s4 by auto
    with i3 dock True show ?thesis by simp
  next
    case False
    then have "update_touch_input w h fr s3 = (busy, s4)" using s4 by simp
    from touch_inv [OF i3(1) wh this] show ?thesis .
  qed
  have f: "input_feed w h fr s = (if \<not> busy \<and> 0 < g_cursor_visible s4 then update_controller_cursor w h fr s4 else s4)"
    by (simp only: input_feed_def Let_def s1_def [symmetric] s2_def [symmetric] s3_def [symmetric] s4 prod.case)
  show ?thesis
  proof (cases "\<not> busy \<and> 0 < g_cursor_visible s4")
    case True
    then show ?thesis using controller_inv [OF _ wh _ _ pad] i4 by (simp add: f)
  next
    case False
    then have "\<not> g_controller_pressed s4" using i4 by (auto simp: input_inv_def)
    then show ?thesis using idle_inv i4 False by (auto simp: f)
  qed
qed

text \<open>
  Runs: the pad reports \<open>down\<close> and \<open>up\<close> as the changes of \<open>held\<close>, and the console is not docked
  while a finger is on the screen.
\<close>

fun feed_run :: "int \<Rightarrow> int \<Rightarrow> frame list \<Rightarrow> input \<Rightarrow> input" where
  "feed_run w h [] s = s"
| "feed_run w h (f # fs) s = feed_run w h fs (input_feed w h f s)"

fun feed_ok :: "int \<Rightarrow> int \<Rightarrow> bool \<Rightarrow> frame list \<Rightarrow> input \<Rightarrow> bool" where
  "feed_ok w h a [] s = True"
| "feed_ok w h a (f # fs) s \<longleftrightarrow>
     fr_down f = (fr_held f \<and> \<not> a) \<and> fr_up f = (\<not> fr_held f \<and> a) \<and> (fr_docked f \<longrightarrow> \<not> g_touch_active s) \<and>
     feed_ok w h (fr_held f) fs (input_feed w h f s)"

lemma feed_run_inv:
  "input_inv w h a s \<Longrightarrow> 1 \<le> w \<Longrightarrow> 1 \<le> h \<Longrightarrow> feed_ok w h a fs s \<Longrightarrow> \<exists>b. input_inv w h b (feed_run w h fs s)"
proof (induction fs arbitrary: a s)
  case (Cons f fs)
  then show ?case using feed_inv [of w h a s f] by auto
qed auto

lemma half_in_range: "2 \<le> n \<Longrightarrow> in_range n (of_int n / 2)"
proof -
  assume "2 \<le> n"
  then have "(2 :: rat) \<le> of_int n" by (metis of_int_le_iff of_int_numeral)
  then show ?thesis by (simp add: in_range_def field_simps)
qed


definition idle_frame :: frame where
  "idle_frame = \<lparr>fr_held = False, fr_down = False, fr_up = False, fr_plus = False, fr_minus = False, fr_docked = False,
     fr_touches = [], fr_stick = (0, 0), fr_now = 0\<rparr>"


text \<open>Docking with a finger on the screen breaks the order: the next press comes without a release.\<close>

lemma docking_during_touch:
  "pressed False (sent (feed_run 1280 720
     [idle_frame\<lparr>fr_touches := [(3, 100, 50)]\<rparr>, idle_frame\<lparr>fr_docked := True, fr_held := True, fr_down := True\<rparr>]
     (input_init 1280 720))) = None"
  by (simp add: input_feed_def note_docked_def update_touch_input_def pick_touch_def release_controller_def
      update_controller_cursor_def move_cursor_def inject_pointer_event_def clamp_to_def idle_frame_def input_init_def Let_def)

end
