(* ===== verification/PosIo.thy ===== *)
theory PosIo
  imports Paths
begin

text \<open>
  Reading and writing at an offset (\<^verbatim>\<open>file_pread\<close>, \<^verbatim>\<open>file_pwrite\<close> of \<^verbatim>\<open>source/file_bridge.c\<close>): by the
  file system's own calls, in pieces through a bounce buffer when the guest's buffer is refused, or
  by moving the position of the descriptor and back.
\<close>

section \<open>Native access\<close>

text \<open>
  \<open>rd d off n\<close> is a read of the host, into the guest's buffer if \<open>d\<close> and into the bounce buffer
  otherwise: an error code or the bytes.  0xD401 is the code for a buffer the host refuses.
\<close>

definition BAD_BUFFER :: u32 where "BAD_BUFFER = 0xD401"
definition BOUNCE :: nat where "BOUNCE = 0x1000"

type_synonym reader = "bool \<Rightarrow> nat \<Rightarrow> nat \<Rightarrow> u32 + byte list"
type_synonym writer = "bool \<Rightarrow> nat \<Rightarrow> byte list \<Rightarrow> byte list \<Rightarrow> u32 + byte list"

function bounce_read :: "reader \<Rightarrow> nat \<Rightarrow> nat \<Rightarrow> byte list \<Rightarrow> byte list result" where
  "bounce_read rd off count got_so_far =
     (if length got_so_far < count
      then let want = min (count - length got_so_far) BOUNCE
           in case rd False (off + length got_so_far) want of
                Inl e \<Rightarrow> if got_so_far \<noteq> [] then Inr got_so_far else Inl EIO
              | Inr bs \<Rightarrow>
                  let got = take want bs
                  in if length got < want then Inr (got_so_far @ got)
                     else bounce_read rd off count (got_so_far @ got)
      else Inr got_so_far)"
  by pat_completeness auto
termination
  by (relation "measure (\<lambda>(rd, off, count, acc). count - length acc)") (auto simp: BOUNCE_def min_def split: if_splits)

declare bounce_read.simps [simp del]

definition positioned_native_read :: "reader \<Rightarrow> nat \<Rightarrow> nat \<Rightarrow> byte list result" where
  "positioned_native_read rd count off =
     (if count = 0 then Inr []
      else case rd True off count of
             Inr bs \<Rightarrow> Inr bs
           | Inl e \<Rightarrow> if e \<noteq> BAD_BUFFER then Inl EIO else bounce_read rd off count [])"

text \<open>\<open>wr d off bs c\<close> writes to a file of contents \<open>c\<close>.  The result is the count written and the contents.\<close>

function bounce_write :: "writer \<Rightarrow> nat \<Rightarrow> byte list \<Rightarrow> nat \<Rightarrow> byte list \<Rightarrow> nat result \<times> byte list" where
  "bounce_write wr off bs n c =
     (if n < length bs
      then let want = min (length bs - n) BOUNCE
           in case wr False (off + n) (take want (drop n bs)) c of
                Inl e \<Rightarrow> (if n \<noteq> 0 then Inr n else Inl EIO, c)
              | Inr c' \<Rightarrow> bounce_write wr off bs (n + want) c'
      else (Inr n, c))"
  by pat_completeness auto
termination
  by (relation "measure (\<lambda>(wr, off, bs, n, c). length bs - n)") (auto simp: BOUNCE_def min_def)

declare bounce_write.simps [simp del]

definition positioned_native_write :: "writer \<Rightarrow> byte list \<Rightarrow> nat \<Rightarrow> byte list \<Rightarrow> nat result \<times> byte list" where
  "positioned_native_write wr bs off c =
     (if bs = [] then (Inr 0, c)
      else case wr True off bs c of
             Inr c' \<Rightarrow> (Inr (length bs), c')
           | Inl e \<Rightarrow> if e \<noteq> BAD_BUFFER then (Inl EIO, c) else bounce_write wr off bs 0 c)"

section \<open>Access by descriptor\<close>

text \<open>
  The descriptor: whether its position can be read and set, the error of a seek that fails, and
  what reading and writing at a position give.
\<close>

record fd_host =
  tell_ok :: bool
  seek_ok :: "nat \<Rightarrow> bool"
  seek_err :: errno
  fd_read :: "nat \<Rightarrow> nat \<Rightarrow> byte list result"
  fd_write :: "nat \<Rightarrow> byte list \<Rightarrow> nat result"

definition moved :: "nat \<Rightarrow> ('a \<Rightarrow> nat) \<Rightarrow> 'a result \<Rightarrow> nat" where
  "moved off n r = (case r of Inl _ \<Rightarrow> off | Inr x \<Rightarrow> off + n x)"

text \<open>The result and the position afterwards; \<open>act\<close> is what is done at the offset.\<close>

definition with_offset :: "fd_host \<Rightarrow> (nat \<Rightarrow> 'a result) \<Rightarrow> ('a \<Rightarrow> nat) \<Rightarrow> nat \<Rightarrow> nat \<Rightarrow> 'a result \<times> nat" where
  "with_offset h act n off pos =
     (if \<not> tell_ok h \<or> \<not> seek_ok h off then (Inl (seek_err h), pos)
      else let r = act off
           in if seek_ok h pos then (r, pos)
              else (case r of Inl e \<Rightarrow> Inl e | Inr _ \<Rightarrow> Inl (seek_err h), moved off n r))"

definition file_pread ::
  "(host_flags \<times> reader) option \<Rightarrow> fd_host \<Rightarrow> bool \<Rightarrow> nat \<Rightarrow> int \<Rightarrow> nat \<Rightarrow> byte list result \<times> nat" where
  "file_pread tracked h buf count off pos =
     (if off < 0 then (Inl EINVAL, pos)
      else if \<not> buf \<and> count \<noteq> 0 then (Inl EFAULT, pos)
      else case tracked of
             Some (f, rd) \<Rightarrow>
               if accmode f \<noteq> O_WRONLY then (positioned_native_read rd count (nat off), pos)
               else with_offset h (\<lambda>p. fd_read h p count) length (nat off) pos
           | None \<Rightarrow> with_offset h (\<lambda>p. fd_read h p count) length (nat off) pos)"

text \<open>\<open>size\<close> is the size the file system reports; a file opened for appending is written at its end.\<close>

definition file_pwrite ::
  "(host_flags \<times> writer \<times> nat option) option \<Rightarrow> fd_host \<Rightarrow> bool \<Rightarrow> byte list \<Rightarrow> int \<Rightarrow> nat \<Rightarrow> byte list \<Rightarrow>
   (nat result \<times> byte list) \<times> nat" where
  "file_pwrite tracked h buf bs off pos c =
     (if off < 0 then ((Inl EINVAL, c), pos)
      else if \<not> buf \<and> bs \<noteq> [] then ((Inl EFAULT, c), pos)
      else let seek = (case with_offset h (\<lambda>p. fd_write h p bs) id (nat off) pos of (r, pos') \<Rightarrow> ((r, c), pos'))
           in case tracked of
                Some (f, wr, end_of) \<Rightarrow>
                  if accmode f \<noteq> O_RDONLY
                  then let o' = (if fl_append f then (case end_of of Some e \<Rightarrow> e | None \<Rightarrow> nat off) else nat off)
                       in (positioned_native_write wr bs o' c, pos)
                  else seek
              | None \<Rightarrow> seek)"

section \<open>A file system\<close>

text \<open>
  A host that does what it is asked or fails: \<open>fail d off n\<close> is the error of a call.  A write
  within the file or at its end replaces the bytes there.
\<close>

definition host_read :: "(bool \<Rightarrow> nat \<Rightarrow> nat \<Rightarrow> u32 option) \<Rightarrow> byte list \<Rightarrow> reader" where
  "host_read fail c d off n = (case fail d off n of Some e \<Rightarrow> Inl e | None \<Rightarrow> Inr (take n (drop off c)))"

definition splice :: "byte list \<Rightarrow> nat \<Rightarrow> byte list \<Rightarrow> byte list" where
  "splice c off bs = take off c @ bs @ drop (off + length bs) c"

definition host_write :: "(bool \<Rightarrow> nat \<Rightarrow> nat \<Rightarrow> u32 option) \<Rightarrow> writer" where
  "host_write fail d off bs c = (case fail d off (length bs) of Some e \<Rightarrow> Inl e | None \<Rightarrow> Inr (splice c off bs))"

definition only_bad_buffer :: "(bool \<Rightarrow> nat \<Rightarrow> nat \<Rightarrow> u32 option) \<Rightarrow> bool" where
  "only_bad_buffer fail \<longleftrightarrow> (\<forall>off n. fail False off n = None) \<and> (\<forall>off n. fail True off n \<in> {None, Some BAD_BUFFER})"

lemma only_bad_bufferD: "fail True x n = Some e \<Longrightarrow> e \<noteq> BAD_BUFFER \<Longrightarrow> \<not> only_bad_buffer fail"
  unfolding only_bad_buffer_def by (metis insert_iff option.distinct(1) option.inject singletonD)

lemma take_drop_append:
  "take m (drop off c) @ take k (drop (off + length (take m (drop off c))) c) = take (length (take m (drop off c)) + k) (drop off c)"
proof (cases "m \<le> length (drop off c)")
  case True
  then have "length (take m (drop off c)) = m" by simp
  then show ?thesis using take_add [of m k "drop off c"] by (simp only: drop_drop add.commute [of off m])
next
  case False
  then have "take m (drop off c) = drop off c" by simp
  then show ?thesis by simp
qed

lemma bounce_read_prefix:
  assumes "acc = take m (drop off c)" and "length acc = m" and "m \<le> count"
  shows "case bounce_read (host_read fail c) off count acc of
      Inl e \<Rightarrow> e = EIO \<and> \<not> only_bad_buffer fail
    | Inr bs \<Rightarrow> (\<exists>k\<le>count. bs = take k (drop off c)) \<and> (only_bad_buffer fail \<longrightarrow> bs = take count (drop off c))"
  using assms
proof (induction "host_read fail c" off count acc arbitrary: m rule: bounce_read.induct)
  case (1 off count acc)
  let ?want = "min (count - length acc) BOUNCE"
  show ?case
  proof (cases "length acc < count")
    case False
    then have "m = count" using "1.prems" by simp
    moreover have "bounce_read (host_read fail c) off count acc = Inr acc" using False by (subst bounce_read.simps) simp
    ultimately show ?thesis using "1.prems"(1) by auto
  next
    case lt: True
    show ?thesis
    proof (cases "fail False (off + length acc) ?want")
      case (Some e)
      then have "\<not> only_bad_buffer fail" by (auto simp: only_bad_buffer_def)
      moreover have "bounce_read (host_read fail c) off count acc = (if acc \<noteq> [] then Inr acc else Inl EIO)"
        using lt Some by (subst bounce_read.simps) (simp add: host_read_def Let_def)
      ultimately show ?thesis using "1.prems"(1,3) by auto
    next
      case None
      let ?got = "take ?want (drop (off + length acc) c)"
      have h: "host_read fail c False (off + length acc) ?want = Inr ?got" using None by (simp add: host_read_def)
      have acc': "acc @ ?got = take (m + ?want) (drop off c)"
        using take_drop_append [of m off c ?want] "1.prems"(1,2) by simp
      show ?thesis
      proof (cases "length ?got < ?want")
        case True
        then have "bounce_read (host_read fail c) off count acc = Inr (acc @ ?got)"
          using lt h by (subst bounce_read.simps) (simp add: Let_def)
        moreover have "acc @ ?got = take count (drop off c)"
        proof -
          have "length (drop (off + m) c) < ?want" using True unfolding length_take "1.prems"(2) by (simp only: min_less_iff_disj) simp
          then have "length (drop off c) \<le> m + ?want" unfolding length_drop by linarith
          moreover have "m + ?want \<le> count" using "1.prems"(2,3) by simp
          ultimately show ?thesis unfolding acc' by simp
        qed
        ultimately show ?thesis by auto
      next
        case False
        then have e: "bounce_read (host_read fail c) off count acc = bounce_read (host_read fail c) off count (acc @ ?got)"
          using lt h by (subst bounce_read.simps) (auto simp: Let_def)
        have "length ?got = ?want" using False by (simp only: length_take) linarith
        then have len: "length (acc @ ?got) = m + ?want" using "1.prems"(2) by simp
        have "m + ?want \<le> count" using "1.prems"(2,3) by simp
        moreover have "?got = take ?want ?got" by simp
        ultimately show ?thesis using "1.hyps" [OF lt refl h _ False acc' len] unfolding e by blast
      qed
    qed
  qed
qed

lemma splice_splice:
  assumes "off + length a \<le> length c \<or> off \<le> length c" and "off \<le> length c"
  shows "splice (splice c off a) (off + length a) b = splice c off (a @ b)"
  using assms by (simp add: splice_def ac_simps)

lemma bounce_write_prefix:
  assumes "n \<le> length bs" and "off \<le> length c0" and "c = splice c0 off (take n bs)"
  shows "case bounce_write (host_write fail) off bs n c of
      (Inl e, c') \<Rightarrow> e = EIO \<and> n = 0 \<and> c' = c \<and> \<not> only_bad_buffer fail
    | (Inr m, c') \<Rightarrow> m \<le> length bs \<and> c' = splice c0 off (take m bs) \<and> (only_bad_buffer fail \<longrightarrow> m = length bs)"
  using assms
proof (induction "host_write fail" off bs n c rule: bounce_write.induct)
  case (1 off bs n c)
  let ?want = "min (length bs - n) BOUNCE"
  let ?piece = "take ?want (drop n bs)"
  show ?case
  proof (cases "n < length bs")
    case False
    with "1.prems" show ?thesis by (subst bounce_write.simps) simp
  next
    case lt: True
    have len: "length ?piece = ?want" by simp
    show ?thesis
    proof (cases "fail False (off + n) ?want")
      case (Some e)
      then have "\<not> only_bad_buffer fail" by (auto simp: only_bad_buffer_def)
      moreover have "bounce_write (host_write fail) off bs n c = (if n \<noteq> 0 then Inr n else Inl EIO, c)"
        using lt Some len by (subst bounce_write.simps) (simp add: host_write_def Let_def del: length_take length_drop)
      ultimately show ?thesis using "1.prems"(1,3) by simp
    next
      case None
      then have w: "host_write fail False (off + n) ?piece c = Inr (splice c (off + n) ?piece)"
        unfolding host_write_def len by simp
      then have e: "bounce_write (host_write fail) off bs n c = bounce_write (host_write fail) off bs (n + ?want) (splice c (off + n) ?piece)"
        using lt by (subst bounce_write.simps) (simp add: Let_def)
      have tl: "length (take n bs) = n" using lt by simp
      have "splice c (off + n) ?piece = splice c0 off (take n bs @ ?piece)"
        unfolding "1.prems"(3) using splice_splice [of off "take n bs" c0 ?piece] "1.prems"(2) tl by simp
      also have "take n bs @ ?piece = take (n + ?want) bs" by (simp add: take_add)
      finally have c': "splice c (off + n) ?piece = splice c0 off (take (n + ?want) bs)" .
      have "n + ?want \<le> length bs" using lt by simp
      note IH = "1.hyps" [OF lt refl w this "1.prems"(2) c']
      have nz: "n + ?want \<noteq> 0" using lt by (simp add: BOUNCE_def min_def)
      show ?thesis
      proof (cases "bounce_write (host_write fail) off bs (n + ?want) (splice c (off + n) ?piece)")
        case (Pair r c'')
        with IH nz show ?thesis unfolding e 
          by (cases r) (simp_all only: prod.case sum.case, blast+)
      qed
    qed
  qed
qed

text \<open>
  C37.  Reads and writes at an offset, whichever calls of the file system fail: a read fails with
  \<open>EIO\<close> or gives a prefix of the bytes at the offset, never others; a write fails with \<open>EIO\<close>
  and changes nothing or replaces exactly as many bytes as it reports.  If only the guest's buffer
  is refused, the detour in pieces of 4096 bytes gives what the direct call would: the whole of the
  bytes there are, or all bytes written.
\<close>

theorem positioned_io_exact:
  assumes "off \<le> length c"
  shows "(case positioned_native_read (host_read fail c) count off of
      Inl e \<Rightarrow> e = EIO \<and> \<not> only_bad_buffer fail
    | Inr bs \<Rightarrow> (\<exists>k\<le>count. bs = take k (drop off c)) \<and> (only_bad_buffer fail \<longrightarrow> bs = take count (drop off c))) \<and>
   (case positioned_native_write (host_write fail) bs off c of
      (Inl e, c') \<Rightarrow> e = EIO \<and> c' = c \<and> \<not> only_bad_buffer fail
    | (Inr m, c') \<Rightarrow> m \<le> length bs \<and> c' = splice c off (take m bs) \<and> (only_bad_buffer fail \<longrightarrow> m = length bs))"
proof (intro conjI)
  have B: "case bounce_read (host_read fail c) off count [] of
      Inl e \<Rightarrow> e = EIO \<and> \<not> only_bad_buffer fail
    | Inr bs \<Rightarrow> (\<exists>k\<le>count. bs = take k (drop off c)) \<and> (only_bad_buffer fail \<longrightarrow> bs = take count (drop off c))"
    by (rule bounce_read_prefix [where m = 0]) simp_all
  show "case positioned_native_read (host_read fail c) count off of
      Inl e \<Rightarrow> e = EIO \<and> \<not> only_bad_buffer fail
    | Inr bs \<Rightarrow> (\<exists>k\<le>count. bs = take k (drop off c)) \<and> (only_bad_buffer fail \<longrightarrow> bs = take count (drop off c))"
  proof (cases "count = 0")
    case False
    show ?thesis
    proof (cases "fail True off count")
      case None
      with False show ?thesis by (auto simp: positioned_native_read_def host_read_def)
    next
      case (Some e)
      show ?thesis
      proof (cases "e = BAD_BUFFER")
        case True
        with False Some have "positioned_native_read (host_read fail c) count off = bounce_read (host_read fail c) off count []"
          by (simp add: positioned_native_read_def host_read_def)
        with B show ?thesis by simp
      next
        case e: False
        then have "\<not> only_bad_buffer fail" using Some only_bad_bufferD by blast
        with False Some e show ?thesis by (simp add: positioned_native_read_def host_read_def)
      qed
    qed
  qed (simp add: positioned_native_read_def)
  have W: "case bounce_write (host_write fail) off bs 0 c of
      (Inl e, c') \<Rightarrow> e = EIO \<and> c' = c \<and> \<not> only_bad_buffer fail
    | (Inr m, c') \<Rightarrow> m \<le> length bs \<and> c' = splice c off (take m bs) \<and> (only_bad_buffer fail \<longrightarrow> m = length bs)"
  proof (cases "bounce_write (host_write fail) off bs 0 c")
    case (Pair r c')
    then show ?thesis
      using bounce_write_prefix [of 0 bs off c c fail] assms by (cases r) (simp_all add: splice_def)
  qed
  show "case positioned_native_write (host_write fail) bs off c of
      (Inl e, c') \<Rightarrow> e = EIO \<and> c' = c \<and> \<not> only_bad_buffer fail
    | (Inr m, c') \<Rightarrow> m \<le> length bs \<and> c' = splice c off (take m bs) \<and> (only_bad_buffer fail \<longrightarrow> m = length bs)"
  proof (cases "bs = []")
    case False
    show ?thesis
    proof (cases "fail True off (length bs)")
      case None
      with False show ?thesis by (simp add: positioned_native_write_def host_write_def)
    next
      case (Some e)
      show ?thesis
      proof (cases "e = BAD_BUFFER")
        case True
        with False Some W show ?thesis by (simp add: positioned_native_write_def host_write_def)
      next
        case e: False
        then have "\<not> only_bad_buffer fail" using Some only_bad_bufferD by blast
        with False Some e show ?thesis by (simp add: positioned_native_write_def host_write_def)
      qed
    qed
  qed (simp add: positioned_native_write_def splice_def)
qed

theorem positioned_io_exact_witness:
  "positioned_native_read (host_read (\<lambda>d _ _. if d then Some BAD_BUFFER else None) [1, 2, 3]) 2 1 = Inr [2, 3]"
proof -
  have "only_bad_buffer (\<lambda>d _ _. if d then Some BAD_BUFFER else None)" by (simp add: only_bad_buffer_def)
  with positioned_io_exact [of 1 "[1, 2, 3]" "\<lambda>d _ _. if d then Some BAD_BUFFER else None" 2 "[]"] show ?thesis
    by (auto split: sum.splits)
qed

text \<open>The detour over the position of the descriptor restores it, as long as seeking works.\<close>

lemma with_offset_position: "tell_ok h \<Longrightarrow> seek_ok h pos \<Longrightarrow> snd (with_offset h act n off pos) = pos"
  by (simp add: with_offset_def Let_def)

end
