(* ===== verification/FdBook.thy ===== *)
theory FdBook
  imports Paths
begin

text \<open>
  The descriptors of real files (\<^verbatim>\<open>source/file_bridge.c\<close>, \<^verbatim>\<open>nx_close\<close>, \<^verbatim>\<open>nx_dup\<close>, \<^verbatim>\<open>nx_dup2\<close> and
  \<^verbatim>\<open>nx_fcntl\<close> of \<^verbatim>\<open>source/imports.c\<close>): the table of paths by descriptor, the tables of the lock and
  data files of the UnityCache, opening, duplicating and closing.
\<close>

section \<open>The tables\<close>

definition POSITIONED_FD_SLOTS :: nat where "POSITIONED_FD_SLOTS = 1024"
definition UNITYCACHE_LOCK_SLOTS :: nat where "UNITYCACHE_LOCK_SLOTS = 16"
definition UNITYCACHE_DATA_SLOTS :: nat where "UNITYCACHE_DATA_SLOTS = 16"

text \<open>The handle of the file system itself is not modelled: \<open>p_valid\<close> says that there is one.\<close>

record pslot =
  p_valid :: bool
  p_flags :: host_flags
  p_path :: "string option"

record uslot =
  u_fd :: int
  u_path :: "string option"

record book =
  positioned :: "pslot list"
  lock_slots :: "uslot list"
  data_slots :: "uslot list"

definition no_pslot :: pslot where
  "no_pslot = \<lparr>p_valid = False, p_flags = no_flags O_RDONLY, p_path = None\<rparr>"

definition empty_book :: book where
  "empty_book = \<lparr>positioned = replicate POSITIONED_FD_SLOTS no_pslot,
     lock_slots = replicate UNITYCACHE_LOCK_SLOTS \<lparr>u_fd = 0, u_path = None\<rparr>,
     data_slots = replicate UNITYCACHE_DATA_SLOTS \<lparr>u_fd = 0, u_path = None\<rparr>\<rparr>"

definition in_range :: "int \<Rightarrow> bool" where
  "in_range fd \<longleftrightarrow> 0 \<le> fd \<and> fd < int POSITIONED_FD_SLOTS"

definition positioned_slot_clear :: "int \<Rightarrow> pslot list \<Rightarrow> pslot list" where
  "positioned_slot_clear fd ps = (if \<not> in_range fd then ps else ps[nat fd := no_pslot])"

text \<open>\<open>mem\<close> says whether the copy of the path can be allocated.\<close>

definition positioned_register :: "bool \<Rightarrow> int \<Rightarrow> string \<Rightarrow> host_flags \<Rightarrow> pslot list \<Rightarrow> pslot list" where
  "positioned_register mem fd path f ps =
     (if \<not> in_range fd then ps
      else (positioned_slot_clear fd ps)[nat fd := no_pslot\<lparr>p_flags := f, p_path := if mem then Some path else None\<rparr>])"

text \<open>Whether there is a path, the flags, and the path cut to the caller's buffer.\<close>

definition positioned_copy_metadata :: "int \<Rightarrow> nat \<Rightarrow> pslot list \<Rightarrow> bool \<times> host_flags \<times> string" where
  "positioned_copy_metadata fd cap ps =
     (if \<not> in_range fd then (False, no_flags O_RDONLY, [])
      else let s = ps ! nat fd
           in (p_path s \<noteq> None, p_flags s, case p_path s of Some q \<Rightarrow> cut cap q | None \<Rightarrow> []))"

definition file_fd_path :: "int \<Rightarrow> nat \<Rightarrow> pslot list \<Rightarrow> bool \<times> string" where
  "file_fd_path fd cap ps =
     (if cap = 0 then (False, [])
      else case positioned_copy_metadata fd cap ps of (present, _, q) \<Rightarrow> (present, q))"

text \<open>\<open>native q f\<close> says whether the file system opens \<open>q\<close>; the handle is kept once it is there.\<close>

definition positioned_snapshot :: "(string \<Rightarrow> host_flags \<Rightarrow> bool) \<Rightarrow> int \<Rightarrow> pslot list \<Rightarrow> bool \<times> pslot list" where
  "positioned_snapshot native fd ps =
     (if \<not> in_range fd then (False, ps)
      else let s = ps ! nat fd;
               v = p_valid s \<or> (case p_path s of Some q \<Rightarrow> native q (p_flags s) | None \<Rightarrow> False)
           in (v, ps[nat fd := s\<lparr>p_valid := v\<rparr>]))"

text \<open>Both cache tables work alike.\<close>

definition unitycache_forget_fd :: "int \<Rightarrow> uslot list \<Rightarrow> uslot list" where
  "unitycache_forget_fd fd us = map (\<lambda>s. if u_fd s = fd then s\<lparr>u_path := None, u_fd := -1\<rparr> else s) us"

fun fill_free :: "bool \<Rightarrow> int \<Rightarrow> string \<Rightarrow> uslot list \<Rightarrow> uslot list" where
  "fill_free mem fd path [] = []"
| "fill_free mem fd path (s # us) =
     (if u_path s = None then (if mem then s\<lparr>u_fd := fd, u_path := Some path\<rparr> else s) # us
      else s # fill_free mem fd path us)"

definition unitycache_register :: "bool \<Rightarrow> int \<Rightarrow> string \<Rightarrow> uslot list \<Rightarrow> uslot list" where
  "unitycache_register mem fd path us =
     (if fd < 0 then us else fill_free mem fd path (unitycache_forget_fd fd us))"

text \<open>\<open>alive fd\<close> is a successful \<^verbatim>\<open>fstat\<close>; slots of dead descriptors are cleared on the way.\<close>

fun unitycache_find :: "(int \<Rightarrow> bool) \<Rightarrow> string \<Rightarrow> uslot list \<Rightarrow> int \<times> uslot list" where
  "unitycache_find alive path [] = (-1, [])"
| "unitycache_find alive path (s # us) =
     (if u_path s = Some path \<and> alive (u_fd s) then (u_fd s, s # us)
      else case unitycache_find alive path us of
             (r, us') \<Rightarrow> (r, (if u_path s = Some path then s\<lparr>u_path := None, u_fd := -1\<rparr> else s) # us'))"

fun unitycache_lookup_fd :: "string \<Rightarrow> uslot list \<Rightarrow> int" where
  "unitycache_lookup_fd path [] = -1"
| "unitycache_lookup_fd path (s # us) = (if u_path s = Some path then u_fd s else unitycache_lookup_fd path us)"

section \<open>Closing and duplicating\<close>

definition file_note_fd_closed :: "int \<Rightarrow> book \<Rightarrow> book" where
  "file_note_fd_closed fd b =
     b\<lparr>positioned := positioned_slot_clear fd (positioned b),
       lock_slots := unitycache_forget_fd fd (lock_slots b),
       data_slots := unitycache_forget_fd fd (data_slots b)\<rparr>"

definition copy_slot :: "bool \<Rightarrow> int \<Rightarrow> int \<Rightarrow> uslot list \<Rightarrow> uslot list" where
  "copy_slot mem old new us =
     (let us' = unitycache_forget_fd new us
      in case find (\<lambda>s. u_fd s = old \<and> u_path s \<noteq> None) us' of
           Some s \<Rightarrow> unitycache_register mem new (the (u_path s)) us'
         | None \<Rightarrow> us')"

definition file_note_fd_duplicated :: "bool \<Rightarrow> int \<Rightarrow> int \<Rightarrow> book \<Rightarrow> book" where
  "file_note_fd_duplicated mem old new b =
     (if old < 0 \<or> new < 0 \<or> old = new then b
      else case positioned_copy_metadata old PATH_MAX (positioned b) of
             (_, f, q) \<Rightarrow>
               b\<lparr>positioned := (if q \<noteq> [] then positioned_register mem new q f (positioned b)
                                else if new < int POSITIONED_FD_SLOTS then positioned_slot_clear new (positioned b)
                                else positioned b),
                 lock_slots := copy_slot mem old new (lock_slots b),
                 data_slots := copy_slot mem old new (data_slots b)\<rparr>)"

section \<open>Opening\<close>

text \<open>
  What the calls of the host give: \<open>h_open\<close> the descriptor, or the error and the code of the
  console; \<open>h_mkdir\<close>, \<open>h_exists\<close> and \<open>h_regular\<close> the directories and \<^verbatim>\<open>stat\<close>.
\<close>

record host =
  h_exists :: "string \<Rightarrow> bool"
  h_regular :: "string \<Rightarrow> bool"
  h_mkdir :: "string \<Rightarrow> unit result"
  h_open :: "string \<Rightarrow> host_flags \<Rightarrow> nat \<Rightarrow> (errno \<times> u32) + int"
  h_fopen :: "string \<Rightarrow> string \<Rightarrow> int result"
  h_dup :: "int \<Rightarrow> int result"
  h_ftruncate :: "int \<Rightarrow> nat \<Rightarrow> unit result"
  h_truncate :: "string \<Rightarrow> nat \<Rightarrow> unit result"
  h_alive :: "int \<Rightarrow> bool"
  h_mem :: bool

text \<open>The code of a file that is already open for writing.\<close>

definition TARGET_LOCKED :: u32 where "TARGET_LOCKED = 0xE02"

definition translate_path :: "string \<Rightarrow> string" where
  "translate_path p = the (snd (file_translate (Some p) PATH_MAX))"

text \<open>The lock file of the cache: a second opening shares the first descriptor.\<close>

definition open_lock :: "host \<Rightarrow> bool \<Rightarrow> string \<Rightarrow> (errno \<times> u32) + int \<Rightarrow> uslot list \<Rightarrow> int result \<times> uslot list" where
  "open_lock h trunc path r us =
     (case r of
        Inr fd \<Rightarrow> (Inr fd, unitycache_register (h_mem h) fd path us)
      | Inl (e, nxrc) \<Rightarrow>
          if nxrc = TARGET_LOCKED
          then case unitycache_find (h_alive h) path us of
                 (existing, us') \<Rightarrow>
                   if existing < 0 then (Inl e, us')
                   else case h_dup h existing of
                          Inl e' \<Rightarrow> (Inl e', us')
                        | Inr shared \<Rightarrow>
                            (case (if trunc then h_ftruncate h shared 0 else Inr ()) of
                               Inl e' \<Rightarrow> (Inl e', us')
                             | Inr _ \<Rightarrow> (Inr shared, unitycache_register (h_mem h) shared path us'))
          else (Inl e, us))"

definition open_path :: "host \<Rightarrow> host_flags \<Rightarrow> string \<Rightarrow> string" where
  "open_path h g q =
     (if accmode g = O_RDONLY \<and> \<not> fl_creat g then translate_read_path (h_exists h) (h_regular h) q else translate_path q)"

definition open_host :: "host \<Rightarrow> host_flags \<Rightarrow> string \<Rightarrow> nat \<Rightarrow> book \<Rightarrow> int result \<times> book" where
  "open_host h g path md b =
     (let uc_lock = is_unitycache_lock_file path;
          r = h_open h path (if uc_lock then g\<lparr>accmode := O_RDWR\<rparr> else g) (if fl_creat g then md else 438)
      in if uc_lock
         then case open_lock h (fl_trunc g) path r (lock_slots b) of (x, us) \<Rightarrow> (x, b\<lparr>lock_slots := us\<rparr>)
         else (case r of Inr fd \<Rightarrow> Inr fd | Inl (e, _) \<Rightarrow> Inl e, b))"

definition note_opened :: "bool \<Rightarrow> host_flags \<Rightarrow> string \<Rightarrow> int \<Rightarrow> book \<Rightarrow> book" where
  "note_opened mem g path fd b =
     (let out = (if is_unitycache_lock_file path then g\<lparr>accmode := O_RDWR\<rparr> else g);
          b2 = (if is_unitycache_data_file path
                then b\<lparr>data_slots := unitycache_register mem fd path (data_slots b)\<rparr> else b)
      in b2\<lparr>positioned := positioned_register mem fd path out (positioned b2)\<rparr>)"

text \<open>\<open>None\<close> for the path is a null pointer.  The result is the descriptor, with the path it stands for.\<close>

definition file_open :: "host \<Rightarrow> string option \<Rightarrow> u32 \<Rightarrow> nat \<Rightarrow> book \<Rightarrow> (int \<times> string) result \<times> book" where
  "file_open h p flags md b =
     (case p of
        None \<Rightarrow> (Inl EFAULT, b)
      | Some q \<Rightarrow>
          let g = guest_flags flags; path = open_path h g q
          in case (if fl_creat g then ensure_unity_cache_parents (h_mkdir h) path else Inr ()) of
               Inl e \<Rightarrow> (Inl e, b)
             | Inr _ \<Rightarrow>
                 (case open_host h g path md b of
                    (Inl e, b') \<Rightarrow> (Inl e, b')
                  | (Inr fd, b') \<Rightarrow> (Inr (fd, path), note_opened (h_mem h) g path fd b')))"

definition file_fopen :: "host \<Rightarrow> string option \<Rightarrow> string \<Rightarrow> book \<Rightarrow> (int \<times> string) result \<times> book" where
  "file_fopen h p md b =
     (case p of
        None \<Rightarrow> (Inl EFAULT, b)
      | Some q \<Rightarrow>
          let read_only = (md \<noteq> [] \<and> hd md = CHR ''r'' \<and> CHR ''+'' \<notin> set md);
              path = (if read_only then translate_read_path (h_exists h) (h_regular h) q else translate_path q)
          in case (if read_only then Inr () else ensure_unity_cache_parents (h_mkdir h) path) of
               Inl e \<Rightarrow> (Inl e, b)
             | Inr _ \<Rightarrow>
                 (case h_fopen h path md of
                    Inl e \<Rightarrow> (Inl e, b)
                  | Inr fd \<Rightarrow> (Inr (fd, path), if 0 \<le> fd
                      then b\<lparr>positioned := positioned_register (h_mem h) fd path (fopen_host_flags (Some md)) (positioned b)\<rparr>
                      else b)))"

text \<open>Truncating a data file of the cache that is open goes through its descriptor.\<close>

definition file_truncate :: "host \<Rightarrow> string option \<Rightarrow> int \<Rightarrow> book \<Rightarrow> unit result \<times> book" where
  "file_truncate h p len b =
     (case p of
        None \<Rightarrow> (Inl EINVAL, b)
      | Some q \<Rightarrow>
          if len < 0 then (Inl EINVAL, b)
          else let path = translate_path q
               in if is_unitycache_data_file path
                  then case unitycache_find (h_alive h) path (data_slots b) of
                         (existing, us) \<Rightarrow>
                           (if 0 \<le> existing then h_ftruncate h existing (nat len) else h_truncate h path (nat len),
                            b\<lparr>data_slots := us\<rparr>)
                  else (h_truncate h path (nat len), b))"

section \<open>Flags of a descriptor\<close>

text \<open>
  \<^verbatim>\<open>nx_close\<close>, \<^verbatim>\<open>nx_dup\<close>, \<^verbatim>\<open>nx_dup2\<close> and \<^verbatim>\<open>nx_fcntl\<close> for a descriptor outside the range of the
  emulated ones; \<open>r\<close> is the result of the host's \<^verbatim>\<open>close\<close>, \<^verbatim>\<open>dup\<close> or \<^verbatim>\<open>dup2\<close>.
\<close>

definition NX_FD_TRACK_MAX :: nat where "NX_FD_TRACK_MAX = 1024"

record fdsys =
  fdbook :: book
  fdflags :: "int list"
  flflags :: "int list"

definition nx_close :: "unit result \<Rightarrow> int \<Rightarrow> fdsys \<Rightarrow> unit result \<times> fdsys" where
  "nx_close r fd s = (case r of Inl e \<Rightarrow> (Inl e, s) | Inr _ \<Rightarrow> (Inr (), s\<lparr>fdbook := file_note_fd_closed fd (fdbook s)\<rparr>))"

definition nx_dup :: "bool \<Rightarrow> int result \<Rightarrow> int \<Rightarrow> fdsys \<Rightarrow> int result \<times> fdsys" where
  "nx_dup mem r fd s =
     (case r of Inl e \<Rightarrow> (Inl e, s) | Inr n \<Rightarrow> (Inr n, s\<lparr>fdbook := file_note_fd_duplicated mem fd n (fdbook s)\<rparr>))"

definition tracked :: "int list \<Rightarrow> int \<Rightarrow> int" where
  "tracked fl fd = (if fd < int NX_FD_TRACK_MAX then fl ! nat fd else 0)"

definition track :: "int \<Rightarrow> int \<Rightarrow> int list \<Rightarrow> int list" where
  "track fd v fl = (if fd < int NX_FD_TRACK_MAX then fl[nat fd := v] else fl)"

definition nx_fcntl :: "bool \<Rightarrow> int result \<Rightarrow> int \<Rightarrow> int \<Rightarrow> int \<Rightarrow> fdsys \<Rightarrow> int result \<times> fdsys" where
  "nx_fcntl mem r fd cmd arg s =
     (if fd < 0 then (Inl EBADF, s)
      else if cmd = 1 then (Inr (tracked (fdflags s) fd), s)
      else if cmd = 3 then (Inr (tracked (flflags s) fd), s)
      else if cmd \<in> {5, 6, 7} then (Inr 0, s)
      else if cmd = 2 then (Inr 0, s\<lparr>fdflags := track fd arg (fdflags s)\<rparr>)
      else if cmd = 4 then (Inr 0, s\<lparr>flflags := track fd arg (flflags s)\<rparr>)
      else if cmd \<in> {0, 1030}
      then (case nx_dup mem r fd s of
              (Inl e, s') \<Rightarrow> (Inl e, s')
            | (Inr n, s') \<Rightarrow>
                (Inr n, s'\<lparr>fdflags := track n (if cmd = 1030 then 1 else tracked (fdflags s) fd) (fdflags s'),
                           flflags := track n (tracked (flflags s) fd) (flflags s')\<rparr>))
      else (Inl EINVAL, s))"

text \<open>Closing a descriptor keeps its flags, so the next file with this number starts with them.\<close>

lemma flags_survive_close:
  assumes "0 \<le> fd" and "fd < 1024" and "length (flflags s) = 1024"
  shows "fst (nx_fcntl mem r fd 3 0 (snd (nx_close (Inr ()) fd (snd (nx_fcntl mem r fd 4 v s))))) = Inr v"
  using assms by (simp add: nx_fcntl_def nx_close_def tracked_def track_def NX_FD_TRACK_MAX_def)

section \<open>Runs\<close>

text \<open>
  The open descriptors with the paths they were opened with, beside the tables.  The host opens and
  duplicates to descriptors that are not in use; \<^verbatim>\<open>dup2\<close> may hit one that is.  In a run with \<open>m\<close>
  every allocation succeeds and only descriptors below \<open>POSITIONED_FD_SLOTS\<close> are duplicated.
\<close>

definition fresh_host :: "host \<Rightarrow> (int \<rightharpoonup> string) \<Rightarrow> bool" where
  "fresh_host h nm \<longleftrightarrow>
     (\<forall>q f md fd. h_open h q f md = Inr fd \<longrightarrow> 0 \<le> fd \<and> nm fd = None) \<and>
     (\<forall>q md fd. h_fopen h q md = Inr fd \<longrightarrow> 0 \<le> fd \<and> nm fd = None) \<and>
     (\<forall>fd n. h_dup h fd = Inr n \<longrightarrow> 0 \<le> n \<and> nm n = None)"

inductive fd_step :: "bool \<Rightarrow> book \<times> (int \<rightharpoonup> string) \<Rightarrow> book \<times> (int \<rightharpoonup> string) \<Rightarrow> bool" for m where
  opened: "fresh_host h nm \<Longrightarrow> h_mem h = m \<Longrightarrow> file_open h p fl md b = (Inr (fd, q), b') \<Longrightarrow>
     fd_step m (b, nm) (b', nm(fd \<mapsto> q))"
| open_failed: "fresh_host h nm \<Longrightarrow> h_mem h = m \<Longrightarrow> file_open h p fl md b = (Inl e, b') \<Longrightarrow> fd_step m (b, nm) (b', nm)"
| fopened: "fresh_host h nm \<Longrightarrow> h_mem h = m \<Longrightarrow> file_fopen h p mo b = (Inr (fd, q), b') \<Longrightarrow>
     fd_step m (b, nm) (b', nm(fd \<mapsto> q))"
| fopen_failed: "file_fopen h p mo b = (Inl e, b') \<Longrightarrow> fd_step m (b, nm) (b', nm)"
| truncated: "file_truncate h p len b = (r, b') \<Longrightarrow> fd_step m (b, nm) (b', nm)"
| snapshot: "positioned_snapshot native fd (positioned b) = (v, ps) \<Longrightarrow> fd_step m (b, nm) (b\<lparr>positioned := ps\<rparr>, nm)"
| duplicated: "nm old = Some q \<Longrightarrow> 0 \<le> new \<Longrightarrow> old \<noteq> new \<Longrightarrow> (m \<longrightarrow> in_range old) \<Longrightarrow>
     fd_step m (b, nm) (file_note_fd_duplicated m old new b, nm(new \<mapsto> q))"
| closed: "nm fd = Some q \<Longrightarrow> fd_step m (b, nm) (file_note_fd_closed fd b, nm(fd := None))"

inductive fd_reach :: "bool \<Rightarrow> book \<times> (int \<rightharpoonup> string) \<Rightarrow> bool" for m where
  init: "fd_reach m (empty_book, \<lambda>_. None)"
| step: "fd_reach m s \<Longrightarrow> fd_step m s s' \<Longrightarrow> fd_reach m s'"

section \<open>The tables agree with the open descriptors\<close>

definition pos_at :: "bool \<Rightarrow> string option \<Rightarrow> string option \<Rightarrow> bool" where
  "pos_at m name q \<longleftrightarrow> (q = None \<or> q = name) \<and> (m \<longrightarrow> q = name \<or> name = Some [])"

definition pos_ok :: "bool \<Rightarrow> (int \<rightharpoonup> string) \<Rightarrow> pslot list \<Rightarrow> bool" where
  "pos_ok m nm ps \<longleftrightarrow> length ps = POSITIONED_FD_SLOTS \<and> (\<forall>i<POSITIONED_FD_SLOTS. pos_at m (nm (int i)) (p_path (ps ! i)))"

definition slots_ok :: "(int \<rightharpoonup> string) \<Rightarrow> uslot list \<Rightarrow> bool" where
  "slots_ok nm us \<longleftrightarrow> (\<forall>s\<in>set us. \<forall>q. u_path s = Some q \<longrightarrow> nm (u_fd s) = Some q)"

definition names_ok :: "(int \<rightharpoonup> string) \<Rightarrow> bool" where
  "names_ok nm \<longleftrightarrow> (\<forall>fd q. nm fd = Some q \<longrightarrow> 0 \<le> fd \<and> length q < PATH_MAX)"

definition fd_ok :: "bool \<Rightarrow> book \<times> (int \<rightharpoonup> string) \<Rightarrow> bool" where
  "fd_ok m s \<longleftrightarrow> (case s of (b, nm) \<Rightarrow>
     pos_ok m nm (positioned b) \<and> slots_ok nm (lock_slots b) \<and> slots_ok nm (data_slots b) \<and> names_ok nm)"

lemma slots_ok_forget: "slots_ok nm us \<Longrightarrow> slots_ok (nm(fd := v)) (unitycache_forget_fd fd us)"
  by (auto simp: slots_ok_def unitycache_forget_fd_def)

lemma slots_ok_forget_same: "slots_ok nm us \<Longrightarrow> slots_ok nm (unitycache_forget_fd fd us)"
  by (auto simp: slots_ok_def unitycache_forget_fd_def)

lemma slots_ok_fill: "slots_ok nm us \<Longrightarrow> nm fd = Some q \<Longrightarrow> slots_ok nm (fill_free mem fd q us)"
  by (induction us) (auto simp: slots_ok_def)

lemma slots_ok_register:
  "slots_ok nm us \<Longrightarrow> 0 \<le> fd \<Longrightarrow> slots_ok (nm(fd \<mapsto> q)) (unitycache_register mem fd q us)"
  by (simp add: unitycache_register_def slots_ok_fill slots_ok_forget)

lemma slots_ok_fresh: "slots_ok nm us \<Longrightarrow> nm fd = None \<Longrightarrow> slots_ok (nm(fd \<mapsto> q)) us"
  by (auto simp: slots_ok_def)

lemma slots_ok_find: "slots_ok nm us \<Longrightarrow> unitycache_find alive q us = (r, us') \<Longrightarrow> slots_ok nm us'"
  by (induction us arbitrary: r us') (auto simp: slots_ok_def split: if_splits prod.splits)

lemma find_right: "slots_ok nm us \<Longrightarrow> unitycache_find alive q us = (r, us') \<Longrightarrow> 0 \<le> r \<Longrightarrow> nm r = Some q \<and> alive r"
  by (induction us arbitrary: r us') (auto simp: slots_ok_def split: if_splits prod.splits)

lemma lookup_right: "slots_ok nm us \<Longrightarrow> 0 \<le> unitycache_lookup_fd q us \<Longrightarrow> nm (unitycache_lookup_fd q us) = Some q"
  by (induction us) (auto simp: slots_ok_def split: if_splits)

lemma slots_ok_copy:
  assumes "slots_ok nm us" and "nm old = Some q" and "0 \<le> new" and "old \<noteq> new"
  shows "slots_ok (nm(new \<mapsto> q)) (copy_slot mem old new us)"
proof -
  let ?us = "unitycache_forget_fd new us"
  have ok: "slots_ok nm ?us" "slots_ok (nm(new \<mapsto> q)) ?us" using assms(1) by (rule slots_ok_forget_same, rule slots_ok_forget)
  show ?thesis
  proof (cases "find (\<lambda>s. u_fd s = old \<and> u_path s \<noteq> None) ?us")
    case (Some s)
    then have "s \<in> set ?us" "u_fd s = old" "u_path s \<noteq> None" by (auto simp: find_Some_iff)
    with ok(1) assms(2) have "u_path s = Some q" by (auto simp: slots_ok_def)
    with slots_ok_register [OF ok(1) assms(3), of q mem] Some show ?thesis by (simp add: copy_slot_def)
  qed (use ok in \<open>simp add: copy_slot_def\<close>)
qed

lemma pos_ok_update:
  assumes "pos_ok m nm ps" and "in_range fd" and "pos_at m v (p_path x)"
  shows "pos_ok m (nm(fd := v)) (ps[nat fd := x])"
  unfolding pos_ok_def
proof (intro conjI allI impI)
  show "length (ps[nat fd := x]) = POSITIONED_FD_SLOTS" using assms(1) by (simp add: pos_ok_def)
  fix i assume "i < POSITIONED_FD_SLOTS"
  with assms show "pos_at m ((nm(fd := v)) (int i)) (p_path (ps[nat fd := x] ! i))"
    by (cases "int i = fd") (auto simp: pos_ok_def in_range_def)
qed

lemma pos_ok_outside: "pos_ok m nm ps \<Longrightarrow> \<not> in_range fd \<Longrightarrow> pos_ok m (nm(fd := v)) ps"
  by (auto simp: pos_ok_def in_range_def)

lemma pos_ok_register:
  assumes "pos_ok m nm ps"
  shows "pos_ok m (nm(fd \<mapsto> q)) (positioned_register m fd q f ps)"
proof (cases "in_range fd")
  case True
  have "positioned_register m fd q f ps = ps[nat fd := no_pslot\<lparr>p_flags := f, p_path := if m then Some q else None\<rparr>]"
    using True by (simp add: positioned_register_def positioned_slot_clear_def)
  then show ?thesis using pos_ok_update [OF assms True] by (simp add: pos_at_def)
qed (use assms in \<open>simp add: positioned_register_def pos_ok_outside\<close>)

lemma pos_ok_clear:
  assumes "pos_ok m nm ps" and "v = None \<or> v = Some []"
  shows "pos_ok m (nm(fd := v)) (positioned_slot_clear fd ps)"
proof (cases "in_range fd")
  case True
  then show ?thesis
    using pos_ok_update [OF assms(1) True, of v no_pslot] assms(2) by (auto simp: pos_at_def no_pslot_def positioned_slot_clear_def)
qed (use assms in \<open>simp add: positioned_slot_clear_def pos_ok_outside\<close>)

lemma pos_ok_snapshot:
  assumes "pos_ok m nm ps" and "positioned_snapshot native fd ps = (v, ps')"
  shows "pos_ok m nm ps'"
proof (cases "in_range fd")
  case True
  with assms(1) have "pos_at m (nm fd) (p_path (ps ! nat fd))" by (auto simp: pos_ok_def in_range_def dest: spec [of _ "nat fd"])
  then have "pos_ok m (nm(fd := nm fd)) (ps[nat fd := (ps ! nat fd)\<lparr>p_valid := v\<rparr>])"
    by (intro pos_ok_update [OF assms(1) True]) simp
  moreover have "ps' = ps[nat fd := (ps ! nat fd)\<lparr>p_valid := v\<rparr>]"
    using assms(2) True by (auto simp: positioned_snapshot_def Let_def)
  ultimately show ?thesis by (simp only: fun_upd_triv)
qed (use assms in \<open>simp add: positioned_snapshot_def\<close>)

lemma names_ok_upd: "names_ok nm \<Longrightarrow> 0 \<le> fd \<Longrightarrow> length q < PATH_MAX \<Longrightarrow> names_ok (nm(fd \<mapsto> q))"
  by (simp add: names_ok_def)

lemma translate_path_len: "length (translate_path q) < PATH_MAX"
  by (auto simp: translate_path_def file_translate_def cut_def PATH_MAX_def split: option.splits)

lemma translate_read_path_len: "length (translate_read_path ex re q) < PATH_MAX"
proof -
  have "length l < PATH_MAX" if "find_packaged_local_fallback q PATH_MAX = Some l" for l
    using that by (auto simp: find_packaged_local_fallback_def Let_def split: if_splits)
  then show ?thesis using translate_path_len [of q]
    by (auto simp: translate_read_path_def translate_path_def Let_def split: option.splits)
qed

lemma fd_ok_empty: "fd_ok m (empty_book, \<lambda>_. None)"
  by (simp add: fd_ok_def empty_book_def pos_ok_def slots_ok_def names_ok_def pos_at_def no_pslot_def)

lemma file_fopen_ok:
  assumes "fd_ok (h_mem h) (b, nm)" and "fresh_host h nm" and "file_fopen h p mo b = (Inr (fd, q), b')"
  shows "fd_ok (h_mem h) (b', nm(fd \<mapsto> q))"
proof -
  obtain r where p: "p = Some r" using assms(3) by (cases p) (simp_all add: file_fopen_def)
  have q: "length q < PATH_MAX" and fd: "0 \<le> fd \<and> nm fd = None"
    and b: "b' = b\<lparr>positioned := positioned_register (h_mem h) fd q (fopen_host_flags (Some mo)) (positioned b)\<rparr>"
    using assms(2,3) translate_path_len translate_read_path_len
    by (auto simp: p file_fopen_def Let_def fresh_host_def split: sum.splits if_splits)
  show ?thesis using assms(1) fd q by (simp add: b fd_ok_def pos_ok_register slots_ok_fresh names_ok_upd)
qed

lemma open_lock_ok:
  assumes "slots_ok nm us" and "fresh_host h nm" and "open_lock h t q (h_open h q' f md) us = (x, us')"
  shows "case x of Inl _ \<Rightarrow> slots_ok nm us' | Inr fd \<Rightarrow> 0 \<le> fd \<and> nm fd = None \<and> slots_ok (nm(fd \<mapsto> q)) us'"
  using assms slots_ok_find [OF assms(1)]
  by (auto simp: open_lock_def fresh_host_def slots_ok_register split: sum.splits if_splits prod.splits)

lemma open_host_ok:
  assumes ok: "fd_ok m (b, nm)" and fr: "fresh_host h nm" and o: "open_host h g path md b = (x, b')"
  shows "positioned b' = positioned b \<and> data_slots b' = data_slots b \<and>
    (case x of Inl _ \<Rightarrow> slots_ok nm (lock_slots b')
     | Inr fd \<Rightarrow> 0 \<le> fd \<and> nm fd = None \<and> slots_ok (nm(fd \<mapsto> path)) (lock_slots b'))"
proof (cases "is_unitycache_lock_file path")
  case True
  obtain y us where l: "open_lock h (fl_trunc g) path (h_open h path (g\<lparr>accmode := O_RDWR\<rparr>) (if fl_creat g then md else 438))
      (lock_slots b) = (y, us)" by fastforce
  then have "x = y" "b' = b\<lparr>lock_slots := us\<rparr>" using o True by (simp_all add: open_host_def)
  then show ?thesis using open_lock_ok [OF _ fr l] ok by (simp add: fd_ok_def split: sum.splits)
next
  case False
  then show ?thesis using o ok fr
    by (auto simp: open_host_def Let_def fresh_host_def fd_ok_def slots_ok_fresh split: sum.splits)
qed

lemma note_opened_ok:
  assumes "pos_ok m nm (positioned b)" and "slots_ok (nm(fd \<mapsto> q)) (lock_slots b)" and "slots_ok nm (data_slots b)"
    and "names_ok nm" and "0 \<le> fd" and "nm fd = None" and "length q < PATH_MAX"
  shows "fd_ok m (note_opened m g q fd b, nm(fd \<mapsto> q))"
  using assms by (simp add: note_opened_def fd_ok_def Let_def pos_ok_register slots_ok_register slots_ok_fresh names_ok_upd)

lemma open_path_len: "length (open_path h g q) < PATH_MAX"
  by (simp add: open_path_def translate_path_len translate_read_path_len)

lemma file_open_ok:
  assumes ok: "fd_ok (h_mem h) (b, nm)" and fr: "fresh_host h nm" and o: "file_open h p fl md b = (res, b')"
  shows "case res of Inl _ \<Rightarrow> fd_ok (h_mem h) (b', nm) | Inr (fd, q) \<Rightarrow> fd_ok (h_mem h) (b', nm(fd \<mapsto> q))"
proof (cases p)
  case None
  then show ?thesis using ok o by (auto simp: file_open_def)
next
  case (Some r)
  define g where "g = guest_flags fl"
  define path where "path = open_path h g r"
  obtain x b1 where l: "open_host h g path md b = (x, b1)" by fastforce
  show ?thesis
  proof (cases "if fl_creat g then ensure_unity_cache_parents (h_mkdir h) path else Inr ()")
    case (Inl e)
    have "(res, b') = (Inl e, b)" using o Inl unfolding file_open_def Some option.case Let_def g_def [symmetric] path_def [symmetric] by simp
    then show ?thesis using ok by simp
  next
    case (Inr u)
    have e: "(res, b') = (case (x, b1) of (Inl e, b') \<Rightarrow> (Inl e, b') | (Inr fd, b') \<Rightarrow> (Inr (fd, path), note_opened (h_mem h) g path fd b'))"
      using o l Inr unfolding file_open_def Some option.case Let_def g_def [symmetric] path_def [symmetric] by simp
    show ?thesis
    proof (cases x)
      case (Inl e')
      with e open_host_ok [OF ok fr l] ok show ?thesis by (simp add: fd_ok_def)
    next
      case (Inr fd)
      have "fd_ok (h_mem h) (note_opened (h_mem h) g path fd b1, nm(fd \<mapsto> path))"
        by (rule note_opened_ok) (use open_host_ok [OF ok fr l] ok Inr in \<open>simp_all add: fd_ok_def path_def open_path_len\<close>)
      with e Inr show ?thesis by simp
    qed
  qed
qed

lemma file_truncate_ok:
  assumes "fd_ok m (b, nm)" and "file_truncate h p len b = (r, b')"
  shows "fd_ok m (b', nm)"
proof -
  have "slots_ok nm us" if "unitycache_find (h_alive h) q (data_slots b) = (e, us)" for q e us
    using slots_ok_find [OF _ that] assms(1) by (simp add: fd_ok_def)
  with assms show ?thesis
    by (auto simp: file_truncate_def Let_def fd_ok_def split: option.splits if_splits prod.splits)
qed

lemma duplicated_ok:
  assumes ok: "fd_ok m (b, nm)" and nm: "nm old = Some q" and new: "0 \<le> new" and ne: "old \<noteq> new" and m: "m \<longrightarrow> in_range old"
  shows "fd_ok m (file_note_fd_duplicated m old new b, nm(new \<mapsto> q))"
proof -
  have old: "0 \<le> old" "length q < PATH_MAX" using ok nm by (auto simp: fd_ok_def names_ok_def)
  obtain pr f s where c: "positioned_copy_metadata old PATH_MAX (positioned b) = (pr, f, s)" by (cases "positioned_copy_metadata old PATH_MAX (positioned b)")
  have s: "(s = [] \<or> s = q) \<and> (m \<longrightarrow> s = q)"
  proof (cases "in_range old")
    case True
    then have "pos_at m (nm old) (p_path (positioned b ! nat old))"
      using ok by (auto simp: fd_ok_def pos_ok_def in_range_def dest: spec [of _ "nat old"])
    with c True nm old(2) show ?thesis
      by (auto simp: positioned_copy_metadata_def Let_def pos_at_def cut_def PATH_MAX_def split: option.splits)
  qed (use c m in \<open>simp add: positioned_copy_metadata_def\<close>)
  let ?ps = "if s \<noteq> [] then positioned_register m new s f (positioned b)
    else if new < int POSITIONED_FD_SLOTS then positioned_slot_clear new (positioned b) else positioned b"
  have e: "file_note_fd_duplicated m old new b = b\<lparr>positioned := ?ps,
      lock_slots := copy_slot m old new (lock_slots b), data_slots := copy_slot m old new (data_slots b)\<rparr>"
    using old(1) new ne c by (simp add: file_note_fd_duplicated_def)
  have ps: "pos_ok m nm (positioned b)" using ok by (simp add: fd_ok_def)
  have p: "pos_ok m (nm(new \<mapsto> q)) ?ps"
  proof (cases "s = []")
    case False
    then show ?thesis using s pos_ok_register [OF ps, of new q f] by auto
  next
    case True
    show ?thesis
    proof (cases "new < int POSITIONED_FD_SLOTS")
      case r: True
      show ?thesis
      proof (cases m)
        case True
        with s \<open>s = []\<close> pos_ok_clear [OF ps, of "Some []" new] r show ?thesis by simp
      next
        case False
        have "pos_ok m (nm(new \<mapsto> q)) ((positioned b)[nat new := no_pslot])"
          by (rule pos_ok_update [OF ps]) (use False r new in \<open>simp_all add: pos_at_def no_pslot_def in_range_def\<close>)
        with True r new show ?thesis by (simp add: positioned_slot_clear_def in_range_def)
      qed
    qed (use True pos_ok_outside [OF ps] in \<open>simp add: in_range_def\<close>)
  qed
  show ?thesis unfolding e using p ok slots_ok_copy [where old = old and new = new and q = q and nm = nm, OF _ nm new ne] old(2) new
    by (simp add: fd_ok_def names_ok_upd)
qed

lemma closed_ok:
  assumes "fd_ok m (b, nm)"
  shows "fd_ok m (file_note_fd_closed fd b, nm(fd := None))"
  using assms by (simp add: fd_ok_def file_note_fd_closed_def pos_ok_clear slots_ok_forget) (simp add: names_ok_def)

lemma fd_step_ok: "fd_step m s s' \<Longrightarrow> fd_ok m s \<Longrightarrow> fd_ok m s'"
proof (induction rule: fd_step.induct)
  case (opened h nm p fl md b fd q b')
  then show ?case using file_open_ok [of h b nm p fl md "Inr (fd, q)" b'] by simp
next
  case (open_failed h nm p fl md b e b')
  then show ?case using file_open_ok [of h b nm p fl md "Inl e" b'] by simp
next
  case (fopened h nm p mo b fd q b')
  then show ?case using file_fopen_ok [of h b nm p mo fd q b'] by simp
next
  case (fopen_failed h p mo b e b' nm)
  then have "b' = b" by (auto simp: file_fopen_def Let_def split: option.splits sum.splits if_splits)
  then show ?case using fopen_failed by simp
next
  case (truncated h p len b r b' nm)
  then show ?case using file_truncate_ok by blast
next
  case (snapshot native fd b v ps nm)
  then show ?case using pos_ok_snapshot by (auto simp: fd_ok_def)
next
  case (duplicated nm old q new b)
  then show ?case using duplicated_ok by blast
next
  case (closed nm fd q b)
  then show ?case using closed_ok by blast
qed

lemma fd_reach_ok: "fd_reach m s \<Longrightarrow> fd_ok m s"
  by (induction rule: fd_reach.induct) (auto intro: fd_ok_empty fd_step_ok)


definition sample_host :: host where
  "sample_host = \<lparr>h_exists = \<lambda>_. True, h_regular = \<lambda>_. True, h_mkdir = \<lambda>_. Inr (), h_open = \<lambda>_ _ _. Inr 5,
     h_fopen = \<lambda>_ _. Inr 5, h_dup = \<lambda>_. Inr 6, h_ftruncate = \<lambda>_ _. Inr (), h_truncate = \<lambda>_ _. Inr (),
     h_alive = \<lambda>_. True, h_mem = True\<rparr>"


end
