(* ===== verification/World.thy ===== *)
theory World
  imports Paths
begin

text \<open>
  The file system as the installer and the credits patch use it: the contents of the files by path,
  with calls that may fail.  Every call that can fail asks \<open>fails\<close> at the current \<open>clock\<close>, so a
  statement about all worlds is a statement about all patterns of failures.  A failed write or
  close leaves some other bytes, given by \<open>torn\<close>.  The console's \<^verbatim>\<open>rename\<close> needs a free target.
\<close>

record world =
  fs :: "string \<rightharpoonup> byte list"
  fails :: "nat \<Rightarrow> bool"
  torn :: "nat \<Rightarrow> byte list"
  clock :: nat

definition attempt :: "world \<Rightarrow> bool \<times> world" where
  "attempt w = (\<not> fails w (clock w), w\<lparr>clock := clock w + 1\<rparr>)"

definition put :: "string \<Rightarrow> byte list option \<Rightarrow> world \<Rightarrow> world" where
  "put p c w = w\<lparr>fs := (fs w)(p := c)\<rparr>"

definition h_remove :: "string \<Rightarrow> world \<Rightarrow> bool \<times> world" where
  "h_remove p w =
     (case attempt w of (ok, w') \<Rightarrow> if ok \<and> fs w p \<noteq> None then (True, put p None w') else (False, w'))"

definition h_rename :: "string \<Rightarrow> string \<Rightarrow> world \<Rightarrow> bool \<times> world" where
  "h_rename a b w =
     (case attempt w of
        (ok, w') \<Rightarrow> if ok \<and> fs w a \<noteq> None \<and> fs w b = None then (True, put a None (put b (fs w a) w')) else (False, w'))"

text \<open>\<^verbatim>\<open>fopen(p, "wb")\<close>, \<^verbatim>\<open>fwrite\<close> at the end of the file, and \<^verbatim>\<open>fclose\<close> or \<^verbatim>\<open>fflush\<close>.\<close>

definition h_create :: "string \<Rightarrow> world \<Rightarrow> bool \<times> world" where
  "h_create p w = (case attempt w of (ok, w') \<Rightarrow> if ok then (True, put p (Some []) w') else (False, w'))"

definition h_write :: "string \<Rightarrow> byte list \<Rightarrow> world \<Rightarrow> bool \<times> world" where
  "h_write p bs w =
     (case attempt w of
        (ok, w') \<Rightarrow> if ok then (True, put p (Some (case fs w p of Some c \<Rightarrow> c @ bs | None \<Rightarrow> bs)) w')
                    else (False, put p (Some (torn w (clock w))) w'))"

definition h_flush :: "string \<Rightarrow> world \<Rightarrow> bool \<times> world" where
  "h_flush p w =
     (case attempt w of (ok, w') \<Rightarrow> if ok then (True, w') else (False, put p (Some (torn w (clock w))) w'))"

text \<open>\<^verbatim>\<open>file_exists_nonempty\<close>.\<close>

definition file_exists_nonempty :: "world \<Rightarrow> string \<Rightarrow> bool" where
  "file_exists_nonempty w p \<longleftrightarrow> (case fs w p of Some c \<Rightarrow> c \<noteq> [] | None \<Rightarrow> False)"

section \<open>Effects\<close>

text \<open>\<open>only ps w w'\<close>: nothing but the files \<open>ps\<close> changed.\<close>

definition only :: "string set \<Rightarrow> world \<Rightarrow> world \<Rightarrow> bool" where
  "only ps w w' \<longleftrightarrow> (\<forall>p. p \<notin> ps \<longrightarrow> fs w' p = fs w p)"

lemma only_refl [simp]: "only ps w w"
  by (simp add: only_def)

lemma only_trans: "only ps w w' \<Longrightarrow> only ps w' w'' \<Longrightarrow> only ps w w''"
  by (simp add: only_def)

lemma only_mono: "only ps w w' \<Longrightarrow> ps \<subseteq> qs \<Longrightarrow> only qs w w'"
  by (auto simp: only_def)

lemma put_sel [simp]: "fs (put p c w) = (fs w)(p := c)" "clock (put p c w) = clock w" "fails (put p c w) = fails w"
  by (simp_all add: put_def)

lemma attempt_fs: "attempt w = (ok, w') \<Longrightarrow> fs w' = fs w"
  by (auto simp: attempt_def)

lemma h_remove_fs:
  "h_remove p w = (ok, w') \<Longrightarrow> fs w' = (if ok then (fs w)(p := None) else fs w)"
  by (auto simp: h_remove_def attempt_def split: if_splits)

lemma h_rename_fs:
  "h_rename a b w = (ok, w') \<Longrightarrow>
    fs w' = (if ok then (fs w)(b := fs w a, a := None) else fs w) \<and> (ok \<longrightarrow> fs w a \<noteq> None \<and> fs w b = None)"
  by (auto simp: h_rename_def attempt_def split: if_splits)

lemma h_create_fs: "h_create p w = (ok, w') \<Longrightarrow> fs w' = (if ok then (fs w)(p \<mapsto> []) else fs w)"
  by (auto simp: h_create_def attempt_def split: if_splits)

lemma h_write_fs:
  "h_write p bs w = (ok, w') \<Longrightarrow> only {p} w w' \<and> fs w' p \<noteq> None \<and> (ok \<longrightarrow> fs w p = Some c \<longrightarrow> fs w' p = Some (c @ bs))"
  by (auto simp: h_write_def attempt_def only_def split: if_splits)

lemma h_flush_fs: "h_flush p w = (ok, w') \<Longrightarrow> only {p} w w' \<and> (ok \<longrightarrow> fs w' = fs w)"
  by (auto simp: h_flush_def attempt_def only_def split: if_splits)

section \<open>Writing a file piece by piece\<close>

definition and_then :: "(world \<Rightarrow> bool \<times> world) \<Rightarrow> (world \<Rightarrow> bool \<times> world) \<Rightarrow> world \<Rightarrow> bool \<times> world" where
  "and_then f g w = (case f w of (ok, w') \<Rightarrow> if ok then g w' else (False, w'))"

text \<open>\<open>appends p d f\<close>: the action \<open>f\<close> changes at most the file \<open>p\<close>, adds \<open>d\<close> to it if it succeeds, and does succeed if no call fails.\<close>

definition never_fails :: "world \<Rightarrow> bool" where
  "never_fails w \<longleftrightarrow> (\<forall>n. \<not> fails w n)"

definition appends :: "string \<Rightarrow> byte list \<Rightarrow> (world \<Rightarrow> bool \<times> world) \<Rightarrow> bool" where
  "appends p d f \<longleftrightarrow> (\<forall>w ok w'. f w = (ok, w') \<longrightarrow>
     only {p} w w' \<and> fails w' = fails w \<and> (never_fails w \<longrightarrow> ok) \<and>
     (\<forall>c. ok \<and> fs w p = Some c \<longrightarrow> fs w' p = Some (c @ d)))"

lemma appendsD:
  assumes "appends p d f" and "f w = (ok, w')"
  shows "only {p} w w'" and "fails w' = fails w" and "never_fails w \<Longrightarrow> ok"
    and "ok \<Longrightarrow> fs w p = Some c \<Longrightarrow> fs w' p = Some (c @ d)"
  using assms unfolding appends_def by blast+

lemma appends_then:
  assumes f: "appends p d f" and g: "appends p e g"
  shows "appends p (d @ e) (and_then f g)"
  unfolding appends_def
proof (intro allI impI)
  fix w ok w' assume e: "and_then f g w = (ok, w')"
  obtain ok1 w1 where f1: "f w = (ok1, w1)" by fastforce
  note F = appendsD [OF f f1]
  show "only {p} w w' \<and> fails w' = fails w \<and> (never_fails w \<longrightarrow> ok) \<and> (\<forall>c. ok \<and> fs w p = Some c \<longrightarrow> fs w' p = Some (c @ d @ e))"
  proof (cases ok1)
    case False
    with e f1 F show ?thesis by (auto simp: and_then_def)
  next
    case True
    then have g1: "g w1 = (ok, w')" using e f1 by (simp add: and_then_def)
    note G = appendsD [OF g g1]
    have "never_fails w1 = never_fails w" using F(2) by (simp add: never_fails_def)
    then show ?thesis using F(1,2,4) G True only_trans by fastforce
  qed
qed

lemma appends_write: "appends p d (h_write p d)"
  by (auto simp: appends_def h_write_def attempt_def only_def put_def never_fails_def split: if_splits)

lemma appends_flush: "appends p [] (h_flush p)"
  by (auto simp: appends_def h_flush_def attempt_def only_def put_def never_fails_def split: if_splits)

lemma appends_attempt: "appends p [] attempt"
  by (auto simp: appends_def attempt_def never_fails_def only_def)

end
