(* ===== verification/Axml.thy ===== *)
theory Axml
  imports Prelude "HOL-Library.Monad_Syntax"
begin

text \<open>
  The parser of the binary \<^verbatim>\<open>AndroidManifest.xml\<close> (\<^verbatim>\<open>axml_*\<close> and \<^verbatim>\<open>parse_android_manifest\<close> of
  \<^verbatim>\<open>source/installer.c\<close>).  Pointers are indices into the file.  The result \<open>None\<close> of a function
  stands for a read outside the file; a failure return is an ordinary value.
\<close>

section \<open>Reading\<close>

definition rd8 :: "byte list \<Rightarrow> nat \<Rightarrow> byte option" where
  "rd8 b i = (if i < length b then Some (b ! i) else None)"

definition rd16 :: "byte list \<Rightarrow> nat \<Rightarrow> u16 option" where
  "rd16 b i = (if i + 2 \<le> length b then Some (ucast (b ! i) OR push_bit 8 (ucast (b ! (i + 1)))) else None)"

definition rd32 :: "byte list \<Rightarrow> nat \<Rightarrow> u32 option" where
  "rd32 b i =
     (if i + 4 \<le> length b
      then Some (ucast (b ! i) OR push_bit 8 (ucast (b ! (i + 1))) OR push_bit 16 (ucast (b ! (i + 2))) OR
                 push_bit 24 (ucast (b ! (i + 3))))
      else None)"

definition copy_out :: "byte list \<Rightarrow> nat \<Rightarrow> nat \<Rightarrow> byte list option" where
  "copy_out b i n = (if i + n \<le> length b then Some (take n (drop i b)) else None)"

text \<open>\<^verbatim>\<open>(size_t)(end - p)\<close>, which wraps around when the pointer is behind the end.\<close>

definition room :: "nat \<Rightarrow> nat \<Rightarrow> nat" where
  "room p e = (if p \<le> e then e - p else 2 ^ 64 - (p - e))"

text \<open>The text of a C string.\<close>

definition cstr :: "byte list \<Rightarrow> string" where
  "cstr bs = map (\<lambda>b. char_of (unat b)) (takeWhile (\<lambda>b. b \<noteq> 0) bs)"

section \<open>Strings\<close>

record axml_strings =
  x_base :: nat
  x_size :: nat
  x_count :: nat
  x_flags :: u32
  x_start :: nat
  x_header :: nat

text \<open>A length and the bytes it takes; the inner \<open>None\<close> is the failure.\<close>

definition axml_u8len :: "byte list \<Rightarrow> nat \<Rightarrow> nat \<Rightarrow> (nat \<times> nat) option option" where
  "axml_u8len b p e =
     (if e \<le> p then Some None
      else do {
        a \<leftarrow> rd8 b p;
        if a AND 0x80 \<noteq> 0
        then if e \<le> p + 1 then Some None
             else do { c \<leftarrow> rd8 b (p + 1); Some (Some (unat (a AND 0x7f) * 256 + unat c, 2)) }
        else Some (Some (unat a, 1)) })"

definition axml_u16len :: "byte list \<Rightarrow> nat \<Rightarrow> nat \<Rightarrow> (nat \<times> nat) option option" where
  "axml_u16len b p e =
     (if room p e < 2 then Some None
      else do {
        a \<leftarrow> rd16 b p;
        if a AND 0x8000 \<noteq> 0
        then if room p e < 4 then Some None
             else do { c \<leftarrow> rd16 b (p + 2); Some (Some (unat (a AND 0x7fff) * 65536 + unat c, 4)) }
        else Some (Some (unat a, 2)) })"

text \<open>
  From UTF-16 to UTF-8, into a buffer of \<open>cap\<close> bytes: whether it succeeded, and the bytes written
  without the final zero.  A failure leaves what was written before it.
\<close>

definition utf8_2 :: "u16 \<Rightarrow> byte list" where
  "utf8_2 c = [ucast (0xc0 OR drop_bit 6 c), ucast (0x80 OR (c AND 0x3f))]"

definition utf8_3 :: "u16 \<Rightarrow> byte list" where
  "utf8_3 c = [ucast (0xe0 OR drop_bit 12 c), ucast (0x80 OR (drop_bit 6 c AND 0x3f)), ucast (0x80 OR (c AND 0x3f))]"

definition surrogate_pair :: "u16 \<Rightarrow> u16 \<Rightarrow> u32" where
  "surrogate_pair c lo = 0x10000 + push_bit 10 (ucast c - 0xd800) + (ucast lo - 0xdc00)"

definition utf8_4 :: "u32 \<Rightarrow> byte list" where
  "utf8_4 cp = [ucast (0xf0 OR drop_bit 18 cp), ucast (0x80 OR (drop_bit 12 cp AND 0x3f)),
     ucast (0x80 OR (drop_bit 6 cp AND 0x3f)), ucast (0x80 OR (cp AND 0x3f))]"

function utf16_to_utf8 :: "byte list \<Rightarrow> nat \<Rightarrow> nat \<Rightarrow> nat \<Rightarrow> nat \<Rightarrow> byte list \<Rightarrow> (bool \<times> byte list) option" where
  "utf16_to_utf8 b q units cap i out =
     (if i < units \<and> length out + 1 < cap then
        (case rd16 b (q + i * 2) of
           None \<Rightarrow> None
         | Some c \<Rightarrow>
             if c < 0x80 then utf16_to_utf8 b q units cap (i + 1) (out @ [ucast c])
             else if c < 0x800 \<and> length out + 2 < cap then utf16_to_utf8 b q units cap (i + 1) (out @ utf8_2 c)
             else if 0xd800 \<le> c \<and> c \<le> 0xdbff \<and> i + 1 < units then
               (case rd16 b (q + (i + 1) * 2) of
                  None \<Rightarrow> None
                | Some lo \<Rightarrow>
                    if 0xdc00 \<le> lo \<and> lo \<le> 0xdfff \<and> length out + 4 < cap
                    then utf16_to_utf8 b q units cap (i + 2) (out @ utf8_4 (surrogate_pair c lo))
                    else Some (False, out))
             else if 0xdc00 \<le> c \<and> c \<le> 0xdfff then Some (False, out)
             else if length out + 3 < cap then utf16_to_utf8 b q units cap (i + 1) (out @ utf8_3 c)
             else Some (True, out))
      else Some (True, out))"
  by pat_completeness auto
termination by (relation "measure (\<lambda>(b, q, units, cap, i, out). units - i)") auto

declare utf16_to_utf8.simps [simp del]

definition axml_string :: "byte list \<Rightarrow> axml_strings \<Rightarrow> nat \<Rightarrow> nat \<Rightarrow> (bool \<times> byte list) option" where
  "axml_string b sp idx cap =
     (if cap = 0 \<or> x_count sp \<le> idx then Some (False, [])
      else
        let e = x_base sp + x_size sp; offs = x_base sp + x_header sp
        in if room offs e < x_count sp * 4 then Some (False, [])
           else do {
             off \<leftarrow> rd32 b (offs + idx * 4);
             if x_size sp < x_start sp \<or> x_size sp - x_start sp < unat off then Some (False, [])
             else
               let q = x_base sp + x_start sp + unat off
               in if x_flags sp AND 0x100 \<noteq> 0
                  then do {
                    l1 \<leftarrow> axml_u8len b q e;
                    (case l1 of
                       None \<Rightarrow> Some (False, [])
                     | Some (_, used1) \<Rightarrow> do {
                         l2 \<leftarrow> axml_u8len b (q + used1) e;
                         (case l2 of
                            None \<Rightarrow> Some (False, [])
                          | Some (n8, used2) \<Rightarrow>
                              if room (q + used1 + used2) e < n8 then Some (False, [])
                              else do {
                                bs \<leftarrow> copy_out b (q + used1 + used2) (if n8 < cap - 1 then n8 else cap - 1);
                                Some (True, bs) }) }) }
                  else do {
                    l \<leftarrow> axml_u16len b q e;
                    (case l of
                       None \<Rightarrow> Some (False, [])
                     | Some (units, used) \<Rightarrow>
                         if room (q + used) e div 2 < units then Some (False, [])
                         else utf16_to_utf8 b (q + used) units cap 0 []) } })"

section \<open>Attributes\<close>

definition axml_attr_string :: "byte list \<Rightarrow> axml_strings \<Rightarrow> nat \<Rightarrow> nat \<Rightarrow> nat \<Rightarrow> (bool \<times> byte list) option" where
  "axml_attr_string b sp a e cap =
     (if room a e < 20 then Some (False, [])
      else do {
        raw \<leftarrow> rd32 b (a + 8);
        ty \<leftarrow> rd8 b (a + 15);
        data \<leftarrow> rd32 b (a + 16);
        if raw \<noteq> 0xffffffff then axml_string b sp (unat raw) cap
        else if ty = 3 then axml_string b sp (unat data) cap
        else Some (False, []) })"

text \<open>\<^verbatim>\<open>strtol\<close> with base 0: the value and the rest.  The value saturates in C, far outside the range of \<^verbatim>\<open>int\<close>.\<close>

definition digit_val :: "char \<Rightarrow> nat" where
  "digit_val c = (let n = of_char c in
     if 48 \<le> n \<and> n \<le> 57 then n - 48 else if 97 \<le> n \<and> n \<le> 122 then n - 87
     else if 65 \<le> n \<and> n \<le> 90 then n - 55 else 36)"

fun digits :: "nat \<Rightarrow> nat \<Rightarrow> string \<Rightarrow> nat \<times> string" where
  "digits base v [] = (v, [])"
| "digits base v (c # cs) = (if digit_val c < base then digits base (v * base + digit_val c) cs else (v, c # cs))"

definition strtol_unsigned :: "string \<Rightarrow> (nat \<times> string) option" where
  "strtol_unsigned s =
     (case s of
        [] \<Rightarrow> None
      | c # cs \<Rightarrow>
          if c = CHR ''0'' then
            (case cs of
               x # d # ds \<Rightarrow> if (x = CHR ''x'' \<or> x = CHR ''X'') \<and> digit_val d < 16 then Some (digits 16 0 (d # ds))
                            else Some (digits 8 0 s)
             | _ \<Rightarrow> Some (digits 8 0 s))
          else if digit_val c < 10 then Some (digits 10 0 s) else None)"

definition strtol0 :: "string \<Rightarrow> int \<times> string" where
  "strtol0 s =
     (let t = dropWhile (\<lambda>c. of_char c \<in> {9 :: nat, 10, 11, 12, 13, 32}) s;
          (neg, u) = (case t of c # cs \<Rightarrow> if c = CHR ''-'' then (True, cs) else if c = CHR ''+'' then (False, cs) else (False, t)
                      | [] \<Rightarrow> (False, []))
      in case strtol_unsigned u of None \<Rightarrow> (0, s) | Some (v, rest) \<Rightarrow> (if neg then - int v else int v, rest))"

text \<open>The number of an attribute; the outer \<open>None\<close> is a wild read, the inner one the failure.\<close>

definition axml_attr_int :: "byte list \<Rightarrow> axml_strings \<Rightarrow> nat \<Rightarrow> nat \<Rightarrow> int option option" where
  "axml_attr_int b sp a e =
     (if room a e < 20 then Some None
      else do {
        ty \<leftarrow> rd8 b (a + 15);
        data \<leftarrow> rd32 b (a + 16);
        if ty = 0x10 \<or> ty = 0x11 then Some (Some (sint data))
        else do {
          s \<leftarrow> axml_attr_string b sp a e 48;
          (case s of
             (False, _) \<Rightarrow> Some None
           | (True, t) \<Rightarrow>
               (case strtol0 (cstr t) of
                  (v, rest) \<Rightarrow> Some (if rest = [] \<and> - (2 ^ 31) \<le> v \<and> v \<le> 2 ^ 31 - 1 then Some v else None))) } })"

section \<open>The manifest\<close>

record manifest =
  package :: "byte list"
  version_name :: "byte list"
  version_code :: int
  min_sdk :: int
  target_sdk :: int

definition no_manifest :: manifest where
  "no_manifest = \<lparr>package = replicate 128 0, version_name = replicate 128 0, version_code = -1, min_sdk = -1, target_sdk = -1\<rparr>"

text \<open>The bytes stored into a buffer, with the final zero if the string is complete.\<close>

definition store :: "byte list \<Rightarrow> bool \<times> byte list \<Rightarrow> byte list" where
  "store buf r = (case r of (ok, bs) \<Rightarrow> blit buf 0 (if ok then bs @ [0] else bs))"

definition upd_int :: "int \<Rightarrow> int option \<Rightarrow> int" where
  "upd_int old r = (case r of Some v \<Rightarrow> v | None \<Rightarrow> old)"

definition attribute :: "byte list \<Rightarrow> axml_strings \<Rightarrow> string \<Rightarrow> nat \<Rightarrow> nat \<Rightarrow> nat \<Rightarrow> nat \<Rightarrow> manifest \<Rightarrow> manifest option" where
  "attribute b sp elem attrs attr_size e i m =
     (let a = attrs + i * attr_size
      in do {
        name \<leftarrow> rd32 b (a + 4);
        k \<leftarrow> axml_string b sp (unat name) 64;
        (case k of
           (False, _) \<Rightarrow> Some m
         | (True, kb) \<Rightarrow>
             let key = cstr kb
             in if elem = ''manifest'' then
                  if key = ''package''
                  then do { r \<leftarrow> axml_attr_string b sp a e 128; Some (m\<lparr>package := store (package m) r\<rparr>) }
                  else if key = ''versionName''
                  then do { r \<leftarrow> axml_attr_string b sp a e 128; Some (m\<lparr>version_name := store (version_name m) r\<rparr>) }
                  else if key = ''versionCode''
                  then do { r \<leftarrow> axml_attr_int b sp a e; Some (m\<lparr>version_code := upd_int (version_code m) r\<rparr>) }
                  else Some m
                else if elem = ''uses-sdk'' then
                  if key = ''minSdkVersion''
                  then do { r \<leftarrow> axml_attr_int b sp a e; Some (m\<lparr>min_sdk := upd_int (min_sdk m) r\<rparr>) }
                  else if key = ''targetSdkVersion''
                  then do { r \<leftarrow> axml_attr_int b sp a e; Some (m\<lparr>target_sdk := upd_int (target_sdk m) r\<rparr>) }
                  else Some m
                else Some m) })"

fun attributes :: "(nat \<Rightarrow> manifest \<Rightarrow> manifest option) \<Rightarrow> nat list \<Rightarrow> manifest \<Rightarrow> manifest option" where
  "attributes f [] m = Some m"
| "attributes f (i # is) m = (case f i m of None \<Rightarrow> None | Some m' \<Rightarrow> attributes f is m')"

text \<open>The start of an element, of \<open>cs\<close> bytes at \<open>pos\<close>.\<close>

definition start_element :: "byte list \<Rightarrow> axml_strings \<Rightarrow> nat \<Rightarrow> nat \<Rightarrow> manifest \<Rightarrow> manifest option" where
  "start_element b sp pos cs m =
     (let e = pos + cs; ext = pos + 16
      in do {
        name \<leftarrow> rd32 b (ext + 4);
        n \<leftarrow> axml_string b sp (unat name) 64;
        (case n of
           (False, _) \<Rightarrow> Some m
         | (True, elem) \<Rightarrow> do {
             attr_start \<leftarrow> rd16 b (ext + 8);
             attr_size \<leftarrow> rd16 b (ext + 10);
             attr_count \<leftarrow> rd16 b (ext + 12);
             let attrs = ext + unat attr_start
             in if 20 \<le> unat attr_size \<and> attrs \<le> e \<and> unat attr_size * unat attr_count \<le> room attrs e
                then attributes (attribute b sp (cstr elem) attrs (unat attr_size) e) [0..<unat attr_count] m
                else Some m }) })"

text \<open>One chunk at \<open>pos\<close>: the inner \<open>None\<close> ends the loop, otherwise the strings, the manifest and the size of the chunk.\<close>

definition chunk :: "byte list \<Rightarrow> nat \<Rightarrow> axml_strings option \<Rightarrow> manifest \<Rightarrow> (axml_strings option \<times> manifest \<times> nat) option option" where
  "chunk b pos sp m =
     do {
       ty \<leftarrow> rd16 b pos;
       hs16 \<leftarrow> rd16 b (pos + 2);
       cs32 \<leftarrow> rd32 b (pos + 4);
       let hs = unat hs16; cs = unat cs32
       in if cs < 8 \<or> hs < 8 \<or> cs < hs \<or> length b - pos < cs then Some None
          else if ty = 1 \<and> 28 \<le> hs then do {
            n \<leftarrow> rd32 b (pos + 8);
            fl \<leftarrow> rd32 b (pos + 16);
            st \<leftarrow> rd32 b (pos + 20);
            Some (Some (Some \<lparr>x_base = pos, x_size = cs, x_count = unat n, x_flags = fl, x_start = unat st, x_header = hs\<rparr>, m, cs)) }
          else
            (case sp of
               Some s \<Rightarrow>
                 if ty = 0x0102 \<and> 16 \<le> hs \<and> 36 \<le> cs
                 then do { m' \<leftarrow> start_element b s pos cs m; Some (Some (sp, m', cs)) }
                 else Some (Some (sp, m, cs))
             | None \<Rightarrow> Some (Some (sp, m, cs))) }"

lemma chunk_size: "chunk b pos sp m = Some (Some (sp', m', n)) \<Longrightarrow> 8 \<le> n"
  by (auto simp: chunk_def Let_def bind_eq_Some_conv split: if_splits option.splits)

function chunks :: "byte list \<Rightarrow> nat \<Rightarrow> axml_strings option \<Rightarrow> manifest \<Rightarrow> manifest option" where
  "chunks b pos sp m =
     (if pos + 8 \<le> length b
      then (case chunk b pos sp m of
              None \<Rightarrow> None
            | Some None \<Rightarrow> Some m
            | Some (Some (sp', m', n)) \<Rightarrow> chunks b (pos + n) sp' m')
      else Some m)"
  by pat_completeness auto
termination by (relation "measure (\<lambda>(b, pos, sp, m). length b - pos)") (auto dest: chunk_size [OF sym] chunk_size)

declare chunks.simps [simp del]

definition GAME_PACKAGE :: string where "GAME_PACKAGE = ''com.dripmissouri.refreshed''"

text \<open>
  The whole parser, on a file of contents \<open>f\<close> (\<open>None\<close> when it cannot be opened or read, or when
  there is no memory) and the strings of an earlier run: whether it succeeded, and the manifest.
\<close>

definition reset_manifest :: "manifest \<Rightarrow> manifest" where
  "reset_manifest m = m\<lparr>package := (package m)[0 := 0], version_name := (version_name m)[0 := 0],
     version_code := -1, min_sdk := -1, target_sdk := -1\<rparr>"

definition parse_android_manifest :: "byte list option \<Rightarrow> manifest \<Rightarrow> (bool \<times> manifest) option" where
  "parse_android_manifest f m0 =
     (let m = reset_manifest m0
      in case f of
           None \<Rightarrow> Some (False, m)
         | Some b \<Rightarrow>
             if length b < 8 \<or> 8 * 1024 * 1024 < length b then Some (False, m)
             else do {
               magic \<leftarrow> rd16 b 0;
               total \<leftarrow> rd32 b 4;
               if magic \<noteq> 3 \<or> length b < unat total then Some (False, m)
               else do {
                 hs \<leftarrow> rd16 b 2;
                 m' \<leftarrow> chunks b (unat hs) None m;
                 Some (package m' ! 0 \<noteq> 0 \<and> cstr (package m') = GAME_PACKAGE, m') } })"

end
