(* ===== verification/Zip.thy ===== *)
theory Zip
  imports World Axml
begin

text \<open>
  The archive of the game and the extraction of its files (\<^verbatim>\<open>source/installer.c\<close>).  Reading the
  archive is a function of the position and the number of bytes; \<^verbatim>\<open>crc32\<close> and \<^verbatim>\<open>inflate\<close> of zlib
  are arguments.
\<close>

section \<open>The directory of the archive\<close>

definition ZIP_NAME_MAX :: nat where "ZIP_NAME_MAX = 768"
definition ZIP_IO_BYTES :: nat where "ZIP_IO_BYTES = 128 * 1024"
definition UINT32_MAX :: nat where "UINT32_MAX = 0xffffffff"

record archive =
  a_size :: nat
  a_read :: "nat \<Rightarrow> nat \<Rightarrow> byte list option"

record zentry =
  z_name :: string
  z_flags :: u16
  z_method :: u16
  z_crc :: u32
  z_csize :: nat
  z_usize :: nat
  z_local :: nat

text \<open>Reads from a header of fixed size, always inside it.\<close>

definition u16_at :: "byte list \<Rightarrow> nat \<Rightarrow> u16" where
  "u16_at h i = (case rd16 h i of Some v \<Rightarrow> v | None \<Rightarrow> 0)"

definition u32_at :: "byte list \<Rightarrow> nat \<Rightarrow> u32" where
  "u32_at h i = (case rd32 h i of Some v \<Rightarrow> v | None \<Rightarrow> 0)"

text \<open>The end record, searched from the end of the archive: the number of entries and where they start.\<close>

fun find_end :: "byte list \<Rightarrow> nat \<Rightarrow> nat option" where
  "find_end tail 0 = (if u32_at tail 0 = 0x06054b50 then Some 0 else None)"
| "find_end tail (Suc pos) = (if u32_at tail (Suc pos) = 0x06054b50 then Some (Suc pos) else find_end tail pos)"

definition zip_open :: "archive \<Rightarrow> (nat \<times> nat) option" where
  "zip_open z =
     (if a_size z < 22 then None
      else let tail_n = (if a_size z < 0x10016 then a_size z else 0x10016)
           in case a_read z (a_size z - tail_n) tail_n of
                None \<Rightarrow> None
              | Some tail \<Rightarrow>
                  (case find_end tail (tail_n - 22) of
                     None \<Rightarrow> None
                   | Some pos \<Rightarrow>
                       let entries = unat (u16_at tail (pos + 10)); cd = unat (u32_at tail (pos + 16))
                       in if entries = 0 \<or> cd = UINT32_MAX then None else Some (entries, cd)))"

text \<open>One entry at \<open>p\<close>, with the position behind it.\<close>

definition read_entry :: "archive \<Rightarrow> nat \<Rightarrow> (zentry \<times> nat) option" where
  "read_entry z p =
     (case a_read z p 46 of
        None \<Rightarrow> None
      | Some h \<Rightarrow>
          if u32_at h 0 \<noteq> 0x02014b50 then None
          else let nl = unat (u16_at h 28); xl = unat (u16_at h 30); cl = unat (u16_at h 32)
               in if nl = 0 \<or> ZIP_NAME_MAX \<le> nl then None
                  else let csize = unat (u32_at h 20); usize = unat (u32_at h 24); loc = unat (u32_at h 42)
                       in if csize = UINT32_MAX \<or> usize = UINT32_MAX \<or> loc = UINT32_MAX then None
                          else (case a_read z (p + 46) nl of
                                  None \<Rightarrow> None
                                | Some name \<Rightarrow>
                                    Some (\<lparr>z_name = cstr name, z_flags = u16_at h 8, z_method = u16_at h 10, z_crc = u32_at h 16,
                                           z_csize = csize, z_usize = usize, z_local = loc\<rparr>, p + 46 + nl + xl + cl)))"

text \<open>
  The loop over \<open>n\<close> entries.  The visitor gives whether to go on, with its state; \<open>None\<close> is a
  visitor that does not return.
\<close>

fun zip_visit :: "archive \<Rightarrow> (zentry \<Rightarrow> 's \<Rightarrow> (bool \<times> 's) option) \<Rightarrow> nat \<Rightarrow> nat \<Rightarrow> 's \<Rightarrow> (bool \<times> 's) option" where
  "zip_visit z visitor 0 p s = Some (True, s)"
| "zip_visit z visitor (Suc n) p s =
     (case read_entry z p of
        None \<Rightarrow> Some (False, s)
      | Some (e, next) \<Rightarrow>
          (case visitor e s of
             None \<Rightarrow> None
           | Some (ok, s') \<Rightarrow> if ok then zip_visit z visitor n next s' else Some (False, s')))"

section \<open>What is extracted\<close>

definition INSTALL_REQ_MANIFEST :: u32 where "INSTALL_REQ_MANIFEST = 1"
definition INSTALL_REQ_MAIN :: u32 where "INSTALL_REQ_MAIN = 2"
definition INSTALL_REQ_UNITY :: u32 where "INSTALL_REQ_UNITY = 4"
definition INSTALL_REQ_IL2CPP :: u32 where "INSTALL_REQ_IL2CPP = 8"
definition INSTALL_REQ_METADATA :: u32 where "INSTALL_REQ_METADATA = 16"
definition INSTALL_REQ_DATA :: u32 where "INSTALL_REQ_DATA = 32"
definition INSTALL_REQ_RESOURCES :: u32 where "INSTALL_REQ_RESOURCES = 64"
definition INSTALL_REQ_GUID :: u32 where "INSTALL_REQ_GUID = 128"
definition INSTALL_REQ_MSCORLIB :: u32 where "INSTALL_REQ_MSCORLIB = 256"
definition INSTALL_REQ_SYSTEM_DATA :: u32 where "INSTALL_REQ_SYSTEM_DATA = 512"
definition INSTALL_REQ_SYSTEM_DRAWING :: u32 where "INSTALL_REQ_SYSTEM_DRAWING = 1024"
definition INSTALL_REQ_ENGLISH :: u32 where "INSTALL_REQ_ENGLISH = 2048"

definition LIB_MAIN :: string where "LIB_MAIN = ''libmain.so''"
definition LIB_UNITY :: string where "LIB_UNITY = ''libunity.so''"
definition LIB_IL2CPP :: string where "LIB_IL2CPP = ''libil2cpp.so''"

definition is_safe_relative_path :: "string \<Rightarrow> bool" where
  "is_safe_relative_path p \<longleftrightarrow> p \<noteq> [] \<and> hd p \<noteq> CHR ''/'' \<and> find_sub p ''..'' = None \<and> CHR 92 \<notin> set p"

definition has_trailing_slash :: "string \<Rightarrow> bool" where
  "has_trailing_slash p \<longleftrightarrow> p \<noteq> [] \<and> last p = CHR ''/''"

definition asset_bit :: "string \<Rightarrow> u32" where
  "asset_bit name =
     (if name = ''assets/bin/Data/Managed/Metadata/global-metadata.dat'' then INSTALL_REQ_METADATA
      else if name = ''assets/bin/Data/data.unity3d'' then INSTALL_REQ_DATA
      else if name = ''assets/bin/Data/resources.resource'' then INSTALL_REQ_RESOURCES
      else if name = ''assets/bin/Data/unity_app_guid'' then INSTALL_REQ_GUID
      else if name = ''assets/bin/Data/Managed/Resources/mscorlib.dll-resources.dat'' then INSTALL_REQ_MSCORLIB
      else if name = ''assets/bin/Data/Managed/Resources/System.Data.dll-resources.dat'' then INSTALL_REQ_SYSTEM_DATA
      else if name = ''assets/bin/Data/Managed/Resources/System.Drawing.dll-resources.dat'' then INSTALL_REQ_SYSTEM_DRAWING
      else if name = ''assets/local/live_English.bytes'' then INSTALL_REQ_ENGLISH
      else 0)"

text \<open>\<open>Inl\<close> is the refusal, \<open>Inr None\<close> an entry that is left out, and otherwise the target and its bit.\<close>

definition install_entry_target :: "string \<Rightarrow> unit + (string \<times> u32) option" where
  "install_entry_target name =
     (if name = ''AndroidManifest.xml'' then Inr (Some (DATA_ROOT @ ''/AndroidManifest.xml'', INSTALL_REQ_MANIFEST))
      else if starts_with ''assets/'' name then
        if has_trailing_slash name then Inr None
        else if \<not> is_safe_relative_path name then Inl ()
        else let t = DATA_ROOT @ ''/'' @ name
             in if PATH_MAX \<le> length t then Inl () else Inr (Some (t, asset_bit name))
      else if starts_with ''lib/arm64-v8a/'' name then
        let lib = drop 14 name
        in if lib \<noteq> LIB_MAIN \<and> lib \<noteq> LIB_UNITY \<and> lib \<noteq> LIB_IL2CPP then Inr None
           else let t = DATA_ROOT @ ''/'' @ lib
                in if PATH_MAX \<le> length t then Inl ()
                   else Inr (Some (t, if lib = LIB_MAIN then INSTALL_REQ_MAIN else if lib = LIB_UNITY then INSTALL_REQ_UNITY
                                      else INSTALL_REQ_IL2CPP))
      else Inr None)"

text \<open>The directories above a file, made one after the other; nothing is made outside the runtime directory.\<close>

definition parent_dirs :: "string \<Rightarrow> string list" where
  "parent_dirs p = map (\<lambda>i. take i p) (filter (\<lambda>i. p ! i = CHR ''/'') [length DATA_ROOT + 1..<length p])"

fun make_dirs :: "string list \<Rightarrow> world \<Rightarrow> bool \<times> world" where
  "make_dirs [] w = (True, w)"
| "make_dirs (d # ds) w = (case attempt w of (ok, w') \<Rightarrow> if ok then make_dirs ds w' else (False, w'))"

definition create_parent_directories :: "string \<Rightarrow> world \<Rightarrow> bool \<times> world" where
  "create_parent_directories file w =
     (let p = cut PATH_MAX file in if under DATA_ROOT p then make_dirs (parent_dirs p) w else (False, w))"

section \<open>Extraction\<close>

text \<open>A stored entry is copied in pieces: whether it worked, the checksum and the bytes written.\<close>

function copy_stored ::
  "archive \<Rightarrow> (u32 \<Rightarrow> byte list \<Rightarrow> u32) \<Rightarrow> string \<Rightarrow> nat \<Rightarrow> nat \<Rightarrow> u32 \<Rightarrow> nat \<Rightarrow> world \<Rightarrow> bool \<times> u32 \<times> nat \<times> world" where
  "copy_stored z crc32 tmp pos left crc written w =
     (if left = 0 then (True, crc, written, w)
      else let n = (if left < ZIP_IO_BYTES then left else ZIP_IO_BYTES)
           in case a_read z pos n of
                None \<Rightarrow> (False, crc, written, w)
              | Some bs \<Rightarrow>
                  (case h_write tmp bs w of
                     (ok, w') \<Rightarrow>
                       if ok then copy_stored z crc32 tmp (pos + n) (left - n) (crc32 crc bs) (written + n) w'
                       else (False, crc32 crc bs, written, w')))"
  by pat_completeness auto
termination
  by (relation "measure (\<lambda>(z, crc32, tmp, pos, left, crc, written, w). left)") (auto simp: ZIP_IO_BYTES_def)

declare copy_stored.simps [simp del]

text \<open>
  \<^verbatim>\<open>inflate\<close>: from its state, the input that is left and whether more will come, the status, the
  rest of the input, the bytes it made and the new state.  The loop need not end, so it is partial.
\<close>

datatype zstatus = Z_OK | Z_STREAM_END | Z_BUF_ERROR | Z_OTHER

type_synonym 'z inflate = "'z \<Rightarrow> byte list \<Rightarrow> bool \<Rightarrow> zstatus \<times> byte list \<times> byte list \<times> 'z"

definition refill :: "archive \<Rightarrow> byte list \<Rightarrow> nat \<Rightarrow> nat \<Rightarrow> (byte list \<times> nat \<times> nat) option" where
  "refill z inp pos left =
     (if inp = [] \<and> left \<noteq> 0
      then let n = (if left < ZIP_IO_BYTES then left else ZIP_IO_BYTES)
           in case a_read z pos n of None \<Rightarrow> None | Some bs \<Rightarrow> Some (bs, pos + n, left - n)
      else Some (inp, pos, left))"

partial_function (option) copy_inflated ::
  "archive \<Rightarrow> (u32 \<Rightarrow> byte list \<Rightarrow> u32) \<Rightarrow> 'z inflate \<Rightarrow> string \<Rightarrow> zstatus \<Rightarrow> 'z \<Rightarrow> byte list \<Rightarrow> nat \<Rightarrow> nat \<Rightarrow>
   u32 \<Rightarrow> nat \<Rightarrow> world \<Rightarrow> (bool \<times> u32 \<times> nat \<times> world) option" where
  "copy_inflated z crc32 infl tmp st zs inp pos left crc written w =
     (if st = Z_STREAM_END then Some (True, crc, written, w)
      else case refill z inp pos left of
             None \<Rightarrow> Some (False, crc, written, w)
           | Some (inp1, pos1, left1) \<Rightarrow>
               (case infl zs inp1 (left1 = 0) of
                  (st', inp2, made, zs') \<Rightarrow>
                    let crc' = (if made \<noteq> [] then crc32 crc made else crc);
                        r = (if made \<noteq> [] then h_write tmp made w else (True, w))
                    in if \<not> fst r then Some (False, crc', written, snd r)
                       else if st' = Z_OTHER \<or> st' = Z_BUF_ERROR \<and> left1 = 0 \<and> inp2 = []
                       then Some (False, crc', written + length made, snd r)
                       else copy_inflated z crc32 infl tmp st' zs' inp2 pos1 left1 crc' (written + length made) (snd r)))"

text \<open>
  The whole extraction of an entry to \<open>target\<close>; \<open>zs0\<close> is the initial state of \<^verbatim>\<open>inflate\<close>.  The bytes
  go to a temporary file, which takes the target's place when size and checksum are right.
\<close>

definition extract_data ::
  "archive \<Rightarrow> (u32 \<Rightarrow> byte list \<Rightarrow> u32) \<Rightarrow> 'z inflate \<Rightarrow> 'z \<Rightarrow> zentry \<Rightarrow> string \<Rightarrow> nat \<Rightarrow> world \<Rightarrow> (bool \<times> u32 \<times> nat \<times> world) option" where
  "extract_data z crc32 infl zs0 e tmp pos w =
     (if z_method e = 0 then Some (copy_stored z crc32 tmp pos (z_csize e) 0 0 w)
      else case attempt w of
             (ok, w') \<Rightarrow> if ok then copy_inflated z crc32 infl tmp Z_OK zs0 [] pos (z_csize e) 0 0 w' else Some (False, 0, 0, w'))"

definition finish_entry :: "zentry \<Rightarrow> string \<Rightarrow> string \<Rightarrow> bool \<times> u32 \<times> nat \<times> world \<Rightarrow> bool \<times> world" where
  "finish_entry e target tmp r =
     (case r of (ok, crc, written, w) \<Rightarrow>
        (case h_flush tmp w of
           (cl, w1) \<Rightarrow>
             if \<not> (ok \<and> cl) \<or> written \<noteq> z_usize e then (False, snd (h_remove tmp w1))
             else if crc \<noteq> z_crc e then (False, snd (h_remove tmp w1))
             else case h_rename tmp target (snd (h_remove target w1)) of
                    (True, w2) \<Rightarrow> (True, w2)
                  | (False, w2) \<Rightarrow> (False, snd (h_remove tmp w2))))"

definition extract_entry ::
  "archive \<Rightarrow> (u32 \<Rightarrow> byte list \<Rightarrow> u32) \<Rightarrow> 'z inflate \<Rightarrow> 'z \<Rightarrow> zentry \<Rightarrow> string \<Rightarrow> world \<Rightarrow> (bool \<times> world) option" where
  "extract_entry z crc32 infl zs0 e target w =
     (if z_flags e AND 1 \<noteq> 0 then Some (False, w)
      else if z_method e \<noteq> 0 \<and> z_method e \<noteq> 8 then Some (False, w)
      else case a_read z (z_local e) 30 of
             None \<Rightarrow> Some (False, w)
           | Some lh \<Rightarrow>
               if u32_at lh 0 \<noteq> 0x04034b50 then Some (False, w)
               else case create_parent_directories target w of
                      (False, w1) \<Rightarrow> Some (False, w1)
                    | (True, w1) \<Rightarrow>
                        let tmp = target @ ''.tmp''; pos = z_local e + 30 + unat (u16_at lh 26) + unat (u16_at lh 28)
                        in if PATH_MAX + 5 \<le> length tmp then Some (False, w1)
                           else case h_create tmp w1 of
                                  (False, w2) \<Rightarrow> Some (False, w2)
                                | (True, w2) \<Rightarrow>
                                    (case attempt w2 of
                                       (False, w3) \<Rightarrow> Some (False, snd (h_remove tmp w3))
                                     | (True, w3) \<Rightarrow>
                                         (case extract_data z crc32 infl zs0 e tmp pos w3 of
                                            None \<Rightarrow> None
                                          | Some r \<Rightarrow> Some (finish_entry e target tmp r))))"

end
