(* ===== verification/Extract.thy ===== *)
theory Extract
  imports Zip
begin

text \<open>
  The visitor that extracts the game, and what extraction leaves: a file under its final name is
  the old one, gone, or complete with the size and checksum of its entry.
\<close>

section \<open>The visitor\<close>

record install_state =
  files :: nat
  have_main :: bool
  have_unity :: bool
  have_il2cpp :: bool
  have_metadata :: bool
  have_data :: bool
  have_resources :: bool
  have_manifest :: bool

definition no_files :: install_state where
  "no_files = \<lparr>files = 0, have_main = False, have_unity = False, have_il2cpp = False, have_metadata = False,
     have_data = False, have_resources = False, have_manifest = False\<rparr>"

definition mark :: "u32 \<Rightarrow> install_state \<Rightarrow> install_state" where
  "mark b st =
     (if b = INSTALL_REQ_MANIFEST then st\<lparr>have_manifest := True\<rparr>
      else if b = INSTALL_REQ_MAIN then st\<lparr>have_main := True\<rparr>
      else if b = INSTALL_REQ_UNITY then st\<lparr>have_unity := True\<rparr>
      else if b = INSTALL_REQ_IL2CPP then st\<lparr>have_il2cpp := True\<rparr>
      else if b = INSTALL_REQ_METADATA then st\<lparr>have_metadata := True\<rparr>
      else if b = INSTALL_REQ_DATA then st\<lparr>have_data := True\<rparr>
      else if b = INSTALL_REQ_RESOURCES then st\<lparr>have_resources := True\<rparr>
      else st)"

definition install_visitor ::
  "archive \<Rightarrow> (u32 \<Rightarrow> byte list \<Rightarrow> u32) \<Rightarrow> 'z inflate \<Rightarrow> 'z \<Rightarrow> zentry \<Rightarrow> install_state \<times> world \<Rightarrow> (bool \<times> install_state \<times> world) option" where
  "install_visitor z crc32 infl zs0 e s =
     (case s of (st, w) \<Rightarrow>
        case install_entry_target (z_name e) of
          Inl _ \<Rightarrow> Some (False, st, w)
        | Inr None \<Rightarrow> Some (True, st, w)
        | Inr (Some (target, b)) \<Rightarrow>
            (case extract_entry z crc32 infl zs0 e target w of
               None \<Rightarrow> None
             | Some (False, w') \<Rightarrow> Some (False, mark b st, w')
             | Some (True, w') \<Rightarrow> Some (True, (mark b st)\<lparr>files := files (mark b st) + 1\<rparr>, w')))"

section \<open>One entry\<close>

text \<open>The chaining that zlib documents for \<^verbatim>\<open>crc32\<close>.\<close>

definition crc_chain :: "(u32 \<Rightarrow> byte list \<Rightarrow> u32) \<Rightarrow> bool" where
  "crc_chain crc32 \<longleftrightarrow> (\<forall>c. crc32 c [] = c) \<and> (\<forall>c a b. crc32 c (a @ b) = crc32 (crc32 c a) b)"

definition archive_ok :: "archive \<Rightarrow> bool" where
  "archive_ok z \<longleftrightarrow> (\<forall>p n bs. a_read z p n = Some bs \<longrightarrow> length bs = n)"

definition complete :: "(u32 \<Rightarrow> byte list \<Rightarrow> u32) \<Rightarrow> zentry \<Rightarrow> byte list \<Rightarrow> bool" where
  "complete crc32 e c \<longleftrightarrow> length c = z_usize e \<and> crc32 0 c = z_crc e"

text \<open>The temporary file holds the bytes that were counted and summed.\<close>

definition tracked_file :: "(u32 \<Rightarrow> byte list \<Rightarrow> u32) \<Rightarrow> string \<Rightarrow> u32 \<Rightarrow> nat \<Rightarrow> world \<Rightarrow> bool" where
  "tracked_file crc32 tmp crc written w \<longleftrightarrow> (\<exists>acc. fs w tmp = Some acc \<and> length acc = written \<and> crc = crc32 0 acc)"

definition copied :: "(u32 \<Rightarrow> byte list \<Rightarrow> u32) \<Rightarrow> string \<Rightarrow> world \<Rightarrow> bool \<times> u32 \<times> nat \<times> world \<Rightarrow> bool" where
  "copied crc32 tmp w r \<longleftrightarrow> (case r of (ok, crc, written, w') \<Rightarrow> only {tmp} w w' \<and> (ok \<longrightarrow> tracked_file crc32 tmp crc written w'))"

lemma copied_trans: "only {tmp} w w1 \<Longrightarrow> copied crc32 tmp w1 r \<Longrightarrow> copied crc32 tmp w r"
  by (auto simp: copied_def only_def split: prod.splits)

lemma tracked_write:
  assumes "crc_chain crc32" and "tracked_file crc32 tmp crc written w" and "h_write tmp bs w = (ok, w')"
  shows "only {tmp} w w' \<and> (ok \<longrightarrow> tracked_file crc32 tmp (crc32 crc bs) (written + length bs) w')"
proof -
  obtain acc where acc: "fs w tmp = Some acc" "length acc = written" "crc = crc32 0 acc"
    using assms(2) by (auto simp: tracked_file_def)
  have chain: "crc32 0 (acc @ bs) = crc32 (crc32 0 acc) bs" using assms(1) by (simp add: crc_chain_def)
  show ?thesis
    using h_write_fs [OF assms(3), of acc] acc chain by (auto simp: tracked_file_def)
qed

lemma copy_stored_copied:
  assumes "crc_chain crc32" and "archive_ok z" and "tracked_file crc32 tmp crc written w"
  shows "copied crc32 tmp w (copy_stored z crc32 tmp pos left crc written w)"
  using assms
proof (induction z crc32 tmp pos left crc written w rule: copy_stored.induct)
  case (1 z crc32 tmp pos left crc written w)
  show ?case
  proof (cases "left = 0")
    case True
    then show ?thesis using "1.prems" by (subst copy_stored.simps) (simp add: copied_def)
  next
    case False
    define n where "n = (if left < ZIP_IO_BYTES then left else ZIP_IO_BYTES)"
    show ?thesis
    proof (cases "a_read z pos n")
      case None
      then have "copy_stored z crc32 tmp pos left crc written w = (False, crc, written, w)"
        using False by (subst copy_stored.simps) (simp add: n_def [symmetric])
      then show ?thesis by (simp add: copied_def)
    next
      case (Some bs)
      then have len: "length bs = n" using "1.prems"(2) by (simp add: archive_ok_def)
      obtain ok w' where wr: "h_write tmp bs w = (ok, w')" by fastforce
      note T = tracked_write [OF "1.prems"(1,3) wr]
      show ?thesis
      proof (cases ok)
        case True
        have e: "copy_stored z crc32 tmp pos left crc written w =
            copy_stored z crc32 tmp (pos + n) (left - n) (crc32 crc bs) (written + n) w'"
          using False Some wr True by (subst copy_stored.simps) (simp add: n_def [symmetric])
        have "copied crc32 tmp w' (copy_stored z crc32 tmp (pos + n) (left - n) (crc32 crc bs) (written + n) w')"
          by (rule "1.IH" [OF False n_def Some wr [symmetric] True "1.prems"(1,2)]) (use T True len in simp)
        then show ?thesis unfolding e using T copied_trans by blast
      next
        case F: False
        then have "copy_stored z crc32 tmp pos left crc written w = (False, crc32 crc bs, written, w')"
          using False Some wr by (subst copy_stored.simps) (simp add: n_def [symmetric])
        then show ?thesis using T by (simp add: copied_def)
      qed
    qed
  qed
qed

lemma copy_inflated_copied:
  assumes "copy_inflated z crc32 infl tmp st zs inp pos left crc written w = Some r"
    and "crc_chain crc32" and "tracked_file crc32 tmp crc written w"
  shows "copied crc32 tmp w r"
  using assms(2,3)
proof (induction rule: copy_inflated.raw_induct [OF _ assms(1)])
  case (1 self z crc32 infl tmp st zs inp pos left crc written w r)
  show ?case
  proof (cases "st = Z_STREAM_END")
    case True
    then show ?thesis using "1.hyps" "1.prems" by (auto simp: copied_def)
  next
    case False
    show ?thesis
    proof (cases "refill z inp pos left")
      case None
      then show ?thesis using False "1.hyps" by (auto simp: copied_def)
    next
      case (Some x)
      obtain inp1 pos1 left1 where x: "refill z inp pos left = Some (inp1, pos1, left1)" using Some by (cases x) simp
      obtain st' inp2 made zs' where i: "infl zs inp1 (left1 = 0) = (st', inp2, made, zs')" by (metis prod_cases4)
      define crc' where "crc' = (if made \<noteq> [] then crc32 crc made else crc)"
      obtain ok w' where wr: "(if made \<noteq> [] then h_write tmp made w else (True, w)) = (ok, w')" by fastforce
      have T: "only {tmp} w w' \<and> (ok \<longrightarrow> tracked_file crc32 tmp crc' (written + length made) w')"
        using tracked_write [OF "1.prems", of made ok w'] wr "1.prems"(2)
        by (auto simp: crc'_def split: if_splits)
      have e: "Some r = (if \<not> ok then Some (False, crc', written, w')
          else if st' = Z_OTHER \<or> st' = Z_BUF_ERROR \<and> left1 = 0 \<and> inp2 = [] then Some (False, crc', written + length made, w')
          else self z crc32 infl tmp st' zs' inp2 pos1 left1 crc' (written + length made) w')"
        using "1.hyps" [symmetric] False unfolding crc'_def
        by (simp only: if_False x option.case i prod.case Let_def wr fst_conv snd_conv)
      show ?thesis
      proof (cases "\<not> ok \<or> st' = Z_OTHER \<or> st' = Z_BUF_ERROR \<and> left1 = 0 \<and> inp2 = []")
        case True
        then have "\<exists>k. r = (False, crc', k, w')" using e by (auto split: if_splits)
        then show ?thesis using T by (auto simp: copied_def)
      next
        case F: False
        then have "self z crc32 infl tmp st' zs' inp2 pos1 left1 crc' (written + length made) w' = Some r" using e by auto
        from "1.IH" [OF this "1.prems"(1)] T F show ?thesis using copied_trans by blast
      qed
    qed
  qed
qed

lemma make_dirs_fs: "make_dirs ds w = (ok, w') \<Longrightarrow> fs w' = fs w"
  by (induction ds arbitrary: w) (auto dest: attempt_fs split: prod.splits if_splits)

lemma create_parents_fs: "create_parent_directories p w = (ok, w') \<Longrightarrow> fs w' = fs w"
  by (auto simp: create_parent_directories_def Let_def dest: make_dirs_fs split: if_splits)

lemma finish_entry_effect:
  assumes "finish_entry e target tmp r = (ok, w')" and "copied crc32 tmp w r" and "tmp \<noteq> target"
  shows "only {tmp, target} w w' \<and>
    (fs w' target = fs w target \<or> fs w' target = None \<or> (\<exists>c. fs w' target = Some c \<and> complete crc32 e c)) \<and>
    (ok \<longrightarrow> (\<exists>c. fs w' target = Some c \<and> complete crc32 e c))"
proof -
  obtain k crc written v where r: "r = (k, crc, written, v)" by (cases r)
  have v: "only {tmp} w v" "k \<Longrightarrow> tracked_file crc32 tmp crc written v" using assms(2) by (auto simp: r copied_def)
  obtain cl w1 where f: "h_flush tmp v = (cl, w1)" by fastforce
  note F = h_flush_fs [OF f]
  have o1: "only {tmp} w w1" using v(1) F by (auto simp: only_def)
  obtain b2 w2 where m2: "h_remove target w1 = (b2, w2)" by fastforce
  obtain b3 w3 where m3: "h_rename tmp target w2 = (b3, w3)" by fastforce
  have rm: "only {tmp} u (snd (h_remove tmp u))" for u
    using h_remove_fs [of tmp u] by (cases "h_remove tmp u") (auto simp: only_def)
  show ?thesis
  proof (cases "k \<and> cl \<and> written = z_usize e \<and> crc = z_crc e")
    case False
    then have "ok = False \<and> w' = snd (h_remove tmp w1)" using assms(1) f by (auto simp: finish_entry_def r split: if_splits)
    then show ?thesis using o1 rm [of w1] assms(3) by (auto simp: only_def)
  next
    case True
    then obtain acc where acc: "fs w1 tmp = Some acc" "complete crc32 e acc"
      using v(2) F by (auto simp: tracked_file_def complete_def)
    note R2 = h_remove_fs [OF m2] and R3 = h_rename_fs [OF m3]
    have w2: "fs w2 tmp = Some acc" "only {target} w1 w2" "fs w2 target = fs w1 target \<or> fs w2 target = None"
      using R2 acc(1) assms(3) by (auto simp: only_def)
    have e: "(ok, w') = (if b3 then (True, w3) else (False, snd (h_remove tmp w3)))"
      using assms(1) f m2 m3 True by (auto simp: finish_entry_def r)
    show ?thesis
    proof (cases b3)
      case True
      then show ?thesis using e R3 w2 o1 acc assms(3) by (auto simp: only_def)
    next
      case F3: False
      then show ?thesis using e R3 w2 o1 rm [of w3] assms(3) by (auto simp: only_def)
    qed
  qed
qed

text \<open>\<open>kept e q w w'\<close>: the file \<open>q\<close> is the old one, gone, or complete.\<close>

definition kept :: "(u32 \<Rightarrow> byte list \<Rightarrow> u32) \<Rightarrow> zentry \<Rightarrow> string \<Rightarrow> world \<Rightarrow> world \<Rightarrow> bool" where
  "kept crc32 e q w w' \<longleftrightarrow>
     fs w' q = fs w q \<or> fs w' q = None \<or> (\<exists>c. fs w' q = Some c \<and> complete crc32 e c)"

lemma extract_data_copied:
  assumes "extract_data z crc32 infl zs0 e tmp pos w = Some r" and "crc_chain crc32" and "archive_ok z" and "fs w tmp = Some []"
  shows "copied crc32 tmp w r"
proof -
  have t: "tracked_file crc32 tmp 0 0 v" if "fs v = fs w" for v
    using that assms(2,4) by (simp add: tracked_file_def crc_chain_def)
  show ?thesis
  proof (cases "z_method e = 0")
    case True
    then have "r = copy_stored z crc32 tmp pos (z_csize e) 0 0 w" using assms(1) by (simp add: extract_data_def)
    then show ?thesis using copy_stored_copied [OF assms(2,3) t] by simp
  next
    case False
    obtain ok v where a: "attempt w = (ok, v)" by fastforce
    note f = attempt_fs [OF a]
    show ?thesis
    proof (cases ok)
      case True
      then have "copy_inflated z crc32 infl tmp Z_OK zs0 [] pos (z_csize e) 0 0 v = Some r"
        using assms(1) False a by (simp add: extract_data_def)
      from copy_inflated_copied [OF this assms(2) t [OF f]] show ?thesis by (rule copied_trans [rotated]) (simp add: f only_def)
    next
      case F: False
      then show ?thesis using assms(1) False a f by (auto simp: extract_data_def copied_def only_def)
    qed
  qed
qed

lemma extract_entry_effect:
  assumes "extract_entry z crc32 infl zs0 e target w = Some (ok, w')" and "crc_chain crc32" and "archive_ok z"
  shows "only {target @ ''.tmp'', target} w w' \<and> kept crc32 e target w w' \<and>
    (ok \<longrightarrow> under DATA_ROOT (cut PATH_MAX target) \<and> (\<exists>c. fs w' target = Some c \<and> complete crc32 e c)) \<and>
    (\<not> under DATA_ROOT (cut PATH_MAX target) \<longrightarrow> fs w' = fs w)"
proof -
  let ?tmp = "target @ ''.tmp''"
  have ne: "?tmp \<noteq> target" by simp
  have same: ?thesis if "\<not> ok" "fs w' = fs w" using that by (simp add: kept_def only_def)
  show ?thesis
  proof (cases "z_flags e AND 1 \<noteq> 0 \<or> (z_method e \<noteq> 0 \<and> z_method e \<noteq> 8)")
    case True
    then show ?thesis using assms(1) by (intro same) (auto simp: extract_entry_def split: if_splits)
  next
    case m: False
    show ?thesis
    proof (cases "\<exists>lh. a_read z (z_local e) 30 = Some lh \<and> u32_at lh 0 = 0x04034b50")
      case False
      then show ?thesis using assms(1) m by (intro same) (auto simp: extract_entry_def split: option.splits if_splits)
    next
      case True
      then obtain lh where lh: "a_read z (z_local e) 30 = Some lh" "u32_at lh 0 = 0x04034b50" by blast
      define pos where "pos = z_local e + 30 + unat (u16_at lh 26) + unat (u16_at lh 28)"
      obtain o1 w1 where c1: "create_parent_directories target w = (o1, w1)" by fastforce
      obtain o2 w2 where c2: "h_create ?tmp w1 = (o2, w2)" by fastforce
      obtain o3 w3 where c3: "attempt w2 = (o3, w3)" by fastforce
      note f1 = create_parents_fs [OF c1] and f2 = h_create_fs [OF c2] and f3 = attempt_fs [OF c3]
      have e: "Some (ok, w') = (if \<not> o1 then Some (False, w1) else if PATH_MAX + 5 \<le> length ?tmp then Some (False, w1)
          else if \<not> o2 then Some (False, w2) else if \<not> o3 then Some (False, snd (h_remove ?tmp w3))
          else case extract_data z crc32 infl zs0 e ?tmp pos w3 of None \<Rightarrow> None | Some r \<Rightarrow> Some (finish_entry e target ?tmp r))"
      proof -
        have "z_flags e AND 1 = 0" "\<not> (z_method e \<noteq> 0 \<and> z_method e \<noteq> 8)" using m by blast+
        then show ?thesis
          unfolding assms(1) [symmetric] extract_entry_def Let_def pos_def
          by (cases o1; cases o2; cases o3) (simp_all only: lh c1 c2 c3 option.case prod.case bool.case if_True if_False simp_thms)
      qed
      show ?thesis
      proof (cases "o1 \<and> \<not> PATH_MAX + 5 \<le> length ?tmp \<and> o2")
        case False
        then show ?thesis using e f1 f2 by (intro same) (auto split: if_splits)
      next
        case T: True
        then have u: "under DATA_ROOT (cut PATH_MAX target)" using c1 by (auto simp: create_parent_directories_def Let_def split: if_splits)
        have w3: "fs w3 ?tmp = Some []" "only {?tmp} w w3" using T f1 f2 f3 by (simp_all add: only_def)
        show ?thesis
        proof (cases o3)
          case False
          then have "\<not> ok" "w' = snd (h_remove ?tmp w3)" using e T by auto
          moreover have "only {?tmp} w3 (snd (h_remove ?tmp w3))"
            using h_remove_fs [of ?tmp w3] by (cases "h_remove ?tmp w3") (auto simp: only_def)
          ultimately show ?thesis using w3(2) u by (auto simp: only_def kept_def)
        next
          case True
          then obtain r where r: "extract_data z crc32 infl zs0 e ?tmp pos w3 = Some r" "finish_entry e target ?tmp r = (ok, w')"
            using e T by (auto split: option.splits)
          have "copied crc32 ?tmp w3 r" by (rule extract_data_copied [OF r(1) assms(2,3) w3(1)])
          from finish_entry_effect [OF r(2) this ne] w3(2) u show ?thesis
            by (auto simp: only_def kept_def)
        qed
      qed
    qed
  qed
qed

end
