(* ===== verification/ExtractProps.thy ===== *)
theory ExtractProps
  imports Extract
begin

text \<open>The extraction of the whole archive: what the visitor leaves in the file system.\<close>

section \<open>Targets\<close>

lemma find_sub_complete: "s = a @ needle @ r \<Longrightarrow> find_sub s needle \<noteq> None"
proof (induction a arbitrary: s)
  case Nil
  then have "starts_with needle s" by (simp add: starts_with_append)
  then show ?case by (cases s; cases needle) auto
next
  case (Cons c a)
  then show ?case by simp
qed

lemma split_slash_parts: "split_slash s = (seg, rest) \<Longrightarrow> s = (case rest of None \<Rightarrow> seg | Some r \<Rightarrow> seg @ CHR ''/'' # r)"
  by (induction s arbitrary: seg rest) (auto split: if_splits prod.splits option.splits)

lemma segs_occur: "x \<in> set (segs s) \<Longrightarrow> \<exists>a r. s = a @ x @ r"
proof (induction s rule: segs.induct)
  case (1 s)
  obtain seg rest where sp: "split_slash s = (seg, rest)" by fastforce
  note parts = split_slash_parts [OF sp]
  show ?case
  proof (cases rest)
    case None
    then have "x = seg" using "1.prems" by (subst (asm) segs.simps) (simp add: sp)
    then show ?thesis using parts None by (intro exI [of _ "[]"]) simp
  next
    case (Some r)
    then have "x = seg \<or> x \<in> set (segs r)" using "1.prems" by (subst (asm) segs.simps) (simp add: sp)
    then show ?thesis
    proof
      assume "x = seg"
      then have "s = [] @ x @ (CHR ''/'' # r)" using parts Some by simp
      then show ?thesis by blast
    next
      assume "x \<in> set (segs r)"
      from "1.IH" [OF sp [symmetric] Some this] obtain a t where "r = a @ x @ t" by blast
      then have "s = (seg @ CHR ''/'' # a) @ x @ t" using parts Some by simp
      then show ?thesis by blast
    qed
  qed
qed

lemma no_dots_free: "find_sub s ''..'' = None \<Longrightarrow> dotdot_free s"
  unfolding dotdot_free_def using segs_occur [of "''..''" s] find_sub_complete by blast

definition is_tmp :: "string \<Rightarrow> bool" where
  "is_tmp q \<longleftrightarrow> drop (length q - 4) q = ''.tmp''"

lemma is_tmp_append [simp]: "is_tmp (t @ ''.tmp'')"
  by (simp add: is_tmp_def)

lemma target_cases:
  assumes "install_entry_target name = Inr (Some (q, b))"
  shows "(name = ''AndroidManifest.xml'' \<and> q = DATA_ROOT @ ''/AndroidManifest.xml'' \<and> b = INSTALL_REQ_MANIFEST) \<or>
    (starts_with ''assets/'' name \<and> is_safe_relative_path name \<and> q = DATA_ROOT @ ''/'' @ name \<and> b = asset_bit name) \<or>
    (\<exists>lib b'. (lib, b') \<in> {(LIB_MAIN, INSTALL_REQ_MAIN), (LIB_UNITY, INSTALL_REQ_UNITY), (LIB_IL2CPP, INSTALL_REQ_IL2CPP)} \<and>
       q = DATA_ROOT @ ''/'' @ lib \<and> b = b')"
  using assms by (auto simp: install_entry_target_def Let_def split: if_splits)

lemma target_unique:
  assumes "install_entry_target n1 = Inr (Some (q, b1))" and "install_entry_target n2 = Inr (Some (q, b2))"
  shows "b1 = b2"
  using target_cases [OF assms(1)] target_cases [OF assms(2)]
  by (elim disjE exE conjE) (auto simp: LIB_MAIN_def LIB_UNITY_def LIB_IL2CPP_def starts_with_append)

lemma target_confined:
  assumes "install_entry_target name = Inr (Some (q, b))"
  shows "under DATA_ROOT q \<and> dotdot_free q"
proof -
  have u: "under DATA_ROOT (DATA_ROOT @ ''/'' @ r)" for r
    by (simp add: under_def starts_with_append)
  have d: "dotdot_free (DATA_ROOT @ ''/'' @ r)" if "dotdot_free r" for r
    using that root_free by (simp add: dotdot_free_append)
  have "dotdot_free ''AndroidManifest.xml''" "dotdot_free LIB_MAIN" "dotdot_free LIB_UNITY" "dotdot_free LIB_IL2CPP"
    by (code_simp)+
  then show ?thesis
    using target_cases [OF assms] u d no_dots_free by (auto simp: is_safe_relative_path_def)
qed

section \<open>The whole archive\<close>

definition flagged :: "u32 \<Rightarrow> install_state \<Rightarrow> bool" where
  "flagged b st \<longleftrightarrow> (b, True) \<in> {(INSTALL_REQ_MANIFEST, have_manifest st), (INSTALL_REQ_MAIN, have_main st),
     (INSTALL_REQ_UNITY, have_unity st), (INSTALL_REQ_IL2CPP, have_il2cpp st), (INSTALL_REQ_METADATA, have_metadata st),
     (INSTALL_REQ_DATA, have_data st), (INSTALL_REQ_RESOURCES, have_resources st)}"

lemmas bits = INSTALL_REQ_MANIFEST_def INSTALL_REQ_MAIN_def INSTALL_REQ_UNITY_def INSTALL_REQ_IL2CPP_def INSTALL_REQ_METADATA_def
  INSTALL_REQ_DATA_def INSTALL_REQ_RESOURCES_def INSTALL_REQ_GUID_def INSTALL_REQ_MSCORLIB_def INSTALL_REQ_SYSTEM_DATA_def
  INSTALL_REQ_SYSTEM_DRAWING_def INSTALL_REQ_ENGLISH_def

lemma flagged_mark: "flagged b (mark b' st) \<Longrightarrow> b = b' \<or> flagged b st"
  by (auto simp: flagged_def mark_def split: if_splits)

lemma flagged_files [simp]: "flagged b (st\<lparr>files := n\<rparr>) = flagged b st"
  by (simp add: flagged_def)

lemma flagged_none [simp]: "\<not> flagged b no_files"
  by (simp add: flagged_def no_files_def)

lemma flagged_bits: "flagged b st \<Longrightarrow> b \<in> {1, 2, 4, 8, 16, 32, 64}"
  by (auto simp: flagged_def bits)

text \<open>The targets of the files that are checked for do not look like temporary files.\<close>

lemma required_not_tmp:
  assumes "install_entry_target name = Inr (Some (q, b))" and "b \<in> {1, 2, 4, 8, 16, 32, 64}"
  shows "\<not> is_tmp q"
proof -
  have "b = INSTALL_REQ_METADATA \<and> name = ''assets/bin/Data/Managed/Metadata/global-metadata.dat'' \<or>
      b = INSTALL_REQ_DATA \<and> name = ''assets/bin/Data/data.unity3d'' \<or>
      b = INSTALL_REQ_RESOURCES \<and> name = ''assets/bin/Data/resources.resource''" if "b = asset_bit name"
    using that assms(2) unfolding asset_bit_def by (simp add: bits split: if_splits)
  with target_cases [OF assms(1)] show ?thesis
    by (elim disjE exE conjE) (auto simp: is_tmp_def LIB_MAIN_def LIB_UNITY_def LIB_IL2CPP_def DATA_ROOT_def)
qed

definition from_entry :: "(u32 \<Rightarrow> byte list \<Rightarrow> u32) \<Rightarrow> u32 \<Rightarrow> string \<Rightarrow> byte list \<Rightarrow> bool" where
  "from_entry crc32 b q c \<longleftrightarrow> (\<exists>e. install_entry_target (z_name e) = Inr (Some (q, b)) \<and> complete crc32 e c)"

definition changed_ok :: "(u32 \<Rightarrow> byte list \<Rightarrow> u32) \<Rightarrow> world \<Rightarrow> world \<Rightarrow> bool" where
  "changed_ok crc32 w w' \<longleftrightarrow> (\<forall>q. fs w' q = fs w q \<or>
     (\<exists>name t b. install_entry_target name = Inr (Some (t, b)) \<and> q \<in> {t, t @ ''.tmp''}) \<and>
     (is_tmp q \<or> fs w' q = None \<or> (\<exists>c b. fs w' q = Some c \<and> from_entry crc32 b q c)))"

definition all_there :: "(u32 \<Rightarrow> byte list \<Rightarrow> u32) \<Rightarrow> install_state \<Rightarrow> world \<Rightarrow> bool" where
  "all_there crc32 st w \<longleftrightarrow> (\<forall>b. flagged b st \<longrightarrow> (\<exists>q c. fs w q = Some c \<and> from_entry crc32 b q c))"

lemma changed_ok_refl: "changed_ok crc32 w w"
  by (simp add: changed_ok_def)

lemma changed_ok_trans:
  assumes "changed_ok crc32 w w1" and "changed_ok crc32 w1 w2"
  shows "changed_ok crc32 w w2"
  unfolding changed_ok_def
proof
  fix q
  from assms show "fs w2 q = fs w q \<or>
     (\<exists>name t b. install_entry_target name = Inr (Some (t, b)) \<and> q \<in> {t, t @ ''.tmp''}) \<and>
     (is_tmp q \<or> fs w2 q = None \<or> (\<exists>c b. fs w2 q = Some c \<and> from_entry crc32 b q c))"
    unfolding changed_ok_def by (elim allE [of _ q]) metis
qed

lemma visit_step:
  assumes v: "install_visitor z crc32 infl zs0 e (st, w) = Some (ok, st', w')" and c: "crc_chain crc32" "archive_ok z"
  shows "changed_ok crc32 w w' \<and> (ok \<and> all_there crc32 st w \<longrightarrow> all_there crc32 st' w')"
proof (cases "install_entry_target (z_name e)")
  case (Inl u)
  then show ?thesis using v by (auto simp: install_visitor_def changed_ok_refl)
next
  case (Inr sel)
  show ?thesis
  proof (cases sel)
    case None
    then show ?thesis using v Inr by (auto simp: install_visitor_def changed_ok_refl)
  next
    case (Some x)
    obtain t b where t: "install_entry_target (z_name e) = Inr (Some (t, b))" using Inr Some by (cases x) simp
    obtain ok1 w1 where x: "extract_entry z crc32 infl zs0 e t w = Some (ok1, w1)"
      using v t by (auto simp: install_visitor_def split: option.splits)
    have r: "ok = ok1" "w' = w1" "ok \<Longrightarrow> st' = (mark b st)\<lparr>files := files (mark b st) + 1\<rparr>"
      using v t x by (auto simp: install_visitor_def split: bool.splits)
    note X = extract_entry_effect [OF x c]
    have o: "fs w' q = fs w q" if "q \<notin> {t, t @ ''.tmp''}" for q using X that r(2) by (auto simp: only_def)
    have ch: "changed_ok crc32 w w'"
      unfolding changed_ok_def
    proof
      fix q
      show "fs w' q = fs w q \<or>
         (\<exists>name t b. install_entry_target name = Inr (Some (t, b)) \<and> q \<in> {t, t @ ''.tmp''}) \<and>
         (is_tmp q \<or> fs w' q = None \<or> (\<exists>c b. fs w' q = Some c \<and> from_entry crc32 b q c))"
      proof (cases "q \<in> {t, t @ ''.tmp''}")
        case False
        then show ?thesis using o by blast
      next
        case True
        have "fs w' t = fs w t \<or> fs w' t = None \<or> (\<exists>c. fs w' t = Some c \<and> from_entry crc32 b t c)"
          using X r(2) t unfolding kept_def from_entry_def by blast
        then show ?thesis using True t by (cases "q = t") (auto; blast)+
      qed
    qed
    have th: "all_there crc32 st' w'" if okk: "ok" and al: "all_there crc32 st w"
      unfolding all_there_def
    proof (intro allI impI)
      fix b' assume f: "flagged b' st'"
      have new: "\<exists>c. fs w' t = Some c \<and> from_entry crc32 b t c" using X r(1,2) okk t unfolding from_entry_def by blast
      have "flagged b' (mark b st)" using f r(3) [OF okk] by simp
      then consider "b' = b" | "flagged b' st" using flagged_mark by blast
      then show "\<exists>q c. fs w' q = Some c \<and> from_entry crc32 b' q c"
      proof cases
        case 1
        then show ?thesis using new by blast
      next
        case 2
        then obtain q c where q: "fs w q = Some c" "from_entry crc32 b' q c" using al by (auto simp: all_there_def)
        then obtain n where n: "install_entry_target n = Inr (Some (q, b'))" by (auto simp: from_entry_def)
        show ?thesis
        proof (cases "q = t")
          case True
          then have "b' = b" using target_unique [OF _ t] n by blast
          then show ?thesis using new by blast
        next
          case False
          have "\<not> is_tmp q" using required_not_tmp [OF n flagged_bits [OF 2]] .
          then have "q \<noteq> t @ ''.tmp''" by auto
          then show ?thesis using o [of q] False q by auto
        qed
      qed
    qed
    show ?thesis using ch th by blast
  qed
qed

lemma visit_all:
  assumes "zip_visit z (install_visitor z crc32 infl zs0) n p (st, w) = Some (ok, st', w')" and c: "crc_chain crc32" "archive_ok z"
  shows "changed_ok crc32 w w' \<and> (ok \<and> all_there crc32 st w \<longrightarrow> all_there crc32 st' w')"
  using assms(1)
proof (induction n arbitrary: p st w)
  case 0
  then show ?case by (simp add: changed_ok_refl)
next
  case (Suc n)
  show ?case
  proof (cases "read_entry z p")
    case None
    then show ?thesis using Suc.prems by (simp add: changed_ok_refl)
  next
    case (Some x)
    obtain e p1 where x: "read_entry z p = Some (e, p1)" using Some by (cases x) simp
    obtain ok1 st1 w1 where v: "install_visitor z crc32 infl zs0 e (st, w) = Some (ok1, st1, w1)"
      using Suc.prems x by (auto split: option.splits)
    note V = visit_step [OF v c]
    show ?thesis
    proof (cases ok1)
      case False
      then show ?thesis using Suc.prems x v V by simp
    next
      case True
      then have "zip_visit z (install_visitor z crc32 infl zs0) n p1 (st1, w1) = Some (ok, st', w')"
        using Suc.prems x v by simp
      from Suc.IH [OF this] V True changed_ok_trans show ?thesis by blast
    qed
  qed
qed

text \<open>
  C40.  Whatever the archive contains and whichever calls fail, the extraction changes only files
  below the runtime directory, on paths without \<open>..\<close>, which are the target of an entry or the
  temporary file of one; and a changed file that is not a temporary one is gone or has the size
  and the checksum of an entry for it.  If the visit succeeds, every required file it noted is there and complete.
\<close>

theorem extraction_verified:
  assumes "zip_visit z (install_visitor z crc32 infl zs0) n p (no_files, w) = Some (ok, st, w')"
    and "crc_chain crc32" and "archive_ok z"
  shows "(fs w' q \<noteq> fs w q \<longrightarrow>
      (\<exists>name t b. install_entry_target name = Inr (Some (t, b)) \<and> q \<in> {t, t @ ''.tmp''} \<and> under DATA_ROOT t \<and> dotdot_free t) \<and>
      (is_tmp q \<or> fs w' q = None \<or> (\<exists>c b. fs w' q = Some c \<and> from_entry crc32 b q c))) \<and>
    (ok \<and> flagged b st \<longrightarrow> (\<exists>t c. fs w' t = Some c \<and> from_entry crc32 b t c))"
proof (intro conjI impI)
  note V = visit_all [OF assms]
  assume ne: "fs w' q \<noteq> fs w q"
  then obtain name t b where t: "install_entry_target name = Inr (Some (t, b))" "q \<in> {t, t @ ''.tmp''}"
    and k: "is_tmp q \<or> fs w' q = None \<or> (\<exists>c b. fs w' q = Some c \<and> from_entry crc32 b q c)"
    using V unfolding changed_ok_def by blast
  show "\<exists>name t b. install_entry_target name = Inr (Some (t, b)) \<and> q \<in> {t, t @ ''.tmp''} \<and> under DATA_ROOT t \<and> dotdot_free t"
    using t target_confined [OF t(1)] by blast
  show "is_tmp q \<or> fs w' q = None \<or> (\<exists>c b. fs w' q = Some c \<and> from_entry crc32 b q c)" by (rule k)
next
  assume "ok \<and> flagged b st"
  then show "\<exists>t c. fs w' t = Some c \<and> from_entry crc32 b t c"
    using visit_all [OF assms] by (auto simp: all_there_def)
qed

text \<open>An archive with one stored file of one byte, and a sum in place of the checksum.\<close>

definition sum32 :: "u32 \<Rightarrow> byte list \<Rightarrow> u32" where "sum32 c bs = foldl (\<lambda>a b. a + ucast b) c bs"

definition sample_cd :: "byte list" where "sample_cd = [80, 75, 1, 2, 20, 0, 20, 0, 0, 0, 0, 0, 0, 0, 0, 0, 65, 0, 0, 0, 1, 0, 0, 0, 1, 0, 0, 0, 19, 0, 0, 0, 0, 0, 0, 0, 0, 0, 0, 0, 0, 0, 0, 0, 0, 0]"
definition sample_lh :: "byte list" where "sample_lh = [80, 75, 3, 4, 20, 0, 0, 0, 0, 0, 0, 0, 0, 0, 65, 0, 0, 0, 1, 0, 0, 0, 1, 0, 0, 0, 19, 0, 0, 0]"
definition sample_name :: "byte list" where "sample_name = [65, 110, 100, 114, 111, 105, 100, 77, 97, 110, 105, 102, 101, 115, 116, 46, 120, 109, 108]"

definition sample_archive :: archive where
  "sample_archive = \<lparr>a_size = 137, a_read = (\<lambda>p n.
     if (p, n) = (50, 46) then Some sample_cd else if (p, n) = (96, 19) then Some sample_name
     else if (p, n) = (0, 30) then Some sample_lh else if (p, n) = (49, 1) then Some [65] else None)\<rparr>"

definition empty_world :: world where
  "empty_world = \<lparr>fs = \<lambda>_. None, fails = \<lambda>_. False, torn = \<lambda>_. [], clock = 0\<rparr>"

definition sample_entry :: zentry where
  "sample_entry = \<lparr>z_name = ''AndroidManifest.xml'', z_flags = 0, z_method = 0, z_crc = 65, z_csize = 1, z_usize = 1, z_local = 0\<rparr>"

lemma sample_name_text: "cstr sample_name = ''AndroidManifest.xml''" by code_simp
lemma sample_fields: "u32_at sample_cd 0 = 0x02014b50" "u16_at sample_cd 28 = 19" "u16_at sample_cd 30 = 0" "u16_at sample_cd 32 = 0"
  "u32_at sample_cd 20 = 1" "u32_at sample_cd 24 = 1" "u32_at sample_cd 42 = 0" "u16_at sample_cd 8 = 0" "u16_at sample_cd 10 = 0"
  "u32_at sample_cd 16 = 65" "u32_at sample_lh 0 = 0x04034b50" "u16_at sample_lh 26 = 19" "u16_at sample_lh 28 = 0"
  by (simp_all add: u16_at_def u32_at_def rd16_def rd32_def sample_cd_def sample_lh_def)
lemma sample_read: "read_entry sample_archive 50 = Some (sample_entry, 115)"
  by (simp add: read_entry_def sample_archive_def sample_entry_def sample_fields sample_name_text Let_def ZIP_NAME_MAX_def UINT32_MAX_def)
lemma sample_archive_ok: "archive_ok sample_archive" 
  by (auto simp: archive_ok_def sample_archive_def sample_cd_def sample_lh_def sample_name_def)
lemma sum32_chain: "crc_chain sum32" by (simp add: crc_chain_def sum32_def)
lemma sample_target: "install_entry_target ''AndroidManifest.xml'' = Inr (Some (DATA_ROOT @ ''/AndroidManifest.xml'', INSTALL_REQ_MANIFEST))"
  by (simp add: install_entry_target_def)
lemma sample_parents: "create_parent_directories (DATA_ROOT @ ''/AndroidManifest.xml'') empty_world = (True, empty_world)"
proof -
  have "cut PATH_MAX (DATA_ROOT @ ''/AndroidManifest.xml'') = DATA_ROOT @ ''/AndroidManifest.xml''" by (simp add: cut_def PATH_MAX_def DATA_ROOT_def)
  moreover have "under DATA_ROOT (DATA_ROOT @ ''/AndroidManifest.xml'')" by (simp add: under_def starts_with_append)
  moreover have "parent_dirs (DATA_ROOT @ ''/AndroidManifest.xml'') = []" by code_simp
  ultimately show ?thesis by (simp add: create_parent_directories_def)
qed
lemma sample_extract:
  "\<exists>w. extract_entry sample_archive sum32 (\<lambda>_ _ _. (Z_OTHER, [], [], ())) () sample_entry (DATA_ROOT @ ''/AndroidManifest.xml'') empty_world =
     Some (True, w)"
  using sample_parents
  by (simp add: extract_entry_def sample_entry_def sample_archive_def sample_fields Let_def h_create_def attempt_def empty_world_def
      extract_data_def finish_entry_def copy_stored.simps h_write_def h_flush_def h_rename_def h_remove_def put_def sum32_def
      PATH_MAX_def DATA_ROOT_def ZIP_IO_BYTES_def)

theorem extraction_verified_witness:
  "\<exists>w' t c. zip_visit sample_archive (install_visitor sample_archive sum32 (\<lambda>_ _ _. (Z_OTHER, [], [], ())) ()) 1 50
      (no_files, empty_world) = Some (True, mark INSTALL_REQ_MANIFEST no_files\<lparr>files := 1\<rparr>, w') \<and>
    fs w' t = Some c \<and> from_entry sum32 INSTALL_REQ_MANIFEST t c"
proof -
  let ?v = "install_visitor sample_archive sum32 (\<lambda>_ _ _. (Z_OTHER, [], [], ())) ()"
  let ?st = "mark INSTALL_REQ_MANIFEST no_files\<lparr>files := 1\<rparr>"
  obtain w' where x: "extract_entry sample_archive sum32 (\<lambda>_ _ _. (Z_OTHER, [], [], ())) () sample_entry
      (DATA_ROOT @ ''/AndroidManifest.xml'') empty_world = Some (True, w')"
    using sample_extract by blast
  have "?v sample_entry (no_files, empty_world) = Some (True, ?st, w')"
    using x sample_target by (simp add: install_visitor_def sample_entry_def mark_def no_files_def)
  then have z: "zip_visit sample_archive ?v 1 50 (no_files, empty_world) = Some (True, ?st, w')"
    by (simp add: sample_read)
  have "flagged INSTALL_REQ_MANIFEST ?st" by (simp add: flagged_def mark_def no_files_def)
  then have "\<exists>t c. fs w' t = Some c \<and> from_entry sum32 INSTALL_REQ_MANIFEST t c"
    using extraction_verified [OF z sum32_chain sample_archive_ok] by blast
  then show ?thesis using z by blast
qed

end
