(* ===== verification/Credits.thy ===== *)
theory Credits
  imports World
begin

text \<open>
  The patch of the credits (\<^verbatim>\<open>source/credits_patch.c\<close>): a new copy of the data file with another
  table and another block is written beside it and takes its place.  The bytes of the new table
  and block, which fill \<^verbatim>\<open>credits_patch_data.h\<close>, are arguments.
\<close>

section \<open>The file\<close>

definition CREDITS_OLD_TOTAL :: nat where "CREDITS_OLD_TOTAL = 122966182"
definition CREDITS_NEW_TOTAL :: nat where "CREDITS_NEW_TOTAL = 122962293"
definition CREDITS_OLD_DATA_POS :: nat where "CREDITS_OLD_DATA_POS = 19536"
definition CREDITS_NEW_DATA_POS :: nat where "CREDITS_NEW_DATA_POS = 19584"
definition CREDITS_OLD_BLOCK_POS :: nat where "CREDITS_OLD_BLOCK_POS = 16958255"
definition CREDITS_OLD_AFTER_BLOCK :: nat where "CREDITS_OLD_AFTER_BLOCK = 16984150"
definition CREDITS_HEADER_TOTAL_OFF :: nat where "CREDITS_HEADER_TOTAL_OFF = 29"
definition CREDITS_HEADER_CBI_OFF :: nat where "CREDITS_HEADER_CBI_OFF = 37"
definition CREDITS_NEW_CBI_SIZE :: nat where "CREDITS_NEW_CBI_SIZE = 19515"
definition CREDITS_NEW_BLOCK_SIZE :: nat where "CREDITS_NEW_BLOCK_SIZE = 21958"

lemmas credits_layout =
  CREDITS_OLD_TOTAL_def CREDITS_NEW_TOTAL_def CREDITS_OLD_DATA_POS_def CREDITS_NEW_DATA_POS_def
  CREDITS_OLD_BLOCK_POS_def CREDITS_OLD_AFTER_BLOCK_def CREDITS_HEADER_TOTAL_OFF_def
  CREDITS_HEADER_CBI_OFF_def CREDITS_NEW_CBI_SIZE_def CREDITS_NEW_BLOCK_SIZE_def

definition be_load :: "nat \<Rightarrow> byte list \<Rightarrow> nat" where
  "be_load n bs = foldl (\<lambda>v b. v * 256 + unat b) 0 (take n bs)"

definition be_store :: "nat \<Rightarrow> nat \<Rightarrow> byte list" where
  "be_store n v = map (\<lambda>i. of_nat (v div 256 ^ (n - 1 - i))) [0..<n]"

definition data_path :: string where "data_path = DATA_ROOT @ ''/assets/bin/Data/data.unity3d''"
definition data_tmp :: string where "data_tmp = data_path @ ''.porttmp''"
definition data_bak :: string where "data_bak = data_path @ ''.portbak''"

text \<open>\<open>UnityFS\<close> and a zero.\<close>

definition UNITYFS :: "byte list" where "UNITYFS = [85, 110, 105, 116, 121, 70, 83, 0]"

definition header_ok :: "byte list \<Rightarrow> bool" where
  "header_ok hd64 \<longleftrightarrow> take 8 hd64 = UNITYFS \<and> be_load 8 (drop CREDITS_HEADER_TOTAL_OFF hd64) = CREDITS_OLD_TOTAL \<and>
     be_load 4 (drop CREDITS_HEADER_CBI_OFF hd64) = 19462"

definition new_header :: "byte list \<Rightarrow> byte list" where
  "new_header hd64 = blit (blit hd64 CREDITS_HEADER_TOTAL_OFF (be_store 8 CREDITS_NEW_TOTAL))
     CREDITS_HEADER_CBI_OFF (be_store 4 CREDITS_NEW_CBI_SIZE)"

section \<open>Copying\<close>

text \<open>\<^verbatim>\<open>copy_exact\<close> from position \<open>pos\<close> of the open source, of contents \<open>c\<close>.\<close>

definition COPY_CHUNK :: nat where "COPY_CHUNK = 256 * 1024"

function copy_loop :: "string \<Rightarrow> byte list \<Rightarrow> nat \<Rightarrow> nat \<Rightarrow> world \<Rightarrow> bool \<times> world" where
  "copy_loop dst c pos n w =
     (if n = 0 then (True, w)
      else let k = (if COPY_CHUNK < n then COPY_CHUNK else n)
           in case attempt w of
                (rd, w1) \<Rightarrow>
                  if \<not> rd \<or> length c < pos + k then (False, w1)
                  else case h_write dst (take k (drop pos c)) w1 of
                         (ok, w2) \<Rightarrow> if ok then copy_loop dst c (pos + k) (n - k) w2 else (False, w2))"
  by pat_completeness auto
termination
  by (relation "measure (\<lambda>(dst, c, pos, n, w). n)") (auto simp: COPY_CHUNK_def)

declare copy_loop.simps [simp del]

definition copy_exact :: "string \<Rightarrow> byte list \<Rightarrow> nat \<Rightarrow> nat \<Rightarrow> world \<Rightarrow> bool \<times> world" where
  "copy_exact dst c pos n = and_then attempt (copy_loop dst c pos n)"

text \<open>The zeros up to the new position of the data, at most 16 at a time.\<close>

function pad_zeros :: "string \<Rightarrow> nat \<Rightarrow> world \<Rightarrow> bool \<times> world" where
  "pad_zeros dst here w =
     (if here < CREDITS_NEW_DATA_POS
      then let n = (if 16 < CREDITS_NEW_DATA_POS - here then 16 else CREDITS_NEW_DATA_POS - here)
           in case h_write dst (replicate n 0) w of (ok, w1) \<Rightarrow> if ok then pad_zeros dst (here + n) w1 else (False, w1)
      else (True, w))"
  by pat_completeness auto
termination
  by (relation "measure (\<lambda>(dst, here, w). CREDITS_NEW_DATA_POS - here)") auto

declare pad_zeros.simps [simp del]

definition write_patched :: "byte list \<Rightarrow> byte list \<Rightarrow> byte list \<Rightarrow> world \<Rightarrow> bool \<times> world" where
  "write_patched bi blk c =
     and_then (h_write data_tmp (new_header (take 64 c)))
     (and_then (h_write data_tmp bi)
     (and_then attempt
     (and_then (pad_zeros data_tmp (64 + length bi))
     (and_then attempt
     (and_then (copy_exact data_tmp c CREDITS_OLD_DATA_POS (CREDITS_OLD_BLOCK_POS - CREDITS_OLD_DATA_POS))
     (and_then (h_write data_tmp blk)
     (and_then attempt
     (and_then (copy_exact data_tmp c CREDITS_OLD_AFTER_BLOCK (CREDITS_OLD_TOTAL - CREDITS_OLD_AFTER_BLOCK))
     (and_then (h_flush data_tmp) (h_flush data_tmp))))))))))"

text \<open>The exchange of the two files; the old one comes back if the new one cannot be moved.\<close>

definition exchange :: "world \<Rightarrow> world" where
  "exchange w =
     (case h_rename data_path data_bak w of
        (False, w1) \<Rightarrow> snd (h_remove data_tmp w1)
      | (True, w1) \<Rightarrow>
          (case h_rename data_tmp data_path w1 of
             (False, w2) \<Rightarrow> snd (h_remove data_tmp (snd (h_rename data_bak data_path w2)))
           | (True, w2) \<Rightarrow> snd (h_remove data_bak w2)))"

definition credits_patch_apply :: "byte list \<Rightarrow> byte list \<Rightarrow> world \<Rightarrow> world" where
  "credits_patch_apply bi blk w =
     (case fs w data_path of
        None \<Rightarrow> w
      | Some c \<Rightarrow>
          if length c = CREDITS_NEW_TOTAL then w
          else if length c \<noteq> CREDITS_OLD_TOTAL then w
          else case attempt w of
            (False, w1) \<Rightarrow> w1
          | (True, w1) \<Rightarrow>
              (case attempt w1 of
                 (rd, w2) \<Rightarrow>
                   if \<not> rd \<or> \<not> header_ok (take 64 c) then w2
                   else
                     let w4 = snd (h_remove data_bak (snd (h_remove data_tmp w2)))
                     in case h_create data_tmp w4 of
                          (False, w5) \<Rightarrow> w5
                        | (True, w5) \<Rightarrow>
                            (case write_patched bi blk c w5 of
                               (ok, w6) \<Rightarrow>
                                 (case h_flush data_tmp w6 of
                                    (cl, w7) \<Rightarrow>
                                      if \<not> (ok \<and> cl) then snd (h_remove data_tmp w7)
                                      else if (case fs w7 data_tmp of Some d \<Rightarrow> length d \<noteq> CREDITS_NEW_TOTAL | None \<Rightarrow> True)
                                      then snd (h_remove data_tmp w7)
                                      else exchange w7))))"

section \<open>What the patch leaves\<close>

lemma paths_distinct: "data_path \<noteq> data_tmp" "data_path \<noteq> data_bak" "data_tmp \<noteq> data_bak"
  by (simp_all add: data_tmp_def data_bak_def)

lemma appends_pad: "appends p (replicate (CREDITS_NEW_DATA_POS - here) 0) (pad_zeros p here)"
proof (induction "CREDITS_NEW_DATA_POS - here" arbitrary: here rule: less_induct)
  case less
  show ?case
  proof (cases "here < CREDITS_NEW_DATA_POS")
    case True
    let ?n = "if 16 < CREDITS_NEW_DATA_POS - here then 16 else CREDITS_NEW_DATA_POS - here"
    have e: "pad_zeros p here = and_then (h_write p (replicate ?n 0)) (pad_zeros p (here + ?n))"
      using True by (intro ext, subst pad_zeros.simps) (simp add: and_then_def Let_def)
    have "appends p (replicate (CREDITS_NEW_DATA_POS - (here + ?n)) 0) (pad_zeros p (here + ?n))"
      by (rule less) (use True in auto)
    then have "appends p (replicate ?n 0 @ replicate (CREDITS_NEW_DATA_POS - (here + ?n)) 0) (pad_zeros p here)"
      unfolding e by (rule appends_then [OF appends_write])
    moreover have "?n + (CREDITS_NEW_DATA_POS - (here + ?n)) = CREDITS_NEW_DATA_POS - here" using True by auto
    ultimately show ?thesis by (simp only: replicate_add [symmetric])
  next
    case False
    then have "pad_zeros p here = Pair True" by (intro ext, subst pad_zeros.simps) simp
    then show ?thesis using False by (simp add: appends_def)
  qed
qed

lemma appends_copy_loop: "pos + n \<le> length c \<Longrightarrow> appends p (take n (drop pos c)) (copy_loop p c pos n)"
proof (induction n arbitrary: pos rule: less_induct)
  case (less n)
  show ?case
  proof (cases "n = 0")
    case True
    then have "copy_loop p c pos n = Pair True" by (intro ext, subst copy_loop.simps) simp
    then show ?thesis using True by (simp add: appends_def)
  next
    case False
    define k where "k = (if COPY_CHUNK < n then COPY_CHUNK else n)"
    have k: "0 < k" "k \<le> n" using False by (simp_all add: k_def COPY_CHUNK_def)
    have e: "copy_loop p c pos n = and_then attempt (and_then (h_write p (take k (drop pos c))) (copy_loop p c (pos + k) (n - k)))"
      using False k less.prems
      by (intro ext, subst copy_loop.simps) (simp add: and_then_def Let_def k_def [symmetric] split: prod.splits)
    have "appends p (take (n - k) (drop (pos + k) c)) (copy_loop p c (pos + k) (n - k))"
      by (rule less) (use k less.prems in simp_all)
    then have "appends p ([] @ take k (drop pos c) @ take (n - k) (drop (pos + k) c)) (copy_loop p c pos n)"
      unfolding e by (intro appends_then appends_attempt appends_write)
    moreover have "take k (drop pos c) @ take (n - k) (drop (pos + k) c) = take n (drop pos c)"
      using take_add [of k "n - k" "drop pos c"] k by (simp add: add.commute)
    ultimately show ?thesis by simp
  qed
qed

definition patched :: "byte list \<Rightarrow> byte list \<Rightarrow> byte list \<Rightarrow> byte list" where
  "patched bi blk c = new_header (take 64 c) @ bi @ replicate (CREDITS_NEW_DATA_POS - (64 + length bi)) 0 @
     take (CREDITS_OLD_BLOCK_POS - CREDITS_OLD_DATA_POS) (drop CREDITS_OLD_DATA_POS c) @ blk @ drop CREDITS_OLD_AFTER_BLOCK c"

lemma appends_patched:
  assumes "length c = CREDITS_OLD_TOTAL"
  shows "appends data_tmp (patched bi blk c) (write_patched bi blk c)"
proof -
  let ?a = "take (CREDITS_OLD_BLOCK_POS - CREDITS_OLD_DATA_POS) (drop CREDITS_OLD_DATA_POS c)"
  let ?b = "take (CREDITS_OLD_TOTAL - CREDITS_OLD_AFTER_BLOCK) (drop CREDITS_OLD_AFTER_BLOCK c)"
  have "appends data_tmp ([] @ ?a) (copy_exact data_tmp c CREDITS_OLD_DATA_POS (CREDITS_OLD_BLOCK_POS - CREDITS_OLD_DATA_POS))"
    unfolding copy_exact_def by (intro appends_then appends_attempt appends_copy_loop) (simp add: assms credits_layout)
  moreover have "appends data_tmp ([] @ ?b) (copy_exact data_tmp c CREDITS_OLD_AFTER_BLOCK (CREDITS_OLD_TOTAL - CREDITS_OLD_AFTER_BLOCK))"
    unfolding copy_exact_def by (intro appends_then appends_attempt appends_copy_loop) (simp add: assms credits_layout)
  ultimately have "appends data_tmp (new_header (take 64 c) @ bi @ [] @ replicate (CREDITS_NEW_DATA_POS - (64 + length bi)) 0 @ [] @
      ([] @ ?a) @ blk @ [] @ ([] @ ?b) @ [] @ []) (write_patched bi blk c)"
    unfolding write_patched_def by (intro appends_then appends_write appends_attempt appends_pad appends_flush)
  moreover have "?b = drop CREDITS_OLD_AFTER_BLOCK c" using assms by (simp add: credits_layout)
  ultimately show ?thesis by (simp add: patched_def)
qed

lemma patched_length:
  assumes "length c = CREDITS_OLD_TOTAL" and "length bi = CREDITS_NEW_CBI_SIZE" and "length blk = CREDITS_NEW_BLOCK_SIZE"
  shows "length (patched bi blk c) = CREDITS_NEW_TOTAL"
proof -
  have "length (take 64 c) = 64" using assms(1) by (simp add: credits_layout)
  then have "length (new_header (take 64 c)) = 64"
    unfolding new_header_def by (subst length_blit; subst length_blit)? (simp_all add: credits_layout be_store_def)
  then show ?thesis using assms by (simp add: patched_def credits_layout)
qed

lemma never_fails_attempt: "never_fails w \<Longrightarrow> attempt w = (ok, w') \<Longrightarrow> ok \<and> never_fails w' \<and> fs w' = fs w"
  by (auto simp: attempt_def never_fails_def)

lemma h_remove_effect:
  "only {p} w (snd (h_remove p w)) \<and> (fs w p = None \<longrightarrow> fs (snd (h_remove p w)) = fs w) \<and>
   (never_fails w \<longrightarrow> never_fails (snd (h_remove p w)) \<and> fs (snd (h_remove p w)) p = None)"
  by (auto simp: h_remove_def attempt_def only_def never_fails_def)

text \<open>\<open>c\<close> is the old file and \<open>d\<close> the new one.\<close>

definition survives :: "byte list \<Rightarrow> byte list \<Rightarrow> world \<Rightarrow> bool" where
  "survives c d w \<longleftrightarrow> fs w data_path = Some c \<or> fs w data_path = Some d \<or> (fs w data_path = None \<and> fs w data_bak = Some c)"

lemma survives_remove_tmp: "survives c d w \<Longrightarrow> survives c d (snd (h_remove data_tmp w))"
  using h_remove_effect [of data_tmp w] paths_distinct by (simp add: survives_def only_def)

lemma exchange_survives:
  assumes "fs w data_path = Some c" and "fs w data_tmp = Some d"
  shows "survives c d (exchange w) \<and> only {data_path, data_tmp, data_bak} w (exchange w) \<and>
    (never_fails w \<and> fs w data_bak = None \<longrightarrow> fs (exchange w) data_path = Some d)"
proof -
  obtain ok1 w1 where r1: "h_rename data_path data_bak w = (ok1, w1)" by fastforce
  note R1 = h_rename_fs [OF r1]
  have n1: "never_fails w \<and> fs w data_bak = None \<Longrightarrow> ok1 \<and> never_fails w1"
    using r1 assms(1) by (auto simp: h_rename_def attempt_def never_fails_def)
  show ?thesis
  proof (cases ok1)
    case False
    then have "exchange w = snd (h_remove data_tmp w1)" by (simp add: exchange_def r1)
    moreover have "survives c d w1" using R1 False assms(1) by (simp add: survives_def)
    ultimately show ?thesis
      using survives_remove_tmp [of c d w1] h_remove_effect [of data_tmp w1] R1 False n1 by (auto simp: only_def)
  next
    case True
    obtain ok2 w2 where r2: "h_rename data_tmp data_path w1 = (ok2, w2)" by fastforce
    note R2 = h_rename_fs [OF r2]
    have w1: "fs w1 data_path = None" "fs w1 data_bak = Some c" "fs w1 data_tmp = Some d"
      using R1 True assms paths_distinct by (simp_all)
    have n2: "never_fails w1 \<Longrightarrow> ok2 \<and> never_fails w2"
      using r2 w1 by (auto simp: h_rename_def attempt_def never_fails_def)
    show ?thesis
    proof (cases ok2)
      case T2: True
      then have e: "exchange w = snd (h_remove data_bak w2)" using True by (simp add: exchange_def r1 r2)
      have w2: "fs w2 data_path = Some d" using R2 T2 w1 paths_distinct by simp
      have o: "only {data_bak} w2 (exchange w)" using h_remove_effect [of data_bak w2] by (simp add: e)
      then have "fs (exchange w) data_path = Some d" using w2 paths_distinct by (simp add: only_def)
      moreover have "only {data_path, data_tmp, data_bak} w (exchange w)" using o R1 R2 True T2 by (auto simp: only_def)
      ultimately show ?thesis by (simp add: survives_def)
    next
      case F2: False
      obtain ok3 w3 where r3: "h_rename data_bak data_path w2 = (ok3, w3)" by fastforce
      note R3 = h_rename_fs [OF r3]
      have e: "exchange w = snd (h_remove data_tmp w3)" using True F2 by (simp add: exchange_def r1 r2 r3)
      have "survives c d w3" using R3 R2 F2 w1 paths_distinct by (cases ok3) (simp_all add: survives_def)
      then have "survives c d (exchange w)" unfolding e by (rule survives_remove_tmp)
      moreover have "only {data_path, data_tmp, data_bak} w (exchange w)"
        using h_remove_effect [of data_tmp w3] R1 R2 R3 True F2 by (auto simp: only_def e)
      moreover have "\<not> (never_fails w \<and> fs w data_bak = None)" using n1 n2 F2 by blast
      ultimately show ?thesis by blast
    qed
  qed
qed

lemma credits_effect:
  assumes "fs w data_path = Some c" and "length c = CREDITS_OLD_TOTAL"
    and "length bi = CREDITS_NEW_CBI_SIZE" and "length blk = CREDITS_NEW_BLOCK_SIZE"
  shows "survives c (patched bi blk c) (credits_patch_apply bi blk w) \<and>
    only {data_path, data_tmp, data_bak} w (credits_patch_apply bi blk w) \<and>
    length (patched bi blk c) = CREDITS_NEW_TOTAL \<and>
    (never_fails w \<and> header_ok (take 64 c) \<longrightarrow> fs (credits_patch_apply bi blk w) data_path = Some (patched bi blk c))"
proof -
  let ?d = "patched bi blk c" and ?r = "credits_patch_apply bi blk w" and ?ps = "{data_path, data_tmp, data_bak}"
  have len: "length ?d = CREDITS_NEW_TOTAL" using assms(2-4) by (rule patched_length)
  have ne: "length c \<noteq> CREDITS_NEW_TOTAL" using assms(2) by (simp add: credits_layout)
  have same: "survives c ?d v \<and> only ?ps w v" if "fs v = fs w" for v
    using that assms(1) by (simp add: survives_def only_def)
  obtain o1 w1 where a1: "attempt w = (o1, w1)" by fastforce
  obtain o2 w2 where a2: "attempt w1 = (o2, w2)" by fastforce
  have f2: "fs w1 = fs w" "fs w2 = fs w" using attempt_fs [OF a1] attempt_fs [OF a2] by simp_all
  have n2: "never_fails w \<Longrightarrow> o1 \<and> o2 \<and> never_fails w2"
    using never_fails_attempt [OF _ a1] never_fails_attempt [OF _ a2] by blast
  show ?thesis
  proof (cases "o1 \<and> o2 \<and> header_ok (take 64 c)")
    case False
    then have "fs ?r = fs w"
      using a1 a2 f2 ne assms(1,2) by (auto simp: credits_patch_apply_def split: bool.splits)
    then show ?thesis using same [of ?r] len n2 False by blast
  next
    case True
    define w4 where "w4 = snd (h_remove data_bak (snd (h_remove data_tmp w2)))"
    obtain o5 w5 where c5: "h_create data_tmp w4 = (o5, w5)" by fastforce
    obtain o6 w6 where p6: "write_patched bi blk c w5 = (o6, w6)" by fastforce
    obtain o7 w7 where f7: "h_flush data_tmp w6 = (o7, w7)" by fastforce
    note R4 = h_remove_effect [of data_tmp w2] h_remove_effect [of data_bak "snd (h_remove data_tmp w2)"]
    note P = appendsD [OF appends_patched [OF assms(2)] p6]
    note Fl = appendsD [OF appends_flush f7]
    have w4: "fs w4 data_path = Some c" "only ?ps w w4" "never_fails w \<Longrightarrow> never_fails w4 \<and> fs w4 data_bak = None"
      using R4 assms(1) paths_distinct f2 n2 by (auto simp: w4_def only_def)
    have w5: "fs w5 data_path = Some c" "only ?ps w w5" "o5 \<Longrightarrow> fs w5 data_tmp = Some []"
        "never_fails w \<Longrightarrow> o5 \<and> never_fails w5 \<and> fs w5 data_bak = None"
      using h_create_fs [OF c5] w4 paths_distinct c5
      by (auto simp: only_def h_create_def attempt_def never_fails_def split: if_splits)
    have w7: "fs w7 data_path = Some c" "only ?ps w w7"
      using w5 P(1) Fl(1) paths_distinct by (auto simp: only_def)
    have d7: "o5 \<Longrightarrow> o6 \<Longrightarrow> o7 \<Longrightarrow> fs w7 data_tmp = Some ?d"
      using P(4) [OF _ w5(3)] Fl(4) by simp
    have n7: "never_fails w \<Longrightarrow> o5 \<and> o6 \<and> o7 \<and> never_fails w7 \<and> fs w7 data_bak = None"
      using w5(4) P(1,2,3) Fl(1,2,3) paths_distinct by (auto simp: never_fails_def only_def)
    have r: "?r = (if \<not> o5 then w5 else if \<not> (o6 \<and> o7) then snd (h_remove data_tmp w7)
        else if (case fs w7 data_tmp of Some d \<Rightarrow> length d \<noteq> CREDITS_NEW_TOTAL | None \<Rightarrow> True) then snd (h_remove data_tmp w7)
        else exchange w7)"
      using True a1 a2 ne assms(1,2) c5 p6 f7
      by (simp add: credits_patch_apply_def Let_def w4_def [symmetric] split: bool.splits)
    have s7: "survives c ?d w7" "survives c ?d w5" using w7(1) w5(1) by (simp_all add: survives_def)
    have rm: "survives c ?d (snd (h_remove data_tmp w7)) \<and> only ?ps w (snd (h_remove data_tmp w7))"
      using survives_remove_tmp [OF s7(1)] h_remove_effect [of data_tmp w7] w7(2) by (auto simp: only_def)
    show ?thesis
    proof (cases "o5 \<and> o6 \<and> o7")
      case False
      then have "?r = w5 \<or> ?r = snd (h_remove data_tmp w7)" unfolding r by auto
      then show ?thesis using rm s7(2) w5(2) len n7 False by auto
    next
      case T: True
      then have "?r = exchange w7" using d7 len by (simp add: r)
      with exchange_survives [OF w7(1) d7] T w7(2) len n7 show ?thesis by (auto simp: only_def)
    qed
  qed
qed

text \<open>
  C13.  The patch of the credits never damages the game's data: whichever calls of the file system
  fail, the data file holds afterwards its old bytes or all of the new ones, or its old bytes lie
  complete beside it under the name of the backup; no other file changes.  If no call fails and the
  header is the expected one, the new file is there, with its new length.
\<close>

theorem credits_patch_atomic:
  assumes "fs w data_path = Some c" and "length c = CREDITS_OLD_TOTAL"
    and "length bi = CREDITS_NEW_CBI_SIZE" and "length blk = CREDITS_NEW_BLOCK_SIZE"
  shows "survives c (patched bi blk c) (credits_patch_apply bi blk w) \<and>
    only {data_path, data_tmp, data_bak} w (credits_patch_apply bi blk w) \<and>
    length (patched bi blk c) = CREDITS_NEW_TOTAL \<and>
    (never_fails w \<and> header_ok (take 64 c) \<longrightarrow> fs (credits_patch_apply bi blk w) data_path = Some (patched bi blk c))"
  using credits_effect [OF assms] by blast

definition sample_header :: "byte list" where
  "sample_header = UNITYFS @ replicate 21 0 @ be_store 8 CREDITS_OLD_TOTAL @ be_store 4 19462 @ replicate 23 0"

definition sample_data :: "byte list" where
  "sample_data = sample_header @ replicate (CREDITS_OLD_TOTAL - 64) 7"

definition sample_world :: world where
  "sample_world = \<lparr>fs = [data_path \<mapsto> sample_data], fails = \<lambda>_. False, torn = \<lambda>_. [], clock = 0\<rparr>"

theorem credits_patch_atomic_witness:
  "fs (credits_patch_apply (replicate CREDITS_NEW_CBI_SIZE 1) (replicate CREDITS_NEW_BLOCK_SIZE 2) sample_world) data_path =
     Some (patched (replicate CREDITS_NEW_CBI_SIZE 1) (replicate CREDITS_NEW_BLOCK_SIZE 2) sample_data)"
proof -
  have b: "be_store 8 CREDITS_OLD_TOTAL = [0, 0, 0, 0, 7, 84, 80, 166]" "be_store 4 19462 = [0, 0, 76, 6]"
    by (simp_all add: be_store_def credits_layout upt_rec)
  have h: "header_ok sample_header \<and> length sample_header = 64"
    by (simp add: header_ok_def sample_header_def UNITYFS_def b) (simp add: be_load_def credits_layout)
  then have "take 64 sample_data = sample_header" "length sample_data = CREDITS_OLD_TOTAL"
    by (simp_all add: sample_data_def credits_layout)
  moreover have "fs sample_world data_path = Some sample_data" "never_fails sample_world"
    by (simp_all add: sample_world_def never_fails_def)
  ultimately show ?thesis
    using h credits_patch_atomic [of sample_world sample_data "replicate CREDITS_NEW_CBI_SIZE 1" "replicate CREDITS_NEW_BLOCK_SIZE 2"]
    by simp
qed

end
