(* ===== verification/Installer.thy ===== *)
theory Installer
  imports ExtractProps Credits
begin

text \<open>
  The first run and the later ones (\<^verbatim>\<open>source/installer.c\<close>): the plan of the space, the files copied
  to the caches, the marker, and \<^verbatim>\<open>installer_prepare_game_files\<close>.  A result \<open>None\<close> is a run that does
  not end.  The console output and the texts of the errors are left out.
\<close>

section \<open>The space needed\<close>

definition INSTALL_SPACE_RESERVE_BYTES :: nat where "INSTALL_SPACE_RESERVE_BYTES = 64 * 1024 * 1024"

definition cache_target_for_apk_entry :: "string \<Rightarrow> string option" where
  "cache_target_for_apk_entry name =
     (if name = ''assets/bin/Data/Managed/Metadata/global-metadata.dat''
      then Some (DATA_ROOT @ ''/files/il2cpp/Metadata/global-metadata.dat'')
      else if name = ''assets/bin/Data/Managed/Resources/mscorlib.dll-resources.dat''
      then Some (DATA_ROOT @ ''/files/il2cpp/Resources/mscorlib.dll-resources.dat'')
      else if name = ''assets/bin/Data/Managed/Resources/System.Data.dll-resources.dat''
      then Some (DATA_ROOT @ ''/files/il2cpp/Resources/System.Data.dll-resources.dat'')
      else if name = ''assets/bin/Data/Managed/Resources/System.Drawing.dll-resources.dat''
      then Some (DATA_ROOT @ ''/files/il2cpp/Resources/System.Drawing.dll-resources.dat'')
      else if name = ''assets/local/live_English.bytes'' then Some (DATA_ROOT @ ''/files/downloaded/live_English.bytes'')
      else None)"

record space_plan =
  final_payload_bytes :: u64
  existing_payload_credit :: u64
  cache_bytes :: u64
  existing_cache_credit :: u64
  replace_peak_bytes :: u64
  plan_files :: nat
  required_mask :: u32

definition empty_plan :: space_plan where
  "empty_plan = \<lparr>final_payload_bytes = 0, existing_payload_credit = 0, cache_bytes = 0, existing_cache_credit = 0,
     replace_peak_bytes = 0, plan_files = 0, required_mask = 0\<rparr>"

definition existing_credit_for_file :: "world \<Rightarrow> string \<Rightarrow> u64 \<Rightarrow> u64" where
  "existing_credit_for_file w p expected =
     (case fs w p of
        None \<Rightarrow> 0
      | Some c \<Rightarrow> if c = [] then 0 else let have_bytes = of_nat (length c) in if have_bytes < expected then have_bytes else expected)"

definition raise_peak :: "world \<Rightarrow> string \<Rightarrow> u64 \<Rightarrow> space_plan \<Rightarrow> space_plan" where
  "raise_peak w p n pl = (if file_exists_nonempty w p \<and> replace_peak_bytes pl < n then pl\<lparr>replace_peak_bytes := n\<rparr> else pl)"

definition install_space_visitor :: "world \<Rightarrow> zentry \<Rightarrow> space_plan \<Rightarrow> (bool \<times> space_plan) option" where
  "install_space_visitor w e p =
     (case install_entry_target (z_name e) of
        Inl _ \<Rightarrow> Some (False, p)
      | Inr None \<Rightarrow> Some (True, p)
      | Inr (Some (target, b)) \<Rightarrow>
          let n = of_nat (z_usize e);
              p1 = raise_peak w target n
                     (p\<lparr>final_payload_bytes := final_payload_bytes p + n,
                        existing_payload_credit := existing_payload_credit p + existing_credit_for_file w target n\<rparr>);
              p2 = p1\<lparr>plan_files := plan_files p1 + 1, required_mask := required_mask p1 OR b\<rparr>
          in Some (True,
               case cache_target_for_apk_entry (z_name e) of
                 None \<Rightarrow> p2
               | Some ct \<Rightarrow> raise_peak w ct n
                   (p2\<lparr>cache_bytes := cache_bytes p2 + n,
                       existing_cache_credit := existing_cache_credit p2 + existing_credit_for_file w ct n\<rparr>)))"

definition REQUIRED :: u32 where
  "REQUIRED = INSTALL_REQ_MANIFEST OR INSTALL_REQ_MAIN OR INSTALL_REQ_UNITY OR INSTALL_REQ_IL2CPP OR INSTALL_REQ_METADATA OR
     INSTALL_REQ_DATA OR INSTALL_REQ_RESOURCES OR INSTALL_REQ_GUID OR INSTALL_REQ_MSCORLIB OR INSTALL_REQ_SYSTEM_DATA OR
     INSTALL_REQ_SYSTEM_DRAWING OR INSTALL_REQ_ENGLISH"

definition growth :: "u64 \<Rightarrow> u64 \<Rightarrow> u64" where
  "growth bytes credit = (if credit < bytes then bytes - credit else 0)"

text \<open>\<open>n\<close> entries from \<open>cd\<close> on; the bytes that have to be free.\<close>

definition build_install_space_plan :: "archive \<Rightarrow> nat \<Rightarrow> nat \<Rightarrow> world \<Rightarrow> u64 option" where
  "build_install_space_plan z n cd w =
     (case zip_visit z (install_space_visitor w) n cd empty_plan of
        Some (True, p) \<Rightarrow>
          if required_mask p AND REQUIRED \<noteq> REQUIRED then None
          else Some (growth (final_payload_bytes p) (existing_payload_credit p) + growth (cache_bytes p) (existing_cache_credit p) +
                 replace_peak_bytes p + of_nat INSTALL_SPACE_RESERVE_BYTES)
      | _ \<Rightarrow> None)"

section \<open>Copies and markers\<close>

definition INSTALL_MARKER :: string where "INSTALL_MARKER = DATA_ROOT @ ''/.installed-1.2.8.1''"
definition UNITY_VERSION :: string where "UNITY_VERSION = ''6000.3.5f2''"

definition bytes_of :: "string \<Rightarrow> byte list" where
  "bytes_of s = map of_char s"

text \<open>Opening a file for reading; the contents if it is there.\<close>

definition h_open_read :: "string \<Rightarrow> world \<Rightarrow> byte list option \<times> world" where
  "h_open_read p w = (case attempt w of (ok, w') \<Rightarrow> (if ok then fs w p else None, w'))"

function copy_chunks :: "string \<Rightarrow> byte list \<Rightarrow> nat \<Rightarrow> world \<Rightarrow> bool \<times> world" where
  "copy_chunks tmp c pos w =
     (case attempt w of
        (rd, w1) \<Rightarrow>
          if \<not> rd then (False, w1)
          else let got = take ZIP_IO_BYTES (drop pos c);
                   r = (if got \<noteq> [] then h_write tmp got w1 else (True, w1))
               in if \<not> fst r then (False, snd r)
                  else if length got < ZIP_IO_BYTES then (True, snd r)
                  else copy_chunks tmp c (pos + ZIP_IO_BYTES) (snd r))"
  by pat_completeness auto
termination
  by (relation "measure (\<lambda>(tmp, c, pos, w). length c - pos)") (auto simp: ZIP_IO_BYTES_def)

declare copy_chunks.simps [simp del]

text \<open>A finished temporary file takes the place of the target.\<close>

definition replace_file :: "string \<Rightarrow> string \<Rightarrow> world \<Rightarrow> bool \<times> world" where
  "replace_file tmp dst w =
     (case h_rename tmp dst (snd (h_remove dst w)) of
        (True, w1) \<Rightarrow> (True, w1)
      | (False, w1) \<Rightarrow> (False, snd (h_remove tmp w1)))"

definition copy_file_atomic :: "string \<Rightarrow> string \<Rightarrow> world \<Rightarrow> bool \<times> world" where
  "copy_file_atomic src dst w =
     (case create_parent_directories dst w of
        (False, w1) \<Rightarrow> (False, w1)
      | (True, w1) \<Rightarrow>
          (case h_open_read src w1 of
             (None, w2) \<Rightarrow> (False, w2)
           | (Some c, w2) \<Rightarrow>
               let tmp = dst @ ''.tmp''
               in if PATH_MAX + 5 \<le> length tmp then (False, w2)
                  else case h_create tmp w2 of
                         (False, w3) \<Rightarrow> (False, w3)
                       | (True, w3) \<Rightarrow>
                           (case and_then attempt (copy_chunks tmp c 0) w3 of
                              (ok, w4) \<Rightarrow>
                                (case h_flush tmp w4 of
                                   (cl, w5) \<Rightarrow> if \<not> (ok \<and> cl) then (False, snd (h_remove tmp w5)) else replace_file tmp dst w5))))"

text \<open>
  A small file written at once; \<open>rm\<close> says whether the temporary file is removed when it cannot be created.
\<close>

definition write_small :: "bool \<Rightarrow> string \<Rightarrow> (world \<Rightarrow> bool \<times> world) \<Rightarrow> world \<Rightarrow> bool \<times> world" where
  "write_small rm dst body w =
     (case create_parent_directories dst w of
        (False, w1) \<Rightarrow> (False, w1)
      | (True, w1) \<Rightarrow>
          let tmp = dst @ ''.tmp''
          in if PATH_MAX + 5 \<le> length tmp then (False, w1)
             else case h_create tmp w1 of
                    (False, w2) \<Rightarrow> (False, if rm then snd (h_remove tmp w2) else w2)
                  | (True, w2) \<Rightarrow>
                      (case body w2 of
                         (ok, w3) \<Rightarrow>
                           (case h_flush tmp w3 of
                              (cl, w4) \<Rightarrow> if \<not> (ok \<and> cl) then (False, snd (h_remove tmp w4)) else replace_file tmp dst w4)))"

definition marker_text :: "nat \<Rightarrow> byte list" where
  "marker_text n = bytes_of (''Unity '' @ UNITY_VERSION @ [CHR 10] @ ''files='' @ nat_digits n @ [CHR 10])"

definition write_runtime_install_marker :: "nat \<Rightarrow> world \<Rightarrow> bool \<times> world" where
  "write_runtime_install_marker n =
     write_small False INSTALL_MARKER (and_then (h_write (INSTALL_MARKER @ ''.tmp'') (marker_text n)) (h_flush (INSTALL_MARKER @ ''.tmp'')))"

definition il2cpp_cache_files :: "(string \<times> string) list" where
  "il2cpp_cache_files =
     [(DATA_ROOT @ ''/assets/bin/Data/Managed/Metadata/global-metadata.dat'', DATA_ROOT @ ''/files/il2cpp/Metadata/global-metadata.dat''),
      (DATA_ROOT @ ''/assets/bin/Data/Managed/Resources/mscorlib.dll-resources.dat'',
       DATA_ROOT @ ''/files/il2cpp/Resources/mscorlib.dll-resources.dat''),
      (DATA_ROOT @ ''/assets/bin/Data/Managed/Resources/System.Data.dll-resources.dat'',
       DATA_ROOT @ ''/files/il2cpp/Resources/System.Data.dll-resources.dat''),
      (DATA_ROOT @ ''/assets/bin/Data/Managed/Resources/System.Drawing.dll-resources.dat'',
       DATA_ROOT @ ''/files/il2cpp/Resources/System.Drawing.dll-resources.dat'')]"

definition GUID_PATH :: string where "GUID_PATH = DATA_ROOT @ ''/assets/bin/Data/unity_app_guid''"
definition IL2CPP_MARKER :: string where "IL2CPP_MARKER = DATA_ROOT @ ''/files/il2cpp/unity.ver''"

definition same_size :: "world \<Rightarrow> string \<Rightarrow> string \<Rightarrow> bool" where
  "same_size w a b \<longleftrightarrow> (case (fs w a, fs w b) of (Some x, Some y) \<Rightarrow> x \<noteq> [] \<and> length x = length y | _ \<Rightarrow> False)"

definition il2cpp_marker_matches :: "byte list \<Rightarrow> world \<Rightarrow> bool \<times> world" where
  "il2cpp_marker_matches guid w = (case h_open_read IL2CPP_MARKER w of (c, w') \<Rightarrow> (c = Some guid \<and> length guid = 36, w'))"

fun copy_all :: "(string \<times> string) list \<Rightarrow> world \<Rightarrow> bool \<times> world" where
  "copy_all [] w = (True, w)"
| "copy_all ((src, dst) # ps) w =
     (if \<not> file_exists_nonempty w src then (False, w)
      else case copy_file_atomic src dst w of (ok, w') \<Rightarrow> if ok then copy_all ps w' else (False, w'))"

definition prepare_il2cpp_cache :: "world \<Rightarrow> bool \<times> world" where
  "prepare_il2cpp_cache w =
     (case h_open_read GUID_PATH w of
        (None, w1) \<Rightarrow> (False, w1)
      | (Some guid, w1) \<Rightarrow>
          if length guid \<noteq> 36 then (False, w1)
          else case il2cpp_marker_matches guid w1 of
                 (ready, w2) \<Rightarrow>
                   if ready \<and> list_all (\<lambda>(a, b). same_size w2 a b) il2cpp_cache_files then (True, w2)
                   else case copy_all il2cpp_cache_files w2 of
                          (False, w3) \<Rightarrow> (False, w3)
                        | (True, w3) \<Rightarrow> write_small True IL2CPP_MARKER (h_write (IL2CPP_MARKER @ ''.tmp'') guid) w3)"

definition ENGLISH_SRC :: string where "ENGLISH_SRC = DATA_ROOT @ ''/assets/local/live_English.bytes''"
definition ENGLISH_DST :: string where "ENGLISH_DST = DATA_ROOT @ ''/files/downloaded/live_English.bytes''"

definition seed_english_localization_cache :: "world \<Rightarrow> bool \<times> world" where
  "seed_english_localization_cache w =
     (if \<not> file_exists_nonempty w ENGLISH_SRC then (False, w)
      else if same_size w ENGLISH_SRC ENGLISH_DST then (True, w)
      else case copy_file_atomic ENGLISH_SRC ENGLISH_DST w of
             (False, w') \<Rightarrow> (False, w')
           | (True, w') \<Rightarrow> (same_size w' ENGLISH_DST ENGLISH_SRC, w'))"

section \<open>The installer\<close>

definition manifest_path :: string where "manifest_path = DATA_ROOT @ ''/AndroidManifest.xml''"

definition runtime_files :: "string list" where
  "runtime_files = map (\<lambda>f. DATA_ROOT @ ''/'' @ f)
     [LIB_MAIN, LIB_UNITY, LIB_IL2CPP, ''assets/bin/Data/Managed/Metadata/global-metadata.dat'', ''assets/bin/Data/data.unity3d'',
      ''assets/bin/Data/resources.resource'', ''assets/bin/Data/unity_app_guid'']"

definition runtime_files_present :: "world \<Rightarrow> bool" where
  "runtime_files_present w \<longleftrightarrow> list_all (file_exists_nonempty w) runtime_files"

definition remove_install_media_if_safe :: "world \<Rightarrow> world" where
  "remove_install_media_if_safe w =
     (if \<not> file_exists_nonempty w INSTALL_APK then w
      else if \<not> file_exists_nonempty w INSTALL_MARKER \<or> \<not> runtime_files_present w then w
      else if \<not> file_exists_nonempty w manifest_path then w
      else snd (h_remove INSTALL_APK w))"

text \<open>
  What the installer is run with: zlib, the new data of the credits, which parts of the archive can
  be read, and the free and total space.
\<close>

record 'z tools =
  t_crc :: "u32 \<Rightarrow> byte list \<Rightarrow> u32"
  t_infl :: "'z inflate"
  t_init :: 'z
  t_info :: "byte list"
  t_block :: "byte list"
  t_read :: "nat \<Rightarrow> nat \<Rightarrow> bool"
  t_space :: "(nat \<times> nat) option"

definition archive_of :: "'z tools \<Rightarrow> byte list \<Rightarrow> archive" where
  "archive_of T c = \<lparr>a_size = length c, a_read = (\<lambda>p n. if p + n \<le> length c \<and> t_read T p n then Some (take n (drop p c)) else None)\<rparr>"

text \<open>Opening the archive: its reader, the number of entries and where they start.\<close>

definition open_apk :: "'z tools \<Rightarrow> world \<Rightarrow> (archive \<times> nat \<times> nat) option \<times> world" where
  "open_apk T w =
     (case h_open_read INSTALL_APK w of
        (None, w1) \<Rightarrow> (None, w1)
      | (Some c, w1) \<Rightarrow> (case zip_open (archive_of T c) of None \<Rightarrow> None | Some (n, cd) \<Rightarrow> Some (archive_of T c, n, cd), w1))"

definition manifest_visitor :: "'z tools \<Rightarrow> archive \<Rightarrow> zentry \<Rightarrow> world \<Rightarrow> (bool \<times> world) option" where
  "manifest_visitor T z e w =
     (if z_name e \<noteq> ''AndroidManifest.xml'' then Some (True, w)
      else extract_entry z (t_crc T) (t_infl T) (t_init T) e manifest_path w)"

definition load_manifest_metadata :: "'z tools \<Rightarrow> manifest \<Rightarrow> world \<Rightarrow> (manifest \<times> world) option" where
  "load_manifest_metadata T m w =
     do {
       w1 \<leftarrow> (if \<not> file_exists_nonempty w manifest_path \<and> file_exists_nonempty w INSTALL_APK
              then case open_apk T w of
                     (None, w1) \<Rightarrow> Some w1
                   | (Some (z, n, cd), w1) \<Rightarrow> map_option snd (zip_visit z (manifest_visitor T z) n cd w1)
              else Some w);
       (case h_open_read manifest_path w1 of
          (f, w2) \<Rightarrow> do { r \<leftarrow> parse_android_manifest f m; Some (snd r, w2) }) }"

definition validate_manifest_metadata :: "manifest \<Rightarrow> bool" where
  "validate_manifest_metadata m \<longleftrightarrow> package m ! 0 \<noteq> 0 \<and> cstr (package m) = GAME_PACKAGE"

definition verify_game_apk_basic :: "world \<Rightarrow> bool" where
  "verify_game_apk_basic w \<longleftrightarrow> (case fs w INSTALL_APK of None \<Rightarrow> False | Some c \<Rightarrow> 22 \<le> length c)"

definition probe_path :: string where "probe_path = DATA_ROOT @ ''/.installer_write_test.tmp''"

definition verify_install_location_writable :: "world \<Rightarrow> bool \<times> world" where
  "verify_install_location_writable w =
     (case and_then attempt attempt w of
        (False, w1) \<Rightarrow> (False, w1)
      | (True, w1) \<Rightarrow>
          (case h_create probe_path w1 of
             (False, w2) \<Rightarrow> (False, w2)
           | (True, w2) \<Rightarrow>
               (case and_then (h_write probe_path [0x5a]) (h_flush probe_path) w2 of
                  (ok, w3) \<Rightarrow>
                    (case h_flush probe_path w3 of
                       (cl, w4) \<Rightarrow> (case h_remove probe_path w4 of (rm, w5) \<Rightarrow> (ok \<and> cl \<and> rm, w5))))))"

definition installer_preflight :: "'z tools \<Rightarrow> archive \<Rightarrow> nat \<Rightarrow> nat \<Rightarrow> world \<Rightarrow> bool \<times> world" where
  "installer_preflight T z n cd w =
     (case verify_install_location_writable w of
        (False, w1) \<Rightarrow> (False, w1)
      | (True, w1) \<Rightarrow>
          (case (build_install_space_plan z n cd w1, t_space T) of
             (Some need, Some (free_bytes, total_bytes)) \<Rightarrow> (\<not> of_nat free_bytes < need, w1)
           | _ \<Rightarrow> (False, w1)))"

text \<open>The last steps, common to the first run and the later ones; the manifest is the one just read.\<close>

definition prepare_caches :: "world \<Rightarrow> bool \<times> world" where
  "prepare_caches = and_then prepare_il2cpp_cache seed_english_localization_cache"

definition credits :: "'z tools \<Rightarrow> world \<Rightarrow> world" where
  "credits T = credits_patch_apply (t_info T) (t_block T)"

definition all_noted :: "install_state \<Rightarrow> bool" where
  "all_noted st \<longleftrightarrow> have_manifest st \<and> have_main st \<and> have_unity st \<and> have_il2cpp st \<and> have_metadata st \<and> have_data st \<and> have_resources st"

definition first_install :: "'z tools \<Rightarrow> archive \<Rightarrow> nat \<Rightarrow> nat \<Rightarrow> manifest \<Rightarrow> world \<Rightarrow> (bool \<times> manifest \<times> world) option" where
  "first_install T z n cd m w =
     do {
       (rc, st, w1) \<leftarrow> zip_visit z (install_visitor z (t_crc T) (t_infl T) (t_init T)) n cd (no_files, w);
       if \<not> rc \<or> \<not> runtime_files_present w1 \<or> \<not> all_noted st then Some (False, m, w1)
       else do {
         (m2, w2) \<leftarrow> load_manifest_metadata T m w1;
         if \<not> validate_manifest_metadata m2 \<or> \<not> file_exists_nonempty w2 manifest_path then Some (False, m2, w2)
         else case prepare_caches w2 of
                (False, w3) \<Rightarrow> Some (False, m2, w3)
              | (True, w3) \<Rightarrow>
                  (case write_runtime_install_marker (files st) (credits T w3) of
                     (False, w4) \<Rightarrow> Some (False, m2, w4)
                   | (True, w4) \<Rightarrow> Some (True, m2, remove_install_media_if_safe w4)) } }"

definition installer_prepare_game_files :: "'z tools \<Rightarrow> manifest \<Rightarrow> world \<Rightarrow> (bool \<times> manifest \<times> world) option" where
  "installer_prepare_game_files T m w =
     (if file_exists_nonempty w INSTALL_MARKER \<and> runtime_files_present w
      then do {
        (m1, w1) \<leftarrow> load_manifest_metadata T m w;
        if \<not> validate_manifest_metadata m1 then Some (False, m1, w1)
        else case prepare_caches w1 of
               (False, w2) \<Rightarrow> Some (False, m1, w2)
             | (True, w2) \<Rightarrow> Some (True, m1, remove_install_media_if_safe (credits T w2)) }
      else if \<not> verify_game_apk_basic w then Some (False, m, w)
      else case and_then attempt attempt w of
             (False, w1) \<Rightarrow> Some (False, m, w1)
           | (True, w1) \<Rightarrow>
               (case open_apk T w1 of
                  (None, w2) \<Rightarrow> Some (False, m, w2)
                | (Some (z, n, cd), w2) \<Rightarrow>
                    (case installer_preflight T z n cd w2 of
                       (False, w3) \<Rightarrow> Some (False, m, w3)
                     | (True, w3) \<Rightarrow> first_install T z n cd m w3)))"

end
