(* ===== verification/AxmlProps.thy ===== *)
theory AxmlProps
  imports Axml
begin

text \<open>The manifest parser stays inside the file and its buffers, and what its strings are.\<close>

section \<open>Inside the file\<close>

lemma rd8_ok: "i < length b \<Longrightarrow> rd8 b i = Some (b ! i)"
  by (simp add: rd8_def)

lemma rd16_ok: "i + 2 \<le> length b \<Longrightarrow> \<exists>v. rd16 b i = Some v"
  by (simp add: rd16_def)

lemma rd32_ok: "i + 4 \<le> length b \<Longrightarrow> \<exists>v. rd32 b i = Some v"
  by (simp add: rd32_def)

lemma axml_u8len_ok:
  assumes "p \<le> e" and "e \<le> length b"
  shows "\<exists>r. axml_u8len b p e = Some r \<and> (\<forall>n u. r = Some (n, u) \<longrightarrow> p + u \<le> e)"
  using assms by (auto simp: axml_u8len_def rd8_ok)

lemma axml_u16len_ok:
  assumes "p \<le> e" and "e \<le> length b"
  shows "\<exists>r. axml_u16len b p e = Some r \<and> (\<forall>n u. r = Some (n, u) \<longrightarrow> p + u \<le> e)"
proof (cases "e - p < 2")
  case True
  then show ?thesis using assms by (simp add: axml_u16len_def room_def)
next
  case False
  then have "p + 2 \<le> length b" using assms by linarith
  then obtain a where a: "rd16 b p = Some a" using rd16_ok by blast
  show ?thesis
  proof (cases "a AND 0x8000 \<noteq> 0 \<and> \<not> e - p < 4")
    case True
    then have "p + 2 + 2 \<le> length b" using assms by linarith
    then obtain c where "rd16 b (p + 2) = Some c" using rd16_ok by blast
    with a True False assms show ?thesis by (auto simp: axml_u16len_def room_def)
  next
    case F: False
    with a False assms show ?thesis by (auto simp: axml_u16len_def room_def)
  qed
qed

lemma utf8_len [simp]: "length (utf8_2 c) = 2" "length (utf8_3 c) = 3" "length (utf8_4 cp) = 4"
  by (simp_all add: utf8_2_def utf8_3_def utf8_4_def)

lemma utf16_to_utf8_ok:
  assumes "q + units * 2 \<le> length b" and "length out < cap"
  shows "\<exists>ok o'. utf16_to_utf8 b q units cap i out = Some (ok, o') \<and> length o' < cap"
  using assms
proof (induction b q units cap i out rule: utf16_to_utf8.induct)
  case (1 b q units cap i out)
  show ?case
  proof (cases "i < units \<and> length out + 1 < cap")
    case False
    then show ?thesis using "1.prems" by (subst utf16_to_utf8.simps) auto
  next
    case in_loop: True
    then obtain c where c: "rd16 b (q + i * 2) = Some c" using rd16_ok [of "q + i * 2" b] "1.prems"(1) by auto
    note IH = "1.IH" [OF in_loop c]
    note step = utf16_to_utf8.simps [of b q units cap i out]
    consider (ascii) "c < 0x80" | (two) "\<not> c < 0x80" "c < 0x800" "length out + 2 < cap"
      | (pair) "\<not> c < 0x80" "\<not> (c < 0x800 \<and> length out + 2 < cap)" "0xd800 \<le> c \<and> c \<le> 0xdbff \<and> i + 1 < units"
      | (rest) "\<not> c < 0x80" "\<not> (c < 0x800 \<and> length out + 2 < cap)" "\<not> (0xd800 \<le> c \<and> c \<le> 0xdbff \<and> i + 1 < units)"
      by blast
    then show ?thesis
    proof cases
      case ascii
      then show ?thesis using IH(1) "1.prems" in_loop by (simp add: step c)
    next
      case two
      then show ?thesis using IH(2) "1.prems" in_loop by (simp add: step c)
    next
      case pair
      then obtain lo where lo: "rd16 b (q + (i + 1) * 2) = Some lo"
        using rd16_ok [of "q + (i + 1) * 2" b] "1.prems"(1) by auto
      show ?thesis
      proof (cases "0xdc00 \<le> lo \<and> lo \<le> 0xdfff \<and> length out + 4 < cap")
        case True
        with IH(3) [OF pair lo True] "1.prems"
        have "\<exists>ok o'. utf16_to_utf8 b q units cap (i + 2) (out @ utf8_4 (surrogate_pair c lo)) = Some (ok, o') \<and> length o' < cap"
          by simp
        moreover have "utf16_to_utf8 b q units cap i out = utf16_to_utf8 b q units cap (i + 2) (out @ utf8_4 (surrogate_pair c lo))"
          using in_loop pair True lo by (simp only: step c if_True if_False option.case simp_thms)
        ultimately show ?thesis by simp
      next
        case False
        then have "utf16_to_utf8 b q units cap i out = Some (False, out)"
          using in_loop pair lo by (simp only: step c if_True if_False option.case simp_thms)
        then show ?thesis using "1.prems"(2) by blast
      qed
    next
      case rest
      show ?thesis
      proof (cases "0xdc00 \<le> c \<and> c \<le> 0xdfff")
        case True
        then have "utf16_to_utf8 b q units cap i out = Some (False, out)"
          using in_loop rest by (simp only: step c if_True if_False option.case simp_thms)
        then show ?thesis using "1.prems"(2) by blast
      next
        case False
        show ?thesis
        proof (cases "length out + 3 < cap")
          case True
          have "utf16_to_utf8 b q units cap i out = utf16_to_utf8 b q units cap (i + 1) (out @ utf8_3 c)"
            using in_loop rest False True by (simp only: step c if_True if_False option.case simp_thms)
          moreover have "\<exists>ok o'. utf16_to_utf8 b q units cap (i + 1) (out @ utf8_3 c) = Some (ok, o') \<and> length o' < cap"
            using IH(4) [OF rest False True] "1.prems" True by simp
          ultimately show ?thesis by simp
        next
          case F: False
          then have "utf16_to_utf8 b q units cap i out = Some (True, out)"
            using in_loop rest False by (simp only: step c if_True if_False option.case simp_thms)
          then show ?thesis using "1.prems"(2) by blast
        qed
      qed
    qed
  qed
qed

definition strings_ok :: "byte list \<Rightarrow> axml_strings \<Rightarrow> bool" where
  "strings_ok b sp \<longleftrightarrow> x_base sp + x_size sp \<le> length b \<and> x_header sp \<le> x_size sp"

lemma axml_string_ok:
  assumes sp: "strings_ok b sp" and cap: "0 < cap"
  shows "\<exists>ok o'. axml_string b sp idx cap = Some (ok, o') \<and> length o' < cap"
proof (cases "x_count sp \<le> idx \<or> x_size sp - x_header sp < x_count sp * 4")
  case True
  then show ?thesis using sp cap by (auto simp: axml_string_def Let_def room_def strings_ok_def)
next
  case False
  let ?e = "x_base sp + x_size sp" and ?offs = "x_base sp + x_header sp"
  have r: "\<not> room ?offs ?e < x_count sp * 4" using False sp by (simp add: room_def strings_ok_def)
  have "idx * 4 + 4 \<le> x_count sp * 4" "x_count sp * 4 \<le> x_size sp - x_header sp" using False by simp_all
  then have "?offs + idx * 4 + 4 \<le> length b" using sp unfolding strings_ok_def by linarith
  then obtain off where off: "rd32 b (?offs + idx * 4) = Some off" using rd32_ok by blast
  show ?thesis
  proof (cases "x_size sp < x_start sp \<or> x_size sp - x_start sp < unat off")
    case True
    then show ?thesis using False r off cap by (auto simp: axml_string_def Let_def)
  next
    case st: False
    define q where "q = x_base sp + x_start sp + unat off"
    have q: "q \<le> ?e" "?e \<le> length b" using st sp unfolding q_def strings_ok_def by linarith+
    show ?thesis
    proof (cases "x_flags sp AND 0x100 \<noteq> 0")
      case True
      from axml_u8len_ok [OF q] obtain r1 where r1: "axml_u8len b q ?e = Some r1" "\<And>n u. r1 = Some (n, u) \<Longrightarrow> q + u \<le> ?e" by blast
      show ?thesis
      proof (cases r1)
        case None
        then show ?thesis using False r off st True r1(1) cap by (auto simp: axml_string_def Let_def q_def)
      next
        case (Some p1)
        obtain n1 u1 where p1: "r1 = Some (n1, u1)" using Some by (cases p1) simp
        then have u1: "q + u1 \<le> ?e" using r1(2) by blast
        from axml_u8len_ok [OF u1 q(2)] obtain r2 where
          r2: "axml_u8len b (q + u1) ?e = Some r2" "\<And>n u. r2 = Some (n, u) \<Longrightarrow> q + u1 + u \<le> ?e" by blast
        show ?thesis
        proof (cases r2)
          case None
          then show ?thesis using False r off st True r1(1) p1 r2(1) cap by (auto simp: axml_string_def Let_def q_def)
        next
          case (Some p2)
          obtain n8 u2 where p2: "r2 = Some (n8, u2)" using Some by (cases p2) simp
          then have u2: "q + u1 + u2 \<le> ?e" using r2(2) by blast
          show ?thesis
          proof (cases "room (q + u1 + u2) ?e < n8")
            case True
            then show ?thesis using False r off st \<open>x_flags sp AND 0x100 \<noteq> 0\<close> r1(1) p1 r2(1) p2 cap
              by (auto simp: axml_string_def Let_def q_def)
          next
            case n8: False
            let ?n = "if n8 < cap - 1 then n8 else cap - 1"
            have "n8 \<le> ?e - (q + u1 + u2)" "?n \<le> n8" using n8 u2 by (simp_all add: room_def)
            then have "q + u1 + u2 + ?n \<le> length b" using u2 q(2) by linarith
            then have "copy_out b (q + u1 + u2) ?n = Some (take ?n (drop (q + u1 + u2) b))" by (simp add: copy_out_def)
            then have "axml_string b sp idx cap = Some (True, take ?n (drop (q + u1 + u2) b))"
              using False r off st True r1(1) p1 r2(1) p2 n8 cap by (simp add: axml_string_def Let_def q_def del: take_drop)
            then show ?thesis using cap by auto
          qed
        qed
      qed
    next
      case F: False
      from axml_u16len_ok [OF q] obtain r1 where r1: "axml_u16len b q ?e = Some r1" "\<And>n u. r1 = Some (n, u) \<Longrightarrow> q + u \<le> ?e" by blast
      show ?thesis
      proof (cases r1)
        case None
        then show ?thesis using False r off st F r1(1) cap by (auto simp: axml_string_def Let_def q_def)
      next
        case (Some p1)
        obtain units u1 where p1: "r1 = Some (units, u1)" using Some by (cases p1) simp
        then have u1: "q + u1 \<le> ?e" using r1(2) by blast
        show ?thesis
        proof (cases "room (q + u1) ?e div 2 < units")
          case True
          then show ?thesis using False r off st F r1(1) p1 cap by (auto simp: axml_string_def Let_def q_def)
        next
          case n: False
          then have "q + u1 + units * 2 \<le> length b" using u1 q(2) by (simp add: room_def)
          from utf16_to_utf8_ok [OF this, of "[]" cap 0] cap
          have "\<exists>ok o'. utf16_to_utf8 b (q + u1) units cap 0 [] = Some (ok, o') \<and> length o' < cap" by simp
          moreover have "axml_string b sp idx cap = utf16_to_utf8 b (q + u1) units cap 0 []"
            using False r off st F r1(1) p1 n cap by (simp add: axml_string_def Let_def q_def)
          ultimately show ?thesis by simp
        qed
      qed
    qed
  qed
qed

section \<open>The whole parser\<close>

lemma axml_attr_string_ok:
  assumes "strings_ok b sp" and "a \<le> e" and "e \<le> length b" and "0 < cap"
  shows "\<exists>ok o'. axml_attr_string b sp a e cap = Some (ok, o') \<and> length o' < cap"
proof (cases "e - a < 20")
  case True
  then show ?thesis using assms by (auto simp: axml_attr_string_def room_def)
next
  case False
  then have "a + 8 + 4 \<le> length b" "a + 16 + 4 \<le> length b" using assms(2,3) by linarith+
  then obtain raw data where "rd32 b (a + 8) = Some raw" "rd32 b (a + 16) = Some data" using rd32_ok by metis
  moreover have "rd8 b (a + 15) = Some (b ! (a + 15))" by (rule rd8_ok) (use False assms(2,3) in linarith)
  ultimately have e: "axml_attr_string b sp a e cap =
      (if raw \<noteq> 0xffffffff then axml_string b sp (unat raw) cap
       else if b ! (a + 15) = 3 then axml_string b sp (unat data) cap else Some (False, []))"
    using False assms(2) by (simp add: axml_attr_string_def room_def)
  show ?thesis unfolding e using axml_string_ok [OF assms(1,4)] assms(4) by auto
qed

lemma axml_attr_int_ok:
  assumes "strings_ok b sp" and "a \<le> e" and "e \<le> length b"
  shows "axml_attr_int b sp a e \<noteq> None"
proof (cases "e - a < 20")
  case True
  then show ?thesis using assms by (simp add: axml_attr_int_def room_def)
next
  case False
  then have "a + 16 + 4 \<le> length b" using assms(2,3) by linarith
  then obtain data where "rd32 b (a + 16) = Some data" using rd32_ok by metis
  moreover have "rd8 b (a + 15) = Some (b ! (a + 15))" by (rule rd8_ok) (use False assms(2,3) in linarith)
  moreover obtain ok t where "axml_attr_string b sp a e 48 = Some (ok, t)"
    using axml_attr_string_ok [OF assms, of 48] by auto
  ultimately show ?thesis using False assms(2)
    by (cases ok) (simp_all add: axml_attr_int_def room_def split: prod.splits)
qed

definition buffer_ok :: "byte list \<Rightarrow> bool" where
  "buffer_ok buf \<longleftrightarrow> length buf = 128 \<and> buf ! 127 = 0"

definition manifest_ok :: "manifest \<Rightarrow> bool" where
  "manifest_ok m \<longleftrightarrow> buffer_ok (package m) \<and> buffer_ok (version_name m)"

lemma store_ok: "buffer_ok buf \<Longrightarrow> length bs < 128 \<Longrightarrow> buffer_ok (store buf (ok, bs))"
  by (auto simp: buffer_ok_def store_def blit_def nth_append)

lemma attribute_ok:
  assumes sp: "strings_ok b sp" and a: "attrs + i * sz + sz \<le> e" "20 \<le> sz" and e: "e \<le> length b" and m: "manifest_ok m"
  shows "\<exists>m'. attribute b sp elem attrs sz e i m = Some m' \<and> manifest_ok m'"
proof -
  let ?a = "attrs + i * sz"
  have "?a + 4 + 4 \<le> length b" using a e by linarith
  then obtain name where name: "rd32 b (?a + 4) = Some name" using rd32_ok by blast
  obtain ok kb where k: "axml_string b sp (unat name) 64 = Some (ok, kb)" using axml_string_ok [OF sp, of 64] by fastforce
  have le: "?a \<le> e" using a by linarith
  obtain ok' s where s: "axml_attr_string b sp ?a e 128 = Some (ok', s)" "length s < 128"
    using axml_attr_string_ok [OF sp le e, of 128] by auto
  obtain r where r: "axml_attr_int b sp ?a e = Some r" using axml_attr_int_ok [OF sp le e] by auto
  have st: "buffer_ok (store (package m) (ok', s))" "buffer_ok (store (version_name m) (ok', s))"
    using m s(2) by (simp_all add: manifest_ok_def store_ok)
  show ?thesis
    using name k s(1) r st m by (cases ok) (simp_all add: attribute_def Let_def manifest_ok_def)
qed

lemma attributes_ok:
  assumes "\<And>i m. i \<in> set is \<Longrightarrow> manifest_ok m \<Longrightarrow> \<exists>m'. f i m = Some m' \<and> manifest_ok m'" and "manifest_ok m"
  shows "\<exists>m'. attributes f is m = Some m' \<and> manifest_ok m'"
  using assms
proof (induction "is" arbitrary: m)
  case (Cons i js)
  then obtain m1 where "f i m = Some m1" "manifest_ok m1" by (metis list.set_intros(1))
  with Cons show ?case by simp
qed simp

lemma start_element_ok:
  assumes sp: "strings_ok b sp" and cs: "pos + cs \<le> length b" "36 \<le> cs" and m: "manifest_ok m"
  shows "\<exists>m'. start_element b sp pos cs m = Some m' \<and> manifest_ok m'"
proof -
  have "pos + 16 + 4 + 4 \<le> length b" using cs by linarith
  then obtain name where name: "rd32 b (pos + 16 + 4) = Some name" using rd32_ok by blast
  obtain ok elem where n: "axml_string b sp (unat name) 64 = Some (ok, elem)" using axml_string_ok [OF sp, of 64] by fastforce
  have "pos + 16 + 8 + 2 \<le> length b" "pos + 16 + 10 + 2 \<le> length b" "pos + 16 + 12 + 2 \<le> length b" using cs by linarith+
  then obtain st sz ct where r: "rd16 b (pos + 16 + 8) = Some st" "rd16 b (pos + 16 + 10) = Some sz" "rd16 b (pos + 16 + 12) = Some ct"
    using rd16_ok by metis
  let ?attrs = "pos + 16 + unat st" and ?e = "pos + cs"
  have at: "\<exists>m'. attributes (attribute b sp (cstr elem) ?attrs (unat sz) ?e) [0..<unat ct] m = Some m' \<and> manifest_ok m'"
    if g: "20 \<le> unat sz" "?attrs \<le> ?e" "unat sz * unat ct \<le> room ?attrs ?e"
  proof (rule attributes_ok [OF _ m])
    fix i m assume i: "i \<in> set [0..<unat ct]" and m: "manifest_ok m"
    have "i * unat sz + unat sz \<le> unat sz * unat ct"
      using i mult_le_mono2 [of "Suc i" "unat ct" "unat sz"] by (simp add: mult.commute)
    then have "?attrs + i * unat sz + unat sz \<le> ?e" using g(2,3) unfolding room_def by simp
    from attribute_ok [OF sp this g(1) cs(1) m] show "\<exists>m'. attribute b sp (cstr elem) ?attrs (unat sz) ?e i m = Some m' \<and> manifest_ok m'" .
  qed
  show ?thesis using name n r at m by (cases ok) (simp_all add: start_element_def Let_def)
qed

lemma chunk_ok:
  assumes p: "pos + 8 \<le> length b" and sp: "\<And>s. sp = Some s \<Longrightarrow> strings_ok b s" and m: "manifest_ok m"
  shows "\<exists>r. chunk b pos sp m = Some r \<and> (\<forall>sp' m' n. r = Some (sp', m', n) \<longrightarrow>
    manifest_ok m' \<and> (\<forall>s. sp' = Some s \<longrightarrow> strings_ok b s))"
proof -
  have "pos + 2 \<le> length b" "pos + 2 + 2 \<le> length b" "pos + 4 + 4 \<le> length b" using p by linarith+
  then obtain ty hs cs where r: "rd16 b pos = Some ty" "rd16 b (pos + 2) = Some hs" "rd32 b (pos + 4) = Some cs"
    using rd16_ok rd32_ok by metis
  show ?thesis
  proof (cases "unat cs < 8 \<or> unat hs < 8 \<or> unat cs < unat hs \<or> length b - pos < unat cs")
    case True
    then show ?thesis using r by (simp add: chunk_def)
  next
    case False
    then have cs: "pos + unat cs \<le> length b" "unat hs \<le> unat cs" using p by linarith+
    show ?thesis
    proof (cases "ty = 1 \<and> 28 \<le> unat hs")
      case True
      then have "pos + 8 + 4 \<le> length b" "pos + 16 + 4 \<le> length b" "pos + 20 + 4 \<le> length b" using cs by linarith+
      then obtain n fl st where "rd32 b (pos + 8) = Some n" "rd32 b (pos + 16) = Some fl" "rd32 b (pos + 20) = Some st"
        using rd32_ok by metis
      then show ?thesis using True False r cs m by (auto simp: chunk_def Let_def strings_ok_def)
    next
      case F: False
      show ?thesis
      proof (cases sp)
        case None
        then show ?thesis using False F r m by (auto simp: chunk_def Let_def)
      next
        case (Some s)
        show ?thesis
        proof (cases "ty = 0x0102 \<and> 16 \<le> unat hs \<and> 36 \<le> unat cs")
          case True
          obtain m' where m': "start_element b s pos (unat cs) m = Some m'" "manifest_ok m'"
            using start_element_ok [OF sp [OF Some] cs(1) _ m] True by blast
          have "chunk b pos sp m = Some (Some (sp, m', unat cs))"
            using True False r m'(1) by (simp add: chunk_def Some)
          then show ?thesis using m'(2) sp by simp
        next
          case N: False
          then have "chunk b pos sp m = Some (Some (sp, m, unat cs))"
            using False F r Some by (auto simp: chunk_def Let_def)
          then show ?thesis using m sp by simp
        qed
      qed
    qed
  qed
qed

lemma chunks_ok:
  assumes "\<And>s. sp = Some s \<Longrightarrow> strings_ok b s" and "manifest_ok m"
  shows "\<exists>m'. chunks b pos sp m = Some m' \<and> manifest_ok m'"
  using assms
proof (induction b pos sp m rule: chunks.induct)
  case (1 b pos sp m)
  show ?case
  proof (cases "pos + 8 \<le> length b")
    case False
    then show ?thesis using "1.prems" by (subst chunks.simps) simp
  next
    case True
    obtain r where r: "chunk b pos sp m = Some r" "\<And>sp' m' n. r = Some (sp', m', n) \<Longrightarrow>
        manifest_ok m' \<and> (\<forall>s. sp' = Some s \<longrightarrow> strings_ok b s)"
      using chunk_ok [OF True "1.prems"] by blast
    show ?thesis
    proof (cases r)
      case None
      then show ?thesis using True r(1) "1.prems" by (subst chunks.simps) simp
    next
      case (Some x)
      obtain sp' m' n where x: "x = (sp', m', n)" by (cases x)
      have c: "chunk b pos sp m = Some (Some (sp', m', n))" using r(1) Some x by simp
      have ok: "manifest_ok m'" "\<And>s. sp' = Some s \<Longrightarrow> strings_ok b s" using r(2) Some x by blast+
      have "chunks b pos sp m = chunks b (pos + n) sp' m'" using True c by (subst chunks.simps) simp
      then show ?thesis using "1.IH" [OF True c refl refl refl ok(2,1)] by simp
    qed
  qed
qed

lemma parse_manifest_ok:
  assumes "manifest_ok m0"
  shows "\<exists>ok m. parse_android_manifest f m0 = Some (ok, m) \<and> manifest_ok m \<and>
    (ok \<longrightarrow> cstr (manifest.package m) = GAME_PACKAGE \<and> (\<exists>b. f = Some b \<and> 8 \<le> length b \<and> length b \<le> 8 * 1024 * 1024 \<and> rd16 b 0 = Some 3))"
proof -
  let ?m = "reset_manifest m0"
  have m: "manifest_ok ?m" using assms by (simp add: manifest_ok_def reset_manifest_def buffer_ok_def)
  show ?thesis
  proof (cases "\<exists>b. f = Some b \<and> 8 \<le> length b \<and> length b \<le> 8 * 1024 * 1024")
    case False
    then show ?thesis using m by (cases f) (auto simp: parse_android_manifest_def Let_def)
  next
    case True
    then obtain b where f: "f = Some b" and len: "8 \<le> length b" "length b \<le> 8 * 1024 * 1024" by blast
    have "0 + 2 \<le> length b" "2 + 2 \<le> length b" "4 + 4 \<le> length b" using len by linarith+
    then obtain magic hs total where r: "rd16 b 0 = Some magic" "rd16 b 2 = Some hs" "rd32 b 4 = Some total"
      using rd16_ok rd32_ok by metis
    obtain m' where c: "chunks b (unat hs) None ?m = Some m'" "manifest_ok m'" using chunks_ok [of None b ?m] m by auto
    have "parse_android_manifest f m0 = (if magic \<noteq> 3 \<or> length b < unat total then Some (False, ?m)
        else Some (package m' ! 0 \<noteq> 0 \<and> cstr (package m') = GAME_PACKAGE, m'))"
      using f len r c by (simp add: parse_android_manifest_def)
    then show ?thesis using f len r(1) c(2) m by auto
  qed
qed

text \<open>
  C39.  The manifest parser is safe for every file: it reads only inside the file, always ends, and
  leaves both text buffers with their length and a zero in the last byte, even after failed
  conversions and however often it runs; it reports success exactly for a readable file whose
  header is right and whose package is the game's.
\<close>

theorem manifest_parser_safe:
  assumes "manifest_ok m0"
  shows "\<exists>ok m. parse_android_manifest f m0 = Some (ok, m) \<and> manifest_ok m \<and>
    (ok \<longrightarrow> cstr (manifest.package m) = GAME_PACKAGE \<and> (\<exists>b. f = Some b \<and> 8 \<le> length b \<and> length b \<le> 8 * 1024 * 1024 \<and> rd16 b 0 = Some 3))"
  using parse_manifest_ok [OF assms] by blast

text \<open>The manifest of the game in its smallest form.\<close>

definition sample_axml :: "byte list" where
  "sample_axml = [3, 0, 8, 0, 154, 0, 0, 0, 1, 0, 28, 0, 90, 0, 0, 0, 3, 0, 0, 0, 0, 0, 0, 0, 0, 1, 0, 0, 40, 0, 0, 0, 0, 0, 0, 0, 0, 0, 0, 0, 11, 0, 0, 0, 21, 0, 0, 0, 8, 8, 109, 97, 110, 105, 102, 101, 115, 116, 0, 7, 7, 112, 97, 99, 107, 97, 103, 101, 0, 26, 26, 99, 111, 109, 46, 100, 114, 105, 112, 109, 105, 115, 115, 111, 117, 114, 105, 46, 114, 101, 102, 114, 101, 115, 104, 101, 100, 0, 2, 1, 16, 0, 56, 0, 0, 0, 0, 0, 0, 0, 0, 0, 0, 0, 255, 255, 255, 255, 0, 0, 0, 0, 20, 0, 20, 0, 1, 0, 0, 0, 0, 0, 0, 0, 255, 255, 255, 255, 1, 0, 0, 0, 2, 0, 0, 0, 8, 0, 0, 3, 2, 0, 0, 0]"

definition sample_pool :: axml_strings where
  "sample_pool = \<lparr>x_base = 8, x_size = 90, x_count = 3, x_flags = 0x100, x_start = 40, x_header = 28\<rparr>"

lemma axml_reads:
  "length sample_axml = 154" "rd16 sample_axml 0 = Some 3" "rd16 sample_axml 2 = Some 8" "rd32 sample_axml 4 = Some 154"
  "rd16 sample_axml 8 = Some 1" "rd16 sample_axml 10 = Some 28" "rd32 sample_axml 12 = Some 90" "rd32 sample_axml 16 = Some 3"
  "rd32 sample_axml 24 = Some 0x100" "rd32 sample_axml 28 = Some 40"
  "rd32 sample_axml 36 = Some 0" "rd32 sample_axml 40 = Some 11" "rd32 sample_axml 44 = Some 21"
  "rd8 sample_axml 48 = Some 8" "rd8 sample_axml 49 = Some 8" "rd8 sample_axml 59 = Some 7" "rd8 sample_axml 60 = Some 7"
  "rd8 sample_axml 69 = Some 26" "rd8 sample_axml 70 = Some 26"
  "rd16 sample_axml 98 = Some 0x102" "rd16 sample_axml 100 = Some 16" "rd32 sample_axml 102 = Some 56"
  "rd32 sample_axml 118 = Some 0" "rd16 sample_axml 122 = Some 20" "rd16 sample_axml 124 = Some 20" "rd16 sample_axml 126 = Some 1"
  "rd32 sample_axml 138 = Some 1" "rd32 sample_axml 142 = Some 2" "rd8 sample_axml 149 = Some 3" "rd32 sample_axml 150 = Some 2"
  by (simp_all add: rd8_def rd16_def rd32_def sample_axml_def)

definition chars :: "string \<Rightarrow> byte list" where "chars s = map of_char s"

lemma axml_texts:
  "copy_out sample_axml 50 8 = Some (chars ''manifest'')" "copy_out sample_axml 61 7 = Some (chars ''package'')"
  "copy_out sample_axml 71 26 = Some (chars GAME_PACKAGE)"
  by (simp_all add: copy_out_def sample_axml_def chars_def GAME_PACKAGE_def)

lemma axml_names:
  "axml_string sample_axml sample_pool 0 64 = Some (True, chars ''manifest'')"
  "axml_string sample_axml sample_pool 1 64 = Some (True, chars ''package'')"
  "axml_string sample_axml sample_pool 2 128 = Some (True, chars GAME_PACKAGE)"
  by (simp_all add: axml_string_def sample_pool_def room_def axml_u8len_def axml_reads axml_texts)

lemma cstr_chars: "cstr (chars ''manifest'') = ''manifest''" "cstr (chars ''package'') = ''package''"
  by code_simp+

lemma cstr_package: "cstr (chars GAME_PACKAGE @ 0 # r) = GAME_PACKAGE"
proof -
  have "list_all (\<lambda>b. b \<noteq> 0) (chars GAME_PACKAGE) \<and> map (\<lambda>b. char_of (unat b)) (chars GAME_PACKAGE) = GAME_PACKAGE" by code_simp
  then show ?thesis by (simp add: cstr_def takeWhile_append2 list_all_iff)
qed

lemma axml_chunk_pool: "chunk sample_axml 8 None m = Some (Some (Some sample_pool, m, 90))"
  by (simp add: chunk_def axml_reads sample_pool_def)

lemma axml_chunk_element:
  "chunk sample_axml 98 (Some sample_pool) m = Some (Some (Some sample_pool, m\<lparr>package := store (package m) (True, chars GAME_PACKAGE)\<rparr>, 56))"
  by (simp add: chunk_def start_element_def attribute_def axml_attr_string_def axml_reads axml_names axml_names(2) [unfolded One_nat_def] room_def cstr_chars Let_def upt_rec)

lemma axml_parse:
  assumes "length (package m) = 128"
  shows "\<exists>m'. parse_android_manifest (Some sample_axml) m = Some (True, m') \<and> cstr (manifest.package m') = GAME_PACKAGE \<and> manifest.package m' ! 0 \<noteq> 0"
proof -
  define n where "n = reset_manifest m"
  define p where "p = store (package n) (True, chars GAME_PACKAGE)"
  have c: "chunks sample_axml 8 None n = Some (n\<lparr>package := p\<rparr>)"
    by (simp add: chunks.simps [of _ 8] chunks.simps [of _ 98] chunks.simps [of _ 154] axml_chunk_pool axml_chunk_element axml_reads p_def)
  have "\<exists>r. p = chars GAME_PACKAGE @ 0 # r" 
    using assms by (simp add: p_def n_def store_def blit_def reset_manifest_def chars_def GAME_PACKAGE_def)
  then obtain r where "p = chars GAME_PACKAGE @ 0 # r" by blast
  then have "cstr p = GAME_PACKAGE" "p ! 0 \<noteq> 0" using cstr_package by simp_all (simp add: chars_def GAME_PACKAGE_def)
  then show ?thesis using c by (simp add: parse_android_manifest_def axml_reads n_def)
qed

theorem manifest_parser_safe_witness:
  "manifest_ok no_manifest \<and>
   (\<exists>m. parse_android_manifest (Some sample_axml) no_manifest = Some (True, m) \<and> manifest_ok m \<and> cstr (manifest.package m) = GAME_PACKAGE)"
proof -
  have m: "manifest_ok no_manifest" by (simp add: manifest_ok_def no_manifest_def buffer_ok_def)
  have "length (manifest.package no_manifest) = 128" by (simp add: no_manifest_def)
  then show ?thesis using m axml_parse manifest_parser_safe [OF m, of "Some sample_axml"] by fastforce
qed

end
