(* ===== verification/InstallerProps.thy ===== *)
theory InstallerProps
  imports Installer AxmlProps
begin

text \<open>What the installer promises: which files it touches, when the archive is removed, and that it ends.\<close>

section \<open>Regions\<close>

definition in_root :: "string \<Rightarrow> bool" where "in_root p \<longleftrightarrow> starts_with (DATA_ROOT @ ''/'') p"
definition in_cache :: "string \<Rightarrow> bool" where "in_cache p \<longleftrightarrow> starts_with (DATA_ROOT @ ''/files/'') p"

abbreviation only_cache :: "world \<Rightarrow> world \<Rightarrow> bool" where "only_cache \<equiv> only (Collect in_cache)"
abbreviation only_root :: "world \<Rightarrow> world \<Rightarrow> bool" where "only_root \<equiv> only (Collect in_root)"

lemma region_append: "in_root p \<Longrightarrow> in_root (p @ r)" "in_cache p \<Longrightarrow> in_cache (p @ r)"
  by (auto simp: in_root_def in_cache_def starts_with_append)

lemma cache_in_root: "in_cache p \<Longrightarrow> in_root p"
  by (auto simp: in_root_def in_cache_def starts_with_append)

lemma apk_outside: "\<not> in_root INSTALL_APK"
  by (simp add: in_root_def INSTALL_APK_def DATA_ROOT_def)

lemma root_paths: "in_root (DATA_ROOT @ ''/'' @ r)"
  by (simp add: in_root_def starts_with_append)

lemma not_cache:
  "\<not> in_cache INSTALL_MARKER" "\<not> in_cache manifest_path" "\<not> in_cache INSTALL_APK" "f \<in> set runtime_files \<Longrightarrow> \<not> in_cache f"
  by (auto simp: in_cache_def INSTALL_MARKER_def manifest_path_def INSTALL_APK_def runtime_files_def
      LIB_MAIN_def LIB_UNITY_def LIB_IL2CPP_def DATA_ROOT_def)

lemma only_paths: "only ps w w' \<Longrightarrow> p \<notin> ps \<Longrightarrow> fs w' p = fs w p"
  by (simp add: only_def)

lemma nonempty_cong: "fs w' p = fs w p \<Longrightarrow> file_exists_nonempty w' p = file_exists_nonempty w p"
  by (simp add: file_exists_nonempty_def)

section \<open>Single operations\<close>

lemma attempt_only: "attempt w = (ok, w') \<Longrightarrow> fs w' = fs w"
  by (rule attempt_fs)

lemma h_open_read_fs: "h_open_read p w = (c, w') \<Longrightarrow> fs w' = fs w \<and> (\<forall>d. c = Some d \<longrightarrow> fs w p = Some d)"
  by (auto simp: h_open_read_def attempt_def split: if_splits)

lemma and_then_attempts: "and_then attempt attempt w = (ok, w') \<Longrightarrow> fs w' = fs w"
  by (auto simp: and_then_def attempt_def split: if_splits)

lemma h_remove_only: "only {p} w (snd (h_remove p w))"
  using h_remove_effect [of p w] by simp

lemma replace_file_effect:
  assumes "replace_file tmp dst w = (ok, w')" and "tmp \<noteq> dst"
  shows "only {tmp, dst} w w' \<and> (ok \<longrightarrow> fs w' dst = fs w tmp)"
proof -
  obtain b1 w1 where r: "h_remove dst w = (b1, w1)" by fastforce
  obtain b2 w2 where n: "h_rename tmp dst w1 = (b2, w2)" by fastforce
  note R = h_remove_fs [OF r] and N = h_rename_fs [OF n]
  have "only {tmp} w2 (snd (h_remove tmp w2))" by (rule h_remove_only)
  then show ?thesis using assms R N by (cases b2) (auto simp: replace_file_def r n only_def)
qed

lemma appends_copy_chunks: "appends tmp (drop pos c) (copy_chunks tmp c pos)"
proof (induction "length c - pos" arbitrary: pos rule: less_induct)
  case less
  let ?got = "take ZIP_IO_BYTES (drop pos c)"
  have one: "appends tmp ?got (\<lambda>w. if ?got \<noteq> [] then h_write tmp ?got w else (True, w))"
    using appends_write [of tmp ?got] by (auto simp: appends_def)
  show ?case
  proof (cases "length ?got < ZIP_IO_BYTES")
    case True
    then have "?got = drop pos c" by (simp add: min_def split: if_splits)
    moreover have "copy_chunks tmp c pos = and_then attempt (\<lambda>w. if ?got \<noteq> [] then h_write tmp ?got w else (True, w))"
      using True by (intro ext, subst copy_chunks.simps) (auto simp: and_then_def Let_def prod_eq_iff split: prod.splits)
    ultimately show ?thesis using appends_then [OF appends_attempt one] by simp
  next
    case False
    then have len: "ZIP_IO_BYTES \<le> length c - pos" by simp
    have e: "copy_chunks tmp c pos = and_then attempt (and_then (\<lambda>w. if ?got \<noteq> [] then h_write tmp ?got w else (True, w))
        (copy_chunks tmp c (pos + ZIP_IO_BYTES)))"
      using False by (intro ext, subst copy_chunks.simps) (auto simp: and_then_def Let_def split: prod.splits)
    have "appends tmp (drop (pos + ZIP_IO_BYTES) c) (copy_chunks tmp c (pos + ZIP_IO_BYTES))"
      by (rule less) (use len in \<open>simp add: ZIP_IO_BYTES_def\<close>)
    then have "appends tmp ([] @ ?got @ drop (pos + ZIP_IO_BYTES) c) (copy_chunks tmp c pos)"
      unfolding e by (intro appends_then appends_attempt one)
    moreover have "?got @ drop (pos + ZIP_IO_BYTES) c = drop pos c" by (metis append_take_drop_id drop_drop add.commute)
    ultimately show ?thesis by simp
  qed
qed

text \<open>A temporary file that is made, filled by \<open>body\<close>, closed and moved.\<close>

lemma fill_and_replace:
  assumes b: "appends tmp d body" and ne: "tmp \<noteq> dst"
    and cr: "h_create tmp w1 = (True, w2)" and w1: "fs w1 = fs w"
    and e: "(case body w2 of (ok, w3) \<Rightarrow> (case h_flush tmp w3 of
        (cl, w4) \<Rightarrow> if \<not> (ok \<and> cl) then (False, snd (h_remove tmp w4)) else replace_file tmp dst w4)) = (ok, w')"
  shows "only {tmp, dst} w w' \<and> (ok \<longrightarrow> fs w' dst = Some d)"
proof -
  obtain o3 w3 where b3: "body w2 = (o3, w3)" by fastforce
  obtain o4 w4 where f4: "h_flush tmp w3 = (o4, w4)" by fastforce
  note C = h_create_fs [OF cr] and B = appendsD [OF b b3] and F = appendsD [OF appends_flush f4]
  have o4: "only {tmp} w w4" using C w1 B(1) F(1) by (auto simp: only_def)
  have t4: "o3 \<Longrightarrow> o4 \<Longrightarrow> fs w4 tmp = Some d" using C B(4) [of "[]"] F(4) [of d] by simp
  show ?thesis
  proof (cases "o3 \<and> o4")
    case True
    then have r: "replace_file tmp dst w4 = (ok, w')" using e b3 f4 by simp
    show ?thesis using replace_file_effect [OF r ne] o4 t4 True by (auto simp: only_def)
  next
    case False
    then have "\<not> ok" "w' = snd (h_remove tmp w4)" using e b3 f4 by auto
    then show ?thesis using h_remove_only [of tmp w4] o4 by (auto simp: only_def)
  qed
qed

lemma copy_file_effect:
  assumes "copy_file_atomic src dst w = (ok, w')"
  shows "only {dst @ ''.tmp'', dst} w w' \<and> (ok \<longrightarrow> fs w' dst = fs w src \<and> fs w src \<noteq> None)"
proof -
  obtain o1 w1 where c1: "create_parent_directories dst w = (o1, w1)" by fastforce
  obtain c w2 where c2: "h_open_read src w1 = (c, w2)" by fastforce
  obtain o3 w3 where c3: "h_create (dst @ ''.tmp'') w2 = (o3, w3)" by fastforce
  note f1 = create_parents_fs [OF c1] and f2 = h_open_read_fs [OF c2] and f3 = h_create_fs [OF c3]
  show ?thesis
  proof (cases "o1 \<and> (\<exists>d. c = Some d) \<and> \<not> PATH_MAX + 5 \<le> length (dst @ ''.tmp'') \<and> o3")
    case False
    then show ?thesis using assms c1 c2 c3 f1 f2 f3
      by (cases o1; cases c; cases o3) (auto simp: copy_file_atomic_def Let_def only_def split: if_splits)
  next
    case True
    then obtain d where d: "c = Some d" by blast
    have "appends (dst @ ''.tmp'') ([] @ drop 0 d) (and_then attempt (copy_chunks (dst @ ''.tmp'') d 0))"
      by (intro appends_then appends_attempt appends_copy_chunks)
    then have b: "appends (dst @ ''.tmp'') d (and_then attempt (copy_chunks (dst @ ''.tmp'') d 0))" by simp
    have "h_create (dst @ ''.tmp'') w2 = (True, w3)" "fs w2 = fs w" using c3 True f1 f2 by simp_all
    moreover have "(case and_then attempt (copy_chunks (dst @ ''.tmp'') d 0) w3 of (ok, w3) \<Rightarrow> (case h_flush (dst @ ''.tmp'') w3 of
        (cl, w4) \<Rightarrow> if \<not> (ok \<and> cl) then (False, snd (h_remove (dst @ ''.tmp'') w4)) else replace_file (dst @ ''.tmp'') dst w4)) = (ok, w')"
      using assms True d c1 c2 c3 by (simp add: copy_file_atomic_def Let_def)
    ultimately have "only {dst @ ''.tmp'', dst} w w' \<and> (ok \<longrightarrow> fs w' dst = Some d)"
      using fill_and_replace [OF b, of dst w2 w3 w ok w'] by simp
    then show ?thesis using f1 f2 d by auto
  qed
qed

lemma write_small_effect:
  assumes "write_small rm dst body w = (ok, w')" and "appends (dst @ ''.tmp'') d body"
  shows "only {dst @ ''.tmp'', dst} w w' \<and> (ok \<longrightarrow> fs w' dst = Some d)"
proof -
  obtain o1 w1 where c1: "create_parent_directories dst w = (o1, w1)" by fastforce
  obtain o3 w3 where c3: "h_create (dst @ ''.tmp'') w1 = (o3, w3)" by fastforce
  note f1 = create_parents_fs [OF c1] and f3 = h_create_fs [OF c3]
  show ?thesis
  proof (cases "o1 \<and> \<not> PATH_MAX + 5 \<le> length (dst @ ''.tmp'') \<and> o3")
    case False
    then show ?thesis using assms(1) c1 c3 f1 f3 h_remove_only [of "dst @ ''.tmp''" w3]
      by (cases o1; cases o3) (auto simp: write_small_def Let_def only_def split: if_splits)
  next
    case True
    then have "h_create (dst @ ''.tmp'') w1 = (True, w3)" using c3 by simp
    moreover have "(case body w3 of (ok, w3) \<Rightarrow> (case h_flush (dst @ ''.tmp'') w3 of
        (cl, w4) \<Rightarrow> if \<not> (ok \<and> cl) then (False, snd (h_remove (dst @ ''.tmp'') w4)) else replace_file (dst @ ''.tmp'') dst w4)) = (ok, w')"
      using assms(1) True c1 c3 by (simp add: write_small_def Let_def)
    ultimately show ?thesis using fill_and_replace [OF assms(2), of dst w1 w3 w ok w'] f1 by simp
  qed
qed

end
