(* ===== verification/InstallRun.thy ===== *)
theory InstallRun
  imports InstallerProps
begin

text \<open>
  The whole run of the installer: each step changes only its own files, and the archive is removed
  only from behind a complete installation.
\<close>

section \<open>Visits\<close>

lemma zip_visit_keeps:
  assumes "zip_visit z v n p s = Some (ok, s')" and "I s"
    and "\<And>e s ok s'. v e s = Some (ok, s') \<Longrightarrow> I s \<Longrightarrow> I s'"
  shows "I s'"
  using assms(1,2)
proof (induction n arbitrary: p s)
  case (Suc n)
  show ?case
  proof (cases "read_entry z p")
    case None
    then show ?thesis using Suc.prems by simp
  next
    case (Some x)
    obtain e q where x: "read_entry z p = Some (e, q)" using Some by (cases x) simp
    then obtain o1 s1 where v: "v e s = Some (o1, s1)" using Suc.prems(1) by (auto split: option.splits)
    have s1: "I s1" by (rule assms(3) [OF v Suc.prems(2)])
    show ?thesis using Suc.prems(1) Suc.IH [OF _ s1] s1 x v by (cases o1) auto
  qed
qed simp

definition tools_ok :: "'z tools \<Rightarrow> bool" where
  "tools_ok T \<longleftrightarrow> crc_chain (t_crc T) \<and> length (t_info T) = CREDITS_NEW_CBI_SIZE \<and> length (t_block T) = CREDITS_NEW_BLOCK_SIZE"

lemma archive_of_ok: "archive_ok (archive_of T c)"
  by (auto simp: archive_ok_def archive_of_def)

lemma open_apk_effect: "open_apk T w = (r, w') \<Longrightarrow> fs w' = fs w \<and> (\<forall>z n cd. r = Some (z, n, cd) \<longrightarrow> archive_ok z)"
  using archive_of_ok by (auto simp: open_apk_def dest!: h_open_read_fs split: prod.splits option.splits)

section \<open>The manifest\<close>

abbreviation manifest_files :: "string set" where "manifest_files \<equiv> {manifest_path @ ''.tmp'', manifest_path}"

lemma manifest_visitor_only:
  assumes "tools_ok T" and "archive_ok z" and "manifest_visitor T z e w = Some (ok, w')"
  shows "only manifest_files w w'"
proof (cases "z_name e = ''AndroidManifest.xml''")
  case True
  then have "extract_entry z (t_crc T) (t_infl T) (t_init T) e manifest_path w = Some (ok, w')"
    using assms(3) by (simp add: manifest_visitor_def)
  from extract_entry_effect [OF this _ assms(2)] show ?thesis using assms(1) by (simp add: tools_ok_def)
next
  case False
  then show ?thesis using assms(3) by (simp add: manifest_visitor_def)
qed

lemma load_manifest_only:
  assumes "tools_ok T" and "load_manifest_metadata T m w = Some (m', w')"
  shows "only manifest_files w w'"
proof -
  obtain w1 where w1: "only manifest_files w w1"
    and r: "(case h_open_read manifest_path w1 of (f, w2) \<Rightarrow> do { r \<leftarrow> parse_android_manifest f m; Some (snd r, w2) }) = Some (m', w')"
  proof (cases "\<not> file_exists_nonempty w manifest_path \<and> file_exists_nonempty w INSTALL_APK")
    case False
    show thesis by (rule that [of w]) (use assms(2) False in \<open>auto simp: load_manifest_metadata_def\<close>)
  next
    case True
    obtain a w0 where o: "open_apk T w = (a, w0)" by fastforce
    note O = open_apk_effect [OF o]
    show thesis
    proof (cases a)
      case None
      show thesis by (rule that [of w0]) (use assms(2) True o O None in \<open>auto simp: load_manifest_metadata_def only_def\<close>)
    next
      case (Some x)
      obtain z n cd where x: "a = Some (z, n, cd)" using Some by (cases x) simp
      obtain ok w1 where v: "zip_visit z (manifest_visitor T z) n cd w0 = Some (ok, w1)"
        using assms(2) True o x by (auto simp: load_manifest_metadata_def bind_eq_Some_conv split: option.splits)
      have "only manifest_files w w1"
        by (rule zip_visit_keeps [OF v, where I = "only manifest_files w"])
          (use O x manifest_visitor_only [OF assms(1)] only_trans in \<open>auto simp: only_def\<close>)
      then show thesis by (rule that) (use assms(2) True o x v in \<open>auto simp: load_manifest_metadata_def\<close>)
    qed
  qed
  obtain f w2 where f: "h_open_read manifest_path w1 = (f, w2)" by fastforce
  then have "w' = w2" using r by (auto simp: bind_eq_Some_conv)
  then show ?thesis using w1 h_open_read_fs [OF f] by (auto simp: only_def)
qed

section \<open>The caches\<close>

definition separate_targets :: "(string \<times> string) list \<Rightarrow> bool" where
  "separate_targets ps \<longleftrightarrow> distinct (map snd ps) \<and>
     (\<forall>(a, b) \<in> set ps. \<forall>(c, d) \<in> set ps. a \<noteq> d \<and> a \<noteq> d @ ''.tmp'' \<and> b \<noteq> d @ ''.tmp'')"

definition targets_of :: "(string \<times> string) list \<Rightarrow> string set" where
  "targets_of ps = (\<Union>(a, b) \<in> set ps. {b @ ''.tmp'', b})"

lemma same_size_cong: "fs w' a = fs w a \<Longrightarrow> fs w' b = fs w b \<Longrightarrow> same_size w' a b = same_size w a b"
  by (simp add: same_size_def)

lemma copy_all_effect:
  assumes "copy_all ps w = (ok, w')" and "separate_targets ps"
  shows "only (targets_of ps) w w' \<and> (ok \<longrightarrow> (\<forall>(a, b) \<in> set ps. same_size w' a b))"
  using assms
proof (induction ps arbitrary: w)
  case Nil
  then show ?case by simp
next
  case (Cons x ps)
  obtain a b where x: "x = (a, b)" by fastforce
  obtain o1 w1 where c: "copy_file_atomic a b w = (o1, w1)" by fastforce
  note C = copy_file_effect [OF c]
  have s: "separate_targets ps" using Cons.prems(2) by (auto simp: separate_targets_def)
  have o: "only (targets_of (x # ps)) w w1" using C by (rule_tac only_mono) (auto simp: targets_of_def x)
  show ?case
  proof (cases "file_exists_nonempty w a \<and> o1")
    case False
    then have "\<not> ok \<and> (w' = w \<or> w' = w1)" using Cons.prems(1) c by (auto simp: x split: if_splits)
    then show ?thesis using o by auto
  next
    case True
    then have r: "copy_all ps w1 = (ok, w')" using Cons.prems(1) c by (simp add: x)
    note R = Cons.IH [OF r s]
    have "only (targets_of (x # ps)) w1 w'" using R by (rule_tac only_mono) (auto simp: targets_of_def)
    then have o': "only (targets_of (x # ps)) w w'" using o only_trans by blast
    have ab: "a \<notin> {b @ ''.tmp'', b}" "a \<notin> targets_of ps" "b \<notin> targets_of ps"
      using Cons.prems(2) by (auto simp: separate_targets_def targets_of_def x image_iff)
    have "fs w' b = fs w a" "fs w' a = fs w a" using C R True ab by (auto simp: only_def)
    then have "same_size w' a b" using True by (auto simp: same_size_def file_exists_nonempty_def split: option.splits)
    then show ?thesis using o' R by (auto simp: x)
  qed
qed

lemma cache_files_separate: "separate_targets il2cpp_cache_files"
  unfolding separate_targets_def il2cpp_cache_files_def by (simp add: DATA_ROOT_def)

lemma cache_targets: "targets_of il2cpp_cache_files \<subseteq> Collect in_cache"
  by (auto simp: targets_of_def il2cpp_cache_files_def in_cache_def DATA_ROOT_def)

definition caches_good :: "world \<Rightarrow> bool" where
  "caches_good w \<longleftrightarrow> (\<forall>(a, b) \<in> set il2cpp_cache_files. same_size w a b) \<and> same_size w ENGLISH_DST ENGLISH_SRC"

text \<open>The files the caches are made of, and the caches.\<close>

definition cache_paths :: "string set" where
  "cache_paths = set (map fst il2cpp_cache_files) \<union> set (map snd il2cpp_cache_files) \<union> {ENGLISH_SRC, ENGLISH_DST}"

lemma il2cpp_good_cong:
  assumes "\<And>p. p \<in> cache_paths \<Longrightarrow> fs w' p = fs w p" and "(a, b) \<in> set il2cpp_cache_files"
  shows "same_size w' a b = same_size w a b"
proof -
  have "a \<in> fst ` set il2cpp_cache_files" "b \<in> snd ` set il2cpp_cache_files" 
    using imageI [OF assms(2), of fst] imageI [OF assms(2), of snd] by simp_all
  then have "a \<in> cache_paths" "b \<in> cache_paths" by (simp_all add: cache_paths_def)
  then show ?thesis using assms(1) by (intro same_size_cong) blast+
qed

lemma caches_good_cong:
  assumes "\<And>p. p \<in> cache_paths \<Longrightarrow> fs w' p = fs w p"
  shows "caches_good w' = caches_good w"
proof -
  have "same_size w' ENGLISH_DST ENGLISH_SRC = same_size w ENGLISH_DST ENGLISH_SRC"
    by (rule same_size_cong; rule assms) (simp_all add: cache_paths_def)
  then show ?thesis using il2cpp_good_cong [OF assms] by (auto simp: caches_good_def)
qed

lemma marker_in_cache: "in_cache IL2CPP_MARKER" "in_cache ENGLISH_DST"
  by (simp_all add: in_cache_def IL2CPP_MARKER_def ENGLISH_DST_def DATA_ROOT_def)

lemma disjoint_markers:
  "(a, b) \<in> set il2cpp_cache_files \<Longrightarrow> {a, b} \<inter> {IL2CPP_MARKER @ ''.tmp'', IL2CPP_MARKER, ENGLISH_DST @ ''.tmp'', ENGLISH_DST} = {}"
  by (auto simp: il2cpp_cache_files_def IL2CPP_MARKER_def ENGLISH_DST_def DATA_ROOT_def)

lemma cache_file_only: "only {q @ ''.tmp'', q} w w' \<Longrightarrow> in_cache q \<Longrightarrow> only_cache w w'"
  by (rule only_mono) (auto intro: region_append)

lemma prepare_il2cpp_effect:
  assumes "prepare_il2cpp_cache w = (ok, w')"
  shows "only_cache w w' \<and> (ok \<longrightarrow> (\<forall>(a, b) \<in> set il2cpp_cache_files. same_size w' a b))"
proof -
  obtain g w1 where g: "h_open_read GUID_PATH w = (g, w1)" by fastforce
  note G = h_open_read_fs [OF g]
  show ?thesis
  proof (cases "\<exists>guid. g = Some guid \<and> length guid = 36")
    case False
    then show ?thesis using assms g G by (cases g) (auto simp: prepare_il2cpp_cache_def only_def)
  next
    case True
    then obtain guid where guid: "g = Some guid" "length guid = 36" by blast
    obtain ready w2 where r: "il2cpp_marker_matches guid w1 = (ready, w2)" by fastforce
    then have f2: "fs w2 = fs w" using G by (auto simp: il2cpp_marker_matches_def dest: h_open_read_fs split: prod.splits)
    show ?thesis
    proof (cases "ready \<and> list_all (\<lambda>(a, b). same_size w2 a b) il2cpp_cache_files")
      case True
      then have "ok" "w' = w2" using assms g guid r by (auto simp: prepare_il2cpp_cache_def)
      then show ?thesis using True f2 by (simp add: list_all_iff only_def)
    next
      case nr: False
      obtain o3 w3 where c: "copy_all il2cpp_cache_files w2 = (o3, w3)" by fastforce
      note C = copy_all_effect [OF c cache_files_separate]
      have "only_cache w2 w3" using C only_mono [OF _ cache_targets] by blast
      then have c3: "only_cache w w3" using f2 by (simp add: only_def)
      show ?thesis
      proof (cases o3)
        case False
        then have "\<not> ok \<and> w' = w3" using assms g guid r nr c by (simp add: prepare_il2cpp_cache_def)
        then show ?thesis using c3 by simp
      next
        case True
        then have "write_small True IL2CPP_MARKER (h_write (IL2CPP_MARKER @ ''.tmp'') guid) w3 = (ok, w')"
          using assms g guid r nr c by (simp add: prepare_il2cpp_cache_def)
        from write_small_effect [OF this appends_write] have o: "only {IL2CPP_MARKER @ ''.tmp'', IL2CPP_MARKER} w3 w'" by blast
        have "same_size w' a b" if "(a, b) \<in> set il2cpp_cache_files" for a b
        proof -
          have "fs w' a = fs w3 a" "fs w' b = fs w3 b" using o disjoint_markers [OF that] by (auto simp: only_def)
          then have "same_size w' a b = same_size w3 a b" by (rule same_size_cong)
          then show ?thesis using C True that by blast
        qed
        then show ?thesis using only_trans [OF c3 cache_file_only [OF o marker_in_cache(1)]] by blast
      qed
    qed
  qed
qed

lemma seed_effect:
  assumes "seed_english_localization_cache w = (ok, w')"
  shows "only {ENGLISH_DST @ ''.tmp'', ENGLISH_DST} w w' \<and> (ok \<longrightarrow> same_size w' ENGLISH_DST ENGLISH_SRC)"
proof (cases "\<not> file_exists_nonempty w ENGLISH_SRC \<or> same_size w ENGLISH_SRC ENGLISH_DST")
  case True
  then show ?thesis using assms
    by (auto simp: seed_english_localization_cache_def same_size_def split: if_splits option.splits)
next
  case False
  obtain o1 w1 where c: "copy_file_atomic ENGLISH_SRC ENGLISH_DST w = (o1, w1)" by fastforce
  then have "w' = w1 \<and> (ok \<longrightarrow> same_size w1 ENGLISH_DST ENGLISH_SRC)"
    using False assms by (auto simp: seed_english_localization_cache_def split: bool.splits)
  then show ?thesis using copy_file_effect [OF c] by simp
qed

lemma prepare_caches_effect:
  assumes "prepare_caches w = (ok, w')"
  shows "only_cache w w' \<and> (ok \<longrightarrow> caches_good w')"
proof -
  obtain o1 w1 where p: "prepare_il2cpp_cache w = (o1, w1)" by fastforce
  note P = prepare_il2cpp_effect [OF p]
  show ?thesis
  proof (cases o1)
    case False
    then show ?thesis using assms p P by (simp add: prepare_caches_def and_then_def)
  next
    case True
    then have "seed_english_localization_cache w1 = (ok, w')" using assms p by (simp add: prepare_caches_def and_then_def)
    note S = seed_effect [OF this]
    have "same_size w' a b" if "(a, b) \<in> set il2cpp_cache_files" for a b
    proof -
      have "fs w' a = fs w1 a" "fs w' b = fs w1 b" using S disjoint_markers [OF that] by (auto simp: only_def)
      then have "same_size w' a b = same_size w1 a b" by (rule same_size_cong)
      then show ?thesis using P True that by blast
    qed
    then show ?thesis
      using S P only_trans [of "Collect in_cache" w w1 w'] cache_file_only [of ENGLISH_DST w1 w'] marker_in_cache
      by (auto simp: caches_good_def)
  qed
qed

end
