(* ===== verification/InstallSafe.thy ===== *)
theory InstallSafe
  imports InstallRun
begin

text \<open>What a run of the installer changes and guarantees, from its steps.\<close>

section \<open>The last steps\<close>

definition data_there :: "world \<Rightarrow> bool" where
  "data_there w \<longleftrightarrow> file_exists_nonempty w data_path \<or> file_exists_nonempty w data_bak"

text \<open>The game can be started: all its files are there, and the caches agree with them.\<close>

definition playable :: "world \<Rightarrow> bool" where
  "playable w \<longleftrightarrow> caches_good w \<and> data_there w \<and> (\<forall>f \<in> set runtime_files. f \<noteq> data_path \<longrightarrow> file_exists_nonempty w f)"

definition installed :: "world \<Rightarrow> bool" where
  "installed w \<longleftrightarrow> file_exists_nonempty w INSTALL_MARKER \<and> runtime_files_present w \<and> file_exists_nonempty w manifest_path"

abbreviation marker_files :: "string set" where "marker_files \<equiv> {INSTALL_MARKER @ ''.tmp'', INSTALL_MARKER}"
abbreviation data_files :: "string set" where "data_files \<equiv> {data_path, data_tmp, data_bak}"

lemmas fixed_paths = INSTALL_MARKER_def manifest_path_def INSTALL_APK_def data_path_def data_tmp_def data_bak_def DATA_ROOT_def

lemma runtime_untouched:
  assumes "f \<in> set runtime_files"
  shows "f \<notin> manifest_files" "f \<notin> {data_tmp, data_bak, INSTALL_APK}" "f \<notin> marker_files" "\<not> in_cache f"
  using assms not_cache by (auto simp: runtime_files_def LIB_MAIN_def LIB_UNITY_def LIB_IL2CPP_def fixed_paths)

lemma data_in_runtime: "data_path \<in> set runtime_files"
  by (simp add: runtime_files_def data_path_def)

lemma bak_untouched: "data_bak \<notin> manifest_files" "data_bak \<notin> marker_files" "data_bak \<noteq> INSTALL_APK" "\<not> in_cache data_bak"
  by (auto simp: fixed_paths in_cache_def)

lemma marker_untouched: "INSTALL_MARKER \<notin> manifest_files" "INSTALL_MARKER \<notin> data_files" "INSTALL_MARKER \<noteq> INSTALL_APK"
  by (auto simp: fixed_paths)

lemma cache_paths_untouched: "p \<in> cache_paths \<Longrightarrow> p \<notin> data_files \<and> p \<notin> marker_files \<and> p \<noteq> INSTALL_APK"
  by (auto simp: cache_paths_def il2cpp_cache_files_def ENGLISH_SRC_def ENGLISH_DST_def fixed_paths)

lemma files_in_root: "manifest_files \<subseteq> Collect in_root" "data_files \<subseteq> Collect in_root" "marker_files \<subseteq> Collect in_root"
    "Collect in_cache \<subseteq> Collect in_root" "probe_path \<in> Collect in_root"
  using cache_in_root by (auto simp: in_root_def fixed_paths probe_path_def)

lemma credits_step:
  assumes "tools_ok T"
  shows "only data_files w (credits T w) \<and> (file_exists_nonempty w data_path \<longrightarrow> data_there (credits T w))"
proof (cases "\<exists>c. fs w data_path = Some c \<and> length c = CREDITS_OLD_TOTAL")
  case False
  then have "credits T w = w"
    by (auto simp: credits_def credits_patch_apply_def split: option.splits)
  then show ?thesis by (simp add: data_there_def)
next
  case True
  then obtain c where c: "fs w data_path = Some c" "length c = CREDITS_OLD_TOTAL" by blast
  have l: "length (t_info T) = CREDITS_NEW_CBI_SIZE" "length (t_block T) = CREDITS_NEW_BLOCK_SIZE"
    using assms by (simp_all add: tools_ok_def)
  let ?d = "patched (t_info T) (t_block T) c"
  note C = credits_effect [OF c l, folded credits_def]
  have "c \<noteq> []" using c(2) by (auto simp: CREDITS_OLD_TOTAL_def)
  moreover have "?d \<noteq> []" using C by (auto simp: CREDITS_NEW_TOTAL_def)
  ultimately have "data_there (credits T w)" using C by (auto simp: survives_def data_there_def file_exists_nonempty_def)
  then show ?thesis using C by blast
qed

lemma playable_keeps:
  assumes "playable w" and "only (marker_files \<union> {INSTALL_APK}) w w'"
  shows "playable w'"
proof -
  have same: "fs w' p = fs w p" if "p \<notin> marker_files \<union> {INSTALL_APK}" for p using assms(2) that by (auto simp: only_def)
  have "caches_good w' = caches_good w" by (rule caches_good_cong) (use same cache_paths_untouched in auto)
  moreover have "file_exists_nonempty w' f = file_exists_nonempty w f" if "f \<in> set runtime_files \<union> {data_bak}" for f
    by (rule nonempty_cong) (use same that runtime_untouched bak_untouched in auto)
  ultimately show ?thesis using assms(1) data_in_runtime by (auto simp: playable_def data_there_def)
qed

lemma playable_credits:
  assumes "tools_ok T" and "caches_good w" and "runtime_files_present w"
  shows "playable (credits T w)"
proof -
  note C = credits_step [OF assms(1), of w]
  have same: "fs (credits T w) p = fs w p" if "p \<notin> data_files" for p using C that by (auto simp: only_def)
  have "caches_good (credits T w) = caches_good w" by (rule caches_good_cong) (use same cache_paths_untouched in auto)
  moreover have "file_exists_nonempty (credits T w) f" if "f \<in> set runtime_files" "f \<noteq> data_path" for f
  proof -
    have "fs (credits T w) f = fs w f" by (rule same) (use that runtime_untouched in auto)
    moreover have "file_exists_nonempty w f" using that assms(3) by (simp add: runtime_files_present_def list_all_iff)
    ultimately show ?thesis using nonempty_cong by blast
  qed
  moreover have "file_exists_nonempty w data_path" using assms(3) data_in_runtime by (simp add: runtime_files_present_def list_all_iff)
  ultimately show ?thesis using C assms(2) by (simp add: playable_def)
qed

lemma runtime_keeps:
  assumes "runtime_files_present w" and "only (manifest_files \<union> Collect in_cache) w w'"
  shows "runtime_files_present w'"
proof -
  have "file_exists_nonempty w' f = file_exists_nonempty w f" if "f \<in> set runtime_files" for f
    by (rule nonempty_cong) (use assms(2) runtime_untouched [OF that] in \<open>auto simp: only_def\<close>)
  then show ?thesis using assms(1) by (simp add: runtime_files_present_def list_all_iff)
qed

lemma marker_step:
  assumes "write_runtime_install_marker n w = (ok, w')"
  shows "only marker_files w w' \<and> (ok \<longrightarrow> file_exists_nonempty w' INSTALL_MARKER)"
proof -
  have "appends (INSTALL_MARKER @ ''.tmp'') (marker_text n @ [])
      (and_then (h_write (INSTALL_MARKER @ ''.tmp'') (marker_text n)) (h_flush (INSTALL_MARKER @ ''.tmp'')))"
    by (intro appends_then appends_write appends_flush)
  from write_small_effect [OF assms [unfolded write_runtime_install_marker_def] this] show ?thesis
    by (auto simp: file_exists_nonempty_def marker_text_def bytes_of_def)
qed

lemma remove_media_step:
  shows "only {INSTALL_APK} w (remove_install_media_if_safe w) \<and>
    (fs (remove_install_media_if_safe w) INSTALL_APK \<noteq> fs w INSTALL_APK \<longrightarrow>
       fs (remove_install_media_if_safe w) INSTALL_APK = None \<and> installed (remove_install_media_if_safe w))"
proof (cases "file_exists_nonempty w INSTALL_APK \<and> installed w")
  case False
  then have "remove_install_media_if_safe w = w" by (auto simp: remove_install_media_if_safe_def installed_def)
  then show ?thesis by simp
next
  case True
  let ?r = "remove_install_media_if_safe w"
  have r: "?r = snd (h_remove INSTALL_APK w)" using True by (simp add: remove_install_media_if_safe_def installed_def)
  obtain b w' where h: "h_remove INSTALL_APK w = (b, w')" by fastforce
  have o: "only {INSTALL_APK} w ?r" using h_remove_only [of INSTALL_APK w] by (simp add: r)
  have "file_exists_nonempty ?r f = file_exists_nonempty w f" if "f \<in> set runtime_files \<union> {INSTALL_MARKER, manifest_path}" for f
    by (rule nonempty_cong) (use o that runtime_untouched in \<open>auto simp: only_def INSTALL_MARKER_def manifest_path_def INSTALL_APK_def DATA_ROOT_def\<close>)
  then have "installed ?r" using True by (auto simp: installed_def runtime_files_present_def list_all_iff)
  then show ?thesis using o h_remove_fs [OF h] h r by (auto split: if_splits)
qed

section \<open>The whole run\<close>

definition run_ok :: "world \<Rightarrow> bool \<Rightarrow> manifest \<Rightarrow> world \<Rightarrow> bool" where
  "run_ok w ok m w' \<longleftrightarrow>
     (\<forall>p. fs w' p \<noteq> fs w p \<longrightarrow> in_root p \<or> (p = INSTALL_APK \<and> ok \<and> fs w' p = None \<and> installed w')) \<and>
     (ok \<longrightarrow> cstr (manifest.package m) = GAME_PACKAGE \<and> playable w' \<and> file_exists_nonempty w' INSTALL_MARKER)"

lemma run_refused: "only_root w w' \<Longrightarrow> run_ok w False m w'"
  by (auto simp: run_ok_def only_def)

lemma run_same: "fs w' = fs w \<Longrightarrow> run_ok w False m w'"
  by (simp add: run_ok_def)

lemma run_end:
  assumes "only_root w w1" and "playable w1" and "file_exists_nonempty w1 INSTALL_MARKER" and "validate_manifest_metadata m"
  shows "run_ok w True m (remove_install_media_if_safe w1)"
proof -
  let ?r = "remove_install_media_if_safe w1"
  note R = remove_media_step [of w1]
  have o: "only {INSTALL_APK} w1 ?r" using R by blast
  have "playable ?r" by (rule playable_keeps [OF assms(2)]) (use o in \<open>auto simp: only_def\<close>)
  moreover have "file_exists_nonempty ?r INSTALL_MARKER = file_exists_nonempty w1 INSTALL_MARKER"
    by (rule nonempty_cong) (use o marker_untouched in \<open>auto simp: only_def\<close>)
  moreover have "in_root p \<or> (p = INSTALL_APK \<and> fs ?r p = None \<and> installed ?r)" if d: "fs ?r p \<noteq> fs w p" for p
  proof (cases "p = INSTALL_APK")
    case True
    have "fs w1 p = fs w p" using assms(1) apk_outside True by (auto simp: only_def)
    then show ?thesis using R d True by auto
  next
    case False
    then show ?thesis using o assms(1) d by (auto simp: only_def)
  qed
  ultimately show ?thesis using assms(3,4) by (auto simp: run_ok_def validate_manifest_metadata_def)
qed

lemma visit_in_root: "changed_ok crc32 w w' \<Longrightarrow> only_root w w'"
proof -
  assume c: "changed_ok crc32 w w'"
  have "in_root t" if "install_entry_target n = Inr (Some (t, b))" for n t b
    using target_cases [OF that] root_paths by auto
  then show ?thesis using c region_append(1) by (auto simp: changed_ok_def only_def; metis)
qed

lemma root_steps:
  "only manifest_files w w' \<Longrightarrow> only_root w w'" "only_cache w w' \<Longrightarrow> only_root w w'"
  "only data_files w w' \<Longrightarrow> only_root w w'" "only marker_files w w' \<Longrightarrow> only_root w w'"
  using only_mono files_in_root by blast+

lemma later_run:
  assumes "tools_ok T" and m: "file_exists_nonempty w INSTALL_MARKER" and r: "runtime_files_present w"
    and e: "installer_prepare_game_files T m0 w = Some (ok, m', w')"
  shows "run_ok w ok m' w'"
proof -
  obtain m1 w1 where l: "load_manifest_metadata T m0 w = Some (m1, w1)"
    using m r e by (auto simp: installer_prepare_game_files_def bind_eq_Some_conv)
  note L = load_manifest_only [OF assms(1) l]
  show ?thesis
  proof (cases "validate_manifest_metadata m1")
    case False
    then show ?thesis using m r e l root_steps(1) [OF L] run_refused by (auto simp: installer_prepare_game_files_def)
  next
    case v: True
    obtain o2 w2 where p: "prepare_caches w1 = (o2, w2)" by fastforce
    note P = prepare_caches_effect [OF p]
    have o: "only_root w w2" using root_steps(1) [OF L] root_steps(2) P only_trans by blast
    show ?thesis
    proof (cases o2)
      case False
      then show ?thesis using m r e l v p o run_refused by (auto simp: installer_prepare_game_files_def)
    next
      case True
      then have res: "ok" "m' = m1" "w' = remove_install_media_if_safe (credits T w2)"
        using m r e l v p by (simp_all add: installer_prepare_game_files_def)
      have near: "only (manifest_files \<union> Collect in_cache) w w2" using L P True by (auto simp: only_def)
      have "runtime_files_present w2" by (rule runtime_keeps [OF r near])
      then have pl: "playable (credits T w2)" using playable_credits [OF assms(1)] P True by blast
      have "fs (credits T w2) INSTALL_MARKER = fs w INSTALL_MARKER"
        using near credits_step [OF assms(1), of w2] marker_untouched not_cache(1) by (auto simp: only_def)
      then have "file_exists_nonempty (credits T w2) INSTALL_MARKER" using m nonempty_cong by blast
      moreover have "only_root w (credits T w2)"
        using o root_steps(3) credits_step [OF assms(1), of w2] only_trans by blast
      ultimately show ?thesis using run_end pl v res by simp
    qed
  qed
qed

lemma first_run:
  assumes "tools_ok T" and "archive_ok z" and e: "first_install T z n cd m0 w = Some (ok, m', w')"
  shows "run_ok w ok m' w'"
proof -
  obtain rc st w1 where z: "zip_visit z (install_visitor z (t_crc T) (t_infl T) (t_init T)) n cd (no_files, w) = Some (rc, st, w1)"
    using e by (auto simp: first_install_def bind_eq_Some_conv)
  have o1: "only_root w w1" using visit_all [OF z _ assms(2)] assms(1) visit_in_root by (auto simp: tools_ok_def)
  show ?thesis
  proof (cases "\<not> rc \<or> \<not> runtime_files_present w1 \<or> \<not> all_noted st")
    case True
    then show ?thesis using e z o1 run_refused by (auto simp: first_install_def)
  next
    case g: False
    then obtain m2 w2 where l: "load_manifest_metadata T m0 w1 = Some (m2, w2)"
      using e z by (auto simp: first_install_def bind_eq_Some_conv)
    note L = load_manifest_only [OF assms(1) l]
    have o2: "only_root w w2" using o1 root_steps(1) [OF L] only_trans by blast
    show ?thesis
    proof (cases "\<not> validate_manifest_metadata m2 \<or> \<not> file_exists_nonempty w2 manifest_path")
      case True
      then show ?thesis using e z g l o2 run_refused by (auto simp: first_install_def)
    next
      case v: False
      obtain o3 w3 where p: "prepare_caches w2 = (o3, w3)" by fastforce
      note P = prepare_caches_effect [OF p]
      have o3: "only_root w w3" using o2 root_steps(2) P only_trans by blast
      obtain o4 w4 where k: "write_runtime_install_marker (files st) (credits T w3) = (o4, w4)" by fastforce
      note K = marker_step [OF k]
      have o4: "only_root w w4" using o3 root_steps(3,4) credits_step [OF assms(1), of w3] K only_trans by blast
      have r: "Some (ok, m', w') = (if \<not> o3 then Some (False, m2, w3) else if \<not> o4 then Some (False, m2, w4)
          else Some (True, m2, remove_install_media_if_safe w4))"
        using e z g l v p k by (cases o3; cases o4) (simp_all add: first_install_def)
      show ?thesis
      proof (cases "o3 \<and> o4")
        case False
        then show ?thesis using r o3 o4 run_refused by (auto split: if_splits)
      next
        case True
        have "only (manifest_files \<union> Collect in_cache) w1 w3" using L P by (auto simp: only_def)
        then have "runtime_files_present w3" using g runtime_keeps by blast
        then have "playable (credits T w3)" using playable_credits [OF assms(1)] P True by blast
        then have "playable w4" by (rule playable_keeps) (use K in \<open>auto simp: only_def\<close>)
        then show ?thesis using run_end [OF o4] K True v r by auto
      qed
    qed
  qed
qed

lemma probe_step:
  assumes "verify_install_location_writable w = (ok, w')"
  shows "only {probe_path} w w'"
proof -
  obtain o1 w1 where a: "and_then attempt attempt w = (o1, w1)" by fastforce
  obtain o2 w2 where c: "h_create probe_path w1 = (o2, w2)" by fastforce
  obtain o3 w3 where b: "and_then (h_write probe_path [0x5a]) (h_flush probe_path) w2 = (o3, w3)" by fastforce
  obtain o4 w4 where f: "h_flush probe_path w3 = (o4, w4)" by fastforce
  obtain o5 w5 where r: "h_remove probe_path w4 = (o5, w5)" by fastforce
  have ap: "appends probe_path ([0x5a] @ []) (and_then (h_write probe_path [0x5a]) (h_flush probe_path))"
    by (intro appends_then appends_write appends_flush)
  have "w' = w1 \<or> w' = w2 \<or> w' = w5"
    using assms a c b f r by (cases o1; cases o2) (auto simp: verify_install_location_writable_def)
  then show ?thesis
    using and_then_attempts [OF a] h_create_fs [OF c] appendsD(1) [OF ap b] appendsD(1) [OF appends_flush f] h_remove_fs [OF r]
    by (elim disjE) (auto simp: only_def split: if_splits)
qed

lemma preflight_step:
  assumes "installer_preflight T z n cd w = (ok, w')"
  shows "only_root w w'"
proof -
  obtain o1 w1 where v: "verify_install_location_writable w = (o1, w1)" by fastforce
  have "w' = w1" using assms v by (cases o1) (auto simp: installer_preflight_def split: option.splits)
  then show ?thesis using only_mono [OF probe_step [OF v]] files_in_root(5) by blast
qed

lemma run_after: "run_ok w1 ok m w' \<Longrightarrow> only_root w w1 \<Longrightarrow> run_ok w ok m w'"
  using apk_outside unfolding run_ok_def only_def mem_Collect_eq by metis


text \<open>A complete installation with the archive still there: everything agrees, and the archive goes.\<close>

definition sample_guid :: "byte list" where "sample_guid = replicate 36 65"

definition ready_world :: world where
  "ready_world = \<lparr>fs = (\<lambda>p. if p = INSTALL_APK then Some [1] else if p = manifest_path then Some sample_axml
     else if p = GUID_PATH \<or> p = IL2CPP_MARKER then Some sample_guid else Some [7]),
     fails = (\<lambda>_. False), torn = (\<lambda>_. []), clock = 0\<rparr>"

definition sample_tools :: "unit tools" where
  "sample_tools = \<lparr>t_crc = sum32, t_infl = (\<lambda>_ _ _. (Z_STREAM_END, [], [], ())), t_init = (),
     t_info = replicate CREDITS_NEW_CBI_SIZE 0, t_block = replicate CREDITS_NEW_BLOCK_SIZE 0,
     t_read = (\<lambda>_ _. True), t_space = None\<rparr>"

lemma sample_tools_ok: "tools_ok sample_tools"
  by (simp add: tools_ok_def sample_tools_def sum32_chain)

lemma ready_files: "fails ready_world k = False" "file_exists_nonempty (ready_world\<lparr>clock := n\<rparr>) p"
    "fs ready_world manifest_path = Some sample_axml" "fs ready_world GUID_PATH = Some sample_guid"
    "fs ready_world IL2CPP_MARKER = Some sample_guid" "fs ready_world INSTALL_APK = Some [1]"
    "fs ready_world data_path = Some [7]"
  by (simp_all add: ready_world_def file_exists_nonempty_def sample_guid_def sample_axml_def fixed_paths GUID_PATH_def IL2CPP_MARKER_def)

lemma ready_sizes: "(a, b) \<in> set il2cpp_cache_files \<union> {(ENGLISH_SRC, ENGLISH_DST)} \<Longrightarrow> same_size (ready_world\<lparr>clock := n\<rparr>) a b"
  by (auto simp: same_size_def ready_world_def il2cpp_cache_files_def ENGLISH_SRC_def ENGLISH_DST_def fixed_paths GUID_PATH_def IL2CPP_MARKER_def)

lemma ready_run:
  "\<exists>m w'. installer_prepare_game_files sample_tools no_manifest (ready_world\<lparr>clock := 0\<rparr>) = Some (True, m, w') \<and> fs w' INSTALL_APK = None"
proof -
  let ?w = "\<lambda>n. ready_world\<lparr>clock := n\<rparr>"
  have r: "runtime_files_present (?w n)" for n by (simp add: runtime_files_present_def list_all_iff ready_files)
  have h: "h_open_read p (?w n) = (fs (?w n) p, ?w (n + 1))" for p n by (simp add: h_open_read_def attempt_def ready_files)
  have "length (manifest.package no_manifest) = 128" by (simp add: no_manifest_def)
  from axml_parse [OF this] obtain m where m: "parse_android_manifest (Some sample_axml) no_manifest = Some (True, m)"
      "cstr (manifest.package m) = GAME_PACKAGE" "manifest.package m ! 0 \<noteq> 0" by blast
  have l: "load_manifest_metadata sample_tools no_manifest (?w 0) = Some (m, ?w 1)"
    using m by (simp add: load_manifest_metadata_def ready_files h)
  have v: "validate_manifest_metadata m" using m by (simp add: validate_manifest_metadata_def)
  have "list_all (\<lambda>(a, b). same_size (?w (Suc (Suc (Suc 0)))) a b) il2cpp_cache_files"
    using ready_sizes by (auto simp: list_all_iff)
  then have "prepare_il2cpp_cache (?w 1) = (True, ?w 3)"
    by (simp add: prepare_il2cpp_cache_def il2cpp_marker_matches_def h ready_files sample_guid_def numeral_3_eq_3)
  moreover have "seed_english_localization_cache (?w 3) = (True, ?w 3)"
    using ready_sizes by (simp add: seed_english_localization_cache_def ready_files)
  ultimately have p: "prepare_caches (?w 1) = (True, ?w 3)" by (simp add: prepare_caches_def and_then_def)
  have "credits sample_tools (?w 3) = ?w 3" by (simp add: credits_def credits_patch_apply_def ready_files credits_layout)
  then have "installer_prepare_game_files sample_tools no_manifest (?w 0) = Some (True, m, remove_install_media_if_safe (?w 3))"
    using l v p r by (simp add: installer_prepare_game_files_def ready_files)
  moreover have "fs (remove_install_media_if_safe (?w 3)) INSTALL_APK = None"
    using r by (simp add: remove_install_media_if_safe_def h_remove_def attempt_def ready_files)
  ultimately show ?thesis by blast
qed


end
