(* ===== verification/InstallEnds.thy ===== *)
theory InstallEnds
  imports InstallSafe
begin

text \<open>
  The installer ends: the only loop that could run forever is the one around \<^verbatim>\<open>inflate\<close>, and it
  makes progress as zlib documents it.
\<close>

text \<open>
  What zlib documents for \<^verbatim>\<open>inflate\<close> with an empty output buffer of full size: it never gives input
  back; a call that reports \<^verbatim>\<open>Z_OK\<close> took input or put out something it held, and one that reports
  \<^verbatim>\<open>Z_BUF_ERROR\<close> did so too, or has used up its input.  \<open>\<mu>\<close> bounds what a state holds back.
\<close>

definition inflate_progress :: "'z inflate \<Rightarrow> ('z \<Rightarrow> nat) \<Rightarrow> bool" where
  "inflate_progress infl \<mu> \<longleftrightarrow> (\<forall>zs inp fin st inp' made zs'. infl zs inp fin = (st, inp', made, zs') \<longrightarrow>
     length inp' \<le> length inp \<and>
     (st = Z_OK \<longrightarrow> length inp' < length inp \<or> \<mu> zs' < \<mu> zs) \<and>
     (st = Z_BUF_ERROR \<longrightarrow> length inp' < length inp \<or> \<mu> zs' < \<mu> zs \<or> inp' = []))"

lemma refill_total:
  assumes "refill z inp pos left = Some (inp1, pos1, left1)" and "archive_ok z"
  shows "left1 + length inp1 = left + length inp" "inp1 = [] \<Longrightarrow> left1 = 0"
proof -
  have n: "length bs = n" if "a_read z p n = Some bs" for p n bs using assms(2) that by (simp add: archive_ok_def)
  show "left1 + length inp1 = left + length inp" "inp1 = [] \<Longrightarrow> left1 = 0"
    using assms(1) by (auto simp: refill_def ZIP_IO_BYTES_def split: if_splits option.splits dest: n)
qed

lemma copy_inflated_returns:
  assumes p: "inflate_progress infl \<mu>" and a: "archive_ok z"
  shows "copy_inflated z crc32 infl tmp st zs inp pos left crc written w \<noteq> None"
proof -
  have "copy_inflated z crc32 infl tmp st zs inp pos left crc written w \<noteq> None" if "x = (left + length inp, \<mu> zs)"
    for x st zs inp pos left crc written w
    using that
  proof (induction x arbitrary: st zs inp pos left crc written w rule: wf_induct_rule [OF wf_lex_prod [OF wf_less_than wf_less_than]])
    case (1 x st zs inp pos left crc written w)
    have IH: "copy_inflated z crc32 infl tmp st' zs' inp' pos' left' crc' written' w' \<noteq> None"
      if "left' + length inp' < left + length inp \<or> (left' + length inp' = left + length inp \<and> \<mu> zs' < \<mu> zs)"
      for st' zs' inp' pos' left' crc' written' w'
      by (rule "1.IH" [OF _ refl]) (use that "1.prems" in auto)
    show ?case
    proof (cases "st = Z_STREAM_END")
      case True
      then show ?thesis by (subst copy_inflated.simps) (simp del: not_None_eq)
    next
      case st: False
      show ?thesis
      proof (cases "refill z inp pos left")
        case None
        then show ?thesis using st by (subst copy_inflated.simps) (simp del: not_None_eq)
      next
        case (Some x)
        obtain inp1 pos1 left1 where x: "refill z inp pos left = Some (inp1, pos1, left1)" using Some by (cases x) simp
        note X = refill_total [OF x a]
        obtain st' inp2 made zs' where i: "infl zs inp1 (left1 = 0) = (st', inp2, made, zs')" by (metis prod_cases4)
        define crc' where "crc' = (if made \<noteq> [] then crc32 crc made else crc)"
        obtain ok w' where wr: "(if made \<noteq> [] then h_write tmp made w else (True, w)) = (ok, w')" by fastforce
        have e: "copy_inflated z crc32 infl tmp st zs inp pos left crc written w = (if \<not> ok then Some (False, crc', written, w')
            else if st' = Z_OTHER \<or> st' = Z_BUF_ERROR \<and> left1 = 0 \<and> inp2 = [] then Some (False, crc', written + length made, w')
            else copy_inflated z crc32 infl tmp st' zs' inp2 pos1 left1 crc' (written + length made) w')"
          using st by (subst copy_inflated.simps) (simp only: if_False x option.case i prod.case Let_def wr fst_conv snd_conv crc'_def)
        have P: "length inp2 \<le> length inp1" "st' = Z_OK \<Longrightarrow> length inp2 < length inp1 \<or> \<mu> zs' < \<mu> zs"
          "st' = Z_BUF_ERROR \<Longrightarrow> length inp2 < length inp1 \<or> \<mu> zs' < \<mu> zs \<or> inp2 = []"
          using p i unfolding inflate_progress_def by blast+
        show ?thesis
        proof (cases "\<not> ok \<or> st' = Z_OTHER \<or> st' = Z_BUF_ERROR \<and> left1 = 0 \<and> inp2 = []")
          case True
          then show ?thesis unfolding e by (auto simp del: not_None_eq)
        next
          case go: False
          have "copy_inflated z crc32 infl tmp st' zs' inp2 pos1 left1 crc' (written + length made) w' \<noteq> None"
          proof (cases st')
            case Z_STREAM_END
            then show ?thesis by (subst copy_inflated.simps) (simp del: not_None_eq)
          next
            case Z_OTHER
            then show ?thesis using go by simp
          next
            case Z_OK
            show ?thesis by (rule IH) (use P(1,2) Z_OK X(1) in linarith)
          next
            case Z_BUF_ERROR
            have "length inp2 < length inp1 \<or> \<mu> zs' < \<mu> zs" using P(3) Z_BUF_ERROR go X(2) by auto
            then show ?thesis by (intro IH) (use P(1) X(1) in linarith)
          qed
          then show ?thesis using go unfolding e by (auto simp del: not_None_eq)
        qed
      qed
    qed
  qed
  then show ?thesis by blast
qed

lemma extract_entry_returns:
  assumes "inflate_progress infl \<mu>" and "archive_ok z"
  shows "extract_entry z crc32 infl zs0 e target w \<noteq> None"
proof -
  have "extract_data z crc32 infl zs0 e tmp pos v \<noteq> None" for tmp pos v
    using copy_inflated_returns [OF assms] by (simp add: extract_data_def del: not_None_eq split: prod.split)
  then show ?thesis by (simp add: extract_entry_def Let_def del: not_None_eq split: option.split prod.split bool.split)
qed

lemma zip_visit_returns: "(\<And>e s. v e s \<noteq> None) \<Longrightarrow> zip_visit z v n p s \<noteq> None"
proof (induction n arbitrary: p s)
  case (Suc n)
  show ?case
  proof (cases "read_entry z p")
    case (Some x)
    obtain e q where x: "read_entry z p = Some (e, q)" using Some by (cases x) simp
    obtain ok s' where "v e s = Some (ok, s')" using Suc.prems [of e s] by fastforce
    then show ?thesis using x Suc.IH [OF Suc.prems] by (simp del: not_None_eq)
  qed simp
qed simp

lemma install_visitor_returns:
  assumes "inflate_progress (t_infl T) \<mu>" and "archive_ok z"
  shows "install_visitor z (t_crc T) (t_infl T) (t_init T) e s \<noteq> None"
  using extract_entry_returns [OF assms]
  by (simp add: install_visitor_def del: not_None_eq split: prod.split sum.split option.split bool.split)

lemma load_manifest_returns:
  assumes "inflate_progress (t_infl T) \<mu>" and "manifest_ok m"
  shows "\<exists>m' w'. load_manifest_metadata T m w = Some (m', w') \<and> manifest_ok m'"
proof -
  have rest: "\<exists>m' w'. (case h_open_read manifest_path w1 of (f, w2) \<Rightarrow> do { r \<leftarrow> parse_android_manifest f m; Some (snd r, w2) }) = Some (m', w') \<and>
      manifest_ok m'" for w1
  proof -
    obtain f w2 where f: "h_open_read manifest_path w1 = (f, w2)" by fastforce
    obtain ok m' where "parse_android_manifest f m = Some (ok, m')" "manifest_ok m'" using parse_manifest_ok [OF assms(2)] by blast
    then show ?thesis by (simp add: f)
  qed
  have visit: "zip_visit z (manifest_visitor T z) n cd w1 \<noteq> None" if "archive_ok z" for z n cd w1
    by (rule zip_visit_returns) (use extract_entry_returns [OF assms(1) that] in \<open>simp add: manifest_visitor_def del: not_None_eq\<close>)
  obtain a w1 where o: "open_apk T w = (a, w1)" by fastforce
  note O = open_apk_effect [OF o]
  show ?thesis
  proof (cases "\<not> file_exists_nonempty w manifest_path \<and> file_exists_nonempty w INSTALL_APK")
    case False
    then show ?thesis using rest [of w] by (auto simp: load_manifest_metadata_def)
  next
    case True
    show ?thesis
    proof (cases a)
      case None
      then show ?thesis using True o rest [of w1] by (auto simp: load_manifest_metadata_def)
    next
      case (Some x)
      obtain z n cd where x: "a = Some (z, n, cd)" using Some by (cases x) simp
      obtain ok w2 where "zip_visit z (manifest_visitor T z) n cd w1 = Some (ok, w2)" using visit O x by fastforce
      then show ?thesis using True o x rest [of w2] by (auto simp: load_manifest_metadata_def)
    qed
  qed
qed

definition returned :: "(bool \<times> manifest \<times> world) option \<Rightarrow> bool" where
  "returned r \<longleftrightarrow> (\<exists>ok m' w'. r = Some (ok, m', w') \<and> manifest_ok m')"

lemma returned_Some [simp]: "returned (Some (ok, m, w)) = manifest_ok m"
  by (simp add: returned_def)

lemma first_install_returns:
  assumes "inflate_progress (t_infl T) \<mu>" and "manifest_ok m" and "archive_ok z"
  shows "returned (first_install T z n cd m w)"
proof -
  have "zip_visit z (install_visitor z (t_crc T) (t_infl T) (t_init T)) n cd (no_files, w) \<noteq> None"
    by (rule zip_visit_returns) (rule install_visitor_returns [OF assms(1,3)])
  then obtain rc st w1 where z: "zip_visit z (install_visitor z (t_crc T) (t_infl T) (t_init T)) n cd (no_files, w) = Some (rc, st, w1)"
    by fastforce
  obtain m2 w2 where l: "load_manifest_metadata T m w1 = Some (m2, w2)" "manifest_ok m2"
    using load_manifest_returns [OF assms(1,2)] by blast
  show ?thesis
    using z l assms(2) by (simp add: first_install_def split: prod.split bool.split)
qed

lemma installer_returned:
  assumes "inflate_progress (t_infl T) \<mu>" and "manifest_ok m"
  shows "returned (installer_prepare_game_files T m w)"
proof (cases "file_exists_nonempty w INSTALL_MARKER \<and> runtime_files_present w")
  case True
  obtain m1 w1 where "load_manifest_metadata T m w = Some (m1, w1)" "manifest_ok m1"
    using load_manifest_returns [OF assms] by blast
  then show ?thesis using True by (simp add: installer_prepare_game_files_def split: prod.split bool.split)
next
  case later: False
  obtain o1 w1 where a: "and_then attempt attempt w = (o1, w1)" by fastforce
  obtain r w2 where o: "open_apk T w1 = (r, w2)" by fastforce
  show ?thesis
  proof (cases "verify_game_apk_basic w \<and> o1 \<and> (\<exists>z n cd. r = Some (z, n, cd))")
    case False
    then show ?thesis using later a o assms(2)
      by (cases o1; cases r) (auto simp: installer_prepare_game_files_def)
  next
    case True
    then obtain z n cd where z: "r = Some (z, n, cd)" by blast
    obtain o3 w3 where p: "installer_preflight T z n cd w2 = (o3, w3)" by fastforce
    have skip: "(file_exists_nonempty w INSTALL_MARKER \<and> runtime_files_present w) = False" using later by blast
    have "archive_ok z" using open_apk_effect [OF o] z by blast
    from first_install_returns [OF assms this] have f: "returned (first_install T z n cd m w3)" .
    have "installer_prepare_game_files T m w = (if o3 then first_install T z n cd m w3 else Some (False, m, w3))"
      using True a o z p by (cases o3) (simp_all add: installer_prepare_game_files_def skip)
    then show ?thesis using f assms(2) by simp
  qed
qed

text \<open>
  C7.  With the progress that zlib documents for \<^verbatim>\<open>inflate\<close>, every run of the installer ends, whatever
  the files contain and whichever calls fail, and leaves the strings of the manifest terminated in their buffers.
\<close>

theorem installer_returns:
  assumes "inflate_progress (t_infl T) \<mu>" and "manifest_ok m"
  shows "\<exists>ok m' w'. installer_prepare_game_files T m w = Some (ok, m', w') \<and> manifest_ok m'"
  using installer_returned [OF assms] by (simp add: returned_def)

text \<open>An \<^verbatim>\<open>inflate\<close> that copies its input, one byte at a time, and ends with it.\<close>

definition byte_inflate :: "unit inflate" where
  "byte_inflate zs inp fin = (case inp of [] \<Rightarrow> (if fin then Z_STREAM_END else Z_BUF_ERROR, [], [], ()) | b # bs \<Rightarrow> (Z_OK, bs, [b], ()))"

theorem installer_returns_witness:
  "inflate_progress byte_inflate (\<lambda>_. 0) \<and> manifest_ok no_manifest \<and>
   (\<exists>ok m' w'. installer_prepare_game_files (sample_tools\<lparr>t_infl := byte_inflate\<rparr>) no_manifest
      (empty_world\<lparr>fs := [INSTALL_APK \<mapsto> sample_lh @ [65]]\<rparr>) = Some (ok, m', w') \<and> manifest_ok m')"
proof -
  have p: "inflate_progress byte_inflate (\<lambda>_. 0)" by (auto simp: inflate_progress_def byte_inflate_def split: list.splits if_splits)
  have m: "manifest_ok no_manifest" by (simp add: manifest_ok_def no_manifest_def buffer_ok_def)
  have t: "t_infl (sample_tools\<lparr>t_infl := byte_inflate\<rparr>) = byte_inflate" by simp
  show ?thesis using p m installer_returns [of "sample_tools\<lparr>t_infl := byte_inflate\<rparr>" "\<lambda>_. 0"] by (simp only: t simp_thms)
qed

end
