(* ===== verification/AAudio.thy ===== *)
theory AAudio
  imports Prelude Complex_Main
begin

text \<open>
  The samples of the audio output (\<^verbatim>\<open>source/aaudio_bridge.c\<close>): the stream, the conversion of one
  callback buffer and its measurement.  A float is a not-a-number, an infinity or a rational; the
  rounding of the machine's multiplication is the argument \<open>rnd\<close>.  A result \<open>None\<close> is an access
  outside a buffer.
\<close>

section \<open>The stream\<close>

datatype fl = NaN | Inf bool | Fin rat

type_synonym s16 = "16 word"

text \<open>The callback buffer, read as floats or as 16-bit integers.\<close>

datatype pcm = Floats "fl list" | Ints "s16 list"

definition pcm_length :: "pcm \<Rightarrow> nat" where
  "pcm_length b = (case b of Floats xs \<Rightarrow> length xs | Ints ys \<Rightarrow> length ys)"

definition AAUDIO_FORMAT_PCM_I16 :: int where "AAUDIO_FORMAT_PCM_I16 = 1"
definition AAUDIO_FORMAT_PCM_FLOAT :: int where "AAUDIO_FORMAT_PCM_FLOAT = 2"

record stream =
  s_state :: int
  s_stop_requested :: bool
  s_thread_started :: bool
  s_thread_exited :: bool
  s_pthread_id :: nat
  s_sample_rate :: nat
  s_channels :: nat
  s_format :: int
  s_direction :: int
  s_performance_mode :: int
  s_sharing_mode :: int
  s_buffer_capacity_frames :: int
  s_buffer_size_frames :: int
  s_frames_per_callback :: nat
  s_frames_per_burst :: int
  s_device_id :: int
  s_session_id :: int
  s_xruns :: int
  s_frames_written :: int
  s_callback_buffer :: pcm
  s_audout_initialized :: bool
  s_audout_started :: bool
  s_audout_rate :: nat
  s_out :: "s16 list list"
  s_data_size :: "nat list"
  s_out_capacity_frames :: nat
  s_resample_remainder :: u64
  s_producer_peak_milli :: nat
  s_output_peak_milli :: nat
  s_invalid_samples :: u32
  s_callback_count :: u64
  s_callback_stop_count :: u64
  s_submitted_buffers :: u64
  s_released_buffers :: u64
  s_wait_failures :: u64
  s_append_failures :: u64
  s_recoveries :: u64
  s_last_release_us :: u64

section \<open>One sample\<close>

definition toward_zero :: "rat \<Rightarrow> int" where
  "toward_zero x = (if 0 \<le> x then \<lfloor>x\<rfloor> else \<lceil>x\<rceil>)"

text \<open>The sample, and whether it is counted as invalid.\<close>

definition float_to_i16 :: "(rat \<Rightarrow> rat) \<Rightarrow> fl \<Rightarrow> s16 \<times> bool" where
  "float_to_i16 rnd v =
     (case v of
        NaN \<Rightarrow> (0, True)
      | Inf _ \<Rightarrow> (0, True)
      | Fin x \<Rightarrow>
          if 16 < x \<or> x < -16 then (0, True)
          else if 1 \<le> x then (32767, False)
          else if x \<le> -1 then (-32768, False)
          else (of_int (toward_zero (rnd (x * 32767))), False))"

definition input_sample_i16 :: "(rat \<Rightarrow> rat) \<Rightarrow> stream \<Rightarrow> nat \<Rightarrow> nat \<Rightarrow> (s16 \<times> bool) option" where
  "input_sample_i16 rnd s frame channel =
     (let src_ch = (if s_channels s \<le> 1 then 0 else if s_channels s \<le> channel then s_channels s - 1 else channel);
          idx = frame * s_channels s + src_ch
      in case s_callback_buffer s of
           Floats xs \<Rightarrow> if idx < length xs then Some (float_to_i16 rnd (xs ! idx)) else None
         | Ints ys \<Rightarrow> if idx < length ys then Some (ys ! idx, False) else None)"

definition magnitude :: "s16 \<Rightarrow> nat" where
  "magnitude v = nat \<bar>sint v\<bar>"

definition peak_milli :: "nat \<Rightarrow> nat" where
  "peak_milli a = a * 1000 div 32768"

section \<open>A whole buffer\<close>

fun measure_samples :: "(rat \<Rightarrow> rat) \<Rightarrow> stream \<Rightarrow> (nat \<times> nat) list \<Rightarrow> nat \<Rightarrow> u32 \<Rightarrow> (nat \<times> u32) option" where
  "measure_samples rnd s [] peak invalid = Some (peak, invalid)"
| "measure_samples rnd s ((f, ch) # ps) peak invalid =
     (case input_sample_i16 rnd s f ch of
        None \<Rightarrow> None
      | Some (v, bad) \<Rightarrow>
          let pm = peak_milli (magnitude v)
          in measure_samples rnd s ps (if peak < pm then pm else peak) (if bad then invalid + 1 else invalid))"

definition measure_callback :: "(rat \<Rightarrow> rat) \<Rightarrow> stream \<Rightarrow> stream option" where
  "measure_callback rnd s =
     (case measure_samples rnd s (List.product [0..<s_frames_per_callback s] [0..<s_channels s]) 0 0 of
        None \<Rightarrow> None
      | Some (peak, invalid) \<Rightarrow> Some (s\<lparr>s_producer_peak_milli := peak, s_invalid_samples := s_invalid_samples s + invalid\<rparr>))"

text \<open>The input frame an output frame is taken from.\<close>

definition source_frame :: "stream \<Rightarrow> nat \<Rightarrow> nat" where
  "source_frame s k =
     (let sf = unat (of_nat k * of_nat (s_sample_rate s) div of_nat (s_audout_rate s) :: u64)
      in if s_frames_per_callback s \<le> sf then s_frames_per_callback s - 1 else sf)"

function convert_frames ::
  "(rat \<Rightarrow> rat) \<Rightarrow> stream \<Rightarrow> nat \<Rightarrow> nat \<Rightarrow> s16 list \<Rightarrow> nat \<Rightarrow> u32 \<Rightarrow> (s16 list \<times> nat \<times> u32) option" where
  "convert_frames rnd s out_frames k dst peak invalid =
     (if k < out_frames then
        (case (input_sample_i16 rnd s (source_frame s k) 0, input_sample_i16 rnd s (source_frame s k) (if 1 < s_channels s then 1 else 0)) of
           (Some (l, bl), Some (r, br)) \<Rightarrow>
             if length dst < 2 * k + 2 then None
             else
               let pm = peak_milli (if magnitude r < magnitude l then magnitude l else magnitude r)
               in convert_frames rnd s out_frames (k + 1) (dst[2 * k := l, 2 * k + 1 := r]) (if peak < pm then pm else peak)
                    (invalid + of_bool bl + of_bool br)
         | _ \<Rightarrow> None)
      else Some (dst, peak, invalid))"
  by pat_completeness auto
termination
  by (relation "measure (\<lambda>(rnd, s, n, k, dst, peak, invalid). n - k)") auto

declare convert_frames.simps [simp del]

text \<open>The number of output frames and the new remainder.\<close>

definition resample_count :: "stream \<Rightarrow> nat \<times> u64" where
  "resample_count s =
     (let numer = of_nat (s_frames_per_callback s) * of_nat (s_audout_rate s) + s_resample_remainder s;
          rate = of_nat (s_sample_rate s)
      in (unat (numer div rate), numer mod rate))"

definition convert_callback_to_audout :: "(rat \<Rightarrow> rat) \<Rightarrow> stream \<Rightarrow> s16 list \<Rightarrow> nat \<Rightarrow> (nat \<times> s16 list \<times> stream) option" where
  "convert_callback_to_audout rnd s dst cap =
     (case resample_count s of
        (n0, remainder) \<Rightarrow>
          let n1 = (if n0 < 1 then 1 else n0);
              n = (if cap < n1 then cap else n1);
              s1 = s\<lparr>s_resample_remainder := remainder\<rparr>
          in case convert_frames rnd s1 n 0 dst 0 0 of
               None \<Rightarrow> None
             | Some (dst', peak, invalid) \<Rightarrow>
                 Some (n, dst', s1\<lparr>s_output_peak_milli := peak, s_invalid_samples := s_invalid_samples s1 + invalid\<rparr>))"

section \<open>Samples keep their range and order\<close>

text \<open>What IEEE 754 promises for the rounding: it is monotone and exact on the values at hand.\<close>

definition rounding_ok :: "(rat \<Rightarrow> rat) \<Rightarrow> bool" where
  "rounding_ok rnd \<longleftrightarrow> (\<forall>x y. x \<le> y \<longrightarrow> rnd x \<le> rnd y) \<and> rnd 0 = 0 \<and> rnd 32767 = 32767 \<and> rnd (-32767) = -32767"

lemma toward_zero_mono: "x \<le> y \<Longrightarrow> toward_zero x \<le> toward_zero y"
proof (cases "x < 0 \<and> 0 \<le> y")
  case True
  then have c: "\<lceil>x\<rceil> \<le> 0" and f: "0 \<le> \<lfloor>y\<rfloor>" by (simp_all add: ceiling_le_zero)
  have "toward_zero x = \<lceil>x\<rceil>" "toward_zero y = \<lfloor>y\<rfloor>" using True by (simp_all add: toward_zero_def)
  then show ?thesis using order_trans [OF c f] by simp
next
  case False
  assume "x \<le> y"
  then show ?thesis using False by (auto simp: toward_zero_def floor_mono ceiling_mono)
qed

lemma toward_zero_bounds: "- 32767 \<le> x \<Longrightarrow> x \<le> 32767 \<Longrightarrow> - 32767 \<le> toward_zero x \<and> toward_zero x \<le> 32767"
  by (auto simp: toward_zero_def floor_le_iff le_floor_iff ceiling_le_iff le_ceiling_iff)

lemma float_sample:
  assumes "rounding_ok rnd" and "-1 < x" and "x < 1"
  shows "sint (fst (float_to_i16 rnd (Fin x))) = toward_zero (rnd (x * 32767))"
    and "- 32767 \<le> toward_zero (rnd (x * 32767))" and "toward_zero (rnd (x * 32767)) \<le> 32767"
proof -
  have "-32767 \<le> x * 32767" "x * 32767 \<le> 32767" using assms(2,3) by simp_all
  then have "rnd (-32767) \<le> rnd (x * 32767)" "rnd (x * 32767) \<le> rnd 32767"
    using assms(1) unfolding rounding_ok_def by blast+
  then have b: "- 32767 \<le> toward_zero (rnd (x * 32767)) \<and> toward_zero (rnd (x * 32767)) \<le> 32767"
    using toward_zero_bounds assms(1) by (simp add: rounding_ok_def)
  then show "- 32767 \<le> toward_zero (rnd (x * 32767))" "toward_zero (rnd (x * 32767)) \<le> 32767" by blast+
  have "fst (float_to_i16 rnd (Fin x)) = of_int (toward_zero (rnd (x * 32767)))" using assms(2,3) by (simp add: float_to_i16_def)
  then show "sint (fst (float_to_i16 rnd (Fin x))) = toward_zero (rnd (x * 32767))"
    using b by (simp add: sint_sbintrunc' signed_take_bit_int_eq_self)
qed

lemma float_to_i16_mono:
  assumes "rounding_ok rnd" and "x \<le> y" and "-16 \<le> x" and "y \<le> 16"
  shows "sint (fst (float_to_i16 rnd (Fin x))) \<le> sint (fst (float_to_i16 rnd (Fin y)))"
proof -
  have hi: "fst (float_to_i16 rnd (Fin z)) = 32767" if "1 \<le> z" "z \<le> 16" for z using that by (simp add: float_to_i16_def)
  have lo: "fst (float_to_i16 rnd (Fin z)) = -32768" if "z \<le> -1" "-16 \<le> z" for z using that by (simp add: float_to_i16_def)
  note F = float_sample [OF assms(1)]
  consider "x \<le> -1" | "1 \<le> y" | "-1 < x" "y < 1" by linarith
  then show ?thesis
  proof cases
    case 1
    then show ?thesis using lo [of x] hi [of y] lo [of y] F [of y] assms by (cases "y \<le> -1"; cases "1 \<le> y") auto
  next
    case 2
    then show ?thesis using hi [of y] hi [of x] lo [of x] F [of x] assms by (cases "x \<le> -1"; cases "1 \<le> x") auto
  next
    case 3
    have "rnd (x * 32767) \<le> rnd (y * 32767)" using assms(1,2) by (simp add: rounding_ok_def)
    then show ?thesis using F [of x] F [of y] 3 assms(2) toward_zero_mono by auto
  qed
qed

end
