(* ===== verification/AAudioPcm.thy ===== *)
theory AAudioPcm
  imports AAudio
begin

text \<open>The conversion of the callback buffers stays inside its buffers, and the resampling does not drift.\<close>

definition NX_AUDOUT_BUFFER_COUNT :: nat where "NX_AUDOUT_BUFFER_COUNT = 3"

text \<open>What opening a stream establishes and every later operation keeps.\<close>

definition stream_ok :: "stream \<Rightarrow> bool" where
  "stream_ok s \<longleftrightarrow> 8000 \<le> s_sample_rate s \<and> s_sample_rate s \<le> 192000 \<and> 1 \<le> s_channels s \<and> s_channels s \<le> 8 \<and>
     32 \<le> s_frames_per_callback s \<and> s_frames_per_callback s \<le> 8192 \<and> s_audout_rate s = 48000 \<and>
     pcm_length (s_callback_buffer s) = s_frames_per_callback s * s_channels s \<and>
     s_out_capacity_frames s = (s_frames_per_callback s * 48000 + s_sample_rate s - 1) div s_sample_rate s \<and>
     unat (s_resample_remainder s) < s_sample_rate s \<and>
     length (s_out s) = NX_AUDOUT_BUFFER_COUNT \<and> length (s_data_size s) = NX_AUDOUT_BUFFER_COUNT \<and>
     (\<forall>b \<in> set (s_out s). 2 * s_out_capacity_frames s \<le> length b)"

lemma stream_ok_update:
  "stream_ok s \<Longrightarrow> unat m < s_sample_rate s \<Longrightarrow> stream_ok (s\<lparr>s_resample_remainder := m, s_output_peak_milli := p, s_invalid_samples := i\<rparr>)"
  "stream_ok s \<Longrightarrow> pcm_length b = s_frames_per_callback s * s_channels s \<Longrightarrow> stream_ok (s\<lparr>s_callback_buffer := b\<rparr>)"
  by (clarsimp simp: stream_ok_def)+

section \<open>The number of frames\<close>

lemma resample_count_exact:
  assumes "stream_ok s" and "resample_count s = (n, r)"
  shows "s_frames_per_callback s * 48000 + unat (s_resample_remainder s) = n * s_sample_rate s + unat r"
    and "unat r < s_sample_rate s" and "1 \<le> n" and "n \<le> s_out_capacity_frames s"
proof -
  let ?f = "s_frames_per_callback s" and ?r = "s_sample_rate s" and ?m = "unat (s_resample_remainder s)"
  have b: "32 \<le> ?f" "?f \<le> 8192" "8000 \<le> ?r" "?r \<le> 192000" "?m < ?r" "s_audout_rate s = 48000"
      "s_out_capacity_frames s = (?f * 48000 + ?r - 1) div ?r"
    using assms(1) by (simp_all add: stream_ok_def)
  have sum: "unat (of_nat ?f * of_nat (s_audout_rate s) + s_resample_remainder s :: u64) = ?f * 48000 + ?m"
  proof -
    have "?f * 48000 \<le> 8192 * 48000" using b by simp
    then have l: "?f * 48000 + ?m < 2 ^ 64" using b by simp
    have "of_nat ?f * of_nat (s_audout_rate s) + s_resample_remainder s = (of_nat (?f * 48000 + ?m) :: u64)"
      by (simp add: b)
    then show ?thesis using l by (simp only: unat_of_nat take_bit_nat_eq_self) simp
  qed
  have rate: "unat (of_nat ?r :: u64) = ?r" 
  proof -
    have "?r < 2 ^ 64" using b by simp
    then show ?thesis by (simp only: unat_of_nat take_bit_nat_eq_self) simp
  qed
  have n: "n = (?f * 48000 + ?m) div ?r" and r: "unat r = (?f * 48000 + ?m) mod ?r"
    using assms(2) sum rate by (auto simp: resample_count_def Let_def unat_div unat_mod)
  show "?f * 48000 + ?m = n * ?r + unat r" by (simp add: n r)
  show "unat r < ?r" using b by (simp add: r)
  have "?r * 1 \<le> ?f * 48000 + ?m" using b by linarith
  then show "1 \<le> n" unfolding n using b by (metis div_greater_zero_iff less_eq_Suc_le One_nat_def mult.right_neutral less_le_trans zero_less_numeral)
  have "?f * 48000 + ?m \<le> ?f * 48000 + ?r - 1" using b by linarith
  then show "n \<le> s_out_capacity_frames s" unfolding n b(7) by (rule div_le_mono)
qed

text \<open>Every output frame takes the input frame of its time; the clamp to the last frame is never needed.\<close>

lemma source_frame_exact:
  assumes "stream_ok s" and "resample_count s = (n, r)" and "k < n"
  shows "source_frame s k = k * s_sample_rate s div 48000" and "source_frame s k < s_frames_per_callback s"
proof -
  let ?f = "s_frames_per_callback s" and ?r = "s_sample_rate s"
  note C = resample_count_exact [OF assms(1,2)]
  have b: "?f \<le> 8192" "?r \<le> 192000" "unat (s_resample_remainder s) < ?r" "s_audout_rate s = 48000" "8000 \<le> ?r"
    using assms(1) by (simp_all add: stream_ok_def)
  have "(k + 1) * ?r \<le> n * ?r" using assms(3) by (intro mult_right_mono) simp_all
  then have lt: "k * ?r < ?f * 48000" using C(1) b(3) by (simp add: algebra_simps)
  have "?f * 48000 \<le> 8192 * 48000" using b(1) by simp
  then have small: "k * ?r < 2 ^ 64" using lt by simp
  have "(of_nat k * of_nat ?r :: u64) = of_nat (k * ?r)" by simp
  then have "unat (of_nat k * of_nat ?r :: u64) = k * ?r" using small by (simp only: unat_of_nat take_bit_nat_eq_self) simp
  then have e: "unat (of_nat k * of_nat ?r div of_nat (s_audout_rate s) :: u64) = k * ?r div 48000"
    by (simp add: unat_div b(4))
  have d: "k * ?r div 48000 < ?f" using lt by (simp add: div_less_iff_less_mult)
  then show "source_frame s k = k * ?r div 48000" "source_frame s k < ?f"
    unfolding source_frame_def Let_def e by simp_all
qed

section \<open>Inside the buffers\<close>

lemma input_total:
  assumes "stream_ok s" and "frame < s_frames_per_callback s"
  shows "input_sample_i16 rnd s frame ch \<noteq> None"
proof -
  let ?c = "s_channels s"
  define src where "src = (if ?c \<le> 1 then 0 else if ?c \<le> ch then ?c - 1 else ch)"
  have c: "1 \<le> ?c" "pcm_length (s_callback_buffer s) = s_frames_per_callback s * ?c" using assms(1) by (simp_all add: stream_ok_def)
  then have "src < ?c" by (auto simp: src_def)
  moreover have "(frame + 1) * ?c \<le> s_frames_per_callback s * ?c" using assms(2) by (intro mult_right_mono) simp_all
  ultimately have "frame * ?c + src < pcm_length (s_callback_buffer s)" using c by (simp add: algebra_simps)
  then show ?thesis unfolding input_sample_i16_def Let_def src_def [symmetric]
    by (cases "s_callback_buffer s") (simp_all add: pcm_length_def)
qed

lemma measure_total:
  assumes "stream_ok s" and "\<And>f ch. (f, ch) \<in> set ps \<Longrightarrow> f < s_frames_per_callback s"
  shows "measure_samples rnd s ps peak invalid \<noteq> None"
  using assms(2)
proof (induction ps arbitrary: peak invalid)
  case (Cons p ps)
  obtain f ch where p: "p = (f, ch)" by fastforce
  then obtain v bad where "input_sample_i16 rnd s f ch = Some (v, bad)"
    using input_total [OF assms(1), of f rnd ch] Cons.prems by fastforce
  moreover have "measure_samples rnd s ps peak' invalid' \<noteq> None" for peak' invalid'
    by (rule Cons.IH) (use Cons.prems in auto)
  ultimately show ?case by (simp add: p Let_def del: not_None_eq)
qed simp

text \<open>The sample of one side of an output frame.\<close>

definition side :: "stream \<Rightarrow> bool \<Rightarrow> nat" where
  "side s right = (if right \<and> 1 < s_channels s then 1 else 0)"

definition frame_sample :: "(rat \<Rightarrow> rat) \<Rightarrow> stream \<Rightarrow> nat \<Rightarrow> bool \<Rightarrow> s16" where
  "frame_sample rnd s k right = fst (the (input_sample_i16 rnd s (k * s_sample_rate s div 48000) (side s right)))"

lemma convert_frames_total:
  assumes "stream_ok s"
    and "\<And>k. k < m \<Longrightarrow> source_frame s k = k * s_sample_rate s div 48000 \<and> source_frame s k < s_frames_per_callback s"
    and "2 * m \<le> length dst" and "k \<le> m"
    and "\<And>j. j < k \<Longrightarrow> dst ! (2 * j) = frame_sample rnd s j False \<and> dst ! (2 * j + 1) = frame_sample rnd s j True"
  shows "\<exists>dst' peak' invalid'. convert_frames rnd s m k dst peak invalid = Some (dst', peak', invalid') \<and>
    length dst' = length dst \<and> (\<forall>i. 2 * m \<le> i \<longrightarrow> i < length dst \<longrightarrow> dst' ! i = dst ! i) \<and>
    (\<forall>j < m. dst' ! (2 * j) = frame_sample rnd s j False \<and> dst' ! (2 * j + 1) = frame_sample rnd s j True)"
  using assms(3-)
proof (induction "m - k" arbitrary: k dst peak invalid)
  case 0
  then show ?case by (subst convert_frames.simps) auto
next
  case (Suc d)
  then have k: "k < m" by linarith
  have S: "source_frame s k = k * s_sample_rate s div 48000" "source_frame s k < s_frames_per_callback s"
    using assms(2) [OF k] by simp_all
  obtain l bl where l: "input_sample_i16 rnd s (source_frame s k) 0 = Some (l, bl)" using input_total [OF assms(1) S(2)] by fastforce
  obtain q bq where q: "input_sample_i16 rnd s (source_frame s k) (if 1 < s_channels s then 1 else 0) = Some (q, bq)"
    using input_total [OF assms(1) S(2), of rnd "if 1 < s_channels s then 1 else 0"] by fastforce
  let ?dst = "dst[2 * k := l, 2 * k + 1 := q]"
  have lq: "frame_sample rnd s k False = l" "frame_sample rnd s k True = q"
    using l q S(1) by (auto simp: frame_sample_def side_def split: if_splits)
  have e: "convert_frames rnd s m k dst peak invalid = convert_frames rnd s m (k + 1) ?dst
      (if peak < peak_milli (if magnitude q < magnitude l then magnitude l else magnitude q)
       then peak_milli (if magnitude q < magnitude l then magnitude l else magnitude q) else peak) (invalid + of_bool bl + of_bool bq)"
    using k l q Suc.prems(1) by (subst convert_frames.simps) (simp add: Let_def)
  have sofar: "?dst ! (2 * j) = frame_sample rnd s j False \<and> ?dst ! (2 * j + 1) = frame_sample rnd s j True" if "j < k + 1" for j
  proof (cases "j = k")
    case True
    then show ?thesis using lq k Suc.prems(1) by simp
  next
    case False
    then show ?thesis using Suc.prems(3) [of j] that by (auto simp: nth_list_update)
  qed
  have "d = m - (k + 1)" "2 * m \<le> length ?dst" "k + 1 \<le> m" using Suc.hyps(2) Suc.prems(1) k by simp_all
  from Suc.hyps(1) [OF this sofar] show ?case unfolding e using k by (fastforce simp: nth_list_update)
qed

lemma frame_sample_cong:
  "s_callback_buffer s' = s_callback_buffer s \<Longrightarrow> s_channels s' = s_channels s \<Longrightarrow> s_sample_rate s' = s_sample_rate s \<Longrightarrow>
   frame_sample rnd s' k right = frame_sample rnd s k right"
  by (simp add: frame_sample_def side_def input_sample_i16_def)

lemma convert_callback_effect:
  assumes "stream_ok s" and "2 * s_out_capacity_frames s \<le> length dst"
  shows "\<exists>n dst' s'. convert_callback_to_audout rnd s dst (s_out_capacity_frames s) = Some (n, dst', s') \<and>
    stream_ok s' \<and> length dst' = length dst \<and> 1 \<le> n \<and> n \<le> s_out_capacity_frames s \<and>
    s_frames_per_callback s * 48000 + unat (s_resample_remainder s) = n * s_sample_rate s + unat (s_resample_remainder s') \<and>
    (\<forall>j < n. dst' ! (2 * j) = frame_sample rnd s j False \<and> dst' ! (2 * j + 1) = frame_sample rnd s j True) \<and>
    (\<exists>m p i. s' = s\<lparr>s_resample_remainder := m, s_output_peak_milli := p, s_invalid_samples := i\<rparr>)"
proof -
  obtain n r where c: "resample_count s = (n, r)" by fastforce
  note C = resample_count_exact [OF assms(1) c]
  let ?s = "s\<lparr>s_resample_remainder := r\<rparr>"
  have ok: "stream_ok ?s" using stream_ok_update(1) [OF assms(1) C(2), where p = "s_output_peak_milli s" and i = "s_invalid_samples s"] by simp
  have fr: "source_frame ?s k = k * s_sample_rate ?s div 48000 \<and> source_frame ?s k < s_frames_per_callback ?s" if "k < n" for k
  proof -
    have "source_frame ?s k = source_frame s k" by (simp add: source_frame_def Let_def)
    then show ?thesis using source_frame_exact [OF assms(1) c that] by simp
  qed
  have len: "2 * n \<le> length dst" using C(4) assms(2) by simp
  from convert_frames_total [OF ok fr len, of 0 rnd 0 0] obtain dst' p i where f':
    "convert_frames rnd ?s n 0 dst 0 0 = Some (dst', p, i)" and f: "length dst' = length dst"
    "\<forall>j < n. dst' ! (2 * j) = frame_sample rnd ?s j False \<and> dst' ! (2 * j + 1) = frame_sample rnd ?s j True"
    by blast
  have g: "frame_sample rnd ?s j q = frame_sample rnd s j q" for j q by (rule frame_sample_cong) simp_all
  define s' where "s' = s\<lparr>s_resample_remainder := r, s_output_peak_milli := p, s_invalid_samples := s_invalid_samples s + i\<rparr>"
  have "convert_callback_to_audout rnd s dst (s_out_capacity_frames s) = Some (n, dst', s')"
    using c f' C(3,4) by (simp add: convert_callback_to_audout_def Let_def s'_def)
  moreover have "stream_ok s'" unfolding s'_def by (rule stream_ok_update(1) [OF assms(1) C(2)])
  moreover have "s_frames_per_callback s * 48000 + unat (s_resample_remainder s) = n * s_sample_rate s + unat (s_resample_remainder s')"
    using C(1) by (simp add: s'_def)
  moreover have "\<exists>m p i. s' = s\<lparr>s_resample_remainder := m, s_output_peak_milli := p, s_invalid_samples := i\<rparr>"
    unfolding s'_def by (intro exI) (rule refl)
  ultimately show ?thesis using C(3,4) f [unfolded g] by blast
qed

section \<open>A sequence of callbacks\<close>

text \<open>The samples put out for the buffers \<open>bs\<close> of successive callbacks.\<close>

fun resample_all :: "(rat \<Rightarrow> rat) \<Rightarrow> stream \<Rightarrow> pcm list \<Rightarrow> (s16 list list \<times> stream) option" where
  "resample_all rnd s [] = Some ([], s)"
| "resample_all rnd s (b # bs) =
     (case convert_callback_to_audout rnd (s\<lparr>s_callback_buffer := b\<rparr>) (replicate (2 * s_out_capacity_frames s) 0) (s_out_capacity_frames s) of
        None \<Rightarrow> None
      | Some (n, dst, s') \<Rightarrow>
          (case resample_all rnd s' bs of None \<Rightarrow> None | Some (outs, s'') \<Rightarrow> Some (take (2 * n) dst # outs, s'')))"

definition total_frames :: "s16 list list \<Rightarrow> nat" where
  "total_frames outs = (\<Sum>x \<leftarrow> outs. length x div 2)"

definition faithful :: "(rat \<Rightarrow> rat) \<Rightarrow> stream \<Rightarrow> pcm \<Rightarrow> s16 list \<Rightarrow> bool" where
  "faithful rnd s b x \<longleftrightarrow> even (length x) \<and> (\<forall>j < length x div 2.
     x ! (2 * j) = frame_sample rnd (s\<lparr>s_callback_buffer := b\<rparr>) j False \<and>
     x ! (2 * j + 1) = frame_sample rnd (s\<lparr>s_callback_buffer := b\<rparr>) j True)"

lemma resample_all_effect:
  assumes "stream_ok s" and "\<And>b. b \<in> set bs \<Longrightarrow> pcm_length b = s_frames_per_callback s * s_channels s"
  shows "\<exists>outs s'. resample_all rnd s bs = Some (outs, s') \<and> list_all2 (faithful rnd s) bs outs \<and>
    length bs * (s_frames_per_callback s * 48000) + unat (s_resample_remainder s) =
      total_frames outs * s_sample_rate s + unat (s_resample_remainder s') \<and>
    unat (s_resample_remainder s') < s_sample_rate s"
  using assms
proof (induction bs arbitrary: s)
  case Nil
  then show ?case by (simp add: total_frames_def stream_ok_def)
next
  case (Cons b bs)
  let ?s = "s\<lparr>s_callback_buffer := b\<rparr>" and ?dst = "replicate (2 * s_out_capacity_frames s) (0 :: s16)"
  have "stream_ok ?s" by (rule stream_ok_update(2) [OF Cons.prems(1)]) (simp add: Cons.prems(2))
  moreover have sel: "s_out_capacity_frames ?s = s_out_capacity_frames s" "s_frames_per_callback ?s = s_frames_per_callback s"
      "s_sample_rate ?s = s_sample_rate s" "s_resample_remainder ?s = s_resample_remainder s" by simp_all
  ultimately have "\<exists>n dst s'. convert_callback_to_audout rnd ?s ?dst (s_out_capacity_frames s) = Some (n, dst, s') \<and> stream_ok s' \<and>
      length dst = 2 * s_out_capacity_frames s \<and> 1 \<le> n \<and> n \<le> s_out_capacity_frames s \<and>
      s_frames_per_callback s * 48000 + unat (s_resample_remainder s) = n * s_sample_rate s + unat (s_resample_remainder s') \<and>
      (\<forall>j < n. dst ! (2 * j) = frame_sample rnd ?s j False \<and> dst ! (2 * j + 1) = frame_sample rnd ?s j True) \<and>
      (\<exists>m p i. s' = ?s\<lparr>s_resample_remainder := m, s_output_peak_milli := p, s_invalid_samples := i\<rparr>)"
    using convert_callback_effect [of ?s ?dst rnd, unfolded sel length_replicate] by blast
  then obtain n dst s' where
    c: "convert_callback_to_audout rnd ?s ?dst (s_out_capacity_frames s) = Some (n, dst, s')" "stream_ok s'"
       "length dst = 2 * s_out_capacity_frames s" "n \<le> s_out_capacity_frames s"
       "s_frames_per_callback s * 48000 + unat (s_resample_remainder s) = n * s_sample_rate s + unat (s_resample_remainder s')"
       "\<forall>j < n. dst ! (2 * j) = frame_sample rnd ?s j False \<and> dst ! (2 * j + 1) = frame_sample rnd ?s j True"
    and s': "\<exists>m p i. s' = ?s\<lparr>s_resample_remainder := m, s_output_peak_milli := p, s_invalid_samples := i\<rparr>"
    by blast
  from s' have same: "s_frames_per_callback s' = s_frames_per_callback s" "s_channels s' = s_channels s" "s_sample_rate s' = s_sample_rate s"
    by auto
  have faith: "faithful rnd s' x y = faithful rnd s x y" for x y
    using same by (simp add: faithful_def frame_sample_cong [of "s'\<lparr>s_callback_buffer := x\<rparr>" "s\<lparr>s_callback_buffer := x\<rparr>"])
  have "\<And>b. b \<in> set bs \<Longrightarrow> pcm_length b = s_frames_per_callback s' * s_channels s'" using Cons.prems(2) same by simp
  from Cons.IH [OF c(2) this, unfolded same faith] obtain outs s'' where
    r: "resample_all rnd s' bs = Some (outs, s'')" "list_all2 (faithful rnd s) bs outs"
       "length bs * (s_frames_per_callback s * 48000) + unat (s_resample_remainder s') =
          total_frames outs * s_sample_rate s + unat (s_resample_remainder s'')"
       "unat (s_resample_remainder s'') < s_sample_rate s"
    by blast
  have "faithful rnd s b (take (2 * n) dst)" using c(3,4,6) by (auto simp: faithful_def min_def)
  moreover have "total_frames (take (2 * n) dst # outs) = n + total_frames outs" using c(3,4) by (simp add: total_frames_def min_def)
  ultimately show ?case using c(1,5) r by (simp add: algebra_simps)
qed

end
