(* ===== verification/AAudioOut.thy ===== *)
theory AAudioOut
  imports AAudioPcm "HOL-Library.Monad_Syntax"
begin

text \<open>
  The output thread of a stream (\<^verbatim>\<open>source/aaudio_bridge.c\<close>) over the console's audio device.  The
  device holds the buffers that were appended and not yet released; what it answers, the time, the
  game's callback and the requests to stop come from the functions of its record, asked at the
  current \<open>d_clock\<close>, so a statement about all devices is one about all their behaviours.
\<close>

section \<open>The device\<close>

record device =
  d_queue :: "nat list"
  d_running :: bool
  d_overlap :: bool
  d_errors :: nat
  d_fails :: "nat \<Rightarrow> bool"
  d_flush_fails :: "nat \<Rightarrow> bool"
  d_done :: "nat \<Rightarrow> bool"
  d_halted :: "nat \<Rightarrow> bool"
  d_time :: "nat \<Rightarrow> u64"
  d_quit :: "nat \<Rightarrow> bool"
  d_callback :: "nat \<Rightarrow> pcm \<times> bool"
  d_clock :: nat

definition tick :: "device \<Rightarrow> device" where "tick d = d\<lparr>d_clock := d_clock d + 1\<rparr>"

text \<open>Appending a buffer the device still holds is noted in \<open>d_overlap\<close>.\<close>

definition audout_append :: "nat \<Rightarrow> device \<Rightarrow> bool \<times> device" where
  "audout_append i d =
     (if d_fails d (d_clock d) then (False, tick d)
      else (True, tick (d\<lparr>d_queue := d_queue d @ [i], d_overlap := d_overlap d \<or> i \<in> set (d_queue d)\<rparr>)))"

definition audout_start :: "device \<Rightarrow> bool \<times> device" where
  "audout_start d = (if d_fails d (d_clock d) then (False, tick d) else (True, tick (d\<lparr>d_running := True\<rparr>)))"

definition audout_stop :: "device \<Rightarrow> device" where
  "audout_stop d = (if d_fails d (d_clock d) then tick d else tick (d\<lparr>d_running := False\<rparr>))"

definition audout_flush :: "device \<Rightarrow> device" where
  "audout_flush d = (if d_flush_fails d (d_clock d) then tick d else tick (d\<lparr>d_queue := []\<rparr>))"

text \<open>Waiting for a finished buffer, or asking for one: \<open>None\<close> is the failure.\<close>

definition audout_released :: "device \<Rightarrow> nat option option \<times> device" where
  "audout_released d =
     (if d_fails d (d_clock d) then (None, tick d)
      else case d_queue d of
             i # q \<Rightarrow> if d_done d (d_clock d) then (Some (Some i), tick (d\<lparr>d_queue := q\<rparr>)) else (Some None, tick d)
           | [] \<Rightarrow> (Some None, tick d))"

text \<open>Whether the device says it is not running.\<close>

definition audout_not_started :: "device \<Rightarrow> bool \<times> device" where
  "audout_not_started d = (\<not> d_fails d (d_clock d) \<and> d_halted d (d_clock d), tick d)"

definition trace_now_us :: "device \<Rightarrow> u64 \<times> device" where
  "trace_now_us d = (d_time d (d_clock d), tick d)"

definition report_error :: "device \<Rightarrow> device" where
  "report_error d = d\<lparr>d_errors := d_errors d + 1\<rparr>"

text \<open>\<^verbatim>\<open>s->stop_requested || jni_quit_requested\<close>.\<close>

definition must_stop :: "stream \<Rightarrow> device \<Rightarrow> bool \<times> device" where
  "must_stop s d = (s_stop_requested s \<or> d_quit d (d_clock d), tick d)"

section \<open>One buffer\<close>

datatype outcome = Done | Stop | Fail

type_synonym thread = "stream \<times> device"

definition run_data_callback :: "(rat \<Rightarrow> rat) \<Rightarrow> thread \<Rightarrow> (outcome \<times> thread) option" where
  "run_data_callback rnd t =
     (case t of (s, d) \<Rightarrow>
        case d_callback d (d_clock d) of
          (samples, quits) \<Rightarrow>
            do {
              s1 \<leftarrow> measure_callback rnd (s\<lparr>s_callback_buffer := samples, s_callback_count := s_callback_count s + 1\<rparr>);
              Some (if quits then (Stop, s1\<lparr>s_callback_stop_count := s_callback_stop_count s1 + 1\<rparr>, tick d) else (Done, s1, tick d)) })"

definition fill_and_append :: "(rat \<Rightarrow> rat) \<Rightarrow> nat \<Rightarrow> thread \<Rightarrow> (outcome \<times> thread) option" where
  "fill_and_append rnd i t =
     do {
       (r, s1, d1) \<leftarrow> run_data_callback rnd t;
       if r \<noteq> Done then Some (r, s1, d1)
       else do {
         (n, dst, s2) \<leftarrow> convert_callback_to_audout rnd s1 (s_out s1 ! i) (s_out_capacity_frames s1);
         let s3 = s2\<lparr>s_out := (s_out s2)[i := dst], s_data_size := (s_data_size s2)[i := n * 4]\<rparr>;
             (ok, d2) = audout_append i d1
         in Some (if \<not> ok then (Fail, s3\<lparr>s_append_failures := s_append_failures s3 + 1\<rparr>, d2)
                  else (Done, s3\<lparr>s_submitted_buffers := s_submitted_buffers s3 + 1,
                               s_frames_written := s_frames_written s3 + int (s_frames_per_callback s3)\<rparr>, d2)) } }"

fun prime_buffers :: "(rat \<Rightarrow> rat) \<Rightarrow> nat list \<Rightarrow> thread \<Rightarrow> (outcome \<times> thread) option" where
  "prime_buffers rnd [] t = Some (Done, t)"
| "prime_buffers rnd (i # is) t =
     (case fill_and_append rnd i t of None \<Rightarrow> None | Some (r, t') \<Rightarrow> if r \<noteq> Done then Some (r, t') else prime_buffers rnd is t')"

definition prime_audout :: "(rat \<Rightarrow> rat) \<Rightarrow> thread \<Rightarrow> (outcome \<times> thread) option" where
  "prime_audout rnd t =
     do {
       (r, s, d) \<leftarrow> prime_buffers rnd [0..<NX_AUDOUT_BUFFER_COUNT] t;
       if r \<noteq> Done then Some (r, s, d)
       else case audout_start d of
              (False, d1) \<Rightarrow> Some (Fail, s, d1)
            | (True, d1) \<Rightarrow>
                (case trace_now_us d1 of (now, d2) \<Rightarrow> Some (Done, s\<lparr>s_audout_started := True, s_last_release_us := now\<rparr>, d2)) }"

definition recover_audout :: "(rat \<Rightarrow> rat) \<Rightarrow> thread \<Rightarrow> (outcome \<times> thread) option" where
  "recover_audout rnd t =
     (case t of (s, d) \<Rightarrow>
        prime_audout rnd (s\<lparr>s_recoveries := s_recoveries s + 1, s_audout_started := False, s_resample_remainder := 0\<rparr>,
          audout_flush (audout_stop d)))"

section \<open>The loop\<close>

text \<open>The inner loop over released buffers, at most \<open>n\<close> more.\<close>

fun drain :: "(rat \<Rightarrow> rat) \<Rightarrow> nat \<Rightarrow> nat option \<Rightarrow> thread \<Rightarrow> thread option" where
  "drain rnd 0 released t = Some t"
| "drain rnd (Suc n) None t = Some t"
| "drain rnd (Suc n) (Some i) (s, d) =
     (case must_stop s d of
        (True, d1) \<Rightarrow> Some (s, d1)
      | (False, d1) \<Rightarrow>
          (case trace_now_us d1 of
             (now, d2) \<Rightarrow>
               do {
                 (r, s1, d3) \<leftarrow> fill_and_append rnd i (s\<lparr>s_released_buffers := s_released_buffers s + 1, s_last_release_us := now\<rparr>, d2);
                 (case r of
                    Fail \<Rightarrow>
                      do {
                        (rr, s2, d4) \<leftarrow> recover_audout rnd (s1, d3);
                        Some (case rr of
                                Fail \<Rightarrow> (s2\<lparr>s_stop_requested := True\<rparr>, report_error d4)
                              | Stop \<Rightarrow> (s2\<lparr>s_stop_requested := True\<rparr>, d4)
                              | Done \<Rightarrow> (s2, d4)) }
                  | Stop \<Rightarrow> Some (s1\<lparr>s_stop_requested := True\<rparr>, d3)
                  | Done \<Rightarrow>
                      if n = 0 then Some (s1, d3)
                      else (case audout_released d3 of
                              (None, d4) \<Rightarrow> Some (s1\<lparr>s_wait_failures := s_wait_failures s1 + 1\<rparr>, d4)
                            | (Some released, d4) \<Rightarrow> drain rnd n released (s1, d4))) }))"

definition NX_AUDOUT_RECOVERY_US :: u64 where "NX_AUDOUT_RECOVERY_US = 500000"

text \<open>One turn of the loop; \<open>False\<close> leaves it.\<close>

definition loop_turn :: "(rat \<Rightarrow> rat) \<Rightarrow> thread \<Rightarrow> (bool \<times> thread) option" where
  "loop_turn rnd t =
     (case t of (s, d) \<Rightarrow>
        case audout_released d of
          (None, d1) \<Rightarrow>
            (case trace_now_us d1 of
               (now, d2) \<Rightarrow>
                 let s1 = s\<lparr>s_wait_failures := s_wait_failures s + 1\<rparr>
                 in case must_stop s1 d2 of
                      (True, d3) \<Rightarrow> Some (False, s1, d3)
                    | (False, d3) \<Rightarrow>
                        (case audout_not_started d3 of
                           (halted, d4) \<Rightarrow>
                             if s_last_release_us s1 \<le> now \<and> NX_AUDOUT_RECOVERY_US \<le> now - s_last_release_us s1 \<or> halted
                             then do {
                               (rr, s2, d5) \<leftarrow> recover_audout rnd (s1, d4);
                               Some (case rr of Fail \<Rightarrow> (False, s2, report_error d5) | Stop \<Rightarrow> (False, s2, d5) | Done \<Rightarrow> (True, s2, d5)) }
                             else Some (True, s1, d4)))
        | (Some None, d1) \<Rightarrow> Some (True, s, tick d1)
        | (Some (Some i), d1) \<Rightarrow> do { t' \<leftarrow> drain rnd NX_AUDOUT_BUFFER_COUNT (Some i) (s, tick d1); Some (True, t') })"

text \<open>The loop for \<open>fuel\<close> turns; \<open>False\<close> says that it has not ended by then.\<close>

fun output_loop :: "(rat \<Rightarrow> rat) \<Rightarrow> nat \<Rightarrow> thread \<Rightarrow> (bool \<times> thread) option" where
  "output_loop rnd 0 t = Some (False, t)"
| "output_loop rnd (Suc fuel) (s, d) =
     (case must_stop s d of
        (True, d1) \<Rightarrow> Some (True, s, d1)
      | (False, d1) \<Rightarrow>
          (case loop_turn rnd (s, d1) of
             None \<Rightarrow> None
           | Some (goes_on, t) \<Rightarrow> if goes_on then output_loop rnd fuel t else Some (True, t)))"

definition AAUDIO_STREAM_STATE_STARTED :: int where "AAUDIO_STREAM_STATE_STARTED = 4"
definition AAUDIO_STREAM_STATE_STOPPED :: int where "AAUDIO_STREAM_STATE_STOPPED = 10"

definition thread_end :: "thread \<Rightarrow> thread" where
  "thread_end t =
     (case t of (s, d) \<Rightarrow>
        let d1 = (if s_audout_started s then audout_stop d else d)
        in (s\<lparr>s_audout_started := False, s_state := AAUDIO_STREAM_STATE_STOPPED, s_thread_exited := True\<rparr>, audout_flush d1))"

definition aaudio_output_thread :: "(rat \<Rightarrow> rat) \<Rightarrow> nat \<Rightarrow> thread \<Rightarrow> (bool \<times> thread) option" where
  "aaudio_output_thread rnd fuel t =
     (case t of (s, d) \<Rightarrow>
        do {
          (r, s1, d1) \<leftarrow> prime_audout rnd (s\<lparr>s_thread_exited := False, s_state := AAUDIO_STREAM_STATE_STARTED\<rparr>, d);
          (case r of
             Fail \<Rightarrow> Some (True, thread_end (s1, report_error d1))
           | Stop \<Rightarrow> Some (True, thread_end (s1, d1))
           | Done \<Rightarrow>
               do {
                 (finished, t2) \<leftarrow> output_loop rnd fuel (s1, d1);
                 Some (if finished then (True, thread_end t2) else (False, t2)) }) })"

end
