(* ===== verification/AAudioOutProps.thy ===== *)
theory AAudioOutProps
  imports AAudioOut
begin

text \<open>The output thread never writes outside a buffer and never hands the device a buffer it still holds.\<close>

section \<open>The invariant\<close>

text \<open>The device's queue holds different buffers of the stream, and the frames counted are those submitted.\<close>

definition queue_ok :: "device \<Rightarrow> bool" where
  "queue_ok d \<longleftrightarrow> distinct (d_queue d) \<and> set (d_queue d) \<subseteq> {0..<NX_AUDOUT_BUFFER_COUNT} \<and> \<not> d_overlap d"

definition counted :: "stream \<Rightarrow> bool" where
  "counted s \<longleftrightarrow> (of_int (s_frames_written s) :: u64) = of_nat (s_frames_per_callback s) * s_submitted_buffers s"

definition life :: "stream \<Rightarrow> bool \<times> nat \<times> bool" where
  "life s = (s_thread_started s, s_pthread_id s, s_audout_initialized s)"

definition thread_inv :: "(nat \<Rightarrow> pcm \<times> bool) \<Rightarrow> nat \<Rightarrow> bool \<times> nat \<times> bool \<Rightarrow> thread \<Rightarrow> bool" where
  "thread_inv cb len l t \<longleftrightarrow> (case t of (s, d) \<Rightarrow>
     stream_ok s \<and> s_frames_per_callback s * s_channels s = len \<and> counted s \<and> life s = l \<and>
     d_callback d = cb \<and> (\<forall>n. \<not> d_flush_fails d n) \<and> queue_ok d)"

definition callback_fills :: "(nat \<Rightarrow> pcm \<times> bool) \<Rightarrow> nat \<Rightarrow> bool" where
  "callback_fills cb len \<longleftrightarrow> (\<forall>n. pcm_length (fst (cb n)) = len)"

text \<open>Updates that leave what the invariant speaks of.\<close>

lemma tick_sel [simp]:
  "d_queue (tick d) = d_queue d" "d_overlap (tick d) = d_overlap d" "d_callback (tick d) = d_callback d"
  "d_flush_fails (tick d) = d_flush_fails d" "queue_ok (tick d) = queue_ok d"
  by (simp_all add: tick_def queue_ok_def)

lemma stream_ok_cong:
  assumes "stream_ok s" "s_sample_rate s' = s_sample_rate s" "s_channels s' = s_channels s"
    "s_frames_per_callback s' = s_frames_per_callback s" "s_audout_rate s' = s_audout_rate s"
    "s_out_capacity_frames s' = s_out_capacity_frames s"
    "pcm_length (s_callback_buffer s') = pcm_length (s_callback_buffer s)"
    "unat (s_resample_remainder s') < s_sample_rate s"
    "length (s_out s') = length (s_out s)" "length (s_data_size s') = length (s_data_size s)"
    "\<forall>b \<in> set (s_out s'). 2 * s_out_capacity_frames s \<le> length b"
  shows "stream_ok s'"
  using assms(1) unfolding stream_ok_def assms(2-7,9,10) using assms(8,11) by blast

definition same_shape :: "stream \<Rightarrow> stream \<Rightarrow> bool" where
  "same_shape s s' \<longleftrightarrow> s_sample_rate s' = s_sample_rate s \<and> s_channels s' = s_channels s \<and>
     s_frames_per_callback s' = s_frames_per_callback s \<and> s_audout_rate s' = s_audout_rate s \<and>
     s_out_capacity_frames s' = s_out_capacity_frames s \<and> s_callback_buffer s' = s_callback_buffer s \<and>
     s_resample_remainder s' = s_resample_remainder s \<and> s_out s' = s_out s \<and> s_data_size s' = s_data_size s \<and>
     s_frames_written s' = s_frames_written s \<and> s_submitted_buffers s' = s_submitted_buffers s \<and> life s' = life s"

definition same_device :: "device \<Rightarrow> device \<Rightarrow> bool" where
  "same_device d d' \<longleftrightarrow> d_queue d' = d_queue d \<and> d_overlap d' = d_overlap d \<and> d_callback d' = d_callback d \<and>
     d_flush_fails d' = d_flush_fails d"

lemmas shape_defs = same_shape_def life_def

lemma thread_inv_same:
  assumes "thread_inv cb len l (s, d)" and "same_shape s s'" and "same_device d d'"
  shows "thread_inv cb len l (s', d')"
proof -
  have "stream_ok s'"
    by (rule stream_ok_cong [of s]) (use assms(1,2) in \<open>auto simp: thread_inv_def shape_defs stream_ok_def\<close>)
  then show ?thesis using assms by (simp add: thread_inv_def shape_defs same_device_def counted_def queue_ok_def)
qed

lemma device_calls:
  "same_device d (tick d)" "same_device d (audout_stop d)" "audout_start d = (ok, d1) \<Longrightarrow> same_device d d1"
  "trace_now_us d = (now, d2) \<Longrightarrow> same_device d d2" "must_stop s d = (b, d3) \<Longrightarrow> same_device d d3"
  "audout_not_started d = (h, d4) \<Longrightarrow> same_device d d4" "same_device d (report_error d)"
  by (auto simp: same_device_def audout_stop_def audout_start_def trace_now_us_def must_stop_def audout_not_started_def
      report_error_def tick_def split: if_splits)

lemma same_refl: "same_shape s s" "same_device d d"
  by (simp_all add: shape_defs same_device_def)

section \<open>One buffer\<close>

lemma run_data_callback_effect:
  assumes "thread_inv cb len l (s, d)" and "callback_fills cb len"
  shows "\<exists>r s' d'. run_data_callback rnd (s, d) = Some (r, s', d') \<and> thread_inv cb len l (s', d') \<and> same_device d d' \<and>
    r \<noteq> Fail \<and> s_out s' = s_out s"
proof -
  obtain samples quits where c: "d_callback d (d_clock d) = (samples, quits)" by fastforce
  let ?s = "s\<lparr>s_callback_buffer := samples, s_callback_count := s_callback_count s + 1\<rparr>"
  have inv: "stream_ok s" "s_frames_per_callback s * s_channels s = len" "d_callback d = cb" "counted s"
    using assms(1) by (simp_all add: thread_inv_def)
  have filled: "pcm_length samples = len" using assms(2) c inv(3) unfolding callback_fills_def by (metis fst_conv)
  have ok: "stream_ok ?s"
    by (rule stream_ok_cong [OF inv(1)]) (use inv(1) filled inv(2) in \<open>auto simp: stream_ok_def\<close>)
  have "measure_samples rnd ?s (List.product [0..<s_frames_per_callback s] [0..<s_channels s]) 0 0 \<noteq> None"
    by (rule measure_total [OF ok]) auto
  then obtain peak invalid where m: "measure_callback rnd ?s =
      Some (?s\<lparr>s_producer_peak_milli := peak, s_invalid_samples := s_invalid_samples s + invalid\<rparr>)"
    by (auto simp: measure_callback_def)
  have base: "thread_inv cb len l (?s, d)"
    using assms(1) ok by (simp add: thread_inv_def counted_def life_def)
  let ?s1 = "?s\<lparr>s_producer_peak_milli := peak, s_invalid_samples := s_invalid_samples s + invalid\<rparr>"
  have i1: "thread_inv cb len l (?s1, tick d)"
    by (rule thread_inv_same [OF base]) (simp_all add: shape_defs device_calls(1))
  have i2: "thread_inv cb len l (?s1\<lparr>s_callback_stop_count := s_callback_stop_count ?s1 + 1\<rparr>, tick d)"
    by (rule thread_inv_same [OF base]) (simp_all add: shape_defs device_calls(1))
  show ?thesis
    using i1 i2 device_calls(1) [of d] by (cases quits) (simp_all add: run_data_callback_def c m)
qed

definition queue_after :: "outcome \<Rightarrow> nat \<Rightarrow> device \<Rightarrow> device \<Rightarrow> bool" where
  "queue_after r i d d' \<longleftrightarrow> d_queue d' = (if r = Done then d_queue d @ [i] else d_queue d)"

lemma fill_and_append_effect:
  assumes "thread_inv cb len l (s, d)" and "callback_fills cb len" and "i < NX_AUDOUT_BUFFER_COUNT" and "i \<notin> set (d_queue d)"
  shows "\<exists>r s' d'. fill_and_append rnd i (s, d) = Some (r, s', d') \<and> thread_inv cb len l (s', d') \<and> queue_after r i d d'"
proof -
  obtain r s1 d1 where c: "run_data_callback rnd (s, d) = Some (r, s1, d1)" "thread_inv cb len l (s1, d1)" "same_device d d1" "r \<noteq> Fail"
    using run_data_callback_effect [OF assms(1,2), of rnd] by blast
  have q1: "d_queue d1 = d_queue d" using c(3) by (simp add: same_device_def)
  show ?thesis
  proof (cases "r = Done")
    case False
    then show ?thesis using c q1 by (simp add: fill_and_append_def queue_after_def)
  next
    case True
    have ok: "stream_ok s1" "counted s1" "queue_ok d1" using c(2) by (simp_all add: thread_inv_def)
    then have "s_out s1 ! i \<in> set (s_out s1)" using assms(3) by (simp add: stream_ok_def)
    then have "2 * s_out_capacity_frames s1 \<le> length (s_out s1 ! i)" using ok(1) unfolding stream_ok_def by blast
    from convert_callback_effect [OF ok(1) this, of rnd] obtain n dst s2 m p iv where
      v: "convert_callback_to_audout rnd s1 (s_out s1 ! i) (s_out_capacity_frames s1) = Some (n, dst, s2)" "stream_ok s2"
         "length dst = length (s_out s1 ! i)"
      and s2: "s2 = s1\<lparr>s_resample_remainder := m, s_output_peak_milli := p, s_invalid_samples := iv\<rparr>"
      by blast
    define s3 where "s3 = s2\<lparr>s_out := (s_out s2)[i := dst], s_data_size := (s_data_size s2)[i := n * 4]\<rparr>"
    have out: "\<forall>b \<in> set (s_out s3). 2 * s_out_capacity_frames s2 \<le> length b"
      using v(2,3) \<open>2 * s_out_capacity_frames s1 \<le> length (s_out s1 ! i)\<close> s2
      by (auto simp: s3_def stream_ok_def dest!: set_update_subset_insert [THEN subsetD])
    have "stream_ok s3"
      by (rule stream_ok_cong [OF v(2) _ _ _ _ _ _ _ _ _ out]) (use v(2) in \<open>simp_all add: s3_def stream_ok_def\<close>)
    then have i3: "thread_inv cb len l (s3, d1)" using c(2) ok(2) by (simp add: thread_inv_def counted_def life_def s3_def s2)
    obtain ap d2 where a: "audout_append i d1 = (ap, d2)" by fastforce
    show ?thesis
    proof (cases ap)
      case False
      then have d2: "d2 = tick d1" using a by (auto simp: audout_append_def split: if_splits)
      have "thread_inv cb len l (s3\<lparr>s_append_failures := s_append_failures s3 + 1\<rparr>, d2)"
        by (rule thread_inv_same [OF i3]) (simp_all add: shape_defs d2 device_calls(1))
      then show ?thesis using c(1) True v(1) a False d2 q1
        by (simp add: fill_and_append_def s3_def Let_def queue_after_def)
    next
      case T: True
      then have d2: "d2 = tick (d1\<lparr>d_queue := d_queue d1 @ [i], d_overlap := d_overlap d1 \<or> i \<in> set (d_queue d1)\<rparr>)"
        using a by (auto simp: audout_append_def split: if_splits)
      let ?s4 = "s3\<lparr>s_submitted_buffers := s_submitted_buffers s3 + 1, s_frames_written := s_frames_written s3 + int (s_frames_per_callback s3)\<rparr>"
      have "queue_ok d2" using ok(3) assms(3,4) q1 by (simp add: d2 queue_ok_def)
      moreover have "stream_ok ?s4"
        by (rule stream_ok_cong [OF \<open>stream_ok s3\<close>]) (use \<open>stream_ok s3\<close> in \<open>auto simp: stream_ok_def\<close>)
      moreover have "counted ?s4" using i3 by (simp add: thread_inv_def counted_def distrib_left add.commute)
      ultimately have "thread_inv cb len l (?s4, d2)" using i3 by (simp add: thread_inv_def life_def d2)
      moreover have "fill_and_append rnd i (s, d) = Some (Done, ?s4, d2)"
        using c(1) True v(1) a T by (simp add: fill_and_append_def s3_def Let_def)
      ultimately show ?thesis using q1 by (auto simp: queue_after_def d2)
    qed
  qed
qed

section \<open>Priming and recovery\<close>

lemma prime_buffers_effect:
  assumes "thread_inv cb len l t" and "callback_fills cb len" and "k \<le> n" and "n \<le> NX_AUDOUT_BUFFER_COUNT"
    and "d_queue (snd t) = [0..<k]"
  shows "\<exists>r t'. prime_buffers rnd [k..<n] t = Some (r, t') \<and> thread_inv cb len l t'"
  using assms
proof (induction "n - k" arbitrary: k t)
  case 0
  then show ?case by simp
next
  case (Suc x)
  obtain s d where t: "t = (s, d)" by fastforce
  have k: "k < n" "k < NX_AUDOUT_BUFFER_COUNT" "k \<notin> set (d_queue d)" using Suc by (simp_all add: t)
  have up: "[k..<n] = k # [k + 1..<n]" using k(1) by (simp add: upt_conv_Cons)
  obtain r s' d' where f: "fill_and_append rnd k (s, d) = Some (r, s', d')" "thread_inv cb len l (s', d')" "queue_after r k d d'"
    using fill_and_append_effect [OF Suc.prems(1) [unfolded t] Suc.prems(2) k(2,3)] by blast
  show ?case
  proof (cases "r = Done")
    case False
    then show ?thesis using f by (simp add: up t)
  next
    case True
    then have "d_queue (snd (s', d')) = [0..<k + 1]" using f(3) Suc.prems(5) by (simp add: queue_after_def t)
    from Suc.hyps(1) [OF _ f(2) Suc.prems(2) _ Suc.prems(4) this] Suc.hyps(2) k(1) f(1) True
    show ?thesis by (simp add: up t)
  qed
qed

lemma prime_audout_effect:
  assumes "thread_inv cb len l t" and "callback_fills cb len" and "d_queue (snd t) = []"
  shows "\<exists>r s d. prime_audout rnd t = Some (r, s, d) \<and> thread_inv cb len l (s, d)"
proof -
  obtain r s d where p: "prime_buffers rnd [0..<NX_AUDOUT_BUFFER_COUNT] t = Some (r, s, d)" "thread_inv cb len l (s, d)"
    using prime_buffers_effect [OF assms(1,2) _ order_refl, of 0 rnd] assms(3) by auto
  obtain ok d1 where a: "audout_start d = (ok, d1)" by fastforce
  obtain now d2 where n: "trace_now_us d1 = (now, d2)" by fastforce
  have d1: "same_device d d1" "same_device d1 d2" using device_calls(3) [OF a] device_calls(4) [OF n] by blast+
  have i1: "thread_inv cb len l (s, d1)" by (rule thread_inv_same [OF p(2) same_refl(1) d1(1)])
  have i2: "thread_inv cb len l (s\<lparr>s_audout_started := True, s_last_release_us := now\<rparr>, d2)"
    by (rule thread_inv_same [OF i1 _ d1(2)]) (simp add: shape_defs)
  show ?thesis using p i1 i2 a n by (cases "r = Done"; cases ok) (simp_all add: prime_audout_def)
qed

lemma flush_empties: "\<forall>n. \<not> d_flush_fails d n \<Longrightarrow> d_queue (audout_flush d) = [] \<and> queue_ok (audout_flush d) = (\<not> d_overlap d)"
  by (simp add: audout_flush_def queue_ok_def tick_def)

lemma thread_inv_flush:
  assumes "thread_inv cb len l (s, d)"
  shows "thread_inv cb len l (s, audout_flush d)" and "d_queue (audout_flush d) = []"
  using assms flush_empties [of d] by (auto simp: thread_inv_def audout_flush_def queue_ok_def tick_def)

lemma recover_audout_effect:
  assumes "thread_inv cb len l (s, d)" and "callback_fills cb len"
  shows "\<exists>r s' d'. recover_audout rnd (s, d) = Some (r, s', d') \<and> thread_inv cb len l (s', d')"
proof -
  let ?s = "s\<lparr>s_recoveries := s_recoveries s + 1, s_audout_started := False, s_resample_remainder := 0\<rparr>"
  have "stream_ok s" using assms(1) by (simp add: thread_inv_def)
  then have "stream_ok ?s" by (rule stream_ok_cong) (use \<open>stream_ok s\<close> in \<open>auto simp: stream_ok_def\<close>)
  then have "thread_inv cb len l (?s, d)" using assms(1) by (simp add: thread_inv_def counted_def life_def)
  then have "thread_inv cb len l (?s, audout_stop d)" by (rule thread_inv_same) (simp_all add: same_refl device_calls(2))
  from prime_audout_effect [OF thread_inv_flush(1) [OF this] assms(2)] thread_inv_flush(2) [OF this]
  show ?thesis by (simp add: recover_audout_def)
qed

section \<open>The loop\<close>

lemma released_effect:
  assumes "thread_inv cb len l (s, d)" and "audout_released d = (r, d')"
  shows "thread_inv cb len l (s, d') \<and> (\<forall>i. r = Some (Some i) \<longrightarrow> i < NX_AUDOUT_BUFFER_COUNT \<and> i \<notin> set (d_queue d'))"
proof (cases "d_fails d (d_clock d) \<or> d_queue d = [] \<or> \<not> d_done d (d_clock d)")
  case True
  then have "d' = tick d \<and> (r = None \<or> r = Some None)" using assms(2) by (auto simp: audout_released_def split: list.splits if_splits)
  then show ?thesis using thread_inv_same [OF assms(1) same_refl(1) device_calls(1)] by auto
next
  case False
  then obtain i q where q: "d_queue d = i # q" by (cases "d_queue d") auto
  then have r: "r = Some (Some i)" "d' = tick (d\<lparr>d_queue := q\<rparr>)" using False assms(2) by (auto simp: audout_released_def)
  have "queue_ok d" using assms(1) by (simp add: thread_inv_def)
  then have "queue_ok d'" "i < NX_AUDOUT_BUFFER_COUNT" "i \<notin> set (d_queue d')" by (auto simp: queue_ok_def q r)
  then show ?thesis using assms(1) r by (simp add: thread_inv_def)
qed

lemma drain_effect:
  assumes "thread_inv cb len l t" and "callback_fills cb len"
    and "\<And>i. released = Some i \<Longrightarrow> i < NX_AUDOUT_BUFFER_COUNT \<and> i \<notin> set (d_queue (snd t))"
  shows "\<exists>t'. drain rnd n released t = Some t' \<and> thread_inv cb len l t'"
  using assms(1,3)
proof (induction n arbitrary: released t)
  case 0
  then show ?case by simp
next
  case (Suc n)
  obtain s d where t: "t = (s, d)" by fastforce
  show ?case
  proof (cases released)
    case None
    then show ?thesis using Suc.prems by simp
  next
    case (Some i)
    obtain b d1 where st: "must_stop s d = (b, d1)" by fastforce
    obtain now d2 where n: "trace_now_us d1 = (now, d2)" by fastforce
    have i: "i < NX_AUDOUT_BUFFER_COUNT" "i \<notin> set (d_queue d)" using Suc.prems(2) [OF Some] by (simp_all add: t)
    have i1: "thread_inv cb len l (s, d1)" by (rule thread_inv_same [OF Suc.prems(1) [unfolded t] same_refl(1) device_calls(5) [OF st]])
    show ?thesis
    proof (cases b)
      case True
      then show ?thesis using i1 st by (simp add: Some t)
    next
      case False
      let ?s = "s\<lparr>s_released_buffers := s_released_buffers s + 1, s_last_release_us := now\<rparr>"
      have i2: "thread_inv cb len l (?s, d2)" by (rule thread_inv_same [OF i1 _ device_calls(4) [OF n]]) (simp add: shape_defs)
      have "i \<notin> set (d_queue d2)" using i(2) device_calls(4) [OF n] device_calls(5) [OF st] by (simp add: same_device_def)
      from fill_and_append_effect [OF i2 assms(2) i(1) this, of rnd] obtain r s1 d3 where
        f: "fill_and_append rnd i (?s, d2) = Some (r, s1, d3)" "thread_inv cb len l (s1, d3)"
        by blast
      note e = st n f(1)
      have stop: "thread_inv cb len l (x\<lparr>s_stop_requested := True\<rparr>, y)" if "thread_inv cb len l (x, y)" for x y
        by (rule thread_inv_same [OF that _ same_refl(2)]) (simp add: shape_defs)
      show ?thesis
      proof (cases r)
        case Fail
        obtain rr s2 d4 where rc: "recover_audout rnd (s1, d3) = Some (rr, s2, d4)" "thread_inv cb len l (s2, d4)"
          using recover_audout_effect [OF f(2) assms(2)] by blast
        have "thread_inv cb len l (s2, report_error d4)" by (rule thread_inv_same [OF rc(2) same_refl(1) device_calls(7)])
        then show ?thesis using e False Fail rc stop by (cases rr) (simp_all add: Some t)
      next
        case Stop
        then show ?thesis using e False f(2) stop by (simp add: Some t)
      next
        case Done
        show ?thesis
        proof (cases "n = 0")
          case True
          then show ?thesis using e False f(2) Done by (simp add: Some t)
        next
          case n0: False
          obtain rel d4 where g: "audout_released d3 = (rel, d4)" by fastforce
          note G = released_effect [OF f(2) g]
          show ?thesis
          proof (cases rel)
            case None
            have "thread_inv cb len l (s1\<lparr>s_wait_failures := s_wait_failures s1 + 1\<rparr>, d4)"
              by (rule thread_inv_same [OF conjunct1 [OF G] _ same_refl(2)]) (simp add: shape_defs)
            then show ?thesis using e False Done n0 g None by (simp add: Some t)
          next
            case (Some x)
            have "\<exists>t'. drain rnd n x (s1, d4) = Some t' \<and> thread_inv cb len l t'" by (rule Suc.IH) (use G Some in auto)
            then show ?thesis using e False Done n0 g \<open>rel = Some x\<close> by (simp add: \<open>released = Some i\<close> t)
          qed
        qed
      qed
    qed
  qed
qed

lemma loop_turn_effect:
  assumes "thread_inv cb len l (s, d)" and "callback_fills cb len"
  shows "\<exists>b t'. loop_turn rnd (s, d) = Some (b, t') \<and> thread_inv cb len l t'"
proof -
  obtain rel d1 where g: "audout_released d = (rel, d1)" by fastforce
  note G = released_effect [OF assms(1) g]
  show ?thesis
  proof (cases rel)
    case (Some x)
    have i: "thread_inv cb len l (s, tick d1)" by (rule thread_inv_same [OF conjunct1 [OF G] same_refl(1) device_calls(1)])
    show ?thesis
    proof (cases x)
      case None
      then show ?thesis using i g Some by (auto simp: loop_turn_def)
    next
      case (Some k)
      have "\<exists>t'. drain rnd NX_AUDOUT_BUFFER_COUNT (Some k) (s, tick d1) = Some t' \<and> thread_inv cb len l t'"
        by (rule drain_effect [OF i assms(2)]) (use G \<open>rel = Some x\<close> Some in auto)
      then show ?thesis using g \<open>rel = Some x\<close> Some by (auto simp: loop_turn_def)
    qed
  next
    case None
    obtain now d2 where n: "trace_now_us d1 = (now, d2)" by fastforce
    let ?s = "s\<lparr>s_wait_failures := s_wait_failures s + 1\<rparr>"
    obtain b d3 where st: "must_stop ?s d2 = (b, d3)" by fastforce
    obtain h d4 where q: "audout_not_started d3 = (h, d4)" by fastforce
    have i2: "thread_inv cb len l (?s, d2)" by (rule thread_inv_same [OF conjunct1 [OF G] _ device_calls(4) [OF n]]) (simp add: shape_defs)
    have i3: "thread_inv cb len l (?s, d3)" by (rule thread_inv_same [OF i2 same_refl(1) device_calls(5) [OF st]])
    have i4: "thread_inv cb len l (?s, d4)" by (rule thread_inv_same [OF i3 same_refl(1) device_calls(6) [OF q]])
    obtain rr s2 d5 where r: "recover_audout rnd (?s, d4) = Some (rr, s2, d5)" "thread_inv cb len l (s2, d5)"
      using recover_audout_effect [OF i4 assms(2)] by blast
    have i5: "thread_inv cb len l (s2, report_error d5)" by (rule thread_inv_same [OF r(2) same_refl(1) device_calls(7)])
    show ?thesis using g None n st q i3 i4 r i5 by (cases b; cases rr) (auto simp: loop_turn_def Let_def)
  qed
qed

lemma output_loop_effect:
  assumes "thread_inv cb len l t" and "callback_fills cb len"
  shows "\<exists>b t'. output_loop rnd fuel t = Some (b, t') \<and> thread_inv cb len l t'"
  using assms(1)
proof (induction fuel arbitrary: t)
  case 0
  then show ?case by auto
next
  case (Suc fuel)
  obtain s d where t: "t = (s, d)" by fastforce
  obtain b d1 where st: "must_stop s d = (b, d1)" by fastforce
  have i1: "thread_inv cb len l (s, d1)" by (rule thread_inv_same [OF Suc.prems [unfolded t] same_refl(1) device_calls(5) [OF st]])
  obtain g t1 where l: "loop_turn rnd (s, d1) = Some (g, t1)" "thread_inv cb len l t1" using loop_turn_effect [OF i1 assms(2)] by blast
  show ?case using i1 st l Suc.IH [OF l(2)] by (cases b; cases g) (auto simp: t)
qed

lemma thread_end_effect:
  assumes "thread_inv cb len l t" and "thread_end t = (s', d')"
  shows "thread_inv cb len l (s', d') \<and> d_queue d' = [] \<and> \<not> s_audout_started s' \<and> s_state s' = AAUDIO_STREAM_STATE_STOPPED \<and> s_thread_exited s'"
proof -
  obtain s d where t: "t = (s, d)" by fastforce
  let ?d = "if s_audout_started s then audout_stop d else d"
  let ?s = "s\<lparr>s_audout_started := False, s_state := AAUDIO_STREAM_STATE_STOPPED, s_thread_exited := True\<rparr>"
  have "thread_inv cb len l (?s, ?d)"
    by (rule thread_inv_same [OF assms(1) [unfolded t]]) (simp_all add: shape_defs same_refl device_calls(2))
  note F = thread_inv_flush [OF this]
  show ?thesis using F assms(2) by (auto simp: thread_end_def t Let_def)
qed

section \<open>The whole thread\<close>

lemma output_thread_effect:
  assumes "thread_inv cb len l (s, d)" and "callback_fills cb len" and "d_queue d = []"
  shows "\<exists>b s' d'. aaudio_output_thread rnd fuel (s, d) = Some (b, s', d') \<and> thread_inv cb len l (s', d') \<and>
    (b \<longrightarrow> d_queue d' = [] \<and> \<not> s_audout_started s' \<and> s_state s' = AAUDIO_STREAM_STATE_STOPPED \<and> s_thread_exited s')"
proof -
  let ?s = "s\<lparr>s_thread_exited := False, s_state := AAUDIO_STREAM_STATE_STARTED\<rparr>"
  have "thread_inv cb len l (?s, d)" by (rule thread_inv_same [OF assms(1) _ same_refl(2)]) (simp add: shape_defs)
  from prime_audout_effect [OF this assms(2), of rnd] assms(3) obtain r s1 d1 where
    p: "prime_audout rnd (?s, d) = Some (r, s1, d1)" "thread_inv cb len l (s1, d1)" by auto
  have i1: "thread_inv cb len l (s1, report_error d1)" by (rule thread_inv_same [OF p(2) same_refl(1) device_calls(7)])
  obtain b t2 where l: "output_loop rnd fuel (s1, d1) = Some (b, t2)" "thread_inv cb len l t2"
    using output_loop_effect [OF p(2) assms(2)] by blast
  have fin: "\<exists>s' d'. Some (True, thread_end t) = Some (True, s', d') \<and> thread_inv cb len l (s', d') \<and>
      d_queue d' = [] \<and> \<not> s_audout_started s' \<and> s_state s' = AAUDIO_STREAM_STATE_STOPPED \<and> s_thread_exited s'"
    if "thread_inv cb len l t" for t
    using thread_end_effect [OF that] by (cases "thread_end t") auto
  obtain s2 d2 where t2: "t2 = (s2, d2)" by fastforce
  show ?thesis
  proof (cases r)
    case Fail
    then show ?thesis using fin [OF i1] p by (auto simp: aaudio_output_thread_def)
  next
    case Stop
    then show ?thesis using fin [OF p(2)] p by (auto simp: aaudio_output_thread_def)
  next
    case Done
    then show ?thesis using fin [OF l(2)] p l t2 by (cases b) (auto simp: aaudio_output_thread_def)
  qed
qed

end
