(* ===== verification/AAudioStream.thy ===== *)
theory AAudioStream
  imports AAudioOutProps
begin

text \<open>
  The interface of the audio output (\<^verbatim>\<open>aaudio_bridge_*\<close>): the builder, and the life of a stream
  from opening to closing, with its thread.  The calls come from one thread of the game, as AAudio
  asks for the calls that start, stop and close a stream.
\<close>

section \<open>The builder\<close>

definition AAUDIO_OK :: int where "AAUDIO_OK = 0"
definition AAUDIO_ERROR_ILLEGAL_ARGUMENT :: int where "AAUDIO_ERROR_ILLEGAL_ARGUMENT = -898"
definition AAUDIO_ERROR_INTERNAL :: int where "AAUDIO_ERROR_INTERNAL = -896"
definition AAUDIO_ERROR_INVALID_STATE :: int where "AAUDIO_ERROR_INVALID_STATE = -895"
definition AAUDIO_ERROR_INVALID_HANDLE :: int where "AAUDIO_ERROR_INVALID_HANDLE = -892"
definition AAUDIO_ERROR_UNIMPLEMENTED :: int where "AAUDIO_ERROR_UNIMPLEMENTED = -890"
definition AAUDIO_ERROR_UNAVAILABLE :: int where "AAUDIO_ERROR_UNAVAILABLE = -889"
definition AAUDIO_ERROR_NO_MEMORY :: int where "AAUDIO_ERROR_NO_MEMORY = -887"
definition AAUDIO_ERROR_NULL :: int where "AAUDIO_ERROR_NULL = -886"
definition AAUDIO_ERROR_TIMEOUT :: int where "AAUDIO_ERROR_TIMEOUT = -885"
definition AAUDIO_ERROR_OUT_OF_RANGE :: int where "AAUDIO_ERROR_OUT_OF_RANGE = -882"

definition AAUDIO_DIRECTION_OUTPUT :: int where "AAUDIO_DIRECTION_OUTPUT = 0"
definition AAUDIO_SHARING_MODE_SHARED :: int where "AAUDIO_SHARING_MODE_SHARED = 1"
definition AAUDIO_PERFORMANCE_MODE_NONE :: int where "AAUDIO_PERFORMANCE_MODE_NONE = 10"
definition AAUDIO_FORMAT_UNSPECIFIED :: int where "AAUDIO_FORMAT_UNSPECIFIED = 0"

definition AAUDIO_STREAM_STATE_UNINITIALIZED :: int where "AAUDIO_STREAM_STATE_UNINITIALIZED = 0"
definition AAUDIO_STREAM_STATE_OPEN :: int where "AAUDIO_STREAM_STATE_OPEN = 2"
definition AAUDIO_STREAM_STATE_STARTING :: int where "AAUDIO_STREAM_STATE_STARTING = 3"
definition AAUDIO_STREAM_STATE_STOPPING :: int where "AAUDIO_STREAM_STATE_STOPPING = 9"

record builder =
  b_sample_rate :: int
  b_channels :: int
  b_format :: int
  b_direction :: int
  b_performance_mode :: int
  b_sharing_mode :: int
  b_buffer_capacity_frames :: int
  b_frames_per_callback :: int
  b_device_id :: int
  b_session_id :: int
  b_data_callback :: bool
  b_error_callback :: bool

definition new_builder :: builder where
  "new_builder = \<lparr>b_sample_rate = 0, b_channels = 0, b_format = 0, b_direction = AAUDIO_DIRECTION_OUTPUT,
     b_performance_mode = AAUDIO_PERFORMANCE_MODE_NONE, b_sharing_mode = AAUDIO_SHARING_MODE_SHARED,
     b_buffer_capacity_frames = 0, b_frames_per_callback = 0, b_device_id = 0, b_session_id = -1,
     b_data_callback = False, b_error_callback = False\<rparr>"

definition aaudio_bridge_create_stream_builder :: "bool \<Rightarrow> bool \<Rightarrow> int \<times> builder option" where
  "aaudio_bridge_create_stream_builder null memory =
     (if null then (AAUDIO_ERROR_NULL, None) else if \<not> memory then (AAUDIO_ERROR_NO_MEMORY, None) else (AAUDIO_OK, Some new_builder))"

text \<open>The setters of the builder do nothing without one.\<close>

definition aaudio_bridge_builder_delete :: "builder option \<Rightarrow> int" where
  "aaudio_bridge_builder_delete b = (if b = None then AAUDIO_ERROR_NULL else AAUDIO_OK)"

definition aaudio_bridge_builder_set_buffer_capacity :: "int \<Rightarrow> builder option \<Rightarrow> builder option" where
  "aaudio_bridge_builder_set_buffer_capacity v = map_option (\<lambda>b. b\<lparr>b_buffer_capacity_frames := v\<rparr>)"
definition aaudio_bridge_builder_set_channel_count :: "int \<Rightarrow> builder option \<Rightarrow> builder option" where
  "aaudio_bridge_builder_set_channel_count v = map_option (\<lambda>b. b\<lparr>b_channels := v\<rparr>)"
definition aaudio_bridge_builder_set_device_id :: "int \<Rightarrow> builder option \<Rightarrow> builder option" where
  "aaudio_bridge_builder_set_device_id v = map_option (\<lambda>b. b\<lparr>b_device_id := v\<rparr>)"
definition aaudio_bridge_builder_set_direction :: "int \<Rightarrow> builder option \<Rightarrow> builder option" where
  "aaudio_bridge_builder_set_direction v = map_option (\<lambda>b. b\<lparr>b_direction := v\<rparr>)"
definition aaudio_bridge_builder_set_format :: "int \<Rightarrow> builder option \<Rightarrow> builder option" where
  "aaudio_bridge_builder_set_format v = map_option (\<lambda>b. b\<lparr>b_format := v\<rparr>)"
definition aaudio_bridge_builder_set_frames_per_callback :: "int \<Rightarrow> builder option \<Rightarrow> builder option" where
  "aaudio_bridge_builder_set_frames_per_callback v = map_option (\<lambda>b. b\<lparr>b_frames_per_callback := v\<rparr>)"
definition aaudio_bridge_builder_set_performance_mode :: "int \<Rightarrow> builder option \<Rightarrow> builder option" where
  "aaudio_bridge_builder_set_performance_mode v = map_option (\<lambda>b. b\<lparr>b_performance_mode := v\<rparr>)"
definition aaudio_bridge_builder_set_sample_rate :: "int \<Rightarrow> builder option \<Rightarrow> builder option" where
  "aaudio_bridge_builder_set_sample_rate v = map_option (\<lambda>b. b\<lparr>b_sample_rate := v\<rparr>)"
definition aaudio_bridge_builder_set_session_id :: "int \<Rightarrow> builder option \<Rightarrow> builder option" where
  "aaudio_bridge_builder_set_session_id v = map_option (\<lambda>b. b\<lparr>b_session_id := v\<rparr>)"
definition aaudio_bridge_builder_set_sharing_mode :: "int \<Rightarrow> builder option \<Rightarrow> builder option" where
  "aaudio_bridge_builder_set_sharing_mode v = map_option (\<lambda>b. b\<lparr>b_sharing_mode := v\<rparr>)"
definition aaudio_bridge_builder_set_data_callback :: "bool \<Rightarrow> builder option \<Rightarrow> builder option" where
  "aaudio_bridge_builder_set_data_callback c = map_option (\<lambda>b. b\<lparr>b_data_callback := c\<rparr>)"
definition aaudio_bridge_builder_set_error_callback :: "bool \<Rightarrow> builder option \<Rightarrow> builder option" where
  "aaudio_bridge_builder_set_error_callback c = map_option (\<lambda>b. b\<lparr>b_error_callback := c\<rparr>)"

section \<open>Opening\<close>

text \<open>The stream made from the builder, before any buffer or device; the samples are the zeros of \<^verbatim>\<open>memset\<close>.\<close>

definition zero_samples :: "int \<Rightarrow> nat \<Rightarrow> pcm" where
  "zero_samples fmt n = (if fmt = AAUDIO_FORMAT_PCM_FLOAT then Floats (replicate n (Fin 0)) else Ints (replicate n 0))"

definition configure :: "builder \<Rightarrow> stream option" where
  "configure b =
     (let rate = (if 0 < b_sample_rate b then b_sample_rate b else 48000);
          chans = (if 0 < b_channels b then b_channels b else 2);
          fmt = (if b_format b = AAUDIO_FORMAT_UNSPECIFIED then AAUDIO_FORMAT_PCM_FLOAT else b_format b)
      in if rate < 8000 \<or> 192000 < rate \<or> chans < 1 \<or> 8 < chans \<or> (fmt \<noteq> AAUDIO_FORMAT_PCM_FLOAT \<and> fmt \<noteq> AAUDIO_FORMAT_PCM_I16)
         then None
         else
           let f0 = (if 0 < b_frames_per_callback b then b_frames_per_callback b else 1024);
               f1 = (if f0 < 32 then 32 else f0);
               f = (if 8192 < f1 then 8192 else f1);
               burst = 1024;
               c0 = (if 0 < b_buffer_capacity_frames b then b_buffer_capacity_frames b else burst * 4);
               cap = (if c0 < f * 2 then f * 2 else c0);
               bs = (if cap < burst * 4 then cap else burst * 4)
           in Some \<lparr>s_state = AAUDIO_STREAM_STATE_UNINITIALIZED, s_stop_requested = False, s_thread_started = False,
                s_thread_exited = False, s_pthread_id = 0, s_sample_rate = nat rate, s_channels = nat chans, s_format = fmt,
                s_direction = b_direction b, s_performance_mode = b_performance_mode b, s_sharing_mode = b_sharing_mode b,
                s_buffer_capacity_frames = cap, s_buffer_size_frames = bs, s_frames_per_callback = nat f, s_frames_per_burst = burst,
                s_device_id = b_device_id b, s_session_id = b_session_id b, s_xruns = 0, s_frames_written = 0,
                s_callback_buffer = zero_samples fmt (nat f * nat chans), s_audout_initialized = False, s_audout_started = False,
                s_audout_rate = 0, s_out = [], s_data_size = [], s_out_capacity_frames = 0, s_resample_remainder = 0,
                s_producer_peak_milli = 0, s_output_peak_milli = 0, s_invalid_samples = 0, s_callback_count = 0,
                s_callback_stop_count = 0, s_submitted_buffers = 0, s_released_buffers = 0, s_wait_failures = 0,
                s_append_failures = 0, s_recoveries = 0, s_last_release_us = 0\<rparr>)"

definition align_up_0x1000 :: "nat \<Rightarrow> nat" where
  "align_up_0x1000 n = (n + 0xfff) div 0x1000 * 0x1000"

text \<open>The output buffers, of whole pages.\<close>

definition with_buffers :: "stream \<Rightarrow> stream" where
  "with_buffers s =
     (let cap = (s_frames_per_callback s * s_audout_rate s + s_sample_rate s - 1) div s_sample_rate s;
          bytes = align_up_0x1000 (cap * 2 * 2)
      in s\<lparr>s_out_capacity_frames := cap, s_out := replicate NX_AUDOUT_BUFFER_COUNT (replicate (bytes div 2) 0),
           s_data_size := replicate NX_AUDOUT_BUFFER_COUNT 0\<rparr>)"

text \<open>
  The streams that are allocated, the owner of the device and how often the device is opened, the
  streams registered for the diagnosis, and the threads that are not joined, each with its stream
  and its phase.  \<open>wild\<close> notes an access of a thread to a stream that is freed, \<open>joins\<close> a join
  of a thread that is not there.
\<close>

datatype phase = Fresh | Begun | Running | Ending | Leaving | Gone

datatype waits = Idle | JoinStart nat | JoinStop nat | JoinClose nat

record audio =
  heap :: "nat \<rightharpoonup> stream"
  g_audout_owner :: "nat option"
  device_open :: nat
  g_streams :: "nat list"
  threads :: "nat \<rightharpoonup> nat \<times> phase"
  fresh_stream :: nat
  fresh_tid :: nat
  dev :: device
  control :: waits
  wild :: bool
  joins :: bool

text \<open>What opening meets: which allocations work, and the device.\<close>

record audio_host =
  h_stream :: bool
  h_samples :: bool
  h_init :: bool
  h_rate :: nat
  h_channels :: nat
  h_int16 :: bool
  h_running :: bool
  h_output :: "nat \<Rightarrow> bool"

definition aaudio_bridge_builder_open_stream :: "builder \<Rightarrow> audio_host \<Rightarrow> audio \<Rightarrow> (int \<times> nat option) \<times> audio" where
  "aaudio_bridge_builder_open_stream b h a =
     (if b_direction b \<noteq> AAUDIO_DIRECTION_OUTPUT then ((AAUDIO_ERROR_UNIMPLEMENTED, None), a)
      else if \<not> b_data_callback b then ((AAUDIO_ERROR_ILLEGAL_ARGUMENT, None), a)
      else if \<not> h_stream h then ((AAUDIO_ERROR_NO_MEMORY, None), a)
      else case configure b of
             None \<Rightarrow> ((AAUDIO_ERROR_ILLEGAL_ARGUMENT, None), a)
           | Some s \<Rightarrow>
               if \<not> h_samples h then ((AAUDIO_ERROR_NO_MEMORY, None), a)
               else if g_audout_owner a \<noteq> None then ((AAUDIO_ERROR_UNAVAILABLE, None), a)
               else if \<not> h_init h then ((AAUDIO_ERROR_UNAVAILABLE, None), a)
               else
                 let a1 = a\<lparr>device_open := device_open a + 1\<rparr>
                 in if h_rate h \<noteq> 48000 \<or> h_channels h \<noteq> 2 \<or> \<not> h_int16 h
                    then ((AAUDIO_ERROR_UNAVAILABLE, None), a1\<lparr>device_open := device_open a1 - 1\<rparr>)
                    else
                      let d = audout_flush (if h_running h then audout_stop (dev a1) else dev a1);
                          k = fresh_stream a1; a2 = a1\<lparr>dev := d, g_audout_owner := Some k, fresh_stream := k + 1\<rparr>;
                          s2 = with_buffers (s\<lparr>s_audout_initialized := True, s_audout_rate := h_rate h\<rparr>)
                      in if list_all (h_output h) [0..<NX_AUDOUT_BUFFER_COUNT]
                         then ((AAUDIO_OK, Some k),
                               a2\<lparr>heap := (heap a2)(k \<mapsto> s2\<lparr>s_state := AAUDIO_STREAM_STATE_OPEN\<rparr>), g_streams := k # g_streams a2\<rparr>)
                         else ((AAUDIO_ERROR_NO_MEMORY, None),
                               a2\<lparr>g_audout_owner := (if g_audout_owner a2 = Some k then None else g_audout_owner a2),
                                  device_open := device_open a2 - 1\<rparr>))"

section \<open>Starting, stopping and closing\<close>

definition upd_stream :: "nat \<Rightarrow> (stream \<Rightarrow> stream) \<Rightarrow> audio \<Rightarrow> audio" where
  "upd_stream k f a = (case heap a k of None \<Rightarrow> a\<lparr>wild := True\<rparr> | Some s \<Rightarrow> a\<lparr>heap := (heap a)(k \<mapsto> f s)\<rparr>)"

definition no_thread :: "stream \<Rightarrow> stream" where
  "no_thread s = s\<lparr>s_pthread_id := 0, s_thread_started := False, s_thread_exited := False\<rparr>"

text \<open>A join removes the thread; joining one that is not there is noted.\<close>

definition join_thread :: "nat \<Rightarrow> audio \<Rightarrow> audio" where
  "join_thread tid a = (if threads a tid = None then a\<lparr>joins := True\<rparr> else a\<lparr>threads := (threads a)(tid := None)\<rparr>)"

text \<open>The rest of \<^verbatim>\<open>request_start\<close>; \<open>creates\<close> says whether the new thread can be created.\<close>

definition start_go :: "bool \<Rightarrow> nat \<Rightarrow> stream \<Rightarrow> audio \<Rightarrow> int \<times> audio" where
  "start_go creates k s a =
     (if s_thread_started s \<or> (s_state s \<noteq> AAUDIO_STREAM_STATE_OPEN \<and> s_state s \<noteq> AAUDIO_STREAM_STATE_STOPPED)
      then (AAUDIO_ERROR_INVALID_STATE, a)
      else
        let s1 = s\<lparr>s_stop_requested := False, s_thread_exited := False, s_state := AAUDIO_STREAM_STATE_STARTING,
                   s_resample_remainder := 0, s_audout_started := False\<rparr>;
            a1 = a\<lparr>dev := audout_flush (if s_audout_started s then audout_stop (dev a) else dev a)\<rparr>
        in if \<not> creates
           then (AAUDIO_ERROR_INTERNAL, a1\<lparr>heap := (heap a1)(k \<mapsto> s1\<lparr>s_state := AAUDIO_STREAM_STATE_OPEN\<rparr>)\<rparr>)
           else let tid = fresh_tid a1
                in (AAUDIO_OK, a1\<lparr>heap := (heap a1)(k \<mapsto> s1\<lparr>s_pthread_id := tid, s_thread_started := True\<rparr>),
                                 threads := (threads a1)(tid \<mapsto> (k, Fresh)), fresh_tid := tid + 1\<rparr>))"

definition aaudio_bridge_stream_request_start :: "bool \<Rightarrow> nat option \<Rightarrow> audio \<Rightarrow> int option \<times> audio" where
  "aaudio_bridge_stream_request_start creates handle a =
     (case handle of
        None \<Rightarrow> (Some AAUDIO_ERROR_INVALID_HANDLE, a)
      | Some k \<Rightarrow>
          (case heap a k of
             None \<Rightarrow> (Some AAUDIO_ERROR_INVALID_HANDLE, a\<lparr>wild := True\<rparr>)
           | Some s \<Rightarrow>
               if s_thread_started s \<and> s_thread_exited s then (None, a\<lparr>control := JoinStart k\<rparr>)
               else (case start_go creates k s a of (r, a') \<Rightarrow> (Some r, a'))))"

text \<open>After the join.\<close>

definition start_joined :: "bool \<Rightarrow> nat \<Rightarrow> audio \<Rightarrow> int \<times> audio" where
  "start_joined creates k a =
     (case heap a k of
        None \<Rightarrow> (AAUDIO_ERROR_INVALID_HANDLE, a\<lparr>wild := True, control := Idle\<rparr>)
      | Some s \<Rightarrow>
          let a1 = (if s_pthread_id s \<noteq> 0 then join_thread (s_pthread_id s) a else a); s1 = no_thread s
          in start_go creates k s1 (a1\<lparr>heap := (heap a1)(k \<mapsto> s1), control := Idle\<rparr>))"

definition aaudio_bridge_stream_request_stop :: "nat option \<Rightarrow> audio \<Rightarrow> int option \<times> audio" where
  "aaudio_bridge_stream_request_stop handle a =
     (case handle of
        None \<Rightarrow> (Some AAUDIO_ERROR_INVALID_HANDLE, a)
      | Some k \<Rightarrow>
          (case heap a k of
             None \<Rightarrow> (Some AAUDIO_ERROR_INVALID_HANDLE, a\<lparr>wild := True\<rparr>)
           | Some s \<Rightarrow>
               if \<not> s_thread_started s
               then (Some (if s_state s = AAUDIO_STREAM_STATE_OPEN \<or> s_state s = AAUDIO_STREAM_STATE_STOPPED then AAUDIO_OK
                           else AAUDIO_ERROR_INVALID_STATE), a)
               else (None, upd_stream k (\<lambda>s. s\<lparr>s_state := AAUDIO_STREAM_STATE_STOPPING, s_stop_requested := True\<rparr>) (a\<lparr>control := JoinStop k\<rparr>))))"

definition stop_joined :: "nat \<Rightarrow> audio \<Rightarrow> audio" where
  "stop_joined k a =
     (case heap a k of
        None \<Rightarrow> a\<lparr>wild := True, control := Idle\<rparr>
      | Some s \<Rightarrow>
          let a1 = (if s_pthread_id s \<noteq> 0 then join_thread (s_pthread_id s) a else a)
          in a1\<lparr>heap := (heap a1)(k \<mapsto> (no_thread s)\<lparr>s_state := AAUDIO_STREAM_STATE_STOPPED\<rparr>), control := Idle\<rparr>)"

text \<open>The rest of closing, when there is no thread any more.\<close>

definition close_rest :: "nat \<Rightarrow> audio \<Rightarrow> int \<times> audio" where
  "close_rest k a =
     (case heap a k of
        None \<Rightarrow> (AAUDIO_ERROR_INVALID_HANDLE, a\<lparr>wild := True\<rparr>)
      | Some s \<Rightarrow>
          let a1 = a\<lparr>g_streams := remove1 k (g_streams a)\<rparr>;
              a2 = (if s_audout_initialized s
                    then a1\<lparr>dev := audout_flush (audout_stop (dev a1)),
                            g_audout_owner := (if g_audout_owner a1 = Some k then None else g_audout_owner a1),
                            device_open := device_open a1 - 1\<rparr>
                    else a1)
          in (AAUDIO_OK, a2\<lparr>heap := (heap a2)(k := None)\<rparr>))"

definition aaudio_bridge_stream_close :: "nat option \<Rightarrow> audio \<Rightarrow> int option \<times> audio" where
  "aaudio_bridge_stream_close handle a =
     (case handle of
        None \<Rightarrow> (Some AAUDIO_ERROR_INVALID_HANDLE, a)
      | Some k \<Rightarrow>
          (case heap a k of
             None \<Rightarrow> (Some AAUDIO_ERROR_INVALID_HANDLE, a\<lparr>wild := True\<rparr>)
           | Some s \<Rightarrow>
               if s_thread_started s
               then (None, upd_stream k (\<lambda>s. s\<lparr>s_state := AAUDIO_STREAM_STATE_STOPPING, s_stop_requested := True\<rparr>) (a\<lparr>control := JoinClose k\<rparr>))
               else (case close_rest k a of (r, a') \<Rightarrow> (Some r, a'))))"

definition close_joined :: "nat \<Rightarrow> audio \<Rightarrow> int \<times> audio" where
  "close_joined k a = close_rest k (stop_joined k a)"

section \<open>The thread, step by step\<close>

text \<open>A step of the thread \<open>tid\<close> on its stream and the device, into the phase \<open>ph\<close>.\<close>

definition thread_to :: "nat \<Rightarrow> phase \<Rightarrow> (thread \<Rightarrow> thread) \<Rightarrow> audio \<Rightarrow> audio" where
  "thread_to tid ph f a =
     (case threads a tid of
        None \<Rightarrow> a
      | Some (k, _) \<Rightarrow>
          (case heap a k of
             None \<Rightarrow> a\<lparr>wild := True\<rparr>
           | Some s \<Rightarrow>
               (case f (s, dev a) of
                  (s', d') \<Rightarrow> a\<lparr>heap := (heap a)(k \<mapsto> s'), dev := d', threads := (threads a)(tid \<mapsto> (k, ph))\<rparr>)))"

text \<open>
  The steps of \<^verbatim>\<open>aaudio_output_thread\<close>: its beginning, where the callback of the game becomes \<open>cb\<close>,
  the priming, a turn of the loop, the end, and the last look at the stream for the log.
\<close>

definition thread_begin :: "(nat \<Rightarrow> pcm \<times> bool) \<Rightarrow> nat \<Rightarrow> audio \<Rightarrow> audio" where
  "thread_begin cb tid =
     thread_to tid Begun (\<lambda>(s, d). (s\<lparr>s_thread_exited := False, s_state := AAUDIO_STREAM_STATE_STARTED\<rparr>, d\<lparr>d_callback := cb\<rparr>))"

definition thread_prime :: "(rat \<Rightarrow> rat) \<Rightarrow> nat \<Rightarrow> audio \<Rightarrow> audio" where
  "thread_prime rnd tid a =
     (case threads a tid of
        None \<Rightarrow> a
      | Some (k, _) \<Rightarrow>
          (case heap a k of
             None \<Rightarrow> a\<lparr>wild := True\<rparr>
           | Some s \<Rightarrow>
               (case prime_audout rnd (s, dev a) of
                  None \<Rightarrow> a\<lparr>wild := True\<rparr>
                | Some (r, s', d') \<Rightarrow>
                    thread_to tid (if r = Done then Running else Ending) (\<lambda>_. (s', if r = Fail then report_error d' else d')) a)))"

definition thread_turn :: "(rat \<Rightarrow> rat) \<Rightarrow> nat \<Rightarrow> audio \<Rightarrow> audio" where
  "thread_turn rnd tid a =
     (case threads a tid of
        None \<Rightarrow> a
      | Some (k, _) \<Rightarrow>
          (case heap a k of
             None \<Rightarrow> a\<lparr>wild := True\<rparr>
           | Some s \<Rightarrow>
               (case output_loop rnd 1 (s, dev a) of
                  None \<Rightarrow> a\<lparr>wild := True\<rparr>
                | Some (finished, t) \<Rightarrow> thread_to tid (if finished then Ending else Running) (\<lambda>_. t) a)))"

definition thread_leave :: "nat \<Rightarrow> audio \<Rightarrow> audio" where
  "thread_leave tid = thread_to tid Leaving thread_end"

definition thread_log :: "nat \<Rightarrow> audio \<Rightarrow> audio" where
  "thread_log tid = thread_to tid Gone (\<lambda>t. t)"

section \<open>Questions\<close>

definition aaudio_bridge_stream_get_state :: "nat option \<Rightarrow> audio \<Rightarrow> int" where
  "aaudio_bridge_stream_get_state handle a =
     (case handle of None \<Rightarrow> AAUDIO_STREAM_STATE_UNINITIALIZED
      | Some k \<Rightarrow> (case heap a k of None \<Rightarrow> AAUDIO_STREAM_STATE_UNINITIALIZED | Some s \<Rightarrow> s_state s))"

text \<open>The values of a stream that can be asked for; without a valid stream the answer is an error.\<close>

definition ask :: "(stream \<Rightarrow> int) \<Rightarrow> nat option \<Rightarrow> audio \<Rightarrow> int" where
  "ask value handle a =
     (case handle of None \<Rightarrow> AAUDIO_ERROR_INVALID_HANDLE
      | Some k \<Rightarrow> (case heap a k of None \<Rightarrow> AAUDIO_ERROR_INVALID_HANDLE | Some s \<Rightarrow> value s))"

definition aaudio_bridge_stream_get_buffer_capacity :: "nat option \<Rightarrow> audio \<Rightarrow> int" where
  "aaudio_bridge_stream_get_buffer_capacity = ask s_buffer_capacity_frames"
definition aaudio_bridge_stream_get_buffer_size :: "nat option \<Rightarrow> audio \<Rightarrow> int" where
  "aaudio_bridge_stream_get_buffer_size = ask s_buffer_size_frames"
definition aaudio_bridge_stream_get_device_id :: "nat option \<Rightarrow> audio \<Rightarrow> int" where
  "aaudio_bridge_stream_get_device_id = ask s_device_id"
definition aaudio_bridge_stream_get_frames_per_burst :: "nat option \<Rightarrow> audio \<Rightarrow> int" where
  "aaudio_bridge_stream_get_frames_per_burst = ask s_frames_per_burst"
definition aaudio_bridge_stream_get_session_id :: "nat option \<Rightarrow> audio \<Rightarrow> int" where
  "aaudio_bridge_stream_get_session_id = ask s_session_id"
definition aaudio_bridge_stream_get_xrun_count :: "nat option \<Rightarrow> audio \<Rightarrow> int" where
  "aaudio_bridge_stream_get_xrun_count = ask s_xruns"
definition aaudio_bridge_stream_get_sample_rate :: "nat option \<Rightarrow> audio \<Rightarrow> int" where
  "aaudio_bridge_stream_get_sample_rate = ask (\<lambda>s. int (s_sample_rate s))"
definition aaudio_bridge_stream_get_channel_count :: "nat option \<Rightarrow> audio \<Rightarrow> int" where
  "aaudio_bridge_stream_get_channel_count = ask (\<lambda>s. int (s_channels s))"
definition aaudio_bridge_stream_get_format :: "nat option \<Rightarrow> audio \<Rightarrow> int" where
  "aaudio_bridge_stream_get_format = ask s_format"
definition aaudio_bridge_stream_get_direction :: "nat option \<Rightarrow> audio \<Rightarrow> int" where
  "aaudio_bridge_stream_get_direction = ask s_direction"
definition aaudio_bridge_stream_get_performance_mode :: "nat option \<Rightarrow> audio \<Rightarrow> int" where
  "aaudio_bridge_stream_get_performance_mode = ask s_performance_mode"
definition aaudio_bridge_stream_get_sharing_mode :: "nat option \<Rightarrow> audio \<Rightarrow> int" where
  "aaudio_bridge_stream_get_sharing_mode = ask s_sharing_mode"
definition aaudio_bridge_stream_get_frames_written :: "nat option \<Rightarrow> audio \<Rightarrow> int" where
  "aaudio_bridge_stream_get_frames_written = ask s_frames_written"
definition aaudio_bridge_stream_is_mmap_used :: "nat option \<Rightarrow> audio \<Rightarrow> int" where
  "aaudio_bridge_stream_is_mmap_used handle a = 0"

definition aaudio_bridge_stream_set_buffer_size :: "int \<Rightarrow> stream \<Rightarrow> int \<times> stream" where
  "aaudio_bridge_stream_set_buffer_size n s =
     (if n < 0 then (AAUDIO_ERROR_OUT_OF_RANGE, s)
      else let f = (if s_buffer_capacity_frames s < n then s_buffer_capacity_frames s else n);
               g = (if f < s_frames_per_burst s then s_frames_per_burst s else f)
           in (g, s\<lparr>s_buffer_size_frames := g\<rparr>))"

text \<open>
  Waiting for another state: \<open>obs n\<close> is the state at the \<open>n\<close>-th look, the result is the answer, the
  state reported and the time slept.  Without a timeout the loop need not end.
\<close>

definition wait_result :: "(nat \<Rightarrow> int) \<Rightarrow> nat \<Rightarrow> int \<Rightarrow> int \<Rightarrow> int \<times> int \<times> int" where
  "wait_result obs n input waited = (if obs (n + 1) = input then AAUDIO_ERROR_TIMEOUT else AAUDIO_OK, obs n, waited)"

partial_function (option) aaudio_bridge_stream_wait_for_state_change ::
  "(nat \<Rightarrow> int) \<Rightarrow> int \<Rightarrow> int \<Rightarrow> nat \<Rightarrow> int \<Rightarrow> (int \<times> int \<times> int) option" where
  "aaudio_bridge_stream_wait_for_state_change obs input timeout n waited =
     (if obs n \<noteq> input then Some (wait_result obs (n + 1) input waited)
      else if \<not> timeout < 0 \<and> (timeout = 0 \<or> timeout \<le> waited) then Some (AAUDIO_ERROR_TIMEOUT, obs (n + 1), waited)
      else
        let sleep = (if \<not> timeout < 0 \<and> 0 < timeout \<and> timeout - waited < 1000000 then timeout - waited else 1000000)
        in if sleep \<le> 0 then Some (wait_result obs (n + 1) input waited)
           else aaudio_bridge_stream_wait_for_state_change obs input timeout (n + 1) (waited + sleep))"

text \<open>With a timeout the wait returns, and has slept no longer than that.\<close>

lemma wait_returns:
  assumes "0 \<le> waited" and "waited \<le> timeout"
  shows "\<exists>r st w. aaudio_bridge_stream_wait_for_state_change obs input timeout n waited = Some (r, st, w) \<and> waited \<le> w \<and> w \<le> timeout"
  using assms
proof (induction "nat (timeout - waited)" arbitrary: n waited rule: less_induct)
  case less
  note step = aaudio_bridge_stream_wait_for_state_change.simps [of obs input timeout n waited]
  show ?case
  proof (cases "obs n \<noteq> input \<or> timeout \<le> waited")
    case True
    then show ?thesis using less.prems by (auto simp: step wait_result_def)
  next
    case False
    define sleep :: int where "sleep = (if timeout - waited < 1000000 then timeout - waited else 1000000)"
    have s: "0 < sleep" "waited + sleep \<le> timeout" using False by (auto simp: sleep_def)
    have e: "aaudio_bridge_stream_wait_for_state_change obs input timeout n waited =
        aaudio_bridge_stream_wait_for_state_change obs input timeout (n + 1) (waited + sleep)"
      using False less.prems s by (subst step) (auto simp: sleep_def Let_def)
    have "nat (timeout - (waited + sleep)) < nat (timeout - waited)" using s by simp
    from less.hyps [OF this, of "n + 1"] less.prems s show ?thesis unfolding e by force
  qed
qed

end
