(* ===== verification/AAudioSystem.thy ===== *)
theory AAudioSystem
  imports AAudioStream
begin

text \<open>Every run of the audio output: one thread of the game calls the interface, and the output threads run in between.\<close>

section \<open>Runs\<close>

definition samples_of :: "stream \<Rightarrow> nat" where
  "samples_of s = s_frames_per_callback s * s_channels s"

definition handle_ok :: "nat option \<Rightarrow> audio \<Rightarrow> bool" where
  "handle_ok handle a \<longleftrightarrow> (case handle of None \<Rightarrow> True | Some k \<Rightarrow> heap a k \<noteq> None)"

text \<open>The thread that a join waits for has ended.\<close>

definition joinable :: "nat \<Rightarrow> audio \<Rightarrow> bool" where
  "joinable k a \<longleftrightarrow> (case heap a k of None \<Rightarrow> True | Some s \<Rightarrow> threads a (s_pthread_id s) = Some (k, Gone))"

inductive astep :: "audio \<Rightarrow> audio \<Rightarrow> bool" where
  step_open: "control a = Idle \<Longrightarrow> astep a (snd (aaudio_bridge_builder_open_stream b h a))"
| step_start: "control a = Idle \<Longrightarrow> handle_ok k a \<Longrightarrow> astep a (snd (aaudio_bridge_stream_request_start c k a))"
| step_started: "control a = JoinStart k \<Longrightarrow> joinable k a \<Longrightarrow> astep a (snd (start_joined c k a))"
| step_stop: "control a = Idle \<Longrightarrow> handle_ok k a \<Longrightarrow> astep a (snd (aaudio_bridge_stream_request_stop k a))"
| step_stopped: "control a = JoinStop k \<Longrightarrow> joinable k a \<Longrightarrow> astep a (stop_joined k a)"
| step_close: "control a = Idle \<Longrightarrow> handle_ok k a \<Longrightarrow> astep a (snd (aaudio_bridge_stream_close k a))"
| step_closed: "control a = JoinClose k \<Longrightarrow> joinable k a \<Longrightarrow> astep a (snd (close_joined k a))"
| step_resize: "control a = Idle \<Longrightarrow> handle_ok (Some k) a \<Longrightarrow> astep a (upd_stream k (\<lambda>s. snd (aaudio_bridge_stream_set_buffer_size n s)) a)"
| step_begin: "threads a tid = Some (k, Fresh) \<Longrightarrow> (\<And>s. heap a k = Some s \<Longrightarrow> callback_fills cb (samples_of s)) \<Longrightarrow>
    astep a (thread_begin cb tid a)"
| step_prime: "threads a tid = Some (k, Begun) \<Longrightarrow> astep a (thread_prime rnd tid a)"
| step_turn: "threads a tid = Some (k, Running) \<Longrightarrow> astep a (thread_turn rnd tid a)"
| step_leave: "threads a tid = Some (k, Ending) \<Longrightarrow> astep a (thread_leave tid a)"
| step_log: "threads a tid = Some (k, Leaving) \<Longrightarrow> astep a (thread_log tid a)"

definition audio_start :: "audio \<Rightarrow> bool" where
  "audio_start a \<longleftrightarrow> heap a = (\<lambda>_. None) \<and> g_audout_owner a = None \<and> device_open a = 0 \<and> g_streams a = [] \<and>
     threads a = (\<lambda>_. None) \<and> 0 < fresh_tid a \<and> control a = Idle \<and> \<not> wild a \<and> \<not> joins a \<and>
     queue_ok (dev a) \<and> (\<forall>n. \<not> d_flush_fails (dev a) n)"

inductive audio_reachable :: "audio \<Rightarrow> bool" where
  reach_start: "audio_start a \<Longrightarrow> audio_reachable a"
| reach_step: "audio_reachable a \<Longrightarrow> astep a a' \<Longrightarrow> audio_reachable a'"

section \<open>The invariant\<close>

definition stream_fine :: "stream \<Rightarrow> bool" where
  "stream_fine s \<longleftrightarrow> stream_ok s \<and> counted s \<and> s_audout_initialized s"

definition owner_fine :: "audio \<Rightarrow> bool" where
  "owner_fine a \<longleftrightarrow> (case g_audout_owner a of
       None \<Rightarrow> heap a = (\<lambda>_. None) \<and> device_open a = 0 \<and> g_streams a = []
     | Some k \<Rightarrow> dom (heap a) = {k} \<and> device_open a = 1 \<and> g_streams a = [k])"

definition threads_fine :: "audio \<Rightarrow> bool" where
  "threads_fine a \<longleftrightarrow>
     (\<forall>tid k ph. threads a tid = Some (k, ph) \<longrightarrow>
        (\<exists>s. heap a k = Some s \<and> s_thread_started s \<and> s_pthread_id s = tid \<and> 0 < tid \<and> tid < fresh_tid a \<and>
             (ph \<in> {Fresh, Begun} \<longrightarrow> d_queue (dev a) = []) \<and>
             (ph \<in> {Begun, Running, Ending} \<longrightarrow> callback_fills (d_callback (dev a)) (samples_of s)))) \<and>
     (\<forall>k s. heap a k = Some s \<and> s_thread_started s \<longrightarrow> (\<exists>ph. threads a (s_pthread_id s) = Some (k, ph)))"

definition control_fine :: "audio \<Rightarrow> bool" where
  "control_fine a \<longleftrightarrow> (\<forall>k. control a \<in> {JoinStart k, JoinStop k, JoinClose k} \<longrightarrow> (\<exists>s. heap a k = Some s \<and> s_thread_started s))"

definition audio_inv :: "audio \<Rightarrow> bool" where
  "audio_inv a \<longleftrightarrow> owner_fine a \<and> (\<forall>k s. heap a k = Some s \<longrightarrow> stream_fine s) \<and> threads_fine a \<and> control_fine a \<and>
     0 < fresh_tid a \<and> \<not> wild a \<and> \<not> joins a \<and> queue_ok (dev a) \<and> (\<forall>n. \<not> d_flush_fails (dev a) n)"

lemma audio_invD:
  assumes "audio_inv a"
  shows "owner_fine a" "\<And>k s. heap a k = Some s \<Longrightarrow> stream_fine s" "threads_fine a" "control_fine a" "0 < fresh_tid a"
    "\<not> wild a" "\<not> joins a" "queue_ok (dev a)" "\<And>n. \<not> d_flush_fails (dev a) n"
  using assms unfolding audio_inv_def by blast+

lemma threads_fineD:
  assumes "threads_fine a" and "threads a tid = Some (k, ph)"
  obtains s where "heap a k = Some s" "s_thread_started s" "s_pthread_id s = tid" "0 < tid" "tid < fresh_tid a"
    "ph \<in> {Fresh, Begun} \<Longrightarrow> d_queue (dev a) = []"
    "ph \<in> {Begun, Running, Ending} \<Longrightarrow> callback_fills (d_callback (dev a)) (samples_of s)"
  using assms unfolding threads_fine_def by blast

text \<open>There is at most one stream, and so at most one thread.\<close>

lemma only_stream:
  assumes "owner_fine a" and "heap a k = Some s" and "heap a j = Some t"
  shows "j = k"
proof -
  have "k \<in> dom (heap a)" "j \<in> dom (heap a)" using assms(2,3) by auto
  then show ?thesis using assms(1) by (auto simp: owner_fine_def simp del: domIff split: option.splits)
qed

lemma only_thread:
  assumes "audio_inv a" and "threads a tid = Some (k, ph)" and "threads a tid' = Some (k', ph')"
  shows "tid' = tid \<and> k' = k"
proof -
  obtain s where s: "heap a k = Some s" "s_pthread_id s = tid" using threads_fineD [OF audio_invD(3) [OF assms(1)] assms(2)] by blast
  obtain s' where s': "heap a k' = Some s'" "s_pthread_id s' = tid'"
    using threads_fineD [OF audio_invD(3) [OF assms(1)] assms(3)] by blast
  show ?thesis using only_stream [OF audio_invD(1) [OF assms(1)] s(1) s'(1)] s s' by simp
qed

section \<open>Steps of the thread\<close>

lemma thread_to_keeps:
  assumes inv: "audio_inv a" and t: "threads a tid = Some (k, ph0)" and s: "heap a k = Some s"
    and f: "f (s, dev a) = (s', d')" and fine: "stream_fine s'" and lf: "life s' = life s" and sz: "samples_of s' = samples_of s"
    and q: "queue_ok d'" "\<And>n. \<not> d_flush_fails d' n"
    and e: "ph \<in> {Fresh, Begun} \<Longrightarrow> d_queue d' = []"
    and c: "ph \<in> {Begun, Running, Ending} \<Longrightarrow> callback_fills (d_callback d') (samples_of s)"
  shows "audio_inv (thread_to tid ph f a)"
proof -
  let ?a = "a\<lparr>heap := (heap a)(k \<mapsto> s'), dev := d', threads := (threads a)(tid \<mapsto> (k, ph))\<rparr>"
  have a': "thread_to tid ph f a = ?a" using t s f by (simp add: thread_to_def)
  note I = audio_invD [OF inv]
  have st: "s_thread_started s" "s_pthread_id s = tid" "0 < tid" "tid < fresh_tid a"
    using threads_fineD [OF I(3) t] s by (metis option.inject)+
  have st': "s_thread_started s'" "s_pthread_id s' = tid" using lf st by (simp_all add: life_def)
  have "owner_fine ?a" using I(1) s by (auto simp: owner_fine_def dom_def split: option.splits)
  moreover have "stream_fine t" if "heap ?a j = Some t" for j t using that I(2) fine by (auto split: if_splits)
  moreover have "threads_fine ?a"
    unfolding threads_fine_def
  proof (intro conjI allI impI)
    fix tid1 k1 ph1 assume "threads ?a tid1 = Some (k1, ph1)"
    then have "tid1 = tid \<and> k1 = k \<and> ph1 = ph" using only_thread [OF inv t] by (auto split: if_splits)
    then show "\<exists>s1. heap ?a k1 = Some s1 \<and> s_thread_started s1 \<and> s_pthread_id s1 = tid1 \<and> 0 < tid1 \<and> tid1 < fresh_tid ?a \<and>
        (ph1 \<in> {Fresh, Begun} \<longrightarrow> d_queue (dev ?a) = []) \<and>
        (ph1 \<in> {Begun, Running, Ending} \<longrightarrow> callback_fills (d_callback (dev ?a)) (samples_of s1))"
      using st st' e c sz by auto
  next
    fix k1 s1 assume "heap ?a k1 = Some s1 \<and> s_thread_started s1"
    then have "k1 = k \<and> s1 = s'" using only_stream [OF I(1) s] by (auto split: if_splits)
    then show "\<exists>ph. threads ?a (s_pthread_id s1) = Some (k1, ph)" using st' by simp
  qed
  moreover have "control_fine ?a" using I(4) st' by (auto simp: control_fine_def)
  ultimately show ?thesis unfolding a' audio_inv_def using I q by simp
qed

lemma inside_thread:
  assumes inv: "audio_inv a" and t: "threads a tid = Some (k, ph)" and s: "heap a k = Some s" and p: "ph \<in> {Begun, Running, Ending}"
  shows "thread_inv (d_callback (dev a)) (samples_of s) (life s) (s, dev a)"
    and "callback_fills (d_callback (dev a)) (samples_of s)"
proof -
  note I = audio_invD [OF inv]
  show "callback_fills (d_callback (dev a)) (samples_of s)"
    using threads_fineD [OF I(3) t] s p by (metis option.inject)
  show "thread_inv (d_callback (dev a)) (samples_of s) (life s) (s, dev a)"
    using I(2) [OF s] I(8,9) by (simp add: thread_inv_def stream_fine_def samples_of_def)
qed

lemma after_thread:
  assumes inv: "audio_inv a" and t: "threads a tid = Some (k, ph0)" and s: "heap a k = Some s" and p: "ph0 \<in> {Begun, Running, Ending}"
    and r: "thread_inv (d_callback (dev a)) (samples_of s) (life s) (s', d')" and ph: "ph \<notin> {Fresh, Begun}"
    and f: "f (s, dev a) = (s', d')"
  shows "audio_inv (thread_to tid ph f a)"
proof (rule thread_to_keeps [where f = f, OF inv t s f])
  have "s_audout_initialized s" using audio_invD(2) [OF inv s] by (simp add: stream_fine_def)
  then show "stream_fine s'" using r by (simp add: thread_inv_def stream_fine_def life_def)
  show "callback_fills (d_callback d') (samples_of s)"
    using inside_thread(2) [OF inv t s p] r by (simp add: thread_inv_def)
qed (use r ph in \<open>auto simp: thread_inv_def samples_of_def\<close>)

lemma thread_begin_keeps:
  assumes inv: "audio_inv a" and t: "threads a tid = Some (k, Fresh)"
    and cb: "\<And>s. heap a k = Some s \<Longrightarrow> callback_fills cb (samples_of s)"
  shows "audio_inv (thread_begin cb tid a)"
proof -
  obtain s where s: "heap a k = Some s" "d_queue (dev a) = []" using threads_fineD [OF audio_invD(3) [OF inv] t] by blast
  note fine = audio_invD(2) [OF inv s(1)]
  have so: "stream_ok s" using fine by (simp add: stream_fine_def)
  have "stream_ok (s\<lparr>s_thread_exited := False, s_state := AAUDIO_STREAM_STATE_STARTED\<rparr>)"
    by (rule stream_ok_cong [OF so]) (use so in \<open>auto simp: stream_ok_def\<close>)
  then show ?thesis
    unfolding thread_begin_def
    by (intro thread_to_keeps [OF inv t s(1), where s' = "s\<lparr>s_thread_exited := False, s_state := AAUDIO_STREAM_STATE_STARTED\<rparr>"
          and d' = "(dev a)\<lparr>d_callback := cb\<rparr>"])
      (use fine s cb audio_invD(8,9) [OF inv] in \<open>auto simp: stream_fine_def counted_def life_def samples_of_def queue_ok_def\<close>)
qed

lemma thread_prime_keeps:
  assumes inv: "audio_inv a" and t: "threads a tid = Some (k, Begun)"
  shows "audio_inv (thread_prime rnd tid a)"
proof -
  obtain s where s: "heap a k = Some s" "d_queue (dev a) = []" using threads_fineD [OF audio_invD(3) [OF inv] t] by blast
  note T = inside_thread [OF inv t s(1)]
  obtain r s' d' where p: "prime_audout rnd (s, dev a) = Some (r, s', d')"
      "thread_inv (d_callback (dev a)) (samples_of s) (life s) (s', d')"
    using prime_audout_effect [OF T, of rnd] s(2) by auto
  have "thread_inv (d_callback (dev a)) (samples_of s) (life s) (s', report_error d')"
    by (rule thread_inv_same [OF p(2) same_refl(1) device_calls(7)])
  then have "thread_inv (d_callback (dev a)) (samples_of s) (life s) (s', if r = Fail then report_error d' else d')" using p(2) by simp
  from after_thread [OF inv t s(1) _ this] show ?thesis
    using t s p(1) by (cases "r = Done") (simp_all add: thread_prime_def)
qed

lemma thread_turn_keeps:
  assumes inv: "audio_inv a" and t: "threads a tid = Some (k, Running)"
  shows "audio_inv (thread_turn rnd tid a)"
proof -
  obtain s where s: "heap a k = Some s" using threads_fineD [OF audio_invD(3) [OF inv] t] by blast
  note T = inside_thread [OF inv t s]
  obtain b t' where l: "output_loop rnd 1 (s, dev a) = Some (b, t')" "thread_inv (d_callback (dev a)) (samples_of s) (life s) t'"
    using output_loop_effect [OF T, of rnd 1] by auto
  obtain s' d' where t': "t' = (s', d')" by fastforce
  show ?thesis using after_thread [OF inv t s _ l(2) [unfolded t']] t s l(1) t'
    by (cases b) (simp_all add: thread_turn_def del: output_loop.simps One_nat_def)
qed

lemma thread_leave_keeps:
  assumes inv: "audio_inv a" and t: "threads a tid = Some (k, Ending)"
  shows "audio_inv (thread_leave tid a)"
proof -
  obtain s where s: "heap a k = Some s" using threads_fineD [OF audio_invD(3) [OF inv] t] by blast
  obtain s' d' where e: "thread_end (s, dev a) = (s', d')" by fastforce
  show ?thesis unfolding thread_leave_def
    using after_thread [where f = thread_end, OF inv t s _ conjunct1 [OF thread_end_effect [OF inside_thread(1) [OF inv t s] e]] _ e] by simp
qed

lemma thread_log_keeps:
  assumes inv: "audio_inv a" and t: "threads a tid = Some (k, Leaving)"
  shows "audio_inv (thread_log tid a)"
proof -
  obtain s where s: "heap a k = Some s" using threads_fineD [OF audio_invD(3) [OF inv] t] by blast
  show ?thesis unfolding thread_log_def
    by (rule thread_to_keeps [OF inv t s]) (use audio_invD(2,8,9) [OF inv] s in auto)
qed

section \<open>Opening\<close>

definition shaped :: "int \<Rightarrow> int \<Rightarrow> int \<Rightarrow> stream \<Rightarrow> bool" where
  "shaped rate chans f s \<longleftrightarrow> s_sample_rate s = nat rate \<and> s_channels s = nat chans \<and> s_frames_per_callback s = nat f \<and>
     pcm_length (s_callback_buffer s) = nat f * nat chans \<and> s_resample_remainder s = 0 \<and>
     s_frames_written s = 0 \<and> s_submitted_buffers s = 0 \<and> \<not> s_thread_started s"

lemma configure_shape:
  assumes "configure b = Some s"
  obtains rate chans f where "8000 \<le> rate" "rate \<le> 192000" "1 \<le> chans" "chans \<le> 8" "32 \<le> f" "f \<le> 8192" "shaped rate chans f s"
proof -
  define rate where "rate = (if 0 < b_sample_rate b then b_sample_rate b else 48000)"
  define chans where "chans = (if 0 < b_channels b then b_channels b else 2)"
  define fmt where "fmt = (if b_format b = AAUDIO_FORMAT_UNSPECIFIED then AAUDIO_FORMAT_PCM_FLOAT else b_format b)"
  define f0 where "f0 = (if 0 < b_frames_per_callback b then b_frames_per_callback b else 1024)"
  define f1 where "f1 = (if f0 < 32 then 32 else f0)"
  define f where "f = (if 8192 < f1 then 8192 else f1)"
  note c = assms [unfolded configure_def, folded rate_def chans_def fmt_def f0_def, unfolded Let_def, folded f1_def, folded f_def]
  have g: "\<not> (rate < 8000 \<or> 192000 < rate \<or> chans < 1 \<or> 8 < chans \<or> (fmt \<noteq> AAUDIO_FORMAT_PCM_FLOAT \<and> fmt \<noteq> AAUDIO_FORMAT_PCM_I16))"
    using c by (metis option.distinct(1))
  have len: "pcm_length (zero_samples fmt n) = n" for n by (simp add: zero_samples_def pcm_length_def)
  have "shaped rate chans f s"
    using c unfolding if_not_P [OF g] by (auto simp only: option.inject shaped_def stream.simps len simp_thms)
  moreover have "32 \<le> f" "f \<le> 8192" by (auto simp: f_def f1_def)
  ultimately show ?thesis using g by (intro that [of rate chans f]) linarith+
qed

lemma configure_bounds:
  assumes "configure b = Some s"
  shows "8000 \<le> s_sample_rate s \<and> s_sample_rate s \<le> 192000 \<and> 1 \<le> s_channels s \<and> s_channels s \<le> 8 \<and>
    32 \<le> s_frames_per_callback s \<and> s_frames_per_callback s \<le> 8192 \<and>
    pcm_length (s_callback_buffer s) = s_frames_per_callback s * s_channels s \<and> s_resample_remainder s = 0 \<and>
    s_frames_written s = 0 \<and> s_submitted_buffers s = 0 \<and> \<not> s_thread_started s"
proof -
  obtain rate chans f where r: "8000 \<le> rate" "rate \<le> 192000" "1 \<le> chans" "chans \<le> 8" "32 \<le> f" "f \<le> 8192"
    and s: "shaped rate chans f s" using configure_shape [OF assms] .
  have "8000 \<le> nat rate" "nat rate \<le> 192000" "1 \<le> nat chans" "nat chans \<le> 8" "32 \<le> nat f" "nat f \<le> 8192" using r by linarith+
  then show ?thesis using s by (simp add: shaped_def)
qed

lemma page_bytes: "2 * n \<le> align_up_0x1000 (n * 2 * 2) div 2"
proof -
  have "n * 4 \<le> (n * 4 + 0xfff) div 0x1000 * 0x1000" by linarith
  then show ?thesis unfolding align_up_0x1000_def by (simp add: mult.assoc)
qed

lemma opened_stream:
  assumes "configure b = Some s"
  shows "stream_fine (with_buffers (s\<lparr>s_audout_initialized := True, s_audout_rate := 48000\<rparr>)\<lparr>s_state := x\<rparr>)"
    and "\<not> s_thread_started (with_buffers (s\<lparr>s_audout_initialized := True, s_audout_rate := 48000\<rparr>)\<lparr>s_state := x\<rparr>)"
  using configure_bounds [OF assms] page_bytes
  by (auto simp: stream_fine_def stream_ok_def with_buffers_def Let_def counted_def)

text \<open>Calls that leave the device's promises.\<close>

lemma quiet_device:
  assumes "queue_ok d" and "\<And>n. \<not> d_flush_fails d n"
  shows "queue_ok (audout_flush d)" "d_queue (audout_flush d) = []" "\<not> d_flush_fails (audout_flush d) n"
    "queue_ok (audout_stop d)" "\<not> d_flush_fails (audout_stop d) n" "d_callback (audout_flush d) = d_callback d"
  using assms by (auto simp: queue_ok_def audout_flush_def audout_stop_def tick_def)

lemma quiet_reset:
  assumes "queue_ok d" and "\<And>n. \<not> d_flush_fails d n"
  shows "queue_ok (audout_flush (if b then audout_stop d else d)) \<and> d_queue (audout_flush (if b then audout_stop d else d)) = [] \<and>
    (\<forall>n. \<not> d_flush_fails (audout_flush (if b then audout_stop d else d)) n)"
  using quiet_device [OF assms] quiet_device(1-3) [of "audout_stop d"] by auto

lemma nobody:
  assumes "audio_inv a" and "heap a k = Some s" and "\<not> s_thread_started s"
  shows "threads a = (\<lambda>_. None)"
proof
  fix tid
  show "threads a tid = None"
  proof (cases "threads a tid")
    case (Some x)
    obtain j ph where "threads a tid = Some (j, ph)" using Some by (cases x) simp
    then obtain t where t: "heap a j = Some t" "s_thread_started t" using threads_fineD [OF audio_invD(3) [OF assms(1)]] by metis
    then have "j = k" using only_stream [OF audio_invD(1) [OF assms(1)] assms(2)] by simp
    then show ?thesis using t assms(2,3) by simp
  qed
qed

lemma no_stream:
  assumes "audio_inv a" and "g_audout_owner a = None"
  shows "heap a = (\<lambda>_. None)" "device_open a = 0" "g_streams a = []" "threads a = (\<lambda>_. None)"
proof -
  show h: "heap a = (\<lambda>_. None)" "device_open a = 0" "g_streams a = []"
    using audio_invD(1) [OF assms(1)] assms(2) by (simp_all add: owner_fine_def)
  show "threads a = (\<lambda>_. None)"
  proof
    fix tid
    show "threads a tid = None"
    proof (cases "threads a tid")
      case (Some x)
      obtain k ph where "threads a tid = Some (k, ph)" using Some by (cases x) simp
      then obtain s where "heap a k = Some s" using threads_fineD [OF audio_invD(3) [OF assms(1)]] by metis
      then show ?thesis using h by simp
    qed
  qed
qed

lemma open_keeps:
  assumes inv: "audio_inv a" and idle: "control a = Idle"
  shows "audio_inv (snd (aaudio_bridge_builder_open_stream b h a))"
proof (cases "\<exists>s. b_direction b = AAUDIO_DIRECTION_OUTPUT \<and> b_data_callback b \<and> h_stream h \<and> configure b = Some s \<and> h_samples h \<and>
    g_audout_owner a = None \<and> h_init h \<and> h_rate h = 48000 \<and> h_channels h = 2 \<and> h_int16 h")
  case False
  then have "snd (aaudio_bridge_builder_open_stream b h a) = a"
    by (auto simp: aaudio_bridge_builder_open_stream_def Let_def split: option.splits)
  then show ?thesis using inv by simp
next
  case True
  then obtain s where c: "b_direction b = AAUDIO_DIRECTION_OUTPUT" "b_data_callback b" "h_stream h" "configure b = Some s" "h_samples h"
      "g_audout_owner a = None" "h_init h" "h_rate h = 48000" "h_channels h = 2" "h_int16 h" by blast
  note N = no_stream [OF inv c(6)] and I = audio_invD [OF inv]
  let ?d = "audout_flush (if h_running h then audout_stop (dev a) else dev a)"
  note Q = quiet_reset [OF I(8,9), of "h_running h"]
  show ?thesis
  proof (cases "list_all (h_output h) [0..<NX_AUDOUT_BUFFER_COUNT]")
    case True
    let ?s = "with_buffers (s\<lparr>s_audout_initialized := True, s_audout_rate := 48000\<rparr>)\<lparr>s_state := AAUDIO_STREAM_STATE_OPEN\<rparr>"
    let ?a = "a\<lparr>device_open := 1, dev := ?d, g_audout_owner := Some (fresh_stream a), fresh_stream := fresh_stream a + 1,
        heap := [fresh_stream a \<mapsto> ?s], g_streams := [fresh_stream a]\<rparr>"
    have e: "snd (aaudio_bridge_builder_open_stream b h a) = ?a"
      using c True N by (simp add: aaudio_bridge_builder_open_stream_def Let_def)
    have "owner_fine ?a" by (simp add: owner_fine_def)
    moreover have "threads_fine ?a" using opened_stream(2) [OF c(4)] N(4) by (auto simp: threads_fine_def)
    moreover have "control_fine ?a" using idle by (simp add: control_fine_def)
    ultimately show ?thesis unfolding e audio_inv_def using I(5-7) Q opened_stream(1) [OF c(4)] by simp
  next
    case False
    let ?a = "a\<lparr>device_open := 0, dev := ?d, g_audout_owner := None, fresh_stream := fresh_stream a + 1\<rparr>"
    have e: "snd (aaudio_bridge_builder_open_stream b h a) = ?a"
      using c False N by (simp add: aaudio_bridge_builder_open_stream_def Let_def)
    have "owner_fine ?a" using N by (simp add: owner_fine_def)
    moreover have "threads_fine ?a" using N by (simp add: threads_fine_def)
    moreover have "control_fine ?a" using idle by (simp add: control_fine_def)
    ultimately show ?thesis unfolding e audio_inv_def using I(5-7) Q N by simp
  qed
qed

section \<open>Starting, stopping and closing\<close>

lemma started_thread:
  assumes "audio_inv a" and "heap a k = Some s" and "s_thread_started s"
  obtains ph where "threads a (s_pthread_id s) = Some (k, ph)" "0 < s_pthread_id s"
proof -
  obtain ph where t: "threads a (s_pthread_id s) = Some (k, ph)"
    using audio_invD(3) [OF assms(1)] assms(2,3) unfolding threads_fine_def by blast
  then have "0 < s_pthread_id s" using threads_fineD [OF audio_invD(3) [OF assms(1)] t] by metis
  then show ?thesis using t that by blast
qed

text \<open>A stream without a thread, replaced or made idle.\<close>

lemma alone_keeps:
  assumes inv: "audio_inv a" and s: "heap a k = Some s" and s': "stream_fine s'" "\<not> s_thread_started s'"
    and d': "queue_ok d'" "\<And>n. \<not> d_flush_fails d' n"
  shows "audio_inv (a\<lparr>heap := (heap a)(k \<mapsto> s'), threads := \<lambda>_. None, dev := d', control := Idle\<rparr>)" (is "audio_inv ?a")
proof -
  note I = audio_invD [OF inv]
  have "owner_fine ?a" using I(1) s by (auto simp: owner_fine_def dom_def split: option.splits)
  moreover have "stream_fine t" if "heap ?a j = Some t" for j t using that I(2) s' by (auto split: if_splits)
  moreover have "threads_fine ?a"
  proof -
    have "\<not> s_thread_started t" if "heap ?a j = Some t" for j t
      using that only_stream [OF I(1) s] s' by (auto split: if_splits)
    then show ?thesis unfolding threads_fine_def by fastforce
  qed
  moreover have "control_fine ?a" by (simp add: control_fine_def)
  ultimately show ?thesis unfolding audio_inv_def using I(5-7) d' by simp
qed

text \<open>A join of a thread that has ended leaves no thread at all.\<close>

lemma joined:
  assumes inv: "audio_inv a" and s: "heap a k = Some s" "s_thread_started s"
  shows "(if s_pthread_id s \<noteq> 0 then join_thread (s_pthread_id s) a else a) = a\<lparr>threads := \<lambda>_. None\<rparr>"
proof -
  obtain ph where t: "threads a (s_pthread_id s) = Some (k, ph)" "0 < s_pthread_id s" using started_thread [OF inv s] .
  have "(threads a)(s_pthread_id s := None) = (\<lambda>_. None)"
  proof
    fix tid
    show "((threads a)(s_pthread_id s := None)) tid = None"
    proof (cases "threads a tid")
      case (Some x)
      obtain j q where "x = (j, q)" by fastforce
      then show ?thesis using only_thread [OF inv t(1)] Some by simp
    qed simp
  qed
  then show ?thesis using t by (simp add: join_thread_def)
qed

lemma no_thread_fine:
  assumes "stream_fine s"
  shows "stream_fine (no_thread s)" "stream_fine ((no_thread s)\<lparr>s_state := x\<rparr>)"
proof -
  have so: "stream_ok s" using assms by (simp add: stream_fine_def)
  have "stream_ok (no_thread s)"
    by (rule stream_ok_cong [OF so]) (use so in \<open>auto simp: stream_ok_def no_thread_def\<close>)
  then show "stream_fine (no_thread s)" using assms by (simp add: stream_fine_def counted_def no_thread_def)
  have "stream_ok ((no_thread s)\<lparr>s_state := x\<rparr>)"
    by (rule stream_ok_cong [OF so]) (use so in \<open>auto simp: stream_ok_def no_thread_def\<close>)
  then show "stream_fine ((no_thread s)\<lparr>s_state := x\<rparr>)" using assms by (simp add: stream_fine_def counted_def no_thread_def)
qed

definition restarted :: "int \<Rightarrow> stream \<Rightarrow> stream" where
  "restarted x s = s\<lparr>s_stop_requested := False, s_thread_exited := False, s_state := x, s_resample_remainder := 0, s_audout_started := False\<rparr>"

lemma restart_simps:
  "s\<lparr>s_stop_requested := False, s_thread_exited := False, s_state := x, s_resample_remainder := 0, s_audout_started := False\<rparr> =
     restarted x s"
  "(restarted x s)\<lparr>s_state := y\<rparr> = restarted y s"
  by (simp add: restarted_def, rule stream.equality) (simp_all add: restarted_def)

lemma restarted_fine:
  assumes "stream_fine s"
  shows "stream_fine (restarted x s)" "stream_fine ((restarted x s)\<lparr>s_pthread_id := tid, s_thread_started := b\<rparr>)"
    "samples_of (restarted x s) = samples_of s"
proof -
  have so: "stream_ok s" using assms by (simp add: stream_fine_def)
  have "stream_ok (restarted x s)"
    by (rule stream_ok_cong [OF so]) (use so in \<open>auto simp: stream_ok_def restarted_def\<close>)
  then show "stream_fine (restarted x s)" using assms by (simp add: stream_fine_def counted_def restarted_def)
  have "stream_ok ((restarted x s)\<lparr>s_pthread_id := tid, s_thread_started := b\<rparr>)"
    by (rule stream_ok_cong [OF so]) (use so in \<open>auto simp: stream_ok_def restarted_def\<close>)
  then show "stream_fine ((restarted x s)\<lparr>s_pthread_id := tid, s_thread_started := b\<rparr>)"
    using assms by (simp add: stream_fine_def counted_def restarted_def)
qed (simp add: samples_of_def restarted_def)

lemma start_go_keeps:
  assumes inv: "audio_inv a" and idle: "control a = Idle" and s: "heap a k = Some s"
  shows "audio_inv (snd (start_go creates k s a))"
proof (cases "s_thread_started s \<or> (s_state s \<noteq> AAUDIO_STREAM_STATE_OPEN \<and> s_state s \<noteq> AAUDIO_STREAM_STATE_STOPPED)")
  case True
  then show ?thesis using inv by (simp add: start_go_def)
next
  case False
  note I = audio_invD [OF inv]
  have ns: "\<not> s_thread_started s" using False by simp
  note N = nobody [OF inv s ns] and fine = I(2) [OF s]
  let ?d = "audout_flush (if s_audout_started s then audout_stop (dev a) else dev a)"
  note Q = quiet_reset [OF I(8,9), of "s_audout_started s"]
  show ?thesis
  proof (cases creates)
    case False
    have e: "snd (start_go creates k s a) =
        a\<lparr>heap := (heap a)(k \<mapsto> restarted AAUDIO_STREAM_STATE_OPEN s), threads := \<lambda>_. None, dev := ?d, control := Idle\<rparr>"
      using False \<open>\<not> (s_thread_started s \<or> _)\<close> N idle by (intro audio.equality) (auto simp: start_go_def Let_def restart_simps)
    show ?thesis unfolding e
      by (rule alone_keeps [OF inv s restarted_fine(1) [OF fine]]) (use Q ns in \<open>auto simp: restarted_def\<close>)
  next
    case True
    let ?s = "(restarted AAUDIO_STREAM_STATE_STARTING s)\<lparr>s_pthread_id := fresh_tid a, s_thread_started := True\<rparr>"
    let ?a = "a\<lparr>heap := (heap a)(k \<mapsto> ?s), dev := ?d, threads := [fresh_tid a \<mapsto> (k, Fresh)], fresh_tid := fresh_tid a + 1\<rparr>"
    have e: "snd (start_go creates k s a) = ?a"
      using True \<open>\<not> (s_thread_started s \<or> _)\<close> N by (auto simp: start_go_def Let_def restart_simps)
    have "owner_fine ?a" using I(1) s by (auto simp: owner_fine_def dom_def split: option.splits)
    moreover have "stream_fine t" if "heap ?a j = Some t" for j t using that I(2) restarted_fine(2) [OF fine] by (auto split: if_splits)
    moreover have "threads_fine ?a"
      unfolding threads_fine_def
    proof (intro conjI allI impI)
      fix tid1 k1 ph1 assume "threads ?a tid1 = Some (k1, ph1)"
      then have "tid1 = fresh_tid a \<and> k1 = k \<and> ph1 = Fresh" by (auto split: if_splits)
      then show "\<exists>s1. heap ?a k1 = Some s1 \<and> s_thread_started s1 \<and> s_pthread_id s1 = tid1 \<and> 0 < tid1 \<and> tid1 < fresh_tid ?a \<and>
          (ph1 \<in> {Fresh, Begun} \<longrightarrow> d_queue (dev ?a) = []) \<and>
          (ph1 \<in> {Begun, Running, Ending} \<longrightarrow> callback_fills (d_callback (dev ?a)) (samples_of s1))"
        using I(5) Q by auto
    next
      fix k1 s1 assume "heap ?a k1 = Some s1 \<and> s_thread_started s1"
      then have "k1 = k \<and> s1 = ?s" using only_stream [OF I(1) s] by (auto split: if_splits)
      then show "\<exists>ph. threads ?a (s_pthread_id s1) = Some (k1, ph)" by simp
    qed
    moreover have "control_fine ?a" using idle by (simp add: control_fine_def)
    ultimately show ?thesis unfolding e audio_inv_def using I Q by simp
  qed
qed

lemma joinable_thread:
  assumes "audio_inv a" and "control a \<in> {JoinStart k, JoinStop k, JoinClose k}"
  obtains s where "heap a k = Some s" "s_thread_started s"
  using audio_invD(4) [OF assms(1)] assms(2) unfolding control_fine_def by blast

lemma start_joined_keeps:
  assumes inv: "audio_inv a" and c: "control a = JoinStart k"
  shows "audio_inv (snd (start_joined creates k a))"
proof -
  obtain s where s: "heap a k = Some s" "s_thread_started s" using joinable_thread [OF inv, of k] c by blast
  note I = audio_invD [OF inv]
  let ?a = "a\<lparr>heap := (heap a)(k \<mapsto> no_thread s), threads := \<lambda>_. None, dev := dev a, control := Idle\<rparr>"
  have "audio_inv ?a"
    by (rule alone_keeps [OF inv s(1) no_thread_fine(1) [OF I(2) [OF s(1)]] _ I(8,9)]) (simp add: no_thread_def)
  then have g: "audio_inv (snd (start_go creates k (no_thread s) ?a))" by (rule start_go_keeps) simp_all
  have r: "?a = a\<lparr>threads := \<lambda>_. None, heap := (heap a)(k \<mapsto> no_thread s), control := Idle\<rparr>" by (rule audio.equality) simp_all
  show ?thesis using s joined [OF inv s] g [unfolded r] by (simp add: start_joined_def Let_def)
qed

lemma stop_joined_keeps:
  assumes inv: "audio_inv a" and c: "control a \<in> {JoinStop k, JoinClose k}"
  shows "audio_inv (stop_joined k a)" and "control (stop_joined k a) = Idle"
    and "\<exists>s. heap (stop_joined k a) k = Some s \<and> \<not> s_thread_started s"
proof -
  obtain s where s: "heap a k = Some s" "s_thread_started s" using joinable_thread [OF inv, of k] c by blast
  note I = audio_invD [OF inv]
  let ?s = "(no_thread s)\<lparr>s_state := AAUDIO_STREAM_STATE_STOPPED\<rparr>"
  have e: "stop_joined k a = a\<lparr>heap := (heap a)(k \<mapsto> ?s), threads := \<lambda>_. None, dev := dev a, control := Idle\<rparr>"
    using s joined [OF inv s] by (simp add: stop_joined_def Let_def)
  show "audio_inv (stop_joined k a)" unfolding e
    by (rule alone_keeps [OF inv s(1) no_thread_fine(2) [OF I(2) [OF s(1)]] _ I(8,9)]) (simp add: no_thread_def)
  show "control (stop_joined k a) = Idle" "\<exists>s. heap (stop_joined k a) k = Some s \<and> \<not> s_thread_started s"
    unfolding e by (simp_all add: no_thread_def)
qed

lemma close_rest_keeps:
  assumes inv: "audio_inv a" and idle: "control a = Idle" and s: "heap a k = Some s" and ns: "\<not> s_thread_started s"
  shows "audio_inv (snd (close_rest k a))"
proof -
  note I = audio_invD [OF inv]
  have "k \<in> dom (heap a)" using s by auto
  then have o: "g_audout_owner a = Some k" "dom (heap a) = {k}" "device_open a = 1" "g_streams a = [k]"
    using I(1) by (auto simp: owner_fine_def simp del: domIff split: option.splits)
  have h: "(heap a)(k := None) = (\<lambda>_. None)"
  proof
    fix j
    show "((heap a)(k := None)) j = None" using o(2) by (cases "j = k") (simp, metis domIff fun_upd_other singletonD)
  qed
  let ?d = "audout_flush (audout_stop (dev a))"
  have e: "snd (close_rest k a) = a\<lparr>heap := \<lambda>_. None, g_streams := [], dev := ?d, g_audout_owner := None, device_open := 0\<rparr>" (is "_ = ?a")
    using s o h I(2) [OF s] by (simp add: close_rest_def Let_def stream_fine_def)
  have "owner_fine ?a" by (simp add: owner_fine_def)
  moreover have "threads_fine ?a" using nobody [OF inv s ns] by (simp add: threads_fine_def)
  moreover have "control_fine ?a" using idle by (simp add: control_fine_def)
  ultimately show ?thesis unfolding e audio_inv_def using I(5-7) quiet_reset [OF I(8,9), of True] by simp
qed

text \<open>An update of a stream that keeps what the invariant speaks of, with the call that waits in a join.\<close>

lemma upd_keeps:
  assumes inv: "audio_inv a" and s: "heap a k = Some s" and f: "stream_fine (f s)" "life (f s) = life s" "samples_of (f s) = samples_of s"
    and c: "c = Idle \<or> (s_thread_started s \<and> c \<in> {JoinStart k, JoinStop k, JoinClose k})"
  shows "audio_inv (a\<lparr>control := c, heap := (heap a)(k \<mapsto> f s)\<rparr>)" (is "audio_inv ?a")
proof -
  note I = audio_invD [OF inv]
  have st: "s_thread_started (f s) = s_thread_started s" "s_pthread_id (f s) = s_pthread_id s" using f(2) by (simp_all add: life_def)
  have "owner_fine ?a" using I(1) s by (auto simp: owner_fine_def dom_def split: option.splits)
  moreover have "stream_fine t" if "heap ?a j = Some t" for j t using that I(2) f by (auto split: if_splits)
  moreover have "threads_fine ?a"
    unfolding threads_fine_def
  proof (intro conjI allI impI)
    fix tid k1 ph assume "threads ?a tid = Some (k1, ph)"
    then have t: "threads a tid = Some (k1, ph)" by simp
    obtain t where t: "heap a k1 = Some t" "s_thread_started t" "s_pthread_id t = tid" "0 < tid" "tid < fresh_tid a"
        "ph \<in> {Fresh, Begun} \<Longrightarrow> d_queue (dev a) = []"
        "ph \<in> {Begun, Running, Ending} \<Longrightarrow> callback_fills (d_callback (dev a)) (samples_of t)"
      by (rule threads_fineD [OF I(3) t]) (rule that)
    have "k1 = k \<and> t = s" using only_stream [OF I(1) s t(1)] s t(1) by auto
    then show "\<exists>s. heap ?a k1 = Some s \<and> s_thread_started s \<and> s_pthread_id s = tid \<and> 0 < tid \<and> tid < fresh_tid ?a \<and>
        (ph \<in> {Fresh, Begun} \<longrightarrow> d_queue (dev ?a) = []) \<and>
        (ph \<in> {Begun, Running, Ending} \<longrightarrow> callback_fills (d_callback (dev ?a)) (samples_of s))"
      using t st f(3) by simp
  next
    fix k1 s1 assume "heap ?a k1 = Some s1 \<and> s_thread_started s1"
    then have "k1 = k \<and> s1 = f s" using only_stream [OF I(1) s] by (auto split: if_splits)
    then show "\<exists>ph. threads ?a (s_pthread_id s1) = Some (k1, ph)"
      using started_thread [OF inv s] st \<open>heap ?a k1 = Some s1 \<and> s_thread_started s1\<close> by auto
  qed
  moreover have "control_fine ?a" using c st by (auto simp: control_fine_def)
  ultimately show ?thesis unfolding audio_inv_def using I(5-9) by simp
qed

lemma stopping_fine:
  assumes "stream_fine s"
  shows "stream_fine (s\<lparr>s_state := x, s_stop_requested := b\<rparr>)" "stream_fine (s\<lparr>s_buffer_size_frames := y\<rparr>)"
proof -
  have so: "stream_ok s" using assms by (simp add: stream_fine_def)
  have "stream_ok (s\<lparr>s_state := x, s_stop_requested := b\<rparr>)"
    by (rule stream_ok_cong [OF so]) (use so in \<open>auto simp: stream_ok_def\<close>)
  then show "stream_fine (s\<lparr>s_state := x, s_stop_requested := b\<rparr>)" using assms by (simp add: stream_fine_def counted_def)
  have "stream_ok (s\<lparr>s_buffer_size_frames := y\<rparr>)"
    by (rule stream_ok_cong [OF so]) (use so in \<open>auto simp: stream_ok_def\<close>)
  then show "stream_fine (s\<lparr>s_buffer_size_frames := y\<rparr>)" using assms by (simp add: stream_fine_def counted_def)
qed

lemma stopping_keeps:
  assumes inv: "audio_inv a" and s: "heap a k = Some s" "s_thread_started s" and c: "c \<in> {JoinStop k, JoinClose k}"
  shows "audio_inv (upd_stream k (\<lambda>s. s\<lparr>s_state := AAUDIO_STREAM_STATE_STOPPING, s_stop_requested := True\<rparr>) (a\<lparr>control := c\<rparr>))"
  using upd_keeps [OF inv s(1), where c = c and f = "\<lambda>s. s\<lparr>s_state := AAUDIO_STREAM_STATE_STOPPING, s_stop_requested := True\<rparr>"]
    stopping_fine(1) [OF audio_invD(2) [OF inv s(1)]] s c
  by (auto simp: upd_stream_def life_def samples_of_def)

lemma request_start_keeps:
  assumes inv: "audio_inv a" and idle: "control a = Idle" and h: "handle_ok k a"
  shows "audio_inv (snd (aaudio_bridge_stream_request_start c k a))"
proof (cases k)
  case None
  then show ?thesis using inv by (simp add: aaudio_bridge_stream_request_start_def)
next
  case (Some j)
  obtain s where s: "heap a j = Some s" using h Some by (auto simp: handle_ok_def)
  show ?thesis
  proof (cases "s_thread_started s \<and> s_thread_exited s")
    case True
    have e: "a\<lparr>control := JoinStart j, heap := (heap a)(j \<mapsto> s)\<rparr> = a\<lparr>control := JoinStart j\<rparr>"
      using s by (intro audio.equality) (auto simp: fun_upd_idem)
    have "audio_inv (a\<lparr>control := JoinStart j, heap := (heap a)(j \<mapsto> s)\<rparr>)"
      using upd_keeps [OF inv s, where c = "JoinStart j" and f = "\<lambda>s. s"] audio_invD(2) [OF inv s] True by simp
    then show ?thesis using True s Some unfolding e by (simp add: aaudio_bridge_stream_request_start_def)
  next
    case False
    have "snd (aaudio_bridge_stream_request_start c k a) = snd (start_go c j s a)"
      using False s Some by (auto simp: aaudio_bridge_stream_request_start_def split: prod.splits)
    then show ?thesis using start_go_keeps [OF inv idle s] by simp
  qed
qed

lemma request_stop_keeps:
  assumes inv: "audio_inv a" and h: "handle_ok k a"
  shows "audio_inv (snd (aaudio_bridge_stream_request_stop k a))"
proof (cases k)
  case None
  then show ?thesis using inv by (simp add: aaudio_bridge_stream_request_stop_def)
next
  case (Some j)
  obtain s where s: "heap a j = Some s" using h Some by (auto simp: handle_ok_def)
  show ?thesis
  proof (cases "s_thread_started s")
    case True
    then show ?thesis using stopping_keeps [OF inv s, of "JoinStop j"] s Some by (simp add: aaudio_bridge_stream_request_stop_def)
  next
    case False
    then show ?thesis using inv s Some by (simp add: aaudio_bridge_stream_request_stop_def)
  qed
qed

lemma close_keeps:
  assumes inv: "audio_inv a" and idle: "control a = Idle" and h: "handle_ok k a"
  shows "audio_inv (snd (aaudio_bridge_stream_close k a))"
proof (cases k)
  case None
  then show ?thesis using inv by (simp add: aaudio_bridge_stream_close_def)
next
  case (Some j)
  obtain s where s: "heap a j = Some s" using h Some by (auto simp: handle_ok_def)
  show ?thesis
  proof (cases "s_thread_started s")
    case True
    then show ?thesis using stopping_keeps [OF inv s, of "JoinClose j"] s Some by (simp add: aaudio_bridge_stream_close_def)
  next
    case False
    then have "snd (aaudio_bridge_stream_close k a) = snd (close_rest j a)"
      using s Some by (simp add: aaudio_bridge_stream_close_def split: prod.splits)
    then show ?thesis using close_rest_keeps [OF inv idle s False] by simp
  qed
qed

lemma close_joined_keeps:
  assumes inv: "audio_inv a" and c: "control a = JoinClose k"
  shows "audio_inv (snd (close_joined k a))"
proof -
  have m: "control a \<in> {JoinStop k, JoinClose k}" using c by simp
  obtain s where "heap (stop_joined k a) k = Some s" "\<not> s_thread_started s" using stop_joined_keeps(3) [OF inv m] by blast
  then show ?thesis unfolding close_joined_def by (rule close_rest_keeps [OF stop_joined_keeps(1,2) [OF inv m]])
qed

lemma resize_keeps:
  assumes inv: "audio_inv a" and idle: "control a = Idle" and h: "handle_ok (Some k) a"
  shows "audio_inv (upd_stream k (\<lambda>s. snd (aaudio_bridge_stream_set_buffer_size n s)) a)"
proof -
  obtain s where s: "heap a k = Some s" using h by (auto simp: handle_ok_def)
  let ?f = "\<lambda>s. snd (aaudio_bridge_stream_set_buffer_size n s)"
  note fine = audio_invD(2) [OF inv s]
  have "stream_fine (?f s)" "life (?f s) = life s" "samples_of (?f s) = samples_of s"
    using stopping_fine(2) [OF fine] fine by (auto simp: aaudio_bridge_stream_set_buffer_size_def Let_def life_def samples_of_def)
  then have "audio_inv (a\<lparr>control := Idle, heap := (heap a)(k \<mapsto> ?f s)\<rparr>)" by (intro upd_keeps [OF inv s, where f = ?f]) simp_all
  moreover have "a\<lparr>control := Idle, heap := (heap a)(k \<mapsto> ?f s)\<rparr> = upd_stream k ?f a"
    using s idle by (intro audio.equality) (simp_all add: upd_stream_def)
  ultimately show ?thesis by simp
qed

section \<open>Every run\<close>

lemma astep_keeps:
  assumes "astep a a'" and "audio_inv a"
  shows "audio_inv a'"
  using assms
proof cases
  case (step_open b h) then show ?thesis using open_keeps assms(2) by simp
next
  case (step_start k c) then show ?thesis using request_start_keeps assms(2) by simp
next
  case (step_started k c) then show ?thesis using start_joined_keeps assms(2) by simp
next
  case (step_stop k) then show ?thesis using request_stop_keeps assms(2) by simp
next
  case (step_stopped k) then show ?thesis using stop_joined_keeps(1) [OF assms(2)] by simp
next
  case (step_close k) then show ?thesis using close_keeps assms(2) by simp
next
  case (step_closed k) then show ?thesis using close_joined_keeps assms(2) by simp
next
  case (step_resize k n) then show ?thesis using resize_keeps assms(2) by simp
next
  case (step_begin tid k cb) then show ?thesis using thread_begin_keeps [OF assms(2)] by simp
next
  case (step_prime tid k rnd) then show ?thesis using thread_prime_keeps [OF assms(2)] by simp
next
  case (step_turn tid k rnd) then show ?thesis using thread_turn_keeps [OF assms(2)] by simp
next
  case (step_leave tid k) then show ?thesis using thread_leave_keeps [OF assms(2)] by simp
next
  case (step_log tid k) then show ?thesis using thread_log_keeps [OF assms(2)] by simp
qed

lemma audio_start_inv:
  assumes "audio_start a"
  shows "audio_inv a"
  using assms by (simp add: audio_start_def audio_inv_def owner_fine_def threads_fine_def control_fine_def)

lemma audio_reachable_inv: "audio_reachable a \<Longrightarrow> audio_inv a"
  by (induction rule: audio_reachable.induct) (simp_all add: audio_start_inv astep_keeps)

end
