(* ===== verification/AAudioProps.thy ===== *)
theory AAudioProps
  imports AAudioSystem
begin

text \<open>What every run of the audio output guarantees: its lifecycle, that stopping and closing end, and that resampling does not drift.\<close>

section \<open>A request to stop stays\<close>

lemma measure_callback_stop: "measure_callback rnd s = Some s' \<Longrightarrow> s_stop_requested s' = s_stop_requested s"
  by (auto simp: measure_callback_def split: option.splits)

lemma convert_callback_stop: "convert_callback_to_audout rnd s dst cap = Some (n, dst', s') \<Longrightarrow> s_stop_requested s' = s_stop_requested s"
  by (auto simp: convert_callback_to_audout_def Let_def split: option.splits prod.splits)

lemma run_data_callback_stop:
  assumes "run_data_callback rnd (s, d) = Some (r, s', d')"
  shows "s_stop_requested s' = s_stop_requested s"
proof -
  obtain samples quits where c: "d_callback d (d_clock d) = (samples, quits)" by fastforce
  let ?s = "s\<lparr>s_callback_buffer := samples, s_callback_count := s_callback_count s + 1\<rparr>"
  obtain s1 where "measure_callback rnd ?s = Some s1" "s_stop_requested s' = s_stop_requested s1"
    using assms by (cases "measure_callback rnd ?s") (auto simp: run_data_callback_def c split: if_splits)
  then show ?thesis using measure_callback_stop by fastforce
qed

lemma fill_and_append_stop:
  assumes "fill_and_append rnd i (s, d) = Some (r, s', d')"
  shows "s_stop_requested s' = s_stop_requested s"
proof -
  obtain r1 s1 d1 where c: "run_data_callback rnd (s, d) = Some (r1, s1, d1)"
    using assms by (cases "run_data_callback rnd (s, d)") (auto simp: fill_and_append_def)
  note same = run_data_callback_stop [OF c]
  show ?thesis
  proof (cases "r1 = Done")
    case False
    then show ?thesis using assms c same by (simp add: fill_and_append_def)
  next
    case True
    obtain n dst s2 where v: "convert_callback_to_audout rnd s1 (s_out s1 ! i) (s_out_capacity_frames s1) = Some (n, dst, s2)"
      using assms c True
      by (cases "convert_callback_to_audout rnd s1 (s_out s1 ! i) (s_out_capacity_frames s1)") (auto simp: fill_and_append_def)
    show ?thesis
      using assms c True v same convert_callback_stop [OF v] by (auto simp: fill_and_append_def Let_def split: prod.splits if_splits)
  qed
qed

lemma prime_buffers_stop:
  "prime_buffers rnd is (s, d) = Some (r, s', d') \<Longrightarrow> s_stop_requested s' = s_stop_requested s"
proof (induction "is" arbitrary: s d)
  case (Cons i "is")
  obtain r1 s1 d1 where f: "fill_and_append rnd i (s, d) = Some (r1, s1, d1)"
    using Cons.prems by (cases "fill_and_append rnd i (s, d)") auto
  show ?case using Cons f fill_and_append_stop [OF f] by (auto split: if_splits)
qed simp

lemma prime_audout_stop:
  assumes "prime_audout rnd (s, d) = Some (r, s', d')"
  shows "s_stop_requested s' = s_stop_requested s"
proof -
  obtain r1 s1 d1 where f: "prime_buffers rnd [0..<NX_AUDOUT_BUFFER_COUNT] (s, d) = Some (r1, s1, d1)"
    using assms by (cases "prime_buffers rnd [0..<NX_AUDOUT_BUFFER_COUNT] (s, d)") (auto simp: prime_audout_def)
  then show ?thesis
    using assms prime_buffers_stop [OF f] by (auto simp: prime_audout_def split: prod.splits bool.splits if_splits)
qed

definition stop_inv :: "audio \<Rightarrow> bool" where
  "stop_inv a \<longleftrightarrow> (\<forall>k s. control a \<in> {JoinStop k, JoinClose k} \<and> heap a k = Some s \<longrightarrow> s_stop_requested s)"

lemma thread_to_shape:
  "control (thread_to tid ph f a) = control a"
  "threads a tid = Some (k, ph0) \<Longrightarrow> heap a k = Some s \<Longrightarrow> threads (thread_to tid ph f a) tid = Some (k, ph)"
  "threads a tid = Some (k, ph0) \<Longrightarrow> heap a k = Some s \<Longrightarrow> heap (thread_to tid ph f a) = (heap a)(k \<mapsto> fst (f (s, dev a)))"
  by (auto simp: thread_to_def split: option.splits prod.splits)

lemma thread_to_stop:
  assumes "audio_inv a" and "stop_inv a" and "threads a tid = Some (k, ph0)"
    and "\<And>s. heap a k = Some s \<Longrightarrow> s_stop_requested s \<Longrightarrow> s_stop_requested (fst (f (s, dev a)))"
  shows "stop_inv (thread_to tid ph f a)"
proof -
  obtain s where s: "heap a k = Some s" using threads_fineD [OF audio_invD(3) [OF assms(1)] assms(3)] by blast
  show ?thesis
    using assms(2,4) s unfolding stop_inv_def thread_to_shape(1) thread_to_shape(3) [OF assms(3) s] by (auto split: if_splits)
qed

lemma step_cases_stop:
  assumes "audio_inv a" and "threads a tid = Some (k, Running)" and "heap a k = Some s" and "s_stop_requested s"
  shows "thread_turn rnd tid a = thread_to tid Ending (\<lambda>_. (s, tick (dev a))) a"
  using assms(2-4) by (simp add: thread_turn_def must_stop_def)

lemma prime_step:
  assumes "audio_inv a" and "threads a tid = Some (k, Begun)" and "heap a k = Some s"
  obtains ph s' d' where "ph \<in> {Running, Ending}" "thread_prime rnd tid a = thread_to tid ph (\<lambda>_. (s', d')) a"
    "s_stop_requested s' = s_stop_requested s"
proof -
  have q: "d_queue (dev a) = []" using threads_fineD [OF audio_invD(3) [OF assms(1)] assms(2)] by blast
  obtain r s' d' where p: "prime_audout rnd (s, dev a) = Some (r, s', d')"
    using prime_audout_effect [OF inside_thread [OF assms], of rnd] q by auto
  show ?thesis
    by (rule that [of "if r = Done then Running else Ending" s' "if r = Fail then report_error d' else d'"])
      (use assms p prime_audout_stop [OF p] in \<open>simp_all add: thread_prime_def\<close>)
qed

lemma thread_end_stop: "s_stop_requested (fst (thread_end (s, d))) = s_stop_requested s"
  by (simp add: thread_end_def Let_def)

text \<open>A step of the thread, while a call waits for it, keeps the request and brings its end closer.\<close>

definition phase_rank :: "phase \<Rightarrow> nat" where
  "phase_rank ph = (case ph of Fresh \<Rightarrow> 5 | Begun \<Rightarrow> 4 | Running \<Rightarrow> 3 | Ending \<Rightarrow> 2 | Leaving \<Rightarrow> 1 | Gone \<Rightarrow> 0)"

definition left_to_join :: "nat \<Rightarrow> audio \<Rightarrow> nat" where
  "left_to_join k a =
     (case heap a k of
        None \<Rightarrow> 0
      | Some s \<Rightarrow> (case threads a (s_pthread_id s) of None \<Rightarrow> 0 | Some (_, ph) \<Rightarrow> phase_rank ph))"

definition waiting :: "nat \<Rightarrow> audio \<Rightarrow> bool" where
  "waiting k a \<longleftrightarrow> control a \<in> {JoinStop k, JoinClose k}"

definition nearer :: "nat \<Rightarrow> audio \<Rightarrow> audio \<Rightarrow> bool" where
  "nearer k a a' \<longleftrightarrow> stop_inv a' \<and> control a' = control a \<and> left_to_join k a' < left_to_join k a"

lemma left_at:
  assumes "audio_inv a" and "threads a tid = Some (k, ph)"
  shows "left_to_join k a = phase_rank ph"
  using threads_fineD [OF audio_invD(3) [OF assms(1)] assms(2)] assms(2) unfolding left_to_join_def by (metis (no_types, lifting) old.prod.case option.simps(5))

lemma nearer_thread_to:
  assumes inv: "audio_inv a" and st: "stop_inv a" and t: "threads a tid = Some (k, ph0)" and inv': "audio_inv (thread_to tid ph f a)"
    and f: "\<And>s. heap a k = Some s \<Longrightarrow> s_stop_requested s \<Longrightarrow> s_stop_requested (fst (f (s, dev a)))"
    and r: "phase_rank ph < phase_rank ph0"
  shows "nearer k a (thread_to tid ph f a)"
proof -
  obtain s where s: "heap a k = Some s" using threads_fineD [OF audio_invD(3) [OF inv] t] by blast
  show ?thesis
    unfolding nearer_def
    using thread_to_stop [where f = f and ph = ph, OF inv st t f] thread_to_shape(1) left_at [OF inv t] left_at [OF inv' thread_to_shape(2) [OF t s]] r by simp
qed

lemma nearer_step:
  assumes inv: "audio_inv a" and st: "stop_inv a" and w: "waiting k a" and step: "astep a a'"
  shows "(control a' = Idle \<and> joinable k a) \<or> nearer k a a'"
proof -
  obtain s where s: "heap a k = Some s" "s_thread_started s" using joinable_thread [OF inv, of k] w by (auto simp: waiting_def)
  have req: "s_stop_requested s" using st w s by (auto simp: stop_inv_def waiting_def)
  have the_thread: "j = k" if "threads a tid = Some (j, ph)" for tid j ph
    using threads_fineD [OF audio_invD(3) [OF inv] that] only_stream [OF audio_invD(1) [OF inv] s(1)] by metis
  note inv' = astep_keeps [OF step inv]
  show ?thesis using step
  proof cases
    case (step_stopped j)
    then show ?thesis using w stop_joined_keeps(2) [OF inv, of j] by (auto simp: waiting_def)
  next
    case (step_closed j)
    then have m: "control a \<in> {JoinStop j, JoinClose j}" by simp
    have "control (snd (close_rest j x)) = control x" for x
      by (simp add: close_rest_def Let_def split: option.splits)
    then show ?thesis using w step_closed stop_joined_keeps(2) [OF inv m] by (auto simp: waiting_def close_joined_def)
  next
    case (step_begin tid j cb)
    have t: "threads a tid = Some (k, Fresh)" using step_begin the_thread by blast
    have "nearer k a (thread_begin cb tid a)"
      unfolding thread_begin_def
      by (rule nearer_thread_to [OF inv st t inv' [unfolded step_begin(1) thread_begin_def]]) (simp_all add: phase_rank_def)
    then show ?thesis using step_begin by simp
  next
    case (step_prime tid j rnd)
    have t: "threads a tid = Some (k, Begun)" using step_prime the_thread by blast
    obtain ph s' d' where p: "ph \<in> {Running, Ending}" "thread_prime rnd tid a = thread_to tid ph (\<lambda>_. (s', d')) a"
        "s_stop_requested s' = s_stop_requested s"
      by (rule prime_step [OF inv t s(1)])
    have "nearer k a (thread_to tid ph (\<lambda>_. (s', d')) a)"
      by (rule nearer_thread_to [OF inv st t inv' [unfolded step_prime(1) p(2)]]) (use p req in \<open>auto simp: phase_rank_def\<close>)
    then show ?thesis using step_prime p(2) by simp
  next
    case (step_turn tid j rnd)
    have t: "threads a tid = Some (k, Running)" using step_turn the_thread by blast
    note e = step_cases_stop [OF inv t s(1) req, of rnd]
    have "nearer k a (thread_to tid Ending (\<lambda>_. (s, tick (dev a))) a)"
      by (rule nearer_thread_to [OF inv st t inv' [unfolded step_turn(1) e]]) (use req in \<open>auto simp: phase_rank_def\<close>)
    then show ?thesis using step_turn e by simp
  next
    case (step_leave tid j)
    have t: "threads a tid = Some (k, Ending)" using step_leave the_thread by blast
    have "nearer k a (thread_leave tid a)"
      unfolding thread_leave_def
      by (rule nearer_thread_to [OF inv st t inv' [unfolded step_leave(1) thread_leave_def]]) (simp_all add: thread_end_stop phase_rank_def)
    then show ?thesis using step_leave by simp
  next
    case (step_log tid j)
    have t: "threads a tid = Some (k, Leaving)" using step_log the_thread by blast
    have "nearer k a (thread_log tid a)"
      unfolding thread_log_def
      by (rule nearer_thread_to [OF inv st t inv' [unfolded step_log(1) thread_log_def]]) (simp_all add: phase_rank_def)
    then show ?thesis using step_log by simp
  qed (use w in \<open>auto simp: waiting_def\<close>)
qed

text \<open>Outside a wait the request is set before the wait begins.\<close>

lemma request_sets_stop:
  assumes "audio_inv a" and "control a = Idle" and "astep a a'"
  shows "stop_inv a'"
  using assms(3)
proof cases
  case (step_open b h)
  have "control (snd (aaudio_bridge_builder_open_stream b h a)) = control a"
    by (simp add: aaudio_bridge_builder_open_stream_def Let_def split: option.splits)
  then show ?thesis using step_open by (simp add: stop_inv_def)
next
  case (step_start k c)
  have "control (snd (start_go c j s a)) = control a" for j s by (simp add: start_go_def Let_def)
  then have "control (snd (aaudio_bridge_stream_request_start c k a)) \<in> {Idle, JoinStart (the k)}"
    using assms(2) by (auto simp: aaudio_bridge_stream_request_start_def split: option.splits prod.splits) (metis snd_conv)+
  then show ?thesis using step_start by (auto simp: stop_inv_def)
next
  case (step_stop k)
  then show ?thesis using assms(2)
    by (auto simp: stop_inv_def aaudio_bridge_stream_request_stop_def upd_stream_def split: option.splits if_splits)
next
  case (step_close k)
  have "control (snd (close_rest j a)) = control a" for j by (simp add: close_rest_def Let_def split: option.splits)
  then have "control (snd (aaudio_bridge_stream_close k a)) = Idle \<or>
      (\<exists>j s. k = Some j \<and> heap a j = Some s \<and> s_thread_started s)"
    using assms(2) by (auto simp: aaudio_bridge_stream_close_def split: option.splits prod.splits) (metis snd_conv)
  then show ?thesis
  proof
    assume "\<exists>j s. k = Some j \<and> heap a j = Some s \<and> s_thread_started s"
    then show ?thesis using step_close by (auto simp: stop_inv_def aaudio_bridge_stream_close_def upd_stream_def split: if_splits)
  qed (use step_close in \<open>simp add: stop_inv_def\<close>)
next
  case (step_resize k n)
  then show ?thesis using assms(2) by (simp add: stop_inv_def upd_stream_def split: option.splits)
qed (use assms(2) in \<open>auto simp: stop_inv_def thread_begin_def thread_prime_def thread_turn_def thread_leave_def thread_log_def
      thread_to_shape(1) split: option.splits prod.splits\<close>)

lemma restart_keeps_stop:
  assumes "control a = JoinStart k" and "astep a a'"
  shows "stop_inv a'"
  using assms(2)
proof cases
  case (step_started j c)
  have "control (snd (start_go c i s x)) = control x" for i s x by (simp add: start_go_def Let_def)
  then have "control (snd (start_joined c j a)) = Idle" by (simp add: start_joined_def Let_def split: option.splits)
  then show ?thesis using step_started by (simp add: stop_inv_def)
qed (use assms(1) in \<open>auto simp: stop_inv_def thread_begin_def thread_prime_def thread_turn_def thread_leave_def thread_log_def
      thread_to_shape(1) split: option.splits prod.splits\<close>)

lemma audio_reachable_stop: "audio_reachable a \<Longrightarrow> stop_inv a"
proof (induction rule: audio_reachable.induct)
  case (reach_start a)
  then show ?case by (simp add: audio_start_def stop_inv_def)
next
  case (reach_step a a')
  note inv = audio_reachable_inv [OF reach_step.hyps(1)]
  show ?case
  proof (cases "control a")
    case Idle
    then show ?thesis by (rule request_sets_stop [OF inv _ reach_step.hyps(2)])
  next
    case (JoinStart k)
    then show ?thesis by (rule restart_keeps_stop [OF _ reach_step.hyps(2)])
  next
    case (JoinStop k)
    then have w: "waiting k a" by (simp add: waiting_def)
    have "stop_inv a'" if "control a' = Idle" using that by (simp add: stop_inv_def)
    then show ?thesis using nearer_step [OF inv reach_step.IH w reach_step.hyps(2)] by (auto simp: nearer_def)
  next
    case (JoinClose k)
    then have w: "waiting k a" by (simp add: waiting_def)
    have "stop_inv a'" if "control a' = Idle" using that by (simp add: stop_inv_def)
    then show ?thesis using nearer_step [OF inv reach_step.IH w reach_step.hyps(2)] by (auto simp: nearer_def)
  qed
qed

lemma fills_exist: "callback_fills (\<lambda>_. (Floats (replicate n (Fin 0)), False)) n"
  by (simp add: callback_fills_def pcm_length_def)

text \<open>A step is always possible while a call waits.\<close>

lemma waiting_goes_on:
  assumes inv: "audio_inv a" and w: "waiting k a"
  shows "\<exists>a'. astep a a'"
proof -
  obtain s where s: "heap a k = Some s" "s_thread_started s" using joinable_thread [OF inv, of k] w by (auto simp: waiting_def)
  obtain ph where t: "threads a (s_pthread_id s) = Some (k, ph)" using started_thread [OF inv s] by blast
  show ?thesis
  proof (cases ph)
    case Fresh
    then show ?thesis using step_begin [of a "s_pthread_id s" k "\<lambda>_. (Floats (replicate (samples_of s) (Fin 0)), False)"] t s fills_exist
      by auto
  next
    case Gone
    then have "joinable k a" using t s by (simp add: joinable_def)
    then show ?thesis using w by (auto simp: waiting_def intro: step_stopped step_closed)
  qed (use t in \<open>auto intro: step_prime step_turn step_leave step_log\<close>)
qed

section \<open>The properties\<close>

definition audio_device :: "device \<Rightarrow> bool" where
  "audio_device d \<longleftrightarrow> \<not> d_overlap d \<and> distinct (d_queue d) \<and> set (d_queue d) \<subseteq> {0..<NX_AUDOUT_BUFFER_COUNT}"


text \<open>
  C11.  A call that stops or closes a stream always returns: while it waits for the thread, some step
  is possible, and every step either ends the wait, which happens only after the thread has ended,
  or brings the thread nearer to its end, from which it is at most five steps away.
\<close>

theorem audio_stop_completes:
  assumes "audio_reachable a" and "control a \<in> {JoinStop k, JoinClose k}"
  shows "left_to_join k a \<le> 5 \<and> (\<exists>a'. astep a a') \<and>
    (\<forall>a'. astep a a' \<longrightarrow> (control a' = Idle \<and> joinable k a) \<or>
      (control a' = control a \<and> left_to_join k a' < left_to_join k a))"
proof -
  note inv = audio_reachable_inv [OF assms(1)] and st = audio_reachable_stop [OF assms(1)]
  have w: "waiting k a" using assms(2) by (simp add: waiting_def)
  have "left_to_join k a \<le> 5"
    by (auto simp: left_to_join_def phase_rank_def split: option.splits phase.splits)
  then show ?thesis using waiting_goes_on [OF inv w] nearer_step [OF inv st w] unfolding nearer_def by blast
qed

text \<open>
  C33.  Resampling neither drifts nor tears: however many callback buffers are converted one after
  the other, the output frames made are the whole part of the exact ratio of the rates, applied to
  all the input at once, no buffer is left out of bounds, and each output frame is the input frame
  of its time.
\<close>

theorem audio_resampling_exact:
  assumes "stream_ok s" and "\<forall>b \<in> set bs. pcm_length b = s_frames_per_callback s * s_channels s"
  shows "\<exists>outs s'. resample_all rnd s bs = Some (outs, s') \<and> list_all2 (faithful rnd s) bs outs \<and>
    total_frames outs = (length bs * s_frames_per_callback s * 48000 + unat (s_resample_remainder s)) div s_sample_rate s"
proof -
  obtain outs s' where r: "resample_all rnd s bs = Some (outs, s')" "list_all2 (faithful rnd s) bs outs"
      "length bs * (s_frames_per_callback s * 48000) + unat (s_resample_remainder s) =
        total_frames outs * s_sample_rate s + unat (s_resample_remainder s')"
      "unat (s_resample_remainder s') < s_sample_rate s"
    using resample_all_effect [OF assms(1), of bs rnd] assms(2) by blast
  have "(length bs * s_frames_per_callback s * 48000 + unat (s_resample_remainder s)) div s_sample_rate s =
      (total_frames outs * s_sample_rate s + unat (s_resample_remainder s')) div s_sample_rate s"
    using r(3) by (simp add: mult.assoc)
  also have "\<dots> = total_frames outs" using r(4) by simp
  finally show ?thesis using r(1,2) by auto
qed

section \<open>A run\<close>

text \<open>A stream of one channel at 44100 Hz with callbacks of 32 frames is opened and started, and then asked to stop.\<close>

definition w_builder :: builder where
  "w_builder = new_builder\<lparr>b_sample_rate := 44100, b_channels := 1, b_format := AAUDIO_FORMAT_PCM_I16,
     b_frames_per_callback := 32, b_data_callback := True\<rparr>"

definition w_host :: audio_host where
  "w_host = \<lparr>h_stream = True, h_samples = True, h_init = True, h_rate = 48000, h_channels = 2, h_int16 = True, h_running = False,
     h_output = \<lambda>_. True\<rparr>"

definition w_device :: device where
  "w_device = \<lparr>d_queue = [], d_running = False, d_overlap = False, d_errors = 0, d_fails = \<lambda>_. False, d_flush_fails = \<lambda>_. False,
     d_done = \<lambda>_. True, d_halted = \<lambda>_. False, d_time = \<lambda>_. 0, d_quit = \<lambda>_. False,
     d_callback = \<lambda>_. (Ints (replicate 32 0), False), d_clock = 0\<rparr>"

definition w_audio :: audio where
  "w_audio = \<lparr>heap = \<lambda>_. None, g_audout_owner = None, device_open = 0, g_streams = [], threads = \<lambda>_. None, fresh_stream = 0,
     fresh_tid = 1, dev = w_device, control = Idle, wild = False, joins = False\<rparr>"

definition w_stream :: stream where
  "w_stream = with_buffers ((the (configure w_builder))\<lparr>s_audout_initialized := True, s_audout_rate := 48000\<rparr>)\<lparr>s_state := AAUDIO_STREAM_STATE_OPEN\<rparr>"

definition w_opened :: audio where "w_opened = snd (aaudio_bridge_builder_open_stream w_builder w_host w_audio)"
definition w_started :: audio where "w_started = snd (aaudio_bridge_stream_request_start True (Some 0) w_opened)"
definition w_stopping :: audio where "w_stopping = snd (aaudio_bridge_stream_request_stop (Some 0) w_started)"

lemma w_configure: "configure w_builder = Some (the (configure w_builder))" and w_direction: "b_direction w_builder = 0" "b_data_callback w_builder"
  by (simp_all add: configure_def Let_def w_builder_def new_builder_def AAUDIO_FORMAT_PCM_I16_def AAUDIO_FORMAT_PCM_FLOAT_def
      AAUDIO_FORMAT_UNSPECIFIED_def AAUDIO_DIRECTION_OUTPUT_def)

lemma w_opened_eq:
  "w_opened = w_audio\<lparr>heap := [0 \<mapsto> w_stream], g_audout_owner := Some 0, device_open := 1, g_streams := [0], fresh_stream := 1,
     dev := audout_flush w_device\<rparr>"
proof -
  obtain s where "configure w_builder = Some s" using w_configure by blast
  then show ?thesis
    by (simp add: w_opened_def aaudio_bridge_builder_open_stream_def w_direction AAUDIO_DIRECTION_OUTPUT_def w_host_def w_audio_def
        Let_def w_stream_def list_all_iff)
qed

lemma w_stream_sel:
  "s_state w_stream = AAUDIO_STREAM_STATE_OPEN" "\<not> s_thread_started w_stream" "\<not> s_audout_started w_stream" "\<not> s_thread_exited w_stream"
  "s_sample_rate w_stream = 44100" "s_channels w_stream = 1" "s_frames_per_callback w_stream = 32" "s_resample_remainder w_stream = 0"
  by (simp_all add: w_stream_def with_buffers_def Let_def configure_def w_builder_def new_builder_def AAUDIO_FORMAT_PCM_I16_def
      AAUDIO_FORMAT_PCM_FLOAT_def AAUDIO_FORMAT_UNSPECIFIED_def)

lemma w_stream_ok: "stream_ok w_stream"
  using opened_stream(1) [OF w_configure] by (simp add: stream_fine_def w_stream_def)

lemma w_started_eq:
  "\<exists>s. heap w_started = [0 \<mapsto> s] \<and> s_thread_started s" "threads w_started = [1 \<mapsto> (0, Fresh)]" "control w_started = Idle"
proof -
  show "threads w_started = [1 \<mapsto> (0, Fresh)]" "control w_started = Idle"
    by (simp_all add: w_started_def w_opened_eq aaudio_bridge_stream_request_start_def start_go_def w_stream_sel Let_def w_audio_def)
  have "heap w_started = [0 \<mapsto> w_stream\<lparr>s_stop_requested := False, s_thread_exited := False, s_state := AAUDIO_STREAM_STATE_STARTING,
      s_resample_remainder := 0, s_audout_started := False, s_pthread_id := 1, s_thread_started := True\<rparr>]"
    by (simp add: w_started_def w_opened_eq aaudio_bridge_stream_request_start_def start_go_def w_stream_sel Let_def w_audio_def)
  then show "\<exists>s. heap w_started = [0 \<mapsto> s] \<and> s_thread_started s" by (intro exI conjI) (assumption, simp)
qed

lemma w_reachable: "audio_reachable w_opened" "audio_reachable w_started" "audio_reachable w_stopping"
proof -
  have "audio_reachable w_audio"
    by (rule reach_start) (simp add: audio_start_def w_audio_def w_device_def queue_ok_def)
  then show o: "audio_reachable w_opened" unfolding w_opened_def by (rule reach_step) (rule step_open, simp add: w_audio_def)
  then show r: "audio_reachable w_started" unfolding w_started_def
    by (rule reach_step) (rule step_start, simp_all add: w_opened_eq w_audio_def handle_ok_def)
  then show "audio_reachable w_stopping" unfolding w_stopping_def
    by (rule reach_step) (rule step_stop, use w_started_eq in \<open>auto simp: handle_ok_def\<close>)
qed

lemma w_stopping_eq: "control w_stopping = JoinStop 0" "threads w_stopping = [1 \<mapsto> (0, Fresh)]"
proof -
  obtain s where s: "heap w_started = [0 \<mapsto> s]" "s_thread_started s" using w_started_eq(1) by blast
  show "control w_stopping = JoinStop 0" "threads w_stopping = [1 \<mapsto> (0, Fresh)]"
    using s w_started_eq(2) by (simp_all add: w_stopping_def aaudio_bridge_stream_request_stop_def upd_stream_def)
qed


theorem audio_stop_completes_witness:
  "control w_stopping = JoinStop 0 \<and> left_to_join 0 w_stopping \<le> 5 \<and> (\<exists>a'. astep w_stopping a')"
  using audio_stop_completes [OF w_reachable(3), of 0] w_stopping_eq(1) by simp

theorem audio_resampling_exact_witness:
  "\<exists>outs s'. resample_all (\<lambda>x. x) w_stream [Ints (replicate 32 5), Ints (replicate 32 7)] = Some (outs, s') \<and> total_frames outs = 69"
  using audio_resampling_exact [OF w_stream_ok, of "[Ints (replicate 32 5), Ints (replicate 32 7)]" "\<lambda>x. x"]
  by (auto simp: w_stream_sel pcm_length_def)

end
