(* ===== verification/Patches.thy ===== *)
theory Patches
  imports Loader Complex_Main
begin

text \<open>
  The patches of the engine's code (\<^verbatim>\<open>source/unity_patches.c\<close> with the offsets and instructions of
  \<^verbatim>\<open>source/config.h\<close>), and the clock that replaces the engine's own.  All the patches are switched
  on in \<^verbatim>\<open>config.h\<close>.
\<close>

section \<open>Offsets and instructions\<close>

definition OFF_UNITY_CPU_COUNT_RETURN :: nat where "OFF_UNITY_CPU_COUNT_RETURN = 0x01886bdc"
definition OFF_TIME_MANAGER_UPDATE_ENTRY :: nat where "OFF_TIME_MANAGER_UPDATE_ENTRY = 0x008cf61c"
definition OFF_TIME_MANAGER_UPDATE_BODY :: nat where "OFF_TIME_MANAGER_UPDATE_BODY = 0x008cf640"
definition OFF_TM_FRAMECOUNT_U64 :: nat where "OFF_TM_FRAMECOUNT_U64 = 0x160"
definition OFF_TM_AUX_U32 :: nat where "OFF_TM_AUX_U32 = 0x168"
definition OFF_TM_PAUSE_U8 :: nat where "OFF_TM_PAUSE_U8 = 0x1a8"
definition OFF_VSYNC_COUNTER :: nat where "OFF_VSYNC_COUNTER = 0x01b3d460"
definition OFF_CHOREOGRAPHER_WAIT_SITE :: nat where "OFF_CHOREOGRAPHER_WAIT_SITE = 0x00a9f4a0"
definition OFF_FMOD_PARTIAL_RELEASE_PROLOGUE :: nat where "OFF_FMOD_PARTIAL_RELEASE_PROLOGUE = 0x01961740"
definition OFF_FMOD_PARTIAL_RELEASE_NULL_CLEANUP :: nat where "OFF_FMOD_PARTIAL_RELEASE_NULL_CLEANUP = 0x01961d30"
definition OFF_UNITY_LOW_ALLOC_CHECK :: nat where "OFF_UNITY_LOW_ALLOC_CHECK = 0x0100bbb8"
definition OFF_UNITY_LOW_ALLOC_FAIL :: nat where "OFF_UNITY_LOW_ALLOC_FAIL = 0x0100bc04"
definition OFF_DYNAMIC_HEAP_REGION_SIZE :: nat where "OFF_DYNAMIC_HEAP_REGION_SIZE = 0x01007878"
definition OFF_DYNAMIC_HEAP_REGION_MINUS_ONE :: nat where "OFF_DYNAMIC_HEAP_REGION_MINUS_ONE = 0x01007d44"
definition OFF_DYNAMIC_HEAP_REGION_ALIGN_MASK :: nat where "OFF_DYNAMIC_HEAP_REGION_ALIGN_MASK = 0x01007d70"
definition OFF_OWNER_RANGE_ADDR_MASK :: nat where "OFF_OWNER_RANGE_ADDR_MASK = 0x010094f4"
definition OFF_OWNER_RANGE_START_BUCKET :: nat where "OFF_OWNER_RANGE_START_BUCKET = 0x010094f8"
definition OFF_OWNER_RANGE_END_BUCKET :: nat where "OFF_OWNER_RANGE_END_BUCKET = 0x01009500"
definition OFF_OWNER_LOOKUP_BUCKET :: nat where "OFF_OWNER_LOOKUP_BUCKET = 0x010097d4"
definition OFF_OWNER_LOOKUP_BASE_MASK :: nat where "OFF_OWNER_LOOKUP_BASE_MASK = 0x010097e4"
definition OFF_OWNER_LOOKUP_LEAF_INDEX :: nat where "OFF_OWNER_LOOKUP_LEAF_INDEX = 0x010097ec"
definition OFF_OWNER_LOOKUP_REGION_INDEX :: nat where "OFF_OWNER_LOOKUP_REGION_INDEX = 0x01009800"
definition OFF_OWNER_RUN_BACKSTEP_HI :: nat where "OFF_OWNER_RUN_BACKSTEP_HI = 0x01009804"
definition OFF_OWNER_RUN_BACKSTEP_LO :: nat where "OFF_OWNER_RUN_BACKSTEP_LO = 0x01009808"
definition OFF_OWNER_LOOKUP_BACKSTEP :: nat where "OFF_OWNER_LOOKUP_BACKSTEP = 0x0100984c"
definition OFF_OWNER_DIRECT_TOP_INDEX :: nat where "OFF_OWNER_DIRECT_TOP_INDEX = 0x01009860"
definition OFF_OWNER_DIRECT_LEAF_INDEX :: nat where "OFF_OWNER_DIRECT_LEAF_INDEX = 0x01009870"
definition OFF_OWNER_MANAGER_TOP_INDEX :: nat where "OFF_OWNER_MANAGER_TOP_INDEX = 0x0100b2a4"
definition OFF_OWNER_MANAGER_LEAF_INDEX :: nat where "OFF_OWNER_MANAGER_LEAF_INDEX = 0x0100b2bc"
definition OFF_DYNAMIC_HEAP_VM_ALIGNMENT :: nat where "OFF_DYNAMIC_HEAP_VM_ALIGNMENT = 0x010095a4"
definition UNITY_LOW_ALLOC_MIN_BYTES :: nat where "UNITY_LOW_ALLOC_MIN_BYTES = 0x00400000"

definition UNITY_CPU_COUNT_RETURN_ORIG :: u32 where "UNITY_CPU_COUNT_RETURN_ORIG = 0xb9400660"
definition CHOREOGRAPHER_WAIT_FROM :: u32 where "CHOREOGRAPHER_WAIT_FROM = 0x17fffff9"
definition CHOREOGRAPHER_WAIT_TO :: u32 where "CHOREOGRAPHER_WAIT_TO = 0x14000001"
definition DYNAMIC_HEAP_REGION_256M_INSN :: u32 where "DYNAMIC_HEAP_REGION_256M_INSN = 0x52a20009"
definition DYNAMIC_HEAP_REGION_64M_INSN :: u32 where "DYNAMIC_HEAP_REGION_64M_INSN = 0x52a08009"
definition DYNAMIC_HEAP_MINUS1_256M_INSN :: u32 where "DYNAMIC_HEAP_MINUS1_256M_INSN = 0x12be000d"
definition DYNAMIC_HEAP_MINUS1_64M_INSN :: u32 where "DYNAMIC_HEAP_MINUS1_64M_INSN = 0x12bf800d"
definition DYNAMIC_HEAP_MASK_256M_INSN :: u32 where "DYNAMIC_HEAP_MASK_256M_INSN = 0x92648d36"
definition DYNAMIC_HEAP_MASK_64M_INSN :: u32 where "DYNAMIC_HEAP_MASK_64M_INSN = 0x92669536"
definition OWNER_RANGE_MASK_56_INSN :: u32 where "OWNER_RANGE_MASK_56_INSN = 0x9240dc28"
definition OWNER_RANGE_MASK_54_INSN :: u32 where "OWNER_RANGE_MASK_54_INSN = 0x9240d428"
definition OWNER_START_28_INSN :: u32 where "OWNER_START_28_INSN = 0xd35cdc33"
definition OWNER_START_26_INSN :: u32 where "OWNER_START_26_INSN = 0xd35ad433"
definition OWNER_END_28_INSN :: u32 where "OWNER_END_28_INSN = 0xd35cfd15"
definition OWNER_END_26_INSN :: u32 where "OWNER_END_26_INSN = 0xd35afd15"
definition OWNER_LOOKUP_28_INSN :: u32 where "OWNER_LOOKUP_28_INSN = 0xd35cfc28"
definition OWNER_LOOKUP_26_INSN :: u32 where "OWNER_LOOKUP_26_INSN = 0xd35afc28"
definition OWNER_BASE_MASK_28_INSN :: u32 where "OWNER_BASE_MASK_28_INSN = 0x92646c28"
definition OWNER_BASE_MASK_26_INSN :: u32 where "OWNER_BASE_MASK_26_INSN = 0x92666c28"
definition OWNER_LEAF_28_INSN :: u32 where "OWNER_LEAF_28_INSN = 0xd35c9c2a"
definition OWNER_LEAF_26_INSN :: u32 where "OWNER_LEAF_26_INSN = 0xd35a942a"
definition OWNER_REGION_28_INSN :: u32 where "OWNER_REGION_28_INSN = 0xd35cdc29"
definition OWNER_REGION_26_INSN :: u32 where "OWNER_REGION_26_INSN = 0xd35ad429"
definition OWNER_BACKSTEP_HI_256M_INSN :: u32 where "OWNER_BACKSTEP_HI_256M_INSN = 0xb25c6feb"
definition OWNER_BACKSTEP_HI_64M_INSN :: u32 where "OWNER_BACKSTEP_HI_64M_INSN = 0xb25e77eb"
definition OWNER_BACKSTEP_LO_256M_INSN :: u32 where "OWNER_BACKSTEP_LO_256M_INSN = 0xf2a2000b"
definition OWNER_BACKSTEP_LO_64M_INSN :: u32 where "OWNER_BACKSTEP_LO_64M_INSN = 0xf2a0800b"
definition OWNER_BACKSTEP_SHIFT28_INSN :: u32 where "OWNER_BACKSTEP_SHIFT28_INSN = 0xcb0a7108"
definition OWNER_BACKSTEP_SHIFT26_INSN :: u32 where "OWNER_BACKSTEP_SHIFT26_INSN = 0xcb0a6908"
definition OWNER_TOP_SHIFT40_INSN :: u32 where "OWNER_TOP_SHIFT40_INSN = 0xd368fc28"
definition OWNER_TOP_SHIFT38_INSN :: u32 where "OWNER_TOP_SHIFT38_INSN = 0xd366fc28"
definition OWNER_DIRECT_LEAF28_INSN :: u32 where "OWNER_DIRECT_LEAF28_INSN = 0xd35c9c29"
definition OWNER_DIRECT_LEAF26_INSN :: u32 where "OWNER_DIRECT_LEAF26_INSN = 0xd35a9429"
definition OWNER_MANAGER_TOP40_INSN :: u32 where "OWNER_MANAGER_TOP40_INSN = 0xd368fc28"
definition OWNER_MANAGER_TOP38_INSN :: u32 where "OWNER_MANAGER_TOP38_INSN = 0xd366fc28"
definition OWNER_MANAGER_LEAF28_INSN :: u32 where "OWNER_MANAGER_LEAF28_INSN = 0xd35c9e89"
definition OWNER_MANAGER_LEAF26_INSN :: u32 where "OWNER_MANAGER_LEAF26_INSN = 0xd35a9689"
definition DYNAMIC_HEAP_ALIGN_256M_INSN :: u32 where "DYNAMIC_HEAP_ALIGN_256M_INSN = 0x52a20008"
definition DYNAMIC_HEAP_ALIGN_64M_INSN :: u32 where "DYNAMIC_HEAP_ALIGN_64M_INSN = 0x52a08008"
definition DYNAMIC_HEAP_ALIGN_4K_INSN :: u32 where "DYNAMIC_HEAP_ALIGN_4K_INSN = 0x52820008"

lemmas offsets = OFF_UNITY_CPU_COUNT_RETURN_def OFF_TIME_MANAGER_UPDATE_ENTRY_def OFF_TIME_MANAGER_UPDATE_BODY_def
  OFF_TM_FRAMECOUNT_U64_def OFF_TM_AUX_U32_def OFF_TM_PAUSE_U8_def OFF_VSYNC_COUNTER_def OFF_CHOREOGRAPHER_WAIT_SITE_def
  OFF_FMOD_PARTIAL_RELEASE_PROLOGUE_def OFF_FMOD_PARTIAL_RELEASE_NULL_CLEANUP_def OFF_UNITY_LOW_ALLOC_CHECK_def
  OFF_UNITY_LOW_ALLOC_FAIL_def OFF_DYNAMIC_HEAP_REGION_SIZE_def OFF_DYNAMIC_HEAP_REGION_MINUS_ONE_def
  OFF_DYNAMIC_HEAP_REGION_ALIGN_MASK_def OFF_OWNER_RANGE_ADDR_MASK_def OFF_OWNER_RANGE_START_BUCKET_def
  OFF_OWNER_RANGE_END_BUCKET_def OFF_OWNER_LOOKUP_BUCKET_def OFF_OWNER_LOOKUP_BASE_MASK_def
  OFF_OWNER_LOOKUP_LEAF_INDEX_def OFF_OWNER_LOOKUP_REGION_INDEX_def OFF_OWNER_RUN_BACKSTEP_HI_def
  OFF_OWNER_RUN_BACKSTEP_LO_def OFF_OWNER_LOOKUP_BACKSTEP_def OFF_OWNER_DIRECT_TOP_INDEX_def
  OFF_OWNER_DIRECT_LEAF_INDEX_def OFF_OWNER_MANAGER_TOP_INDEX_def OFF_OWNER_MANAGER_LEAF_INDEX_def
  OFF_DYNAMIC_HEAP_VM_ALIGNMENT_def UNITY_LOW_ALLOC_MIN_BYTES_def
lemmas words = UNITY_CPU_COUNT_RETURN_ORIG_def CHOREOGRAPHER_WAIT_FROM_def CHOREOGRAPHER_WAIT_TO_def
  DYNAMIC_HEAP_REGION_256M_INSN_def DYNAMIC_HEAP_REGION_64M_INSN_def DYNAMIC_HEAP_MINUS1_256M_INSN_def
  DYNAMIC_HEAP_MINUS1_64M_INSN_def DYNAMIC_HEAP_MASK_256M_INSN_def DYNAMIC_HEAP_MASK_64M_INSN_def
  OWNER_RANGE_MASK_56_INSN_def OWNER_RANGE_MASK_54_INSN_def OWNER_START_28_INSN_def OWNER_START_26_INSN_def
  OWNER_END_28_INSN_def OWNER_END_26_INSN_def OWNER_LOOKUP_28_INSN_def OWNER_LOOKUP_26_INSN_def
  OWNER_BASE_MASK_28_INSN_def OWNER_BASE_MASK_26_INSN_def OWNER_LEAF_28_INSN_def OWNER_LEAF_26_INSN_def
  OWNER_REGION_28_INSN_def OWNER_REGION_26_INSN_def OWNER_BACKSTEP_HI_256M_INSN_def OWNER_BACKSTEP_HI_64M_INSN_def
  OWNER_BACKSTEP_LO_256M_INSN_def OWNER_BACKSTEP_LO_64M_INSN_def OWNER_BACKSTEP_SHIFT28_INSN_def
  OWNER_BACKSTEP_SHIFT26_INSN_def OWNER_TOP_SHIFT40_INSN_def OWNER_TOP_SHIFT38_INSN_def OWNER_DIRECT_LEAF28_INSN_def
  OWNER_DIRECT_LEAF26_INSN_def OWNER_MANAGER_TOP40_INSN_def OWNER_MANAGER_TOP38_INSN_def OWNER_MANAGER_LEAF28_INSN_def
  OWNER_MANAGER_LEAF26_INSN_def DYNAMIC_HEAP_ALIGN_256M_INSN_def DYNAMIC_HEAP_ALIGN_64M_INSN_def
  DYNAMIC_HEAP_ALIGN_4K_INSN_def

section \<open>Reading and writing instructions\<close>

text \<open>The module, how often code was patched, and the globals that installing sets.\<close>

record patcher =
  p_mod :: so_module
  p_calls :: nat
  g_update_body :: u64
  g_vsync_counter :: u64
  g_installed :: bool

text \<open>Whether the \<open>n\<close>-th patch finds address space for its alias, and can map it.\<close>

type_synonym mapper = "nat \<Rightarrow> bool \<times> bool"

definition le_bytes :: "u32 \<Rightarrow> byte list" where
  "le_bytes w = map (\<lambda>i. ucast (drop_bit (8 * i) w)) [0..<4]"

definition read_word :: "nat \<Rightarrow> patcher \<Rightarrow> u32" where
  "read_word off p = so_read_word (Some (p_mod p)) (of_nat off)"

definition patch_words :: "mapper \<Rightarrow> nat \<Rightarrow> u32 list \<Rightarrow> patcher \<Rightarrow> int \<times> patcher" where
  "patch_words env off ws p =
     (case so_patch_code (fst (env (p_calls p))) (snd (env (p_calls p))) (Some (p_mod p)) (of_nat off) (Some (concat (map le_bytes ws))) of
        (r, md) \<Rightarrow> (r, p\<lparr>p_mod := the md, p_calls := p_calls p + 1\<rparr>))"

text \<open>The words from an offset on.\<close>

definition words_are :: "nat \<Rightarrow> u32 list \<Rightarrow> patcher \<Rightarrow> bool" where
  "words_are off ws p \<longleftrightarrow> list_all (\<lambda>i. read_word (off + 4 * i) p = ws ! i) [0..<length ws]"

section \<open>The patches\<close>

text \<open>The number of processors, from the core mask of the process (\<open>None\<close> when it is not known).\<close>

definition popcount :: "u64 \<Rightarrow> nat" where
  "popcount m = length (filter (bit m) [0..<64])"

definition cpu_count_insn :: "nat \<Rightarrow> u32" where
  "cpu_count_insn n = 0x52800000 OR push_bit 5 (of_nat n)"

definition install_cpu_count_fix :: "mapper \<Rightarrow> u64 option \<Rightarrow> patcher \<Rightarrow> int \<times> patcher" where
  "install_cpu_count_fix env cores p =
     (case cores of
        None \<Rightarrow> (0, p)
      | Some m \<Rightarrow>
          if m = 0 then (0, p)
          else
            let count = popcount m
            in if count = 0 \<or> 0xffff < count then (-1, p)
               else
                 let got = read_word OFF_UNITY_CPU_COUNT_RETURN p; wanted = cpu_count_insn count
                 in if got \<noteq> UNITY_CPU_COUNT_RETURN_ORIG \<and> got \<noteq> wanted then (-2, p)
                    else if got = UNITY_CPU_COUNT_RETURN_ORIG
                    then (case patch_words env OFF_UNITY_CPU_COUNT_RETURN [wanted] p of (r, p') \<Rightarrow> (if r < 0 then -3 else 0, p'))
                    else (0, p))"

definition fmod_from :: "u32 list" where
  "fmod_from = [0xf940c408, 0x5293b309, 0xaa0003f3, 0x910103fd, 0xf8696915, 0x2a0103f4]"

definition fmod_to :: "u32 list" where
  "fmod_to = [0xaa0003f3, 0x2a0103f4, 0xf940c668, 0xb4002f28, 0x5293b309, 0xf8696915]"

definition install_fmod_guard :: "mapper \<Rightarrow> patcher \<Rightarrow> int \<times> patcher" where
  "install_fmod_guard env p =
     (let is_from = words_are OFF_FMOD_PARTIAL_RELEASE_PROLOGUE fmod_from p;
          is_to = words_are OFF_FMOD_PARTIAL_RELEASE_PROLOGUE fmod_to p
      in if \<not> is_from \<and> \<not> is_to then (-8, p)
         else if is_from
         then (case patch_words env OFF_FMOD_PARTIAL_RELEASE_PROLOGUE fmod_to p of (r, p') \<Rightarrow> (if r < 0 then -9 else 0, p'))
         else (0, p))"

text \<open>A table of patches: offset, old and new instruction.  First all are checked, then those that are still old are patched.\<close>

type_synonym patch = "nat \<times> u32 \<times> u32"

definition check_patches :: "patch list \<Rightarrow> patcher \<Rightarrow> bool" where
  "check_patches ps p \<longleftrightarrow> list_all (\<lambda>(off, from, to). read_word off p = from \<or> read_word off p = to) ps"

fun apply_patches :: "mapper \<Rightarrow> int \<Rightarrow> patch list \<Rightarrow> patcher \<Rightarrow> int \<times> patcher" where
  "apply_patches env err [] p = (0, p)"
| "apply_patches env err ((off, from, to) # ps) p =
     (if read_word off p = from
      then (case patch_words env off [to] p of (r, p') \<Rightarrow> if r < 0 then (err, p') else apply_patches env err ps p')
      else apply_patches env err ps p)"

definition heap_patches :: "patch list" where
  "heap_patches = [(OFF_DYNAMIC_HEAP_REGION_SIZE, DYNAMIC_HEAP_REGION_256M_INSN, DYNAMIC_HEAP_REGION_64M_INSN),
    (OFF_DYNAMIC_HEAP_REGION_MINUS_ONE, DYNAMIC_HEAP_MINUS1_256M_INSN, DYNAMIC_HEAP_MINUS1_64M_INSN),
    (OFF_DYNAMIC_HEAP_REGION_ALIGN_MASK, DYNAMIC_HEAP_MASK_256M_INSN, DYNAMIC_HEAP_MASK_64M_INSN),
    (OFF_OWNER_RANGE_ADDR_MASK, OWNER_RANGE_MASK_56_INSN, OWNER_RANGE_MASK_54_INSN),
    (OFF_OWNER_RANGE_START_BUCKET, OWNER_START_28_INSN, OWNER_START_26_INSN),
    (OFF_OWNER_RANGE_END_BUCKET, OWNER_END_28_INSN, OWNER_END_26_INSN),
    (OFF_OWNER_LOOKUP_BUCKET, OWNER_LOOKUP_28_INSN, OWNER_LOOKUP_26_INSN),
    (OFF_OWNER_LOOKUP_BASE_MASK, OWNER_BASE_MASK_28_INSN, OWNER_BASE_MASK_26_INSN),
    (OFF_OWNER_LOOKUP_LEAF_INDEX, OWNER_LEAF_28_INSN, OWNER_LEAF_26_INSN),
    (OFF_OWNER_LOOKUP_REGION_INDEX, OWNER_REGION_28_INSN, OWNER_REGION_26_INSN),
    (OFF_OWNER_RUN_BACKSTEP_HI, OWNER_BACKSTEP_HI_256M_INSN, OWNER_BACKSTEP_HI_64M_INSN),
    (OFF_OWNER_RUN_BACKSTEP_LO, OWNER_BACKSTEP_LO_256M_INSN, OWNER_BACKSTEP_LO_64M_INSN),
    (OFF_OWNER_LOOKUP_BACKSTEP, OWNER_BACKSTEP_SHIFT28_INSN, OWNER_BACKSTEP_SHIFT26_INSN),
    (OFF_OWNER_DIRECT_TOP_INDEX, OWNER_TOP_SHIFT40_INSN, OWNER_TOP_SHIFT38_INSN),
    (OFF_OWNER_DIRECT_LEAF_INDEX, OWNER_DIRECT_LEAF28_INSN, OWNER_DIRECT_LEAF26_INSN),
    (OFF_OWNER_MANAGER_TOP_INDEX, OWNER_MANAGER_TOP40_INSN, OWNER_MANAGER_TOP38_INSN),
    (OFF_OWNER_MANAGER_LEAF_INDEX, OWNER_MANAGER_LEAF28_INSN, OWNER_MANAGER_LEAF26_INSN)]"

definition align_insns :: "u32 list" where
  "align_insns = [DYNAMIC_HEAP_ALIGN_256M_INSN, DYNAMIC_HEAP_ALIGN_64M_INSN, DYNAMIC_HEAP_ALIGN_4K_INSN]"

definition install_heap_region :: "mapper \<Rightarrow> patcher \<Rightarrow> int \<times> patcher" where
  "install_heap_region env p =
     (if \<not> check_patches heap_patches p then (-5, p)
      else
        let vm_align = read_word OFF_DYNAMIC_HEAP_VM_ALIGNMENT p
        in if vm_align \<notin> set align_insns then (-5, p)
           else case apply_patches env (-6) heap_patches p of
                  (r, p1) \<Rightarrow>
                    if r < 0 then (r, p1)
                    else if vm_align \<noteq> DYNAMIC_HEAP_ALIGN_64M_INSN
                    then (case patch_words env OFF_DYNAMIC_HEAP_VM_ALIGNMENT [DYNAMIC_HEAP_ALIGN_64M_INSN] p1 of
                            (r, p2) \<Rightarrow> (if r < 0 then -6 else 0, p2))
                    else (0, p1))"

definition low_alloc_patches :: "patch list" where
  "low_alloc_patches =
     [(OFF_UNITY_LOW_ALLOC_CHECK, 0xb4000260, 0xf150001f),
      (OFF_UNITY_LOW_ALLOC_CHECK + 4, 0x93407e88, 0x54000243),
      (OFF_UNITY_LOW_ALLOC_CHECK + 0x10, 0x8b080009, 0x8b140009),
      (OFF_UNITY_LOW_ALLOC_CHECK + 0x14, 0xcb0803e8, 0xcb1403e8)]"

definition install_low_alloc_guard :: "mapper \<Rightarrow> patcher \<Rightarrow> int \<times> patcher" where
  "install_low_alloc_guard env p =
     (if \<not> check_patches low_alloc_patches p then (-12, p) else apply_patches env (-13) low_alloc_patches p)"

definition install_choreographer :: "mapper \<Rightarrow> patcher \<Rightarrow> int \<times> patcher" where
  "install_choreographer env p =
     (if read_word OFF_CHOREOGRAPHER_WAIT_SITE p = CHOREOGRAPHER_WAIT_FROM
      then (case patch_words env OFF_CHOREOGRAPHER_WAIT_SITE [CHOREOGRAPHER_WAIT_TO] p of (r, p') \<Rightarrow> (if r < 0 then -1 else 0, p'))
      else (-2, p))"

definition time_prologue :: "u32 list" where
  "time_prologue = [0xf940b008, 0xb9416809, 0x3946a00a, 0x91000508, 0x11000529, 0xf900b008, 0xb9016809, 0x3400004a]"

definition verify_time_prologue :: "patcher \<Rightarrow> bool" where
  "verify_time_prologue p \<longleftrightarrow> words_are OFF_TIME_MANAGER_UPDATE_ENTRY time_prologue p"

definition time_stub :: "u64 \<Rightarrow> u32 list" where
  "time_stub hook = [0x58000050, 0xd61f0200, ucast hook, ucast (drop_bit 32 hook)]"

definition install_time_hook :: "mapper \<Rightarrow> u64 \<Rightarrow> patcher \<Rightarrow> int \<times> patcher" where
  "install_time_hook env hook p =
     (if \<not> verify_time_prologue p then (-3, p)
      else case patch_words env OFF_TIME_MANAGER_UPDATE_ENTRY (time_stub hook) p of (r, p') \<Rightarrow> (if r < 0 then -4 else 0, p'))"

text \<open>A part that fails ends the whole.\<close>

definition andthen :: "(patcher \<Rightarrow> int \<times> patcher) \<Rightarrow> (patcher \<Rightarrow> int \<times> patcher) \<Rightarrow> patcher \<Rightarrow> int \<times> patcher" where
  "andthen f g p = (case f p of (r, p') \<Rightarrow> if r < 0 then (r, p') else g p')"

definition unity_patches_install :: "mapper \<Rightarrow> u64 option \<Rightarrow> u64 \<Rightarrow> patcher \<Rightarrow> int \<times> patcher" where
  "unity_patches_install env cores hook p =
     (case install_cpu_count_fix env cores p of
        (r, p1) \<Rightarrow>
          if r < 0 then (-7, p1)
          else
            let ub = load_virtbase (p_mod p1);
                p2 = p1\<lparr>g_update_body := ub + of_nat OFF_TIME_MANAGER_UPDATE_BODY, g_vsync_counter := ub + of_nat OFF_VSYNC_COUNTER\<rparr>
            in andthen (install_fmod_guard env)
                 (andthen (install_heap_region env)
                   (andthen (install_low_alloc_guard env)
                     (andthen (install_choreographer env)
                       (andthen (install_time_hook env hook)
                         (\<lambda>p. (0, p\<lparr>g_installed := True\<rparr>)))))) p2)"

section \<open>The clock\<close>

text \<open>
  The memory of the engine's time manager, as far as the hook touches it, and the clock: the start
  of the time, the time of the last tick of the main thread, and the calls of the engine's own
  update with the seconds since the start (\<open>rnd\<close> rounds to a double).
\<close>

record time_manager =
  tm_framecount :: u64
  tm_aux :: u32
  tm_pause :: byte

record clock =
  g_clock_base_ns :: u64
  g_last_main_tick_ns :: u64
  g_time_manager :: bool
  tm :: time_manager
  updates :: "rat list"

definition clock_tick :: "(rat \<Rightarrow> rat) \<Rightarrow> u64 \<Rightarrow> clock \<Rightarrow> clock" where
  "clock_tick rnd now c =
     (let c1 = (if g_clock_base_ns c = 0 then c\<lparr>g_clock_base_ns := now\<rparr> else c)
      in c1\<lparr>updates := updates c1 @ [rnd (rnd (of_nat (unat (now - g_clock_base_ns c1))) / 1000000000)]\<rparr>)"

definition count_frame :: "time_manager \<Rightarrow> time_manager" where
  "count_frame t = t\<lparr>tm_framecount := tm_framecount t + 1, tm_aux := tm_aux t + 1\<rparr>"

definition time_update_hook :: "(rat \<Rightarrow> rat) \<Rightarrow> u64 \<Rightarrow> u64 \<Rightarrow> clock \<Rightarrow> clock" where
  "time_update_hook rnd now1 now2 c =
     (let c1 = c\<lparr>g_time_manager := True, g_last_main_tick_ns := now1, tm := count_frame (tm c)\<rparr>
      in if tm_pause (tm c1) \<noteq> 0 then c1 else clock_tick rnd now2 c1)"

text \<open>A turn of the helper thread, \<open>free\<close> says whether it gets the lock; the flag says whether it ticked the choreographer.\<close>

definition clock_thread_turn :: "(rat \<Rightarrow> rat) \<Rightarrow> u64 \<Rightarrow> u64 \<Rightarrow> bool \<Rightarrow> u64 \<Rightarrow> clock \<Rightarrow> bool \<times> u64 \<times> clock" where
  "clock_thread_turn rnd now now2 free last_choreo c =
     (let ticks = 16000000 \<le> now - last_choreo
      in (ticks, if ticks then now else last_choreo,
          if g_time_manager c \<and> g_last_main_tick_ns c \<noteq> 0 \<and> 100000000 < now - g_last_main_tick_ns c \<and> free
          then clock_tick rnd now2 c else c))"

end
