(* ===== verification/PatchesProps.thy ===== *)
theory PatchesProps
  imports Patches
begin

text \<open>Patches are applied only where the expected instructions stand, and completely or the game is not started.\<close>

section \<open>Words of the image\<close>

lemma word_bytes:
  fixes w :: u32
  shows "foldl (\<lambda>v i. v OR push_bit (8 * i) (ucast (f i :: byte))) 0 [0..<4] = w \<longleftrightarrow> (\<forall>i < 4. f i = ucast (drop_bit (8 * i) w))"
proof -
  let ?v = "foldl (\<lambda>v i. v OR push_bit (8 * i) (ucast (f i :: byte))) 0 [0..<4] :: u32"
  have v: "bit ?v n \<longleftrightarrow> n < 32 \<and> bit (f (n div 8)) (n mod 8)" for n
  proof (cases "n < 32")
    case True
    then consider "n < 8" | "8 \<le> n" "n < 16" | "16 \<le> n" "n < 24" | "24 \<le> n" "n < 32" by linarith
    then show ?thesis
    proof cases
      case 1
      then show ?thesis by (auto simp: upt_rec numeral_2_eq_2 numeral_3_eq_3 bit_simps dest: bit_imp_le_length)
    next
      case 2
      then have "n div 8 = 1" "n mod 8 = n - 8" by presburger+
      then show ?thesis using 2 by (auto simp: upt_rec numeral_2_eq_2 numeral_3_eq_3 bit_simps dest: bit_imp_le_length)
    next
      case 3
      then have "n div 8 = 2" "n mod 8 = n - 16" by presburger+
      then show ?thesis using 3 by (auto simp: upt_rec numeral_2_eq_2 numeral_3_eq_3 bit_simps dest: bit_imp_le_length)
    next
      case 4
      then have "n div 8 = 3" "n mod 8 = n - 24" by presburger+
      then show ?thesis using 4 by (auto simp: upt_rec numeral_2_eq_2 numeral_3_eq_3 bit_simps dest: bit_imp_le_length)
    qed
  qed (auto dest: bit_imp_le_length)
  show ?thesis
  proof
    assume "?v = w"
    then have w: "bit w n \<longleftrightarrow> n < 32 \<and> bit (f (n div 8)) (n mod 8)" for n using v by metis
    show "\<forall>i < 4. f i = ucast (drop_bit (8 * i) w)"
    proof (intro allI impI bit_word_eqI)
      fix i n :: nat assume "i < 4" "n < LENGTH(8)"
      then show "bit (f i) n = bit (ucast (drop_bit (8 * i) w) :: byte) n"
        using w [of "8 * i + n"] by (simp add: bit_simps)
    qed
  next
    assume f: "\<forall>i < 4. f i = ucast (drop_bit (8 * i) w)"
    show "?v = w"
    proof (rule bit_word_eqI)
      fix n :: nat assume n: "n < LENGTH(32)"
      then have "n div 8 < 4" by (simp add: div_less_iff_less_mult)
      then have "f (n div 8) = ucast (drop_bit (8 * (n div 8)) w)" using f by blast
      then show "bit ?v n = bit w n" using n v [of n] by (simp add: bit_simps)
    qed
  qed
qed

lemma le_bytes_nth: "i < length ws \<Longrightarrow> j < 4 \<Longrightarrow> concat (map le_bytes ws) ! (4 * i + j) = ucast (drop_bit (8 * j) (ws ! i))"
proof (induction ws arbitrary: i)
  case (Cons w ws)
  then show ?case by (cases i) (auto simp: le_bytes_def nth_append)
qed simp

lemma le_bytes_length [simp]: "length (concat (map le_bytes ws)) = 4 * length ws"
  by (induction ws) (simp_all add: le_bytes_def)

lemma memcpy_at:
  assumes "off + length bs < 2 ^ 64"
  shows "memcpy (of_nat off) bs m x = (if off \<le> unat x \<and> unat x < off + length bs then bs ! (unat x - off) else m x)"
proof -
  have o: "unat (of_nat off :: u64) = off" using assms by (simp add: unat_of_nat take_bit_nat_eq_self)
  have "unat x < 2 ^ 64" using unsigned_less [of x] by simp
  then show ?thesis using assms unfolding memcpy_def unat_sub_if' o by auto
qed

definition block :: "nat \<Rightarrow> nat \<Rightarrow> u64 set" where
  "block off n = {x. off \<le> unat x \<and> unat x < off + 4 * n}"

lemma read_word_cong:
  assumes "off + 4 < 2 ^ 64" and "load_virtbase (p_mod q) = load_virtbase (p_mod p)" and "load_size (p_mod q) = load_size (p_mod p)"
    and "\<And>x. x \<in> block off 1 \<Longrightarrow> image (p_mod q) x = image (p_mod p) x"
  shows "read_word off q = read_word off p"
proof -
  have "image (p_mod q) (of_nat off + of_nat i) = image (p_mod p) (of_nat off + of_nat i)" if "i \<in> set [0..<4]" for i
  proof -
    have "unat (of_nat off + of_nat i :: u64) = off + i"
      using assms(1) that by (simp add: unat_of_nat take_bit_nat_eq_self flip: of_nat_add)
    then show ?thesis using that by (intro assms(4)) (simp add: block_def)
  qed
  then have "foldl (\<lambda>v i. v OR push_bit (8 * i) (ucast (image (p_mod q) (of_nat off + of_nat i)))) 0 [0..<4] =
      (foldl (\<lambda>v i. v OR push_bit (8 * i) (ucast (image (p_mod p) (of_nat off + of_nat i)))) 0 [0..<4] :: u32)"
    by (intro foldl_cong) simp_all
  then show ?thesis using assms(2,3) by (simp add: read_word_def so_read_word_def)
qed

text \<open>What a patch does.\<close>

lemma patch_words_cases:
  assumes "patch_words env off ws p = (r, q)" and "off + 4 * length ws < 2 ^ 64" and "ws \<noteq> []"
  obtains (failed) "r < 0" "p_mod q = p_mod p"
  | (patched) "r = 0" "p_mod q = (p_mod p)\<lparr>image := memcpy (of_nat off) (concat (map le_bytes ws)) (image (p_mod p))\<rparr>"
      "load_virtbase (p_mod p) \<noteq> 0" "off + 4 * length ws \<le> unat (load_size (p_mod p))"
proof -
  define bs where "bs = concat (map le_bytes ws)"
  have len: "length bs = 4 * length ws" by (simp add: bs_def)
  then have ne: "bs \<noteq> []" using assms(3) by auto
  have "of_nat off + of_nat (length bs) = (of_nat (off + 4 * length ws) :: u64)" by (simp add: len)
  moreover have "unat (of_nat (off + 4 * length ws) :: u64) = off + 4 * length ws"
    using assms(2) unat_of_nat [of "off + 4 * length ws", where 'a = 64] by (simp add: take_bit_nat_eq_self del: of_nat_add)
  ultimately have le: "\<not> load_size (p_mod p) < of_nat off + of_nat (length bs) \<Longrightarrow> off + 4 * length ws \<le> unat (load_size (p_mod p))"
    by (simp only: word_less_nat_alt not_less)
  note call = assms(1) [unfolded patch_words_def so_patch_code_def, folded bs_def]
  show ?thesis
  proof (cases "load_virtbase (p_mod p) = 0 \<or> load_size (p_mod p) < of_nat off + of_nat (length bs)")
    case True
    then show ?thesis using call by (intro failed) (auto split: if_splits)
  next
    case False
    then show ?thesis using call ne le [folded bs_def] unfolding bs_def [symmetric]
      by (cases "fst (env (p_calls p))"; cases "snd (env (p_calls p))") (auto intro: failed patched simp flip: bs_def)
  qed
qed

lemma patch_words_written:
  assumes "patch_words env off ws p = (0, q)" and "off + 4 * length ws < 2 ^ 64" and "ws \<noteq> []"
  shows "words_are off ws q"
  using assms
proof (cases rule: patch_words_cases)
  case patched
  let ?bs = "concat (map le_bytes ws)"
  have "read_word (off + 4 * i) q = ws ! i" if i: "i < length ws" for i
  proof -
    have lt: "off + 4 * i + 4 < 2 ^ 64" using i assms(2) by linarith
    have range: "\<not> load_size (p_mod q) < of_nat (off + 4 * i) + 4"
    proof -
      have "unat (of_nat (off + 4 * i) + 4 :: u64) = off + 4 * i + 4"
        using lt unat_of_nat [of "off + 4 * i + 4", where 'a = 64] by (simp add: take_bit_nat_eq_self)
      then show ?thesis using patched i by (simp add: word_less_nat_alt del: of_nat_add)
    qed
    have "image (p_mod q) (of_nat (off + 4 * i) + of_nat j) = ucast (drop_bit (8 * j) (ws ! i))" if j: "j < 4" for j
    proof -
      let ?x = "of_nat (off + 4 * i) + of_nat j :: u64"
      have u: "unat ?x = off + (4 * i + j)"
        using lt j unat_of_nat [of "off + 4 * i + j", where 'a = 64] by (simp add: take_bit_nat_eq_self)
      have b: "off + length ?bs < 2 ^ 64" using assms(2) by simp
      have "memcpy (of_nat off) ?bs (image (p_mod p)) ?x = ?bs ! (4 * i + j)"
        using i j unfolding memcpy_at [OF b] u le_bytes_length by simp
      moreover have "image (p_mod q) = memcpy (of_nat off) ?bs (image (p_mod p))" using patched(2) by simp
      ultimately show ?thesis using i j by (simp only: le_bytes_nth)
    qed
    then have "foldl (\<lambda>v j. v OR push_bit (8 * j) (ucast (image (p_mod q) (of_nat (off + 4 * i) + of_nat j)))) 0 [0..<4] = ws ! i"
      by (simp only: word_bytes) simp
    then show ?thesis using range patched by (simp add: read_word_def so_read_word_def del: of_nat_add)
  qed
  then show ?thesis by (simp add: words_are_def list_all_iff)
qed simp

section \<open>Sites\<close>

text \<open>A site: its offset, the sequences of instructions that may stand there, and the one that is put there.\<close>

type_synonym site = "nat \<times> u32 list list \<times> u32 list"

definition well :: "site \<Rightarrow> bool" where
  "well s = (case s of (off, olds, news) \<Rightarrow>
     olds \<noteq> [] \<and> news \<noteq> [] \<and> list_all (\<lambda>old. length old = length (hd olds) \<and> 0 \<notin> set old) olds \<and> length news \<le> length (hd olds) \<and>
     off + 4 * length (hd olds) < 2 ^ 64)"

lemma wellD:
  assumes "well (off, olds, news)"
  shows "olds \<noteq> []" "news \<noteq> []" "\<And>old. old \<in> set olds \<Longrightarrow> length old = length (hd olds) \<and> 0 \<notin> set old"
    "length news \<le> length (hd olds)" "off + 4 * length (hd olds) < 2 ^ 64" "off + 4 * length news < 2 ^ 64"
proof -
  show "olds \<noteq> []" "news \<noteq> []" "\<And>old. old \<in> set olds \<Longrightarrow> length old = length (hd olds) \<and> 0 \<notin> set old"
    and l: "length news \<le> length (hd olds)" "off + 4 * length (hd olds) < 2 ^ 64"
    using assms unfolding well_def prod.case list_all_iff by blast+
  show "off + 4 * length news < 2 ^ 64" using l by linarith
qed

definition block_of :: "site \<Rightarrow> u64 set" where
  "block_of s = (case s of (off, olds, news) \<Rightarrow> block off (length (hd olds)))"

definition matched :: "patcher \<Rightarrow> site \<Rightarrow> bool" where
  "matched p s = (case s of (off, olds, news) \<Rightarrow> list_ex (\<lambda>old. words_are off old p) olds)"

definition placed :: "patcher \<Rightarrow> site \<Rightarrow> bool" where
  "placed p s = (case s of (off, olds, news) \<Rightarrow> words_are off news p)"

text \<open>Only the image changed, and only inside sites where an expected sequence stood.\<close>

definition justified :: "site set \<Rightarrow> patcher \<Rightarrow> patcher \<Rightarrow> bool" where
  "justified S p q \<longleftrightarrow> p_mod q = (p_mod p)\<lparr>image := image (p_mod q)\<rparr> \<and>
     (\<forall>x. image (p_mod q) x \<noteq> image (p_mod p) x \<longrightarrow> (\<exists>s \<in> S. x \<in> block_of s \<and> matched p s))"

definition walk :: "site set \<Rightarrow> site set \<Rightarrow> patcher \<Rightarrow> patcher \<Rightarrow> bool" where
  "walk S D p q \<longleftrightarrow> justified S p q \<and> (\<forall>s \<in> S - D. \<forall>x \<in> block_of s. image (p_mod q) x = image (p_mod p) x) \<and>
     (\<forall>s \<in> D. matched p s \<and> placed q s)"

definition willing :: "mapper \<Rightarrow> site set \<Rightarrow> patcher \<Rightarrow> bool" where
  "willing env S p \<longleftrightarrow> (\<forall>n. env n = (True, True)) \<and> (\<forall>s \<in> S. matched p s)"

definition reach :: "mapper \<Rightarrow> site set \<Rightarrow> site set \<Rightarrow> patcher \<Rightarrow> int \<times> patcher \<Rightarrow> bool" where
  "reach env S D p x = (case x of (r, q) \<Rightarrow> (r < 0 \<and> justified S p q \<and> \<not> willing env S p) \<or> (r = 0 \<and> walk S D p q))"

lemma words_are_cong:
  assumes "off + 4 * length ws < 2 ^ 64" and "load_virtbase (p_mod q) = load_virtbase (p_mod p)" and "load_size (p_mod q) = load_size (p_mod p)"
    and "\<And>x. x \<in> block off (length ws) \<Longrightarrow> image (p_mod q) x = image (p_mod p) x"
  shows "words_are off ws q = words_are off ws p"
proof -
  have "read_word (off + 4 * i) q = read_word (off + 4 * i) p" if "i < length ws" for i
  proof (rule read_word_cong)
    fix x assume "x \<in> block (off + 4 * i) 1"
    then show "image (p_mod q) x = image (p_mod p) x" using that by (intro assms(4)) (auto simp: block_def)
  qed (use assms that in auto)
  then show ?thesis by (simp add: words_are_def list_all_iff)
qed

lemma words_are_range:
  assumes "words_are off ws p" and "ws \<noteq> []" and "0 \<notin> set ws" and "off + 4 * length ws < 2 ^ 64"
  shows "load_virtbase (p_mod p) \<noteq> 0" and "off + 4 * length ws \<le> unat (load_size (p_mod p))"
proof -
  let ?i = "length ws - 1"
  have i: "?i < length ws" using assms(2) by simp
  have "read_word (off + 4 * ?i) p = ws ! ?i" using assms(1) i by (simp add: words_are_def list_all_iff)
  moreover have "ws ! ?i \<noteq> 0" using assms(3) nth_mem [OF i] by metis
  ultimately have "read_word (off + 4 * ?i) p \<noteq> 0" by simp
  then have c: "load_virtbase (p_mod p) \<noteq> 0" "\<not> load_size (p_mod p) < of_nat (off + 4 * ?i) + 4"
    by (auto simp: read_word_def so_read_word_def simp del: of_nat_add split: if_splits)
  show "load_virtbase (p_mod p) \<noteq> 0" using c by simp
  have e: "off + 4 * ?i + 4 = off + 4 * length ws" using i by simp
  have "unat (of_nat (off + 4 * ?i) + 4 :: u64) = off + 4 * length ws"
    using assms(4) e unat_of_nat [of "off + 4 * ?i + 4", where 'a = 64] by (simp add: take_bit_nat_eq_self)
  then show "off + 4 * length ws \<le> unat (load_size (p_mod p))" using c(2) by (simp add: word_less_nat_alt del: of_nat_add)
qed

lemma patch_words_willing:
  assumes "off + 4 * length ws \<le> unat (load_size (p_mod p))" and "load_virtbase (p_mod p) \<noteq> 0" and "off + 4 * length ws < 2 ^ 64"
    and "ws \<noteq> []" and "\<And>n. env n = (True, True)"
  shows "fst (patch_words env off ws p) = 0"
proof -
  define bs where "bs = concat (map le_bytes ws)"
  have len: "length bs = 4 * length ws" by (simp add: bs_def)
  then have ne: "bs \<noteq> []" using assms(4) by auto
  have "of_nat off + of_nat (length bs) = (of_nat (off + 4 * length ws) :: u64)" by (simp add: len)
  moreover have "unat (of_nat (off + 4 * length ws) :: u64) = off + 4 * length ws"
    using assms(3) unat_of_nat [of "off + 4 * length ws", where 'a = 64] by (simp add: take_bit_nat_eq_self del: of_nat_add)
  ultimately have "\<not> load_size (p_mod p) < of_nat off + of_nat (length bs)" using assms(1) by (simp only: word_less_nat_alt not_less)
  then show ?thesis using assms(2,5) ne unfolding patch_words_def so_patch_code_def bs_def [symmetric] by simp
qed

lemma image_only: "m = m0\<lparr>image := image m\<rparr> \<Longrightarrow> m' = m\<lparr>image := b\<rparr> \<Longrightarrow> m' = m0\<lparr>image := image m'\<rparr>"
  by (cases m0; cases m; cases m') simp

lemma words_are_1 [simp]: "words_are off [w] p \<longleftrightarrow> read_word off p = w"
  by (simp add: words_are_def)

text \<open>Patching sites that do not overlap, one after the other.\<close>

locale patching =
  fixes S :: "site set"
  assumes sane: "s \<in> S \<Longrightarrow> well s"
    and disjoint: "s \<in> S \<Longrightarrow> t \<in> S \<Longrightarrow> s \<noteq> t \<Longrightarrow> block_of s \<inter> block_of t = {}"
begin

lemma start: "walk S {} p p"
  by (simp add: walk_def justified_def)

lemma matched_same:
  assumes "walk S D p q" and "s \<in> S" and "s \<notin> D"
  shows "matched q s = matched p s"
proof -
  obtain off olds news where s: "s = (off, olds, news)" using prod_cases3 by blast
  have m: "p_mod q = (p_mod p)\<lparr>image := image (p_mod q)\<rparr>" using assms(1) by (simp add: walk_def justified_def)
  have f: "load_virtbase (p_mod q) = load_virtbase (p_mod p)" "load_size (p_mod q) = load_size (p_mod p)"
    by (subst m, simp)+
  have same: "image (p_mod q) x = image (p_mod p) x" if "x \<in> block off (length (hd olds))" for x
    using assms that by (auto simp: walk_def block_of_def s)
  have "words_are off old q = words_are off old p" if "old \<in> set olds" for old
  proof (rule words_are_cong [OF _ f])
    note wd = wellD [OF sane [OF assms(2), unfolded s]]
    have l: "length old = length (hd olds)" using wd(3) [OF that] by blast
    show "off + 4 * length old < 2 ^ 64" unfolding l by (rule wd(5))
    show "\<And>x. x \<in> block off (length old) \<Longrightarrow> image (p_mod q) x = image (p_mod p) x" unfolding l by (rule same)
  qed
  then show ?thesis by (simp add: matched_def s list_ex_iff)
qed

lemma skip:
  assumes "walk S D p q" and "s \<in> S" and "s \<notin> D" and "matched q s" and "placed q s"
  shows "walk S (insert s D) p q"
  using assms matched_same [OF assms(1-3)] by (auto simp: walk_def)

lemma step:
  assumes w: "walk S D p q" and s: "(off, olds, news) \<in> S" "(off, olds, news) \<notin> D" "D \<subseteq> S" and m: "matched q (off, olds, news)"
    and c: "patch_words env off news q = (r, q')"
  shows "(r < 0 \<and> justified S p q' \<and> \<not> willing env S p) \<or> (r = 0 \<and> walk S (insert (off, olds, news) D) p q')"
proof -
  let ?s = "(off, olds, news)" and ?n = "length (hd olds)"
  note wl = wellD [OF sane [OF s(1)]]
  note small = wl(6)
  obtain old where old: "old \<in> set olds" "words_are off old q" using m by (auto simp: matched_def list_ex_iff)
  have range: "load_virtbase (p_mod q) \<noteq> 0" "off + 4 * length news \<le> unat (load_size (p_mod q))"
  proof -
    have l: "length old = ?n" "0 \<notin> set old" using wl(3) [OF old(1)] by blast+
    have n: "old \<noteq> []" using wl(2,4) l(1) by auto
    note r = words_are_range [OF old(2) n l(2), unfolded l(1), OF wl(5)]
    show "load_virtbase (p_mod q) \<noteq> 0" by (rule r(1))
    show "off + 4 * length news \<le> unat (load_size (p_mod q))" using r(2) wl(4) by linarith
  qed
  have mp: "matched p ?s" using matched_same [OF w s(1,2)] m by simp
  from c small wl(2) show ?thesis
  proof (cases rule: patch_words_cases)
    case failed
    have "\<not> willing env S p" using patch_words_willing [OF range(2,1) small wl(2), of env] c failed(1) by (auto simp: willing_def)
    then show ?thesis using failed w by (simp add: walk_def justified_def)
  next
    case patched
    let ?bs = "concat (map le_bytes news)"
    have b: "off + length ?bs < 2 ^ 64" using small by simp
    have img: "image (p_mod q') x = (if x \<in> block off (length news) then ?bs ! (unat x - off) else image (p_mod q) x)" for x
      using patched(2) memcpy_at [OF b, of "image (p_mod q)" x] by (simp add: block_def)
    have outside: "image (p_mod q') x = image (p_mod q) x" if "x \<notin> block_of ?s" for x
      using that wl(4) unfolding img by (auto simp: block_of_def block_def)
    have mq: "p_mod q = (p_mod p)\<lparr>image := image (p_mod q)\<rparr>" using w by (simp add: walk_def justified_def)
    have j: "justified S p q'"
      unfolding justified_def
    proof (intro conjI allI impI)
      show "p_mod q' = (p_mod p)\<lparr>image := image (p_mod q')\<rparr>"
        by (rule image_only [OF mq patched(2)])
      fix x assume ne: "image (p_mod q') x \<noteq> image (p_mod p) x"
      show "\<exists>s \<in> S. x \<in> block_of s \<and> matched p s"
      proof (cases "x \<in> block_of ?s")
        case True
        then show ?thesis using s(1) mp by blast
      next
        case False
        then show ?thesis using outside [OF False] ne w by (simp add: walk_def justified_def)
      qed
    qed
    have rest: "image (p_mod q') x = image (p_mod p) x" if "t \<in> S - insert ?s D" "x \<in> block_of t" for t x
    proof -
      have "x \<notin> block_of ?s" using disjoint [OF s(1), of t] that by blast
      moreover have "image (p_mod q) x = image (p_mod p) x" using w that unfolding walk_def by blast
      ultimately show ?thesis using outside by simp
    qed
    have pl: "placed q' ?s" using patch_words_written [OF _ small wl(2)] c patched(1) by (simp add: placed_def)
    have old_pl: "placed q' t" if t: "t \<in> D" for t
    proof -
      obtain o2 olds2 news2 where e: "t = (o2, olds2, news2)" using prod_cases3 by blast
      have tS: "t \<in> S" "t \<noteq> ?s" using t s by auto
      note l = wellD(4,5) [OF sane [OF tS(1), unfolded e]]
      have "words_are o2 news2 q' = words_are o2 news2 q"
      proof (rule words_are_cong)
        show "o2 + 4 * length news2 < 2 ^ 64" using l by linarith
        show "load_virtbase (p_mod q') = load_virtbase (p_mod q)" "load_size (p_mod q') = load_size (p_mod q)" by (simp_all add: patched(2))
        fix x assume "x \<in> block o2 (length news2)"
        then have "x \<in> block_of t" using l by (auto simp: block_of_def block_def e)
        then show "image (p_mod q') x = image (p_mod q) x" using disjoint [OF s(1) tS(1)] tS(2) by (intro outside) blast
      qed
      moreover have "placed q t" using w t unfolding walk_def by blast
      ultimately show ?thesis by (simp add: placed_def e)
    qed
    have "\<forall>t \<in> D. matched p t" using w by (simp add: walk_def)
    then have "walk S (insert ?s D) p q'"
      unfolding walk_def using j rest mp pl old_pl by simp
    then show ?thesis using patched(1) by blast
  qed
qed

lemma table:
  assumes "walk S D p q" and "D \<subseteq> S" and "distinct (map fst ps)"
    and "\<And>off old new. (off, old, new) \<in> set ps \<Longrightarrow> (off, [[old], [new]], [new]) \<in> S - D"
    and "check_patches ps q" and "err < 0"
  shows "reach env S (D \<union> (\<lambda>(off, old, new). (off, [[old], [new]], [new])) ` set ps) p (apply_patches env err ps q)"
  using assms
proof (induction ps arbitrary: D q)
  case Nil
  then show ?case by (simp add: reach_def)
next
  case (Cons e ps)
  obtain off old new where e: "e = (off, old, new)" using prod_cases3 by blast
  let ?s = "(off, [[old], [new]], [new])"
  have s: "?s \<in> S" "?s \<notin> D" using Cons.prems(4) [of off old new] by (auto simp: e)
  have fresh: "(o2, [[f2], [t2]], [t2]) \<in> S - insert ?s D" if "(o2, f2, t2) \<in> set ps" for o2 f2 t2
  proof -
    have "off \<notin> fst ` set ps" using Cons.prems(3) by (simp add: e)
    then have "o2 \<noteq> off" using that by force
    then show ?thesis using Cons.prems(4) [of o2 f2 t2] that by auto
  qed
  have m: "matched q ?s" using Cons.prems(5) by (auto simp: matched_def check_patches_def e)
  have sub: "insert ?s D \<subseteq> S" "distinct (map fst ps)" using Cons.prems(2,3) s by auto
  have img: "D \<union> (\<lambda>(off, old, new). (off, [[old], [new]], [new])) ` set (e # ps) =
      insert ?s D \<union> (\<lambda>(off, old, new). (off, [[old], [new]], [new])) ` set ps" by (auto simp: e)
  have keep: "check_patches ps q'" if "walk S D' p q'" "D' \<subseteq> insert ?s D" for q' D'
  proof -
    have "matched q' (o2, [[f2], [t2]], [t2])" if x: "(o2, f2, t2) \<in> set ps" for o2 f2 t2
    proof -
      have f: "(o2, [[f2], [t2]], [t2]) \<in> S" "(o2, [[f2], [t2]], [t2]) \<notin> insert ?s D" using fresh [OF x] by auto
      have "matched q (o2, [[f2], [t2]], [t2])" using Cons.prems(5) x by (auto simp: matched_def check_patches_def list_all_iff)
      then have "matched p (o2, [[f2], [t2]], [t2])" using matched_same [OF Cons.prems(1) f(1)] f(2) by simp
      then show ?thesis using matched_same [OF \<open>walk S D' p q'\<close> f(1)] f(2) \<open>D' \<subseteq> insert ?s D\<close> by blast
    qed
    then show ?thesis by (auto simp: check_patches_def list_all_iff matched_def)
  qed
  show ?case
  proof (cases "read_word off q = old")
    case True
    obtain r q' where c: "patch_words env off [new] q = (r, q')" by fastforce
    from step [OF Cons.prems(1) s Cons.prems(2) m c] show ?thesis
    proof
      assume "r < 0 \<and> justified S p q' \<and> \<not> willing env S p"
      then show ?thesis using True c Cons.prems(6) by (simp add: e reach_def)
    next
      assume w: "r = 0 \<and> walk S (insert ?s D) p q'"
      have "reach env S (insert ?s D \<union> (\<lambda>(off, old, new). (off, [[old], [new]], [new])) ` set ps) p (apply_patches env err ps q')"
        by (rule Cons.IH [OF _ sub fresh keep Cons.prems(6)]) (use w in auto)
      then show ?thesis using True c w unfolding img by (simp add: e)
    qed
  next
    case False
    have "placed q ?s" using m False by (auto simp: matched_def placed_def)
    then have w: "walk S (insert ?s D) p q" by (rule skip [OF Cons.prems(1) s m])
    have "reach env S (insert ?s D \<union> (\<lambda>(off, old, new). (off, [[old], [new]], [new])) ` set ps) p (apply_patches env err ps q)"
      by (rule Cons.IH [OF w sub fresh keep Cons.prems(6)]) (use w in auto)
    then show ?thesis using False unfolding img by (simp add: e)
  qed
qed

lemma refuse:
  assumes "walk S D p q" and "s \<in> S" and "s \<notin> D" and "\<not> matched q s" and "r < 0"
  shows "reach env S D' p (r, q)"
proof -
  have "\<not> matched p s" using matched_same [OF assms(1-3)] assms(4) by simp
  then have "\<not> willing env S p" using assms(2) by (auto simp: willing_def)
  then show ?thesis using assms(1,5) by (simp add: reach_def walk_def)
qed

text \<open>One site, already patched or not.\<close>

lemma one:
  assumes w: "walk S D p q" and s: "(off, olds, news) \<in> S" "(off, olds, news) \<notin> D" "D \<subseteq> S" and m: "matched q (off, olds, news)" and e: "err < 0"
    and c: "x = (if b then (case patch_words env off news q of (r, q') \<Rightarrow> (if r < 0 then err else 0, q')) else (0, q))"
    and n: "\<not> b \<Longrightarrow> placed q (off, olds, news)"
  shows "reach env S (insert (off, olds, news) D) p x"
proof (cases b)
  case True
  obtain r q' where p: "patch_words env off news q = (r, q')" by fastforce
  then show ?thesis using step [OF w s m p] True c e by (auto simp: reach_def)
next
  case False
  then show ?thesis using skip [OF w s(1,2) m n] c by (simp add: reach_def)
qed

lemma follow:
  assumes "reach env S D p (f x)" and "\<And>q. walk S D p q \<Longrightarrow> reach env S D' p (g q)"
  shows "reach env S D' p (andthen f g x)"
proof -
  obtain r q where f: "f x = (r, q)" by fastforce
  show ?thesis
  proof (cases "r < 0")
    case True
    then show ?thesis using assms(1) by (simp add: f andthen_def reach_def)
  next
    case False
    then have "walk S D p q" using assms(1) by (simp add: f reach_def)
    then show ?thesis using assms(2) False by (simp add: f andthen_def)
  qed
qed

end

section \<open>The sites of the engine\<close>

definition table_sites :: "patch list \<Rightarrow> site list" where
  "table_sites = map (\<lambda>(off, old, new). (off, [[old], [new]], [new]))"

definition cpu_sites :: "u64 option \<Rightarrow> site list" where
  "cpu_sites cores =
     (case cores of
        None \<Rightarrow> []
      | Some m \<Rightarrow> if m = 0 then []
                  else [(OFF_UNITY_CPU_COUNT_RETURN, [[UNITY_CPU_COUNT_RETURN_ORIG], [cpu_count_insn (popcount m)]], [cpu_count_insn (popcount m)])])"

definition fmod_site :: site where
  "fmod_site = (OFF_FMOD_PARTIAL_RELEASE_PROLOGUE, [fmod_from, fmod_to], fmod_to)"

definition align_site :: site where
  "align_site = (OFF_DYNAMIC_HEAP_VM_ALIGNMENT, map (\<lambda>w. [w]) align_insns, [DYNAMIC_HEAP_ALIGN_64M_INSN])"

definition choreo_site :: site where
  "choreo_site = (OFF_CHOREOGRAPHER_WAIT_SITE, [[CHOREOGRAPHER_WAIT_FROM]], [CHOREOGRAPHER_WAIT_TO])"

definition time_site :: "u64 \<Rightarrow> site" where
  "time_site hook = (OFF_TIME_MANAGER_UPDATE_ENTRY, [time_prologue], time_stub hook)"

definition sites :: "u64 option \<Rightarrow> u64 \<Rightarrow> site list" where
  "sites cores hook =
     cpu_sites cores @ fmod_site # table_sites heap_patches @ align_site # table_sites low_alloc_patches @ [choreo_site, time_site hook]"

lemmas site_defs = fmod_site_def align_site_def choreo_site_def time_site_def table_sites_def heap_patches_def low_alloc_patches_def
  align_insns_def fmod_from_def fmod_to_def time_prologue_def time_stub_def

text \<open>The spans of the sites, and that no two of them overlap.\<close>

fun apart_spans :: "(nat \<times> nat) list \<Rightarrow> bool" where
  "apart_spans [] \<longleftrightarrow> True"
| "apart_spans ((a, n) # xs) \<longleftrightarrow> list_all (\<lambda>(b, m). a + 4 * n \<le> b \<or> b + 4 * m \<le> a) xs \<and> apart_spans xs"

definition extent :: "site \<Rightarrow> nat \<times> nat" where
  "extent s = (case s of (off, olds, news) \<Rightarrow> (off, length (hd olds)))"

lemma apart_spans_disjoint:
  "apart_spans (map extent xs) \<Longrightarrow> s \<in> set xs \<Longrightarrow> t \<in> set xs \<Longrightarrow> s \<noteq> t \<Longrightarrow> block_of s \<inter> block_of t = {}"
proof (induction xs)
  case (Cons x xs)
  have ap: "block_of x \<inter> block_of y = {}" if "y \<in> set xs" for y
  proof -
    obtain a o1 n1 where x: "x = (a, o1, n1)" using prod_cases3 by blast
    obtain b o2 n2 where y: "y = (b, o2, n2)" using prod_cases3 by blast
    have "a + 4 * length (hd o1) \<le> b \<or> b + 4 * length (hd o2) \<le> a"
      using Cons.prems(1) that by (auto simp: extent_def x y list_all_iff)
    then show ?thesis by (auto simp: x y block_of_def block_def)
  qed
  have "apart_spans (map extent xs)" using Cons.prems(1) by (cases "extent x") simp
  then have "s \<in> set xs \<Longrightarrow> t \<in> set xs \<Longrightarrow> block_of s \<inter> block_of t = {}" using Cons.IH Cons.prems(4) by blast
  then show ?case using Cons.prems(2-4) ap [of s] ap [of t] by (metis Int_commute set_ConsD)
qed simp

lemma cpu_count_insn_not_0: "cpu_count_insn n \<noteq> 0"
  by (simp add: cpu_count_insn_def or_eq_0_iff)

lemma sites_well: "s \<in> set (sites cores hook) \<Longrightarrow> well s"
proof -
  have "list_all well (cpu_sites cores)"
    by (simp add: cpu_sites_def well_def cpu_count_insn_not_0 words offsets split: option.split)
  moreover have "list_all well (fmod_site # table_sites heap_patches @ align_site # table_sites low_alloc_patches @ [choreo_site, time_site hook])"
    by (simp add: well_def site_defs words offsets)
  ultimately show "s \<in> set (sites cores hook) \<Longrightarrow> well s" by (auto simp: sites_def list_all_iff)
qed

lemma sites_apart: "apart_spans (map extent (sites cores hook))"
proof -
  have "apart_spans (map extent (fmod_site # table_sites heap_patches @ align_site # table_sites low_alloc_patches @ [choreo_site, time_site hook]))"
    by (simp add: extent_def site_defs offsets)
  moreover have "list_all (\<lambda>(b, m). OFF_UNITY_CPU_COUNT_RETURN + 4 * 1 \<le> b \<or> b + 4 * m \<le> OFF_UNITY_CPU_COUNT_RETURN)
      (map extent (fmod_site # table_sites heap_patches @ align_site # table_sites low_alloc_patches @ [choreo_site, time_site hook]))"
    by (simp add: extent_def site_defs offsets)
  ultimately show ?thesis
    unfolding sites_def by (cases cores) (simp_all add: cpu_sites_def extent_def)
qed

interpretation engine: patching "set (sites cores hook)" for cores hook
  by unfold_locales (use sites_well apart_spans_disjoint [OF sites_apart] in blast)+

section \<open>The whole installation\<close>

lemma sites_distinct: "distinct (sites cores hook)"
proof -
  have "distinct (map fst (sites cores hook))"
    by (cases cores) (simp_all add: sites_def cpu_sites_def site_defs offsets)
  then show ?thesis by (simp add: distinct_map)
qed

lemma popcount_pos: "m \<noteq> 0 \<Longrightarrow> 0 < popcount m"
proof -
  assume "m \<noteq> 0"
  then obtain n where "bit m n" by (metis bit_eqI bit_0_eq bot_apply bot_bool_def)
  then have "n \<in> set (filter (bit m) [0..<64])" using bit_imp_le_length [of m n] by simp
  then show "0 < popcount m" unfolding popcount_def by (rule length_pos_if_in_set)
qed

lemma popcount_le: "popcount m \<le> 64"
  unfolding popcount_def by (rule order_trans [OF length_filter_le]) simp

lemma cpu_reach:
  "reach env (set (sites cores hook)) (set (cpu_sites cores)) p (install_cpu_count_fix env cores p)"
proof (cases "cores = None \<or> cores = Some 0")
  case True
  then show ?thesis using engine.start [of cores hook p] by (auto simp: install_cpu_count_fix_def cpu_sites_def reach_def)
next
  case False
  then obtain m where m: "cores = Some m" "m \<noteq> 0" by auto
  let ?w = "cpu_count_insn (popcount m)"
  let ?s = "(OFF_UNITY_CPU_COUNT_RETURN, [[UNITY_CPU_COUNT_RETURN_ORIG], [?w]], [?w])"
  have c: "set (cpu_sites cores) = insert ?s {}" using m by (simp add: cpu_sites_def)
  have sS: "?s \<in> set (sites cores hook)" using m by (simp add: sites_def cpu_sites_def)
  have n: "\<not> (popcount m = 0 \<or> 0xffff < popcount m)" using popcount_pos [OF m(2)] popcount_le [of m] by simp
  let ?got = "read_word OFF_UNITY_CPU_COUNT_RETURN p"
  show ?thesis
  proof (cases "?got = UNITY_CPU_COUNT_RETURN_ORIG \<or> ?got = ?w")
    case True
    then have mt: "matched p ?s" by (auto simp: matched_def)
    show ?thesis unfolding c
      by (rule engine.one [OF engine.start sS _ _ mt, where b = "?got = UNITY_CPU_COUNT_RETURN_ORIG" and err = "-3"])
        (use True m n in \<open>auto simp: install_cpu_count_fix_def Let_def placed_def\<close>)
  next
    case False
    then have "\<not> matched p ?s" by (auto simp: matched_def)
    then show ?thesis using engine.refuse [OF engine.start sS, of p "-2"] False m n
      by (simp add: install_cpu_count_fix_def Let_def)
  qed
qed

lemma fmod_reach:
  assumes w: "walk (set (sites cores hook)) D p q" and D: "D \<subseteq> set (sites cores hook)" "fmod_site \<notin> D"
  shows "reach env (set (sites cores hook)) (insert fmod_site D) p (install_fmod_guard env q)"
proof -
  have sS: "fmod_site \<in> set (sites cores hook)" by (simp add: sites_def)
  show ?thesis
  proof (cases "matched q fmod_site")
    case True
    show ?thesis unfolding fmod_site_def
      by (rule engine.one [OF w sS [unfolded fmod_site_def] D(2) [unfolded fmod_site_def] D(1) True [unfolded fmod_site_def],
            where b = "words_are OFF_FMOD_PARTIAL_RELEASE_PROLOGUE fmod_from q" and err = "-9"])
        (use True in \<open>auto simp: install_fmod_guard_def Let_def matched_def placed_def fmod_site_def\<close>)
  next
    case False
    then have "install_fmod_guard env q = (-8, q)" by (simp add: install_fmod_guard_def Let_def matched_def fmod_site_def)
    then show ?thesis using engine.refuse [OF w sS D(2) False] by simp
  qed
qed

lemma table_reach:
  assumes w: "walk (set (sites cores hook)) D p q" and D: "D \<subseteq> set (sites cores hook)"
    and t: "distinct (map fst ps)" "set (table_sites ps) \<subseteq> set (sites cores hook) - D" and e: "err < 0"
    and c: "check_patches ps q"
  shows "reach env (set (sites cores hook)) (D \<union> set (table_sites ps)) p (apply_patches env err ps q)"
proof -
  have "(off, [[a], [b]], [b]) \<in> set (sites cores hook) - D" if "(off, a, b) \<in> set ps" for off a b
    using that t(2) by (force simp: table_sites_def)
  then show ?thesis using engine.table [OF w D t(1) _ c e] by (simp add: table_sites_def)
qed

lemma table_refused:
  assumes "\<not> check_patches ps q"
  shows "\<exists>s \<in> set (table_sites ps). \<not> matched q s"
proof -
  obtain off a b where x: "(off, a, b) \<in> set ps" "read_word off q \<noteq> a" "read_word off q \<noteq> b"
    using assms by (auto simp: check_patches_def list_all_iff)
  then have "(off, [[a], [b]], [b]) \<in> set (table_sites ps)" by (force simp: table_sites_def)
  then show ?thesis using x by (intro bexI) (auto simp: matched_def)
qed

lemma align_alone: "block_of align_site \<inter> block_of s = {}" if "s \<in> set (table_sites heap_patches)"
proof (rule apart_spans_disjoint [OF sites_apart])
  show "align_site \<in> set (sites None 0)" "s \<in> set (sites None 0)" using that by (simp_all add: sites_def)
  show "align_site \<noteq> s" using that sites_distinct [of None 0] by (auto simp: sites_def)
qed

lemma heap_reach:
  assumes w: "walk (set (sites cores hook)) D p q" and D: "D \<subseteq> set (sites cores hook)"
    and t: "set (table_sites heap_patches) \<inter> D = {}" "align_site \<notin> D"
  shows "reach env (set (sites cores hook)) (insert align_site (D \<union> set (table_sites heap_patches))) p (install_heap_region env q)"
proof -
  let ?S = "set (sites cores hook)" and ?D = "D \<union> set (table_sites heap_patches)"
  have sS: "align_site \<in> ?S" and sT: "set (table_sites heap_patches) \<subseteq> ?S - D" using t by (auto simp: sites_def)
  have sn: "align_site \<notin> set (table_sites heap_patches)" using sites_distinct [of cores hook] by (auto simp: sites_def)
  show ?thesis
  proof (cases "check_patches heap_patches q")
    case False
    then obtain s where s: "s \<in> set (table_sites heap_patches)" "\<not> matched q s" using table_refused by blast
    have "install_heap_region env q = (-5, q)" using False by (simp add: install_heap_region_def)
    then show ?thesis using engine.refuse [OF w _ _ s(2)] sT s(1) by auto
  next
    case True
    note check = True
    show ?thesis
    proof (cases "read_word OFF_DYNAMIC_HEAP_VM_ALIGNMENT q \<in> set align_insns")
      case False
      then have "\<not> matched q align_site" by (auto simp: matched_def align_site_def list_ex_iff)
      moreover have "install_heap_region env q = (-5, q)" using False True by (simp add: install_heap_region_def)
      ultimately show ?thesis using engine.refuse [OF w sS t(2)] by simp
    next
      case True
      obtain r q1 where a: "apply_patches env (-6) heap_patches q = (r, q1)" by fastforce
      have R: "reach env ?S ?D p (r, q1)"
        using table_reach [OF w D _ sT, of "-6" env] check a by (simp add: heap_patches_def offsets)
      show ?thesis
      proof (cases "r < 0")
        case True
        then show ?thesis using R a check \<open>read_word OFF_DYNAMIC_HEAP_VM_ALIGNMENT q \<in> set align_insns\<close>
          by (simp add: install_heap_region_def Let_def reach_def)
      next
        case False
        then have r: "r = 0" and w1: "walk ?S ?D p q1" using R by (auto simp: reach_def)
        have sub: "?D \<subseteq> ?S" using D sT by blast
        have n: "align_site \<notin> ?D" using t sn by simp
        have mq: "matched q align_site" using True by (auto simp: matched_def align_site_def list_ex_iff)
        then have m1: "matched q1 align_site" using engine.matched_same [OF w sS t(2)] engine.matched_same [OF w1 sS n] by simp
        have same: "read_word OFF_DYNAMIC_HEAP_VM_ALIGNMENT q1 = read_word OFF_DYNAMIC_HEAP_VM_ALIGNMENT q"
        proof (rule read_word_cong)
          have j: "p_mod q = (p_mod p)\<lparr>image := image (p_mod q)\<rparr>" "p_mod q1 = (p_mod p)\<lparr>image := image (p_mod q1)\<rparr>"
            using w w1 by (simp_all add: walk_def justified_def)
          show "load_virtbase (p_mod q1) = load_virtbase (p_mod q)" "load_size (p_mod q1) = load_size (p_mod q)"
            by (subst j(1), subst j(2), simp)+
          fix x assume "x \<in> block OFF_DYNAMIC_HEAP_VM_ALIGNMENT 1"
          then have "x \<in> block_of align_site" by (simp add: block_of_def align_site_def align_insns_def)
          then have "image (p_mod q1) x = image (p_mod p) x" "image (p_mod q) x = image (p_mod p) x"
            using w w1 sS t(2) n unfolding walk_def by blast+
          then show "image (p_mod q1) x = image (p_mod q) x" by simp
        qed (simp add: offsets)
        show ?thesis unfolding align_site_def
          by (rule engine.one [OF w1 sS [unfolded align_site_def] n [unfolded align_site_def] sub m1 [unfolded align_site_def],
                where b = "read_word OFF_DYNAMIC_HEAP_VM_ALIGNMENT q \<noteq> DYNAMIC_HEAP_ALIGN_64M_INSN" and err = "-6"])
            (use True check a r same in \<open>auto simp: install_heap_region_def Let_def placed_def\<close>)
      qed
    qed
  qed
qed

lemma low_reach:
  assumes w: "walk (set (sites cores hook)) D p q" and D: "D \<subseteq> set (sites cores hook)" and t: "set (table_sites low_alloc_patches) \<inter> D = {}"
  shows "reach env (set (sites cores hook)) (D \<union> set (table_sites low_alloc_patches)) p (install_low_alloc_guard env q)"
proof -
  have sT: "set (table_sites low_alloc_patches) \<subseteq> set (sites cores hook) - D" using t by (auto simp: sites_def)
  show ?thesis
  proof (cases "check_patches low_alloc_patches q")
    case True
    then show ?thesis
      using table_reach [OF w D _ sT, of "-13" env] by (simp add: install_low_alloc_guard_def low_alloc_patches_def offsets)
  next
    case False
    then obtain s where s: "s \<in> set (table_sites low_alloc_patches)" "\<not> matched q s" using table_refused by blast
    have "install_low_alloc_guard env q = (-12, q)" using False by (simp add: install_low_alloc_guard_def)
    then show ?thesis using engine.refuse [OF w _ _ s(2)] sT s(1) by auto
  qed
qed

lemma choreo_reach:
  assumes w: "walk (set (sites cores hook)) D p q" and D: "D \<subseteq> set (sites cores hook)" "choreo_site \<notin> D"
  shows "reach env (set (sites cores hook)) (insert choreo_site D) p (install_choreographer env q)"
proof -
  have sS: "choreo_site \<in> set (sites cores hook)" by (simp add: sites_def)
  show ?thesis
  proof (cases "matched q choreo_site")
    case True
    show ?thesis unfolding choreo_site_def
      by (rule engine.one [OF w sS [unfolded choreo_site_def] D(2) [unfolded choreo_site_def] D(1) True [unfolded choreo_site_def],
            where b = True and err = "-1"])
        (use True in \<open>auto simp: install_choreographer_def matched_def choreo_site_def\<close>)
  next
    case False
    then have "install_choreographer env q = (-2, q)" by (simp add: install_choreographer_def matched_def choreo_site_def)
    then show ?thesis using engine.refuse [OF w sS D(2) False] by simp
  qed
qed

lemma time_reach:
  assumes w: "walk (set (sites cores hook)) D p q" and D: "D \<subseteq> set (sites cores hook)" "time_site hook \<notin> D"
  shows "reach env (set (sites cores hook)) (insert (time_site hook) D) p (install_time_hook env hook q)"
proof -
  have sS: "time_site hook \<in> set (sites cores hook)" by (simp add: sites_def)
  show ?thesis
  proof (cases "matched q (time_site hook)")
    case True
    show ?thesis unfolding time_site_def
      by (rule engine.one [OF w sS [unfolded time_site_def] D(2) [unfolded time_site_def] D(1) True [unfolded time_site_def],
            where b = True and err = "-4"])
        (use True in \<open>auto simp: install_time_hook_def verify_time_prologue_def matched_def time_site_def\<close>)
  next
    case False
    then have "install_time_hook env hook q = (-3, q)"
      by (simp add: install_time_hook_def verify_time_prologue_def matched_def time_site_def)
    then show ?thesis using engine.refuse [OF w sS D(2) False] by simp
  qed
qed

lemma walk_fields: "walk S D p q \<Longrightarrow> p_mod q' = p_mod q \<Longrightarrow> walk S D p q'"
  by (simp add: walk_def justified_def placed_def words_are_def read_word_def split: prod.splits)

lemma install_reach:
  "reach env (set (sites cores hook)) (set (sites cores hook)) p (unity_patches_install env cores hook p)"
proof -
  let ?S = "set (sites cores hook)"
  define D1 where "D1 = set (cpu_sites cores)"
  define D2 where "D2 = insert fmod_site D1"
  define D3 where "D3 = insert align_site (D2 \<union> set (table_sites heap_patches))"
  define D4 where "D4 = D3 \<union> set (table_sites low_alloc_patches)"
  define D5 where "D5 = insert choreo_site D4"
  have D6: "insert (time_site hook) D5 = ?S"
    by (auto simp: D1_def D2_def D3_def D4_def D5_def sites_def)
  have sub: "D1 \<subseteq> ?S" "D2 \<subseteq> ?S" "D3 \<subseteq> ?S" "D4 \<subseteq> ?S" "D5 \<subseteq> ?S"
    by (auto simp: D1_def D2_def D3_def D4_def D5_def sites_def)
  have new: "fmod_site \<notin> D1" "set (table_sites heap_patches) \<inter> D2 = {}" "align_site \<notin> D2" "set (table_sites low_alloc_patches) \<inter> D3 = {}"
    "choreo_site \<notin> D4" "time_site hook \<notin> D5"
    using sites_distinct [of cores hook] by (auto simp: D1_def D2_def D3_def D4_def D5_def sites_def)
  obtain r p1 where c: "install_cpu_count_fix env cores p = (r, p1)" by fastforce
  have R: "reach env ?S D1 p (r, p1)" using cpu_reach [of env cores hook p] by (simp add: c D1_def)
  show ?thesis
  proof (cases "r < 0")
    case True
    then show ?thesis using R by (simp add: unity_patches_install_def c reach_def)
  next
    case False
    define p2 where "p2 = p1\<lparr>g_update_body := load_virtbase (p_mod p1) + of_nat OFF_TIME_MANAGER_UPDATE_BODY,
        g_vsync_counter := load_virtbase (p_mod p1) + of_nat OFF_VSYNC_COUNTER\<rparr>"
    have "walk ?S D1 p p1" using R False by (auto simp: reach_def)
    then have w: "walk ?S D1 p p2" by (rule walk_fields) (simp add: p2_def)
    have last: "reach env ?S ?S p (0, q\<lparr>g_installed := True\<rparr>)" if "walk ?S ?S p q" for q
      using walk_fields [OF that, of "q\<lparr>g_installed := True\<rparr>"] by (simp add: reach_def)
    have e: "unity_patches_install env cores hook p =
        andthen (install_fmod_guard env)
                 (andthen (install_heap_region env)
                   (andthen (install_low_alloc_guard env)
                     (andthen (install_choreographer env)
                       (andthen (install_time_hook env hook)
                         (\<lambda>p. (0, p\<lparr>g_installed := True\<rparr>)))))) p2"
      using False by (simp add: unity_patches_install_def c p2_def Let_def)
    show ?thesis unfolding e
    proof (rule engine.follow)
      show "reach env ?S D2 p (install_fmod_guard env p2)" unfolding D2_def by (rule fmod_reach [OF w sub(1) new(1)])
      fix q2 assume w2: "walk ?S D2 p q2"
      show "reach env ?S ?S p (andthen (install_heap_region env) (andthen (install_low_alloc_guard env) (andthen (install_choreographer env)
          (andthen (install_time_hook env hook) (\<lambda>p. (0, p\<lparr>g_installed := True\<rparr>))))) q2)"
      proof (rule engine.follow)
        show "reach env ?S D3 p (install_heap_region env q2)" unfolding D3_def by (rule heap_reach [OF w2 sub(2) new(2,3)])
        fix q3 assume w3: "walk ?S D3 p q3"
        show "reach env ?S ?S p (andthen (install_low_alloc_guard env) (andthen (install_choreographer env)
            (andthen (install_time_hook env hook) (\<lambda>p. (0, p\<lparr>g_installed := True\<rparr>)))) q3)"
        proof (rule engine.follow)
          show "reach env ?S D4 p (install_low_alloc_guard env q3)" unfolding D4_def by (rule low_reach [OF w3 sub(3) new(4)])
          fix q4 assume w4: "walk ?S D4 p q4"
          show "reach env ?S ?S p (andthen (install_choreographer env)
              (andthen (install_time_hook env hook) (\<lambda>p. (0, p\<lparr>g_installed := True\<rparr>))) q4)"
          proof (rule engine.follow)
            show "reach env ?S D5 p (install_choreographer env q4)" unfolding D5_def by (rule choreo_reach [OF w4 sub(4) new(5)])
            fix q5 assume w5: "walk ?S D5 p q5"
            show "reach env ?S ?S p (andthen (install_time_hook env hook) (\<lambda>p. (0, p\<lparr>g_installed := True\<rparr>)) q5)"
            proof (rule engine.follow)
              show "reach env ?S ?S p (install_time_hook env hook q5)" using time_reach [OF w5 sub(5) new(6), of env] unfolding D6 .
            qed (rule last)
          qed
        qed
      qed
    qed
  qed
qed

lemma patch_words_installed: "g_installed (snd (patch_words env off ws p)) = g_installed p"
  by (simp add: patch_words_def split: prod.splits)

lemma apply_patches_installed: "g_installed (snd (apply_patches env err ps p)) = g_installed p"
proof (induction ps arbitrary: p)
  case (Cons x ps)
  obtain off a b where x: "x = (off, a, b)" using prod_cases3 by blast
  obtain r q where c: "patch_words env off [b] p = (r, q)" by fastforce
  then have "g_installed q = g_installed p" using patch_words_installed [of env off "[b]" p] by simp
  then show ?case using Cons.IH c by (simp add: x)
qed simp

lemma parts_installed:
  "g_installed (snd (install_cpu_count_fix env cores p)) = g_installed p"
  "g_installed (snd (install_fmod_guard env p)) = g_installed p"
  "g_installed (snd (install_heap_region env p)) = g_installed p"
  "g_installed (snd (install_low_alloc_guard env p)) = g_installed p"
  "g_installed (snd (install_choreographer env p)) = g_installed p"
  "g_installed (snd (install_time_hook env hook p)) = g_installed p"
proof -
  have pw: "g_installed q = g_installed p" if "patch_words env off ws p = (r, q)" for off ws p r q
    using patch_words_installed [of env off ws p] that by simp
  have ap: "g_installed q = g_installed p" if "apply_patches env err ps p = (r, q)" for err ps p r q
    using apply_patches_installed [of env err ps p] that by simp
  show "g_installed (snd (install_cpu_count_fix env cores p)) = g_installed p"
    by (auto simp: install_cpu_count_fix_def Let_def dest: pw split: option.splits prod.splits)
  show "g_installed (snd (install_fmod_guard env p)) = g_installed p"
    by (auto simp: install_fmod_guard_def Let_def dest: pw split: prod.splits)
  show "g_installed (snd (install_heap_region env p)) = g_installed p"
    by (auto simp: install_heap_region_def Let_def dest: pw ap split: prod.splits)
  show "g_installed (snd (install_low_alloc_guard env p)) = g_installed p"
    using apply_patches_installed by (simp add: install_low_alloc_guard_def)
  show "g_installed (snd (install_choreographer env p)) = g_installed p"
    by (auto simp: install_choreographer_def dest: pw split: prod.splits)
  show "g_installed (snd (install_time_hook env hook p)) = g_installed p"
    by (auto simp: install_time_hook_def dest: pw split: prod.splits)
qed

lemma refused_install:
  assumes "unity_patches_install env cores hook p = (r, q)" and "r \<noteq> 0"
  shows "g_installed q = g_installed p"
proof -
  have keep: "g_installed x = g_installed y" if "f y = (r1, x)" "\<And>z. g_installed (snd (f z)) = g_installed z"
    for f :: "patcher \<Rightarrow> int \<times> patcher" and x y r1 using that(2) [of y] that(1) by simp
  show ?thesis
    using assms unfolding unity_patches_install_def andthen_def
    by (auto split: prod.splits if_splits simp: Let_def dest!: keep [OF _ parts_installed(1)] keep [OF _ parts_installed(2)]
        keep [OF _ parts_installed(3)] keep [OF _ parts_installed(4)] keep [OF _ parts_installed(5)] keep [OF _ parts_installed(6)])
qed

lemma accepted_install:
  assumes "unity_patches_install env cores hook p = (0, q)"
  shows "g_installed q"
  using assms by (auto simp: unity_patches_install_def andthen_def Let_def split: prod.splits if_splits)

text \<open>
  C10.  The engine is patched only where exactly the expected instructions stand: whatever its code
  holds and whichever mappings fail, every byte that changes lies in a site whose old instructions
  matched; the installation is reported as done only when all sites matched and all hold their new
  instructions; and it is done whenever all sites match and no mapping fails.
\<close>

theorem patches_guarded:
  "case unity_patches_install env cores hook p of (r, q) \<Rightarrow>
     p_mod q = (p_mod p)\<lparr>image := image (p_mod q)\<rparr> \<and>
     (\<forall>x. image (p_mod q) x \<noteq> image (p_mod p) x \<longrightarrow> (\<exists>s \<in> set (sites cores hook). x \<in> block_of s \<and> matched p s)) \<and>
     (r = 0 \<longrightarrow> list_all (matched p) (sites cores hook) \<and> list_all (placed q) (sites cores hook) \<and> g_installed q) \<and>
     (r \<noteq> 0 \<longrightarrow> g_installed q = g_installed p) \<and>
     (list_all (matched p) (sites cores hook) \<and> (\<forall>n. env n = (True, True)) \<longrightarrow> r = 0)"
proof -
  obtain r q where i: "unity_patches_install env cores hook p = (r, q)" by fastforce
  have R: "(r < 0 \<and> justified (set (sites cores hook)) p q \<and> \<not> willing env (set (sites cores hook)) p) \<or>
      (r = 0 \<and> walk (set (sites cores hook)) (set (sites cores hook)) p q)"
    using install_reach [of env cores hook p] by (simp add: i reach_def)
  then have j: "justified (set (sites cores hook)) p q" by (auto simp: walk_def)
  have "r = 0 \<Longrightarrow> list_all (matched p) (sites cores hook) \<and> list_all (placed q) (sites cores hook)"
    using R by (auto simp: walk_def list_all_iff)
  moreover have "list_all (matched p) (sites cores hook) \<and> (\<forall>n. env n = (True, True)) \<Longrightarrow> r = 0"
    using R by (auto simp: willing_def list_all_iff)
  moreover have "r = 0 \<Longrightarrow> g_installed q" using accepted_install i by blast
  moreover have "r \<noteq> 0 \<Longrightarrow> g_installed q = g_installed p" using refused_install i by blast
  ultimately show ?thesis using j unfolding i justified_def by simp
qed

text \<open>An image with the instructions of the engine at the sites, and zeros elsewhere.\<close>

definition site_words :: "site list \<Rightarrow> (nat \<times> u32) list" where
  "site_words ss = concat (map (\<lambda>(off, olds, news). zip (map (\<lambda>i. off + 4 * i) [0..<length (hd olds)]) (hd olds)) ss)"

definition w_image :: "(nat \<times> u32) list \<Rightarrow> mem" where
  "w_image ws = (\<lambda>x. case map_of ws (4 * (unat x div 4)) of None \<Rightarrow> 0 | Some w \<Rightarrow> ucast (drop_bit (8 * (unat x mod 4)) w))"

definition w_engine :: patcher where
  "w_engine = \<lparr>p_mod = \<lparr>so_name = ''libunity.so'', load_virtbase = 0x40000000, load_size = 0x2000000, so_phdrs = [], so_shdrs = [],
       so_dynamic = [], so_syms = [], image = w_image (site_words (sites (Some 7) 0x1234))\<rparr>,
     p_calls = 0, g_update_body = 0, g_vsync_counter = 0, g_installed = False\<rparr>"

lemma w_read:
  assumes "map_of (site_words (sites (Some 7) 0x1234)) off = Some w" and "4 dvd off" and "off + 4 \<le> 0x2000000"
  shows "read_word off w_engine = w"
proof -
  have u: "unat (of_nat off + of_nat i :: u64) = off + i" if "i < 4" for i
    using assms(3) that unat_of_nat [of "off + i", where 'a = 64] by (simp add: take_bit_nat_eq_self)
  have "\<not> (0x2000000 :: u64) < of_nat off + 4"
  proof -
    have "unat (of_nat off + 4 :: u64) = off + 4"
      using assms(3) unat_of_nat [of "off + 4", where 'a = 64] by (simp add: take_bit_nat_eq_self)
    then show ?thesis using assms(3) by (simp add: word_less_nat_alt)
  qed
  moreover have "w_image (site_words (sites (Some 7) 0x1234)) (of_nat off + of_nat i) = ucast (drop_bit (8 * i) w)" if "i < 4" for i
  proof -
    have "(off + i) div 4 * 4 = off" "(off + i) mod 4 = i" using assms(2) that by (auto elim!: dvdE)
    then show ?thesis using assms(1) unfolding w_image_def u [OF that] by (simp add: mult.commute)
  qed
  ultimately show ?thesis
    using word_bytes [of "\<lambda>i. w_image (site_words (sites (Some 7) 0x1234)) (of_nat off + of_nat i)" w]
    by (simp add: read_word_def so_read_word_def w_engine_def)
qed

lemma w_distinct: "distinct (map fst (site_words (sites (Some 7) 0x1234)))"
  by (simp add: site_words_def sites_def cpu_sites_def site_defs offsets upt_rec)

lemma w_aligned: "list_all (\<lambda>(off, olds, news). 4 dvd off \<and> off + 4 * length (hd olds) \<le> 0x2000000) (sites (Some 7) 0x1234)"
  by (simp add: sites_def cpu_sites_def site_defs offsets)

lemma w_matched: "list_all (matched w_engine) (sites (Some 7) 0x1234)"
proof -
  have "matched w_engine s" if s: "s \<in> set (sites (Some 7) 0x1234)" for s
  proof -
    obtain off olds news where e: "s = (off, olds, news)" using prod_cases3 by blast
    have a: "4 dvd off" "off + 4 * length (hd olds) \<le> 0x2000000" using w_aligned s by (auto simp: list_all_iff e)
    have "read_word (off + 4 * i) w_engine = hd olds ! i" if i: "i < length (hd olds)" for i
    proof (rule w_read)
      have "(off + 4 * i, hd olds ! i) \<in> set (zip (map (\<lambda>i. off + 4 * i) [0..<length (hd olds)]) (hd olds))"
        using i by (auto simp: set_zip intro!: exI [of _ i])
      then have "(off + 4 * i, hd olds ! i) \<in> set (site_words (sites (Some 7) 0x1234))"
        using s unfolding site_words_def e by force
      then show "map_of (site_words (sites (Some 7) 0x1234)) (off + 4 * i) = Some (hd olds ! i)"
        using w_distinct by (simp add: map_of_is_SomeI)
      show "4 dvd off + 4 * i" using a(1) by simp
      show "off + 4 * i + 4 \<le> 0x2000000" using a(2) i by linarith
    qed
    then have "words_are off (hd olds) w_engine" by (simp add: words_are_def list_all_iff)
    moreover have "olds \<noteq> []" using wellD(1) [OF sites_well [OF s, unfolded e]] .
    ultimately show ?thesis unfolding e by (auto simp: matched_def list_ex_iff intro!: bexI [of _ "hd olds"])
  qed
  then show ?thesis by (simp add: list_all_iff)
qed

theorem patches_guarded_witness:
  "case unity_patches_install (\<lambda>_. (True, True)) (Some 7) 0x1234 w_engine of
     (r, q) \<Rightarrow> r = 0 \<and> g_installed q \<and> read_word OFF_UNITY_CPU_COUNT_RETURN q = 0x52800060 \<and>
       read_word OFF_CHOREOGRAPHER_WAIT_SITE q = CHOREOGRAPHER_WAIT_TO"
proof -
  obtain r q where i: "unity_patches_install (\<lambda>_. (True, True)) (Some 7) 0x1234 w_engine = (r, q)" by fastforce
  note G = patches_guarded [where env = "\<lambda>_. (True, True)" and cores = "Some 7" and hook = "0x1234" and p = w_engine, unfolded i prod.case]
  have r: "r = 0" using G w_matched by blast
  have P: "list_all (placed q) (sites (Some 7) 0x1234)" "g_installed q" using G r by blast+
  have n: "popcount 7 = 3" by code_simp
  have "cpu_count_insn 3 = 0x52800060" by (simp add: cpu_count_insn_def)
  then have "read_word OFF_UNITY_CPU_COUNT_RETURN q = 0x52800060" using P by (simp add: sites_def cpu_sites_def placed_def n)
  moreover have "read_word OFF_CHOREOGRAPHER_WAIT_SITE q = CHOREOGRAPHER_WAIT_TO" using P by (simp add: sites_def choreo_site_def placed_def)
  ultimately show ?thesis unfolding i using P r by simp
qed

end
