(* ===== verification/Fnmatch.thy ===== *)
theory Fnmatch
  imports Prelude
begin

text \<open>
  The matching of file names against patterns (\<^verbatim>\<open>nx_fnmatch\<close> of \<^verbatim>\<open>source/imports.c\<close>).  A C string is
  the list of its bytes before the terminating zero; a position in the name is the byte before it,
  if any, and the bytes from it on.
\<close>

section \<open>The code\<close>

definition NX_FNM_PATHNAME :: u32 where "NX_FNM_PATHNAME = 0x01"
definition NX_FNM_NOESCAPE :: u32 where "NX_FNM_NOESCAPE = 0x02"
definition NX_FNM_PERIOD :: u32 where "NX_FNM_PERIOD = 0x04"
definition NX_FNM_LEADING_DIR :: u32 where "NX_FNM_LEADING_DIR = 0x08"
definition NX_FNM_CASEFOLD :: u32 where "NX_FNM_CASEFOLD = 0x10"
definition NX_FNM_NOMATCH :: int where "NX_FNM_NOMATCH = 1"

definition fnm_flag :: "u32 \<Rightarrow> u32 \<Rightarrow> bool" where
  "fnm_flag flags f \<longleftrightarrow> flags AND f \<noteq> 0"

text \<open>The bytes of the characters, and \<^verbatim>\<open>tolower\<close> of the C locale.\<close>

abbreviation (input) c_star :: byte where "c_star \<equiv> 42"
abbreviation (input) c_query :: byte where "c_query \<equiv> 63"
abbreviation (input) c_open :: byte where "c_open \<equiv> 91"
abbreviation (input) c_close :: byte where "c_close \<equiv> 93"
abbreviation (input) c_esc :: byte where "c_esc \<equiv> 92"
abbreviation (input) c_slash :: byte where "c_slash \<equiv> 47"
abbreviation (input) c_dot :: byte where "c_dot \<equiv> 46"
abbreviation (input) c_dash :: byte where "c_dash \<equiv> 45"
abbreviation (input) c_bang :: byte where "c_bang \<equiv> 33"
abbreviation (input) c_caret :: byte where "c_caret \<equiv> 94"

definition tolower :: "byte \<Rightarrow> byte" where
  "tolower c = (if 65 \<le> c \<and> c \<le> 90 then c + 32 else c)"

definition fold_case :: "u32 \<Rightarrow> byte \<Rightarrow> byte" where
  "fold_case flags c = (if fnm_flag flags NX_FNM_CASEFOLD then tolower c else c)"

definition fnm_eq :: "byte \<Rightarrow> byte \<Rightarrow> u32 \<Rightarrow> bool" where
  "fnm_eq a b flags \<longleftrightarrow> fold_case flags a = fold_case flags b"

definition fnm_leading_period :: "byte option \<Rightarrow> byte list \<Rightarrow> u32 \<Rightarrow> bool" where
  "fnm_leading_period prev s flags \<longleftrightarrow>
     fnm_flag flags NX_FNM_PERIOD \<and> s \<noteq> [] \<and> hd s = c_dot \<and> (prev = None \<or> fnm_flag flags NX_FNM_PATHNAME \<and> prev = Some c_slash)"

text \<open>A character of a pattern that may be escaped, and the pattern after it.\<close>

definition unescape :: "u32 \<Rightarrow> byte \<Rightarrow> byte list \<Rightarrow> byte \<times> byte list" where
  "unescape flags x xs = (if x = c_esc \<and> \<not> fnm_flag flags NX_FNM_NOESCAPE \<and> xs \<noteq> [] then (hd xs, tl xs) else (x, xs))"

lemma unescape_length: "unescape flags x xs = (a, p) \<Longrightarrow> length p \<le> length xs"
  by (auto simp: unescape_def split: if_splits)

function class_loop :: "u32 \<Rightarrow> byte \<Rightarrow> byte list \<Rightarrow> bool \<Rightarrow> bool \<times> byte list" where
  "class_loop flags c p hit =
     (case p of
        [] \<Rightarrow> (hit, [])
      | x # xs \<Rightarrow>
          if x = c_close then (hit, p)
          else
            let (a, p1) = unescape flags x xs
            in if 2 \<le> length p1 \<and> hd p1 = c_dash \<and> p1 ! 1 \<noteq> c_close
               then let (b, p2) = unescape flags (p1 ! 1) (drop 2 p1)
                    in class_loop flags c p2 (hit \<or> fold_case flags a \<le> fold_case flags c \<and> fold_case flags c \<le> fold_case flags b)
               else class_loop flags c p1 (hit \<or> fnm_eq a c flags))"
  by pat_completeness auto
termination
  by (relation "measure (\<lambda>(flags, c, p, hit). length p)") (auto dest!: unescape_length [OF sym])

declare class_loop.simps [simp del]

text \<open>The verdict of a class on a character and the pattern after it; \<open>None\<close> when the class is not closed.\<close>

definition fnm_class :: "byte list \<Rightarrow> byte \<Rightarrow> u32 \<Rightarrow> (bool \<times> byte list) option" where
  "fnm_class p c flags =
     (let neg = (p \<noteq> [] \<and> (hd p = c_bang \<or> hd p = c_caret));
          p1 = (if neg then tl p else p);
          first = (p1 \<noteq> [] \<and> hd p1 = c_close);
          hit = (first \<and> fnm_eq c_close c flags);
          p2 = (if first then tl p1 else p1);
          (hit', p3) = class_loop flags c p2 hit
      in if p3 = [] then None else Some (neg \<noteq> hit', tl p3))"


lemma class_loop_length: "class_loop flags c p hit = (h, q) \<Longrightarrow> length q \<le> length p"
proof (induction flags c p hit rule: class_loop.induct)
  case (1 flags c p hit)
  show ?case
  proof (cases p)
    case Nil
    then show ?thesis using "1.prems" by (simp add: class_loop.simps)
  next
    case (Cons x xs)
    obtain a p1 where u: "unescape flags x xs = (a, p1)" by fastforce
    obtain b p2 where v: "unescape flags (p1 ! 1) (drop 2 p1) = (b, p2)" by fastforce
    have l: "length p1 \<le> length xs" "length p2 \<le> length p1 - 2"
      using unescape_length [OF u] unescape_length [OF v] by auto
    consider "x = c_close" | "x \<noteq> c_close" "2 \<le> length p1 \<and> hd p1 = c_dash \<and> p1 ! 1 \<noteq> c_close"
      | "x \<noteq> c_close" "\<not> (2 \<le> length p1 \<and> hd p1 = c_dash \<and> p1 ! 1 \<noteq> c_close)" by blast
    then show ?thesis
    proof cases
      case 1
      then show ?thesis using "1.prems" Cons by (simp add: class_loop.simps)
    next
      case 2
      have "class_loop flags c p2 (hit \<or> fold_case flags a \<le> fold_case flags c \<and> fold_case flags c \<le> fold_case flags b) = (h, q)"
        using "1.prems" Cons u v 2 by (subst (asm) class_loop.simps) simp
      from "1.IH"(1) [OF Cons 2(1) refl u [symmetric] 2(2) refl v [symmetric] this]
      show ?thesis using l Cons by simp
    next
      case 3
      have "class_loop flags c p1 (hit \<or> fnm_eq a c flags) = (h, q)"
        using "1.prems" Cons u 3 by (subst (asm) class_loop.simps) auto
      from "1.IH"(2) [OF Cons 3(1) refl u [symmetric] 3(2) this]
      show ?thesis using l Cons by simp
    qed
  qed
qed

lemma fnm_class_length:
  assumes "fnm_class p c flags = Some (r, p')"
  shows "length p' < length p"
proof -
  define p1 where "p1 = (if p \<noteq> [] \<and> (hd p = c_bang \<or> hd p = c_caret) then tl p else p)"
  define p2 where "p2 = (if p1 \<noteq> [] \<and> hd p1 = c_close then tl p1 else p1)"
  have l: "length p2 \<le> length p" by (simp add: p1_def p2_def)
  obtain h p3 where c: "class_loop flags c p2 (p1 \<noteq> [] \<and> hd p1 = c_close \<and> fnm_eq c_close c flags) = (h, p3)" by fastforce
  have "p3 \<noteq> [] \<and> p' = tl p3"
    using assms c unfolding fnm_class_def Let_def p1_def [symmetric] p2_def [symmetric] by (auto split: if_splits)
  then show "length p' < length p" using l class_loop_length [OF c] by (cases p3) auto
qed

text \<open>The matcher, and its loop over the places where a star may end; the answer says whether the name matches.\<close>

definition wild :: "u32 \<Rightarrow> byte option \<Rightarrow> byte list \<Rightarrow> bool" where
  "wild flags prev s \<longleftrightarrow> \<not> (fnm_flag flags NX_FNM_PATHNAME \<and> hd s = c_slash) \<and> \<not> fnm_leading_period prev s flags"

definition lit :: "u32 \<Rightarrow> byte \<Rightarrow> byte \<Rightarrow> bool" where
  "lit flags pc c \<longleftrightarrow> \<not> (fnm_flag flags NX_FNM_PATHNAME \<and> pc = c_slash \<and> c \<noteq> c_slash) \<and> fnm_eq pc c flags"

function nx_fnmatch_impl :: "u32 \<Rightarrow> byte list \<Rightarrow> byte option \<Rightarrow> byte list \<Rightarrow> bool"
  and star_loop :: "u32 \<Rightarrow> byte list \<Rightarrow> byte option \<Rightarrow> byte list \<Rightarrow> bool" where
  "nx_fnmatch_impl flags [] prev s \<longleftrightarrow> s = [] \<or> (fnm_flag flags NX_FNM_LEADING_DIR \<and> hd s = c_slash)"
| "nx_fnmatch_impl flags (pc # pat) prev s \<longleftrightarrow>
     (if pc = c_star then
        (if fnm_leading_period prev s flags then False
         else if dropWhile (\<lambda>x. x = c_star) pat = [] then
           (if \<not> fnm_flag flags NX_FNM_PATHNAME then True
            else if c_slash \<notin> set s then True
            else fnm_flag flags NX_FNM_LEADING_DIR)
         else star_loop flags (dropWhile (\<lambda>x. x = c_star) pat) prev s)
      else if s = [] then False
      else if pc = c_query then wild flags prev s \<and> nx_fnmatch_impl flags pat (Some (hd s)) (tl s)
      else if pc = c_open then
        wild flags prev s \<and>
        (case fnm_class pat (hd s) flags of
           None \<Rightarrow> lit flags c_open (hd s) \<and> nx_fnmatch_impl flags pat (Some (hd s)) (tl s)
         | Some (r, pat1) \<Rightarrow> r \<and> nx_fnmatch_impl flags pat1 (Some (hd s)) (tl s))
      else
        lit flags (fst (unescape flags pc pat)) (hd s) \<and>
        nx_fnmatch_impl flags (snd (unescape flags pc pat)) (Some (hd s)) (tl s))"
| "star_loop flags pat prev s \<longleftrightarrow>
     (if nx_fnmatch_impl flags pat prev s then True
      else if s = [] then False
      else if fnm_flag flags NX_FNM_PATHNAME \<and> hd s = c_slash then False
      else star_loop flags pat (Some (hd s)) (tl s))"
  by pat_completeness auto
termination
proof (relation "inv_image (less_than <*lex*> less_than <*lex*> less_than)
    (\<lambda>x. case x of Inl (flags, pat, prev, s) \<Rightarrow> (length pat, length s, 0 :: nat) | Inr (flags, pat, prev, s) \<Rightarrow> (length pat, length s, 1))", goal_cases)
  case 1 show ?case by auto
next
  case (2 flags pc pat prev s) then show ?case using length_dropWhile_le [of "\<lambda>x. x = c_star" pat] by (simp add: less_Suc_eq_le)
next
  case (6 flags pc pat prev s)
  then show ?case using unescape_length [of flags pc pat] by (cases "unescape flags pc pat") (auto simp: le_imp_less_Suc)
qed (auto dest!: fnm_class_length)

declare nx_fnmatch_impl.simps(2) [simp del] star_loop.simps [simp del]

text \<open>The answer of the call, with the error number it leaves when it sets one.\<close>

definition nx_fnmatch :: "byte list option \<Rightarrow> byte list option \<Rightarrow> u32 \<Rightarrow> int \<times> errno option" where
  "nx_fnmatch pattern string flags =
     (case (pattern, string) of
        (Some pat, Some s) \<Rightarrow> (if nx_fnmatch_impl flags pat None s then 0 else NX_FNM_NOMATCH, None)
      | _ \<Rightarrow> (NX_FNM_NOMATCH, Some EINVAL))"

end
