(* ===== verification/FnmatchProps.thy ===== *)
theory FnmatchProps
  imports Fnmatch
begin

text \<open>
  What the patterns of \<^verbatim>\<open>nx_fnmatch\<close> mean.  A pattern is read once, independently of any name, as a
  list of tokens; \<open>glob\<close> says which names a list of tokens matches.  The code reads the pattern
  and the name together and backtracks over the places where a star may end; it is shown to
  decide \<open>glob\<close>.
\<close>

section \<open>Patterns as tokens\<close>

datatype token =
    Star
  | AnyChar
  | CharSet bool "(byte \<times> byte) list"
  | Char byte

text \<open>The ranges a class lists, a single character being a range of its own.\<close>

function class_ranges :: "u32 \<Rightarrow> byte list \<Rightarrow> (byte \<times> byte) list \<times> byte list" where
  "class_ranges flags p =
     (case p of
        [] \<Rightarrow> ([], [])
      | x # xs \<Rightarrow>
          if x = c_close then ([], p)
          else
            let (a, p1) = unescape flags x xs
            in if 2 \<le> length p1 \<and> hd p1 = c_dash \<and> p1 ! 1 \<noteq> c_close
               then let (b, p2) = unescape flags (p1 ! 1) (drop 2 p1); (rs, q) = class_ranges flags p2 in ((a, b) # rs, q)
               else let (rs, q) = class_ranges flags p1 in ((a, a) # rs, q))"
  by pat_completeness auto
termination
  by (relation "measure (\<lambda>(flags, p). length p)") (auto dest!: unescape_length [OF sym])

declare class_ranges.simps [simp del]

definition read_class :: "u32 \<Rightarrow> byte list \<Rightarrow> (token \<times> byte list) option" where
  "read_class flags p =
     (let neg = (p \<noteq> [] \<and> (hd p = c_bang \<or> hd p = c_caret));
          p1 = (if neg then tl p else p);
          first = (p1 \<noteq> [] \<and> hd p1 = c_close);
          p2 = (if first then tl p1 else p1);
          (rs, p3) = class_ranges flags p2
      in if p3 = [] then None else Some (CharSet neg ((if first then [(c_close, c_close)] else []) @ rs), tl p3))"

definition in_span :: "u32 \<Rightarrow> byte \<Rightarrow> byte \<times> byte \<Rightarrow> bool" where
  "in_span flags c r \<longleftrightarrow> fold_case flags (fst r) \<le> fold_case flags c \<and> fold_case flags c \<le> fold_case flags (snd r)"

lemma in_span_single: "in_span flags c (a, a) = fnm_eq a c flags"
  by (auto simp: in_span_def fnm_eq_def)

text \<open>The loop of the code over a class, in terms of the ranges read.\<close>

lemma class_loop_ranges:
  "class_loop flags c p hit = (hit \<or> (\<exists>r \<in> set (fst (class_ranges flags p)). in_span flags c r), snd (class_ranges flags p))"
proof (induction flags c p hit rule: class_loop.induct)
  case (1 flags c p hit)
  show ?case
  proof (cases p)
    case Nil
    then show ?thesis by (simp add: class_loop.simps class_ranges.simps)
  next
    case (Cons x xs)
    obtain a p1 where u: "unescape flags x xs = (a, p1)" by fastforce
    obtain b p2 where v: "unescape flags (p1 ! 1) (drop 2 p1) = (b, p2)" by fastforce
    consider "x = c_close" | "x \<noteq> c_close" "2 \<le> length p1 \<and> hd p1 = c_dash \<and> p1 ! 1 \<noteq> c_close"
      | "x \<noteq> c_close" "\<not> (2 \<le> length p1 \<and> hd p1 = c_dash \<and> p1 ! 1 \<noteq> c_close)" by blast
    then show ?thesis
    proof cases
      case 1
      then show ?thesis using Cons by (simp add: class_loop.simps class_ranges.simps)
    next
      case 2
      have r: "class_ranges flags p = ((a, b) # fst (class_ranges flags p2), snd (class_ranges flags p2))"
        using Cons u v 2 by (subst class_ranges.simps) (simp add: case_prod_beta)
      have l: "class_loop flags c p hit = class_loop flags c p2 (hit \<or> in_span flags c (a, b))"
        using Cons u v 2 by (subst class_loop.simps) (simp add: in_span_def)
      show ?thesis
        using "1.IH"(1) [OF Cons 2(1) refl u [symmetric] 2(2) refl v [symmetric]] by (simp add: r l in_span_def disj_assoc)
    next
      case 3
      have r: "class_ranges flags p = ((a, a) # fst (class_ranges flags p1), snd (class_ranges flags p1))"
        using Cons u 3 by (subst class_ranges.simps) (auto simp add: case_prod_beta)
      have l: "class_loop flags c p hit = class_loop flags c p1 (hit \<or> fnm_eq a c flags)"
        using Cons u 3 by (subst class_loop.simps) auto
      show ?thesis
        using "1.IH"(2) [OF Cons 3(1) refl u [symmetric] 3(2)] by (simp add: r l in_span_single disj_assoc)
    qed
  qed
qed

text \<open>What a token of one character accepts.\<close>

fun accepts :: "u32 \<Rightarrow> token \<Rightarrow> byte option \<Rightarrow> byte list \<Rightarrow> bool" where
  "accepts flags Star prev s = False"
| "accepts flags AnyChar prev s = wild flags prev s"
| "accepts flags (CharSet neg rs) prev s \<longleftrightarrow> wild flags prev s \<and> neg \<noteq> (\<exists>r \<in> set rs. in_span flags (hd s) r)"
| "accepts flags (Char a) prev s = fnm_eq a (hd s) flags"

lemma fnm_class_read:
  "fnm_class p c flags =
     (case read_class flags p of
        Some (CharSet neg rs, q) \<Rightarrow> Some (neg \<noteq> (\<exists>r \<in> set rs. in_span flags c r), q)
      | _ \<Rightarrow> None)"
  by (simp add: fnm_class_def read_class_def Let_def class_loop_ranges case_prod_beta in_span_single)

lemma read_class_CharSet: "read_class flags p = Some (t, q) \<Longrightarrow> \<exists>neg rs. t = CharSet neg rs"
  by (auto simp: read_class_def Let_def case_prod_beta split: if_splits)

lemma read_class_length:
  assumes "read_class flags p = Some (t, q)"
  shows "length q < length p"
proof -
  obtain neg rs where "t = CharSet neg rs" using read_class_CharSet [OF assms] by blast
  then have "fnm_class p 0 flags = Some (neg \<noteq> (\<exists>r \<in> set rs. in_span flags 0 r), q)"
    using assms by (simp add: fnm_class_read)
  from fnm_class_length [OF this] show ?thesis .
qed

text \<open>The tokens of a pattern: a run of stars is one star, and a class that is not closed is the character \<^verbatim>\<open>[\<close>.\<close>

function tokens :: "u32 \<Rightarrow> byte list \<Rightarrow> token list" where
  "tokens flags [] = []"
| "tokens flags (pc # pat) =
     (if pc = c_star then Star # tokens flags (dropWhile (\<lambda>x. x = c_star) pat)
      else if pc = c_query then AnyChar # tokens flags pat
      else if pc = c_open then
        (case read_class flags pat of
           None \<Rightarrow> CharSet False [(c_open, c_open)] # tokens flags pat
         | Some (t, pat1) \<Rightarrow> t # tokens flags pat1)
      else Char (fst (unescape flags pc pat)) # tokens flags (snd (unescape flags pc pat)))"
  by pat_completeness auto
termination
proof (relation "measure (\<lambda>(flags, p). length p)", goal_cases)
  case (2 flags pc pat)
  then show ?case using length_dropWhile_le [of "\<lambda>x. x = c_star" pat] by (simp add: less_Suc_eq_le)
next
  case (6 flags pc pat)
  then show ?case using unescape_length [of flags pc pat] by (cases "unescape flags pc pat") (auto simp: le_imp_less_Suc)
qed (auto dest!: read_class_length)

declare tokens.simps(2) [simp del]

section \<open>The names a pattern matches\<close>

inductive glob :: "u32 \<Rightarrow> token list \<Rightarrow> byte option \<Rightarrow> byte list \<Rightarrow> bool" for flags where
  glob_end: "glob flags [] prev []"
| glob_dir: "fnm_flag flags NX_FNM_LEADING_DIR \<Longrightarrow> glob flags [] prev (c_slash # s)"
| glob_char: "accepts flags t prev (c # s) \<Longrightarrow> glob flags ts (Some c) s \<Longrightarrow> glob flags (t # ts) prev (c # s)"
| glob_empty: "\<not> fnm_leading_period prev s flags \<Longrightarrow> glob flags ts prev s \<Longrightarrow> glob flags (Star # ts) prev s"
| glob_more: "wild flags prev (c # s) \<Longrightarrow> glob flags (Star # ts) (Some c) s \<Longrightarrow> glob flags (Star # ts) prev (c # s)"

inductive_simps glob_Nil: "glob flags [] prev s"
inductive_simps glob_token_Cons: "glob flags (t # ts) prev (c # s)"
inductive_simps glob_token_Nil: "glob flags (t # ts) prev []"
inductive_simps glob_Star_Cons: "glob flags (Star # ts) prev (c # s)"
inductive_simps glob_Star_Nil: "glob flags (Star # ts) prev []"

lemma glob_token: "t \<noteq> Star \<Longrightarrow> glob flags (t # ts) prev s \<longleftrightarrow> s \<noteq> [] \<and> accepts flags t prev s \<and> glob flags ts (Some (hd s)) (tl s)"
  by (cases s) (simp_all add: glob_token_Cons glob_token_Nil)

lemma fold_slash: "fold_case flags c = c_slash \<longleftrightarrow> c = c_slash"
proof -
  have "\<not> (65 \<le> c \<and> c \<le> 90 \<and> c + 32 = (47 :: byte))"
  proof
    assume a: "65 \<le> c \<and> c \<le> 90 \<and> c + 32 = (47 :: byte)"
    then have "c = 47 - 32" by (metis add_diff_cancel_right')
    then show False using a by simp
  qed
  then show ?thesis by (auto simp: fold_case_def tolower_def)
qed

lemma lit_fnm_eq: "lit flags pc c \<longleftrightarrow> fnm_eq pc c flags"
  using fold_slash [of flags c] fold_slash [of flags pc] by (auto simp: lit_def fnm_eq_def)

text \<open>
  A star that has started to consume the name never stands before a leading period again: it does
  not pass a slash where the slash would make the next period a leading one.
\<close>

lemma star_step:
  "\<not> fnm_leading_period prev (c # s) flags \<Longrightarrow> \<not> (fnm_flag flags NX_FNM_PATHNAME \<and> c = c_slash) \<Longrightarrow>
   \<not> fnm_leading_period (Some c) s flags"
  by (auto simp: fnm_leading_period_def)

lemma glob_Star_alone:
  "glob flags [Star] prev s \<longleftrightarrow>
     \<not> fnm_leading_period prev s flags \<and>
     (\<not> fnm_flag flags NX_FNM_PATHNAME \<or> c_slash \<notin> set s \<or> fnm_flag flags NX_FNM_LEADING_DIR)"
proof (induction s arbitrary: prev)
  case Nil
  then show ?case by (auto simp: glob_Star_Nil glob_Nil fnm_leading_period_def)
next
  case (Cons c s)
  then show ?case using star_step [of prev c s flags]
    by (auto simp: glob_Star_Cons glob_Nil wild_def)
qed

lemma star_loop_glob:
  assumes m: "\<And>prev s. nx_fnmatch_impl flags pat prev s = glob flags ts prev s"
    and l: "\<not> fnm_leading_period prev s flags"
  shows "star_loop flags pat prev s = glob flags (Star # ts) prev s"
  using l
proof (induction s arbitrary: prev)
  case Nil
  then show ?case by (simp add: star_loop.simps m glob_Star_Nil)
next
  case (Cons c s)
  then show ?case using star_step [of prev c s flags]
    by (auto simp: star_loop.simps [of _ _ _ "c # s"] m glob_Star_Cons wild_def)
qed

lemma wild_class_open: "accepts flags (CharSet False [(c_open, c_open)]) prev s \<longleftrightarrow> wild flags prev s \<and> lit flags c_open (hd s)"
  by (simp add: in_span_single lit_fnm_eq)

text \<open>The matcher decides \<open>glob\<close>, by induction on the pattern.\<close>

lemma nx_fnmatch_impl_glob: "nx_fnmatch_impl flags pat prev s = glob flags (tokens flags pat) prev s"
proof (induction pat arbitrary: prev s rule: length_induct)
  case (1 pat)
  have IH: "nx_fnmatch_impl flags q prev s = glob flags (tokens flags q) prev s" if "length q < length pat" for q prev s
    using 1 that by blast
  show ?case
  proof (cases pat)
    case Nil
    then show ?thesis by (cases s) (auto simp: glob_Nil)
  next
    case (Cons pc p)
    let ?p = "dropWhile (\<lambda>x. x = c_star) p"
    have d: "length ?p < length pat" using Cons length_dropWhile_le [of "\<lambda>x. x = c_star" p] by simp
    consider "pc = c_star" | "pc = c_query" | "pc = c_open" | "pc \<noteq> c_star" "pc \<noteq> c_query" "pc \<noteq> c_open" by blast
    then show ?thesis
    proof cases
      case star: 1
      show ?thesis
      proof (cases "fnm_leading_period prev s flags")
        case True
        moreover have "\<not> glob flags (Star # ts) prev s" if "fnm_leading_period prev s flags" for ts
          using that by (cases s) (auto simp: glob_Star_Cons glob_Star_Nil wild_def)
        ultimately show ?thesis using star Cons by (simp add: nx_fnmatch_impl.simps(2) tokens.simps(2))
      next
        case False
        show ?thesis
        proof (cases "?p = []")
          case True
          then have "tokens flags pat = [Star]" using star Cons True by (simp add: tokens.simps(2) del: dropWhile_eq_Nil_conv)
          then show ?thesis using star Cons True False by (simp add: nx_fnmatch_impl.simps(2) glob_Star_alone)
        next
          case ne: False
          have "nx_fnmatch_impl flags pat prev s = star_loop flags ?p prev s"
            using star Cons ne False by (simp add: nx_fnmatch_impl.simps(2) del: dropWhile_eq_Nil_conv)
          also have "\<dots> = glob flags (Star # tokens flags ?p) prev s"
            by (rule star_loop_glob) (use IH d False in auto)
          finally show ?thesis using star Cons by (simp add: tokens.simps(2))
        qed
      qed
    next
      case 2
      then show ?thesis using Cons IH [of p] by (simp add: nx_fnmatch_impl.simps(2) tokens.simps(2) glob_token)
    next
      case 3
      show ?thesis
      proof (cases "read_class flags p")
        case None
        then show ?thesis using 3 Cons IH [of p]
          by (simp add: nx_fnmatch_impl.simps(2) tokens.simps(2) fnm_class_read glob_token wild_class_open del: accepts.simps)
      next
        case (Some a)
        then obtain neg rs q where r: "read_class flags p = Some (CharSet neg rs, q)"
          using read_class_CharSet by (cases a) blast
        then show ?thesis using 3 Cons IH [of q] read_class_length [OF r]
          by (auto simp add: nx_fnmatch_impl.simps(2) tokens.simps(2) fnm_class_read glob_token)
      qed
    next
      case 4
      have "length (snd (unescape flags pc p)) < length pat"
        using unescape_length [of flags pc p] Cons by (cases "unescape flags pc p") (auto simp: le_imp_less_Suc)
      then show ?thesis using 4 Cons IH
        by (simp add: nx_fnmatch_impl.simps(2) tokens.simps(2) glob_token lit_fnm_eq)
    qed
  qed
qed

text \<open>
  C24. The pattern matcher answers 0 exactly for the names the pattern describes, whatever the
  flags: the code, which reads the pattern and the name together and backtracks at each star,
  agrees with the declarative reading of the pattern (a star stands for any run of characters
  that does not start at a leading period and does not cross a slash of a path name, a question
  mark or a class for one such character, a quoted character for itself, and the end of the
  pattern for the end of the name or, with the leading-directory flag, for a slash).  A missing
  pattern or name is an invalid argument, and no other answer than 0 or 1 is given.
\<close>

theorem nx_fnmatch_decides_glob:
  "nx_fnmatch pattern string flags =
     (case (pattern, string) of
        (Some pat, Some s) \<Rightarrow> (if glob flags (tokens flags pat) None s then (0, None) else (1, None))
      | _ \<Rightarrow> (1, Some EINVAL))"
  by (simp add: nx_fnmatch_def nx_fnmatch_impl_glob NX_FNM_NOMATCH_def split: option.split)

end
