(* ===== verification/WideChars.thy ===== *)
theory WideChars
  imports Prelude
begin

text \<open>
  Conversion between UTF-8 and wide characters (\<^verbatim>\<open>nx_utf8_decode\<close>, \<^verbatim>\<open>nx_utf8_encode\<close>,
  \<^verbatim>\<open>nx_mbsnrtowcs\<close> and \<^verbatim>\<open>nx_wcsnrtombs\<close> of \<^verbatim>\<open>source/imports.c\<close>).  The bytes from a pointer on are
  a list; a pointer that moves along it is an offset.  Code points are 32-bit words, as are the
  wide characters of the target.
\<close>

section \<open>One character\<close>

text \<open>The answers 0, 1 and -1 of the decoder.\<close>

datatype decoded = NoInput | Decoded u32 nat | Malformed

abbreviation (input) cont :: "byte \<Rightarrow> bool" where "cont b \<equiv> b AND 0xc0 = 0x80"

definition nx_utf8_decode :: "byte list \<Rightarrow> decoded" where
  "nx_utf8_decode p =
     (if length p = 0 then NoInput
      else let c = ucast (p ! 0) :: u32; n = length p; low = (\<lambda>i. ucast (p ! i) AND 0x3f :: u32) in
      if c < 0x80 then Decoded c 1
      else if c AND 0xe0 = 0xc0 \<and> 2 \<le> n \<and> cont (p ! 1) then
        let v = push_bit 6 (c AND 0x1f) OR low 1
        in if v < 0x80 then Malformed else Decoded v 2
      else if c AND 0xf0 = 0xe0 \<and> 3 \<le> n \<and> cont (p ! 1) \<and> cont (p ! 2) then
        let v = push_bit 12 (c AND 0x0f) OR push_bit 6 (low 1) OR low 2
        in if v < 0x800 \<or> (0xd800 \<le> v \<and> v \<le> 0xdfff) then Malformed else Decoded v 3
      else if c AND 0xf8 = 0xf0 \<and> 4 \<le> n \<and> cont (p ! 1) \<and> cont (p ! 2) \<and> cont (p ! 3) then
        let v = push_bit 18 (c AND 7) OR push_bit 12 (low 1) OR push_bit 6 (low 2) OR low 3
        in if v < 0x10000 \<or> 0x10ffff < v then Malformed else Decoded v 4
      else Malformed)"

lemma decode_used: "nx_utf8_decode p = Decoded cp used \<Longrightarrow> 0 < used \<and> used \<le> length p"
  by (auto simp: nx_utf8_decode_def Let_def Suc_le_eq split: if_splits)

text \<open>The encoder answers the bytes it stores; none is the answer 0.\<close>

definition nx_utf8_encode :: "u32 \<Rightarrow> byte list" where
  "nx_utf8_encode cp =
     (if cp < 0x80 then [ucast cp]
      else if cp < 0x800 then [ucast (0xc0 OR drop_bit 6 cp), ucast (0x80 OR (cp AND 0x3f))]
      else if 0xd800 \<le> cp \<and> cp \<le> 0xdfff then []
      else if cp < 0x10000 then
        [ucast (0xe0 OR drop_bit 12 cp), ucast (0x80 OR (drop_bit 6 cp AND 0x3f)), ucast (0x80 OR (cp AND 0x3f))]
      else if cp \<le> 0x10ffff then
        [ucast (0xf0 OR drop_bit 18 cp), ucast (0x80 OR (drop_bit 12 cp AND 0x3f)),
         ucast (0x80 OR (drop_bit 6 cp AND 0x3f)), ucast (0x80 OR (cp AND 0x3f))]
      else [])"

section \<open>Strings\<close>

text \<open>
  What a conversion leaves: its answer (\<open>Inl EILSEQ\<close> and \<open>Inl EINVAL\<close> are the answer -1 with
  errno), the units stored from the start of the destination, and the pointer behind \<^verbatim>\<open>src\<close>:
  left alone, moved by a number of units, or the null pointer.
\<close>

datatype source_ptr = Kept | At nat | Null

record 'a converted =
  answer :: "nat result"
  stored :: "'a list"
  src_ptr :: source_ptr

text \<open>
  \<^verbatim>\<open>nx_mbsnrtowcs\<close>: \<open>dst\<close> says whether there is a destination, \<open>cap\<close> is \<^verbatim>\<open>len\<close>, \<open>p\<close> the bytes still to
  read, \<open>pos\<close> how many were read, and \<open>acc\<close> the characters converted so far.
\<close>

function mbs_loop :: "bool \<Rightarrow> nat \<Rightarrow> byte list \<Rightarrow> nat \<Rightarrow> u32 list \<Rightarrow> u32 converted" where
  "mbs_loop dst cap p pos acc =
     (if p = [] then \<lparr>answer = Inr (length acc), stored = (if dst then acc else []), src_ptr = (if dst then At pos else Kept)\<rparr>
      else case nx_utf8_decode p of
        NoInput \<Rightarrow> \<lparr>answer = Inl EILSEQ, stored = (if dst then acc else []), src_ptr = Kept\<rparr>
      | Malformed \<Rightarrow> \<lparr>answer = Inl EILSEQ, stored = (if dst then acc else []), src_ptr = Kept\<rparr>
      | Decoded cp used \<Rightarrow>
          if cp = 0 then
            \<lparr>answer = Inr (length acc), stored = (if dst then if length acc < cap then acc @ [0] else acc else []),
             src_ptr = (if dst then Null else Kept)\<rparr>
          else if dst \<and> cap \<le> length acc then \<lparr>answer = Inr (length acc), stored = acc, src_ptr = At pos\<rparr>
          else mbs_loop dst cap (drop used p) (pos + used) (acc @ [cp]))"
  by pat_completeness auto
termination by (relation "measure (\<lambda>(dst, cap, p, pos, acc). length p)") (auto dest: decode_used)

declare mbs_loop.simps [simp del]

definition nx_mbsnrtowcs :: "bool \<Rightarrow> byte list option \<Rightarrow> nat \<Rightarrow> nat \<Rightarrow> u32 converted" where
  "nx_mbsnrtowcs dst src nms len =
     (case src of
        None \<Rightarrow> \<lparr>answer = Inl EINVAL, stored = [], src_ptr = Kept\<rparr>
      | Some p \<Rightarrow> mbs_loop dst len (take nms p) 0 [])"

text \<open>\<^verbatim>\<open>nx_wcsnrtombs\<close>; \<open>acc\<close> holds the bytes produced so far.\<close>

primrec wcs_loop :: "bool \<Rightarrow> nat \<Rightarrow> u32 list \<Rightarrow> nat \<Rightarrow> byte list \<Rightarrow> byte converted" where
  "wcs_loop dst cap [] pos acc =
     \<lparr>answer = Inr (length acc), stored = (if dst then acc else []), src_ptr = (if dst then At pos else Kept)\<rparr>"
| "wcs_loop dst cap (cp # ws) pos acc =
     (if cp = 0 then
        \<lparr>answer = Inr (length acc), stored = (if dst then if length acc < cap then acc @ [0] else acc else []),
         src_ptr = (if dst then Null else Kept)\<rparr>
      else let enc = nx_utf8_encode cp
        in if enc = [] then \<lparr>answer = Inl EILSEQ, stored = (if dst then acc else []), src_ptr = Kept\<rparr>
           else if dst \<and> cap < length acc + length enc then \<lparr>answer = Inr (length acc), stored = acc, src_ptr = At pos\<rparr>
           else wcs_loop dst cap ws (Suc pos) (acc @ enc))"

definition nx_wcsnrtombs :: "bool \<Rightarrow> u32 list option \<Rightarrow> nat \<Rightarrow> nat \<Rightarrow> byte converted" where
  "nx_wcsnrtombs dst src nwc len =
     (case src of
        None \<Rightarrow> \<lparr>answer = Inl EINVAL, stored = [], src_ptr = Kept\<rparr>
      | Some p \<Rightarrow> wcs_loop dst len (take nwc p) 0 [])"

section \<open>The arithmetic of the encoding\<close>

text \<open>The masks and shifts, as divisions of naturals.\<close>

lemma nat_and_mask: "(x :: nat) AND 0x3f = x mod 64" "x AND 0x1f = x mod 32" "x AND 0x0f = x mod 16" "x AND 7 = x mod 8"
  using take_bit_eq_mask [of 6 x] take_bit_eq_mask [of 5 x] take_bit_eq_mask [of 4 x] take_bit_eq_mask [of 3 x]
  by (simp_all add: take_bit_eq_mod mask_eq_exp_minus_1)

lemma nat_or_add: "y < 2 ^ k \<Longrightarrow> (x * 2 ^ k :: nat) OR y = x * 2 ^ k + y"
proof -
  assume y: "y < 2 ^ k"
  have "push_bit k x AND y = 0"
  proof (rule bit_eqI)
    fix n
    have "\<not> bit y n" if "k \<le> n"
      using y that by (metis bit_take_bit_iff leD take_bit_nat_eq_self)
    then show "bit (push_bit k x AND y) n = bit 0 n" by (auto simp: bit_and_iff bit_push_bit_iff)
  qed
  then show ?thesis by (simp add: disjunctive_add_eq_or [symmetric] push_bit_eq_mult)
qed

lemma nat_and_field: "(x :: nat) AND push_bit k (mask m) = (x div 2 ^ k) mod 2 ^ m * 2 ^ k"
proof -
  have "x AND push_bit k (mask m) = push_bit k (take_bit m (drop_bit k x))"
    by (rule bit_eqI) (auto simp: bit_simps)
  then show ?thesis by (simp add: push_bit_eq_mult take_bit_eq_mod drop_bit_eq_div)
qed

lemma head_byte:
  fixes x :: nat
  assumes "x < 256"
  shows "x AND 0xe0 = 0xc0 \<longleftrightarrow> 192 \<le> x \<and> x < 224"
    "x AND 0xf0 = 0xe0 \<longleftrightarrow> 224 \<le> x \<and> x < 240"
    "x AND 0xf8 = 0xf0 \<longleftrightarrow> 240 \<le> x \<and> x < 248"
    "x AND 0xc0 = 0x80 \<longleftrightarrow> 128 \<le> x \<and> x < 192"
proof -
  have "x AND 0xe0 = x div 32 mod 8 * 32" "x AND 0xf0 = x div 16 mod 16 * 16"
    "x AND 0xf8 = x div 8 mod 32 * 8" "x AND 0xc0 = x div 64 mod 4 * 64"
    using nat_and_field [of x 5 3] nat_and_field [of x 4 4] nat_and_field [of x 3 5] nat_and_field [of x 6 2]
    by (simp_all add: mask_eq_exp_minus_1 push_bit_eq_mult)
  moreover have "x div 32 mod 8 = x div 32" "x div 16 mod 16 = x div 16" "x div 8 mod 32 = x div 8" "x div 64 mod 4 = x div 64"
    using assms by (simp_all add: less_mult_imp_div_less)
  moreover have "x div 32 = 6 \<longleftrightarrow> 192 \<le> x \<and> x < 224" by arith
  moreover have "x div 16 = 14 \<longleftrightarrow> 224 \<le> x \<and> x < 240" by arith
  moreover have "x div 8 = 30 \<longleftrightarrow> 240 \<le> x \<and> x < 248" by arith
  moreover have "x div 64 = 2 \<longleftrightarrow> 128 \<le> x \<and> x < 192" by arith
  moreover have "x div 32 * 32 = 192 \<longleftrightarrow> x div 32 = 6" "x div 16 * 16 = 224 \<longleftrightarrow> x div 16 = 14"
    "x div 8 * 8 = 240 \<longleftrightarrow> x div 8 = 30" "x div 64 * 64 = 128 \<longleftrightarrow> x div 64 = 2" by auto
  ultimately show "x AND 0xe0 = 0xc0 \<longleftrightarrow> 192 \<le> x \<and> x < 224" "x AND 0xf0 = 0xe0 \<longleftrightarrow> 224 \<le> x \<and> x < 240"
    "x AND 0xf8 = 0xf0 \<longleftrightarrow> 240 \<le> x \<and> x < 248" "x AND 0xc0 = 0x80 \<longleftrightarrow> 128 \<le> x \<and> x < 192"
    by (simp_all only:)
qed

text \<open>The encoder and the decoder over naturals.\<close>

definition enc_nat :: "nat \<Rightarrow> nat list" where
  "enc_nat v =
     (if v < 0x80 then [v]
      else if v < 0x800 then [192 + v div 64, 128 + v mod 64]
      else if 0xd800 \<le> v \<and> v \<le> 0xdfff then []
      else if v < 0x10000 then [224 + v div 4096, 128 + v div 64 mod 64, 128 + v mod 64]
      else if v \<le> 0x10ffff then [240 + v div 262144, 128 + v div 4096 mod 64, 128 + v div 64 mod 64, 128 + v mod 64]
      else [])"

lemma unat_or_add:
  fixes a b :: "'a :: len word"
  assumes "unat a = x * 2 ^ k" "unat b < 2 ^ k"
  shows "unat (a OR b) = unat a + unat b"
  using nat_or_add [OF assms(2), of x] assms(1) by (simp add: unsigned_or_eq)

lemma unat_low: "unat (w AND 0x3f :: u32) = unat w mod 64" "unat (w AND 0x1f :: u32) = unat w mod 32"
  "unat (w AND 0x0f :: u32) = unat w mod 16" "unat (w AND 7 :: u32) = unat w mod 8"
  by (simp_all add: unsigned_and_eq nat_and_mask)

lemma unat_drop: "unat (drop_bit k w) = unat w div 2 ^ k"
proof -
  have "unat (drop_bit k w) = drop_bit k (unat w)"
    by (simp only: unsigned_drop_bit_eq take_bit_nat_eq_self [OF unsigned_less])
  then show ?thesis by (simp only: drop_bit_eq_div)
qed

lemma encode_nat: "map unat (nx_utf8_encode cp) = enc_nat (unat cp)"
proof -
  let ?v = "unat cp"
  have t: "unat (0x80 OR (w AND 0x3f) :: u32) = 128 + unat w mod 64" for w :: u32
    using unat_or_add [of "0x80 :: u32" 2 6 "w AND 0x3f"] by (simp add: unat_low)
  have h2: "unat (0xc0 OR drop_bit 6 cp) = 192 + ?v div 64" if "cp < 0x800"
  proof -
    have "?v div 64 < 2 ^ 5" using that by (simp add: word_less_nat_alt)
    then show ?thesis using unat_or_add [of "0xc0 :: u32" 6 5 "drop_bit 6 cp"] by (simp add: unat_drop)
  qed
  have h3: "unat (0xe0 OR drop_bit 12 cp) = 224 + ?v div 4096" if "cp < 0x10000"
  proof -
    have "?v div 4096 < 2 ^ 4" using that by (simp add: word_less_nat_alt)
    then show ?thesis using unat_or_add [of "0xe0 :: u32" 14 4 "drop_bit 12 cp"] by (simp add: unat_drop)
  qed
  have h4: "unat (0xf0 OR drop_bit 18 cp) = 240 + ?v div 262144" if "cp \<le> 0x10ffff"
  proof -
    have "?v div 262144 < 2 ^ 3" using that by (simp add: word_le_nat_alt)
    then show ?thesis using unat_or_add [of "0xf0 :: u32" 30 3 "drop_bit 18 cp"] by (simp add: unat_drop)
  qed
  have u: "unat (ucast w :: byte) = unat w mod 256" for w :: u32
    by (simp add: unsigned_ucast_eq take_bit_eq_mod)
  show ?thesis
    by (simp add: nx_utf8_encode_def enc_nat_def word_less_nat_alt word_le_nat_alt u t h2 h3 h4 unat_drop)
qed

definition dec_nat :: "nat list \<Rightarrow> (nat \<times> nat) option" where
  "dec_nat p =
     (if p = [] then None
      else let c = p ! 0; n = length p; tail = (\<lambda>i. 128 \<le> p ! i \<and> p ! i < 192); low = (\<lambda>i. p ! i mod 64) in
      if c < 128 then Some (c, 1)
      else if 192 \<le> c \<and> c < 224 \<and> 2 \<le> n \<and> tail 1 then
        let v = c mod 32 * 64 + low 1 in if v < 0x80 then None else Some (v, 2)
      else if 224 \<le> c \<and> c < 240 \<and> 3 \<le> n \<and> tail 1 \<and> tail 2 then
        let v = c mod 16 * 4096 + low 1 * 64 + low 2
        in if v < 0x800 \<or> (0xd800 \<le> v \<and> v \<le> 0xdfff) then None else Some (v, 3)
      else if 240 \<le> c \<and> c < 248 \<and> 4 \<le> n \<and> tail 1 \<and> tail 2 \<and> tail 3 then
        let v = c mod 8 * 262144 + low 1 * 4096 + low 2 * 64 + low 3
        in if v < 0x10000 \<or> 0x10ffff < v then None else Some (v, 4)
      else None)"

lemma unat_shift: "unat w * 2 ^ k < 2 ^ 32 \<Longrightarrow> unat (push_bit k w :: u32) = unat w * 2 ^ k"
proof -
  assume a: "unat w * 2 ^ k < 2 ^ 32"
  have "unat (push_bit k w) = take_bit 32 (push_bit k (unat w))"
    using unsigned_push_bit_eq [of k w, where 'a = nat] by simp
  then show ?thesis using a by (simp only: push_bit_eq_mult take_bit_nat_eq_self)
qed

lemma unat_bytes: "unat (ucast (b :: byte) :: u32) = unat b"
  by (simp add: unsigned_ucast_eq unsigned_take_bit_eq take_bit_nat_eq_self unsigned_less [of b, THEN less_trans])

lemma decode_values:
  fixes c a b d :: u32
  shows "unat (push_bit 6 (c AND 0x1f) OR (a AND 0x3f)) = unat c mod 32 * 64 + unat a mod 64"
    "unat (push_bit 12 (c AND 0x0f) OR push_bit 6 (a AND 0x3f) OR (b AND 0x3f)) = unat c mod 16 * 4096 + unat a mod 64 * 64 + unat b mod 64"
    "unat (push_bit 18 (c AND 7) OR push_bit 12 (a AND 0x3f) OR push_bit 6 (b AND 0x3f) OR (d AND 0x3f)) =
       unat c mod 8 * 262144 + unat a mod 64 * 4096 + unat b mod 64 * 64 + unat d mod 64"
proof -
  have s: "unat (push_bit 6 (w AND 0x3f) :: u32) = unat w mod 64 * 64" "unat (push_bit 12 (w AND 0x3f) :: u32) = unat w mod 64 * 4096"
    "unat (push_bit 6 (w AND 0x1f) :: u32) = unat w mod 32 * 64" "unat (push_bit 12 (w AND 0x0f) :: u32) = unat w mod 16 * 4096"
    "unat (push_bit 18 (w AND 7) :: u32) = unat w mod 8 * 262144" for w
  proof -
    have m: "unat w mod 64 < 64" "unat w mod 32 < 32" "unat w mod 16 < 16" "unat w mod 8 < 8" by simp_all
    have l: "unat (w AND 0x3f) * 2 ^ 6 < 2 ^ 32" "unat (w AND 0x3f) * 2 ^ 12 < 2 ^ 32" "unat (w AND 0x1f) * 2 ^ 6 < 2 ^ 32"
      "unat (w AND 0x0f) * 2 ^ 12 < 2 ^ 32" "unat (w AND 7) * 2 ^ 18 < 2 ^ 32"
      using m by (simp_all only: unat_low) simp_all
    show "unat (push_bit 6 (w AND 0x3f) :: u32) = unat w mod 64 * 64" "unat (push_bit 12 (w AND 0x3f) :: u32) = unat w mod 64 * 4096"
      "unat (push_bit 6 (w AND 0x1f) :: u32) = unat w mod 32 * 64" "unat (push_bit 12 (w AND 0x0f) :: u32) = unat w mod 16 * 4096"
      "unat (push_bit 18 (w AND 7) :: u32) = unat w mod 8 * 262144"
      using unat_shift [OF l(1)] unat_shift [OF l(2)] unat_shift [OF l(3)] unat_shift [OF l(4)] unat_shift [OF l(5)]
      by (simp_all only: unat_low) simp_all
  qed
  show 1: "unat (push_bit 6 (c AND 0x1f) OR (a AND 0x3f)) = unat c mod 32 * 64 + unat a mod 64"
    using unat_or_add [of "push_bit 6 (c AND 0x1f)" "unat c mod 32" 6 "a AND 0x3f"] by (simp add: s unat_low del: push_bit_and)
  have e2: "unat (push_bit 12 (c AND 0x0f) OR push_bit 6 (a AND 0x3f)) = (unat c mod 16 * 64 + unat a mod 64) * 2 ^ 6"
    using unat_or_add [of "push_bit 12 (c AND 0x0f)" "unat c mod 16" 12 "push_bit 6 (a AND 0x3f)"] by (simp add: s del: push_bit_and)
  show "unat (push_bit 12 (c AND 0x0f) OR push_bit 6 (a AND 0x3f) OR (b AND 0x3f)) = unat c mod 16 * 4096 + unat a mod 64 * 64 + unat b mod 64"
    using unat_or_add [OF e2, of "b AND 0x3f"] e2 by (simp add: unat_low or.assoc del: push_bit_and)
  have e3: "unat (push_bit 18 (c AND 7) OR push_bit 12 (a AND 0x3f)) = (unat c mod 8 * 64 + unat a mod 64) * 2 ^ 12"
    using unat_or_add [of "push_bit 18 (c AND 7)" "unat c mod 8" 18 "push_bit 12 (a AND 0x3f)"] by (simp add: s del: push_bit_and)
  have e4: "unat (push_bit 18 (c AND 7) OR push_bit 12 (a AND 0x3f) OR push_bit 6 (b AND 0x3f)) =
      ((unat c mod 8 * 64 + unat a mod 64) * 64 + unat b mod 64) * 2 ^ 6"
    using unat_or_add [OF e3, of "push_bit 6 (b AND 0x3f)"] e3 by (simp add: s or.assoc del: push_bit_and)
  show "unat (push_bit 18 (c AND 7) OR push_bit 12 (a AND 0x3f) OR push_bit 6 (b AND 0x3f) OR (d AND 0x3f)) =
       unat c mod 8 * 262144 + unat a mod 64 * 4096 + unat b mod 64 * 64 + unat d mod 64"
    using unat_or_add [OF e4, of "d AND 0x3f"] e4 by (simp add: unat_low or.assoc del: push_bit_and)
qed

end
