(* ===== verification/WideCharsProps.thy ===== *)
theory WideCharsProps
  imports WideChars
begin

text \<open>
  What the conversions of \<open>WideChars\<close> promise: the decoder accepts exactly the outputs of the
  encoder, and the two string conversions undo each other.
\<close>

section \<open>The decoder inverts the encoder\<close>

lemma head_word:
  "(ucast b AND 0xe0 :: u32) = 0xc0 \<longleftrightarrow> 192 \<le> unat b \<and> unat b < 224"
  "(ucast b AND 0xf0 :: u32) = 0xe0 \<longleftrightarrow> 224 \<le> unat b \<and> unat b < 240"
  "(ucast b AND 0xf8 :: u32) = 0xf0 \<longleftrightarrow> 240 \<le> unat b \<and> unat b < 248"
  "b AND 0xc0 = 0x80 \<longleftrightarrow> 128 \<le> unat b \<and> unat b < 192" for b :: byte
proof -
  have l: "unat b < 256" using unsigned_less [of b] by simp
  note h = head_byte [OF l]
  show "(ucast b AND 0xe0 :: u32) = 0xc0 \<longleftrightarrow> 192 \<le> unat b \<and> unat b < 224"
    "(ucast b AND 0xf0 :: u32) = 0xe0 \<longleftrightarrow> 224 \<le> unat b \<and> unat b < 240"
    "(ucast b AND 0xf8 :: u32) = 0xf0 \<longleftrightarrow> 240 \<le> unat b \<and> unat b < 248"
    "b AND 0xc0 = 0x80 \<longleftrightarrow> 128 \<le> unat b \<and> unat b < 192"
    by (simp_all only: h [symmetric] word_unat_eq_iff unsigned_and_eq unat_bytes) simp_all
qed

lemma word_cmp: "(x :: u32) < y \<longleftrightarrow> unat x < unat y" "x \<le> y \<longleftrightarrow> unat x \<le> unat y"
  by (simp_all add: word_less_nat_alt word_le_nat_alt)

text \<open>The four lengths of a sequence, as the tests of the decoder tell them apart.\<close>

definition shape :: "nat list \<Rightarrow> nat" where
  "shape p =
     (if p ! 0 < 128 then 1
      else if 192 \<le> p ! 0 \<and> p ! 0 < 224 \<and> 2 \<le> length p \<and> 128 \<le> p ! 1 \<and> p ! 1 < 192 then 2
      else if 224 \<le> p ! 0 \<and> p ! 0 < 240 \<and> 3 \<le> length p \<and> (128 \<le> p ! 1 \<and> p ! 1 < 192) \<and> 128 \<le> p ! 2 \<and> p ! 2 < 192 then 3
      else if 240 \<le> p ! 0 \<and> p ! 0 < 248 \<and> 4 \<le> length p \<and> (128 \<le> p ! 1 \<and> p ! 1 < 192) \<and> (128 \<le> p ! 2 \<and> p ! 2 < 192) \<and>
        128 \<le> p ! 3 \<and> p ! 3 < 192 then 4
      else 0)"

lemma dec_nat_shape:
  assumes "p \<noteq> []"
  shows "dec_nat p =
    (let c = p ! 0; low = (\<lambda>i. p ! i mod 64);
         v = (if shape p = 1 then c
              else if shape p = 2 then c mod 32 * 64 + low 1
              else if shape p = 3 then c mod 16 * 4096 + low 1 * 64 + low 2
              else c mod 8 * 262144 + low 1 * 4096 + low 2 * 64 + low 3)
     in if shape p = 0 \<or> shape p = 2 \<and> v < 0x80 \<or> shape p = 3 \<and> (v < 0x800 \<or> (0xd800 \<le> v \<and> v \<le> 0xdfff)) \<or>
           shape p = 4 \<and> (v < 0x10000 \<or> 0x10ffff < v)
        then None else Some (v, shape p))"
  using assms by (simp add: dec_nat_def shape_def Let_def)

lemma decode_shape:
  assumes "p \<noteq> []"
  shows "nx_utf8_decode p =
    (let c = ucast (p ! 0) :: u32; low = (\<lambda>i. ucast (p ! i) AND 0x3f :: u32);
         v = (if shape (map unat p) = 1 then c
              else if shape (map unat p) = 2 then push_bit 6 (c AND 0x1f) OR low 1
              else if shape (map unat p) = 3 then push_bit 12 (c AND 0x0f) OR push_bit 6 (low 1) OR low 2
              else push_bit 18 (c AND 7) OR push_bit 12 (low 1) OR push_bit 6 (low 2) OR low 3)
     in if shape (map unat p) = 0 \<or> shape (map unat p) = 2 \<and> v < 0x80 \<or>
           shape (map unat p) = 3 \<and> (v < 0x800 \<or> (0xd800 \<le> v \<and> v \<le> 0xdfff)) \<or>
           shape (map unat p) = 4 \<and> (v < 0x10000 \<or> 0x10ffff < v)
        then Malformed else Decoded v (shape (map unat p)))"
proof -
  have c: "(ucast b :: u32) < 0x80 \<longleftrightarrow> unat b < 128" for b :: byte by (simp add: word_cmp unat_bytes)
  have h: "shape (map unat p) =
     (if (ucast (p ! 0) :: u32) < 0x80 then 1
      else if (ucast (p ! 0) :: u32) AND 0xe0 = 0xc0 \<and> 2 \<le> length p \<and> cont (p ! 1) then 2
      else if (ucast (p ! 0) :: u32) AND 0xf0 = 0xe0 \<and> 3 \<le> length p \<and> cont (p ! 1) \<and> cont (p ! 2) then 3
      else if (ucast (p ! 0) :: u32) AND 0xf8 = 0xf0 \<and> 4 \<le> length p \<and> cont (p ! 1) \<and> cont (p ! 2) \<and> cont (p ! 3) then 4
      else 0)"
    unfolding head_word c shape_def length_map using assms by (auto simp: nth_map)
  show ?thesis unfolding h nx_utf8_decode_def using assms by (simp add: Let_def)
qed

lemma shape_length: "p \<noteq> [] \<Longrightarrow> shape p \<le> length p \<and> shape p \<le> 4"
  by (auto simp: shape_def Suc_le_eq)

lemma decoded_same:
  "unat v = vn \<Longrightarrow> bad = bad' \<Longrightarrow>
   (if bad then Malformed else Decoded v k) = Decoded cp used \<longleftrightarrow> (if bad' then None else Some (vn, k)) = Some (unat cp, used)"
  by (auto simp: word_unat_eq_iff)

lemma decode_nat: "nx_utf8_decode p = Decoded cp used \<longleftrightarrow> dec_nat (map unat p) = Some (unat cp, used)"
proof (cases "p = []")
  case True
  then show ?thesis by (simp add: nx_utf8_decode_def dec_nat_def)
next
  case False
  then have ne: "map unat p \<noteq> []" by simp
  from shape_length [OF ne] have l: "shape (map unat p) \<le> length p" "shape (map unat p) \<le> 4" by simp_all
  have n: "map unat p ! i = unat (p ! i)" if "i < length p" for i using that by simp
  consider "shape (map unat p) = 0" | "shape (map unat p) = 1" | "shape (map unat p) = 2" | "shape (map unat p) = 3"
    | "shape (map unat p) = 4" using l(2) by linarith
  then show ?thesis
  proof cases
    case 1
    then show ?thesis by (simp add: decode_shape [OF False] dec_nat_shape [OF ne] Let_def)
  qed (unfold decode_shape [OF False] dec_nat_shape [OF ne] Let_def, (rule decoded_same;
      use l False in \<open>simp add: n decode_values unat_bytes word_cmp del: push_bit_and nth_map\<close>)+)
qed

text \<open>The inverse over naturals, a length at a time.\<close>

lemma pos64: "b < (64 :: nat) \<Longrightarrow> (x * 64 + b) div 64 = x \<and> (x * 64 + b) mod 64 = b" by simp

lemma enc_fields:
  assumes "a < 64" "b < 64" "c < 64"
  shows "x < 32 \<Longrightarrow> 0x80 \<le> x * 64 + a \<Longrightarrow> enc_nat (x * 64 + a) = [192 + x, 128 + a]"
    "x < 16 \<Longrightarrow> v = x * 4096 + a * 64 + b \<Longrightarrow> 0x800 \<le> v \<Longrightarrow> \<not> (0xd800 \<le> v \<and> v \<le> 0xdfff) \<Longrightarrow>
       enc_nat v = [224 + x, 128 + a, 128 + b]"
    "v = x * 262144 + a * 4096 + b * 64 + c \<Longrightarrow> 0x10000 \<le> v \<Longrightarrow> v \<le> 0x10ffff \<Longrightarrow>
       enc_nat v = [240 + x, 128 + a, 128 + b, 128 + c]"
proof -
  show "enc_nat (x * 64 + a) = [192 + x, 128 + a]" if "x < 32" "0x80 \<le> x * 64 + a"
    using assms that by (simp add: enc_nat_def)
  show "enc_nat v = [224 + x, 128 + a, 128 + b]"
    if "x < 16" "v = x * 4096 + a * 64 + b" "0x800 \<le> v" "\<not> (0xd800 \<le> v \<and> v \<le> 0xdfff)"
  proof -
    have v: "v = (x * 64 + a) * 64 + b" using that by simp
    then have "v div 64 = x * 64 + a" "v mod 64 = b" using pos64 [OF assms(2), of "x * 64 + a"] by blast+
    moreover from this have "v div 4096 = x" using assms div_mult2_eq [of v 64 64] by simp
    moreover have "v < 0x10000" using that assms by simp
    ultimately show ?thesis using that assms by (simp add: enc_nat_def)
  qed
  show "enc_nat v = [240 + x, 128 + a, 128 + b, 128 + c]"
    if "v = x * 262144 + a * 4096 + b * 64 + c" "0x10000 \<le> v" "v \<le> 0x10ffff"
  proof -
    have v: "v = ((x * 64 + a) * 64 + b) * 64 + c" using that by simp
    then have "v div 64 = (x * 64 + a) * 64 + b" "v mod 64 = c" using pos64 [OF assms(3), of "(x * 64 + a) * 64 + b"] by blast+
    moreover from this have "v div 4096 = x * 64 + a" using pos64 [OF assms(2), of "x * 64 + a"] div_mult2_eq [of v 64 64] by simp
    moreover from this have "v div 262144 = x" using assms div_mult2_eq [of v 4096 64] by simp
    ultimately show ?thesis using that assms pos64 [OF assms(2), of "x * 64 + a"] by (simp add: enc_nat_def)
  qed
qed

lemma tail_bits: "128 \<le> b \<Longrightarrow> b < 192 \<Longrightarrow> b mod 64 < (64 :: nat) \<and> b = 128 + b mod 64"
  using pos64 [of "b - 128" 2] by simp

lemma dec_nat_SomeD:
  assumes "dec_nat p = Some (v, n)" "p \<noteq> []"
  shows "n = shape p" "shape p \<noteq> 0"
    "v = (if shape p = 1 then p ! 0
          else if shape p = 2 then p ! 0 mod 32 * 64 + p ! 1 mod 64
          else if shape p = 3 then p ! 0 mod 16 * 4096 + p ! 1 mod 64 * 64 + p ! 2 mod 64
          else p ! 0 mod 8 * 262144 + p ! 1 mod 64 * 4096 + p ! 2 mod 64 * 64 + p ! 3 mod 64)"
    "shape p = 2 \<Longrightarrow> 0x80 \<le> v" "shape p = 3 \<Longrightarrow> 0x800 \<le> v \<and> \<not> (0xd800 \<le> v \<and> v \<le> 0xdfff)"
    "shape p = 4 \<Longrightarrow> 0x10000 \<le> v \<and> v \<le> 0x10ffff"
proof -
  have i: "(if B then None else Some (V, k)) = Some (v, n) \<longleftrightarrow> \<not> B \<and> v = V \<and> n = k" for B V and k :: nat by auto
  note d = assms(1) [unfolded dec_nat_shape [OF assms(2)] Let_def i]
  note v = d [THEN conjunct2, THEN conjunct1]
  note b = d [folded v, THEN conjunct1]
  show "n = shape p" by (rule d [THEN conjunct2, THEN conjunct2])
  show "shape p \<noteq> 0" using b by simp
  show "v = (if shape p = 1 then p ! 0
          else if shape p = 2 then p ! 0 mod 32 * 64 + p ! 1 mod 64
          else if shape p = 3 then p ! 0 mod 16 * 4096 + p ! 1 mod 64 * 64 + p ! 2 mod 64
          else p ! 0 mod 8 * 262144 + p ! 1 mod 64 * 4096 + p ! 2 mod 64 * 64 + p ! 3 mod 64)"
    by (rule v)
  show "shape p = 2 \<Longrightarrow> 0x80 \<le> v" using b by linarith
  show "shape p = 3 \<Longrightarrow> 0x800 \<le> v \<and> \<not> (0xd800 \<le> v \<and> v \<le> 0xdfff)" using b by linarith
  show "shape p = 4 \<Longrightarrow> 0x10000 \<le> v \<and> v \<le> 0x10ffff" using b by linarith
qed

lemma enc_dec_nat:
  assumes d: "dec_nat p = Some (v, n)"
  shows "take n p = enc_nat v"
proof -
  have ne: "p \<noteq> []" using d by (auto simp: dec_nat_def)
  note l = shape_length [OF ne]
  note D = dec_nat_SomeD [OF d ne]
  obtain c q where p: "p = c # q" using ne by (cases p) auto
  consider "shape p = 1" | "shape p = 2" | "shape p = 3" | "shape p = 4" using l D(2) by linarith
  then show "take n p = enc_nat v"
  proof cases
    case 1
    then have "c < 128" by (auto simp: shape_def p split: if_splits)
    then show ?thesis using D(1,3) 1 by (simp add: p enc_nat_def)
  next
    case 2
    then obtain b r where q: "q = b # r" using l p by (cases q) auto
    have c: "192 \<le> c" "c < 224" "128 \<le> b" "b < 192" using 2 by (auto simp: shape_def p q split: if_splits)
    then have e: "c mod 32 = c - 192" using mod_mult_self1 [of "c - 192" 6 32] by simp
    have "v = (c - 192) * 64 + b mod 64" using D(3) 2 by (simp add: p q e)
    then show ?thesis using D(1,4) 2 c tail_bits [of b] enc_fields(1) [of "b mod 64" 0 0 "c - 192"] by (simp add: p q)
  next
    case 3
    then obtain a b r where q: "q = a # b # r" using l p by (cases q; cases "tl q") auto
    have c: "224 \<le> c" "c < 240" "128 \<le> a" "a < 192" "128 \<le> b" "b < 192"
      using 3 by (auto simp: shape_def p q split: if_splits)
    then have e: "c mod 16 = c - 224" using mod_mult_self1 [of "c - 224" 14 16] by simp
    have "v = (c - 224) * 4096 + a mod 64 * 64 + b mod 64" using D(3) 3 by (simp add: p q e)
    then show ?thesis using D(1,5) 3 c tail_bits [of a] tail_bits [of b] enc_fields(2) [of "a mod 64" "b mod 64" 0 "c - 224" v]
      by (simp add: p q)
  next
    case 4
    then obtain a b e r where q: "q = a # b # e # r" using l p by (cases q; cases "tl q"; cases "tl (tl q)") auto
    have c: "240 \<le> c" "c < 248" "128 \<le> a" "a < 192" "128 \<le> b" "b < 192" "128 \<le> e" "e < 192"
      using 4 by (auto simp: shape_def p q split: if_splits)
    then have m: "c mod 8 = c - 240" using mod_mult_self1 [of "c - 240" 30 8] by simp
    have "v = (c - 240) * 262144 + a mod 64 * 4096 + b mod 64 * 64 + e mod 64" using D(3) 4 by (simp add: p q m)
    then show ?thesis using D(1,6) 4 c tail_bits [of a] tail_bits [of b] tail_bits [of e]
        enc_fields(3) [of "a mod 64" "b mod 64" "e mod 64" v "c - 240"]
      by (simp add: p q)
  qed
qed

lemma add_mod: "x < 64 \<Longrightarrow> (128 + x) mod 64 = (x :: nat)" "x < 32 \<Longrightarrow> (192 + x) mod 32 = x" "x < 16 \<Longrightarrow> (224 + x) mod 16 = x"
    "x < 8 \<Longrightarrow> (240 + x) mod 8 = x"
  using mod_mult_self2 [of x 64 2] mod_mult_self2 [of x 32 6] mod_mult_self2 [of x 16 14] mod_mult_self2 [of x 8 30]
  by (simp_all add: add.commute)

lemma dec_enc_nat:
  assumes "enc_nat v \<noteq> []"
  shows "dec_nat (enc_nat v @ r) = Some (v, length (enc_nat v))"
proof -
  define a where "a = v div 64 mod 64"
  define b where "b = v mod 64"
  have ab: "a < 64" "b < 64" by (simp_all add: a_def b_def)
  have v64: "v = v div 64 * 64 + b" by (simp add: b_def)
  have v4096: "v = v div 4096 * 4096 + a * 64 + b"
  proof -
    have "v div 64 = v div 4096 * 64 + a" using div_mult2_eq [of v 64 64] by (simp add: a_def)
    then show ?thesis using v64 by simp
  qed
  consider "v < 0x80" | "0x80 \<le> v" "v < 0x800" | "0x800 \<le> v" "v < 0x10000" "\<not> (0xd800 \<le> v \<and> v \<le> 0xdfff)"
    | "0x10000 \<le> v" "v \<le> 0x10ffff" using assms by (fastforce simp: enc_nat_def split: if_splits)
  then show ?thesis
  proof cases
    case 1
    then show ?thesis by (simp add: enc_nat_def dec_nat_def)
  next
    case 2
    have x: "v div 64 < 32" using 2 by simp
    show ?thesis using 2 x ab v64 by (simp add: enc_nat_def dec_nat_def add_mod b_def [symmetric])
  next
    case 3
    have x: "v div 4096 < 16" using 3 by simp
    have e: "enc_nat v = [224 + v div 4096, 128 + a, 128 + b]"
      using 3 by (auto simp: enc_nat_def a_def b_def)
    have s: "shape ([224 + v div 4096, 128 + a, 128 + b] @ r) = 3" using x ab by (simp add: shape_def)
    show ?thesis unfolding e using 3 x ab v4096 s by (auto simp: dec_nat_shape add_mod Let_def)
  next
    case 4
    define c where "c = v div 4096 mod 64"
    have c: "c < 64" "v div 4096 = v div 262144 * 64 + c" using div_mult2_eq [of v 4096 64] by (simp_all add: c_def)
    have x: "v div 262144 < 8" using 4 by simp
    have v: "v = v div 262144 * 262144 + c * 4096 + a * 64 + b" using v4096 c(2) by simp
    have e: "enc_nat v = [240 + v div 262144, 128 + c, 128 + a, 128 + b]"
      using 4 by (auto simp: enc_nat_def a_def b_def c_def)
    have s: "shape ([240 + v div 262144, 128 + c, 128 + a, 128 + b] @ r) = 4" using x ab c(1) by (simp add: shape_def)
    show ?thesis unfolding e using 4 x ab c(1) v s by (auto simp: dec_nat_shape add_mod Let_def)
  qed
qed

section \<open>Characters\<close>

lemma encode_length: "length (nx_utf8_encode cp) = length (enc_nat (unat cp))"
  using encode_nat [of cp] by (metis length_map)

lemma decode_iff_encode:
  "nx_utf8_decode p = Decoded cp used \<longleftrightarrow>
     nx_utf8_encode cp \<noteq> [] \<and> used = length (nx_utf8_encode cp) \<and> take used p = nx_utf8_encode cp"
proof
  assume d: "nx_utf8_decode p = Decoded cp used"
  then have n: "dec_nat (map unat p) = Some (unat cp, used)" by (simp add: decode_nat)
  have "map unat (take used p) = map unat (nx_utf8_encode cp)" using enc_dec_nat [OF n] by (simp add: encode_nat take_map)
  then have "take used p = nx_utf8_encode cp" by (auto simp: inj_def word_unat_eq_iff dest: map_injective)
  moreover from this have "used = length (nx_utf8_encode cp)" using decode_used [OF d] by (metis length_take min.absorb2)
  ultimately show "nx_utf8_encode cp \<noteq> [] \<and> used = length (nx_utf8_encode cp) \<and> take used p = nx_utf8_encode cp"
    using decode_used [OF d] by auto
next
  assume a: "nx_utf8_encode cp \<noteq> [] \<and> used = length (nx_utf8_encode cp) \<and> take used p = nx_utf8_encode cp"
  then have "map unat p = enc_nat (unat cp) @ map unat (drop used p)" by (metis append_take_drop_id encode_nat map_append)
  moreover have "enc_nat (unat cp) \<noteq> []" using a encode_nat [of cp] by (metis map_is_Nil_conv)
  ultimately have "dec_nat (map unat p) = Some (unat cp, used)" using dec_enc_nat a encode_length by simp
  then show "nx_utf8_decode p = Decoded cp used" by (simp add: decode_nat)
qed

lemma encode_0: "nx_utf8_encode 0 = [0]"
  by (simp add: nx_utf8_encode_def)

lemma decode_0: "nx_utf8_decode (0 # t) = Decoded 0 1"
  by (simp add: decode_iff_encode encode_0)

lemma decode_encode: "nx_utf8_encode w \<noteq> [] \<Longrightarrow> nx_utf8_decode (nx_utf8_encode w @ t) = Decoded w (length (nx_utf8_encode w))"
  by (simp add: decode_iff_encode)

section \<open>Strings\<close>

abbreviation utf8 :: "u32 list \<Rightarrow> byte list" where "utf8 ws \<equiv> concat (map nx_utf8_encode ws)"

text \<open>The wide strings that have an encoding: neither zeros, nor surrogates, nor values past U+10FFFF.\<close>

definition encodable :: "u32 list \<Rightarrow> bool" where
  "encodable ws \<longleftrightarrow> (\<forall>w \<in> set ws. w \<noteq> 0 \<and> nx_utf8_encode w \<noteq> [])"

lemma encodable_Cons [simp]: "encodable (w # ws) \<longleftrightarrow> w \<noteq> 0 \<and> nx_utf8_encode w \<noteq> [] \<and> encodable ws"
  by (auto simp: encodable_def)

lemma encodable_Nil [simp]: "encodable []" by (simp add: encodable_def)

lemma wcs_loop_runs:
  "encodable ws \<Longrightarrow> length acc + length (utf8 ws) < cap \<Longrightarrow>
   wcs_loop True cap (ws @ 0 # r) pos acc =
     \<lparr>answer = Inr (length acc + length (utf8 ws)), stored = acc @ utf8 ws @ [0], src_ptr = Null\<rparr>"
  by (induction ws arbitrary: pos acc) (auto simp: Let_def)

lemma mbs_loop_runs:
  "encodable ws \<Longrightarrow> length acc + length ws < cap \<Longrightarrow>
   mbs_loop True cap (utf8 ws @ 0 # t) pos acc =
     \<lparr>answer = Inr (length acc + length ws), stored = acc @ ws @ [0], src_ptr = Null\<rparr>"
proof (induction ws arbitrary: pos acc)
  case Nil
  then show ?case by (simp add: mbs_loop.simps decode_0)
next
  case (Cons w ws)
  then have "nx_utf8_decode (utf8 (w # ws) @ 0 # t) = Decoded w (length (nx_utf8_encode w))"
    by (simp add: decode_encode)
  then show ?case using Cons by (subst mbs_loop.simps) simp
qed

text \<open>A string is converted up to its zero only if it is the encoding of the characters answered.\<close>

lemma mbs_loop_canonical:
  "mbs_loop True cap p pos acc = \<lparr>answer = Inr n, stored = s, src_ptr = Null\<rparr> \<Longrightarrow>
   \<exists>ws t. encodable ws \<and> p = utf8 ws @ 0 # t \<and> n = length acc + length ws \<and> (s = acc @ ws \<or> s = acc @ ws @ [0])"
proof (induction True cap p pos acc rule: mbs_loop.induct)
  case (1 cap p pos acc)
  from "1.prems" obtain cp used where d: "nx_utf8_decode p = Decoded cp used"
    by (subst (asm) mbs_loop.simps) (auto split: if_splits decoded.splits)
  have p: "p \<noteq> []" using decode_used [OF d] by auto
  have e: "nx_utf8_encode cp \<noteq> []" "p = nx_utf8_encode cp @ drop used p"
    using d by (metis append_take_drop_id decode_iff_encode)+
  show ?case
  proof (cases "cp = 0")
    case True
    have "s = acc \<or> s = acc @ [0]" "n = length acc"
      using "1.prems" p d True by (subst (asm) mbs_loop.simps, auto split: if_splits)+
    then show ?thesis using e True by (intro exI [of _ "[]"] exI [of _ "drop used p"]) (simp add: encode_0)
  next
    case False
    then have c: "\<not> (True \<and> cap \<le> length acc)" and
      r: "mbs_loop True cap (drop used p) (pos + used) (acc @ [cp]) = \<lparr>answer = Inr n, stored = s, src_ptr = Null\<rparr>"
      using "1.prems" p d by (subst (asm) mbs_loop.simps, auto split: if_splits)+
    from "1.hyps" [OF p d False c r] obtain ws t where
      "encodable ws" "drop used p = utf8 ws @ 0 # t" "n = length (acc @ [cp]) + length ws" "s = (acc @ [cp]) @ ws \<or> s = (acc @ [cp]) @ ws @ [0]"
      by blast
    then show ?thesis using e False by (intro exI [of _ "cp # ws"] exI [of _ t]) auto
  qed
qed

text \<open>
  With a full destination the code reads one more character before it stops, so a malformed byte
  behind the last character that fits is an error, where the destination is just full.
\<close>

lemma mbs_reads_past_full:
  "nx_mbsnrtowcs True (Some [0x61, 0xff]) 2 1 = \<lparr>answer = Inl EILSEQ, stored = [0x61], src_ptr = Kept\<rparr>"
  by (simp add: nx_mbsnrtowcs_def mbs_loop.simps nx_utf8_decode_def)

text \<open>
  C16. The conversions between wide strings and UTF-8 undo each other.  Let \<open>ws\<close> be a wide string
  without zeros, surrogates or values past U+10FFFF, and let the buffers hold it with its
  terminator.  Then the conversion to UTF-8 stores its encoding and a zero, the conversion back
  stores \<open>ws\<close> and a zero, and both answer the length without the zero and a null pointer for the
  rest.  And of all byte strings only that encoding is converted to \<open>ws\<close>: overlong forms, encoded
  surrogates and values past the last code point are refused.
\<close>

theorem wide_roundtrip:
  assumes "encodable ws" and "length ws < nwc" "length (utf8 ws) < cap" and "length (utf8 ws) < nms" "length ws < len"
  shows "nx_wcsnrtombs True (Some (ws @ 0 # r)) nwc cap = \<lparr>answer = Inr (length (utf8 ws)), stored = utf8 ws @ [0], src_ptr = Null\<rparr>
    \<and> nx_mbsnrtowcs True (Some (utf8 ws @ 0 # q)) nms len = \<lparr>answer = Inr (length ws), stored = ws @ [0], src_ptr = Null\<rparr>
    \<and> (\<forall>p. nx_mbsnrtowcs True (Some p) nms len = \<lparr>answer = Inr (length ws), stored = ws @ [0], src_ptr = Null\<rparr> \<longrightarrow>
         take (Suc (length (utf8 ws))) p = utf8 ws @ [0])"
proof (intro conjI allI impI)
  have "take nwc (ws @ 0 # r) = ws @ 0 # take (nwc - length ws - 1) r" using assms(2) by (simp add: take_Cons')
  then show "nx_wcsnrtombs True (Some (ws @ 0 # r)) nwc cap = \<lparr>answer = Inr (length (utf8 ws)), stored = utf8 ws @ [0], src_ptr = Null\<rparr>"
    using wcs_loop_runs [of ws "[]" cap _ 0] assms by (simp add: nx_wcsnrtombs_def)
  have "take nms (utf8 ws @ 0 # q) = utf8 ws @ 0 # take (nms - length (utf8 ws) - 1) q" using assms(4) by (simp add: take_Cons')
  then show "nx_mbsnrtowcs True (Some (utf8 ws @ 0 # q)) nms len = \<lparr>answer = Inr (length ws), stored = ws @ [0], src_ptr = Null\<rparr>"
    using mbs_loop_runs [of ws "[]" len _ 0] assms by (simp add: nx_mbsnrtowcs_def)
next
  fix p
  assume "nx_mbsnrtowcs True (Some p) nms len = \<lparr>answer = Inr (length ws), stored = ws @ [0], src_ptr = Null\<rparr>"
  then have "mbs_loop True len (take nms p) 0 [] = \<lparr>answer = Inr (length ws), stored = ws @ [0], src_ptr = Null\<rparr>"
    by (simp add: nx_mbsnrtowcs_def)
  from mbs_loop_canonical [OF this] obtain vs t where
    v: "take nms p = utf8 vs @ 0 # t" "length ws = length vs" "ws @ [0] = vs \<or> ws @ [0] = vs @ [0]" by auto
  then have "vs = ws" by auto
  then have "take (Suc (length (utf8 ws))) (take nms p) = utf8 ws @ [0]" using v(1) by (simp add: take_Cons')
  then show "take (Suc (length (utf8 ws))) p = utf8 ws @ [0]" using assms(4) by (simp add: min_def)
qed

theorem wide_roundtrip_witness:
  "nx_wcsnrtombs True (Some ([0x41, 0xe9, 0x20ac, 0x1f426] @ 0 # [7])) 6 12 =
     \<lparr>answer = Inr 10, stored = [0x41, 0xc3, 0xa9, 0xe2, 0x82, 0xac, 0xf0, 0x9f, 0x90, 0xa6, 0], src_ptr = Null\<rparr>"
proof -
  have u: "utf8 [0x41, 0xe9, 0x20ac, 0x1f426] = [0x41, 0xc3, 0xa9, 0xe2, 0x82, 0xac, 0xf0, 0x9f, 0x90, 0xa6]"
    by (simp add: nx_utf8_encode_def)
  have "encodable [0x41, 0xe9, 0x20ac, 0x1f426]" by (simp add: nx_utf8_encode_def)
  from wide_roundtrip [OF this, of 6 12 11 5 "[7]", unfolded u] show ?thesis by simp
qed

end
