(* ===== verification/JniHeap.thy ===== *)
theory JniHeap
  imports Prelude
begin

text \<open>
  The Java side of the program, as far as native code sees it (\<^verbatim>\<open>source/jni_fake.c\<close>): a heap of fake
  objects with a kind, a class name, a name, a signature and data, and the entry points of the JNI
  table that create and read them.  A reference is the address of an object; \<open>as_obj\<close> tells an
  object from null and from addresses that are none.  Strings of C are \<open>string\<close>s, floats are
  their bit patterns, which the code only copies.

  Memory comes from \<open>pool\<close>, the answers of the coming calls of the allocator (\<open>None\<close>: no memory).
  An access through a null pointer, or to memory of the wrong type, is the outcome \<open>None\<close>.
\<close>

section \<open>Objects\<close>

datatype fk = FK_CLASS | FK_OBJECT | FK_STRING | FK_METHOD | FK_FIELD | FK_DIRECT | FK_ARRAY | FK_MOTION

record fake_motion =
  mo_action :: u32
  mo_x :: u32
  mo_y :: u32
  mo_pressure :: u32
  mo_size :: u32
  mo_source :: u32
  mo_button :: u32
  mo_meta :: u32
  mo_down :: u64
  mo_event :: u64

definition no_motion :: fake_motion where
  "no_motion = \<lparr>mo_action = 0, mo_x = 0, mo_y = 0, mo_pressure = 0, mo_size = 0, mo_source = 0, mo_button = 0,
     mo_meta = 0, mo_down = 0, mo_event = 0\<rparr>"

text \<open>What \<^verbatim>\<open>data\<close> points to: nothing, memory of the guest, a block of bytes, or a block of references.\<close>

datatype payload = NoData | Guest u64 | Block "byte list" | Refs "u64 list"

record fake_obj =
  kind :: fk
  cls :: "string option"
  oname :: "string option"
  osig :: "string option"
  payload :: payload
  osize :: u64
  motion :: fake_motion

text \<open>
  The state: the objects, the table \<^verbatim>\<open>g_objs\<close>, the memory still to be handed out, the request to
  quit, the activity, the one motion event that is reused, and the ring of cloned events.
\<close>

record jni =
  objs :: "u64 \<rightharpoonup> fake_obj"
  listed :: "u64 list"
  pool :: "u64 option list"
  quit_requested :: bool
  context_obj :: u64
  motion_obj :: u64
  clones :: "u64 list"
  next_slot :: u32

definition MAX_FAKE :: nat where "MAX_FAKE = 4096"
definition MOTION_CLONE_SLOTS :: u32 where "MOTION_CLONE_SLOTS = 8"

definition as_obj :: "jni \<Rightarrow> u64 \<Rightarrow> fake_obj option" where
  "as_obj j p = (if p = 0 then None else objs j p)"

definition alloc :: "jni \<Rightarrow> u64 option \<times> jni" where
  "alloc j = (case pool j of [] \<Rightarrow> (None, j) | m # ms \<Rightarrow> (m, j\<lparr>pool := ms\<rparr>))"

definition xstrdup :: "string option \<Rightarrow> jni \<Rightarrow> string option \<times> jni" where
  "xstrdup s j = (case alloc j of (m, j') \<Rightarrow> (if m = None then None else Some (case s of None \<Rightarrow> [] | Some t \<Rightarrow> t), j'))"

text \<open>The copies \<^verbatim>\<open>s ? xstrdup(s) : NULL\<close> of \<^verbatim>\<open>obj_new\<close>.\<close>

definition dup_opt :: "string option \<Rightarrow> jni \<Rightarrow> string option \<times> jni" where
  "dup_opt s j = (if s = None then (None, j) else xstrdup s j)"

definition obj_new :: "fk \<Rightarrow> string option \<Rightarrow> string option \<Rightarrow> string option \<Rightarrow> jni \<Rightarrow> u64 \<times> jni" where
  "obj_new k c n s j =
     (case alloc j of
        (None, j0) \<Rightarrow> (0, j0)
      | (Some p, j0) \<Rightarrow>
          (case dup_opt c j0 of (c', j1) \<Rightarrow>
           case dup_opt n j1 of (n', j2) \<Rightarrow>
           case dup_opt s j2 of (s', j3) \<Rightarrow>
             (p, j3\<lparr>objs := (objs j3)(p \<mapsto> \<lparr>kind = k, cls = c', oname = n', osig = s', payload = NoData, osize = 0, motion = no_motion\<rparr>),
                    listed := (if length (listed j3) < MAX_FAKE then listed j3 @ [p] else listed j3)\<rparr>)))"

definition make_object :: "string option \<Rightarrow> jni \<Rightarrow> u64 \<times> jni" where
  "make_object c j = obj_new FK_OBJECT c None None j"

definition make_class :: "string \<Rightarrow> jni \<Rightarrow> u64 \<times> jni" where
  "make_class c j = obj_new FK_CLASS (Some c) (Some c) None j"

definition class_name :: "jni \<Rightarrow> u64 \<Rightarrow> string" where
  "class_name j p = (case as_obj j p of Some o' \<Rightarrow> (case cls o' of Some c \<Rightarrow> c | None \<Rightarrow> ''java/lang/Object'') | None \<Rightarrow> ''java/lang/Object'')"

definition jni_new_string :: "string option \<Rightarrow> jni \<Rightarrow> u64 \<times> jni" where
  "jni_new_string s j = obj_new FK_STRING (Some ''java/lang/String'') (Some (case s of None \<Rightarrow> [] | Some t \<Rightarrow> t)) None j"

definition jni_string_utf8 :: "jni \<Rightarrow> u64 \<Rightarrow> string" where
  "jni_string_utf8 j p =
     (case as_obj j p of
        Some o' \<Rightarrow> (if kind o' = FK_STRING then (case oname o' of Some n \<Rightarrow> n | None \<Rightarrow> []) else [])
      | None \<Rightarrow> [])"

text \<open>An update of the object behind a reference.\<close>

definition put_obj :: "u64 \<Rightarrow> fake_obj \<Rightarrow> jni \<Rightarrow> jni" where
  "put_obj p o' j = j\<lparr>objs := (objs j)(p \<mapsto> o')\<rparr>"

definition jni_new_direct_buffer :: "u64 \<Rightarrow> u64 \<Rightarrow> jni \<Rightarrow> u64 \<times> jni" where
  "jni_new_direct_buffer ptr cap j =
     (case obj_new FK_DIRECT (Some ''java/nio/DirectByteBuffer'') None None j of (p, j') \<Rightarrow>
        (case as_obj j' p of None \<Rightarrow> (p, j') | Some o' \<Rightarrow> (p, put_obj p (o'\<lparr>payload := Guest ptr, osize := cap\<rparr>) j')))"

text \<open>One object serves all events handed to the player; a null event leaves it as it was.\<close>

definition jni_make_motion_event :: "fake_motion option \<Rightarrow> jni \<Rightarrow> u64 \<times> jni" where
  "jni_make_motion_event ev j =
     (case (if motion_obj j = 0
            then (case obj_new FK_MOTION (Some ''android/view/MotionEvent'') None None j of (p, j') \<Rightarrow> j'\<lparr>motion_obj := p\<rparr>)
            else j) of j1 \<Rightarrow>
        (motion_obj j1,
         case (as_obj j1 (motion_obj j1), ev) of
           (Some o', Some e) \<Rightarrow> put_obj (motion_obj j1) (o'\<lparr>motion := e\<rparr>) j1
         | _ \<Rightarrow> j1))"

definition jni_request_quit :: "jni \<Rightarrow> jni" where
  "jni_request_quit j = j\<lparr>quit_requested := True\<rparr>"

section \<open>The length of a string in UTF-16 units\<close>

definition byte_of :: "char \<Rightarrow> byte" where "byte_of c = of_nat (of_char c)"

function utf16_units :: "byte list \<Rightarrow> nat \<Rightarrow> nat" where
  "utf16_units p units =
     (if p = [] then units
      else let c = p ! 0; tail = (\<lambda>i. i < length p \<and> p ! i AND 0xc0 = 0x80);
               (n, u) = (if c < 0x80 then (1, 1)
                         else if c AND 0xe0 = 0xc0 \<and> tail 1 then (2, 1)
                         else if c AND 0xf0 = 0xe0 \<and> tail 1 \<and> tail 2 then (3, 1)
                         else if c AND 0xf8 = 0xf0 \<and> tail 1 \<and> tail 2 \<and> tail 3 then (4, 2)
                         else (1, 1))
           in if 0x7fffffff < units + u then 0x7fffffff
              else utf16_units (drop n p) (units + u))"
  by pat_completeness auto
termination by (relation "measure (\<lambda>(p, units). length p)") (auto split: if_splits)

declare utf16_units.simps [simp del]

definition utf16_length_utf8 :: "string option \<Rightarrow> u32" where
  "utf16_length_utf8 s = of_nat (utf16_units (map byte_of (case s of None \<Rightarrow> [] | Some t \<Rightarrow> t)) 0)"

end
