(* ===== verification/JniCalls.thy ===== *)
theory JniCalls
  imports JniHeap Paths
begin

text \<open>
  The entry points of the JNI table that answer calls of methods and reads of fields: chains of
  comparisons on the name of the method.  The forms with dots, with a \<^verbatim>\<open>va_list\<close> and with an array
  of arguments are told apart by \<open>form\<close>; an argument list of the array form may be null.
\<close>

section \<open>What the rest of the program supplies\<close>

text \<open>The values of the parsed manifest (\<^verbatim>\<open>installer.c\<close>) and the size of the window (\<^verbatim>\<open>android_ndk.c\<close>).\<close>

record jni_host =
  h_package :: "string option"
  h_version :: "string option"
  h_version_code :: u32
  h_min_sdk :: u32
  h_target_sdk :: u32
  h_width :: u32
  h_height :: u32

definition DEFAULT_PACKAGE :: string where "DEFAULT_PACKAGE = ''com.dripmissouri.refreshed''"
definition ANDROID_CACHE_DIR :: string where "ANDROID_CACHE_DIR = ANDROID_DATA_DIR @ ''/cache''"

section \<open>Method identifiers\<close>

definition mid_name :: "fake_obj option \<Rightarrow> string" where
  "mid_name mid = (case mid of Some o' \<Rightarrow> (case oname o' of Some n \<Rightarrow> n | None \<Rightarrow> []) | None \<Rightarrow> [])"

definition mid_class :: "fake_obj option \<Rightarrow> string" where
  "mid_class mid = (case mid of Some o' \<Rightarrow> (case cls o' of Some n \<Rightarrow> n | None \<Rightarrow> []) | None \<Rightarrow> [])"

definition name_of :: "jni \<Rightarrow> u64 \<Rightarrow> string option" where
  "name_of j p = (case as_obj j p of Some o' \<Rightarrow> oname o' | None \<Rightarrow> None)"

text \<open>\<^verbatim>\<open>o&&o->name?o->name:(o&&o->class_name?o->class_name:cls)\<close>.\<close>

definition described :: "jni \<Rightarrow> u64 \<Rightarrow> string \<Rightarrow> string" where
  "described j obj c =
     (case as_obj j obj of
        None \<Rightarrow> c
      | Some o' \<Rightarrow> (case oname o' of Some n \<Rightarrow> n | None \<Rightarrow> (case cls o' of Some c' \<Rightarrow> c' | None \<Rightarrow> c)))"

definition j_FindClass :: "string option \<Rightarrow> jni \<Rightarrow> u64 \<times> jni" where
  "j_FindClass n j = make_class (case n of Some c \<Rightarrow> c | None \<Rightarrow> ''java/lang/Object'') j"

definition j_GetObjectClass :: "u64 \<Rightarrow> jni \<Rightarrow> u64 \<times> jni" where
  "j_GetObjectClass p j = make_class (class_name j p) j"

definition j_GetMethodID :: "u64 \<Rightarrow> string option \<Rightarrow> string option \<Rightarrow> jni \<Rightarrow> u64 \<times> jni" where
  "j_GetMethodID c n s j =
     obj_new FK_METHOD (Some (class_name j c)) (Some (case n of Some x \<Rightarrow> x | None \<Rightarrow> [])) (Some (case s of Some x \<Rightarrow> x | None \<Rightarrow> [])) j"

definition j_GetFieldID :: "u64 \<Rightarrow> string option \<Rightarrow> string option \<Rightarrow> jni \<Rightarrow> u64 \<times> jni" where
  "j_GetFieldID c n s j =
     obj_new FK_FIELD (Some (class_name j c)) (Some (case n of Some x \<Rightarrow> x | None \<Rightarrow> [])) (Some (case s of Some x \<Rightarrow> x | None \<Rightarrow> [])) j"

definition j_IsInstanceOf :: "jni \<Rightarrow> u64 \<Rightarrow> u64 \<Rightarrow> bool" where
  "j_IsInstanceOf j p c =
     (if p = 0 \<or> c = 0 then False
      else case as_obj j p of
        Some o' \<Rightarrow>
          if kind o' = FK_MOTION then
            let target = mid_class (as_obj j c)
            in target = ''android/view/MotionEvent'' \<or> target = ''android/view/InputEvent'' \<or> target = ''java/lang/Object''
          else True
      | None \<Rightarrow> True)"

section \<open>Methods that answer an object\<close>

definition file_obj :: "string \<Rightarrow> jni \<Rightarrow> u64 \<times> jni" where
  "file_obj path j = obj_new FK_OBJECT (Some ''java/io/File'') (Some path) None j"

text \<open>The string an argument list starts with; a null list is the empty string.\<close>

definition arg_string :: "jni \<Rightarrow> u64 option \<Rightarrow> string" where
  "arg_string j args = (case args of Some p \<Rightarrow> jni_string_utf8 j p | None \<Rightarrow> [])"

definition system_service :: "jni \<Rightarrow> u64 option \<Rightarrow> u64 \<times> jni" where
  "system_service j args =
     (if arg_string j args = ''audio'' then make_object (Some ''android/media/AudioManager'') j
      else make_object (Some ''java/lang/Object'') j)"

definition audio_property :: "jni \<Rightarrow> u64 option \<Rightarrow> u64 \<times> jni" where
  "audio_property j args =
     (if arg_string j args = ''android.media.property.OUTPUT_SAMPLE_RATE'' then jni_new_string (Some ''48000'') j
      else if arg_string j args = ''android.media.property.OUTPUT_FRAMES_PER_BUFFER'' then jni_new_string (Some ''1024'') j
      else (0, j))"

definition object_result :: "jni_host \<Rightarrow> u64 \<Rightarrow> fake_obj option \<Rightarrow> u64 option \<Rightarrow> jni \<Rightarrow> u64 \<times> jni" where
  "object_result h obj mid args j =
     (if mid_name mid = ''getApplicationContext'' \<or> mid_name mid = ''getApplication'' \<or> mid_name mid = ''getBaseContext'' then (context_obj j, j)
      else if mid_name mid = ''getPackageName'' then jni_new_string (Some (case h_package h of Some p \<Rightarrow> p | None \<Rightarrow> DEFAULT_PACKAGE)) j
      else if mid_name mid = ''getPackageManager'' then make_object (Some ''android/content/pm/PackageManager'') j
      else if mid_name mid = ''getApplicationInfo'' then make_object (Some ''android/content/pm/ApplicationInfo'') j
      else if mid_name mid = ''getPackageInfo'' then make_object (Some ''android/content/pm/PackageInfo'') j
      else if mid_name mid = ''getPackageCodePath'' \<or> mid_name mid = ''getPackageResourcePath'' \<or> mid_name mid = ''getSourceDir'' then jni_new_string (Some DATA_ROOT) j
      else if mid_name mid = ''getFilesDir'' then file_obj ANDROID_FILES_DIR j
      else if mid_name mid = ''getCacheDir'' then file_obj ANDROID_CACHE_DIR j
      else if mid_name mid = ''getExternalFilesDir'' then file_obj ANDROID_EXTERNAL_FILES_DIR j
      else if mid_name mid = ''getAbsolutePath'' \<or> mid_name mid = ''getCanonicalPath'' \<or> mid_name mid = ''getPath'' then jni_new_string (Some (case name_of j obj of Some p \<Rightarrow> p | None \<Rightarrow> ANDROID_DATA_DIR)) j
      else if mid_name mid = ''getClassLoader'' then make_object (Some ''java/lang/ClassLoader'') j
      else if mid_name mid = ''getAssets'' then make_object (Some ''android/content/res/AssetManager'') j
      else if mid_name mid = ''getResources'' then make_object (Some ''android/content/res/Resources'') j
      else if mid_name mid = ''getDisplayMetrics'' then make_object (Some ''android/util/DisplayMetrics'') j
      else if mid_name mid = ''getSystemService'' then system_service j args
      else if mid_name mid = ''getProperty'' \<and> (mid_class mid = ''android/media/AudioManager'' \<or> class_name j obj = ''android/media/AudioManager'') then audio_property j args
      else if mid_name mid = ''getWindowManager'' then make_object (Some ''android/view/WindowManager'') j
      else if mid_name mid = ''getDefaultDisplay'' \<or> mid_name mid = ''getDisplay'' then make_object (Some ''android/view/Display'') j
      else if mid_name mid = ''getWindow'' then make_object (Some ''android/view/Window'') j
      else if mid_name mid = ''getDecorView'' \<or> mid_name mid = ''getCurrentFocus'' then make_object (Some ''android/view/View'') j
      else if mid_name mid = ''getMainLooper'' \<or> mid_name mid = ''myLooper'' then make_object (Some ''android/os/Looper'') j
      else if mid_name mid = ''getDefault'' then make_object (Some ''java/util/Locale'') j
      else if mid_name mid = ''getLanguage'' then jni_new_string (Some ''en'') j
      else if mid_name mid = ''getCountry'' then jni_new_string (Some ''US'') j
      else if mid_name mid = ''getIntent'' then make_object (Some ''android/content/Intent'') j
      else if mid_name mid = ''getData'' \<or> mid_name mid = ''getExtras'' then (0, j)
      else if mid_name mid = ''toString'' then jni_new_string (Some (described j obj (mid_class mid))) j
      else if mid_name mid = ''getName'' then jni_new_string (Some (mid_class mid)) j
      else if mid_name mid = ''getClass'' then make_class (class_name j obj) j
      else make_object (Some ''java/lang/Object'') j)"

datatype form = Dots | VaList | Array

text \<open>Only two methods have their argument fetched from the variable arguments.\<close>

definition object_call_needs_arg0 :: "fake_obj option \<Rightarrow> bool" where
  "object_call_needs_arg0 mid \<longleftrightarrow> mid_name mid = ''getSystemService'' \<or> mid_name mid = ''getProperty''"

definition j_CallObject :: "form \<Rightarrow> jni_host \<Rightarrow> u64 \<Rightarrow> u64 \<Rightarrow> u64 option \<Rightarrow> jni \<Rightarrow> u64 \<times> jni" where
  "j_CallObject f h obj m args j =
     (let mid = as_obj j m
      in if f = Array then object_result h obj mid args j
         else object_result h obj mid (if object_call_needs_arg0 mid then args else None) j)"

section \<open>Methods that answer a number\<close>

text \<open>Methods of a motion event; \<open>None\<close> when the name is none of them.\<close>

definition motion_int :: "fake_motion \<Rightarrow> string \<Rightarrow> u32 option" where
  "motion_int e n =
     (if n = ''getAction'' \<or> n = ''getActionMasked'' then Some (mo_action e)
      else if n = ''getActionIndex'' then Some 0
      else if n = ''getActionButton'' then Some 0
      else if n = ''getPointerCount'' then Some 1
      else if n = ''getPointerId'' then Some 0
      else if n = ''getToolType'' then Some 1
      else if n = ''getSource'' then Some (mo_source e)
      else if n = ''getButtonState'' then Some (mo_button e)
      else if n = ''getMetaState'' then Some (mo_meta e)
      else if n = ''getDeviceId'' then Some 0
      else if n = ''getDisplayId'' then Some 0
      else if n = ''getFlags'' then Some 0
      else if n = ''getEdgeFlags'' then Some 0
      else if n = ''getClassification'' then Some 0
      else if n = ''getHistorySize'' then Some 0
      else None)"

definition int_result :: "jni_host \<Rightarrow> jni \<Rightarrow> u64 \<Rightarrow> fake_obj option \<Rightarrow> u32" where
  "int_result h j obj mid =
     (let n = mid_name mid; o1 = as_obj j obj;
          other =
            (if n = ''getWidth'' then h_width h
             else if n = ''getHeight'' then h_height h
             else if n = ''getRotation'' then 0
             else if n = ''hashCode'' then ucast (drop_bit 4 obj)
             else case o1 of
               None \<Rightarrow> 0
             | Some o' \<Rightarrow>
                 if n = ''size'' \<and> kind o' = FK_ARRAY then ucast (osize o')
                 else if n = ''length'' \<and> kind o' = FK_ARRAY then ucast (osize o')
                 else if n = ''length'' \<and> kind o' = FK_STRING then utf16_length_utf8 (oname o')
                 else 0)
      in case o1 of
           Some o' \<Rightarrow> (if kind o' = FK_MOTION then (case motion_int (motion o') n of Some v \<Rightarrow> v | None \<Rightarrow> other) else other)
         | None \<Rightarrow> other)"

definition long_result :: "jni \<Rightarrow> u64 \<Rightarrow> fake_obj option \<Rightarrow> u64" where
  "long_result j obj mid =
     (case as_obj j obj of
        Some o' \<Rightarrow>
          if kind o' = FK_MOTION then
            if mid_name mid = ''getEventTime'' then mo_event (motion o')
            else if mid_name mid = ''getDownTime'' then mo_down (motion o')
            else 0
          else 0
      | None \<Rightarrow> 0)"

text \<open>The bit patterns of 0 and 1.\<close>

definition F0 :: u32 where "F0 = 0"
definition F1 :: u32 where "F1 = 0x3f800000"

definition motion_axis_value :: "fake_motion \<Rightarrow> u32 \<Rightarrow> u32" where
  "motion_axis_value e axis =
     (if axis = 0 then mo_x e
      else if axis = 1 then mo_y e
      else if axis = 2 then mo_pressure e
      else if axis = 3 then mo_size e
      else if axis = 4 \<or> axis = 5 \<or> axis = 6 \<or> axis = 7 then mo_size e
      else F0)"

definition float_result :: "jni \<Rightarrow> u64 \<Rightarrow> fake_obj option \<Rightarrow> u32 option \<Rightarrow> u32" where
  "float_result j obj mid args =
     (let n = mid_name mid; other = (if n = ''getDensity'' then F1 else F0)
      in case as_obj j obj of
           None \<Rightarrow> other
         | Some o' \<Rightarrow>
             if kind o' = FK_MOTION then
               if n = ''getX'' \<or> n = ''getRawX'' then mo_x (motion o')
               else if n = ''getY'' \<or> n = ''getRawY'' then mo_y (motion o')
               else if n = ''getPressure'' then mo_pressure (motion o')
               else if n = ''getSize'' then mo_size (motion o')
               else if n = ''getXPrecision'' \<or> n = ''getYPrecision'' then F1
               else if n = ''getAxisValue'' then motion_axis_value (motion o') (case args of Some a \<Rightarrow> a | None \<Rightarrow> 0)
               else other
             else other)"

definition j_CallFloat :: "form \<Rightarrow> jni \<Rightarrow> u64 \<Rightarrow> u64 \<Rightarrow> u32 option \<Rightarrow> u32" where
  "j_CallFloat f j obj m args =
     (let mid = as_obj j m
      in if f = Array then float_result j obj mid args
         else float_result j obj mid (if mid_name mid = ''getAxisValue'' then args else None))"

definition j_CallInt :: "jni_host \<Rightarrow> jni \<Rightarrow> u64 \<Rightarrow> u64 \<Rightarrow> u32" where
  "j_CallInt h j obj m = int_result h j obj (as_obj j m)"

definition j_CallLong :: "jni \<Rightarrow> u64 \<Rightarrow> u64 \<Rightarrow> u64" where
  "j_CallLong j obj m = long_result j obj (as_obj j m)"

text \<open>The table has the form with dots only; the slots of the other two forms hold a stub that does nothing.\<close>

definition j_CallVoid :: "form \<Rightarrow> u64 \<Rightarrow> jni \<Rightarrow> jni" where
  "j_CallVoid f m j =
     (if f = Dots then
        (if mid_name (as_obj j m) = ''finish'' \<or> mid_name (as_obj j m) = ''quit'' then jni_request_quit j else j)
      else j)"

end
