(* ===== verification/JniArrays.thy ===== *)
theory JniArrays
  imports JniCalls
begin

text \<open>
  The rest of the JNI table (\<^verbatim>\<open>source/jni_fake.c\<close>): constructors, static methods, fields, strings,
  arrays and direct buffers.
\<close>

section \<open>Constructors\<close>

definition constructed_class :: "jni \<Rightarrow> u64 \<Rightarrow> string" where
  "constructed_class j c = (case as_obj j c of Some o' \<Rightarrow> (case cls o' of Some n \<Rightarrow> n | None \<Rightarrow> ''java/lang/Object'') | None \<Rightarrow> ''java/lang/Object'')"

text \<open>\<^verbatim>\<open>fo->name=xstrdup(jni_string_utf8(s))\<close>: without memory for the object, \<^verbatim>\<open>fo\<close> is the null pointer.\<close>

definition name_file :: "u64 \<Rightarrow> u64 \<Rightarrow> jni \<Rightarrow> (u64 \<times> jni) option" where
  "name_file p s j =
     (case as_obj j p of
        None \<Rightarrow> None
      | Some _ \<Rightarrow>
          (case xstrdup (Some (jni_string_utf8 j s)) j of (n, j') \<Rightarrow>
             (case as_obj j' p of None \<Rightarrow> None | Some o' \<Rightarrow> Some (p, put_obj p (o'\<lparr>oname := n\<rparr>) j'))))"

definition j_NewObject :: "form \<Rightarrow> u64 \<Rightarrow> u64 \<Rightarrow> u64 option \<Rightarrow> jni \<Rightarrow> (u64 \<times> jni) option" where
  "j_NewObject f c m args j =
     (case make_object (Some (constructed_class j c)) j of (p, j') \<Rightarrow>
        if mid_class (as_obj j c) = ''java/io/File'' \<and>
           (case f of Dots \<Rightarrow> mid_name (as_obj j m) = ''<init>'' | VaList \<Rightarrow> True | Array \<Rightarrow> args \<noteq> None)
        then name_file p (case args of Some s \<Rightarrow> s | None \<Rightarrow> 0) j'
        else Some (p, j'))"

section \<open>Static methods\<close>

definition j_class_for_name :: "u64 \<Rightarrow> jni \<Rightarrow> u64 \<times> jni" where
  "j_class_for_name p j =
     (let src = jni_string_utf8 j p
      in if src = [] then make_class ''java/lang/Object'' j
         else case alloc j of
           (None, j') \<Rightarrow> make_class ''java/lang/Object'' j'
         | (Some _, j') \<Rightarrow> make_class (map (\<lambda>c. if c = CHR ''.'' then CHR ''/'' else c) src) j')"

definition motion_event_obtain_clone :: "u64 \<Rightarrow> jni \<Rightarrow> u64 \<times> jni" where
  "motion_event_obtain_clone p j =
     (case as_obj j p of
        None \<Rightarrow> (0, j)
      | Some src \<Rightarrow>
          if kind src \<noteq> FK_MOTION then (0, j)
          else
            let slot = unat (next_slot j mod MOTION_CLONE_SLOTS); j0 = j\<lparr>next_slot := next_slot j + 1\<rparr>;
                j1 = (if clones j0 ! slot = 0
                      then (case obj_new FK_MOTION (Some ''android/view/MotionEvent'') None None j0 of (q, j') \<Rightarrow> j'\<lparr>clones := (clones j')[slot := q]\<rparr>)
                      else j0);
                dst = clones j1 ! slot
            in case as_obj j1 dst of
                 None \<Rightarrow> (0, j1)
               | Some o' \<Rightarrow> (dst, put_obj dst (o'\<lparr>motion := motion src\<rparr>) j1))"

definition j_is_class_for_name :: "fake_obj option \<Rightarrow> bool" where
  "j_is_class_for_name mid \<longleftrightarrow> mid_name mid = ''forName''"

definition j_is_motion_obtain :: "fake_obj option \<Rightarrow> bool" where
  "j_is_motion_obtain mid \<longleftrightarrow>
     mid_name mid = ''obtain'' \<and>
     (mid_class mid = ''android/view/MotionEvent'' \<or>
      (case mid of Some o' \<Rightarrow> osig o' = Some ''(Landroid/view/MotionEvent;)Landroid/view/MotionEvent;'' | None \<Rightarrow> False))"

definition j_CallStaticObject :: "form \<Rightarrow> jni_host \<Rightarrow> u64 \<Rightarrow> u64 \<Rightarrow> u64 option \<Rightarrow> jni \<Rightarrow> u64 \<times> jni" where
  "j_CallStaticObject f h c m args j =
     (let mid = as_obj j m; arg0 = (case args of Some p \<Rightarrow> p | None \<Rightarrow> 0)
      in if j_is_class_for_name mid then j_class_for_name arg0 j
         else if j_is_motion_obtain mid then motion_event_obtain_clone arg0 j
         else object_result h c mid (if f = Array then args else None) j)"

section \<open>Fields\<close>

definition j_GetObjectField :: "jni_host \<Rightarrow> u64 \<Rightarrow> jni \<Rightarrow> u64 \<times> jni" where
  "j_GetObjectField h f j =
     (let fid = as_obj j f; n = mid_name fid
      in if n = ''currentActivity'' then (context_obj j, j)
         else if n = ''dataDir'' then jni_new_string (Some ANDROID_DATA_DIR) j
         else if n = ''sourceDir'' \<or> n = ''publicSourceDir'' \<or> n = ''nativeLibraryDir'' then jni_new_string (Some DATA_ROOT) j
         else if n = ''versionName'' then (case h_version h of Some v \<Rightarrow> jni_new_string (Some v) j | None \<Rightarrow> (0, j))
         else make_object (Some (case fid of Some o' \<Rightarrow> (case osig o' of Some s \<Rightarrow> s | None \<Rightarrow> ''java/lang/Object'') | None \<Rightarrow> ''java/lang/Object'')) j)"

definition nonneg :: "u32 \<Rightarrow> u32" where
  "nonneg v = (if 0 \<le>s v then v else 0)"

definition j_GetIntField :: "jni_host \<Rightarrow> u64 \<Rightarrow> jni \<Rightarrow> u32" where
  "j_GetIntField h f j =
     (let n = mid_name (as_obj j f)
      in if n = ''widthPixels'' then h_width h
         else if n = ''heightPixels'' then h_height h
         else if n = ''densityDpi'' then 160
         else if n = ''versionCode'' then nonneg (h_version_code h)
         else if n = ''minSdkVersion'' then nonneg (h_min_sdk h)
         else if n = ''targetSdkVersion'' then nonneg (h_target_sdk h)
         else 0)"

definition j_GetFloatField :: "u64 \<Rightarrow> jni \<Rightarrow> u32" where
  "j_GetFloatField f j = (if mid_name (as_obj j f) = ''density'' then F1 else F0)"

definition j_GetStaticObjectField :: "u64 \<Rightarrow> jni \<Rightarrow> u64 \<times> jni" where
  "j_GetStaticObjectField f j =
     (let n = mid_name (as_obj j f)
      in if n = ''currentActivity'' then (context_obj j, j)
         else if n = ''MANUFACTURER'' then jni_new_string (Some ''Nintendo'') j
         else if n = ''MODEL'' \<or> n = ''DEVICE'' then jni_new_string (Some ''Nintendo Switch'') j
         else if n = ''PRODUCT'' then jni_new_string (Some ''nx'') j
         else if n = ''AUDIO_SERVICE'' then jni_new_string (Some ''audio'') j
         else if n = ''PROPERTY_OUTPUT_SAMPLE_RATE'' then jni_new_string (Some ''android.media.property.OUTPUT_SAMPLE_RATE'') j
         else if n = ''PROPERTY_OUTPUT_FRAMES_PER_BUFFER'' then jni_new_string (Some ''android.media.property.OUTPUT_FRAMES_PER_BUFFER'') j
         else make_object (Some ''java/lang/Object'') j)"

definition j_GetStaticIntField :: "u64 \<Rightarrow> jni \<Rightarrow> u32" where
  "j_GetStaticIntField f j = (if mid_name (as_obj j f) = ''SDK_INT'' then 35 else 0)"

section \<open>Strings\<close>

definition j_NewString :: "u16 list option \<Rightarrow> u32 \<Rightarrow> jni \<Rightarrow> u64 \<times> jni" where
  "j_NewString u n j =
     (case u of
        None \<Rightarrow> jni_new_string (Some []) j
      | Some us \<Rightarrow>
          if n \<le>s 0 then jni_new_string (Some []) j
          else case alloc j of
            (None, j') \<Rightarrow> (0, j')
          | (Some _, j') \<Rightarrow>
              jni_new_string (Some (takeWhile (\<lambda>c. c \<noteq> CHR 0x00)
                (map (\<lambda>x. if x < 128 then char_of (unat x) else CHR ''?'') (take (unat n) us)))) j')"

definition j_GetStringLength :: "u64 \<Rightarrow> jni \<Rightarrow> u32" where
  "j_GetStringLength p j = utf16_length_utf8 (Some (jni_string_utf8 j p))"

text \<open>The characters are copied to memory of their own, which a failed allocation replaces by the null pointer.\<close>

definition j_GetStringChars :: "u64 \<Rightarrow> jni \<Rightarrow> u16 list option \<times> jni" where
  "j_GetStringChars p j =
     (case alloc j of (m, j') \<Rightarrow>
        (if m = None then None else Some (map (\<lambda>c. of_nat (of_char c)) (jni_string_utf8 j p) @ [0]), j'))"

definition j_GetStringUTFLength :: "u64 \<Rightarrow> jni \<Rightarrow> u32" where
  "j_GetStringUTFLength p j = j_GetStringLength p j"

section \<open>Arrays and direct buffers\<close>

text \<open>
  The data of an array come from \<^verbatim>\<open>calloc\<close>, which also fails when the product of its arguments is more
  than the largest size of an object (\<^verbatim>\<open>PTRDIFF_MAX\<close>); an array without data keeps its size.
\<close>

definition calloc_block :: "nat \<Rightarrow> nat \<Rightarrow> jni \<Rightarrow> nat option \<times> jni" where
  "calloc_block count elem j =
     (case alloc j of (m, j') \<Rightarrow> (if m \<noteq> None \<and> count * elem < 2 ^ 63 then Some (count * elem) else None, j'))"

definition array_new :: "u64 \<Rightarrow> nat \<Rightarrow> string \<Rightarrow> jni \<Rightarrow> u64 \<times> jni" where
  "array_new count elem c j =
     (case obj_new FK_ARRAY (Some c) None None j of (p, j1) \<Rightarrow>
        case as_obj j1 p of
          None \<Rightarrow> (0, j1)
        | Some o' \<Rightarrow>
            (case calloc_block (if count = 0 then 1 else unat count) elem j1 of (b, j2) \<Rightarrow>
               (p, put_obj p (o'\<lparr>osize := count,
                     payload := (case b of Some n \<Rightarrow> Block (replicate n 0) | None \<Rightarrow> NoData)\<rparr>) j2)))"

definition elem_bytes :: "string \<Rightarrow> nat option" where
  "elem_bytes c =
     (if c = ''[Z'' \<or> c = ''[B'' then Some 1
      else if c = ''[C'' \<or> c = ''[S'' then Some 2
      else if c = ''[I'' \<or> c = ''[F'' then Some 4
      else if c = ''[J'' \<or> c = ''[D'' then Some 8
      else None)"

definition j_NewArray :: "string \<Rightarrow> u32 \<Rightarrow> jni \<Rightarrow> u64 \<times> jni" where
  "j_NewArray c n j = (case elem_bytes c of Some e \<Rightarrow> array_new (scast n) e c j | None \<Rightarrow> (0, j))"

text \<open>An array of objects: the block of pointers is zero, then the first \<open>n\<close> are set.\<close>

definition j_NewObjectArray :: "u32 \<Rightarrow> u64 \<Rightarrow> jni \<Rightarrow> (u64 \<times> jni) option" where
  "j_NewObjectArray n init j =
     (case array_new (scast n) 8 ''[Ljava/lang/Object;'' j of (p, j') \<Rightarrow>
        case as_obj j' p of
          None \<Rightarrow> Some (0, j')
        | Some o' \<Rightarrow>
            (case payload o' of
               Block bs \<Rightarrow>
                 (let k = (if init \<noteq> 0 \<and> 0 \<le>s n then unat n else 0)
                  in Some (p, put_obj p (o'\<lparr>payload := Refs (replicate k init @ replicate (length bs div 8 - k) 0)\<rparr>) j'))
             | _ \<Rightarrow> (if init \<noteq> 0 \<and> 0 <s n then None else Some (p, j'))))"

definition j_GetArrayLength :: "u64 \<Rightarrow> jni \<Rightarrow> u32" where
  "j_GetArrayLength p j = (case as_obj j p of Some o' \<Rightarrow> (if kind o' = FK_ARRAY then ucast (osize o') else 0) | None \<Rightarrow> 0)"

text \<open>The check of an index, with the conversion of the index to the type of the size.\<close>

definition in_array :: "fake_obj \<Rightarrow> u32 \<Rightarrow> bool" where
  "in_array o' i \<longleftrightarrow> kind o' = FK_ARRAY \<and> 0 \<le>s i \<and> scast i < osize o'"

definition j_GetObjectArrayElement :: "u64 \<Rightarrow> u32 \<Rightarrow> jni \<Rightarrow> u64 option" where
  "j_GetObjectArrayElement p i j =
     (case as_obj j p of
        None \<Rightarrow> Some 0
      | Some o' \<Rightarrow>
          if in_array o' i then (case payload o' of Refs rs \<Rightarrow> if unat i < length rs then Some (rs ! unat i) else None | _ \<Rightarrow> None)
          else Some 0)"

definition j_SetObjectArrayElement :: "u64 \<Rightarrow> u32 \<Rightarrow> u64 \<Rightarrow> jni \<Rightarrow> jni option" where
  "j_SetObjectArrayElement p i v j =
     (case as_obj j p of
        None \<Rightarrow> Some j
      | Some o' \<Rightarrow>
          if in_array o' i then
            (case payload o' of
               Refs rs \<Rightarrow> if unat i < length rs then Some (put_obj p (o'\<lparr>payload := Refs (rs[unat i := v])\<rparr>) j) else None
             | _ \<Rightarrow> None)
          else Some j)"

definition j_GetArrayElements :: "u64 \<Rightarrow> jni \<Rightarrow> payload" where
  "j_GetArrayElements p j = (case as_obj j p of Some o' \<Rightarrow> (if kind o' = FK_ARRAY then payload o' else NoData) | None \<Rightarrow> NoData)"

text \<open>The check of a region; the sum of its bounds is an \<^verbatim>\<open>int\<close>.\<close>

definition in_region :: "fake_obj \<Rightarrow> u32 \<Rightarrow> u32 \<Rightarrow> bool" where
  "in_region o' start len \<longleftrightarrow> payload o' \<noteq> NoData \<and> 0 \<le>s start \<and> 0 \<le>s len \<and> scast (start + len) \<le> osize o'"

text \<open>What a copy reads: nothing, bytes of the array, or memory of the guest behind a direct buffer.\<close>

datatype region = Untouched | Copied "byte list" | GuestMemory u64 nat

definition j_GetByteArrayRegion :: "u64 \<Rightarrow> u32 \<Rightarrow> u32 \<Rightarrow> jni \<Rightarrow> region option" where
  "j_GetByteArrayRegion p start len j =
     (case as_obj j p of
        None \<Rightarrow> Some Untouched
      | Some o' \<Rightarrow>
          if in_region o' start len then
            (case payload o' of
               Block bs \<Rightarrow> if unat start + unat len \<le> length bs then Some (Copied (take (unat len) (drop (unat start) bs))) else None
             | Guest a \<Rightarrow> Some (GuestMemory (a + scast start) (unat len))
             | _ \<Rightarrow> None)
          else Some Untouched)"

definition j_SetByteArrayRegion :: "u64 \<Rightarrow> u32 \<Rightarrow> u32 \<Rightarrow> byte list \<Rightarrow> jni \<Rightarrow> (region \<times> jni) option" where
  "j_SetByteArrayRegion p start len src j =
     (case as_obj j p of
        None \<Rightarrow> Some (Untouched, j)
      | Some o' \<Rightarrow>
          if in_region o' start len then
            (case payload o' of
               Block bs \<Rightarrow>
                 if unat start + unat len \<le> length bs \<and> unat len \<le> length src
                 then Some (Copied (take (unat len) src), put_obj p (o'\<lparr>payload := Block (blit bs (unat start) (take (unat len) src))\<rparr>) j)
                 else None
             | Guest a \<Rightarrow> Some (GuestMemory (a + scast start) (unat len), j)
             | _ \<Rightarrow> None)
          else Some (Untouched, j))"

definition j_NewDirectByteBuffer :: "u64 \<Rightarrow> u64 \<Rightarrow> jni \<Rightarrow> u64 \<times> jni" where
  "j_NewDirectByteBuffer p n j = jni_new_direct_buffer p (if 0 <s n then n else 0) j"

definition j_GetDirectBufferAddress :: "u64 \<Rightarrow> jni \<Rightarrow> u64" where
  "j_GetDirectBufferAddress p j =
     (case as_obj j p of
        Some o' \<Rightarrow> (if kind o' = FK_DIRECT then (case payload o' of Guest a \<Rightarrow> a | _ \<Rightarrow> 0) else 0)
      | None \<Rightarrow> 0)"

definition j_GetDirectBufferCapacity :: "u64 \<Rightarrow> jni \<Rightarrow> u64" where
  "j_GetDirectBufferCapacity p j =
     (case as_obj j p of Some o' \<Rightarrow> (if kind o' = FK_DIRECT then osize o' else - 1) | None \<Rightarrow> - 1)"

section \<open>The start\<close>

definition jni_init :: "jni \<Rightarrow> jni" where
  "jni_init j =
     (case make_object (Some ''android/app/Activity'') (j\<lparr>quit_requested := False\<rparr>) of (p, j1) \<Rightarrow>
      case make_object (Some ''com/unity3d/player/UnityPlayer'') (j1\<lparr>context_obj := p\<rparr>) of (_, j2) \<Rightarrow>
      case make_object (Some ''android/view/Surface'') j2 of (_, j3) \<Rightarrow> j3)"

end
