(* ===== verification/JniTypes.thy ===== *)
theory JniTypes
  imports JniArrays
begin

text \<open>
  The types of the fake Java heap: what a well-typed object is, when a change of the heap keeps
  the objects and their types, and what the methods that answer objects answer.
\<close>

section \<open>Well-typed heaps\<close>

definition array_typed :: "fake_obj \<Rightarrow> bool" where
  "array_typed o' \<longleftrightarrow>
     (case payload o' of
        NoData \<Rightarrow> True
      | Guest a \<Rightarrow> False
      | Block bs \<Rightarrow> \<exists>e \<in> {1, 2, 4, 8}. length bs = e * max 1 (unat (osize o')) \<and> length bs < 2 ^ 63 \<and> (\<forall>c. cls o' = Some c \<longrightarrow> elem_bytes c = Some e)
      | Refs rs \<Rightarrow> length rs = max 1 (unat (osize o')) \<and> (\<forall>c. cls o' = Some c \<longrightarrow> c = ''[Ljava/lang/Object;''))"

definition typed_obj :: "fake_obj \<Rightarrow> bool" where
  "typed_obj o' \<longleftrightarrow>
     (case kind o' of
        FK_ARRAY \<Rightarrow> array_typed o'
      | FK_DIRECT \<Rightarrow> payload o' = NoData \<or> (\<exists>a. payload o' = Guest a)
      | _ \<Rightarrow> payload o' = NoData)"

text \<open>References: null, or the address of an object, or of one of a kind.\<close>

definition valref :: "jni \<Rightarrow> u64 \<Rightarrow> bool" where
  "valref j p \<longleftrightarrow> p = 0 \<or> objs j p \<noteq> None"

definition isref :: "jni \<Rightarrow> fk \<Rightarrow> u64 \<Rightarrow> bool" where
  "isref j k p \<longleftrightarrow> p = 0 \<or> (\<exists>o'. objs j p = Some o' \<and> kind o' = k)"

definition heap_typed :: "jni \<Rightarrow> bool" where
  "heap_typed j \<longleftrightarrow>
     objs j 0 = None \<and>
     (\<forall>p o'. objs j p = Some o' \<longrightarrow> typed_obj o' \<and> (\<forall>rs. payload o' = Refs rs \<longrightarrow> (\<forall>r \<in> set rs. valref j r)))"

definition jni_ok :: "jni \<Rightarrow> bool" where
  "jni_ok j \<longleftrightarrow>
     heap_typed j \<and> isref j FK_OBJECT (context_obj j) \<and> isref j FK_MOTION (motion_obj j) \<and>
     length (clones j) = 8 \<and> (\<forall>p \<in> set (clones j). isref j FK_MOTION p)"

text \<open>Memory that is handed out is not null and not that of a live object (the objects are never freed).\<close>

definition fresh_memory :: "jni \<Rightarrow> bool" where
  "fresh_memory j \<longleftrightarrow> (\<forall>a. Some a \<in> set (pool j) \<longrightarrow> a \<noteq> 0 \<and> objs j a = None)"

text \<open>Objects keep their kind, class, size and the extent of their data.\<close>

fun same_extent :: "payload \<Rightarrow> payload \<Rightarrow> bool" where
  "same_extent (Block bs) (Block bs') = (length bs = length bs')"
| "same_extent (Refs rs) (Refs rs') = (length rs = length rs')"
| "same_extent x y = (x = y)"

definition keeps_objs :: "jni \<Rightarrow> jni \<Rightarrow> bool" where
  "keeps_objs j j' \<longleftrightarrow>
     (\<forall>p o'. objs j p = Some o' \<longrightarrow>
        (\<exists>o2. objs j' p = Some o2 \<and> kind o2 = kind o' \<and> cls o2 = cls o' \<and> osize o2 = osize o' \<and> same_extent (payload o') (payload o2)))"

lemma same_extent_refl [simp]: "same_extent x x"
  by (cases x) auto

lemma keeps_objs_refl [simp]: "keeps_objs j j"
  by (simp add: keeps_objs_def)

lemma same_extent_trans: "same_extent x y \<Longrightarrow> same_extent y z \<Longrightarrow> same_extent x z"
  by (cases x; cases y; cases z) auto

lemma keeps_objs_trans:
  assumes a: "keeps_objs j1 j2" and b: "keeps_objs j2 j3"
  shows "keeps_objs j1 j3"
  unfolding keeps_objs_def
proof (intro allI impI)
  fix p o'
  assume "objs j1 p = Some o'"
  then obtain o2 where 2: "objs j2 p = Some o2" "kind o2 = kind o'" "cls o2 = cls o'" "osize o2 = osize o'" "same_extent (payload o') (payload o2)"
    using a unfolding keeps_objs_def by blast
  then obtain o3 where "objs j3 p = Some o3" "kind o3 = kind o2" "cls o3 = cls o2" "osize o3 = osize o2" "same_extent (payload o2) (payload o3)"
    using b unfolding keeps_objs_def by blast
  then show "\<exists>o3. objs j3 p = Some o3 \<and> kind o3 = kind o' \<and> cls o3 = cls o' \<and> osize o3 = osize o' \<and> same_extent (payload o') (payload o3)"
    using 2 same_extent_trans by auto
qed

lemma keeps_objs_valref: "keeps_objs j j' \<Longrightarrow> valref j p \<Longrightarrow> valref j' p"
  by (fastforce simp: keeps_objs_def valref_def)

lemma keeps_objs_isref: "keeps_objs j j' \<Longrightarrow> isref j k p \<Longrightarrow> isref j' k p"
  by (fastforce simp: keeps_objs_def isref_def)

lemma isref_valref: "isref j k p \<Longrightarrow> valref j p"
  by (auto simp: isref_def valref_def)

lemma isref_0 [simp]: "isref j k 0" "valref j 0"
  by (simp_all add: isref_def valref_def)

text \<open>
  Only the objects and the roots matter for the invariant; it follows a change of the heap that
  keeps the objects and leaves every changed object well typed.
\<close>

lemma jni_ok_keeps:
  assumes j: "jni_ok j" and k: "keeps_objs j j'"
    and new: "\<And>p o'. objs j' p = Some o' \<Longrightarrow> objs j p = Some o' \<or>
      p \<noteq> 0 \<and> typed_obj o' \<and> (\<forall>rs. payload o' = Refs rs \<longrightarrow> (\<forall>r \<in> set rs. valref j' r))"
    and roots: "isref j' FK_OBJECT (context_obj j')" "isref j' FK_MOTION (motion_obj j')"
      "length (clones j') = 8" "\<forall>p \<in> set (clones j'). isref j' FK_MOTION p"
  shows "jni_ok j'"
proof -
  have h: "heap_typed j" using j by (simp add: jni_ok_def)
  have "objs j' 0 = None"
  proof (rule ccontr)
    assume "objs j' 0 \<noteq> None"
    then obtain o' where "objs j' 0 = Some o'" by blast
    from new [OF this] h show False by (auto simp: heap_typed_def)
  qed
  moreover have "typed_obj o' \<and> (\<forall>rs. payload o' = Refs rs \<longrightarrow> (\<forall>r \<in> set rs. valref j' r))" if "objs j' p = Some o'" for p o'
    using new [OF that] h keeps_objs_valref [OF k] unfolding heap_typed_def by blast
  ultimately show ?thesis using roots by (simp add: jni_ok_def heap_typed_def)
qed

lemma roots_keep:
  assumes "jni_ok j" "keeps_objs j j'" "context_obj j' = context_obj j" "motion_obj j' = motion_obj j" "clones j' = clones j"
  shows "isref j' FK_OBJECT (context_obj j')" "isref j' FK_MOTION (motion_obj j')"
      "length (clones j') = 8" "\<forall>p \<in> set (clones j'). isref j' FK_MOTION p"
  using assms keeps_objs_isref [OF assms(2)] by (auto simp: jni_ok_def)

section \<open>Creating objects\<close>

lemma jni_alloc_effect: "alloc j = (m, j') \<Longrightarrow> \<exists>ps. j' = j\<lparr>pool := ps\<rparr> \<and> set ps \<subseteq> set (pool j) \<and> (\<forall>a. m = Some a \<longrightarrow> m \<in> set (pool j))"
  by (cases "pool j") (auto simp: alloc_def intro: exI [of _ "[]"])

lemma xstrdup_effect: "xstrdup s j = (t, j') \<Longrightarrow> \<exists>ps. j' = j\<lparr>pool := ps\<rparr> \<and> set ps \<subseteq> set (pool j)"
  by (cases "alloc j") (auto simp: xstrdup_def dest!: jni_alloc_effect)

lemma dup_opt_effect:
  assumes "dup_opt s j = (t, j')"
  shows "\<exists>ps. j' = j\<lparr>pool := ps\<rparr> \<and> set ps \<subseteq> set (pool j)" "t \<in> {None, s}"
proof -
  show "\<exists>ps. j' = j\<lparr>pool := ps\<rparr> \<and> set ps \<subseteq> set (pool j)"
  proof (cases s)
    case None
    then show ?thesis using assms by (auto simp: dup_opt_def intro!: exI [of _ "pool j"])
  next
    case (Some y)
    then show ?thesis using assms xstrdup_effect by (simp add: dup_opt_def)
  qed
  show "t \<in> {None, s}"
    using assms by (cases "alloc j") (auto simp: dup_opt_def xstrdup_def split: if_splits)
qed

lemma obj_new_cases:
  assumes "obj_new k c n s j = (p, j')"
  obtains (fail) ps where "p = 0" "j' = j\<lparr>pool := ps\<rparr>" "set ps \<subseteq> set (pool j)"
  | (new) ps c' n' s' l where "Some p \<in> set (pool j)" "set ps \<subseteq> set (pool j)" "c' \<in> {None, c}"
      "j' = j\<lparr>objs := (objs j)(p \<mapsto> \<lparr>kind = k, cls = c', oname = n', osig = s', payload = NoData, osize = 0, motion = no_motion\<rparr>),
              listed := l, pool := ps\<rparr>"
proof -
  obtain m j0 where a: "alloc j = (m, j0)" by fastforce
  obtain ps0 where 0: "j0 = j\<lparr>pool := ps0\<rparr>" "set ps0 \<subseteq> set (pool j)" "\<forall>a. m = Some a \<longrightarrow> m \<in> set (pool j)"
    using jni_alloc_effect [OF a] by blast
  show thesis
  proof (cases m)
    case None
    then show thesis using assms a 0 by (intro fail [of ps0]) (auto simp: obj_new_def)
  next
    case (Some q)
    obtain c' j1 where 1: "dup_opt c j0 = (c', j1)" by fastforce
    obtain n' j2 where 2: "dup_opt n j1 = (n', j2)" by fastforce
    obtain s' j3 where 3: "dup_opt s j2 = (s', j3)" by fastforce
    obtain ps1 where e1: "j1 = j0\<lparr>pool := ps1\<rparr>" "set ps1 \<subseteq> set (pool j0)" using dup_opt_effect(1) [OF 1] by blast
    obtain ps2 where e2: "j2 = j1\<lparr>pool := ps2\<rparr>" "set ps2 \<subseteq> set (pool j1)" using dup_opt_effect(1) [OF 2] by blast
    obtain ps3 where e3: "j3 = j2\<lparr>pool := ps3\<rparr>" "set ps3 \<subseteq> set (pool j2)" using dup_opt_effect(1) [OF 3] by blast
    have j3: "j3 = j\<lparr>pool := ps3\<rparr>" using 0 e1 e2 e3 by simp
    have s: "set ps3 \<subseteq> set (pool j)" using 0 e1 e2 e3 by auto
    have "p = q" "j' = j\<lparr>objs := (objs j)(p \<mapsto> \<lparr>kind = k, cls = c', oname = n', osig = s', payload = NoData, osize = 0, motion = no_motion\<rparr>),
        listed := (if length (listed j3) < MAX_FAKE then listed j3 @ [p] else listed j3), pool := ps3\<rparr>"
      using assms a 1 2 3 Some by (auto simp: obj_new_def j3)
    then show thesis using 0(3) Some s dup_opt_effect(2) [OF 1] by (intro new [of ps3 c']) auto
  qed
qed

text \<open>What an entry point does to a good state: it stays good, the objects are kept, and memory stays fresh.\<close>

definition good_step :: "jni \<Rightarrow> jni \<Rightarrow> bool" where
  "good_step j j' \<longleftrightarrow> jni_ok j' \<and> keeps_objs j j'"

lemma pool_change: "jni_ok j \<Longrightarrow> good_step j (j\<lparr>pool := ps\<rparr>)"
  by (simp add: good_step_def jni_ok_def heap_typed_def isref_def valref_def keeps_objs_def)

lemma plain_typed: "typed_obj \<lparr>kind = k, cls = c, oname = n, osig = s, payload = NoData, osize = z, motion = m\<rparr>"
  by (cases k) (simp_all add: typed_obj_def array_typed_def)

lemma add_object:
  assumes j: "jni_ok j" and p: "p \<noteq> 0" "objs j p = None" and t: "typed_obj o'" "\<And>rs r. payload o' = Refs rs \<Longrightarrow> r \<in> set rs \<Longrightarrow> valref j r"
  shows "good_step j (j\<lparr>objs := (objs j)(p \<mapsto> o'), listed := l, pool := ps\<rparr>)"
proof -
  let ?j = "j\<lparr>objs := (objs j)(p \<mapsto> o'), listed := l, pool := ps\<rparr>"
  have k: "keeps_objs j ?j" using p by (auto simp: keeps_objs_def)
  have "jni_ok ?j"
    by (rule jni_ok_keeps [OF j k]) (use p t keeps_objs_valref [OF k] roots_keep [OF j k] in \<open>auto split: if_splits\<close>)
  then show ?thesis using k by (simp add: good_step_def)
qed

lemma obj_new_good:
  assumes "jni_ok j" "fresh_memory j" "obj_new k c n s j = (p, j')"
  shows "good_step j j'" "isref j' k p"
proof -
  from assms(3) have "good_step j j' \<and> isref j' k p"
  proof (cases rule: obj_new_cases)
    case (fail ps)
    then show ?thesis using pool_change [OF assms(1)] by simp
  next
    case (new ps c' n' s' l)
    have "p \<noteq> 0" "objs j p = None" using new(1) assms(2) by (auto simp: fresh_memory_def)
    then show ?thesis using add_object [OF assms(1) _ _ plain_typed] new(4) by (simp add: isref_def)
  qed
  then show "good_step j j'" "isref j' k p" by blast+
qed

section \<open>Types of the answers\<close>

datatype jty = TRef fk | TAny | TVal

datatype jval = JRef u64 | JInt u32 | JLong u64 | JFloat u32 | JBool bool | JChars "u16 list option" | JRegion region | JUnit

fun has_type :: "jni \<Rightarrow> jval \<Rightarrow> jty \<Rightarrow> bool" where
  "has_type j (JRef p) (TRef k) = isref j k p"
| "has_type j (JRef p) TAny = valref j p"
| "has_type j (JRef p) TVal = False"
| "has_type j v ty = (ty = TVal)"

text \<open>An entry point that answers a reference.\<close>

definition answers :: "jni \<Rightarrow> jty \<Rightarrow> u64 \<times> jni \<Rightarrow> bool" where
  "answers j ty r \<longleftrightarrow> good_step j (snd r) \<and> has_type (snd r) (JRef (fst r)) ty"

definition start_ok :: "jni \<Rightarrow> bool" where
  "start_ok j \<longleftrightarrow> jni_ok j \<and> fresh_memory j"

lemma answers_If: "(b \<Longrightarrow> answers j ty x) \<Longrightarrow> (\<not> b \<Longrightarrow> answers j ty y) \<Longrightarrow> answers j ty (if b then x else y)"
  by simp

lemma answers_obj_new: "start_ok j \<Longrightarrow> ty = TRef k \<or> ty = TAny \<Longrightarrow> answers j ty (obj_new k c n s j)"
  using obj_new_good [of j k c n s] isref_valref by (cases "obj_new k c n s j") (auto simp: answers_def start_ok_def)

lemma answers_make_object: "start_ok j \<Longrightarrow> ty = TRef FK_OBJECT \<or> ty = TAny \<Longrightarrow> answers j ty (make_object c j)"
  unfolding make_object_def by (rule answers_obj_new)

lemma answers_make_class: "start_ok j \<Longrightarrow> ty = TRef FK_CLASS \<or> ty = TAny \<Longrightarrow> answers j ty (make_class c j)"
  unfolding make_class_def by (rule answers_obj_new)

lemma answers_new_string: "start_ok j \<Longrightarrow> ty = TRef FK_STRING \<or> ty = TAny \<Longrightarrow> answers j ty (jni_new_string s j)"
  unfolding jni_new_string_def by (rule answers_obj_new)

lemma answers_file_obj: "start_ok j \<Longrightarrow> ty = TRef FK_OBJECT \<or> ty = TAny \<Longrightarrow> answers j ty (file_obj s j)"
  unfolding file_obj_def by (rule answers_obj_new)

lemma good_refl: "jni_ok j \<Longrightarrow> good_step j j"
  by (simp add: good_step_def)

lemma answers_0: "start_ok j \<Longrightarrow> ty \<noteq> TVal \<Longrightarrow> answers j ty (0, j)"
  by (cases ty) (auto simp: answers_def start_ok_def good_refl)

lemma answers_context: "start_ok j \<Longrightarrow> ty = TRef FK_OBJECT \<or> ty = TAny \<Longrightarrow> answers j ty (context_obj j, j)"
  using isref_valref by (auto simp: answers_def start_ok_def good_refl jni_ok_def good_step_def)

lemma alloc_start:
  assumes "start_ok j" "alloc j = (m, j0)"
  shows "start_ok j0" "good_step j j0" "\<exists>ps. j0 = j\<lparr>pool := ps\<rparr>"
proof -
  obtain ps where p: "j0 = j\<lparr>pool := ps\<rparr>" "set ps \<subseteq> set (pool j)" using jni_alloc_effect [OF assms(2)] by blast
  then show "good_step j j0" "\<exists>ps. j0 = j\<lparr>pool := ps\<rparr>" using pool_change assms(1) by (auto simp: start_ok_def)
  then show "start_ok j0" using p assms(1) by (auto simp: start_ok_def good_step_def fresh_memory_def)
qed

lemma good_trans: "good_step j1 j2 \<Longrightarrow> good_step j2 j3 \<Longrightarrow> good_step j1 j3"
  by (auto simp: good_step_def intro: keeps_objs_trans)

lemma answers_after: "good_step j j0 \<Longrightarrow> answers j0 ty r \<Longrightarrow> answers j ty r"
  by (auto simp: answers_def intro: good_trans)

lemmas answers_intros = answers_If answers_make_object answers_make_class answers_new_string answers_file_obj answers_0 answers_context

text \<open>The kind a method or field answers, by its name.\<close>

definition string_methods :: "string list" where
  "string_methods =
     [''getPackageName'', ''getPackageCodePath'', ''getPackageResourcePath'', ''getSourceDir'', ''getAbsolutePath'', ''getCanonicalPath'',
      ''getPath'', ''getLanguage'', ''getCountry'', ''toString'', ''getName'']"

definition method_type :: "string \<Rightarrow> jty" where
  "method_type n =
     (if n \<in> set string_methods then TRef FK_STRING
      else if n = ''getClass'' then TRef FK_CLASS
      else if n = ''getProperty'' then TAny
      else TRef FK_OBJECT)"

lemma answers_If_weak: "(b \<Longrightarrow> answers j ty x) \<Longrightarrow> answers j ty y \<Longrightarrow> answers j ty (if b then x else y)"
  by simp

text \<open>A method whose name is not among those that answer a string or a class answers an object.\<close>

lemma answers_object_result: "start_ok j \<Longrightarrow> answers j (method_type (mid_name mid)) (object_result h obj mid args j)"
proof -
  assume s: "start_ok j"
  show ?thesis
  proof (cases "mid_name mid = ''getClass'' \<or> mid_name mid \<in> set string_methods")
    case True
    then consider "mid_name mid = ''getClass''" | "mid_name mid \<in> set string_methods" by blast
    then show ?thesis
    proof cases
      case 1
      then show ?thesis using s by (simp add: object_result_def method_type_def string_methods_def answers_make_class)
    next
      case 2
      then have "object_result h obj mid args j \<in> range (\<lambda>t. jni_new_string (Some t) j)"
        unfolding string_methods_def set_simps insert_iff empty_iff
        by (elim disjE; simp only: object_result_def list.inject list.distinct char.inject simp_thms if_True if_False; blast)
      moreover have "method_type (mid_name mid) = TRef FK_STRING" using 2 by (simp add: method_type_def)
      ultimately show ?thesis using s answers_new_string by auto
    qed
  next
    case False
    then have t: "method_type (mid_name mid) = TRef FK_OBJECT \<or> method_type (mid_name mid) = TAny" by (simp add: method_type_def)
    then have t0: "method_type (mid_name mid) \<noteq> TVal" by auto
    have p: "method_type ''getProperty'' = TAny" by (simp add: method_type_def string_methods_def)
    have n: "mid_name mid = x \<longleftrightarrow> False" if "x = ''getClass'' \<or> x \<in> set string_methods" for x using False that by blast
    note n' = n [of "''getPackageName''", simplified string_methods_def, simplified] n [of "''getPackageCodePath''", simplified string_methods_def, simplified]
      n [of "''getPackageResourcePath''", simplified string_methods_def, simplified] n [of "''getSourceDir''", simplified string_methods_def, simplified]
      n [of "''getAbsolutePath''", simplified string_methods_def, simplified] n [of "''getCanonicalPath''", simplified string_methods_def, simplified]
      n [of "''getPath''", simplified string_methods_def, simplified] n [of "''getLanguage''", simplified string_methods_def, simplified]
      n [of "''getCountry''", simplified string_methods_def, simplified] n [of "''toString''", simplified string_methods_def, simplified]
      n [of "''getName''", simplified string_methods_def, simplified] n [of "''getClass''", simplified string_methods_def, simplified]
    have a: "answers j (method_type (mid_name mid)) (audio_property j args)" if "mid_name mid = ''getProperty''"
      using s answers_new_string answers_0 by (simp add: that p audio_property_def)
    show ?thesis
      unfolding object_result_def system_service_def
      by (simp only: n' simp_thms if_False)
        (intro answers_If_weak answers_make_object [OF s t] answers_file_obj [OF s t] answers_context [OF s t] answers_0 [OF s t0] a; blast)
  qed
qed

end
