(* ===== verification/JniProps.thy ===== *)
theory JniProps
  imports JniTypes
begin

text \<open>
  Every entry point that creates or changes objects keeps the heap well typed and answers a
  reference of its kind.
\<close>

section \<open>Updates of an object\<close>

lemma put_obj_good:
  assumes j: "jni_ok j" and o: "objs j p = Some o1"
    and s: "kind o2 = kind o1" "cls o2 = cls o1" "osize o2 = osize o1" "same_extent (payload o1) (payload o2)"
    and t: "typed_obj o2" "\<And>rs r. payload o2 = Refs rs \<Longrightarrow> r \<in> set rs \<Longrightarrow> valref j r"
  shows "good_step j (put_obj p o2 j)"
proof -
  have k: "keeps_objs j (put_obj p o2 j)" using o s by (auto simp: keeps_objs_def put_obj_def)
  have p: "p \<noteq> 0" using j o by (auto simp: jni_ok_def heap_typed_def)
  have "jni_ok (put_obj p o2 j)"
    by (rule jni_ok_keeps [OF j k]) (use p t keeps_objs_valref [OF k] roots_keep [OF j k] in \<open>auto simp: put_obj_def split: if_splits\<close>)
  then show ?thesis using k by (simp add: good_step_def)
qed

lemma objs_typed: "jni_ok j \<Longrightarrow> objs j p = Some o' \<Longrightarrow> typed_obj o'"
  by (auto simp: jni_ok_def heap_typed_def)

lemma objs_refs: "jni_ok j \<Longrightarrow> objs j p = Some o' \<Longrightarrow> payload o' = Refs rs \<Longrightarrow> r \<in> set rs \<Longrightarrow> valref j r"
  by (auto simp: jni_ok_def heap_typed_def)

lemma as_obj_SomeD: "as_obj j p = Some o' \<Longrightarrow> objs j p = Some o' \<and> p \<noteq> 0"
  by (auto simp: as_obj_def split: if_splits)

text \<open>Names and motions may change freely.\<close>

lemma typed_update [simp]: "typed_obj (o'\<lparr>motion := m\<rparr>) = typed_obj o'" "typed_obj (o'\<lparr>oname := n\<rparr>) = typed_obj o'"
  by (simp_all add: typed_obj_def array_typed_def split: fk.split payload.split)

lemma put_motion_good:
  assumes "jni_ok j" "as_obj j p = Some o'"
  shows "good_step j (put_obj p (o'\<lparr>motion := m\<rparr>) j)" "good_step j (put_obj p (o'\<lparr>oname := n\<rparr>) j)"
  using as_obj_SomeD [OF assms(2)] objs_typed [OF assms(1)] objs_refs [OF assms(1)]
  by (auto intro!: put_obj_good [OF assms(1)])

section \<open>Buffers, motion events and constructors\<close>

text \<open>A new object that gets its data right away.\<close>

lemma new_then_put:
  assumes s: "start_ok j" and n: "obj_new k c n t j = (p, j1)" and a: "as_obj j1 p = Some o1"
    and ps: "j2 = j1\<lparr>pool := ps\<rparr>"
    and t: "kind o2 = kind o1" "typed_obj o2" "\<And>rs. payload o2 \<noteq> Refs rs"
  shows "good_step j (put_obj p o2 j2)" "isref (put_obj p o2 j2) k p"
proof -
  from n have "good_step j (put_obj p o2 j2) \<and> isref (put_obj p o2 j2) k p"
  proof (cases rule: obj_new_cases)
    case (fail qs)
    then show ?thesis using a by (simp add: as_obj_def)
  next
    case (new qs c' n' s' l)
    have p: "p \<noteq> 0" "objs j p = None" using new(1) s by (auto simp: start_ok_def fresh_memory_def)
    have e: "put_obj p o2 j2 = j\<lparr>objs := (objs j)(p \<mapsto> o2), listed := l, pool := ps\<rparr>"
      using new(4) ps by (simp add: put_obj_def)
    have "kind o1 = k" using a new(4) p by (auto simp: as_obj_def)
    then show ?thesis unfolding e using add_object [of j p o2] s p t by (auto simp: start_ok_def isref_def)
  qed
  then show "good_step j (put_obj p o2 j2)" "isref (put_obj p o2 j2) k p" by blast+
qed

lemma obj_new_as_obj: "obj_new k c n t j = (p, j1) \<Longrightarrow> as_obj j1 p = Some o1 \<Longrightarrow> kind o1 = k \<and> cls o1 \<in> {None, c}"
  by (erule obj_new_cases) (auto simp: as_obj_def split: if_splits)

lemma answers_direct: "start_ok j \<Longrightarrow> answers j (TRef FK_DIRECT) (jni_new_direct_buffer a n j)"
proof -
  assume s: "start_ok j"
  obtain p j1 where n: "obj_new FK_DIRECT (Some ''java/nio/DirectByteBuffer'') None None j = (p, j1)" by fastforce
  show ?thesis
  proof (cases "as_obj j1 p")
    case None
    then show ?thesis using n answers_obj_new [OF s, of "TRef FK_DIRECT" FK_DIRECT "Some ''java/nio/DirectByteBuffer''" None None]
      by (simp add: jni_new_direct_buffer_def)
  next
    case (Some o1)
    have "kind o1 = FK_DIRECT" using obj_new_as_obj [OF n Some] by blast
    then have "good_step j (put_obj p (o1\<lparr>payload := Guest a, osize := n\<rparr>) j1) \<and> isref (put_obj p (o1\<lparr>payload := Guest a, osize := n\<rparr>) j1) FK_DIRECT p"
      using new_then_put [OF s n Some, of j1 "pool j1" "o1\<lparr>payload := Guest a, osize := n\<rparr>"] by (simp add: typed_obj_def)
    then show ?thesis using n Some by (simp add: jni_new_direct_buffer_def answers_def)
  qed
qed

lemma set_roots:
  assumes "good_step j j'" "isref j' FK_MOTION q"
  shows "good_step j (j'\<lparr>motion_obj := q\<rparr>)" "good_step j (j'\<lparr>clones := (clones j')[i := q]\<rparr>)" "good_step j (j'\<lparr>next_slot := u\<rparr>)"
proof -
  have k: "keeps_objs j (j'\<lparr>motion_obj := q\<rparr>)" "keeps_objs j (j'\<lparr>clones := (clones j')[i := q]\<rparr>)" "keeps_objs j (j'\<lparr>next_slot := u\<rparr>)"
    using assms by (simp_all add: good_step_def keeps_objs_def)
  have v: "valref (j'\<lparr>motion_obj := q\<rparr>) r = valref j' r" "valref (j'\<lparr>clones := cl\<rparr>) r = valref j' r" "valref (j'\<lparr>next_slot := u\<rparr>) r = valref j' r"
    "isref (j'\<lparr>motion_obj := q\<rparr>) kk r = isref j' kk r" "isref (j'\<lparr>clones := cl\<rparr>) kk r = isref j' kk r" "isref (j'\<lparr>next_slot := u\<rparr>) kk r = isref j' kk r"
    for r cl kk by (simp_all add: valref_def isref_def)
  have u: "\<forall>p \<in> set ((clones j')[i := q]). isref j' FK_MOTION p" if "\<forall>p \<in> set (clones j'). isref j' FK_MOTION p"
    using that assms(2) set_update_subset_insert [of "clones j'" i q] by blast
  show "good_step j (j'\<lparr>motion_obj := q\<rparr>)" "good_step j (j'\<lparr>clones := (clones j')[i := q]\<rparr>)" "good_step j (j'\<lparr>next_slot := u\<rparr>)"
    using assms k u by (simp_all add: good_step_def jni_ok_def heap_typed_def v)
qed

lemma answers_motion: "start_ok j \<Longrightarrow> answers j (TRef FK_MOTION) (jni_make_motion_event ev j)"
proof -
  assume s: "start_ok j"
  define j1 where "j1 = (if motion_obj j = 0
            then (case obj_new FK_MOTION (Some ''android/view/MotionEvent'') None None j of (p, j') \<Rightarrow> j'\<lparr>motion_obj := p\<rparr>)
            else j)"
  have g: "good_step j j1"
    using s obj_new_good [of j FK_MOTION] set_roots(1)
    by (auto simp: j1_def start_ok_def good_refl split: prod.split)
  have e: "jni_make_motion_event ev j = (motion_obj j1, case (as_obj j1 (motion_obj j1), ev) of (Some o', Some e) \<Rightarrow> put_obj (motion_obj j1) (o'\<lparr>motion := e\<rparr>) j1 | _ \<Rightarrow> j1)"
    unfolding jni_make_motion_event_def j1_def [symmetric] by simp
  have ok: "jni_ok j1" using g by (simp add: good_step_def)
  have r: "isref j1 FK_MOTION (motion_obj j1)" using ok by (simp add: jni_ok_def)
  show ?thesis
  proof (cases "as_obj j1 (motion_obj j1) = None \<or> ev = None")
    case True
    then show ?thesis unfolding e answers_def using g r by (auto split: option.splits)
  next
    case False
    then obtain o1 x where o: "as_obj j1 (motion_obj j1) = Some o1" "ev = Some x" by auto
    note p = put_motion_good(1) [OF ok o(1), of x]
    then have "isref (put_obj (motion_obj j1) (o1\<lparr>motion := x\<rparr>) j1) FK_MOTION (motion_obj j1)"
      using keeps_objs_isref r by (auto simp: good_step_def)
    then show ?thesis unfolding e answers_def using good_trans [OF g p] o by simp
  qed
qed

lemma answers_clone: "start_ok j \<Longrightarrow> answers j (TRef FK_MOTION) (motion_event_obtain_clone p j)"
proof -
  assume s: "start_ok j"
  show ?thesis
  proof (cases "as_obj j p")
    case None
    then show ?thesis using s by (simp add: motion_event_obtain_clone_def answers_0)
  next
    case (Some src)
    show ?thesis
    proof (cases "kind src = FK_MOTION")
      case False
      then show ?thesis using s Some by (simp add: motion_event_obtain_clone_def answers_0)
    next
      case True
      define slot where "slot = unat (next_slot j mod MOTION_CLONE_SLOTS)"
      define j0 where "j0 = j\<lparr>next_slot := next_slot j + 1\<rparr>"
      have g0: "good_step j j0" using s set_roots(3) [of j j 0] by (simp add: j0_def start_ok_def good_refl)
      then have s0: "start_ok j0" using s by (simp add: start_ok_def good_step_def fresh_memory_def j0_def)
      define j1 where "j1 = (if clones j0 ! slot = 0
                      then (case obj_new FK_MOTION (Some ''android/view/MotionEvent'') None None j0 of (q, j') \<Rightarrow> j'\<lparr>clones := (clones j')[slot := q]\<rparr>)
                      else j0)"
      have "good_step j0 j1"
        using s0 obj_new_good [of j0 FK_MOTION] set_roots(2)
        by (auto simp: j1_def start_ok_def good_refl split: prod.split)
      then have g: "good_step j j1" using g0 good_trans by blast
      then have ok: "jni_ok j1" by (simp add: good_step_def)
      have e: "motion_event_obtain_clone p j = (case as_obj j1 (clones j1 ! slot) of None \<Rightarrow> (0, j1)
          | Some o' \<Rightarrow> (clones j1 ! slot, put_obj (clones j1 ! slot) (o'\<lparr>motion := motion src\<rparr>) j1))"
        unfolding motion_event_obtain_clone_def Let_def slot_def [symmetric] j0_def [symmetric] Some option.case
        unfolding j1_def [symmetric] using True by simp
      have "slot < 8" using unat_mono [OF word_mod_less_divisor, of 8 "next_slot j"] by (simp add: slot_def MOTION_CLONE_SLOTS_def)
      then have r: "isref j1 FK_MOTION (clones j1 ! slot)" using ok by (simp add: jni_ok_def)
      show ?thesis
      proof (cases "as_obj j1 (clones j1 ! slot)")
        case None
        then show ?thesis using e g by (simp add: answers_def)
      next
        case o: (Some o1)
        note q = put_motion_good(1) [OF ok o, of "motion src"]
        then show ?thesis using e o good_trans [OF g q] keeps_objs_isref r by (auto simp: answers_def good_step_def)
      qed
    qed
  qed
qed

lemma answers_class_for_name: "start_ok j \<Longrightarrow> answers j (TRef FK_CLASS) (j_class_for_name p j)"
proof -
  assume s: "start_ok j"
  obtain m j0 where a: "alloc j = (m, j0)" by fastforce
  have c: "answers j (TRef FK_CLASS) (make_class x j0)" for x
    by (rule answers_after [OF alloc_start(2) [OF s a]]) (simp add: answers_make_class alloc_start(1) [OF s a])
  show ?thesis using s a c by (auto simp: j_class_for_name_def Let_def answers_make_class split: option.split)
qed

lemma answers_new_utf16: "start_ok j \<Longrightarrow> answers j (TRef FK_STRING) (j_NewString u n j)"
proof -
  assume s: "start_ok j"
  obtain m j0 where a: "alloc j = (m, j0)" by fastforce
  have c: "answers j (TRef FK_STRING) (jni_new_string x j0)" for x
    by (rule answers_after [OF alloc_start(2) [OF s a]]) (simp add: answers_new_string alloc_start(1) [OF s a])
  have z: "answers j (TRef FK_STRING) (0, j0)" using alloc_start(2) [OF s a] by (simp add: answers_def)
  show ?thesis using s a c z by (auto simp: j_NewString_def answers_new_string split: option.split)
qed

text \<open>A constructor needs the memory of one object when it builds a file; without it there is no answer.\<close>

lemma new_object_typed:
  assumes s: "start_ok j" and r: "j_NewObject f c m args j = Some r"
  shows "answers j (TRef FK_OBJECT) r"
proof -
  obtain p j1 where n: "make_object (Some (constructed_class j c)) j = (p, j1)" by fastforce
  have a: "answers j (TRef FK_OBJECT) (p, j1)" using answers_make_object [OF s, of "TRef FK_OBJECT"] n by metis
  show ?thesis
  proof (cases "r = (p, j1)")
    case True
    then show ?thesis using a by simp
  next
    case False
    then obtain x where "name_file p x j1 = Some r" using r n by (auto simp: j_NewObject_def split: if_splits)
    then obtain n' j2 o1 where f: "xstrdup (Some (jni_string_utf8 j1 x)) j1 = (n', j2)" "as_obj j2 p = Some o1" "r = (p, put_obj p (o1\<lparr>oname := n'\<rparr>) j2)"
      by (auto simp: name_file_def split: option.splits prod.splits)
    obtain ps where j2: "j2 = j1\<lparr>pool := ps\<rparr>" using xstrdup_effect [OF f(1)] by blast
    have g1: "good_step j j1" using a by (simp add: answers_def)
    have g2: "good_step j1 j2" using pool_change g1 by (simp add: j2 good_step_def)
    have g3: "good_step j2 (put_obj p (o1\<lparr>oname := n'\<rparr>) j2)"
      by (rule put_motion_good(2) [OF _ f(2)]) (use g2 in \<open>simp add: good_step_def\<close>)
    have "good_step j1 (put_obj p (o1\<lparr>oname := n'\<rparr>) j2)" using good_trans [OF g2 g3] .
    then show ?thesis using good_trans [OF g1] keeps_objs_isref a by (auto simp: answers_def f(3) good_step_def)
  qed
qed

section \<open>Arrays\<close>

lemma array_new_typed:
  assumes s: "start_ok j" and e: "e \<in> {1, 2, 4, 8}" "elem_bytes c = Some e"
  shows "answers j (TRef FK_ARRAY) (array_new n e c j)"
proof -
  obtain p j1 where n: "obj_new FK_ARRAY (Some c) None None j = (p, j1)" by fastforce
  show ?thesis
  proof (cases "as_obj j1 p")
    case None
    have "good_step j j1" using obj_new_good(1) [of j] n s by (auto simp: start_ok_def)
    then show ?thesis using n None by (simp add: array_new_def answers_def)
  next
    case (Some o1)
    let ?k = "if n = 0 then 1 else unat n"
    obtain b j2 where c: "calloc_block ?k e j1 = (b, j2)" by fastforce
    obtain m where m: "alloc j1 = (m, j2)" "b = (if m \<noteq> None \<and> ?k * e < 2 ^ 63 then Some (?k * e) else None)"
      using c by (auto simp: calloc_block_def split: prod.splits)
    obtain ps where ps: "j2 = j1\<lparr>pool := ps\<rparr>" using jni_alloc_effect [OF m(1)] by blast
    let ?o = "o1\<lparr>osize := n, payload := (case b of Some n \<Rightarrow> Block (replicate n 0) | None \<Rightarrow> NoData)\<rparr>"
    have k: "kind o1 = FK_ARRAY" "cls o1 \<in> {None, Some c}" using obj_new_as_obj [OF n Some] by blast+
    have mx: "?k = max 1 (unat n)" by (auto simp: unat_eq_0 max_def Suc_le_eq unat_gt_0)
    have t: "typed_obj ?o"
      using k e m(2) mx by (auto simp: typed_obj_def array_typed_def mult.commute split: option.splits)
    have "good_step j (put_obj p ?o j2) \<and> isref (put_obj p ?o j2) FK_ARRAY p"
      using new_then_put [OF s n Some ps, of ?o] t k by (auto split: option.splits)
    then show ?thesis using n Some c by (simp add: array_new_def answers_def)
  qed
qed

lemma new_array_typed: "start_ok j \<Longrightarrow> answers j (TRef FK_ARRAY) (j_NewArray c n j)"
  using array_new_typed [of j _ c] by (auto simp: j_NewArray_def answers_0 elem_bytes_def split: option.splits)

text \<open>The array of objects is created as a block of bytes and becomes a block of references.\<close>

lemma array_new_result:
  assumes s: "start_ok j" and n: "array_new n e c j = (p, j')" and o: "as_obj j' p = Some o1" and e: "e \<in> {1, 2, 4, 8}"
  shows "kind o1 = FK_ARRAY" "cls o1 \<in> {None, Some c}" "osize o1 = n" "p \<noteq> 0" "objs j p = None"
    "payload o1 = NoData \<or> payload o1 = Block (replicate (max 1 (unat n) * e) 0)"
    "\<exists>l ps. j' = j\<lparr>objs := (objs j)(p \<mapsto> o1), listed := l, pool := ps\<rparr>"
proof -
  obtain q j1 where b: "obj_new FK_ARRAY (Some c) None None j = (q, j1)" by fastforce
  let ?P = "kind o1 = FK_ARRAY \<and> cls o1 \<in> {None, Some c} \<and> osize o1 = n \<and> p \<noteq> 0 \<and> objs j p = None \<and>
    (payload o1 = NoData \<or> payload o1 = Block (replicate (max 1 (unat n) * e) 0)) \<and>
    (\<exists>l ps. j' = j\<lparr>objs := (objs j)(p \<mapsto> o1), listed := l, pool := ps\<rparr>)"
  have mx: "(if n = 0 then 1 else unat n) = max 1 (unat n)" by (auto simp: unat_eq_0 max_def Suc_le_eq unat_gt_0)
  have "?P"
  proof (cases "as_obj j1 q")
    case None
    then show ?thesis using n b o by (simp add: array_new_def as_obj_def)
  next
    case (Some o0)
    obtain bl j2 where c': "calloc_block (if n = 0 then 1 else unat n) e j1 = (bl, j2)" by fastforce
    obtain m where m: "alloc j1 = (m, j2)" "bl = None \<or> bl = Some (max 1 (unat n) * e)"
      using c' mx by (auto simp: calloc_block_def split: prod.splits if_splits)
    obtain ps where ps: "j2 = j1\<lparr>pool := ps\<rparr>" using jni_alloc_effect [OF m(1)] by blast
    have pq: "p = q" "j' = put_obj q (o0\<lparr>osize := n, payload := (case bl of Some n \<Rightarrow> Block (replicate n 0) | None \<Rightarrow> NoData)\<rparr>) j2"
      using n b Some c' by (auto simp add: array_new_def)
    have q: "q \<noteq> 0" using as_obj_SomeD [OF Some] by blast
    have o1: "o1 = o0\<lparr>osize := n, payload := (case bl of Some n \<Rightarrow> Block (replicate n 0) | None \<Rightarrow> NoData)\<rparr>"
      using o pq q by (simp add: as_obj_def put_obj_def)
    from b show ?thesis
    proof (cases rule: obj_new_cases)
      case (fail qs)
      then show ?thesis using q by simp
    next
      case (new qs c1 n1 s1 l)
      have "objs j q = None" using new(1) s by (auto simp: start_ok_def fresh_memory_def)
      moreover have "j' = j\<lparr>objs := (objs j)(p \<mapsto> o1), listed := l, pool := ps\<rparr>"
        using new(4) ps pq o1 by (simp add: put_obj_def)
      ultimately show ?thesis using obj_new_as_obj [OF b Some] m(2) q pq(1) o1 by (auto split: option.splits)
    qed
  qed
  then show "kind o1 = FK_ARRAY" "cls o1 \<in> {None, Some c}" "osize o1 = n" "p \<noteq> 0" "objs j p = None"
    "payload o1 = NoData \<or> payload o1 = Block (replicate (max 1 (unat n) * e) 0)"
    "\<exists>l ps. j' = j\<lparr>objs := (objs j)(p \<mapsto> o1), listed := l, pool := ps\<rparr>" by blast+
qed

text \<open>The conversion of a length or an index to \<^verbatim>\<open>size_t\<close>.\<close>

lemma scast_nonneg: "0 \<le>s (n :: u32) \<Longrightarrow> unat (scast n :: u64) = unat n \<and> unat n < 2 ^ 31"
proof -
  assume "0 \<le>s n"
  then have s: "0 \<le> sint n" "sint n < 2 ^ 31" using sint_lt [of n] by (simp_all add: word_sle_eq)
  have "uint n = take_bit 32 (sint n)" using uint_sint [of n] by simp
  then have u: "uint n = sint n" using s by (simp add: take_bit_int_eq_self)
  have "uint (scast n :: u64) = take_bit 64 (sint n)" by (simp only: scast_eq uint_word_of_int_eq) simp
  then have "uint (scast n :: u64) = uint n" using s u by (simp add: take_bit_int_eq_self)
  then have "unat (scast n :: u64) = unat n" by (metis unat_eq_nat_uint)
  moreover have "unat n < 2 ^ 31" using s u by (simp add: unat_eq_nat_uint)
  ultimately show ?thesis by blast
qed
lemma scast_neg: "\<not> 0 \<le>s (n :: u32) \<Longrightarrow> 2 ^ 63 \<le> unat (scast n :: u64) \<and> 2 ^ 31 \<le> unat n"
proof -
  assume "\<not> 0 \<le>s n"
  then have s: "sint n < 0" "- (2 ^ 31) \<le> sint n" using sint_ge [of n] by (simp_all add: word_sle_eq)
  have "uint n = take_bit 32 (sint n)" using uint_sint [of n] by simp
  also have "\<dots> = sint n + 2 ^ 32" using s mod_add_self2 [of "sint n" "2 ^ 32"] mod_pos_pos_trivial [of "sint n + 2 ^ 32" "2 ^ 32"] by (simp add: take_bit_eq_mod)
  finally have u: "uint n = sint n + 2 ^ 32" .
  have "uint (scast n :: u64) = take_bit 64 (sint n)" by (simp only: scast_eq uint_word_of_int_eq) simp
  also have "\<dots> = sint n + 2 ^ 64" using s mod_add_self2 [of "sint n" "2 ^ 64"] mod_pos_pos_trivial [of "sint n + 2 ^ 64" "2 ^ 64"] by (simp add: take_bit_eq_mod)
  finally have v: "uint (scast n :: u64) = sint n + 2 ^ 64" .
  have "2 ^ 63 \<le> uint (scast n :: u64)" "2 ^ 31 \<le> uint n" using s u v by simp_all
  then show ?thesis using nat_mono [of "2 ^ 63" "uint (scast n :: u64)"] nat_mono [of "2 ^ 31" "uint n"] by simp
qed

lemma new_object_array_typed:
  assumes s: "start_ok j" and v: "valref j init" and r: "j_NewObjectArray n init j = Some r"
  shows "answers j (TRef FK_ARRAY) r"
proof -
  obtain p j1 where a: "array_new (scast n) 8 ''[Ljava/lang/Object;'' j = (p, j1)" by fastforce
  show ?thesis
  proof (cases "as_obj j1 p")
    case None
    obtain q j0 where b: "obj_new FK_ARRAY (Some ''[Ljava/lang/Object;'') None None j = (q, j0)" by fastforce
    have g: "good_step j j0" using obj_new_good(1) [OF _ _ b] s by (simp add: start_ok_def)
    have "j1 = j0"
    proof (cases "as_obj j0 q")
      case None
      then show ?thesis using a b by (simp add: array_new_def)
    next
      case (Some o0)
      then show ?thesis using a b None by (auto simp: array_new_def as_obj_def put_obj_def split: prod.splits if_splits)
    qed
    then show ?thesis using r a None g by (auto simp: j_NewObjectArray_def answers_def)
  next
    case (Some o1)
    note e = array_new_result [OF s a Some]
    obtain l ps where j1: "j1 = j\<lparr>objs := (objs j)(p \<mapsto> o1), listed := l, pool := ps\<rparr>" using e(7) by auto
    have step: "answers j (TRef FK_ARRAY) (p, put_obj p o2 j1)"
      if "kind o2 = FK_ARRAY" "typed_obj o2" "\<And>rs x. payload o2 = Refs rs \<Longrightarrow> x \<in> set rs \<Longrightarrow> valref j x" for o2
    proof -
      have "put_obj p o2 j1 = j\<lparr>objs := (objs j)(p \<mapsto> o2), listed := l, pool := ps\<rparr>" by (simp add: j1 put_obj_def)
      then show ?thesis using add_object [of j p o2] e(4,5) s that by (auto simp: answers_def isref_def start_ok_def)
    qed
    show ?thesis
    proof (cases "payload o1 = NoData")
      case True
      have "answers j (TRef FK_ARRAY) (p, put_obj p o1 j1)"
        by (rule step) (use e(1) True in \<open>auto simp: typed_obj_def array_typed_def\<close>)
      moreover have "put_obj p o1 j1 = j1" by (simp add: j1 put_obj_def)
      ultimately show ?thesis using r a Some True by (auto simp: j_NewObjectArray_def split: if_splits)
    next
      case False
      then have b: "payload o1 = Block (replicate (max 1 (unat (scast n :: u64)) * 8) 0)" using e(6) by simp
      let ?k = "if init \<noteq> 0 \<and> 0 \<le>s n then unat n else 0"
      let ?rs = "replicate ?k init @ replicate (max 1 (unat (scast n :: u64)) - ?k) 0"
      have k: "?k \<le> max 1 (unat (scast n :: u64))" using scast_nonneg [of n] by auto
      have "answers j (TRef FK_ARRAY) (p, put_obj p (o1\<lparr>payload := Refs ?rs\<rparr>) j1)"
        by (rule step) (use e(1-3) k v in \<open>auto simp: typed_obj_def array_typed_def\<close>)
      then show ?thesis using r a Some b by (simp add: j_NewObjectArray_def Let_def)
    qed
  qed
qed

lemma set_element_good:
  assumes ok: "jni_ok j" and v: "valref j v" and r: "j_SetObjectArrayElement p i v j = Some j'"
  shows "good_step j j'"
proof (cases "j' = j")
  case True
  then show ?thesis using ok by (simp add: good_refl)
next
  case False
  then obtain o1 rs where o: "as_obj j p = Some o1" "in_array o1 i" "payload o1 = Refs rs" "unat i < length rs"
    "j' = put_obj p (o1\<lparr>payload := Refs (rs[unat i := v])\<rparr>) j"
    using r by (auto simp: j_SetObjectArrayElement_def split: option.splits if_splits payload.splits)
  note p = as_obj_SomeD [OF o(1)]
  have t: "typed_obj (o1\<lparr>payload := Refs (rs[unat i := v])\<rparr>)"
    using objs_typed [OF ok, of p o1] p o(2,3) by (simp add: typed_obj_def array_typed_def in_array_def)
  have "valref j x" if "x \<in> set (rs[unat i := v])" for x
    using that set_update_subset_insert [of rs "unat i" v] v objs_refs [OF ok _ o(3)] p by blast
  then show ?thesis using put_obj_good [OF ok _ _ _ _ _ t] p o(3,5) by simp
qed

lemma get_element_valid:
  assumes "jni_ok j" "j_GetObjectArrayElement p i j = Some v"
  shows "valref j v"
proof (cases "v = 0")
  case False
  then obtain o1 rs where "as_obj j p = Some o1" "payload o1 = Refs rs" "unat i < length rs" "v = rs ! unat i"
    using assms(2) by (auto simp: j_GetObjectArrayElement_def split: option.splits if_splits payload.splits)
  then show ?thesis using objs_refs [OF assms(1)] as_obj_SomeD by (metis nth_mem)
qed simp

lemma set_region_good:
  assumes ok: "jni_ok j" and r: "j_SetByteArrayRegion p start len src j = Some (w, j')"
  shows "good_step j j'"
proof (cases "j' = j")
  case True
  then show ?thesis using ok by (simp add: good_refl)
next
  case False
  then obtain o1 bs where o: "as_obj j p = Some o1" "payload o1 = Block bs" "unat start + unat len \<le> length bs" "unat len \<le> length src"
    "j' = put_obj p (o1\<lparr>payload := Block (blit bs (unat start) (take (unat len) src))\<rparr>) j"
    using r by (auto simp: j_SetByteArrayRegion_def split: option.splits if_splits payload.splits)
  note p = as_obj_SomeD [OF o(1)]
  have l: "length (blit bs (unat start) (take (unat len) src)) = length bs" using o(3,4) by simp
  have k: "kind o1 = FK_ARRAY" using objs_typed [OF ok, of p o1] p o(2) by (cases "kind o1") (auto simp: typed_obj_def)
  have t: "typed_obj (o1\<lparr>payload := Block (blit bs (unat start) (take (unat len) src))\<rparr>)"
    using objs_typed [OF ok, of p o1] p o(2) k l by (simp add: typed_obj_def array_typed_def)
  then show ?thesis using put_obj_good [OF ok _ _ _ _ _ t] p o(2,5) l by simp
qed

end
