(* ===== verification/JniSystem.thy ===== *)
theory JniSystem
  imports JniProps
begin

text \<open>
  Sequences of calls of the JNI table.  A call is a value of \<open>jop\<close>; \<open>jni_exec\<close> is the entry point
  it stands for, and \<open>jni_step\<close> lets every call meet any behaviour of the allocator that its
  documentation allows.
\<close>

section \<open>The calls\<close>

datatype jop =
    FindClass "string option"
  | GetObjectClass u64
  | IsInstanceOf u64 u64
  | NewRef u64
  | GetMethodID u64 "string option" "string option"
  | GetFieldID u64 "string option" "string option"
  | NewObject form u64 u64 "u64 option"
  | CallObject form u64 u64 "u64 option"
  | CallInt u64 u64
  | CallLong u64 u64
  | CallFloat form u64 u64 "u32 option"
  | CallVoid form u64
  | CallStaticObject form u64 u64 "u64 option"
  | GetObjectField u64
  | GetIntField u64
  | GetFloatField u64
  | GetStaticObjectField u64
  | GetStaticIntField u64
  | NewString "u16 list option" u32
  | NewStringUTF "string option"
  | GetStringLength u64
  | GetStringUTFLength u64
  | GetStringChars u64
  | NewArray string u32
  | NewObjectArray u32 u64
  | GetArrayLength u64
  | GetElement u64 u32
  | SetElement u64 u32 u64
  | GetRegion u64 u32 u32
  | SetRegion u64 u32 u32 "byte list"
  | NewDirectBuffer u64 u64
  | DirectAddress u64
  | DirectCapacity u64
  | MotionEvent "fake_motion option"

definition ref_answer :: "u64 \<times> jni \<Rightarrow> (jval \<times> jni) option" where
  "ref_answer r = Some (JRef (fst r), snd r)"

fun jni_exec :: "jni_host \<Rightarrow> jop \<Rightarrow> jni \<Rightarrow> (jval \<times> jni) option" where
  "jni_exec h (FindClass n) j = ref_answer (j_FindClass n j)"
| "jni_exec h (GetObjectClass p) j = ref_answer (j_GetObjectClass p j)"
| "jni_exec h (IsInstanceOf p c) j = Some (JBool (j_IsInstanceOf j p c), j)"
| "jni_exec h (NewRef p) j = Some (JRef p, j)"
| "jni_exec h (GetMethodID c n s) j = ref_answer (j_GetMethodID c n s j)"
| "jni_exec h (GetFieldID c n s) j = ref_answer (j_GetFieldID c n s j)"
| "jni_exec h (NewObject f c m a) j = (case j_NewObject f c m a j of None \<Rightarrow> None | Some r \<Rightarrow> ref_answer r)"
| "jni_exec h (CallObject f p m a) j = ref_answer (j_CallObject f h p m a j)"
| "jni_exec h (CallInt p m) j = Some (JInt (j_CallInt h j p m), j)"
| "jni_exec h (CallLong p m) j = Some (JLong (j_CallLong j p m), j)"
| "jni_exec h (CallFloat f p m a) j = Some (JFloat (j_CallFloat f j p m a), j)"
| "jni_exec h (CallVoid f m) j = Some (JUnit, j_CallVoid f m j)"
| "jni_exec h (CallStaticObject f c m a) j = ref_answer (j_CallStaticObject f h c m a j)"
| "jni_exec h (GetObjectField f) j = ref_answer (j_GetObjectField h f j)"
| "jni_exec h (GetIntField f) j = Some (JInt (j_GetIntField h f j), j)"
| "jni_exec h (GetFloatField f) j = Some (JFloat (j_GetFloatField f j), j)"
| "jni_exec h (GetStaticObjectField f) j = ref_answer (j_GetStaticObjectField f j)"
| "jni_exec h (GetStaticIntField f) j = Some (JInt (j_GetStaticIntField f j), j)"
| "jni_exec h (NewString u n) j = ref_answer (j_NewString u n j)"
| "jni_exec h (NewStringUTF s) j = ref_answer (jni_new_string s j)"
| "jni_exec h (GetStringLength p) j = Some (JInt (j_GetStringLength p j), j)"
| "jni_exec h (GetStringUTFLength p) j = Some (JInt (j_GetStringUTFLength p j), j)"
| "jni_exec h (GetStringChars p) j = (case j_GetStringChars p j of (u, j') \<Rightarrow> Some (JChars u, j'))"
| "jni_exec h (NewArray c n) j = ref_answer (j_NewArray c n j)"
| "jni_exec h (NewObjectArray n i) j = (case j_NewObjectArray n i j of None \<Rightarrow> None | Some r \<Rightarrow> ref_answer r)"
| "jni_exec h (GetArrayLength p) j = Some (JInt (j_GetArrayLength p j), j)"
| "jni_exec h (GetElement p i) j = (case j_GetObjectArrayElement p i j of None \<Rightarrow> None | Some v \<Rightarrow> Some (JRef v, j))"
| "jni_exec h (SetElement p i v) j = (case j_SetObjectArrayElement p i v j of None \<Rightarrow> None | Some j' \<Rightarrow> Some (JUnit, j'))"
| "jni_exec h (GetRegion p s n) j = (case j_GetByteArrayRegion p s n j of None \<Rightarrow> None | Some w \<Rightarrow> Some (JRegion w, j))"
| "jni_exec h (SetRegion p s n b) j = (case j_SetByteArrayRegion p s n b j of None \<Rightarrow> None | Some (w, j') \<Rightarrow> Some (JRegion w, j'))"
| "jni_exec h (NewDirectBuffer a n) j = ref_answer (j_NewDirectByteBuffer a n j)"
| "jni_exec h (DirectAddress p) j = Some (JLong (j_GetDirectBufferAddress p j), j)"
| "jni_exec h (DirectCapacity p) j = Some (JLong (j_GetDirectBufferCapacity p j), j)"
| "jni_exec h (MotionEvent e) j = ref_answer (jni_make_motion_event e j)"

text \<open>What each call answers.  A call of a method is typed by the name of the method.\<close>

definition static_type :: "fake_obj option \<Rightarrow> jty" where
  "static_type mid =
     (if j_is_class_for_name mid then TRef FK_CLASS
      else if j_is_motion_obtain mid then TRef FK_MOTION
      else method_type (mid_name mid))"

definition field_type :: "string \<Rightarrow> jty" where
  "field_type n =
     (if n \<in> {''dataDir'', ''sourceDir'', ''publicSourceDir'', ''nativeLibraryDir'', ''versionName''} then TRef FK_STRING else TRef FK_OBJECT)"

definition static_field_type :: "string \<Rightarrow> jty" where
  "static_field_type n =
     (if n \<in> {''MANUFACTURER'', ''MODEL'', ''DEVICE'', ''PRODUCT'', ''AUDIO_SERVICE'', ''PROPERTY_OUTPUT_SAMPLE_RATE'',
              ''PROPERTY_OUTPUT_FRAMES_PER_BUFFER''} then TRef FK_STRING else TRef FK_OBJECT)"

fun jop_type :: "jni \<Rightarrow> jop \<Rightarrow> jty" where
  "jop_type j (FindClass n) = TRef FK_CLASS"
| "jop_type j (GetObjectClass p) = TRef FK_CLASS"
| "jop_type j (NewRef p) = TAny"
| "jop_type j (GetMethodID c n s) = TRef FK_METHOD"
| "jop_type j (GetFieldID c n s) = TRef FK_FIELD"
| "jop_type j (NewObject f c m a) = TRef FK_OBJECT"
| "jop_type j (CallObject f p m a) = method_type (mid_name (as_obj j m))"
| "jop_type j (CallStaticObject f c m a) = static_type (as_obj j m)"
| "jop_type j (GetObjectField f) = field_type (mid_name (as_obj j f))"
| "jop_type j (GetStaticObjectField f) = static_field_type (mid_name (as_obj j f))"
| "jop_type j (NewString u n) = TRef FK_STRING"
| "jop_type j (NewStringUTF s) = TRef FK_STRING"
| "jop_type j (NewArray c n) = TRef FK_ARRAY"
| "jop_type j (NewObjectArray n i) = TRef FK_ARRAY"
| "jop_type j (GetElement p i) = TAny"
| "jop_type j (NewDirectBuffer a n) = TRef FK_DIRECT"
| "jop_type j (MotionEvent e) = TRef FK_MOTION"
| "jop_type j x = TVal"

text \<open>The references a call stores or hands back are valid ones.\<close>

fun args_ok :: "jni \<Rightarrow> jop \<Rightarrow> bool" where
  "args_ok j (NewRef p) = valref j p"
| "args_ok j (NewObjectArray n i) = valref j i"
| "args_ok j (SetElement p i v) = valref j v"
| "args_ok j x = True"

text \<open>
  When a call is sure to have an answer: elements are taken from arrays of objects that got their
  memory, regions from arrays of numbers, and the constructor of a file and an array of objects that
  is to be filled get theirs.
\<close>

definition has_memory :: "nat \<Rightarrow> jni \<Rightarrow> bool" where
  "has_memory n j \<longleftrightarrow> n \<le> length (pool j) \<and> (\<forall>m \<in> set (take n (pool j)). \<exists>a. m = Some a)"

fun ready :: "jni \<Rightarrow> jop \<Rightarrow> bool" where
  "ready j (NewObject f c m a) = has_memory 1 j"
| "ready j (NewObjectArray n i) = (i = 0 \<or> n \<le>s 0 \<or> has_memory 3 j)"
| "ready j (GetElement p i) = (\<forall>o1. as_obj j p = Some o1 \<longrightarrow> in_array o1 i \<longrightarrow> (\<exists>rs. payload o1 = Refs rs))"
| "ready j (SetElement p i v) = (\<forall>o1. as_obj j p = Some o1 \<longrightarrow> in_array o1 i \<longrightarrow> (\<exists>rs. payload o1 = Refs rs))"
| "ready j (GetRegion p s n) = (\<forall>o1 rs. as_obj j p = Some o1 \<longrightarrow> payload o1 \<noteq> Refs rs)"
| "ready j (SetRegion p s n b) = (unat n \<le> length b \<and> (\<forall>o1 rs. as_obj j p = Some o1 \<longrightarrow> payload o1 \<noteq> Refs rs))"
| "ready j x = True"

section \<open>A call keeps the types\<close>

definition call_ok :: "jni \<Rightarrow> jty \<Rightarrow> (jval \<times> jni) option \<Rightarrow> bool" where
  "call_ok j ty r \<longleftrightarrow> (\<forall>v j'. r = Some (v, j') \<longrightarrow> good_step j j' \<and> has_type j' v ty)"

lemma call_ref: "answers j ty r \<Longrightarrow> call_ok j ty (ref_answer r)"
  by (auto simp: call_ok_def ref_answer_def answers_def)

lemma call_same: "jni_ok j \<Longrightarrow> has_type j v ty \<Longrightarrow> call_ok j ty (Some (v, j))"
  by (auto simp: call_ok_def good_refl)

lemma answers_call_object: "start_ok j \<Longrightarrow> answers j (method_type (mid_name (as_obj j m))) (j_CallObject f h p m a j)"
  by (simp add: j_CallObject_def Let_def answers_object_result)

lemma answers_static: "start_ok j \<Longrightarrow> answers j (static_type (as_obj j m)) (j_CallStaticObject f h c m a j)"
  by (simp add: j_CallStaticObject_def static_type_def Let_def answers_object_result answers_class_for_name answers_clone)

lemma answers_field:
  assumes s: "start_ok j"
  shows "answers j (field_type (mid_name (as_obj j f))) (j_GetObjectField h f j)"
  unfolding j_GetObjectField_def Let_def
  by (intro answers_If; (use s in \<open>auto simp: field_type_def answers_context answers_new_string answers_make_object answers_0 split: option.split\<close>))

lemma answers_static_field:
  assumes s: "start_ok j"
  shows "answers j (static_field_type (mid_name (as_obj j f))) (j_GetStaticObjectField f j)"
  unfolding j_GetStaticObjectField_def Let_def
  by (intro answers_If; (use s in \<open>auto simp: static_field_type_def answers_context answers_new_string answers_make_object\<close>))

lemma quit_good: "jni_ok j \<Longrightarrow> good_step j (j_CallVoid f m j)"
  by (auto simp: j_CallVoid_def jni_request_quit_def good_refl good_step_def jni_ok_def heap_typed_def isref_def valref_def keeps_objs_def)

lemma jni_exec_typed:
  assumes s: "start_ok j" and a: "args_ok j x"
  shows "call_ok j (jop_type j x) (jni_exec h x j)"
proof -
  have ok: "jni_ok j" using s by (simp add: start_ok_def)
  note simps = j_FindClass_def j_GetObjectClass_def j_GetMethodID_def j_GetFieldID_def j_NewDirectByteBuffer_def
  show ?thesis
  proof (cases x)
    case (NewObject f c m args)
    then show ?thesis using new_object_typed [OF s] by (auto simp: call_ref call_ok_def ref_answer_def answers_def split: option.splits)
  next
    case (NewObjectArray n i)
    then show ?thesis using new_object_array_typed [OF s] a by (auto simp: call_ok_def ref_answer_def answers_def split: option.splits)
  next
    case (GetStringChars p)
    then show ?thesis using alloc_start(2) [OF s] by (auto simp: call_ok_def j_GetStringChars_def split: prod.splits)
  next
    case (GetElement p i)
    then show ?thesis using get_element_valid [OF ok] by (auto simp: call_ok_def good_refl ok split: option.splits)
  next
    case (SetElement p i v)
    then show ?thesis using set_element_good [OF ok] a by (auto simp: call_ok_def split: option.splits)
  next
    case (SetRegion p st n b)
    then show ?thesis using set_region_good [OF ok] by (auto simp: call_ok_def split: option.splits)
  next
    case (GetRegion p st n)
    then show ?thesis by (auto simp: call_ok_def good_refl ok split: option.splits)
  next
    case (CallVoid f m)
    then show ?thesis using quit_good [OF ok] by (simp add: call_ok_def)
  qed (use s a ok in \<open>simp_all add: simps call_ref call_same answers_make_class answers_obj_new answers_call_object answers_static
      answers_field answers_static_field answers_new_utf16 answers_new_string new_array_typed answers_direct answers_motion\<close>)
qed

section \<open>A call that is ready has an answer\<close>

lemma alloc_pool: "alloc j = (m, j') \<Longrightarrow> pool j' = drop 1 (pool j) \<and> (has_memory 1 j \<longrightarrow> m \<noteq> None)"
  by (cases "pool j") (auto simp: alloc_def has_memory_def)

lemma dup_opt_pool: "dup_opt s j = (t, j') \<Longrightarrow> pool j' = drop (if s = None then 0 else 1) (pool j)"
  by (cases "alloc j") (auto simp: dup_opt_def xstrdup_def dest!: alloc_pool split: if_splits)

lemma obj_new_memory:
  assumes "obj_new k c n s j = (p, j')"
  shows "\<exists>i. pool j' = drop (Suc i) (pool j) \<and> i \<le> 3" "p \<noteq> 0 \<Longrightarrow> pool j \<noteq> [] \<and> hd (pool j) = Some p" "n = None \<Longrightarrow> s = None \<Longrightarrow> pool j' = drop 2 (pool j) \<or> pool j' = drop 1 (pool j)"
proof -
  obtain m j0 where a: "alloc j = (m, j0)" by fastforce
  obtain c' j1 where 1: "dup_opt c j0 = (c', j1)" by fastforce
  obtain n' j2 where 2: "dup_opt n j1 = (n', j2)" by fastforce
  obtain s' j3 where 3: "dup_opt s j2 = (s', j3)" by fastforce
  note d = alloc_pool [OF a] dup_opt_pool [OF 1] dup_opt_pool [OF 2] dup_opt_pool [OF 3]
  have r: "pool j' = pool (if m = None then j0 else j3)" using assms a 1 2 3 by (auto simp: obj_new_def)
  show "\<exists>i. pool j' = drop (Suc i) (pool j) \<and> i \<le> 3"
    using r d by (cases m) (auto intro: exI [of _ 0] exI [of _ "1 :: nat"] exI [of _ "2 :: nat"] exI [of _ "3 :: nat"])
  show "p \<noteq> 0 \<Longrightarrow> pool j \<noteq> [] \<and> hd (pool j) = Some p"
    using assms a 1 2 3 by (cases "pool j"; cases m) (auto simp: obj_new_def alloc_def)
  show "n = None \<Longrightarrow> s = None \<Longrightarrow> pool j' = drop 2 (pool j) \<or> pool j' = drop 1 (pool j)"
    using r d by (cases m; cases c) (simp_all add: numeral_2_eq_2)
qed

lemma obj_new_object:
  assumes s: "start_ok j" and m: "has_memory 1 j" and n: "obj_new k c n s' j = (p, j')"
  shows "\<exists>o1. as_obj j' p = Some o1"
proof -
  from n show ?thesis
  proof (cases rule: obj_new_cases)
    case (fail ps)
    obtain a j0 where a: "alloc j = (a, j0)" by fastforce
    then obtain q where q: "a = Some q" using alloc_pool m by blast
    then have "q \<noteq> 0" using a s by (auto simp: alloc_def start_ok_def fresh_memory_def split: list.splits)
    moreover have "p = q" using n a q by (auto simp: obj_new_def split: prod.splits)
    ultimately show ?thesis using fail by simp
  next
    case (new ps c' n' s2 l)
    then have "p \<noteq> 0" using s by (auto simp: start_ok_def fresh_memory_def)
    then show ?thesis using new by (simp add: as_obj_def)
  qed
qed

lemma has_memory_3:
  assumes "has_memory 3 j"
  shows "has_memory 1 j" "pool j' = drop 2 (pool j) \<or> pool j' = drop 1 (pool j) \<Longrightarrow> has_memory 1 j'"
proof -
  obtain x y z r where "pool j = x # y # z # r"
    using assms by (cases "pool j"; cases "tl (pool j)"; cases "tl (tl (pool j))") (auto simp: has_memory_def)
  then show "has_memory 1 j" "pool j' = drop 2 (pool j) \<or> pool j' = drop 1 (pool j) \<Longrightarrow> has_memory 1 j'"
    using assms by (auto simp: has_memory_def numeral_3_eq_3 numeral_2_eq_2)
qed

lemma object_array_ready:
  assumes s: "start_ok j" and r: "init = 0 \<or> n \<le>s 0 \<or> has_memory 3 j"
  shows "j_NewObjectArray n init j \<noteq> None"
proof
  assume none: "j_NewObjectArray n init j = None"
  obtain p j1 where a: "array_new (scast n) 8 ''[Ljava/lang/Object;'' j = (p, j1)" by fastforce
  from none a obtain o1 where o: "as_obj j1 p = Some o1" "init \<noteq> 0" "0 <s n" and nb: "\<And>bs. payload o1 \<noteq> Block bs"
    by (auto simp: j_NewObjectArray_def Let_def split: option.splits payload.splits if_splits)
  then have m: "has_memory 3 j" using r by (auto simp: word_sless_alt word_sle_eq)
  obtain q j0 where b: "obj_new FK_ARRAY (Some ''[Ljava/lang/Object;'') None None j = (q, j0)" by fastforce
  from obj_new_object [OF s has_memory_3(1) [OF m] b] obtain o0 where o0: "as_obj j0 q = Some o0" by blast
  have p0: "has_memory 1 j0"
    using has_memory_3(2) [OF m] obj_new_memory(3) [OF b refl refl] by blast
  have nn: "0 \<le>s n" "n \<noteq> 0" using o(3) by (auto simp: word_sless_alt word_sle_eq)
  have sz: "unat (scast n :: u64) = unat n" "unat n < 2 ^ 31" using scast_nonneg [OF nn(1)] by blast+
  obtain b' j2 where c: "calloc_block (if scast n = (0 :: u64) then 1 else unat (scast n :: u64)) 8 j0 = (b', j2)" by fastforce
  have "b' \<noteq> None"
  proof -
    obtain mm jj where al: "alloc j0 = (mm, jj)" by fastforce
    have "(if scast n = (0 :: u64) then 1 else unat (scast n :: u64)) * 8 < 2 ^ 63" using sz by simp
    then show ?thesis using c al alloc_pool [OF al] p0 by (auto simp: calloc_block_def)
  qed
  then have "\<exists>bs. payload o1 = Block bs"
    using a b o0 c o(1) as_obj_SomeD [OF o0] by (auto simp: array_new_def as_obj_def put_obj_def)
  then show False using nb by blast
qed

lemma new_object_ready:
  assumes s: "start_ok j" and m: "has_memory 1 j"
  shows "j_NewObject f c m' args j \<noteq> None"
proof -
  obtain p j1 where n: "make_object (Some (constructed_class j c)) j = (p, j1)" by fastforce
  obtain o1 where o: "as_obj j1 p = Some o1" using obj_new_object [OF s m] n unfolding make_object_def by blast
  have "name_file p x j1 \<noteq> None" for x
  proof -
    obtain t j2 where t: "xstrdup (Some (jni_string_utf8 j1 x)) j1 = (t, j2)" by fastforce
    obtain ps where "j2 = j1\<lparr>pool := ps\<rparr>" using xstrdup_effect [OF t] by blast
    then show ?thesis using o t by (auto simp: name_file_def as_obj_def split: if_splits)
  qed
  then show ?thesis using n by (auto simp: j_NewObject_def)
qed

end
