(* ===== verification/JniSafe.thy ===== *)
theory JniSafe
  imports JniSystem
begin

text \<open>
  The states that native code can bring the fake Java heap to, and the typing theorem: no call
  leaves the heap ill typed, every answer has the type of its call, and no call goes wrong as long
  as the allocator has memory for it and arrays are used at their type.
\<close>

section \<open>Accesses stay in bounds\<close>

lemma element_ready:
  assumes ok: "jni_ok j" and o: "as_obj j p = Some o1" "in_array o1 i" "payload o1 = Refs rs"
  shows "unat i < length rs"
proof -
  have t: "length rs = max 1 (unat (osize o1))"
    using objs_typed [OF ok] as_obj_SomeD [OF o(1)] o(2,3) by (fastforce simp: typed_obj_def array_typed_def in_array_def)
  have "0 \<le>s i" "scast i < osize o1" using o(2) by (simp_all add: in_array_def)
  then have "unat i < unat (osize o1)" using scast_nonneg by (metis unat_mono)
  then show ?thesis using t by simp
qed

lemma region_ready:
  assumes ok: "jni_ok j" and o: "as_obj j p = Some o1" "in_region o1 s n" "payload o1 = Block bs"
  shows "unat s + unat n \<le> length bs"
proof -
  have k: "kind o1 = FK_ARRAY" using objs_typed [OF ok] as_obj_SomeD [OF o(1)] o(3) by (cases "kind o1") (fastforce simp: typed_obj_def)+
  then obtain e where e: "length bs = e * max 1 (unat (osize o1))" "length bs < 2 ^ 63" "e \<in> {1, 2, 4, 8}"
    using objs_typed [OF ok] as_obj_SomeD [OF o(1)] o(3) by (fastforce simp: typed_obj_def array_typed_def)
  then have m: "unat (osize o1) \<le> length bs" by auto
  have r: "0 \<le>s s" "0 \<le>s n" "scast (s + n) \<le> osize o1" using o(2) by (simp_all add: in_region_def)
  have b: "unat s < 2 ^ 31" "unat n < 2 ^ 31" using scast_nonneg r(1,2) by blast+
  then have u: "unat (s + n) = unat s + unat n" by (simp add: unat_word_ariths)
  have le: "unat (scast (s + n) :: u64) \<le> unat (osize o1)" using r(3) by (simp add: word_le_nat_alt)
  then have "0 \<le>s s + n" using scast_neg [of "s + n"] e(2) m by linarith
  then have "unat (scast (s + n) :: u64) = unat s + unat n" using scast_nonneg u by metis
  then show ?thesis using le m by linarith
qed

lemma jni_exec_ready:
  assumes s: "start_ok j" and r: "ready j x"
  shows "jni_exec h x j \<noteq> None"
proof -
  have ok: "jni_ok j" using s by (simp add: start_ok_def)
  show ?thesis
  proof (cases x)
    case (NewObject f c m args)
    then show ?thesis using new_object_ready [OF s] r by (auto simp: ref_answer_def split: option.split)
  next
    case (NewObjectArray n i)
    then show ?thesis using object_array_ready [OF s] r by (auto simp: ref_answer_def split: option.split)
  next
    case (GetStringChars p)
    then show ?thesis by (simp split: prod.split)
  next
    case (GetElement p i)
    then show ?thesis using r element_ready [OF ok]
      by (fastforce simp: j_GetObjectArrayElement_def split: option.split)
  next
    case (SetElement p i v)
    then show ?thesis using r element_ready [OF ok]
      by (fastforce simp: j_SetObjectArrayElement_def split: option.split)
  next
    case (GetRegion p st n)
    have "j_GetByteArrayRegion p st n j \<noteq> None"
    proof (cases "as_obj j p")
      case (Some o1)
      then show ?thesis using r GetRegion region_ready [OF ok Some, of st n]
        by (cases "payload o1") (auto simp: j_GetByteArrayRegion_def in_region_def)
    qed (simp add: j_GetByteArrayRegion_def)
    then show ?thesis using GetRegion by auto
  next
    case (SetRegion p st n b)
    have "j_SetByteArrayRegion p st n b j \<noteq> None"
    proof (cases "as_obj j p")
      case (Some o1)
      then show ?thesis using r SetRegion region_ready [OF ok Some, of st n]
        by (cases "payload o1") (auto simp: j_SetByteArrayRegion_def in_region_def)
    qed (simp add: j_SetByteArrayRegion_def)
    then show ?thesis using SetRegion by auto
  qed (simp_all add: ref_answer_def)
qed

section \<open>Reachable heaps\<close>

definition jni_zero :: "jni" where
  "jni_zero = \<lparr>objs = (\<lambda>p. None), listed = [], pool = [], quit_requested = False, context_obj = 0, motion_obj = 0,
     clones = replicate 8 0, next_slot = 0\<rparr>"

text \<open>
  What the allocator may answer in the course of one call: blocks that are not null, not among the
  objects, and different from one another.  (Memory freed within a call is freed at its end.)
\<close>

definition allocator :: "jni \<Rightarrow> u64 option list \<Rightarrow> bool" where
  "allocator j ms \<longleftrightarrow> (\<forall>a. Some a \<in> set ms \<longrightarrow> a \<noteq> 0 \<and> objs j a = None) \<and> distinct (filter (\<lambda>m. m \<noteq> None) ms)"

inductive jni_reach :: "jni_host \<Rightarrow> jni \<Rightarrow> bool" for h where
  reach_init: "allocator jni_zero ms \<Longrightarrow> jni_reach h (jni_init (jni_zero\<lparr>pool := ms\<rparr>))"
| reach_call: "jni_reach h j \<Longrightarrow> allocator j ms \<Longrightarrow> args_ok j x \<Longrightarrow> jni_exec h x (j\<lparr>pool := ms\<rparr>) = Some (v, j') \<Longrightarrow> jni_reach h j'"

lemma zero_ok: "jni_ok (jni_zero\<lparr>pool := ms\<rparr>)"
  by (simp add: jni_ok_def heap_typed_def jni_zero_def isref_def valref_def)

lemma allocator_start: "jni_ok j \<Longrightarrow> allocator j ms \<Longrightarrow> start_ok (j\<lparr>pool := ms\<rparr>)"
  using pool_change [of j ms] by (simp add: start_ok_def good_step_def fresh_memory_def allocator_def)

lemma allocator_next:
  assumes a: "allocator j (pool j)" and n: "obj_new k c n s j = (p, j')"
  shows "allocator j' (pool j')"
proof -
  obtain i where i: "pool j' = drop (Suc i) (pool j)" using obj_new_memory(1) [OF n] by blast
  have sub: "set (pool j') \<subseteq> set (tl (pool j))" unfolding i by (simp add: drop_Suc set_drop_subset)
  have d: "distinct (filter (\<lambda>m. m \<noteq> None) (pool j'))"
    using a distinct_drop unfolding i allocator_def
    by (metis append_take_drop_id distinct_append filter_append)
  have "Some a' \<in> set (pool j') \<Longrightarrow> a' \<noteq> 0 \<and> objs j' a' = None" for a'
  proof -
    assume m: "Some a' \<in> set (pool j')"
    then have t: "Some a' \<in> set (tl (pool j))" using sub by blast
    then have "Some a' \<in> set (pool j)" by (cases "pool j") auto
    then have f: "a' \<noteq> 0" "objs j a' = None" using a by (auto simp: allocator_def)
    have "objs j' a' = None"
      using n
    proof (cases rule: obj_new_cases)
      case (fail ps)
      then show ?thesis using f by simp
    next
      case (new ps c' n' s' l)
      have "p \<noteq> 0" using new(1) a by (auto simp: allocator_def)
      then have "pool j \<noteq> []" "hd (pool j) = Some p" using obj_new_memory(2) [OF n] by blast+
      then have "a' \<noteq> p" using t a by (cases "pool j") (auto simp: allocator_def)
      then show ?thesis using new(4) f by simp
    qed
    then show "a' \<noteq> 0 \<and> objs j' a' = None" using f by blast
  qed
  then show ?thesis using d by (simp add: allocator_def)
qed

lemma init_ok:
  assumes "allocator jni_zero ms"
  shows "jni_ok (jni_init (jni_zero\<lparr>pool := ms\<rparr>))"
proof -
  let ?z = "jni_zero\<lparr>pool := ms, quit_requested := False\<rparr>"
  have z: "?z = jni_zero\<lparr>pool := ms\<rparr>" by (simp add: jni_zero_def)
  have a0: "allocator ?z (pool ?z)" using assms by (simp add: allocator_def)
  have o0: "jni_ok ?z" unfolding z by (rule zero_ok)
  obtain p j1 where 1: "make_object (Some ''android/app/Activity'') ?z = (p, j1)" by fastforce
  note m1 = 1 [unfolded make_object_def]
  have s0: "start_ok ?z" using o0 a0 by (simp add: start_ok_def fresh_memory_def allocator_def)
  have g1: "jni_ok j1" "isref j1 FK_OBJECT p" using obj_new_good [OF _ _ m1] s0 by (auto simp: start_ok_def good_step_def)
  have a1: "allocator j1 (pool j1)" by (rule allocator_next [OF a0 m1])
  have o1: "jni_ok (j1\<lparr>context_obj := p\<rparr>)" using g1 by (auto simp: jni_ok_def heap_typed_def isref_def valref_def)
  obtain q j2 where 2: "make_object (Some ''com/unity3d/player/UnityPlayer'') (j1\<lparr>context_obj := p\<rparr>) = (q, j2)" by fastforce
  note m2 = 2 [unfolded make_object_def]
  have a1': "allocator (j1\<lparr>context_obj := p\<rparr>) (pool (j1\<lparr>context_obj := p\<rparr>))" using a1 by (simp add: allocator_def)
  have g2: "jni_ok j2" using obj_new_good(1) [OF o1 _ m2] a1' by (auto simp: good_step_def fresh_memory_def allocator_def)
  have a2: "allocator j2 (pool j2)" by (rule allocator_next [OF a1' m2])
  obtain r j3 where 3: "make_object (Some ''android/view/Surface'') j2 = (r, j3)" by fastforce
  have "jni_ok j3" using obj_new_good(1) [OF g2 _ 3 [unfolded make_object_def]] a2 by (auto simp: good_step_def fresh_memory_def allocator_def)
  then show ?thesis using 1 2 3 by (simp add: jni_init_def)
qed

lemma reach_ok: "jni_reach h j \<Longrightarrow> jni_ok j"
proof (induction rule: jni_reach.induct)
  case (reach_init ms)
  then show ?case by (rule init_ok)
next
  case (reach_call j ms x v j')
  have "args_ok (j\<lparr>pool := ms\<rparr>) x" using reach_call(3) by (cases x) (auto simp: valref_def)
  from jni_exec_typed [OF allocator_start [OF reach_call(5,2)] this] reach_call(4)
  show ?case by (auto simp: call_ok_def good_step_def)
qed

text \<open>
  An array of objects with a negative length is created without data but with a huge size: its
  length is negative, and the first access to an element goes through the null pointer.
\<close>

lemma negative_array:
  "\<exists>j'. j_NewObjectArray (- 1) 0 (jni_zero\<lparr>pool := [Some 16, Some 32, Some 48]\<rparr>) = Some (16, j') \<and>
     j_GetArrayLength 16 j' = - 1 \<and> j_GetObjectArrayElement 16 0 j' = None"
proof -
  have m: "unat (- 1 :: u64) = 18446744073709551615" by (simp add: unsigned_minus_1_eq_mask mask_eq_exp_minus_1)
  then have l: "0 < (- 1 :: u64)" by (simp add: word_less_nat_alt)
  have u: "ucast (- 1 :: u64) = (- 1 :: u32)" by (rule bit_word_eqI) (simp add: bit_ucast_iff)
  show ?thesis
    by (simp add: m l u j_NewObjectArray_def array_new_def obj_new_def dup_opt_def xstrdup_def alloc_def calloc_block_def jni_zero_def
      as_obj_def put_obj_def j_GetArrayLength_def j_GetObjectArrayElement_def in_array_def)
qed

text \<open>
  C15. The fake Java heap is typed.  In every state that native code can reach by calls of the JNI
  table, whatever the allocator answers, each object's data agree with its kind (numbers of the
  width of the class of the array, as many as its length; references for an array of objects; an
  address of the guest for a direct buffer), and all references that are kept are null or point to
  objects.  A call answers a value of its type, classes for \<^verbatim>\<open>FindClass\<close>, method identifiers for
  \<^verbatim>\<open>GetMethodID\<close>, strings for the methods that answer strings, and so on; it leaves the heap typed,
  and every object that existed keeps its kind, class, length and extent.  A call that is \<open>ready\<close>
  always answers: no access goes through a null pointer, outside its array, or to data of another
  type.
\<close>

theorem jni_typed:
  assumes r: "jni_reach h j" and m: "allocator j ms" and a: "args_ok j x"
  shows "jni_ok j
    \<and> (\<forall>v j'. jni_exec h x (j\<lparr>pool := ms\<rparr>) = Some (v, j') \<longrightarrow> jni_ok j' \<and> keeps_objs j j' \<and> has_type j' v (jop_type j x))
    \<and> (ready (j\<lparr>pool := ms\<rparr>) x \<longrightarrow> jni_exec h x (j\<lparr>pool := ms\<rparr>) \<noteq> None)"
proof (intro conjI allI impI)
  show ok: "jni_ok j" by (rule reach_ok [OF r])
  note s = allocator_start [OF ok m]
  have "as_obj (j\<lparr>pool := ms\<rparr>) p = as_obj j p" for p by (simp add: as_obj_def)
  then have t: "jop_type (j\<lparr>pool := ms\<rparr>) x = jop_type j x" by (cases x) auto
  have a': "args_ok (j\<lparr>pool := ms\<rparr>) x" using a by (cases x) (auto simp: valref_def)
  fix v j'
  assume "jni_exec h x (j\<lparr>pool := ms\<rparr>) = Some (v, j')"
  then have "good_step (j\<lparr>pool := ms\<rparr>) j' \<and> has_type j' v (jop_type j x)"
    using jni_exec_typed [OF s a', of h] by (simp add: call_ok_def t)
  then show "jni_ok j'" "keeps_objs j j'" "has_type j' v (jop_type j x)" by (simp_all add: good_step_def keeps_objs_def)
next
  assume "ready (j\<lparr>pool := ms\<rparr>) x"
  then show "jni_exec h x (j\<lparr>pool := ms\<rparr>) \<noteq> None"
    by (rule jni_exec_ready [OF allocator_start [OF reach_ok [OF r] m]])
qed

definition sample_jni_host :: jni_host where
  "sample_jni_host = \<lparr>h_package = None, h_version = None, h_version_code = 7, h_min_sdk = 23, h_target_sdk = 33, h_width = 1280, h_height = 720\<rparr>"

definition sample_jni :: jni where
  "sample_jni = jni_init (jni_zero\<lparr>pool := map Some [16, 24, 32, 40, 48, 56]\<rparr>)"

lemma sample_jni_reach: "jni_reach sample_jni_host sample_jni"
  unfolding sample_jni_def by (rule reach_init) (auto simp: allocator_def jni_zero_def)

lemma sample_jni_objs: "objs sample_jni 16 \<noteq> None" "objs sample_jni 64 = None" "objs sample_jni 72 = None" "objs sample_jni 80 = None"
  by (simp_all add: sample_jni_def jni_init_def make_object_def obj_new_def dup_opt_def xstrdup_def alloc_def jni_zero_def)

theorem jni_typed_witness:
  "\<exists>p j'. jni_exec sample_jni_host (NewObjectArray 2 16) (sample_jni\<lparr>pool := map Some [64, 72, 80]\<rparr>) = Some (JRef p, j') \<and> isref j' FK_ARRAY p"
proof -
  have m: "allocator sample_jni (map Some [64, 72, 80])" using sample_jni_objs by (auto simp: allocator_def)
  have a: "args_ok sample_jni (NewObjectArray 2 16)" using sample_jni_objs by (simp add: valref_def)
  note t = jni_typed [OF sample_jni_reach m a]
  have "ready (sample_jni\<lparr>pool := map Some [64, 72, 80]\<rparr>) (NewObjectArray 2 16)" by (simp add: has_memory_def numeral_3_eq_3)
  then obtain v j' where e: "jni_exec sample_jni_host (NewObjectArray 2 16) (sample_jni\<lparr>pool := map Some [64, 72, 80]\<rparr>) = Some (v, j')"
    using t by fastforce
  then have "has_type j' v (TRef FK_ARRAY)" using t by simp
  then show ?thesis using e by (cases v) auto
qed

end
