(* ===== verification/Polling.thy ===== *)
theory Polling
  imports FakeFd
begin

text \<open>
  Waiting for several descriptors (\<^verbatim>\<open>nx_poll\<close> of \<^verbatim>\<open>source/imports.c\<close>).  The code asks in turn for
  every descriptor whether it is ready, the emulated pipes through \<^verbatim>\<open>fakefd_ready\<close>, any other through
  the host's own \<^verbatim>\<open>poll\<close>, and sleeps a millisecond between two passes.  Other threads run all the
  time, so \<open>T k i\<close> is the descriptor table when the entry \<open>i\<close> is looked at in the pass \<open>k\<close>, and
  \<open>H k i\<close> what the host answers there: the result of its call and the events it stores.
\<close>

section \<open>One descriptor\<close>

definition POLLIN :: u16 where "POLLIN = 0x01"
definition POLLPRI :: u16 where "POLLPRI = 0x02"
definition POLLOUT :: u16 where "POLLOUT = 0x04"
definition POLLERR :: u16 where "POLLERR = 0x08"
definition POLLHUP :: u16 where "POLLHUP = 0x10"
definition POLLNVAL :: u16 where "POLLNVAL = 0x20"

lemmas poll_defs = POLLIN_def POLLPRI_def POLLOUT_def POLLERR_def POLLHUP_def POLLNVAL_def

text \<open>The bits of \<^verbatim>\<open>fakefd_ready\<close>; it never faults in a reachable table.\<close>

definition ready_bits :: "int \<Rightarrow> fds \<Rightarrow> u32" where
  "ready_bits fd s = (case fakefd_ready fd s of Ret r \<Rightarrow> r | _ \<Rightarrow> 0)"

definition nx_fake_poll_revents :: "int \<Rightarrow> u16 \<Rightarrow> fds \<Rightarrow> u16" where
  "nx_fake_poll_revents fd events s =
     (if \<not> fakefd_is_open fd s then POLLNVAL
      else
        let r = ready_bits fd s
        in (if r AND ASNX_FD_READY_READ \<noteq> 0 \<and> events AND (POLLIN OR POLLPRI) \<noteq> 0 then events AND (POLLIN OR POLLPRI) else 0) OR
           (if r AND ASNX_FD_READY_WRITE \<noteq> 0 \<and> events AND POLLOUT \<noteq> 0 then POLLOUT else 0) OR
           (if r AND ASNX_FD_READY_HUP \<noteq> 0 then POLLHUP else 0) OR
           (if r AND ASNX_FD_READY_ERR \<noteq> 0 then POLLERR else 0))"

text \<open>The events of one entry; \<open>None\<close> when the host's call fails.\<close>

definition poll_entry :: "fds \<Rightarrow> int \<times> u16 \<Rightarrow> int \<times> u16 \<Rightarrow> u16 option" where
  "poll_entry s h e =
     (case (h, e) of ((pr, one), (fd, events)) \<Rightarrow>
        if fd < 0 then Some 0
        else if fakefd_is_range fd then Some (nx_fake_poll_revents fd events s)
        else if pr < 0 then None
        else if 0 < pr then Some one
        else Some 0)"

section \<open>A pass and the loop\<close>

text \<open>A pass answers the events stored so far and whether it went through to the end.\<close>

fun poll_pass :: "(nat \<Rightarrow> fds) \<Rightarrow> (nat \<Rightarrow> int \<times> u16) \<Rightarrow> nat \<Rightarrow> (int \<times> u16) list \<Rightarrow> u16 list \<times> bool" where
  "poll_pass T H i [] = ([], True)"
| "poll_pass T H i (e # es) =
     (case poll_entry (T i) (H i) e of
        None \<Rightarrow> ([], False)
      | Some r \<Rightarrow> (case poll_pass T H (Suc i) es of (rs, ok) \<Rightarrow> (r # rs, ok)))"

definition ready_count :: "u16 list \<Rightarrow> nat" where
  "ready_count rs = count_where (\<lambda>r. r \<noteq> 0) rs"

text \<open>
  The loop; it answers the result, the events behind the entries and the number of the last pass.
  With a negative time it may never end.
\<close>

partial_function (option) poll_loop ::
  "(nat \<Rightarrow> nat \<Rightarrow> fds) \<Rightarrow> (nat \<Rightarrow> nat \<Rightarrow> int \<times> u16) \<Rightarrow> (int \<times> u16) list \<Rightarrow> int \<Rightarrow> nat \<Rightarrow> int \<Rightarrow> u16 list \<Rightarrow> (int \<times> u16 list \<times> nat) option"
where
  "poll_loop T H es timeout k remaining old =
     (case poll_pass (T k) (H k) 0 es of (rs, ok) \<Rightarrow>
        let revs = rs @ drop (length rs) old
        in if \<not> ok then Some (- 1, revs, k)
           else if ready_count rs \<noteq> 0 \<or> timeout = 0 then Some (int (ready_count rs), revs, k)
           else if 0 < timeout \<and> remaining \<le> 0 then Some (0, revs, k)
           else
             let sleep_ms = (if timeout < 0 \<or> 1 < remaining then 1 else remaining)
             in if sleep_ms \<le> 0 then Some (0, revs, k)
                else poll_loop T H es timeout (Suc k) (if 0 < timeout then remaining - sleep_ms else remaining) revs)"

text \<open>Without emulated descriptors the host does it all; \<open>whole\<close> is its answer.\<close>

definition nx_poll :: "(nat \<Rightarrow> nat \<Rightarrow> fds) \<Rightarrow> (nat \<Rightarrow> nat \<Rightarrow> int \<times> u16) \<Rightarrow> int \<times> u16 list \<Rightarrow> (int \<times> u16) list option \<Rightarrow> nat \<Rightarrow> int \<Rightarrow> u16 list \<Rightarrow> (int \<times> u16 list \<times> nat) option" where
  "nx_poll T H whole fds nfds timeout old =
     (case fds of
        None \<Rightarrow> (if nfds \<noteq> 0 then Some (- 1, old, 0) else Some (fst whole, snd whole, 0))
      | Some es \<Rightarrow>
          if \<exists>e \<in> set es. fakefd_is_range (fst e) then poll_loop T H es timeout 0 timeout old
          else Some (fst whole, snd whole, 0))"

section \<open>What the loop answers\<close>

lemma poll_pass_length: "poll_pass T H i es = (rs, ok) \<Longrightarrow> ok \<Longrightarrow> length rs = length es"
  by (induction es arbitrary: i rs) (auto split: option.splits prod.splits)

lemma poll_pass_prefix: "length (fst (poll_pass T H i es)) \<le> length es"
  by (induction es arbitrary: i) (auto split: option.splits prod.splits, metis fst_conv)

lemma poll_pass_nth:
  "poll_pass T H i es = (rs, ok) \<Longrightarrow> k < length rs \<Longrightarrow> poll_entry (T (i + k)) (H (i + k)) (es ! k) = Some (rs ! k)"
proof (induction es arbitrary: i rs k)
  case (Cons e es)
  then obtain r rs' where r: "poll_entry (T i) (H i) e = Some r" "rs = r # rs'" "poll_pass T H (Suc i) es = (rs', ok)"
    by (auto split: option.splits prod.splits)
  show ?case using Cons.IH [OF r(3)] Cons.prems(2) r by (cases k) auto
qed simp

text \<open>The passes that end the wait: the host failed, or a descriptor has events.\<close>

definition ends :: "(nat \<Rightarrow> nat \<Rightarrow> fds) \<Rightarrow> (nat \<Rightarrow> nat \<Rightarrow> int \<times> u16) \<Rightarrow> (int \<times> u16) list \<Rightarrow> nat \<Rightarrow> bool" where
  "ends T H es k \<longleftrightarrow> \<not> snd (poll_pass (T k) (H k) 0 es) \<or> ready_count (fst (poll_pass (T k) (H k) 0 es)) \<noteq> 0"

definition pass_answer :: "(nat \<Rightarrow> nat \<Rightarrow> fds) \<Rightarrow> (nat \<Rightarrow> nat \<Rightarrow> int \<times> u16) \<Rightarrow> (int \<times> u16) list \<Rightarrow> nat \<Rightarrow> int" where
  "pass_answer T H es k =
     (if snd (poll_pass (T k) (H k) 0 es) then int (ready_count (fst (poll_pass (T k) (H k) 0 es))) else - 1)"

definition pass_events :: "(nat \<Rightarrow> nat \<Rightarrow> fds) \<Rightarrow> (nat \<Rightarrow> nat \<Rightarrow> int \<times> u16) \<Rightarrow> (int \<times> u16) list \<Rightarrow> nat \<Rightarrow> u16 list" where
  "pass_events T H es k = fst (poll_pass (T k) (H k) 0 es)"

text \<open>One round of the loop.\<close>

lemma poll_loop_ends:
  assumes "ends T H es k"
  shows "\<exists>revs. poll_loop T H es timeout k remaining old = Some (pass_answer T H es k, revs, k) \<and>
    take (length (pass_events T H es k)) revs = pass_events T H es k"
  using assms by (subst poll_loop.simps) (auto simp: ends_def pass_answer_def pass_events_def Let_def split: prod.split)

lemma poll_loop_goes_on:
  assumes "\<not> ends T H es k" "timeout < 0 \<or> 0 < timeout \<and> 0 < remaining"
  shows "\<exists>revs. poll_loop T H es timeout k remaining old = poll_loop T H es timeout (Suc k) (if 0 < timeout then remaining - 1 else remaining) revs"
proof -
  obtain rs where p: "poll_pass (T k) (H k) 0 es = (rs, True)" "ready_count rs = 0"
    using assms(1) by (cases "poll_pass (T k) (H k) 0 es") (simp add: ends_def)
  have s: "(if timeout < 0 \<or> 1 < remaining then 1 else remaining) = 1" using assms(2) by auto
  have "poll_loop T H es timeout k remaining old =
      poll_loop T H es timeout (Suc k) (if 0 < timeout then remaining - 1 else remaining) (rs @ drop (length rs) old)"
    using assms(2) p by (subst poll_loop.simps) (auto simp add: Let_def s)
  then show ?thesis by blast
qed

lemma poll_loop_times_out:
  assumes "\<not> ends T H es k" "timeout = 0 \<or> 0 < timeout \<and> remaining \<le> 0"
  shows "\<exists>revs. poll_loop T H es timeout k remaining old = Some (0, revs, k)"
  using assms by (subst poll_loop.simps) (auto simp: ends_def Let_def ready_count_def split: prod.split)

text \<open>Rounds that do not end the wait, as long as there is time.\<close>

lemma poll_loop_run:
  assumes "\<And>m. k \<le> m \<Longrightarrow> m < k + d \<Longrightarrow> \<not> ends T H es m" "timeout < 0 \<or> 0 < timeout \<and> int d \<le> remaining"
  shows "\<exists>revs. poll_loop T H es timeout k remaining old =
    poll_loop T H es timeout (k + d) (if 0 < timeout then remaining - int d else remaining) revs"
  using assms
proof (induction d arbitrary: k remaining old)
  case 0
  then show ?case by (intro exI [of _ old]) simp
next
  case (Suc d)
  obtain r1 where 1: "poll_loop T H es timeout k remaining old =
      poll_loop T H es timeout (Suc k) (if 0 < timeout then remaining - 1 else remaining) r1"
    using poll_loop_goes_on [of T H es k timeout remaining old] Suc.prems by fastforce
  have "\<exists>revs. poll_loop T H es timeout (Suc k) (if 0 < timeout then remaining - 1 else remaining) r1 =
      poll_loop T H es timeout (Suc k + d) (if 0 < timeout then (if 0 < timeout then remaining - 1 else remaining) - int d
        else (if 0 < timeout then remaining - 1 else remaining)) revs"
    by (rule Suc.IH) (use Suc.prems in auto)
  then show ?case unfolding 1 by (cases "0 < timeout") (simp_all add: algebra_simps)
qed

text \<open>A wait without a limit answers only after a pass that ends it.\<close>

lemma poll_loop_Some:
  assumes "poll_loop T H es timeout k remaining old = Some x" and "timeout < 0"
  shows "ends T H es (snd (snd x))"
  using assms(2)
proof (induction rule: poll_loop.raw_induct [OF _ assms(1)])
  case (1 self T H es timeout k remaining old x)
  obtain rs ok where p: "poll_pass (T k) (H k) 0 es = (rs, ok)" by fastforce
  show ?case
  proof (cases "\<not> ok \<or> ready_count rs \<noteq> 0")
    case True
    then have "snd (snd x) = k" using "1.hyps" "1.prems" p by (auto simp: Let_def split: if_splits)
    then show ?thesis using True p by (simp add: ends_def)
  next
    case False
    then have "self T H es timeout (Suc k) remaining (rs @ drop (length rs) old) = Some x"
      using "1.hyps" "1.prems" p by (auto simp: Let_def split: if_splits)
    from "1.IH" [OF this "1.prems"] show ?thesis .
  qed
qed

text \<open>The input event of a pipe is reported exactly when it is asked for and the read end is ready.\<close>

lemma fake_revents_input:
  "nx_fake_poll_revents fd events s AND POLLIN \<noteq> 0 \<longleftrightarrow>
     fakefd_is_open fd s \<and> events AND POLLIN \<noteq> 0 \<and> ready_bits fd s AND ASNX_FD_READY_READ \<noteq> 0"
proof -
  have "events AND 3 \<noteq> 0" if "odd events"
  proof -
    have "odd (events AND 3)" using that by (simp add: even_and_iff)
    then show ?thesis by auto
  qed
  then show ?thesis
    by (auto simp: nx_fake_poll_revents_def poll_defs Let_def and_one_eq mod2_eq_if even_or_iff even_and_iff)
qed

text \<open>
  C34. Waiting for descriptors, some of them emulated, answers at the first moment it can and never
  waits too long.  If a pass finds events, or the host fails, and the time allows for that many
  milliseconds, the call answers in the first such pass: the number of descriptors with events, or
  -1, and each entry it has looked at carries exactly the events of its descriptor at that moment.
  If no pass within the time does, the call answers 0 after exactly \<open>timeout\<close> sleeps of one
  millisecond.  It fails to return only when it has no time limit and no pass ever ends the wait.
\<close>

theorem poll_answers:
  assumes "\<exists>e \<in> set es. fakefd_is_range (fst e)"
  shows "(\<forall>n. ends T H es n \<and> (\<forall>m < n. \<not> ends T H es m) \<and> (timeout < 0 \<or> int n \<le> timeout) \<longrightarrow>
      (\<exists>revs. nx_poll T H whole (Some es) nfds timeout old = Some (pass_answer T H es n, revs, n) \<and>
        (\<forall>i < length (pass_events T H es n). poll_entry (T n i) (H n i) (es ! i) = Some (revs ! i))))
    \<and> (0 \<le> timeout \<and> (\<forall>m. int m \<le> timeout \<longrightarrow> \<not> ends T H es m) \<longrightarrow>
      (\<exists>revs. nx_poll T H whole (Some es) nfds timeout old = Some (0, revs, nat timeout)))
    \<and> (timeout < 0 \<and> (\<forall>m. \<not> ends T H es m) \<longrightarrow> nx_poll T H whole (Some es) nfds timeout old = None)"
proof (intro conjI allI impI; elim conjE)
  have e: "nx_poll T H whole (Some es) nfds timeout old = poll_loop T H es timeout 0 timeout old"
    using assms by (simp add: nx_poll_def)
  { fix n
    assume n: "ends T H es n" "\<forall>m < n. \<not> ends T H es m" "timeout < 0 \<or> int n \<le> timeout"
    have "\<exists>revs. poll_loop T H es timeout 0 timeout old = poll_loop T H es timeout n (if 0 < timeout then timeout - int n else timeout) revs"
    proof (cases "n = 0")
      case True
      then show ?thesis by auto
    next
      case False
      have "\<not> ends T H es m" if "m < n" for m using n(2) that by blast
      then show ?thesis using poll_loop_run [of 0 n T H es timeout timeout old] n(3) False by fastforce
    qed
    then obtain r0 where r0: "poll_loop T H es timeout 0 timeout old = poll_loop T H es timeout n (if 0 < timeout then timeout - int n else timeout) r0"
      by blast
    obtain revs where r: "poll_loop T H es timeout n (if 0 < timeout then timeout - int n else timeout) r0 = Some (pass_answer T H es n, revs, n)"
      "take (length (pass_events T H es n)) revs = pass_events T H es n"
      using poll_loop_ends [OF n(1)] by blast
    have "poll_entry (T n i) (H n i) (es ! i) = Some (revs ! i)" if "i < length (pass_events T H es n)" for i
    proof -
      have "poll_entry (T n (0 + i)) (H n (0 + i)) (es ! i) = Some (pass_events T H es n ! i)"
        by (rule poll_pass_nth) (use that in \<open>auto simp: pass_events_def prod_eq_iff\<close>)
      moreover have "pass_events T H es n ! i = revs ! i" using r(2) that by (metis nth_take)
      ultimately show ?thesis by simp
    qed
    then show "\<exists>revs. nx_poll T H whole (Some es) nfds timeout old = Some (pass_answer T H es n, revs, n) \<and>
        (\<forall>i < length (pass_events T H es n). poll_entry (T n i) (H n i) (es ! i) = Some (revs ! i))"
      using e r0 r(1) by auto }
  { assume t: "0 \<le> timeout" "\<forall>m. int m \<le> timeout \<longrightarrow> \<not> ends T H es m"
    show "\<exists>revs. nx_poll T H whole (Some es) nfds timeout old = Some (0, revs, nat timeout)"
    proof (cases "timeout = 0")
      case True
      then show ?thesis using e t poll_loop_times_out [of T H es 0 timeout timeout old] by auto
    next
      case False
      then obtain r0 where "poll_loop T H es timeout 0 timeout old = poll_loop T H es timeout (nat timeout) 0 r0"
        using poll_loop_run [of 0 "nat timeout" T H es timeout timeout old] t by fastforce
      moreover obtain revs where "poll_loop T H es timeout (nat timeout) 0 r0 = Some (0, revs, nat timeout)"
        using poll_loop_times_out [of T H es "nat timeout" timeout 0 r0] t False by auto
      ultimately show ?thesis using e by auto
    qed }
  { assume t: "timeout < 0" "\<forall>m. \<not> ends T H es m"
    show "nx_poll T H whole (Some es) nfds timeout old = None"
    proof (rule ccontr)
      assume "nx_poll T H whole (Some es) nfds timeout old \<noteq> None"
      then obtain x where "poll_loop T H es timeout 0 timeout old = Some x" using e by auto
      from poll_loop_Some [OF this t(1)] t(2) show False by blast
    qed }
qed

text \<open>A read end that gets a byte while the third pass is under way.\<close>

definition sample_table :: "nat \<Rightarrow> fds" where
  "sample_table k =
     \<lparr>slots = [\<lparr>fkind = FAKEFD_PIPE_READ, fpipe = Some 1, fd_flags = 0, status_flags = 0\<rparr>],
      pipes = (\<lambda>_. Some \<lparr>pdata = [7], head = 0, plength = (if k < 2 then 0 else 1), readers = 1, writers = 1\<rparr>),
      sleeping = {}\<rparr>"

lemma sample_pass:
  "poll_pass (\<lambda>_. sample_table k) (\<lambda>_. (0, 0)) 0 [(900, POLLIN)] = ([if k < 2 then 0 else POLLIN], True)"
  by (simp add: poll_entry_def fakefd_is_range_def slot_from_fd_def ASNX_FAKE_FD_BASE_def ASNX_FAKE_FD_COUNT_def sample_table_def
      nx_fake_poll_revents_def fakefd_is_open_def ready_bits_def fakefd_ready_def poll_defs ready_defs Let_def)

theorem poll_answers_witness:
  "\<exists>revs. nx_poll (\<lambda>k _. sample_table k) (\<lambda>_ _. (0, 0)) (0, []) (Some [(900, POLLIN)]) 1 5 [0] = Some (1, revs, 2)"
proof -
  let ?T = "\<lambda>k _ :: nat. sample_table k" and ?H = "\<lambda>_ _ :: nat. (0 :: int, 0 :: u16)" and ?es = "[(900 :: int, POLLIN)]"
  have e: "ends ?T ?H ?es k \<longleftrightarrow> 2 \<le> k" for k
    unfolding ends_def sample_pass by (auto simp: ready_count_def count_where_def POLLIN_def)
  have a: "pass_answer ?T ?H ?es 2 = 1"
    unfolding pass_answer_def sample_pass by (simp add: ready_count_def count_where_def POLLIN_def)
  have "\<exists>x \<in> set ?es. fakefd_is_range (fst x)"
    by (simp add: fakefd_is_range_def slot_from_fd_def ASNX_FAKE_FD_BASE_def ASNX_FAKE_FD_COUNT_def)
  from poll_answers [OF this, of ?T ?H 5 "(0, [])" 1 "[0]"] e a show ?thesis by fastforce
qed

end
