(* ===== verification/Selecting.thy ===== *)
theory Selecting
  imports Polling
begin

text \<open>
  \<^verbatim>\<open>nx_select\<close> of \<^verbatim>\<open>source/imports.c\<close>, and the sets of descriptors of Android it works on: 1024 bits in
  sixteen words.  As in \<open>Polling\<close>, \<open>T k fd\<close> is the table of the emulated pipes when the descriptor
  \<open>fd\<close> is looked at in the pass \<open>k\<close>; \<open>H k\<close> is the host's own \<^verbatim>\<open>select\<close> in that pass, from the
  three sets it gets to its result and the sets it leaves.  Times are integers: the product of the
  seconds and a million is taken to fit into 64 bits, as for every limit below 292000 years.
\<close>

section \<open>Sets of descriptors\<close>

definition ANDROID_FD_SETSIZE :: int where "ANDROID_FD_SETSIZE = 1024"
definition ANDROID_FDSET_WORD_BITS :: nat where "ANDROID_FDSET_WORD_BITS = 64"
definition ANDROID_FDSET_WORDS :: nat where "ANDROID_FDSET_WORDS = 16"

definition words_test :: "u64 list \<Rightarrow> int \<Rightarrow> bool" where
  "words_test w fd =
     (if fd < 0 \<or> ANDROID_FD_SETSIZE \<le> fd then False
      else drop_bit (nat fd mod ANDROID_FDSET_WORD_BITS) (w ! (nat fd div ANDROID_FDSET_WORD_BITS)) AND 1 \<noteq> 0)"

definition words_set :: "int \<Rightarrow> u64 list \<Rightarrow> u64 list" where
  "words_set fd w =
     (if 0 \<le> fd \<and> fd < ANDROID_FD_SETSIZE
      then w[nat fd div ANDROID_FDSET_WORD_BITS :=
             w ! (nat fd div ANDROID_FDSET_WORD_BITS) OR push_bit (nat fd mod ANDROID_FDSET_WORD_BITS) 1]
      else w)"

text \<open>The functions behind the macros \<^verbatim>\<open>FD_SET\<close> and \<^verbatim>\<open>FD_ISSET\<close> of the guest; a set may be null.\<close>

definition android_fd_test :: "u64 list option \<Rightarrow> int \<Rightarrow> bool" where
  "android_fd_test s fd = (case s of None \<Rightarrow> False | Some w \<Rightarrow> words_test w fd)"

definition android_fd_setbit :: "u64 list option \<Rightarrow> int \<Rightarrow> u64 list option" where
  "android_fd_setbit s fd = map_option (words_set fd) s"

definition fd_set_chk :: "int \<Rightarrow> u64 list option \<Rightarrow> unit result \<times> u64 list option" where
  "fd_set_chk fd s = (if fd < 0 \<or> ANDROID_FD_SETSIZE \<le> fd then (Inl EINVAL, s) else (Inr (), android_fd_setbit s fd))"

definition android_fd_copy_words :: "u64 list option \<Rightarrow> u64 list" where
  "android_fd_copy_words s = (case s of Some w \<Rightarrow> take ANDROID_FDSET_WORDS w | None \<Rightarrow> replicate ANDROID_FDSET_WORDS 0)"

lemma length_words_set [simp]: "length (words_set fd w) = length w"
  by (simp add: words_set_def)

lemma words_test_bit:
  "words_test w fd \<longleftrightarrow> 0 \<le> fd \<and> fd < 1024 \<and> bit (w ! (nat fd div 64)) (nat fd mod 64)"
  by (auto simp: words_test_def ANDROID_FD_SETSIZE_def ANDROID_FDSET_WORD_BITS_def and_one_eq bit_iff_odd_drop_bit mod2_eq_if)

lemma words_test_zero: "\<not> words_test (replicate ANDROID_FDSET_WORDS 0) fd"
  by (auto simp: words_test_bit ANDROID_FDSET_WORDS_def nth_replicate)

text \<open>Setting a bit of a full set sets that bit and no other.\<close>

lemma words_test_set:
  assumes "length w = ANDROID_FDSET_WORDS"
  shows "words_test (words_set fd w) g \<longleftrightarrow> words_test w g \<or> (g = fd \<and> 0 \<le> fd \<and> fd < 1024)"
proof (cases "0 \<le> fd \<and> fd < 1024 \<and> 0 \<le> g \<and> g < 1024")
  case True
  have l: "nat fd div 64 < length w" "nat g div 64 < length w" using True assms by (auto simp: ANDROID_FDSET_WORDS_def)
  have m: "nat fd mod 64 < 64" "nat g mod 64 < 64" by simp_all
  have e: "g = fd \<longleftrightarrow> nat g div 64 = nat fd div 64 \<and> nat g mod 64 = nat fd mod 64"
    using True div_mult_mod_eq [of "nat g" 64] div_mult_mod_eq [of "nat fd" 64] by (metis eq_nat_nat_iff)
  show ?thesis
    using True l m e
    by (auto simp: words_test_bit words_set_def ANDROID_FD_SETSIZE_def ANDROID_FDSET_WORD_BITS_def nth_list_update bit_or_iff bit_push_bit_iff bit_1_iff bit_exp_iff)
qed (auto simp: words_test_bit words_set_def ANDROID_FD_SETSIZE_def)

section \<open>A pass\<close>

type_synonym three = "u64 list \<times> u64 list \<times> u64 list"

text \<open>Which of the three sets a descriptor is put into.\<close>

definition select_entry :: "fds \<Rightarrow> three \<Rightarrow> bool \<times> bool \<times> bool \<Rightarrow> int set \<times> int set \<times> int set \<Rightarrow> int \<Rightarrow> bool \<times> bool \<times> bool" where
  "select_entry s ins given host fd =
     (case (ins, given, host) of ((in_r, in_w, in_e), (gr, gw, ge), (hr, hw, he)) \<Rightarrow>
        if fakefd_is_range fd then
          let state = ready_bits fd s
          in (words_test in_r fd \<and> state AND (ASNX_FD_READY_READ OR ASNX_FD_READY_HUP OR ASNX_FD_READY_ERR) \<noteq> 0,
              words_test in_w fd \<and> state AND (ASNX_FD_READY_WRITE OR ASNX_FD_READY_ERR) \<noteq> 0,
              words_test in_e fd \<and> state AND ASNX_FD_READY_ERR \<noteq> 0)
        else (gr \<and> fd \<in> hr, gw \<and> fd \<in> hw, ge \<and> fd \<in> he))"

definition select_step :: "fds \<Rightarrow> three \<Rightarrow> bool \<times> bool \<times> bool \<Rightarrow> int set \<times> int set \<times> int set \<Rightarrow> int \<Rightarrow> three \<times> nat \<Rightarrow> three \<times> nat" where
  "select_step s ins given host fd acc =
     (case (select_entry s ins given host fd, acc) of ((r, w, e), ((out_r, out_w, out_e), ready)) \<Rightarrow>
        (((if r then words_set fd out_r else out_r),
          (if w then words_set fd out_w else out_w),
          (if e then words_set fd out_e else out_e)),
         if r \<or> w \<or> e then ready + 1 else ready))"

text \<open>The real descriptors a set hands to the host.\<close>

definition real_fds :: "int \<Rightarrow> u64 list \<Rightarrow> int set" where
  "real_fds n w = {fd. 0 \<le> fd \<and> fd < n \<and> \<not> fakefd_is_range fd \<and> words_test w fd}"

definition zero_sets :: three where
  "zero_sets = (replicate ANDROID_FDSET_WORDS 0, replicate ANDROID_FDSET_WORDS 0, replicate ANDROID_FDSET_WORDS 0)"

definition select_pass ::
  "(int \<Rightarrow> fds) \<Rightarrow> (int set \<times> int set \<times> int set \<Rightarrow> int \<times> int set \<times> int set \<times> int set) \<Rightarrow> three \<Rightarrow> bool \<times> bool \<times> bool \<Rightarrow> int \<Rightarrow> (three \<times> nat) option"
where
  "select_pass T H ins given n =
     (case ins of (in_r, in_w, in_e) \<Rightarrow>
        case H (real_fds n in_r, real_fds n in_w, real_fds n in_e) of (host_ready, host) \<Rightarrow>
          if host_ready < 0 then None
          else Some (fold (\<lambda>i. select_step (T (int i)) ins given host (int i)) [0..<nat n] (zero_sets, 0)))"

text \<open>After a pass, a descriptor is in a set exactly when it was put there.\<close>

lemma select_fold:
  assumes "length a = ANDROID_FDSET_WORDS" "length b = ANDROID_FDSET_WORDS" "length c = ANDROID_FDSET_WORDS"
    and "fold (\<lambda>i. select_step (T (int i)) ins given host (int i)) is ((a, b, c), k) = ((r, w, e), k')"
  shows "(words_test r fd \<longleftrightarrow> words_test a fd \<or> (\<exists>i \<in> set is. fd = int i \<and> fd < 1024 \<and> fst (select_entry (T fd) ins given host fd)))
    \<and> (words_test w fd \<longleftrightarrow> words_test b fd \<or> (\<exists>i \<in> set is. fd = int i \<and> fd < 1024 \<and> fst (snd (select_entry (T fd) ins given host fd))))
    \<and> (words_test e fd \<longleftrightarrow> words_test c fd \<or> (\<exists>i \<in> set is. fd = int i \<and> fd < 1024 \<and> snd (snd (select_entry (T fd) ins given host fd))))
    \<and> k' = k + length (filter (\<lambda>i. select_entry (T (int i)) ins given host (int i) \<noteq> (False, False, False)) is)
    \<and> length r = ANDROID_FDSET_WORDS \<and> length w = ANDROID_FDSET_WORDS \<and> length e = ANDROID_FDSET_WORDS"
  using assms
proof (induction "is" arbitrary: a b c k)
  case (Cons i is')
  obtain x y z where s: "select_entry (T (int i)) ins given host (int i) = (x, y, z)" by (metis prod_cases3)
  let ?a = "if x then words_set (int i) a else a" and ?b = "if y then words_set (int i) b else b"
    and ?c = "if z then words_set (int i) c else c"
  have f: "fold (\<lambda>i. select_step (T (int i)) ins given host (int i)) is' ((?a, ?b, ?c), if x \<or> y \<or> z then k + 1 else k) = ((r, w, e), k')"
  proof -
    have "select_step (T (int i)) ins given host (int i) ((a, b, c), k) = ((?a, ?b, ?c), if x \<or> y \<or> z then k + 1 else k)"
      by (simp only: select_step_def s prod.case)
    then show ?thesis using Cons.prems(4) by (simp only: fold.simps comp_def)
  qed
  have l: "length ?a = ANDROID_FDSET_WORDS" "length ?b = ANDROID_FDSET_WORDS" "length ?c = ANDROID_FDSET_WORDS"
    using Cons.prems(1-3) by simp_all
  note IH = Cons.IH [OF l f]
  have t: "words_test ?a fd \<longleftrightarrow> words_test a fd \<or> (x \<and> fd = int i \<and> fd < 1024)" "words_test ?b fd \<longleftrightarrow> words_test b fd \<or> (y \<and> fd = int i \<and> fd < 1024)"
    "words_test ?c fd \<longleftrightarrow> words_test c fd \<or> (z \<and> fd = int i \<and> fd < 1024)"
    using words_test_set [OF Cons.prems(1), of "int i" fd] words_test_set [OF Cons.prems(2), of "int i" fd] words_test_set [OF Cons.prems(3), of "int i" fd]
    by auto
  have n: "(x, y, z) \<noteq> (False, False, False) \<longleftrightarrow> x \<or> y \<or> z" by auto
  have m: "(\<exists>j \<in> set (i # is'). fd = int j \<and> P) \<longleftrightarrow> fd = int i \<and> P \<or> (\<exists>j \<in> set is'. fd = int j \<and> P)" for P by auto
  have x: "fd = int i \<Longrightarrow> x = fst (select_entry (T fd) ins given host fd) \<and> y = fst (snd (select_entry (T fd) ins given host fd)) \<and>
      z = snd (snd (select_entry (T fd) ins given host fd))" using s by simp
  show ?case
  proof (intro conjI)
    show "words_test r fd \<longleftrightarrow> words_test a fd \<or> (\<exists>j \<in> set (i # is'). fd = int j \<and> fd < 1024 \<and> fst (select_entry (T fd) ins given host fd))"
      unfolding m using IH [THEN conjunct1] t(1) x by blast
    show "words_test w fd \<longleftrightarrow> words_test b fd \<or> (\<exists>j \<in> set (i # is'). fd = int j \<and> fd < 1024 \<and> fst (snd (select_entry (T fd) ins given host fd)))"
      unfolding m using IH [THEN conjunct2, THEN conjunct1] t(2) x by blast
    show "words_test e fd \<longleftrightarrow> words_test c fd \<or> (\<exists>j \<in> set (i # is'). fd = int j \<and> fd < 1024 \<and> snd (snd (select_entry (T fd) ins given host fd)))"
      unfolding m using IH [THEN conjunct2, THEN conjunct2, THEN conjunct1] t(3) x by blast
    show "k' = k + length (filter (\<lambda>i. select_entry (T (int i)) ins given host (int i) \<noteq> (False, False, False)) (i # is'))"
      using IH [THEN conjunct2, THEN conjunct2, THEN conjunct2, THEN conjunct1] s n by (cases "x \<or> y \<or> z") simp_all
  qed (use IH in blast)+
qed simp

section \<open>The loop\<close>

text \<open>
  What a call leaves: the result (\<open>Inl\<close> for -1, with the host's errno), the three sets, the time
  left in microseconds, and the number of the last pass.  A set that was null stays null.
\<close>

type_synonym sets = "u64 list option \<times> u64 list option \<times> u64 list option"

definition store_sets :: "sets \<Rightarrow> three \<Rightarrow> sets" where
  "store_sets old new =
     (case (old, new) of ((r, w, e), (r', w', e')) \<Rightarrow> (map_option (\<lambda>_. r') r, map_option (\<lambda>_. w') w, map_option (\<lambda>_. e') e))"

partial_function (option) select_loop ::
  "(nat \<Rightarrow> int \<Rightarrow> fds) \<Rightarrow> (nat \<Rightarrow> int set \<times> int set \<times> int set \<Rightarrow> int \<times> int set \<times> int set \<times> int set) \<Rightarrow> three \<Rightarrow> bool \<times> bool \<times> bool \<Rightarrow> int
     \<Rightarrow> sets \<Rightarrow> nat \<Rightarrow> int \<Rightarrow> (nat result \<times> sets \<times> int \<times> nat) option"
where
  "select_loop T H ins given n old k remaining =
     (case select_pass (T k) (H k) ins given n of
        None \<Rightarrow> Some (Inl E_UNSET, old, remaining, k)
      | Some (out, ready) \<Rightarrow>
          if ready \<noteq> 0 \<or> remaining = 0 then Some (Inr ready, store_sets old out, remaining, k)
          else
            let sleep_us = (if remaining < 0 \<or> 1000 < remaining then 1000 else remaining)
            in if sleep_us \<le> 0 then select_loop T H ins given n old (Suc k) remaining
               else select_loop T H ins given n old (Suc k) (if 0 < remaining then remaining - sleep_us else remaining))"

definition nx_select ::
  "(nat \<Rightarrow> int \<Rightarrow> fds) \<Rightarrow> (nat \<Rightarrow> int set \<times> int set \<times> int set \<Rightarrow> int \<times> int set \<times> int set \<times> int set) \<Rightarrow> nat result \<times> sets \<times> int \<Rightarrow> int \<Rightarrow> sets
     \<Rightarrow> (int \<times> int) option \<Rightarrow> (nat result \<times> sets \<times> int \<times> nat) option"
where
  "nx_select T H whole n0 s timeout =
     (if n0 < 0 then Some (Inl EINVAL, s, -1, 0)
      else
        let n = (if ANDROID_FD_SETSIZE < n0 then ANDROID_FD_SETSIZE else n0);
            ins = (android_fd_copy_words (fst s), android_fd_copy_words (fst (snd s)), android_fd_copy_words (snd (snd s)));
            given = (fst s \<noteq> None, fst (snd s) \<noteq> None, snd (snd s) \<noteq> None);
            has_fake = (\<exists>fd \<in> {ASNX_FAKE_FD_BASE ..< min n (ASNX_FAKE_FD_BASE + int ASNX_FAKE_FD_COUNT)}.
              (words_test (fst ins) fd \<or> words_test (fst (snd ins)) fd \<or> words_test (snd (snd ins)) fd) \<and> fakefd_is_range fd)
        in if \<not> has_fake then Some (fst whole, fst (snd whole), snd (snd whole), 0)
           else case timeout of
             None \<Rightarrow> select_loop T H ins given n s 0 (- 1)
           | Some (sec, usec) \<Rightarrow>
               if sec < 0 \<or> usec < 0 then Some (Inl EINVAL, s, -1, 0)
               else select_loop T H ins given n s 0 (sec * 1000000 + usec))"

text \<open>A pass that ends the wait, and the time left after a number of passes.\<close>

definition sel_ends where
  "sel_ends T H ins given n k \<longleftrightarrow> (case select_pass (T k) (H k) ins given n of None \<Rightarrow> True | Some (out, ready) \<Rightarrow> ready \<noteq> 0)"

definition time_left :: "int \<Rightarrow> nat \<Rightarrow> int" where
  "time_left us k = (if us < 0 then us else max 0 (us - 1000 * int k))"

lemma select_goes_on:
  assumes "\<not> sel_ends T H ins given n k" "remaining \<noteq> 0"
  shows "select_loop T H ins given n old k remaining = select_loop T H ins given n old (Suc k) (time_left remaining 1)"
proof -
  obtain out where p: "select_pass (T k) (H k) ins given n = Some (out, 0)"
    using assms(1) by (auto simp: sel_ends_def split: option.splits prod.splits)
  consider "remaining < 0" | "0 < remaining" "remaining \<le> 1000" | "1000 < remaining" using assms(2) by linarith
  then show ?thesis
    by cases (subst select_loop.simps, simp add: p time_left_def)+
qed

lemma time_left_add: "0 \<le> us \<Longrightarrow> time_left (time_left us k) 1 = time_left us (Suc k)" "us < 0 \<Longrightarrow> time_left us k = us"
  by (auto simp: time_left_def)

lemma select_run:
  assumes "\<And>m. m < d \<Longrightarrow> \<not> sel_ends T H ins given n m" "us < 0 \<or> 1000 * (int d - 1) < us"
  shows "select_loop T H ins given n old 0 us = select_loop T H ins given n old d (time_left us d)"
  using assms
proof (induction d)
  case 0
  then show ?case by (cases "us < 0") (auto simp: time_left_def)
next
  case (Suc d)
  have e: "select_loop T H ins given n old 0 us = select_loop T H ins given n old d (time_left us d)"
    by (rule Suc.IH) (use Suc.prems in auto)
  have "time_left us d \<noteq> 0" using Suc.prems(2) by (auto simp: time_left_def)
  from select_goes_on [OF Suc.prems(1) [of d] this] e
  show ?case using time_left_add [of us] by (cases "us < 0") auto
qed

lemma select_loop_Some:
  assumes "select_loop T H ins given n old k remaining = Some x" and "remaining < 0"
  shows "sel_ends T H ins given n (snd (snd (snd x)))"
  using assms(2)
proof (induction rule: select_loop.raw_induct [OF _ assms(1)])
  case (1 self T H ins given n old k remaining x)
  show ?case
  proof (cases "sel_ends T H ins given n k")
    case True
    then have "snd (snd (snd x)) = k" using "1.hyps" "1.prems"
      by (auto simp: sel_ends_def Let_def split: if_splits option.splits prod.splits)
    then show ?thesis using True by simp
  next
    case False
    then obtain out where p: "select_pass (T k) (H k) ins given n = Some (out, 0)"
      by (auto simp: sel_ends_def split: option.splits prod.splits)
    then have "self T H ins given n old (Suc k) remaining = Some x" using "1.hyps" "1.prems" by (simp add: Let_def)
    from "1.IH" [OF this "1.prems"] show ?thesis .
  qed
qed

text \<open>The sets a pass leaves and its count, in terms of the descriptors.\<close>

definition pass_exact :: "(int \<Rightarrow> fds) \<Rightarrow> (int set \<times> int set \<times> int set \<Rightarrow> int \<times> int set \<times> int set \<times> int set) \<Rightarrow> three \<Rightarrow> bool \<times> bool \<times> bool \<Rightarrow> int \<Rightarrow> three \<times> nat \<Rightarrow> bool" where
  "pass_exact T H ins given n r \<longleftrightarrow>
     (case (ins, r) of ((in_r, in_w, in_e), ((out_r, out_w, out_e), ready)) \<Rightarrow>
        let entry = (\<lambda>fd. select_entry (T fd) ins given (snd (H (real_fds n in_r, real_fds n in_w, real_fds n in_e))) fd)
        in (\<forall>fd. words_test out_r fd \<longleftrightarrow> 0 \<le> fd \<and> fd < n \<and> fst (entry fd)) \<and>
           (\<forall>fd. words_test out_w fd \<longleftrightarrow> 0 \<le> fd \<and> fd < n \<and> fst (snd (entry fd))) \<and>
           (\<forall>fd. words_test out_e fd \<longleftrightarrow> 0 \<le> fd \<and> fd < n \<and> snd (snd (entry fd))) \<and>
           ready = card {i. i < nat n \<and> entry (int i) \<noteq> (False, False, False)})"

lemma select_pass_exact:
  assumes n: "n \<le> 1024" and p: "select_pass T H ins given n = Some r"
  shows "pass_exact T H ins given n r"
proof -
  obtain in_r in_w in_e where i: "ins = (in_r, in_w, in_e)" by (metis prod_cases3)
  obtain hr host where h: "H (real_fds n in_r, real_fds n in_w, real_fds n in_e) = (hr, host)" by (metis surj_pair)
  obtain a b c k where r: "r = ((a, b, c), k)" by (metis prod_cases3 surj_pair)
  let ?z = "replicate ANDROID_FDSET_WORDS (0 :: u64)"
  have f: "fold (\<lambda>i. select_step (T (int i)) ins given host (int i)) [0..<nat n] ((?z, ?z, ?z), 0) = ((a, b, c), k)"
    using p i h r by (auto simp: select_pass_def zero_sets_def split: if_splits)
  have c: "length (filter (\<lambda>i. select_entry (T (int i)) ins given host (int i) \<noteq> (False, False, False)) [0..<nat n])
      = card {i. i < nat n \<and> select_entry (T (int i)) ins given host (int i) \<noteq> (False, False, False)}"
    by (subst distinct_card [symmetric]) (auto intro!: arg_cong [where f = card])
  have m: "(\<exists>j \<in> set [0..<nat n]. fd = int j \<and> fd < 1024 \<and> P) \<longleftrightarrow> 0 \<le> fd \<and> fd < n \<and> P" for fd P
    using n by (auto intro!: bexI [of _ "nat fd"])
  have s: "(words_test a fd \<longleftrightarrow> 0 \<le> fd \<and> fd < n \<and> fst (select_entry (T fd) ins given host fd)) \<and>
      (words_test b fd \<longleftrightarrow> 0 \<le> fd \<and> fd < n \<and> fst (snd (select_entry (T fd) ins given host fd))) \<and>
      (words_test c fd \<longleftrightarrow> 0 \<le> fd \<and> fd < n \<and> snd (snd (select_entry (T fd) ins given host fd)))" for fd
    using select_fold [OF _ _ _ f, of fd] words_test_zero [of fd] unfolding m by simp
  have k: "k = card {i. i < nat n \<and> select_entry (T (int i)) ins given host (int i) \<noteq> (False, False, False)}"
    using select_fold [OF _ _ _ f, of 0] c by simp
  have e: "snd (H (real_fds n in_r, real_fds n in_w, real_fds n in_e)) = host" using h by simp
  show ?thesis
    unfolding pass_exact_def i r prod.case Let_def e using s k unfolding i by blast
qed

text \<open>
  C17. \<^verbatim>\<open>nx_select\<close> over emulated pipes and real files.  Let \<open>us\<close> be the time in microseconds, negative
  for no limit.  The call answers in the first pass that finds a descriptor ready or in which the
  host fails, if the time is not used up before; the time left is the limit less a millisecond
  for each sleep.  If there is no such pass, it answers 0 with nothing left, after as many sleeps
  as the limit has milliseconds, rounded up; only without a limit it may not return.  The sets it
  stores name exactly the descriptors that were asked for and are ready (a pipe whose writers are
  gone counts as readable, one without readers as writable), and the count is the number of
  such descriptors, each counted once however many of the sets it is in.
\<close>

theorem select_answers:
  assumes "0 \<le> n0" and "n = min n0 1024"
    and "ins = (android_fd_copy_words (fst s), android_fd_copy_words (fst (snd s)), android_fd_copy_words (snd (snd s)))"
    and "given = (fst s \<noteq> None, fst (snd s) \<noteq> None, snd (snd s) \<noteq> None)"
    and "ASNX_FAKE_FD_BASE \<le> fd" "fd < n" "fakefd_is_range fd"
    and "words_test (fst ins) fd \<or> words_test (fst (snd ins)) fd \<or> words_test (snd (snd ins)) fd"
    and "(timeout = None \<and> us = - 1) \<or> (\<exists>sec usec. timeout = Some (sec, usec) \<and> 0 \<le> sec \<and> 0 \<le> usec \<and> us = sec * 1000000 + usec)"
  shows "(\<forall>k. sel_ends T H ins given n k \<and> (\<forall>m < k. \<not> sel_ends T H ins given n m) \<and> (us < 0 \<or> 1000 * (int k - 1) < us) \<longrightarrow>
      nx_select T H whole n0 s timeout =
        (case select_pass (T k) (H k) ins given n of
           None \<Rightarrow> Some (Inl E_UNSET, s, time_left us k, k)
         | Some (out, ready) \<Rightarrow> Some (Inr ready, store_sets s out, time_left us k, k)))
    \<and> (0 \<le> us \<and> (\<forall>m. 1000 * (int m - 1) < us \<longrightarrow> \<not> sel_ends T H ins given n m) \<longrightarrow>
      (\<exists>out. nx_select T H whole n0 s timeout = Some (Inr 0, store_sets s out, 0, nat ((us + 999) div 1000))))
    \<and> (us < 0 \<and> (\<forall>m. \<not> sel_ends T H ins given n m) \<longrightarrow> nx_select T H whole n0 s timeout = None)
    \<and> (\<forall>k r. select_pass (T k) (H k) ins given n = Some r \<longrightarrow> pass_exact (T k) (H k) ins given n r)"
proof (intro conjI allI impI; (elim conjE)?)
  have base: "fd < ASNX_FAKE_FD_BASE + int ASNX_FAKE_FD_COUNT"
    using assms(7) by (auto simp: fakefd_is_range_def slot_from_fd_def Let_def split: if_splits)
  have n: "(if ANDROID_FD_SETSIZE < n0 then ANDROID_FD_SETSIZE else n0) = n" using assms(2) by (auto simp: ANDROID_FD_SETSIZE_def)
  have fake: "\<exists>fd \<in> {ASNX_FAKE_FD_BASE ..< min n (ASNX_FAKE_FD_BASE + int ASNX_FAKE_FD_COUNT)}.
      (words_test (fst ins) fd \<or> words_test (fst (snd ins)) fd \<or> words_test (snd (snd ins)) fd) \<and> fakefd_is_range fd"
    using assms(5-8) base by (intro bexI [of _ fd]) auto
  have e: "nx_select T H whole n0 s timeout = select_loop T H ins given n s 0 us"
    unfolding nx_select_def Let_def n assms(3) [symmetric] assms(4) [symmetric] using assms(1,9) fake by auto
  { fix k
    assume k: "sel_ends T H ins given n k" "\<forall>m < k. \<not> sel_ends T H ins given n m" "us < 0 \<or> 1000 * (int k - 1) < us"
    have "select_loop T H ins given n s 0 us = select_loop T H ins given n s k (time_left us k)"
      by (rule select_run) (use k in auto)
    then show "nx_select T H whole n0 s timeout =
        (case select_pass (T k) (H k) ins given n of
           None \<Rightarrow> Some (Inl E_UNSET, s, time_left us k, k)
         | Some (out, ready) \<Rightarrow> Some (Inr ready, store_sets s out, time_left us k, k))"
      unfolding e using k(1) by (subst (asm) (2) select_loop.simps) (auto simp: sel_ends_def split: option.splits) }
  { assume t: "0 \<le> us" "\<forall>m. 1000 * (int m - 1) < us \<longrightarrow> \<not> sel_ends T H ins given n m"
    define N where "N = nat ((us + 999) div 1000)"
    have N: "int N = (us + 999) div 1000" using t(1) by (simp add: N_def)
    have le: "1000 * (int N - 1) < us \<or> N = 0" "us \<le> 1000 * int N" using t(1) N by auto
    have "select_loop T H ins given n s 0 us = select_loop T H ins given n s N (time_left us N)"
    proof (cases "N = 0")
      case True
      then show ?thesis using t(1) by (simp add: time_left_def)
    next
      case False
      show ?thesis by (rule select_run) (use t le False in auto)
    qed
    moreover have "time_left us N = 0" using le(2) t(1) by (simp add: time_left_def)
    moreover have "\<not> sel_ends T H ins given n N" using t le by (cases "us = 0 \<and> N = 0") auto
    ultimately show "\<exists>out. nx_select T H whole n0 s timeout = Some (Inr 0, store_sets s out, 0, nat ((us + 999) div 1000))"
      unfolding e N_def [symmetric] by (subst (asm) (2) select_loop.simps) (auto simp: sel_ends_def split: option.splits) }
  { assume t: "us < 0" "\<forall>m. \<not> sel_ends T H ins given n m"
    show "nx_select T H whole n0 s timeout = None"
    proof (rule ccontr)
      assume "nx_select T H whole n0 s timeout \<noteq> None"
      then obtain x where "select_loop T H ins given n s 0 us = Some x" using e by auto
      from select_loop_Some [OF this t(1)] t(2) show False by blast
    qed }
  fix k r
  assume "select_pass (T k) (H k) ins given n = Some r"
  then show "pass_exact (T k) (H k) ins given n r" by (rule select_pass_exact [rotated]) (simp add: assms(2))
qed

text \<open>A pipe and a host that fails at once.\<close>

theorem select_answers_witness:
  "nx_select (\<lambda>_ _. init_fds) (\<lambda>_ _. (- 1, {}, {}, {})) (Inr 0, (None, None, None), 0) 901 (Some (words_set 900 (replicate 16 0)), None, None) (Some (0, 5000))
     = Some (Inl E_UNSET, (Some (words_set 900 (replicate 16 0)), None, None), 5000, 0)"
proof -
  let ?s = "(Some (words_set 900 (replicate 16 0)), None, None) :: sets"
  let ?ins = "(words_set 900 (replicate 16 0), replicate 16 0, replicate 16 0) :: three"
  let ?T = "\<lambda>(_ :: nat) (_ :: int). init_fds" and ?H = "\<lambda>(_ :: nat) (_ :: int set \<times> int set \<times> int set). (- 1 :: int, {} :: int set, {} :: int set, {} :: int set)"
  have i: "?ins = (android_fd_copy_words (fst ?s), android_fd_copy_words (fst (snd ?s)), android_fd_copy_words (snd (snd ?s)))"
    by (simp add: android_fd_copy_words_def ANDROID_FDSET_WORDS_def)
  have w: "words_test (words_set 900 (replicate 16 0)) 900"
    using words_test_set [of "replicate 16 0" 900 900] by (simp add: ANDROID_FDSET_WORDS_def)
  have f: "fakefd_is_range 900" by (simp add: fakefd_is_range_def slot_from_fd_def ASNX_FAKE_FD_BASE_def ASNX_FAKE_FD_COUNT_def)
  have g: "(True, False, False) = (fst ?s \<noteq> None, fst (snd ?s) \<noteq> None, snd (snd ?s) \<noteq> None)" by simp
  have p: "select_pass (?T 0) (?H 0) ?ins (True, False, False) 901 = None" by (simp add: select_pass_def)
  have e: "sel_ends ?T ?H ?ins (True, False, False) 901 0" unfolding sel_ends_def p by simp
  have b: "ASNX_FAKE_FD_BASE \<le> 900" by (simp add: ASNX_FAKE_FD_BASE_def)
  have t: "(Some (0 :: int, 5000 :: int) = None \<and> (5000 :: int) = - 1) \<or>
      (\<exists>sec usec. Some (0 :: int, 5000 :: int) = Some (sec, usec) \<and> 0 \<le> sec \<and> 0 \<le> usec \<and> 5000 = sec * 1000000 + usec)" by simp
  note a = select_answers [of 901 901 ?ins ?s "(True, False, False)" 900 "Some (0, 5000)" 5000 ?T ?H "(Inr 0, (None, None, None), 0)",
    OF _ _ i g b _ f _ t]
  have "(\<forall>k. sel_ends ?T ?H ?ins (True, False, False) 901 k \<and> (\<forall>m < k. \<not> sel_ends ?T ?H ?ins (True, False, False) 901 m) \<and>
        (5000 < (0 :: int) \<or> 1000 * (int k - 1) < 5000) \<longrightarrow>
      nx_select ?T ?H (Inr 0, (None, None, None), 0) 901 ?s (Some (0, 5000)) =
        (case select_pass (?T k) (?H k) ?ins (True, False, False) 901 of
           None \<Rightarrow> Some (Inl E_UNSET, ?s, time_left 5000 k, k)
         | Some (out, ready) \<Rightarrow> Some (Inr ready, store_sets ?s out, time_left 5000 k, k)))"
    by (rule a [THEN conjunct1]) (use w in simp_all)
  then have "nx_select ?T ?H (Inr 0, (None, None, None), 0) 901 ?s (Some (0, 5000)) =
      (case select_pass (?T 0) (?H 0) ?ins (True, False, False) 901 of
         None \<Rightarrow> Some (Inl E_UNSET, ?s, time_left 5000 0, 0)
       | Some (out, ready) \<Rightarrow> Some (Inr ready, store_sets ?s out, time_left 5000 0, 0))"
    by (elim allE [of _ 0] impE) (use e in auto)
  then show ?thesis unfolding p by (simp add: time_left_def)
qed

end
