(* ===== verification/Looper.thy ===== *)
theory Looper
  imports Polling
begin

text \<open>
  The loopers of \<^verbatim>\<open>source/android_ndk.c\<close>: one for each thread that asks, out of a table of 16, each with
  16 registrations of a descriptor.  Only emulated pipes are ever ready.  An operation runs under
  the lock of its looper and is one step; \<^verbatim>\<open>ALooper_pollOnce\<close> takes the lock once for each pass, and
  what other threads do between two passes is an argument of its model, as in \<open>Polling\<close>.
\<close>

section \<open>Loopers\<close>

text \<open>A used registration; \<open>None\<close> in the table is a registration whose \<^verbatim>\<open>used\<close> is 0.\<close>

record looper_reg =
  reg_fd :: int
  reg_ident :: int
  reg_events :: u32
  reg_cb :: u64
  reg_data :: u64

record looper =
  signaled :: bool
  refs :: int
  looper_owner :: u64
  looper_used :: bool
  regs :: "looper_reg option list"

definition LOOP_SLOTS :: nat where "LOOP_SLOTS = 16"
definition LOOP_REGS :: nat where "LOOP_REGS = 16"

definition fresh_looper :: "u64 \<Rightarrow> looper" where
  "fresh_looper tid = \<lparr>signaled = False, refs = 1, looper_owner = tid, looper_used = True, regs = replicate LOOP_REGS None\<rparr>"

definition loop_get :: "bool \<Rightarrow> u64 \<Rightarrow> looper list \<Rightarrow> nat option \<times> looper list" where
  "loop_get create tid gs =
     (case scan (\<lambda>i. looper_used (gs ! i) \<and> looper_owner (gs ! i) = tid) 0 LOOP_SLOTS of
        Some i \<Rightarrow> (Some i, gs)
      | None \<Rightarrow>
          if \<not> create then (None, gs)
          else (case scan (\<lambda>i. \<not> looper_used (gs ! i)) 0 LOOP_SLOTS of
                  Some i \<Rightarrow> (Some i, gs[i := fresh_looper tid])
                | None \<Rightarrow> (None, gs)))"

definition ALooper_prepare :: "u64 \<Rightarrow> looper list \<Rightarrow> nat option \<times> looper list" where
  "ALooper_prepare tid = loop_get True tid"

definition ALooper_forThread :: "u64 \<Rightarrow> looper list \<Rightarrow> nat option \<times> looper list" where
  "ALooper_forThread tid = loop_get True tid"

definition ALooper_acquire :: "looper \<Rightarrow> looper" where
  "ALooper_acquire l = l\<lparr>refs := refs l + 1\<rparr>"

definition ALooper_release :: "looper \<Rightarrow> looper" where
  "ALooper_release l = (let r = refs l - 1 in if r \<le> 0 then l\<lparr>refs := r, looper_used := False\<rparr> else l\<lparr>refs := r\<rparr>)"

definition ALooper_wake :: "looper \<Rightarrow> looper" where
  "ALooper_wake l = l\<lparr>signaled := True\<rparr>"

definition ALooper_addFd :: "int \<Rightarrow> int \<Rightarrow> u32 \<Rightarrow> u64 \<Rightarrow> u64 \<Rightarrow> looper \<Rightarrow> int \<times> looper" where
  "ALooper_addFd fd ident ev cb d l =
     (if fd < 0 then (- 1, l)
      else
        let same = scan (\<lambda>i. \<exists>r. regs l ! i = Some r \<and> reg_fd r = fd) 0 LOOP_REGS;
            free_slot = (case same of Some i \<Rightarrow> Some i | None \<Rightarrow> scan (\<lambda>i. regs l ! i = None) 0 LOOP_REGS)
        in case free_slot of
             None \<Rightarrow> (- 1, l)
           | Some i \<Rightarrow> (1, l\<lparr>regs := (regs l)[i := Some \<lparr>reg_fd = fd, reg_ident = ident, reg_events = ev, reg_cb = cb, reg_data = d\<rparr>]\<rparr>))"

definition ALooper_removeFd :: "int \<Rightarrow> looper \<Rightarrow> int \<times> looper" where
  "ALooper_removeFd fd l =
     (case scan (\<lambda>i. \<exists>r. regs l ! i = Some r \<and> reg_fd r = fd) 0 LOOP_REGS of
        Some i \<Rightarrow> (1, l\<lparr>regs := (regs l)[i := None]\<rparr>)
      | None \<Rightarrow> (0, l))"

section \<open>The registrations are a map from descriptors\<close>

definition looper_ok :: "looper \<Rightarrow> bool" where
  "looper_ok l \<longleftrightarrow> length (regs l) = LOOP_REGS \<and>
     (\<forall>i j r s. i < LOOP_REGS \<and> j < LOOP_REGS \<and> regs l ! i = Some r \<and> regs l ! j = Some s \<and> reg_fd r = reg_fd s \<longrightarrow> i = j)"

definition reg_of :: "looper \<Rightarrow> int \<Rightarrow> looper_reg option" where
  "reg_of l fd = (case scan (\<lambda>i. \<exists>r. regs l ! i = Some r \<and> reg_fd r = fd) 0 LOOP_REGS of Some i \<Rightarrow> regs l ! i | None \<Rightarrow> None)"

lemma reg_of_iff:
  assumes "looper_ok l"
  shows "reg_of l fd = Some r \<longleftrightarrow> (\<exists>i < LOOP_REGS. regs l ! i = Some r) \<and> reg_fd r = fd"
proof (cases "scan (\<lambda>i. \<exists>r. regs l ! i = Some r \<and> reg_fd r = fd) 0 LOOP_REGS")
  case None
  then have "\<nexists>r. (\<exists>i < LOOP_REGS. regs l ! i = Some r) \<and> reg_fd r = fd" by (auto simp: scan_None_iff)
  moreover have "reg_of l fd = None" using None by (simp add: reg_of_def)
  ultimately show ?thesis by simp
next
  case (Some i)
  then obtain s where s: "i < LOOP_REGS" "regs l ! i = Some s" "reg_fd s = fd" by (auto dest: scan_SomeD)
  have u: "r = s" if "j < LOOP_REGS" "regs l ! j = Some r" "reg_fd r = fd" for j r
  proof -
    have "j = i" using assms that s unfolding looper_ok_def by blast
    then show ?thesis using that(2) s(2) by simp
  qed
  have f: "reg_of l fd = Some s" using Some s(2) by (simp add: reg_of_def)
  show ?thesis
  proof
    assume "reg_of l fd = Some r"
    then have "r = s" using f by simp
    then show "(\<exists>i < LOOP_REGS. regs l ! i = Some r) \<and> reg_fd r = fd" using s by blast
  next
    assume "(\<exists>i < LOOP_REGS. regs l ! i = Some r) \<and> reg_fd r = fd"
    then have "r = s" using u by blast
    then show "reg_of l fd = Some r" using f by simp
  qed
qed

lemma reg_of_eqI:
  assumes "looper_ok l" and "\<And>r. (\<exists>i < LOOP_REGS. regs l ! i = Some r) \<and> reg_fd r = fd \<longleftrightarrow> m = Some r"
  shows "reg_of l fd = m"
  using reg_of_iff [OF assms(1), of fd] assms(2) by (metis not_None_eq)

lemma set_reg:
  assumes ok: "looper_ok l" and i: "i < LOOP_REGS" and own: "\<And>j s. j < LOOP_REGS \<Longrightarrow> regs l ! j = Some s \<Longrightarrow> reg_fd s = reg_fd r \<Longrightarrow> j = i"
    and here: "\<And>s. regs l ! i = Some s \<Longrightarrow> reg_fd s = reg_fd r"
  shows "looper_ok (l\<lparr>regs := (regs l)[i := Some r]\<rparr>) \<and> reg_of (l\<lparr>regs := (regs l)[i := Some r]\<rparr>) = (reg_of l)(reg_fd r \<mapsto> r)"
proof -
  let ?l = "l\<lparr>regs := (regs l)[i := Some r]\<rparr>"
  have n: "length (regs l) = LOOP_REGS" using ok by (simp add: looper_ok_def)
  have at: "regs ?l ! j = (if j = i then Some r else regs l ! j)" if "j < LOOP_REGS" for j
    using that n i by (simp add: nth_list_update)
  have ok': "looper_ok ?l" unfolding looper_ok_def
  proof (intro conjI allI impI; (elim conjE)?)
    show "length (regs ?l) = LOOP_REGS" using n by simp
    fix a b x y
    assume h: "a < LOOP_REGS" "b < LOOP_REGS" "regs ?l ! a = Some x" "regs ?l ! b = Some y" "reg_fd x = reg_fd y"
    have "regs l ! a = Some x \<Longrightarrow> regs l ! b = Some y \<Longrightarrow> a = b" using ok h by (auto simp: looper_ok_def)
    then show "a = b"
      using h(3,4,5) own [OF h(1), of x] own [OF h(2), of y] unfolding at [OF h(1)] at [OF h(2)] by (auto split: if_splits)
  qed
  have "reg_of ?l fd = ((reg_of l)(reg_fd r \<mapsto> r)) fd" for fd
  proof (rule reg_of_eqI [OF ok'])
    fix q
    have "(\<exists>j < LOOP_REGS. regs ?l ! j = Some q) \<longleftrightarrow> q = r \<or> (\<exists>j < LOOP_REGS. j \<noteq> i \<and> regs l ! j = Some q)"
      using i at by (metis option.inject)
    moreover have "fd \<noteq> reg_fd r \<Longrightarrow> reg_fd q = fd \<Longrightarrow> j < LOOP_REGS \<Longrightarrow> regs l ! j = Some q \<Longrightarrow> j \<noteq> i" for j
      using here by auto
    moreover have "j < LOOP_REGS \<Longrightarrow> regs l ! j = Some q \<Longrightarrow> reg_fd q = reg_fd r \<Longrightarrow> j = i" for j using own by blast
    ultimately show "(\<exists>j < LOOP_REGS. regs ?l ! j = Some q) \<and> reg_fd q = fd \<longleftrightarrow> ((reg_of l)(reg_fd r \<mapsto> r)) fd = Some q"
      using reg_of_iff [OF ok, of fd q] by (cases "fd = reg_fd r") auto
  qed
  with ok' show ?thesis by blast
qed

lemma clear_reg:
  assumes ok: "looper_ok l" and i: "i < LOOP_REGS" "regs l ! i = Some s"
  shows "looper_ok (l\<lparr>regs := (regs l)[i := None]\<rparr>) \<and> reg_of (l\<lparr>regs := (regs l)[i := None]\<rparr>) = (reg_of l)(reg_fd s := None)"
proof -
  let ?l = "l\<lparr>regs := (regs l)[i := None]\<rparr>"
  have n: "length (regs l) = LOOP_REGS" using ok by (simp add: looper_ok_def)
  have at: "regs ?l ! j = (if j = i then None else regs l ! j)" if "j < LOOP_REGS" for j
    using that n i by (simp add: nth_list_update)
  have ok': "looper_ok ?l" using ok n at unfolding looper_ok_def by (metis (no_types, lifting) length_list_update looper.select_convs(5) looper.surjective looper.update_convs(5) option.distinct(1))
  have "reg_of ?l fd = ((reg_of l)(reg_fd s := None)) fd" for fd
  proof (rule reg_of_eqI [OF ok'])
    fix q
    have "(\<exists>j < LOOP_REGS. regs ?l ! j = Some q) \<longleftrightarrow> (\<exists>j < LOOP_REGS. j \<noteq> i \<and> regs l ! j = Some q)"
      using at by (metis option.distinct(1))
    moreover have "j < LOOP_REGS \<Longrightarrow> regs l ! j = Some q \<Longrightarrow> reg_fd q = reg_fd s \<longleftrightarrow> j = i" for j
      using ok i by (auto simp: looper_ok_def)
    ultimately show "(\<exists>j < LOOP_REGS. regs ?l ! j = Some q) \<and> reg_fd q = fd \<longleftrightarrow> ((reg_of l)(reg_fd s := None)) fd = Some q"
      using reg_of_iff [OF ok, of fd q] by (cases "fd = reg_fd s") auto
  qed
  with ok' show ?thesis by blast
qed

text \<open>
  A registration replaces the one of its descriptor, or takes a free place; it is refused without a
  change when the descriptor is negative or all 16 places are taken by others.
\<close>

lemma addFd_map:
  assumes ok: "looper_ok l" and c: "ALooper_addFd fd ident ev cb d l = (r, l')"
  shows "looper_ok l' \<and>
    (if 0 \<le> fd \<and> (reg_of l fd \<noteq> None \<or> (\<exists>i < LOOP_REGS. regs l ! i = None))
     then r = 1 \<and> reg_of l' = (reg_of l)(fd \<mapsto> \<lparr>reg_fd = fd, reg_ident = ident, reg_events = ev, reg_cb = cb, reg_data = d\<rparr>)
     else r = - 1 \<and> l' = l)"
proof -
  let ?r = "\<lparr>reg_fd = fd, reg_ident = ident, reg_events = ev, reg_cb = cb, reg_data = d\<rparr>"
  let ?same = "scan (\<lambda>i. \<exists>r. regs l ! i = Some r \<and> reg_fd r = fd) 0 LOOP_REGS"
  consider "fd < 0" | i where "0 \<le> fd" "?same = Some i" | "0 \<le> fd" "?same = None"
  proof (cases "fd < 0")
    case True
    then show ?thesis by (rule that(1))
  next
    case False
    then show ?thesis using that(2,3) by (cases ?same) simp_all
  qed
  then show ?thesis
  proof cases
    case 1
    then show ?thesis using ok c by (simp add: ALooper_addFd_def)
  next
    case (2 i)
    then obtain s where s: "i < LOOP_REGS" "regs l ! i = Some s" "reg_fd s = fd" by (auto dest: scan_SomeD)
    have j: "j < LOOP_REGS \<Longrightarrow> regs l ! j = Some t \<Longrightarrow> reg_fd t = reg_fd ?r \<Longrightarrow> j = i" for j t
      using ok s by (auto simp: looper_ok_def)
    have e: "r = 1" "l' = l\<lparr>regs := (regs l)[i := Some ?r]\<rparr>" using c 2 by (auto simp: ALooper_addFd_def Let_def)
    have "reg_of l fd = Some s" unfolding reg_of_iff [OF ok] using s by blast
    moreover have "looper_ok l' \<and> reg_of l' = (reg_of l)(reg_fd ?r \<mapsto> ?r)"
      unfolding e(2) by (rule set_reg [OF ok s(1) j]) (use s in simp_all)
    ultimately show ?thesis using e(1) 2(1) by simp
  next
    case 3
    then have f: "reg_of l fd = None" by (simp add: reg_of_def)
    have no: "j < LOOP_REGS \<Longrightarrow> regs l ! j = Some t \<Longrightarrow> reg_fd t \<noteq> fd" for j t using 3(2) by (auto simp: scan_None_iff)
    show ?thesis
    proof (cases "scan (\<lambda>i. regs l ! i = None) 0 LOOP_REGS")
      case None
      then have "r = - 1" "l' = l" using c 3 by (simp_all add: ALooper_addFd_def Let_def)
      moreover have "\<not> (\<exists>i < LOOP_REGS. regs l ! i = None)" using None by (simp add: scan_None_iff)
      ultimately show ?thesis using ok f by simp
    next
      case (Some i)
      then have i: "i < LOOP_REGS" "regs l ! i = None" by (auto dest: scan_SomeD)
      have e: "r = 1" "l' = l\<lparr>regs := (regs l)[i := Some ?r]\<rparr>" using c 3 Some by (auto simp: ALooper_addFd_def Let_def)
      have "looper_ok l' \<and> reg_of l' = (reg_of l)(reg_fd ?r \<mapsto> ?r)"
        unfolding e(2) by (rule set_reg [OF ok i(1)]) (use no i in fastforce)+
      moreover have "\<exists>i < LOOP_REGS. regs l ! i = None" using i by blast
      ultimately show ?thesis using e(1) 3(1) by simp
    qed
  qed
qed

lemma removeFd_map:
  assumes ok: "looper_ok l" and c: "ALooper_removeFd fd l = (r, l')"
  shows "looper_ok l' \<and> reg_of l' = (reg_of l)(fd := None) \<and> (r = 1 \<longleftrightarrow> reg_of l fd \<noteq> None) \<and> r \<in> {0, 1}"
proof (cases "scan (\<lambda>i. \<exists>r. regs l ! i = Some r \<and> reg_fd r = fd) 0 LOOP_REGS")
  case None
  then have "reg_of l fd = None" by (simp add: reg_of_def)
  then show ?thesis using c ok None by (auto simp: ALooper_removeFd_def)
next
  case (Some i)
  then obtain s where s: "i < LOOP_REGS" "regs l ! i = Some s" "reg_fd s = fd" by (auto dest: scan_SomeD)
  have "reg_of l fd = Some s" unfolding reg_of_iff [OF ok] using s by blast
  moreover have "r = 1" "l' = l\<lparr>regs := (regs l)[i := None]\<rparr>" using c Some by (simp_all add: ALooper_removeFd_def)
  ultimately show ?thesis using clear_reg [OF ok s(1,2)] s(3) by simp
qed

section \<open>Waiting\<close>

definition ALOOPER_POLL_WAKE :: int where "ALOOPER_POLL_WAKE = - 1"
definition ALOOPER_POLL_CALLBACK :: int where "ALOOPER_POLL_CALLBACK = - 2"
definition ALOOPER_POLL_TIMEOUT :: int where "ALOOPER_POLL_TIMEOUT = - 3"
definition ALOOPER_EVENT_INPUT :: u32 where "ALOOPER_EVENT_INPUT = 0x01"
definition ALOOPER_EVENT_OUTPUT :: u32 where "ALOOPER_EVENT_OUTPUT = 0x02"
definition ALOOPER_EVENT_ERROR :: u32 where "ALOOPER_EVENT_ERROR = 0x04"
definition ALOOPER_EVENT_HANGUP :: u32 where "ALOOPER_EVENT_HANGUP = 0x08"
definition ALOOPER_EVENT_INVALID :: u32 where "ALOOPER_EVENT_INVALID = 0x10"

definition looper_ready_events :: "fds \<Rightarrow> looper_reg option \<Rightarrow> u32" where
  "looper_ready_events s reg =
     (case reg of
        None \<Rightarrow> 0
      | Some r \<Rightarrow>
          if \<not> fakefd_is_range (reg_fd r) then 0
          else if \<not> fakefd_is_open (reg_fd r) s then ALOOPER_EVENT_INVALID
          else
            let st = ready_bits (reg_fd r) s
            in (if st AND ASNX_FD_READY_READ \<noteq> 0 \<and> reg_events r AND ALOOPER_EVENT_INPUT \<noteq> 0 then ALOOPER_EVENT_INPUT else 0) OR
               (if st AND ASNX_FD_READY_WRITE \<noteq> 0 \<and> reg_events r AND ALOOPER_EVENT_OUTPUT \<noteq> 0 then ALOOPER_EVENT_OUTPUT else 0) OR
               (if st AND ASNX_FD_READY_ERR \<noteq> 0 then ALOOPER_EVENT_ERROR else 0) OR
               (if st AND ASNX_FD_READY_HUP \<noteq> 0 then ALOOPER_EVENT_HANGUP else 0))"

text \<open>What a pass under the lock decides: a wake-up, the first registration with events, or nothing.\<close>

datatype poll_found = Found_wake | Found_reg looper_reg u32 | Found_nothing

definition looper_pass :: "fds \<Rightarrow> looper \<Rightarrow> poll_found \<times> looper" where
  "looper_pass s l =
     (if signaled l then (Found_wake, l\<lparr>signaled := False\<rparr>)
      else (case scan (\<lambda>i. looper_ready_events s (regs l ! i) \<noteq> 0) 0 LOOP_REGS of
              Some i \<Rightarrow> (Found_reg (the (regs l ! i)) (looper_ready_events s (regs l ! i)), l)
            | None \<Rightarrow> (Found_nothing, l)))"

text \<open>
  A call answers its result, the descriptor, the events and the data it stores, the number of the
  last pass and the looper it leaves.  \<open>T k\<close> and \<open>L k\<close> are the tables and the looper at the pass \<open>k\<close>;
  \<open>C\<close> is the callback, from its arguments to its answer and the looper it leaves.
\<close>

definition poll_answer ::
  "(u64 \<Rightarrow> int \<Rightarrow> u32 \<Rightarrow> u64 \<Rightarrow> int \<times> looper) \<Rightarrow> poll_found \<times> looper \<Rightarrow> nat \<Rightarrow> (int \<times> (int \<times> u32 \<times> u64) \<times> nat \<times> looper) option"
where
  "poll_answer C p k =
     (case p of
        (Found_wake, l) \<Rightarrow> Some (ALOOPER_POLL_WAKE, (0, 0, 0), k, l)
      | (Found_reg r ev, l) \<Rightarrow>
          if reg_cb r \<noteq> 0 then
            (case C (reg_cb r) (reg_fd r) ev (reg_data r) of (keep, l') \<Rightarrow>
               Some (ALOOPER_POLL_CALLBACK, (0, 0, 0), k, if keep = 0 then snd (ALooper_removeFd (reg_fd r) l') else l'))
          else Some (reg_ident r, (reg_fd r, ev, reg_data r), k, l)
      | (Found_nothing, l) \<Rightarrow> None)"

partial_function (option) looper_loop ::
  "(nat \<Rightarrow> fds) \<Rightarrow> (nat \<Rightarrow> looper) \<Rightarrow> (u64 \<Rightarrow> int \<Rightarrow> u32 \<Rightarrow> u64 \<Rightarrow> int \<times> looper) \<Rightarrow> int \<Rightarrow> nat \<Rightarrow> int \<Rightarrow> (int \<times> (int \<times> u32 \<times> u64) \<times> nat \<times> looper) option"
where
  "looper_loop T L C ms k remaining =
     (case poll_answer C (looper_pass (T k) (L k)) k of
        Some x \<Rightarrow> Some x
      | None \<Rightarrow>
          if ms = 0 then Some (ALOOPER_POLL_TIMEOUT, (0, 0, 0), k, L k)
          else
            let wait_ms = (if ms < 0 \<or> 1 < remaining then 1 else remaining)
            in if wait_ms \<le> 0 then Some (ALOOPER_POLL_TIMEOUT, (0, 0, 0), k, L k)
               else if 0 < ms \<and> remaining - wait_ms \<le> 0 then Some (ALOOPER_POLL_TIMEOUT, (0, 0, 0), k, L k)
               else looper_loop T L C ms (Suc k) (if 0 < ms then remaining - wait_ms else remaining))"

definition ALooper_pollOnce ::
  "(nat \<Rightarrow> fds) \<Rightarrow> (nat \<Rightarrow> looper) \<Rightarrow> (u64 \<Rightarrow> int \<Rightarrow> u32 \<Rightarrow> u64 \<Rightarrow> int \<times> looper) \<Rightarrow> int \<Rightarrow> (int \<times> (int \<times> u32 \<times> u64) \<times> nat \<times> looper) option"
where
  "ALooper_pollOnce T L C ms = looper_loop T L C ms 0 ms"

lemma poll_answer_None: "poll_answer C p k = None \<longleftrightarrow> fst p = Found_nothing"
  by (cases p; cases "fst p") (auto simp: poll_answer_def split: prod.splits)

text \<open>A pass finds nothing exactly when nothing woke the looper and no registration has events.\<close>

lemma looper_pass_nothing:
  assumes "looper_ok l"
  shows "fst (looper_pass s l) = Found_nothing \<longleftrightarrow> \<not> signaled l \<and> (\<forall>fd. looper_ready_events s (reg_of l fd) = 0)"
proof -
  have "(\<forall>i < LOOP_REGS. looper_ready_events s (regs l ! i) = 0) \<longleftrightarrow> (\<forall>fd. looper_ready_events s (reg_of l fd) = 0)"
  proof (intro iffI allI impI)
    fix fd
    assume a: "\<forall>i < LOOP_REGS. looper_ready_events s (regs l ! i) = 0"
    show "looper_ready_events s (reg_of l fd) = 0"
    proof (cases "reg_of l fd")
      case (Some r)
      then obtain i where "i < LOOP_REGS" "regs l ! i = Some r" using reg_of_iff [OF assms, of fd r] by blast
      then show ?thesis using a Some by metis
    qed (simp add: looper_ready_events_def)
  next
    fix i
    assume a: "\<forall>fd. looper_ready_events s (reg_of l fd) = 0" "i < LOOP_REGS"
    show "looper_ready_events s (regs l ! i) = 0"
    proof (cases "regs l ! i")
      case (Some r)
      then have "reg_of l (reg_fd r) = Some r" using reg_of_iff [OF assms] a(2) by blast
      then show ?thesis using a(1) Some by metis
    qed (simp add: looper_ready_events_def)
  qed
  then show ?thesis
    by (auto simp: looper_pass_def scan_None_iff split: option.split dest: scan_SomeD)
qed

text \<open>A registration a pass finds is one of the looper's, with exactly its events.\<close>

lemma looper_pass_reg:
  assumes "looper_ok l" and "looper_pass s l = (Found_reg r ev, l')"
  shows "reg_of l (reg_fd r) = Some r \<and> ev = looper_ready_events s (Some r) \<and> ev \<noteq> 0 \<and> \<not> signaled l \<and> l' = l"
proof -
  have n: "\<not> signaled l" using assms(2) by (cases "signaled l") (simp_all add: looper_pass_def)
  show ?thesis
  proof (cases "scan (\<lambda>i. looper_ready_events s (regs l ! i) \<noteq> 0) 0 LOOP_REGS")
    case None
    then show ?thesis using assms(2) n by (simp add: looper_pass_def)
  next
    case (Some i)
    have i: "r = the (regs l ! i)" "ev = looper_ready_events s (regs l ! i)" "l' = l"
      using assms(2) n Some by (auto simp: looper_pass_def)
    from scan_SomeD [OF Some] have b: "i < LOOP_REGS" "looper_ready_events s (regs l ! i) \<noteq> 0" by auto
    then obtain q where q: "regs l ! i = Some q" by (cases "regs l ! i") (auto simp: looper_ready_events_def)
    then have "r = q" using i(1) by simp
    have "reg_of l (reg_fd r) = Some r" unfolding reg_of_iff [OF assms(1)] using q \<open>r = q\<close> b(1) by blast
    then show ?thesis using q \<open>r = q\<close> b(2) i(2,3) n by simp
  qed
qed

lemma looper_run:
  assumes "\<And>m. m < d \<Longrightarrow> fst (looper_pass (T m) (L m)) = Found_nothing" "ms < 0 \<or> int d < ms"
  shows "looper_loop T L C ms 0 ms = looper_loop T L C ms d (if 0 < ms then ms - int d else ms)"
  using assms
proof (induction d)
  case (Suc d)
  have e: "looper_loop T L C ms 0 ms = looper_loop T L C ms d (if 0 < ms then ms - int d else ms)"
    by (rule Suc.IH) (use Suc.prems in auto)
  have n: "poll_answer C (looper_pass (T d) (L d)) d = None" unfolding poll_answer_None using Suc.prems(1) by simp
  have "looper_loop T L C ms d (if 0 < ms then ms - int d else ms) = looper_loop T L C ms (Suc d) (if 0 < ms then ms - int (Suc d) else ms)"
    using Suc.prems(2) by (subst looper_loop.simps) (auto simp: n Let_def algebra_simps)
  with e show ?case by simp
qed simp

lemma looper_loop_Some:
  assumes "looper_loop T L C ms k remaining = Some x" and "ms < 0"
  shows "fst (looper_pass (T (fst (snd (snd x)))) (L (fst (snd (snd x))))) \<noteq> Found_nothing"
  using assms(2)
proof (induction rule: looper_loop.raw_induct [OF _ assms(1)])
  case (1 self T L C ms k remaining x)
  show ?case
  proof (cases "poll_answer C (looper_pass (T k) (L k)) k")
    case None
    then have "self T L C ms (Suc k) remaining = Some x" using "1.hyps" "1.prems" by (simp add: Let_def)
    from "1.IH" [OF this "1.prems"] show ?thesis .
  next
    case (Some y)
    then have "y = x" using "1.hyps" by simp
    then have "fst (snd (snd x)) = k" using Some by (auto simp: poll_answer_def split: prod.splits poll_found.splits if_splits)
    moreover have "fst (looper_pass (T k) (L k)) \<noteq> Found_nothing" using Some poll_answer_None [of C "looper_pass (T k) (L k)" k] by auto
    ultimately show ?thesis by simp
  qed
qed

text \<open>
  A wait answers in the first pass that finds something, if the time allows for that pass; it times
  out in the pass \<open>ms - 1\<close> (at once for 0) if no pass before does, so what happens in the last
  millisecond waits for the next call; only without a limit it may not return.
\<close>

theorem pollOnce_answers:
  "(fst (looper_pass (T k) (L k)) \<noteq> Found_nothing \<and> (\<forall>m < k. fst (looper_pass (T m) (L m)) = Found_nothing) \<and> (ms < 0 \<or> k = 0 \<or> int k < ms)
      \<longrightarrow> ALooper_pollOnce T L C ms = poll_answer C (looper_pass (T k) (L k)) k)
   \<and> (0 \<le> ms \<and> (\<forall>m. m = 0 \<or> int m < ms \<longrightarrow> fst (looper_pass (T m) (L m)) = Found_nothing)
      \<longrightarrow> ALooper_pollOnce T L C ms = Some (ALOOPER_POLL_TIMEOUT, (0, 0, 0), nat (ms - 1), L (nat (ms - 1))))
   \<and> (ms < 0 \<and> (\<forall>m. fst (looper_pass (T m) (L m)) = Found_nothing) \<longrightarrow> ALooper_pollOnce T L C ms = None)"
proof (intro conjI impI; elim conjE)
  assume k: "fst (looper_pass (T k) (L k)) \<noteq> Found_nothing" "\<forall>m < k. fst (looper_pass (T m) (L m)) = Found_nothing" "ms < 0 \<or> k = 0 \<or> int k < ms"
  have "looper_loop T L C ms 0 ms = looper_loop T L C ms k (if 0 < ms then ms - int k else ms)"
  proof (cases "k = 0")
    case False
    show ?thesis by (rule looper_run) (use k False in auto)
  qed simp
  moreover obtain y where "poll_answer C (looper_pass (T k) (L k)) k = Some y"
    using k(1) poll_answer_None [of C "looper_pass (T k) (L k)" k] by auto
  ultimately show "ALooper_pollOnce T L C ms = poll_answer C (looper_pass (T k) (L k)) k"
    unfolding ALooper_pollOnce_def by (subst (asm) (2) looper_loop.simps) simp
next
  assume t: "0 \<le> ms" "\<forall>m. m = 0 \<or> int m < ms \<longrightarrow> fst (looper_pass (T m) (L m)) = Found_nothing"
  define N where "N = nat (ms - 1)"
  have "looper_loop T L C ms 0 ms = looper_loop T L C ms N (if 0 < ms then ms - int N else ms)"
  proof (cases "N = 0")
    case False
    show ?thesis by (rule looper_run) (use t False in \<open>auto simp: N_def\<close>)
  qed simp
  moreover have "poll_answer C (looper_pass (T N) (L N)) N = None" 
  proof -
    have "N = 0 \<or> int N < ms" by (auto simp: N_def)
    then show ?thesis unfolding poll_answer_None using t(2) by blast
  qed
  ultimately show "ALooper_pollOnce T L C ms = Some (ALOOPER_POLL_TIMEOUT, (0, 0, 0), nat (ms - 1), L (nat (ms - 1)))"
    unfolding ALooper_pollOnce_def N_def [symmetric] using t(1)
    by (subst (asm) (2) looper_loop.simps) (auto simp: Let_def N_def)
next
  assume t: "ms < 0" "\<forall>m. fst (looper_pass (T m) (L m)) = Found_nothing"
  show "ALooper_pollOnce T L C ms = None"
  proof (rule ccontr)
    assume "ALooper_pollOnce T L C ms \<noteq> None"
    then obtain x where "looper_loop T L C ms 0 ms = Some x" by (auto simp: ALooper_pollOnce_def)
    from looper_loop_Some [OF this t(1)] t(2) show False by blast
  qed
qed

section \<open>The table of loopers\<close>

text \<open>At most one looper for each thread; every used one has a well-formed table of registrations.\<close>

definition loops_ok :: "looper list \<Rightarrow> bool" where
  "loops_ok gs \<longleftrightarrow> length gs = LOOP_SLOTS \<and>
     (\<forall>i < LOOP_SLOTS. \<forall>j < LOOP_SLOTS. looper_used (gs ! i) \<and> looper_used (gs ! j) \<and> looper_owner (gs ! i) = looper_owner (gs ! j) \<longrightarrow> i = j) \<and>
     (\<forall>i < LOOP_SLOTS. looper_used (gs ! i) \<longrightarrow> looper_ok (gs ! i))"

lemma looper_ok_fresh: "looper_ok (fresh_looper tid)"
  by (auto simp: looper_ok_def fresh_looper_def)

lemma reg_of_fresh: "reg_of (fresh_looper tid) = Map.empty"
proof
  fix fd
  show "reg_of (fresh_looper tid) fd = None"
    by (rule reg_of_eqI [OF looper_ok_fresh]) (auto simp: fresh_looper_def)
qed

text \<open>
  A thread gets its own looper, the same at every call, and makes a new one, without registrations,
  only if it has none; it gets none when other threads hold all 16, and then \<open>pollOnce\<close> in the code
  uses a null pointer.
\<close>

lemma loop_get_creates:
  assumes ok: "loops_ok gs" and c: "loop_get True tid gs = (r, gs')"
  shows "loops_ok gs' \<and>
    (case r of
       Some i \<Rightarrow> i < LOOP_SLOTS \<and> looper_used (gs' ! i) \<and> looper_owner (gs' ! i) = tid \<and> (gs' = gs \<or> gs' = gs[i := fresh_looper tid] \<and> \<not> looper_used (gs ! i))
     | None \<Rightarrow> gs' = gs \<and> (\<forall>i < LOOP_SLOTS. looper_used (gs ! i) \<and> looper_owner (gs ! i) \<noteq> tid))"
proof (cases "scan (\<lambda>i. looper_used (gs ! i) \<and> looper_owner (gs ! i) = tid) 0 LOOP_SLOTS")
  case (Some i)
  then have "r = Some i" "gs' = gs" using c by (simp_all add: loop_get_def)
  with scan_SomeD [OF Some] ok show ?thesis by simp
next
  case None
  then have no: "looper_owner (gs ! i) \<noteq> tid" if "i < LOOP_SLOTS" "looper_used (gs ! i)" for i
    using that by (simp add: scan_None_iff)
  show ?thesis
  proof (cases "scan (\<lambda>i. \<not> looper_used (gs ! i)) 0 LOOP_SLOTS")
    case n: None
    then have "r = None" "gs' = gs" using c None by (simp_all add: loop_get_def)
    then show ?thesis using n no ok by (simp add: scan_None_iff)
  next
    case (Some i)
    then have e: "r = Some i" "gs' = gs[i := fresh_looper tid]" using c None by (simp_all add: loop_get_def)
    have i: "i < LOOP_SLOTS" "\<not> looper_used (gs ! i)" using scan_SomeD [OF Some] by auto
    have n: "length gs = LOOP_SLOTS" using ok by (simp add: loops_ok_def)
    have at: "gs' ! j = (if j = i then fresh_looper tid else gs ! j)" if "j < LOOP_SLOTS" for j
      unfolding e(2) using that n by (simp add: nth_list_update)
    have fr: "looper_used (fresh_looper tid)" "looper_owner (fresh_looper tid) = tid" by (simp_all add: fresh_looper_def)
    have "loops_ok gs'" unfolding loops_ok_def
    proof (intro conjI allI impI; (elim conjE)?)
      show "length gs' = LOOP_SLOTS" using n e(2) by simp
      fix a b
      assume a: "a < LOOP_SLOTS" "b < LOOP_SLOTS" and h: "looper_used (gs' ! a)" "looper_used (gs' ! b)" "looper_owner (gs' ! a) = looper_owner (gs' ! b)"
      have "a \<noteq> i \<Longrightarrow> b \<noteq> i \<Longrightarrow> a = b" using ok a h unfolding at [OF a(1)] at [OF a(2)] by (simp add: loops_ok_def)
      then show "a = b" using h no [OF a(1)] no [OF a(2)] fr unfolding at [OF a(1)] at [OF a(2)] by (auto split: if_splits)
    next
      fix a
      assume a: "a < LOOP_SLOTS" "looper_used (gs' ! a)"
      then show "looper_ok (gs' ! a)" using ok looper_ok_fresh unfolding at [OF a(1)] by (auto simp: loops_ok_def split: if_splits)
    qed
    then show ?thesis using e i at [OF i(1)] fr by simp
  qed
qed

end
