(* ===== verification/Frames.thy ===== *)
theory Frames
  imports Prelude
begin

text \<open>
  The frame callbacks, the native window and the thread of the choreographer of
  \<^verbatim>\<open>source/android_ndk.c\<close>.  Callbacks are posted from any thread into 32 slots; a tick takes all of
  them out under the lock and calls them afterwards, so a callback may post itself again.  Ticks
  come from the one clock thread of \<^verbatim>\<open>unity_patches.c\<close>.
\<close>

section \<open>Frame callbacks\<close>

text \<open>A used slot; a slot whose \<^verbatim>\<open>used\<close> is 0 is \<open>None\<close> below.\<close>

record ch_cb =
  is64 :: bool
  fn :: u64
  cb_data :: u64

definition CH_SLOTS :: nat where "CH_SLOTS = 32"

definition post_slot :: "ch_cb \<Rightarrow> ch_cb option list \<Rightarrow> ch_cb option list" where
  "post_slot c gs =
     (case scan (\<lambda>i. gs ! i = None) 0 CH_SLOTS of
        Some i \<Rightarrow> gs[i := Some c]
      | None \<Rightarrow> gs)"

definition AChoreographer_postFrameCallback :: "u64 \<Rightarrow> u64 \<Rightarrow> ch_cb option list \<Rightarrow> ch_cb option list" where
  "AChoreographer_postFrameCallback cb d = post_slot \<lparr>is64 = False, fn = cb, cb_data = d\<rparr>"

definition AChoreographer_postFrameCallback64 :: "u64 \<Rightarrow> u64 \<Rightarrow> ch_cb option list \<Rightarrow> ch_cb option list" where
  "AChoreographer_postFrameCallback64 cb d = post_slot \<lparr>is64 = True, fn = cb, cb_data = d\<rparr>"

text \<open>
  The two kinds of calls: the function, the time and the argument.  \<^verbatim>\<open>long\<close> has 64 bits, so the
  cast of the older kind changes nothing.
\<close>

datatype ch_call = Cb64 u64 int u64 | Oldcb u64 int u64

definition call_of :: "int \<Rightarrow> ch_cb \<Rightarrow> ch_call" where
  "call_of now c = (if is64 c then Cb64 (fn c) now (cb_data c) else Oldcb (fn c) now (cb_data c))"

text \<open>The two halves of \<^verbatim>\<open>choreographer_tick\<close>: what it takes under the lock, and the calls it makes.\<close>

definition tick_take :: "ch_cb option list \<Rightarrow> ch_cb option list \<times> ch_cb option list" where
  "tick_take gs = (gs, replicate CH_SLOTS None)"

definition tick_calls :: "ch_cb option list \<Rightarrow> ch_cb list" where
  "tick_calls local = List.map_filter id local"

section \<open>The thread of the choreographer\<close>

text \<open>
  The state of the driver: its two flags, and the number of handles of its thread that are open.
  The system's answers to creating and starting the thread are arguments.  The port itself never
  starts this thread; its clock thread ticks.
\<close>

record choreo_driver =
  g_choreo_started :: bool
  g_choreo_stop :: bool
  thread_handles :: nat

definition choreographer_driver_start :: "bool \<Rightarrow> bool \<Rightarrow> choreo_driver \<Rightarrow> int \<times> choreo_driver" where
  "choreographer_driver_start create_ok start_ok s =
     (if g_choreo_started s then (0, s)
      else
        let s1 = s\<lparr>g_choreo_stop := False\<rparr>
        in if \<not> create_ok then (- 1, s1)
           else
             let s2 = s1\<lparr>thread_handles := thread_handles s1 + 1\<rparr>
             in if \<not> start_ok then (- 1, s2\<lparr>thread_handles := thread_handles s2 - 1\<rparr>)
                else (0, s2\<lparr>g_choreo_started := True\<rparr>))"

definition choreographer_driver_stop :: "choreo_driver \<Rightarrow> choreo_driver" where
  "choreographer_driver_stop s =
     (if \<not> g_choreo_started s then s
      else s\<lparr>g_choreo_stop := True, thread_handles := thread_handles s - 1, g_choreo_started := False\<rparr>)"

text \<open>The driver owns one handle while it is started and none otherwise, and a started driver is not told to stop.\<close>

definition driver_ok :: "choreo_driver \<Rightarrow> bool" where
  "driver_ok s \<longleftrightarrow> thread_handles s = of_bool (g_choreo_started s) \<and> (g_choreo_started s \<longrightarrow> \<not> g_choreo_stop s)"

lemma driver_ok_start: "driver_ok s \<Longrightarrow> driver_ok (snd (choreographer_driver_start c t s))"
  by (auto simp: driver_ok_def choreographer_driver_start_def Let_def)

lemma driver_ok_stop: "driver_ok s \<Longrightarrow> driver_ok (choreographer_driver_stop s)"
  by (auto simp: driver_ok_def choreographer_driver_stop_def)

lemma driver_start_result:
  "driver_ok s \<Longrightarrow> fst (choreographer_driver_start c t s) = 0 \<longleftrightarrow> g_choreo_started (snd (choreographer_driver_start c t s))"
  by (auto simp: driver_ok_def choreographer_driver_start_def Let_def)

section \<open>The native window\<close>

text \<open>The size the game is told, and the size and the crop of the host's window.\<close>

record native_window =
  g_w :: u32
  g_h :: u32
  nw_dims :: "u32 \<times> u32"
  nw_crop :: "u32 \<times> u32 \<times> u32 \<times> u32"

definition set_window :: "u32 \<Rightarrow> u32 \<Rightarrow> native_window \<Rightarrow> native_window" where
  "set_window w h s = s\<lparr>g_w := w, g_h := h, nw_dims := (w, h), nw_crop := (0, 0, w, h)\<rparr>"

text \<open>\<open>docked\<close> is whether the console is in its dock.\<close>

definition android_update_mode :: "bool \<Rightarrow> native_window \<Rightarrow> native_window" where
  "android_update_mode docked = (if docked then set_window 1920 1080 else set_window 1280 720)"

definition ANativeWindow_setBuffersGeometry :: "u32 \<Rightarrow> u32 \<Rightarrow> native_window \<Rightarrow> native_window" where
  "ANativeWindow_setBuffersGeometry x y s = (if 0 < sint x \<and> 0 < sint y then set_window x y s else s)"

text \<open>The getters answer the host's size, which is never empty.\<close>

definition window_ok :: "native_window \<Rightarrow> bool" where
  "window_ok s \<longleftrightarrow> nw_dims s = (g_w s, g_h s) \<and> nw_crop s = (0, 0, g_w s, g_h s) \<and> 0 < sint (g_w s) \<and> 0 < sint (g_h s)"

lemma window_ok_mode: "window_ok (android_update_mode docked s)"
  by (auto simp: window_ok_def android_update_mode_def set_window_def)

lemma window_ok_geometry: "window_ok s \<Longrightarrow> window_ok (ANativeWindow_setBuffersGeometry x y s)"
  by (auto simp: window_ok_def ANativeWindow_setBuffersGeometry_def set_window_def)

section \<open>Posting and ticking interleaved\<close>

text \<open>
  The slots, the callbacks the tick in progress has still to call and its time, the calls
  made so far, and what was posted: the accepted callbacks in order, and the ones dropped.
\<close>

record ch_state =
  g_callbacks :: "ch_cb option list"
  running :: "ch_cb list"
  tick_now :: int
  ran :: "ch_call list"
  accepted :: "ch_cb list"
  dropped :: "ch_cb list"

definition start_ch :: ch_state where
  "start_ch = \<lparr>g_callbacks = replicate CH_SLOTS None, running = [], tick_now = 0, ran = [], accepted = [], dropped = []\<rparr>"

inductive ch_step :: "ch_state \<Rightarrow> ch_state \<Rightarrow> bool" where
  post: "g = (if w then AChoreographer_postFrameCallback64 cb d (g_callbacks S) else AChoreographer_postFrameCallback cb d (g_callbacks S)) \<Longrightarrow>
    c = \<lparr>is64 = w, fn = cb, cb_data = d\<rparr> \<Longrightarrow>
    ch_step S (S\<lparr>g_callbacks := g,
      accepted := (if g = g_callbacks S then accepted S else accepted S @ [c]),
      dropped := (if g = g_callbacks S then dropped S @ [c] else dropped S)\<rparr>)"
| tick: "running S = [] \<Longrightarrow> tick_now S \<le> now \<Longrightarrow> tick_take (g_callbacks S) = (local, g) \<Longrightarrow>
    ch_step S (S\<lparr>g_callbacks := g, running := tick_calls local, tick_now := now\<rparr>)"
| run: "running S = c # cs \<Longrightarrow>
    ch_step S (S\<lparr>running := cs, ran := ran S @ [call_of (tick_now S) c]\<rparr>)"

definition pending :: "ch_cb option list \<Rightarrow> ch_cb list" where
  "pending gs = List.map_filter id gs"

text \<open>A call tells which callback it is, and when it was made.\<close>

fun callee :: "ch_call \<Rightarrow> ch_cb" where
  "callee (Cb64 f t d) = \<lparr>is64 = True, fn = f, cb_data = d\<rparr>"
| "callee (Oldcb f t d) = \<lparr>is64 = False, fn = f, cb_data = d\<rparr>"

fun call_time :: "ch_call \<Rightarrow> int" where
  "call_time (Cb64 f t d) = t"
| "call_time (Oldcb f t d) = t"

lemma callee_call_of [simp]: "callee (call_of t c) = c" "call_time (call_of t c) = t"
  by (simp_all add: call_of_def)

text \<open>The used slots are a prefix of the table, since a tick empties all of them.\<close>

definition packed :: "ch_cb option list \<Rightarrow> bool" where
  "packed gs \<longleftrightarrow> (\<exists>cs. length cs \<le> CH_SLOTS \<and> gs = map Some cs @ replicate (CH_SLOTS - length cs) None)"

lemma packed_empty [simp]: "packed (replicate CH_SLOTS None)" "pending (replicate n None) = []"
proof -
  show "packed (replicate CH_SLOTS None)" unfolding packed_def by (intro exI [of _ "[]"]) simp
  show "pending (replicate n None) = []" by (induction n) (simp_all add: pending_def map_filter_def)
qed

lemma pending_packed: "pending (map Some cs @ replicate n None) = cs"
  by (induction cs) (simp_all add: pending_def map_filter_def)

lemma post_packed:
  assumes "packed gs"
  shows "packed (post_slot c gs) \<and>
    (if length (pending gs) < CH_SLOTS then pending (post_slot c gs) = pending gs @ [c] \<and> post_slot c gs \<noteq> gs
     else post_slot c gs = gs)"
proof -
  obtain cs where cs: "length cs \<le> CH_SLOTS" "gs = map Some cs @ replicate (CH_SLOTS - length cs) None"
    using assms by (auto simp: packed_def)
  have l: "length (pending gs) = length cs" by (simp add: cs(2) pending_packed)
  show ?thesis
  proof (cases "length cs < CH_SLOTS")
    case True
    have "scan (\<lambda>i. gs ! i = None) 0 CH_SLOTS = Some (length cs)"
      using True by (auto simp: scan_Some_iff cs(2) nth_append)
    then have p: "post_slot c gs = gs[length cs := Some c]" by (simp add: post_slot_def)
    obtain n where n: "CH_SLOTS - length cs = Suc n" "n = CH_SLOTS - length (cs @ [c])" using True by (cases "CH_SLOTS - length cs") auto
    then have e: "post_slot c gs = map Some (cs @ [c]) @ replicate n None"
      unfolding p by (simp add: cs(2) list_update_append)
    have "packed (post_slot c gs)" unfolding e packed_def using True n(2) by (intro exI [of _ "cs @ [c]"]) simp
    moreover have "pending (post_slot c gs) = pending gs @ [c]"
      unfolding e unfolding cs(2) by (simp only: pending_packed)
    ultimately show ?thesis using True l by force
  next
    case False
    then have "scan (\<lambda>i. gs ! i = None) 0 CH_SLOTS = None"
      using cs by (auto simp: scan_None_iff nth_append)
    then show ?thesis using False l assms by (simp add: post_slot_def)
  qed
qed

definition ch_inv :: "ch_state \<Rightarrow> bool" where
  "ch_inv S \<longleftrightarrow> packed (g_callbacks S) \<and>
     accepted S = map callee (ran S) @ running S @ pending (g_callbacks S) \<and>
     sorted (map call_time (ran S)) \<and> (\<forall>x \<in> set (ran S). call_time x \<le> tick_now S)"

lemma ch_step_inv:
  assumes "ch_step S S'" "ch_inv S"
  shows "ch_inv S'"
  using assms(1)
proof (cases rule: ch_step.cases)
  case (post g w cb d c)
  have g: "g = post_slot c (g_callbacks S)"
    using post by (simp add: AChoreographer_postFrameCallback_def AChoreographer_postFrameCallback64_def)
  have "packed (g_callbacks S)" using assms(2) by (simp add: ch_inv_def)
  from post_packed [OF this, of c] show ?thesis
    using assms(2) post g by (auto simp: ch_inv_def split: if_splits)
next
  case (tick now local g)
  then show ?thesis using assms(2)
    by (auto simp: ch_inv_def tick_take_def tick_calls_def pending_def [symmetric])
next
  case (run c cs)
  then show ?thesis using assms(2) by (auto simp: ch_inv_def sorted_append)
qed

lemma ch_reach_inv: "ch_step\<^sup>*\<^sup>* start_ch S \<Longrightarrow> ch_inv S"
proof (induction rule: rtranclp_induct)
  case base
  show ?case by (simp add: ch_inv_def start_ch_def)
qed (rule ch_step_inv)

text \<open>
  C19. Frame callbacks, whatever posts and ticks interleave.  Every accepted callback is called exactly
  once, in the order of posting, through the type it was posted with and with its own argument,
  and the times handed out never decrease.  A post is accepted if fewer than 32 callbacks wait and
  dropped without a sign otherwise; and the next tick takes everything that waits then.
\<close>

theorem choreographer_fifo:
  assumes "ch_step\<^sup>*\<^sup>* start_ch S"
  shows "accepted S = map callee (ran S) @ running S @ pending (g_callbacks S)
    \<and> sorted (map call_time (ran S))
    \<and> (\<forall>c. if length (pending (g_callbacks S)) < 32
           then pending (post_slot c (g_callbacks S)) = pending (g_callbacks S) @ [c]
           else post_slot c (g_callbacks S) = g_callbacks S)
    \<and> (\<forall>local g. tick_take (g_callbacks S) = (local, g) \<longrightarrow>
           tick_calls local = pending (g_callbacks S) \<and> pending g = [])"
proof -
  have i: "ch_inv S" by (rule ch_reach_inv) (rule assms)
  then have p: "packed (g_callbacks S)" by (simp add: ch_inv_def)
  show ?thesis
  proof (intro conjI allI impI)
    fix c
    show "if length (pending (g_callbacks S)) < 32 then pending (post_slot c (g_callbacks S)) = pending (g_callbacks S) @ [c]
        else post_slot c (g_callbacks S) = g_callbacks S"
      using post_packed [OF p, of c] by (auto simp: CH_SLOTS_def split: if_splits)
  qed (use i in \<open>auto simp: ch_inv_def tick_take_def tick_calls_def pending_def [symmetric]\<close>)
qed

text \<open>A callback posted, then called by a tick at time 5, while a second one is posted.\<close>

theorem choreographer_fifo_witness:
  "\<exists>S. ch_step\<^sup>*\<^sup>* start_ch S \<and> ran S = [Cb64 0x100 5 7] \<and> pending (g_callbacks S) = [\<lparr>is64 = False, fn = 0x200, cb_data = 8\<rparr>] \<and>
     accepted S = [\<lparr>is64 = True, fn = 0x100, cb_data = 7\<rparr>, \<lparr>is64 = False, fn = 0x200, cb_data = 8\<rparr>]"
proof -
  let ?a = "\<lparr>is64 = True, fn = 0x100, cb_data = 7\<rparr>" and ?b = "\<lparr>is64 = False, fn = 0x200, cb_data = 8\<rparr>"
  let ?e = "replicate CH_SLOTS None :: ch_cb option list"
  have n: "post_slot c ?e \<noteq> ?e \<and> pending (post_slot c ?e) = [c]" for c
    using post_packed [of ?e c] by (simp add: CH_SLOTS_def [symmetric]) (simp add: CH_SLOTS_def)
  let ?S1 = "start_ch\<lparr>g_callbacks := post_slot ?a ?e, accepted := [?a]\<rparr>"
  let ?S2 = "?S1\<lparr>g_callbacks := ?e, running := [?a], tick_now := 5\<rparr>"
  let ?S3 = "?S2\<lparr>g_callbacks := post_slot ?b ?e, accepted := [?a, ?b]\<rparr>"
  let ?S4 = "?S3\<lparr>running := [], ran := [Cb64 0x100 5 7]\<rparr>"
  have 1: "ch_step start_ch ?S1"
    using ch_step.post [OF refl refl, of start_ch True "0x100" 7] n [of ?a]
    by (simp add: start_ch_def AChoreographer_postFrameCallback64_def)
  have 2: "ch_step ?S1 ?S2"
    using ch_step.tick [of ?S1 5 "post_slot ?a ?e" ?e] n [of ?a]
    by (simp add: start_ch_def tick_take_def tick_calls_def pending_def [symmetric])
  have 3: "ch_step ?S2 ?S3"
    using ch_step.post [OF refl refl, of ?S2 False "0x200" 8] n [of ?b]
    by (simp add: start_ch_def AChoreographer_postFrameCallback_def)
  have 4: "ch_step ?S3 ?S4"
    using ch_step.run [of ?S3 ?a "[]"] by (simp add: start_ch_def call_of_def)
  have r: "ch_step\<^sup>*\<^sup>* start_ch ?S4" 
    by (rule converse_rtranclp_into_rtranclp [of ch_step, OF 1], rule converse_rtranclp_into_rtranclp [of ch_step, OF 2],
        rule converse_rtranclp_into_rtranclp [of ch_step, OF 3], rule r_into_rtranclp [of ch_step, OF 4])
  have "accepted ?S4 = map callee (ran ?S4) @ running ?S4 @ pending (g_callbacks ?S4)"
    using choreographer_fifo [OF r] by blast
  then show ?thesis using r n [of ?b] by (intro exI [of _ ?S4]) simp
qed

end
