(* ===== verification/FileMeta.thy ===== *)
theory FileMeta
  imports FdBook
begin

text \<open>
  The calls of \<^verbatim>\<open>source/file_bridge.c\<close> that work on paths and directories: the metadata of files in the
  layout of Android, access, directories, renaming and removing.  Each operation translates its
  path, asks the host and converts the answer.  An operation answers its result and the list of
  the calls it made to the host, so that statements can speak of the paths the host gets to see.
\<close>

section \<open>The host\<close>

record host_stat =
  hs_dev :: u64
  hs_ino :: u64
  hs_mode :: u32
  hs_nlink :: u32
  hs_uid :: u32
  hs_gid :: u32
  hs_rdev :: u64
  hs_size :: int
  hs_atime :: int
  hs_mtime :: int
  hs_ctime :: int

record host_statvfs =
  hv_bsize :: u64
  hv_frsize :: u64
  hv_blocks :: u64
  hv_bfree :: u64
  hv_bavail :: u64
  hv_files :: u64
  hv_ffree :: u64
  hv_namemax :: u64

datatype host_dtype =
  DT_UNKNOWN | DT_FIFO | DT_CHR | DT_DIR | DT_BLK | DT_REG | DT_LNK | DT_SOCK | DT_WHT | DT_OTHER nat

record host_dirent =
  hd_type :: host_dtype
  hd_name :: string

text \<open>
  What the host answers.  A directory is the list of what its \<^verbatim>\<open>readdir\<close> will answer, an entry or an
  error.  \<open>m_alloc\<close> is the allocation of the translated path, \<open>m_alloc2\<close> the one after it.
\<close>

record meta_host =
  m_stat :: "string \<Rightarrow> host_stat result"
  m_lstat :: "string \<Rightarrow> host_stat result"
  m_fstat :: "int \<Rightarrow> host_stat result"
  m_dup :: "int \<Rightarrow> int result"
  m_statvfs :: "string \<Rightarrow> host_statvfs result"
  m_access :: "string \<Rightarrow> u32 \<Rightarrow> unit result"
  m_opendir :: "string \<Rightarrow> (errno + host_dirent) list result"
  m_mkdir :: "string \<Rightarrow> nat \<Rightarrow> unit result"
  m_unlink :: "string \<Rightarrow> unit result"
  m_remove :: "string \<Rightarrow> unit result"
  m_rename :: "string \<Rightarrow> string \<Rightarrow> unit result"
  m_realpath :: "string \<Rightarrow> string result"
  m_alloc :: bool
  m_alloc2 :: bool

datatype host_call =
  HC_stat string | HC_lstat string | HC_fstat int | HC_dup int | HC_close int | HC_statvfs string | HC_access string u32
  | HC_opendir string | HC_mkdir string nat | HC_unlink string | HC_remove string | HC_rename string string | HC_realpath string

fun call_paths :: "host_call \<Rightarrow> string list" where
  "call_paths (HC_stat p) = [p]"
| "call_paths (HC_lstat p) = [p]"
| "call_paths (HC_statvfs p) = [p]"
| "call_paths (HC_access p m) = [p]"
| "call_paths (HC_opendir p) = [p]"
| "call_paths (HC_mkdir p m) = [p]"
| "call_paths (HC_unlink p) = [p]"
| "call_paths (HC_remove p) = [p]"
| "call_paths (HC_rename p q) = [p, q]"
| "call_paths (HC_realpath p) = [p]"
| "call_paths (HC_fstat fd) = []"
| "call_paths (HC_dup fd) = []"
| "call_paths (HC_close fd) = []"

section \<open>Translated paths\<close>

definition translate_path_alloc :: "meta_host \<Rightarrow> string option \<Rightarrow> string result" where
  "translate_path_alloc H p =
     (case p of None \<Rightarrow> Inl EFAULT | Some s \<Rightarrow> if m_alloc H then Inr (translate_path s) else Inl ENOMEM)"

definition S_ISREG :: "u32 \<Rightarrow> bool" where
  "S_ISREG mode \<longleftrightarrow> mode AND 0xF000 = 0x8000"

definition translate_read_path_alloc :: "meta_host \<Rightarrow> string option \<Rightarrow> string result \<times> host_call list" where
  "translate_read_path_alloc H p =
     (case translate_path_alloc H p of
        Inl e \<Rightarrow> (Inl e, [])
      | Inr primary \<Rightarrow>
          (case m_stat H primary of
             Inr _ \<Rightarrow> (Inr primary, [HC_stat primary])
           | Inl _ \<Rightarrow>
               if \<not> m_alloc2 H then (Inr primary, [HC_stat primary])
               else (case find_packaged_local_fallback (the p) PATH_MAX of
                       None \<Rightarrow> (Inr primary, [HC_stat primary])
                     | Some l \<Rightarrow>
                         (case m_stat H l of
                            Inl _ \<Rightarrow> (Inr primary, [HC_stat primary, HC_stat l])
                          | Inr st \<Rightarrow> (Inr (if S_ISREG (hs_mode st) then l else primary), [HC_stat primary, HC_stat l])))))"

text \<open>This is the reading path of \<open>Paths\<close>, when memory lasts.\<close>

lemma translate_read_path_alloc_eq:
  assumes "m_alloc H" "m_alloc2 H"
  shows "fst (translate_read_path_alloc H (Some p)) =
    Inr (translate_read_path (\<lambda>q. case m_stat H q of Inr _ \<Rightarrow> True | Inl _ \<Rightarrow> False)
           (\<lambda>q. case m_stat H q of Inr st \<Rightarrow> S_ISREG (hs_mode st) | Inl _ \<Rightarrow> False) p)"
  using assms
  by (auto simp: translate_read_path_alloc_def translate_path_alloc_def translate_read_path_def translate_path_def Let_def
      split: sum.split option.split)

section \<open>Metadata\<close>

record android_stat =
  st_dev :: u64
  st_ino :: u64
  st_mode :: u32
  st_nlink :: u32
  st_uid :: u32
  st_gid :: u32
  st_rdev :: u64
  st_size :: int
  st_blksize :: int
  st_blocks :: int
  ast_atim :: "int \<times> int"
  ast_mtim :: "int \<times> int"
  ast_ctim :: "int \<times> int"

text \<open>The division of C rounds to zero.\<close>

definition quot512 :: "int \<Rightarrow> int" where
  "quot512 x = (if 0 \<le> x then x div 512 else - (- x div 512))"

definition stat_to_android :: "host_stat \<Rightarrow> android_stat" where
  "stat_to_android h =
     \<lparr>st_dev = hs_dev h, st_ino = hs_ino h, st_mode = hs_mode h, st_nlink = hs_nlink h, st_uid = hs_uid h, st_gid = hs_gid h,
      st_rdev = hs_rdev h, st_size = hs_size h, st_blksize = 4096, st_blocks = quot512 (hs_size h + 511),
      ast_atim = (hs_atime h, 0), ast_mtim = (hs_mtime h, 0), ast_ctim = (hs_ctime h, 0)\<rparr>"

text \<open>The blocks of a file are just enough for its size.\<close>

lemma st_blocks_enough:
  assumes "0 \<le> hs_size h"
  shows "hs_size h \<le> 512 * st_blocks (stat_to_android h) \<and> 512 * (st_blocks (stat_to_android h) - 1) < hs_size h"
  using assms by (auto simp: stat_to_android_def quot512_def)

text \<open>The errors of \<^verbatim>\<open>stat\<close> that stand: a data file of the cache that is open is asked through its descriptor.\<close>

definition stat_data_file :: "meta_host \<Rightarrow> string \<Rightarrow> book \<Rightarrow> host_stat result \<times> host_call list" where
  "stat_data_file H path b =
     (let source_fd = unitycache_lookup_fd path (data_slots b)
      in if source_fd < 0 then (Inl EIO, [])
         else (case m_dup H source_fd of
                 Inl _ \<Rightarrow> (Inl EIO, [HC_dup source_fd])
               | Inr probe_fd \<Rightarrow>
                   if probe_fd < 0 then (Inl EIO, [HC_dup source_fd])
                   else (m_fstat H probe_fd, [HC_dup source_fd, HC_fstat probe_fd, HC_close probe_fd])))"

definition file_stat :: "meta_host \<Rightarrow> string option \<Rightarrow> book \<Rightarrow> android_stat result \<times> host_call list" where
  "file_stat H p b =
     (case translate_read_path_alloc H p of
        (Inl e, cs) \<Rightarrow> (Inl e, cs)
      | (Inr resolved, cs) \<Rightarrow>
          (case (case m_stat H resolved of
                   Inl e \<Rightarrow> if e = EIO \<and> is_unitycache_data_file resolved then stat_data_file H resolved b else (Inl e, [])
                 | Inr h \<Rightarrow> (Inr h, [])) of
             (r, ds) \<Rightarrow> (map_sum id stat_to_android r, cs @ HC_stat resolved # ds)))"

definition file_lstat :: "meta_host \<Rightarrow> string option \<Rightarrow> android_stat result \<times> host_call list" where
  "file_lstat H p =
     (case translate_read_path_alloc H p of
        (Inl e, cs) \<Rightarrow> (Inl e, cs)
      | (Inr resolved, cs) \<Rightarrow> (map_sum id stat_to_android (m_lstat H resolved), cs @ [HC_lstat resolved]))"

definition file_fstat :: "meta_host \<Rightarrow> int \<Rightarrow> android_stat result \<times> host_call list" where
  "file_fstat H fd = (map_sum id stat_to_android (m_fstat H fd), [HC_fstat fd])"

record android_statfs =
  f_bsize :: u64
  f_frsize :: u64
  f_blocks :: u64
  f_bfree :: u64
  f_bavail :: u64
  f_files :: u64
  f_ffree :: u64
  f_namelen :: u64

definition statfs_to_android :: "host_statvfs \<Rightarrow> android_statfs" where
  "statfs_to_android h =
     \<lparr>f_bsize = hv_bsize h, f_frsize = (if hv_frsize h \<noteq> 0 then hv_frsize h else hv_bsize h), f_blocks = hv_blocks h,
      f_bfree = hv_bfree h, f_bavail = hv_bavail h, f_files = hv_files h, f_ffree = hv_ffree h, f_namelen = hv_namemax h\<rparr>"

text \<open>\<open>given\<close> is whether the guest gave a place for the answer.\<close>

definition file_statfs :: "meta_host \<Rightarrow> string option \<Rightarrow> bool \<Rightarrow> android_statfs result \<times> host_call list" where
  "file_statfs H p given =
     (if \<not> given then (Inl EFAULT, [])
      else (case translate_path_alloc H p of
              Inl e \<Rightarrow> (Inl e, [])
            | Inr r \<Rightarrow> (map_sum id statfs_to_android (m_statvfs H r), [HC_statvfs r])))"

definition W_OK :: u32 where "W_OK = 2"

definition file_access :: "meta_host \<Rightarrow> string option \<Rightarrow> u32 \<Rightarrow> unit result \<times> host_call list" where
  "file_access H p mode =
     (case (if mode AND W_OK \<noteq> 0 then (translate_path_alloc H p, []) else translate_read_path_alloc H p) of
        (Inl e, cs) \<Rightarrow> (Inl e, cs)
      | (Inr r, cs) \<Rightarrow> (m_access H r mode, cs @ [HC_access r mode]))"

section \<open>Making, removing and renaming\<close>

text \<open>The parents that are made for a path, up to the first failure.\<close>

fun parents_made :: "(string \<Rightarrow> unit result) \<Rightarrow> string list \<Rightarrow> string list" where
  "parents_made mk [] = []"
| "parents_made mk (d # ds) = d # (case mk d of Inr _ \<Rightarrow> parents_made mk ds | Inl e \<Rightarrow> if e = EEXIST then parents_made mk ds else [])"

definition file_mkdir :: "meta_host \<Rightarrow> string option \<Rightarrow> nat \<Rightarrow> unit result \<times> host_call list" where
  "file_mkdir H p mode =
     (case translate_path_alloc H p of
        Inl e \<Rightarrow> (Inl e, [])
      | Inr r \<Rightarrow>
          let made = map (\<lambda>d. HC_mkdir d 511) (parents_made (\<lambda>d. m_mkdir H d 511) (unity_cache_parents r))
          in (case ensure_unity_cache_parents (\<lambda>d. m_mkdir H d 511) r of
                Inl e \<Rightarrow> (Inl e, made)
              | Inr _ \<Rightarrow> (m_mkdir H r mode, made @ [HC_mkdir r mode])))"

definition file_unlink :: "meta_host \<Rightarrow> string option \<Rightarrow> unit result \<times> host_call list" where
  "file_unlink H p = (case translate_path_alloc H p of Inl e \<Rightarrow> (Inl e, []) | Inr r \<Rightarrow> (m_unlink H r, [HC_unlink r]))"

definition file_remove :: "meta_host \<Rightarrow> string option \<Rightarrow> unit result \<times> host_call list" where
  "file_remove H p = (case translate_path_alloc H p of Inl e \<Rightarrow> (Inl e, []) | Inr r \<Rightarrow> (m_remove H r, [HC_remove r]))"

definition file_rename :: "meta_host \<Rightarrow> string option \<Rightarrow> string option \<Rightarrow> unit result \<times> host_call list" where
  "file_rename H a b =
     (case translate_path_alloc H a of
        Inl e \<Rightarrow> (Inl e, [])
      | Inr a1 \<Rightarrow>
          (case (case b of None \<Rightarrow> Inl EFAULT | Some s \<Rightarrow> if m_alloc2 H then Inr (translate_path s) else Inl ENOMEM) of
             Inl e \<Rightarrow> (Inl e, [])
           | Inr b1 \<Rightarrow> (m_rename H a1 b1, [HC_rename a1 b1])))"

definition file_realpath :: "meta_host \<Rightarrow> string option \<Rightarrow> string result \<times> host_call list" where
  "file_realpath H p =
     (case translate_read_path_alloc H p of
        (Inl e, cs) \<Rightarrow> (Inl e, cs)
      | (Inr t, cs) \<Rightarrow> (m_realpath H t, cs @ [HC_realpath t]))"

section \<open>Directories\<close>

record android_dirent =
  d_ino :: u64
  d_off :: u64
  d_reclen :: u16
  d_type :: nat
  d_name :: string

definition GUEST_DIR_MAGIC :: u32 where "GUEST_DIR_MAGIC = 0x44524942"

record guest_dir =
  dir_magic :: u32
  dir_host :: "(errno + host_dirent) list option"
  dir_seq :: u64

fun android_dirent_type :: "host_dtype \<Rightarrow> nat" where
  "android_dirent_type DT_UNKNOWN = 0"
| "android_dirent_type DT_FIFO = 1"
| "android_dirent_type DT_CHR = 2"
| "android_dirent_type DT_DIR = 4"
| "android_dirent_type DT_BLK = 6"
| "android_dirent_type DT_REG = 8"
| "android_dirent_type DT_LNK = 10"
| "android_dirent_type DT_SOCK = 12"
| "android_dirent_type DT_WHT = 14"
| "android_dirent_type (DT_OTHER n) = 0"

definition file_opendir :: "meta_host \<Rightarrow> string option \<Rightarrow> guest_dir result \<times> host_call list" where
  "file_opendir H p =
     (case translate_path_alloc H p of
        Inl e \<Rightarrow> (Inl e, [])
      | Inr r \<Rightarrow>
          (case m_opendir H r of
             Inl e \<Rightarrow> Inl e
           | Inr es \<Rightarrow> if m_alloc2 H then Inr \<lparr>dir_magic = GUEST_DIR_MAGIC, dir_host = Some es, dir_seq = 0\<rparr> else Inl ENOMEM,
           [HC_opendir r]))"

text \<open>The record of an entry; \<open>0x13\<close> is the offset of the name in it.\<close>

definition dirent_of :: "u64 \<Rightarrow> host_dirent \<Rightarrow> android_dirent" where
  "dirent_of seq h =
     (let n = min (length (hd_name h)) 255;
          reclen = ((word_of_nat (0x13 + n + 1) :: u64) + 7) AND NOT 7
      in \<lparr>d_ino = 0, d_off = seq, d_reclen = ucast reclen, d_type = android_dirent_type (hd_type h), d_name = take n (hd_name h)\<rparr>)"

text \<open>\<open>Inr None\<close> is a null pointer without an error, the end of the directory.\<close>

definition file_readdir :: "guest_dir option \<Rightarrow> android_dirent option result \<times> guest_dir option" where
  "file_readdir opaque =
     (case opaque of
        None \<Rightarrow> (Inl EBADF, None)
      | Some g \<Rightarrow>
          if dir_magic g \<noteq> GUEST_DIR_MAGIC then (Inl EBADF, Some g)
          else (case dir_host g of
                  None \<Rightarrow> (Inl EBADF, Some g)
                | Some [] \<Rightarrow> (Inr None, Some g)
                | Some (Inl e # es) \<Rightarrow> (Inl e, Some (g\<lparr>dir_host := Some es\<rparr>))
                | Some (Inr h # es) \<Rightarrow>
                    (Inr (Some (dirent_of (dir_seq g + 1) h)), Some (g\<lparr>dir_host := Some es, dir_seq := dir_seq g + 1\<rparr>))))"

text \<open>Closing frees the object; \<open>rc\<close> is the host's answer.\<close>

definition file_closedir :: "guest_dir option \<Rightarrow> unit result \<Rightarrow> unit result \<times> guest_dir option" where
  "file_closedir opaque rc =
     (case opaque of
        None \<Rightarrow> (Inl EBADF, None)
      | Some g \<Rightarrow> if dir_magic g \<noteq> GUEST_DIR_MAGIC \<or> dir_host g = None then (Inl EBADF, Some g) else (rc, None))"

text \<open>Reading \<open>n\<close> times.\<close>

fun readdirs :: "nat \<Rightarrow> guest_dir option \<Rightarrow> android_dirent option result list" where
  "readdirs 0 g = []"
| "readdirs (Suc n) g = (case file_readdir g of (r, g') \<Rightarrow> r # readdirs n g')"

section \<open>Closing a stream\<close>

text \<open>\<open>fd\<close> is the stream's descriptor, \<open>rc\<close> the host's answer; a closed stream's descriptor is forgotten either way.\<close>

definition file_fclose :: "(int \<times> unit result) option \<Rightarrow> book \<Rightarrow> unit result \<times> book" where
  "file_fclose fp b =
     (case fp of
        None \<Rightarrow> (Inl EINVAL, b)
      | Some (fd, rc) \<Rightarrow> (rc, if 0 \<le> fd then file_note_fd_closed fd b else b))"

end
