(* ===== verification/FileMetaProps.thy ===== *)
theory FileMetaProps
  imports FileMeta
begin

text \<open>
  The paths the host gets to see from the calls of \<open>FileMeta\<close>, the listing of a directory, and the
  metadata of a data file of the cache that is open.
\<close>

section \<open>Every path is confined\<close>

text \<open>A path of the host that is right for the guest's path \<open>p\<close>.\<close>

definition path_ok :: "string \<Rightarrow> string \<Rightarrow> bool" where
  "path_ok p q \<longleftrightarrow> under DATA_ROOT q \<and> (dotdot_free p \<or> find_packaged_local_fallback p PATH_MAX = Some q \<longrightarrow> dotdot_free q)"

definition calls_ok :: "string \<Rightarrow> host_call list \<Rightarrow> bool" where
  "calls_ok p cs \<longleftrightarrow> (\<forall>c \<in> set cs. \<forall>q \<in> set (call_paths c). path_ok p q)"

lemma calls_ok_simps [simp]:
  "calls_ok p []" "calls_ok p (c # cs) \<longleftrightarrow> (\<forall>q \<in> set (call_paths c). path_ok p q) \<and> calls_ok p cs"
  "calls_ok p (cs @ ds) \<longleftrightarrow> calls_ok p cs \<and> calls_ok p ds"
  by (auto simp: calls_ok_def)

lemma fallback_ok:
  assumes "find_packaged_local_fallback p PATH_MAX = Some l"
  shows "path_ok p l"
proof -
  have "starts_with (DATA_ROOT @ ''/assets/local/'') l \<and> dotdot_free l" using paths_confined assms by blast
  then show ?thesis by (auto simp: path_ok_def under_def starts_with_append)
qed

lemma path_okI: "under DATA_ROOT q \<Longrightarrow> (dotdot_free p \<Longrightarrow> dotdot_free q) \<Longrightarrow> path_ok p q"
  using fallback_ok [of p q] by (auto simp: path_ok_def)

lemma translated_ok:
  assumes "translate p = Some out" "length out < PATH_MAX"
  shows "translate_path p = out" and "under DATA_ROOT out" and "dotdot_free p \<Longrightarrow> dotdot_free out" and "path_ok p out"
proof -
  show t: "translate_path p = out" using assms by (auto simp: translate_path_def file_translate_def cut_def PATH_MAX_def)
  show c: "under DATA_ROOT out" "dotdot_free p \<Longrightarrow> dotdot_free out"
    using translate_confined [OF assms(1)] by (simp_all add: confined_def)
  show "path_ok p out" using c fallback_ok [of p out] by (auto simp: path_ok_def)
qed

text \<open>The directory parents of a confined path are confined.\<close>

lemma parents_made_subset: "set (parents_made mk ds) \<subseteq> set ds"
  by (induction ds) (auto split: sum.splits)

lemma unity_parent_ok:
  assumes "d \<in> set (unity_cache_parents out)"
  shows "under DATA_ROOT d" and "dotdot_free out \<Longrightarrow> dotdot_free d"
proof -
  obtain i where i: "starts_with (DATA_ROOT @ ''/files/UnityCache/'') out" "length DATA_ROOT + 1 \<le> i" "i < length out" "out ! i = CHR ''/''" "d = take i out"
    using assms by (auto simp: unity_cache_parents_def split: if_splits)
  obtain r where r: "out = DATA_ROOT @ CHR ''/'' # r" using i(1) by (auto simp: starts_with_append)
  have "d = DATA_ROOT @ CHR ''/'' # take (i - length DATA_ROOT - 1) r" using i(2,5) r by (cases "i - length DATA_ROOT") auto
  then show "under DATA_ROOT d" by (simp add: under_split)
  have "out = d @ CHR ''/'' # drop (Suc i) out" using i(3-5) by (metis id_take_nth_drop)
  then show "dotdot_free out \<Longrightarrow> dotdot_free d" using dotdot_free_append by metis
qed

text \<open>Each operation, for a path that is translated and fits the buffer.\<close>

definition handled :: "string \<Rightarrow> bool" where
  "handled p \<longleftrightarrow> (\<exists>out. translate p = Some out \<and> length out < PATH_MAX)"

lemma handled_path: "handled p \<Longrightarrow> path_ok p (translate_path p)"
  using translated_ok(1,4) by (metis handled_def)

lemma read_path_calls:
  assumes "handled p" "translate_read_path_alloc H (Some p) = (r, cs)"
  shows "calls_ok p cs \<and> (\<forall>q. r = Inr q \<longrightarrow> path_ok p q)"
  using assms(2) handled_path [OF assms(1)] fallback_ok [of p]
  by (auto simp: translate_read_path_alloc_def translate_path_alloc_def split: sum.splits option.splits if_splits)

lemma stat_data_file_calls: "calls_ok p (snd (stat_data_file H q b))"
  by (auto simp: stat_data_file_def Let_def split: sum.split)

lemma file_stat_calls: "handled p \<Longrightarrow> calls_ok p (snd (file_stat H (Some p) b))"
  using stat_data_file_calls [of p H _ b]
  by (auto simp: file_stat_def split: prod.split sum.split dest!: read_path_calls) (metis snd_conv)+

lemma file_lstat_calls: "handled p \<Longrightarrow> calls_ok p (snd (file_lstat H (Some p)))"
  by (auto simp: file_lstat_def split: prod.split sum.split dest!: read_path_calls)

lemma file_realpath_calls: "handled p \<Longrightarrow> calls_ok p (snd (file_realpath H (Some p)))"
  by (auto simp: file_realpath_def split: prod.split sum.split dest!: read_path_calls)

lemma file_access_calls: "handled p \<Longrightarrow> calls_ok p (snd (file_access H (Some p) mode))"
  using handled_path [of p]
  by (auto simp: file_access_def translate_path_alloc_def split: prod.split sum.split dest!: read_path_calls)

lemma simple_calls:
  assumes "handled p"
  shows "calls_ok p (snd (file_statfs H (Some p) given))" "calls_ok p (snd (file_unlink H (Some p)))"
    "calls_ok p (snd (file_remove H (Some p)))" "calls_ok p (snd (file_opendir H (Some p)))"
  using handled_path [OF assms]
  by (auto simp: file_statfs_def file_unlink_def file_remove_def file_opendir_def translate_path_alloc_def)

lemma file_mkdir_calls:
  assumes "handled p"
  shows "calls_ok p (snd (file_mkdir H (Some p) mode))"
proof -
  obtain out where o: "translate p = Some out" "length out < PATH_MAX" using assms by (auto simp: handled_def)
  have "path_ok p d" if "d \<in> set (unity_cache_parents out)" for d
    using unity_parent_ok [OF that] translated_ok(3) [OF o] by (intro path_okI) auto
  then have "calls_ok p (map (\<lambda>d. HC_mkdir d 511) (parents_made mk (unity_cache_parents out)))" for mk
    using parents_made_subset [of mk "unity_cache_parents out"] by (fastforce simp: calls_ok_def)
  then show ?thesis
    using translated_ok(1,4) [OF o] by (auto simp: file_mkdir_def translate_path_alloc_def Let_def split: sum.split)
qed

lemma file_rename_paths:
  assumes "handled a" "handled b" "c \<in> set (snd (file_rename H (Some a) (Some b)))"
  shows "\<exists>q r. c = HC_rename q r \<and> path_ok a q \<and> path_ok b r"
  using assms handled_path [of a] handled_path [of b]
  by (auto simp: file_rename_def translate_path_alloc_def split: if_splits)


text \<open>A host that fails \<^verbatim>\<open>stat\<close> everywhere, and a save file of the game.\<close>

definition sample_meta :: meta_host where
  "sample_meta = \<lparr>m_stat = \<lambda>_. Inl ENOENT, m_lstat = \<lambda>_. Inl ENOENT, m_fstat = \<lambda>_. Inl EBADF, m_dup = \<lambda>_. Inl EBADF,
     m_statvfs = \<lambda>_. Inl ENOENT, m_access = \<lambda>_ _. Inl ENOENT, m_opendir = \<lambda>_. Inl ENOENT, m_mkdir = \<lambda>_ _. Inr (),
     m_unlink = \<lambda>_. Inr (), m_remove = \<lambda>_. Inr (), m_rename = \<lambda>_ _. Inr (), m_realpath = \<lambda>_. Inl ENOENT,
     m_alloc = True, m_alloc2 = True\<rparr>"


section \<open>Listing a directory\<close>

text \<open>
  Every entry is answered once, in the host's order, numbered from 1, and then the end without an
  error.
\<close>

lemma readdirs_entries:
  assumes "dir_magic g = GUEST_DIR_MAGIC" "dir_host g = Some (map Inr es)"
  shows "readdirs (length es + 1) (Some g) =
    map (\<lambda>i. Inr (Some (dirent_of (dir_seq g + word_of_nat (i + 1)) (es ! i)))) [0..<length es] @ [Inr None]"
  using assms
proof (induction es arbitrary: g)
  case Nil
  then show ?case by (simp add: file_readdir_def)
next
  case (Cons e es)
  let ?g = "g\<lparr>dir_host := Some (map Inr es), dir_seq := dir_seq g + 1\<rparr>"
  have r: "file_readdir (Some g) = (Inr (Some (dirent_of (dir_seq g + 1) e)), Some ?g)"
    using Cons.prems by (simp add: file_readdir_def)
  have "readdirs (length es + 1) (Some ?g) =
      map (\<lambda>i. Inr (Some (dirent_of (dir_seq ?g + word_of_nat (i + 1)) (es ! i)))) [0..<length es] @ [Inr None]"
    by (rule Cons.IH) (use Cons.prems in simp_all)
  then show ?case
    by (simp add: r map_upt_Suc del: upt_Suc) (simp add: algebra_simps)
qed

lemma unat_and_not_7: "unat ((x :: u64) AND NOT 7) = unat x - unat x mod 8"
proof -
  have "x = (x AND NOT 7) + (x AND 7)"
    by (subst disjunctive_add) (auto simp: bit_simps intro!: bit_word_eqI)
  then have e: "x AND NOT 7 = x - (x AND 7)" by (simp add: algebra_simps)
  have m: "x AND 7 = take_bit 3 x" by (simp add: take_bit_eq_mask mask_eq_exp_minus_1)
  have u: "unat (take_bit 3 x) = unat x mod 8" by (simp only: unsigned_take_bit_eq) (simp add: take_bit_eq_mod)
  have "take_bit 3 x \<le> x" unfolding word_le_nat_alt u by simp
  then show ?thesis unfolding e m by (simp add: unat_sub u)
qed

text \<open>An entry's record is aligned, holds the name with its terminator, and fits; a name is cut to 255 characters.\<close>

lemma dirent_of_layout:
  "8 dvd unat (d_reclen (dirent_of k h)) \<and> 0x13 + length (d_name (dirent_of k h)) + 1 \<le> unat (d_reclen (dirent_of k h)) \<and>
   unat (d_reclen (dirent_of k h)) \<le> 280 \<and> d_name (dirent_of k h) = take 255 (hd_name h)"
proof -
  define n where "n = min (length (hd_name h)) 255"
  have n: "n \<le> 255" by (simp add: n_def)
  have w: "(word_of_nat (0x13 + n + 1) :: u64) + 7 = word_of_nat (n + 27)" by simp
  have u: "unat (word_of_nat (n + 27) :: u64) = n + 27"
    using n by (simp add: unsigned_of_nat take_bit_eq_mod del: of_nat_add)
  have l: "unat (((word_of_nat (n + 27) :: u64)) AND NOT 7) = (n + 27) - (n + 27) mod 8"
    by (simp only: unat_and_not_7 u)
  have r: "unat (d_reclen (dirent_of k h)) = (n + 27) - (n + 27) mod 8"
  proof -
    have "unat (ucast (((word_of_nat (n + 27) :: u64)) AND NOT 7) :: u16) = ((n + 27) - (n + 27) mod 8) mod 2 ^ 16"
      by (simp only: unsigned_ucast_eq l) (simp add: take_bit_eq_mod)
    moreover have "d_reclen (dirent_of k h) = ucast (((word_of_nat (n + 27) :: u64)) AND NOT 7)"
      by (simp only: dirent_of_def Let_def n_def [symmetric] w android_dirent.select_convs)
    ultimately show ?thesis using n by simp
  qed
  have d: "d_name (dirent_of k h) = take n (hd_name h)" "length (d_name (dirent_of k h)) = n"
    by (simp_all add: dirent_of_def Let_def n_def)
  have "take n (hd_name h) = take 255 (hd_name h)" by (simp add: n_def min_def)
  moreover have "8 dvd (n + 27) - (n + 27) mod 8" by (rule dvd_minus_mod)
  moreover have "0x13 + n + 1 \<le> (n + 27) - (n + 27) mod 8 \<and> (n + 27) - (n + 27) mod 8 \<le> 280"
  proof -
    have "(n + 27) - (n + 27) mod 8 = 8 * ((n + 27) div 8)" by (simp add: minus_mod_eq_mult_div)
    moreover have "(n + 27) div 8 \<le> 35" using n by simp
    moreover have "n + 20 \<le> 8 * ((n + 27) div 8)" by presburger
    ultimately show ?thesis by simp
  qed
  ultimately show ?thesis using r d by simp
qed

section \<open>Metadata of an open data file\<close>

text \<open>
  When \<^verbatim>\<open>stat\<close> of a data file of the cache fails for the console's lock, the answer is that of a
  duplicate of a descriptor that is open for this very file.
\<close>

lemma stat_data_file_right:
  assumes "fd_reach m (b, nm)" and "stat_data_file H path b = (Inr h, cs)"
  shows "\<exists>fd probe. nm fd = Some path \<and> m_dup H fd = Inr probe \<and> m_fstat H probe = Inr h \<and>
    cs = [HC_dup fd, HC_fstat probe, HC_close probe]"
proof -
  have s: "slots_ok nm (data_slots b)" using fd_reach_ok [OF assms(1)] by (simp add: fd_ok_def)
  show ?thesis
    using assms(2) lookup_right [OF s, of path]
    by (auto simp: stat_data_file_def Let_def split: if_splits sum.splits)
qed

end
