(* ===== verification/VirtualFiles.thy ===== *)
theory VirtualFiles
  imports World
begin

text \<open>
  The files that stand for \<^verbatim>\<open>/proc\<close> and \<^verbatim>\<open>/sys\<close> (\<^verbatim>\<open>file_prepare_virtual_system_files\<close> of
  \<^verbatim>\<open>source/file_bridge.c\<close>): the processors the game may use and the memory there is.  They are
  written in the \<open>World\<close> of the installer; a directory leaves no trace in it, but making one may fail.
\<close>

section \<open>Writing a file\<close>

definition text_bytes :: "string \<Rightarrow> byte list" where
  "text_bytes = map of_char"

definition write_virtual_file :: "string \<Rightarrow> string \<Rightarrow> world \<Rightarrow> bool \<times> world" where
  "write_virtual_file path txt w =
     (case h_create path w of
        (False, w1) \<Rightarrow> (False, w1)
      | (True, w1) \<Rightarrow>
          (case h_write path (text_bytes txt) w1 of
             (ok, w2) \<Rightarrow> (case h_flush path w2 of (closed, w3) \<Rightarrow> (ok \<and> closed, w3))))"

text \<open>An existing directory is fine.\<close>

definition ensure_directory :: "string \<Rightarrow> world \<Rightarrow> bool \<times> world" where
  "ensure_directory path w = attempt w"

text \<open>A file that is written has exactly its text; otherwise nothing but this file changes.\<close>

lemma write_virtual_file_fs:
  assumes "write_virtual_file p t w = (ok, w')"
  shows "only {p} w w' \<and> (ok \<longrightarrow> fs w' p = Some (text_bytes t))"
proof (cases "h_create p w")
  case (Pair c w1)
  show ?thesis
  proof (cases c)
    case False
    have "fs w1 = fs w" using h_create_fs [OF Pair] False by simp
    moreover have "\<not> ok" "w' = w1" using assms Pair False by (simp_all add: write_virtual_file_def)
    ultimately show ?thesis by (simp add: only_def)
  next
    case True
    obtain ok2 w2 where 2: "h_write p (text_bytes t) w1 = (ok2, w2)" by fastforce
    obtain ok3 w3 where 3: "h_flush p w2 = (ok3, w3)" by fastforce
    have 1: "fs w1 = (fs w)(p \<mapsto> [])" using h_create_fs [OF Pair] True by simp
    have e: "ok = (ok2 \<and> ok3)" "w' = w3" using assms Pair True 2 3 by (simp_all add: write_virtual_file_def)
    have o: "only {p} w1 w2" "only {p} w2 w3" "ok2 \<Longrightarrow> fs w2 p = Some (text_bytes t)" "ok3 \<Longrightarrow> fs w3 = fs w2"
      using h_write_fs [OF 2, of "[]"] h_flush_fs [OF 3] 1 by simp_all
    have "only {p} w w1" using 1 by (simp add: only_def)
    with o have "only {p} w w3" using only_trans by metis
    then show ?thesis using o e by auto
  qed
qed

section \<open>The processors\<close>

definition cpu_line :: "nat \<Rightarrow> string" where
  "cpu_line i = ''processor'' @ [CHR 9] @ '': '' @ nat_digits i @ [CHR 10, CHR 10]"

text \<open>\<open>None\<close> when the text does not fit the buffer of 1024 bytes.\<close>

fun cpuinfo_loop :: "u64 \<Rightarrow> nat list \<Rightarrow> string \<Rightarrow> string option" where
  "cpuinfo_loop cores [] w = Some w"
| "cpuinfo_loop cores (i # is) w =
     (if \<not> bit cores i then cpuinfo_loop cores is w
      else if 1024 - length w \<le> length (cpu_line i) then None
      else cpuinfo_loop cores is (w @ cpu_line i))"

definition cpu_dir :: "nat \<Rightarrow> string" where
  "cpu_dir i = DATA_ROOT @ ''/sys/devices/system/cpu/cpu'' @ nat_digits i"

fun capacity_loop :: "u64 \<Rightarrow> nat list \<Rightarrow> world \<Rightarrow> bool \<times> world" where
  "capacity_loop cores [] w = (True, w)"
| "capacity_loop cores (i # is) w =
     (if \<not> bit cores i then capacity_loop cores is w
      else and_then (ensure_directory (cpu_dir i))
             (and_then (write_virtual_file (cpu_dir i @ ''/cpu_capacity'') (''1024'' @ [CHR 10])) (capacity_loop cores is)) w)"

definition prepare_virtual_cpu_sysfs :: "u64 \<Rightarrow> world \<Rightarrow> bool \<times> world" where
  "prepare_virtual_cpu_sysfs cores w =
     (if cores = 0 then (False, w)
      else
        and_then (ensure_directory (DATA_ROOT @ ''/sys''))
          (and_then (ensure_directory (DATA_ROOT @ ''/sys/devices''))
            (and_then (ensure_directory (DATA_ROOT @ ''/sys/devices/system''))
              (and_then (ensure_directory (DATA_ROOT @ ''/sys/devices/system/cpu''))
                (case format_cpu_list 128 cores of
                   None \<Rightarrow> Pair False
                 | Some topo \<Rightarrow>
                     and_then (write_virtual_file (DATA_ROOT @ ''/sys/devices/system/cpu/present'') topo)
                       (and_then (write_virtual_file (DATA_ROOT @ ''/sys/devices/system/cpu/possible'') topo)
                         (capacity_loop cores [0..<32])))))) w)"

section \<open>The memory\<close>

definition kb_line :: "string \<Rightarrow> u64 \<Rightarrow> string" where
  "kb_line name bytes = name @ nat_digits (unat (drop_bit 10 bytes)) @ '' kB'' @ [CHR 10]"

definition meminfo_text :: "u64 \<Rightarrow> u64 \<Rightarrow> string" where
  "meminfo_text all used =
     kb_line ''MemTotal:       '' all @ kb_line ''MemFree:        '' (all - used) @ kb_line ''MemAvailable:   '' (all - used)"

text \<open>
  The whole preparation.  The answers of \<^verbatim>\<open>svcGetInfo\<close> are arguments: the cores, the memory and the
  memory in use, or \<open>None\<close> when the call fails.
\<close>

definition file_prepare_virtual_system_files :: "u64 option \<Rightarrow> u64 option \<Rightarrow> u64 option \<Rightarrow> world \<Rightarrow> bool \<times> world" where
  "file_prepare_virtual_system_files cores all used =
     and_then (ensure_directory (DATA_ROOT @ ''/proc''))
       (and_then
         (case cores of
            Some m \<Rightarrow>
              if m \<noteq> 0 then
                (case cpuinfo_loop m [0..<64] [] of
                   None \<Rightarrow> Pair False
                 | Some cpu \<Rightarrow> and_then (write_virtual_file (DATA_ROOT @ ''/proc/cpuinfo'') cpu) (prepare_virtual_cpu_sysfs m))
              else (\<lambda>w. (True, snd (h_remove (DATA_ROOT @ ''/proc/cpuinfo'') w)))
          | None \<Rightarrow> (\<lambda>w. (True, snd (h_remove (DATA_ROOT @ ''/proc/cpuinfo'') w))))
         (case (all, used) of
            (Some t, Some u) \<Rightarrow>
              if 0 < t \<and> u \<le> t then
                (if 512 \<le> length (meminfo_text t u) then Pair False
                 else write_virtual_file (DATA_ROOT @ ''/proc/meminfo'') (meminfo_text t u))
              else (\<lambda>w. (True, snd (h_remove (DATA_ROOT @ ''/proc/meminfo'') w)))
          | _ \<Rightarrow> (\<lambda>w. (True, snd (h_remove (DATA_ROOT @ ''/proc/meminfo'') w)))))"

section \<open>The texts fit their buffers\<close>

lemma nat_digits_length: "n < 10 ^ d \<Longrightarrow> 0 < d \<Longrightarrow> length (nat_digits n) \<le> d"
proof (induction n arbitrary: d rule: nat_digits.induct)
  case (1 n)
  show ?case
  proof (cases "n < 10")
    case True
    then show ?thesis using "1.prems" by (subst nat_digits.simps) simp
  next
    case False
    then obtain e where d: "d = Suc e" "0 < e" using "1.prems" by (cases d; cases "d - 1") auto
    have "n div 10 < 10 ^ e" using "1.prems"(1) d(1) by (simp add: less_mult_imp_div_less)
    from "1.IH" [OF False this d(2)] show ?thesis using d(1) False by (subst nat_digits.simps) simp
  qed
qed

lemma cpu_line_length: "i < 64 \<Longrightarrow> length (cpu_line i) \<le> (if i < 10 then 15 else 16)"
  using nat_digits_length [of i 1] nat_digits_length [of i 2] by (auto simp: cpu_line_def)

text \<open>The list of the processors is complete for any set of cores.\<close>

lemma cpuinfo_fits:
  assumes "length w + sum_list (map (\<lambda>i. if i < 10 then 15 else 16) is) < 1024" "\<forall>i \<in> set is. i < 64"
  shows "cpuinfo_loop cores is w = Some (w @ concat (map cpu_line (filter (bit cores) is)))"
  using assms
proof (induction "is" arbitrary: w)
  case (Cons i "is")
  have l: "length (cpu_line i) \<le> (if i < 10 then 15 else 16)" using Cons.prems(2) cpu_line_length [of i] by simp
  have "\<not> 1024 - length w \<le> length (cpu_line i)" using Cons.prems(1) l by (auto split: if_splits)
  moreover have "cpuinfo_loop cores is (w @ cpu_line i) = Some ((w @ cpu_line i) @ concat (map cpu_line (filter (bit cores) is)))"
    by (rule Cons.IH) (use Cons.prems l in \<open>auto split: if_splits\<close>)
  moreover have "cpuinfo_loop cores is w = Some (w @ concat (map cpu_line (filter (bit cores) is)))"
    by (rule Cons.IH) (use Cons.prems in auto)
  ultimately show ?case by simp
qed simp

lemma cpuinfo_complete: "cpuinfo_loop cores [0..<64] [] = Some (concat (map cpu_line (filter (bit cores) [0..<64])))"
proof -
  have "sum_list (map (\<lambda>i. if i < 10 then 15 else 16) [0..<64]) = (1014 :: nat)" by (simp add: upt_rec)
  then show ?thesis using cpuinfo_fits [of "[]" "[0..<64]" cores] by simp
qed

lemma meminfo_fits: "length (meminfo_text t u) < 512"
proof -
  have "length (nat_digits (unat x)) \<le> 20" for x :: u64
  proof (rule nat_digits_length)
    have "unat x < 2 ^ 64" using unsigned_less [of x] by simp
    then show "unat x < 10 ^ 20" by simp
  qed simp
  from this [of "drop_bit 10 t"] this [of "drop_bit 10 (t - u)"] show ?thesis
    by (simp add: meminfo_text_def kb_line_def)
qed

section \<open>What is written\<close>

definition virtual_paths :: "string set" where
  "virtual_paths = {p. starts_with (DATA_ROOT @ ''/proc/'') p \<or> starts_with (DATA_ROOT @ ''/sys/devices/system/cpu/'') p}"

lemma and_then_only:
  assumes "\<And>w ok w'. f w = (ok, w') \<Longrightarrow> only P w w'" "\<And>w ok w'. g w = (ok, w') \<Longrightarrow> only P w w'" "and_then f g w = (ok, w')"
  shows "only P w w'"
  using assms(3) assms(1) [of w] assms(2) by (auto simp: and_then_def split: prod.splits if_splits intro: only_trans)

lemma write_only: "write_virtual_file p t w = (ok, w') \<Longrightarrow> p \<in> P \<Longrightarrow> only P w w'"
  using write_virtual_file_fs by (metis empty_subsetI insert_subset only_mono)

lemma ensure_only: "ensure_directory d w = (ok, w') \<Longrightarrow> only P w w'"
  by (auto simp: ensure_directory_def attempt_def only_def)

lemma virtual_pathsI:
  "DATA_ROOT @ ''/proc/'' @ r \<in> virtual_paths" "DATA_ROOT @ ''/sys/devices/system/cpu/'' @ r \<in> virtual_paths"
  by (auto simp: virtual_paths_def starts_with_append)

lemma capacity_only: "capacity_loop cores is w = (ok, w') \<Longrightarrow> only virtual_paths w w'"
proof (induction "is" arbitrary: w ok w')
  case (Cons i "is")
  show ?case
  proof (cases "bit cores i")
    case True
    have p: "cpu_dir i @ ''/cpu_capacity'' \<in> virtual_paths"
      using virtual_pathsI(2) [of "''cpu'' @ nat_digits i @ ''/cpu_capacity''"] by (simp add: cpu_dir_def)
    show ?thesis
      by (rule and_then_only [OF ensure_only and_then_only [OF write_only [OF _ p] Cons.IH]]) (use Cons.prems True in auto)
  next
    case False
    then show ?thesis using Cons by simp
  qed
qed simp

lemma sysfs_only: "prepare_virtual_cpu_sysfs cores w = (ok, w') \<Longrightarrow> only virtual_paths w w'"
proof -
  assume c: "prepare_virtual_cpu_sysfs cores w = (ok, w')"
  have p: "DATA_ROOT @ ''/sys/devices/system/cpu/present'' \<in> virtual_paths" "DATA_ROOT @ ''/sys/devices/system/cpu/possible'' \<in> virtual_paths"
    using virtual_pathsI(2) [of "''present''"] virtual_pathsI(2) [of "''possible''"] by simp_all
  have t: "only virtual_paths w w'"
    if "(case format_cpu_list 128 cores of None \<Rightarrow> Pair False
         | Some topo \<Rightarrow> and_then (write_virtual_file (DATA_ROOT @ ''/sys/devices/system/cpu/present'') topo)
             (and_then (write_virtual_file (DATA_ROOT @ ''/sys/devices/system/cpu/possible'') topo) (capacity_loop cores [0..<32]))) w = (ok, w')"
    for w ok w'
  proof (cases "format_cpu_list 128 cores")
    case None
    then show ?thesis using that by simp
  next
    case (Some topo)
    show ?thesis
      by (rule and_then_only [OF write_only [OF _ p(1)] and_then_only [OF write_only [OF _ p(2)] capacity_only]]) (use that Some in auto)
  qed
  show ?thesis
  proof (cases "cores = 0")
    case True
    then show ?thesis using c by (simp add: prepare_virtual_cpu_sysfs_def)
  next
    case False
    show ?thesis
      by (rule and_then_only [OF ensure_only and_then_only [OF ensure_only and_then_only [OF ensure_only and_then_only [OF ensure_only t]]]])
        (use c False in \<open>auto simp: prepare_virtual_cpu_sysfs_def\<close>)
  qed
qed

lemma remove_only: "p \<in> P \<Longrightarrow> only P w (snd (h_remove p w))"
  using h_remove_fs [of p w] by (cases "h_remove p w") (auto simp: only_def)

text \<open>
  The preparation changes only the files below \<^verbatim>\<open>proc\<close> and \<^verbatim>\<open>sys\<close> of the game's directory.
\<close>

lemma virtual_files_effects:
  assumes "file_prepare_virtual_system_files cores all used w = (ok, w')"
  shows "only virtual_paths w w'"
proof -
  have p: "DATA_ROOT @ ''/proc/cpuinfo'' \<in> virtual_paths" "DATA_ROOT @ ''/proc/meminfo'' \<in> virtual_paths"
    using virtual_pathsI(1) [of "''cpuinfo''"] virtual_pathsI(1) [of "''meminfo''"] by simp_all
  have w: "only virtual_paths w w'" if "and_then (write_virtual_file (DATA_ROOT @ ''/proc/cpuinfo'') t) (prepare_virtual_cpu_sysfs m) w = (ok, w')" for t m w ok w'
    by (rule and_then_only [OF write_only [OF _ p(1)] sysfs_only that])
  have c: "only virtual_paths w w'"
    if "(case cores of
            Some m \<Rightarrow>
              if m \<noteq> 0 then
                (case cpuinfo_loop m [0..<64] [] of
                   None \<Rightarrow> Pair False
                 | Some cpu \<Rightarrow> and_then (write_virtual_file (DATA_ROOT @ ''/proc/cpuinfo'') cpu) (prepare_virtual_cpu_sysfs m))
              else (\<lambda>w. (True, snd (h_remove (DATA_ROOT @ ''/proc/cpuinfo'') w)))
          | None \<Rightarrow> (\<lambda>w. (True, snd (h_remove (DATA_ROOT @ ''/proc/cpuinfo'') w)))) w = (ok, w')" for w ok w'
    using that remove_only [OF p(1), of w] w by (auto simp: cpuinfo_complete split: option.splits if_splits)
  have m: "only virtual_paths w w'"
    if "(case (all, used) of
            (Some t, Some u) \<Rightarrow>
              if 0 < t \<and> u \<le> t then
                (if 512 \<le> length (meminfo_text t u) then Pair False
                 else write_virtual_file (DATA_ROOT @ ''/proc/meminfo'') (meminfo_text t u))
              else (\<lambda>w. (True, snd (h_remove (DATA_ROOT @ ''/proc/meminfo'') w)))
          | _ \<Rightarrow> (\<lambda>w. (True, snd (h_remove (DATA_ROOT @ ''/proc/meminfo'') w)))) w = (ok, w')" for w ok w'
    using that remove_only [OF p(2), of w] write_only [OF _ p(2)] by (auto split: option.splits if_splits)
  show ?thesis
    by (rule and_then_only [OF ensure_only and_then_only [OF c m] assms [unfolded file_prepare_virtual_system_files_def]])
qed

end
