(* ===== verification/Syscalls.thy ===== *)
theory Syscalls
  imports Prelude
begin

text \<open>
  The system calls \<^verbatim>\<open>bionic_syscall\<close> of \<^verbatim>\<open>source/bionic.c\<close> answers itself: copying between vectors of
  buffers with a check of the memory read from, the affinity of threads, and the number of
  processors.  The futex call is in \<open>FutexOps\<close>.
\<close>

section \<open>Readable memory\<close>

text \<open>What \<^verbatim>\<open>svcQueryMemory\<close> answers for an address: the region, and whether it is mapped and readable.\<close>

record mem_info =
  mi_addr :: u64
  mi_size :: u64
  mi_mapped :: bool
  mi_readable :: bool

function readable_from :: "(u64 \<Rightarrow> mem_info option) \<Rightarrow> u64 \<Rightarrow> u64 \<Rightarrow> bool" where
  "readable_from query e a =
     (if \<not> a < e then True
      else (case query a of
              None \<Rightarrow> False
            | Some mi \<Rightarrow>
                if \<not> mi_mapped mi \<or> \<not> mi_readable mi then False
                else let ne = mi_addr mi + mi_size mi in if ne \<le> a then False else readable_from query e ne))"
  by pat_completeness auto
termination
  by (relation "measure (\<lambda>(query, e, a). unat e - unat a)") (auto simp: word_less_nat_alt word_le_nat_alt)

declare readable_from.simps [simp del]

definition guest_memory_is_readable :: "(u64 \<Rightarrow> mem_info option) \<Rightarrow> u64 \<Rightarrow> u64 \<Rightarrow> bool" where
  "guest_memory_is_readable query a n = readable_from query (a + n) a"

text \<open>The system tells the truth: a region holds the address asked for, and is readable throughout.\<close>

definition honest :: "(u64 \<Rightarrow> bool) \<Rightarrow> (u64 \<Rightarrow> mem_info option) \<Rightarrow> bool" where
  "honest rd query \<longleftrightarrow> (\<forall>a mi. query a = Some mi \<longrightarrow>
     mi_addr mi \<le> a \<and> (mi_mapped mi \<and> mi_readable mi \<longrightarrow> (\<forall>x. mi_addr mi \<le> x \<and> x < mi_addr mi + mi_size mi \<longrightarrow> rd x)))"

lemma readable_from_sound: "readable_from query e a \<Longrightarrow> honest rd query \<Longrightarrow> a \<le> x \<Longrightarrow> x < e \<Longrightarrow> rd x"
proof (induction query e a rule: readable_from.induct)
  case (1 query e a)
  from "1.prems"(3,4) have ae: "a < e" by (rule le_less_trans)
  note r = "1.prems"(1) [unfolded readable_from.simps [of query e a]]
  obtain mi where q: "query a = Some mi" using r ae by (cases "query a") simp_all
  have mi: "mi_mapped mi" "mi_readable mi" "\<not> mi_addr mi + mi_size mi \<le> a" "readable_from query e (mi_addr mi + mi_size mi)"
    using r ae q by (auto simp: Let_def split: if_splits)
  show ?case
  proof (cases "x < mi_addr mi + mi_size mi")
    case True
    have "mi_addr mi \<le> a" using "1.prems"(2) q unfolding honest_def by blast
    then have "mi_addr mi \<le> x" using "1.prems"(3) by (rule order_trans)
    then show ?thesis using "1.prems"(2) q mi(1,2) True unfolding honest_def by blast
  next
    case False
    then show ?thesis using "1.IH" [OF _ q _ refl mi(3,4) "1.prems"(2) _ "1.prems"(4)] mi(1,2) ae by simp
  qed
qed

text \<open>A range that is accepted, and does not wrap around, can be read byte by byte.\<close>

lemma guest_memory_is_readable_sound:
  assumes "honest rd query" "guest_memory_is_readable query a n" "unat a + unat n < 2 ^ 64" "i < unat n"
  shows "rd (a + of_nat i)"
proof (rule readable_from_sound [OF assms(2) [unfolded guest_memory_is_readable_def] assms(1)])
  have u: "unat (a + n) = unat a + unat n" using assms(3) by (simp add: unat_word_ariths)
  have v: "unat (a + of_nat i) = unat a + i"
    using assms(3,4) by (simp add: unat_word_ariths unsigned_of_nat take_bit_eq_mod)
  show "a \<le> a + of_nat i" "a + of_nat i < a + n"
    using u v assms(4) by (simp_all add: word_le_nat_alt word_less_nat_alt)
qed

section \<open>Copying between vectors of buffers\<close>

text \<open>
  A vector is a list of addresses and lengths; the indices \<^verbatim>\<open>li\<close>, \<^verbatim>\<open>lo\<close> and \<^verbatim>\<open>ri\<close>, \<^verbatim>\<open>ro\<close> of the code are
  the rest of each vector, with its first buffer shortened.  A move is a destination, a source and
  a length; the second result is whether the loop met memory it may not read.
\<close>

type_synonym iovec = "(u64 \<times> nat) list"

definition skip :: "nat \<Rightarrow> u64 \<times> nat \<Rightarrow> iovec \<Rightarrow> iovec" where
  "skip z b rest = (if z = snd b then rest else (fst b + of_nat z, snd b - z) # rest)"

function vm_moves :: "bool \<Rightarrow> (u64 \<Rightarrow> nat \<Rightarrow> bool) \<Rightarrow> iovec \<Rightarrow> iovec \<Rightarrow> (u64 \<times> u64 \<times> nat) list \<times> bool" where
  "vm_moves wr rdable (l # ls) (r # rs) =
     (let z = min (snd l) (snd r);
          src = (if wr then fst l else fst r);
          dst = (if wr then fst r else fst l)
      in if \<not> rdable src z then ([], True)
         else (case vm_moves wr rdable (skip z l ls) (skip z r rs) of (ms, fault) \<Rightarrow> ((dst, src, z) # ms, fault)))"
| "vm_moves wr rdable [] rs = ([], False)"
| "vm_moves wr rdable (l # ls) [] = ([], False)"
  by pat_completeness auto
termination
  by (relation "measure (\<lambda>(wr, rdable, ls, rs). length ls + length rs)") (auto simp: skip_def min_def)

text \<open>The result of the call: the bytes moved, or the fault when nothing was moved.\<close>

definition process_vm :: "bool \<Rightarrow> (u64 \<Rightarrow> nat \<Rightarrow> bool) \<Rightarrow> iovec \<Rightarrow> iovec \<Rightarrow> nat result \<times> (u64 \<times> u64 \<times> nat) list" where
  "process_vm wr rdable ls rs =
     (case vm_moves wr rdable ls rs of
        (ms, fault) \<Rightarrow> let done = sum_list (map (\<lambda>(d, s, n). n) ms) in (if fault \<and> done = 0 then Inl EFAULT else Inr done, ms))"

text \<open>The addresses of the bytes of a vector, one after the other, and the bytes of a list of moves.\<close>

definition buf_bytes :: "u64 \<times> nat \<Rightarrow> u64 list" where
  "buf_bytes b = map (\<lambda>i. fst b + of_nat i) [0..<snd b]"

definition iov_bytes :: "iovec \<Rightarrow> u64 list" where
  "iov_bytes v = concat (map buf_bytes v)"

definition move_bytes :: "(u64 \<times> u64 \<times> nat) list \<Rightarrow> (u64 \<times> u64) list" where
  "move_bytes ms = concat (map (\<lambda>(d, s, n). map (\<lambda>i. (d + of_nat i, s + of_nat i)) [0..<n]) ms)"

lemma buf_bytes_skip:
  assumes "z \<le> snd b"
  shows "buf_bytes b @ iov_bytes rest = map (\<lambda>i. fst b + of_nat i) [0..<z] @ iov_bytes (skip z b rest)"
proof -
  have e: "buf_bytes b = map (\<lambda>i. fst b + of_nat i) [0..<z] @ buf_bytes (fst b + of_nat z, snd b - z)"
  proof -
    have "[0..<snd b] = [0..<z] @ [z..<snd b]" using assms by (metis le_add_diff_inverse upt_add_eq_append zero_le)
    moreover have "[z..<snd b] = map (\<lambda>i. i + z) [0..<snd b - z]" using map_add_upt [of z "snd b - z"] assms by simp
    ultimately show ?thesis by (simp add: buf_bytes_def comp_def algebra_simps)
  qed
  show ?thesis
  proof (cases "z = snd b")
    case True
    then show ?thesis by (simp add: skip_def buf_bytes_def)
  next
    case False
    then show ?thesis using e by (simp add: skip_def iov_bytes_def)
  qed
qed

lemma zip_moves: "zip (map f [0..<z] @ xs) (map g [0..<z] @ ys) = map (\<lambda>i. (f i, g i)) [0..<z] @ zip xs ys"
  by (simp add: zip_append zip_map_map [symmetric] map_zip_map zip_map1 zip_map2 zip_same_conv_map comp_def)

text \<open>
  The moves go through both vectors byte by byte, in step: without a fault, the byte at each place of
  the one goes to the byte at the same place of the other, to the end of the shorter one; with a
  fault, this holds up to a place before the end.
\<close>

lemma vm_moves_bytes:
  assumes "vm_moves wr rdable ls rs = (ms, fault)"
  shows "\<exists>k. move_bytes ms = take k (if wr then zip (iov_bytes rs) (iov_bytes ls) else zip (iov_bytes ls) (iov_bytes rs)) \<and>
    (\<not> fault \<longrightarrow> move_bytes ms = (if wr then zip (iov_bytes rs) (iov_bytes ls) else zip (iov_bytes ls) (iov_bytes rs))) \<and>
    (\<forall>(d, s, n) \<in> set ms. rdable s n)"
  using assms
proof (induction wr rdable ls rs arbitrary: ms fault rule: vm_moves.induct)
  case (1 wr rdable l ls r rs)
  let ?z = "min (snd l) (snd r)" and ?src = "if wr then fst l else fst r" and ?dst = "if wr then fst r else fst l"
  let ?T = "\<lambda>ls rs. if wr then zip (iov_bytes rs) (iov_bytes ls) else zip (iov_bytes ls) (iov_bytes rs)"
  show ?case
  proof (cases "rdable ?src ?z")
    case False
    then have "ms = []" "fault" using "1.prems" by (auto simp: Let_def)
    then show ?thesis by (intro exI [of _ 0]) (simp add: move_bytes_def)
  next
    case True
    obtain ms' where c: "vm_moves wr rdable (skip ?z l ls) (skip ?z r rs) = (ms', fault)" "ms = (?dst, ?src, ?z) # ms'"
      using "1.prems" True by (auto simp: Let_def split: prod.splits)
    note IH = "1.IH" [OF refl refl refl _ c(1)]
    obtain k where k: "move_bytes ms' = take k (?T (skip ?z l ls) (skip ?z r rs))"
      "\<not> fault \<longrightarrow> move_bytes ms' = ?T (skip ?z l ls) (skip ?z r rs)" "\<forall>(d, s, n) \<in> set ms'. rdable s n" using IH True by blast
    have l: "iov_bytes (l # ls) = map (\<lambda>i. fst l + of_nat i) [0..<?z] @ iov_bytes (skip ?z l ls)"
      using buf_bytes_skip [of ?z l ls] by (simp add: iov_bytes_def)
    have r: "iov_bytes (r # rs) = map (\<lambda>i. fst r + of_nat i) [0..<?z] @ iov_bytes (skip ?z r rs)"
      using buf_bytes_skip [of ?z r rs] by (simp add: iov_bytes_def)
    let ?m = "map (\<lambda>i. (?dst + of_nat i, ?src + of_nat i)) [0..<?z]"
    have t: "?T (l # ls) (r # rs) = ?m @ ?T (skip ?z l ls) (skip ?z r rs)"
      unfolding l r zip_moves by simp
    have m: "move_bytes ms = ?m @ move_bytes ms'" by (simp add: c(2) move_bytes_def)
    have "move_bytes ms = take (?z + k) (?T (l # ls) (r # rs))" unfolding t m k(1) by simp
    moreover have "\<not> fault \<longrightarrow> move_bytes ms = ?T (l # ls) (r # rs)" unfolding t m using k(2) by simp
    moreover have "\<forall>(d, s, n) \<in> set ms. rdable s n" using k(3) True c(2) by auto
    ultimately show ?thesis by blast
  qed
qed (simp_all add: move_bytes_def iov_bytes_def)

section \<open>Processors and affinity\<close>

text \<open>\<open>core_mask\<close> is the process's mask of cores, \<open>None\<close> when the system does not tell.\<close>

function count_bits :: "u64 \<Rightarrow> nat" where
  "count_bits m = (if m = 0 then 0 else (if odd m then 1 else 0) + count_bits (drop_bit 1 m))"
  by pat_completeness auto
termination
proof (relation "measure unat")
  fix m :: u64
  assume "m \<noteq> 0"
  then have "0 < unat m" by (simp add: unat_gt_0)
  then show "(drop_bit 1 m, m) \<in> measure unat"
    unfolding in_measure unat_drop_bit_eq drop_bit_eq_div [of 1 "unat m"] by simp
qed simp

declare count_bits.simps [simp del]

definition bionic_online_cpu_count :: "u64 option \<Rightarrow> int" where
  "bionic_online_cpu_count core_mask =
     (case core_mask of None \<Rightarrow> 1 | Some m \<Rightarrow> if m = 0 then 1 else if count_bits m = 0 then 1 else int (count_bits m))"

definition bionic_sysconf :: "u64 option \<Rightarrow> int \<Rightarrow> int" where
  "bionic_sysconf core_mask name =
     (if name = 39 \<or> name = 40 then 0x1000
      else if name = 96 \<or> name = 97 then bionic_online_cpu_count core_mask
      else if name = 98 then (512 * 1024 * 1024) div 0x1000
      else - 1)"

definition bionic_getauxval :: "u64 \<Rightarrow> u64" where
  "bionic_getauxval t = (if t = 6 then 0x1000 else 0)"

definition bionic_gettid :: "u64 option \<Rightarrow> int" where
  "bionic_gettid r = (case r of Some i \<Rightarrow> uint (i AND 0x7fffffff) | None \<Rightarrow> 1)"

text \<open>
  The affinity: a thread that is found gets all cores of the process, whatever was asked for.
  \<open>threads\<close> are the threads of the game with their kernel numbers and handles; \<open>None\<close> as the handle is the
  calling thread.  The result, and the call of \<^verbatim>\<open>svcSetThreadCoreMask\<close> made.
\<close>

definition find_handle :: "int \<Rightarrow> (u64 \<times> u32) list \<Rightarrow> u32 option" where
  "find_handle tid threads = map_option snd (find (\<lambda>t. fst t AND 0x7fffffff = word_of_int tid AND 0x7fffffff) threads)"

definition bionic_sched_setaffinity ::
  "bool \<Rightarrow> nat \<Rightarrow> u64 option \<Rightarrow> int \<Rightarrow> (u64 \<times> u32) list \<Rightarrow> (u32 option \<Rightarrow> u32 \<Rightarrow> bool) \<Rightarrow> int \<Rightarrow> unit result \<times> (u32 option \<times> u32) option"
where
  "bionic_sched_setaffinity has_mask cpusetsize allowed current_tid threads set_mask tid =
     (if \<not> has_mask \<or> cpusetsize = 0 then (Inl EFAULT, None)
      else (case allowed of
              None \<Rightarrow> (Inl EINVAL, None)
            | Some m \<Rightarrow>
                if m = 0 then (Inl EINVAL, None)
                else if 0 < tid \<and> tid \<noteq> current_tid then
                  (case find_handle tid threads of
                     None \<Rightarrow> (Inr (), None)
                   | Some h \<Rightarrow> (if set_mask (Some h) (ucast m) then Inr () else Inl EINVAL, Some (Some h, ucast m)))
                else (if set_mask None (ucast m) then Inr () else Inl EINVAL, Some (None, ucast m))))"

text \<open>The count of the processors is the number of cores.\<close>

lemma count_bits_le: "unat m < 2 ^ n \<Longrightarrow> count_bits m = card {i. i < n \<and> bit m i}"
proof (induction n arbitrary: m)
  case 0
  then have "m = 0" by (simp add: unat_eq_zero)
  then show ?case by (simp add: count_bits.simps)
next
  case (Suc n)
  show ?case
  proof (cases "m = 0")
    case True
    then show ?thesis by (simp add: count_bits.simps)
  next
    case False
    have u: "unat (drop_bit 1 m) < 2 ^ n" using Suc.prems by (simp only: unat_drop_bit_eq) (simp add: drop_bit_eq_div)
    have s: "{i. i < Suc n \<and> bit m i} = (if odd m then {0} else {}) \<union> Suc ` {i. i < n \<and> bit (drop_bit 1 m) i}"
    proof (intro set_eqI)
      fix i
      show "i \<in> {i. i < Suc n \<and> bit m i} \<longleftrightarrow> i \<in> (if odd m then {0} else {}) \<union> Suc ` {i. i < n \<and> bit (drop_bit 1 m) i}"
        by (cases i) (auto simp: bit_0 bit_drop_bit_eq)
    qed
    have "card {i. i < Suc n \<and> bit m i} = (if odd m then 1 else 0) + card {i. i < n \<and> bit (drop_bit 1 m) i}"
      unfolding s by (subst card_Un_disjoint) (auto simp: card_image)
    then show ?thesis using Suc.IH [OF u] False by (subst count_bits.simps) simp
  qed
qed

lemma cpu_count: "m \<noteq> 0 \<Longrightarrow> bionic_online_cpu_count (Some m) = int (card {i. i < 64 \<and> bit m i})"
proof -
  assume m: "m \<noteq> 0"
  have c: "count_bits m = card {i. i < 64 \<and> bit m i}" by (rule count_bits_le) (use unsigned_less [of m] in simp)
  have n: "count_bits m \<noteq> 0"
  proof
    assume "count_bits m = 0"
    then have "\<not> bit m i" if "i < 64" for i using c that by simp
    then have "m = 0" by (intro bit_word_eqI) simp
    with m show False by simp
  qed
  show ?thesis unfolding bionic_online_cpu_count_def c [symmetric] using m n by simp
qed

end
