(* ===== verification/Streams.thy ===== *)
theory Streams
  imports Paths
begin

text \<open>
  Smaller functions of \<^verbatim>\<open>source/imports.c\<close> with logic of their own: vectored reading and writing,
  copying between descriptors, the password entry, the sets of signals, the random numbers, and the
  table that remembers the window of a surface.
\<close>

section \<open>Vectored writing and copying\<close>

text \<open>
  \<open>wr k bs\<close> is the \<open>k\<close>-th call of \<^verbatim>\<open>write\<close>, offered the bytes \<open>bs\<close>: an error or how many it took, never
  more than offered.  \<open>rd k n\<close> is the \<open>k\<close>-th call of \<^verbatim>\<open>read\<close> for at most \<open>n\<close> bytes.
\<close>

type_synonym host_writer = "nat \<Rightarrow> byte list \<Rightarrow> nat result"
type_synonym host_reader = "nat \<Rightarrow> nat \<Rightarrow> byte list result"

text \<open>The loop of \<^verbatim>\<open>nx_writev\<close>: the result, and the bytes that went out.\<close>

function writev_loop :: "host_writer \<Rightarrow> nat \<Rightarrow> byte list list \<Rightarrow> byte list \<Rightarrow> nat result \<times> byte list" where
  "writev_loop wr k [] out = (Inr (length out), out)"
| "writev_loop wr k (v # vs) out =
     (if v = [] then writev_loop wr k vs out
      else (case wr k v of
              Inl e \<Rightarrow> (if out \<noteq> [] then Inr (length out) else Inl e, out)
            | Inr n \<Rightarrow>
                if n = 0 then (Inr (length out), out)
                else writev_loop wr (k + 1) (drop n v # vs) (out @ take n v)))"
  by pat_completeness auto
termination
  by (relation "measure (\<lambda>(wr, k, vs, out). length (concat vs) + length vs)") auto

text \<open>\<open>None\<close> is a null vector.\<close>

definition nx_writev :: "host_writer \<Rightarrow> byte list list option \<Rightarrow> int \<Rightarrow> nat result \<times> byte list" where
  "nx_writev wr v count =
     (case v of None \<Rightarrow> (Inl EINVAL, []) | Some vs \<Rightarrow> if count < 0 then (Inl EINVAL, []) else writev_loop wr 0 (take (nat count) vs) [])"

text \<open>What goes out is a beginning of the data, and the result is its length; an error only if nothing went out.\<close>

lemma writev_loop_counts:
  assumes "writev_loop wr k vs out = (r, out')"
  shows "\<exists>s. out' = out @ s \<and> (\<exists>t. concat vs = s @ t) \<and> (case r of Inr n \<Rightarrow> n = length out' | Inl e \<Rightarrow> out' = [])"
  using assms
proof (induction wr k vs out arbitrary: r out' rule: writev_loop.induct)
  case (2 wr k v vs out)
  show ?case
  proof (cases "v = []")
    case True
    then show ?thesis using "2.IH"(1) "2.prems" by simp
  next
    case False
    show ?thesis
    proof (cases "wr k v")
      case (Inl e)
      have e: "writev_loop wr k (v # vs) out = (if out \<noteq> [] then Inr (length out) else Inl e, out)" using False Inl by simp
      show ?thesis using "2.prems" unfolding e by (cases "out = []") auto
    next
      case (Inr n)
      show ?thesis
      proof (cases "n = 0")
        case True
        then show ?thesis using "2.prems" False Inr by auto
      next
        case n: False
        have "writev_loop wr (k + 1) (drop n v # vs) (out @ take n v) = (r, out')" using "2.prems" False Inr n by simp
        from "2.IH"(2) [OF False Inr n this]
        obtain s t where st: "out' = (out @ take n v) @ s" "concat (drop n v # vs) = s @ t" "case r of Inr n \<Rightarrow> n = length out' | Inl e \<Rightarrow> out' = []"
          by blast
        have st2: "drop n v @ concat vs = s @ t" using st(2) by simp
        have c: "concat (v # vs) = (take n v @ s) @ t"
          by (simp only: concat.simps append.assoc st2 [symmetric]) (metis append.assoc append_take_drop_id)
        show ?thesis
          by (rule exI [of _ "take n v @ s"], intro conjI) (use st(1) c st(3) in \<open>simp, blast, blast\<close>)
      qed
    qed
  qed
qed simp

text \<open>Reading into buffers of the lengths \<open>ns\<close>; a short read ends it.\<close>

function readv_loop :: "host_reader \<Rightarrow> nat \<Rightarrow> nat list \<Rightarrow> byte list \<Rightarrow> byte list result" where
  "readv_loop rd k [] got = Inr got"
| "readv_loop rd k (n # ns) got =
     (if n = 0 then readv_loop rd k ns got
      else (case rd k n of
              Inl e \<Rightarrow> if got \<noteq> [] then Inr got else Inl e
            | Inr b \<Rightarrow> if length b < n then Inr (got @ b) else readv_loop rd (k + 1) ns (got @ take n b)))"
  by pat_completeness auto
termination by (relation "measure (\<lambda>(rd, k, ns, got). length ns)") auto

definition nx_readv :: "host_reader \<Rightarrow> nat list option \<Rightarrow> int \<Rightarrow> byte list result" where
  "nx_readv rd v count =
     (case v of None \<Rightarrow> Inl EINVAL | Some ns \<Rightarrow> if count < 0 then Inl EINVAL else readv_loop rd 0 (take (nat count) ns) [])"

lemma readv_loop_bound: "readv_loop rd k ns got = Inr b \<Longrightarrow> length b \<le> length got + sum_list ns"
  by (induction rd k ns got rule: readv_loop.induct) (fastforce split: if_splits sum.splits)+

text \<open>The inner loop of \<^verbatim>\<open>nx_sendfile\<close>: how many bytes went out, how it ended, and the next call.\<close>

datatype sent = Sent_all | Sent_failed errno | Sent_stuck

function write_all :: "host_writer \<Rightarrow> nat \<Rightarrow> byte list \<Rightarrow> nat \<times> sent \<times> nat" where
  "write_all wr k bs =
     (if bs = [] then (0, Sent_all, k)
      else (case wr k bs of
              Inl e \<Rightarrow> (0, Sent_failed e, k + 1)
            | Inr w \<Rightarrow>
                if w = 0 then (0, Sent_stuck, k + 1)
                else (case write_all wr (k + 1) (drop w bs) of (n, st, k') \<Rightarrow> (min w (length bs) + n, st, k'))))"
  by pat_completeness auto
termination by (relation "measure (\<lambda>(wr, k, bs). length bs)") auto

declare write_all.simps [simp del]

text \<open>The outer loop: the result, and how many bytes went out in all.\<close>

function send_loop :: "host_reader \<Rightarrow> host_writer \<Rightarrow> nat \<Rightarrow> nat \<Rightarrow> nat \<Rightarrow> nat \<Rightarrow> nat result \<times> nat" where
  "send_loop rd wr count j k done =
     (if \<not> done < count then (Inr done, done)
      else
        let want = min (count - done) 8192
        in (case rd j want of
              Inl e \<Rightarrow> (if done \<noteq> 0 then Inr done else Inl e, done)
            | Inr b \<Rightarrow>
                if b = [] then (Inr done, done)
                else (case write_all wr k b of
                        (n, Sent_failed e, k') \<Rightarrow> (if done \<noteq> 0 then Inr done else Inl e, done + n)
                      | (n, Sent_stuck, k') \<Rightarrow> (Inr done, done + n)
                      | (n, Sent_all, k') \<Rightarrow>
                          if length b < want then (Inr (done + length b), done + n)
                          else send_loop rd wr count (j + 1) k' (done + length b))))"
  by pat_completeness auto
termination
  by (relation "measure (\<lambda>(rd, wr, count, j, k, done). count - done)") auto

declare send_loop.simps [simp del]

definition nx_sendfile :: "host_reader \<Rightarrow> host_writer \<Rightarrow> nat \<Rightarrow> nat result \<times> nat" where
  "nx_sendfile rd wr count = send_loop rd wr count 0 0 0"

lemma write_all_all: "write_all wr k bs = (n, Sent_all, k') \<Longrightarrow> n = length bs"
proof (induction wr k bs arbitrary: n k' rule: write_all.induct)
  case (1 wr k bs)
  show ?case
  proof (cases "bs = []")
    case True
    then show ?thesis using "1.prems" by (simp add: write_all.simps)
  next
    case False
    then obtain w m where w: "wr k bs = Inr w" "w \<noteq> 0" "write_all wr (k + 1) (drop w bs) = (m, Sent_all, k')" "n = min w (length bs) + m"
      using "1.prems" by (subst (asm) write_all.simps) (auto split: sum.splits if_splits prod.splits)
    from "1.IH" [OF False w(1,2) w(3)] w(4) show ?thesis by simp
  qed
qed

text \<open>
  The result never counts more than what went out; and it counts less when a write in the middle of
  a piece stops, so the caller sends those bytes again.
\<close>

lemma send_loop_counts: "send_loop rd wr count j k done = (Inr r, n) \<Longrightarrow> r \<le> n"
proof (induction rd wr count j k "done" arbitrary: r n rule: send_loop.induct)
  case (1 rd wr count j k "done")
  let ?want = "min (count - done) 8192"
  show ?case
  proof (cases "done < count")
    case False
    then show ?thesis using "1.prems" by (simp add: send_loop.simps)
  next
    case True
    note e = "1.prems" [unfolded send_loop.simps [of rd wr count j k "done"]]
    show ?thesis
    proof (cases "rd j ?want")
      case (Inl x)
      then show ?thesis using e True by (simp add: Let_def split: if_splits)
    next
      case (Inr b)
      obtain m st k' where w: "write_all wr k b = (m, st, k')" by (metis prod_cases3)
      show ?thesis
      proof (cases "b \<noteq> [] \<and> st = Sent_all \<and> \<not> length b < ?want")
        case False
        then show ?thesis using e True Inr w write_all_all [of wr k b m k']
          by (cases st) (auto simp: Let_def split: if_splits)
      next
        case c: True
        then have "send_loop rd wr count (j + 1) k' (done + length b) = (Inr r, n)"
          using e True Inr w by (auto simp: Let_def split: if_splits)
        from "1.IH" [OF _ refl Inr _ w [symmetric] refl _ _ this] True c show ?thesis by simp
      qed
    qed
  qed
qed

lemma sendfile_undercounts:
  "nx_sendfile (\<lambda>j n. Inr [1, 2, 3, 4, 5]) (\<lambda>k bs. if k = 0 then Inr 3 else Inr 0) 5 = (Inr 0, 3)"
  by (simp add: nx_sendfile_def send_loop.simps [of _ _ 5 0 0 0] write_all.simps Let_def)

section \<open>The password entry\<close>

definition pw_strings :: "string list" where
  "pw_strings = [''u0_a0'', ''x'', ''All Stars'', GAME_HOME, ''/system/bin/sh'']"

text \<open>Where a string lands: its offset, with the offset and the room left behind it.\<close>

definition passwd_copy_string :: "string \<Rightarrow> nat \<times> nat \<Rightarrow> (nat \<times> nat \<times> nat) option" where
  "passwd_copy_string src c =
     (case c of (cursor, left) \<Rightarrow>
        let need = length src + 1 in if left < need then None else Some (cursor, cursor + need, left - need))"

fun passwd_copy_all :: "string list \<Rightarrow> nat \<times> nat \<Rightarrow> nat list option" where
  "passwd_copy_all [] c = Some []"
| "passwd_copy_all (s # ss) c =
     (case passwd_copy_string s c of
        None \<Rightarrow> None
      | Some (o1, c') \<Rightarrow> map_option (\<lambda>os. o1 # os) (passwd_copy_all ss c'))"

text \<open>\<open>given\<close> says that none of the pointers is null.  The offsets of the strings in the buffer, and the user.\<close>

definition nx_getpwuid_r :: "u32 \<Rightarrow> bool \<Rightarrow> nat \<Rightarrow> (nat list \<times> u32 \<times> u32) result" where
  "nx_getpwuid_r uid given n =
     (if \<not> given then Inl EINVAL
      else (case passwd_copy_all pw_strings (0, n) of None \<Rightarrow> Inl ERANGE | Some os \<Rightarrow> Inr (os, uid, uid)))"

lemma passwd_copy_all_room:
  "passwd_copy_all ss (c, n) = (if sum_list (map (\<lambda>s. length s + 1) ss) \<le> n
     then Some (map (\<lambda>i. c + sum_list (map (\<lambda>s. length s + 1) (take i ss))) [0..<length ss]) else None)"
proof (induction ss arbitrary: c n)
  case (Cons s ss)
  show ?case
  proof (cases "n < length s + 1")
    case True
    then show ?thesis by (simp add: passwd_copy_string_def)
  next
    case False
    have m: "map (\<lambda>i. c + sum_list (map (\<lambda>s. length s + 1) (take i (s # ss)))) [0..<length (s # ss)] =
        c # map (\<lambda>i. c + (length s + 1) + sum_list (map (\<lambda>s. length s + 1) (take i ss))) [0..<length ss]"
      by (simp add: map_upt_Suc add.assoc del: upt_Suc)
    show ?thesis unfolding m using False Cons.IH [of "c + (length s + 1)" "n - (length s + 1)"]
      by (auto simp: passwd_copy_string_def Let_def)
  qed
qed simp

section \<open>Sets of signals\<close>

definition sig_ok :: "int \<Rightarrow> bool" where
  "sig_ok sig \<longleftrightarrow> 0 < sig \<and> sig \<le> 64"

definition nx_sigemptyset :: "u64 option \<Rightarrow> u64 result" where
  "nx_sigemptyset s = (case s of None \<Rightarrow> Inl EINVAL | Some _ \<Rightarrow> Inr 0)"

definition nx_sigfillset :: "u64 option \<Rightarrow> u64 result" where
  "nx_sigfillset s = (case s of None \<Rightarrow> Inl EINVAL | Some _ \<Rightarrow> Inr (- 1))"

definition nx_sigaddset :: "u64 option \<Rightarrow> int \<Rightarrow> u64 result" where
  "nx_sigaddset s sig =
     (case s of None \<Rightarrow> Inl EINVAL | Some x \<Rightarrow> if \<not> sig_ok sig then Inl EINVAL else Inr (x OR push_bit (nat (sig - 1)) 1))"

definition nx_sigdelset :: "u64 option \<Rightarrow> int \<Rightarrow> u64 result" where
  "nx_sigdelset s sig =
     (case s of None \<Rightarrow> Inl EINVAL | Some x \<Rightarrow> if \<not> sig_ok sig then Inl EINVAL else Inr (x AND NOT (push_bit (nat (sig - 1)) 1)))"

text \<open>The signals of a set; the operations are those of sets.\<close>

definition sigs :: "u64 \<Rightarrow> int set" where
  "sigs x = {sig. sig_ok sig \<and> bit x (nat (sig - 1))}"

lemma sig_bit: "sig_ok sig \<Longrightarrow> sig_ok q \<Longrightarrow> bit (push_bit (nat (sig - 1)) 1 :: u64) (nat (q - 1)) \<longleftrightarrow> q = sig"
  by (auto simp: sig_ok_def bit_push_bit_iff bit_1_iff simp del: push_bit_of_1)

lemma sigs_ops:
  shows "nx_sigemptyset (Some x) = Inr y \<Longrightarrow> sigs y = {}"
    and "nx_sigfillset (Some x) = Inr y \<Longrightarrow> sigs y = {1..64}"
    and "nx_sigaddset (Some x) sig = Inr y \<Longrightarrow> sigs y = insert sig (sigs x)"
    and "nx_sigdelset (Some x) sig = Inr y \<Longrightarrow> sigs y = sigs x - {sig}"
proof -
  show "nx_sigemptyset (Some x) = Inr y \<Longrightarrow> sigs y = {}" by (auto simp: nx_sigemptyset_def sigs_def)
  show "nx_sigfillset (Some x) = Inr y \<Longrightarrow> sigs y = {1..64}" by (auto simp: nx_sigfillset_def sigs_def sig_ok_def)
  show "sigs y = insert sig (sigs x)" if c: "nx_sigaddset (Some x) sig = Inr y"
  proof -
    have s: "sig_ok sig" "y = x OR push_bit (nat (sig - 1)) 1" using c by (simp_all add: nx_sigaddset_def split: if_splits)
    show ?thesis unfolding sigs_def s(2) using s(1) sig_bit [OF s(1)] by (auto simp only: bit_or_iff)
  qed
  show "sigs y = sigs x - {sig}" if c: "nx_sigdelset (Some x) sig = Inr y"
  proof -
    have s: "sig_ok sig" "y = x AND NOT (push_bit (nat (sig - 1)) 1)" using c by (simp_all add: nx_sigdelset_def split: if_splits)
    have b: "bit y (nat (q - 1)) \<longleftrightarrow> bit x (nat (q - 1)) \<and> q \<noteq> sig" if q: "sig_ok q" for q
    proof -
      have "nat (q - 1) < 64" using q by (auto simp: sig_ok_def)
      then show ?thesis unfolding s(2) using sig_bit [OF s(1) q] by (simp add: bit_and_iff bit_not_iff del: push_bit_of_1)
    qed
    show ?thesis unfolding sigs_def using b by blast
  qed
qed

section \<open>Random numbers\<close>

definition nx_srand48 :: "u64 \<Rightarrow> u64" where
  "nx_srand48 seed = push_bit 16 seed OR 0x330e"

text \<open>The number, and the next state.\<close>

definition nx_lrand48 :: "u64 \<Rightarrow> u64 \<times> u64" where
  "nx_lrand48 g = (let g' = (0x5deece66d * g + 0xb) AND (push_bit 48 1 - 1) in (drop_bit 17 g', g'))"

text \<open>The generator of the standard: the state modulo \<open>2 ^ 48\<close>, the number its upper 31 bits.\<close>

lemma lrand48_standard:
  "unat (snd (nx_lrand48 g)) = (0x5deece66d * unat g + 0xb) mod 2 ^ 48 \<and>
   unat (fst (nx_lrand48 g)) = unat (snd (nx_lrand48 g)) div 2 ^ 17 \<and> unat (fst (nx_lrand48 g)) < 2 ^ 31"
proof -
  let ?x = "0x5deece66d * g + 0xb" and ?n = "0x5deece66d * unat g + 0xb"
  have m: "?x AND (push_bit 48 1 - 1) = take_bit 48 ?x"
    by (simp add: take_bit_eq_mask mask_eq_exp_minus_1 push_bit_eq_mult)
  have u: "unat ?x = ?n mod 2 ^ 64"
    by (simp add: unat_word_ariths mod_simps)
  have s: "unat (snd (nx_lrand48 g)) = ?n mod 2 ^ 48"
    unfolding nx_lrand48_def Let_def snd_conv m unsigned_take_bit_eq u by (simp add: take_bit_eq_mod mod_mod_cancel)
  have f: "unat (fst (nx_lrand48 g)) = unat (snd (nx_lrand48 g)) div 2 ^ 17"
    by (simp only: nx_lrand48_def Let_def fst_conv snd_conv unat_drop_bit_eq) (simp only: drop_bit_eq_div)
  have "?n mod 2 ^ 48 < 2 ^ 48" by simp
  then have "?n mod 2 ^ 48 div 2 ^ 17 < 2 ^ 31" by (simp add: less_mult_imp_div_less)
  with s f show ?thesis by simp
qed

section \<open>Windows of surfaces\<close>

text \<open>Eight entries; the surface 0 marks a free one.\<close>

type_synonym surfaces = "(u64 \<times> u64) list"

definition EGL_SLOTS :: nat where "EGL_SLOTS = 8"

definition nx_egl_window_for_surface :: "u64 \<Rightarrow> surfaces \<Rightarrow> u64 option" where
  "nx_egl_window_for_surface surface t = map_option (\<lambda>i. snd (t ! i)) (scan (\<lambda>i. fst (t ! i) = surface) 0 EGL_SLOTS)"

text \<open>\<open>valid\<close> is \<^verbatim>\<open>nwindowIsValid\<close>.\<close>

definition nx_egl_track_window_surface :: "bool \<Rightarrow> u64 \<Rightarrow> u64 \<Rightarrow> surfaces \<Rightarrow> surfaces" where
  "nx_egl_track_window_surface valid surface window t =
     (if surface = 0 \<or> window = 0 \<or> \<not> valid then t
      else (case scan (\<lambda>i. fst (t ! i) = surface \<or> fst (t ! i) = 0) 0 EGL_SLOTS of
              Some i \<Rightarrow> t[i := (surface, window)]
            | None \<Rightarrow> t))"

definition nx_egl_untrack_surface :: "u64 \<Rightarrow> surfaces \<Rightarrow> surfaces" where
  "nx_egl_untrack_surface surface t = map (\<lambda>e. if fst e = surface then (0, 0) else e) t"

text \<open>\<open>dims\<close> is the size of a window, \<open>None\<close> when it is not known; a size the driver does not know is replaced.\<close>

definition nx_eglQuerySurface :: "bool \<Rightarrow> u64 \<Rightarrow> bool \<Rightarrow> bool \<Rightarrow> int \<Rightarrow> (u64 \<Rightarrow> (u32 \<times> u32) option) \<Rightarrow> surfaces \<Rightarrow> int" where
  "nx_eglQuerySurface ok surface is_width is_height value dims t =
     (if ok \<and> (is_width \<or> is_height) \<and> value \<le> 0 then
        (case nx_egl_window_for_surface surface t of
           None \<Rightarrow> value
         | Some window \<Rightarrow>
             if window = 0 then value
             else (case dims window of
                     None \<Rightarrow> value
                   | Some (width, height) \<Rightarrow>
                       if width = 0 \<or> height = 0 then value else if is_width then sint width else sint height))
      else value)"

text \<open>
  A surface that is remembered has its newest window, one that is forgotten has none, and the
  others keep theirs.
\<close>

lemma egl_track:
  assumes "length t = EGL_SLOTS" "surface \<noteq> 0" "window \<noteq> 0" "\<exists>i < EGL_SLOTS. fst (t ! i) = surface \<or> fst (t ! i) = 0"
  shows "nx_egl_window_for_surface surface (nx_egl_track_window_surface True surface window t) = Some window \<and>
    (\<forall>q. q \<noteq> surface \<and> q \<noteq> 0 \<longrightarrow>
       nx_egl_window_for_surface q (nx_egl_track_window_surface True surface window t) = nx_egl_window_for_surface q t)"
proof -
  obtain i where s: "scan (\<lambda>i. fst (t ! i) = surface \<or> fst (t ! i) = 0) 0 EGL_SLOTS = Some i"
    using assms(4) by (cases "scan (\<lambda>i. fst (t ! i) = surface \<or> fst (t ! i) = 0) 0 EGL_SLOTS") (auto simp: scan_None_iff)
  have i: "i < EGL_SLOTS" "fst (t ! i) = surface \<or> fst (t ! i) = 0" "\<And>j. j < i \<Longrightarrow> fst (t ! j) \<noteq> surface"
    using s by (auto simp: scan_Some_iff)
  have e: "nx_egl_track_window_surface True surface window t = t[i := (surface, window)]"
    using assms(2,3) s by (simp add: nx_egl_track_window_surface_def)
  have at: "t[i := (surface, window)] ! j = (if j = i then (surface, window) else t ! j)" if "j < EGL_SLOTS" for j
    using that assms(1) by (simp add: nth_list_update)
  have "scan (\<lambda>j. fst (t[i := (surface, window)] ! j) = surface) 0 EGL_SLOTS = Some i"
    using i at by (auto simp: scan_Some_iff)
  then have "nx_egl_window_for_surface surface (t[i := (surface, window)]) = Some window"
    using at [OF i(1)] by (simp add: nx_egl_window_for_surface_def)
  moreover have "nx_egl_window_for_surface q (t[i := (surface, window)]) = nx_egl_window_for_surface q t"
    if q: "q \<noteq> surface" "q \<noteq> 0" for q
  proof -
    have "scan (\<lambda>j. fst (t[i := (surface, window)] ! j) = q) 0 EGL_SLOTS = scan (\<lambda>j. fst (t ! j) = q) 0 EGL_SLOTS"
      by (rule scan_cong) (use at i(2) q in auto)
    moreover have "snd (t[i := (surface, window)] ! j) = snd (t ! j)" if "scan (\<lambda>j. fst (t ! j) = q) 0 EGL_SLOTS = Some j" for j
      using scan_SomeD [OF that] at [of j] i(2) q by auto
    ultimately show ?thesis
      by (cases "scan (\<lambda>j. fst (t ! j) = q) 0 EGL_SLOTS") (simp_all add: nx_egl_window_for_surface_def)
  qed
  ultimately show ?thesis unfolding e by blast
qed

lemma egl_untrack:
  assumes "length t = EGL_SLOTS" "surface \<noteq> 0"
  shows "nx_egl_window_for_surface surface (nx_egl_untrack_surface surface t) = None"
  using assms by (auto simp: nx_egl_window_for_surface_def nx_egl_untrack_surface_def scan_None_iff)

end
