(* ===== verification/Spec2Isabelle.thy ===== *)
theory Spec2Isabelle
  imports PipeSystem MmapProps SyncProps FutexOps ThreadProps Tls Boehm BcProps RelocProps Startup Input PosIo FdBook InstallEnds AAudioProps PatchesProps FnmatchProps WideCharsProps JniSafe Polling Selecting Looper Frames FileMetaProps VirtualFiles Syscalls Streams
begin

text \<open>
  A verification of the console port of a mobile game (directory \<^verbatim>\<open>src\<close>).  The program loads the
  Android libraries of the game into its own address space and gives them what Android would: a
  loader, a C library, threads, files, sound, input and the Java side.  The models below are
  translated from the C files under \<^verbatim>\<open>src/source\<close>; names of definitions are those of the C
  functions wherever that is possible, and integers are words of the width the code has.

  \<^bold>\<open>How the parts interact.\<close>  On its first start the program installs the game from its archive
  (\<^verbatim>\<open>installer.c\<close>, which calls \<^verbatim>\<open>credits_patch.c\<close>).  It then divides the process heap (\<^verbatim>\<open>runtime.c\<close>), loads
  and relocates three libraries (\<^verbatim>\<open>so_util.c\<close>), whose imports are the functions of \<^verbatim>\<open>bionic.c\<close>,
  \<^verbatim>\<open>fakefd.c\<close>, \<^verbatim>\<open>file_bridge.c\<close>, \<^verbatim>\<open>imports.c\<close>, \<^verbatim>\<open>android_ndk.c\<close> and \<^verbatim>\<open>aaudio_bridge.c\<close>, patches the engine's code
  (\<^verbatim>\<open>unity_patches.c\<close>), and runs the game on a stack of its own (\<^verbatim>\<open>guest_stack.c\<close>).  The game calls the
  Java side through the table of \<^verbatim>\<open>jni_fake.c\<close> and gets the touches of \<^verbatim>\<open>input.c\<close>.

  \<^bold>\<open>Theories and sources.\<close>
  \<^item> \<open>Prelude\<close>: words, errno values, block copies, array scans, and the interface locales of a
    bounded FIFO and of a keyed registry.
  \<^item> \<open>FakeFd\<close>, \<open>PipeRing\<close>, \<open>PipeTable\<close>, \<open>PipeTransfer\<close>, \<open>PipeSystem\<close> (\<^verbatim>\<open>fakefd.c\<close>): emulated pipes.  The state
    is the table of 48 descriptors and the pipes behind them; \<open>PipeRing\<close> shows that the ring is a
    FIFO, \<open>PipeTable\<close> that reference counts are exact and no freed pipe is touched, \<open>PipeSystem\<close>
    that under any interleaving of threads bytes arrive in order and no wake-up is lost.
  \<^item> \<open>Mmap\<close>, \<open>MmapArena\<close>, \<open>MmapProps\<close> (\<^verbatim>\<open>bionic.c\<close>): the emulated \<^verbatim>\<open>mmap\<close> with its arena of 64 MiB slots:
    who owns which slot in every run, and what a mapping contains.
  \<^item> \<open>SyncSlots\<close>, \<open>EMutex\<close>, \<open>SyncSystem\<close>, \<open>CondSem\<close>, \<open>SyncProps\<close> (\<^verbatim>\<open>bionic.c\<close>): mutexes, condition variables,
    semaphores and \<^verbatim>\<open>pthread_once\<close>: mutual exclusion, deadlines, permits, one run of an initialiser.
  \<^item> \<open>Futex\<close>, \<open>FutexOps\<close> (\<^verbatim>\<open>bionic.c\<close>): the futex table as a finite map, and completeness of a wake.
  \<^item> \<open>Threads\<close>, \<open>ThreadSystem\<close>, \<open>ThreadProps\<close>, \<open>Tls\<close>, \<open>Boehm\<close> (\<^verbatim>\<open>bionic.c\<close>): thread objects, keys and attributes,
    and the stop-the-world support for the collector.
  \<^item> \<open>Etc2\<close>, \<open>Bc\<close>, \<open>BcProps\<close> (\<^verbatim>\<open>etc2_bc.c\<close>): the texture transcoder, compared with a reference decoder.
  \<^item> \<open>Loader\<close>, \<open>LoaderProps\<close>, \<open>RelocProps\<close> (\<^verbatim>\<open>so_util.c\<close>): the image of a library, its relocations (packed
    ones included), symbols and page permissions.
  \<^item> \<open>Startup\<close> (\<^verbatim>\<open>runtime.c\<close>, \<^verbatim>\<open>guest_stack.c\<close>, \<^verbatim>\<open>bionic_jump.c\<close>): the heap layout and the non-local jumps.
  \<^item> \<open>Patches\<close>, \<open>PatchesProps\<close> (\<^verbatim>\<open>unity_patches.c\<close>, \<^verbatim>\<open>config.h\<close>): every patch with its guards, and the hook
    that replaces the engine's clock.
  \<^item> \<open>Input\<close> (\<^verbatim>\<open>input.c\<close>): touches and the controller's cursor become a well-formed stream of events.
  \<^item> \<open>Paths\<close>, \<open>PosIo\<close>, \<open>FdBook\<close> (\<^verbatim>\<open>file_bridge.c\<close>, and \<^verbatim>\<open>nx_close\<close>, \<^verbatim>\<open>nx_dup\<close> and \<^verbatim>\<open>nx_fcntl\<close> of \<^verbatim>\<open>imports.c\<close>):
    translation of paths, reading at an offset, and the bookkeeping of descriptors.
  \<^item> \<open>Fnmatch\<close>, \<open>FnmatchProps\<close> and \<open>WideChars\<close>, \<open>WideCharsProps\<close> (\<^verbatim>\<open>imports.c\<close>): the pattern matcher against a
    declarative reading of patterns, and the conversions between UTF-8 and wide strings.
  \<^item> \<open>World\<close>, \<open>Zip\<close>, \<open>Extract\<close>, \<open>ExtractProps\<close>, \<open>Axml\<close>, \<open>AxmlProps\<close>, \<open>Installer\<close>, \<open>InstallerProps\<close>, \<open>InstallRun\<close>,
    \<open>InstallSafe\<close>, \<open>InstallEnds\<close> (\<^verbatim>\<open>installer.c\<close>) and \<open>Credits\<close> (\<^verbatim>\<open>credits_patch.c\<close>): the archive, the manifest
    parser, extraction, the plan of the space, and the whole run over a file system whose calls
    may fail at any point.
  \<^item> \<open>AAudio\<close>, \<open>AAudioPcm\<close>, \<open>AAudioOut\<close>, \<open>AAudioOutProps\<close>, \<open>AAudioStream\<close>, \<open>AAudioSystem\<close>, \<open>AAudioProps\<close>
    (\<^verbatim>\<open>aaudio_bridge.c\<close>): conversion and resampling of samples, the output thread over the device, and
    the life of streams.
  \<^item> \<open>JniHeap\<close>, \<open>JniCalls\<close>, \<open>JniArrays\<close>, \<open>JniTypes\<close>, \<open>JniProps\<close>, \<open>JniSystem\<close>, \<open>JniSafe\<close> (\<^verbatim>\<open>jni_fake.c\<close>): the
    heap of fake Java objects, the entry points of the JNI table, and the typing theorem.
  \<^item> \<open>Polling\<close>, \<open>Selecting\<close> (\<^verbatim>\<open>imports.c\<close>): waiting for several descriptors with \<^verbatim>\<open>poll\<close> and \<^verbatim>\<open>select\<close>.
  \<^item> \<open>Looper\<close>, \<open>Frames\<close> (\<^verbatim>\<open>android_ndk.c\<close>): the loopers of threads with their registrations of descriptors and
    the wait of \<^verbatim>\<open>ALooper_pollOnce\<close>; frame callbacks posted and called by interleaved threads; the
    size of the window.
  \<^item> \<open>FileMeta\<close>, \<open>FileMetaProps\<close>, \<open>VirtualFiles\<close> (\<^verbatim>\<open>file_bridge.c\<close>): metadata and directories in the layout of
    Android, with every call to the host; the files that stand for \<^verbatim>\<open>/proc\<close> and \<^verbatim>\<open>/sys\<close>.
  \<^item> \<open>Syscalls\<close> (\<^verbatim>\<open>bionic.c\<close>), \<open>Streams\<close> (\<^verbatim>\<open>imports.c\<close>): copying between vectors of buffers, affinity and
    processors; vectored transfers, \<^verbatim>\<open>sendfile\<close>, the password entry, sets of signals, random numbers and
    the windows of surfaces.

  \<^bold>\<open>How the code is modelled.\<close>  Structures are records, unions and tags datatypes, C arrays lists
  updated by index, and pointers to objects keys of a map.  Errors are values: \<open>Inl\<close> of an errno,
  an option, or a return code kept as the code has it.  An access outside an object is a value of
  its own (\<open>None\<close>, or a flag in the state), which the safety properties exclude.  Code that
  blocks is cut at the places where it sleeps: a step is one critical section of one thread, and
  the properties of threads hold for every sequence of steps.  Services below the program (the
  console's kernel, its audio device, the C library, zlib) are arguments of the models; what is
  assumed of them is a named hypothesis, and each property with hypotheses has a witness that
  instantiates them.

  \<^bold>\<open>Groups of lemmas.\<close>  Each component has an invariant (\<open>safe\<close>, \<open>jni_ok\<close>, and others), a lemma for each
  operation that keeps it, and one for its effect on every branch; shared contracts are locales
  (a FIFO, a registry, patching, an interface of files), interpreted on the model that provides
  them.  The properties, marked C1 to C40 in the texts, are drawn from these lemmas.

  \<^bold>\<open>Bounds and fuel.\<close>  Recursion follows the data or a measure wherever the loop is bounded.  The loop
  around \<^verbatim>\<open>inflate\<close> is a \<^verbatim>\<open>partial_function\<close>, and \<open>installer_returns\<close> shows that it ends for a decoder
  that makes progress; the waits of \<^verbatim>\<open>poll\<close>, \<^verbatim>\<open>select\<close> and \<^verbatim>\<open>ALooper_pollOnce\<close>, which may have no time
  limit, are partial functions too, with the exact cases in which they return.  That stopping and
  closing a stream end is shown for the runs in which the output thread gets its turns.

  \<^bold>\<open>Not modelled.\<close>  The main program and its diagnosis thread (calls of the parts above and of the
  engine); the table of imports and the wrappers around the graphics and network libraries, whose
  effect is outside the program; traces, crash logs and fatal messages; functions that answer a
  constant; code that is compiled out (\<^verbatim>\<open>fmod_audio.c\<close>, the trace log, and the wrappers of
  \<^verbatim>\<open>imports.c\<close> around OpenGL ES, with them the only callers of the texture transcoder); the generated
  tables of the credits; the sensors of \<^verbatim>\<open>android_ndk.c\<close>; the statistics of \<^verbatim>\<open>file_bridge.c\<close>; of
  \<^verbatim>\<open>bionic.c\<close> and \<^verbatim>\<open>aaudio_bridge.c\<close> the diagnosis of threads and streams and the calls that answer
  constants; and assembly.
\<close>

end
